(* ===== verification/Prelude.thy ===== *)
theory Prelude
  imports Main "HOL-Library.AList" "HOL-Library.List_Lexorder" "HOL-Library.Product_Lexorder"
    "HOL-Library.Word"
begin

text \<open>
  Shared vocabulary of the development: the Python exceptions as values, the result type of
  code that may raise, insertion-ordered dictionaries, and the two shapes of loop the
  sources use to build a list while an exception may cut the loop short.  Identifiers
  (entities, expressions, chains, groups) are non-negative Python integers and are modelled as
  \<open>nat\<close>; the upper bound the constructors test is kept explicit (\<open>U32_RESERVED\<close>).
\<close>

section \<open>Errors and results\<close>

datatype py_error =
    ValueError
  | PyTypeError
  | IndexError
  | KeyError
  | RuntimeError
  | PyAssertionError
  | OverflowError
  | StopIteration
  | UnicodeEncodeError
  | UnicodeDecodeError
  | StructError
  | BackendProtocolError
  | SaturationInterrupted
  | SaturationBudgetExceeded

type_synonym 'a result = "py_error + 'a"

definition rbind :: "'a result \<Rightarrow> ('a \<Rightarrow> 'b result) \<Rightarrow> 'b result" where
  "rbind m f = (case m of Inl e \<Rightarrow> Inl e | Inr a \<Rightarrow> f a)"

definition rmap :: "('a \<Rightarrow> 'b) \<Rightarrow> 'a result \<Rightarrow> 'b result" where
  "rmap f m = rbind m (\<lambda>a. Inr (f a))"

definition rassert :: "bool \<Rightarrow> py_error \<Rightarrow> unit result" where
  "rassert b e = (if b then Inr () else Inl e)"

text \<open>Two blocks run one after the other, the products of both in order.\<close>

definition rappend :: "'a list result \<Rightarrow> 'a list result \<Rightarrow> 'a list result" where
  "rappend m n = rbind m (\<lambda>xs. rbind n (\<lambda>ys. Inr (xs @ ys)))"

text \<open>A \<open>for\<close> loop whose body yields products: the first exception ends the loop.\<close>

fun rconcat_map :: "('a \<Rightarrow> 'b list result) \<Rightarrow> 'a list \<Rightarrow> 'b list result" where
  "rconcat_map f [] = Inr []"
| "rconcat_map f (x # xs) = rappend (f x) (rconcat_map f xs)"

text \<open>A \<open>for\<close> loop that only checks: the first failing check raises.\<close>

fun rall :: "('a \<Rightarrow> unit result) \<Rightarrow> 'a list \<Rightarrow> unit result" where
  "rall f [] = Inr ()"
| "rall f (x # xs) = rbind (f x) (\<lambda>_. rall f xs)"

text \<open>A \<open>for\<close> loop that threads a state.\<close>

fun rfold :: "('a \<Rightarrow> 's \<Rightarrow> 's result) \<Rightarrow> 'a list \<Rightarrow> 's \<Rightarrow> 's result" where
  "rfold f [] s = Inr s"
| "rfold f (x # xs) s = rbind (f x s) (rfold f xs)"

text \<open>A sequence of checks: the first that fails is the exception raised.\<close>

definition checks :: "unit result list \<Rightarrow> unit result" where
  "checks cs = rall (\<lambda>c. c) cs"

fun rmap_list :: "('a \<Rightarrow> 'b result) \<Rightarrow> 'a list \<Rightarrow> 'b list result" where
  "rmap_list f [] = Inr []"
| "rmap_list f (x # xs) = rbind (f x) (\<lambda>y. rbind (rmap_list f xs) (\<lambda>ys. Inr (y # ys)))"

lemma rbind_simps [simp]:
  "rbind (Inl e) f = Inl e"
  "rbind (Inr a) f = f a"
  by (simp_all add: rbind_def)

lemma rbind_Inr_iff [simp]: "rbind m f = Inr b \<longleftrightarrow> (\<exists>a. m = Inr a \<and> f a = Inr b)"
  by (auto simp: rbind_def split: sum.splits)

lemma rbind_cong [fundef_cong]: "m = m' \<Longrightarrow> (\<And>a. m' = Inr a \<Longrightarrow> f a = f' a) \<Longrightarrow> rbind m f = rbind m' f'"
  by (auto simp: rbind_def split: sum.splits)

lemma rmap_simps [simp]:
  "rmap g (Inl e) = Inl e"
  "rmap g (Inr a) = Inr (g a)"
  by (simp_all add: rmap_def)

lemma rmap_Inr_iff [simp]: "rmap g m = Inr b \<longleftrightarrow> (\<exists>a. m = Inr a \<and> b = g a)"
  by (auto simp: rmap_def)

lemma rassert_Inr_iff [simp]: "rassert b e = Inr u \<longleftrightarrow> b"
  by (simp add: rassert_def)

lemma rassert_True [simp]: "rassert True e = Inr ()"
  by (simp add: rassert_def)

lemma rall_Inr_iff: "rall f xs = Inr u \<longleftrightarrow> (\<forall>x \<in> set xs. f x = Inr ())"
  by (induction xs) auto

lemma checks_Inr_iff: "checks cs = Inr u \<longleftrightarrow> (\<forall>c \<in> set cs. c = Inr ())"
  by (simp add: checks_def rall_Inr_iff)

lemma checks_simps [simp]:
  "checks [] = Inr ()"
  "checks (c # cs) = Inr u \<longleftrightarrow> c = Inr () \<and> checks cs = Inr ()"
  by (simp_all add: checks_def)

lemma rmap_list_Inr:
  "(\<And>x. x \<in> set xs \<Longrightarrow> f x = Inr (g x)) \<Longrightarrow> rmap_list f xs = Inr (map g xs)"
  by (induction xs) auto

lemma rfold_Inr:
  "(\<And>x s. x \<in> set xs \<Longrightarrow> f x s = Inr (g x s)) \<Longrightarrow> rfold f xs s = Inr (fold g xs s)"
  by (induction xs arbitrary: s) auto

section \<open>Which products a producing block yields\<close>

text \<open>
  \<open>yields m S\<close>: the block does not raise and the set of its products is \<open>S\<close>.  The order of
  the products is irrelevant to the duplicate-suppressing agenda, so the lemmas about rules
  speak of sets only.
\<close>

named_theorems yields_intros

definition yields :: "'a list result \<Rightarrow> 'a set \<Rightarrow> bool" where
  "yields m S \<longleftrightarrow> (\<exists>xs. m = Inr xs \<and> set xs = S)"

lemma yieldsE: "yields m S \<Longrightarrow> (\<And>xs. m = Inr xs \<Longrightarrow> set xs = S \<Longrightarrow> thesis) \<Longrightarrow> thesis"
  by (auto simp: yields_def)

lemma yields_Inr [simp]: "yields (Inr xs) S \<longleftrightarrow> set xs = S"
  by (auto simp: yields_def)

lemma yields_Inl [simp]: "\<not> yields (Inl e) S"
  by (simp add: yields_def)

lemma yields_rappend: "yields m S \<Longrightarrow> yields n T \<Longrightarrow> yields (rappend m n) (S \<union> T)"
  by (auto simp: yields_def rappend_def)

lemma yields_rconcat_map:
  "(\<And>x. x \<in> set xs \<Longrightarrow> yields (f x) (S x)) \<Longrightarrow> yields (rconcat_map f xs) (\<Union>x \<in> set xs. S x)"
proof (induction xs)
  case Nil
  then show ?case by simp
next
  case (Cons x xs)
  then have "yields (f x) (S x)" "yields (rconcat_map f xs) (\<Union>x \<in> set xs. S x)"
    by auto
  then show ?case by (auto dest: yields_rappend)
qed

lemma yields_if:
  "(b \<Longrightarrow> yields m S) \<Longrightarrow> (\<not> b \<Longrightarrow> yields n T) \<Longrightarrow> yields (if b then m else n) (if b then S else T)"
  by simp

lemma yields_eq: "yields m S \<Longrightarrow> S = T \<Longrightarrow> yields m T"
  by simp

text \<open>The same when only an image of the products matters.\<close>

definition yields_image :: "('a \<Rightarrow> 'b) \<Rightarrow> 'a list result \<Rightarrow> 'b set \<Rightarrow> bool" where
  "yields_image g m S \<longleftrightarrow> (\<exists>xs. m = Inr xs \<and> g ` set xs = S)"

lemma yields_image_Inr [simp]: "yields_image g (Inr xs) S \<longleftrightarrow> g ` set xs = S"
  by (auto simp: yields_image_def)

lemma yields_image_rconcat_map:
  "(\<And>x. x \<in> set xs \<Longrightarrow> yields_image g (f x) (S x)) \<Longrightarrow> yields_image g (rconcat_map f xs) (\<Union>x \<in> set xs. S x)"
proof (induction xs)
  case Nil
  then show ?case by simp
next
  case (Cons x xs)
  then have "yields_image g (f x) (S x)" "yields_image g (rconcat_map f xs) (\<Union>x \<in> set xs. S x)"
    by auto
  then obtain ys zs where "f x = Inr ys" "g ` set ys = S x" "rconcat_map f xs = Inr zs"
    "g ` set zs = (\<Union>x \<in> set xs. S x)"
    unfolding yields_image_def by blast
  then show ?case by (simp add: rappend_def image_Un)
qed

lemma yields_image_eq: "yields_image g m S \<Longrightarrow> S = T \<Longrightarrow> yields_image g m T"
  by simp

section \<open>Dictionaries\<close>

text \<open>
  A Python \<open>dict\<close> keeps insertion order, and storing under an existing key keeps its place:
  an association list with the library's \<open>AList.update\<close>.
\<close>

type_synonym ('k, 'v) dict = "('k \<times> 'v) list"

abbreviation dict_get :: "('k, 'v) dict \<Rightarrow> 'k \<Rightarrow> 'v option" where
  "dict_get d k \<equiv> map_of d k"

abbreviation dict_put :: "'k \<Rightarrow> 'v \<Rightarrow> ('k, 'v) dict \<Rightarrow> ('k, 'v) dict" where
  "dict_put k v d \<equiv> AList.update k v d"

definition dict_keys :: "('k, 'v) dict \<Rightarrow> 'k set" where
  "dict_keys d = fst ` set d"

definition dict_contains :: "('k, 'v) dict \<Rightarrow> 'k \<Rightarrow> bool" where
  "dict_contains d k = (dict_get d k \<noteq> None)"

text \<open>\<open>d.setdefault(k, set()).add(v)\<close> and \<open>d.get(k, ())\<close> on a dictionary of sets.\<close>

definition multimap_get :: "('k, 'v set) dict \<Rightarrow> 'k \<Rightarrow> 'v set" where
  "multimap_get d k = (case dict_get d k of None \<Rightarrow> {} | Some s \<Rightarrow> s)"

definition multimap_add :: "('k, 'v set) dict \<Rightarrow> 'k \<Rightarrow> 'v \<Rightarrow> ('k, 'v set) dict" where
  "multimap_add d k v = dict_put k (insert v (multimap_get d k)) d"

definition multimap_rel :: "('k, 'v set) dict \<Rightarrow> ('k \<times> 'v) set" where
  "multimap_rel d = {(k, v). v \<in> multimap_get d k}"

lemma dict_get_put [simp]: "dict_get (dict_put k v d) k' = (if k = k' then Some v else dict_get d k')"
  by (simp add: update_conv')

lemma dict_keys_dom: "dict_keys d = dom (dict_get d)"
  by (simp add: dict_keys_def dom_map_of_conv_image_fst)

lemma dict_keys_put [simp]: "dict_keys (dict_put k v d) = insert k (dict_keys d)"
  by (auto simp: dict_keys_dom dom_def update_conv' split: if_splits)

lemma dict_contains_iff: "dict_contains d k \<longleftrightarrow> k \<in> dict_keys d"
  by (auto simp: dict_contains_def dict_keys_def map_of_eq_None_iff)

lemma multimap_get_Nil [simp]: "multimap_get [] k = {}"
  by (simp add: multimap_get_def)

lemma multimap_get_add [simp]:
  "multimap_get (multimap_add d k v) k' = (if k' = k then insert v (multimap_get d k) else multimap_get d k')"
  by (simp add: multimap_get_def multimap_add_def)

lemma multimap_rel_Nil [simp]: "multimap_rel [] = {}"
  by (simp add: multimap_rel_def)

lemma multimap_rel_add [simp]: "multimap_rel (multimap_add d k v) = insert (k, v) (multimap_rel d)"
  by (auto simp: multimap_rel_def split: if_splits)

lemma multimap_get_rel: "v \<in> multimap_get d k \<longleftrightarrow> (k, v) \<in> multimap_rel d"
  by (simp add: multimap_rel_def)

lemma distinct_dict_put: "distinct (map fst d) \<Longrightarrow> distinct (map fst (dict_put k v d))"
  by (rule distinct_update)

lemma dict_put_fresh: "k \<notin> dict_keys d \<Longrightarrow> dict_put k v d = d @ [(k, v)]"
  by (induction d) (auto simp: dict_keys_def)

lemma dict_get_mem: "distinct (map fst d) \<Longrightarrow> (k, v) \<in> set d \<longleftrightarrow> dict_get d k = Some v"
  by simp

text \<open>Sorting by distinct keys forgets the insertion order.\<close>

lemma sort_key_canonical:
  assumes "distinct (map f xs)" and "distinct (map f ys)" and "set xs = set ys"
  shows "sort_key f xs = sort_key f ys"
proof (rule map_sorted_distinct_set_unique [where f = f])
  show "distinct (map f (sort_key f xs))" "distinct (map f (sort_key f ys))"
    using assms(1,2) by (simp_all add: distinct_map)
  show "inj_on f (set (sort_key f xs) \<union> set (sort_key f ys))"
    using assms by (simp add: distinct_map)
qed (use assms in simp_all)

definition no_empty_values :: "('k, 'v set) dict \<Rightarrow> bool" where
  "no_empty_values d \<longleftrightarrow> distinct (map fst d) \<and> (\<forall>(k, s) \<in> set d. s \<noteq> {} \<and> finite s)"

lemma no_empty_values_Nil [simp]: "no_empty_values []"
  by (simp add: no_empty_values_def)

lemma set_dict_put: "set (dict_put k v d) \<subseteq> insert (k, v) (set d)"
  by (induction d) auto

lemma finite_multimap_get: "no_empty_values d \<Longrightarrow> finite (multimap_get d k)"
  by (auto simp: no_empty_values_def multimap_get_def split: option.splits dest!: map_of_SomeD)

lemma no_empty_values_add [simp]: "no_empty_values d \<Longrightarrow> no_empty_values (multimap_add d k v)"
  using finite_multimap_get [of d k] set_dict_put [of k "insert v (multimap_get d k)" d]
  by (auto simp: no_empty_values_def multimap_add_def distinct_update)

text \<open>Such a dictionary is determined, up to insertion order, by its relation.\<close>

lemma no_empty_values_set:
  assumes "no_empty_values d"
  shows "set d = (\<lambda>k. (k, multimap_rel d `` {k})) ` Domain (multimap_rel d)"
proof -
  have get: "multimap_rel d `` {k} = s" if "(k, s) \<in> set d" for k s
    using assms that by (auto simp: multimap_rel_def multimap_get_def no_empty_values_def)
  have ne: "s \<noteq> {}" if "(k, s) \<in> set d" for k s
    using assms that by (auto simp: no_empty_values_def)
  have key: "\<exists>s. (k, s) \<in> set d" if "k \<in> Domain (multimap_rel d)" for k
    using that by (auto simp: multimap_rel_def multimap_get_def split: option.splits dest!: map_of_SomeD)
  show ?thesis
  proof (intro equalityI subsetI)
    fix x assume x: "x \<in> set d"
    obtain k s where [simp]: "x = (k, s)" by (cases x)
    from get ne x have "multimap_rel d `` {k} = s" "s \<noteq> {}" by auto
    then have "k \<in> Domain (multimap_rel d)" by blast
    with \<open>multimap_rel d `` {k} = s\<close> show "x \<in> (\<lambda>k. (k, multimap_rel d `` {k})) ` Domain (multimap_rel d)"
      by auto
  next
    fix x assume "x \<in> (\<lambda>k. (k, multimap_rel d `` {k})) ` Domain (multimap_rel d)"
    then obtain k where x: "x = (k, multimap_rel d `` {k})" and "k \<in> Domain (multimap_rel d)" by auto
    with key get show "x \<in> set d" by force
  qed
qed

section \<open>Grouping\<close>

text \<open>\<open>d[k].append(v)\<close> on a \<open>defaultdict(list)\<close>, and the dictionary such a loop leaves.\<close>

definition group_append :: "'k \<Rightarrow> 'v \<Rightarrow> ('k, 'v list) dict \<Rightarrow> ('k, 'v list) dict" where
  "group_append k v d = dict_put k ((case dict_get d k of None \<Rightarrow> [] | Some vs \<Rightarrow> vs) @ [v]) d"

definition group_by :: "('a \<Rightarrow> 'k) \<Rightarrow> ('a \<Rightarrow> 'v) \<Rightarrow> 'a list \<Rightarrow> ('k, 'v list) dict" where
  "group_by kf vf xs = fold (\<lambda>x. group_append (kf x) (vf x)) xs []"

lemma group_by_snoc: "group_by kf vf (xs @ [x]) = group_append (kf x) (vf x) (group_by kf vf xs)"
  by (simp add: group_by_def)

lemma group_by_get:
  "dict_get (group_by kf vf xs) k =
     (let ys = filter (\<lambda>x. kf x = k) xs in if ys = [] then None else Some (map vf ys))"
proof (induction xs rule: rev_induct)
  case Nil
  then show ?case by (simp add: group_by_def)
next
  case (snoc x xs)
  then show ?case by (auto simp: group_by_snoc group_append_def Let_def)
qed

lemma group_by_distinct: "distinct (map fst (group_by kf vf xs))"
proof (induction xs rule: rev_induct)
  case Nil
  then show ?case by (simp add: group_by_def)
next
  case (snoc x xs)
  then show ?case by (simp add: group_by_snoc group_append_def distinct_update)
qed

definition group_get :: "('k, 'v list) dict \<Rightarrow> 'k \<Rightarrow> 'v list" where
  "group_get d k = (case dict_get d k of None \<Rightarrow> [] | Some vs \<Rightarrow> vs)"

lemma set_group_by: "set (group_get (group_by kf vf xs) k) = {vf x |x. x \<in> set xs \<and> kf x = k}"
  by (auto simp: group_get_def group_by_get Let_def filter_empty_conv)

text \<open>Two-level dictionaries.\<close>

definition nested_get :: "('a, ('b, 'v) dict) dict \<Rightarrow> 'a \<Rightarrow> 'b \<Rightarrow> 'v option" where
  "nested_get d a b = (case dict_get d a of None \<Rightarrow> None | Some inner \<Rightarrow> dict_get inner b)"

definition nested_put :: "'a \<Rightarrow> 'b \<Rightarrow> 'v \<Rightarrow> ('a, ('b, 'v) dict) dict \<Rightarrow> ('a, ('b, 'v) dict) dict" where
  "nested_put a b v d = dict_put a (dict_put b v (case dict_get d a of None \<Rightarrow> [] | Some inner \<Rightarrow> inner)) d"

definition nested_inv :: "('a, ('b, 'v) dict) dict \<Rightarrow> bool" where
  "nested_inv d \<longleftrightarrow> (\<forall>a inner. dict_get d a = Some inner \<longrightarrow> inner \<noteq> [] \<and> distinct (map fst inner))"

lemma nested_get_put: "nested_get (nested_put a b v d) a' b' = (if a' = a \<and> b' = b then Some v else nested_get d a' b')"
  by (auto simp: nested_get_def nested_put_def split: option.splits)

lemma dict_put_not_Nil [simp]: "dict_put k v d \<noteq> []"
  by (cases d) auto

lemma nested_inv_put: "nested_inv d \<Longrightarrow> nested_inv (nested_put a b v d)"
  by (auto simp: nested_inv_def nested_put_def distinct_update split: option.splits if_splits)

lemma nested_fold:
  assumes "distinct (map kf xs)"
  shows "nested_inv (fold (\<lambda>x. nested_put (fst (kf x)) (snd (kf x)) (vf x)) xs [])"
    and "nested_get (fold (\<lambda>x. nested_put (fst (kf x)) (snd (kf x)) (vf x)) xs []) a b =
      map_of (map (\<lambda>x. (kf x, vf x)) xs) (a, b)"
proof -
  have "nested_inv (fold (\<lambda>x. nested_put (fst (kf x)) (snd (kf x)) (vf x)) xs []) \<and>
    (\<forall>a b. nested_get (fold (\<lambda>x. nested_put (fst (kf x)) (snd (kf x)) (vf x)) xs []) a b =
      map_of (map (\<lambda>x. (kf x, vf x)) xs) (a, b))"
    using assms
  proof (induction xs rule: rev_induct)
    case Nil
    then show ?case by (simp add: nested_inv_def nested_get_def)
  next
    case (snoc x xs)
    have new: "map_of (map (\<lambda>x. (kf x, vf x)) xs) (kf x) = None"
      using snoc.prems by (force simp: map_of_eq_None_iff)
    with snoc show ?case
      by (cases "kf x") (auto simp: nested_get_put nested_inv_put map_add_def split: option.splits)
  qed
  then show "nested_inv (fold (\<lambda>x. nested_put (fst (kf x)) (snd (kf x)) (vf x)) xs [])"
    and "nested_get (fold (\<lambda>x. nested_put (fst (kf x)) (snd (kf x)) (vf x)) xs []) a b =
      map_of (map (\<lambda>x. (kf x, vf x)) xs) (a, b)" by auto
qed

section \<open>Strict sorting, as the validators test it\<close>

text \<open>\<open>any(ordered[i - 1] >= ordered[i] for i in range(1, n))\<close>, negated.\<close>

fun strictly_sorted :: "'a::ord list \<Rightarrow> bool" where
  "strictly_sorted [] = True"
| "strictly_sorted [x] = True"
| "strictly_sorted (x # y # ys) = (x < y \<and> strictly_sorted (y # ys))"

lemma strictly_sorted_wrt: "strictly_sorted (xs :: 'a::linorder list) \<longleftrightarrow> sorted_wrt (<) xs"
proof (induction xs rule: strictly_sorted.induct)
  case (3 x y ys)
  then show ?case by (auto dest: less_trans)
qed simp_all

lemma strictly_sorted_distinct: "strictly_sorted (xs :: 'a::linorder list) \<Longrightarrow> distinct xs"
  by (metis strictly_sorted_wrt strict_sorted_iff)

lemma strictly_sorted_list_of_set: "strictly_sorted (sorted_list_of_set (A :: 'a::linorder set))"
  by (simp add: strictly_sorted_wrt)

text \<open>The first index whose element satisfies a test: \<open>next(i for i, x in enumerate(xs) if ..)\<close>.\<close>

fun find_index_from :: "nat \<Rightarrow> ('a \<Rightarrow> bool) \<Rightarrow> 'a list \<Rightarrow> nat option" where
  "find_index_from n p [] = None"
| "find_index_from n p (x # xs) = (if p x then Some n else find_index_from (Suc n) p xs)"

abbreviation find_index :: "('a \<Rightarrow> bool) \<Rightarrow> 'a list \<Rightarrow> nat option" where
  "find_index \<equiv> find_index_from 0"

lemma find_index_from_Some:
  "find_index_from n p xs = Some i \<Longrightarrow> n \<le> i \<and> i - n < length xs \<and> p (xs ! (i - n))"
proof (induction xs arbitrary: n)
  case Nil
  then show ?case by simp
next
  case (Cons x xs)
  show ?case
  proof (cases "p x")
    case True
    with Cons.prems show ?thesis by simp
  next
    case False
    with Cons.prems have "find_index_from (Suc n) p xs = Some i" by simp
    from Cons.IH [OF this] show ?thesis
      by (auto simp: Suc_diff_le nth_Cons' diff_less_mono2)
  qed
qed

lemma find_index_from_None: "find_index_from n p xs = None \<longleftrightarrow> (\<forall>x \<in> set xs. \<not> p x)"
  by (induction xs arbitrary: n) auto

lemma find_index_Some: "find_index p xs = Some i \<Longrightarrow> i < length xs \<and> p (xs ! i)"
  using find_index_from_Some [of 0 p xs i] by simp

section \<open>Lexicographic descent\<close>

lemma lexicographic_induct [case_names less]:
  fixes P :: "nat \<Rightarrow> nat \<Rightarrow> bool"
  assumes "\<And>m n. (\<And>k l. k < m \<or> k = m \<and> l < n \<Longrightarrow> P k l) \<Longrightarrow> P m n"
  shows "P m n"
proof (induction "(m, n)" arbitrary: m n rule: wf_induct_rule [OF wf_lex_prod [OF wf_less wf_less]])
  case (1 m n)
  show ?case by (rule assms) (use 1 in auto)
qed

end
