(* ===== verification/IR.thy ===== *)
theory IR
  imports Prelude
begin

unbundle bit_operations_syntax

text \<open>
  \<open>src/pyelk/indexing/ir.py\<close>: the frozen records both backends consume and the validation their
  constructors run.  A Python \<open>str\<close> is a list of code points, \<open>bytes\<close> a list of 8-bit words.
  The dynamic type tests of the constructors hold by typing; every other test is a branch.
\<close>

section \<open>Constants, kinds and tags\<close>

type_synonym py_str = "nat list"
type_synonym byte = "8 word"
type_synonym bytes = "byte list"

definition U32_RESERVED :: nat where
  "U32_RESERVED = 4294967295"

definition U32_MAX :: nat where
  "U32_MAX = U32_RESERVED - 1"

definition U64_MAX :: nat where
  "U64_MAX = 18446744073709551615"

definition FEATURE_VECTOR_LENGTH :: nat where
  "FEATURE_VECTOR_LENGTH = 79"

definition FINGERPRINT_SIZE :: nat where
  "FINGERPRINT_SIZE = 32"

definition py_literal :: "string \<Rightarrow> py_str" where
  "py_literal s = map of_char s"

definition OWL_NOTHING_IRI :: py_str where
  "OWL_NOTHING_IRI = py_literal ''http://www.w3.org/2002/07/owl#Nothing''"

definition OWL_THING_IRI :: py_str where
  "OWL_THING_IRI = py_literal ''http://www.w3.org/2002/07/owl#Thing''"

definition OWL_BOTTOM_OBJECT_PROPERTY_IRI :: py_str where
  "OWL_BOTTOM_OBJECT_PROPERTY_IRI = py_literal ''http://www.w3.org/2002/07/owl#bottomObjectProperty''"

definition OWL_TOP_OBJECT_PROPERTY_IRI :: py_str where
  "OWL_TOP_OBJECT_PROPERTY_IRI = py_literal ''http://www.w3.org/2002/07/owl#topObjectProperty''"

datatype entity_kind =
  CLASS | NAMED_INDIVIDUAL | OBJECT_PROPERTY | DATA_PROPERTY | DATATYPE | ANNOTATION_PROPERTY

fun entity_kind_int :: "entity_kind \<Rightarrow> nat" where
  "entity_kind_int CLASS = 0"
| "entity_kind_int NAMED_INDIVIDUAL = 1"
| "entity_kind_int OBJECT_PROPERTY = 2"
| "entity_kind_int DATA_PROPERTY = 3"
| "entity_kind_int DATATYPE = 4"
| "entity_kind_int ANNOTATION_PROPERTY = 5"

datatype expression_tag =
    TAG_CLASS | TAG_INDIVIDUAL | OBJECT_INTERSECTION_OF | OBJECT_SOME_VALUES_FROM
  | OBJECT_HAS_SELF | DATA_HAS_VALUE | OBJECT_COMPLEMENT_OF | OBJECT_UNION_OF

fun expression_tag_int :: "expression_tag \<Rightarrow> nat" where
  "expression_tag_int TAG_CLASS = 0"
| "expression_tag_int TAG_INDIVIDUAL = 1"
| "expression_tag_int OBJECT_INTERSECTION_OF = 2"
| "expression_tag_int OBJECT_SOME_VALUES_FROM = 3"
| "expression_tag_int OBJECT_HAS_SELF = 4"
| "expression_tag_int DATA_HAS_VALUE = 5"
| "expression_tag_int OBJECT_COMPLEMENT_OF = 6"
| "expression_tag_int OBJECT_UNION_OF = 7"

text \<open>\<open>str.encode("utf-8")\<close>: one to four bytes a code point, surrogates are refused.\<close>

definition utf8_code_point :: "nat \<Rightarrow> bytes result" where
  "utf8_code_point c =
     (if c < 0x80 then Inr [of_nat c]
      else if c < 0x800 then Inr [of_nat (0xC0 + c div 0x40), of_nat (0x80 + c mod 0x40)]
      else if 0xD800 \<le> c \<and> c < 0xE000 then Inl UnicodeEncodeError
      else if c < 0x10000 then
        Inr [of_nat (0xE0 + c div 0x1000), of_nat (0x80 + c div 0x40 mod 0x40), of_nat (0x80 + c mod 0x40)]
      else if c < 0x110000 then
        Inr [of_nat (0xF0 + c div 0x40000), of_nat (0x80 + c div 0x1000 mod 0x40),
             of_nat (0x80 + c div 0x40 mod 0x40), of_nat (0x80 + c mod 0x40)]
      else Inl UnicodeEncodeError)"

definition utf8_encode :: "py_str \<Rightarrow> bytes result" where
  "utf8_encode s = rconcat_map utf8_code_point s"

section \<open>Records\<close>

record entity_record =
  kind :: entity_kind
  iri :: py_str

record expression_record =
  tag :: expression_tag
  arguments :: "nat list"
  payload :: bytes

record occurrence =
  negative :: nat
  positive :: nat

record query_entity_record =
  entity :: entity_record
  ontology_id :: "nat option"

definition check_u32 :: "nat \<Rightarrow> unit result" where
  "check_u32 value = rassert (value \<le> U32_MAX) ValueError"

definition check_u64 :: "nat \<Rightarrow> unit result" where
  "check_u64 value = rassert (value \<le> U64_MAX) ValueError"

definition entity_record_check :: "entity_record \<Rightarrow> unit result" where
  "entity_record_check r = checks
     [rassert (iri r \<noteq> []) ValueError,
      (case utf8_encode (iri r) of Inl _ \<Rightarrow> Inl ValueError | Inr _ \<Rightarrow> Inr ())]"

definition expression_record_check :: "expression_record \<Rightarrow> unit result" where
  "expression_record_check r = rall check_u32 (arguments r)"

definition occurrence_check :: "occurrence \<Rightarrow> unit result" where
  "occurrence_check occ = checks [check_u64 (negative occ), check_u64 (positive occ)]"

definition check_sorted_unique :: "'a::linorder list \<Rightarrow> unit result" where
  "check_sorted_unique values = rassert (strictly_sorted values) ValueError"

section \<open>Validation of the tables\<close>

definition entity_key :: "entity_record \<Rightarrow> (nat \<times> bytes) result" where
  "entity_key r = rmap (\<lambda>b. (entity_kind_int (kind r), b)) (utf8_encode (iri r))"

definition predefined_entities :: "(entity_kind \<times> py_str) list" where
  "predefined_entities =
     [(CLASS, OWL_NOTHING_IRI), (CLASS, OWL_THING_IRI),
      (OBJECT_PROPERTY, OWL_BOTTOM_OBJECT_PROPERTY_IRI),
      (OBJECT_PROPERTY, OWL_TOP_OBJECT_PROPERTY_IRI)]"

definition validate_entities :: "bool \<Rightarrow> entity_record list \<Rightarrow> unit result" where
  "validate_entities predefined es = rbind (rmap_list entity_key es) (\<lambda>keys. checks
     [check_sorted_unique keys,
      rassert (length es \<le> U32_RESERVED) ValueError,
      rassert (predefined \<longrightarrow>
        list_all (\<lambda>required. list_ex (\<lambda>r. (kind r, iri r) = required) es) predefined_entities)
        ValueError])"

definition validate_occurrences :: "occurrence list \<Rightarrow> occurrence list \<Rightarrow> nat \<Rightarrow> nat \<Rightarrow> unit result" where
  "validate_occurrences expression_occs property_occs expression_count object_property_count = checks
     [rassert (length expression_occs = expression_count) ValueError,
      rassert (length property_occs = object_property_count) ValueError]"

definition validate_entity_index :: "nat \<Rightarrow> entity_record list \<Rightarrow> entity_kind \<Rightarrow> unit result" where
  "validate_entity_index entity_id es expected_kind = checks
     [rassert (entity_id < length es) ValueError,
      rassert (kind (es ! entity_id) = expected_kind) ValueError]"

definition validate_entity_arguments :: "nat list \<Rightarrow> entity_record list \<Rightarrow> entity_kind \<Rightarrow> unit result" where
  "validate_entity_arguments args es expected_kind = checks
     [rassert (length args = 1) ValueError,
      validate_entity_index (args ! 0) es expected_kind]"

definition validate_expression_arguments :: "nat list \<Rightarrow> nat \<Rightarrow> unit result" where
  "validate_expression_arguments args expression_id =
     rassert (list_all (\<lambda>a. a < expression_id) args) ValueError"

definition require_empty_payload :: "expression_record \<Rightarrow> unit result" where
  "require_empty_payload r = rassert (payload r = []) ValueError"

fun expression_dependencies :: "expression_record \<Rightarrow> nat set" where
  "expression_dependencies r = (case tag r of
     OBJECT_SOME_VALUES_FROM \<Rightarrow> {arguments r ! 1}
   | OBJECT_INTERSECTION_OF \<Rightarrow> set (arguments r)
   | OBJECT_COMPLEMENT_OF \<Rightarrow> set (arguments r)
   | OBJECT_UNION_OF \<Rightarrow> set (arguments r)
   | _ \<Rightarrow> {})"

text \<open>
  The deterministic Kahn order.  \<open>heapq\<close> is a priority queue of distinct (key, id) pairs, of which
  only the least is observed: a sorted list.
\<close>

type_synonym expression_key = "nat \<times> bytes \<times> nat list"

definition expression_key :: "expression_record \<Rightarrow> expression_key" where
  "expression_key r = (expression_tag_int (tag r), payload r, arguments r)"

definition release_dependent ::
    "expression_key list \<Rightarrow> nat \<Rightarrow> (expression_key \<times> nat) list \<times> nat list \<Rightarrow> (expression_key \<times> nat) list \<times> nat list" where
  "release_dependent keys dependent s = (case s of (available, remaining) \<Rightarrow>
     let remaining = remaining[dependent := remaining ! dependent - 1] in
     if remaining ! dependent = 0 then (insort (keys ! dependent, dependent) available, remaining)
     else (available, remaining))"

definition kahn_step ::
    "expression_key list \<Rightarrow> nat list list \<Rightarrow> nat \<Rightarrow> (expression_key \<times> nat) list \<times> nat list \<Rightarrow>
     ((expression_key \<times> nat) list \<times> nat list) result" where
  "kahn_step keys dependents expected_id s = (case s of (available, remaining) \<Rightarrow>
     (case available of
        [] \<Rightarrow> Inl ValueError
      | (_, actual_id) # rest \<Rightarrow>
          if actual_id \<noteq> expected_id then Inl ValueError
          else Inr (fold (release_dependent keys) (dependents ! actual_id) (rest, remaining))))"

definition validate_expression_order :: "expression_record list \<Rightarrow> unit result" where
  "validate_expression_order es = (
     let keys = map expression_key es;
         n = length es;
         deps = map expression_dependencies es;
         dependents = map (\<lambda>d. filter (\<lambda>i. d \<in> deps ! i) [0..<n]) [0..<n];
         remaining = map card deps;
         available = foldr (\<lambda>i h. if deps ! i = {} then insort (keys ! i, i) h else h) [0..<n] []
     in if \<not> distinct keys then Inl ValueError
        else rmap (\<lambda>_. ()) (rfold (kahn_step keys dependents) [0..<n] (available, remaining)))"

definition validate_expression :: "entity_record list \<Rightarrow> nat \<Rightarrow> expression_record \<Rightarrow> unit result" where
  "validate_expression es expression_id r = (case tag r of
     TAG_CLASS \<Rightarrow> checks
       [validate_entity_arguments (arguments r) es CLASS, require_empty_payload r]
   | TAG_INDIVIDUAL \<Rightarrow> checks
       [validate_entity_arguments (arguments r) es NAMED_INDIVIDUAL, require_empty_payload r]
   | OBJECT_INTERSECTION_OF \<Rightarrow> checks
       [rassert (length (arguments r) = 2) ValueError,
        validate_expression_arguments (arguments r) expression_id, require_empty_payload r]
   | OBJECT_SOME_VALUES_FROM \<Rightarrow> checks
       [rassert (length (arguments r) = 2) ValueError,
        validate_entity_index (arguments r ! 0) es OBJECT_PROPERTY,
        validate_expression_arguments [arguments r ! 1] expression_id, require_empty_payload r]
   | OBJECT_HAS_SELF \<Rightarrow> checks
       [validate_entity_arguments (arguments r) es OBJECT_PROPERTY, require_empty_payload r]
   | DATA_HAS_VALUE \<Rightarrow> checks
       [validate_entity_arguments (arguments r) es DATA_PROPERTY,
        rassert (payload r \<noteq> []) ValueError]
   | OBJECT_COMPLEMENT_OF \<Rightarrow> checks
       [rassert (length (arguments r) = 1) ValueError,
        validate_expression_arguments (arguments r) expression_id, require_empty_payload r]
   | OBJECT_UNION_OF \<Rightarrow> checks
       [rassert (2 \<le> length (arguments r)) ValueError,
        validate_expression_arguments (arguments r) expression_id, require_empty_payload r])"

definition validate_expressions :: "expression_record list \<Rightarrow> entity_record list \<Rightarrow> unit result" where
  "validate_expressions exprs es = checks
     [rassert (length exprs \<le> U32_RESERVED) ValueError,
      rall (\<lambda>(i, r). validate_expression es i r) (enumerate 0 exprs),
      validate_expression_order exprs]"

definition validate_named_entity_expressions :: "entity_record list \<Rightarrow> expression_record list \<Rightarrow> unit result" where
  "validate_named_entity_expressions es exprs = (
     let expected = map (\<lambda>(i, r). (TAG_CLASS, i)) (filter (\<lambda>(i, r). kind r = CLASS) (enumerate 0 es)) @
           map (\<lambda>(i, r). (TAG_INDIVIDUAL, i)) (filter (\<lambda>(i, r). kind r = NAMED_INDIVIDUAL) (enumerate 0 es));
         actual = map (\<lambda>r. (tag r, arguments r ! 0))
           (filter (\<lambda>r. tag r = TAG_CLASS \<or> tag r = TAG_INDIVIDUAL) exprs)
     in rassert (set actual = set expected) ValueError)"

definition validate_sorted_pairs :: "(nat \<times> nat) list \<Rightarrow> nat \<Rightarrow> nat \<Rightarrow> unit result" where
  "validate_sorted_pairs rows first_limit second_limit = checks
     [rall (\<lambda>(first, second). checks [check_u32 first, check_u32 second,
        rassert (first < first_limit \<and> second < second_limit) ValueError]) rows,
      check_sorted_unique rows]"

definition validate_feature_counts :: "nat list \<Rightarrow> unit result" where
  "validate_feature_counts counts = checks
     [rassert (length counts = FEATURE_VECTOR_LENGTH) ValueError, rall check_u64 counts]"

section \<open>The compiled ontology\<close>

record compiled_ontology =
  entities :: "entity_record list"
  expressions :: "expression_record list"
  expression_occurrences :: "occurrence list"
  property_occurrences :: "occurrence list"
  property_chains :: "nat list list"
  subclass_axioms :: "(nat \<times> nat) list"
  equivalent_class_axioms :: "(nat \<times> nat) list"
  disjoint_groups :: "nat list list"
  subproperty_axioms :: "(nat \<times> nat) list"
  property_ranges :: "(nat \<times> nat) list"
  feature_counts :: "nat list"
  source_fingerprint :: bytes

definition object_property_count :: "entity_record list \<Rightarrow> nat" where
  "object_property_count es = length (filter (\<lambda>r. kind r = OBJECT_PROPERTY) es)"

definition validate_property_chains :: "compiled_ontology \<Rightarrow> unit result" where
  "validate_property_chains co = checks
     [rall (\<lambda>ch. checks [rassert (ch \<noteq> []) ValueError,
        rall (\<lambda>p. checks [check_u32 p, validate_entity_index p (entities co) OBJECT_PROPERTY]) ch])
        (property_chains co),
      check_sorted_unique (property_chains co)]"

definition validate_disjoint_groups :: "compiled_ontology \<Rightarrow> unit result" where
  "validate_disjoint_groups co = checks
     [rall (\<lambda>g. checks [rassert (2 \<le> length g) ValueError,
        rall (\<lambda>e. checks [check_u32 e, rassert (e < length (expressions co)) ValueError]) g])
        (disjoint_groups co),
      check_sorted_unique (disjoint_groups co)]"

text \<open>\<open>CompiledOntology.__post_init__\<close>, after the record constructors of its members.\<close>

definition compiled_ontology_check :: "compiled_ontology \<Rightarrow> unit result" where
  "compiled_ontology_check co = checks
     [rall entity_record_check (entities co),
      rall expression_record_check (expressions co),
      rall occurrence_check (expression_occurrences co),
      rall occurrence_check (property_occurrences co),
      validate_entities True (entities co),
      validate_expressions (expressions co) (entities co),
      validate_named_entity_expressions (entities co) (expressions co),
      validate_occurrences (expression_occurrences co) (property_occurrences co)
        (length (expressions co)) (object_property_count (entities co)),
      validate_property_chains co,
      validate_sorted_pairs (subclass_axioms co) (length (expressions co)) (length (expressions co)),
      validate_sorted_pairs (equivalent_class_axioms co) (length (expressions co)) (length (expressions co)),
      validate_disjoint_groups co,
      validate_sorted_pairs (subproperty_axioms co) (length (property_chains co)) (length (entities co)),
      rall (\<lambda>(_, p). validate_entity_index p (entities co) OBJECT_PROPERTY) (subproperty_axioms co),
      validate_sorted_pairs (property_ranges co) (length (entities co)) (length (expressions co)),
      rall (\<lambda>(p, _). validate_entity_index p (entities co) OBJECT_PROPERTY) (property_ranges co),
      validate_feature_counts (feature_counts co),
      rassert (length (source_fingerprint co) = FINGERPRINT_SIZE) ValueError]"

definition valid_ontology :: "compiled_ontology \<Rightarrow> bool" where
  "valid_ontology co \<longleftrightarrow> compiled_ontology_check co = Inr ()"


section \<open>What a valid ontology guarantees\<close>

lemma valid_ontology_parts:
  assumes "valid_ontology co"
  shows "validate_entities True (entities co) = Inr ()"
    and "validate_expressions (expressions co) (entities co) = Inr ()"
    and "validate_named_entity_expressions (entities co) (expressions co) = Inr ()"
    and "validate_occurrences (expression_occurrences co) (property_occurrences co)
          (length (expressions co)) (object_property_count (entities co)) = Inr ()"
    and "validate_property_chains co = Inr ()"
    and "validate_sorted_pairs (subclass_axioms co) (length (expressions co)) (length (expressions co)) = Inr ()"
    and "validate_sorted_pairs (equivalent_class_axioms co) (length (expressions co)) (length (expressions co)) = Inr ()"
    and "validate_disjoint_groups co = Inr ()"
    and "validate_sorted_pairs (subproperty_axioms co) (length (property_chains co)) (length (entities co)) = Inr ()"
    and "rall (\<lambda>(_, p). validate_entity_index p (entities co) OBJECT_PROPERTY) (subproperty_axioms co) = Inr ()"
    and "validate_sorted_pairs (property_ranges co) (length (entities co)) (length (expressions co)) = Inr ()"
    and "rall (\<lambda>(p, _). validate_entity_index p (entities co) OBJECT_PROPERTY) (property_ranges co) = Inr ()"
  using assms by (simp_all add: valid_ontology_def compiled_ontology_check_def checks_Inr_iff)

text \<open>\<open>is_object_property co p\<close>: entity \<open>p\<close> is in the table and an object property.\<close>

definition is_object_property :: "compiled_ontology \<Rightarrow> nat \<Rightarrow> bool" where
  "is_object_property co p \<longleftrightarrow> p < length (entities co) \<and> kind (entities co ! p) = OBJECT_PROPERTY"

definition is_expression :: "compiled_ontology \<Rightarrow> nat \<Rightarrow> bool" where
  "is_expression co e \<longleftrightarrow> e < length (expressions co)"

lemma validate_entity_index_iff [simp]:
  "validate_entity_index p es k = Inr () \<longleftrightarrow> p < length es \<and> kind (es ! p) = k"
  by (simp add: validate_entity_index_def checks_Inr_iff)

lemma validate_entity_arguments_iff [simp]:
  "validate_entity_arguments args es k = Inr () \<longleftrightarrow> (\<exists>p. args = [p] \<and> p < length es \<and> kind (es ! p) = k)"
  by (cases args) (auto simp: validate_entity_arguments_def checks_Inr_iff)

lemma valid_entity_count: "valid_ontology co \<Longrightarrow> length (entities co) \<le> U32_RESERVED"
  using valid_ontology_parts(1) by (auto simp: validate_entities_def checks_Inr_iff)

lemma valid_expression_count: "valid_ontology co \<Longrightarrow> length (expressions co) \<le> U32_RESERVED"
  using valid_ontology_parts(2) by (auto simp: validate_expressions_def checks_Inr_iff)

lemma is_expression_u32: "valid_ontology co \<Longrightarrow> is_expression co e \<Longrightarrow> e < U32_RESERVED"
  using valid_expression_count by (force simp: is_expression_def)

lemma is_object_property_u32: "valid_ontology co \<Longrightarrow> is_object_property co p \<Longrightarrow> p < U32_RESERVED"
  using valid_entity_count by (force simp: is_object_property_def)

lemma valid_occurrence_counts:
  "valid_ontology co \<Longrightarrow> length (expression_occurrences co) = length (expressions co)"
  using valid_ontology_parts(4) by (simp add: validate_occurrences_def checks_Inr_iff)

lemma valid_expression:
  assumes "valid_ontology co" and "is_expression co e"
  shows "validate_expression (entities co) e (expressions co ! e) = Inr ()"
proof -
  have "\<forall>x \<in> set (enumerate 0 (expressions co)). (case x of (i, r) \<Rightarrow> validate_expression (entities co) i r) = Inr ()"
    using valid_ontology_parts(2) [OF assms(1)]
    by (simp add: validate_expressions_def checks_Inr_iff rall_Inr_iff)
  moreover have "(e, expressions co ! e) \<in> set (enumerate 0 (expressions co))"
    using assms(2) by (auto simp: in_set_enumerate_eq is_expression_def)
  ultimately show ?thesis by fastforce
qed

lemmas valid_expression_unfolded =
  valid_expression [unfolded validate_expression_def checks_Inr_iff]

lemma validate_expression_arguments_iff [simp]:
  "validate_expression_arguments args e = Inr () \<longleftrightarrow> (\<forall>a \<in> set args. a < e)"
  by (simp add: validate_expression_arguments_def list_all_iff)

lemma intersection_arguments:
  assumes "valid_ontology co" "is_expression co e" "tag (expressions co ! e) = OBJECT_INTERSECTION_OF"
  obtains a b where "arguments (expressions co ! e) = [a, b]" "a < e" "b < e"
    "is_expression co a" "is_expression co b"
proof -
  have "length (arguments (expressions co ! e)) = 2" "\<forall>a \<in> set (arguments (expressions co ! e)). a < e"
    using valid_expression_unfolded [OF assms(1,2)] assms(3) by auto
  moreover from this(1) obtain a b where "arguments (expressions co ! e) = [a, b]"
    by (auto simp: length_Suc_conv numeral_2_eq_2)
  ultimately show ?thesis using assms(2) by (intro that [of a b]) (auto simp: is_expression_def)
qed

lemma existential_arguments:
  assumes "valid_ontology co" "is_expression co e" "tag (expressions co ! e) = OBJECT_SOME_VALUES_FROM"
  obtains p f where "arguments (expressions co ! e) = [p, f]" "is_object_property co p" "f < e"
    "is_expression co f"
proof -
  let ?args = "arguments (expressions co ! e)"
  have l: "length ?args = 2" and v: "is_object_property co (?args ! 0)" "?args ! 1 < e"
    using valid_expression_unfolded [OF assms(1,2)] assms(3) by (auto simp: is_object_property_def)
  from l obtain p f where "?args = [p, f]" by (auto simp: length_Suc_conv numeral_2_eq_2)
  with v show ?thesis using assms(2) by (intro that [of p f]) (auto simp: is_expression_def)
qed

lemma has_self_arguments:
  assumes "valid_ontology co" "is_expression co e" "tag (expressions co ! e) = OBJECT_HAS_SELF"
  obtains p where "arguments (expressions co ! e) = [p]" "is_object_property co p"
  using valid_expression_unfolded [OF assms(1,2)] assms(3) that by (auto simp: is_object_property_def)

lemma complement_arguments:
  assumes "valid_ontology co" "is_expression co e" "tag (expressions co ! e) = OBJECT_COMPLEMENT_OF"
  obtains a where "arguments (expressions co ! e) = [a]" "a < e" "is_expression co a"
proof -
  have "length (arguments (expressions co ! e)) = 1" "\<forall>a \<in> set (arguments (expressions co ! e)). a < e"
    using valid_expression_unfolded [OF assms(1,2)] assms(3) by auto
  moreover from this(1) obtain a where "arguments (expressions co ! e) = [a]"
    by (auto simp: length_Suc_conv)
  ultimately show ?thesis using assms(2) by (intro that [of a]) (auto simp: is_expression_def)
qed

lemma union_arguments:
  assumes "valid_ontology co" "is_expression co e" "tag (expressions co ! e) = OBJECT_UNION_OF"
    and "a \<in> set (arguments (expressions co ! e))"
  shows "a < e" and "is_expression co a"
proof -
  show "a < e" using valid_expression_unfolded [OF assms(1,2)] assms(3,4) by auto
  with assms(2) show "is_expression co a" by (simp add: is_expression_def)
qed

lemma validate_sorted_pairs_mem:
  "validate_sorted_pairs rows m n = Inr () \<Longrightarrow> (a, b) \<in> set rows \<Longrightarrow> a < m \<and> b < n"
  by (force simp: validate_sorted_pairs_def checks_Inr_iff rall_Inr_iff)

lemma subclass_axiom_expressions:
  "valid_ontology co \<Longrightarrow> (a, b) \<in> set (subclass_axioms co) \<Longrightarrow> is_expression co a \<and> is_expression co b"
  using valid_ontology_parts(6) validate_sorted_pairs_mem unfolding is_expression_def by blast

lemma equivalent_axiom_expressions:
  "valid_ontology co \<Longrightarrow> (a, b) \<in> set (equivalent_class_axioms co) \<Longrightarrow> is_expression co a \<and> is_expression co b"
  using valid_ontology_parts(7) validate_sorted_pairs_mem unfolding is_expression_def by blast

lemma subproperty_axiom_ids:
  assumes "valid_ontology co" "(c, p) \<in> set (subproperty_axioms co)"
  shows "c < length (property_chains co)" and "is_object_property co p"
proof -
  show "c < length (property_chains co)"
    using valid_ontology_parts(9) [OF assms(1)] assms(2) validate_sorted_pairs_mem by blast
  show "is_object_property co p"
    using valid_ontology_parts(10) [OF assms(1)] assms(2)
    by (force simp: rall_Inr_iff is_object_property_def)
qed

lemma property_range_ids:
  assumes "valid_ontology co" "(p, e) \<in> set (property_ranges co)"
  shows "is_object_property co p" and "is_expression co e"
proof -
  show "is_object_property co p"
    using valid_ontology_parts(12) [OF assms(1)] assms(2)
    by (force simp: rall_Inr_iff is_object_property_def)
  show "is_expression co e"
    using valid_ontology_parts(11) [OF assms(1)] assms(2) validate_sorted_pairs_mem
    unfolding is_expression_def by blast
qed

lemma property_chain_members:
  assumes "valid_ontology co" "ch \<in> set (property_chains co)"
  shows "ch \<noteq> []" and "\<And>p. p \<in> set ch \<Longrightarrow> is_object_property co p"
  using valid_ontology_parts(5) [OF assms(1)] assms(2)
  by (auto simp: validate_property_chains_def checks_Inr_iff rall_Inr_iff is_object_property_def)

lemma disjoint_group_members:
  assumes "valid_ontology co" "g \<in> set (disjoint_groups co)" "e \<in> set g"
  shows "is_expression co e"
  using valid_ontology_parts(8) [OF assms(1)] assms(2,3)
  by (auto simp: validate_disjoint_groups_def checks_Inr_iff rall_Inr_iff is_expression_def)

lemma predefined_entity:
  assumes "valid_ontology co" and "(k, i) \<in> set predefined_entities"
  shows "\<exists>e < length (entities co). kind (entities co ! e) = k \<and> iri (entities co ! e) = i"
proof -
  have "list_all (\<lambda>required. list_ex (\<lambda>r. (kind r, iri r) = required) (entities co)) predefined_entities"
    using valid_ontology_parts(1) [OF assms(1)] by (auto simp: validate_entities_def checks_Inr_iff)
  with assms(2) have "\<exists>r \<in> set (entities co). (kind r, iri r) = (k, i)"
    by (auto simp: list_all_iff list_ex_iff)
  then show ?thesis by (auto simp: in_set_conv_nth)
qed

text \<open>Every class and individual has its expression, and only those are named.\<close>

lemma named_expression:
  assumes "valid_ontology co" and "e < length (entities co)"
    and "kind (entities co ! e) = (if t = TAG_CLASS then CLASS else NAMED_INDIVIDUAL)"
    and "t = TAG_CLASS \<or> t = TAG_INDIVIDUAL"
  obtains x where "is_expression co x" "tag (expressions co ! x) = t" "arguments (expressions co ! x) = [e]"
proof -
  have "(e, entities co ! e) \<in> set (enumerate 0 (entities co))"
    using assms(2) by (auto simp: in_set_enumerate_eq)
  then have "(t, e) \<in> (\<lambda>r. (tag r, arguments r ! 0)) `
      {r \<in> set (expressions co). tag r = TAG_CLASS \<or> tag r = TAG_INDIVIDUAL}"
    using valid_ontology_parts(3) [OF assms(1)] assms(3,4)
    unfolding validate_named_entity_expressions_def Let_def rassert_Inr_iff by (force split: if_splits)
  then obtain x where x: "x < length (expressions co)" "tag (expressions co ! x) = t"
    "arguments (expressions co ! x) ! 0 = e"
    by (auto simp: in_set_conv_nth)
  moreover from this have "length (arguments (expressions co ! x)) = 1"
    using valid_expression_unfolded [OF assms(1), of x] assms(4)
    by (auto simp: is_expression_def)
  ultimately show ?thesis
    by (intro that [of x]) (auto simp: is_expression_def length_Suc_conv)
qed

end
