(* ===== verification/Chains.thy ===== *)
theory Chains
  imports IR
begin

text \<open>
  The chain table of \<open>src/pyelk/reasoning/properties.py\<close> (\<open>_build_chain_universe\<close>): every property
  chain is stored right-linked, a first property and the chain of the rest, and every suffix is
  interned once.  The temporary table is in order of first use; the final one is sorted by depth,
  first property and suffix, so a suffix always precedes the chains built on it.
\<close>

section \<open>Interning\<close>

datatype property_chain_record = PropertyChainRecord (first_property: nat) (suffix_chain: "nat option")

definition is_singleton :: "property_chain_record \<Rightarrow> bool" where
  "is_singleton r = (suffix_chain r = None)"

definition property_chain_record_check :: "property_chain_record \<Rightarrow> unit result" where
  "property_chain_record_check r = checks
     [rassert (first_property r < U32_RESERVED) ValueError,
      (case suffix_chain r of None \<Rightarrow> Inr () | Some s \<Rightarrow> rassert (s < U32_RESERVED) ValueError)]"

text \<open>\<open>_NO_SUFFIX\<close> is the sentinel of the dictionary keys.\<close>

definition NO_SUFFIX :: int where
  "NO_SUFFIX = -1"

definition suffix_key :: "nat option \<Rightarrow> int" where
  "suffix_key s = (case s of None \<Rightarrow> NO_SUFFIX | Some i \<Rightarrow> int i)"

record temporary_chains =
  temporary_records :: "(nat \<times> nat option) list"
  temporary_depths :: "nat list"
  temporary_ids :: "(nat \<times> int, nat) dict"

definition no_chains :: temporary_chains where
  "no_chains = \<lparr>temporary_records = [], temporary_depths = [], temporary_ids = []\<rparr>"

definition add_temporary :: "nat \<Rightarrow> nat option \<Rightarrow> temporary_chains \<Rightarrow> temporary_chains" where
  "add_temporary p suffix t =
     t\<lparr>temporary_ids := dict_put (p, suffix_key suffix) (length (temporary_records t)) (temporary_ids t),
       temporary_records := temporary_records t @ [(p, suffix)],
       temporary_depths := temporary_depths t @
         [case suffix of None \<Rightarrow> 1 | Some s \<Rightarrow> temporary_depths t ! s + 1]\<rparr>"

fun intern_reversed :: "nat list \<Rightarrow> nat option \<Rightarrow> temporary_chains \<Rightarrow> (nat option \<times> temporary_chains) result" where
  "intern_reversed [] suffix t = Inr (suffix, t)"
| "intern_reversed (p # ps) suffix t = (
     let key = (p, suffix_key suffix) in
     case dict_get (temporary_ids t) key of
       Some current \<Rightarrow> intern_reversed ps (Some current) t
     | None \<Rightarrow>
         (let current = length (temporary_records t) in
          if current \<ge> U32_RESERVED then Inl OverflowError
          else intern_reversed ps (Some current) (add_temporary p suffix t)))"

definition intern :: "nat list \<Rightarrow> temporary_chains \<Rightarrow> (nat \<times> temporary_chains) result" where
  "intern properties t =
     (if properties = [] then Inl ValueError
      else rbind (intern_reversed (rev properties) None t) (\<lambda>(suffix, t').
        case suffix of None \<Rightarrow> Inl PyAssertionError | Some s \<Rightarrow> Inr (s, t')))"

fun intern_all :: "nat list list \<Rightarrow> temporary_chains \<Rightarrow> (nat list \<times> temporary_chains) result" where
  "intern_all [] t = Inr ([], t)"
| "intern_all (c # cs) t = rbind (intern c t) (\<lambda>(i, t').
     rbind (intern_all cs t') (\<lambda>(is, t''). Inr (i # is, t'')))"

section \<open>The final table\<close>

record chain_universe =
  records :: "property_chain_record list"
  compiled_ids :: "nat list"
  singleton_ids :: "(nat, nat) dict"
  ids_by_key :: "(nat \<times> int, nat) dict"

record final_chains =
  final_ids :: "(nat, nat) dict"
  final_records :: "property_chain_record list"
  final_ids_by_key :: "(nat \<times> int, nat) dict"

definition final_id :: "final_chains \<Rightarrow> nat \<Rightarrow> nat result" where
  "final_id f t = (case dict_get (final_ids f) t of None \<Rightarrow> Inl KeyError | Some i \<Rightarrow> Inr i)"

definition final_suffix :: "final_chains \<Rightarrow> nat option \<Rightarrow> nat option result" where
  "final_suffix f s = (case s of None \<Rightarrow> Inr None | Some t \<Rightarrow> rmap Some (final_id f t))"

definition finalize_one :: "temporary_chains \<Rightarrow> nat \<Rightarrow> final_chains \<Rightarrow> final_chains result" where
  "finalize_one t temporary_id f = (case temporary_records t ! temporary_id of (first, temporary_suffix) \<Rightarrow>
     rbind (final_suffix f temporary_suffix) (\<lambda>suffix.
       let final = length (final_records f) in
       rbind (property_chain_record_check (PropertyChainRecord first suffix)) (\<lambda>_.
       Inr \<lparr>final_ids = dict_put temporary_id final (final_ids f),
            final_records = final_records f @ [PropertyChainRecord first suffix],
            final_ids_by_key = dict_put (first, suffix_key suffix) final (final_ids_by_key f)\<rparr>)))"

definition final_sort_key :: "temporary_chains \<Rightarrow> final_chains \<Rightarrow> nat \<Rightarrow> (nat \<times> int) result" where
  "final_sort_key t f temporary_id = (case temporary_records t ! temporary_id of (first, s) \<Rightarrow>
     rmap (\<lambda>suffix. (first, suffix_key suffix)) (final_suffix f s))"

definition of_depth :: "temporary_chains \<Rightarrow> nat \<Rightarrow> nat list" where
  "of_depth t depth = filter (\<lambda>i. temporary_depths t ! i = depth) [0..<length (temporary_depths t)]"

definition finalize_depth :: "temporary_chains \<Rightarrow> nat \<Rightarrow> final_chains \<Rightarrow> final_chains result" where
  "finalize_depth t depth f =
     rbind (rmap_list (\<lambda>i. rmap (\<lambda>k. (k, i)) (final_sort_key t f i)) (of_depth t depth)) (\<lambda>keyed.
       rfold (finalize_one t) (map snd (sort_key fst keyed)) f)"

definition object_properties :: "entity_record list \<Rightarrow> nat list" where
  "object_properties es = map fst (filter (\<lambda>(_, r). kind r = OBJECT_PROPERTY) (enumerate 0 es))"

definition build_chain_universe :: "compiled_ontology \<Rightarrow> chain_universe result" where
  "build_chain_universe co = (
     let props = object_properties (entities co) in
     rbind (intern_all (map (\<lambda>p. [p]) props) no_chains) (\<lambda>(singleton_temporary, t1).
     rbind (intern_all (property_chains co) t1) (\<lambda>(compiled_temporary, t2).
     rbind (rfold (finalize_depth t2) (sorted_list_of_set (set (temporary_depths t2)))
             \<lparr>final_ids = [], final_records = [], final_ids_by_key = []\<rparr>) (\<lambda>f.
     rbind (rmap_list (final_id f) compiled_temporary) (\<lambda>compiled.
     rbind (rmap_list (final_id f) singleton_temporary) (\<lambda>singles.
     Inr \<lparr>records = final_records f, compiled_ids = compiled,
          singleton_ids = zip props singles, ids_by_key = final_ids_by_key f\<rparr>))))))"

text \<open>The properties of a chain, in order.  The suffix test ends the walk on any table.\<close>

function chain_members :: "property_chain_record list \<Rightarrow> nat \<Rightarrow> nat list" where
  "chain_members rs c = (case suffix_chain (rs ! c) of
     None \<Rightarrow> [first_property (rs ! c)]
   | Some s \<Rightarrow> first_property (rs ! c) # (if s < c then chain_members rs s else []))"
  by pat_completeness auto
termination
  by (relation "measure snd") auto

declare chain_members.simps [simp del]


section \<open>Reading a chain off a right-linked table\<close>

text \<open>\<open>spells rs s ps\<close>: the chain \<open>s\<close> of the table (none: the empty rest) has the properties \<open>ps\<close>.\<close>

fun spells :: "(nat \<times> nat option) list \<Rightarrow> nat option \<Rightarrow> nat list \<Rightarrow> bool" where
  "spells rs None ps = (ps = [])"
| "spells rs (Some i) [] = False"
| "spells rs (Some i) (p # ps) = (i < length rs \<and> fst (rs ! i) = p \<and> spells rs (snd (rs ! i)) ps)"

lemma spells_append: "spells rs s ps \<Longrightarrow> spells (rs @ zs) s ps"
  by (induction rs s ps rule: spells.induct) (auto simp: nth_append)

lemma spells_functional: "spells rs s ps \<Longrightarrow> spells rs s qs \<Longrightarrow> ps = qs"
proof (induction rs s ps arbitrary: qs rule: spells.induct)
  case (3 rs i p ps)
  then show ?case by (cases qs) auto
qed simp_all

lemma spells_injective:
  "distinct rs \<Longrightarrow> spells rs s ps \<Longrightarrow> spells rs s' ps \<Longrightarrow> s = s'"
proof (induction ps arbitrary: s s')
  case Nil
  then show ?case by (cases s; cases s') auto
next
  case (Cons p ps)
  obtain i j where ij: "s = Some i" "s' = Some j"
    using Cons.prems by (cases s; cases s') auto
  with Cons.prems have i: "i < length rs" "fst (rs ! i) = p" "spells rs (snd (rs ! i)) ps"
    and j: "j < length rs" "fst (rs ! j) = p" "spells rs (snd (rs ! j)) ps" by auto
  from Cons.IH [OF Cons.prems(1) i(3) j(3)] i(2) j(2) have "rs ! i = rs ! j"
    by (simp add: prod_eq_iff)
  with Cons.prems(1) i(1) j(1) ij show ?case by (simp add: nth_eq_iff_index_eq)
qed

lemma spells_bound: "spells rs (Some i) ps \<Longrightarrow> i < length rs"
  by (cases ps) auto

section \<open>Interning is sound\<close>

lemma suffix_key_inject [simp]: "suffix_key s = suffix_key s' \<longleftrightarrow> s = s'"
  by (auto simp: suffix_key_def NO_SUFFIX_def split: option.splits)

definition temporary_key :: "temporary_chains \<Rightarrow> nat \<Rightarrow> nat \<times> int" where
  "temporary_key t i = (fst (temporary_records t ! i), suffix_key (snd (temporary_records t ! i)))"

text \<open>A record at depth 1 has no suffix; every other is one deeper than its suffix.\<close>

definition record_inv :: "nat set \<Rightarrow> temporary_chains \<Rightarrow> nat \<Rightarrow> bool" where
  "record_inv A t i \<longleftrightarrow> fst (temporary_records t ! i) \<in> A \<and>
     (case snd (temporary_records t ! i) of
        None \<Rightarrow> temporary_depths t ! i = 1
      | Some s \<Rightarrow> s < i \<and> temporary_depths t ! i = temporary_depths t ! s + 1)"

definition temporary_inv :: "nat set \<Rightarrow> temporary_chains \<Rightarrow> bool" where
  "temporary_inv A t \<longleftrightarrow>
     length (temporary_depths t) = length (temporary_records t) \<and>
     length (temporary_records t) \<le> U32_RESERVED \<and>
     (\<forall>i < length (temporary_records t). record_inv A t i) \<and>
     (\<forall>k i. dict_get (temporary_ids t) k = Some i \<longleftrightarrow> i < length (temporary_records t) \<and> k = temporary_key t i)"

lemma temporary_inv_no_chains [simp]: "temporary_inv A no_chains"
  by (simp add: temporary_inv_def no_chains_def)

lemma temporary_ids_iff:
  "temporary_inv A t \<Longrightarrow>
   dict_get (temporary_ids t) k = Some i \<longleftrightarrow> i < length (temporary_records t) \<and> k = temporary_key t i"
  unfolding temporary_inv_def by (cases k) simp

lemma temporary_inv_distinct:
  assumes inv: "temporary_inv A t"
  shows "distinct (temporary_records t)"
  unfolding distinct_conv_nth
proof (intro allI impI notI)
  fix i j
  assume ij: "i < length (temporary_records t)" "j < length (temporary_records t)" "i \<noteq> j"
    and "temporary_records t ! i = temporary_records t ! j"
  then have "temporary_key t i = temporary_key t j" by (simp add: temporary_key_def)
  with ij have "dict_get (temporary_ids t) (temporary_key t i) = Some i"
    "dict_get (temporary_ids t) (temporary_key t i) = Some j"
    using temporary_ids_iff [OF inv] by auto
  with ij(3) show False by simp
qed

lemma add_temporary_fields [simp]:
  "temporary_records (add_temporary p s t) = temporary_records t @ [(p, s)]"
  "temporary_ids (add_temporary p s t) =
     dict_put (p, suffix_key s) (length (temporary_records t)) (temporary_ids t)"
  "temporary_depths (add_temporary p s t) =
     temporary_depths t @ [case s of None \<Rightarrow> 1 | Some i \<Rightarrow> temporary_depths t ! i + 1]"
  by (simp_all add: add_temporary_def)

lemma temporary_key_add:
  "i < length (temporary_records t) \<Longrightarrow> temporary_key (add_temporary p s t) i = temporary_key t i"
  "temporary_key (add_temporary p s t) (length (temporary_records t)) = (p, suffix_key s)"
  by (simp_all add: temporary_key_def nth_append)

lemma record_inv_add:
  assumes "temporary_inv A t" and "p \<in> A" and "\<And>i. suffix = Some i \<Longrightarrow> i < length (temporary_records t)"
    and "i \<le> length (temporary_records t)"
  shows "record_inv A (add_temporary p suffix t) i"
proof (cases "i = length (temporary_records t)")
  case True
  with assms show ?thesis
    by (auto simp: record_inv_def temporary_inv_def nth_append split: option.splits)
next
  case False
  with assms(4) have i: "i < length (temporary_records t)" by simp
  with assms(1) have "record_inv A t i" "length (temporary_depths t) = length (temporary_records t)"
    by (simp_all add: temporary_inv_def)
  with i show ?thesis by (auto simp: record_inv_def nth_append split: option.splits)
qed

lemma temporary_inv_add:
  assumes inv: "temporary_inv A t" and p: "p \<in> A"
    and s: "\<And>i. suffix = Some i \<Longrightarrow> i < length (temporary_records t)"
    and new: "dict_get (temporary_ids t) (p, suffix_key suffix) = None"
    and small: "length (temporary_records t) < U32_RESERVED"
  shows "temporary_inv A (add_temporary p suffix t)"
proof -
  let ?n = "length (temporary_records t)"
  have "dict_get (dict_put (p, suffix_key suffix) ?n (temporary_ids t)) k = Some i \<longleftrightarrow>
      i < Suc ?n \<and> k = temporary_key (add_temporary p suffix t) i" for k i
  proof (cases "i < ?n")
    case True
    then have "temporary_key t i \<noteq> (p, suffix_key suffix)"
      using new temporary_ids_iff [OF inv, of "temporary_key t i" i] by auto
    with True show ?thesis
      using temporary_ids_iff [OF inv, of k i] by (auto simp: temporary_key_add)
  next
    case False
    then have "dict_get (temporary_ids t) k \<noteq> Some i"
      using temporary_ids_iff [OF inv, of k i] by simp
    with False show ?thesis
      by (cases "i = ?n") (auto simp: temporary_key_add)
  qed
  then show ?thesis
    using inv small record_inv_add [OF inv p s] by (simp add: temporary_inv_def)
qed

lemma intern_reversed_sound:
  assumes "temporary_inv A t" and "set ps \<subseteq> A" and "spells (temporary_records t) suffix acc"
    and "intern_reversed ps suffix t = Inr (s', t')"
  shows "temporary_inv A t' \<and> (\<exists>zs. temporary_records t' = temporary_records t @ zs) \<and>
    spells (temporary_records t') s' (rev ps @ acc)"
  using assms
proof (induction ps suffix t arbitrary: acc rule: intern_reversed.induct)
  case (1 suffix t)
  then show ?case by auto
next
  case (2 p ps suffix t)
  have bound: "suffix = Some i \<Longrightarrow> i < length (temporary_records t)" for i
    using "2.prems"(3) spells_bound by auto
  show ?case
  proof (cases "dict_get (temporary_ids t) (p, suffix_key suffix)")
    case (Some current)
    then have c: "current < length (temporary_records t)" "temporary_records t ! current = (p, suffix)"
      using temporary_ids_iff [OF "2.prems"(1)] by (auto simp: temporary_key_def prod_eq_iff)
    with "2.prems"(3) have acc: "spells (temporary_records t) (Some current) (p # acc)" by simp
    have "set ps \<subseteq> A" "intern_reversed ps (Some current) t = Inr (s', t')"
      using "2.prems"(2,4) Some by simp_all
    from "2.IH"(2) [OF refl Some "2.prems"(1) this(1) acc this(2)] show ?thesis by simp
  next
    case None
    have small: "length (temporary_records t) < U32_RESERVED"
      using "2.prems"(4) None by (auto simp: Let_def split: if_splits)
    have inv: "temporary_inv A (add_temporary p suffix t)"
      using "2.prems"(1,2) bound None small by (intro temporary_inv_add) auto
    have acc: "spells (temporary_records (add_temporary p suffix t)) (Some (length (temporary_records t))) (p # acc)"
      using "2.prems"(3) by (simp add: spells_append)
    have run: "intern_reversed ps (Some (length (temporary_records t))) (add_temporary p suffix t) = Inr (s', t')"
      and ps: "set ps \<subseteq> A" and n: "\<not> U32_RESERVED \<le> length (temporary_records t)"
      using "2.prems"(2,4) None small by (simp_all add: Let_def)
    from "2.IH"(1) [OF refl None refl n inv ps acc run] show ?thesis by auto
  qed
qed

lemma intern_sound:
  assumes "temporary_inv A t" and "set ps \<subseteq> A" and "intern ps t = Inr (i, t')"
  shows "temporary_inv A t' \<and> (\<exists>zs. temporary_records t' = temporary_records t @ zs) \<and>
    spells (temporary_records t') (Some i) ps"
proof -
  from assms(3) obtain s' where "intern_reversed (rev ps) None t = Inr (s', t')" "s' = Some i"
    by (auto simp: intern_def split: if_splits option.splits)
  with intern_reversed_sound [of A t "rev ps" None "[]"] assms(1,2) show ?thesis by auto
qed

lemma intern_all_sound:
  assumes "temporary_inv A t" and "\<forall>c \<in> set cs. set c \<subseteq> A" and "intern_all cs t = Inr (is, t')"
  shows "temporary_inv A t' \<and> (\<exists>zs. temporary_records t' = temporary_records t @ zs) \<and>
    list_all2 (\<lambda>i c. spells (temporary_records t') (Some i) c) is cs"
  using assms
proof (induction cs arbitrary: t "is")
  case Nil
  then show ?case by auto
next
  case (Cons c cs)
  from Cons.prems(3) obtain i t1 js where 1: "intern c t = Inr (i, t1)"
    and 2: "intern_all cs t1 = Inr (js, t')" and "is": "is = i # js" by auto
  from intern_sound [OF Cons.prems(1) _ 1] Cons.prems(2)
  have s: "temporary_inv A t1" "\<exists>zs. temporary_records t1 = temporary_records t @ zs"
    "spells (temporary_records t1) (Some i) c" by auto
  from Cons.IH [OF s(1) _ 2] Cons.prems(2)
  have "temporary_inv A t'" "\<exists>zs. temporary_records t' = temporary_records t1 @ zs"
    "list_all2 (\<lambda>i c. spells (temporary_records t') (Some i) c) js cs" by auto
  with s "is" spells_append show ?case by fastforce
qed

text \<open>A table that stays small enough never overflows.\<close>

lemma intern_reversed_total:
  assumes "length (temporary_records t) + length ps \<le> U32_RESERVED" and "ps \<noteq> [] \<or> suffix \<noteq> None"
  shows "\<exists>i t'. intern_reversed ps suffix t = Inr (Some i, t') \<and>
    length (temporary_records t') \<le> length (temporary_records t) + length ps"
  using assms
proof (induction ps suffix t rule: intern_reversed.induct)
  case (2 p ps suffix t)
  show ?case
  proof (cases "dict_get (temporary_ids t) (p, suffix_key suffix)")
    case (Some current)
    with "2.IH"(2) [OF refl Some] "2.prems" show ?thesis by fastforce
  next
    case None
    with "2.IH"(1) [OF refl None refl] "2.prems" show ?thesis by fastforce
  qed
qed auto

lemma intern_all_total:
  assumes "length (temporary_records t) + sum_list (map length cs) \<le> U32_RESERVED" and "[] \<notin> set cs"
  shows "\<exists>is t'. intern_all cs t = Inr (is, t') \<and>
    length (temporary_records t') \<le> length (temporary_records t) + sum_list (map length cs)"
  using assms
proof (induction cs arbitrary: t)
  case Nil
  then show ?case by auto
next
  case (Cons c cs)
  then have "length (temporary_records t) + length (rev c) \<le> U32_RESERVED" "rev c \<noteq> [] \<or> None \<noteq> None"
    by auto
  from intern_reversed_total [OF this] obtain i t1
    where 1: "intern_reversed (rev c) None t = Inr (Some i, t1)"
      "length (temporary_records t1) \<le> length (temporary_records t) + length c" by auto
  with Cons.prems have "intern c t = Inr (i, t1)" by (auto simp: intern_def)
  moreover from Cons.IH [of t1] Cons.prems 1(2)
  obtain js t' where "intern_all cs t1 = Inr (js, t')"
    "length (temporary_records t') \<le> length (temporary_records t1) + sum_list (map length cs)" by auto
  ultimately show ?case using 1(2) by auto
qed


section \<open>Finalizing renumbers the table\<close>

text \<open>
  \<open>final_inv t D f\<close>: the temporary chains \<open>D\<close> have been renumbered one to one onto the final table, each
  final record is the renumbered temporary one, and its suffix comes before it.
\<close>

definition renumbered :: "final_chains \<Rightarrow> nat option \<Rightarrow> nat option \<Rightarrow> bool" where
  "renumbered f s s' \<longleftrightarrow> (case s of None \<Rightarrow> s' = None | Some i \<Rightarrow> s' \<noteq> None \<and> dict_get (final_ids f) i = s')"

definition final_entry :: "temporary_chains \<Rightarrow> final_chains \<Rightarrow> nat \<Rightarrow> nat \<Rightarrow> bool" where
  "final_entry t f i a \<longleftrightarrow> a < length (final_records f) \<and>
     first_property (final_records f ! a) = fst (temporary_records t ! i) \<and>
     renumbered f (snd (temporary_records t ! i)) (suffix_chain (final_records f ! a)) \<and>
     (\<forall>s. suffix_chain (final_records f ! a) = Some s \<longrightarrow> s < a)"

definition final_key :: "property_chain_record \<Rightarrow> nat \<times> int" where
  "final_key r = (first_property r, suffix_key (suffix_chain r))"

definition keys_table :: "property_chain_record list \<Rightarrow> (nat \<times> int, nat) dict \<Rightarrow> bool" where
  "keys_table rs d \<longleftrightarrow> (\<forall>k a. dict_get d k = Some a \<longleftrightarrow> a < length rs \<and> k = final_key (rs ! a))"

definition final_inv :: "temporary_chains \<Rightarrow> nat set \<Rightarrow> final_chains \<Rightarrow> bool" where
  "final_inv t D f \<longleftrightarrow>
     finite D \<and> length (final_records f) = card D \<and> D = dom (dict_get (final_ids f)) \<and>
     inj_on (dict_get (final_ids f)) D \<and>
     ran (dict_get (final_ids f)) = {..< length (final_records f)} \<and>
     (\<forall>i a. dict_get (final_ids f) i = Some a \<longrightarrow> final_entry t f i a) \<and>
     keys_table (final_records f) (final_ids_by_key f)"

lemma final_inv_start:
  "final_inv t {} \<lparr>final_ids = [], final_records = [], final_ids_by_key = []\<rparr>"
  by (simp add: final_inv_def keys_table_def)

lemma final_key_inject: "final_key r = final_key r' \<longleftrightarrow> r = r'"
  by (cases r; cases r') (simp add: final_key_def)

lemma keys_table_iff: "keys_table rs d \<Longrightarrow> dict_get d k = Some a \<longleftrightarrow> a < length rs \<and> k = final_key (rs ! a)"
  unfolding keys_table_def by blast

lemma keys_table_distinct:
  assumes "keys_table rs d"
  shows "distinct rs"
  unfolding distinct_conv_nth
proof (intro allI impI notI)
  fix i j assume ij: "i < length rs" "j < length rs" "i \<noteq> j" "rs ! i = rs ! j"
  then have "dict_get d (final_key (rs ! i)) = Some i" "dict_get d (final_key (rs ! i)) = Some j"
    using keys_table_iff [OF assms, of "final_key (rs ! i)"] by simp_all
  with ij(3) show False by simp
qed

lemma keys_table_add:
  assumes "keys_table rs d" and "r \<notin> set rs"
  shows "keys_table (rs @ [r]) (dict_put (final_key r) (length rs) d)"
  unfolding keys_table_def
proof (intro allI)
  fix k a
  show "(dict_get (dict_put (final_key r) (length rs) d) k = Some a) =
      (a < length (rs @ [r]) \<and> k = final_key ((rs @ [r]) ! a))"
  proof (cases "a < length rs")
    case True
    then have "final_key (rs ! a) \<noteq> final_key r" using assms(2) by (auto simp: final_key_inject)
    with True keys_table_iff [OF assms(1), of k a] show ?thesis by (auto simp: nth_append)
  next
    case False
    then have "dict_get d k \<noteq> Some a" using keys_table_iff [OF assms(1), of k a] by simp
    with False show ?thesis by (cases "a = length rs") (auto simp: nth_append)
  qed
qed

lemma renumbered_mono:
  assumes "renumbered f s s'" and "\<And>i a. dict_get (final_ids f) i = Some a \<Longrightarrow> dict_get (final_ids f') i = Some a"
  shows "renumbered f' s s'"
  using assms by (cases s) (auto simp: renumbered_def)

lemma renumbered_inject:
  assumes "inj_on (dict_get (final_ids f)) (dom (dict_get (final_ids f)))"
    and "renumbered f s c" and "renumbered f s' c"
  shows "s = s'"
proof (cases s)
  case None
  with assms(2,3) show ?thesis by (cases s') (auto simp: renumbered_def)
next
  case (Some i)
  with assms(2) obtain a where "c = Some a" "dict_get (final_ids f) i = Some a"
    by (auto simp: renumbered_def)
  moreover with assms(3) obtain j where "s' = Some j" "dict_get (final_ids f) j = Some a"
    by (cases s') (auto simp: renumbered_def)
  ultimately show ?thesis using assms(1) Some by (auto simp: inj_on_def dom_def)
qed

lemma final_suffix_renumbered:
  assumes "final_inv t D f" and "\<And>i. s = Some i \<Longrightarrow> i \<in> D"
  obtains s' where "final_suffix f s = Inr s'" and "renumbered f s s'"
    and "\<And>c. s' = Some c \<Longrightarrow> c < length (final_records f)"
proof (cases s)
  case None
  then show ?thesis using that [of None] by (simp add: final_suffix_def renumbered_def)
next
  case (Some i)
  with assms have "i \<in> dom (dict_get (final_ids f))" by (auto simp: final_inv_def)
  then obtain a where a: "dict_get (final_ids f) i = Some a" by auto
  with assms(1) have "a < length (final_records f)"
    unfolding final_inv_def by (metis final_entry_def)
  with Some a that [of "Some a"] show ?thesis
    by (simp add: final_suffix_def final_id_def renumbered_def)
qed

lemma finalize_one_inv:
  assumes inv: "final_inv t D f" and tmp: "temporary_inv A t"
    and i: "i < length (temporary_records t)" "i \<notin> D" and D: "D \<subseteq> {..< length (temporary_records t)}"
    and suffix: "\<And>s. snd (temporary_records t ! i) = Some s \<Longrightarrow> s \<in> D"
    and A: "\<forall>p \<in> A. p < U32_RESERVED"
  shows "\<exists>f'. finalize_one t i f = Inr f' \<and> final_inv t (insert i D) f'"
proof -
  obtain p s where ps: "temporary_records t ! i = (p, s)" by force
  with suffix have "\<And>j. s = Some j \<Longrightarrow> j \<in> D" by simp
  from final_suffix_renumbered [OF inv this] obtain s' where
    s': "final_suffix f s = Inr s'" "renumbered f s s'" "\<And>c. s' = Some c \<Longrightarrow> c < length (final_records f)" by blast
  let ?r = "PropertyChainRecord p s'"
  let ?n = "length (final_records f)"
  let ?f = "\<lparr>final_ids = dict_put i ?n (final_ids f), final_records = final_records f @ [?r],
    final_ids_by_key = dict_put (p, suffix_key s') ?n (final_ids_by_key f)\<rparr>"
  have parts: "finite D" "?n = card D" "D = dom (dict_get (final_ids f))"
    "inj_on (dict_get (final_ids f)) D" "ran (dict_get (final_ids f)) = {..< ?n}"
    "keys_table (final_records f) (final_ids_by_key f)"
    and entry: "\<And>j a. dict_get (final_ids f) j = Some a \<Longrightarrow> final_entry t f j a"
    using inv unfolding final_inv_def by blast+
  have "p \<in> A" using tmp i(1) ps by (auto simp: temporary_inv_def record_inv_def)
  have "?n \<le> length (temporary_records t)"
    using parts(2) card_mono [OF _ D] by simp
  then have "?n \<le> U32_RESERVED" using tmp by (auto simp: temporary_inv_def)
  then have "property_chain_record_check ?r = Inr ()"
    using A \<open>p \<in> A\<close> s'(3) by (auto simp: property_chain_record_check_def split: option.splits)
  then have run: "finalize_one t i f = Inr ?f"
    by (simp add: finalize_one_def ps s'(1) Let_def)
  have fresh: "?r \<notin> set (final_records f)"
  proof
    assume "?r \<in> set (final_records f)"
    then obtain a where a: "a < ?n" "final_records f ! a = ?r" by (auto simp: in_set_conv_nth)
    then obtain j where j: "dict_get (final_ids f) j = Some a"
      using parts(5) by (auto simp: ran_def)
    from entry [OF j] a(2) have "fst (temporary_records t ! j) = p" "renumbered f (snd (temporary_records t ! j)) s'"
      by (simp_all add: final_entry_def)
    moreover have "snd (temporary_records t ! j) = s"
      using renumbered_inject [of f] parts(3,4) s'(2) \<open>renumbered f (snd (temporary_records t ! j)) s'\<close> by metis
    ultimately have "temporary_records t ! j = temporary_records t ! i" using ps by (simp add: prod_eq_iff)
    moreover have "j \<in> D" using j parts(3) by auto
    ultimately show False
      using temporary_inv_distinct [OF tmp] i D by (metis lessThan_iff nth_eq_iff_index_eq subsetD)
  qed
  have mono: "dict_get (final_ids f) j = Some a \<Longrightarrow> dict_get (final_ids ?f) j = Some a" for j a
    using i(2) parts(3) by auto
  have "final_entry t ?f j a" if "dict_get (final_ids ?f) j = Some a" for j a
  proof (cases "j = i")
    case True
    with that have "a = ?n" by simp
    with True s' ps renumbered_mono [OF s'(2) mono] show ?thesis by (simp add: final_entry_def)
  next
    case False
    with that have j: "dict_get (final_ids f) j = Some a" by simp
    from entry [OF this] renumbered_mono [of f _ _ ?f, OF _ mono] show ?thesis
      by (simp add: final_entry_def nth_append)
  qed
  moreover have "keys_table (final_records ?f) (final_ids_by_key ?f)"
    using keys_table_add [OF parts(6) fresh] by (simp add: final_key_def)
  moreover have "inj_on (dict_get (final_ids ?f)) (insert i D)"
  proof -
    have "dict_get (final_ids f) j \<noteq> Some ?n" "Some ?n \<noteq> dict_get (final_ids f) j" for j
      using parts(5) by (auto simp: ran_def dest: sym)
    with parts(4) show ?thesis by (auto simp: inj_on_def)
  qed
  moreover have "ran (dict_get (final_ids ?f)) = {..< length (final_records ?f)}"
  proof -
    have "dict_get (final_ids ?f) = (dict_get (final_ids f))(i \<mapsto> ?n)" by auto
    moreover have "dict_get (final_ids f) i = None" using i(2) parts(3) by auto
    ultimately show ?thesis using parts(5) by (simp add: ran_map_upd lessThan_Suc)
  qed
  moreover have "insert i D = dom (dict_get (final_ids ?f))" using parts(3) by auto
  moreover have "finite (insert i D)" "length (final_records ?f) = card (insert i D)"
    using parts(1,2) i(2) by simp_all
  ultimately have "final_inv t (insert i D) ?f"
    unfolding final_inv_def by blast
  with run show ?thesis by blast
qed


lemma finalize_list_inv:
  assumes "final_inv t D f" and "temporary_inv A t" and "distinct is" and "D \<inter> set is = {}"
    and "D \<union> set is \<subseteq> {..< length (temporary_records t)}"
    and "\<And>i s. i \<in> set is \<Longrightarrow> snd (temporary_records t ! i) = Some s \<Longrightarrow> s \<in> D"
    and "\<forall>p \<in> A. p < U32_RESERVED"
  shows "\<exists>f'. rfold (finalize_one t) is f = Inr f' \<and> final_inv t (D \<union> set is) f'"
  using assms
proof (induction "is" arbitrary: D f)
  case Nil
  then show ?case by simp
next
  case (Cons i "is")
  have "\<exists>f'. finalize_one t i f = Inr f' \<and> final_inv t (insert i D) f'"
    by (rule finalize_one_inv [OF Cons.prems(1,2)]) (use Cons.prems in auto)
  then obtain f' where f': "finalize_one t i f = Inr f'" "final_inv t (insert i D) f'" by blast
  have "\<exists>f''. rfold (finalize_one t) is f' = Inr f'' \<and> final_inv t (insert i D \<union> set is) f''"
    by (rule Cons.IH [OF f'(2) Cons.prems(2)]) (use Cons.prems in auto)
  with f'(1) show ?case by simp
qed

lemma rmap_list_total:
  "(\<And>x. x \<in> set xs \<Longrightarrow> \<exists>y. f x = Inr y) \<Longrightarrow> \<exists>ys. rmap_list f xs = Inr ys"
  by (induction xs) fastforce+

lemma rmap_list_keyed:
  "rmap_list (\<lambda>i. rmap (\<lambda>k. (k, i)) (g i)) xs = Inr kxs \<Longrightarrow> map snd kxs = xs"
  by (induction xs arbitrary: kxs) auto

lemma finalize_depth_inv:
  assumes inv: "final_inv t D f" and tmp: "temporary_inv A t" and A: "\<forall>p \<in> A. p < U32_RESERVED"
    and D: "D = {i. i < length (temporary_records t) \<and> temporary_depths t ! i < depth}"
  shows "\<exists>f'. finalize_depth t depth f = Inr f' \<and>
    final_inv t {i. i < length (temporary_records t) \<and> temporary_depths t ! i < Suc depth} f'"
proof -
  have len: "length (temporary_depths t) = length (temporary_records t)"
    and rec: "\<And>i. i < length (temporary_records t) \<Longrightarrow> record_inv A t i"
    using tmp by (simp_all add: temporary_inv_def)
  let ?ts = "of_depth t depth"
  have set_ts: "set ?ts = {i. i < length (temporary_records t) \<and> temporary_depths t ! i = depth}"
    by (auto simp: of_depth_def len)
  have suffix: "s \<in> D" if "i \<in> set ?ts" "snd (temporary_records t ! i) = Some s" for i s
  proof -
    have "i < length (temporary_records t)" "temporary_depths t ! i = depth" using that(1) set_ts by auto
    with rec [of i] that(2) have "s < i" "depth = temporary_depths t ! s + 1"
      by (simp_all add: record_inv_def)
    with \<open>i < length (temporary_records t)\<close> show ?thesis by (simp add: D)
  qed
  have "\<exists>y. rmap (\<lambda>k. (k, i)) (final_sort_key t f i) = Inr y" if i: "i \<in> set ?ts" for i
  proof -
    obtain p s where ps: "temporary_records t ! i = (p, s)" by force
    have "\<And>j. s = Some j \<Longrightarrow> j \<in> D" using suffix [OF i] ps by simp
    from final_suffix_renumbered [OF inv this] obtain s' where "final_suffix f s = Inr s'" by blast
    then show ?thesis by (simp add: final_sort_key_def ps)
  qed
  then obtain keyed where keyed: "rmap_list (\<lambda>i. rmap (\<lambda>k. (k, i)) (final_sort_key t f i)) ?ts = Inr keyed"
    using rmap_list_total by meson
  let ?js = "map snd (sort_key fst keyed)"
  have snd_keyed: "map snd keyed = ?ts" by (rule rmap_list_keyed [OF keyed])
  have set_js: "set ?js = set ?ts" using snd_keyed by (metis list.set_map set_sort)
  have "distinct (map snd keyed)" unfolding snd_keyed by (simp add: of_depth_def)
  then have "distinct ?js" by (simp add: distinct_map)
  have "D \<inter> set ?js = {}" "D \<union> set ?js \<subseteq> {..< length (temporary_records t)}"
    unfolding set_js set_ts D by auto
  moreover have "\<And>i s. i \<in> set ?js \<Longrightarrow> snd (temporary_records t ! i) = Some s \<Longrightarrow> s \<in> D"
    unfolding set_js by (rule suffix)
  ultimately have "\<exists>f'. rfold (finalize_one t) ?js f = Inr f' \<and> final_inv t (D \<union> set ?js) f'"
    using finalize_list_inv [OF inv tmp \<open>distinct ?js\<close>] A by blast
  moreover have "D \<union> set ?js = {i. i < length (temporary_records t) \<and> temporary_depths t ! i < Suc depth}"
    unfolding set_js set_ts D by auto
  moreover have "finalize_depth t depth f = rfold (finalize_one t) ?js f"
    by (simp add: finalize_depth_def keyed)
  ultimately show ?thesis by simp
qed

text \<open>Depths are contiguous: below a chain of depth \<open>d + 1\<close> there is one of depth \<open>d\<close>.\<close>

lemma depth_positive:
  assumes "temporary_inv A t" and "i < length (temporary_records t)"
  shows "1 \<le> temporary_depths t ! i"
  using assms by (auto simp: temporary_inv_def record_inv_def split: option.splits)

lemma depth_down_closed:
  assumes tmp: "temporary_inv A t" and "Suc d \<in> set (temporary_depths t)" and "1 \<le> d"
  shows "d \<in> set (temporary_depths t)"
proof -
  obtain i where i: "i < length (temporary_records t)" "temporary_depths t ! i = Suc d"
    using assms(1,2) by (auto simp: in_set_conv_nth temporary_inv_def)
  then have "record_inv A t i" using tmp by (simp add: temporary_inv_def)
  with i(2) assms(3) obtain s where "s < i" "temporary_depths t ! s = d"
    by (auto simp: record_inv_def split: option.splits)
  moreover from this(1) i(1) tmp have "s < length (temporary_depths t)" by (simp add: temporary_inv_def)
  ultimately show ?thesis by (metis nth_mem)
qed

lemma depths_interval:
  assumes "temporary_inv A t"
  shows "\<exists>m. set (temporary_depths t) = {1..m}"
proof -
  let ?S = "set (temporary_depths t)"
  have pos: "1 \<le> d" if "d \<in> ?S" for d
    using that depth_positive [OF assms] assms by (auto simp: in_set_conv_nth temporary_inv_def)
  have down: "\<lbrakk>n \<in> ?S; 1 \<le> d; d \<le> n\<rbrakk> \<Longrightarrow> d \<in> ?S" for n d
  proof (induction n)
    case (Suc n)
    then show ?case using depth_down_closed [OF assms, of n] by (cases "d = Suc n") auto
  qed simp
  show ?thesis
  proof (cases "?S = {}")
    case True
    then have "?S = {1..0}" by simp
    then show ?thesis ..
  next
    case False
    then have "Max ?S \<in> ?S" by simp
    have "?S = {1..Max ?S}"
    proof (intro equalityI subsetI)
      fix d assume "d \<in> ?S"
      with pos show "d \<in> {1..Max ?S}" by simp
    next
      fix d assume "d \<in> {1..Max ?S}"
      with down [OF \<open>Max ?S \<in> ?S\<close>, of d] show "d \<in> ?S" by simp
    qed
    then show ?thesis ..
  qed
qed

lemma finalize_depths_inv:
  assumes "final_inv t {i. i < length (temporary_records t) \<and> temporary_depths t ! i < k} f"
    and "temporary_inv A t" and "\<forall>p \<in> A. p < U32_RESERVED"
  shows "\<exists>f'. rfold (finalize_depth t) [k..<k + n] f = Inr f' \<and>
    final_inv t {i. i < length (temporary_records t) \<and> temporary_depths t ! i < k + n} f'"
  using assms(1)
proof (induction n arbitrary: k f)
  case 0
  then show ?case by simp
next
  case (Suc n)
  from finalize_depth_inv [OF Suc.prems assms(2,3) refl] obtain f' where
    f': "finalize_depth t k f = Inr f'"
      "final_inv t {i. i < length (temporary_records t) \<and> temporary_depths t ! i < Suc k} f'" by blast
  from Suc.IH [OF f'(2)] have "\<exists>f''. rfold (finalize_depth t) [Suc k..<Suc k + n] f' = Inr f'' \<and>
    final_inv t {i. i < length (temporary_records t) \<and> temporary_depths t ! i < Suc k + n} f''" .
  moreover have "[k..<k + Suc n] = k # [Suc k..<Suc k + n]" by (simp add: upt_conv_Cons)
  ultimately show ?case using f'(1) by simp
qed

lemma finalize_all:
  assumes tmp: "temporary_inv A t" and A: "\<forall>p \<in> A. p < U32_RESERVED"
  shows "\<exists>f. rfold (finalize_depth t) (sorted_list_of_set (set (temporary_depths t)))
      \<lparr>final_ids = [], final_records = [], final_ids_by_key = []\<rparr> = Inr f \<and>
    final_inv t {..< length (temporary_records t)} f"
proof -
  obtain m where m: "set (temporary_depths t) = {1..m}" using depths_interval [OF tmp] by blast
  have depth: "1 \<le> temporary_depths t ! i \<and> temporary_depths t ! i \<le> m" if "i < length (temporary_records t)" for i
    using that tmp m by (metis atLeastAtMost_iff nth_mem temporary_inv_def)
  have none: "{i. i < length (temporary_records t) \<and> temporary_depths t ! i < 1} = {}"
    using depth by fastforce
  have "final_inv t {i. i < length (temporary_records t) \<and> temporary_depths t ! i < 1}
      \<lparr>final_ids = [], final_records = [], final_ids_by_key = []\<rparr>"
    unfolding none by (rule final_inv_start)
  from finalize_depths_inv [OF this tmp A, of m]
  obtain f where f: "rfold (finalize_depth t) [1..<1 + m] \<lparr>final_ids = [], final_records = [], final_ids_by_key = []\<rparr> = Inr f"
    "final_inv t {i. i < length (temporary_records t) \<and> temporary_depths t ! i < 1 + m} f" by blast
  have "sorted_list_of_set (set (temporary_depths t)) = [1..<1 + m]"
    unfolding m by (simp add: atLeastLessThanSuc_atLeastAtMost [symmetric] del: upt_Suc)
  moreover have "{i. i < length (temporary_records t) \<and> temporary_depths t ! i < 1 + m} = {..< length (temporary_records t)}"
    using depth by fastforce
  ultimately show ?thesis using f by auto
qed


section \<open>The chain table is right\<close>

definition chain_table :: "property_chain_record list \<Rightarrow> (nat \<times> nat option) list" where
  "chain_table rs = map (\<lambda>r. (first_property r, suffix_chain r)) rs"

lemma chain_table_simps [simp]:
  "length (chain_table rs) = length rs"
  "c < length rs \<Longrightarrow> chain_table rs ! c = (first_property (rs ! c), suffix_chain (rs ! c))"
  by (simp_all add: chain_table_def)

lemma renumbered_spells:
  assumes inv: "final_inv t D f"
  shows "spells (temporary_records t) s ps \<Longrightarrow> renumbered f s s' \<Longrightarrow> spells (chain_table (final_records f)) s' ps"
proof (induction ps arbitrary: s s')
  case Nil
  then show ?case by (cases s) (auto simp: renumbered_def)
next
  case (Cons p ps)
  from Cons.prems obtain i a where i: "s = Some i" "s' = Some a" "dict_get (final_ids f) i = Some a"
    "fst (temporary_records t ! i) = p" "spells (temporary_records t) (snd (temporary_records t ! i)) ps"
    by (cases s) (auto simp: renumbered_def)
  with inv have "final_entry t f i a" by (simp add: final_inv_def)
  with i Cons.IH [OF i(5), of "suffix_chain (final_records f ! a)"] show ?case
    by (simp add: final_entry_def)
qed

definition small_chains :: "compiled_ontology \<Rightarrow> bool" where
  "small_chains co \<longleftrightarrow>
     length (object_properties (entities co)) + sum_list (map length (property_chains co)) < U32_RESERVED"

text \<open>
  What the rest of the property closure relies on: suffixes precede their chains, each record occurs
  once and is found under its key, every object property has its singleton chain, and the chain
  stored for a compiled property chain spells it.
\<close>

definition universe_inv :: "compiled_ontology \<Rightarrow> chain_universe \<Rightarrow> bool" where
  "universe_inv co u \<longleftrightarrow>
     length (records u) < U32_RESERVED \<and>
     (\<forall>c < length (records u). is_object_property co (first_property (records u ! c)) \<and>
        (\<forall>s. suffix_chain (records u ! c) = Some s \<longrightarrow> s < c)) \<and>
     keys_table (records u) (ids_by_key u) \<and>
     (\<forall>p. is_object_property co p \<longleftrightarrow> dict_get (singleton_ids u) p \<noteq> None) \<and>
     (\<forall>p c. dict_get (singleton_ids u) p = Some c \<longrightarrow>
        c < length (records u) \<and> records u ! c = PropertyChainRecord p None) \<and>
     length (compiled_ids u) = length (property_chains co) \<and>
     (\<forall>i < length (property_chains co).
        spells (chain_table (records u)) (Some (compiled_ids u ! i)) (property_chains co ! i))"

lemma set_object_properties: "set (object_properties (entities co)) = {p. is_object_property co p}"
  by (force simp: object_properties_def is_object_property_def in_set_enumerate_eq image_iff)

lemma map_of_zip_rmap_list:
  "rmap_list g is = Inr cs \<Longrightarrow> length ps = length is \<Longrightarrow>
   map_of (zip ps cs) p = Some c \<Longrightarrow> \<exists>j < length is. ps ! j = p \<and> g (is ! j) = Inr c"
proof (induction "is" arbitrary: ps cs)
  case (Cons i "is")
  then obtain q qs d ds where "ps = q # qs" "cs = d # ds" "g i = Inr d" "rmap_list g is = Inr ds"
    by (cases ps) auto
  with Cons show ?case by (fastforce split: if_splits)
qed simp

lemma rmap_list_nth: "rmap_list g is = Inr cs \<Longrightarrow> length cs = length is \<and> (\<forall>j < length is. g (is ! j) = Inr (cs ! j))"
proof (induction "is" arbitrary: cs)
  case (Cons i "is")
  then show ?case by (auto simp: nth_Cons split: nat.splits)
qed simp

lemma final_id_total:
  assumes "final_inv t {..< length (temporary_records t)} f" and "i < length (temporary_records t)"
  obtains a where "final_id f i = Inr a" and "dict_get (final_ids f) i = Some a"
proof -
  from assms have "i \<in> dom (dict_get (final_ids f))" unfolding final_inv_def by blast
  then obtain a where "dict_get (final_ids f) i = Some a" by auto
  then show ?thesis by (intro that [of a]) (simp_all add: final_id_def)
qed

lemma final_id_spells:
  assumes "final_inv t D f" and "final_id f i = Inr a" and "spells (temporary_records t) (Some i) ps"
  shows "spells (chain_table (final_records f)) (Some a) ps"
proof -
  have "renumbered f (Some i) (Some a)"
    using assms(2) by (simp add: renumbered_def final_id_def split: option.splits)
  with assms(1,3) show ?thesis by (rule renumbered_spells [rotated 2, rotated])
qed

lemma spells_singleton:
  assumes "spells (chain_table rs) (Some c) [p]"
  shows "c < length rs \<and> rs ! c = PropertyChainRecord p None"
  using assms by (cases "rs ! c"; cases "suffix_chain (rs ! c)") auto

lemma build_chain_universe_ok:
  assumes valid: "valid_ontology co" and small: "small_chains co"
  shows "\<exists>u. build_chain_universe co = Inr u \<and> universe_inv co u"
proof -
  define props where "props = object_properties (entities co)"
  define A where "A = {p. is_object_property co p}"
  have A: "\<forall>p \<in> A. p < U32_RESERVED" using is_object_property_u32 [OF valid] by (simp add: A_def)
  have props: "set props = A" by (simp add: props_def A_def set_object_properties)
  have chains: "[] \<notin> set (property_chains co)" "\<forall>c \<in> set (property_chains co). set c \<subseteq> A"
    using property_chain_members [OF valid] by (auto simp: A_def)
  have sl: "sum_list (map length (map (\<lambda>p. [p]) props)) = length props"
    by (simp add: comp_def sum_list_triv)
  have n0: "length (temporary_records no_chains) = 0" by (simp add: no_chains_def)
  obtain is1 t1 where 1: "intern_all (map (\<lambda>p. [p]) props) no_chains = Inr (is1, t1)"
    "length (temporary_records t1) \<le> length props"
    using intern_all_total [of no_chains "map (\<lambda>p. [p]) props"] sl n0 small
    by (auto simp: small_chains_def props_def)
  obtain is2 t2 where 2: "intern_all (property_chains co) t1 = Inr (is2, t2)"
    "length (temporary_records t2) \<le> length (temporary_records t1) + sum_list (map length (property_chains co))"
    using intern_all_total [of t1 "property_chains co"] chains(1) 1(2) small
    by (auto simp: small_chains_def props_def)
  have s1: "temporary_inv A t1"
    "list_all2 (\<lambda>i c. spells (temporary_records t1) (Some i) c) is1 (map (\<lambda>p. [p]) props)"
    using intern_all_sound [OF temporary_inv_no_chains _ 1(1)] props by auto
  have s2: "temporary_inv A t2" "\<exists>zs. temporary_records t2 = temporary_records t1 @ zs"
    "list_all2 (\<lambda>i c. spells (temporary_records t2) (Some i) c) is2 (property_chains co)"
    using intern_all_sound [OF s1(1) chains(2) 2(1)] by auto
  have s3: "list_all2 (\<lambda>i c. spells (temporary_records t2) (Some i) c) is1 (map (\<lambda>p. [p]) props)"
    using s1(2) s2(2) by (auto elim!: list_all2_mono intro: spells_append)
  let ?n = "length (temporary_records t2)"
  obtain f where f: "rfold (finalize_depth t2) (sorted_list_of_set (set (temporary_depths t2)))
      \<lparr>final_ids = [], final_records = [], final_ids_by_key = []\<rparr> = Inr f" "final_inv t2 {..< ?n} f"
    using finalize_all [OF s2(1) A] by blast
  have total: "\<exists>cs. rmap_list (final_id f) is = Inr cs"
    if "list_all2 (\<lambda>i c. spells (temporary_records t2) (Some i) c) is css" for "is" css
  proof (rule rmap_list_total)
    fix i assume "i \<in> set is"
    with that obtain c where "spells (temporary_records t2) (Some i) c"
      by (auto simp: list_all2_conv_all_nth in_set_conv_nth)
    then have "i < ?n" by (rule spells_bound)
    with f(2) show "\<exists>y. final_id f i = Inr y" using final_id_total by blast
  qed
  obtain compiled where compiled: "rmap_list (final_id f) is2 = Inr compiled" using total [OF s2(3)] ..
  obtain singles where singles: "rmap_list (final_id f) is1 = Inr singles" using total [OF s3] ..
  let ?u = "\<lparr>records = final_records f, compiled_ids = compiled,
      singleton_ids = zip props singles, ids_by_key = final_ids_by_key f\<rparr>"
  have run: "build_chain_universe co = Inr ?u"
    by (simp add: build_chain_universe_def Let_def props_def [symmetric] 1(1) 2(1) f(1) compiled singles)
  have len1: "length singles = length props" "length is1 = length props"
    using rmap_list_nth [OF singles] list_all2_lengthD [OF s3] by simp_all
  have single: "c < length (final_records f) \<and> final_records f ! c = PropertyChainRecord p None"
    if pc: "map_of (zip props singles) p = Some c" for p c
  proof -
    from map_of_zip_rmap_list [OF singles _ pc] len1 obtain j where
      j: "j < length is1" "props ! j = p" "final_id f (is1 ! j) = Inr c" by auto
    have "spells (temporary_records t2) (Some (is1 ! j)) (map (\<lambda>p. [p]) props ! j)"
      using list_all2_nthD [OF s3 j(1)] .
    then have "spells (temporary_records t2) (Some (is1 ! j)) [p]" using j len1 by simp
    from final_id_spells [OF f(2) j(3) this] show ?thesis by (rule spells_singleton)
  qed
  have entry: "is_object_property co (first_property (final_records f ! c)) \<and>
      (\<forall>s. suffix_chain (final_records f ! c) = Some s \<longrightarrow> s < c)" if c: "c < length (final_records f)" for c
  proof -
    have "ran (dict_get (final_ids f)) = {..< length (final_records f)}"
      using f(2) unfolding final_inv_def by blast
    with c have "c \<in> ran (dict_get (final_ids f))" by simp
    then obtain i where i: "dict_get (final_ids f) i = Some c" by (auto simp: ran_def)
    with f(2) have e: "final_entry t2 f i c" and "i \<in> {..< ?n}" by (auto simp: final_inv_def)
    then have "record_inv A t2 i" using s2(1) by (simp add: temporary_inv_def)
    with e show ?thesis by (simp add: final_entry_def record_inv_def A_def)
  qed
  have "length (final_records f) = ?n" using f(2) by (simp add: final_inv_def)
  then have len: "length (final_records f) < U32_RESERVED"
    using 1(2) 2(2) small by (simp add: small_chains_def props_def)
  have spelled: "spells (chain_table (final_records f)) (Some (compiled ! i)) (property_chains co ! i)"
    if "i < length (property_chains co)" for i
  proof -
    have "i < length is2" using that list_all2_lengthD [OF s2(3)] by simp
    with list_all2_nthD [OF s2(3)] rmap_list_nth [OF compiled] show ?thesis
      by (auto intro: final_id_spells [OF f(2)])
  qed
  have "is_object_property co p \<longleftrightarrow> map_of (zip props singles) p \<noteq> None" for p
    using props len1(1) by (auto simp: A_def map_of_zip_is_None)
  moreover have "length compiled = length (property_chains co)"
    using rmap_list_nth [OF compiled] list_all2_lengthD [OF s2(3)] by simp
  moreover have "keys_table (final_records f) (final_ids_by_key f)" using f(2) by (simp add: final_inv_def)
  ultimately have "universe_inv co ?u"
    unfolding universe_inv_def using len entry single spelled by simp
  with run show ?thesis by blast
qed

end
