(* ===== verification/Properties.thy ===== *)
theory Properties
  imports Chains
begin

text \<open>
  \<open>src/pyelk/reasoning/properties.py\<close>: the sub-property closure over the chain table, inherited
  ranges, the composition indices and the immutable view (\<open>PropertySaturation\<close>) the class rules
  read.  Python sets are HOL sets; where the code iterates over a set the model takes ascending
  order (every result built that way is a set or is sorted).
\<close>

section \<open>Conclusions of the property stage\<close>

datatype sub_property_chain = SubPropertyChain (sub_chain: nat) (super_chain: nat)

datatype property_range = PropertyRange (range_property: nat) (range_expression: nat)

datatype property_composition =
  PropertyComposition (left_property: nat) (right_chain: nat) (result_chain: nat)

text \<open>\<open>@dataclass(order=True)\<close>: field-wise lexicographic order.\<close>

instantiation sub_property_chain :: linorder
begin

definition less_eq_sub_property_chain :: "sub_property_chain \<Rightarrow> sub_property_chain \<Rightarrow> bool" where
  "less_eq_sub_property_chain a b \<longleftrightarrow> (sub_chain a, super_chain a) \<le> (sub_chain b, super_chain b)"

definition less_sub_property_chain :: "sub_property_chain \<Rightarrow> sub_property_chain \<Rightarrow> bool" where
  "less_sub_property_chain a b \<longleftrightarrow> (sub_chain a, super_chain a) < (sub_chain b, super_chain b)"

instance
  by standard (auto simp: less_eq_sub_property_chain_def less_sub_property_chain_def
      intro: sub_property_chain.expand)

end

instantiation property_range :: linorder
begin

definition less_eq_property_range :: "property_range \<Rightarrow> property_range \<Rightarrow> bool" where
  "less_eq_property_range a b \<longleftrightarrow>
     (range_property a, range_expression a) \<le> (range_property b, range_expression b)"

definition less_property_range :: "property_range \<Rightarrow> property_range \<Rightarrow> bool" where
  "less_property_range a b \<longleftrightarrow>
     (range_property a, range_expression a) < (range_property b, range_expression b)"

instance
  by standard (auto simp: less_eq_property_range_def less_property_range_def intro: property_range.expand)

end

instantiation property_composition :: linorder
begin

definition less_eq_property_composition :: "property_composition \<Rightarrow> property_composition \<Rightarrow> bool" where
  "less_eq_property_composition a b \<longleftrightarrow>
     (left_property a, right_chain a, result_chain a) \<le> (left_property b, right_chain b, result_chain b)"

definition less_property_composition :: "property_composition \<Rightarrow> property_composition \<Rightarrow> bool" where
  "less_property_composition a b \<longleftrightarrow>
     (left_property a, right_chain a, result_chain a) < (left_property b, right_chain b, result_chain b)"

instance
  by standard (auto simp: less_eq_property_composition_def less_property_composition_def
      intro: property_composition.expand)

end

section \<open>Constructors and the three inferences\<close>

definition checked_property_id :: "nat \<Rightarrow> unit result" where
  "checked_property_id value = rassert (value < U32_RESERVED) ValueError"

text \<open>The constructors with their \<open>__post_init__\<close> checks.\<close>

definition new_sub_property_chain :: "nat \<Rightarrow> nat \<Rightarrow> sub_property_chain result" where
  "new_sub_property_chain a b =
     rbind (checks [checked_property_id a, checked_property_id b]) (\<lambda>_. Inr (SubPropertyChain a b))"

definition new_property_range :: "nat \<Rightarrow> nat \<Rightarrow> property_range result" where
  "new_property_range p e =
     rbind (checks [checked_property_id p, checked_property_id e]) (\<lambda>_. Inr (PropertyRange p e))"

definition new_property_composition :: "nat \<Rightarrow> nat \<Rightarrow> nat \<Rightarrow> property_composition result" where
  "new_property_composition l r res =
     rbind (checks [checked_property_id l, checked_property_id r, checked_property_id res])
       (\<lambda>_. Inr (PropertyComposition l r res))"

definition sub_property_chain_tautology :: "nat \<Rightarrow> sub_property_chain result" where
  "sub_property_chain_tautology c = rbind (checked_property_id c) (\<lambda>_. new_sub_property_chain c c)"

definition sub_property_chain_expanded ::
    "nat \<Rightarrow> nat \<Rightarrow> sub_property_chain option \<Rightarrow> sub_property_chain option result" where
  "sub_property_chain_expanded told_sub told_super premise =
     rbind (checks [checked_property_id told_sub, checked_property_id told_super]) (\<lambda>_.
     case premise of
       None \<Rightarrow> Inr None
     | Some derived \<Rightarrow>
         if sub_chain derived \<noteq> told_super then Inr None
         else rmap Some (new_sub_property_chain told_sub (super_chain derived)))"

definition property_range_inherited :: "nat \<Rightarrow> nat \<Rightarrow> nat \<Rightarrow> nat \<Rightarrow> sub_property_chain option \<Rightarrow>
    property_range option \<Rightarrow> property_range option result" where
  "property_range_inherited sub_property super_property sub_c super_c hierarchy range_premise =
     rbind (checks [checked_property_id sub_property, checked_property_id super_property,
       checked_property_id sub_c, checked_property_id super_c]) (\<lambda>_.
     case (hierarchy, range_premise) of
        (Some h, Some r) \<Rightarrow> rbind (new_sub_property_chain sub_c super_c) (\<lambda>expected.
          if h \<noteq> expected then Inr None
          else if range_property r \<noteq> super_property then Inr None
          else rmap Some (new_property_range sub_property (range_expression r)))
      | _ \<Rightarrow> Inr None)"

text \<open>\<open>if conclusion is None: raise AssertionError\<close>.\<close>

definition joined :: "'a option result \<Rightarrow> 'a result" where
  "joined m = rbind m (\<lambda>c. case c of None \<Rightarrow> Inl PyAssertionError | Some x \<Rightarrow> Inr x)"

section \<open>The closure\<close>

record closure_state =
  subchains_by_super :: "nat set list"
  superchains_by_sub :: "nat set list"
  subproperty_conclusions :: "sub_property_chain set"
  agenda_items :: "sub_property_chain list"

definition add_conclusion :: "sub_property_chain \<Rightarrow> closure_state \<Rightarrow> closure_state" where
  "add_conclusion c s =
     (if c \<in> subproperty_conclusions s then s
      else s\<lparr>subproperty_conclusions := insert c (subproperty_conclusions s),
             subchains_by_super := (subchains_by_super s)
               [super_chain c := insert (sub_chain c) (subchains_by_super s ! super_chain c)],
             superchains_by_sub := (superchains_by_sub s)
               [sub_chain c := insert (super_chain c) (superchains_by_sub s ! sub_chain c)],
             agenda_items := agenda_items s @ [c]\<rparr>)"

definition singleton_id :: "chain_universe \<Rightarrow> nat \<Rightarrow> nat result" where
  "singleton_id u p = (case dict_get (singleton_ids u) p of None \<Rightarrow> Inl KeyError | Some c \<Rightarrow> Inr c)"

definition empty_closure :: "nat \<Rightarrow> closure_state" where
  "empty_closure n = \<lparr>subchains_by_super = replicate n {}, superchains_by_sub = replicate n {},
     subproperty_conclusions = {}, agenda_items = []\<rparr>"

definition told_step :: "chain_universe \<Rightarrow> nat \<times> nat \<Rightarrow> (nat, nat set) dict \<times> closure_state \<Rightarrow>
    ((nat, nat set) dict \<times> closure_state) result" where
  "told_step u axiom ts = (case axiom of (compiled_sub, super_property) \<Rightarrow> case ts of (told, s) \<Rightarrow>
     rbind (if compiled_sub < length (compiled_ids u) then Inr (compiled_ids u ! compiled_sub) else Inl IndexError) (\<lambda>sub.
     rbind (singleton_id u super_property) (\<lambda>super.
     rbind (new_sub_property_chain sub super) (\<lambda>c.
     Inr (multimap_add told super sub, add_conclusion c s)))))"

definition seed_closure :: "compiled_ontology \<Rightarrow> chain_universe \<Rightarrow> ((nat, nat set) dict \<times> closure_state) result" where
  "seed_closure co u =
     rbind (rfold (\<lambda>c s. rmap (\<lambda>t. add_conclusion t s) (sub_property_chain_tautology c))
       [0..<length (records u)] (empty_closure (length (records u)))) (\<lambda>s.
     rfold (told_step u) (subproperty_axioms co) ([], s))"

definition join_told :: "(nat, nat set) dict \<Rightarrow> sub_property_chain \<Rightarrow> closure_state \<Rightarrow> closure_state result" where
  "join_told told premise s =
     rfold (\<lambda>told_sub s.
       rmap (\<lambda>c. add_conclusion c s)
         (joined (sub_property_chain_expanded told_sub (sub_chain premise) (Some premise))))
     (sorted_list_of_set (multimap_get told (sub_chain premise))) s"

text \<open>\<open>while agenda\<close>: \<open>None\<close> would be a loop that never ends.\<close>

partial_function (option) closure_loop :: "(nat, nat set) dict \<Rightarrow> closure_state \<Rightarrow> closure_state result option" where
  "closure_loop told s = (case agenda_items s of
     [] \<Rightarrow> Some (Inr s)
   | premise # rest \<Rightarrow>
       (case join_told told premise (s\<lparr>agenda_items := rest\<rparr>) of
          Inl e \<Rightarrow> Some (Inl e)
        | Inr s' \<Rightarrow> closure_loop told s'))"

section \<open>Ranges, compositions, reflexive properties\<close>

definition inherit_range :: "chain_universe \<Rightarrow> nat \<Rightarrow> property_range \<Rightarrow> nat \<Rightarrow> nat \<Rightarrow> property_range list result" where
  "inherit_range u property_id explicit super_c sub_c = (
     let rec = records u ! sub_c in
     if \<not> is_singleton rec then Inr []
     else rbind (new_sub_property_chain sub_c super_c) (\<lambda>relation.
       rmap (\<lambda>c. [c]) (joined (property_range_inherited (first_property rec) property_id sub_c super_c
         (Some relation) (Some explicit)))))"

definition inherit_ranges :: "compiled_ontology \<Rightarrow> chain_universe \<Rightarrow> closure_state \<Rightarrow> property_range list result" where
  "inherit_ranges co u s =
     rconcat_map (\<lambda>(property_id, expression).
       rbind (new_property_range property_id expression) (\<lambda>explicit.
       rbind (singleton_id u property_id) (\<lambda>super_c.
       rconcat_map (inherit_range u property_id explicit super_c)
         (sorted_list_of_set (subchains_by_super s ! super_c)))))
     (property_ranges co)"

definition named_subproperties :: "chain_universe \<Rightarrow> closure_state \<Rightarrow> nat \<Rightarrow> nat set" where
  "named_subproperties u s c =
     (\<lambda>sub_c. first_property (records u ! sub_c)) `
       Set.filter (\<lambda>sub_c. is_singleton (records u ! sub_c)) (subchains_by_super s ! c)"

definition left_subcomposable :: "chain_universe \<Rightarrow> closure_state \<Rightarrow> nat \<Rightarrow> nat \<Rightarrow> nat list result" where
  "left_subcomposable u s property_id right_property =
     rbind (singleton_id u property_id) (\<lambda>property_chain.
     rconcat_map (\<lambda>complex_sub_chain.
       let complex_record = records u ! complex_sub_chain in
       case suffix_chain complex_record of
         None \<Rightarrow> Inr []
       | Some suffix \<Rightarrow>
           rbind (singleton_id u (first_property complex_record)) (\<lambda>first_chain.
           Inr (if right_property \<in> named_subproperties u s suffix
             then sorted_list_of_set (named_subproperties u s property_chain \<inter> named_subproperties u s first_chain)
             else [])))
     (sorted_list_of_set (subchains_by_super s ! property_chain)))"

definition compositions_with_right ::
    "chain_universe \<Rightarrow> closure_state \<Rightarrow> nat \<Rightarrow> nat \<Rightarrow> nat \<Rightarrow> nat set \<Rightarrow> nat \<Rightarrow> (bool \<times> property_composition) list result" where
  "compositions_with_right u s result_c first_chain suffix right_candidates right_c =
     (if first_chain = suffix \<and> right_c = result_c then Inr []
      else
        let right_record = records u ! right_c in
        rbind (case suffix_chain right_record of
            None \<Rightarrow> Inr []
          | Some right_suffix \<Rightarrow>
              if right_suffix \<in> right_candidates
              then left_subcomposable u s (first_property (records u ! result_c)) (first_property right_record)
              else Inr []) (\<lambda>redundant_left.
        rmap_list (\<lambda>left. rmap (\<lambda>c. (left \<in> set redundant_left, c))
            (new_property_composition left right_c result_c))
          (sorted_list_of_set (named_subproperties u s first_chain))))"

definition composition_rows :: "chain_universe \<Rightarrow> closure_state \<Rightarrow> (bool \<times> property_composition) list result" where
  "composition_rows u s =
     rconcat_map (\<lambda>result_c.
       case suffix_chain (records u ! result_c) of
         None \<Rightarrow> Inr []
       | Some suffix \<Rightarrow>
           rbind (singleton_id u (first_property (records u ! result_c))) (\<lambda>first_chain.
           rconcat_map (compositions_with_right u s result_c first_chain suffix (subchains_by_super s ! suffix))
             (sorted_list_of_set (subchains_by_super s ! suffix))))
     [0..<length (records u)]"

text \<open>The pair of sets: non-redundant (minus what is also redundant) and redundant.\<close>

definition compute_compositions ::
    "chain_universe \<Rightarrow> closure_state \<Rightarrow> (property_composition set \<times> property_composition set) result" where
  "compute_compositions u s = rmap (\<lambda>rows.
     let redundant = snd ` Set.filter fst (set rows);
         non_redundant = snd ` Set.filter (\<lambda>r. \<not> fst r) (set rows)
     in (non_redundant - redundant, redundant)) (composition_rows u s)"

definition class_expression :: "compiled_ontology \<Rightarrow> py_str \<Rightarrow> nat result" where
  "class_expression co i =
     (case find_index (\<lambda>r. kind r = CLASS \<and> iri r = i) (entities co) of
        None \<Rightarrow> Inl StopIteration
      | Some e \<Rightarrow>
          (case find_index (\<lambda>r. tag r = TAG_CLASS \<and> arguments r = [e]) (expressions co) of
             None \<Rightarrow> Inl StopIteration
           | Some x \<Rightarrow> Inr x))"

definition reflexive_properties_of :: "compiled_ontology \<Rightarrow> nat list result" where
  "reflexive_properties_of co = rbind (class_expression co OWL_THING_IRI) (\<lambda>thing.
     Inr (map (\<lambda>(_, super_e). arguments (expressions co ! super_e) ! 0)
       (filter (\<lambda>(sub_e, super_e). sub_e = thing \<and> tag (expressions co ! super_e) = OBJECT_HAS_SELF)
         (subclass_axioms co))))"

section \<open>Indices\<close>

type_synonym composition_index = "(nat, (nat, nat list) dict) dict"

definition range_index :: "property_range set \<Rightarrow> (nat, nat list) dict" where
  "range_index ranges = group_by range_property range_expression (sorted_list_of_set ranges)"

definition by_pair_index :: "property_composition set \<Rightarrow> (nat \<times> nat, nat list) dict" where
  "by_pair_index comps =
     group_by (\<lambda>c. (left_property c, right_chain c)) result_chain (sorted_list_of_set comps)"

definition composition_indices :: "property_composition set \<Rightarrow> composition_index \<times> composition_index" where
  "composition_indices comps = (
     let by_pair = by_pair_index comps in
     (fold (\<lambda>row. nested_put (fst (fst row)) (snd (fst row)) (snd row)) by_pair [],
      fold (\<lambda>row. nested_put (snd (fst row)) (fst (fst row)) (snd row)) by_pair []))"

section \<open>The immutable view\<close>

record property_saturation =
  chain_records :: "property_chain_record list"
  compiled_chain_ids :: "nat list"
  subproperty_chains :: "sub_property_chain list"
  inherited_ranges :: "property_range list"
  non_redundant_compositions :: "property_composition list"
  redundant_compositions :: "property_composition list"
  reflexive_properties :: "nat list"
  entity_count :: nat
  expression_count :: nat
  sub_by_super :: "nat list list"
  super_by_sub :: "nat list list"
  ranges_by_property :: "(nat, nat list) dict"
  non_redundant_by_left :: composition_index
  redundant_by_left :: composition_index
  non_redundant_by_right :: composition_index
  redundant_by_right :: composition_index
  singleton_chains :: "(nat, nat) dict"
  chain_ids_by_key :: "(nat \<times> int, nat) dict"

definition validate_chain_ids :: "property_saturation \<Rightarrow> nat list \<Rightarrow> unit result" where
  "validate_chain_ids ps values = rassert (list_all (\<lambda>v. v < length (chain_records ps)) values) ValueError"

definition validate_composition :: "property_saturation \<Rightarrow> property_composition \<Rightarrow> unit result" where
  "validate_composition ps c = checks
     [rassert (left_property c < entity_count ps) ValueError,
      rassert (right_chain c < length (chain_records ps) \<and> result_chain c < length (chain_records ps)) ValueError,
      rassert (\<not> is_singleton (chain_records ps ! result_chain c)) ValueError]"

definition validate_conclusions :: "property_saturation \<Rightarrow> unit result" where
  "validate_conclusions ps = checks
     [check_sorted_unique (subproperty_chains ps), check_sorted_unique (inherited_ranges ps),
      check_sorted_unique (non_redundant_compositions ps), check_sorted_unique (redundant_compositions ps),
      rall (\<lambda>c. rassert (sub_chain c < length (chain_records ps) \<and> super_chain c < length (chain_records ps))
        ValueError) (subproperty_chains ps),
      rassert (card (sub_chain ` set (filter (\<lambda>c. sub_chain c = super_chain c) (subproperty_chains ps)))
        = length (chain_records ps)) ValueError,
      rall (\<lambda>c. rassert (range_property c < entity_count ps \<and> range_expression c < expression_count ps)
        ValueError) (inherited_ranges ps),
      rall (validate_composition ps) (non_redundant_compositions ps),
      rall (validate_composition ps) (redundant_compositions ps),
      rassert (set (non_redundant_compositions ps) \<inter> set (redundant_compositions ps) = {}) ValueError,
      check_sorted_unique (reflexive_properties ps),
      rassert (list_all (\<lambda>v. v < entity_count ps) (reflexive_properties ps)) ValueError]"

definition property_saturation_check :: "property_saturation \<Rightarrow> unit result" where
  "property_saturation_check ps = checks
     [rassert (chain_records ps \<noteq> []) ValueError,
      rassert (length (chain_records ps) < U32_RESERVED) ValueError,
      rassert (entity_count ps < U32_RESERVED) ValueError,
      rassert (expression_count ps < U32_RESERVED) ValueError,
      rall (\<lambda>(chain_id, r). checks
        [rassert (first_property r < entity_count ps) ValueError,
         (case suffix_chain r of None \<Rightarrow> Inr () | Some s \<Rightarrow> rassert (s < chain_id) ValueError)])
        (enumerate 0 (chain_records ps)),
      validate_chain_ids ps (compiled_chain_ids ps),
      rassert (length (sub_by_super ps) = length (chain_records ps) \<and>
        length (super_by_sub ps) = length (chain_records ps)) ValueError,
      rall (validate_chain_ids ps) (sub_by_super ps),
      rall (validate_chain_ids ps) (super_by_sub ps),
      validate_conclusions ps]"

definition assemble :: "compiled_ontology \<Rightarrow> chain_universe \<Rightarrow> closure_state \<Rightarrow> property_range set \<Rightarrow>
    property_composition set \<Rightarrow> property_composition set \<Rightarrow> nat set \<Rightarrow> property_saturation" where
  "assemble co u s ranges non_redundant redundant reflexive =
     \<lparr>chain_records = records u, compiled_chain_ids = compiled_ids u,
      subproperty_chains = sorted_list_of_set (subproperty_conclusions s),
      inherited_ranges = sorted_list_of_set ranges,
      non_redundant_compositions = sorted_list_of_set non_redundant,
      redundant_compositions = sorted_list_of_set redundant,
      reflexive_properties = sorted_list_of_set reflexive,
      entity_count = length (entities co), expression_count = length (expressions co),
      sub_by_super = map sorted_list_of_set (subchains_by_super s),
      super_by_sub = map sorted_list_of_set (superchains_by_sub s),
      ranges_by_property = range_index ranges,
      non_redundant_by_left = fst (composition_indices non_redundant),
      redundant_by_left = fst (composition_indices redundant),
      non_redundant_by_right = snd (composition_indices non_redundant),
      redundant_by_right = snd (composition_indices redundant),
      singleton_chains = singleton_ids u, chain_ids_by_key = ids_by_key u\<rparr>"

definition finish_saturation :: "compiled_ontology \<Rightarrow> chain_universe \<Rightarrow> closure_state \<Rightarrow> property_saturation result" where
  "finish_saturation co u s =
     rbind (inherit_ranges co u s) (\<lambda>ranges.
     rbind (compute_compositions u s) (\<lambda>(non_redundant, redundant).
     rbind (reflexive_properties_of co) (\<lambda>reflexive.
     let ps = assemble co u s (set ranges) non_redundant redundant (set reflexive) in
     rbind (property_saturation_check ps) (\<lambda>_. Inr ps))))"

definition saturate_properties :: "compiled_ontology \<Rightarrow> property_saturation result option" where
  "saturate_properties co = (
     case build_chain_universe co of
       Inl e \<Rightarrow> Some (Inl e)
     | Inr u \<Rightarrow>
         (case seed_closure co u of
            Inl e \<Rightarrow> Some (Inl e)
          | Inr (told, s) \<Rightarrow>
              (case closure_loop told s of
                 None \<Rightarrow> None
               | Some (Inl e) \<Rightarrow> Some (Inl e)
               | Some (Inr s') \<Rightarrow> Some (finish_saturation co u s'))))"

section \<open>Within the namespace the constructors do not raise\<close>

lemma new_sub_property_chain_ok [simp]:
  "a < U32_RESERVED \<Longrightarrow> b < U32_RESERVED \<Longrightarrow> new_sub_property_chain a b = Inr (SubPropertyChain a b)"
  by (simp add: new_sub_property_chain_def checked_property_id_def checks_def)

lemma new_property_range_ok [simp]:
  "p < U32_RESERVED \<Longrightarrow> e < U32_RESERVED \<Longrightarrow> new_property_range p e = Inr (PropertyRange p e)"
  by (simp add: new_property_range_def checked_property_id_def checks_def)

lemma new_property_composition_ok [simp]:
  "l < U32_RESERVED \<Longrightarrow> r < U32_RESERVED \<Longrightarrow> res < U32_RESERVED \<Longrightarrow>
   new_property_composition l r res = Inr (PropertyComposition l r res)"
  by (simp add: new_property_composition_def checked_property_id_def checks_def)

lemma sub_property_chain_tautology_ok [simp]:
  "c < U32_RESERVED \<Longrightarrow> sub_property_chain_tautology c = Inr (SubPropertyChain c c)"
  by (simp add: sub_property_chain_tautology_def checked_property_id_def)

lemma sub_property_chain_expanded_ok:
  "a < U32_RESERVED \<Longrightarrow> sub_chain d < U32_RESERVED \<Longrightarrow> super_chain d < U32_RESERVED \<Longrightarrow>
   joined (sub_property_chain_expanded a (sub_chain d) (Some d)) = Inr (SubPropertyChain a (super_chain d))"
  by (simp add: sub_property_chain_expanded_def checked_property_id_def checks_def joined_def)

lemma property_range_inherited_ok:
  "q < U32_RESERVED \<Longrightarrow> p < U32_RESERVED \<Longrightarrow> a < U32_RESERVED \<Longrightarrow> b < U32_RESERVED \<Longrightarrow> e < U32_RESERVED \<Longrightarrow>
   joined (property_range_inherited q p a b (Some (SubPropertyChain a b)) (Some (PropertyRange p e))) =
     Inr (PropertyRange q e)"
  by (simp add: property_range_inherited_def checked_property_id_def checks_def joined_def)

section \<open>Queries\<close>

definition chain_index :: "property_saturation \<Rightarrow> nat \<Rightarrow> nat result" where
  "chain_index ps c = rbind (rassert (c < U32_RESERVED) ValueError) (\<lambda>_.
     if c \<ge> length (chain_records ps) then Inl IndexError else Inr c)"

definition compiled_chain :: "property_saturation \<Rightarrow> nat \<Rightarrow> nat result" where
  "compiled_chain ps c = rbind (rassert (c < U32_RESERVED) ValueError) (\<lambda>_.
     if c \<ge> length (compiled_chain_ids ps) then Inl IndexError else Inr (compiled_chain_ids ps ! c))"

definition singleton_chain :: "property_saturation \<Rightarrow> nat \<Rightarrow> nat result" where
  "singleton_chain ps p = rbind (rassert (p < U32_RESERVED) ValueError) (\<lambda>_.
     case dict_get (singleton_chains ps) p of None \<Rightarrow> Inl KeyError | Some c \<Rightarrow> Inr c)"

fun lookup_reversed :: "property_saturation \<Rightarrow> nat list \<Rightarrow> nat option \<Rightarrow> nat option result" where
  "lookup_reversed ps [] current = Inr current"
| "lookup_reversed ps (p # rest) current =
     rbind (rassert (p < U32_RESERVED) ValueError) (\<lambda>_.
       case dict_get (chain_ids_by_key ps) (p, suffix_key current) of
         None \<Rightarrow> Inr None
       | Some c \<Rightarrow> lookup_reversed ps rest (Some c))"

definition lookup_chain :: "property_saturation \<Rightarrow> nat list \<Rightarrow> nat option result" where
  "lookup_chain ps properties =
     (if properties = [] then Inl ValueError else lookup_reversed ps (rev properties) None)"

definition chain_properties :: "property_saturation \<Rightarrow> nat \<Rightarrow> nat list result" where
  "chain_properties ps c = rmap (chain_members (chain_records ps)) (chain_index ps c)"

definition sub_chains :: "property_saturation \<Rightarrow> nat \<Rightarrow> nat list result" where
  "sub_chains ps c = rmap (\<lambda>i. sub_by_super ps ! i) (chain_index ps c)"

definition super_chains :: "property_saturation \<Rightarrow> nat \<Rightarrow> nat list result" where
  "super_chains ps c = rmap (\<lambda>i. super_by_sub ps ! i) (chain_index ps c)"

definition sub_properties :: "property_saturation \<Rightarrow> nat \<Rightarrow> nat list result" where
  "sub_properties ps c = rmap (\<lambda>cs.
     map (\<lambda>i. first_property (chain_records ps ! i)) (filter (\<lambda>i. is_singleton (chain_records ps ! i)) cs))
     (sub_chains ps c)"

definition ranges :: "property_saturation \<Rightarrow> nat \<Rightarrow> nat list result" where
  "ranges ps p = rbind (rassert (p < U32_RESERVED) ValueError) (\<lambda>_.
     Inr (case dict_get (ranges_by_property ps) p of None \<Rightarrow> [] | Some es \<Rightarrow> es))"

definition compositions :: "property_saturation \<Rightarrow> bool \<Rightarrow> nat \<Rightarrow> nat \<Rightarrow> nat list result" where
  "compositions ps redundant left right =
     rbind (rassert (left < U32_RESERVED) ValueError) (\<lambda>_.
     rbind (chain_index ps right) (\<lambda>right.
     Inr (case dict_get (if redundant then redundant_by_left ps else non_redundant_by_left ps) left of
            None \<Rightarrow> []
          | Some by_right \<Rightarrow> (case dict_get by_right right of None \<Rightarrow> [] | Some rs \<Rightarrow> rs))))"

definition compositions_by_right :: "property_saturation \<Rightarrow> bool \<Rightarrow> nat \<Rightarrow> (nat, nat list) dict result" where
  "compositions_by_right ps redundant left =
     rbind (rassert (left < U32_RESERVED) ValueError) (\<lambda>_.
     Inr (case dict_get (if redundant then redundant_by_left ps else non_redundant_by_left ps) left of
            None \<Rightarrow> [] | Some d \<Rightarrow> d))"

definition compositions_by_left :: "property_saturation \<Rightarrow> bool \<Rightarrow> nat \<Rightarrow> (nat, nat list) dict result" where
  "compositions_by_left ps redundant right =
     rbind (chain_index ps right) (\<lambda>right.
     Inr (case dict_get (if redundant then redundant_by_right ps else non_redundant_by_right ps) right of
            None \<Rightarrow> [] | Some d \<Rightarrow> d))"

end
