(* ===== verification/Property_Closure.thy ===== *)
theory Property_Closure
  imports Properties
begin

text \<open>
  The property stage is right: the closure is the reflexive-transitive closure of the told axioms
  over the chain table, ranges are inherited exactly along it, the composition indices are two views
  of one set, and the constructor's own validation never fires on what the builder assembles.
\<close>

section \<open>The agenda loop\<close>

lemma closure_views_add [simp]:
  "subproperty_conclusions (add_conclusion c s) = insert c (subproperty_conclusions s)"
  by (auto simp: add_conclusion_def)

text \<open>The adjacency lists are the two views of the conclusion set.\<close>

definition closure_views :: "nat \<Rightarrow> closure_state \<Rightarrow> bool" where
  "closure_views n s \<longleftrightarrow>
     length (subchains_by_super s) = n \<and> length (superchains_by_sub s) = n \<and>
     (\<forall>b < n. subchains_by_super s ! b = {a. SubPropertyChain a b \<in> subproperty_conclusions s}) \<and>
     (\<forall>a < n. superchains_by_sub s ! a = {b. SubPropertyChain a b \<in> subproperty_conclusions s})"

definition in_table :: "nat \<Rightarrow> sub_property_chain \<Rightarrow> bool" where
  "in_table n c \<longleftrightarrow> sub_chain c < n \<and> super_chain c < n"

lemma closure_views_empty [simp]: "closure_views n (empty_closure n)"
  by (simp add: closure_views_def empty_closure_def)

lemma closure_views_step:
  assumes "closure_views n s" and "in_table n c"
  shows "closure_views n (add_conclusion c s)"
  using assms by (cases c) (auto simp: closure_views_def add_conclusion_def in_table_def nth_list_update)

lemma agenda_add: "agenda_items (add_conclusion c s) =
    agenda_items s @ (if c \<in> subproperty_conclusions s then [] else [c])"
  by (simp add: add_conclusion_def)

definition table_conclusions :: "nat \<Rightarrow> sub_property_chain set" where
  "table_conclusions n = (\<lambda>(a, b). SubPropertyChain a b) ` ({..< n} \<times> {..< n})"

lemma finite_table_conclusions [simp]: "finite (table_conclusions n)"
  by (simp add: table_conclusions_def)

lemma in_table_conclusions: "c \<in> table_conclusions n \<longleftrightarrow> in_table n c"
  by (cases c) (auto simp: table_conclusions_def in_table_def)

text \<open>
  \<open>T\<close> is the told relation, sub-chain to super-chain.  Every conclusion is told or follows; what is not
  on the agenda has been joined with every told axiom below it.
\<close>

definition closure_inv :: "nat \<Rightarrow> (nat \<times> nat) set \<Rightarrow> closure_state \<Rightarrow> bool" where
  "closure_inv n T s \<longleftrightarrow>
     closure_views n s \<and>
     subproperty_conclusions s \<subseteq> table_conclusions n \<and>
     (\<forall>c \<in> subproperty_conclusions s. (sub_chain c, super_chain c) \<in> T\<^sup>*) \<and>
     (\<forall>a < n. SubPropertyChain a a \<in> subproperty_conclusions s) \<and>
     set (agenda_items s) \<subseteq> subproperty_conclusions s \<and>
     (\<forall>c \<in> subproperty_conclusions s - set (agenda_items s). \<forall>a. (a, sub_chain c) \<in> T \<longrightarrow>
        SubPropertyChain a (super_chain c) \<in> subproperty_conclusions s)"

lemma closure_invI:
  assumes "closure_views n s" and "subproperty_conclusions s \<subseteq> table_conclusions n"
    and "\<forall>c \<in> subproperty_conclusions s. (sub_chain c, super_chain c) \<in> T\<^sup>*"
    and "\<forall>a < n. SubPropertyChain a a \<in> subproperty_conclusions s"
    and "set (agenda_items s) \<subseteq> subproperty_conclusions s"
    and "\<forall>c \<in> subproperty_conclusions s - set (agenda_items s). \<forall>a. (a, sub_chain c) \<in> T \<longrightarrow>
        SubPropertyChain a (super_chain c) \<in> subproperty_conclusions s"
  shows "closure_inv n T s"
  using assms unfolding closure_inv_def by blast

definition closure_measure :: "nat \<Rightarrow> closure_state \<Rightarrow> nat" where
  "closure_measure n s = 2 * card (table_conclusions n - subproperty_conclusions s) + length (agenda_items s)"

lemma closure_measure_add:
  assumes "in_table n c"
  shows "closure_measure n (add_conclusion c s) \<le> closure_measure n s"
proof (cases "c \<in> subproperty_conclusions s")
  case True
  then show ?thesis by (simp add: closure_measure_def add_conclusion_def)
next
  case False
  let ?M = "table_conclusions n - subproperty_conclusions s"
  have "c \<in> ?M" using assms False by (simp add: in_table_conclusions)
  then have "0 < card ?M" by (auto simp: card_gt_0_iff)
  moreover have "card (?M - {c}) = card ?M - 1" using \<open>c \<in> ?M\<close> by (simp add: card_Diff_singleton)
  moreover have "table_conclusions n - subproperty_conclusions (add_conclusion c s) = ?M - {c}" by auto
  ultimately show ?thesis
    using False by (simp add: closure_measure_def agenda_add)
qed

text \<open>Joining one premise adds exactly the sub-chains told below it.\<close>

lemma join_told_eq:
  assumes "in_table n premise" and "n \<le> U32_RESERVED"
    and "set (sorted_list_of_set (multimap_get told (sub_chain premise))) \<subseteq> {..< n}"
  shows "join_told told premise s = Inr (fold (\<lambda>a. add_conclusion (SubPropertyChain a (super_chain premise)))
     (sorted_list_of_set (multimap_get told (sub_chain premise))) s)"
  unfolding join_told_def
proof (rule rfold_Inr)
  fix a s assume "a \<in> set (sorted_list_of_set (multimap_get told (sub_chain premise)))"
  with assms have "a < U32_RESERVED" "sub_chain premise < U32_RESERVED" "super_chain premise < U32_RESERVED"
    by (auto simp: in_table_def)
  from sub_property_chain_expanded_ok [OF this]
  show "rmap (\<lambda>c. add_conclusion c s) (joined (sub_property_chain_expanded a (sub_chain premise) (Some premise))) =
      Inr (add_conclusion (SubPropertyChain a (super_chain premise)) s)"
    by simp
qed

lemma fold_add_conclusions:
  assumes "closure_views n s" and "\<forall>c \<in> set cs. in_table n c"
  shows "closure_views n (fold add_conclusion cs s)"
    and "subproperty_conclusions (fold add_conclusion cs s) = subproperty_conclusions s \<union> set cs"
    and "closure_measure n (fold add_conclusion cs s) \<le> closure_measure n s"
    and "set (agenda_items (fold add_conclusion cs s)) = set (agenda_items s) \<union> (set cs - subproperty_conclusions s)"
proof -
  have "closure_views n (fold add_conclusion cs s) \<and>
    subproperty_conclusions (fold add_conclusion cs s) = subproperty_conclusions s \<union> set cs \<and>
    closure_measure n (fold add_conclusion cs s) \<le> closure_measure n s \<and>
    set (agenda_items (fold add_conclusion cs s)) = set (agenda_items s) \<union> (set cs - subproperty_conclusions s)"
    using assms
  proof (induction cs arbitrary: s)
    case (Cons c cs)
    then have v: "closure_views n (add_conclusion c s)" by (simp add: closure_views_step)
    have m: "closure_measure n (add_conclusion c s) \<le> closure_measure n s"
      using Cons.prems by (simp add: closure_measure_add)
    from Cons.IH [OF v] Cons.prems(2) m show ?case by (auto simp: agenda_add)
  qed simp
  then show "closure_views n (fold add_conclusion cs s)"
    and "subproperty_conclusions (fold add_conclusion cs s) = subproperty_conclusions s \<union> set cs"
    and "closure_measure n (fold add_conclusion cs s) \<le> closure_measure n s"
    and "set (agenda_items (fold add_conclusion cs s)) = set (agenda_items s) \<union> (set cs - subproperty_conclusions s)"
    by blast+
qed

lemma fold_join: "fold (\<lambda>a. add_conclusion (SubPropertyChain a b)) as s =
    fold add_conclusion (map (\<lambda>a. SubPropertyChain a b) as) s"
  by (induction as arbitrary: s) simp_all

text \<open>\<open>told_dict n T told\<close>: the dictionary holds, below each chain, its told sub-chains.\<close>

definition told_dict :: "nat \<Rightarrow> (nat \<times> nat) set \<Rightarrow> (nat, nat set) dict \<Rightarrow> bool" where
  "told_dict n T told \<longleftrightarrow> no_empty_values told \<and> multimap_rel told = T\<inverse> \<and> T \<subseteq> {..< n} \<times> {..< n}"

lemma told_dict_get:
  assumes "told_dict n T told"
  shows "set (sorted_list_of_set (multimap_get told b)) = {a. (a, b) \<in> T}"
proof -
  have "finite (multimap_get told b)"
    using assms by (auto simp: told_dict_def intro: finite_multimap_get)
  moreover have "multimap_get told b = {a. (a, b) \<in> T}"
    using assms multimap_get_rel [of _ told b] by (auto simp: told_dict_def)
  ultimately show ?thesis by simp
qed

lemma closure_step:
  assumes inv: "closure_inv n T s" and told: "told_dict n T told" and small: "n \<le> U32_RESERVED"
    and agenda: "agenda_items s = premise # rest"
  obtains s' where "join_told told premise (s\<lparr>agenda_items := rest\<rparr>) = Inr s'"
    and "closure_inv n T s'" and "closure_measure n s' < closure_measure n s"
proof -
  let ?start = "s\<lparr>agenda_items := rest\<rparr>"
  let ?as = "sorted_list_of_set (multimap_get told (sub_chain premise))"
  let ?cs = "map (\<lambda>a. SubPropertyChain a (super_chain premise)) ?as"
  let ?next = "fold add_conclusion ?cs ?start"
  have as: "set ?as = {a. (a, sub_chain premise) \<in> T}" by (rule told_dict_get [OF told])
  have prem: "premise \<in> subproperty_conclusions s" using inv agenda by (auto simp: closure_inv_def)
  then have in_n: "in_table n premise" and star: "(sub_chain premise, super_chain premise) \<in> T\<^sup>*"
    using inv by (auto simp: closure_inv_def in_table_conclusions)
  have as_n: "set ?as \<subseteq> {..< n}" using as told by (auto simp: told_dict_def)
  with in_n have table: "\<forall>c \<in> set ?cs. in_table n c" by (auto simp: in_table_def)
  have v: "closure_views n s" using inv unfolding closure_inv_def by blast
  then have v0: "closure_views n ?start" by (simp add: closure_views_def)
  note f = fold_add_conclusions [OF v0 table]
  have "closure_measure n ?start < closure_measure n s"
    using agenda by (simp add: closure_measure_def)
  with f(3) have "closure_measure n ?next < closure_measure n s" by simp
  moreover have "join_told told premise ?start = Inr ?next" 
    by (simp add: join_told_eq [OF in_n small as_n] fold_join)
  moreover have "closure_inv n T ?next"
  proof (rule closure_invI [OF f(1)])
    show "subproperty_conclusions ?next \<subseteq> table_conclusions n"
      using inv table f(2) by (auto simp: closure_inv_def in_table_conclusions)
    show "\<forall>c \<in> subproperty_conclusions ?next. (sub_chain c, super_chain c) \<in> T\<^sup>*"
      using inv f(2) as star by (auto simp: closure_inv_def intro: converse_rtrancl_into_rtrancl)
    show "set (agenda_items ?next) \<subseteq> subproperty_conclusions ?next"
      using inv f(2,4) agenda by (auto simp: closure_inv_def)
    show "\<forall>c \<in> subproperty_conclusions ?next - set (agenda_items ?next). \<forall>a. (a, sub_chain c) \<in> T \<longrightarrow>
        SubPropertyChain a (super_chain c) \<in> subproperty_conclusions ?next"
    proof (intro ballI allI impI)
      fix c a assume c: "c \<in> subproperty_conclusions ?next - set (agenda_items ?next)" and a: "(a, sub_chain c) \<in> T"
      show "SubPropertyChain a (super_chain c) \<in> subproperty_conclusions ?next"
      proof (cases "c = premise")
        case True
        with a as f(2) show ?thesis by auto
      next
        case False
        with c f(2,4) agenda have "c \<in> subproperty_conclusions s - set (agenda_items s)" by auto
        with inv a have "SubPropertyChain a (super_chain c) \<in> subproperty_conclusions s"
          by (simp add: closure_inv_def)
        with f(2) show ?thesis by simp
      qed
    qed
    show "\<forall>a < n. SubPropertyChain a a \<in> subproperty_conclusions ?next"
      using inv f(2) by (simp add: closure_inv_def)
  qed
  ultimately show ?thesis by (intro that)
qed

lemma closure_loop_total:
  assumes "closure_inv n T s" and "told_dict n T told" and "n \<le> U32_RESERVED"
  shows "\<exists>s'. closure_loop told s = Some (Inr s') \<and> closure_inv n T s' \<and> agenda_items s' = []"
  using assms(1)
proof (induction "closure_measure n s" arbitrary: s rule: less_induct)
  case less
  show ?case
  proof (cases "agenda_items s")
    case Nil
    with less.prems show ?thesis by (simp add: closure_loop.simps)
  next
    case (Cons premise rest)
    from closure_step [OF less.prems assms(2,3) Cons] obtain s' where
      "join_told told premise (s\<lparr>agenda_items := rest\<rparr>) = Inr s'" "closure_inv n T s'"
      "closure_measure n s' < closure_measure n s" by blast
    with less.hyps [of s'] Cons show ?thesis by (simp add: closure_loop.simps [of told s])
  qed
qed

text \<open>When the agenda is empty, everything that follows has been concluded.\<close>

lemma closure_complete:
  assumes inv: "closure_inv n T s" and idle: "agenda_items s = []" and T: "T \<subseteq> {..< n} \<times> {..< n}"
    and "(a, b) \<in> T\<^sup>*" and b: "b < n"
  shows "SubPropertyChain a b \<in> subproperty_conclusions s"
  using assms(4)
proof (induction rule: converse_rtrancl_induct)
  case base
  with b inv show ?case by (simp add: closure_inv_def)
next
  case (step a c)
  with inv idle show ?case by (fastforce simp: closure_inv_def)
qed

lemma closure_result:
  assumes inv: "closure_inv n T s" and idle: "agenda_items s = []" and T: "T \<subseteq> {..< n} \<times> {..< n}"
  shows "SubPropertyChain a b \<in> subproperty_conclusions s \<longleftrightarrow> a < n \<and> b < n \<and> (a, b) \<in> T\<^sup>*"
proof
  assume c: "SubPropertyChain a b \<in> subproperty_conclusions s"
  have "subproperty_conclusions s \<subseteq> table_conclusions n"
    and star: "\<forall>c \<in> subproperty_conclusions s. (sub_chain c, super_chain c) \<in> T\<^sup>*"
    using inv unfolding closure_inv_def by blast+
  with c have "in_table n (SubPropertyChain a b)" by (simp add: in_table_conclusions [symmetric] subset_iff)
  moreover from star c have "(a, b) \<in> T\<^sup>*" by force
  ultimately show "a < n \<and> b < n \<and> (a, b) \<in> T\<^sup>*" by (simp add: in_table_def)
next
  assume "a < n \<and> b < n \<and> (a, b) \<in> T\<^sup>*"
  with closure_complete [OF inv idle T] show "SubPropertyChain a b \<in> subproperty_conclusions s" by blast
qed

section \<open>Seeding\<close>

definition told_pair :: "chain_universe \<Rightarrow> nat \<times> nat \<Rightarrow> nat \<times> nat" where
  "told_pair u axiom = (compiled_ids u ! fst axiom, the (dict_get (singleton_ids u) (snd axiom)))"

text \<open>The told axioms as a relation on the chain table.\<close>

definition told_relation :: "compiled_ontology \<Rightarrow> chain_universe \<Rightarrow> (nat \<times> nat) set" where
  "told_relation co u = told_pair u ` set (subproperty_axioms co)"

lemma compiled_id_bound:
  assumes "universe_inv co u" and "c < length (property_chains co)"
  shows "compiled_ids u ! c < length (records u)" and "c < length (compiled_ids u)"
    and "spells (chain_table (records u)) (Some (compiled_ids u ! c)) (property_chains co ! c)"
proof -
  show "spells (chain_table (records u)) (Some (compiled_ids u ! c)) (property_chains co ! c)"
    "c < length (compiled_ids u)"
    using assms unfolding universe_inv_def by auto
  then show "compiled_ids u ! c < length (records u)" using spells_bound by fastforce
qed

lemma singleton_record:
  assumes "universe_inv co u" and "dict_get (singleton_ids u) p = Some c"
  shows "c < length (records u)" and "records u ! c = PropertyChainRecord p None"
  using assms unfolding universe_inv_def by blast+

lemma singleton_exists:
  assumes "universe_inv co u" and "is_object_property co p"
  obtains c where "dict_get (singleton_ids u) p = Some c" and "c < length (records u)"
    and "records u ! c = PropertyChainRecord p None" and "singleton_id u p = Inr c"
proof -
  from assms obtain c where "dict_get (singleton_ids u) p = Some c"
    unfolding universe_inv_def by blast
  with singleton_record [OF assms(1) this] show ?thesis by (intro that) (auto simp: singleton_id_def)
qed

lemma told_pair_table:
  assumes "valid_ontology co" and "universe_inv co u" and "axiom \<in> set (subproperty_axioms co)"
  shows "fst (told_pair u axiom) < length (records u)" and "snd (told_pair u axiom) < length (records u)"
    and "told_step u axiom (told, s) =
      Inr (multimap_add told (snd (told_pair u axiom)) (fst (told_pair u axiom)),
           add_conclusion (SubPropertyChain (fst (told_pair u axiom)) (snd (told_pair u axiom))) s)"
proof -
  obtain c p where cp: "axiom = (c, p)" by (cases axiom)
  note ids = subproperty_axiom_ids [OF assms(1) assms(3) [unfolded cp]]
  obtain d where d: "dict_get (singleton_ids u) p = Some d" "d < length (records u)"
    "records u ! d = PropertyChainRecord p None" "singleton_id u p = Inr d"
    by (rule singleton_exists [OF assms(2) ids(2)])
  have "length (records u) < U32_RESERVED" using assms(2) unfolding universe_inv_def by blast
  with compiled_id_bound [OF assms(2) ids(1)] d show
    "fst (told_pair u axiom) < length (records u)" "snd (told_pair u axiom) < length (records u)"
    "told_step u axiom (told, s) =
      Inr (multimap_add told (snd (told_pair u axiom)) (fst (told_pair u axiom)),
           add_conclusion (SubPropertyChain (fst (told_pair u axiom)) (snd (told_pair u axiom))) s)"
    by (simp_all add: told_pair_def told_step_def cp)
qed

lemma fold_told_dict:
  "no_empty_values d \<Longrightarrow> no_empty_values (fold (\<lambda>x d. multimap_add d (snd (f x)) (fst (f x))) xs d) \<and>
   multimap_rel (fold (\<lambda>x d. multimap_add d (snd (f x)) (fst (f x))) xs d) = multimap_rel d \<union> (f ` set xs)\<inverse>"
proof (induction xs arbitrary: d)
  case (Cons x xs)
  from Cons.IH [of "multimap_add d (snd (f x)) (fst (f x))"] Cons.prems show ?case
    by (cases "f x") auto
qed simp

lemma fold_pair: "fold (\<lambda>x (a, b). (f x a, g x b)) xs (a, b) = (fold f xs a, fold g xs b)"
  by (induction xs arbitrary: a b) simp_all

definition told_subproperty :: "chain_universe \<Rightarrow> nat \<times> nat \<Rightarrow> sub_property_chain" where
  "told_subproperty u axiom = SubPropertyChain (fst (told_pair u axiom)) (snd (told_pair u axiom))"

lemma told_relation_table:
  assumes "valid_ontology co" and "universe_inv co u"
  shows "told_relation co u \<subseteq> {..< length (records u)} \<times> {..< length (records u)}"
proof
  fix x assume "x \<in> told_relation co u"
  then obtain axiom where "axiom \<in> set (subproperty_axioms co)" "x = told_pair u axiom"
    by (auto simp: told_relation_def)
  with told_pair_table(1,2) [OF assms] show "x \<in> {..< length (records u)} \<times> {..< length (records u)}"
    by (simp add: mem_Times_iff)
qed

definition seed_conclusions :: "compiled_ontology \<Rightarrow> chain_universe \<Rightarrow> sub_property_chain list" where
  "seed_conclusions co u = map (\<lambda>c. SubPropertyChain c c) [0..<length (records u)] @
     map (told_subproperty u) (subproperty_axioms co)"

definition told_table :: "compiled_ontology \<Rightarrow> chain_universe \<Rightarrow> (nat, nat set) dict" where
  "told_table co u =
     fold (\<lambda>x d. multimap_add d (snd (told_pair u x)) (fst (told_pair u x))) (subproperty_axioms co) []"

lemma seed_closure_eq:
  assumes "valid_ontology co" and "universe_inv co u"
  shows "seed_closure co u = Inr (told_table co u,
    fold add_conclusion (seed_conclusions co u) (empty_closure (length (records u))))"
proof -
  have n: "length (records u) < U32_RESERVED" using assms(2) unfolding universe_inv_def by blast
  have "rfold (\<lambda>c s. rmap (\<lambda>t. add_conclusion t s) (sub_property_chain_tautology c)) [0..<length (records u)] s0 =
      Inr (fold (\<lambda>c. add_conclusion (SubPropertyChain c c)) [0..<length (records u)] s0)" for s0
    by (rule rfold_Inr) (use n in simp)
  moreover have "rfold (told_step u) (subproperty_axioms co) ([], s0) =
      Inr (fold (\<lambda>x (a, b). (multimap_add a (snd (told_pair u x)) (fst (told_pair u x)),
      add_conclusion (told_subproperty u x) b)) (subproperty_axioms co) ([], s0))" for s0
  proof (rule rfold_Inr)
    fix x s assume "x \<in> set (subproperty_axioms co)"
    from told_pair_table(3) [OF assms this, of "fst s" "snd s"]
    show "told_step u x s = Inr (case s of (a, b) \<Rightarrow>
      (multimap_add a (snd (told_pair u x)) (fst (told_pair u x)), add_conclusion (told_subproperty u x) b))"
      by (simp add: told_subproperty_def split_beta)
  qed
  ultimately show ?thesis
    by (simp add: seed_closure_def fold_pair told_table_def seed_conclusions_def fold_map o_def)
qed

lemma told_table_ok:
  assumes "valid_ontology co" and "universe_inv co u"
  shows "told_dict (length (records u)) (told_relation co u) (told_table co u)"
proof -
  have "told_relation co u \<subseteq> {..< length (records u)} \<times> {..< length (records u)}"
    by (rule told_relation_table [OF assms])
  moreover have "no_empty_values (told_table co u) \<and> multimap_rel (told_table co u) = (told_relation co u)\<inverse>"
    using fold_told_dict [of "[]" "told_pair u" "subproperty_axioms co"]
    unfolding told_table_def told_relation_def by simp
  ultimately show ?thesis by (simp add: told_dict_def)
qed

lemma seed_conclusions_table:
  assumes "valid_ontology co" and "universe_inv co u"
  shows "\<forall>c \<in> set (seed_conclusions co u). in_table (length (records u)) c"
    and "\<forall>c \<in> set (seed_conclusions co u). (sub_chain c, super_chain c) \<in> (told_relation co u)\<^sup>*"
    and "\<forall>a < length (records u). SubPropertyChain a a \<in> set (seed_conclusions co u)"
proof -
  have told: "in_table (length (records u)) (told_subproperty u x)"
    "(sub_chain (told_subproperty u x), super_chain (told_subproperty u x)) \<in> (told_relation co u)\<^sup>*"
    if "x \<in> set (subproperty_axioms co)" for x
  proof -
    from that have "(fst (told_pair u x), snd (told_pair u x)) \<in> told_relation co u"
      by (simp add: told_relation_def)
    then show "(sub_chain (told_subproperty u x), super_chain (told_subproperty u x)) \<in> (told_relation co u)\<^sup>*"
      by (simp add: told_subproperty_def r_into_rtrancl)
    show "in_table (length (records u)) (told_subproperty u x)"
      using told_pair_table(1,2) [OF assms that] by (simp add: in_table_def told_subproperty_def)
  qed
  have members: "set (seed_conclusions co u) = (\<lambda>c. SubPropertyChain c c) ` {..< length (records u)} \<union>
      told_subproperty u ` set (subproperty_axioms co)"
    by (simp add: seed_conclusions_def atLeast0LessThan)
  have diagonal: "in_table (length (records u)) (SubPropertyChain a a)"
    "(sub_chain (SubPropertyChain a a), super_chain (SubPropertyChain a a)) \<in> R\<^sup>*"
    if "a < length (records u)" for a and R
    using that by (simp_all add: in_table_def)
  show "\<forall>c \<in> set (seed_conclusions co u). in_table (length (records u)) c"
    unfolding members using told(1) diagonal(1) by blast
  show "\<forall>c \<in> set (seed_conclusions co u). (sub_chain c, super_chain c) \<in> (told_relation co u)\<^sup>*"
    unfolding members using told(2) diagonal(2) by blast
  show "\<forall>a < length (records u). SubPropertyChain a a \<in> set (seed_conclusions co u)"
    by (auto simp: seed_conclusions_def)
qed

lemma seed_closure_ok:
  assumes "valid_ontology co" and "universe_inv co u"
  shows "closure_inv (length (records u)) (told_relation co u)
    (fold add_conclusion (seed_conclusions co u) (empty_closure (length (records u))))"
proof (rule closure_invI)
  note c = seed_conclusions_table [OF assms]
  let ?seeded = "fold add_conclusion (seed_conclusions co u) (empty_closure (length (records u)))"
  note f = fold_add_conclusions [OF closure_views_empty c(1)]
  have m: "subproperty_conclusions ?seeded = set (seed_conclusions co u)"
    "set (agenda_items ?seeded) = set (seed_conclusions co u)"
    unfolding f(2,4) by (simp_all add: empty_closure_def)
  show "closure_views (length (records u)) ?seeded" by (rule f(1))
  show "subproperty_conclusions ?seeded \<subseteq> table_conclusions (length (records u))"
    unfolding m using c(1) in_table_conclusions by blast
  show "\<forall>c \<in> subproperty_conclusions ?seeded. (sub_chain c, super_chain c) \<in> (told_relation co u)\<^sup>*"
    unfolding m by (rule c(2))
  show "\<forall>a < length (records u). SubPropertyChain a a \<in> subproperty_conclusions ?seeded"
    unfolding m by (rule c(3))
  show "set (agenda_items ?seeded) \<subseteq> subproperty_conclusions ?seeded"
    unfolding m by (rule subset_refl)
  show "\<forall>c \<in> subproperty_conclusions ?seeded - set (agenda_items ?seeded). \<forall>a.
      (a, sub_chain c) \<in> told_relation co u \<longrightarrow> SubPropertyChain a (super_chain c) \<in> subproperty_conclusions ?seeded"
    unfolding m by blast
qed

text \<open>\<open>closure_of co u s\<close>: the finished closure, as the rest of the stage reads it.\<close>

definition chain_below :: "compiled_ontology \<Rightarrow> chain_universe \<Rightarrow> nat \<Rightarrow> nat \<Rightarrow> bool" where
  "chain_below co u a b \<longleftrightarrow> a < length (records u) \<and> b < length (records u) \<and> (a, b) \<in> (told_relation co u)\<^sup>*"

definition closure_of :: "compiled_ontology \<Rightarrow> chain_universe \<Rightarrow> closure_state \<Rightarrow> bool" where
  "closure_of co u s \<longleftrightarrow> closure_views (length (records u)) s \<and>
     (\<forall>a b. SubPropertyChain a b \<in> subproperty_conclusions s \<longleftrightarrow> chain_below co u a b)"

lemma closure_computed:
  assumes "valid_ontology co" and "universe_inv co u"
  obtains told s0 s where "seed_closure co u = Inr (told, s0)" and "closure_loop told s0 = Some (Inr s)"
    and "closure_of co u s"
proof -
  have "length (records u) \<le> U32_RESERVED" using assms(2) unfolding universe_inv_def by simp
  from closure_loop_total [OF seed_closure_ok [OF assms] told_table_ok [OF assms] this]
  obtain s where s: "closure_loop (told_table co u) (fold add_conclusion (seed_conclusions co u)
      (empty_closure (length (records u)))) = Some (Inr s)"
    "closure_inv (length (records u)) (told_relation co u) s" "agenda_items s = []" by blast
  have "closure_views (length (records u)) s" using s(2) unfolding closure_inv_def by blast
  moreover have "\<forall>a b. SubPropertyChain a b \<in> subproperty_conclusions s \<longleftrightarrow> chain_below co u a b"
    using closure_result [OF s(2,3) told_relation_table [OF assms]] by (simp add: chain_below_def)
  ultimately have "closure_of co u s" by (simp add: closure_of_def)
  with seed_closure_eq [OF assms] s(1) show ?thesis by (rule that)
qed

end
