(* ===== verification/Property_Stage.thy ===== *)
theory Property_Stage
  imports Property_Closure
begin

text \<open>
  What \<open>saturate_properties\<close> assembles from the closure: the inherited ranges are exactly those a told
  super-property has, the two composition tables split the composable triples, and the validation of
  the assembled view passes.
\<close>

section \<open>Chains and named properties below a chain\<close>

definition named_below :: "compiled_ontology \<Rightarrow> chain_universe \<Rightarrow> nat \<Rightarrow> nat \<Rightarrow> bool" where
  "named_below co u q c \<longleftrightarrow> (\<exists>a. dict_get (singleton_ids u) q = Some a \<and> chain_below co u a c)"

lemma closure_rows:
  assumes "closure_of co u s" and "c < length (records u)"
  shows "subchains_by_super s ! c = {a. chain_below co u a c}"
    and "superchains_by_sub s ! c = {b. chain_below co u c b}"
  using assms unfolding closure_of_def closure_views_def by auto

lemma finite_chain_below [simp]: "finite {a. chain_below co u a c}" "finite {b. chain_below co u c b}"
  by (rule finite_subset [of _ "{..< length (records u)}"]; auto simp: chain_below_def)+

lemma chain_below_bounds: "chain_below co u a b \<Longrightarrow> a < length (records u) \<and> b < length (records u)"
  by (simp add: chain_below_def)

lemma chain_below_refl: "c < length (records u) \<Longrightarrow> chain_below co u c c"
  by (simp add: chain_below_def)

lemma chain_below_trans: "chain_below co u a b \<Longrightarrow> chain_below co u b c \<Longrightarrow> chain_below co u a c"
  by (auto simp: chain_below_def)

lemma record_property:
  assumes "universe_inv co u" and "c < length (records u)"
  shows "is_object_property co (first_property (records u ! c))"
    and "\<And>s. suffix_chain (records u ! c) = Some s \<Longrightarrow> s < c"
  using assms unfolding universe_inv_def by blast+

lemma records_distinct: "universe_inv co u \<Longrightarrow> distinct (records u)"
  unfolding universe_inv_def using keys_table_distinct by blast

text \<open>A singleton record is found under its property.\<close>

lemma singleton_id_iff:
  assumes "universe_inv co u" and "a < length (records u)"
  shows "is_singleton (records u ! a) \<and> first_property (records u ! a) = q \<longleftrightarrow> dict_get (singleton_ids u) q = Some a"
proof
  assume a: "is_singleton (records u ! a) \<and> first_property (records u ! a) = q"
  then have rec: "records u ! a = PropertyChainRecord q None"
    by (cases "records u ! a") (simp add: is_singleton_def)
  from a record_property(1) [OF assms] have "is_object_property co q" by simp
  then obtain b where b: "dict_get (singleton_ids u) q = Some b" "b < length (records u)"
    "records u ! b = PropertyChainRecord q None" "singleton_id u q = Inr b"
    by (rule singleton_exists [OF assms(1)])
  have "a = b"
    using records_distinct [OF assms(1)] assms(2) b(2,3) rec by (simp add: nth_eq_iff_index_eq [symmetric])
  with b(1) show "dict_get (singleton_ids u) q = Some a" by simp
next
  assume "dict_get (singleton_ids u) q = Some a"
  with singleton_record [OF assms(1)] show "is_singleton (records u ! a) \<and> first_property (records u ! a) = q"
    by (auto simp: is_singleton_def)
qed

lemma named_subproperties_eq:
  assumes inv: "universe_inv co u" and closure: "closure_of co u s" and c: "c < length (records u)"
  shows "named_subproperties u s c = {q. named_below co u q c}"
proof -
  have "q \<in> named_subproperties u s c \<longleftrightarrow>
      (\<exists>a. chain_below co u a c \<and> is_singleton (records u ! a) \<and> first_property (records u ! a) = q)" for q
    using closure_rows(1) [OF closure c] by (auto simp: named_subproperties_def)
  then show ?thesis
    using singleton_id_iff [OF inv] chain_below_bounds unfolding named_below_def by blast
qed

lemma named_below_property:
  assumes "universe_inv co u" and "named_below co u q c"
  shows "is_object_property co q"
  using assms unfolding universe_inv_def named_below_def by auto

lemma finite_named_below [simp]: "universe_inv co u \<Longrightarrow> finite {q. named_below co u q c}"
  by (rule finite_subset [of _ "{..< length (entities co)}"])
    (auto dest: named_below_property simp: is_object_property_def)

section \<open>Inherited ranges\<close>

definition inherited_range_set :: "compiled_ontology \<Rightarrow> chain_universe \<Rightarrow> property_range set" where
  "inherited_range_set co u = {PropertyRange q e |q e p b. (p, e) \<in> set (property_ranges co) \<and>
     dict_get (singleton_ids u) p = Some b \<and> named_below co u q b}"

lemma inherit_range_yields:
  assumes valid: "valid_ontology co" and inv: "universe_inv co u"
    and p: "is_object_property co p" and e: "is_expression co e" and ab: "chain_below co u a b"
  shows "yields (inherit_range u p (PropertyRange p e) b a)
    {PropertyRange q e |q. dict_get (singleton_ids u) q = Some a}"
proof -
  have a: "a < length (records u)" and b: "b < length (records u)" using chain_below_bounds [OF ab] by blast+
  have n: "length (records u) < U32_RESERVED" using inv unfolding universe_inv_def by blast
  let ?q = "first_property (records u ! a)"
  have u32: "?q < U32_RESERVED" "p < U32_RESERVED" "a < U32_RESERVED" "b < U32_RESERVED" "e < U32_RESERVED"
    using is_object_property_u32 [OF valid] is_expression_u32 [OF valid e] p record_property(1) [OF inv a] a b n
    by auto
  have sid: "is_singleton (records u ! a) \<and> first_property (records u ! a) = q \<longleftrightarrow>
      dict_get (singleton_ids u) q = Some a" for q
    by (rule singleton_id_iff [OF inv a])
  show ?thesis
    using u32 by (auto simp: inherit_range_def Let_def property_range_inherited_ok sid [symmetric])
qed

lemma inherit_ranges_yields:
  assumes valid: "valid_ontology co" and inv: "universe_inv co u" and closure: "closure_of co u s"
  shows "yields (inherit_ranges co u s) (inherited_range_set co u)"
proof -
  have row: "yields (case x of (p, e) \<Rightarrow> rbind (new_property_range p e) (\<lambda>explicit.
        rbind (singleton_id u p) (\<lambda>super_c. rconcat_map (inherit_range u p explicit super_c)
          (sorted_list_of_set (subchains_by_super s ! super_c)))))
      {PropertyRange q e |q e b. x = (fst x, e) \<and> dict_get (singleton_ids u) (fst x) = Some b \<and> named_below co u q b}"
    if x: "x \<in> set (property_ranges co)" for x
  proof -
    obtain p e where [simp]: "x = (p, e)" by (cases x)
    have p: "is_object_property co p" and e: "is_expression co e"
      using property_range_ids [OF valid] x by simp_all
    obtain b where b: "dict_get (singleton_ids u) p = Some b" "b < length (records u)"
      "records u ! b = PropertyChainRecord p None" "singleton_id u p = Inr b"
      by (rule singleton_exists [OF inv p])
    have rows: "set (sorted_list_of_set (subchains_by_super s ! b)) = {a. chain_below co u a b}"
      using closure_rows(1) [OF closure b(2)] by simp
    have "yields (rconcat_map (inherit_range u p (PropertyRange p e) b) (sorted_list_of_set (subchains_by_super s ! b)))
      (\<Union>a \<in> set (sorted_list_of_set (subchains_by_super s ! b)). {PropertyRange q e |q. dict_get (singleton_ids u) q = Some a})"
      by (rule yields_rconcat_map, rule inherit_range_yields [OF valid inv p e]) (use rows in blast)
    moreover have "(\<Union>a \<in> {a. chain_below co u a b}.
        {PropertyRange q e |q. dict_get (singleton_ids u) q = Some a}) = {PropertyRange q e |q. named_below co u q b}"
      by (auto simp: named_below_def)
    ultimately show ?thesis
      using b(1,4) is_object_property_u32 [OF valid p] is_expression_u32 [OF valid e] rows by simp
  qed
  show ?thesis
    unfolding inherit_ranges_def
    by (rule yields_eq [OF yields_rconcat_map [OF row]]) (fastforce simp: inherited_range_set_def)+
qed

lemma inherited_range_bounds:
  assumes "valid_ontology co" and "universe_inv co u" and "r \<in> inherited_range_set co u"
  shows "is_object_property co (range_property r)" and "is_expression co (range_expression r)"
proof -
  from assms(3) obtain q e p b where r: "r = PropertyRange q e" "(p, e) \<in> set (property_ranges co)" "named_below co u q b"
    by (auto simp: inherited_range_set_def)
  with named_below_property [OF assms(2)] property_range_ids(2) [OF assms(1)]
  show "is_object_property co (range_property r)" "is_expression co (range_expression r)" by auto
qed

section \<open>Compositions\<close>

text \<open>
  \<open>composes co u c\<close>: the left property and the right chain of \<open>c\<close> lie below the two halves of its
  result.  The code skips a result that would extend itself with its own suffix.
\<close>

definition composes :: "compiled_ontology \<Rightarrow> chain_universe \<Rightarrow> property_composition \<Rightarrow> bool" where
  "composes co u c \<longleftrightarrow> result_chain c < length (records u) \<and> (\<exists>suffix first_chain.
     suffix_chain (records u ! result_chain c) = Some suffix \<and>
     dict_get (singleton_ids u) (first_property (records u ! result_chain c)) = Some first_chain \<and>
     named_below co u (left_property c) first_chain \<and> chain_below co u (right_chain c) suffix \<and>
     \<not> (first_chain = suffix \<and> right_chain c = result_chain c))"

lemma left_subcomposable_total:
  assumes inv: "universe_inv co u" and closure: "closure_of co u s" and p: "is_object_property co p"
  shows "\<exists>S. yields (left_subcomposable u s p r) S"
proof -
  obtain b where b: "dict_get (singleton_ids u) p = Some b" "b < length (records u)"
    "records u ! b = PropertyChainRecord p None" "singleton_id u p = Inr b"
    by (rule singleton_exists [OF inv p])
  have "\<exists>S. yields (case suffix_chain (records u ! a) of None \<Rightarrow> Inr []
       | Some suffix \<Rightarrow> rbind (singleton_id u (first_property (records u ! a))) (\<lambda>first_chain.
           Inr (if r \<in> named_subproperties u s suffix
             then sorted_list_of_set (named_subproperties u s b \<inter> named_subproperties u s first_chain)
             else []))) S" if "chain_below co u a b" for a
  proof -
    have "a < length (records u)" using that by (simp add: chain_below_def)
    then have "is_object_property co (first_property (records u ! a))" by (rule record_property(1) [OF inv])
    then obtain f where "singleton_id u (first_property (records u ! a)) = Inr f"
      using singleton_exists [OF inv] by metis
    then show ?thesis by (cases "suffix_chain (records u ! a)") auto
  qed
  then obtain S where S: "\<And>a. chain_below co u a b \<Longrightarrow> yields (case suffix_chain (records u ! a) of None \<Rightarrow> Inr []
       | Some suffix \<Rightarrow> rbind (singleton_id u (first_property (records u ! a))) (\<lambda>first_chain.
           Inr (if r \<in> named_subproperties u s suffix
             then sorted_list_of_set (named_subproperties u s b \<inter> named_subproperties u s first_chain)
             else []))) (S a)" by metis
  have "yields (left_subcomposable u s p r) (\<Union>a \<in> set (sorted_list_of_set (subchains_by_super s ! b)). S a)"
    unfolding left_subcomposable_def b(4) rbind_simps Let_def
    by (rule yields_rconcat_map) (use S closure_rows(1) [OF closure b(2)] in simp)
  then show ?thesis by blast
qed

lemma compositions_with_right_yields:
  assumes valid: "valid_ontology co" and inv: "universe_inv co u" and closure: "closure_of co u s"
    and result: "result < length (records u)" and f: "f < length (records u)"
    and right: "right < length (records u)"
  shows "yields_image snd (compositions_with_right u s result f suffix X right)
    {PropertyComposition l right result |l. named_below co u l f \<and> \<not> (f = suffix \<and> right = result)}"
proof (cases "f = suffix \<and> right = result")
  case True
  then show ?thesis by (simp add: compositions_with_right_def)
next
  case False
  have "\<exists>ls. left_subcomposable u s (first_property (records u ! result)) r = Inr ls" for r
    using left_subcomposable_total [OF inv closure record_property(1) [OF inv result]]
    by (simp add: yields_def)
  then obtain ls where "(case suffix_chain (records u ! right) of None \<Rightarrow> Inr []
      | Some right_suffix \<Rightarrow> if right_suffix \<in> X
          then left_subcomposable u s (first_property (records u ! result)) (first_property (records u ! right))
          else Inr []) = Inr ls"
    by (cases "suffix_chain (records u ! right)") (auto split: if_splits, metis)
  then have "compositions_with_right u s result f suffix X right =
      rmap_list (\<lambda>l. rmap (\<lambda>c. (l \<in> set ls, c)) (new_property_composition l right result))
        (sorted_list_of_set {q. named_below co u q f})"
    using False by (auto simp: compositions_with_right_def named_subproperties_eq [OF inv closure f] Let_def)
  also have "\<dots> = Inr (map (\<lambda>l. (l \<in> set ls, PropertyComposition l right result))
      (sorted_list_of_set {q. named_below co u q f}))"
  proof (rule rmap_list_Inr)
    fix l assume "l \<in> set (sorted_list_of_set {q. named_below co u q f})"
    then have "is_object_property co l"
      using named_below_property [OF inv] finite_named_below [OF inv] by simp
    then have "l < U32_RESERVED" by (rule is_object_property_u32 [OF valid])
    moreover have "length (records u) < U32_RESERVED" using inv unfolding universe_inv_def by blast
    ultimately show "rmap (\<lambda>c. (l \<in> set ls, c)) (new_property_composition l right result) =
        Inr (l \<in> set ls, PropertyComposition l right result)"
      using right result by simp
  qed
  finally show ?thesis using False finite_named_below [OF inv] by (auto simp: image_iff)
qed

lemma composition_rows_yields:
  assumes valid: "valid_ontology co" and inv: "universe_inv co u" and closure: "closure_of co u s"
  shows "yields_image snd (composition_rows u s) {c. composes co u c}"
proof -
  let ?of = "\<lambda>result. {c. composes co u c \<and> result_chain c = result}"
  have row: "yields_image snd (case suffix_chain (records u ! result) of None \<Rightarrow> Inr []
      | Some suffix \<Rightarrow> rbind (singleton_id u (first_property (records u ! result))) (\<lambda>first_chain.
          rconcat_map (compositions_with_right u s result first_chain suffix (subchains_by_super s ! suffix))
            (sorted_list_of_set (subchains_by_super s ! suffix)))) (?of result)"
    if r: "result < length (records u)" for result
  proof (cases "suffix_chain (records u ! result)")
    case None
    then show ?thesis by (auto simp: composes_def)
  next
    case (Some suffix)
    have "suffix < length (records u)" using record_property(2) [OF inv r Some] r by simp
    obtain f where f: "dict_get (singleton_ids u) (first_property (records u ! result)) = Some f"
      "f < length (records u)" "records u ! f = PropertyChainRecord (first_property (records u ! result)) None"
      "singleton_id u (first_property (records u ! result)) = Inr f"
      by (rule singleton_exists [OF inv record_property(1) [OF inv r]])
    let ?S = "\<lambda>right. {PropertyComposition l right result |l. named_below co u l f \<and> \<not> (f = suffix \<and> right = result)}"
    have rows: "set (sorted_list_of_set (subchains_by_super s ! suffix)) = {a. chain_below co u a suffix}"
      using closure_rows(1) [OF closure \<open>suffix < length (records u)\<close>] by simp
    have "yields_image snd (rconcat_map (compositions_with_right u s result f suffix (subchains_by_super s ! suffix))
        (sorted_list_of_set (subchains_by_super s ! suffix))) (\<Union>right \<in> {a. chain_below co u a suffix}. ?S right)"
      unfolding rows [symmetric]
      by (rule yields_image_rconcat_map, rule compositions_with_right_yields [OF valid inv closure r f(2)])
        (use rows chain_below_bounds in auto)
    moreover have "(\<Union>right \<in> {a. chain_below co u a suffix}. ?S right) = ?of result"
    proof (rule set_eqI)
      fix c show "c \<in> (\<Union>right \<in> {a. chain_below co u a suffix}. ?S right) \<longleftrightarrow> c \<in> ?of result"
        using r Some f(1) by (cases c) (auto simp: composes_def)
    qed
    ultimately show ?thesis using Some f(4) by simp
  qed
  have "yields_image snd (composition_rows u s) (\<Union>result \<in> set [0..<length (records u)]. ?of result)"
    unfolding composition_rows_def by (rule yields_image_rconcat_map, rule row) simp
  moreover have "(\<Union>result \<in> set [0..<length (records u)]. ?of result) = {c. composes co u c}"
    by (auto simp: composes_def)
  ultimately show ?thesis by simp
qed

lemma compute_compositions_split:
  assumes "valid_ontology co" and "universe_inv co u" and "closure_of co u s"
  obtains nr rd where "compute_compositions u s = Inr (nr, rd)" and "nr \<union> rd = {c. composes co u c}"
    and "nr \<inter> rd = {}" and "finite nr" and "finite rd"
proof -
  obtain rows where rows: "composition_rows u s = Inr rows" "snd ` set rows = {c. composes co u c}"
    using composition_rows_yields [OF assms] by (auto simp: yields_image_def)
  let ?rd = "snd ` Set.filter fst (set rows)"
  let ?nr = "snd ` Set.filter (\<lambda>r. \<not> fst r) (set rows)"
  have "?nr - ?rd \<union> ?rd = snd ` set rows" by (auto simp: image_iff)
  with rows show ?thesis
    by (intro that [of "?nr - ?rd" ?rd]) (auto simp: compute_compositions_def Let_def)
qed

lemma composes_bounds:
  assumes "universe_inv co u" and "composes co u c"
  shows "is_object_property co (left_property c)" and "right_chain c < length (records u)"
    and "result_chain c < length (records u)" and "\<not> is_singleton (records u ! result_chain c)"
  using assms(2) named_below_property [OF assms(1)] chain_below_bounds
  unfolding composes_def is_singleton_def by blast+

section \<open>Reflexive properties\<close>

lemma class_expression_total:
  assumes valid: "valid_ontology co" and "(CLASS, i) \<in> set predefined_entities"
  obtains x e where "class_expression co i = Inr x" and "is_expression co x"
    and "tag (expressions co ! x) = TAG_CLASS" and "arguments (expressions co ! x) = [e]"
    and "e < length (entities co)" and "iri (entities co ! e) = i"
proof -
  let ?is = "\<lambda>r. kind r = CLASS \<and> iri r = i"
  from predefined_entity [OF assms] obtain e0 where "e0 < length (entities co)" "?is (entities co ! e0)" by blast
  then have "find_index ?is (entities co) \<noteq> None"
    unfolding find_index_from_None using nth_mem by blast
  then obtain e where e: "find_index ?is (entities co) = Some e" by auto
  from find_index_Some [OF this] have ent: "e < length (entities co)" "kind (entities co ! e) = CLASS"
    "iri (entities co ! e) = i" by auto
  let ?names = "\<lambda>r. tag r = TAG_CLASS \<and> arguments r = [e]"
  have "kind (entities co ! e) = (if TAG_CLASS = TAG_CLASS then CLASS else NAMED_INDIVIDUAL)" using ent(2) by simp
  from named_expression [OF valid ent(1) this] obtain y where "is_expression co y"
    "tag (expressions co ! y) = TAG_CLASS" "arguments (expressions co ! y) = [e]" by blast
  then have "find_index ?names (expressions co) \<noteq> None"
    unfolding find_index_from_None is_expression_def using nth_mem by blast
  then obtain x where x: "find_index ?names (expressions co) = Some x" by auto
  from find_index_Some [OF this] show ?thesis
    using ent e x by (intro that [of x e]) (auto simp: class_expression_def is_expression_def)
qed

lemma reflexive_properties_total:
  assumes valid: "valid_ontology co"
  obtains ps where "reflexive_properties_of co = Inr ps" and "\<forall>p \<in> set ps. is_object_property co p"
proof -
  have "(CLASS, OWL_THING_IRI) \<in> set predefined_entities" by (simp add: predefined_entities_def)
  then obtain thing where thing: "class_expression co OWL_THING_IRI = Inr thing"
    using class_expression_total [OF valid] by metis
  have "is_object_property co (arguments (expressions co ! b) ! 0)"
    if "(a, b) \<in> set (subclass_axioms co)" "tag (expressions co ! b) = OBJECT_HAS_SELF" for a b
    using subclass_axiom_expressions [OF valid that(1)] has_self_arguments [OF valid _ that(2)] by force
  then show ?thesis using thing by (intro that) (auto simp: reflexive_properties_of_def)
qed

section \<open>The assembled view passes its own validation\<close>

definition property_limits :: "compiled_ontology \<Rightarrow> bool" where
  "property_limits co \<longleftrightarrow> small_chains co \<and> length (entities co) < U32_RESERVED \<and>
     length (expressions co) < U32_RESERVED"

text \<open>The parameters the assembled view is made of.\<close>

definition stage_result :: "compiled_ontology \<Rightarrow> chain_universe \<Rightarrow> closure_state \<Rightarrow>
    property_composition set \<Rightarrow> property_composition set \<Rightarrow> nat set \<Rightarrow> bool" where
  "stage_result co u s nr rd reflx \<longleftrightarrow> universe_inv co u \<and> closure_of co u s \<and>
     nr \<union> rd = {c. composes co u c} \<and> nr \<inter> rd = {} \<and> finite nr \<and> finite rd \<and>
     finite reflx \<and> (\<forall>p \<in> reflx. is_object_property co p)"

lemma stage_resultD:
  assumes "stage_result co u s nr rd reflx"
  shows "universe_inv co u" "closure_of co u s" "nr \<union> rd = {c. composes co u c}" "nr \<inter> rd = {}"
    "finite nr" "finite rd" "finite reflx" "\<And>p. p \<in> reflx \<Longrightarrow> is_object_property co p"
  using assms unfolding stage_result_def by blast+

lemma finite_closure: "closure_of co u s \<Longrightarrow> finite (subproperty_conclusions s)"
proof (rule finite_subset)
  assume c: "closure_of co u s"
  show "subproperty_conclusions s \<subseteq> table_conclusions (length (records u))"
  proof
    fix x assume "x \<in> subproperty_conclusions s"
    moreover obtain a b where "x = SubPropertyChain a b" by (cases x)
    ultimately show "x \<in> table_conclusions (length (records u))"
      using c unfolding closure_of_def by (simp add: in_table_conclusions in_table_def chain_below_def)
  qed
qed simp

lemma assembled_fields [simp]:
  "chain_records (assemble co u s R nr rd reflx) = records u"
  "compiled_chain_ids (assemble co u s R nr rd reflx) = compiled_ids u"
  "subproperty_chains (assemble co u s R nr rd reflx) = sorted_list_of_set (subproperty_conclusions s)"
  "inherited_ranges (assemble co u s R nr rd reflx) = sorted_list_of_set R"
  "non_redundant_compositions (assemble co u s R nr rd reflx) = sorted_list_of_set nr"
  "redundant_compositions (assemble co u s R nr rd reflx) = sorted_list_of_set rd"
  "reflexive_properties (assemble co u s R nr rd reflx) = sorted_list_of_set reflx"
  "entity_count (assemble co u s R nr rd reflx) = length (entities co)"
  "expression_count (assemble co u s R nr rd reflx) = length (expressions co)"
  "sub_by_super (assemble co u s R nr rd reflx) = map sorted_list_of_set (subchains_by_super s)"
  "super_by_sub (assemble co u s R nr rd reflx) = map sorted_list_of_set (superchains_by_sub s)"
  "ranges_by_property (assemble co u s R nr rd reflx) = range_index R"
  "non_redundant_by_left (assemble co u s R nr rd reflx) = fst (composition_indices nr)"
  "redundant_by_left (assemble co u s R nr rd reflx) = fst (composition_indices rd)"
  "non_redundant_by_right (assemble co u s R nr rd reflx) = snd (composition_indices nr)"
  "redundant_by_right (assemble co u s R nr rd reflx) = snd (composition_indices rd)"
  "singleton_chains (assemble co u s R nr rd reflx) = singleton_ids u"
  "chain_ids_by_key (assemble co u s R nr rd reflx) = ids_by_key u"
  by (simp_all add: assemble_def)

lemma adjacency_valid:
  assumes closure: "closure_of co u s" and "row \<in> set (map sorted_list_of_set (subchains_by_super s)) \<or>
    row \<in> set (map sorted_list_of_set (superchains_by_sub s))"
  shows "\<forall>x \<in> set row. x < length (records u)"
proof -
  have n: "length (subchains_by_super s) = length (records u)" "length (superchains_by_sub s) = length (records u)"
    using closure unfolding closure_of_def closure_views_def by blast+
  with assms(2) obtain c where "c < length (records u)" "row = sorted_list_of_set (subchains_by_super s ! c) \<or>
      row = sorted_list_of_set (superchains_by_sub s ! c)"
    by (auto simp: in_set_conv_nth)
  with closure_rows [OF closure] chain_below_bounds show ?thesis by force
qed

lemma universe_not_empty:
  assumes "valid_ontology co" and "universe_inv co u"
  shows "records u \<noteq> []"
proof -
  have "(OBJECT_PROPERTY, OWL_TOP_OBJECT_PROPERTY_IRI) \<in> set predefined_entities"
    by (simp add: predefined_entities_def)
  from predefined_entity [OF assms(1) this] obtain p where "is_object_property co p"
    unfolding is_object_property_def by blast
  then obtain c where "c < length (records u)" using singleton_exists [OF assms(2)] by metis
  then show ?thesis by auto
qed

lemma validate_composition_ok:
  assumes "universe_inv co u" and "composes co u c"
  shows "validate_composition (assemble co u s R nr rd reflx) c = Inr ()"
  using composes_bounds [OF assms] by (simp add: validate_composition_def is_object_property_def)

lemma validate_conclusions_ok:
  assumes valid: "valid_ontology co" and st: "stage_result co u s nr rd reflx"
    and R: "R = inherited_range_set co u" and finR: "finite R"
  shows "validate_conclusions (assemble co u s R nr rd reflx) = Inr ()"
proof -
  note d = stage_resultD [OF st]
  let ?C = "subproperty_conclusions s"
  have fin: "finite ?C" by (rule finite_closure [OF d(2)])
  have mem: "c \<in> ?C \<longleftrightarrow> chain_below co u (sub_chain c) (super_chain c)" for c
    using d(2) unfolding closure_of_def by (cases c) simp
  have "sub_chain ` {c \<in> ?C. sub_chain c = super_chain c} = {..< length (records u)}"
  proof (intro equalityI subsetI)
    fix a assume "a \<in> {..< length (records u)}"
    then have "SubPropertyChain a a \<in> ?C" by (simp add: mem chain_below_refl)
    then show "a \<in> sub_chain ` {c \<in> ?C. sub_chain c = super_chain c}" by force
  qed (auto simp: mem chain_below_def)
  then have card: "card (sub_chain ` {c \<in> ?C. sub_chain c = super_chain c}) = length (records u)" by simp
  have comp: "validate_composition (assemble co u s R nr rd reflx) c = Inr ()" if "c \<in> nr \<union> rd" for c
    using that unfolding d(3) by (auto intro: validate_composition_ok [OF d(1)])
  have ranges: "range_property r < length (entities co) \<and> range_expression r < length (expressions co)" if "r \<in> R" for r
    using inherited_range_bounds [OF valid d(1)] that R by (auto simp: is_object_property_def is_expression_def)
  have chains: "sub_chain c < length (records u) \<and> super_chain c < length (records u)" if "c \<in> ?C" for c
    using that mem chain_below_bounds by blast
  show ?thesis
    unfolding validate_conclusions_def
    using fin finR d(4,5,6,7) card comp ranges chains d(8)
    by (simp add: check_sorted_unique_def strictly_sorted_list_of_set rall_Inr_iff list_all_iff
        is_object_property_def)
qed

lemma property_saturation_check_ok:
  assumes valid: "valid_ontology co" and limits: "property_limits co"
    and st: "stage_result co u s nr rd reflx"
    and R: "R = inherited_range_set co u" and finR: "finite R"
  shows "property_saturation_check (assemble co u s R nr rd reflx) = Inr ()"
proof -
  note d = stage_resultD [OF st]
  have n: "length (records u) < U32_RESERVED" using d(1) unfolding universe_inv_def by blast
  have lens: "length (subchains_by_super s) = length (records u)" "length (superchains_by_sub s) = length (records u)"
    using d(2) unfolding closure_of_def closure_views_def by blast+
  have recs: "(case x of (chain_id, r) \<Rightarrow> checks
        [rassert (first_property r < length (entities co)) ValueError,
         (case suffix_chain r of None \<Rightarrow> Inr () | Some s \<Rightarrow> rassert (s < chain_id) ValueError)]) = Inr ()"
    if "x \<in> set (enumerate 0 (records u))" for x
  proof -
    have c: "x = (fst x, records u ! fst x)" "fst x < length (records u)"
      using that by (auto simp: in_set_enumerate_eq prod_eq_iff)
    from record_property [OF d(1) c(2)] show ?thesis
      by (subst c(1)) (auto simp: is_object_property_def split: option.splits)
  qed
  have compiled: "list_all (\<lambda>v. v < length (records u)) (compiled_ids u)"
    using compiled_id_bound(1) [OF d(1)] d(1) unfolding list_all_length universe_inv_def by auto
  have adj: "validate_chain_ids (assemble co u s R nr rd reflx) row = Inr ()"
    if "row \<in> set (map sorted_list_of_set (subchains_by_super s)) \<or>
        row \<in> set (map sorted_list_of_set (superchains_by_sub s))" for row
    using adjacency_valid [OF d(2) that] by (simp add: validate_chain_ids_def list_all_iff)
  show ?thesis
    unfolding property_saturation_check_def
    using universe_not_empty [OF valid d(1)] n limits lens recs compiled adj
      validate_conclusions_ok [OF valid st R finR]
    by (simp add: rall_Inr_iff validate_chain_ids_def property_limits_def)
qed

text \<open>The whole stage: it ends, it does not raise, and this is what it returns.\<close>

lemma saturate_properties_ok:
  assumes valid: "valid_ontology co" and limits: "property_limits co"
  obtains u s nr rd reflx where "build_chain_universe co = Inr u" and "stage_result co u s nr rd reflx"
    and "saturate_properties co = Some (Inr (assemble co u s (inherited_range_set co u) nr rd reflx))"
proof -
  from build_chain_universe_ok [OF valid] limits obtain u where u: "build_chain_universe co = Inr u" "universe_inv co u"
    by (auto simp: property_limits_def)
  obtain told s0 s where s: "seed_closure co u = Inr (told, s0)" "closure_loop told s0 = Some (Inr s)"
    "closure_of co u s"
    by (rule closure_computed [OF valid u(2)])
  obtain rs where rs: "inherit_ranges co u s = Inr rs" "set rs = inherited_range_set co u"
    using inherit_ranges_yields [OF valid u(2) s(3)] by (auto simp: yields_def)
  obtain nr rd where c: "compute_compositions u s = Inr (nr, rd)" "nr \<union> rd = {c. composes co u c}"
    "nr \<inter> rd = {}" "finite nr" "finite rd"
    by (rule compute_compositions_split [OF valid u(2) s(3)])
  obtain ps where ps: "reflexive_properties_of co = Inr ps" "\<forall>p \<in> set ps. is_object_property co p"
    by (rule reflexive_properties_total [OF valid])
  have st: "stage_result co u s nr rd (set ps)"
    using u(2) s(3) c(2-5) ps(2) by (simp add: stage_result_def)
  have "finite (inherited_range_set co u)" using rs(2) by (metis List.finite_set)
  from property_saturation_check_ok [OF valid limits st refl this]
  have "saturate_properties co = Some (Inr (assemble co u s (inherited_range_set co u) nr rd (set ps)))"
    using u(1) s(1,2) rs c(1) ps(1) by (simp add: saturate_properties_def finish_saturation_def Let_def)
  with u(1) st show ?thesis by (rule that)
qed

end
