(* ===== verification/Property_View.thy ===== *)
theory Property_View
  imports Property_Stage
begin

text \<open>
  The interface the class rules read, Python's protocol \<open>PropertyView\<close>: the locale states what its
  queries promise, and it is interpreted on the queries of \<open>PropertySaturation\<close>.
\<close>

section \<open>Rows of the indices\<close>

definition index_rel :: "('k, 'v list) dict \<Rightarrow> ('k \<times> 'v) set" where
  "index_rel d = {(k, v). \<exists>vs. (k, vs) \<in> set d \<and> v \<in> set vs}"

definition no_empty_rows :: "('k, 'v list) dict \<Rightarrow> bool" where
  "no_empty_rows d \<longleftrightarrow> distinct (map fst d) \<and> (\<forall>(k, vs) \<in> set d. vs \<noteq> [])"

lemma no_empty_rows_Nil: "no_empty_rows d \<Longrightarrow> d = [] \<longleftrightarrow> index_rel d = {}"
proof (cases d)
  case (Cons row rest)
  assume "no_empty_rows d"
  with Cons have "snd row \<noteq> []" by (cases row) (auto simp: no_empty_rows_def)
  then obtain v where "v \<in> set (snd row)" by (cases "snd row") auto
  then have "(fst row, v) \<in> index_rel d" using Cons by (cases row) (auto simp: index_rel_def)
  with Cons show ?thesis by auto
qed (simp add: index_rel_def)

definition nested_row :: "('a, ('b, 'v) dict) dict \<Rightarrow> 'a \<Rightarrow> ('b, 'v) dict" where
  "nested_row d a = (case dict_get d a of None \<Rightarrow> [] | Some inner \<Rightarrow> inner)"

lemma nested_row_mem:
  assumes "nested_inv d"
  shows "(b, v) \<in> set (nested_row d a) \<longleftrightarrow> nested_get d a b = Some v" and "distinct (map fst (nested_row d a))"
  using assms by (auto simp: nested_inv_def nested_row_def nested_get_def split: option.splits)

lemma by_pair_get:
  assumes "finite comps"
  shows "dict_get (by_pair_index comps) (l, r) = Some rs \<longleftrightarrow>
    rs \<noteq> [] \<and> rs = map result_chain (filter (\<lambda>c. left_property c = l \<and> right_chain c = r) (sorted_list_of_set comps))"
  unfolding by_pair_index_def group_by_get Let_def prod.inject [symmetric] prod.collapse
  by (cases "filter (\<lambda>c. (left_property c, right_chain c) = (l, r)) (sorted_list_of_set comps)") auto

lemma by_pair_rel:
  assumes "finite comps" and "dict_get (by_pair_index comps) (l, r) = Some rs"
  shows "rs \<noteq> []" and "set rs = {res. PropertyComposition l r res \<in> comps}"
proof -
  have rs: "rs \<noteq> []" "rs = map result_chain (filter (\<lambda>c. left_property c = l \<and> right_chain c = r) (sorted_list_of_set comps))"
    using assms(2) unfolding by_pair_get [OF assms(1)] by blast+
  then show "rs \<noteq> []" by simp
  show "set rs = {res. PropertyComposition l r res \<in> comps}"
  proof (intro equalityI subsetI)
    fix res assume "res \<in> set rs"
    then obtain c where "c \<in> comps" "left_property c = l" "right_chain c = r" "res = result_chain c"
      using rs(2) assms(1) by auto
    then show "res \<in> {res. PropertyComposition l r res \<in> comps}" by (cases c) auto
  next
    fix res assume "res \<in> {res. PropertyComposition l r res \<in> comps}"
    with rs(2) assms(1) show "res \<in> set rs" by force
  qed
qed

lemma by_pair_exists:
  assumes "finite comps" and "PropertyComposition l r res \<in> comps"
  shows "\<exists>rs. dict_get (by_pair_index comps) (l, r) = Some rs"
proof -
  have "filter (\<lambda>c. left_property c = l \<and> right_chain c = r) (sorted_list_of_set comps) \<noteq> []"
    using assms by (force simp: filter_empty_conv)
  then show ?thesis unfolding by_pair_get [OF assms(1)] by auto
qed

lemma composition_indices_get:
  "nested_inv (fst (composition_indices comps))"
  "nested_inv (snd (composition_indices comps))"
  "nested_get (fst (composition_indices comps)) l r = dict_get (by_pair_index comps) (l, r)"
  "nested_get (snd (composition_indices comps)) r l = dict_get (by_pair_index comps) (l, r)"
proof -
  let ?d = "by_pair_index comps"
  let ?swap = "\<lambda>row :: (nat \<times> nat) \<times> nat list. (snd (fst row), fst (fst row))"
  have d: "distinct (map fst ?d)" by (simp add: by_pair_index_def group_by_distinct)
  have "map ?swap ?d = map prod.swap (map fst ?d)" by (simp add: prod.swap_def)
  then have swapped: "distinct (map ?swap ?d)"
    using d by (simp only: distinct_map [where f = prod.swap] inj_swap simp_thms)
  show "nested_inv (fst (composition_indices comps))"
    "nested_get (fst (composition_indices comps)) l r = dict_get ?d (l, r)"
    using nested_fold(1) [where kf = fst and vf = snd, OF d]
      nested_fold(2) [where kf = fst and vf = snd and a = l and b = r, OF d]
    by (simp_all add: composition_indices_def Let_def)
  have "map_of (map (\<lambda>x. (?swap x, snd x)) xs) (r, l) = dict_get xs (l, r)" for xs
    by (induction xs) auto
  then show "nested_inv (snd (composition_indices comps))"
    "nested_get (snd (composition_indices comps)) r l = dict_get ?d (l, r)"
    using nested_fold(1) [where kf = ?swap and vf = snd, OF swapped]
      nested_fold(2) [where kf = ?swap and vf = snd and a = r and b = l, OF swapped]
    by (simp_all add: composition_indices_def Let_def)
qed

lemma left_row:
  assumes "finite comps"
  shows "no_empty_rows (nested_row (fst (composition_indices comps)) l)"
    and "index_rel (nested_row (fst (composition_indices comps)) l) =
      {(r, res). PropertyComposition l r res \<in> comps}"
proof -
  let ?row = "nested_row (fst (composition_indices comps)) l"
  have mem: "(r, rs) \<in> set ?row \<longleftrightarrow> dict_get (by_pair_index comps) (l, r) = Some rs" for r rs
    using nested_row_mem(1) [OF composition_indices_get(1)] by (simp add: composition_indices_get)
  show "no_empty_rows ?row"
    unfolding no_empty_rows_def using nested_row_mem(2) [OF composition_indices_get(1)] mem by_pair_rel(1) [OF assms]
    by blast
  show "index_rel ?row = {(r, res). PropertyComposition l r res \<in> comps}"
    using by_pair_rel(2) [OF assms] by_pair_exists [OF assms] by (fastforce simp: index_rel_def mem)
qed

lemma right_row:
  assumes "finite comps"
  shows "no_empty_rows (nested_row (snd (composition_indices comps)) r)"
    and "index_rel (nested_row (snd (composition_indices comps)) r) =
      {(l, res). PropertyComposition l r res \<in> comps}"
proof -
  let ?row = "nested_row (snd (composition_indices comps)) r"
  have mem: "(l, rs) \<in> set ?row \<longleftrightarrow> dict_get (by_pair_index comps) (l, r) = Some rs" for l rs
    using nested_row_mem(1) [OF composition_indices_get(2)] by (simp add: composition_indices_get)
  show "no_empty_rows ?row"
    unfolding no_empty_rows_def using nested_row_mem(2) [OF composition_indices_get(2)] mem by_pair_rel(1) [OF assms]
    by blast
  show "index_rel ?row = {(l, res). PropertyComposition l r res \<in> comps}"
    using by_pair_rel(2) [OF assms] by_pair_exists [OF assms] by (fastforce simp: index_rel_def mem)
qed

section \<open>The interface\<close>

text \<open>
  \<open>under v q c\<close>: the named property \<open>q\<close> is a sub-property of the chain \<open>c\<close>.  \<open>composed v b l r res\<close>:
  a link over \<open>l\<close> into a link over the chain \<open>r\<close> makes one over the complex chain \<open>res\<close> (\<open>b\<close>: the
  redundant table).
\<close>

locale property_view =
  fixes usable :: "'v \<Rightarrow> bool"
    and has_chain :: "'v \<Rightarrow> nat \<Rightarrow> bool"
    and complex_chain :: "'v \<Rightarrow> nat \<Rightarrow> bool"
    and has_property :: "'v \<Rightarrow> nat \<Rightarrow> bool"
    and under :: "'v \<Rightarrow> nat \<Rightarrow> nat \<Rightarrow> bool"
    and ranged :: "'v \<Rightarrow> nat \<Rightarrow> nat \<Rightarrow> bool"
    and composed :: "'v \<Rightarrow> bool \<Rightarrow> nat \<Rightarrow> nat \<Rightarrow> nat \<Rightarrow> bool"
    and singleton_of :: "'v \<Rightarrow> nat \<Rightarrow> nat result"
    and subs_of :: "'v \<Rightarrow> nat \<Rightarrow> nat list result"
    and ranges_of :: "'v \<Rightarrow> nat \<Rightarrow> nat list result"
    and by_right :: "'v \<Rightarrow> bool \<Rightarrow> nat \<Rightarrow> (nat, nat list) dict result"
    and by_left :: "'v \<Rightarrow> bool \<Rightarrow> nat \<Rightarrow> (nat, nat list) dict result"
  assumes singleton_law: "usable v \<Longrightarrow> has_property v p \<Longrightarrow>
      \<exists>c. singleton_of v p = Inr c \<and> has_chain v c \<and> under v p c"
    and subs_law: "usable v \<Longrightarrow> has_chain v c \<Longrightarrow> yields (subs_of v c) {q. under v q c}"
    and under_law: "usable v \<Longrightarrow> under v q c \<Longrightarrow> has_property v q \<and> has_chain v c"
    and under_trans_law: "usable v \<Longrightarrow> under v q c \<Longrightarrow> singleton_of v p = Inr c \<Longrightarrow> under v p d \<Longrightarrow> under v q d"
    and ranges_law: "usable v \<Longrightarrow> has_property v p \<Longrightarrow> yields (ranges_of v p) {e. ranged v p e}"
    and ranged_law: "usable v \<Longrightarrow> ranged v p e \<Longrightarrow> has_property v q \<Longrightarrow> singleton_of v p = Inr c \<Longrightarrow>
      under v q c \<Longrightarrow> ranged v q e"
    and by_right_law: "usable v \<Longrightarrow> has_property v l \<Longrightarrow> \<exists>d. by_right v b l = Inr d \<and> no_empty_rows d \<and>
      index_rel d = {(r, res). composed v b l r res}"
    and by_left_law: "usable v \<Longrightarrow> has_chain v r \<Longrightarrow> \<exists>d. by_left v b r = Inr d \<and> no_empty_rows d \<and>
      index_rel d = {(l, res). composed v b l r res}"
    and composed_law: "usable v \<Longrightarrow> composed v b l r res \<Longrightarrow>
      has_property v l \<and> has_chain v r \<and> has_chain v res \<and> complex_chain v res"
    and composed_once: "usable v \<Longrightarrow> \<not> (composed v True l r res \<and> composed v False l r res)"
begin

text \<open>The compatibility test of the propagation rules, \<open>q in sub_properties(singleton_chain(p))\<close>.\<close>

lemma compatible_test:
  assumes "usable v" and "has_property v p"
  obtains c qs where "singleton_of v p = Inr c" and "subs_of v c = Inr qs" and "set qs = {q. under v q c}"
    and "p \<in> set qs"
proof -
  from singleton_law [OF assms] obtain c where c: "singleton_of v p = Inr c" "has_chain v c" "under v p c" by blast
  from subs_law [OF assms(1) c(2)] obtain qs where "subs_of v c = Inr qs" "set qs = {q. under v q c}"
    by (auto simp: yields_def)
  with c show ?thesis by (intro that [of c qs]) auto
qed

text \<open>The two directions of a composition index agree.\<close>

lemma left_right_agree:
  assumes "usable v" and "has_property v l" and "has_chain v r"
    and "by_right v b l = Inr d" and "by_left v b r = Inr d'"
  shows "(r, res) \<in> index_rel d \<longleftrightarrow> (l, res) \<in> index_rel d'"
  using by_right_law [OF assms(1,2), of b] by_left_law [OF assms(1,3), of b] assms(4,5) by auto

text \<open>Whether an index row is empty (a falsy dictionary) says whether anything composes on the right.\<close>

lemma left_row_truth:
  assumes "usable v" and "has_chain v r"
  obtains d where "by_left v b r = Inr d" and "d = [] \<longleftrightarrow> (\<forall>l res. \<not> composed v b l r res)"
    and "index_rel d = {(l, res). composed v b l r res}"
proof -
  from by_left_law [OF assms, of b] obtain d where "by_left v b r = Inr d" "no_empty_rows d"
    "index_rel d = {(l, res). composed v b l r res}" by blast
  then show ?thesis using no_empty_rows_Nil [of d] by (intro that [of d]) auto
qed

end

section \<open>The queries keep the contract\<close>

definition named_property :: "property_saturation \<Rightarrow> nat \<Rightarrow> bool" where
  "named_property ps p \<longleftrightarrow> dict_get (singleton_chains ps) p \<noteq> None"

definition chain_in_table :: "property_saturation \<Rightarrow> nat \<Rightarrow> bool" where
  "chain_in_table ps c \<longleftrightarrow> c < length (chain_records ps)"

definition is_complex :: "property_saturation \<Rightarrow> nat \<Rightarrow> bool" where
  "is_complex ps c \<longleftrightarrow> \<not> is_singleton (chain_records ps ! c)"

definition property_under :: "property_saturation \<Rightarrow> nat \<Rightarrow> nat \<Rightarrow> bool" where
  "property_under ps q c \<longleftrightarrow>
     (\<exists>a. dict_get (singleton_chains ps) q = Some a \<and> SubPropertyChain a c \<in> set (subproperty_chains ps))"

definition has_range :: "property_saturation \<Rightarrow> nat \<Rightarrow> nat \<Rightarrow> bool" where
  "has_range ps p e \<longleftrightarrow> PropertyRange p e \<in> set (inherited_ranges ps)"

definition has_composition :: "property_saturation \<Rightarrow> bool \<Rightarrow> nat \<Rightarrow> nat \<Rightarrow> nat \<Rightarrow> bool" where
  "has_composition ps redundant l r res \<longleftrightarrow> PropertyComposition l r res \<in>
     set (if redundant then redundant_compositions ps else non_redundant_compositions ps)"

definition view_of :: "compiled_ontology \<Rightarrow> chain_universe \<Rightarrow> property_saturation \<Rightarrow> bool" where
  "view_of co u ps \<longleftrightarrow> valid_ontology co \<and> property_limits co \<and>
     (\<exists>s nr rd reflx. stage_result co u s nr rd reflx \<and>
        ps = assemble co u s (inherited_range_set co u) nr rd reflx)"

text \<open>\<open>saturated_view co ps\<close>: \<open>ps\<close> is what the property stage returns for \<open>co\<close>.\<close>

definition saturated_view :: "compiled_ontology \<Rightarrow> property_saturation \<Rightarrow> bool" where
  "saturated_view co ps \<longleftrightarrow> valid_ontology co \<and> property_limits co \<and> saturate_properties co = Some (Inr ps)"

lemma saturated_view_of:
  assumes "saturated_view co ps"
  obtains u where "build_chain_universe co = Inr u" and "view_of co u ps"
proof -
  have v: "valid_ontology co" "property_limits co" "saturate_properties co = Some (Inr ps)"
    using assms by (simp_all add: saturated_view_def)
  obtain u s nr rd reflx where "build_chain_universe co = Inr u" "stage_result co u s nr rd reflx"
    "saturate_properties co = Some (Inr (assemble co u s (inherited_range_set co u) nr rd reflx))"
    by (rule saturate_properties_ok [OF v(1,2)])
  with v show ?thesis by (intro that) (auto simp: view_of_def)
qed

lemma view_ofE:
  assumes "view_of co u ps"
  obtains s nr rd reflx where "stage_result co u s nr rd reflx"
    and "ps = assemble co u s (inherited_range_set co u) nr rd reflx"
    and "finite (inherited_range_set co u)"
proof -
  from assms obtain s nr rd reflx where v: "valid_ontology co" and st: "stage_result co u s nr rd reflx"
    and ps: "ps = assemble co u s (inherited_range_set co u) nr rd reflx"
    unfolding view_of_def by blast
  have "finite (inherited_range_set co u)"
    using inherit_ranges_yields [OF v stage_resultD(1,2) [OF st]] by (metis List.finite_set yields_def)
  with st ps show ?thesis by (rule that)
qed

text \<open>What the queries are about, in terms of the ontology and its chain table.\<close>

lemma view_facts:
  assumes "view_of co u ps"
  shows "universe_inv co u" and "valid_ontology co"
    and "named_property ps p \<longleftrightarrow> is_object_property co p"
    and "chain_in_table ps c \<longleftrightarrow> c < length (records u)"
    and "chain_records ps = records u"
    and "singleton_chains ps = singleton_ids u"
    and "compiled_chain_ids ps = compiled_ids u"
    and "property_under ps q c \<longleftrightarrow> named_below co u q c"
    and "has_range ps p e \<longleftrightarrow> PropertyRange p e \<in> inherited_range_set co u"
    and "has_composition ps True l r res \<or> has_composition ps False l r res \<longleftrightarrow>
      composes co u (PropertyComposition l r res)"
    and "\<not> (has_composition ps True l r res \<and> has_composition ps False l r res)"
proof -
  obtain s nr rd reflx where st: "stage_result co u s nr rd reflx"
    and ps: "ps = assemble co u s (inherited_range_set co u) nr rd reflx"
    and fin: "finite (inherited_range_set co u)"
    by (rule view_ofE [OF assms])
  note d = stage_resultD [OF st]
  show "universe_inv co u" by (rule d(1))
  show "valid_ontology co" using assms by (simp add: view_of_def)
  show "named_property ps p \<longleftrightarrow> is_object_property co p"
    using d(1) unfolding universe_inv_def named_property_def ps assembled_fields by blast
  show "chain_in_table ps c \<longleftrightarrow> c < length (records u)" "chain_records ps = records u"
    "singleton_chains ps = singleton_ids u" "compiled_chain_ids ps = compiled_ids u"
    by (simp_all add: ps chain_in_table_def)
  have "SubPropertyChain a c \<in> subproperty_conclusions s \<longleftrightarrow> chain_below co u a c" for a
    using d(2) unfolding closure_of_def by blast
  then show "property_under ps q c \<longleftrightarrow> named_below co u q c"
    using finite_closure [OF d(2)] by (simp add: ps property_under_def named_below_def)
  show "has_range ps p e \<longleftrightarrow> PropertyRange p e \<in> inherited_range_set co u"
    using fin by (simp add: ps has_range_def)
  have rows: "has_composition ps True l r res \<longleftrightarrow> PropertyComposition l r res \<in> rd"
    "has_composition ps False l r res \<longleftrightarrow> PropertyComposition l r res \<in> nr"
    using d(5,6) by (simp_all add: ps has_composition_def)
  have "PropertyComposition l r res \<in> nr \<union> rd \<longleftrightarrow> composes co u (PropertyComposition l r res)"
    using d(3) by simp
  then show "has_composition ps True l r res \<or> has_composition ps False l r res \<longleftrightarrow>
      composes co u (PropertyComposition l r res)" by (auto simp: rows)
  show "\<not> (has_composition ps True l r res \<and> has_composition ps False l r res)"
    using d(4) by (auto simp: rows)
qed

lemma singleton_chain_view:
  assumes "view_of co u ps" and "is_object_property co p"
  obtains c where "singleton_chain ps p = Inr c" and "dict_get (singleton_ids u) p = Some c"
    and "c < length (records u)" and "records u ! c = PropertyChainRecord p None"
proof -
  note f = view_facts [OF assms(1)]
  obtain c where "dict_get (singleton_ids u) p = Some c" "c < length (records u)"
    "records u ! c = PropertyChainRecord p None" "singleton_id u p = Inr c"
    by (rule singleton_exists [OF f(1) assms(2)])
  moreover have "p < U32_RESERVED" by (rule is_object_property_u32 [OF f(2) assms(2)])
  ultimately show ?thesis by (intro that) (simp_all add: singleton_chain_def f(6))
qed

lemma singleton_chain_unique:
  assumes "view_of co u ps" and "singleton_chain ps p = Inr c"
  shows "dict_get (singleton_ids u) p = Some c" and "c < length (records u)" and "is_object_property co p"
proof -
  note f = view_facts [OF assms(1)]
  show d: "dict_get (singleton_ids u) p = Some c"
    using assms(2) by (auto simp: singleton_chain_def f(6) split: option.splits)
  show "c < length (records u)" by (rule singleton_record(1) [OF f(1) d])
  show "is_object_property co p" using f(1) d unfolding universe_inv_def by blast
qed

text \<open>The interpretation is fixed to one view, so its laws hold for what the stage returned.\<close>

definition usable_view :: "property_saturation \<Rightarrow> bool" where
  "usable_view ps \<longleftrightarrow> (\<exists>co u. view_of co u ps)"

lemma chain_index_in_table:
  assumes "view_of co u ps" and "chain_in_table ps c"
  shows "chain_index ps c = Inr c"
proof -
  note f = view_facts [OF assms(1)]
  have "length (records u) < U32_RESERVED" using f(1) unfolding universe_inv_def by blast
  with assms(2) show ?thesis by (simp add: chain_index_def f(4,5))
qed

lemma sub_chains_view:
  assumes "view_of co u ps" and "chain_in_table ps c"
  shows "sub_chains ps c = Inr (sorted_list_of_set {a. chain_below co u a c})"
    and "super_chains ps c = Inr (sorted_list_of_set {b. chain_below co u c b})"
proof -
  obtain s nr rd reflx where st: "stage_result co u s nr rd reflx"
    and ps: "ps = assemble co u s (inherited_range_set co u) nr rd reflx"
    and fin: "finite (inherited_range_set co u)"
    by (rule view_ofE [OF assms(1)])
  note d = stage_resultD [OF st]
  have c: "c < length (records u)" using assms(2) view_facts(4) [OF assms(1)] by simp
  moreover have "length (subchains_by_super s) = length (records u)" "length (superchains_by_sub s) = length (records u)"
    using d(2) unfolding closure_of_def closure_views_def by blast+
  ultimately have "sub_by_super ps ! c = sorted_list_of_set {a. chain_below co u a c}"
    "super_by_sub ps ! c = sorted_list_of_set {b. chain_below co u c b}"
    using closure_rows [OF d(2) c] by (simp_all add: ps)
  then show "sub_chains ps c = Inr (sorted_list_of_set {a. chain_below co u a c})"
    "super_chains ps c = Inr (sorted_list_of_set {b. chain_below co u c b})"
    using chain_index_in_table [OF assms] by (simp_all add: sub_chains_def super_chains_def)
qed

lemma sub_properties_view:
  assumes "view_of co u ps" and "chain_in_table ps c"
  shows "yields (sub_properties ps c) {q. property_under ps q c}"
proof -
  note f = view_facts [OF assms(1)]
  let ?row = "filter (\<lambda>i. is_singleton (chain_records ps ! i)) (sorted_list_of_set {a. chain_below co u a c})"
  have "sub_properties ps c = Inr (map (\<lambda>i. first_property (chain_records ps ! i)) ?row)"
    by (simp add: sub_properties_def sub_chains_view [OF assms])
  moreover have "q \<in> (\<lambda>i. first_property (chain_records ps ! i)) ` set ?row \<longleftrightarrow> named_below co u q c" for q
  proof -
    have "q \<in> (\<lambda>i. first_property (chain_records ps ! i)) ` set ?row \<longleftrightarrow>
        (\<exists>a. chain_below co u a c \<and> is_singleton (records u ! a) \<and> first_property (records u ! a) = q)"
      by (auto simp: f(5))
    then show ?thesis
      unfolding named_below_def using singleton_id_iff [OF f(1)] chain_below_bounds by blast
  qed
  ultimately show ?thesis by (auto simp: f(8))
qed

lemma range_index_get:
  assumes "finite R"
  shows "set (case dict_get (range_index R) p of None \<Rightarrow> [] | Some es \<Rightarrow> es) = {e. PropertyRange p e \<in> R}"
proof -
  have "set (group_get (range_index R) p) = {e. PropertyRange p e \<in> R}"
  proof (intro equalityI subsetI)
    fix e assume "e \<in> set (group_get (range_index R) p)"
    then obtain r where "r \<in> R" "range_property r = p" "e = range_expression r"
      using assms by (auto simp: range_index_def set_group_by)
    then show "e \<in> {e. PropertyRange p e \<in> R}" by (cases r) auto
  next
    fix e assume "e \<in> {e. PropertyRange p e \<in> R}"
    with assms show "e \<in> set (group_get (range_index R) p)"
      by (force simp: range_index_def set_group_by)
  qed
  then show ?thesis by (simp add: group_get_def)
qed

lemma ranges_view:
  assumes "view_of co u ps" and "is_object_property co p"
  shows "yields (ranges ps p) {e. has_range ps p e}"
proof -
  note f = view_facts [OF assms(1)]
  obtain s nr rd reflx where ps: "ps = assemble co u s (inherited_range_set co u) nr rd reflx"
    and fin: "finite (inherited_range_set co u)"
    by (rule view_ofE [OF assms(1)])
  have "ranges_by_property ps = range_index (inherited_range_set co u)" by (simp add: ps)
  moreover have "p < U32_RESERVED" by (rule is_object_property_u32 [OF f(2) assms(2)])
  ultimately show ?thesis using range_index_get [OF fin, of p] by (simp add: ranges_def f(9))
qed

lemma compositions_view:
  assumes "view_of co u ps"
  shows "is_object_property co l \<Longrightarrow> \<exists>d. compositions_by_right ps b l = Inr d \<and> no_empty_rows d \<and>
      index_rel d = {(r, res). has_composition ps b l r res}"
    and "chain_in_table ps r \<Longrightarrow> \<exists>d. compositions_by_left ps b r = Inr d \<and> no_empty_rows d \<and>
      index_rel d = {(l, res). has_composition ps b l r res}"
proof -
  note f = view_facts [OF assms]
  obtain s nr rd reflx where st: "stage_result co u s nr rd reflx"
    and ps: "ps = assemble co u s (inherited_range_set co u) nr rd reflx"
    by (rule view_ofE [OF assms])
  note d = stage_resultD [OF st]
  let ?comps = "if b then rd else nr"
  have fin: "finite ?comps" using d(5,6) by simp
  have comp: "has_composition ps b l r res \<longleftrightarrow> PropertyComposition l r res \<in> ?comps" for l r res
    using d(5,6) by (simp add: has_composition_def ps)
  { assume "is_object_property co l"
    then have "l < U32_RESERVED" by (rule is_object_property_u32 [OF f(2)])
    then have "compositions_by_right ps b l = Inr (nested_row (fst (composition_indices ?comps)) l)"
      by (simp add: compositions_by_right_def nested_row_def ps)
    with left_row [OF fin] show "\<exists>d. compositions_by_right ps b l = Inr d \<and> no_empty_rows d \<and>
        index_rel d = {(r, res). has_composition ps b l r res}" by (simp add: comp) }
  { assume "chain_in_table ps r"
    from chain_index_in_table [OF assms this]
    have "compositions_by_left ps b r = Inr (nested_row (snd (composition_indices ?comps)) r)"
      by (simp add: compositions_by_left_def nested_row_def ps)
    with right_row [OF fin] show "\<exists>d. compositions_by_left ps b r = Inr d \<and> no_empty_rows d \<and>
        index_rel d = {(l, res). has_composition ps b l r res}" by (simp add: comp) }
qed

lemma named_below_trans:
  assumes "named_below co u q c" and "dict_get (singleton_ids u) p = Some c" and "named_below co u p d"
  shows "named_below co u q d"
  using assms chain_below_trans unfolding named_below_def by fastforce

interpretation pv: property_view usable_view chain_in_table is_complex named_property property_under has_range
  has_composition singleton_chain sub_properties ranges compositions_by_right compositions_by_left
proof
  fix v
  assume "usable_view v"
  then obtain co u where view: "view_of co u v" by (auto simp: usable_view_def)
  note f = view_facts [OF view]
  show "\<exists>c. singleton_chain v p = Inr c \<and> chain_in_table v c \<and> property_under v p c" if "named_property v p" for p
  proof -
    have "is_object_property co p" using that by (simp add: f(3))
    then obtain c where "singleton_chain v p = Inr c" "dict_get (singleton_ids u) p = Some c"
      "c < length (records u)" "records u ! c = PropertyChainRecord p None"
      by (rule singleton_chain_view [OF view])
    moreover from this have "named_below co u p c" by (auto simp: named_below_def chain_below_refl)
    ultimately show ?thesis by (simp add: f(4,8))
  qed
  show "yields (sub_properties v c) {q. property_under v q c}" if "chain_in_table v c" for c
    by (rule sub_properties_view [OF view that])
  show "named_property v q \<and> chain_in_table v c" if "property_under v q c" for q c
    using that named_below_property [OF f(1)] chain_below_bounds
    unfolding f(3,4,8) named_below_def by blast
  show "property_under v q d"
    if "property_under v q c" "singleton_chain v p = Inr c" "property_under v p d" for q c p d
    using that named_below_trans singleton_chain_unique(1) [OF view that(2)] unfolding f(8) by blast
  show "yields (ranges v p) {e. has_range v p e}" if "named_property v p" for p
    using ranges_view [OF view] that by (simp add: f(3))
  show "has_range v q e"
    if "has_range v p e" "named_property v q" "singleton_chain v p = Inr c" "property_under v q c" for p q e c
  proof -
    have c: "dict_get (singleton_ids u) p = Some c" by (rule singleton_chain_unique(1) [OF view that(3)])
    from that(1) obtain p0 b where "(p0, e) \<in> set (property_ranges co)" "dict_get (singleton_ids u) p0 = Some b"
      "named_below co u p b" unfolding f(9) inherited_range_set_def by blast
    moreover from this have "named_below co u q b"
      using named_below_trans [OF _ c] that(4) by (simp add: f(8))
    ultimately show ?thesis unfolding f(9) inherited_range_set_def by blast
  qed
  show "\<exists>d. compositions_by_right v b l = Inr d \<and> no_empty_rows d \<and>
      index_rel d = {(r, res). has_composition v b l r res}" if "named_property v l" for b l
    using compositions_view(1) [OF view] that by (simp add: f(3))
  show "\<exists>d. compositions_by_left v b r = Inr d \<and> no_empty_rows d \<and>
      index_rel d = {(l, res). has_composition v b l r res}" if "chain_in_table v r" for b r
    by (rule compositions_view(2) [OF view that])
  show "named_property v l \<and> chain_in_table v r \<and> chain_in_table v res \<and> is_complex v res"
    if "has_composition v b l r res" for b l r res
  proof -
    have "composes co u (PropertyComposition l r res)" using that f(10) by (cases b) auto
    from composes_bounds [OF f(1) this] show ?thesis by (simp add: f(3,4,5) is_complex_def)
  qed
  show "\<not> (has_composition v True l r res \<and> has_composition v False l r res)" for l r res
    by (rule f(11))
qed

end
