(* ===== verification/Sample.thy ===== *)
theory Sample
  imports Properties "HOL-Library.Code_Target_Nat"
begin

text \<open>
  A concrete ontology, \<open>A\<close> below \<open>some r B\<close>, \<open>B\<close> below \<open>some r C\<close>, \<open>some s C\<close> below \<open>C\<close>, with
  \<open>r\<close> transitive and below \<open>s\<close>, and its property view, evaluated by the simplifier.
\<close>

declare closure_loop.simps [code]

definition class_row :: "nat \<Rightarrow> expression_record" where
  "class_row e = \<lparr>tag = TAG_CLASS, arguments = [e], payload = []\<rparr>"

definition some_row :: "nat \<Rightarrow> nat \<Rightarrow> expression_record" where
  "some_row p f = \<lparr>tag = OBJECT_SOME_VALUES_FROM, arguments = [p, f], payload = []\<rparr>"

definition sample_entities :: "entity_record list" where
  "sample_entities =
     [\<lparr>kind = CLASS, iri = OWL_NOTHING_IRI\<rparr>, \<lparr>kind = CLASS, iri = OWL_THING_IRI\<rparr>,
      \<lparr>kind = CLASS, iri = py_literal ''urn:A''\<rparr>, \<lparr>kind = CLASS, iri = py_literal ''urn:B''\<rparr>,
      \<lparr>kind = CLASS, iri = py_literal ''urn:C''\<rparr>,
      \<lparr>kind = OBJECT_PROPERTY, iri = OWL_BOTTOM_OBJECT_PROPERTY_IRI\<rparr>,
      \<lparr>kind = OBJECT_PROPERTY, iri = OWL_TOP_OBJECT_PROPERTY_IRI\<rparr>,
      \<lparr>kind = OBJECT_PROPERTY, iri = py_literal ''urn:r''\<rparr>,
      \<lparr>kind = OBJECT_PROPERTY, iri = py_literal ''urn:s''\<rparr>]"

definition sample_expressions :: "expression_record list" where
  "sample_expressions = map class_row [0, 1, 2, 3, 4] @ [some_row 7 3, some_row 7 4, some_row 8 4]"

definition sample_ontology :: compiled_ontology where
  "sample_ontology = \<lparr>entities = sample_entities, expressions = sample_expressions,
     expression_occurrences = replicate 8 \<lparr>negative = 1, positive = 1\<rparr>,
     property_occurrences = replicate 4 \<lparr>negative = 1, positive = 1\<rparr>,
     property_chains = [[7], [7, 7]], subclass_axioms = [(2, 5), (3, 6), (7, 4)],
     equivalent_class_axioms = [], disjoint_groups = [], subproperty_axioms = [(0, 8), (1, 7)],
     property_ranges = [], feature_counts = replicate 79 0, source_fingerprint = replicate 32 0\<rparr>"

definition sample_view :: property_saturation where
  "sample_view = \<lparr>chain_records =
          [PropertyChainRecord 5 None, PropertyChainRecord 6 None, PropertyChainRecord 7 None,
           PropertyChainRecord 8 None, PropertyChainRecord 7 (Some 2)],
     compiled_chain_ids = [2, 4],
     subproperty_chains =
       [SubPropertyChain 0 0, SubPropertyChain 1 1, SubPropertyChain 2 2, SubPropertyChain 2 3,
        SubPropertyChain 3 3, SubPropertyChain 4 2, SubPropertyChain 4 3, SubPropertyChain 4 4],
     inherited_ranges = [], non_redundant_compositions = [PropertyComposition 7 2 4],
     redundant_compositions = [], reflexive_properties = [], entity_count = 9, expression_count = 8,
     sub_by_super = [[0], [1], [2, 4], [2, 3, 4], [4]],
     super_by_sub = [[0], [1], [2, 3], [3], [2, 3, 4]],
     ranges_by_property = [],
     non_redundant_by_left = [(7, [(2, [4])])], redundant_by_left = [],
     non_redundant_by_right = [(2, [(7, [4])])], redundant_by_right = [],
     singleton_chains = [(5, 0), (6, 1), (7, 2), (8, 3)],
     chain_ids_by_key = [((5, - 1), 0), ((6, - 1), 1), ((7, - 1), 2), ((8, - 1), 3), ((7, 2), 4)]\<rparr>"

lemma sample_valid: "valid_ontology sample_ontology"
  unfolding valid_ontology_def by code_simp

lemma sample_saturated: "saturate_properties sample_ontology = Some (Inr sample_view)"
  by code_simp

end
