(* ===== verification/Property_Results.thy ===== *)
theory Property_Results
  imports Property_View Sample
begin

text \<open>
  The property stage in the vocabulary of the ontology: chains are read as property lists, and the
  hierarchy is the reflexive-transitive closure of the told axioms between such lists.
\<close>

section \<open>Reading and finding chains\<close>

lemma members_spell:
  assumes "universe_inv co u" and "c < length (records u)"
  shows "spells (chain_table (records u)) (Some c) (chain_members (records u) c)"
  using assms(2)
proof (induction c rule: less_induct)
  case (less c)
  show ?case
  proof (cases "suffix_chain (records u ! c)")
    case None
    with less.prems show ?thesis by (simp add: chain_members.simps [of _ c] chain_table_def)
  next
    case (Some s)
    with record_property(2) [OF assms(1) less.prems] have "s < c" by blast
    with less Some show ?thesis by (simp add: chain_members.simps [of _ c] chain_table_def)
  qed
qed

lemma chain_table_distinct: "universe_inv co u \<Longrightarrow> distinct (chain_table (records u))"
  using records_distinct [of co u] by (auto simp: chain_table_def distinct_map inj_on_def intro: property_chain_record.expand)

lemma members_inject:
  assumes "universe_inv co u" and "a < length (records u)" and "b < length (records u)"
    and "chain_members (records u) a = chain_members (records u) b"
  shows "a = b"
proof -
  have "Some a = Some b"
    by (rule spells_injective [OF chain_table_distinct [OF assms(1)] members_spell [OF assms(1,2)]])
      (unfold assms(4), rule members_spell [OF assms(1,3)])
  then show ?thesis by simp
qed

lemma spelled_members:
  assumes "universe_inv co u" and "spells (chain_table (records u)) (Some c) ps"
  shows "c < length (records u)" and "chain_members (records u) c = ps"
proof -
  from spells_bound [OF assms(2)] show c: "c < length (records u)" by (simp add: chain_table_def)
  show "chain_members (records u) c = ps"
    by (rule spells_functional [OF members_spell [OF assms(1) c] assms(2)])
qed

lemma spells_rest: "spells rs s (xs @ ys) \<Longrightarrow> \<exists>s'. spells rs s' ys"
proof (induction xs arbitrary: s)
  case (Cons x xs)
  then show ?case by (cases s) auto
qed auto

lemma spelled_step:
  assumes "keys_table (records u) (ids_by_key u)" and "spells (chain_table (records u)) cur acc"
    and "distinct (chain_table (records u))"
  shows "dict_get (ids_by_key u) (p, suffix_key cur) = Some i \<longleftrightarrow>
    spells (chain_table (records u)) (Some i) (p # acc)"
proof -
  have "cur = suffix_chain (records u ! i) \<longleftrightarrow> spells (chain_table (records u)) (suffix_chain (records u ! i)) acc"
    using assms(2) spells_injective [OF assms(3,2)] by blast
  then show ?thesis
    unfolding keys_table_iff [OF assms(1)] final_key_def by (auto simp: chain_table_def)
qed

lemma lookup_reversed_sound:
  assumes view: "view_of co u ps" and "spells (chain_table (records u)) cur acc"
    and "lookup_reversed ps rqs cur = Inr (Some c)"
  shows "spells (chain_table (records u)) (Some c) (rev rqs @ acc)"
  using assms(2,3)
proof (induction rqs arbitrary: cur acc)
  case (Cons p rqs)
  note f = view_facts [OF view]
  have keys: "keys_table (records u) (ids_by_key u)" using f(1) unfolding universe_inv_def by blast
  have "chain_ids_by_key ps = ids_by_key u" by (rule view_ofE [OF view]) simp
  with Cons.prems(2) obtain i where i: "dict_get (ids_by_key u) (p, suffix_key cur) = Some i"
    "lookup_reversed ps rqs (Some i) = Inr (Some c)"
    by (auto simp: rassert_def split: if_splits option.splits)
  have "spells (chain_table (records u)) (Some i) (p # acc)"
    using i(1) spelled_step [OF keys Cons.prems(1) chain_table_distinct [OF f(1)]] by blast
  from Cons.IH [OF this i(2)] show ?case by simp
qed simp

lemma lookup_reversed_complete:
  assumes view: "view_of co u ps" and "spells (chain_table (records u)) cur acc"
    and "\<forall>p \<in> set rqs. p < U32_RESERVED" and "spells (chain_table (records u)) (Some c) (rev rqs @ acc)"
  shows "lookup_reversed ps rqs cur = Inr (Some c)"
  using assms(2-4)
proof (induction rqs arbitrary: cur acc)
  case Nil
  then show ?case using spells_injective [OF chain_table_distinct [OF view_facts(1) [OF view]]] by simp
next
  case (Cons p rqs)
  note f = view_facts [OF view]
  have keys: "keys_table (records u) (ids_by_key u)" using f(1) unfolding universe_inv_def by blast
  have ids: "chain_ids_by_key ps = ids_by_key u" by (rule view_ofE [OF view]) simp
  obtain s where s: "spells (chain_table (records u)) s (p # acc)"
    using spells_rest [of _ "Some c" "rev rqs" "p # acc"] Cons.prems(3) by auto
  then obtain i where i: "s = Some i" by (cases s) auto
  with s have "dict_get (ids_by_key u) (p, suffix_key cur) = Some i"
    using spelled_step [OF keys Cons.prems(1) chain_table_distinct [OF f(1)]] by blast
  moreover have "spells (chain_table (records u)) (Some i) (p # acc)" using s unfolding i .
  then have "lookup_reversed ps rqs (Some i) = Inr (Some c)"
    by (rule Cons.IH) (use Cons.prems in simp_all)
  ultimately show ?case using Cons.prems(2) ids by simp
qed

section \<open>The told hierarchy between property lists\<close>

definition told_chains :: "compiled_ontology \<Rightarrow> (nat list \<times> nat list) set" where
  "told_chains co = {(property_chains co ! c, [p]) |c p. (c, p) \<in> set (subproperty_axioms co)}"

lemma told_pair_members:
  assumes "valid_ontology co" and "universe_inv co u" and "x \<in> set (subproperty_axioms co)"
  shows "chain_members (records u) (fst (told_pair u x)) = property_chains co ! fst x"
    and "chain_members (records u) (snd (told_pair u x)) = [snd x]"
    and "fst (told_pair u x) < length (records u)" and "snd (told_pair u x) < length (records u)"
proof -
  note ids = subproperty_axiom_ids [OF assms(1)]
  obtain c p where x: "x = (c, p)" by (cases x)
  have c: "c < length (property_chains co)" and p: "is_object_property co p"
    using ids assms(3) x by auto
  from spelled_members [OF assms(2) compiled_id_bound(3) [OF assms(2) c]]
  show "chain_members (records u) (fst (told_pair u x)) = property_chains co ! fst x"
    "fst (told_pair u x) < length (records u)" by (simp_all add: told_pair_def x)
  obtain b where "dict_get (singleton_ids u) p = Some b" "b < length (records u)"
    "records u ! b = PropertyChainRecord p None" "singleton_id u p = Inr b"
    by (rule singleton_exists [OF assms(2) p])
  then show "chain_members (records u) (snd (told_pair u x)) = [snd x]"
    "snd (told_pair u x) < length (records u)"
    by (simp_all add: told_pair_def x chain_members.simps [of _ b])
qed

lemma chain_below_told:
  assumes valid: "valid_ontology co" and inv: "universe_inv co u"
    and a: "a < length (records u)" and b: "b < length (records u)"
  shows "chain_below co u a b \<longleftrightarrow>
    (chain_members (records u) a, chain_members (records u) b) \<in> (told_chains co)\<^sup>*"
proof
  let ?m = "chain_members (records u)"
  assume "chain_below co u a b"
  then have "(a, b) \<in> (told_relation co u)\<^sup>*" by (simp add: chain_below_def)
  then show "(?m a, ?m b) \<in> (told_chains co)\<^sup>*"
  proof induction
    case (step y z)
    then obtain x where x: "x \<in> set (subproperty_axioms co)" "y = fst (told_pair u x)" "z = snd (told_pair u x)"
      unfolding told_relation_def by (metis image_iff prod.collapse fst_conv snd_conv)
    then have "(?m y, ?m z) \<in> told_chains co"
      unfolding told_chains_def x(2,3) told_pair_members [OF valid inv x(1)] by force
    with step.IH show ?case by (rule rtrancl_into_rtrancl)
  qed simp
next
  let ?m = "chain_members (records u)"
  assume "(?m a, ?m b) \<in> (told_chains co)\<^sup>*"
  moreover have "\<exists>z. z < length (records u) \<and> ?m z = w \<and> (a, z) \<in> (told_relation co u)\<^sup>*"
    if "(?m a, w) \<in> (told_chains co)\<^sup>*" for w
    using that
  proof induction
    case base
    with a show ?case by auto
  next
    case (step v w)
    then obtain y where y: "y < length (records u)" "?m y = v" "(a, y) \<in> (told_relation co u)\<^sup>*" by blast
    from step.hyps(2) obtain x where x: "x \<in> set (subproperty_axioms co)" "v = property_chains co ! fst x" "w = [snd x]"
      by (auto simp: told_chains_def)
    note m = told_pair_members [OF valid inv x(1)]
    have "y = fst (told_pair u x)" by (rule members_inject [OF inv y(1) m(3)]) (simp add: y(2) x(2) m(1))
    with x(1) have "(y, snd (told_pair u x)) \<in> told_relation co u"
      unfolding told_relation_def by (metis imageI prod.collapse)
    with y(3) m(2,4) x(3) show ?case by (intro exI [of _ "snd (told_pair u x)"]) auto
  qed
  ultimately obtain z where z: "z < length (records u)" "?m z = ?m b" "(a, z) \<in> (told_relation co u)\<^sup>*" by blast
  from members_inject [OF inv z(1) b z(2)] z(3) a b show "chain_below co u a b" by (simp add: chain_below_def)
qed

section \<open>What the view answers\<close>

lemma view_members:
  assumes "view_of co u ps" and "c < length (chain_records ps)"
  shows "chain_properties ps c = Inr (chain_members (records u) c)"
    and "c < length (records u)"
  using chain_index_in_table [OF assms(1), of c] assms(2) view_facts(5) [OF assms(1)]
  by (simp_all add: chain_properties_def chain_in_table_def)

lemma sample_limits: "property_limits sample_ontology"
  unfolding property_limits_def by code_simp

lemma sample_view_saturated: "saturated_view sample_ontology sample_view"
  by (simp add: saturated_view_def sample_valid sample_limits sample_saturated)

lemma composes_told:
  assumes view: "view_of co u ps"
    and l: "is_object_property co l" and r: "r < length (chain_records ps)" and c: "res < length (chain_records ps)"
    and res: "chain_properties ps res = Inr (f # gs)" and qs: "chain_properties ps r = Inr qs"
  shows "composes co u (PropertyComposition l r res) \<longleftrightarrow>
    gs \<noteq> [] \<and> ([l], [f]) \<in> (told_chains co)\<^sup>* \<and> (qs, gs) \<in> (told_chains co)\<^sup>* \<and> \<not> ([f] = gs \<and> r = res)"
proof -
  note v = view_facts [OF view]
  note valid = v(2) and inv = v(1)
  let ?m = "chain_members (records u)"
  have mr: "?m r = qs" "r < length (records u)" and mc: "?m res = f # gs" "res < length (records u)"
    using view_members [OF view r] view_members [OF view c] qs res by simp_all
  obtain a where a: "dict_get (singleton_ids u) l = Some a" "a < length (records u)"
    "records u ! a = PropertyChainRecord l None" "singleton_id u l = Inr a"
    by (rule singleton_exists [OF inv l])
  have ma: "?m a = [l]" by (simp add: chain_members.simps [of _ a] a(3))
  show ?thesis
  proof (cases "suffix_chain (records u ! res)")
    case None
    then have "gs = []" using mc(1) by (simp add: chain_members.simps [of _ res])
    with None show ?thesis by (simp add: composes_def)
  next
    case (Some s)
    with record_property [OF inv mc(2)] have s: "s < res" "is_object_property co (first_property (records u ! res))" by auto
    then have f: "first_property (records u ! res) = f" and ms: "?m s = gs"
      using mc(1) Some by (simp_all add: chain_members.simps [of _ res])
    from s mc(2) have sl: "s < length (records u)" by simp
    obtain b where b: "dict_get (singleton_ids u) f = Some b" "b < length (records u)"
      "records u ! b = PropertyChainRecord f None" "singleton_id u f = Inr b"
      using singleton_exists [OF inv s(2)] f by metis
    have mb: "?m b = [f]" by (simp add: chain_members.simps [of _ b] b(3))
    have "gs \<noteq> []" using members_spell [OF inv sl] ms by (cases gs) auto
    moreover have "named_below co u l b \<longleftrightarrow> ([l], [f]) \<in> (told_chains co)\<^sup>*"
      using chain_below_told [OF valid inv a(2) b(2)] a(1) by (simp add: named_below_def ma mb)
    moreover have "chain_below co u r s \<longleftrightarrow> (qs, gs) \<in> (told_chains co)\<^sup>*"
      using chain_below_told [OF valid inv mr(2) sl] by (simp add: mr(1) ms)
    moreover have "b = s \<longleftrightarrow> [f] = gs"
      using members_inject [OF inv b(2) sl] mb ms by auto
    ultimately show ?thesis using Some f b(1) mc(2) by (simp add: composes_def)
  qed
qed

lemma sample_properties: "is_object_property sample_ontology 7" "is_object_property sample_ontology 8"
  by (simp_all add: is_object_property_def sample_ontology_def sample_entities_def)

lemma few_property_chains:
  assumes "valid_ontology co" and "property_limits co"
  shows "length (property_chains co) < U32_RESERVED"
proof -
  have "1 \<le> length ch" if "ch \<in> set (property_chains co)" for ch
    using property_chain_members(1) [OF assms(1) that] by (simp add: Suc_le_eq)
  then have "length (property_chains co) \<le> sum_list (map length (property_chains co))"
    using sum_list_mono [of "property_chains co" "\<lambda>_. 1" length] by (simp add: sum_list_triv)
  then show ?thesis using assms(2) by (simp add: property_limits_def small_chains_def)
qed

lemma named_below_told:
  assumes view: "view_of co u ps" and p: "is_object_property co p" and q: "dict_get (singleton_ids u) q = Some b"
  shows "named_below co u p b \<longleftrightarrow> ([p], [q]) \<in> (told_chains co)\<^sup>*"
proof -
  note v = view_facts [OF view]
  obtain a where a: "dict_get (singleton_ids u) p = Some a" "a < length (records u)"
    "records u ! a = PropertyChainRecord p None" "singleton_id u p = Inr a"
    by (rule singleton_exists [OF v(1) p])
  have b: "b < length (records u)" "records u ! b = PropertyChainRecord q None"
    using v(1) q unfolding universe_inv_def by blast+
  show ?thesis
    using chain_below_told [OF v(2,1) a(2) b(1)] a(1)
    by (simp add: named_below_def chain_members.simps [of _ a] chain_members.simps [of _ b] a(3) b(2))
qed

lemma index_rel_get:
  "no_empty_rows d \<Longrightarrow> (k, v) \<in> index_rel d \<longleftrightarrow> (\<exists>row. dict_get d k = Some row \<and> v \<in> set row)"
  by (auto simp: index_rel_def no_empty_rows_def)

text \<open>C7: For every valid ontology within the table limits the property stage ends, raises nothing, and
  the constructor of the view it returns accepts it.\<close>

theorem property_stage_total:
  assumes "valid_ontology co" and "property_limits co"
  shows "\<exists>ps. saturate_properties co = Some (Inr ps) \<and> property_saturation_check ps = Inr ()"
proof -
  obtain ps where ps: "saturate_properties co = Some (Inr ps)"
    by (rule saturate_properties_ok [OF assms])
  with assms have "saturated_view co ps" by (simp add: saturated_view_def)
  then obtain u where view: "view_of co u ps" by (rule saturated_view_of)
  obtain s nr rd reflx where st: "stage_result co u s nr rd reflx"
    and eq: "ps = assemble co u s (inherited_range_set co u) nr rd reflx"
    and fin: "finite (inherited_range_set co u)"
    by (rule view_ofE [OF view])
  from property_saturation_check_ok [OF assms st refl fin] ps show ?thesis unfolding eq by blast
qed

theorem property_stage_total_witness:
  "\<exists>ps. saturate_properties sample_ontology = Some (Inr ps) \<and> property_saturation_check ps = Inr ()"
  by (rule property_stage_total [OF sample_valid sample_limits])

text \<open>C8: The super-chain query returns, in ascending order, exactly the chains that the told
  sub-property axioms reach.\<close>

theorem super_chains_exact:
  assumes "saturated_view co ps" and "a < length (chain_records ps)" and "b < length (chain_records ps)"
  shows "\<exists>bs as qa qb. super_chains ps a = Inr bs \<and> sub_chains ps b = Inr as \<and> sorted bs \<and> distinct bs \<and>
    chain_properties ps a = Inr qa \<and> chain_properties ps b = Inr qb \<and>
    (b \<in> set bs \<longleftrightarrow> (qa, qb) \<in> (told_chains co)\<^sup>*) \<and> (a \<in> set as \<longleftrightarrow> (qa, qb) \<in> (told_chains co)\<^sup>*)"
proof -
  obtain u where view: "view_of co u ps" by (rule saturated_view_of [OF assms(1)])
  note f = view_facts [OF view] and m = view_members [OF view]
  show ?thesis
    using assms(2,3) sub_chains_view [OF view] chain_below_told [OF f(2,1) m(2) m(2)] m(1)
    by (simp add: chain_in_table_def)
qed

theorem super_chains_exact_witness:
  "\<exists>bs as qa qb. super_chains sample_view 4 = Inr bs \<and> sub_chains sample_view 3 = Inr as \<and> sorted bs \<and> distinct bs \<and>
    chain_properties sample_view 4 = Inr qa \<and> chain_properties sample_view 3 = Inr qb \<and>
    (3 \<in> set bs \<longleftrightarrow> (qa, qb) \<in> (told_chains sample_ontology)\<^sup>*) \<and>
    (4 \<in> set as \<longleftrightarrow> (qa, qb) \<in> (told_chains sample_ontology)\<^sup>*)"
  by (rule super_chains_exact [OF sample_view_saturated]) (simp_all add: sample_view_def)

text \<open>C10: The ranges of a property are exactly the told ranges of the properties above it.\<close>

theorem ranges_exact:
  assumes "saturated_view co ps" and "is_object_property co p"
  shows "\<exists>es. ranges ps p = Inr es \<and>
    set es = {e. \<exists>q. (q, e) \<in> set (property_ranges co) \<and> ([p], [q]) \<in> (told_chains co)\<^sup>*}"
proof -
  obtain u where view: "view_of co u ps" by (rule saturated_view_of [OF assms(1)])
  note f = view_facts [OF view]
  have "has_range ps p e \<longleftrightarrow> (\<exists>q. (q, e) \<in> set (property_ranges co) \<and> ([p], [q]) \<in> (told_chains co)\<^sup>*)" for e
  proof -
    have "named_below co u p b \<longleftrightarrow> ([p], [q]) \<in> (told_chains co)\<^sup>*"
      if "dict_get (singleton_ids u) q = Some b" for q b
      by (rule named_below_told [OF view assms(2) that])
    moreover have "\<exists>b. dict_get (singleton_ids u) q = Some b" if "(q, e) \<in> set (property_ranges co)" for q
      using property_range_ids [OF f(2) that] singleton_exists [OF f(1)] by metis
    ultimately show ?thesis unfolding f(9) inherited_range_set_def by blast
  qed
  then show ?thesis using ranges_view [OF view assms(2)] by (auto simp: yields_def)
qed

theorem ranges_exact_witness:
  "\<exists>es. ranges sample_view 7 = Inr es \<and>
    set es = {e. \<exists>q. (q, e) \<in> set (property_ranges sample_ontology) \<and> ([7], [q]) \<in> (told_chains sample_ontology)\<^sup>*}"
  by (rule ranges_exact [OF sample_view_saturated sample_properties(1)])

text \<open>C11: Every compiled property chain is stored, and reading it back gives the declared chain.\<close>

theorem compiled_chain_reads_back:
  assumes "saturated_view co ps" and "i < length (property_chains co)"
  shows "\<exists>c. compiled_chain ps i = Inr c \<and> chain_properties ps c = Inr (property_chains co ! i)"
proof -
  obtain u where view: "view_of co u ps" by (rule saturated_view_of [OF assms(1)])
  note f = view_facts [OF view]
  note c = compiled_id_bound [OF f(1) assms(2)]
  have small: "length (records u) < U32_RESERVED" using f(1) unfolding universe_inv_def by blast
  have "length (property_chains co) < U32_RESERVED" by (rule few_property_chains) (use view in \<open>simp_all add: view_of_def\<close>)
  then have "compiled_chain ps i = Inr (compiled_ids u ! i)"
    using c(2) assms(2) by (simp add: compiled_chain_def f(7))
  with view_members(1) [OF view, of "compiled_ids u ! i"] spelled_members(2) [OF f(1) c(3)] c(1) f(5)
  show ?thesis by simp
qed

theorem compiled_chain_reads_back_witness:
  "\<exists>c. compiled_chain sample_view 1 = Inr c \<and> chain_properties sample_view c = Inr (property_chains sample_ontology ! 1)"
  by (rule compiled_chain_reads_back [OF sample_view_saturated]) (simp add: sample_ontology_def)

text \<open>Looking a chain up by its properties and reading the properties of a chain are inverse.\<close>

theorem lookup_chain_inverse:
  assumes "saturated_view co ps" and "qs \<noteq> []" and "\<forall>q \<in> set qs. is_object_property co q"
    and "c < length (chain_records ps)"
  shows "lookup_chain ps qs = Inr (Some c) \<longleftrightarrow> chain_properties ps c = Inr qs"
proof -
  obtain u where view: "view_of co u ps" by (rule saturated_view_of [OF assms(1)])
  note f = view_facts [OF view] and m = view_members [OF view assms(4)]
  have small: "\<forall>q \<in> set (rev qs). q < U32_RESERVED" using is_object_property_u32 [OF f(2)] assms(3) by simp
  have spell: "spells (chain_table (records u)) (Some c) (chain_members (records u) c)"
    by (rule members_spell [OF f(1) m(2)])
  have start: "spells (chain_table (records u)) None []" by simp
  show ?thesis
  proof
    assume "lookup_chain ps qs = Inr (Some c)"
    with lookup_reversed_sound [OF view start, of "rev qs" c] assms(2)
    have "spells (chain_table (records u)) (Some c) qs" by (simp add: lookup_chain_def)
    with m(1) spells_functional [OF spell] show "chain_properties ps c = Inr qs" by simp
  next
    assume "chain_properties ps c = Inr qs"
    with m(1) spell have "spells (chain_table (records u)) (Some c) (rev (rev qs) @ [])" by simp
    from lookup_reversed_complete [OF view start small this] assms(2)
    show "lookup_chain ps qs = Inr (Some c)" by (simp add: lookup_chain_def)
  qed
qed

theorem lookup_chain_inverse_witness:
  "lookup_chain sample_view [7, 7] = Inr (Some 4) \<longleftrightarrow> chain_properties sample_view 4 = Inr [7, 7]"
  by (rule lookup_chain_inverse [OF sample_view_saturated]) (simp_all add: sample_properties, simp add: sample_view_def)

text \<open>C9: The two composition tables split the composable triples of the told hierarchy: \<open>r\<close> below the
  first property and the rest below the suffix of the resulting chain.\<close>

theorem compositions_exact:
  assumes "saturated_view co ps" and "is_object_property co l" and "r < length (chain_records ps)"
    and "res < length (chain_records ps)"
    and "chain_properties ps res = Inr (f # gs)" and "chain_properties ps r = Inr qs"
  shows "has_composition ps True l r res \<noteq> has_composition ps False l r res \<longleftrightarrow>
    gs \<noteq> [] \<and> ([l], [f]) \<in> (told_chains co)\<^sup>* \<and> (qs, gs) \<in> (told_chains co)\<^sup>* \<and> \<not> ([f] = gs \<and> r = res)"
proof -
  obtain u where view: "view_of co u ps" by (rule saturated_view_of [OF assms(1)])
  from composes_told [OF view assms(2-6)] view_facts(10,11) [OF view, of l r res] show ?thesis by blast
qed

theorem compositions_exact_witness:
  "has_composition sample_view True 7 2 4 \<noteq> has_composition sample_view False 7 2 4 \<longleftrightarrow>
    [7 :: nat] \<noteq> [] \<and> ([7], [7]) \<in> (told_chains sample_ontology)\<^sup>* \<and> ([7], [7]) \<in> (told_chains sample_ontology)\<^sup>* \<and>
    \<not> ([7] = [7 :: nat] \<and> (2 :: nat) = 4)"
  by (rule compositions_exact [OF sample_view_saturated sample_properties(1)])
    (simp add: sample_view_def, simp add: sample_view_def, code_simp, code_simp)

text \<open>The index of compositions by left property and the one by right chain answer alike.\<close>

theorem composition_indices_agree:
  assumes "saturated_view co ps" and "is_object_property co l" and "r < length (chain_records ps)"
  shows "\<exists>by_right by_left. compositions_by_right ps b l = Inr by_right \<and> compositions_by_left ps b r = Inr by_left \<and>
    (\<forall>res. (\<exists>row. dict_get by_right r = Some row \<and> res \<in> set row) \<longleftrightarrow>
           (\<exists>row. dict_get by_left l = Some row \<and> res \<in> set row))"
proof -
  obtain u where view: "view_of co u ps" by (rule saturated_view_of [OF assms(1)])
  have r: "chain_in_table ps r" using assms(3) by (simp add: chain_in_table_def)
  from compositions_view(1) [OF view assms(2)] obtain d where d: "compositions_by_right ps b l = Inr d"
    "no_empty_rows d" "index_rel d = {(r, res). has_composition ps b l r res}" by blast
  from compositions_view(2) [OF view r] obtain d' where d': "compositions_by_left ps b r = Inr d'"
    "no_empty_rows d'" "index_rel d' = {(l, res). has_composition ps b l r res}" by blast
  have "(r, res) \<in> index_rel d \<longleftrightarrow> (l, res) \<in> index_rel d'" for res by (simp add: d(3) d'(3))
  with d(1,2) d'(1,2) show ?thesis by (simp add: index_rel_get)
qed

theorem composition_indices_agree_witness:
  "\<exists>by_right by_left. compositions_by_right sample_view False 7 = Inr by_right \<and>
    compositions_by_left sample_view False 2 = Inr by_left \<and>
    (\<forall>res. (\<exists>row. dict_get by_right 2 = Some row \<and> res \<in> set row) \<longleftrightarrow>
           (\<exists>row. dict_get by_left 7 = Some row \<and> res \<in> set row))"
  by (rule composition_indices_agree [OF sample_view_saturated sample_properties(1)]) (simp add: sample_view_def)

end
