(* ===== verification/Conclusions.thy ===== *)
theory Conclusions
  imports IR
begin

text \<open>
  \<open>src/pyelk/reasoning/conclusions.py\<close>: the nine families of class conclusions, the context
  that owns a conclusion, and the integer tuple that is its structural identity.  The dataclass
  constructors reject identifiers outside the u32 namespace; \<open>conclusion_ok\<close> is that test.
\<close>

section \<open>The nine conclusion families\<close>

datatype conclusion =
    ContextInitialization nat            \<comment> \<open>root\<close>
  | SubContextInitialization nat nat      \<comment> \<open>destination, sub-destination property\<close>
  | SubClassInclusionDecomposed nat nat   \<comment> \<open>destination, subsumer\<close>
  | SubClassInclusionComposed nat nat     \<comment> \<open>destination, subsumer\<close>
  | ForwardLink nat nat nat               \<comment> \<open>destination, chain, target\<close>
  | BackwardLink nat nat nat              \<comment> \<open>destination, relation, source\<close>
  | Propagation nat nat nat               \<comment> \<open>destination, relation, carried existential\<close>
  | DisjointSubsumer nat nat nat          \<comment> \<open>destination, disjoint group, position\<close>
  | ClassInconsistency nat                \<comment> \<open>destination\<close>

definition checked_id :: "nat \<Rightarrow> nat result" where
  "checked_id value = (if value < U32_RESERVED then Inr value else Inl ValueError)"

fun conclusion_ids :: "conclusion \<Rightarrow> nat list" where
  "conclusion_ids (ContextInitialization r) = [r]"
| "conclusion_ids (SubContextInitialization d p) = [d, p]"
| "conclusion_ids (SubClassInclusionDecomposed d s) = [d, s]"
| "conclusion_ids (SubClassInclusionComposed d s) = [d, s]"
| "conclusion_ids (ForwardLink d c t) = [d, c, t]"
| "conclusion_ids (BackwardLink d r s) = [d, r, s]"
| "conclusion_ids (Propagation d r e) = [d, r, e]"
| "conclusion_ids (DisjointSubsumer d g p) = [d, g, p]"
| "conclusion_ids (ClassInconsistency d) = [d]"

text \<open>\<open>__post_init__\<close> of every family: each field passes \<open>_checked_id\<close>.\<close>

definition conclusion_ok :: "conclusion \<Rightarrow> bool" where
  "conclusion_ok c = list_all (\<lambda>i. i < U32_RESERVED) (conclusion_ids c)"

definition post_init :: "conclusion \<Rightarrow> conclusion result" where
  "post_init c = rbind (rall (\<lambda>i. rmap (\<lambda>_. ()) (checked_id i)) (conclusion_ids c)) (\<lambda>_. Inr c)"

fun conclusion_kind :: "conclusion \<Rightarrow> nat" where
  "conclusion_kind (ContextInitialization _) = 0"
| "conclusion_kind (SubContextInitialization _ _) = 1"
| "conclusion_kind (SubClassInclusionDecomposed _ _) = 2"
| "conclusion_kind (SubClassInclusionComposed _ _) = 3"
| "conclusion_kind (ForwardLink _ _ _) = 4"
| "conclusion_kind (BackwardLink _ _ _) = 5"
| "conclusion_kind (Propagation _ _ _) = 6"
| "conclusion_kind (DisjointSubsumer _ _ _) = 7"
| "conclusion_kind (ClassInconsistency _) = 8"

definition CONTEXT_INITIALIZATION :: nat where "CONTEXT_INITIALIZATION = 0"
definition SUBCONTEXT_INITIALIZATION :: nat where "SUBCONTEXT_INITIALIZATION = 1"
definition SUBCLASS_INCLUSION_DECOMPOSED :: nat where "SUBCLASS_INCLUSION_DECOMPOSED = 2"
definition SUBCLASS_INCLUSION_COMPOSED :: nat where "SUBCLASS_INCLUSION_COMPOSED = 3"
definition FORWARD_LINK :: nat where "FORWARD_LINK = 4"
definition BACKWARD_LINK :: nat where "BACKWARD_LINK = 5"
definition PROPAGATION :: nat where "PROPAGATION = 6"
definition DISJOINT_SUBSUMER :: nat where "DISJOINT_SUBSUMER = 7"
definition CLASS_INCONSISTENCY :: nat where "CLASS_INCONSISTENCY = 8"

lemmas conclusion_kind_defs [simp] = CONTEXT_INITIALIZATION_def SUBCONTEXT_INITIALIZATION_def SUBCLASS_INCLUSION_DECOMPOSED_def SUBCLASS_INCLUSION_COMPOSED_def
  FORWARD_LINK_def BACKWARD_LINK_def PROPAGATION_def DISJOINT_SUBSUMER_def CLASS_INCONSISTENCY_def

fun conclusion_destination :: "conclusion \<Rightarrow> nat" where
  "conclusion_destination (ContextInitialization r) = r"
| "conclusion_destination (SubContextInitialization d _) = d"
| "conclusion_destination (SubClassInclusionDecomposed d _) = d"
| "conclusion_destination (SubClassInclusionComposed d _) = d"
| "conclusion_destination (ForwardLink d _ _) = d"
| "conclusion_destination (BackwardLink d _ _) = d"
| "conclusion_destination (Propagation d _ _) = d"
| "conclusion_destination (DisjointSubsumer d _ _) = d"
| "conclusion_destination (ClassInconsistency d) = d"

fun conclusion_key :: "conclusion \<Rightarrow> nat list" where
  "conclusion_key (ContextInitialization r) = [0, r]"
| "conclusion_key (SubContextInitialization d p) = [1, d, p]"
| "conclusion_key (SubClassInclusionDecomposed d s) = [2, d, s]"
| "conclusion_key (SubClassInclusionComposed d s) = [3, d, s]"
| "conclusion_key (ForwardLink d c t) = [4, d, c, t]"
| "conclusion_key (BackwardLink d r s) = [5, d, r, s]"
| "conclusion_key (Propagation d r e) = [6, d, r, e]"
| "conclusion_key (DisjointSubsumer d g p) = [7, d, g, p]"
| "conclusion_key (ClassInconsistency d) = [8, d]"

lemma post_init_eq: "post_init c = (if conclusion_ok c then Inr c else Inl ValueError)"
proof -
  have "rall (\<lambda>i. rmap (\<lambda>_. ()) (checked_id i)) xs =
      (if list_all (\<lambda>i. i < U32_RESERVED) xs then Inr () else Inl ValueError)" for xs
    by (induction xs) (auto simp: checked_id_def)
  then show ?thesis by (simp add: post_init_def conclusion_ok_def)
qed

section \<open>Identity\<close>

lemma conclusion_key_shape:
  "conclusion_key c = conclusion_kind c # conclusion_ids c"
  by (cases c) simp_all

lemma conclusion_key_destination: "conclusion_key c ! 1 = conclusion_destination c"
  by (cases c) simp_all

lemma conclusion_key_inject [simp]: "conclusion_key c = conclusion_key d \<longleftrightarrow> c = d"
  by (cases c; cases d) auto

lemma inj_conclusion_key: "inj conclusion_key"
  by (simp add: inj_def)

text \<open>A bounded namespace holds finitely many conclusions.\<close>

lemma finite_conclusions_below: "finite {c. list_all (\<lambda>i. i < n) (conclusion_ids c)}"
proof (rule finite_imageD)
  show "inj_on conclusion_key {c. list_all (\<lambda>i. i < n) (conclusion_ids c)}"
    by (rule inj_on_subset [OF inj_conclusion_key]) simp
  have "conclusion_key c \<in> {ks. set ks \<subseteq> {..< n + 9} \<and> length ks \<le> 4}"
    if "list_all (\<lambda>i. i < n) (conclusion_ids c)" for c
    using that by (cases c) auto
  then have "conclusion_key ` {c. list_all (\<lambda>i. i < n) (conclusion_ids c)}
      \<subseteq> {ks. set ks \<subseteq> {..< n + 9} \<and> length ks \<le> 4}"
    by blast
  moreover have "finite {ks. set ks \<subseteq> {..< n + 9} \<and> length ks \<le> 4}"
    by (rule finite_lists_length_le) simp
  ultimately show "finite (conclusion_key ` {c. list_all (\<lambda>i. i < n) (conclusion_ids c)})"
    by (rule finite_subset)
qed

end
