(* ===== verification/Calculus.thy ===== *)
theory Calculus
  imports Conclusions Property_View
begin

text \<open>
  The ELK calculus as inference rules over the compiled ontology and the property view: the abstract
  specification of the dispatcher.  A rule has one premise, or two in the same context.  \<open>derivable\<close>
  is the set the rules generate from the demanded context roots.
\<close>

section \<open>Side conditions\<close>

definition occurs_negatively :: "compiled_ontology \<Rightarrow> nat \<Rightarrow> bool" where
  "occurs_negatively co e \<longleftrightarrow> negative (expression_occurrences co ! e) \<noteq> 0"

definition occurs_positively :: "compiled_ontology \<Rightarrow> nat \<Rightarrow> bool" where
  "occurs_positively co e \<longleftrightarrow> positive (expression_occurrences co ! e) \<noteq> 0"

definition indexed :: "compiled_ontology \<Rightarrow> nat \<Rightarrow> expression_tag \<Rightarrow> nat list \<Rightarrow> bool" where
  "indexed co e t args \<longleftrightarrow> is_expression co e \<and> tag (expressions co ! e) = t \<and> arguments (expressions co ! e) = args"

definition defines_class :: "compiled_ontology \<Rightarrow> nat \<Rightarrow> nat \<Rightarrow> bool" where
  "defines_class co a b \<longleftrightarrow> (a, b) \<in> set (equivalent_class_axioms co) \<and> tag (expressions co ! a) = TAG_CLASS"

definition equates :: "compiled_ontology \<Rightarrow> nat \<Rightarrow> nat \<Rightarrow> bool" where
  "equates co a b \<longleftrightarrow> (a, b) \<in> set (equivalent_class_axioms co) \<and> tag (expressions co ! a) \<noteq> TAG_CLASS"

definition disjoint_member :: "compiled_ontology \<Rightarrow> nat \<Rightarrow> nat \<Rightarrow> nat \<Rightarrow> bool" where
  "disjoint_member co e g i \<longleftrightarrow> g < length (disjoint_groups co) \<and> i < length (disjoint_groups co ! g) \<and>
     disjoint_groups co ! g ! i = e"

definition told_super :: "compiled_ontology \<Rightarrow> property_saturation \<Rightarrow> nat \<Rightarrow> nat \<Rightarrow> bool" where
  "told_super co ps c p \<longleftrightarrow> (\<exists>k. (k, p) \<in> set (subproperty_axioms co) \<and> compiled_chain ps k = Inr c)"

definition extendable :: "property_saturation \<Rightarrow> nat \<Rightarrow> bool" where
  "extendable ps c \<longleftrightarrow> (\<exists>b l res. has_composition ps b l c res)"

section \<open>The rules\<close>

inductive unary_rule :: "compiled_ontology \<Rightarrow> property_saturation \<Rightarrow> conclusion \<Rightarrow> conclusion \<Rightarrow> bool"
  for co ps where
  tautology: "unary_rule co ps (ContextInitialization r) (SubClassInclusionDecomposed r r)"
| owl_thing: "class_expression co OWL_THING_IRI = Inr t \<Longrightarrow> occurs_negatively co t \<Longrightarrow>
    unary_rule co ps (ContextInitialization r) (SubClassInclusionComposed r t)"
| composed_of_decomposed: "unary_rule co ps (SubClassInclusionDecomposed d s) (SubClassInclusionComposed d s)"
| expanded_definition: "defines_class co a b \<Longrightarrow>
    unary_rule co ps (SubClassInclusionDecomposed d a) (SubClassInclusionDecomposed d b)"
| first_conjunct: "indexed co e OBJECT_INTERSECTION_OF [a, b] \<Longrightarrow> occurs_positively co e \<Longrightarrow>
    unary_rule co ps (SubClassInclusionDecomposed d e) (SubClassInclusionDecomposed d a)"
| second_conjunct: "indexed co e OBJECT_INTERSECTION_OF [a, b] \<Longrightarrow> occurs_positively co e \<Longrightarrow>
    unary_rule co ps (SubClassInclusionDecomposed d e) (SubClassInclusionDecomposed d b)"
| existential_backward: "indexed co e OBJECT_SOME_VALUES_FROM [p, f] \<Longrightarrow> occurs_positively co e \<Longrightarrow>
    unary_rule co ps (SubClassInclusionDecomposed d e) (BackwardLink f p d)"
| existential_forward: "indexed co e OBJECT_SOME_VALUES_FROM [p, f] \<Longrightarrow> occurs_positively co e \<Longrightarrow>
    singleton_chain ps p = Inr c \<Longrightarrow> has_composition ps False l c res \<Longrightarrow>
    unary_rule co ps (SubClassInclusionDecomposed d e) (ForwardLink d c f)"
| self_backward: "indexed co e OBJECT_HAS_SELF [p] \<Longrightarrow> occurs_positively co e \<Longrightarrow>
    unary_rule co ps (SubClassInclusionDecomposed d e) (BackwardLink d p d)"
| self_forward: "indexed co e OBJECT_HAS_SELF [p] \<Longrightarrow> occurs_positively co e \<Longrightarrow>
    singleton_chain ps p = Inr c \<Longrightarrow> has_composition ps False l c res \<Longrightarrow>
    unary_rule co ps (SubClassInclusionDecomposed d e) (ForwardLink d c d)"
| self_range: "indexed co e OBJECT_HAS_SELF [p] \<Longrightarrow> occurs_positively co e \<Longrightarrow> has_range ps p x \<Longrightarrow>
    unary_rule co ps (SubClassInclusionDecomposed d e) (SubClassInclusionDecomposed d x)"
| owl_nothing: "class_expression co OWL_NOTHING_IRI = Inr n \<Longrightarrow> occurs_positively co n \<Longrightarrow>
    unary_rule co ps (SubClassInclusionDecomposed d n) (ClassInconsistency d)"
| expanded_subclass: "(a, b) \<in> set (subclass_axioms co) \<Longrightarrow>
    unary_rule co ps (SubClassInclusionComposed d a) (SubClassInclusionDecomposed d b)"
| defined_class: "defines_class co a b \<Longrightarrow>
    unary_rule co ps (SubClassInclusionComposed d b) (SubClassInclusionComposed d a)"
| first_equivalent: "equates co a b \<Longrightarrow>
    unary_rule co ps (SubClassInclusionComposed d b) (SubClassInclusionDecomposed d a)"
| second_equivalent: "equates co a b \<Longrightarrow>
    unary_rule co ps (SubClassInclusionComposed d a) (SubClassInclusionDecomposed d b)"
| union: "indexed co e OBJECT_UNION_OF args \<Longrightarrow> occurs_negatively co e \<Longrightarrow> a \<in> set args \<Longrightarrow>
    unary_rule co ps (SubClassInclusionComposed d a) (SubClassInclusionComposed d e)"
| disjoint_position: "disjoint_member co a g i \<Longrightarrow>
    unary_rule co ps (SubClassInclusionComposed d a) (DisjointSubsumer d g i)"
| subcontext: "unary_rule co ps (BackwardLink d p s) (SubContextInitialization d p)"
| link_range: "has_range ps p x \<Longrightarrow>
    unary_rule co ps (BackwardLink d p s) (SubClassInclusionDecomposed d x)"
| reversed_expanded: "is_complex ps c \<Longrightarrow> told_super co ps c p \<Longrightarrow>
    unary_rule co ps (ForwardLink d c t) (BackwardLink t p d)"

inductive binary_rule :: "compiled_ontology \<Rightarrow> property_saturation \<Rightarrow> conclusion \<Rightarrow> conclusion \<Rightarrow> conclusion \<Rightarrow> bool"
  for co ps where
  intersection: "indexed co e OBJECT_INTERSECTION_OF [a, b] \<Longrightarrow> occurs_negatively co e \<Longrightarrow>
    binary_rule co ps (SubClassInclusionComposed d a) (SubClassInclusionComposed d b) (SubClassInclusionComposed d e)"
| propagation: "indexed co e OBJECT_SOME_VALUES_FROM [p, f] \<Longrightarrow> occurs_negatively co e \<Longrightarrow>
    singleton_chain ps p = Inr c \<Longrightarrow> property_under ps q c \<Longrightarrow>
    binary_rule co ps (SubContextInitialization d q) (SubClassInclusionComposed d f) (Propagation d q e)"
| existential: "binary_rule co ps (BackwardLink d q s) (Propagation d q e) (SubClassInclusionComposed s e)"
| complement: "indexed co e OBJECT_COMPLEMENT_OF [a] \<Longrightarrow> occurs_positively co e \<Longrightarrow>
    binary_rule co ps (SubClassInclusionComposed d a) (SubClassInclusionDecomposed d e) (ClassInconsistency d)"
| disjoint: "i \<noteq> j \<Longrightarrow>
    binary_rule co ps (DisjointSubsumer d g i) (DisjointSubsumer d g j) (ClassInconsistency d)"
| inconsistency: "binary_rule co ps (BackwardLink d q s) (ClassInconsistency d) (ClassInconsistency s)"
| link_chain: "has_composition ps False q c res \<Longrightarrow> extendable ps res \<Longrightarrow>
    binary_rule co ps (BackwardLink d q s) (ForwardLink d c t) (ForwardLink s res t)"
| link_super: "has_composition ps False q c res \<Longrightarrow> \<not> extendable ps res \<Longrightarrow> told_super co ps res p \<Longrightarrow>
    binary_rule co ps (BackwardLink d q s) (ForwardLink d c t) (BackwardLink t p s)"

text \<open>What each family triggers, by inversion.\<close>

inductive_simps unary_ContextInitialization: "unary_rule co ps (ContextInitialization r) c"
inductive_simps unary_SubContextInitialization: "unary_rule co ps (SubContextInitialization d p) c"
inductive_simps unary_Decomposed: "unary_rule co ps (SubClassInclusionDecomposed d s) c"
inductive_simps unary_Composed: "unary_rule co ps (SubClassInclusionComposed d s) c"
inductive_simps unary_ForwardLink: "unary_rule co ps (ForwardLink d ch t) c"
inductive_simps unary_BackwardLink: "unary_rule co ps (BackwardLink d p s) c"
inductive_simps unary_Propagation: "unary_rule co ps (Propagation d p e) c"
inductive_simps unary_DisjointSubsumer: "unary_rule co ps (DisjointSubsumer d g i) c"
inductive_simps unary_ClassInconsistency: "unary_rule co ps (ClassInconsistency d) c"

lemmas unary_families = unary_ContextInitialization unary_SubContextInitialization unary_Decomposed
  unary_Composed unary_ForwardLink unary_BackwardLink unary_Propagation unary_DisjointSubsumer
  unary_ClassInconsistency

inductive_cases binary_ruleE: "binary_rule co ps p q c"

text \<open>\<open>follows co ps S p c\<close>: the premise \<open>p\<close>, alone or with a stored partner, gives \<open>c\<close>.\<close>

definition follows :: "compiled_ontology \<Rightarrow> property_saturation \<Rightarrow> conclusion set \<Rightarrow> conclusion \<Rightarrow> conclusion \<Rightarrow> bool" where
  "follows co ps S p c \<longleftrightarrow> unary_rule co ps p c \<or> (\<exists>q \<in> S. binary_rule co ps p q c \<or> binary_rule co ps q p c)"

lemma binary_destination:
  "binary_rule co ps p q c \<Longrightarrow> conclusion_destination p = conclusion_destination q"
  by (induction rule: binary_rule.induct) simp_all

section \<open>The namespace\<close>

text \<open>\<open>in_scope co ps c\<close>: every identifier in \<open>c\<close> names something.\<close>

fun in_scope :: "compiled_ontology \<Rightarrow> property_saturation \<Rightarrow> conclusion \<Rightarrow> bool" where
  "in_scope co ps (ContextInitialization r) = is_expression co r"
| "in_scope co ps (SubContextInitialization d p) = (is_expression co d \<and> is_object_property co p)"
| "in_scope co ps (SubClassInclusionDecomposed d s) = (is_expression co d \<and> is_expression co s)"
| "in_scope co ps (SubClassInclusionComposed d s) = (is_expression co d \<and> is_expression co s)"
| "in_scope co ps (ForwardLink d c t) = (is_expression co d \<and> chain_in_table ps c \<and> is_expression co t)"
| "in_scope co ps (BackwardLink d p s) = (is_expression co d \<and> is_object_property co p \<and> is_expression co s)"
| "in_scope co ps (Propagation d p e) = (is_expression co d \<and> is_object_property co p \<and> is_expression co e)"
| "in_scope co ps (DisjointSubsumer d g i) =
     (is_expression co d \<and> g < length (disjoint_groups co) \<and> i < length (disjoint_groups co ! g))"
| "in_scope co ps (ClassInconsistency d) = is_expression co d"

text \<open>
  The frozen tables bound entities and expressions; groups and positions also travel in conclusions
  as u32 identifiers, and the constructors of the tables do not bound them.
\<close>

definition class_limits :: "compiled_ontology \<Rightarrow> bool" where
  "class_limits co \<longleftrightarrow> length (disjoint_groups co) \<le> U32_RESERVED \<and>
     (\<forall>g \<in> set (disjoint_groups co). length g \<le> U32_RESERVED) \<and>
     (\<forall>r \<in> set (expressions co). length (arguments r) \<le> U32_RESERVED)"

definition class_setting :: "compiled_ontology \<Rightarrow> property_saturation \<Rightarrow> bool" where
  "class_setting co ps \<longleftrightarrow> saturated_view co ps \<and> class_limits co"

lemma class_settingE:
  assumes "class_setting co ps"
  obtains u where "view_of co u ps" and "valid_ontology co" and "class_limits co" and "usable_view ps"
proof -
  from assms obtain u where "view_of co u ps"
    unfolding class_setting_def using saturated_view_of by metis
  with assms show ?thesis
    by (intro that [of u]) (auto simp: class_setting_def saturated_view_def usable_view_def)
qed

lemma in_scope_destination: "in_scope co ps c \<Longrightarrow> is_expression co (conclusion_destination c)"
  by (cases c) simp_all

lemma in_scope_ok:
  assumes "class_setting co ps" and "in_scope co ps c"
  shows "conclusion_ok c"
proof -
  obtain u where u: "view_of co u ps" and valid: "valid_ontology co" and lim: "class_limits co"
    by (rule class_settingE [OF assms(1)])
  note e = is_expression_u32 [OF valid] and p = is_object_property_u32 [OF valid]
  have chain: "c < U32_RESERVED" if "chain_in_table ps c" for c
    using that view_facts(1,4) [OF u] unfolding universe_inv_def by auto
  have groups: "g < U32_RESERVED \<and> i < U32_RESERVED"
    if "g < length (disjoint_groups co)" "i < length (disjoint_groups co ! g)" for g i
  proof -
    have "length (disjoint_groups co ! g) \<le> U32_RESERVED"
      using lim that(1) nth_mem unfolding class_limits_def by blast
    with lim that show ?thesis unfolding class_limits_def by linarith
  qed
  show ?thesis
    using assms(2) by (cases c) (auto simp: conclusion_ok_def e p chain groups)
qed

lemma class_expression_is_expression: "class_expression co i = Inr x \<Longrightarrow> is_expression co x"
  by (auto simp: class_expression_def is_expression_def dest!: find_index_Some split: option.splits)

lemma indexed_arguments:
  assumes "valid_ontology co" and "indexed co e t args"
  shows "t = OBJECT_INTERSECTION_OF \<Longrightarrow> \<exists>a b. args = [a, b] \<and> is_expression co a \<and> is_expression co b"
    and "t = OBJECT_SOME_VALUES_FROM \<Longrightarrow> \<exists>p f. args = [p, f] \<and> is_object_property co p \<and> is_expression co f"
    and "t = OBJECT_HAS_SELF \<Longrightarrow> \<exists>p. args = [p] \<and> is_object_property co p"
    and "t = OBJECT_COMPLEMENT_OF \<Longrightarrow> \<exists>a. args = [a] \<and> is_expression co a"
    and "t = OBJECT_UNION_OF \<Longrightarrow> a \<in> set args \<Longrightarrow> is_expression co a"
proof -
  note i = assms(2) [unfolded indexed_def]
  show "t = OBJECT_INTERSECTION_OF \<Longrightarrow> \<exists>a b. args = [a, b] \<and> is_expression co a \<and> is_expression co b"
    using intersection_arguments [OF assms(1), of e] i by metis
  show "t = OBJECT_SOME_VALUES_FROM \<Longrightarrow> \<exists>p f. args = [p, f] \<and> is_object_property co p \<and> is_expression co f"
    using existential_arguments [OF assms(1), of e] i by metis
  show "t = OBJECT_HAS_SELF \<Longrightarrow> \<exists>p. args = [p] \<and> is_object_property co p"
    using has_self_arguments [OF assms(1), of e] i by metis
  show "t = OBJECT_COMPLEMENT_OF \<Longrightarrow> \<exists>a. args = [a] \<and> is_expression co a"
    using complement_arguments [OF assms(1), of e] i by metis
  show "t = OBJECT_UNION_OF \<Longrightarrow> a \<in> set args \<Longrightarrow> is_expression co a"
    using union_arguments(2) [OF assms(1), of e a] i by blast
qed

lemma indexed_is_expression: "indexed co e t args \<Longrightarrow> is_expression co e"
  by (simp add: indexed_def)

lemma told_super_property:
  "valid_ontology co \<Longrightarrow> told_super co ps c p \<Longrightarrow> is_object_property co p"
  using subproperty_axiom_ids(2) unfolding told_super_def by blast

lemma has_range_expression:
  assumes "class_setting co ps" and "has_range ps p x"
  shows "is_expression co x"
proof -
  obtain u where u: "view_of co u ps" and valid: "valid_ontology co"
    by (rule class_settingE [OF assms(1)])
  from assms(2) have "PropertyRange p x \<in> inherited_range_set co u" by (simp add: view_facts(9) [OF u])
  from inherited_range_bounds(2) [OF valid view_facts(1) [OF u] this] show ?thesis by simp
qed

lemma singleton_chain_in_table:
  assumes "class_setting co ps" and "singleton_chain ps p = Inr c"
  shows "chain_in_table ps c"
proof -
  obtain u where u: "view_of co u ps" by (rule class_settingE [OF assms(1)])
  show ?thesis using singleton_chain_unique(2) [OF u assms(2)] view_facts(4) [OF u] by simp
qed

text \<open>The rules stay in the namespace.\<close>

lemma unary_rule_in_scope:
  assumes set: "class_setting co ps" and "unary_rule co ps p c" and "in_scope co ps p"
  shows "in_scope co ps c"
proof -
  obtain u where valid: "valid_ontology co" by (rule class_settingE [OF set])
  note a = indexed_arguments [OF valid] and r = has_range_expression [OF set]
    and s = singleton_chain_in_table [OF set] and e = indexed_is_expression
  from assms(2,3) show ?thesis
  proof (induction rule: unary_rule.induct)
    case (union e args a d)
    then show ?case using a(5) [OF union(1)] e by simp
  qed (auto dest: class_expression_is_expression a(1-4) r s e told_super_property [OF valid]
      subclass_axiom_expressions [OF valid] equivalent_axiom_expressions [OF valid]
      simp: defines_class_def equates_def disjoint_member_def)
qed

lemma binary_rule_in_scope:
  assumes set: "class_setting co ps" and "binary_rule co ps p q c" and "in_scope co ps p" and "in_scope co ps q"
  shows "in_scope co ps c"
proof -
  obtain u where valid: "valid_ontology co" and us: "usable_view ps" by (rule class_settingE [OF set])
  from assms(2-4) show ?thesis
    by (induction rule: binary_rule.induct)
      (auto dest: indexed_is_expression told_super_property [OF valid] pv.composed_law [OF us])
qed

section \<open>What is derivable from the demanded roots\<close>

text \<open>
  Contexts are created on demand: a conclusion for a context whose root was never demanded makes
  that context, and with it its initialization.
\<close>

inductive_set derivable :: "compiled_ontology \<Rightarrow> property_saturation \<Rightarrow> nat set \<Rightarrow> conclusion set"
  for co ps roots where
  root: "r \<in> roots \<Longrightarrow> ContextInitialization r \<in> derivable co ps roots"
| created: "c \<in> derivable co ps roots \<Longrightarrow>
    ContextInitialization (conclusion_destination c) \<in> derivable co ps roots"
| unary: "p \<in> derivable co ps roots \<Longrightarrow> unary_rule co ps p c \<Longrightarrow> c \<in> derivable co ps roots"
| binary: "p \<in> derivable co ps roots \<Longrightarrow> q \<in> derivable co ps roots \<Longrightarrow> binary_rule co ps p q c \<Longrightarrow>
    c \<in> derivable co ps roots"

lemma derivable_mono: "roots \<subseteq> roots' \<Longrightarrow> derivable co ps roots \<subseteq> derivable co ps roots'"
proof
  fix c assume "roots \<subseteq> roots'" and "c \<in> derivable co ps roots"
  then show "c \<in> derivable co ps roots'"
    by (induction rule: derivable.induct [consumes 1, case_names root created unary binary, OF \<open>c \<in> derivable co ps roots\<close>])
      (auto intro: derivable.intros)
qed

lemma derivable_in_scope:
  assumes "class_setting co ps" and "\<forall>r \<in> roots. is_expression co r" and "c \<in> derivable co ps roots"
  shows "in_scope co ps c"
  using assms(3)
proof (induction rule: derivable.induct)
  case (root r)
  with assms(2) show ?case by simp
next
  case (created c)
  then show ?case by (simp add: in_scope_destination)
next
  case (unary p c)
  then show ?case using unary_rule_in_scope [OF assms(1)] by blast
next
  case (binary p q c)
  then show ?case using binary_rule_in_scope [OF assms(1)] by blast
qed

lemma finite_in_scope:
  assumes "class_setting co ps"
  shows "finite {c. in_scope co ps c}"
proof (rule finite_subset)
  show "{c. in_scope co ps c} \<subseteq> {c. list_all (\<lambda>i. i < U32_RESERVED) (conclusion_ids c)}"
    using in_scope_ok [OF assms] by (auto simp: conclusion_ok_def)
qed (rule finite_conclusions_below)

end
