(* ===== verification/Contexts.thy ===== *)
theory Contexts
  imports Conclusions
begin

text \<open>
  \<open>src/pyelk/reasoning/contexts.py\<close>: the duplicate-suppressing store of one saturation
  context.  \<open>_conclusions\<close> and \<open>_pending\<close> identify conclusions by key; the family indices
  (\<open>composed_subsumers\<close>, \<open>backward_links\<close>, ..) are what the rules read.  The invariant says the
  indices and the key tables agree, and the locale \<open>agenda\<close> is the contract the scheduler
  relies on: what is known grows by exactly what is enqueued.
\<close>

section \<open>State and operations\<close>

record context_state =
  ctx_root :: nat
  initialized :: bool
  saturated :: bool
  inconsistent :: bool
  composed_subsumers :: "nat set"
  decomposed_subsumers :: "nat set"
  forward_links :: "(nat, nat set) dict"
  backward_links :: "(nat, nat set) dict"
  propagations :: "(nat, nat set) dict"
  disjoint_positions :: "(nat, nat set) dict"
  initialized_subcontexts :: "nat set"
  todo :: "conclusion list"
  queued :: bool
  conclusions_by_key :: "(nat list, conclusion) dict"
  pending_keys :: "nat list set"

definition new_context :: "nat \<Rightarrow> context_state" where
  "new_context r = \<lparr>ctx_root = r, initialized = False, saturated = False, inconsistent = False,
     composed_subsumers = {}, decomposed_subsumers = {}, forward_links = [], backward_links = [],
     propagations = [], disjoint_positions = [], initialized_subcontexts = {}, todo = [],
     queued = False, conclusions_by_key = [], pending_keys = {}\<rparr>"

definition conclusion_count :: "context_state \<Rightarrow> nat" where
  "conclusion_count st = length (conclusions_by_key st)"

definition pending_count :: "context_state \<Rightarrow> nat" where
  "pending_count st = card (pending_keys st)"

definition check_destination :: "context_state \<Rightarrow> conclusion \<Rightarrow> unit result" where
  "check_destination st c = rassert (conclusion_destination c = ctx_root st) ValueError"

text \<open>\<open>enqueue\<close> returns whether the candidate was novel, and the new state.\<close>

definition enqueue :: "context_state \<Rightarrow> conclusion \<Rightarrow> (bool \<times> context_state) result" where
  "enqueue st c = rbind (check_destination st c) (\<lambda>_.
     let key = conclusion_key c in
     if dict_contains (conclusions_by_key st) key \<or> key \<in> pending_keys st then Inr (False, st)
     else Inr (True, st\<lparr>todo := todo st @ [c], pending_keys := insert key (pending_keys st),
                        saturated := False\<rparr>))"

definition pop_todo :: "context_state \<Rightarrow> conclusion option \<times> context_state" where
  "pop_todo st = (case todo st of
     [] \<Rightarrow> (None, st)
   | c # rest \<Rightarrow> (Some c, st\<lparr>todo := rest, pending_keys := pending_keys st - {conclusion_key c}\<rparr>))"

text \<open>The family index a conclusion is filed under.\<close>

fun index_conclusion :: "conclusion \<Rightarrow> context_state \<Rightarrow> context_state" where
  "index_conclusion (ContextInitialization _) st = st\<lparr>initialized := True\<rparr>"
| "index_conclusion (SubContextInitialization _ p) st =
     st\<lparr>initialized_subcontexts := insert p (initialized_subcontexts st)\<rparr>"
| "index_conclusion (SubClassInclusionDecomposed _ s) st =
     st\<lparr>decomposed_subsumers := insert s (decomposed_subsumers st)\<rparr>"
| "index_conclusion (SubClassInclusionComposed _ s) st =
     st\<lparr>composed_subsumers := insert s (composed_subsumers st)\<rparr>"
| "index_conclusion (ForwardLink _ c t) st =
     st\<lparr>forward_links := multimap_add (forward_links st) c t\<rparr>"
| "index_conclusion (BackwardLink _ r s) st =
     st\<lparr>backward_links := multimap_add (backward_links st) r s\<rparr>"
| "index_conclusion (Propagation _ r e) st =
     st\<lparr>propagations := multimap_add (propagations st) r e\<rparr>"
| "index_conclusion (DisjointSubsumer _ g p) st =
     st\<lparr>disjoint_positions := multimap_add (disjoint_positions st) g p\<rparr>"
| "index_conclusion (ClassInconsistency _) st = st\<lparr>inconsistent := True\<rparr>"

definition insert_conclusion :: "context_state \<Rightarrow> conclusion \<Rightarrow> (bool \<times> context_state) result" where
  "insert_conclusion st c = rbind (check_destination st c) (\<lambda>_.
     let key = conclusion_key c; st = st\<lparr>pending_keys := pending_keys st - {key}\<rparr> in
     if dict_contains (conclusions_by_key st) key then Inr (False, st)
     else Inr (True, index_conclusion c
                 (st\<lparr>conclusions_by_key := dict_put key c (conclusions_by_key st)\<rparr>)))"

definition contains :: "context_state \<Rightarrow> conclusion \<Rightarrow> bool result" where
  "contains st c = rbind (check_destination st c) (\<lambda>_.
     Inr (dict_contains (conclusions_by_key st) (conclusion_key c)))"

text \<open>\<open>conclusions()\<close>: the stored values sorted by key.\<close>

definition sorted_conclusions :: "context_state \<Rightarrow> conclusion list" where
  "sorted_conclusions st = map snd (sort_key fst (conclusions_by_key st))"

definition mark_queued :: "context_state \<Rightarrow> bool \<times> context_state" where
  "mark_queued st = (if queued st then (False, st)
     else (True, st\<lparr>queued := True, saturated := False\<rparr>))"

definition claim :: "context_state \<Rightarrow> context_state" where
  "claim st = st\<lparr>queued := False, saturated := False\<rparr>"

definition mark_saturated :: "context_state \<Rightarrow> context_state result" where
  "mark_saturated st = (if todo st \<noteq> [] then Inl RuntimeError else Inr (st\<lparr>saturated := True\<rparr>))"

record frozen_context =
  fz_root :: nat
  fz_initialized :: bool
  fz_saturated :: bool
  fz_inconsistent :: bool
  fz_composed_subsumers :: "nat list"
  fz_decomposed_subsumers :: "nat list"
  fz_forward_links :: "(nat \<times> nat list) list"
  fz_backward_links :: "(nat \<times> nat list) list"
  fz_propagations :: "(nat \<times> nat list) list"
  fz_disjoint_positions :: "(nat \<times> nat list) list"
  fz_initialized_subcontexts :: "nat list"
  fz_conclusions :: "conclusion list"
  fz_todo :: "conclusion list"
  fz_queued :: bool

definition freeze_multimap :: "(nat, nat set) dict \<Rightarrow> (nat \<times> nat list) list" where
  "freeze_multimap d = map (\<lambda>(k, members). (k, sorted_list_of_set members)) (sort_key fst d)"

definition freeze :: "context_state \<Rightarrow> frozen_context" where
  "freeze st = \<lparr>fz_root = ctx_root st, fz_initialized = initialized st,
     fz_saturated = saturated st, fz_inconsistent = inconsistent st,
     fz_composed_subsumers = sorted_list_of_set (composed_subsumers st),
     fz_decomposed_subsumers = sorted_list_of_set (decomposed_subsumers st),
     fz_forward_links = freeze_multimap (forward_links st),
     fz_backward_links = freeze_multimap (backward_links st),
     fz_propagations = freeze_multimap (propagations st),
     fz_disjoint_positions = freeze_multimap (disjoint_positions st),
     fz_initialized_subcontexts = sorted_list_of_set (initialized_subcontexts st),
     fz_conclusions = sorted_conclusions st,
     fz_todo = sort_key conclusion_key (todo st),
     fz_queued = queued st\<rparr>"


section \<open>The invariant\<close>

definition stored :: "context_state \<Rightarrow> conclusion set" where
  "stored st = snd ` set (conclusions_by_key st)"

definition pending :: "context_state \<Rightarrow> conclusion set" where
  "pending st = set (todo st)"

definition known :: "context_state \<Rightarrow> conclusion set" where
  "known st = stored st \<union> pending st"

text \<open>The key tables hold each conclusion once, under its own key, in its own context.\<close>

definition keys_inv :: "context_state \<Rightarrow> bool" where
  "keys_inv st \<longleftrightarrow>
     distinct (map fst (conclusions_by_key st)) \<and>
     (\<forall>x \<in> set (conclusions_by_key st). fst x = conclusion_key (snd x) \<and>
        conclusion_destination (snd x) = ctx_root st) \<and>
     distinct (todo st) \<and> (\<forall>c \<in> set (todo st). conclusion_destination c = ctx_root st) \<and>
     pending_keys st = conclusion_key ` set (todo st) \<and>
     set (todo st) \<inter> stored st = {}"

text \<open>Every family index is exactly the view of the stored conclusions of that family.\<close>

definition views_inv :: "context_state \<Rightarrow> bool" where
  "views_inv st \<longleftrightarrow> (let S = stored st; r = ctx_root st in
     (initialized st \<longleftrightarrow> ContextInitialization r \<in> S) \<and>
     (inconsistent st \<longleftrightarrow> ClassInconsistency r \<in> S) \<and>
     composed_subsumers st = {s. SubClassInclusionComposed r s \<in> S} \<and>
     decomposed_subsumers st = {s. SubClassInclusionDecomposed r s \<in> S} \<and>
     initialized_subcontexts st = {p. SubContextInitialization r p \<in> S} \<and>
     multimap_rel (forward_links st) = {(c, t). ForwardLink r c t \<in> S} \<and>
     multimap_rel (backward_links st) = {(p, s). BackwardLink r p s \<in> S} \<and>
     multimap_rel (propagations st) = {(p, e). Propagation r p e \<in> S} \<and>
     multimap_rel (disjoint_positions st) = {(g, p). DisjointSubsumer r g p \<in> S})"

text \<open>The multimaps have one entry per key, and no entry is empty.\<close>

definition maps_inv :: "context_state \<Rightarrow> bool" where
  "maps_inv st \<longleftrightarrow> no_empty_values (forward_links st) \<and> no_empty_values (backward_links st) \<and>
     no_empty_values (propagations st) \<and> no_empty_values (disjoint_positions st) \<and>
     finite (composed_subsumers st) \<and> finite (decomposed_subsumers st) \<and>
     finite (initialized_subcontexts st)"

definition context_inv :: "context_state \<Rightarrow> bool" where
  "context_inv st \<longleftrightarrow> keys_inv st \<and> views_inv st \<and> maps_inv st"

lemmas context_inv_defs = context_inv_def keys_inv_def views_inv_def maps_inv_def

lemma stored_iff_key:
  assumes inv: "keys_inv st"
  shows "c \<in> stored st \<longleftrightarrow> dict_contains (conclusions_by_key st) (conclusion_key c)"
proof
  have pair: "k = conclusion_key d" if "(k, d) \<in> set (conclusions_by_key st)" for k d
    using inv that by (force simp: keys_inv_def)
  { assume "c \<in> stored st"
    then obtain k where "(k, c) \<in> set (conclusions_by_key st)" by (auto simp: stored_def)
    with pair have "(conclusion_key c, c) \<in> set (conclusions_by_key st)" by metis
    then show "dict_contains (conclusions_by_key st) (conclusion_key c)"
      by (force simp: dict_contains_iff dict_keys_def) }
  { assume "dict_contains (conclusions_by_key st) (conclusion_key c)"
    then obtain d where d: "(conclusion_key c, d) \<in> set (conclusions_by_key st)"
      by (auto simp: dict_contains_iff dict_keys_def)
    from pair [OF d] have "d = c" by simp
    with d show "c \<in> stored st" by (force simp: stored_def) }
qed

lemma pending_iff_key: "keys_inv st \<Longrightarrow> c \<in> pending st \<longleftrightarrow> conclusion_key c \<in> pending_keys st"
  by (auto simp: keys_inv_def pending_def)

lemma keys_inv_destination: "keys_inv st \<Longrightarrow> c \<in> known st \<Longrightarrow> conclusion_destination c = ctx_root st"
  by (auto simp: keys_inv_def known_def stored_def pending_def)

lemma finite_stored [simp]: "finite (stored st)"
  by (simp add: stored_def)

lemma finite_known [simp]: "finite (known st)"
  by (simp add: known_def pending_def)

lemma known_new_context [simp]: "stored (new_context r) = {}" "pending (new_context r) = {}"
  by (simp_all add: stored_def pending_def new_context_def)

lemma context_inv_new_context [simp]: "context_inv (new_context r)"
  by (simp add: context_inv_defs stored_def new_context_def)

lemma ctx_root_new_context [simp]: "ctx_root (new_context r) = r"
  by (simp add: new_context_def)

text \<open>Flags are outside the invariant.\<close>

lemma context_inv_flags [simp]:
  "context_inv (st\<lparr>queued := b\<rparr>) = context_inv st"
  "context_inv (st\<lparr>saturated := b\<rparr>) = context_inv st"
  by (simp_all add: context_inv_defs stored_def)

lemma stored_flags [simp]:
  "stored (st\<lparr>queued := b\<rparr>) = stored st" "stored (st\<lparr>saturated := b\<rparr>) = stored st"
  "pending (st\<lparr>queued := b\<rparr>) = pending st" "pending (st\<lparr>saturated := b\<rparr>) = pending st"
  "known (st\<lparr>queued := b\<rparr>) = known st" "known (st\<lparr>saturated := b\<rparr>) = known st"
  by (simp_all add: stored_def pending_def known_def)

section \<open>The operations keep it\<close>

lemma enqueue_alien:
  "conclusion_destination c \<noteq> ctx_root st \<Longrightarrow> enqueue st c = Inl ValueError"
  by (simp add: enqueue_def check_destination_def rassert_def)

lemma enqueue_known:
  assumes "context_inv st" and "c \<in> known st"
  shows "enqueue st c = Inr (False, st)"
proof -
  from assms have "conclusion_destination c = ctx_root st"
    by (auto simp: context_inv_def intro: keys_inv_destination)
  with assms show ?thesis
    by (auto simp: enqueue_def check_destination_def context_inv_def known_def
        stored_iff_key pending_iff_key)
qed

lemma enqueue_novel:
  assumes "context_inv st" and "conclusion_destination c = ctx_root st" and "c \<notin> known st"
  obtains st' where "enqueue st c = Inr (True, st')" and "context_inv st'"
    and "stored st' = stored st" and "pending st' = insert c (pending st)"
    and "todo st' = todo st @ [c]" and "ctx_root st' = ctx_root st" and "queued st' = queued st"
proof
  let ?st = "st\<lparr>todo := todo st @ [c], pending_keys := insert (conclusion_key c) (pending_keys st),
      saturated := False\<rparr>"
  show "enqueue st c = Inr (True, ?st)"
    using assms by (auto simp: enqueue_def check_destination_def context_inv_def known_def
        stored_iff_key [symmetric] pending_iff_key [symmetric])
  show "stored ?st = stored st" by (simp add: stored_def)
  show "pending ?st = insert c (pending st)" by (simp add: pending_def)
  show "todo ?st = todo st @ [c]" "ctx_root ?st = ctx_root st" "queued ?st = queued st" by simp_all
  show "context_inv ?st"
    using assms by (auto simp: context_inv_defs known_def pending_def stored_def Let_def)
qed

lemma pop_todo_Nil: "pending st = {} \<Longrightarrow> pop_todo st = (None, st)"
  by (simp add: pop_todo_def pending_def)

lemma pop_todo_Cons:
  assumes "context_inv st" and "todo st = c # rest"
  obtains st' where "pop_todo st = (Some c, st')" and "context_inv st'"
    and "stored st' = stored st" and "todo st' = rest" and "pending st' = pending st - {c}"
    and "c \<notin> stored st" and "ctx_root st' = ctx_root st" and "queued st' = queued st"
proof
  let ?st = "st\<lparr>todo := rest, pending_keys := pending_keys st - {conclusion_key c}\<rparr>"
  have c: "c \<notin> set rest" using assms by (simp add: context_inv_defs)
  show "pop_todo st = (Some c, ?st)" using assms by (simp add: pop_todo_def)
  show "stored ?st = stored st" by (simp add: stored_def)
  show "todo ?st = rest" "ctx_root ?st = ctx_root st" "queued ?st = queued st" by simp_all
  show "pending ?st = pending st - {c}" using assms(2) c by (auto simp: pending_def)
  show "c \<notin> stored st" using assms by (auto simp: context_inv_defs)
  have "conclusion_key ` set (c # rest) - {conclusion_key c} = conclusion_key ` set rest"
    using c by auto
  then show "context_inv ?st"
    using assms by (auto simp: context_inv_defs stored_def Let_def)
qed

lemma stored_dict_put:
  assumes "keys_inv st" and "c \<notin> stored st"
  shows "snd ` set (dict_put (conclusion_key c) c (conclusions_by_key st)) = insert c (stored st)"
    and "distinct (map fst (dict_put (conclusion_key c) c (conclusions_by_key st)))"
    and "set (dict_put (conclusion_key c) c (conclusions_by_key st)) =
      insert (conclusion_key c, c) (set (conclusions_by_key st))"
proof -
  have "conclusion_key c \<notin> dict_keys (conclusions_by_key st)"
    using assms by (simp add: stored_iff_key dict_contains_iff)
  then show "snd ` set (dict_put (conclusion_key c) c (conclusions_by_key st)) = insert c (stored st)"
    and "set (dict_put (conclusion_key c) c (conclusions_by_key st)) =
      insert (conclusion_key c, c) (set (conclusions_by_key st))"
    by (simp_all add: dict_put_fresh stored_def)
  show "distinct (map fst (dict_put (conclusion_key c) c (conclusions_by_key st)))"
    using assms(1) by (simp add: keys_inv_def distinct_update)
qed

lemma index_conclusion_frame [simp]:
  "ctx_root (index_conclusion c st) = ctx_root st"
  "todo (index_conclusion c st) = todo st"
  "queued (index_conclusion c st) = queued st"
  "conclusions_by_key (index_conclusion c st) = conclusions_by_key st"
  "pending_keys (index_conclusion c st) = pending_keys st"
  "saturated (index_conclusion c st) = saturated st"
  by (cases c; simp)+

lemma index_conclusion_maps: "maps_inv st \<Longrightarrow> maps_inv (index_conclusion c st)"
  by (cases c) (simp_all add: maps_inv_def)

lemma index_conclusion_views:
  assumes "views_inv st" and "conclusion_destination c = ctx_root st"
    and "conclusions_by_key st' = dict_put (conclusion_key c) c (conclusions_by_key st)"
    and "stored st' = insert c (stored st)"
    and "st' = st\<lparr>pending_keys := K, conclusions_by_key := T\<rparr>"
  shows "views_inv (index_conclusion c st')"
proof -
  have S: "stored (index_conclusion c st') = insert c (stored st)"
    using assms(4) by (simp add: stored_def)
  show ?thesis
    using assms(1,2) unfolding views_inv_def S Let_def
    by (cases c) (auto simp: assms(5))
qed

lemma insert_conclusion_novel:
  assumes inv: "context_inv st" and dest: "conclusion_destination c = ctx_root st"
    and new: "c \<notin> stored st" and popped: "c \<notin> pending st"
  obtains st' where "insert_conclusion st c = Inr (True, st')" and "context_inv st'"
    and "stored st' = insert c (stored st)" and "todo st' = todo st"
    and "ctx_root st' = ctx_root st" and "queued st' = queued st"
proof
  let ?T = "dict_put (conclusion_key c) c (conclusions_by_key st)"
  let ?K = "pending_keys st - {conclusion_key c}"
  let ?mid = "st\<lparr>pending_keys := ?K, conclusions_by_key := ?T\<rparr>"
  let ?st = "index_conclusion c ?mid"
  have k: "keys_inv st" "views_inv st" "maps_inv st" using inv by (simp_all add: context_inv_def)
  have "\<not> dict_contains (conclusions_by_key st) (conclusion_key c)"
    using stored_iff_key [OF k(1)] new by simp
  then show "insert_conclusion st c = Inr (True, ?st)"
    using dest by (simp add: insert_conclusion_def check_destination_def Let_def)
  show st: "stored ?st = insert c (stored st)"
    using stored_dict_put(1) [OF k(1) new] by (simp add: stored_def)
  have "conclusion_key c \<notin> pending_keys st"
    using popped by (simp add: pending_iff_key [OF k(1)])
  then have "keys_inv ?st"
    using k(1) dest stored_dict_put(2,3) [OF k(1) new] popped st
    by (auto simp: keys_inv_def pending_def)
  moreover have "views_inv ?st"
    by (rule index_conclusion_views [OF k(2) dest, where T = ?T and K = ?K])
      (use stored_dict_put(1) [OF k(1) new] in \<open>simp_all add: stored_def\<close>)
  moreover have "maps_inv ?st" using k(3) by (intro index_conclusion_maps) (simp add: maps_inv_def)
  ultimately show "context_inv ?st" by (simp add: context_inv_def)
qed simp_all

lemma insert_conclusion_stored:
  assumes "context_inv st" and "c \<in> stored st"
  shows "insert_conclusion st c = Inr (False, st)"
proof -
  have k: "keys_inv st" using assms by (simp add: context_inv_def)
  then have "conclusion_destination c = ctx_root st"
    using assms(2) by (auto intro: keys_inv_destination simp: known_def)
  moreover have "conclusion_key c \<notin> pending_keys st"
    using k assms(2) by (auto simp: keys_inv_def)
  moreover have "dict_contains (conclusions_by_key st) (conclusion_key c)"
    using assms by (simp add: context_inv_def stored_iff_key)
  ultimately show ?thesis
    by (simp add: insert_conclusion_def check_destination_def Let_def)
qed

lemma contains_iff:
  assumes "context_inv st" and "conclusion_destination c = ctx_root st"
  shows "contains st c = Inr (c \<in> stored st)"
  using assms by (simp add: contains_def check_destination_def context_inv_def stored_iff_key)


section \<open>The contract the scheduler relies on\<close>

text \<open>
  A duplicate-suppressing agenda: items it owns become known once, wait, and are moved from the
  waiting to the stored side by a pop followed by an insert.  The label is what else the scheduler
  reads; the three operations leave it alone.
\<close>

locale agenda =
  fixes inv :: "'s \<Rightarrow> bool"
    and owns :: "'s \<Rightarrow> 'c \<Rightarrow> bool"
    and kept :: "'s \<Rightarrow> 'c set"
    and waiting :: "'s \<Rightarrow> 'c set"
    and label :: "'s \<Rightarrow> 'l"
    and enq :: "'s \<Rightarrow> 'c \<Rightarrow> (bool \<times> 's) result"
    and pop :: "'s \<Rightarrow> 'c option \<times> 's"
    and ins :: "'s \<Rightarrow> 'c \<Rightarrow> (bool \<times> 's) result"
  assumes enq_known: "inv s \<Longrightarrow> c \<in> kept s \<union> waiting s \<Longrightarrow> enq s c = Inr (False, s)"
    and enq_novel: "inv s \<Longrightarrow> owns s c \<Longrightarrow> c \<notin> kept s \<union> waiting s \<Longrightarrow>
      \<exists>s'. enq s c = Inr (True, s') \<and> inv s' \<and> label s' = label s \<and>
        kept s' = kept s \<and> waiting s' = insert c (waiting s)"
    and pop_empty: "waiting s = {} \<Longrightarrow> pop s = (None, s)"
    and pop_some: "inv s \<Longrightarrow> waiting s \<noteq> {} \<Longrightarrow>
      \<exists>c s'. pop s = (Some c, s') \<and> inv s' \<and> label s' = label s \<and> c \<in> waiting s \<and> owns s c \<and>
        c \<notin> kept s \<and> kept s' = kept s \<and> waiting s' = waiting s - {c}"
    and ins_novel: "inv s \<Longrightarrow> owns s c \<Longrightarrow> c \<notin> kept s \<union> waiting s \<Longrightarrow>
      \<exists>s'. ins s c = Inr (True, s') \<and> inv s' \<and> label s' = label s \<and>
        kept s' = insert c (kept s) \<and> waiting s' = waiting s"
    and owns_label: "label s' = label s \<Longrightarrow> owns s' c = owns s c"
begin

lemma enq_total:
  assumes "inv s" and "owns s c"
  obtains b s' where "enq s c = Inr (b, s')" and "inv s'" and "label s' = label s"
    and "kept s' = kept s" and "waiting s' = (if b then insert c (waiting s) else waiting s)"
    and "b \<longleftrightarrow> c \<notin> kept s \<union> waiting s" and "\<not> b \<longrightarrow> s' = s"
proof (cases "c \<in> kept s \<union> waiting s")
  case True
  with that [of False s] enq_known [OF assms(1) True] assms(1) show ?thesis by simp
next
  case False
  from enq_novel [OF assms False] obtain s' where "enq s c = Inr (True, s')" "inv s'"
    "label s' = label s" "kept s' = kept s" "waiting s' = insert c (waiting s)" by blast
  with that [of True s'] False show ?thesis by simp
qed

text \<open>Enqueuing a second time is refused and changes nothing.\<close>

lemma enq_twice:
  assumes "inv s" and "owns s c" and "enq s c = Inr (b, s')"
  shows "enq s' c = Inr (False, s')"
proof -
  obtain b1 s1 where e: "enq s c = Inr (b1, s1)" "inv s1" "label s1 = label s" "kept s1 = kept s"
    "waiting s1 = (if b1 then insert c (waiting s) else waiting s)" "b1 \<longleftrightarrow> c \<notin> kept s \<union> waiting s"
    "\<not> b1 \<longrightarrow> s1 = s"
    by (rule enq_total [OF assms(1,2)])
  have "c \<in> kept s1 \<union> waiting s1"
    unfolding e(4,5) using e(6) by (cases b1) simp_all
  with e(2) have "enq s1 c = Inr (False, s1)" by (rule enq_known)
  moreover from e(1) assms(3) have "s1 = s'" by simp
  ultimately show ?thesis by simp
qed

text \<open>One turn of the scheduler: what is known stays, one item moves to the stored side.\<close>

lemma pop_ins:
  assumes "inv s" and "waiting s \<noteq> {}"
  obtains c s' s'' where "pop s = (Some c, s')" and "ins s' c = Inr (True, s'')" and "inv s''"
    and "label s'' = label s" and "owns s c" and "c \<in> waiting s" and "c \<notin> kept s"
    and "kept s'' = insert c (kept s)" and "waiting s'' = waiting s - {c}"
    and "kept s'' \<union> waiting s'' = kept s \<union> waiting s"
proof -
  from pop_some [OF assms] obtain c s' where p: "pop s = (Some c, s')" "inv s'" "label s' = label s"
    "c \<in> waiting s" "owns s c" "c \<notin> kept s" "kept s' = kept s" "waiting s' = waiting s - {c}"
    by blast
  then have "owns s' c" "c \<notin> kept s' \<union> waiting s'" by (simp_all add: owns_label [OF p(3)])
  from ins_novel [OF p(2) this] p obtain s'' where "ins s' c = Inr (True, s'')" "inv s''"
    "label s'' = label s" "kept s'' = insert c (kept s)" "waiting s'' = waiting s - {c}" by auto
  with p show ?thesis by (intro that [of c s' s'']) auto
qed

end

definition owns_conclusion :: "context_state \<Rightarrow> conclusion \<Rightarrow> bool" where
  "owns_conclusion st c \<longleftrightarrow> conclusion_destination c = ctx_root st"

definition context_label :: "context_state \<Rightarrow> nat \<times> bool" where
  "context_label st = (ctx_root st, queued st)"

interpretation ctx: agenda context_inv owns_conclusion stored pending context_label enqueue pop_todo insert_conclusion
proof
  fix s :: context_state and c
  show "context_inv s \<Longrightarrow> c \<in> stored s \<union> pending s \<Longrightarrow> enqueue s c = Inr (False, s)"
    by (rule enqueue_known) (simp_all add: known_def)
  show "\<exists>s'. enqueue s c = Inr (True, s') \<and> context_inv s' \<and> context_label s' = context_label s \<and>
      stored s' = stored s \<and> pending s' = insert c (pending s)"
    if hyp: "context_inv s" "owns_conclusion s c" "c \<notin> stored s \<union> pending s"
  proof -
    have dest: "conclusion_destination c = ctx_root s" and new: "c \<notin> known s"
      using hyp by (simp_all add: owns_conclusion_def known_def)
    obtain st' where "enqueue s c = Inr (True, st')" "context_inv st'" "stored st' = stored s"
      "pending st' = insert c (pending s)" "todo st' = todo s @ [c]" "ctx_root st' = ctx_root s"
      "queued st' = queued s"
      by (rule enqueue_novel [OF hyp(1) dest new])
    then show ?thesis by (auto simp: context_label_def)
  qed
  show "pending s = {} \<Longrightarrow> pop_todo s = (None, s)" by (rule pop_todo_Nil)
  show "\<exists>c s'. pop_todo s = (Some c, s') \<and> context_inv s' \<and> context_label s' = context_label s \<and>
      c \<in> pending s \<and> owns_conclusion s c \<and> c \<notin> stored s \<and> stored s' = stored s \<and>
      pending s' = pending s - {c}" if hyp: "context_inv s" "pending s \<noteq> {}"
  proof -
    from hyp(2) obtain c rest where todo: "todo s = c # rest" by (auto simp: pending_def neq_Nil_conv)
    obtain st' where st': "pop_todo s = (Some c, st')" "context_inv st'" "stored st' = stored s"
      "pending st' = pending s - {c}" "c \<notin> stored s" "ctx_root st' = ctx_root s" "queued st' = queued s"
      using pop_todo_Cons [OF hyp(1) todo] by metis
    have "owns_conclusion s c" "c \<in> pending s"
      using hyp(1) todo by (auto simp: context_inv_defs owns_conclusion_def pending_def)
    with st' show ?thesis by (auto simp: context_label_def)
  qed
  show "\<exists>s'. insert_conclusion s c = Inr (True, s') \<and> context_inv s' \<and>
      context_label s' = context_label s \<and> stored s' = insert c (stored s) \<and> pending s' = pending s"
    if hyp: "context_inv s" "owns_conclusion s c" "c \<notin> stored s \<union> pending s"
  proof -
    have dest: "conclusion_destination c = ctx_root s" and new: "c \<notin> stored s" "c \<notin> pending s"
      using hyp by (simp_all add: owns_conclusion_def)
    obtain st' where "insert_conclusion s c = Inr (True, st')" "context_inv st'"
      "stored st' = insert c (stored s)" "todo st' = todo s" "ctx_root st' = ctx_root s"
      "queued st' = queued s"
      by (rule insert_conclusion_novel [OF hyp(1) dest new])
    then show ?thesis by (auto simp: context_label_def pending_def)
  qed
qed (simp add: owns_conclusion_def context_label_def)

section \<open>The frozen view is canonical\<close>

lemma freeze_multimap_canonical:
  assumes "no_empty_values d" and "no_empty_values d'" and "multimap_rel d = multimap_rel d'"
  shows "freeze_multimap d = freeze_multimap d'"
proof -
  have "set d = set d'"
    using no_empty_values_set [OF assms(1)] no_empty_values_set [OF assms(2)] assms(3) by simp
  then have "sort_key fst d = sort_key fst d'"
    using assms by (intro sort_key_canonical) (simp_all add: no_empty_values_def)
  then show ?thesis by (simp add: freeze_multimap_def)
qed

lemma sorted_conclusions_canonical:
  assumes "keys_inv s" and "keys_inv t" and "stored s = stored t"
  shows "sorted_conclusions s = sorted_conclusions t"
proof -
  have "set (conclusions_by_key u) = (\<lambda>c. (conclusion_key c, c)) ` stored u" if "keys_inv u" for u
  proof (intro equalityI subsetI)
    fix x assume x: "x \<in> set (conclusions_by_key u)"
    with that have "fst x = conclusion_key (snd x)" by (auto simp: keys_inv_def)
    moreover from x have "snd x \<in> stored u" by (simp add: stored_def)
    ultimately show "x \<in> (\<lambda>c. (conclusion_key c, c)) ` stored u"
      by (intro image_eqI [of _ _ "snd x"]) (simp_all add: prod_eq_iff)
  next
    fix x assume "x \<in> (\<lambda>c. (conclusion_key c, c)) ` stored u"
    then obtain y where "y \<in> set (conclusions_by_key u)" "x = (conclusion_key (snd y), snd y)"
      by (auto simp: stored_def)
    moreover from this that have "fst y = conclusion_key (snd y)" by (auto simp: keys_inv_def)
    ultimately show "x \<in> set (conclusions_by_key u)" by (metis prod.collapse)
  qed
  with assms have "set (conclusions_by_key s) = set (conclusions_by_key t)" by simp
  moreover have "distinct (map fst (conclusions_by_key u))" if "keys_inv u" for u
    using that by (simp add: keys_inv_def)
  ultimately have "sort_key fst (conclusions_by_key s) = sort_key fst (conclusions_by_key t)"
    using assms(1,2) by (intro sort_key_canonical)
  then show ?thesis by (simp add: sorted_conclusions_def)
qed

lemma freeze_canonical:
  assumes "context_inv s" and "context_inv t" and "ctx_root s = ctx_root t"
    and "stored s = stored t" and "pending s = pending t"
    and "saturated s = saturated t" and "queued s = queued t"
  shows "freeze s = freeze t"
proof -
  have k: "keys_inv s" "keys_inv t" and v: "views_inv s" "views_inv t" and m: "maps_inv s" "maps_inv t"
    using assms(1,2) by (simp_all add: context_inv_def)
  have todo: "sort_key conclusion_key (todo s) = sort_key conclusion_key (todo t)"
  proof (rule sort_key_canonical)
    have "distinct (map conclusion_key (todo u))" if "keys_inv u" for u
      using that inj_on_subset [OF inj_conclusion_key subset_UNIV]
      by (simp add: distinct_map keys_inv_def)
    with k show "distinct (map conclusion_key (todo s))" "distinct (map conclusion_key (todo t))"
      by simp_all
    show "set (todo s) = set (todo t)" using assms(5) by (simp add: pending_def)
  qed
  have same: "initialized s = initialized t" "inconsistent s = inconsistent t"
    "composed_subsumers s = composed_subsumers t" "decomposed_subsumers s = decomposed_subsumers t"
    "initialized_subcontexts s = initialized_subcontexts t"
    using v assms(3,4) by (simp_all add: views_inv_def Let_def)
  have rels: "freeze_multimap (forward_links s) = freeze_multimap (forward_links t)"
    "freeze_multimap (backward_links s) = freeze_multimap (backward_links t)"
    "freeze_multimap (propagations s) = freeze_multimap (propagations t)"
    "freeze_multimap (disjoint_positions s) = freeze_multimap (disjoint_positions t)"
    by (rule freeze_multimap_canonical; use v m assms(3,4) in \<open>simp add: maps_inv_def views_inv_def Let_def\<close>)+
  show ?thesis
    unfolding freeze_def
    by (simp add: assms(3,6,7) todo same rels sorted_conclusions_canonical [OF k assms(4)])
qed

end
