(* ===== verification/Rules.thy ===== *)
theory Rules
  imports Contexts Property_View
begin

text \<open>
  The inference catalogue of \<open>src/pyelk/reasoning/rules.py\<close>: each function checks its structural
  premises and produces one conclusion, nothing, or an exception (a premise of the wrong class is a
  \<open>TypeError\<close>, an identifier outside the u32 namespace a \<open>ValueError\<close>).
\<close>

section \<open>Premises and products\<close>

definition typed_premise :: "nat \<Rightarrow> conclusion option \<Rightarrow> conclusion option result" where
  "typed_premise expected value = (case value of
     None \<Rightarrow> Inr None
   | Some c \<Rightarrow> if conclusion_kind c = expected then Inr (Some c) else Inl PyTypeError)"

definition checked_position :: "nat \<Rightarrow> unit result" where
  "checked_position position = rassert (position < U32_RESERVED) ValueError"

text \<open>Calling a conclusion's constructor.\<close>

definition conclude :: "conclusion \<Rightarrow> conclusion option result" where
  "conclude c = rmap Some (post_init c)"

section \<open>The catalogue\<close>

definition context_initialization_no_premises :: "nat \<Rightarrow> conclusion result" where
  "context_initialization_no_premises root = post_init (ContextInitialization root)"

definition subcontext_initialization_no_premises :: "nat \<Rightarrow> nat \<Rightarrow> conclusion result" where
  "subcontext_initialization_no_premises destination relation =
     post_init (SubContextInitialization destination relation)"

definition subclass_inclusion_tautology ::
    "conclusion option \<Rightarrow> conclusion option result" where
  "subclass_inclusion_tautology premise =
     rbind (typed_premise CONTEXT_INITIALIZATION premise) (\<lambda>p. case p of
       Some (ContextInitialization r) \<Rightarrow> conclude (SubClassInclusionDecomposed r r)
     | _ \<Rightarrow> Inr None)"

definition subclass_inclusion_owl_thing ::
    "conclusion option \<Rightarrow> nat \<Rightarrow> conclusion option result" where
  "subclass_inclusion_owl_thing premise thing =
     rbind (typed_premise CONTEXT_INITIALIZATION premise) (\<lambda>p. case p of
       Some (ContextInitialization r) \<Rightarrow> conclude (SubClassInclusionComposed r thing)
     | _ \<Rightarrow> Inr None)"

definition subclass_inclusion_expanded_subclass_of ::
    "conclusion option \<Rightarrow> nat \<Rightarrow> nat \<Rightarrow> conclusion option result" where
  "subclass_inclusion_expanded_subclass_of premise sub_expression super_expression =
     rbind (typed_premise SUBCLASS_INCLUSION_COMPOSED premise) (\<lambda>p. case p of
       Some (SubClassInclusionComposed d s) \<Rightarrow> if s = sub_expression then conclude (SubClassInclusionDecomposed d super_expression) else Inr None
     | _ \<Rightarrow> Inr None)"

definition subclass_inclusion_expanded_definition ::
    "conclusion option \<Rightarrow> nat \<Rightarrow> nat \<Rightarrow> conclusion option result" where
  "subclass_inclusion_expanded_definition premise defined_class class_definition =
     rbind (typed_premise SUBCLASS_INCLUSION_DECOMPOSED premise) (\<lambda>p. case p of
       Some (SubClassInclusionDecomposed d s) \<Rightarrow> if s = defined_class then conclude (SubClassInclusionDecomposed d class_definition) else Inr None
     | _ \<Rightarrow> Inr None)"

definition subclass_inclusion_expanded_first_equivalent_class ::
    "conclusion option \<Rightarrow> nat \<Rightarrow> nat \<Rightarrow> conclusion option result" where
  "subclass_inclusion_expanded_first_equivalent_class premise first second =
     rbind (typed_premise SUBCLASS_INCLUSION_COMPOSED premise) (\<lambda>p. case p of
       Some (SubClassInclusionComposed d s) \<Rightarrow> if s = second then conclude (SubClassInclusionDecomposed d first) else Inr None
     | _ \<Rightarrow> Inr None)"

definition subclass_inclusion_expanded_second_equivalent_class ::
    "conclusion option \<Rightarrow> nat \<Rightarrow> nat \<Rightarrow> conclusion option result" where
  "subclass_inclusion_expanded_second_equivalent_class premise first second =
     rbind (typed_premise SUBCLASS_INCLUSION_COMPOSED premise) (\<lambda>p. case p of
       Some (SubClassInclusionComposed d s) \<Rightarrow> if s = first then conclude (SubClassInclusionDecomposed d second) else Inr None
     | _ \<Rightarrow> Inr None)"

definition subclass_inclusion_composed_defined_class ::
    "conclusion option \<Rightarrow> nat \<Rightarrow> nat \<Rightarrow> conclusion option result" where
  "subclass_inclusion_composed_defined_class premise class_definition defined_class =
     rbind (typed_premise SUBCLASS_INCLUSION_COMPOSED premise) (\<lambda>p. case p of
       Some (SubClassInclusionComposed d s) \<Rightarrow> if s = class_definition then conclude (SubClassInclusionComposed d defined_class) else Inr None
     | _ \<Rightarrow> Inr None)"

definition subclass_inclusion_composed_of_decomposed ::
    "conclusion option \<Rightarrow> conclusion option result" where
  "subclass_inclusion_composed_of_decomposed premise =
     rbind (typed_premise SUBCLASS_INCLUSION_DECOMPOSED premise) (\<lambda>p. case p of
       Some (SubClassInclusionDecomposed d s) \<Rightarrow> conclude (SubClassInclusionComposed d s)
     | _ \<Rightarrow> Inr None)"

definition subclass_inclusion_decomposed_first_conjunct ::
    "conclusion option \<Rightarrow> nat \<Rightarrow> nat \<Rightarrow> conclusion option result" where
  "subclass_inclusion_decomposed_first_conjunct premise conjunction first_conjunct =
     rbind (typed_premise SUBCLASS_INCLUSION_DECOMPOSED premise) (\<lambda>p. case p of
       Some (SubClassInclusionDecomposed d s) \<Rightarrow> if s = conjunction then conclude (SubClassInclusionDecomposed d first_conjunct) else Inr None
     | _ \<Rightarrow> Inr None)"

definition subclass_inclusion_decomposed_second_conjunct ::
    "conclusion option \<Rightarrow> nat \<Rightarrow> nat \<Rightarrow> conclusion option result" where
  "subclass_inclusion_decomposed_second_conjunct premise conjunction second_conjunct =
     rbind (typed_premise SUBCLASS_INCLUSION_DECOMPOSED premise) (\<lambda>p. case p of
       Some (SubClassInclusionDecomposed d s) \<Rightarrow> if s = conjunction then conclude (SubClassInclusionDecomposed d second_conjunct) else Inr None
     | _ \<Rightarrow> Inr None)"

definition subclass_inclusion_composed_object_union_of ::
    "conclusion option \<Rightarrow> nat \<Rightarrow> nat \<Rightarrow> nat \<Rightarrow> conclusion option result" where
  "subclass_inclusion_composed_object_union_of premise disjunct union_expression position =
     rbind (checked_position position) (\<lambda>_. rbind (typed_premise SUBCLASS_INCLUSION_COMPOSED premise) (\<lambda>p. case p of
       Some (SubClassInclusionComposed d s) \<Rightarrow> if s = disjunct then conclude (SubClassInclusionComposed d union_expression) else Inr None
     | _ \<Rightarrow> Inr None))"

definition forward_link_of_object_some_values_from ::
    "conclusion option \<Rightarrow> nat \<Rightarrow> nat \<Rightarrow> nat \<Rightarrow> conclusion option result" where
  "forward_link_of_object_some_values_from premise existential relation_chain target =
     rbind (typed_premise SUBCLASS_INCLUSION_DECOMPOSED premise) (\<lambda>p. case p of
       Some (SubClassInclusionDecomposed d s) \<Rightarrow> if s = existential then conclude (ForwardLink d relation_chain target) else Inr None
     | _ \<Rightarrow> Inr None)"

definition backward_link_of_object_some_values_from ::
    "conclusion option \<Rightarrow> nat \<Rightarrow> nat \<Rightarrow> nat \<Rightarrow> conclusion option result" where
  "backward_link_of_object_some_values_from premise existential relation target =
     rbind (typed_premise SUBCLASS_INCLUSION_DECOMPOSED premise) (\<lambda>p. case p of
       Some (SubClassInclusionDecomposed d s) \<Rightarrow> if s = existential then conclude (BackwardLink target relation d) else Inr None
     | _ \<Rightarrow> Inr None)"

definition forward_link_of_object_has_self ::
    "conclusion option \<Rightarrow> nat \<Rightarrow> nat \<Rightarrow> conclusion option result" where
  "forward_link_of_object_has_self premise has_self relation_chain =
     rbind (typed_premise SUBCLASS_INCLUSION_DECOMPOSED premise) (\<lambda>p. case p of
       Some (SubClassInclusionDecomposed d s) \<Rightarrow> if s = has_self then conclude (ForwardLink d relation_chain d) else Inr None
     | _ \<Rightarrow> Inr None)"

definition backward_link_of_object_has_self ::
    "conclusion option \<Rightarrow> nat \<Rightarrow> nat \<Rightarrow> conclusion option result" where
  "backward_link_of_object_has_self premise has_self relation =
     rbind (typed_premise SUBCLASS_INCLUSION_DECOMPOSED premise) (\<lambda>p. case p of
       Some (SubClassInclusionDecomposed d s) \<Rightarrow> if s = has_self then conclude (BackwardLink d relation d) else Inr None
     | _ \<Rightarrow> Inr None)"

definition disjoint_subsumer_from_subsumer ::
    "conclusion option \<Rightarrow> nat \<Rightarrow> nat \<Rightarrow> nat \<Rightarrow> conclusion option result" where
  "disjoint_subsumer_from_subsumer premise member_expression disjoint_group position =
     rbind (typed_premise SUBCLASS_INCLUSION_COMPOSED premise) (\<lambda>p. case p of
       Some (SubClassInclusionComposed d s) \<Rightarrow> if s = member_expression then conclude (DisjointSubsumer d disjoint_group position) else Inr None
     | _ \<Rightarrow> Inr None)"

definition class_inconsistency_of_owl_nothing ::
    "conclusion option \<Rightarrow> nat \<Rightarrow> conclusion option result" where
  "class_inconsistency_of_owl_nothing premise nothing =
     rbind (typed_premise SUBCLASS_INCLUSION_DECOMPOSED premise) (\<lambda>p. case p of
       Some (SubClassInclusionDecomposed d s) \<Rightarrow> if s = nothing then conclude (ClassInconsistency d) else Inr None
     | _ \<Rightarrow> Inr None)"

definition subclass_inclusion_composed_object_intersection_of ::
    "conclusion option \<Rightarrow> conclusion option \<Rightarrow> nat \<Rightarrow> nat \<Rightarrow> nat \<Rightarrow> conclusion option result" where
  "subclass_inclusion_composed_object_intersection_of first_premise second_premise first_conjunct second_conjunct conjunction =
     rbind (typed_premise SUBCLASS_INCLUSION_COMPOSED first_premise) (\<lambda>p.
     rbind (typed_premise SUBCLASS_INCLUSION_COMPOSED second_premise) (\<lambda>q.
     case (p, q) of
       (Some (SubClassInclusionComposed d s), Some (SubClassInclusionComposed d' s')) \<Rightarrow>
         if d = d' \<and> s = first_conjunct \<and> s' = second_conjunct then conclude (SubClassInclusionComposed d conjunction) else Inr None
     | _ \<Rightarrow> Inr None))"

definition subclass_inclusion_composed_object_some_values_from ::
    "conclusion option \<Rightarrow> conclusion option \<Rightarrow> conclusion option result" where
  "subclass_inclusion_composed_object_some_values_from first_premise second_premise =
     rbind (typed_premise BACKWARD_LINK first_premise) (\<lambda>p.
     rbind (typed_premise PROPAGATION second_premise) (\<lambda>q.
     case (p, q) of
       (Some (BackwardLink d r s), Some (Propagation d' r' e)) \<Rightarrow>
         if d = d' \<and> r = r' then conclude (SubClassInclusionComposed s e) else Inr None
     | _ \<Rightarrow> Inr None))"

definition class_inconsistency_of_disjoint_subsumers ::
    "conclusion option \<Rightarrow> conclusion option \<Rightarrow> conclusion option result" where
  "class_inconsistency_of_disjoint_subsumers first_premise second_premise =
     rbind (typed_premise DISJOINT_SUBSUMER first_premise) (\<lambda>p.
     rbind (typed_premise DISJOINT_SUBSUMER second_premise) (\<lambda>q.
     case (p, q) of
       (Some (DisjointSubsumer d g i), Some (DisjointSubsumer d' g' j)) \<Rightarrow>
         if d = d' \<and> g = g' \<and> i \<noteq> j then conclude (ClassInconsistency d) else Inr None
     | _ \<Rightarrow> Inr None))"

definition class_inconsistency_of_object_complement_of ::
    "conclusion option \<Rightarrow> conclusion option \<Rightarrow> nat \<Rightarrow> nat \<Rightarrow> conclusion option result" where
  "class_inconsistency_of_object_complement_of first_premise second_premise negated complement =
     rbind (typed_premise SUBCLASS_INCLUSION_COMPOSED first_premise) (\<lambda>p.
     rbind (typed_premise SUBCLASS_INCLUSION_DECOMPOSED second_premise) (\<lambda>q.
     case (p, q) of
       (Some (SubClassInclusionComposed d s), Some (SubClassInclusionDecomposed d' s')) \<Rightarrow>
         if d = d' \<and> s = negated \<and> s' = complement then conclude (ClassInconsistency d) else Inr None
     | _ \<Rightarrow> Inr None))"

definition class_inconsistency_propagated ::
    "conclusion option \<Rightarrow> conclusion option \<Rightarrow> conclusion option result" where
  "class_inconsistency_propagated first_premise second_premise =
     rbind (typed_premise BACKWARD_LINK first_premise) (\<lambda>p.
     rbind (typed_premise CLASS_INCONSISTENCY second_premise) (\<lambda>q.
     case (p, q) of
       (Some (BackwardLink d r s), Some (ClassInconsistency d')) \<Rightarrow>
         if d = d' then conclude (ClassInconsistency s) else Inr None
     | _ \<Rightarrow> Inr None))"

definition forward_link_composition ::
    "conclusion option \<Rightarrow> sub_property_chain option \<Rightarrow> conclusion option \<Rightarrow> sub_property_chain option \<Rightarrow>
     nat \<Rightarrow> nat \<Rightarrow> nat \<Rightarrow> nat \<Rightarrow> conclusion option result" where
  "forward_link_composition backward_premise left_premise forward_premise right_premise
      composition backward_chain first_chain suffix =
     rbind (typed_premise BACKWARD_LINK backward_premise) (\<lambda>b.
     rbind (typed_premise FORWARD_LINK forward_premise) (\<lambda>f.
     case (b, left_premise, f, right_premise) of
       (Some (BackwardLink d r s), Some left, Some (ForwardLink d' c t), Some right) \<Rightarrow>
         if d \<noteq> d' then Inr None
         else rbind (new_sub_property_chain backward_chain first_chain) (\<lambda>expected_left.
           if left \<noteq> expected_left then Inr None
           else rbind (new_sub_property_chain c suffix) (\<lambda>expected_right.
             if right \<noteq> expected_right then Inr None
             else conclude (ForwardLink s composition t)))
     | _ \<Rightarrow> Inr None))"

definition backward_link_composition ::
    "conclusion option \<Rightarrow> sub_property_chain option \<Rightarrow> conclusion option \<Rightarrow> sub_property_chain option \<Rightarrow>
     sub_property_chain option \<Rightarrow> nat \<Rightarrow> nat \<Rightarrow> nat \<Rightarrow> nat \<Rightarrow> nat \<Rightarrow> nat \<Rightarrow> conclusion option result" where
  "backward_link_composition backward_premise left_premise forward_premise right_premise super_premise
      composition super_property backward_chain first_chain suffix super_property_chain =
     rbind (forward_link_composition backward_premise left_premise forward_premise right_premise
       composition backward_chain first_chain suffix) (\<lambda>forward_result.
     case (forward_result, super_premise) of
       (Some (ForwardLink s c t), Some super) \<Rightarrow>
         rbind (new_sub_property_chain composition super_property_chain) (\<lambda>expected.
           if super \<noteq> expected then Inr None
           else conclude (BackwardLink t super_property s))
     | _ \<Rightarrow> Inr None)"

definition backward_link_reversed_expanded ::
    "conclusion option \<Rightarrow> sub_property_chain option \<Rightarrow> nat \<Rightarrow> nat \<Rightarrow> conclusion option result" where
  "backward_link_reversed_expanded forward_premise subproperty_premise super_property super_property_chain =
     rbind (typed_premise FORWARD_LINK forward_premise) (\<lambda>f.
     case (f, subproperty_premise) of
       (Some (ForwardLink d c t), Some sub) \<Rightarrow>
         rbind (new_sub_property_chain c super_property_chain) (\<lambda>expected.
           if sub \<noteq> expected then Inr None else conclude (BackwardLink t super_property d))
     | _ \<Rightarrow> Inr None)"

definition propagation_generated ::
    "conclusion option \<Rightarrow> conclusion option \<Rightarrow> sub_property_chain option \<Rightarrow>
     nat \<Rightarrow> nat \<Rightarrow> nat \<Rightarrow> nat \<Rightarrow> conclusion option result" where
  "propagation_generated initialization_premise filler_premise subproperty_premise
      filler carry_existential relation_chain carry_chain =
     rbind (typed_premise SUBCONTEXT_INITIALIZATION initialization_premise) (\<lambda>i.
     rbind (typed_premise SUBCLASS_INCLUSION_COMPOSED filler_premise) (\<lambda>f.
     case (i, f, subproperty_premise) of
       (Some (SubContextInitialization d r), Some (SubClassInclusionComposed d' s), Some sub) \<Rightarrow>
         if d \<noteq> d' \<or> s \<noteq> filler then Inr None
         else rbind (new_sub_property_chain relation_chain carry_chain) (\<lambda>expected.
           if sub \<noteq> expected then Inr None else conclude (Propagation d r carry_existential))
     | _ \<Rightarrow> Inr None))"

definition subclass_inclusion_range ::
    "conclusion option \<Rightarrow> property_range option \<Rightarrow> conclusion option result" where
  "subclass_inclusion_range initialization_premise range_premise =
     rbind (typed_premise CONTEXT_INITIALIZATION initialization_premise) (\<lambda>i.
     case (i, range_premise) of
       (Some (ContextInitialization r), Some rng) \<Rightarrow>
         conclude (SubClassInclusionDecomposed r (range_expression rng))
     | _ \<Rightarrow> Inr None)"

definition subclass_inclusion_object_has_self_property_range ::
    "conclusion option \<Rightarrow> property_range option \<Rightarrow> nat \<Rightarrow> nat \<Rightarrow> conclusion option result" where
  "subclass_inclusion_object_has_self_property_range has_self_premise range_premise has_self relation =
     rbind (typed_premise SUBCLASS_INCLUSION_DECOMPOSED has_self_premise) (\<lambda>p.
     case (p, range_premise) of
       (Some (SubClassInclusionDecomposed d s), Some rng) \<Rightarrow>
         if s = has_self \<and> range_property rng = relation
         then conclude (SubClassInclusionDecomposed d (range_expression rng)) else Inr None
     | _ \<Rightarrow> Inr None)"

end
