(* ===== verification/Dispatcher.thy ===== *)
theory Dispatcher
  imports Rules
begin

text \<open>
  \<open>RuleDispatcher\<close> of \<open>src/pyelk/reasoning/rules.py\<close>: the rule tables its constructor freezes and
  \<open>dispatch\<close>, which applies the rules triggered by one stored premise.  The products of a dispatch
  are the list its producer buffers; an exception discards them.  The compiled ontology has passed
  its own constructor, so indexing its tables by their own identifiers is total.
\<close>

section \<open>Linked rule tables\<close>

type_synonym 'v rule_index = "(nat, 'v list) dict"

definition append_index :: "(nat, 'v set) dict \<Rightarrow> nat \<Rightarrow> 'v \<Rightarrow> (nat, 'v set) dict" where
  "append_index index key row = multimap_add index key row"

definition freeze_index :: "(nat, 'v::linorder set) dict \<Rightarrow> 'v rule_index" where
  "freeze_index index = map (\<lambda>(key, rows). (key, sorted_list_of_set rows)) index"

text \<open>
  Every loop of the constructor appends to some dictionaries; each dictionary is built here from the
  (key, row) pairs the loop appends to it, in the order of the loop.
\<close>

definition build_index :: "(nat \<times> 'v::linorder) list \<Rightarrow> 'v rule_index" where
  "build_index pairs = freeze_index (fold (\<lambda>(key, row) index. append_index index key row) pairs [])"

definition index_rows :: "'v rule_index \<Rightarrow> nat \<Rightarrow> 'v list" where
  "index_rows index key = (case dict_get index key of None \<Rightarrow> [] | Some rows \<Rightarrow> rows)"

definition is_class_expression :: "compiled_ontology \<Rightarrow> nat \<Rightarrow> bool" where
  "is_class_expression co e \<longleftrightarrow> tag (expressions co ! e) = TAG_CLASS"

definition definition_pairs :: "compiled_ontology \<Rightarrow> (nat \<times> nat) list" where
  "definition_pairs co = filter (\<lambda>(first, second). is_class_expression co first) (equivalent_class_axioms co)"

definition equivalent_pairs :: "compiled_ontology \<Rightarrow> (nat \<times> nat) list" where
  "equivalent_pairs co = filter (\<lambda>(first, second). \<not> is_class_expression co first) (equivalent_class_axioms co)"

text \<open>The rows a per-expression loop appends: \<open>rows i record occurrence\<close> for each expression.\<close>

definition expression_pairs ::
    "compiled_ontology \<Rightarrow> (nat \<Rightarrow> expression_record \<Rightarrow> occurrence \<Rightarrow> 'a list) \<Rightarrow> 'a list" where
  "expression_pairs co rows =
     concat (map (\<lambda>(i, r). rows i r (expression_occurrences co ! i)) (enumerate 0 (expressions co)))"

definition intersection_first_rows :: "nat \<Rightarrow> expression_record \<Rightarrow> occurrence \<Rightarrow> (nat \<times> nat \<times> nat) list" where
  "intersection_first_rows i r occ =
     (if tag r = OBJECT_INTERSECTION_OF \<and> negative occ \<noteq> 0
      then [(arguments r ! 0, arguments r ! 1, i)] else [])"

definition intersection_second_rows :: "nat \<Rightarrow> expression_record \<Rightarrow> occurrence \<Rightarrow> (nat \<times> nat \<times> nat) list" where
  "intersection_second_rows i r occ =
     (if tag r = OBJECT_INTERSECTION_OF \<and> negative occ \<noteq> 0
      then [(arguments r ! 1, arguments r ! 0, i)] else [])"

definition union_rows :: "nat \<Rightarrow> expression_record \<Rightarrow> occurrence \<Rightarrow> (nat \<times> nat \<times> nat) list" where
  "union_rows i r occ =
     (if tag r = OBJECT_UNION_OF \<and> negative occ \<noteq> 0
      then map (\<lambda>(position, a). (a, i, position)) (enumerate 0 (arguments r)) else [])"

definition existential_rows :: "nat \<Rightarrow> expression_record \<Rightarrow> occurrence \<Rightarrow> (nat \<times> nat \<times> nat) list" where
  "existential_rows i r occ =
     (if tag r = OBJECT_SOME_VALUES_FROM \<and> negative occ \<noteq> 0
      then [(arguments r ! 1, i, arguments r ! 0)] else [])"

definition complement_rows :: "nat \<Rightarrow> expression_record \<Rightarrow> occurrence \<Rightarrow> (nat \<times> nat) list" where
  "complement_rows i r occ =
     (if tag r = OBJECT_COMPLEMENT_OF \<and> positive occ \<noteq> 0 then [(arguments r ! 0, i)] else [])"

definition positive_complement_rows :: "nat \<Rightarrow> expression_record \<Rightarrow> occurrence \<Rightarrow> (nat \<times> nat) list" where
  "positive_complement_rows i r occ =
     (if tag r = OBJECT_COMPLEMENT_OF \<and> positive occ \<noteq> 0 then [(i, arguments r ! 0)] else [])"

definition disjoint_pairs :: "compiled_ontology \<Rightarrow> (nat \<times> nat \<times> nat) list" where
  "disjoint_pairs co =
     concat (map (\<lambda>(g, members). map (\<lambda>(position, m). (m, g, position)) (enumerate 0 members))
       (enumerate 0 (disjoint_groups co)))"

definition told_super_pairs :: "compiled_ontology \<Rightarrow> property_saturation \<Rightarrow> (nat \<times> nat) list result" where
  "told_super_pairs co ps =
     rmap_list (\<lambda>(c, p). rmap (\<lambda>local_chain. (local_chain, p)) (compiled_chain ps c)) (subproperty_axioms co)"

record rule_dispatcher =
  compiled :: compiled_ontology
  properties :: property_saturation
  owl_thing :: nat
  owl_nothing :: nat
  introduce_thing :: bool
  decompose_nothing :: bool
  subclasses :: "nat rule_index"
  definitions_by_class :: "nat rule_index"
  classes_by_definition :: "nat rule_index"
  equivalent_first :: "nat rule_index"
  equivalent_second :: "nat rule_index"
  intersections_by_first :: "(nat \<times> nat) rule_index"
  intersections_by_second :: "(nat \<times> nat) rule_index"
  unions_by_disjunct :: "(nat \<times> nat) rule_index"
  existentials_by_filler :: "(nat \<times> nat) rule_index"
  complements_by_negated :: "nat rule_index"
  positive_complements :: "nat rule_index"
  disjoint_by_member :: "(nat \<times> nat) rule_index"
  told_super_properties :: "nat rule_index"

definition make_dispatcher :: "compiled_ontology \<Rightarrow> property_saturation \<Rightarrow> rule_dispatcher result" where
  "make_dispatcher co ps =
     rbind (class_expression co OWL_THING_IRI) (\<lambda>thing.
     rbind (class_expression co OWL_NOTHING_IRI) (\<lambda>nothing.
     rbind (told_super_pairs co ps) (\<lambda>told.
     Inr \<lparr>compiled = co, properties = ps, owl_thing = thing, owl_nothing = nothing,
       introduce_thing = (negative (expression_occurrences co ! thing) > 0),
       decompose_nothing = (positive (expression_occurrences co ! nothing) > 0),
       subclasses = build_index (subclass_axioms co),
       definitions_by_class = build_index (definition_pairs co),
       classes_by_definition = build_index (map prod.swap (definition_pairs co)),
       equivalent_first = build_index (map prod.swap (equivalent_pairs co)),
       equivalent_second = build_index (equivalent_pairs co),
       intersections_by_first = build_index (expression_pairs co intersection_first_rows),
       intersections_by_second = build_index (expression_pairs co intersection_second_rows),
       unions_by_disjunct = build_index (expression_pairs co union_rows),
       existentials_by_filler = build_index (expression_pairs co existential_rows),
       complements_by_negated = build_index (expression_pairs co complement_rows),
       positive_complements = build_index (expression_pairs co positive_complement_rows),
       disjoint_by_member = build_index (disjoint_pairs co),
       told_super_properties = build_index told\<rparr>)))"

section \<open>Producing\<close>

text \<open>\<open>if conclusion is not None: producer.produce(conclusion)\<close>.\<close>

definition emit :: "conclusion option result \<Rightarrow> conclusion list result" where
  "emit m = rmap (\<lambda>c. case c of None \<Rightarrow> [] | Some x \<Rightarrow> [x]) m"

definition produce :: "conclusion result \<Rightarrow> conclusion list result" where
  "produce m = rmap (\<lambda>c. [c]) m"

text \<open>\<open>self.properties.chains[chain]\<close>.\<close>

definition chain_record :: "property_saturation \<Rightarrow> nat \<Rightarrow> property_chain_record result" where
  "chain_record ps c = (if c < length (chain_records ps) then Inr (chain_records ps ! c) else Inl IndexError)"

definition multimap_sorted :: "(nat, nat set) dict \<Rightarrow> nat \<Rightarrow> nat list" where
  "multimap_sorted d k = sorted_list_of_set (multimap_get d k)"

section \<open>The trigger families\<close>

definition on_context_initialization :: "rule_dispatcher \<Rightarrow> conclusion \<Rightarrow> conclusion list result" where
  "on_context_initialization D premise = rappend
     (emit (subclass_inclusion_tautology (Some premise)))
     (if introduce_thing D then emit (subclass_inclusion_owl_thing (Some premise) (owl_thing D)) else Inr [])"

definition on_subcontext_initialization ::
    "rule_dispatcher \<Rightarrow> context_state \<Rightarrow> conclusion \<Rightarrow> nat \<Rightarrow> conclusion list result" where
  "on_subcontext_initialization D st premise relation =
     rbind (singleton_chain (properties D) relation) (\<lambda>relation_chain.
     rconcat_map (\<lambda>filler.
       rconcat_map (\<lambda>(existential, carry_property).
         rbind (singleton_chain (properties D) carry_property) (\<lambda>carry_chain.
         rbind (sub_properties (properties D) carry_chain) (\<lambda>compatible.
         if relation \<notin> set compatible then Inr []
         else rbind (post_init (SubClassInclusionComposed (ctx_root st) filler)) (\<lambda>filler_premise.
           rbind (new_sub_property_chain relation_chain carry_chain) (\<lambda>sub.
           emit (propagation_generated (Some premise) (Some filler_premise) (Some sub)
             filler existential relation_chain carry_chain))))))
       (index_rows (existentials_by_filler D) filler))
     (sorted_list_of_set (composed_subsumers st)))"

definition on_decomposed_expression ::
    "rule_dispatcher \<Rightarrow> context_state \<Rightarrow> conclusion \<Rightarrow> nat \<Rightarrow> conclusion list result" where
  "on_decomposed_expression D st premise subsumer = (
     let r = expressions (compiled D) ! subsumer;
         occ = expression_occurrences (compiled D) ! subsumer;
         ps = properties D
     in
     if tag r = OBJECT_INTERSECTION_OF \<and> positive occ \<noteq> 0 then
       rbind (subclass_inclusion_decomposed_first_conjunct (Some premise) subsumer (arguments r ! 0)) (\<lambda>first.
       rbind (subclass_inclusion_decomposed_second_conjunct (Some premise) subsumer (arguments r ! 1)) (\<lambda>second.
       rappend (emit (Inr first)) (emit (Inr second))))
     else if tag r = OBJECT_SOME_VALUES_FROM \<and> positive occ \<noteq> 0 then (
       let relation = arguments r ! 0; target = arguments r ! 1 in
       rbind (singleton_chain ps relation) (\<lambda>relation_chain.
       rappend (emit (backward_link_of_object_some_values_from (Some premise) subsumer relation target))
        (rbind (compositions_by_left ps False relation_chain) (\<lambda>rows.
         if rows \<noteq> [] then
           emit (forward_link_of_object_some_values_from (Some premise) subsumer relation_chain target)
         else Inr []))))
     else if tag r = OBJECT_HAS_SELF \<and> positive occ \<noteq> 0 then (
       let relation = arguments r ! 0 in
       rbind (singleton_chain ps relation) (\<lambda>relation_chain.
       rappend (emit (backward_link_of_object_has_self (Some premise) subsumer relation))
       (rappend (rbind (compositions_by_left ps False relation_chain) (\<lambda>rows.
           if rows \<noteq> [] then
             emit (forward_link_of_object_has_self (Some premise) subsumer relation_chain)
           else Inr []))
         (rbind (ranges ps relation) (rconcat_map (\<lambda>e.
           rbind (new_property_range relation e) (\<lambda>rng.
           emit (subclass_inclusion_object_has_self_property_range (Some premise) (Some rng)
             subsumer relation))))))))
     else if tag r = OBJECT_COMPLEMENT_OF \<and> positive occ \<noteq> 0 then
       rconcat_map (\<lambda>negated.
         if negated \<notin> composed_subsumers st then Inr []
         else rbind (post_init (SubClassInclusionComposed (ctx_root st) negated)) (\<lambda>pos.
           emit (class_inconsistency_of_object_complement_of (Some pos) (Some premise) negated subsumer)))
         (index_rows (positive_complements D) subsumer)
     else Inr [])"

definition on_decomposed_subsumer ::
    "rule_dispatcher \<Rightarrow> context_state \<Rightarrow> conclusion \<Rightarrow> nat \<Rightarrow> conclusion list result" where
  "on_decomposed_subsumer D st premise subsumer =
     rappend (emit (subclass_inclusion_composed_of_decomposed (Some premise)))
     (rappend (rconcat_map (\<lambda>d. emit (subclass_inclusion_expanded_definition (Some premise) subsumer d))
         (index_rows (definitions_by_class D) subsumer))
     (if subsumer \<ge> length (expressions (compiled D)) then Inr []
      else rappend (on_decomposed_expression D st premise subsumer)
        (if decompose_nothing D \<and> subsumer = owl_nothing D
         then emit (class_inconsistency_of_owl_nothing (Some premise) (owl_nothing D)) else Inr [])))"

definition compose_with_first :: "rule_dispatcher \<Rightarrow> context_state \<Rightarrow> conclusion \<Rightarrow> nat \<Rightarrow> nat \<times> nat \<Rightarrow> conclusion list result" where
  "compose_with_first D st premise subsumer row = (case row of (second, conjunction) \<Rightarrow>
     if second \<in> composed_subsumers st then
       rbind (post_init (SubClassInclusionComposed (ctx_root st) second)) (\<lambda>other.
       emit (subclass_inclusion_composed_object_intersection_of (Some premise) (Some other)
         subsumer second conjunction))
     else Inr [])"

definition compose_with_second :: "rule_dispatcher \<Rightarrow> context_state \<Rightarrow> conclusion \<Rightarrow> nat \<Rightarrow> nat \<times> nat \<Rightarrow> conclusion list result" where
  "compose_with_second D st premise subsumer row = (case row of (first, conjunction) \<Rightarrow>
     if first \<in> composed_subsumers st then
       rbind (post_init (SubClassInclusionComposed (ctx_root st) first)) (\<lambda>other.
       emit (subclass_inclusion_composed_object_intersection_of (Some other) (Some premise)
         first subsumer conjunction))
     else Inr [])"

definition propagate_filler :: "rule_dispatcher \<Rightarrow> context_state \<Rightarrow> conclusion \<Rightarrow> nat \<Rightarrow> nat \<times> nat \<Rightarrow> conclusion list result" where
  "propagate_filler D st premise subsumer row = (case row of (existential, carry_property) \<Rightarrow>
     rbind (singleton_chain (properties D) carry_property) (\<lambda>carry_chain.
     rbind (sub_properties (properties D) carry_chain) (\<lambda>compatible.
     rconcat_map (\<lambda>relation.
       if relation \<notin> set compatible then Inr []
       else rbind (singleton_chain (properties D) relation) (\<lambda>relation_chain.
         rbind (post_init (SubContextInitialization (ctx_root st) relation)) (\<lambda>init.
         rbind (new_sub_property_chain relation_chain carry_chain) (\<lambda>sub.
         emit (propagation_generated (Some init) (Some premise) (Some sub)
           subsumer existential relation_chain carry_chain)))))
       (sorted_list_of_set (initialized_subcontexts st)))))"

definition contradict_complement :: "rule_dispatcher \<Rightarrow> context_state \<Rightarrow> conclusion \<Rightarrow> nat \<Rightarrow> nat \<Rightarrow> conclusion list result" where
  "contradict_complement D st premise subsumer complement =
     (if complement \<notin> decomposed_subsumers st then Inr []
      else rbind (post_init (SubClassInclusionDecomposed (ctx_root st) complement)) (\<lambda>neg.
        emit (class_inconsistency_of_object_complement_of (Some premise) (Some neg) subsumer complement)))"

definition on_composed_subsumer ::
    "rule_dispatcher \<Rightarrow> context_state \<Rightarrow> conclusion \<Rightarrow> nat \<Rightarrow> conclusion list result" where
  "on_composed_subsumer D st premise subsumer =
     rappend (rconcat_map (\<lambda>e. emit (subclass_inclusion_expanded_subclass_of (Some premise) subsumer e))
       (index_rows (subclasses D) subsumer))
     (rappend (rconcat_map (\<lambda>e. emit (subclass_inclusion_composed_defined_class (Some premise) subsumer e))
       (index_rows (classes_by_definition D) subsumer))
     (rappend (rconcat_map (\<lambda>e. emit (subclass_inclusion_expanded_first_equivalent_class (Some premise) e subsumer))
       (index_rows (equivalent_first D) subsumer))
     (rappend (rconcat_map (\<lambda>e. emit (subclass_inclusion_expanded_second_equivalent_class (Some premise) subsumer e))
       (index_rows (equivalent_second D) subsumer))
     (rappend (rconcat_map (compose_with_first D st premise subsumer)
       (index_rows (intersections_by_first D) subsumer))
     (rappend (rconcat_map (compose_with_second D st premise subsumer)
       (index_rows (intersections_by_second D) subsumer))
     (rappend (rconcat_map (\<lambda>(u, position).
         emit (subclass_inclusion_composed_object_union_of (Some premise) subsumer u position))
       (index_rows (unions_by_disjunct D) subsumer))
     (rappend (rconcat_map (propagate_filler D st premise subsumer)
       (index_rows (existentials_by_filler D) subsumer))
     (rappend (rconcat_map (contradict_complement D st premise subsumer)
       (index_rows (complements_by_negated D) subsumer))
     (rconcat_map (\<lambda>(g, position).
         emit (disjoint_subsumer_from_subsumer (Some premise) subsumer g position))
       (index_rows (disjoint_by_member D) subsumer))))))))))"

definition chain_is_extendable :: "rule_dispatcher \<Rightarrow> nat \<Rightarrow> bool result" where
  "chain_is_extendable D c =
     rbind (compositions_by_left (properties D) False c) (\<lambda>rows.
     if rows \<noteq> [] then Inr True
     else rmap (\<lambda>rows. rows \<noteq> []) (compositions_by_left (properties D) True c))"

definition produce_link_composition ::
    "rule_dispatcher \<Rightarrow> conclusion \<Rightarrow> nat \<Rightarrow> conclusion \<Rightarrow> nat \<Rightarrow> nat \<Rightarrow> conclusion list result" where
  "produce_link_composition D backward relation forward forward_chain result_id =
     rbind (chain_record (properties D) result_id) (\<lambda>result.
     case suffix_chain result of
       None \<Rightarrow> Inl PyAssertionError
     | Some suffix \<Rightarrow>
         rbind (singleton_chain (properties D) relation) (\<lambda>backward_chain.
         rbind (singleton_chain (properties D) (first_property result)) (\<lambda>first_chain.
         rbind (new_sub_property_chain backward_chain first_chain) (\<lambda>left.
         rbind (new_sub_property_chain forward_chain suffix) (\<lambda>right.
         rbind (chain_is_extendable D result_id) (\<lambda>extendable.
         if extendable then
           emit (forward_link_composition (Some backward) (Some left) (Some forward) (Some right)
             result_id backward_chain first_chain suffix)
         else
           rconcat_map (\<lambda>super_property.
             rbind (singleton_chain (properties D) super_property) (\<lambda>super_chain.
             rbind (new_sub_property_chain result_id super_chain) (\<lambda>sup.
             emit (backward_link_composition (Some backward) (Some left) (Some forward) (Some right)
               (Some sup) result_id super_property backward_chain first_chain suffix super_chain))))
           (index_rows (told_super_properties D) result_id)))))))"

definition on_forward_link ::
    "rule_dispatcher \<Rightarrow> context_state \<Rightarrow> conclusion \<Rightarrow> nat \<Rightarrow> conclusion list result" where
  "on_forward_link D st premise chain =
     rbind (chain_record (properties D) chain) (\<lambda>rec.
     rappend
      (if is_singleton rec then Inr []
       else rconcat_map (\<lambda>super_property.
         rbind (singleton_chain (properties D) super_property) (\<lambda>super_chain.
         rbind (new_sub_property_chain chain super_chain) (\<lambda>sub.
         emit (backward_link_reversed_expanded (Some premise) (Some sub) super_property super_chain))))
         (index_rows (told_super_properties D) chain))
      (rbind (compositions_by_left (properties D) False chain) (\<lambda>rows.
       rconcat_map (\<lambda>(relation, result_chains).
         rconcat_map (\<lambda>source.
           rbind (post_init (BackwardLink (ctx_root st) relation source)) (\<lambda>backward.
           rconcat_map (produce_link_composition D backward relation premise chain) result_chains))
         (multimap_sorted (backward_links st) relation))
       (sort_key fst rows))))"

definition on_backward_link ::
    "rule_dispatcher \<Rightarrow> context_state \<Rightarrow> conclusion \<Rightarrow> nat \<Rightarrow> conclusion list result" where
  "on_backward_link D st premise relation =
     rappend (produce (subcontext_initialization_no_premises (ctx_root st) relation))
     (rappend (rconcat_map (\<lambda>carry.
         rbind (post_init (Propagation (ctx_root st) relation carry)) (\<lambda>p.
         emit (subclass_inclusion_composed_object_some_values_from (Some premise) (Some p))))
       (multimap_sorted (propagations st) relation))
     (rappend (if inconsistent st then
         rbind (post_init (ClassInconsistency (ctx_root st))) (\<lambda>i.
         emit (class_inconsistency_propagated (Some premise) (Some i)))
       else Inr [])
     (rappend (rbind (ranges (properties D) relation)
         (rconcat_map (\<lambda>e. produce (post_init (SubClassInclusionDecomposed (ctx_root st) e)))))
     (rbind (compositions_by_right (properties D) False relation) (\<lambda>rows.
       rconcat_map (\<lambda>(right_chain, result_chains).
         rconcat_map (\<lambda>target.
           rbind (post_init (ForwardLink (ctx_root st) right_chain target)) (\<lambda>forward.
           rconcat_map (produce_link_composition D premise relation forward right_chain) result_chains))
         (multimap_sorted (forward_links st) right_chain))
       (sort_key fst rows))))))"

definition on_propagation :: "context_state \<Rightarrow> conclusion \<Rightarrow> nat \<Rightarrow> conclusion list result" where
  "on_propagation st premise relation =
     rconcat_map (\<lambda>source.
       rbind (post_init (BackwardLink (ctx_root st) relation source)) (\<lambda>backward.
       emit (subclass_inclusion_composed_object_some_values_from (Some backward) (Some premise))))
     (multimap_sorted (backward_links st) relation)"

definition on_disjoint_subsumer :: "context_state \<Rightarrow> conclusion \<Rightarrow> nat \<Rightarrow> nat \<Rightarrow> conclusion list result" where
  "on_disjoint_subsumer st premise g position =
     rconcat_map (\<lambda>other.
       if other = position then Inr []
       else rbind (post_init (DisjointSubsumer (ctx_root st) g other)) (\<lambda>second.
         emit (class_inconsistency_of_disjoint_subsumers (Some premise) (Some second))))
     (multimap_sorted (disjoint_positions st) g)"

definition on_class_inconsistency :: "context_state \<Rightarrow> conclusion \<Rightarrow> conclusion list result" where
  "on_class_inconsistency st premise =
     rconcat_map (\<lambda>(relation, sources).
       rconcat_map (\<lambda>source.
         rbind (post_init (BackwardLink (ctx_root st) relation source)) (\<lambda>backward.
         emit (class_inconsistency_propagated (Some backward) (Some premise))))
       (sorted_list_of_set sources))
     (sort_key fst (backward_links st))"

definition dispatch_family :: "rule_dispatcher \<Rightarrow> context_state \<Rightarrow> conclusion \<Rightarrow> conclusion list result" where
  "dispatch_family D st premise = (case premise of
     ContextInitialization _ \<Rightarrow> on_context_initialization D premise
   | SubContextInitialization _ p \<Rightarrow> on_subcontext_initialization D st premise p
   | SubClassInclusionDecomposed _ s \<Rightarrow> on_decomposed_subsumer D st premise s
   | SubClassInclusionComposed _ s \<Rightarrow> on_composed_subsumer D st premise s
   | ForwardLink _ c _ \<Rightarrow> on_forward_link D st premise c
   | BackwardLink _ p _ \<Rightarrow> on_backward_link D st premise p
   | Propagation _ p _ \<Rightarrow> on_propagation st premise p
   | DisjointSubsumer _ g position \<Rightarrow> on_disjoint_subsumer st premise g position
   | ClassInconsistency _ \<Rightarrow> on_class_inconsistency st premise)"

definition dispatch :: "rule_dispatcher \<Rightarrow> context_state \<Rightarrow> conclusion \<Rightarrow> conclusion list result" where
  "dispatch D st premise =
     rbind (contains st premise) (\<lambda>is_stored.
     if \<not> is_stored then Inl ValueError else dispatch_family D st premise)"

end
