(* ===== verification/Dispatch_Tables.thy ===== *)
theory Dispatch_Tables
  imports Dispatcher Calculus
begin

text \<open>
  The frozen rule tables hold exactly the rows the calculus' side conditions describe, and the
  dispatcher of a valid ontology can be built.
\<close>

section \<open>Looking up a built index\<close>

lemma fold_append_index:
  "no_empty_values d \<Longrightarrow> no_empty_values (fold (\<lambda>(key, row) index. append_index index key row) pairs d) \<and>
   multimap_rel (fold (\<lambda>(key, row) index. append_index index key row) pairs d) = multimap_rel d \<union> set pairs"
proof (induction pairs arbitrary: d)
  case (Cons x pairs)
  from Cons.IH [of "append_index d (fst x) (snd x)"] Cons.prems show ?case
    by (cases x) (auto simp: append_index_def)
qed simp

lemma index_rows_freeze:
  "index_rows (freeze_index d) k = sorted_list_of_set (multimap_get d k)"
proof -
  have "map_of (map (\<lambda>(key, rows). (key, sorted_list_of_set rows)) d) k = map_option sorted_list_of_set (map_of d k)"
    by (induction d) auto
  then show ?thesis
    by (simp add: index_rows_def freeze_index_def multimap_get_def split: option.splits)
qed

lemma set_index_rows: "set (index_rows (build_index pairs) k) = {v. (k, v) \<in> set pairs}"
proof -
  let ?d = "fold (\<lambda>(key, row) index. append_index index key row) pairs []"
  have d: "no_empty_values ?d" "multimap_rel ?d = set pairs" using fold_append_index [of "[]" pairs] by simp_all
  have "set (index_rows (build_index pairs) k) = multimap_get ?d k"
    using finite_multimap_get [OF d(1)] by (simp add: build_index_def index_rows_freeze)
  also have "\<dots> = {v. (k, v) \<in> set pairs}"
    using multimap_get_rel [of _ ?d k] d(2) by auto
  finally show ?thesis .
qed

lemma set_expression_pairs:
  "x \<in> set (expression_pairs co rows) \<longleftrightarrow>
   (\<exists>e. is_expression co e \<and> x \<in> set (rows e (expressions co ! e) (expression_occurrences co ! e)))"
  by (force simp: expression_pairs_def is_expression_def in_set_enumerate_eq)

section \<open>The rows, table by table\<close>

lemma two_arguments: "length xs = 2 \<Longrightarrow> xs = [a, b] \<longleftrightarrow> xs ! 0 = a \<and> xs ! 1 = b"
  by (auto simp: numeral_2_eq_2 length_Suc_conv)

lemma intersection_pairs:
  assumes "valid_ontology co"
  shows "(a, b, e) \<in> set (expression_pairs co intersection_first_rows) \<longleftrightarrow>
      indexed co e OBJECT_INTERSECTION_OF [a, b] \<and> occurs_negatively co e"
    and "(b, a, e) \<in> set (expression_pairs co intersection_second_rows) \<longleftrightarrow>
      indexed co e OBJECT_INTERSECTION_OF [a, b] \<and> occurs_negatively co e"
proof -
  have "length (arguments (expressions co ! e)) = 2"
    if "is_expression co e" "tag (expressions co ! e) = OBJECT_INTERSECTION_OF" for e
    using intersection_arguments [OF assms that] by (metis length_Cons list.size(3) numeral_2_eq_2)
  note two = two_arguments [OF this]
  show "(a, b, e) \<in> set (expression_pairs co intersection_first_rows) \<longleftrightarrow>
      indexed co e OBJECT_INTERSECTION_OF [a, b] \<and> occurs_negatively co e"
    "(b, a, e) \<in> set (expression_pairs co intersection_second_rows) \<longleftrightarrow>
      indexed co e OBJECT_INTERSECTION_OF [a, b] \<and> occurs_negatively co e"
    unfolding set_expression_pairs
    by (auto simp: intersection_first_rows_def intersection_second_rows_def indexed_def
        occurs_negatively_def two split: if_splits)
qed

lemma union_pairs:
  "(a, e, i) \<in> set (expression_pairs co union_rows) \<longleftrightarrow>
   (\<exists>args. indexed co e OBJECT_UNION_OF args \<and> occurs_negatively co e \<and> i < length args \<and> args ! i = a)"
  unfolding set_expression_pairs
  by (force simp: union_rows_def indexed_def occurs_negatively_def in_set_enumerate_eq split: if_splits)

lemma existential_pairs:
  assumes "valid_ontology co"
  shows "(f, e, p) \<in> set (expression_pairs co existential_rows) \<longleftrightarrow>
      indexed co e OBJECT_SOME_VALUES_FROM [p, f] \<and> occurs_negatively co e"
proof -
  have "length (arguments (expressions co ! e)) = 2"
    if "is_expression co e" "tag (expressions co ! e) = OBJECT_SOME_VALUES_FROM" for e
    using existential_arguments [OF assms that] by (metis length_Cons list.size(3) numeral_2_eq_2)
  note two = two_arguments [OF this]
  show ?thesis
    unfolding set_expression_pairs
    by (auto simp: existential_rows_def indexed_def occurs_negatively_def two split: if_splits)
qed

lemma complement_pairs:
  assumes "valid_ontology co"
  shows "(a, e) \<in> set (expression_pairs co complement_rows) \<longleftrightarrow>
      indexed co e OBJECT_COMPLEMENT_OF [a] \<and> occurs_positively co e"
    and "(e, a) \<in> set (expression_pairs co positive_complement_rows) \<longleftrightarrow>
      indexed co e OBJECT_COMPLEMENT_OF [a] \<and> occurs_positively co e"
proof -
  have one: "arguments (expressions co ! e) ! 0 = a \<longleftrightarrow> arguments (expressions co ! e) = [a]"
    if "is_expression co e" "tag (expressions co ! e) = OBJECT_COMPLEMENT_OF" for e a
    using complement_arguments [OF assms that] by (metis nth_Cons_0)
  show "(a, e) \<in> set (expression_pairs co complement_rows) \<longleftrightarrow>
      indexed co e OBJECT_COMPLEMENT_OF [a] \<and> occurs_positively co e"
    "(e, a) \<in> set (expression_pairs co positive_complement_rows) \<longleftrightarrow>
      indexed co e OBJECT_COMPLEMENT_OF [a] \<and> occurs_positively co e"
    unfolding set_expression_pairs
    by (auto simp: complement_rows_def positive_complement_rows_def indexed_def occurs_positively_def one [symmetric]
        split: if_splits)
qed

lemma disjoint_pairs_mem: "(a, g, i) \<in> set (disjoint_pairs co) \<longleftrightarrow> disjoint_member co a g i"
  by (force simp: disjoint_pairs_def disjoint_member_def in_set_enumerate_eq)

lemma definition_pairs_mem:
  "(a, b) \<in> set (definition_pairs co) \<longleftrightarrow> defines_class co a b"
  "(a, b) \<in> set (equivalent_pairs co) \<longleftrightarrow> equates co a b"
  by (auto simp: definition_pairs_def equivalent_pairs_def defines_class_def equates_def is_class_expression_def)

section \<open>The dispatcher of a valid ontology\<close>

lemma property_chain_count:
  assumes "valid_ontology co" and "small_chains co"
  shows "length (property_chains co) < U32_RESERVED"
proof -
  have "length xs \<le> sum_list (map length xs)" if "[] \<notin> set xs" for xs :: "nat list list"
    using that
  proof (induction xs)
    case (Cons x xs)
    then show ?case by (cases x) auto
  qed simp
  moreover have "[] \<notin> set (property_chains co)" using property_chain_members(1) [OF assms(1)] by blast
  ultimately have "length (property_chains co) \<le> sum_list (map length (property_chains co))" by blast
  with assms(2) show ?thesis by (simp add: small_chains_def)
qed

lemma compiled_chain_total:
  assumes "view_of co u ps" and "(k, p) \<in> set (subproperty_axioms co)"
  shows "compiled_chain ps k = Inr (compiled_ids u ! k)"
proof -
  note f = view_facts [OF assms(1)]
  have k: "k < length (property_chains co)" by (rule subproperty_axiom_ids(1) [OF f(2) assms(2)])
  have "small_chains co" using assms(1) by (simp add: view_of_def property_limits_def)
  from property_chain_count [OF f(2) this] k compiled_id_bound(2) [OF f(1) k]
  show ?thesis by (simp add: compiled_chain_def f(7))
qed

lemma told_super_pairs_total:
  assumes "view_of co u ps"
  obtains told where "told_super_pairs co ps = Inr told"
    and "\<And>c p. (c, p) \<in> set told \<longleftrightarrow> told_super co ps c p"
proof -
  let ?told = "map (\<lambda>(k, p). (compiled_ids u ! k, p)) (subproperty_axioms co)"
  have "told_super_pairs co ps = Inr ?told"
    unfolding told_super_pairs_def
    by (rule rmap_list_Inr) (auto simp: compiled_chain_total [OF assms])
  moreover have "(c, p) \<in> set ?told \<longleftrightarrow> told_super co ps c p" for c p
    using compiled_chain_total [OF assms] unfolding told_super_def by force
  ultimately show ?thesis by (rule that)
qed

text \<open>Everything the handlers read from the dispatcher, in terms of the calculus.\<close>

definition dispatcher_for :: "compiled_ontology \<Rightarrow> property_saturation \<Rightarrow> rule_dispatcher \<Rightarrow> bool" where
  "dispatcher_for co ps D \<longleftrightarrow> make_dispatcher co ps = Inr D"

lemma make_dispatcher_total:
  assumes "class_setting co ps"
  obtains D where "make_dispatcher co ps = Inr D" and "dispatcher_for co ps D"
proof -
  obtain u where u: "view_of co u ps" and valid: "valid_ontology co" by (rule class_settingE [OF assms])
  obtain told where "told_super_pairs co ps = Inr told" using told_super_pairs_total [OF u] by metis
  moreover have "(CLASS, OWL_THING_IRI) \<in> set predefined_entities" "(CLASS, OWL_NOTHING_IRI) \<in> set predefined_entities"
    by (simp_all add: predefined_entities_def)
  then obtain t n where "class_expression co OWL_THING_IRI = Inr t" "class_expression co OWL_NOTHING_IRI = Inr n"
    using class_expression_total [OF valid] by metis
  ultimately have "\<exists>D. make_dispatcher co ps = Inr D" by (simp add: make_dispatcher_def)
  then show ?thesis using that by (auto simp: dispatcher_for_def)
qed

lemma dispatcher_tables:
  assumes "class_setting co ps" and "dispatcher_for co ps D"
  shows "compiled D = co" and "properties D = ps"
    and "class_expression co OWL_THING_IRI = Inr (owl_thing D)"
    and "class_expression co OWL_NOTHING_IRI = Inr (owl_nothing D)"
    and "introduce_thing D \<longleftrightarrow> occurs_negatively co (owl_thing D)"
    and "decompose_nothing D \<longleftrightarrow> occurs_positively co (owl_nothing D)"
    and "set (index_rows (subclasses D) s) = {b. (s, b) \<in> set (subclass_axioms co)}"
    and "set (index_rows (definitions_by_class D) s) = {b. defines_class co s b}"
    and "set (index_rows (classes_by_definition D) s) = {a. defines_class co a s}"
    and "set (index_rows (equivalent_first D) s) = {a. equates co a s}"
    and "set (index_rows (equivalent_second D) s) = {b. equates co s b}"
    and "set (index_rows (intersections_by_first D) s) =
      {(b, e). indexed co e OBJECT_INTERSECTION_OF [s, b] \<and> occurs_negatively co e}"
    and "set (index_rows (intersections_by_second D) s) =
      {(a, e). indexed co e OBJECT_INTERSECTION_OF [a, s] \<and> occurs_negatively co e}"
    and "set (index_rows (unions_by_disjunct D) s) = {(e, i). \<exists>args. indexed co e OBJECT_UNION_OF args \<and>
      occurs_negatively co e \<and> i < length args \<and> args ! i = s}"
    and "set (index_rows (existentials_by_filler D) s) =
      {(e, p). indexed co e OBJECT_SOME_VALUES_FROM [p, s] \<and> occurs_negatively co e}"
    and "set (index_rows (complements_by_negated D) s) =
      {e. indexed co e OBJECT_COMPLEMENT_OF [s] \<and> occurs_positively co e}"
    and "set (index_rows (positive_complements D) s) =
      {a. indexed co s OBJECT_COMPLEMENT_OF [a] \<and> occurs_positively co s}"
    and "set (index_rows (disjoint_by_member D) s) = {(g, i). disjoint_member co s g i}"
    and "set (index_rows (told_super_properties D) c) = {p. told_super co ps c p}"
proof -
  obtain u where u: "view_of co u ps" and valid: "valid_ontology co" by (rule class_settingE [OF assms(1)])
  obtain told where told: "told_super_pairs co ps = Inr told" "\<And>c p. (c, p) \<in> set told \<longleftrightarrow> told_super co ps c p"
    by (rule told_super_pairs_total [OF u]) blast
  from assms(2) obtain thing nothing where c: "class_expression co OWL_THING_IRI = Inr thing"
    "class_expression co OWL_NOTHING_IRI = Inr nothing"
    by (auto simp: dispatcher_for_def make_dispatcher_def)
  note D = assms(2) [unfolded dispatcher_for_def make_dispatcher_def c told(1) rbind_simps sum.inject]
  note mem = set_index_rows intersection_pairs [OF valid] union_pairs existential_pairs [OF valid]
    complement_pairs [OF valid] disjoint_pairs_mem definition_pairs_mem told(2)
  have swap: "(a, b) \<in> prod.swap ` X \<longleftrightarrow> (b, a) \<in> X" for a b :: nat and X by force
  show "compiled D = co" "properties D = ps" "class_expression co OWL_THING_IRI = Inr (owl_thing D)"
    "class_expression co OWL_NOTHING_IRI = Inr (owl_nothing D)"
    "introduce_thing D \<longleftrightarrow> occurs_negatively co (owl_thing D)"
    "decompose_nothing D \<longleftrightarrow> occurs_positively co (owl_nothing D)"
    using c by (simp_all add: D [symmetric] occurs_negatively_def occurs_positively_def)
  show "set (index_rows (subclasses D) s) = {b. (s, b) \<in> set (subclass_axioms co)}"
    "set (index_rows (definitions_by_class D) s) = {b. defines_class co s b}"
    "set (index_rows (classes_by_definition D) s) = {a. defines_class co a s}"
    "set (index_rows (equivalent_first D) s) = {a. equates co a s}"
    "set (index_rows (equivalent_second D) s) = {b. equates co s b}"
    "set (index_rows (complements_by_negated D) s) =
      {e. indexed co e OBJECT_COMPLEMENT_OF [s] \<and> occurs_positively co e}"
    "set (index_rows (positive_complements D) s) =
      {a. indexed co s OBJECT_COMPLEMENT_OF [a] \<and> occurs_positively co s}"
    "set (index_rows (told_super_properties D) c) = {p. told_super co ps c p}"
    by (simp_all add: D [symmetric] mem swap)
  show "set (index_rows (intersections_by_first D) s) =
      {(b, e). indexed co e OBJECT_INTERSECTION_OF [s, b] \<and> occurs_negatively co e}"
    "set (index_rows (intersections_by_second D) s) =
      {(a, e). indexed co e OBJECT_INTERSECTION_OF [a, s] \<and> occurs_negatively co e}"
    "set (index_rows (unions_by_disjunct D) s) = {(e, i). \<exists>args. indexed co e OBJECT_UNION_OF args \<and>
      occurs_negatively co e \<and> i < length args \<and> args ! i = s}"
    "set (index_rows (existentials_by_filler D) s) =
      {(e, p). indexed co e OBJECT_SOME_VALUES_FROM [p, s] \<and> occurs_negatively co e}"
    "set (index_rows (disjoint_by_member D) s) = {(g, i). disjoint_member co s g i}"
    by (auto simp: D [symmetric] mem)
qed

end
