(* ===== verification/Dispatch.thy ===== *)
theory Dispatch
  imports Dispatch_Tables
begin

text \<open>
  \<open>dispatch\<close> refines the calculus: for a stored premise it produces, without raising, exactly the
  conclusions the rules give from that premise alone or with a partner stored in its context.
\<close>

section \<open>Producing in the namespace\<close>

lemma post_init_ok [simp]: "conclusion_ok c \<Longrightarrow> post_init c = Inr c"
  by (simp add: post_init_eq)

lemma conclude_ok [simp]: "conclusion_ok c \<Longrightarrow> conclude c = Inr (Some c)"
  by (simp add: conclude_def)

lemma emit_simps [simp]:
  "emit (Inr None) = Inr []"
  "emit (Inr (Some c)) = Inr [c]"
  "produce (Inr c) = Inr [c]"
  by (simp_all add: emit_def produce_def)

lemma typed_premise_Some [simp]: "conclusion_kind c = k \<Longrightarrow> typed_premise k (Some c) = Inr (Some c)"
  by (simp add: typed_premise_def)

lemma yields_each:
  "(\<And>x. x \<in> set rows \<Longrightarrow> f x = Inr [g x]) \<Longrightarrow> yields (rconcat_map f rows) (g ` set rows)"
  by (rule yields_eq [OF yields_rconcat_map [of rows f "\<lambda>x. {g x}"]]) auto

lemma yields_guarded:
  "(\<And>x. x \<in> set rows \<Longrightarrow> f x = (if P x then Inr [g x] else Inr [])) \<Longrightarrow>
   yields (rconcat_map f rows) (g ` {x \<in> set rows. P x})"
  by (rule yields_eq [OF yields_rconcat_map [of rows f "\<lambda>x. if P x then {g x} else {}"]])
    (auto split: if_splits)

section \<open>The stored state, as the handlers read it\<close>

lemma context_views:
  assumes "context_inv st"
  shows "s \<in> composed_subsumers st \<longleftrightarrow> SubClassInclusionComposed (ctx_root st) s \<in> stored st"
    and "s \<in> decomposed_subsumers st \<longleftrightarrow> SubClassInclusionDecomposed (ctx_root st) s \<in> stored st"
    and "p \<in> initialized_subcontexts st \<longleftrightarrow> SubContextInitialization (ctx_root st) p \<in> stored st"
    and "inconsistent st \<longleftrightarrow> ClassInconsistency (ctx_root st) \<in> stored st"
    and "set (sorted_list_of_set (composed_subsumers st)) =
      {s. SubClassInclusionComposed (ctx_root st) s \<in> stored st}"
    and "set (sorted_list_of_set (initialized_subcontexts st)) =
      {p. SubContextInitialization (ctx_root st) p \<in> stored st}"
    and "set (multimap_sorted (forward_links st) c) = {t. ForwardLink (ctx_root st) c t \<in> stored st}"
    and "set (multimap_sorted (backward_links st) p) = {s. BackwardLink (ctx_root st) p s \<in> stored st}"
    and "set (multimap_sorted (propagations st) p) = {e. Propagation (ctx_root st) p e \<in> stored st}"
    and "set (multimap_sorted (disjoint_positions st) g) = {i. DisjointSubsumer (ctx_root st) g i \<in> stored st}"
proof -
  have v: "views_inv st" and m: "maps_inv st" using assms by (simp_all add: context_inv_def)
  note v' = v [unfolded views_inv_def Let_def]
  show "s \<in> composed_subsumers st \<longleftrightarrow> SubClassInclusionComposed (ctx_root st) s \<in> stored st"
    "s \<in> decomposed_subsumers st \<longleftrightarrow> SubClassInclusionDecomposed (ctx_root st) s \<in> stored st"
    "p \<in> initialized_subcontexts st \<longleftrightarrow> SubContextInitialization (ctx_root st) p \<in> stored st"
    "inconsistent st \<longleftrightarrow> ClassInconsistency (ctx_root st) \<in> stored st"
    using v' by simp_all
  have "finite (composed_subsumers st)" "finite (initialized_subcontexts st)"
    using m by (simp_all add: maps_inv_def)
  then show "set (sorted_list_of_set (composed_subsumers st)) =
      {s. SubClassInclusionComposed (ctx_root st) s \<in> stored st}"
    "set (sorted_list_of_set (initialized_subcontexts st)) =
      {p. SubContextInitialization (ctx_root st) p \<in> stored st}"
    using v' by simp_all
  have row: "set (multimap_sorted d k) = {x. (k, x) \<in> multimap_rel d}"
    if "no_empty_values d" for d :: "(nat, nat set) dict" and k
    using finite_multimap_get [OF that, of k] multimap_get_rel [of _ d k] by (auto simp: multimap_sorted_def)
  show "set (multimap_sorted (forward_links st) c) = {t. ForwardLink (ctx_root st) c t \<in> stored st}"
    "set (multimap_sorted (backward_links st) p) = {s. BackwardLink (ctx_root st) p s \<in> stored st}"
    "set (multimap_sorted (propagations st) p) = {e. Propagation (ctx_root st) p e \<in> stored st}"
    "set (multimap_sorted (disjoint_positions st) g) = {i. DisjointSubsumer (ctx_root st) g i \<in> stored st}"
    using m v' row by (simp_all add: maps_inv_def)
qed

definition dispatch_ready ::
    "compiled_ontology \<Rightarrow> property_saturation \<Rightarrow> rule_dispatcher \<Rightarrow> context_state \<Rightarrow> bool" where
  "dispatch_ready co ps D st \<longleftrightarrow> class_setting co ps \<and> dispatcher_for co ps D \<and> context_inv st \<and>
     (\<forall>c \<in> stored st. in_scope co ps c)"

lemma dispatch_readyD:
  assumes "dispatch_ready co ps D st"
  shows "class_setting co ps" "dispatcher_for co ps D" "context_inv st" "usable_view ps" "valid_ontology co"
    and "c \<in> stored st \<Longrightarrow> in_scope co ps c"
    and "c \<in> stored st \<Longrightarrow> conclusion_ok c"
    and "c \<in> stored st \<Longrightarrow> conclusion_destination c = ctx_root st"
proof -
  show set: "class_setting co ps" and "dispatcher_for co ps D" and ctx: "context_inv st"
    and scope: "c \<in> stored st \<Longrightarrow> in_scope co ps c" for c
    using assms by (simp_all add: dispatch_ready_def)
  show "usable_view ps" "valid_ontology co" using class_settingE [OF set] by metis+
  show "c \<in> stored st \<Longrightarrow> conclusion_ok c" by (rule in_scope_ok [OF set scope])
  show "c \<in> stored st \<Longrightarrow> conclusion_destination c = ctx_root st"
    using ctx keys_inv_destination by (auto simp: context_inv_def known_def)
qed

lemma ok_unary:
  "dispatch_ready co ps D st \<Longrightarrow> p \<in> stored st \<Longrightarrow> unary_rule co ps p c \<Longrightarrow> conclusion_ok c"
  using in_scope_ok unary_rule_in_scope dispatch_readyD(1,6) by metis

lemma ok_binary:
  "dispatch_ready co ps D st \<Longrightarrow> p \<in> stored st \<Longrightarrow> q \<in> stored st \<Longrightarrow> binary_rule co ps p q c \<Longrightarrow> conclusion_ok c"
  using in_scope_ok binary_rule_in_scope dispatch_readyD(1,6) by metis

lemma object_property_named:
  "class_setting co ps \<Longrightarrow> is_object_property co p \<longleftrightarrow> named_property ps p"
  using class_settingE view_facts(3) by metis

lemma singleton_chain_ok:
  assumes "dispatch_ready co ps D st" and "is_object_property co p"
  obtains c where "singleton_chain ps p = Inr c" and "chain_in_table ps c" and "property_under ps p c"
    and "c < U32_RESERVED" and "p < U32_RESERVED"
proof -
  note d = dispatch_readyD [OF assms(1)]
  obtain u where u: "view_of co u ps" by (rule class_settingE [OF d(1)])
  from pv.singleton_law [OF d(4)] object_property_named [OF d(1)] assms(2)
  obtain c where c: "singleton_chain ps p = Inr c" "chain_in_table ps c" "property_under ps p c" by metis
  moreover have "c < U32_RESERVED"
    using c(2) view_facts(1,4) [OF u] unfolding universe_inv_def by auto
  ultimately show ?thesis using that is_object_property_u32 [OF d(5) assms(2)] by blast
qed

section \<open>The partner of a premise\<close>

inductive_simps binary_first_ContextInitialization: "binary_rule co ps (ContextInitialization r) q c"
inductive_simps binary_first_SubContextInitialization: "binary_rule co ps (SubContextInitialization d p) q c"
inductive_simps binary_first_Decomposed: "binary_rule co ps (SubClassInclusionDecomposed d s) q c"
inductive_simps binary_first_Composed: "binary_rule co ps (SubClassInclusionComposed d s) q c"
inductive_simps binary_first_ForwardLink: "binary_rule co ps (ForwardLink d ch t) q c"
inductive_simps binary_first_BackwardLink: "binary_rule co ps (BackwardLink d p s) q c"
inductive_simps binary_first_Propagation: "binary_rule co ps (Propagation d p e) q c"
inductive_simps binary_first_DisjointSubsumer: "binary_rule co ps (DisjointSubsumer d g i) q c"
inductive_simps binary_first_ClassInconsistency: "binary_rule co ps (ClassInconsistency d) q c"
inductive_simps binary_second_ContextInitialization: "binary_rule co ps q (ContextInitialization r) c"
inductive_simps binary_second_SubContextInitialization: "binary_rule co ps q (SubContextInitialization d p) c"
inductive_simps binary_second_Decomposed: "binary_rule co ps q (SubClassInclusionDecomposed d s) c"
inductive_simps binary_second_Composed: "binary_rule co ps q (SubClassInclusionComposed d s) c"
inductive_simps binary_second_ForwardLink: "binary_rule co ps q (ForwardLink d ch t) c"
inductive_simps binary_second_BackwardLink: "binary_rule co ps q (BackwardLink d p s) c"
inductive_simps binary_second_Propagation: "binary_rule co ps q (Propagation d p e) c"
inductive_simps binary_second_DisjointSubsumer: "binary_rule co ps q (DisjointSubsumer d g i) c"
inductive_simps binary_second_ClassInconsistency: "binary_rule co ps q (ClassInconsistency d) c"

lemmas binary_families =
  binary_first_ContextInitialization binary_first_SubContextInitialization binary_first_Decomposed
  binary_first_Composed binary_first_ForwardLink binary_first_BackwardLink binary_first_Propagation
  binary_first_DisjointSubsumer binary_first_ClassInconsistency
  binary_second_ContextInitialization binary_second_SubContextInitialization binary_second_Decomposed
  binary_second_Composed binary_second_ForwardLink binary_second_BackwardLink binary_second_Propagation
  binary_second_DisjointSubsumer binary_second_ClassInconsistency

section \<open>The small families\<close>

lemma on_context_initialization_yields:
  assumes ready: "dispatch_ready co ps D st" and p: "ContextInitialization r \<in> stored st"
  shows "yields (on_context_initialization D (ContextInitialization r))
    {c. follows co ps (stored st) (ContextInitialization r) c}"
proof -
  note d = dispatch_readyD [OF ready] and t = dispatcher_tables [OF d(1,2)]
  have "conclusion_ok (SubClassInclusionDecomposed r r)"
    by (rule ok_unary [OF ready p unary_rule.tautology])
  moreover have "occurs_negatively co (owl_thing D) \<Longrightarrow> conclusion_ok (SubClassInclusionComposed r (owl_thing D))"
    by (rule ok_unary [OF ready p unary_rule.owl_thing [OF t(3)]])
  ultimately show ?thesis
    by (auto simp: on_context_initialization_def subclass_inclusion_tautology_def subclass_inclusion_owl_thing_def
        follows_def unary_ContextInitialization binary_families t(3,5) rappend_def)
qed

lemma on_propagation_yields:
  assumes ready: "dispatch_ready co ps D st" and p: "Propagation d q e \<in> stored st"
  shows "yields (on_propagation st (Propagation d q e) q) {c. follows co ps (stored st) (Propagation d q e) c}"
proof -
  note r = dispatch_readyD [OF ready] and v = context_views [OF r(3)]
  have d: "ctx_root st = d" using r(8) [OF p] by simp
  have "yields (on_propagation st (Propagation d q e) q)
      ((\<lambda>s. SubClassInclusionComposed s e) ` set (multimap_sorted (backward_links st) q))"
    unfolding on_propagation_def
  proof (rule yields_each)
    fix s assume "s \<in> set (multimap_sorted (backward_links st) q)"
    then have b: "BackwardLink d q s \<in> stored st" by (simp add: v(8) d)
    have "conclusion_ok (SubClassInclusionComposed s e)"
      by (rule ok_binary [OF ready b p binary_rule.existential])
    with r(7) [OF b] show "rbind (post_init (BackwardLink (ctx_root st) q s)) (\<lambda>backward.
       emit (subclass_inclusion_composed_object_some_values_from (Some backward) (Some (Propagation d q e)))) =
       Inr [SubClassInclusionComposed s e]"
      by (simp add: d subclass_inclusion_composed_object_some_values_from_def)
  qed
  then show ?thesis
    by (rule yields_eq) (auto simp: v(8) d follows_def unary_Propagation binary_families)
qed

lemma on_disjoint_subsumer_yields:
  assumes ready: "dispatch_ready co ps D st" and p: "DisjointSubsumer d g i \<in> stored st"
  shows "yields (on_disjoint_subsumer st (DisjointSubsumer d g i) g i)
    {c. follows co ps (stored st) (DisjointSubsumer d g i) c}"
proof -
  note r = dispatch_readyD [OF ready] and v = context_views [OF r(3)]
  have d: "ctx_root st = d" using r(8) [OF p] by simp
  have "yields (on_disjoint_subsumer st (DisjointSubsumer d g i) g i)
      ((\<lambda>_. ClassInconsistency d) ` {j \<in> set (multimap_sorted (disjoint_positions st) g). j \<noteq> i})"
    unfolding on_disjoint_subsumer_def
  proof (rule yields_guarded)
    fix j assume "j \<in> set (multimap_sorted (disjoint_positions st) g)"
    then have q: "DisjointSubsumer d g j \<in> stored st" by (simp add: v(10) d)
    have "i \<noteq> j \<Longrightarrow> conclusion_ok (ClassInconsistency d)"
      by (rule ok_binary [OF ready p q binary_rule.disjoint])
    with r(7) [OF q] show "(if j = i then Inr [] else rbind (post_init (DisjointSubsumer (ctx_root st) g j)) (\<lambda>second.
        emit (class_inconsistency_of_disjoint_subsumers (Some (DisjointSubsumer d g i)) (Some second)))) =
        (if j \<noteq> i then Inr [ClassInconsistency d] else Inr [])"
      by (auto simp: d class_inconsistency_of_disjoint_subsumers_def)
  qed
  then show ?thesis
    by (rule yields_eq) (auto simp: v(10) d follows_def unary_DisjointSubsumer binary_families)
qed

lemma on_class_inconsistency_yields:
  assumes ready: "dispatch_ready co ps D st" and p: "ClassInconsistency d \<in> stored st"
  shows "yields (on_class_inconsistency st (ClassInconsistency d))
    {c. follows co ps (stored st) (ClassInconsistency d) c}"
proof -
  note r = dispatch_readyD [OF ready]
  have d: "ctx_root st = d" using r(8) [OF p] by simp
  have m: "no_empty_values (backward_links st)"
    and rel: "multimap_rel (backward_links st) = {(q, s). BackwardLink d q s \<in> stored st}"
    using r(3) d by (simp_all add: context_inv_def maps_inv_def views_inv_def Let_def)
  have row: "s \<in> S \<longleftrightarrow> BackwardLink d q s \<in> stored st" and fin: "finite S"
    if "(q, S) \<in> set (backward_links st)" for q S s
  proof -
    from that m have "multimap_get (backward_links st) q = S"
      by (simp add: no_empty_values_def multimap_get_def)
    then show "s \<in> S \<longleftrightarrow> BackwardLink d q s \<in> stored st" "finite S"
      using multimap_get_rel [of s "backward_links st" q] rel finite_multimap_get [OF m, of q] by auto
  qed
  have "yields (on_class_inconsistency st (ClassInconsistency d))
      (\<Union>x \<in> set (sort_key fst (backward_links st)). ClassInconsistency ` set (sorted_list_of_set (snd x)))"
    unfolding on_class_inconsistency_def
  proof (rule yields_rconcat_map)
    fix x assume "x \<in> set (sort_key fst (backward_links st))"
    then obtain q S where x: "x = (q, S)" "(q, S) \<in> set (backward_links st)" by (metis set_sort surj_pair)
    have "yields (rconcat_map (\<lambda>s. rbind (post_init (BackwardLink (ctx_root st) q s)) (\<lambda>backward.
        emit (class_inconsistency_propagated (Some backward) (Some (ClassInconsistency d))))) (sorted_list_of_set S))
        (ClassInconsistency ` set (sorted_list_of_set S))"
    proof (rule yields_each)
      fix s assume "s \<in> set (sorted_list_of_set S)"
      then have b: "BackwardLink d q s \<in> stored st" using row [OF x(2)] fin [OF x(2)] by simp
      have "conclusion_ok (ClassInconsistency s)"
        by (rule ok_binary [OF ready b p binary_rule.inconsistency])
      with r(7) [OF b] show "rbind (post_init (BackwardLink (ctx_root st) q s)) (\<lambda>backward.
          emit (class_inconsistency_propagated (Some backward) (Some (ClassInconsistency d)))) = Inr [ClassInconsistency s]"
        by (simp add: d class_inconsistency_propagated_def)
    qed
    then show "yields (case x of (q, S) \<Rightarrow> rconcat_map (\<lambda>s. rbind (post_init (BackwardLink (ctx_root st) q s)) (\<lambda>backward.
        emit (class_inconsistency_propagated (Some backward) (Some (ClassInconsistency d))))) (sorted_list_of_set S))
        (ClassInconsistency ` set (sorted_list_of_set (snd x)))"
      by (simp add: x(1))
  qed
  moreover have "\<exists>S. (q, S) \<in> set (backward_links st) \<and> s \<in> S" if "BackwardLink d q s \<in> stored st" for q s
  proof -
    from that rel have "s \<in> multimap_get (backward_links st) q"
      using multimap_get_rel [of s "backward_links st" q] by auto
    then show ?thesis by (auto simp: multimap_get_def split: option.splits dest!: map_of_SomeD)
  qed
  then have "(\<Union>x \<in> set (sort_key fst (backward_links st)). ClassInconsistency ` set (sorted_list_of_set (snd x))) =
      {c. follows co ps (stored st) (ClassInconsistency d) c}"
    using row fin by (force simp: follows_def unary_ClassInconsistency binary_families)
  ultimately show ?thesis by simp
qed

end
