(* ===== verification/Dispatch_Links.thy ===== *)
theory Dispatch_Links
  imports Dispatch
begin

text \<open>The families that join links: forward links, backward links, and their compositions.\<close>

section \<open>One composition\<close>

lemma chain_is_extendable_eq:
  assumes ready: "dispatch_ready co ps D st" and c: "chain_in_table ps c"
  shows "chain_is_extendable D c = Inr (extendable ps c)"
proof -
  note r = dispatch_readyD [OF ready] and t = dispatcher_tables [OF r(1,2)]
  obtain d where d: "compositions_by_left ps False c = Inr d" "d = [] \<longleftrightarrow> (\<forall>l res. \<not> has_composition ps False l c res)"
    by (rule pv.left_row_truth [OF r(4) c, of False])
  obtain e where e: "compositions_by_left ps True c = Inr e" "e = [] \<longleftrightarrow> (\<forall>l res. \<not> has_composition ps True l c res)"
    by (rule pv.left_row_truth [OF r(4) c, of True])
  have "extendable ps c \<longleftrightarrow> d \<noteq> [] \<or> e \<noteq> []"
    unfolding extendable_def d(2) e(2) by (metis (full_types))
  with d(1) e(1) show ?thesis by (auto simp: chain_is_extendable_def t(2))
qed

lemma complex_chain_record:
  assumes ready: "dispatch_ready co ps D st" and comp: "has_composition ps b q c res"
  obtains r suffix where "chain_record ps res = Inr r" and "suffix_chain r = Some suffix"
    and "is_object_property co (first_property r)" and "suffix < U32_RESERVED" and "res < U32_RESERVED"
    and "c < U32_RESERVED" and "chain_in_table ps res"
proof -
  note d = dispatch_readyD [OF ready]
  obtain u where u: "view_of co u ps" by (rule class_settingE [OF d(1)])
  note f = view_facts [OF u]
  have c: "chain_in_table ps c" "chain_in_table ps res" "is_complex ps res"
    using pv.composed_law [OF d(4) comp] by blast+
  have n: "length (records u) < U32_RESERVED" using f(1) unfolding universe_inv_def by blast
  from c(3) obtain suffix where s: "suffix_chain (chain_records ps ! res) = Some suffix"
    by (auto simp: is_complex_def is_singleton_def)
  have res: "res < length (records u)" using c(2) f(4) by simp
  from record_property [OF f(1) this] s have "is_object_property co (first_property (chain_records ps ! res))" "suffix < res"
    by (simp_all add: f(5))
  with s res n c show ?thesis
    by (intro that [of "chain_records ps ! res" suffix]) (auto simp: chain_record_def f(4,5))
qed

definition composition_products ::
    "compiled_ontology \<Rightarrow> property_saturation \<Rightarrow> nat \<Rightarrow> nat \<Rightarrow> nat \<Rightarrow> conclusion set" where
  "composition_products co ps s t res =
     (if extendable ps res then {ForwardLink s res t} else (\<lambda>p. BackwardLink t p s) ` {p. told_super co ps res p})"

lemma produce_link_composition_yields:
  assumes ready: "dispatch_ready co ps D st" and comp: "has_composition ps False q c res"
    and b: "BackwardLink d q s \<in> stored st" and f: "ForwardLink d c t \<in> stored st"
  shows "yields (produce_link_composition D (BackwardLink d q s) q (ForwardLink d c t) c res)
    (composition_products co ps s t res)"
proof -
  note r = dispatch_readyD [OF ready] and tb = dispatcher_tables [OF r(1,2)]
  obtain rec suffix where rec: "chain_record ps res = Inr rec" "suffix_chain rec = Some suffix"
    "is_object_property co (first_property rec)" "suffix < U32_RESERVED" "res < U32_RESERVED" "c < U32_RESERVED"
    "chain_in_table ps res"
    by (rule complex_chain_record [OF ready comp])
  have "is_object_property co q" using r(6) [OF b] by simp
  then obtain qc where qc: "singleton_chain ps q = Inr qc" "qc < U32_RESERVED"
    using singleton_chain_ok [OF ready] by metis
  obtain fc where fc: "singleton_chain ps (first_property rec) = Inr fc" "fc < U32_RESERVED"
    using singleton_chain_ok [OF ready rec(3)] by metis
  show ?thesis
  proof (cases "extendable ps res")
    case True
    have "conclusion_ok (ForwardLink s res t)"
      by (rule ok_binary [OF ready b f binary_rule.link_chain [OF comp True]])
    with True show ?thesis
      using rec qc fc by (simp add: produce_link_composition_def tb(2) chain_is_extendable_eq [OF ready rec(7)]
          forward_link_composition_def composition_products_def)
  next
    case False
    have fwd: "conclusion_ok (ForwardLink s res t)"
      using r(7) [OF b] r(7) [OF f] rec(5) by (simp add: conclusion_ok_def)
    have "yields (rconcat_map (\<lambda>p. rbind (singleton_chain ps p) (\<lambda>pc. rbind (new_sub_property_chain res pc) (\<lambda>sup.
        emit (backward_link_composition (Some (BackwardLink d q s)) (Some (SubPropertyChain qc fc))
          (Some (ForwardLink d c t)) (Some (SubPropertyChain c suffix)) (Some sup) res p qc fc suffix pc))))
        (index_rows (told_super_properties D) res))
      ((\<lambda>p. BackwardLink t p s) ` set (index_rows (told_super_properties D) res))"
    proof (rule yields_each)
      fix p assume "p \<in> set (index_rows (told_super_properties D) res)"
      then have p: "told_super co ps res p" by (simp add: tb(19))
      obtain pc where pc: "singleton_chain ps p = Inr pc" "pc < U32_RESERVED"
        using singleton_chain_ok [OF ready told_super_property [OF r(5) p]] by metis
      have "conclusion_ok (BackwardLink t p s)"
        by (rule ok_binary [OF ready b f binary_rule.link_super [OF comp False p]])
      with fwd show "rbind (singleton_chain ps p) (\<lambda>pc. rbind (new_sub_property_chain res pc) (\<lambda>sup.
        emit (backward_link_composition (Some (BackwardLink d q s)) (Some (SubPropertyChain qc fc))
          (Some (ForwardLink d c t)) (Some (SubPropertyChain c suffix)) (Some sup) res p qc fc suffix pc))) =
          Inr [BackwardLink t p s]"
        using pc qc fc rec by (simp add: backward_link_composition_def forward_link_composition_def)
    qed
    then show ?thesis
      using False rec qc fc
      by (simp add: produce_link_composition_def tb(2,19) chain_is_extendable_eq [OF ready rec(7)]
          composition_products_def)
  qed
qed

lemma link_binary:
  "binary_rule co ps (BackwardLink d q s) (ForwardLink d c t) x \<longleftrightarrow>
   (\<exists>res. has_composition ps False q c res \<and> x \<in> composition_products co ps s t res)"
  unfolding binary_first_BackwardLink composition_products_def by (auto split: if_splits)

lemma forward_partner:
  "(\<exists>p \<in> S. binary_rule co ps (ForwardLink d c t) p x \<or> binary_rule co ps p (ForwardLink d c t) x) \<longleftrightarrow>
   (\<exists>q s. BackwardLink d q s \<in> S \<and> binary_rule co ps (BackwardLink d q s) (ForwardLink d c t) x)"
proof -
  have "\<exists>q s. p = BackwardLink d q s" if "binary_rule co ps p (ForwardLink d c t) x" for p
    using that by (cases rule: binary_rule.cases) auto
  moreover have "\<not> binary_rule co ps (ForwardLink d c t) p x" for p
    by (simp add: binary_first_ForwardLink)
  ultimately show ?thesis by blast
qed

section \<open>Forward links\<close>

lemma index_rel_row: "(k, vs) \<in> set d \<Longrightarrow> v \<in> set vs \<Longrightarrow> (k, v) \<in> index_rel d"
  by (auto simp: index_rel_def)

lemma UN_index_rel: "(\<Union>x \<in> set d. \<Union>v \<in> set (snd x). F (fst x) v) = (\<Union>(k, v) \<in> index_rel d. F k v)"
  by (force simp: index_rel_def)

lemma reversed_rows_yield:
  assumes ready: "dispatch_ready co ps D st" and f: "ForwardLink d c t \<in> stored st" and "is_complex ps c"
  shows "yields (rconcat_map (\<lambda>p. rbind (singleton_chain ps p) (\<lambda>pc. rbind (new_sub_property_chain c pc) (\<lambda>sub.
      emit (backward_link_reversed_expanded (Some (ForwardLink d c t)) (Some sub) p pc))))
      (index_rows (told_super_properties D) c))
    ((\<lambda>p. BackwardLink t p d) ` {p. told_super co ps c p})"
proof -
  note r = dispatch_readyD [OF ready] and tb = dispatcher_tables [OF r(1,2)]
  have c: "c < U32_RESERVED" using r(7) [OF f] by (simp add: conclusion_ok_def)
  have "yields (rconcat_map (\<lambda>p. rbind (singleton_chain ps p) (\<lambda>pc. rbind (new_sub_property_chain c pc) (\<lambda>sub.
      emit (backward_link_reversed_expanded (Some (ForwardLink d c t)) (Some sub) p pc))))
      (index_rows (told_super_properties D) c))
    ((\<lambda>p. BackwardLink t p d) ` set (index_rows (told_super_properties D) c))"
  proof (rule yields_each)
    fix p assume "p \<in> set (index_rows (told_super_properties D) c)"
    then have p: "told_super co ps c p" by (simp add: tb(19))
    obtain pc where pc: "singleton_chain ps p = Inr pc" "pc < U32_RESERVED"
      using singleton_chain_ok [OF ready told_super_property [OF r(5) p]] by metis
    have "conclusion_ok (BackwardLink t p d)"
      by (rule ok_unary [OF ready f unary_rule.reversed_expanded [OF assms(3) p]])
    with pc c show "rbind (singleton_chain ps p) (\<lambda>pc. rbind (new_sub_property_chain c pc) (\<lambda>sub.
      emit (backward_link_reversed_expanded (Some (ForwardLink d c t)) (Some sub) p pc))) = Inr [BackwardLink t p d]"
      by (simp add: backward_link_reversed_expanded_def)
  qed
  then show ?thesis by (simp add: tb(19))
qed

lemma forward_compositions_yield:
  assumes ready: "dispatch_ready co ps D st" and f: "ForwardLink d c t \<in> stored st"
  shows "yields (rbind (compositions_by_left ps False c) (\<lambda>rows.
       rconcat_map (\<lambda>(relation, result_chains).
         rconcat_map (\<lambda>source.
           rbind (post_init (BackwardLink (ctx_root st) relation source)) (\<lambda>backward.
           rconcat_map (produce_link_composition D backward relation (ForwardLink d c t) c) result_chains))
         (multimap_sorted (backward_links st) relation))
       (sort_key fst rows)))
    {x. \<exists>q s. BackwardLink d q s \<in> stored st \<and> binary_rule co ps (BackwardLink d q s) (ForwardLink d c t) x}"
    (is "yields ?m ?S")
proof -
  note r = dispatch_readyD [OF ready] and v = context_views [OF r(3)]
  have d: "ctx_root st = d" using r(8) [OF f] by simp
  have "chain_in_table ps c" using r(6) [OF f] by simp
  from pv.by_left_law [OF r(4) this, of False] obtain rows where rows: "compositions_by_left ps False c = Inr rows"
    "index_rel rows = {(l, res). has_composition ps False l c res}" by blast
  have comp: "has_composition ps False q c res" if "(q, rs) \<in> set rows" "res \<in> set rs" for q rs res
    using index_rel_row [OF that] rows(2) by simp
  let ?links = "\<lambda>q. {s. BackwardLink d q s \<in> stored st}"
  have "yields (rconcat_map (\<lambda>(relation, result_chains). rconcat_map (\<lambda>source.
           rbind (post_init (BackwardLink (ctx_root st) relation source)) (\<lambda>backward.
           rconcat_map (produce_link_composition D backward relation (ForwardLink d c t) c) result_chains))
         (multimap_sorted (backward_links st) relation)) (sort_key fst rows))
      (\<Union>x \<in> set (sort_key fst rows). \<Union>s \<in> ?links (fst x). \<Union>res \<in> set (snd x). composition_products co ps s t res)"
  proof (rule yields_rconcat_map)
    fix x assume "x \<in> set (sort_key fst rows)"
    then obtain q rs where x: "x = (q, rs)" "(q, rs) \<in> set rows" by (metis set_sort surj_pair)
    have "yields (rconcat_map (\<lambda>source. rbind (post_init (BackwardLink (ctx_root st) q source)) (\<lambda>backward.
           rconcat_map (produce_link_composition D backward q (ForwardLink d c t) c) rs))
         (multimap_sorted (backward_links st) q))
       (\<Union>s \<in> set (multimap_sorted (backward_links st) q). \<Union>res \<in> set rs. composition_products co ps s t res)"
    proof (rule yields_rconcat_map)
      fix s assume "s \<in> set (multimap_sorted (backward_links st) q)"
      then have b: "BackwardLink d q s \<in> stored st" by (simp add: v(8) d)
      have "yields (rconcat_map (produce_link_composition D (BackwardLink d q s) q (ForwardLink d c t) c) rs)
          (\<Union>res \<in> set rs. composition_products co ps s t res)"
        by (rule yields_rconcat_map, rule produce_link_composition_yields [OF ready comp [OF x(2)] b f])
      with r(7) [OF b] show "yields (rbind (post_init (BackwardLink (ctx_root st) q s)) (\<lambda>backward.
           rconcat_map (produce_link_composition D backward q (ForwardLink d c t) c) rs))
         (\<Union>res \<in> set rs. composition_products co ps s t res)" by (simp add: d)
    qed
    then show "yields (case x of (relation, result_chains) \<Rightarrow> rconcat_map (\<lambda>source.
           rbind (post_init (BackwardLink (ctx_root st) relation source)) (\<lambda>backward.
           rconcat_map (produce_link_composition D backward relation (ForwardLink d c t) c) result_chains))
         (multimap_sorted (backward_links st) relation))
       (\<Union>s \<in> ?links (fst x). \<Union>res \<in> set (snd x). composition_products co ps s t res)"
      by (simp add: x(1) v(8) d)
  qed
  moreover have "(\<Union>x \<in> set (sort_key fst rows). \<Union>s \<in> ?links (fst x). \<Union>res \<in> set (snd x). composition_products co ps s t res) = ?S"
  proof -
    have "(\<Union>x \<in> set (sort_key fst rows). \<Union>s \<in> ?links (fst x). \<Union>res \<in> set (snd x). composition_products co ps s t res) =
        (\<Union>x \<in> set rows. \<Union>res \<in> set (snd x). \<Union>s \<in> ?links (fst x). composition_products co ps s t res)" by auto
    also have "\<dots> = (\<Union>(q, res) \<in> index_rel rows. \<Union>s \<in> ?links q. composition_products co ps s t res)"
      by (rule UN_index_rel)
    also have "\<dots> = ?S"
      unfolding rows(2) link_binary by auto
    finally show ?thesis .
  qed
  ultimately show ?thesis by (simp add: rows(1))
qed

lemma on_forward_link_yields:
  assumes ready: "dispatch_ready co ps D st" and p: "ForwardLink d c t \<in> stored st"
  shows "yields (on_forward_link D st (ForwardLink d c t) c) {x. follows co ps (stored st) (ForwardLink d c t) x}"
proof -
  note r = dispatch_readyD [OF ready] and tb = dispatcher_tables [OF r(1,2)]
  have c: "chain_in_table ps c" using r(6) [OF p] by simp
  let ?rev = "if is_complex ps c then (\<lambda>p. BackwardLink t p d) ` {p. told_super co ps c p} else {}"
  have "yields (if is_singleton (chain_records ps ! c) then Inr []
       else rconcat_map (\<lambda>p. rbind (singleton_chain ps p) (\<lambda>pc. rbind (new_sub_property_chain c pc) (\<lambda>sub.
         emit (backward_link_reversed_expanded (Some (ForwardLink d c t)) (Some sub) p pc))))
         (index_rows (told_super_properties D) c)) ?rev"
    using reversed_rows_yield [OF ready p] by (auto simp: is_complex_def)
  note y = yields_rappend [OF this forward_compositions_yield [OF ready p]]
  have rec: "chain_record ps c = Inr (chain_records ps ! c)"
    using c by (simp add: chain_record_def chain_in_table_def)
  show ?thesis
    unfolding on_forward_link_def tb(2) rec rbind_simps
    by (rule yields_eq [OF y]) (auto simp: follows_def unary_ForwardLink forward_partner split: if_splits)
qed

section \<open>Backward links\<close>

lemma backward_compositions_yield:
  assumes ready: "dispatch_ready co ps D st" and b: "BackwardLink d q s \<in> stored st"
  shows "yields (rbind (compositions_by_right ps False q) (\<lambda>rows.
       rconcat_map (\<lambda>(right_chain, result_chains).
         rconcat_map (\<lambda>target.
           rbind (post_init (ForwardLink (ctx_root st) right_chain target)) (\<lambda>forward.
           rconcat_map (produce_link_composition D (BackwardLink d q s) q forward right_chain) result_chains))
         (multimap_sorted (forward_links st) right_chain))
       (sort_key fst rows)))
    {x. \<exists>c t. ForwardLink d c t \<in> stored st \<and> binary_rule co ps (BackwardLink d q s) (ForwardLink d c t) x}"
    (is "yields ?m ?S")
proof -
  note r = dispatch_readyD [OF ready] and v = context_views [OF r(3)]
  have d: "ctx_root st = d" using r(8) [OF b] by simp
  have "named_property ps q" using r(6) [OF b] object_property_named [OF r(1)] by simp
  from pv.by_right_law [OF r(4) this, of False] obtain rows where rows: "compositions_by_right ps False q = Inr rows"
    "index_rel rows = {(c, res). has_composition ps False q c res}" by blast
  have comp: "has_composition ps False q c res" if "(c, rs) \<in> set rows" "res \<in> set rs" for c rs res
    using index_rel_row [OF that] rows(2) by simp
  let ?links = "\<lambda>c. {t. ForwardLink d c t \<in> stored st}"
  have "yields (rconcat_map (\<lambda>(right_chain, result_chains). rconcat_map (\<lambda>target.
           rbind (post_init (ForwardLink (ctx_root st) right_chain target)) (\<lambda>forward.
           rconcat_map (produce_link_composition D (BackwardLink d q s) q forward right_chain) result_chains))
         (multimap_sorted (forward_links st) right_chain)) (sort_key fst rows))
      (\<Union>x \<in> set (sort_key fst rows). \<Union>t \<in> ?links (fst x). \<Union>res \<in> set (snd x). composition_products co ps s t res)"
  proof (rule yields_rconcat_map)
    fix x assume "x \<in> set (sort_key fst rows)"
    then obtain c rs where x: "x = (c, rs)" "(c, rs) \<in> set rows" by (metis set_sort surj_pair)
    have "yields (rconcat_map (\<lambda>target. rbind (post_init (ForwardLink (ctx_root st) c target)) (\<lambda>forward.
           rconcat_map (produce_link_composition D (BackwardLink d q s) q forward c) rs))
         (multimap_sorted (forward_links st) c))
       (\<Union>t \<in> set (multimap_sorted (forward_links st) c). \<Union>res \<in> set rs. composition_products co ps s t res)"
    proof (rule yields_rconcat_map)
      fix t assume "t \<in> set (multimap_sorted (forward_links st) c)"
      then have f: "ForwardLink d c t \<in> stored st" by (simp add: v(7) d)
      have "yields (rconcat_map (produce_link_composition D (BackwardLink d q s) q (ForwardLink d c t) c) rs)
          (\<Union>res \<in> set rs. composition_products co ps s t res)"
        by (rule yields_rconcat_map, rule produce_link_composition_yields [OF ready comp [OF x(2)] b f])
      with r(7) [OF f] show "yields (rbind (post_init (ForwardLink (ctx_root st) c t)) (\<lambda>forward.
           rconcat_map (produce_link_composition D (BackwardLink d q s) q forward c) rs))
         (\<Union>res \<in> set rs. composition_products co ps s t res)" by (simp add: d)
    qed
    then show "yields (case x of (chain, result_chains) \<Rightarrow> rconcat_map (\<lambda>target.
           rbind (post_init (ForwardLink (ctx_root st) chain target)) (\<lambda>forward.
           rconcat_map (produce_link_composition D (BackwardLink d q s) q forward chain) result_chains))
         (multimap_sorted (forward_links st) chain))
       (\<Union>t \<in> ?links (fst x). \<Union>res \<in> set (snd x). composition_products co ps s t res)"
      by (simp add: x(1) v(7) d)
  qed
  moreover have "(\<Union>x \<in> set (sort_key fst rows). \<Union>t \<in> ?links (fst x). \<Union>res \<in> set (snd x). composition_products co ps s t res) = ?S"
  proof -
    have "(\<Union>x \<in> set (sort_key fst rows). \<Union>t \<in> ?links (fst x). \<Union>res \<in> set (snd x). composition_products co ps s t res) =
        (\<Union>x \<in> set rows. \<Union>res \<in> set (snd x). \<Union>t \<in> ?links (fst x). composition_products co ps s t res)" by auto
    also have "\<dots> = (\<Union>(c, res) \<in> index_rel rows. \<Union>t \<in> ?links c. composition_products co ps s t res)"
      by (rule UN_index_rel)
    also have "\<dots> = ?S"
      unfolding rows(2) link_binary by auto
    finally show ?thesis .
  qed
  ultimately show ?thesis by (simp add: rows(1))
qed

lemma carried_existentials_yield:
  assumes ready: "dispatch_ready co ps D st" and b: "BackwardLink d q s \<in> stored st"
  shows "yields (rconcat_map (\<lambda>carry. rbind (post_init (Propagation (ctx_root st) q carry)) (\<lambda>p.
      emit (subclass_inclusion_composed_object_some_values_from (Some (BackwardLink d q s)) (Some p))))
      (multimap_sorted (propagations st) q))
    (SubClassInclusionComposed s ` {e. Propagation d q e \<in> stored st})"
proof -
  note r = dispatch_readyD [OF ready] and v = context_views [OF r(3)]
  have d: "ctx_root st = d" using r(8) [OF b] by simp
  have "yields (rconcat_map (\<lambda>carry. rbind (post_init (Propagation (ctx_root st) q carry)) (\<lambda>p.
      emit (subclass_inclusion_composed_object_some_values_from (Some (BackwardLink d q s)) (Some p))))
      (multimap_sorted (propagations st) q))
    (SubClassInclusionComposed s ` set (multimap_sorted (propagations st) q))"
  proof (rule yields_each)
    fix e assume "e \<in> set (multimap_sorted (propagations st) q)"
    then have p: "Propagation d q e \<in> stored st" by (simp add: v(9) d)
    have "conclusion_ok (SubClassInclusionComposed s e)"
      by (rule ok_binary [OF ready b p binary_rule.existential])
    with r(7) [OF p] show "rbind (post_init (Propagation (ctx_root st) q e)) (\<lambda>p.
      emit (subclass_inclusion_composed_object_some_values_from (Some (BackwardLink d q s)) (Some p))) =
      Inr [SubClassInclusionComposed s e]"
      by (simp add: d subclass_inclusion_composed_object_some_values_from_def)
  qed
  then show ?thesis by (simp add: v(9) d)
qed

lemma ranges_yield:
  assumes ready: "dispatch_ready co ps D st" and q: "is_object_property co q"
  shows "\<exists>es. ranges ps q = Inr es \<and> set es = {e. has_range ps q e}"
proof -
  note r = dispatch_readyD [OF ready]
  from pv.ranges_law [OF r(4)] object_property_named [OF r(1)] q
  have "yields (ranges ps q) {e. has_range ps q e}" by blast
  then show ?thesis by (auto simp: yields_def)
qed

lemma backward_partner:
  "(\<exists>p \<in> S. binary_rule co ps (BackwardLink d q s) p x \<or> binary_rule co ps p (BackwardLink d q s) x) \<longleftrightarrow>
   (\<exists>e. Propagation d q e \<in> S \<and> x = SubClassInclusionComposed s e) \<or>
   (ClassInconsistency d \<in> S \<and> x = ClassInconsistency s) \<or>
   (\<exists>c t. ForwardLink d c t \<in> S \<and> binary_rule co ps (BackwardLink d q s) (ForwardLink d c t) x)"
proof -
  have "(\<exists>e. p = Propagation d q e \<and> x = SubClassInclusionComposed s e) \<or>
      (p = ClassInconsistency d \<and> x = ClassInconsistency s) \<or> (\<exists>c t. p = ForwardLink d c t)"
    if "binary_rule co ps (BackwardLink d q s) p x" for p
    using that by (cases rule: binary_rule.cases) auto
  moreover have "\<not> binary_rule co ps p (BackwardLink d q s) x" for p
    by (simp add: binary_second_BackwardLink)
  ultimately show ?thesis using binary_rule.existential binary_rule.inconsistency by metis
qed

lemma on_backward_link_yields:
  assumes ready: "dispatch_ready co ps D st" and b: "BackwardLink d q s \<in> stored st"
  shows "yields (on_backward_link D st (BackwardLink d q s) q) {x. follows co ps (stored st) (BackwardLink d q s) x}"
proof -
  note r = dispatch_readyD [OF ready] and tb = dispatcher_tables [OF r(1,2)] and v = context_views [OF r(3)]
  have d: "ctx_root st = d" using r(8) [OF b] by simp
  have q: "is_object_property co q" using r(6) [OF b] by simp
  have "conclusion_ok (SubContextInitialization d q)" by (rule ok_unary [OF ready b unary_rule.subcontext])
  then have y1: "yields (produce (subcontext_initialization_no_premises (ctx_root st) q)) {SubContextInitialization d q}"
    by (simp add: d subcontext_initialization_no_premises_def)
  have "ClassInconsistency d \<in> stored st \<Longrightarrow> conclusion_ok (ClassInconsistency d) \<and> conclusion_ok (ClassInconsistency s)"
    using r(7) ok_binary [OF ready b _ binary_rule.inconsistency] by blast
  then have y3: "yields (if inconsistent st then
      rbind (post_init (ClassInconsistency (ctx_root st))) (\<lambda>i.
      emit (class_inconsistency_propagated (Some (BackwardLink d q s)) (Some i))) else Inr [])
      (if ClassInconsistency d \<in> stored st then {ClassInconsistency s} else {})"
    by (simp add: v(4) d class_inconsistency_propagated_def)
  obtain es where es: "ranges ps q = Inr es" "set es = {e. has_range ps q e}" using ranges_yield [OF ready q] by blast
  have "yields (rconcat_map (\<lambda>e. produce (post_init (SubClassInclusionDecomposed (ctx_root st) e))) es)
      (SubClassInclusionDecomposed d ` set es)"
  proof (rule yields_each)
    fix e assume "e \<in> set es"
    then have "has_range ps q e" using es(2) by simp
    then have "conclusion_ok (SubClassInclusionDecomposed d e)"
      by (rule ok_unary [OF ready b unary_rule.link_range])
    then show "produce (post_init (SubClassInclusionDecomposed (ctx_root st) e)) = Inr [SubClassInclusionDecomposed d e]"
      by (simp add: d)
  qed
  then have y4: "yields (rbind (ranges ps q) (rconcat_map (\<lambda>e. produce (post_init (SubClassInclusionDecomposed (ctx_root st) e)))))
      (SubClassInclusionDecomposed d ` {e. has_range ps q e})"
    by (simp add: es)
  note y = yields_rappend [OF y1 yields_rappend [OF carried_existentials_yield [OF ready b] yields_rappend [OF y3
        yields_rappend [OF y4 backward_compositions_yield [OF ready b]]]]]
  show ?thesis
    unfolding on_backward_link_def tb(2)
    by (rule yields_eq [OF y]) (auto simp: follows_def unary_BackwardLink backward_partner split: if_splits)
qed

end
