(* ===== verification/Dispatch_Subsumers.thy ===== *)
theory Dispatch_Subsumers
  imports Dispatch_Links
begin

text \<open>The families triggered by subsumers, and the refinement theorem over all families.\<close>

section \<open>Propagations\<close>

lemma carry_chain_ok:
  assumes ready: "dispatch_ready co ps D st" and e: "indexed co e OBJECT_SOME_VALUES_FROM [p, f]"
  obtains c qs where "singleton_chain ps p = Inr c" and "sub_properties ps c = Inr qs"
    and "set qs = {q. property_under ps q c}" and "c < U32_RESERVED"
proof -
  note r = dispatch_readyD [OF ready]
  have p: "is_object_property co p" using indexed_arguments(2) [OF r(5) e] by auto
  then have "named_property ps p" using object_property_named [OF r(1)] by blast
  then obtain c qs where "singleton_chain ps p = Inr c" "sub_properties ps c = Inr qs"
    "set qs = {q. property_under ps q c}"
    using pv.compatible_test [OF r(4)] by metis
  moreover from singleton_chain_ok [OF ready p] this(1) have "c < U32_RESERVED" by (metis sum.inject(2))
  ultimately show ?thesis by (rule that)
qed

lemma on_subcontext_initialization_yields:
  assumes ready: "dispatch_ready co ps D st" and p: "SubContextInitialization d q \<in> stored st"
  shows "yields (on_subcontext_initialization D st (SubContextInitialization d q) q)
    {x. follows co ps (stored st) (SubContextInitialization d q) x}"
proof -
  note r = dispatch_readyD [OF ready] and tb = dispatcher_tables [OF r(1,2)] and v = context_views [OF r(3)]
  have d: "ctx_root st = d" using r(8) [OF p] by simp
  have "is_object_property co q" using r(6) [OF p] by simp
  then obtain qc where qc: "singleton_chain ps q = Inr qc" "qc < U32_RESERVED"
    using singleton_chain_ok [OF ready] by metis
  let ?S = "\<lambda>f. {x. binary_rule co ps (SubContextInitialization d q) (SubClassInclusionComposed d f) x}"
  have row: "yields (case y of (existential, carry_property) \<Rightarrow>
         rbind (singleton_chain ps carry_property) (\<lambda>carry_chain.
         rbind (sub_properties ps carry_chain) (\<lambda>compatible.
         if q \<notin> set compatible then Inr []
         else rbind (post_init (SubClassInclusionComposed d f)) (\<lambda>filler_premise.
           rbind (new_sub_property_chain qc carry_chain) (\<lambda>sub.
           emit (propagation_generated (Some (SubContextInitialization d q)) (Some filler_premise) (Some sub)
             f existential qc carry_chain))))))
       {Propagation d q e |e p c. y = (e, p) \<and> singleton_chain ps p = Inr c \<and> property_under ps q c}"
    if f: "SubClassInclusionComposed d f \<in> stored st" and y: "y \<in> set (index_rows (existentials_by_filler D) f)" for f y
  proof -
    obtain e p' where y': "y = (e, p')" by (cases y)
    with y have e: "indexed co e OBJECT_SOME_VALUES_FROM [p', f]" "occurs_negatively co e" by (simp_all add: tb(15))
    obtain c qs where c: "singleton_chain ps p' = Inr c" "sub_properties ps c = Inr qs"
      "set qs = {q. property_under ps q c}" "c < U32_RESERVED"
      by (rule carry_chain_ok [OF ready e(1)])
    have "property_under ps q c \<Longrightarrow> conclusion_ok (Propagation d q e)"
      by (rule ok_binary [OF ready p f binary_rule.propagation [OF e c(1)]])
    with c qc r(7) [OF f] show ?thesis by (auto simp: y' propagation_generated_def)
  qed
  have "yields (rconcat_map (\<lambda>filler. rconcat_map (\<lambda>(existential, carry_property).
         rbind (singleton_chain ps carry_property) (\<lambda>carry_chain.
         rbind (sub_properties ps carry_chain) (\<lambda>compatible.
         if q \<notin> set compatible then Inr []
         else rbind (post_init (SubClassInclusionComposed d filler)) (\<lambda>filler_premise.
           rbind (new_sub_property_chain qc carry_chain) (\<lambda>sub.
           emit (propagation_generated (Some (SubContextInitialization d q)) (Some filler_premise) (Some sub)
             filler existential qc carry_chain))))))
       (index_rows (existentials_by_filler D) filler)) (sorted_list_of_set (composed_subsumers st)))
    (\<Union>f \<in> set (sorted_list_of_set (composed_subsumers st)).
      \<Union>y \<in> set (index_rows (existentials_by_filler D) f).
      {Propagation d q e |e p c. y = (e, p) \<and> singleton_chain ps p = Inr c \<and> property_under ps q c})"
    by (rule yields_rconcat_map, rule yields_rconcat_map, rule row) (simp_all add: v(5) d)
  moreover have "(\<Union>f \<in> set (sorted_list_of_set (composed_subsumers st)).
      \<Union>y \<in> set (index_rows (existentials_by_filler D) f).
      {Propagation d q e |e p c. y = (e, p) \<and> singleton_chain ps p = Inr c \<and> property_under ps q c}) =
    {x. follows co ps (stored st) (SubContextInitialization d q) x}"
    unfolding v(5) d tb(15) follows_def unary_SubContextInitialization binary_first_SubContextInitialization
      binary_second_SubContextInitialization by blast
  ultimately show ?thesis
    unfolding on_subcontext_initialization_def tb(2) qc(1) rbind_simps d by simp
qed

section \<open>Decomposed subsumers\<close>

text \<open>The unary products of one decomposed expression, and its contradiction with a complement.\<close>

definition structural_products ::
    "compiled_ontology \<Rightarrow> property_saturation \<Rightarrow> conclusion set \<Rightarrow> nat \<Rightarrow> nat \<Rightarrow> conclusion set" where
  "structural_products co ps S d s =
     {x. \<exists>a b. indexed co s OBJECT_INTERSECTION_OF [a, b] \<and> occurs_positively co s \<and>
        (x = SubClassInclusionDecomposed d a \<or> x = SubClassInclusionDecomposed d b)} \<union>
     {x. \<exists>p f. indexed co s OBJECT_SOME_VALUES_FROM [p, f] \<and> occurs_positively co s \<and>
        (x = BackwardLink f p d \<or> (\<exists>c l res. singleton_chain ps p = Inr c \<and>
           has_composition ps False l c res \<and> x = ForwardLink d c f))} \<union>
     {x. \<exists>p. indexed co s OBJECT_HAS_SELF [p] \<and> occurs_positively co s \<and>
        (x = BackwardLink d p d \<or> (\<exists>c l res. singleton_chain ps p = Inr c \<and>
           has_composition ps False l c res \<and> x = ForwardLink d c d) \<or>
         (\<exists>e. has_range ps p e \<and> x = SubClassInclusionDecomposed d e))} \<union>
     {x. \<exists>a. indexed co s OBJECT_COMPLEMENT_OF [a] \<and> occurs_positively co s \<and>
        SubClassInclusionComposed d a \<in> S \<and> x = ClassInconsistency d}"

lemma composition_row_exists:
  assumes ready: "dispatch_ready co ps D st" and c: "chain_in_table ps c"
  obtains rows where "compositions_by_left ps False c = Inr rows"
    and "rows \<noteq> [] \<longleftrightarrow> (\<exists>l res. has_composition ps False l c res)"
proof -
  note r = dispatch_readyD [OF ready]
  obtain d where "compositions_by_left ps False c = Inr d" "d = [] \<longleftrightarrow> (\<forall>l res. \<not> has_composition ps False l c res)"
    by (rule pv.left_row_truth [OF r(4) c, of False])
  then show ?thesis by (intro that [of d]) auto
qed

lemma decomposed_intersection:
  assumes ready: "dispatch_ready co ps D st" and p: "SubClassInclusionDecomposed d s \<in> stored st"
    and s: "tag (expressions co ! s) = OBJECT_INTERSECTION_OF" "occurs_positively co s"
  shows "yields (on_decomposed_expression D st (SubClassInclusionDecomposed d s) s) (structural_products co ps (stored st) d s)"
proof -
  note r = dispatch_readyD [OF ready] and tb = dispatcher_tables [OF r(1,2)]
  have "is_expression co s" using r(6) [OF p] by simp
  then obtain a b where "arguments (expressions co ! s) = [a, b]"
    using intersection_arguments [OF r(5) _ s(1)] by metis
  with s(1) \<open>is_expression co s\<close> have i: "indexed co s OBJECT_INTERSECTION_OF [a, b]" by (simp add: indexed_def)
  have "conclusion_ok (SubClassInclusionDecomposed d a)" "conclusion_ok (SubClassInclusionDecomposed d b)"
    by (rule ok_unary [OF ready p unary_rule.first_conjunct [OF i s(2)]],
        rule ok_unary [OF ready p unary_rule.second_conjunct [OF i s(2)]])
  moreover have "structural_products co ps (stored st) d s = {SubClassInclusionDecomposed d a, SubClassInclusionDecomposed d b}"
    using i s by (auto simp: structural_products_def indexed_def)
  ultimately show ?thesis
    using i s by (simp add: on_decomposed_expression_def tb(1) indexed_def occurs_positively_def Let_def rappend_def
        subclass_inclusion_decomposed_first_conjunct_def subclass_inclusion_decomposed_second_conjunct_def)
qed

lemma decomposed_existential:
  assumes ready: "dispatch_ready co ps D st" and p: "SubClassInclusionDecomposed d s \<in> stored st"
    and s: "tag (expressions co ! s) = OBJECT_SOME_VALUES_FROM" "occurs_positively co s"
  shows "yields (on_decomposed_expression D st (SubClassInclusionDecomposed d s) s) (structural_products co ps (stored st) d s)"
proof -
  note r = dispatch_readyD [OF ready] and tb = dispatcher_tables [OF r(1,2)]
  have "is_expression co s" using r(6) [OF p] by simp
  then obtain q f where "arguments (expressions co ! s) = [q, f]" and q: "is_object_property co q"
    using existential_arguments [OF r(5) _ s(1)] by metis
  with s(1) \<open>is_expression co s\<close> have i: "indexed co s OBJECT_SOME_VALUES_FROM [q, f]" by (simp add: indexed_def)
  obtain c where c: "singleton_chain ps q = Inr c" "chain_in_table ps c"
    using singleton_chain_ok [OF ready q] by metis
  obtain rows where rows: "compositions_by_left ps False c = Inr rows"
    "rows \<noteq> [] \<longleftrightarrow> (\<exists>l res. has_composition ps False l c res)"
    by (rule composition_row_exists [OF ready c(2)])
  have "conclusion_ok (BackwardLink f q d)"
    by (rule ok_unary [OF ready p unary_rule.existential_backward [OF i s(2)]])
  moreover have "rows \<noteq> [] \<Longrightarrow> conclusion_ok (ForwardLink d c f)"
    unfolding rows(2) using ok_unary [OF ready p unary_rule.existential_forward [OF i s(2) c(1)]] by blast
  moreover have "structural_products co ps (stored st) d s =
      insert (BackwardLink f q d) (if rows \<noteq> [] then {ForwardLink d c f} else {})"
    unfolding rows(2) using i s c(1) by (auto simp: structural_products_def indexed_def)
  ultimately show ?thesis
    using i s c(1) rows(1) by (auto simp: on_decomposed_expression_def tb(1,2) indexed_def occurs_positively_def Let_def
        rappend_def forward_link_of_object_some_values_from_def backward_link_of_object_some_values_from_def)
qed

lemma decomposed_has_self:
  assumes ready: "dispatch_ready co ps D st" and p: "SubClassInclusionDecomposed d s \<in> stored st"
    and s: "tag (expressions co ! s) = OBJECT_HAS_SELF" "occurs_positively co s"
  shows "yields (on_decomposed_expression D st (SubClassInclusionDecomposed d s) s) (structural_products co ps (stored st) d s)"
proof -
  note r = dispatch_readyD [OF ready] and tb = dispatcher_tables [OF r(1,2)]
  have "is_expression co s" using r(6) [OF p] by simp
  then obtain q where "arguments (expressions co ! s) = [q]" and q: "is_object_property co q"
    using has_self_arguments [OF r(5) _ s(1)] by metis
  with s(1) \<open>is_expression co s\<close> have i: "indexed co s OBJECT_HAS_SELF [q]" by (simp add: indexed_def)
  obtain c where c: "singleton_chain ps q = Inr c" "chain_in_table ps c" "q < U32_RESERVED"
    using singleton_chain_ok [OF ready q] by metis
  obtain rows where rows: "compositions_by_left ps False c = Inr rows"
    "rows \<noteq> [] \<longleftrightarrow> (\<exists>l res. has_composition ps False l c res)"
    by (rule composition_row_exists [OF ready c(2)])
  obtain es where es: "ranges ps q = Inr es" "set es = {e. has_range ps q e}" using ranges_yield [OF ready q] by blast
  have y1: "yields (emit (backward_link_of_object_has_self (Some (SubClassInclusionDecomposed d s)) s q)) {BackwardLink d q d}"
    using ok_unary [OF ready p unary_rule.self_backward [OF i s(2)]]
    by (simp add: backward_link_of_object_has_self_def)
  have "rows \<noteq> [] \<Longrightarrow> conclusion_ok (ForwardLink d c d)"
    unfolding rows(2) using ok_unary [OF ready p unary_rule.self_forward [OF i s(2) c(1)]] by blast
  then have y2: "yields (rbind (compositions_by_left ps False c) (\<lambda>rows. if rows \<noteq> [] then
       emit (forward_link_of_object_has_self (Some (SubClassInclusionDecomposed d s)) s c) else Inr []))
      (if rows \<noteq> [] then {ForwardLink d c d} else {})"
    by (simp add: rows(1) forward_link_of_object_has_self_def)
  have "yields (rconcat_map (\<lambda>e. rbind (new_property_range q e) (\<lambda>rng.
      emit (subclass_inclusion_object_has_self_property_range (Some (SubClassInclusionDecomposed d s)) (Some rng) s q))) es)
      (SubClassInclusionDecomposed d ` set es)"
  proof (rule yields_each)
    fix e assume "e \<in> set es"
    then have e: "has_range ps q e" using es(2) by simp
    then have "conclusion_ok (SubClassInclusionDecomposed d e)"
      by (rule ok_unary [OF ready p unary_rule.self_range [OF i s(2)]])
    moreover have "e < U32_RESERVED"
      using is_expression_u32 [OF r(5) has_range_expression [OF r(1) e]] .
    ultimately show "rbind (new_property_range q e) (\<lambda>rng.
      emit (subclass_inclusion_object_has_self_property_range (Some (SubClassInclusionDecomposed d s)) (Some rng) s q)) =
      Inr [SubClassInclusionDecomposed d e]"
      using c(3) by (simp add: subclass_inclusion_object_has_self_property_range_def)
  qed
  then have y3: "yields (rbind (ranges ps q) (rconcat_map (\<lambda>e. rbind (new_property_range q e) (\<lambda>rng.
      emit (subclass_inclusion_object_has_self_property_range (Some (SubClassInclusionDecomposed d s)) (Some rng) s q)))))
      (SubClassInclusionDecomposed d ` {e. has_range ps q e})"
    by (simp add: es)
  have "structural_products co ps (stored st) d s = {BackwardLink d q d} \<union> ((if rows \<noteq> [] then {ForwardLink d c d} else {}) \<union>
      SubClassInclusionDecomposed d ` {e. has_range ps q e})"
    unfolding rows(2) using i s c(1) by (auto simp: structural_products_def indexed_def)
  then show ?thesis
    using i s c(1) yields_rappend [OF y1 yields_rappend [OF y2 y3]]
    by (simp add: on_decomposed_expression_def tb(1,2) indexed_def occurs_positively_def Let_def)
qed

lemma decomposed_complement:
  assumes ready: "dispatch_ready co ps D st" and p: "SubClassInclusionDecomposed d s \<in> stored st"
    and s: "tag (expressions co ! s) = OBJECT_COMPLEMENT_OF" "occurs_positively co s"
  shows "yields (on_decomposed_expression D st (SubClassInclusionDecomposed d s) s) (structural_products co ps (stored st) d s)"
proof -
  note r = dispatch_readyD [OF ready] and tb = dispatcher_tables [OF r(1,2)] and v = context_views [OF r(3)]
  have d: "ctx_root st = d" using r(8) [OF p] by simp
  have "yields (rconcat_map (\<lambda>negated. if negated \<notin> composed_subsumers st then Inr []
         else rbind (post_init (SubClassInclusionComposed (ctx_root st) negated)) (\<lambda>pos.
           emit (class_inconsistency_of_object_complement_of (Some pos) (Some (SubClassInclusionDecomposed d s)) negated s)))
         (index_rows (positive_complements D) s))
     ((\<lambda>_. ClassInconsistency d) ` {a \<in> set (index_rows (positive_complements D) s). SubClassInclusionComposed d a \<in> stored st})"
  proof (rule yields_guarded)
    fix a assume "a \<in> set (index_rows (positive_complements D) s)"
    then have i: "indexed co s OBJECT_COMPLEMENT_OF [a]" by (simp add: tb(17))
    have "conclusion_ok (ClassInconsistency d)" if "SubClassInclusionComposed d a \<in> stored st"
      by (rule ok_binary [OF ready that p binary_rule.complement [OF i s(2)]])
    then show "(if a \<notin> composed_subsumers st then Inr []
         else rbind (post_init (SubClassInclusionComposed (ctx_root st) a)) (\<lambda>pos.
           emit (class_inconsistency_of_object_complement_of (Some pos) (Some (SubClassInclusionDecomposed d s)) a s))) =
        (if SubClassInclusionComposed d a \<in> stored st then Inr [ClassInconsistency d] else Inr [])"
      using r(7) by (simp add: v(1) d class_inconsistency_of_object_complement_of_def)
  qed
  moreover have "structural_products co ps (stored st) d s =
      (\<lambda>_. ClassInconsistency d) ` {a \<in> set (index_rows (positive_complements D) s). SubClassInclusionComposed d a \<in> stored st}"
    using s by (auto simp: structural_products_def indexed_def tb(17))
  ultimately show ?thesis
    using s by (simp add: on_decomposed_expression_def tb(1,2) occurs_positively_def Let_def)
qed

lemma on_decomposed_expression_yields:
  assumes ready: "dispatch_ready co ps D st" and p: "SubClassInclusionDecomposed d s \<in> stored st"
  shows "yields (on_decomposed_expression D st (SubClassInclusionDecomposed d s) s) (structural_products co ps (stored st) d s)"
proof (cases "occurs_positively co s \<and> tag (expressions co ! s) \<in>
    {OBJECT_INTERSECTION_OF, OBJECT_SOME_VALUES_FROM, OBJECT_HAS_SELF, OBJECT_COMPLEMENT_OF}")
  case True
  then show ?thesis
    using decomposed_intersection [OF ready p] decomposed_existential [OF ready p] decomposed_has_self [OF ready p]
      decomposed_complement [OF ready p] by blast
next
  case False
  note r = dispatch_readyD [OF ready] and tb = dispatcher_tables [OF r(1,2)]
  from False have "structural_products co ps (stored st) d s = {}"
    by (auto simp: structural_products_def indexed_def)
  with False show ?thesis
    by (auto simp: on_decomposed_expression_def tb(1) occurs_positively_def Let_def)
qed

lemma decomposed_follows:
  "{x. follows co ps S (SubClassInclusionDecomposed d s) x} =
   {SubClassInclusionComposed d s} \<union> (SubClassInclusionDecomposed d ` {b. defines_class co s b} \<union>
   (structural_products co ps S d s \<union>
   {x. class_expression co OWL_NOTHING_IRI = Inr s \<and> occurs_positively co s \<and> x = ClassInconsistency d}))"
  unfolding follows_def unary_Decomposed binary_first_Decomposed binary_second_Decomposed structural_products_def
  by (rule set_eqI) auto

lemma on_decomposed_subsumer_yields:
  assumes ready: "dispatch_ready co ps D st" and p: "SubClassInclusionDecomposed d s \<in> stored st"
  shows "yields (on_decomposed_subsumer D st (SubClassInclusionDecomposed d s) s)
    {x. follows co ps (stored st) (SubClassInclusionDecomposed d s) x}"
proof -
  note r = dispatch_readyD [OF ready] and tb = dispatcher_tables [OF r(1,2)]
  have s: "s < length (expressions co)" using r(6) [OF p] by (simp add: is_expression_def)
  have y1: "yields (emit (subclass_inclusion_composed_of_decomposed (Some (SubClassInclusionDecomposed d s))))
      {SubClassInclusionComposed d s}"
    using ok_unary [OF ready p unary_rule.composed_of_decomposed]
    by (simp add: subclass_inclusion_composed_of_decomposed_def)
  have "yields (rconcat_map (\<lambda>b. emit (subclass_inclusion_expanded_definition (Some (SubClassInclusionDecomposed d s)) s b))
      (index_rows (definitions_by_class D) s)) (SubClassInclusionDecomposed d ` set (index_rows (definitions_by_class D) s))"
  proof (rule yields_each)
    fix b assume "b \<in> set (index_rows (definitions_by_class D) s)"
    then have "defines_class co s b" by (simp add: tb(8))
    from ok_unary [OF ready p unary_rule.expanded_definition [OF this]]
    show "emit (subclass_inclusion_expanded_definition (Some (SubClassInclusionDecomposed d s)) s b) =
        Inr [SubClassInclusionDecomposed d b]" by (simp add: subclass_inclusion_expanded_definition_def)
  qed
  then have y2: "yields (rconcat_map (\<lambda>b. emit (subclass_inclusion_expanded_definition (Some (SubClassInclusionDecomposed d s)) s b))
      (index_rows (definitions_by_class D) s)) (SubClassInclusionDecomposed d ` {b. defines_class co s b})"
    by (simp add: tb(8))
  have "decompose_nothing D \<and> s = owl_nothing D \<Longrightarrow> conclusion_ok (ClassInconsistency d)"
    using ok_unary [OF ready p] unary_rule.owl_nothing [OF tb(4)] tb(6) by blast
  then have y4: "yields (if decompose_nothing D \<and> s = owl_nothing D then
      emit (class_inconsistency_of_owl_nothing (Some (SubClassInclusionDecomposed d s)) (owl_nothing D)) else Inr [])
      {x. class_expression co OWL_NOTHING_IRI = Inr s \<and> occurs_positively co s \<and> x = ClassInconsistency d}"
    using tb(4,6) by (auto simp: class_inconsistency_of_owl_nothing_def)
  note y = yields_rappend [OF y1 yields_rappend [OF y2 yields_rappend [OF on_decomposed_expression_yields [OF ready p] y4]]]
  show ?thesis
    unfolding on_decomposed_subsumer_def decomposed_follows
    using y s by (simp add: tb(1))
qed

section \<open>Composed subsumers\<close>

lemma told_rows_yield:
  assumes ready: "dispatch_ready co ps D st" and p: "SubClassInclusionComposed d s \<in> stored st"
  shows "yields (rconcat_map (\<lambda>e. emit (subclass_inclusion_expanded_subclass_of (Some (SubClassInclusionComposed d s)) s e))
      (index_rows (subclasses D) s)) (SubClassInclusionDecomposed d ` {b. (s, b) \<in> set (subclass_axioms co)})"
    and "yields (rconcat_map (\<lambda>e. emit (subclass_inclusion_composed_defined_class (Some (SubClassInclusionComposed d s)) s e))
      (index_rows (classes_by_definition D) s)) (SubClassInclusionComposed d ` {a. defines_class co a s})"
    and "yields (rconcat_map (\<lambda>e. emit (subclass_inclusion_expanded_first_equivalent_class
      (Some (SubClassInclusionComposed d s)) e s)) (index_rows (equivalent_first D) s))
      (SubClassInclusionDecomposed d ` {a. equates co a s})"
    and "yields (rconcat_map (\<lambda>e. emit (subclass_inclusion_expanded_second_equivalent_class
      (Some (SubClassInclusionComposed d s)) s e)) (index_rows (equivalent_second D) s))
      (SubClassInclusionDecomposed d ` {b. equates co s b})"
proof -
  note r = dispatch_readyD [OF ready] and tb = dispatcher_tables [OF r(1,2)]
  note ok = ok_unary [OF ready p]
  show "yields (rconcat_map (\<lambda>e. emit (subclass_inclusion_expanded_subclass_of (Some (SubClassInclusionComposed d s)) s e))
      (index_rows (subclasses D) s)) (SubClassInclusionDecomposed d ` {b. (s, b) \<in> set (subclass_axioms co)})"
    unfolding tb(7) [symmetric]
    by (rule yields_each)
      (use ok [OF unary_rule.expanded_subclass] in \<open>simp add: tb(7) subclass_inclusion_expanded_subclass_of_def\<close>)
  show "yields (rconcat_map (\<lambda>e. emit (subclass_inclusion_composed_defined_class (Some (SubClassInclusionComposed d s)) s e))
      (index_rows (classes_by_definition D) s)) (SubClassInclusionComposed d ` {a. defines_class co a s})"
    unfolding tb(9) [symmetric]
    by (rule yields_each)
      (use ok [OF unary_rule.defined_class] in \<open>simp add: tb(9) subclass_inclusion_composed_defined_class_def\<close>)
  show "yields (rconcat_map (\<lambda>e. emit (subclass_inclusion_expanded_first_equivalent_class
      (Some (SubClassInclusionComposed d s)) e s)) (index_rows (equivalent_first D) s))
      (SubClassInclusionDecomposed d ` {a. equates co a s})"
    unfolding tb(10) [symmetric]
    by (rule yields_each)
      (use ok [OF unary_rule.first_equivalent] in \<open>simp add: tb(10) subclass_inclusion_expanded_first_equivalent_class_def\<close>)
  show "yields (rconcat_map (\<lambda>e. emit (subclass_inclusion_expanded_second_equivalent_class
      (Some (SubClassInclusionComposed d s)) s e)) (index_rows (equivalent_second D) s))
      (SubClassInclusionDecomposed d ` {b. equates co s b})"
    unfolding tb(11) [symmetric]
    by (rule yields_each)
      (use ok [OF unary_rule.second_equivalent] in \<open>simp add: tb(11) subclass_inclusion_expanded_second_equivalent_class_def\<close>)
qed

lemma intersection_rows_yield:
  assumes ready: "dispatch_ready co ps D st" and p: "SubClassInclusionComposed d s \<in> stored st"
  shows "yields (rconcat_map (compose_with_first D st (SubClassInclusionComposed d s) s) (index_rows (intersections_by_first D) s))
      {SubClassInclusionComposed d e |e b. indexed co e OBJECT_INTERSECTION_OF [s, b] \<and> occurs_negatively co e \<and>
        SubClassInclusionComposed d b \<in> stored st}"
    and "yields (rconcat_map (compose_with_second D st (SubClassInclusionComposed d s) s) (index_rows (intersections_by_second D) s))
      {SubClassInclusionComposed d e |e a. indexed co e OBJECT_INTERSECTION_OF [a, s] \<and> occurs_negatively co e \<and>
        SubClassInclusionComposed d a \<in> stored st}"
proof -
  note r = dispatch_readyD [OF ready] and tb = dispatcher_tables [OF r(1,2)] and v = context_views [OF r(3)]
  have d: "ctx_root st = d" using r(8) [OF p] by simp
  have "yields (rconcat_map (compose_with_first D st (SubClassInclusionComposed d s) s) (index_rows (intersections_by_first D) s))
      ((\<lambda>x. SubClassInclusionComposed d (snd x)) ` {x \<in> set (index_rows (intersections_by_first D) s).
        SubClassInclusionComposed d (fst x) \<in> stored st})"
  proof (rule yields_guarded)
    fix x assume "x \<in> set (index_rows (intersections_by_first D) s)"
    then obtain b e where x: "x = (b, e)" "indexed co e OBJECT_INTERSECTION_OF [s, b]" "occurs_negatively co e"
      by (auto simp: tb(12))
    have "conclusion_ok (SubClassInclusionComposed d e)" if "SubClassInclusionComposed d b \<in> stored st"
      by (rule ok_binary [OF ready p that binary_rule.intersection [OF x(2,3)]])
    with r(7) show "compose_with_first D st (SubClassInclusionComposed d s) s x =
        (if SubClassInclusionComposed d (fst x) \<in> stored st then Inr [SubClassInclusionComposed d (snd x)] else Inr [])"
      by (simp add: compose_with_first_def x(1) v(1) d subclass_inclusion_composed_object_intersection_of_def)
  qed
  then show "yields (rconcat_map (compose_with_first D st (SubClassInclusionComposed d s) s) (index_rows (intersections_by_first D) s))
      {SubClassInclusionComposed d e |e b. indexed co e OBJECT_INTERSECTION_OF [s, b] \<and> occurs_negatively co e \<and>
        SubClassInclusionComposed d b \<in> stored st}"
    by (rule yields_eq) (force simp: tb(12))
  have "yields (rconcat_map (compose_with_second D st (SubClassInclusionComposed d s) s) (index_rows (intersections_by_second D) s))
      ((\<lambda>x. SubClassInclusionComposed d (snd x)) ` {x \<in> set (index_rows (intersections_by_second D) s).
        SubClassInclusionComposed d (fst x) \<in> stored st})"
  proof (rule yields_guarded)
    fix x assume "x \<in> set (index_rows (intersections_by_second D) s)"
    then obtain a e where x: "x = (a, e)" "indexed co e OBJECT_INTERSECTION_OF [a, s]" "occurs_negatively co e"
      by (auto simp: tb(13))
    have "conclusion_ok (SubClassInclusionComposed d e)" if "SubClassInclusionComposed d a \<in> stored st"
      by (rule ok_binary [OF ready that p binary_rule.intersection [OF x(2,3)]])
    with r(7) show "compose_with_second D st (SubClassInclusionComposed d s) s x =
        (if SubClassInclusionComposed d (fst x) \<in> stored st then Inr [SubClassInclusionComposed d (snd x)] else Inr [])"
      by (simp add: compose_with_second_def x(1) v(1) d subclass_inclusion_composed_object_intersection_of_def)
  qed
  then show "yields (rconcat_map (compose_with_second D st (SubClassInclusionComposed d s) s) (index_rows (intersections_by_second D) s))
      {SubClassInclusionComposed d e |e a. indexed co e OBJECT_INTERSECTION_OF [a, s] \<and> occurs_negatively co e \<and>
        SubClassInclusionComposed d a \<in> stored st}"
    by (rule yields_eq) (force simp: tb(13))
qed

lemma union_position_u32:
  assumes "class_setting co ps" and "indexed co e t args" and "i < length args"
  shows "i < U32_RESERVED"
proof -
  have "expressions co ! e \<in> set (expressions co)" using assms(2) by (auto simp: indexed_def is_expression_def)
  with assms(1) have "length (arguments (expressions co ! e)) \<le> U32_RESERVED"
    unfolding class_setting_def class_limits_def by blast
  with assms(2,3) show ?thesis by (simp add: indexed_def)
qed

lemma union_disjoint_rows_yield:
  assumes ready: "dispatch_ready co ps D st" and p: "SubClassInclusionComposed d s \<in> stored st"
  shows "yields (rconcat_map (\<lambda>(u, position).
      emit (subclass_inclusion_composed_object_union_of (Some (SubClassInclusionComposed d s)) s u position))
      (index_rows (unions_by_disjunct D) s))
      {SubClassInclusionComposed d e |e args. indexed co e OBJECT_UNION_OF args \<and> occurs_negatively co e \<and> s \<in> set args}"
    and "yields (rconcat_map (\<lambda>(g, position).
      emit (disjoint_subsumer_from_subsumer (Some (SubClassInclusionComposed d s)) s g position))
      (index_rows (disjoint_by_member D) s))
      {DisjointSubsumer d g i |g i. disjoint_member co s g i}"
proof -
  note r = dispatch_readyD [OF ready] and tb = dispatcher_tables [OF r(1,2)]
  have "yields (rconcat_map (\<lambda>(u, position).
      emit (subclass_inclusion_composed_object_union_of (Some (SubClassInclusionComposed d s)) s u position))
      (index_rows (unions_by_disjunct D) s)) ((\<lambda>x. SubClassInclusionComposed d (fst x)) ` set (index_rows (unions_by_disjunct D) s))"
  proof (rule yields_each)
    fix x assume "x \<in> set (index_rows (unions_by_disjunct D) s)"
    then obtain e i args where x: "x = (e, i)" "indexed co e OBJECT_UNION_OF args" "occurs_negatively co e"
      "i < length args" "args ! i = s" by (auto simp: tb(14))
    then have "s \<in> set args" by auto
    from ok_unary [OF ready p unary_rule.union [OF x(2,3) this]] union_position_u32 [OF r(1) x(2,4)]
    show "(case x of (u, position) \<Rightarrow>
        emit (subclass_inclusion_composed_object_union_of (Some (SubClassInclusionComposed d s)) s u position)) =
        Inr [SubClassInclusionComposed d (fst x)]"
      by (simp add: x(1) subclass_inclusion_composed_object_union_of_def checked_position_def)
  qed
  then show "yields (rconcat_map (\<lambda>(u, position).
      emit (subclass_inclusion_composed_object_union_of (Some (SubClassInclusionComposed d s)) s u position))
      (index_rows (unions_by_disjunct D) s))
      {SubClassInclusionComposed d e |e args. indexed co e OBJECT_UNION_OF args \<and> occurs_negatively co e \<and> s \<in> set args}"
    by (rule yields_eq) (force simp: tb(14) in_set_conv_nth)
  have "yields (rconcat_map (\<lambda>(g, position).
      emit (disjoint_subsumer_from_subsumer (Some (SubClassInclusionComposed d s)) s g position))
      (index_rows (disjoint_by_member D) s)) ((\<lambda>x. DisjointSubsumer d (fst x) (snd x)) ` set (index_rows (disjoint_by_member D) s))"
  proof (rule yields_each)
    fix x assume "x \<in> set (index_rows (disjoint_by_member D) s)"
    then obtain g i where x: "x = (g, i)" "disjoint_member co s g i" by (auto simp: tb(18))
    from ok_unary [OF ready p unary_rule.disjoint_position [OF x(2)]]
    show "(case x of (g, position) \<Rightarrow>
        emit (disjoint_subsumer_from_subsumer (Some (SubClassInclusionComposed d s)) s g position)) =
        Inr [DisjointSubsumer d (fst x) (snd x)]"
      by (simp add: x(1) disjoint_subsumer_from_subsumer_def)
  qed
  then show "yields (rconcat_map (\<lambda>(g, position).
      emit (disjoint_subsumer_from_subsumer (Some (SubClassInclusionComposed d s)) s g position))
      (index_rows (disjoint_by_member D) s))
      {DisjointSubsumer d g i |g i. disjoint_member co s g i}"
    by (rule yields_eq) (force simp: tb(18))
qed

lemma filler_rows_yield:
  assumes ready: "dispatch_ready co ps D st" and p: "SubClassInclusionComposed d s \<in> stored st"
  shows "yields (rconcat_map (propagate_filler D st (SubClassInclusionComposed d s) s) (index_rows (existentials_by_filler D) s))
      {x. \<exists>q. SubContextInitialization d q \<in> stored st \<and>
        binary_rule co ps (SubContextInitialization d q) (SubClassInclusionComposed d s) x}"
proof -
  note r = dispatch_readyD [OF ready] and tb = dispatcher_tables [OF r(1,2)] and v = context_views [OF r(3)]
  have d: "ctx_root st = d" using r(8) [OF p] by simp
  let ?S = "\<lambda>y. {Propagation d q (fst y) |q c. SubContextInitialization d q \<in> stored st \<and>
    singleton_chain ps (snd y) = Inr c \<and> property_under ps q c}"
  have row: "yields (propagate_filler D st (SubClassInclusionComposed d s) s y) (?S y)"
    if y: "y \<in> set (index_rows (existentials_by_filler D) s)" for y
  proof -
    obtain e p' where y': "y = (e, p')" by (cases y)
    with y have e: "indexed co e OBJECT_SOME_VALUES_FROM [p', s]" "occurs_negatively co e" by (simp_all add: tb(15))
    obtain c qs where c: "singleton_chain ps p' = Inr c" "sub_properties ps c = Inr qs"
      "set qs = {q. property_under ps q c}" "c < U32_RESERVED"
      by (rule carry_chain_ok [OF ready e(1)])
    have "yields (rconcat_map (\<lambda>relation. if relation \<notin> set qs then Inr []
       else rbind (singleton_chain ps relation) (\<lambda>relation_chain.
         rbind (post_init (SubContextInitialization d relation)) (\<lambda>init.
         rbind (new_sub_property_chain relation_chain c) (\<lambda>sub.
         emit (propagation_generated (Some init) (Some (SubClassInclusionComposed d s)) (Some sub) s e relation_chain c)))))
       (sorted_list_of_set (initialized_subcontexts st)))
      ((\<lambda>q. Propagation d q e) ` {q \<in> set (sorted_list_of_set (initialized_subcontexts st)). property_under ps q c})"
    proof (rule yields_guarded)
      fix q assume "q \<in> set (sorted_list_of_set (initialized_subcontexts st))"
      then have q: "SubContextInitialization d q \<in> stored st" by (simp add: v(6) d)
      then obtain qc where "singleton_chain ps q = Inr qc" "qc < U32_RESERVED"
        using singleton_chain_ok [OF ready, of q] r(6) [OF q] by (metis in_scope.simps(2))
      moreover have "conclusion_ok (Propagation d q e)" if "property_under ps q c"
        by (rule ok_binary [OF ready q p binary_rule.propagation [OF e c(1) that]])
      ultimately show "(if q \<notin> set qs then Inr []
       else rbind (singleton_chain ps q) (\<lambda>relation_chain.
         rbind (post_init (SubContextInitialization d q)) (\<lambda>init.
         rbind (new_sub_property_chain relation_chain c) (\<lambda>sub.
         emit (propagation_generated (Some init) (Some (SubClassInclusionComposed d s)) (Some sub) s e relation_chain c))))) =
       (if property_under ps q c then Inr [Propagation d q e] else Inr [])"
        using c(3,4) r(7) [OF q] by (simp add: propagation_generated_def)
    qed
    then have "yields (propagate_filler D st (SubClassInclusionComposed d s) s y)
      ((\<lambda>q. Propagation d q e) ` {q \<in> set (sorted_list_of_set (initialized_subcontexts st)). property_under ps q c})"
      unfolding propagate_filler_def y' prod.case tb(2) c(1,2) rbind_simps d .
    then show ?thesis
      by (rule yields_eq) (auto simp: v(6) d y' c(1))
  qed
  have "yields (rconcat_map (propagate_filler D st (SubClassInclusionComposed d s) s) (index_rows (existentials_by_filler D) s))
      (\<Union>y \<in> set (index_rows (existentials_by_filler D) s). ?S y)"
    by (rule yields_rconcat_map, rule row)
  then show ?thesis
    by (rule yields_eq) (fastforce simp: tb(15) binary_first_SubContextInitialization)
qed

lemma complement_rows_yield:
  assumes ready: "dispatch_ready co ps D st" and p: "SubClassInclusionComposed d s \<in> stored st"
  shows "yields (rconcat_map (contradict_complement D st (SubClassInclusionComposed d s) s) (index_rows (complements_by_negated D) s))
      {x. \<exists>e. SubClassInclusionDecomposed d e \<in> stored st \<and> indexed co e OBJECT_COMPLEMENT_OF [s] \<and>
        occurs_positively co e \<and> x = ClassInconsistency d}"
proof -
  note r = dispatch_readyD [OF ready] and tb = dispatcher_tables [OF r(1,2)] and v = context_views [OF r(3)]
  have d: "ctx_root st = d" using r(8) [OF p] by simp
  have "yields (rconcat_map (contradict_complement D st (SubClassInclusionComposed d s) s) (index_rows (complements_by_negated D) s))
      ((\<lambda>_. ClassInconsistency d) ` {e \<in> set (index_rows (complements_by_negated D) s).
        SubClassInclusionDecomposed d e \<in> stored st})"
  proof (rule yields_guarded)
    fix e assume "e \<in> set (index_rows (complements_by_negated D) s)"
    then have e: "indexed co e OBJECT_COMPLEMENT_OF [s]" "occurs_positively co e" by (simp_all add: tb(16))
    have "conclusion_ok (ClassInconsistency d)" if "SubClassInclusionDecomposed d e \<in> stored st"
      by (rule ok_binary [OF ready p that binary_rule.complement [OF e]])
    with r(7) show "contradict_complement D st (SubClassInclusionComposed d s) s e =
        (if SubClassInclusionDecomposed d e \<in> stored st then Inr [ClassInconsistency d] else Inr [])"
      by (simp add: contradict_complement_def v(2) d class_inconsistency_of_object_complement_of_def)
  qed
  then show ?thesis by (rule yields_eq) (auto simp: tb(16))
qed

lemma composed_follows:
  "{x. follows co ps S (SubClassInclusionComposed d s) x} =
   (SubClassInclusionDecomposed d ` {b. (s, b) \<in> set (subclass_axioms co)}) \<union>
   (SubClassInclusionComposed d ` {a. defines_class co a s} \<union>
   (SubClassInclusionDecomposed d ` {a. equates co a s} \<union>
   (SubClassInclusionDecomposed d ` {b. equates co s b} \<union>
   ({SubClassInclusionComposed d e |e b. indexed co e OBJECT_INTERSECTION_OF [s, b] \<and> occurs_negatively co e \<and>
        SubClassInclusionComposed d b \<in> S} \<union>
   ({SubClassInclusionComposed d e |e a. indexed co e OBJECT_INTERSECTION_OF [a, s] \<and> occurs_negatively co e \<and>
        SubClassInclusionComposed d a \<in> S} \<union>
   ({SubClassInclusionComposed d e |e args. indexed co e OBJECT_UNION_OF args \<and> occurs_negatively co e \<and> s \<in> set args} \<union>
   ({x. \<exists>q. SubContextInitialization d q \<in> S \<and>
        binary_rule co ps (SubContextInitialization d q) (SubClassInclusionComposed d s) x} \<union>
   ({x. \<exists>e. SubClassInclusionDecomposed d e \<in> S \<and> indexed co e OBJECT_COMPLEMENT_OF [s] \<and>
        occurs_positively co e \<and> x = ClassInconsistency d} \<union>
   {DisjointSubsumer d g i |g i. disjoint_member co s g i}))))))))" (is "_ = ?rhs")
proof -
  have partner: "(\<exists>b e. q = SubClassInclusionComposed d b \<and> x = SubClassInclusionComposed d e \<and>
        indexed co e OBJECT_INTERSECTION_OF [s, b] \<and> occurs_negatively co e) \<or>
      (\<exists>e. q = SubClassInclusionDecomposed d e \<and> x = ClassInconsistency d \<and>
        indexed co e OBJECT_COMPLEMENT_OF [s] \<and> occurs_positively co e)"
    if "binary_rule co ps (SubClassInclusionComposed d s) q x" for q x
    using that by (cases rule: binary_rule.cases) auto
  have partner': "(\<exists>a e. q = SubClassInclusionComposed d a \<and> x = SubClassInclusionComposed d e \<and>
        indexed co e OBJECT_INTERSECTION_OF [a, s] \<and> occurs_negatively co e) \<or>
      (\<exists>r. q = SubContextInitialization d r)"
    if "binary_rule co ps q (SubClassInclusionComposed d s) x" for q x
    using that by (cases rule: binary_rule.cases) auto
  have intro: "indexed co e OBJECT_INTERSECTION_OF [s, b] \<Longrightarrow> occurs_negatively co e \<Longrightarrow>
      binary_rule co ps (SubClassInclusionComposed d s) (SubClassInclusionComposed d b) (SubClassInclusionComposed d e)"
    "indexed co e OBJECT_INTERSECTION_OF [a, s] \<Longrightarrow> occurs_negatively co e \<Longrightarrow>
      binary_rule co ps (SubClassInclusionComposed d a) (SubClassInclusionComposed d s) (SubClassInclusionComposed d e)"
    "indexed co e OBJECT_COMPLEMENT_OF [s] \<Longrightarrow> occurs_positively co e \<Longrightarrow>
      binary_rule co ps (SubClassInclusionComposed d s) (SubClassInclusionDecomposed d e) (ClassInconsistency d)" for e a b
    by (rule binary_rule.intersection binary_rule.complement; assumption)+
  show ?thesis
  proof (rule set_eqI)
    fix x
    have "(\<exists>q \<in> S. binary_rule co ps (SubClassInclusionComposed d s) q x \<or> binary_rule co ps q (SubClassInclusionComposed d s) x) \<longleftrightarrow>
      (\<exists>e b. x = SubClassInclusionComposed d e \<and> indexed co e OBJECT_INTERSECTION_OF [s, b] \<and> occurs_negatively co e \<and>
        SubClassInclusionComposed d b \<in> S) \<or>
      (\<exists>e a. x = SubClassInclusionComposed d e \<and> indexed co e OBJECT_INTERSECTION_OF [a, s] \<and> occurs_negatively co e \<and>
        SubClassInclusionComposed d a \<in> S) \<or>
      (\<exists>q. SubContextInitialization d q \<in> S \<and>
        binary_rule co ps (SubContextInitialization d q) (SubClassInclusionComposed d s) x) \<or>
      (\<exists>e. SubClassInclusionDecomposed d e \<in> S \<and> indexed co e OBJECT_COMPLEMENT_OF [s] \<and>
        occurs_positively co e \<and> x = ClassInconsistency d)" (is "?L \<longleftrightarrow> ?R")
    proof
      assume ?L then show ?R using partner partner' by metis
    next
      assume ?R then show ?L using intro by blast
    qed
    note partners = this
    show "(x \<in> {x. follows co ps S (SubClassInclusionComposed d s) x}) = (x \<in> ?rhs)"
      unfolding mem_Collect_eq follows_def partners unary_Composed by auto
  qed
qed

lemma on_composed_subsumer_yields:
  assumes ready: "dispatch_ready co ps D st" and p: "SubClassInclusionComposed d s \<in> stored st"
  shows "yields (on_composed_subsumer D st (SubClassInclusionComposed d s) s)
    {x. follows co ps (stored st) (SubClassInclusionComposed d s) x}"
proof -
  note a = told_rows_yield [OF ready p] and b = intersection_rows_yield [OF ready p]
    and c = union_disjoint_rows_yield [OF ready p]
  note y = yields_rappend [OF a(1) yields_rappend [OF a(2) yields_rappend [OF a(3) yields_rappend [OF a(4)
    yields_rappend [OF b(1) yields_rappend [OF b(2) yields_rappend [OF c(1)
    yields_rappend [OF filler_rows_yield [OF ready p] yields_rappend [OF complement_rows_yield [OF ready p] c(2)]]]]]]]]]
  show ?thesis unfolding on_composed_subsumer_def composed_follows by (rule y)
qed

section \<open>Dispatch\<close>

text \<open>The refinement: no exception, and exactly what follows.\<close>

lemma dispatch_refines:
  assumes ready: "dispatch_ready co ps D st" and p: "p \<in> stored st"
  shows "yields (dispatch D st p) {c. follows co ps (stored st) p c}"
proof -
  note r = dispatch_readyD [OF ready]
  have "contains st p = Inr True" using contains_iff [OF r(3)] r(8) [OF p] p by simp
  then have "dispatch D st p = dispatch_family D st p" by (simp add: dispatch_def)
  moreover have "yields (dispatch_family D st p) {c. follows co ps (stored st) p c}"
    using p on_context_initialization_yields [OF ready] on_subcontext_initialization_yields [OF ready]
      on_decomposed_subsumer_yields [OF ready] on_composed_subsumer_yields [OF ready]
      on_forward_link_yields [OF ready] on_backward_link_yields [OF ready] on_propagation_yields [OF ready]
      on_disjoint_subsumer_yields [OF ready] on_class_inconsistency_yields [OF ready]
    by (cases p) (simp_all add: dispatch_family_def)
  ultimately show ?thesis by simp
qed

text \<open>A premise that is not stored is refused.\<close>

lemma dispatch_alien:
  assumes "context_inv st" and "p \<notin> stored st"
  shows "dispatch D st p = Inl ValueError"
proof (cases "conclusion_destination p = ctx_root st")
  case True
  with contains_iff [OF assms(1)] assms(2) show ?thesis by (simp add: dispatch_def)
next
  case False
  then show ?thesis by (simp add: dispatch_def contains_def check_destination_def rassert_def)
qed

section \<open>The contract the scheduler relies on\<close>

text \<open>
  A source of consequences: firing a held item yields what follows from it and the held items.  The
  second law is what makes semi-naive evaluation complete: a consequence that needs the newest item
  is one of the newest item.
\<close>

locale rule_source =
  fixes ready :: "'s \<Rightarrow> bool"
    and held :: "'s \<Rightarrow> 'c set"
    and fire :: "'s \<Rightarrow> 'c \<Rightarrow> 'c list result"
    and entails :: "'c set \<Rightarrow> 'c \<Rightarrow> 'c \<Rightarrow> bool"
  assumes fire_law: "ready s \<Longrightarrow> p \<in> held s \<Longrightarrow> yields (fire s p) {c. entails (held s) p c}"
    and newest: "entails (insert p S) q c \<Longrightarrow> entails S q c \<or> q = p \<or> (q \<in> S \<longrightarrow> entails (insert q S) p c)"
    and entails_mono: "S \<subseteq> T \<Longrightarrow> entails S q c \<Longrightarrow> entails T q c"
begin

definition closed_under :: "'c set \<Rightarrow> 'c set \<Rightarrow> bool" where
  "closed_under S K \<longleftrightarrow> (\<forall>q \<in> S. \<forall>c. entails S q c \<longrightarrow> c \<in> K)"

lemma closed_under_mono:
  assumes "closed_under S K" and "S' \<subseteq> S" and "K \<subseteq> K'"
  shows "closed_under S' K'"
  using assms entails_mono [OF assms(2)] unfolding closed_under_def by blast

lemma closed_under_empty [simp]: "closed_under {} K"
  by (simp add: closed_under_def)

text \<open>Firing one more held item closes the larger set.\<close>

lemma semi_naive:
  assumes ready: "ready s" and p: "p \<in> held s" and S: "S \<subseteq> held s" and closed: "closed_under S K"
  obtains products where "fire s p = Inr products" and "closed_under (insert p S) (K \<union> set products)"
    and "set products = {c. entails (held s) p c}"
proof -
  from fire_law [OF ready p] obtain products where f: "fire s p = Inr products"
    "set products = {c. entails (held s) p c}" by (auto simp: yields_def)
  have "c \<in> K \<union> set products" if q: "q \<in> insert p S" and e: "entails (insert p S) q c" for q c
  proof -
    have sub: "insert p S \<subseteq> held s" using p S by blast
    consider "q = p" | "q \<in> S" "entails S q c" | "q \<in> S" "entails (insert q S) p c"
      using newest [OF e] q by blast
    then show ?thesis
    proof cases
      case 1
      with e entails_mono [OF sub] show ?thesis unfolding f(2) by blast
    next
      case 2
      with closed show ?thesis unfolding closed_under_def by blast
    next
      case 3
      then have "insert q S \<subseteq> held s" using S by blast
      with 3 entails_mono show ?thesis unfolding f(2) by blast
    qed
  qed
  then have "closed_under (insert p S) (K \<union> set products)" unfolding closed_under_def by blast
  with f show ?thesis by (intro that)
qed

end

interpretation rules: rule_source "dispatch_ready co ps D" stored "dispatch D" "follows co ps" for co ps D
proof
  show "dispatch_ready co ps D s \<Longrightarrow> p \<in> stored s \<Longrightarrow> yields (dispatch D s p) {c. follows co ps (stored s) p c}"
    for s p by (rule dispatch_refines)
  show "follows co ps (insert p S) q c \<Longrightarrow>
      follows co ps S q c \<or> q = p \<or> (q \<in> S \<longrightarrow> follows co ps (insert q S) p c)" for p S q c
    by (auto simp: follows_def)
  show "S \<subseteq> T \<Longrightarrow> follows co ps S q c \<Longrightarrow> follows co ps T q c" for S T q c
    by (auto simp: follows_def)
qed

end
