(* ===== verification/Saturation.thy ===== *)
theory Saturation
  imports Dispatch_Subsumers
begin

text \<open>
  \<open>src/pyelk/reasoning/saturation.py\<close>: the single-thread scheduler.  An operation returns its value
  or exception together with the engine it leaves, because the engine keeps what was done before an
  exception.  The interruption callback is an oracle, the answer to its \<open>n\<close>-th call.
\<close>

section \<open>State\<close>

record mutable_diagnostics =
  contexts_created :: nat
  context_claims :: nat
  context_saturations :: nat
  conclusion_candidates :: nat
  conclusions_enqueued :: nat
  duplicate_candidates :: nat
  conclusions_inserted :: nat
  duplicate_insertions :: nat
  rule_dispatches :: nat
  product_candidates :: nat
  interrupted_runs :: nat
  maximum_active_contexts :: nat

definition no_diagnostics :: mutable_diagnostics where
  "no_diagnostics = \<lparr>contexts_created = 0, context_claims = 0, context_saturations = 0,
     conclusion_candidates = 0, conclusions_enqueued = 0, duplicate_candidates = 0,
     conclusions_inserted = 0, duplicate_insertions = 0, rule_dispatches = 0, product_candidates = 0,
     interrupted_runs = 0, maximum_active_contexts = 0\<rparr>"

record engine =
  dispatcher :: rule_dispatcher
  contexts :: "(nat, context_state) dict"
  active :: "nat list"
  claimed_root :: "nat option"
  retry :: "(nat, conclusion list) dict"
  query_roots :: "(bytes, nat) dict"
  diag :: mutable_diagnostics

type_synonym 'a outcome = "'a result \<times> engine"

definition new_engine :: "compiled_ontology \<Rightarrow> property_saturation \<Rightarrow> engine result" where
  "new_engine co ps = rmap (\<lambda>D. \<lparr>dispatcher = D, contexts = [], active = [], claimed_root = None,
     retry = [], query_roots = [], diag = no_diagnostics\<rparr>) (make_dispatcher co ps)"

text \<open>\<open>SaturationEngine(compiled)\<close> computes the property view itself; \<open>None\<close>: it would not return.\<close>

definition create_engine :: "compiled_ontology \<Rightarrow> engine result option" where
  "create_engine co = map_option (\<lambda>m. rbind m (new_engine co)) (saturate_properties co)"

abbreviation count :: "(mutable_diagnostics \<Rightarrow> mutable_diagnostics) \<Rightarrow> engine \<Rightarrow> engine" where
  "count f e \<equiv> e\<lparr>diag := f (diag e)\<rparr>"

definition put_context :: "nat \<Rightarrow> context_state \<Rightarrow> engine \<Rightarrow> engine" where
  "put_context root st e = e\<lparr>contexts := dict_put root st (contexts e)\<rparr>"

definition retries :: "engine \<Rightarrow> nat \<Rightarrow> conclusion list" where
  "retries e root = (case dict_get (retry e) root of None \<Rightarrow> [] | Some cs \<Rightarrow> cs)"

definition put_retries :: "nat \<Rightarrow> conclusion list \<Rightarrow> engine \<Rightarrow> engine" where
  "put_retries root cs e = e\<lparr>retry := dict_put root cs (retry e)\<rparr>"

definition has_pending_work :: "engine \<Rightarrow> bool" where
  "has_pending_work e = (active e \<noteq> [] \<or> claimed_root e \<noteq> None)"

definition engine_roots :: "engine \<Rightarrow> nat list" where
  "engine_roots e = sorted_list_of_set (set (map fst (contexts e)))"

definition checked_root :: "engine \<Rightarrow> nat \<Rightarrow> nat result" where
  "checked_root e root =
     (if root < length (expressions (compiled (dispatcher e))) then Inr root else Inl ValueError)"

definition track_active_high_watermark :: "engine \<Rightarrow> engine" where
  "track_active_high_watermark e = count (\<lambda>d. d\<lparr>maximum_active_contexts :=
     max (maximum_active_contexts d) (length (active e))\<rparr>) e"

section \<open>Routing candidates\<close>

text \<open>A context that is not the claimed one joins the active queue when it is not on it.\<close>

definition activate :: "nat \<Rightarrow> engine \<Rightarrow> engine" where
  "activate root e = (case dict_get (contexts e) root of
     None \<Rightarrow> e
   | Some st \<Rightarrow>
       if Some root = claimed_root e then e
       else (case mark_queued st of (novel, st') \<Rightarrow>
         if novel then track_active_high_watermark ((put_context root st' e)\<lparr>active := active e @ [root]\<rparr>)
         else e))"

definition enqueue_existing :: "nat \<Rightarrow> conclusion \<Rightarrow> engine \<Rightarrow> bool outcome" where
  "enqueue_existing root c e = (
     let e = count (\<lambda>d. d\<lparr>conclusion_candidates := conclusion_candidates d + 1\<rparr>) e in
     case dict_get (contexts e) root of
       None \<Rightarrow> (Inl KeyError, e)
     | Some st \<Rightarrow>
         (case enqueue st c of
            Inl x \<Rightarrow> (Inl x, e)
          | Inr (novel, st') \<Rightarrow>
              if \<not> novel then
                (Inr False, count (\<lambda>d. d\<lparr>duplicate_candidates := duplicate_candidates d + 1\<rparr>) e)
              else
                (Inr True, activate root (put_context root st'
                  (count (\<lambda>d. d\<lparr>conclusions_enqueued := conclusions_enqueued d + 1\<rparr>) e)))))"

definition ensure_context :: "nat \<Rightarrow> engine \<Rightarrow> unit outcome" where
  "ensure_context root e = (case dict_get (contexts e) root of
     Some _ \<Rightarrow> (Inr (), e)
   | None \<Rightarrow> (
       let e = count (\<lambda>d. d\<lparr>contexts_created := contexts_created d + 1\<rparr>)
                 (put_retries root [] (put_context root (new_context root) e)) in
       case post_init (ContextInitialization root) of
         Inl x \<Rightarrow> (Inl x, e)
       | Inr c \<Rightarrow> (case enqueue_existing root c e of
            (Inl x, e') \<Rightarrow> (Inl x, e')
          | (Inr _, e') \<Rightarrow> (Inr (), e'))))"

definition demand :: "nat \<Rightarrow> engine \<Rightarrow> unit outcome" where
  "demand root e = (case checked_root e root of Inl x \<Rightarrow> (Inl x, e) | Inr root \<Rightarrow> ensure_context root e)"

definition engine_enqueue :: "conclusion \<Rightarrow> engine \<Rightarrow> bool outcome" where
  "engine_enqueue c e = (case checked_root e (conclusion_destination c) of
     Inl x \<Rightarrow> (Inl x, e)
   | Inr destination \<Rightarrow>
       (case ensure_context destination e of
          (Inl x, e') \<Rightarrow> (Inl x, e')
        | (Inr _, e') \<Rightarrow> enqueue_existing destination c e'))"

fun enqueue_products :: "conclusion list \<Rightarrow> engine \<Rightarrow> unit outcome" where
  "enqueue_products [] e = (Inr (), e)"
| "enqueue_products (c # cs) e = (case engine_enqueue c e of
     (Inl x, e') \<Rightarrow> (Inl x, e')
   | (Inr _, e') \<Rightarrow> enqueue_products cs e')"

section \<open>One agenda item\<close>

definition has_local_work :: "nat \<Rightarrow> engine \<Rightarrow> bool" where
  "has_local_work root e = (retries e root \<noteq> [] \<or>
     (case dict_get (contexts e) root of None \<Rightarrow> False | Some st \<Rightarrow> todo st \<noteq> []))"

definition next_premise :: "nat \<Rightarrow> engine \<Rightarrow> (conclusion \<times> bool) outcome" where
  "next_premise root e = (case retries e root of
     c # rest \<Rightarrow> (Inr (c, False), put_retries root rest e)
   | [] \<Rightarrow> (case dict_get (contexts e) root of
       None \<Rightarrow> (Inl KeyError, e)
     | Some st \<Rightarrow> (case pop_todo st of
         (None, _) \<Rightarrow> (Inl PyAssertionError, e)
       | (Some premise, st') \<Rightarrow> (case insert_conclusion st' premise of
           Inl x \<Rightarrow> (Inl x, put_context root st' e)
         | Inr (inserted, st'') \<Rightarrow>
             (Inr (premise, inserted), count (\<lambda>d. if inserted
                then d\<lparr>conclusions_inserted := conclusions_inserted d + 1\<rparr>
                else d\<lparr>duplicate_insertions := duplicate_insertions d + 1\<rparr>) (put_context root st'' e))))))"

text \<open>The products are published only when the whole dispatch completed; an exception retries the premise.\<close>

definition dispatch_premise :: "nat \<Rightarrow> conclusion \<Rightarrow> engine \<Rightarrow> unit outcome" where
  "dispatch_premise root premise e = (
     let (out, e') = (case dict_get (contexts e) root of
         None \<Rightarrow> (Inl KeyError, e)
       | Some st \<Rightarrow> (case dispatch (dispatcher e) st premise of
           Inl x \<Rightarrow> (Inl x, e)
         | Inr products \<Rightarrow> enqueue_products products
             (count (\<lambda>d. d\<lparr>rule_dispatches := rule_dispatches d + 1,
                product_candidates := product_candidates d + length products\<rparr>) e)))
     in case out of
       Inl x \<Rightarrow> (Inl x, put_retries root (premise # retries e' root) e')
     | Inr _ \<Rightarrow> (Inr (), e'))"

section \<open>The run loops\<close>

type_synonym run_counters = "nat \<times> nat"  \<comment> \<open>completed conclusions, calls of the callback\<close>

definition budget_exhausted :: "nat option \<Rightarrow> nat \<Rightarrow> bool" where
  "budget_exhausted max_conclusions completed = (case max_conclusions of None \<Rightarrow> False | Some m \<Rightarrow> m \<le> completed)"

text \<open>\<open>None\<close> would be a loop that never ends.\<close>

partial_function (option) run_local ::
    "nat option \<Rightarrow> (nat \<Rightarrow> bool) \<Rightarrow> nat \<Rightarrow> run_counters \<Rightarrow> engine \<Rightarrow> run_counters outcome option" where
  "run_local max_conclusions interrupt root counters e =
     (if \<not> has_local_work root e then Some (Inr counters, e)
      else if budget_exhausted max_conclusions (fst counters) then Some (Inl SaturationBudgetExceeded, e)
      else if interrupt (snd counters) then Some (Inl SaturationInterrupted, e)
      else (case next_premise root e of
         (Inl x, e') \<Rightarrow> Some (Inl x, e')
       | (Inr (premise, inserted), e') \<Rightarrow> (case dispatch_premise root premise e' of
            (Inl x, e'') \<Rightarrow> Some (Inl x, e'')
          | (Inr _, e'') \<Rightarrow> run_local max_conclusions interrupt root
              (if inserted then fst counters + 1 else fst counters, snd counters + 1) e'')))"

definition claim_root :: "nat \<Rightarrow> nat list \<Rightarrow> engine \<Rightarrow> engine" where
  "claim_root root rest e = (case dict_get (contexts e) root of
     None \<Rightarrow> e
   | Some st \<Rightarrow> count (\<lambda>d. d\<lparr>context_claims := context_claims d + 1\<rparr>)
       ((put_context root (claim st) e)\<lparr>active := rest, claimed_root := Some root\<rparr>))"

definition saturate_root :: "nat \<Rightarrow> engine \<Rightarrow> unit outcome" where
  "saturate_root root e = (case dict_get (contexts e) root of
     None \<Rightarrow> (Inl KeyError, e)
   | Some st \<Rightarrow> (case mark_saturated st of
       Inl x \<Rightarrow> (Inl x, e)
     | Inr st' \<Rightarrow> (Inr (), count (\<lambda>d. d\<lparr>context_saturations := context_saturations d + 1\<rparr>)
         (put_context root st' e))))"

text \<open>The inner \<open>finally\<close>: the claim is dropped, and a context with work left goes back in front.\<close>

definition release_root :: "nat \<Rightarrow> engine \<Rightarrow> engine" where
  "release_root root e = (
     let e = e\<lparr>claimed_root := None\<rparr> in
     case dict_get (contexts e) root of
       None \<Rightarrow> e
     | Some st \<Rightarrow>
         if has_local_work root e \<and> \<not> queued st
         then track_active_high_watermark ((put_context root (snd (mark_queued st)) e)\<lparr>active := root # active e\<rparr>)
         else e)"

partial_function (option) run_active ::
    "nat option \<Rightarrow> (nat \<Rightarrow> bool) \<Rightarrow> run_counters \<Rightarrow> engine \<Rightarrow> unit outcome option" where
  "run_active max_conclusions interrupt counters e = (case active e of
     [] \<Rightarrow> Some (Inr (), e)
   | root # rest \<Rightarrow>
       (case run_local max_conclusions interrupt root counters (claim_root root rest e) of
          None \<Rightarrow> None
        | Some (Inl x, e') \<Rightarrow> Some (Inl x, release_root root e')
        | Some (Inr counters', e') \<Rightarrow>
            (case saturate_root root e' of
               (Inl x, e'') \<Rightarrow> Some (Inl x, release_root root e'')
             | (Inr _, e'') \<Rightarrow> run_active max_conclusions interrupt counters' (release_root root e''))))"

section \<open>Snapshots and the entry points\<close>

record saturation_snapshot =
  snap_property_subsumers :: "nat list list"
  snap_property_ranges :: "nat list list"
  snap_contexts :: "(nat \<times> frozen_context) list"
  snap_inconsistent_ontology :: bool

definition snapshot :: "bool \<Rightarrow> engine \<Rightarrow> saturation_snapshot result" where
  "snapshot inconsistent_ontology e = (let ps = properties (dispatcher e) in
     rbind (rmap_list (super_chains ps) [0..<length (chain_records ps)]) (\<lambda>subsumers.
     rbind (rmap_list (ranges ps) [0..<length (entities (compiled (dispatcher e)))]) (\<lambda>property_ranges.
     Inr \<lparr>snap_property_subsumers = subsumers, snap_property_ranges = property_ranges,
       snap_contexts = map (\<lambda>(root, st). (root, freeze st)) (sort_key fst (contexts e)),
       snap_inconsistent_ontology = inconsistent_ontology\<rparr>)))"

fun ensure_all :: "nat list \<Rightarrow> engine \<Rightarrow> unit outcome" where
  "ensure_all [] e = (Inr (), e)"
| "ensure_all (root # roots) e = (case ensure_context root e of
     (Inl x, e') \<Rightarrow> (Inl x, e')
   | (Inr _, e') \<Rightarrow> ensure_all roots e')"

definition run :: "nat list \<Rightarrow> nat option \<Rightarrow> (nat \<Rightarrow> bool) \<Rightarrow> engine \<Rightarrow> saturation_snapshot outcome option" where
  "run roots max_conclusions interrupt e = (case rmap_list (checked_root e) roots of
     Inl x \<Rightarrow> Some (Inl x, e)
   | Inr checked \<Rightarrow> (case ensure_all (sorted_list_of_set (set checked)) e of
       (Inl x, e') \<Rightarrow> Some (Inl x, e')
     | (Inr _, e') \<Rightarrow> (case run_active max_conclusions interrupt (0, 0) e' of
         None \<Rightarrow> None
       | Some (Inl x, e'') \<Rightarrow>
           Some (Inl x, count (\<lambda>d. d\<lparr>interrupted_runs := interrupted_runs d + 1\<rparr>) e'')
       | Some (Inr _, e'') \<Rightarrow> Some (snapshot False e'', e''))))"

abbreviation never :: "nat \<Rightarrow> bool" where
  "never \<equiv> \<lambda>_. False"

definition saturate_query_root :: "bytes \<Rightarrow> nat \<Rightarrow> engine \<Rightarrow> frozen_context outcome option" where
  "saturate_query_root canonical_key root e =
     (if canonical_key = [] then Some (Inl ValueError, e)
      else (case checked_root e root of
        Inl x \<Rightarrow> Some (Inl x, e)
      | Inr checked \<Rightarrow>
          if dict_get (query_roots e) canonical_key \<noteq> None \<and> dict_get (query_roots e) canonical_key \<noteq> Some checked
          then Some (Inl ValueError, e)
          else (case run [checked] None never
                  (e\<lparr>query_roots := dict_put canonical_key checked (query_roots e)\<rparr>) of
             None \<Rightarrow> None
           | Some (Inl x, e') \<Rightarrow> Some (Inl x, e')
           | Some (Inr _, e') \<Rightarrow> (case dict_get (contexts e') checked of
               None \<Rightarrow> Some (Inl KeyError, e')
             | Some st \<Rightarrow> Some (Inr (freeze st), e')))))"

record saturation_diagnostics =
  context_count :: nat
  counters :: mutable_diagnostics

definition diagnostics :: "engine \<Rightarrow> saturation_diagnostics" where
  "diagnostics e = \<lparr>context_count = length (contexts e), counters = diag e\<rparr>"

definition engine_context :: "nat \<Rightarrow> engine \<Rightarrow> frozen_context option result" where
  "engine_context root e = rmap (\<lambda>r. map_option freeze (dict_get (contexts e) r)) (checked_root e root)"

end
