(* ===== verification/Saturation_Invariant.thy ===== *)
theory Saturation_Invariant
  imports Saturation
begin

text \<open>
  The scheduler's invariant: contexts are well formed, the active queue is exactly the queued
  contexts, every context with work is queued or claimed, and the stored premises that have been
  dispatched are closed under the rules.  Each operation keeps it; routing candidates only adds to
  what is known.
\<close>

section \<open>What the engine holds\<close>

definition stored_of :: "engine \<Rightarrow> nat \<Rightarrow> conclusion set" where
  "stored_of e r = (case dict_get (contexts e) r of None \<Rightarrow> {} | Some st \<Rightarrow> stored st)"

definition known_of :: "engine \<Rightarrow> nat \<Rightarrow> conclusion set" where
  "known_of e r = (case dict_get (contexts e) r of None \<Rightarrow> {} | Some st \<Rightarrow> known st)"

definition all_known :: "engine \<Rightarrow> conclusion set" where
  "all_known e = (\<Union>r. known_of e r)"

definition all_stored :: "engine \<Rightarrow> conclusion set" where
  "all_stored e = (\<Union>r. stored_of e r)"

definition allocated :: "engine \<Rightarrow> nat set" where
  "allocated e = {r. dict_get (contexts e) r \<noteq> None}"

lemma stored_known_of: "stored_of e r \<subseteq> known_of e r"
  by (auto simp: stored_of_def known_of_def known_def split: option.splits)

text \<open>
  \<open>fresh\<close> holds the root of a context between its allocation and its first conclusion; it is empty
  between operations.
\<close>

definition context_ok :: "compiled_ontology \<Rightarrow> property_saturation \<Rightarrow> nat set \<Rightarrow> engine \<Rightarrow> nat \<Rightarrow> context_state \<Rightarrow> bool" where
  "context_ok co ps fresh e r st \<longleftrightarrow>
     ctx_root st = r \<and> is_expression co r \<and> context_inv st \<and> (\<forall>c \<in> known st. in_scope co ps c) \<and>
     set (retries e r) \<subseteq> stored st \<and> (r \<in> fresh \<or> ContextInitialization r \<in> known st) \<and>
     (queued st \<longleftrightarrow> r \<in> set (active e)) \<and>
     (r \<in> fresh \<or> queued st \<or> claimed_root e = Some r \<or> todo st = [] \<and> retries e r = [] \<and> saturated st)"

definition struct_inv :: "compiled_ontology \<Rightarrow> property_saturation \<Rightarrow> nat set \<Rightarrow> engine \<Rightarrow> bool" where
  "struct_inv co ps fresh e \<longleftrightarrow> dispatcher_for co ps (dispatcher e) \<and>
     distinct (map fst (contexts e)) \<and> distinct (active e) \<and> set (active e) \<subseteq> allocated e \<and>
     (\<forall>r. claimed_root e = Some r \<longrightarrow> r \<notin> set (active e) \<and> r \<in> allocated e) \<and>
     (\<forall>r. r \<notin> allocated e \<longrightarrow> retries e r = []) \<and>
     (\<forall>r st. dict_get (contexts e) r = Some st \<longrightarrow> context_ok co ps fresh e r st)"

lemma struct_invD:
  assumes "struct_inv co ps fresh e"
  shows "dispatcher_for co ps (dispatcher e)" "distinct (map fst (contexts e))" "distinct (active e)"
    "set (active e) \<subseteq> allocated e"
    "\<And>r. claimed_root e = Some r \<Longrightarrow> r \<notin> set (active e)" "\<And>r. claimed_root e = Some r \<Longrightarrow> r \<in> allocated e"
    "\<And>r. r \<notin> allocated e \<Longrightarrow> retries e r = []"
    "\<And>r st. dict_get (contexts e) r = Some st \<Longrightarrow> context_ok co ps fresh e r st"
  using assms unfolding struct_inv_def by blast+

text \<open>Counters are outside the invariant, and only the contexts and retries hold conclusions.\<close>

lemma engine_update_frame [simp]:
  "stored_of (e\<lparr>diag := d\<rparr>) r = stored_of e r" "known_of (e\<lparr>diag := d\<rparr>) r = known_of e r"
  "all_known (e\<lparr>diag := d\<rparr>) = all_known e" "all_stored (e\<lparr>diag := d\<rparr>) = all_stored e"
  "allocated (e\<lparr>diag := d\<rparr>) = allocated e" "retries (e\<lparr>diag := d\<rparr>) r = retries e r"
  "struct_inv co ps fresh (e\<lparr>diag := d\<rparr>) = struct_inv co ps fresh e"
  "stored_of (e\<lparr>active := as\<rparr>) r = stored_of e r" "known_of (e\<lparr>active := as\<rparr>) r = known_of e r"
  "all_known (e\<lparr>active := as\<rparr>) = all_known e" "all_stored (e\<lparr>active := as\<rparr>) = all_stored e"
  "allocated (e\<lparr>active := as\<rparr>) = allocated e" "retries (e\<lparr>active := as\<rparr>) r = retries e r"
  "stored_of (e\<lparr>claimed_root := x\<rparr>) r = stored_of e r" "known_of (e\<lparr>claimed_root := x\<rparr>) r = known_of e r"
  "all_known (e\<lparr>claimed_root := x\<rparr>) = all_known e" "all_stored (e\<lparr>claimed_root := x\<rparr>) = all_stored e"
  "allocated (e\<lparr>claimed_root := x\<rparr>) = allocated e" "retries (e\<lparr>claimed_root := x\<rparr>) r = retries e r"
  "stored_of (e\<lparr>query_roots := q\<rparr>) r = stored_of e r" "known_of (e\<lparr>query_roots := q\<rparr>) r = known_of e r"
  "all_known (e\<lparr>query_roots := q\<rparr>) = all_known e" "all_stored (e\<lparr>query_roots := q\<rparr>) = all_stored e"
  "allocated (e\<lparr>query_roots := q\<rparr>) = allocated e" "retries (e\<lparr>query_roots := q\<rparr>) r = retries e r"
  "struct_inv co ps fresh (e\<lparr>query_roots := q\<rparr>) = struct_inv co ps fresh e"
  by (simp_all add: stored_of_def known_of_def all_known_def all_stored_def allocated_def retries_def
      struct_inv_def context_ok_def)

lemma track_frame [simp]:
  "track_active_high_watermark e = count (\<lambda>d. d\<lparr>maximum_active_contexts :=
     max (maximum_active_contexts d) (length (active e))\<rparr>) e"
  by (simp add: track_active_high_watermark_def)

lemma put_context_fields [simp]:
  "dict_get (contexts (put_context r st e)) r' = (if r = r' then Some st else dict_get (contexts e) r')"
  "active (put_context r st e) = active e" "claimed_root (put_context r st e) = claimed_root e"
  "retry (put_context r st e) = retry e" "dispatcher (put_context r st e) = dispatcher e"
  "query_roots (put_context r st e) = query_roots e" "retries (put_context r st e) r' = retries e r'"
  "allocated (put_context r st e) = insert r (allocated e)"
  by (auto simp: put_context_def retries_def allocated_def split: if_splits)

lemma distinct_put_context:
  "distinct (map fst (contexts e)) \<Longrightarrow> distinct (map fst (contexts (put_context r st e)))"
  by (simp add: put_context_def distinct_update)

lemma put_retries_fields [simp]:
  "contexts (put_retries r cs e) = contexts e" "active (put_retries r cs e) = active e"
  "claimed_root (put_retries r cs e) = claimed_root e" "dispatcher (put_retries r cs e) = dispatcher e"
  "query_roots (put_retries r cs e) = query_roots e"
  "retries (put_retries r cs e) r' = (if r = r' then cs else retries e r')"
  "allocated (put_retries r cs e) = allocated e"
  by (simp_all add: put_retries_def retries_def allocated_def)

lemma stored_of_put [simp]: "stored_of (put_context r st e) r' = (if r = r' then stored st else stored_of e r')"
  by (simp add: stored_of_def)

lemma known_of_put [simp]: "known_of (put_context r st e) r' = (if r = r' then known st else known_of e r')"
  by (simp add: known_of_def)

section \<open>Growing\<close>

text \<open>What routing does: known grows by \<open>N\<close>, nothing stored, retried or claimed changes.\<close>

definition grows :: "conclusion set \<Rightarrow> engine \<Rightarrow> engine \<Rightarrow> bool" where
  "grows N e e' \<longleftrightarrow> dispatcher e' = dispatcher e \<and> claimed_root e' = claimed_root e \<and>
     query_roots e' = query_roots e \<and> (\<forall>r. retries e' r = retries e r) \<and>
     (\<forall>r. stored_of e' r = stored_of e r) \<and> all_known e' = all_known e \<union> N \<and> allocated e \<subseteq> allocated e'"

lemma grows_refl: "grows {} e e"
  by (simp add: grows_def)

lemma grows_trans: "grows M e e' \<Longrightarrow> grows N e' e'' \<Longrightarrow> grows (M \<union> N) e e''"
  by (auto simp: grows_def)

lemma growsD:
  assumes "grows N e e'"
  shows "dispatcher e' = dispatcher e" "claimed_root e' = claimed_root e" "query_roots e' = query_roots e"
    "retries e' r = retries e r" "stored_of e' r = stored_of e r" "all_known e' = all_known e \<union> N"
    "allocated e \<subseteq> allocated e'"
  using assms by (simp_all add: grows_def)

lemma known_destination:
  assumes "struct_inv co ps fresh e" and "c \<in> known_of e r"
  shows "conclusion_destination c = r"
proof -
  from assms(2) obtain st where st: "dict_get (contexts e) r = Some st" "c \<in> known st"
    by (auto simp: known_of_def split: option.splits)
  with struct_invD(8) [OF assms(1)] have "context_ok co ps fresh e r st" by blast
  then show ?thesis using st(2) keys_inv_destination by (auto simp: context_ok_def context_inv_def)
qed

lemma all_known_iff:
  assumes "struct_inv co ps fresh e"
  shows "c \<in> all_known e \<longleftrightarrow> c \<in> known_of e (conclusion_destination c)"
  using known_destination [OF assms] by (auto simp: all_known_def)

section \<open>Routing keeps the invariant\<close>

text \<open>One novel conclusion for an allocated context, and its activation.\<close>

lemma activate_struct:
  assumes inv: "struct_inv co ps fresh e" and st: "dict_get (contexts e) root = Some st"
    and new: "enqueue st c = Inr (True, st')" "context_inv st'" "context_label st' = context_label st"
      "stored st' = stored st" "pending st' = insert c (pending st)"
    and scope: "in_scope co ps c" and fresh: "fresh \<subseteq> {root}" "root \<in> fresh \<Longrightarrow> c = ContextInitialization root"
    and unclaimed: "root \<in> fresh \<Longrightarrow> claimed_root e \<noteq> Some root"
  shows "struct_inv co ps {} (activate root (put_context root st' e))"
proof -
  note d = struct_invD [OF inv]
  have ok: "context_ok co ps fresh e root st" using d(8) [OF st] .
  have label: "ctx_root st' = ctx_root st" "queued st' = queued st" using new(3) by (simp_all add: context_label_def)
  have known: "known st' = insert c (known st)" using new(4,5) by (simp add: known_def)
  have alloc: "root \<in> allocated e" using st by (simp add: allocated_def)
  have others: "context_ok co ps {} e' r s"
    if "context_ok co ps fresh e r s" "r \<noteq> root" "retries e' r = retries e r" "claimed_root e' = claimed_root e"
      "r \<in> set (active e') \<longleftrightarrow> r \<in> set (active e)" for e' r s
    using that fresh(1) by (auto simp: context_ok_def)
  show ?thesis
  proof (cases "claimed_root e = Some root \<or> queued st")
    case True
    then have same: "activate root (put_context root st' e) = put_context root st' e"
      by (auto simp: activate_def mark_queued_def label)
    have "context_ok co ps {} (put_context root st' e) root st'"
      using ok True scope unclaimed fresh(2) new(2,4) by (auto simp: context_ok_def label known)
    then show ?thesis
      unfolding same struct_inv_def
      using d distinct_put_context [OF d(2)] others alloc by auto
  next
    case False
    let ?st = "st'\<lparr>queued := True, saturated := False\<rparr>"
    let ?e = "(put_context root ?st (put_context root st' e))\<lparr>active := active e @ [root]\<rparr>"
    have eq: "activate root (put_context root st' e) = track_active_high_watermark ?e"
      using False by (auto simp: activate_def mark_queued_def label)
    have not_active: "root \<notin> set (active e)" using ok False by (simp add: context_ok_def)
    have fields: "retries ?e r = retries e r" "allocated ?e = allocated e" for r
      using alloc by (auto simp: retries_def allocated_def put_context_def)
    have root_ok: "context_ok co ps {} ?e root ?st"
      using ok scope fresh(2) new(2,4) by (auto simp: context_ok_def label known fields)
    have dist: "distinct (map fst (contexts ?e))"
      using distinct_put_context [OF distinct_put_context [OF d(2)]] by simp
    have "struct_inv co ps {} ?e"
      unfolding struct_inv_def fields
    proof (intro conjI)
      show "\<forall>r s. dict_get (contexts ?e) r = Some s \<longrightarrow> context_ok co ps {} ?e r s"
      proof (intro allI impI)
        fix r s assume r: "dict_get (contexts ?e) r = Some s"
        show "context_ok co ps {} ?e r s"
        proof (cases "r = root")
          case True
          with r root_ok show ?thesis by simp
        next
          case False
          with r d(8) have "context_ok co ps fresh e r s" by simp
          with False show ?thesis by (intro others) (simp_all add: fields)
        qed
      qed
    qed (use d dist not_active alloc False in auto)
    then show ?thesis by (simp only: eq track_frame engine_update_frame)
  qed
qed

lemma activate_frame:
  assumes "dict_get (contexts e) root = Some st"
  shows "dispatcher (activate root e) = dispatcher e" "claimed_root (activate root e) = claimed_root e"
    "query_roots (activate root e) = query_roots e" "retries (activate root e) r = retries e r"
    "stored_of (activate root e) r = stored_of e r" "known_of (activate root e) r = known_of e r"
    "allocated (activate root e) = allocated e"
proof -
  let ?st = "st\<lparr>queued := True, saturated := False\<rparr>"
  let ?e = "(put_context root ?st e)\<lparr>active := active e @ [root]\<rparr>"
  have row: "stored_of (put_context root ?st e) r = stored_of e r" "known_of (put_context root ?st e) r = known_of e r"
    "allocated (put_context root ?st e) = allocated e"
    using assms by (auto simp: stored_of_def known_of_def allocated_def)
  have "activate root e = e \<or> activate root e = track_active_high_watermark ?e"
    using assms by (auto simp: activate_def mark_queued_def)
  then show "dispatcher (activate root e) = dispatcher e" "claimed_root (activate root e) = claimed_root e"
    "query_roots (activate root e) = query_roots e" "retries (activate root e) r = retries e r"
    "stored_of (activate root e) r = stored_of e r" "known_of (activate root e) r = known_of e r"
    "allocated (activate root e) = allocated e"
    using row by (auto simp del: stored_of_put known_of_put)
qed

lemma enqueue_existing_ok:
  assumes inv: "struct_inv co ps fresh e" and st: "dict_get (contexts e) root = Some st"
    and dest: "conclusion_destination c = root" and scope: "in_scope co ps c"
    and fresh: "fresh \<subseteq> {root}"
      "root \<in> fresh \<Longrightarrow> c = ContextInitialization root \<and> known st = {} \<and> claimed_root e \<noteq> Some root"
  obtains b e' where "enqueue_existing root c e = (Inr b, e')" and "struct_inv co ps {} e'"
    and "grows {c} e e'" and "allocated e' = allocated e"
proof -
  have ok: "context_ok co ps fresh e root st" by (rule struct_invD(8) [OF inv st])
  then have ctx: "context_inv st" and owns: "owns_conclusion st c"
    using dest by (simp_all add: context_ok_def owns_conclusion_def)
  obtain b st' where b: "enqueue st c = Inr (b, st')" "context_inv st'" "context_label st' = context_label st"
    "stored st' = stored st" "pending st' = (if b then insert c (pending st) else pending st)"
    "b \<longleftrightarrow> c \<notin> stored st \<union> pending st" "\<not> b \<longrightarrow> st' = st"
    by (rule ctx.enq_total [OF ctx owns])
  let ?e = "count (\<lambda>d. d\<lparr>conclusion_candidates := conclusion_candidates d + 1\<rparr>) e"
  show ?thesis
  proof (cases b)
    case False
    then have c: "c \<in> known st" using b(6) by (simp add: known_def)
    then have "fresh = {}" using fresh by auto
    then have inv': "struct_inv co ps {} e" using inv by simp
    have "c \<in> known_of e root" using c st by (simp add: known_of_def)
    then have "all_known e \<union> {c} = all_known e" by (auto simp: all_known_def)
    with False b(1) st inv' show ?thesis
      by (intro that [of False "count (\<lambda>d. d\<lparr>duplicate_candidates := duplicate_candidates d + 1\<rparr>) ?e"])
        (auto simp: enqueue_existing_def grows_def)
  next
    case True
    let ?e2 = "count (\<lambda>d. d\<lparr>conclusions_enqueued := conclusions_enqueued d + 1\<rparr>) ?e"
    let ?out = "activate root (put_context root st' ?e2)"
    have inv2: "struct_inv co ps fresh ?e2" using inv by simp
    have pend: "pending st' = insert c (pending st)" using b(5) True by simp
    have run: "enqueue_existing root c e = (Inr True, ?out)"
      using True b(1) st by (simp add: enqueue_existing_def Let_def)
    have inv': "struct_inv co ps {} ?out"
      by (rule activate_struct [OF inv2 _ b(1) [unfolded True [THEN eqTrueI]] b(2,3,4) pend scope fresh(1)])
        (use st fresh(2) True in auto)
    have put: "dict_get (contexts (put_context root st' ?e2)) root = Some st'" by simp
    note fr = activate_frame [OF put]
    have known: "known st' = insert c (known st)" using b(4) pend by (simp add: known_def)
    have row: "known_of ?out r = known_of e r \<union> (if r = root then {c} else {})" for r
      unfolding fr(6) using st known by (simp add: known_of_def)
    have "(\<Union>r. if r = root then {c} else {}) = {c}" by auto
    then have k: "all_known ?out = all_known e \<union> {c}" unfolding all_known_def row UN_Un_distrib by simp
    have s: "stored_of ?out r = stored_of e r" for r
      unfolding fr(5) using st b(4) by (cases "r = root") (simp_all add: stored_of_def)
    have a: "allocated ?out = allocated e"
      unfolding fr(7) put_context_fields engine_update_frame using st by (auto simp: allocated_def)
    have frame: "dispatcher ?out = dispatcher e" "claimed_root ?out = claimed_root e"
      "query_roots ?out = query_roots e" "\<And>r. retries ?out r = retries e r"
      unfolding fr(1-4) by simp_all
    have "grows {c} e ?out"
      unfolding grows_def using k s a frame by blast
    then show ?thesis by (rule that [OF run inv' _ a])
  qed
qed

lemma ensure_context_ok:
  assumes set: "class_setting co ps" and inv: "struct_inv co ps {} e" and root: "is_expression co root"
  obtains e' where "ensure_context root e = (Inr (), e')" and "struct_inv co ps {} e'"
    and "grows (if root \<in> allocated e then {} else {ContextInitialization root}) e e'"
    and "allocated e' = insert root (allocated e)"
proof (cases "dict_get (contexts e) root")
  case (Some st)
  then have "root \<in> allocated e" by (simp add: allocated_def)
  with Some inv show ?thesis
    by (intro that [of e]) (auto simp: ensure_context_def grows_refl)
next
  case None
  then have new: "root \<notin> allocated e" by (simp add: allocated_def)
  note d = struct_invD [OF inv]
  let ?c = "ContextInitialization root"
  have scope: "in_scope co ps ?c" using root by simp
  let ?e = "count (\<lambda>d. d\<lparr>contexts_created := contexts_created d + 1\<rparr>)
    (put_retries root [] (put_context root (new_context root) e))"
  have claimed: "claimed_root e \<noteq> Some root" using d(6) new by blast
  have same: "retries ?e r = retries e r" for r using d(7) [OF new] by auto
  have "context_ok co ps {root} ?e root (new_context root)"
    using root d(4) new d(7) [OF new] by (auto simp: context_ok_def known_def new_context_def stored_def pending_def
        context_inv_new_context [unfolded new_context_def])
  moreover have "context_ok co ps {root} ?e r st" if "dict_get (contexts e) r = Some st" for r st
    using d(8) [OF that] by (auto simp: context_ok_def same)
  ultimately have inv': "struct_inv co ps {root} ?e"
    unfolding struct_inv_def using d distinct_put_context [OF d(2)] by auto
  have st: "dict_get (contexts ?e) root = Some (new_context root)" by simp
  have known: "known (new_context root) = {}" by (simp add: known_def)
  obtain b e' where e': "enqueue_existing root ?c ?e = (Inr b, e')" "struct_inv co ps {} e'"
    "grows {?c} ?e e'" "allocated e' = allocated ?e"
    by (rule enqueue_existing_ok [OF inv' st _ scope]) (use claimed known in auto)
  have "known_of ?e r = known_of e r" "stored_of ?e r = stored_of e r" for r
    using None by (auto simp: known_of_def stored_of_def known_def)
  then have "grows {} e ?e" using same by (auto simp: grows_def all_known_def)
  from grows_trans [OF this e'(3)] have "grows {?c} e e'" by simp
  moreover have "post_init ?c = Inr ?c" by (simp add: in_scope_ok [OF set scope])
  then have "ensure_context root e = (Inr (), e')"
    using None e'(1) by (simp add: ensure_context_def Let_def)
  ultimately show ?thesis using new e'(2,4) by (intro that [of e']) simp_all
qed

lemma checked_root_ok:
  assumes "class_setting co ps" and "struct_inv co ps {} e"
  shows "checked_root e root = (if is_expression co root then Inr root else Inl ValueError)"
  using dispatcher_tables(1) [OF assms(1) struct_invD(1) [OF assms(2)]]
  by (simp add: checked_root_def is_expression_def)

lemma engine_enqueue_ok:
  assumes set: "class_setting co ps" and inv: "struct_inv co ps {} e" and scope: "in_scope co ps c"
  obtains b e' N where "engine_enqueue c e = (Inr b, e')" and "struct_inv co ps {} e'" and "grows N e e'"
    and "c \<in> N" and "N \<subseteq> {c, ContextInitialization (conclusion_destination c)}"
    and "allocated e' = insert (conclusion_destination c) (allocated e)"
proof -
  let ?r = "conclusion_destination c"
  have r: "is_expression co ?r" by (rule in_scope_destination [OF scope])
  let ?N = "if ?r \<in> allocated e then {} else {ContextInitialization ?r}"
  obtain e1 where e1: "ensure_context ?r e = (Inr (), e1)" "struct_inv co ps {} e1" "grows ?N e e1"
    "allocated e1 = insert ?r (allocated e)"
    by (rule ensure_context_ok [OF set inv r])
  then have "?r \<in> allocated e1" by simp
  then obtain st where st: "dict_get (contexts e1) ?r = Some st" by (auto simp: allocated_def)
  obtain b e2 where e2: "enqueue_existing ?r c e1 = (Inr b, e2)" "struct_inv co ps {} e2" "grows {c} e1 e2"
    "allocated e2 = allocated e1"
    by (rule enqueue_existing_ok [OF e1(2) st refl scope]) auto
  have "engine_enqueue c e = (Inr b, e2)"
    using e1(1) e2(1) r by (simp add: engine_enqueue_def checked_root_ok [OF set inv])
  then show ?thesis
    using that [OF _ e2(2) grows_trans [OF e1(3) e2(3)]] e1(4) e2(4) by auto
qed

lemma enqueue_products_ok:
  assumes set: "class_setting co ps" and "struct_inv co ps {} e" and "\<forall>c \<in> set cs. in_scope co ps c"
  shows "\<exists>e' N. enqueue_products cs e = (Inr (), e') \<and> struct_inv co ps {} e' \<and> grows N e e' \<and>
    set cs \<subseteq> N \<and> N \<subseteq> set cs \<union> (\<lambda>c. ContextInitialization (conclusion_destination c)) ` set cs"
  using assms(2,3)
proof (induction cs arbitrary: e)
  case Nil
  then show ?case using grows_refl by auto
next
  case (Cons c cs)
  from Cons.prems(2) have scope: "in_scope co ps c" by simp
  obtain b e1 N where e1: "engine_enqueue c e = (Inr b, e1)" "struct_inv co ps {} e1" "grows N e e1"
    "c \<in> N" "N \<subseteq> {c, ContextInitialization (conclusion_destination c)}"
    "allocated e1 = insert (conclusion_destination c) (allocated e)"
    by (rule engine_enqueue_ok [OF set Cons.prems(1) scope])
  from Cons.IH [OF e1(2)] Cons.prems(2) obtain e' M where e': "enqueue_products cs e1 = (Inr (), e')"
    "struct_inv co ps {} e'" "grows M e1 e'" "set cs \<subseteq> M"
    "M \<subseteq> set cs \<union> (\<lambda>c. ContextInitialization (conclusion_destination c)) ` set cs" by auto
  from grows_trans [OF e1(3) e'(3)] e1 e' show ?case
    by (intro exI [of _ e'] exI [of _ "N \<union> M"]) auto
qed

lemma ensure_all_ok:
  assumes set: "class_setting co ps" and "struct_inv co ps {} e" and "\<forall>r \<in> set rs. is_expression co r"
  shows "\<exists>e' N. ensure_all rs e = (Inr (), e') \<and> struct_inv co ps {} e' \<and> grows N e e' \<and>
    N \<subseteq> ContextInitialization ` set rs \<and> allocated e' = set rs \<union> allocated e"
  using assms(2,3)
proof (induction rs arbitrary: e)
  case Nil
  then show ?case using grows_refl by auto
next
  case (Cons r rs)
  from Cons.prems(2) have r: "is_expression co r" by simp
  obtain e1 where e1: "ensure_context r e = (Inr (), e1)" "struct_inv co ps {} e1"
    "grows (if r \<in> allocated e then {} else {ContextInitialization r}) e e1"
    "allocated e1 = insert r (allocated e)"
    by (rule ensure_context_ok [OF set Cons.prems(1) r])
  from Cons.IH [OF e1(2)] Cons.prems(2) obtain e' M where e': "ensure_all rs e1 = (Inr (), e')"
    "struct_inv co ps {} e'" "grows M e1 e'" "M \<subseteq> ContextInitialization ` set rs"
    "allocated e' = set rs \<union> allocated e1" by auto
  from grows_trans [OF e1(3) e'(3)] e1 e' show ?case
    by (intro exI [of _ e'] exI [of _ "(if r \<in> allocated e then {} else {ContextInitialization r}) \<union> M"]) auto
qed

end
