(* ===== verification/Saturation_Run.thy ===== *)
theory Saturation_Run
  imports Saturation_Invariant
begin

text \<open>
  One agenda item at a time: a run neither loses nor invents a conclusion, it ends, and a run that
  was stopped at a boundary can be taken up again.
\<close>

section \<open>The invariant between operations\<close>

definition dispatched :: "engine \<Rightarrow> nat \<Rightarrow> conclusion set" where
  "dispatched e r = stored_of e r - set (retries e r)"

definition rules_closed :: "compiled_ontology \<Rightarrow> property_saturation \<Rightarrow> conclusion set \<Rightarrow> conclusion set \<Rightarrow> bool" where
  "rules_closed co ps S K \<longleftrightarrow> rule_source.closed_under (follows co ps) S K"

definition engine_inv :: "compiled_ontology \<Rightarrow> property_saturation \<Rightarrow> nat set \<Rightarrow> engine \<Rightarrow> bool" where
  "engine_inv co ps roots e \<longleftrightarrow> class_setting co ps \<and> struct_inv co ps {} e \<and>
     all_known e \<subseteq> derivable co ps roots \<and> roots \<subseteq> allocated e \<and> (\<forall>r \<in> roots. is_expression co r) \<and>
     (\<forall>r. rules_closed co ps (dispatched e r) (all_known e))"

lemma engine_invD:
  assumes "engine_inv co ps roots e"
  shows "class_setting co ps" "struct_inv co ps {} e" "all_known e \<subseteq> derivable co ps roots"
    "roots \<subseteq> allocated e" "\<forall>r \<in> roots. is_expression co r"
    "\<And>r. rules_closed co ps (dispatched e r) (all_known e)"
  using assms unfolding engine_inv_def by blast+

text \<open>What is left to do, for termination.\<close>

definition work :: "compiled_ontology \<Rightarrow> property_saturation \<Rightarrow> engine \<Rightarrow> nat" where
  "work co ps e = card ({c. in_scope co ps c} - all_stored e) +
     (\<Sum>r | is_expression co r. length (retries e r))"

lemma finite_expressions [simp]: "finite {r. is_expression co r}"
  by (simp add: is_expression_def)

lemma grows_all_stored: "grows N e e' \<Longrightarrow> all_stored e' = all_stored e"
  by (simp add: grows_def all_stored_def)

lemma grows_work: "grows N e e' \<Longrightarrow> work co ps e' = work co ps e"
  using grows_all_stored [of N e e'] by (simp add: work_def grows_def)

lemma grows_dispatched: "grows N e e' \<Longrightarrow> dispatched e' r = dispatched e r"
  by (simp add: grows_def dispatched_def)

lemma all_stored_known: "all_stored e \<subseteq> all_known e"
  using stored_known_of by (fastforce simp: all_stored_def all_known_def)

section \<open>Taking the next premise\<close>

lemma claimed_context:
  assumes "struct_inv co ps {} e" and "claimed_root e = Some root"
  obtains st where "dict_get (contexts e) root = Some st" and "context_ok co ps {} e root st"
    and "root \<notin> set (active e)" and "is_expression co root"
proof -
  from struct_invD(6) [OF assms] obtain st where st: "dict_get (contexts e) root = Some st"
    by (auto simp: allocated_def)
  from struct_invD(8) [OF assms(1) st] struct_invD(5) [OF assms] st show ?thesis
    by (intro that [of st]) (auto simp: context_ok_def)
qed

lemma replace_context_struct:
  assumes inv: "struct_inv co ps {} e" and root: "root \<in> allocated e"
    and same: "dispatcher e' = dispatcher e" "active e' = active e" "claimed_root e' = claimed_root e"
      "allocated e' = allocated e" "\<And>r. r \<noteq> root \<Longrightarrow> dict_get (contexts e') r = dict_get (contexts e) r"
      "\<And>r. r \<noteq> root \<Longrightarrow> retries e' r = retries e r" "distinct (map fst (contexts e'))"
    and ok: "\<And>st. dict_get (contexts e') root = Some st \<Longrightarrow> context_ok co ps {} e' root st"
  shows "struct_inv co ps {} e'"
proof -
  note d = struct_invD [OF inv]
  have "context_ok co ps {} e' r st" if "dict_get (contexts e') r = Some st" for r st
  proof (cases "r = root")
    case True
    with ok that show ?thesis by simp
  next
    case False
    with that have "context_ok co ps {} e r st" using d(8) same(5) by simp
    with False show ?thesis by (auto simp: context_ok_def same(2,3) same(6))
  qed
  moreover have "retries e' r = []" if "r \<notin> allocated e" for r
    using that d(7) root same(6) by metis
  ultimately show ?thesis
    unfolding struct_inv_def same(1-4) using d same(7) by blast
qed

text \<open>What taking a premise promises the dispatch that follows.\<close>

definition premise_taken ::
    "compiled_ontology \<Rightarrow> property_saturation \<Rightarrow> nat \<Rightarrow> engine \<Rightarrow> conclusion \<Rightarrow> engine \<Rightarrow> bool" where
  "premise_taken co ps root e p e' \<longleftrightarrow> struct_inv co ps {} e' \<and> claimed_root e' = Some root \<and>
     query_roots e' = query_roots e \<and> all_known e' = all_known e \<and> all_stored e \<subseteq> all_stored e' \<and>
     allocated e' = allocated e \<and> p \<in> stored_of e' root \<and>
     (\<forall>r. dispatched e' r - (if r = root then {p} else {}) \<subseteq> dispatched e r) \<and>
     work co ps e' < work co ps e"

lemma retry_taken:
  assumes inv: "struct_inv co ps {} e" and claimed: "claimed_root e = Some root"
    and r: "retries e root = p # rest"
  shows "premise_taken co ps root e p (put_retries root rest e)"
proof -
  let ?e = "put_retries root rest e"
  obtain st where st: "dict_get (contexts e) root = Some st" "context_ok co ps {} e root st"
    "root \<notin> set (active e)" "is_expression co root"
    by (rule claimed_context [OF inv claimed])
  have "struct_inv co ps {} ?e"
  proof (rule replace_context_struct [OF inv])
    show "root \<in> allocated e" using st(1) by (simp add: allocated_def)
    show "context_ok co ps {} ?e root s" if "dict_get (contexts ?e) root = Some s" for s
      using that st(1,2) claimed r by (auto simp: context_ok_def)
  qed (use struct_invD(2) [OF inv] in simp_all)
  moreover have "p \<in> stored_of e root" using st(1,2) r by (simp add: context_ok_def stored_of_def)
  moreover have same: "stored_of ?e r = stored_of e r" "known_of ?e r = known_of e r" for r
    by (simp_all add: stored_of_def known_of_def)
  moreover have "dispatched ?e x - (if x = root then {p} else {}) \<subseteq> dispatched e x" for x
    using r by (auto simp: dispatched_def same)
  moreover have "(\<Sum>x | is_expression co x. length (retries ?e x)) < (\<Sum>x | is_expression co x. length (retries e x))"
    by (rule sum_strict_mono_ex1) (use st(4) r in auto)
  then have "work co ps ?e < work co ps e" by (simp add: work_def all_stored_def same)
  ultimately show ?thesis
    using claimed by (simp add: premise_taken_def all_known_def all_stored_def)
qed

lemma agenda_taken:
  assumes set: "class_setting co ps" and inv: "struct_inv co ps {} e" and claimed: "claimed_root e = Some root"
    and r: "retries e root = []" and st: "dict_get (contexts e) root = Some st" and todo: "pending st \<noteq> {}"
  obtains p st' st'' where "pop_todo st = (Some p, st')" and "insert_conclusion st' p = Inr (True, st'')"
    and "premise_taken co ps root e p (put_context root st'' e)"
proof -
  obtain st1 where st1: "dict_get (contexts e) root = Some st1" "context_ok co ps {} e root st1"
    "root \<notin> set (active e)" "is_expression co root"
    by (rule claimed_context [OF inv claimed])
  then have ok: "context_ok co ps {} e root st" using st by simp
  then have ctx: "context_inv st" by (simp add: context_ok_def)
  obtain p st' st'' where p: "pop_todo st = (Some p, st')" "insert_conclusion st' p = Inr (True, st'')"
    "context_inv st''" "context_label st'' = context_label st" "owns_conclusion st p" "p \<in> pending st"
    "p \<notin> stored st" "stored st'' = insert p (stored st)" "pending st'' = pending st - {p}"
    "stored st'' \<union> pending st'' = stored st \<union> pending st"
    by (rule ctx.pop_ins [OF ctx todo])
  let ?e = "put_context root st'' e"
  have known: "known st'' = known st" using p(10) by (simp add: known_def)
  have label: "ctx_root st'' = ctx_root st" "queued st'' = queued st" using p(4) by (simp_all add: context_label_def)
  have "struct_inv co ps {} ?e"
  proof (rule replace_context_struct [OF inv])
    show "root \<in> allocated e" "allocated ?e = allocated e" using st by (auto simp: allocated_def)
    show "context_ok co ps {} ?e root s" if "dict_get (contexts ?e) root = Some s" for s
    proof -
      have "s = st''" using that by simp
      then show ?thesis using ok claimed p(3,8) by (simp add: context_ok_def known label subset_insertI2)
    qed
  qed (use distinct_put_context [OF struct_invD(2) [OF inv]] in simp_all)
  moreover have k: "known_of ?e x = known_of e x" for x
    using st known by (cases "x = root") (simp_all add: known_of_def)
  moreover have s: "stored_of ?e x = (if x = root then insert p (stored_of e x) else stored_of e x)" for x
    using st p(8) by (cases "x = root") (simp_all add: stored_of_def)
  moreover have "dispatched ?e x - (if x = root then {p} else {}) \<subseteq> dispatched e x" for x
    unfolding dispatched_def s put_context_fields by auto
  moreover have all: "all_stored ?e = insert p (all_stored e)"
  proof -
    have "stored_of ?e x = stored_of e x \<union> (if x = root then {p} else {})" for x unfolding s by simp
    moreover have "(\<Union>x. if x = root then {p} else {}) = {p}" by auto
    ultimately show ?thesis unfolding all_stored_def by (simp add: UN_Un_distrib)
  qed
  moreover have "work co ps ?e < work co ps e"
  proof -
    have "p \<in> known st" using p(6) by (simp add: known_def)
    then have scope: "in_scope co ps p" using ok by (simp add: context_ok_def)
    have "p \<notin> all_stored e"
    proof
      assume "p \<in> all_stored e"
      then obtain x where x: "p \<in> stored_of e x" by (auto simp: all_stored_def)
      then have "p \<in> known_of e x" using stored_known_of by blast
      then have "conclusion_destination p = x" by (rule known_destination [OF inv])
      moreover have "conclusion_destination p = root"
        using p(5) ok by (simp add: owns_conclusion_def context_ok_def)
      ultimately have "p \<in> stored_of e root" using x by simp
      with p(7) st show False by (simp add: stored_of_def)
    qed
    then have "p \<in> {c. in_scope co ps c} - all_stored e" using scope by simp
    moreover have "{c. in_scope co ps c} - all_stored ?e = ({c. in_scope co ps c} - all_stored e) - {p}"
      unfolding all by auto
    ultimately have "card ({c. in_scope co ps c} - all_stored ?e) < card ({c. in_scope co ps c} - all_stored e)"
      using finite_in_scope [OF set] by (metis card_Diff1_less finite_Diff)
    then show ?thesis by (simp add: work_def)
  qed
  moreover have "p \<in> stored_of ?e root" unfolding s by simp
  ultimately have "premise_taken co ps root e p ?e"
    using claimed st by (auto simp: premise_taken_def all_known_def allocated_def)
  with p(1,2) show ?thesis by (rule that)
qed

lemma next_premise_ok:
  assumes set: "class_setting co ps" and inv: "struct_inv co ps {} e" and claimed: "claimed_root e = Some root"
    and work: "has_local_work root e"
  obtains p inserted e' where "next_premise root e = (Inr (p, inserted), e')" and "premise_taken co ps root e p e'"
proof (cases "retries e root")
  case (Cons p rest)
  then show ?thesis
    using retry_taken [OF inv claimed Cons] by (intro that [of p False]) (simp_all add: next_premise_def)
next
  case Nil
  then obtain st where st: "dict_get (contexts e) root = Some st" "pending st \<noteq> {}"
    using work by (auto simp: has_local_work_def pending_def split: option.splits)
  obtain p st' st'' where p: "pop_todo st = (Some p, st')" "insert_conclusion st' p = Inr (True, st'')"
    "premise_taken co ps root e p (put_context root st'' e)"
    by (rule agenda_taken [OF set inv claimed Nil st])
  let ?e = "count (\<lambda>d. d\<lparr>conclusions_inserted := conclusions_inserted d + 1\<rparr>) (put_context root st'' e)"
  have "next_premise root e = (Inr (p, True), ?e)"
    using Nil st(1) p(1,2) by (simp add: next_premise_def)
  moreover have "premise_taken co ps root e p ?e"
    using p(3) by (simp add: premise_taken_def dispatched_def work_def)
  ultimately show ?thesis by (rule that)
qed

section \<open>Dispatching it\<close>

lemma follows_in_scope:
  assumes "class_setting co ps" and "follows co ps S p c" and "in_scope co ps p" and "\<forall>q \<in> S. in_scope co ps q"
  shows "in_scope co ps c"
  using assms unary_rule_in_scope [OF assms(1)] binary_rule_in_scope [OF assms(1)] unfolding follows_def by blast

lemma follows_derivable:
  assumes "follows co ps S p c" and "p \<in> derivable co ps roots" and "S \<subseteq> derivable co ps roots"
  shows "c \<in> derivable co ps roots"
  using assms unfolding follows_def by (auto intro: derivable.unary derivable.binary)

lemma dispatch_premise_ok:
  assumes set: "class_setting co ps" and inv: "struct_inv co ps {} e" and p: "p \<in> stored_of e root"
    and sound: "all_known e \<subseteq> derivable co ps roots"
    and closed: "\<And>r. rules_closed co ps (dispatched e r - (if r = root then {p} else {})) (all_known e)"
  obtains e' N where "dispatch_premise root p e = (Inr (), e')" and "struct_inv co ps {} e'" and "grows N e e'"
    and "N \<subseteq> derivable co ps roots" and "\<And>r. rules_closed co ps (dispatched e' r) (all_known e')"
proof -
  note d = struct_invD [OF inv]
  from p obtain st where st: "dict_get (contexts e) root = Some st" "p \<in> stored st"
    by (auto simp: stored_of_def split: option.splits)
  have ok: "context_ok co ps {} e root st" by (rule d(8) [OF st(1)])
  have stored: "\<forall>c \<in> stored st. in_scope co ps c" using ok by (simp add: context_ok_def known_def)
  have ready: "dispatch_ready co ps (dispatcher e) st"
    using set d(1) ok stored by (simp add: dispatch_ready_def context_ok_def)
  let ?S = "dispatched e root - {p}"
  have S: "?S \<subseteq> stored st" using st(1) by (auto simp: dispatched_def stored_of_def)
  have "rule_source.closed_under (follows co ps) ?S (all_known e)"
    using closed [of root] by (simp add: rules_closed_def)
  from rules.semi_naive [OF ready st(2) S this] obtain products where pr:
    "dispatch (dispatcher e) st p = Inr products"
    "rule_source.closed_under (follows co ps) (insert p ?S) (all_known e \<union> set products)"
    "set products = {c. follows co ps (stored st) p c}" by blast
  have "stored st \<subseteq> stored_of e root" using st(1) by (simp add: stored_of_def)
  then have "stored st \<subseteq> all_known e" using stored_known_of [of e root] unfolding all_known_def by blast
  then have der: "stored st \<subseteq> derivable co ps roots" using sound by blast
  have scope: "\<forall>c \<in> set products. in_scope co ps c"
    using follows_in_scope [OF set _ _ stored] st(2) stored unfolding pr(3) by blast
  have products: "set products \<subseteq> derivable co ps roots"
    using follows_derivable [OF _ _ der] st(2) der unfolding pr(3) by blast
  let ?e = "count (\<lambda>d. d\<lparr>rule_dispatches := rule_dispatches d + 1,
    product_candidates := product_candidates d + length products\<rparr>) e"
  have inv': "struct_inv co ps {} ?e" using inv by simp
  obtain e' N where e': "enqueue_products products ?e = (Inr (), e')" "struct_inv co ps {} e'" "grows N ?e e'"
    "set products \<subseteq> N" "N \<subseteq> set products \<union> (\<lambda>c. ContextInitialization (conclusion_destination c)) ` set products"
    using enqueue_products_ok [OF set inv' scope] by blast
  have g: "grows N e e'" using e'(3) by (simp add: grows_def)
  have "N \<subseteq> derivable co ps roots" using e'(5) products derivable.created by blast
  moreover have "rules_closed co ps (dispatched e' r) (all_known e')" for r
  proof -
    have K: "all_known e \<union> set products \<subseteq> all_known e'" using growsD(6) [OF g] e'(4) by blast
    show ?thesis
    proof (cases "r = root")
      case True
      have "dispatched e' root \<subseteq> insert p ?S" using grows_dispatched [OF g] by auto
      then show ?thesis
        unfolding rules_closed_def True by (rule rules.closed_under_mono [OF pr(2) _ K])
    next
      case False
      with closed [of r] have c: "rule_source.closed_under (follows co ps) (dispatched e r) (all_known e)"
        by (simp add: rules_closed_def)
      have "all_known e \<subseteq> all_known e'" using K by simp
      then show ?thesis
        unfolding rules_closed_def grows_dispatched [OF g] by (rule rules.closed_under_mono [OF c subset_refl])
    qed
  qed
  moreover have "dispatch_premise root p e = (Inr (), e')"
    using st(1) pr(1) e'(1) by (simp add: dispatch_premise_def)
  ultimately show ?thesis using that [OF _ e'(2) g] by blast
qed

text \<open>One turn of the inner loop.\<close>

lemma rules_closed_mono:
  "rules_closed co ps S K \<Longrightarrow> S' \<subseteq> S \<Longrightarrow> K \<subseteq> K' \<Longrightarrow> rules_closed co ps S' K'"
  unfolding rules_closed_def by (rule rules.closed_under_mono)

lemma local_step:
  assumes inv: "engine_inv co ps roots e" and claimed: "claimed_root e = Some root" and work: "has_local_work root e"
  obtains p inserted e1 e2 where "next_premise root e = (Inr (p, inserted), e1)"
    and "dispatch_premise root p e1 = (Inr (), e2)" and "engine_inv co ps roots e2"
    and "claimed_root e2 = Some root" and "work co ps e2 < work co ps e" and "query_roots e2 = query_roots e"
    and "all_stored e \<subseteq> all_stored e2" and "allocated e \<subseteq> allocated e2"
proof -
  note i = engine_invD [OF inv]
  obtain p inserted e1 where n: "next_premise root e = (Inr (p, inserted), e1)" "premise_taken co ps root e p e1"
    by (rule next_premise_ok [OF i(1,2) claimed work])
  then have t: "struct_inv co ps {} e1" "claimed_root e1 = Some root" "query_roots e1 = query_roots e"
    "all_known e1 = all_known e" "all_stored e \<subseteq> all_stored e1" "allocated e1 = allocated e" "p \<in> stored_of e1 root"
    "\<And>r. dispatched e1 r - (if r = root then {p} else {}) \<subseteq> dispatched e r" "work co ps e1 < work co ps e"
    unfolding premise_taken_def by blast+
  have sound: "all_known e1 \<subseteq> derivable co ps roots" using i(3) t(4) by simp
  have closed: "rules_closed co ps (dispatched e1 r - (if r = root then {p} else {})) (all_known e1)" for r
    using rules_closed_mono [OF i(6) t(8)] t(4) by simp
  obtain e2 N where e2: "dispatch_premise root p e1 = (Inr (), e2)" "struct_inv co ps {} e2" "grows N e1 e2"
    "N \<subseteq> derivable co ps roots" "\<And>r. rules_closed co ps (dispatched e2 r) (all_known e2)"
    by (rule dispatch_premise_ok [OF i(1) t(1,7) sound closed]) blast
  note g = growsD [OF e2(3)]
  have inv2: "engine_inv co ps roots e2"
    unfolding engine_inv_def using i(1,4,5) e2(2,4,5) g(6,7) sound t(6) by blast
  show ?thesis
  proof (rule that [OF n(1) e2(1) inv2])
    show "claimed_root e2 = Some root" "query_roots e2 = query_roots e" using g(2,3) t(2,3) by simp_all
    show "work co ps e2 < work co ps e" using grows_work [OF e2(3)] t(9) by simp
    show "all_stored e \<subseteq> all_stored e2" using grows_all_stored [OF e2(3)] t(5) by simp
    show "allocated e \<subseteq> allocated e2" using g(7) t(6) by simp
  qed
qed

section \<open>The inner loop\<close>

text \<open>Why a run may stop: a budget or an answer of the callback, and nothing else.\<close>

definition may_stop :: "nat option \<Rightarrow> (nat \<Rightarrow> bool) \<Rightarrow> py_error \<Rightarrow> bool" where
  "may_stop max_conclusions interrupt x \<longleftrightarrow>
     x = SaturationBudgetExceeded \<and> max_conclusions \<noteq> None \<or> x = SaturationInterrupted \<and> (\<exists>n. interrupt n)"

lemma run_local_total:
  assumes "engine_inv co ps roots e" and "claimed_root e = Some root"
  shows "\<exists>out e'. run_local max_conclusions interrupt root ctr e = Some (out, e') \<and>
    engine_inv co ps roots e' \<and> claimed_root e' = Some root \<and> query_roots e' = query_roots e \<and>
    all_stored e \<subseteq> all_stored e' \<and> allocated e \<subseteq> allocated e' \<and>
    (work co ps e' < work co ps e \<or> e' = e) \<and>
    (case out of Inl x \<Rightarrow> may_stop max_conclusions interrupt x \<and> has_local_work root e' | Inr _ \<Rightarrow> \<not> has_local_work root e')"
  using assms
proof (induction "work co ps e" arbitrary: e ctr rule: less_induct)
  case less
  show ?case
  proof (cases "has_local_work root e \<and> \<not> budget_exhausted max_conclusions (fst ctr) \<and> \<not> interrupt (snd ctr)")
    case False
    have "\<exists>out. run_local max_conclusions interrupt root ctr e = Some (out, e) \<and>
      (case out of Inl x \<Rightarrow> may_stop max_conclusions interrupt x \<and> has_local_work root e | Inr _ \<Rightarrow> \<not> has_local_work root e)"
      using False by (subst run_local.simps) (auto simp: may_stop_def budget_exhausted_def split: option.splits)
    with less.prems show ?thesis by auto
  next
    case True
    then have work: "has_local_work root e" by simp
    obtain p inserted e1 e2 where s: "next_premise root e = (Inr (p, inserted), e1)"
      "dispatch_premise root p e1 = (Inr (), e2)" "engine_inv co ps roots e2"
      "claimed_root e2 = Some root" "work co ps e2 < work co ps e" "query_roots e2 = query_roots e"
      "all_stored e \<subseteq> all_stored e2" "allocated e \<subseteq> allocated e2"
      by (rule local_step [OF less.prems work])
    let ?ctr = "(if inserted then fst ctr + 1 else fst ctr, snd ctr + 1)"
    have "run_local max_conclusions interrupt root ctr e = run_local max_conclusions interrupt root ?ctr e2"
      using True s(1,2) by (subst run_local.simps) simp
    moreover obtain out e' where o: "run_local max_conclusions interrupt root ?ctr e2 = Some (out, e')"
      "engine_inv co ps roots e'" "claimed_root e' = Some root" "query_roots e' = query_roots e2"
      "all_stored e2 \<subseteq> all_stored e'" "allocated e2 \<subseteq> allocated e'" "work co ps e' < work co ps e2 \<or> e' = e2"
      "case out of Inl x \<Rightarrow> may_stop max_conclusions interrupt x \<and> has_local_work root e' | Inr _ \<Rightarrow> \<not> has_local_work root e'"
      using less.hyps [OF s(5,3,4), of ?ctr] by blast
    moreover have "all_stored e \<subseteq> all_stored e'" "allocated e \<subseteq> allocated e'"
      using s(7,8) o(5,6) by blast+
    moreover have "work co ps e' < work co ps e" using s(5) o(7) by auto
    ultimately show ?thesis using s(6) by (intro exI [of _ out] exI [of _ e']) simp
  qed
qed

end
