(* ===== verification/Saturation_Total.thy ===== *)
theory Saturation_Total
  imports Saturation_Run
begin

text \<open>
  The outer loop and the entry points: a run ends, computes exactly the derivable conclusions, and
  an interrupted run leaves an engine from which a later one reaches the same result.
\<close>

section \<open>Claiming and releasing a context\<close>

text \<open>Flag changes of one context: the conclusions stay.\<close>

lemma flags_frame:
  assumes "dict_get (contexts e) r = Some st"
  shows "stored_of (put_context r (st\<lparr>queued := a, saturated := b\<rparr>) e) x = stored_of e x"
    "known_of (put_context r (st\<lparr>queued := a, saturated := b\<rparr>) e) x = known_of e x"
    "insert r (allocated e) = allocated e"
  using assms by (auto simp: stored_of_def known_of_def allocated_def)

lemma same_content:
  assumes "\<And>r. stored_of e' r = stored_of e r" and "\<And>r. known_of e' r = known_of e r"
    and "\<And>r. retries e' r = retries e r"
  shows "all_known e' = all_known e" "all_stored e' = all_stored e" "work co ps e' = work co ps e"
    "dispatched e' r = dispatched e r"
  using assms by (simp_all add: all_known_def all_stored_def work_def dispatched_def)

lemma engine_inv_same_content:
  assumes inv: "engine_inv co ps roots e" and struct: "struct_inv co ps {} e'"
    and same: "\<And>r. stored_of e' r = stored_of e r" "\<And>r. known_of e' r = known_of e r"
      "\<And>r. retries e' r = retries e r" "allocated e' = allocated e"
  shows "engine_inv co ps roots e'"
  using inv struct unfolding engine_inv_def same_content [OF same(1-3)] same(4) by blast

lemma claim_root_ok:
  assumes inv: "engine_inv co ps roots e" and act: "active e = root # rest" and idle: "claimed_root e = None"
  obtains e' where "claim_root root rest e = e'" and "engine_inv co ps roots e'"
    and "claimed_root e' = Some root" and "active e' = rest" and "query_roots e' = query_roots e"
    and "all_stored e' = all_stored e" and "allocated e' = allocated e" and "work co ps e' = work co ps e"
proof -
  note d = struct_invD [OF engine_invD(2) [OF inv]]
  from d(4) act obtain st where st: "dict_get (contexts e) root = Some st" by (auto simp: allocated_def)
  let ?st = "st\<lparr>queued := False, saturated := False\<rparr>"
  let ?e0 = "(put_context root ?st e)\<lparr>active := rest, claimed_root := Some root\<rparr>"
  let ?e = "count (\<lambda>d. d\<lparr>context_claims := context_claims d + 1\<rparr>) ?e0"
  have run: "claim_root root rest e = ?e" using st by (simp add: claim_root_def claim_def)
  have known: "known ?st = known st" "stored ?st = stored st" by (simp_all add: known_def stored_def pending_def)
  have content: "stored_of ?e r = stored_of e r" "known_of ?e r = known_of e r" "retries ?e r = retries e r"
    "allocated ?e = allocated e" for r
    using flags_frame [OF st] by (simp_all del: stored_of_put known_of_put)
  have fresh: "root \<notin> set rest" using d(3) act by simp
  have "context_ok co ps {} ?e0 r s" if r: "dict_get (contexts ?e0) r = Some s" for r s
  proof (cases "r = root")
    case True
    with r d(8) [OF st] fresh known show ?thesis by (auto simp: context_ok_def)
  next
    case False
    with r d(8) [of r s] act idle show ?thesis by (auto simp: context_ok_def)
  qed
  moreover have "allocated ?e0 = allocated e" "\<And>r. retries ?e0 r = retries e r"
    using content by simp_all
  moreover have "distinct (map fst (contexts ?e0))" using distinct_put_context [OF d(2)] by simp
  ultimately have "struct_inv co ps {} ?e0"
    unfolding struct_inv_def using d act fresh st by (auto simp: allocated_def)
  then have "struct_inv co ps {} ?e" by simp
  from engine_inv_same_content [OF inv this content] have "engine_inv co ps roots ?e" .
  with run same_content(2,3) [OF content(1-3)] content(4) show ?thesis by (intro that [of ?e]) simp_all
qed

lemma saturate_root_ok:
  assumes inv: "engine_inv co ps roots e" and claimed: "claimed_root e = Some root"
    and finished: "\<not> has_local_work root e"
  obtains e' where "(case saturate_root root e of (out, e1) \<Rightarrow> (out, release_root root e1)) = (Inr (), e')"
    and "engine_inv co ps roots e'" and "claimed_root e' = None" and "active e' = active e"
    and "query_roots e' = query_roots e" and "all_stored e' = all_stored e" and "allocated e' = allocated e"
    and "work co ps e' = work co ps e"
proof -
  note inv0 = engine_invD(2) [OF inv]
  note d = struct_invD [OF inv0]
  obtain st where st: "dict_get (contexts e) root = Some st" "context_ok co ps {} e root st"
    "root \<notin> set (active e)" "is_expression co root"
    by (rule claimed_context [OF inv0 claimed])
  then have empty: "todo st = []" "retries e root = []" and not_queued: "\<not> queued st"
    using finished by (simp_all add: has_local_work_def context_ok_def)
  let ?st = "st\<lparr>queued := False, saturated := True\<rparr>"
  let ?e0 = "(put_context root ?st e)\<lparr>claimed_root := None\<rparr>"
  let ?e1 = "count (\<lambda>d. d\<lparr>context_saturations := context_saturations d + 1\<rparr>) (put_context root ?st e)"
  let ?e = "?e1\<lparr>claimed_root := None\<rparr>"
  have "?st = st\<lparr>saturated := True\<rparr>" using not_queued by simp
  then have run: "saturate_root root e = (Inr (), ?e1)" "release_root root ?e1 = ?e"
    using st(1) empty by (simp_all add: saturate_root_def mark_saturated_def release_root_def has_local_work_def)
  have known: "known ?st = known st" "stored ?st = stored st" by (simp_all add: known_def stored_def pending_def)
  have content: "stored_of ?e r = stored_of e r" "known_of ?e r = known_of e r" "retries ?e r = retries e r"
    "allocated ?e = allocated e" for r
    using flags_frame [OF st(1)] by (simp_all del: stored_of_put known_of_put)
  have "context_ok co ps {} ?e r s" if r: "dict_get (contexts ?e) r = Some s" for r s
  proof (cases "r = root")
    case True
    with r st(2,3) known empty show ?thesis by (auto simp: context_ok_def)
  next
    case False
    with r d(8) [of r s] claimed show ?thesis by (auto simp: context_ok_def)
  qed
  moreover have "distinct (map fst (contexts ?e))" using distinct_put_context [OF d(2)] by simp
  ultimately have "struct_inv co ps {} ?e"
    unfolding struct_inv_def content(3,4) using d by simp
  from engine_inv_same_content [OF inv this content] have "engine_inv co ps roots ?e" .
  with run same_content(2,3) [OF content(1-3)] content(4) show ?thesis by (intro that [of ?e]) simp_all
qed

text \<open>Stopped at a boundary: the context goes back to the front of the queue if it has work.\<close>

lemma release_root_ok:
  assumes inv: "engine_inv co ps roots e" and claimed: "claimed_root e = Some root"
    and work: "has_local_work root e"
  shows "engine_inv co ps roots (release_root root e)" and "claimed_root (release_root root e) = None"
    and "query_roots (release_root root e) = query_roots e" and "all_stored (release_root root e) = all_stored e"
    and "allocated (release_root root e) = allocated e" and "work co ps (release_root root e) = work co ps e"
proof -
  note inv0 = engine_invD(2) [OF inv]
  note d = struct_invD [OF inv0]
  obtain st where st: "dict_get (contexts e) root = Some st" "context_ok co ps {} e root st"
    "root \<notin> set (active e)" "is_expression co root"
    by (rule claimed_context [OF inv0 claimed])
  then have not_queued: "\<not> queued st" by (simp add: context_ok_def)
  let ?st = "st\<lparr>queued := True, saturated := False\<rparr>"
  let ?e0 = "(put_context root ?st (e\<lparr>claimed_root := None\<rparr>))\<lparr>active := root # active e\<rparr>"
  let ?e = "count (\<lambda>d. d\<lparr>maximum_active_contexts := max (maximum_active_contexts d) (length (active ?e0))\<rparr>) ?e0"
  have "has_local_work root (e\<lparr>claimed_root := None\<rparr>)" using work by (simp add: has_local_work_def)
  then have run: "release_root root e = ?e"
    using st(1) not_queued by (simp add: release_root_def mark_queued_def Let_def)
  have known: "known ?st = known st" "stored ?st = stored st" by (simp_all add: known_def stored_def pending_def)
  have st': "dict_get (contexts (e\<lparr>claimed_root := None\<rparr>)) root = Some st" using st(1) by simp
  have content: "stored_of ?e r = stored_of e r" "known_of ?e r = known_of e r" "retries ?e r = retries e r"
    "allocated ?e = allocated e" for r
    using flags_frame [OF st'] by (simp_all del: stored_of_put known_of_put)
  have "context_ok co ps {} ?e r s" if r: "dict_get (contexts ?e) r = Some s" for r s
  proof (cases "r = root")
    case True
    with r st(2) known show ?thesis by (auto simp: context_ok_def)
  next
    case False
    with r d(8) [of r s] claimed show ?thesis by (auto simp: context_ok_def)
  qed
  moreover have "distinct (map fst (contexts ?e))" using distinct_put_context [of "e\<lparr>claimed_root := None\<rparr>"] d(2) by simp
  ultimately have "struct_inv co ps {} ?e"
    unfolding struct_inv_def content(3,4) using d st(1,3) by (auto simp: allocated_def)
  from engine_inv_same_content [OF inv this content] show "engine_inv co ps roots (release_root root e)"
    unfolding run .
  show "claimed_root (release_root root e) = None" "query_roots (release_root root e) = query_roots e"
    "all_stored (release_root root e) = all_stored e" "allocated (release_root root e) = allocated e"
    "work co ps (release_root root e) = work co ps e"
    unfolding run using same_content(2,3) [OF content(1-3)] content(4) by simp_all
qed

section \<open>At rest\<close>

text \<open>The engine between two runs.\<close>

definition at_rest :: "compiled_ontology \<Rightarrow> property_saturation \<Rightarrow> nat set \<Rightarrow> engine \<Rightarrow> bool" where
  "at_rest co ps roots e \<longleftrightarrow> engine_inv co ps roots e \<and> claimed_root e = None"

text \<open>The active queue and the stop conditions are all a run may leave behind.\<close>

lemma idle_context:
  assumes "at_rest co ps roots e" and "active e = []" and "dict_get (contexts e) r = Some st"
  shows "todo st = []" "retries e r = []" "saturated st" "\<not> queued st" "context_inv st" "ctx_root st = r"
  using struct_invD(8) [OF engine_invD(2) assms(3), of co ps roots] assms
  by (auto simp: at_rest_def context_ok_def)

lemma idle_known:
  assumes "at_rest co ps roots e" and "active e = []"
  shows "known_of e r = stored_of e r" "dispatched e r = stored_of e r"
proof -
  show "known_of e r = stored_of e r"
    using idle_context(1) [OF assms, of r]
    by (auto simp: known_of_def stored_of_def known_def pending_def split: option.splits)
  show "dispatched e r = stored_of e r"
  proof (cases "dict_get (contexts e) r")
    case None
    then show ?thesis by (simp add: dispatched_def stored_of_def)
  next
    case (Some st)
    from idle_context(2) [OF assms Some] show ?thesis by (simp add: dispatched_def)
  qed
qed

lemma allocated_initialized:
  assumes "struct_inv co ps {} e" and "r \<in> allocated e"
  shows "ContextInitialization r \<in> known_of e r"
proof -
  from assms(2) obtain st where st: "dict_get (contexts e) r = Some st" by (auto simp: allocated_def)
  have "context_ok co ps {} e r st" by (rule struct_invD(8) [OF assms(1) st])
  then have "ContextInitialization r \<in> known st" by (simp add: context_ok_def)
  with st show ?thesis by (simp add: known_of_def)
qed

lemma known_allocated: "c \<in> known_of e r \<Longrightarrow> r \<in> allocated e"
  by (auto simp: known_of_def allocated_def split: option.splits)

text \<open>Nothing queued means everything derivable has been derived.\<close>

lemma idle_complete:
  assumes rest: "at_rest co ps roots e" and idle: "active e = []"
  shows "all_stored e = derivable co ps roots"
proof (intro equalityI)
  have inv: "engine_inv co ps roots e" using rest by (simp add: at_rest_def)
  note i = engine_invD [OF inv]
  have same: "all_known e = all_stored e"
    by (simp add: all_known_def all_stored_def idle_known [OF rest idle])
  then show "all_stored e \<subseteq> derivable co ps roots" using i(3) by simp
  have init: "ContextInitialization r \<in> all_known e" if "r \<in> allocated e" for r
    using allocated_initialized [OF i(2) that] unfolding all_known_def by blast
  have held: "c \<in> stored_of e (conclusion_destination c)" if "c \<in> all_known e" for c
    using that all_known_iff [OF i(2)] idle_known(1) [OF rest idle] by blast
  have closed: "c \<in> all_known e" if "q \<in> stored_of e r" "follows co ps (stored_of e r) q c" for q r c
    using i(6) [of r] that unfolding rules_closed_def rules.closed_under_def idle_known(2) [OF rest idle] by blast
  have "c \<in> all_known e" if "c \<in> derivable co ps roots" for c
    using that
  proof (induction rule: derivable.induct)
    case (root r)
    with i(4) show ?case by (intro init) blast
  next
    case (created c)
    then have "c \<in> known_of e (conclusion_destination c)" using all_known_iff [OF i(2)] by blast
    then show ?case by (intro init known_allocated)
  next
    case (unary p c)
    from unary.hyps have "follows co ps (stored_of e (conclusion_destination p)) p c" by (simp add: follows_def)
    with held [OF unary.IH] show ?case by (rule closed)
  next
    case (binary p q c)
    have "q \<in> stored_of e (conclusion_destination p)"
      using held [OF binary.IH(2)] binary_destination [OF binary.hyps(3)] by simp
    then have "follows co ps (stored_of e (conclusion_destination p)) p c"
      using binary.hyps by (auto simp: follows_def)
    with held [OF binary.IH(1)] show ?case by (rule closed)
  qed
  with same show "derivable co ps roots \<subseteq> all_stored e" by blast
qed

section \<open>The outer loop\<close>

lemma run_active_total:
  assumes "at_rest co ps roots e"
  shows "\<exists>out e'. run_active max_conclusions interrupt ctr e = Some (out, e') \<and>
    at_rest co ps roots e' \<and> query_roots e' = query_roots e \<and>
    all_stored e \<subseteq> all_stored e' \<and> allocated e \<subseteq> allocated e' \<and> work co ps e' \<le> work co ps e \<and>
    (case out of Inl x \<Rightarrow> may_stop max_conclusions interrupt x | Inr _ \<Rightarrow> active e' = [])"
  using assms
proof (induction "work co ps e" "length (active e)" arbitrary: e ctr rule: lexicographic_induct)
  case less
  have inv: "engine_inv co ps roots e" and idle: "claimed_root e = None" using less.prems by (simp_all add: at_rest_def)
  show ?case
  proof (cases "active e")
    case Nil
    with less.prems show ?thesis by (subst run_active.simps) simp
  next
    case (Cons root rest)
    obtain e1 where e1: "claim_root root rest e = e1" "engine_inv co ps roots e1" "claimed_root e1 = Some root"
      "active e1 = rest" "query_roots e1 = query_roots e" "all_stored e1 = all_stored e"
      "allocated e1 = allocated e" "work co ps e1 = work co ps e"
      by (rule claim_root_ok [OF inv Cons idle])
    obtain out e2 where e2: "run_local max_conclusions interrupt root ctr e1 = Some (out, e2)"
      "engine_inv co ps roots e2" "claimed_root e2 = Some root" "query_roots e2 = query_roots e1"
      "all_stored e1 \<subseteq> all_stored e2" "allocated e1 \<subseteq> allocated e2" "work co ps e2 < work co ps e1 \<or> e2 = e1"
      "case out of Inl x \<Rightarrow> may_stop max_conclusions interrupt x \<and> has_local_work root e2
         | Inr _ \<Rightarrow> \<not> has_local_work root e2"
      using run_local_total [OF e1(2,3), of max_conclusions interrupt ctr] by blast
    show ?thesis
    proof (cases out)
      case (Inl x)
      then have "has_local_work root e2" "may_stop max_conclusions interrupt x" using e2(8) by simp_all
      note r = release_root_ok [OF e2(2,3) this(1)] this(2)
      have "run_active max_conclusions interrupt ctr e = Some (Inl x, release_root root e2)"
        using Cons e1(1) e2(1) Inl by (subst run_active.simps) simp
      with r show ?thesis using e1(5-8) e2(4-7) by (auto simp: at_rest_def)
    next
      case (Inr ctr')
      then have "\<not> has_local_work root e2" using e2(8) by simp
      obtain e3 where e3: "(case saturate_root root e2 of (out, e1) \<Rightarrow> (out, release_root root e1)) = (Inr (), e3)"
        "engine_inv co ps roots e3" "claimed_root e3 = None" "active e3 = active e2"
        "query_roots e3 = query_roots e2" "all_stored e3 = all_stored e2" "allocated e3 = allocated e2"
        "work co ps e3 = work co ps e2"
        by (rule saturate_root_ok [OF e2(2,3) \<open>\<not> has_local_work root e2\<close>])
      obtain e3' where sat: "saturate_root root e2 = (Inr (), e3')" "release_root root e3' = e3"
        using e3(1) by (cases "saturate_root root e2") auto
      have step: "run_active max_conclusions interrupt ctr e = run_active max_conclusions interrupt ctr' e3"
        using Cons e1(1) e2(1) Inr sat by (subst run_active.simps) simp
      have rest3: "at_rest co ps roots e3" using e3(2,3) by (simp add: at_rest_def)
      have "work co ps e3 < work co ps e \<or> work co ps e3 = work co ps e \<and> length (active e3) < length (active e)"
        using e2(7) e3(4,8) e1(4,8) Cons by auto
      from less.hyps [OF this rest3, of ctr'] obtain out' e' where o:
        "run_active max_conclusions interrupt ctr' e3 = Some (out', e')"
        "at_rest co ps roots e'" "query_roots e' = query_roots e3" "all_stored e3 \<subseteq> all_stored e'"
        "allocated e3 \<subseteq> allocated e'" "work co ps e' \<le> work co ps e3"
        "case out' of Inl x \<Rightarrow> may_stop max_conclusions interrupt x | Inr _ \<Rightarrow> active e' = []" by blast
      have "all_stored e \<subseteq> all_stored e'" "allocated e \<subseteq> allocated e'"
        using o(4,5) e3(6,7) e2(5,6) e1(6,7) by simp_all
      moreover have "work co ps e' \<le> work co ps e" using o(6) e3(8) e2(7) e1(8) by auto
      ultimately show ?thesis using o e1(5) e2(4) e3(5) unfolding step by auto
    qed
  qed
qed

end
