(* ===== verification/Saturation_Results.thy ===== *)
theory Saturation_Results
  imports Saturation_Total
begin

text \<open>What the engine's entry points return.\<close>

section \<open>A run\<close>

lemma run_with_roots:
  assumes rest: "at_rest co ps roots e" and rs: "\<forall>r \<in> set rs. is_expression co r"
  shows "\<exists>e'. ensure_all (sorted_list_of_set (set rs)) e = (Inr (), e') \<and>
    at_rest co ps (roots \<union> set rs) e' \<and> query_roots e' = query_roots e \<and>
    all_stored e' = all_stored e \<and> allocated e' = set rs \<union> allocated e"
proof -
  have inv: "engine_inv co ps roots e" and idle: "claimed_root e = None" using rest by (simp_all add: at_rest_def)
  note i = engine_invD [OF inv]
  let ?rs = "sorted_list_of_set (set rs)"
  obtain e' N where e': "ensure_all ?rs e = (Inr (), e')" "struct_inv co ps {} e'" "grows N e e'"
    "N \<subseteq> ContextInitialization ` set ?rs" "allocated e' = set ?rs \<union> allocated e"
    using ensure_all_ok [OF i(1,2), of ?rs] rs by auto
  note g = growsD [OF e'(3)]
  have "N \<subseteq> derivable co ps (roots \<union> set rs)" using e'(4) by (auto intro: derivable.root)
  moreover have "all_known e \<subseteq> derivable co ps (roots \<union> set rs)"
    using i(3) derivable_mono [of roots "roots \<union> set rs" co ps] by simp
  moreover have "rules_closed co ps (dispatched e' r) (all_known e')" for r
    using rules_closed_mono [OF i(6) subset_refl, of "all_known e'"] unfolding grows_dispatched [OF e'(3)] g(6) by simp
  moreover have "roots \<union> set rs \<subseteq> allocated e'" using e'(5) i(4) by auto
  ultimately have "engine_inv co ps (roots \<union> set rs) e'"
    unfolding engine_inv_def using i(1,5) e'(2) rs g(6) by blast
  with e' g(2,3) idle grows_all_stored [OF e'(3)] show ?thesis by (simp add: at_rest_def)
qed

lemma checked_roots:
  assumes "class_setting co ps" and "struct_inv co ps {} e"
  shows "rmap_list (checked_root e) rs =
    (if \<forall>r \<in> set rs. is_expression co r then Inr rs else Inl ValueError)"
  by (induction rs) (simp_all add: checked_root_ok [OF assms] split: if_splits)

lemma run_refused:
  assumes "at_rest co ps roots e" and "\<exists>r \<in> set rs. \<not> is_expression co r"
  shows "run rs max_conclusions interrupt e = Some (Inl ValueError, e)"
proof -
  have inv: "engine_inv co ps roots e" using assms(1) by (simp add: at_rest_def)
  from checked_roots [OF engine_invD(1,2) [OF inv], of rs] assms(2) show ?thesis by (auto simp: run_def)
qed

section \<open>Snapshots\<close>

lemma rmap_list_map: "(\<And>x. x \<in> set xs \<Longrightarrow> f x = Inr (g x)) \<Longrightarrow> rmap_list f xs = Inr (map g xs)"
  by (induction xs) simp_all

lemma snapshot_total:
  assumes "class_setting co ps" and "dispatcher_for co ps (dispatcher e)"
  obtains snap where "snapshot b e = Inr snap"
    and "snap_contexts snap = map (\<lambda>(root, st). (root, freeze st)) (sort_key fst (contexts e))"
proof -
  obtain u where u: "view_of co u ps" and valid: "valid_ontology co" by (rule class_settingE [OF assms(1)])
  note t = dispatcher_tables(1,2) [OF assms]
  have "\<exists>ys. rmap_list (super_chains ps) [0..<length (chain_records ps)] = Inr ys"
    by (rule rmap_list_total) (auto simp: sub_chains_view(2) [OF u] chain_in_table_def)
  moreover have "\<exists>ys. rmap_list (ranges ps) [0..<length (entities co)] = Inr ys"
    by (rule rmap_list_total) (use valid_entity_count [OF valid] in \<open>auto simp: ranges_def\<close>)
  ultimately obtain ys zs where "rmap_list (super_chains ps) [0..<length (chain_records ps)] = Inr ys"
    "rmap_list (ranges ps) [0..<length (entities co)] = Inr zs" by blast
  with t show ?thesis by (intro that [of "\<lparr>snap_property_subsumers = ys, snap_property_ranges = zs,
    snap_contexts = map (\<lambda>(root, st). (root, freeze st)) (sort_key fst (contexts e)),
    snap_inconsistent_ontology = b\<rparr>"]) (simp_all add: snapshot_def)
qed

text \<open>What an idle engine shows depends on the derivable conclusions only, not on the order of events.\<close>

lemma idle_allocated:
  assumes "at_rest co ps roots e" and "active e = []"
  shows "allocated e = {r. ContextInitialization r \<in> derivable co ps roots}"
proof -
  have inv: "engine_inv co ps roots e" using assms(1) by (simp add: at_rest_def)
  note s = engine_invD(2) [OF inv]
  have "ContextInitialization r \<in> all_stored e \<longleftrightarrow> r \<in> allocated e" for r
  proof
    assume "r \<in> allocated e"
    then have "ContextInitialization r \<in> known_of e r" by (rule allocated_initialized [OF s])
    then show "ContextInitialization r \<in> all_stored e"
      unfolding idle_known(1) [OF assms] all_stored_def by blast
  next
    assume "ContextInitialization r \<in> all_stored e"
    then have "ContextInitialization r \<in> all_known e" using all_stored_known by blast
    then have "ContextInitialization r \<in> known_of e r" using all_known_iff [OF s] by auto
    then show "r \<in> allocated e" by (rule known_allocated)
  qed
  then show ?thesis by (auto simp: idle_complete [OF assms])
qed

lemma idle_context_content:
  assumes "at_rest co ps roots e" and "active e = []" and "dict_get (contexts e) r = Some st"
  shows "stored st = {c \<in> derivable co ps roots. conclusion_destination c = r}" and "pending st = {}"
proof -
  have inv: "engine_inv co ps roots e" using assms(1) by (simp add: at_rest_def)
  note s = engine_invD(2) [OF inv]
  have "c \<in> stored_of e r \<longleftrightarrow> c \<in> all_stored e \<and> conclusion_destination c = r" for c
  proof
    assume c: "c \<in> stored_of e r"
    then have "c \<in> known_of e r" using stored_known_of by blast
    with c show "c \<in> all_stored e \<and> conclusion_destination c = r"
      using known_destination [OF s] by (auto simp: all_stored_def)
  next
    assume c: "c \<in> all_stored e \<and> conclusion_destination c = r"
    then have "c \<in> all_known e" using all_stored_known by blast
    with c show "c \<in> stored_of e r" using all_known_iff [OF s] idle_known(1) [OF assms(1,2)] by blast
  qed
  then show "stored st = {c \<in> derivable co ps roots. conclusion_destination c = r}"
    using assms(3) by (auto simp: stored_of_def idle_complete [OF assms(1,2)])
  show "pending st = {}" using idle_context(1) [OF assms] by (simp add: pending_def)
qed

lemma insort_key_map_keys:
  "(\<And>x. k (f x) = k' x) \<Longrightarrow> insort_key k (f x) (map f xs) = map f (insort_key k' x xs)"
  by (induction xs) auto

lemma sort_key_map_keys:
  "(\<And>x. k (f x) = k' x) \<Longrightarrow> sort_key k (map f xs) = map f (sort_key k' xs)"
  by (induction xs) (simp_all add: insort_key_map_keys [of k f k'])

lemma idle_snapshot_canonical:
  assumes "at_rest co ps roots e" and "active e = []" and "at_rest co ps roots e'" and "active e' = []"
  shows "snapshot b e = snapshot b e'"
proof -
  have inv: "engine_inv co ps roots e" "engine_inv co ps roots e'"
    using assms(1,3) by (simp_all add: at_rest_def)
  note i = engine_invD [OF inv(1)] and i' = engine_invD [OF inv(2)]
  note d = struct_invD [OF i(2)] and d' = struct_invD [OF i'(2)]
  have D: "compiled (dispatcher e') = compiled (dispatcher e)" "properties (dispatcher e') = properties (dispatcher e)"
    using dispatcher_tables(1,2) [OF i(1) d(1)] dispatcher_tables(1,2) [OF i(1) d'(1)] by simp_all
  let ?f = "\<lambda>e. map (\<lambda>(root, st). (root, freeze st)) (contexts e)"
  have row: "map_option freeze (dict_get (contexts e) r) = map_option freeze (dict_get (contexts e') r)" for r
  proof -
    have same: "dict_get (contexts e) r = None \<longleftrightarrow> dict_get (contexts e') r = None"
      using idle_allocated [OF assms(1,2)] idle_allocated [OF assms(3,4)] unfolding allocated_def by blast
    show ?thesis
    proof (cases "dict_get (contexts e) r")
      case None
      with same show ?thesis by simp
    next
      case (Some st)
      with same obtain st' where st': "dict_get (contexts e') r = Some st'" by auto
      have "freeze st = freeze st'"
        by (rule freeze_canonical)
          (simp_all add: idle_context [OF assms(1,2) Some] idle_context [OF assms(3,4) st']
            idle_context_content [OF assms(1,2) Some] idle_context_content [OF assms(3,4) st'])
      with Some st' show ?thesis by simp
    qed
  qed
  have fst: "map fst (?f x) = map fst (contexts x)" for x by (induction "contexts x") auto
  have get: "dict_get (?f x) r = map_option freeze (dict_get (contexts x) r)" for x r
    using map_of_map [of freeze "contexts x"] by simp
  have dist: "distinct (map fst (?f e))" "distinct (map fst (?f e'))" unfolding fst using d(2) d'(2) by simp_all
  have "map_of (?f e) = map_of (?f e')" unfolding fun_eq_iff get using row by blast
  then have "set (?f e) = set (?f e')" using dist map_of_inject_set by blast
  then have "sort_key fst (?f e) = sort_key fst (?f e')" by (rule sort_key_canonical [OF dist])
  moreover have keys: "sort_key fst (?f x) = map (\<lambda>(root, st). (root, freeze st)) (sort_key fst (contexts x))" for x
    by (rule sort_key_map_keys) auto
  ultimately have "map (\<lambda>(root, st). (root, freeze st)) (sort_key fst (contexts e)) =
    map (\<lambda>(root, st). (root, freeze st)) (sort_key fst (contexts e'))" by metis
  then show ?thesis unfolding snapshot_def D by simp
qed

section \<open>Runs from rest\<close>

lemma run_computes:
  assumes rest: "at_rest co ps roots e" and rs: "\<forall>r \<in> set rs. is_expression co r"
  obtains out e' where "run rs max_conclusions interrupt e = Some (out, e')"
    and "at_rest co ps (roots \<union> set rs) e'" and "query_roots e' = query_roots e"
    and "all_stored e \<subseteq> all_stored e'" and "set rs \<union> allocated e \<subseteq> allocated e'"
    and "case out of Inl x \<Rightarrow> may_stop max_conclusions interrupt x
      | Inr snap \<Rightarrow> snapshot False e' = Inr snap \<and> active e' = []"
proof -
  have inv: "engine_inv co ps roots e" using rest by (simp add: at_rest_def)
  note i = engine_invD(1,2) [OF inv]
  have checked: "rmap_list (checked_root e) rs = Inr rs" using checked_roots [OF i, of rs] rs by simp
  obtain e1 where e1: "ensure_all (sorted_list_of_set (set rs)) e = (Inr (), e1)"
    "at_rest co ps (roots \<union> set rs) e1" "query_roots e1 = query_roots e" "all_stored e1 = all_stored e"
    "allocated e1 = set rs \<union> allocated e"
    using run_with_roots [OF rest rs] by blast
  obtain out e2 where e2: "run_active max_conclusions interrupt (0, 0) e1 = Some (out, e2)"
    "at_rest co ps (roots \<union> set rs) e2" "query_roots e2 = query_roots e1" "all_stored e1 \<subseteq> all_stored e2"
    "allocated e1 \<subseteq> allocated e2"
    "case out of Inl x \<Rightarrow> may_stop max_conclusions interrupt x | Inr _ \<Rightarrow> active e2 = []"
    using run_active_total [OF e1(2), of max_conclusions interrupt "(0, 0)"] by blast
  show ?thesis
  proof (cases out)
    case (Inl x)
    let ?e = "count (\<lambda>d. d\<lparr>interrupted_runs := interrupted_runs d + 1\<rparr>) e2"
    have "at_rest co ps (roots \<union> set rs) ?e"
      using e2(2) by (simp add: at_rest_def engine_inv_def dispatched_def)
    with Inl e1 e2 checked show ?thesis
      by (intro that [of "Inl x" ?e]) (simp_all add: run_def)
  next
    case (Inr z)
    have inv2: "engine_inv co ps (roots \<union> set rs) e2" using e2(2) by (simp add: at_rest_def)
    obtain snap where snap: "snapshot False e2 = Inr snap"
      using snapshot_total [OF engine_invD(1) [OF inv2] struct_invD(1) [OF engine_invD(2) [OF inv2]]] by metis
    with Inr e1 e2 checked show ?thesis
      by (intro that [of "Inr snap" e2]) (simp_all add: run_def)
  qed
qed

text \<open>Without a budget and a callback nothing stops a run.\<close>

lemma run_unlimited:
  assumes "at_rest co ps roots e" and "\<forall>r \<in> set rs. is_expression co r"
  obtains snap e' where "run rs None never e = Some (Inr snap, e')" and "at_rest co ps (roots \<union> set rs) e'"
    and "snapshot False e' = Inr snap" and "active e' = []" and "query_roots e' = query_roots e"
    and "set rs \<union> allocated e \<subseteq> allocated e'"
proof -
  obtain out e' where r: "run rs None never e = Some (out, e')"
    "at_rest co ps (roots \<union> set rs) e'" "query_roots e' = query_roots e"
    "all_stored e \<subseteq> all_stored e'" "set rs \<union> allocated e \<subseteq> allocated e'"
    "case out of Inl x \<Rightarrow> may_stop None never x | Inr snap \<Rightarrow> snapshot False e' = Inr snap \<and> active e' = []"
    by (rule run_computes [OF assms, of None never])
  then show ?thesis by (cases out) (auto simp: may_stop_def intro: that)
qed

section \<open>A new engine\<close>

lemma new_engine_at_rest:
  assumes "class_setting co ps"
  obtains e where "new_engine co ps = Inr e" and "at_rest co ps {} e" and "active e = []"
    and "query_roots e = []" and "contexts e = []"
proof -
  obtain D where D: "make_dispatcher co ps = Inr D" "dispatcher_for co ps D"
    by (rule make_dispatcher_total [OF assms])
  let ?e = "\<lparr>dispatcher = D, contexts = [], active = [], claimed_root = None,
     retry = [], query_roots = [], diag = no_diagnostics\<rparr>"
  have "engine_inv co ps {} ?e"
    using assms D(2) by (simp add: engine_inv_def struct_inv_def all_known_def known_of_def allocated_def
        retries_def dispatched_def stored_of_def rules_closed_def rules.closed_under_empty)
  with D(1) show ?thesis by (intro that [of ?e]) (simp_all add: new_engine_def at_rest_def)
qed

lemma create_engine_at_rest:
  assumes "valid_ontology co" and "property_limits co" and "class_limits co"
  obtains ps e where "saturate_properties co = Some (Inr ps)" and "class_setting co ps"
    and "create_engine co = Some (Inr e)" and "new_engine co ps = Inr e" and "at_rest co ps {} e" and "active e = []"
proof -
  obtain ps where ps: "saturate_properties co = Some (Inr ps)"
    by (rule saturate_properties_ok [OF assms(1,2)])
  with assms have set: "class_setting co ps" by (simp add: class_setting_def saturated_view_def)
  obtain e where e: "new_engine co ps = Inr e" "at_rest co ps {} e" "active e = []"
    by (rule new_engine_at_rest [OF set])
  with ps show ?thesis by (intro that [OF ps set _ e]) (simp add: create_engine_def)
qed

end
