(* ===== verification/Engine_History.thy ===== *)
theory Engine_History
  imports Saturation_Results Sample
begin

text \<open>
  Everything a client can do to an engine: create it, run it with any roots, budget and callback,
  demand a context, saturate a query root.  \<open>used co roots e\<close>: \<open>e\<close> is an engine for \<open>co\<close> after some
  such history, in which the contexts of \<open>roots\<close> were asked for.
\<close>

definition usable_ontology :: "compiled_ontology \<Rightarrow> bool" where
  "usable_ontology co \<longleftrightarrow> valid_ontology co \<and> property_limits co \<and> class_limits co"

inductive used :: "compiled_ontology \<Rightarrow> nat set \<Rightarrow> engine \<Rightarrow> bool" for co where
  created: "create_engine co = Some (Inr e) \<Longrightarrow> used co {} e"
| ran: "used co roots e \<Longrightarrow> \<forall>r \<in> set rs. is_expression co r \<Longrightarrow>
    run rs max_conclusions interrupt e = Some (out, e') \<Longrightarrow> used co (roots \<union> set rs) e'"
| refused: "used co roots e \<Longrightarrow> \<exists>r \<in> set rs. \<not> is_expression co r \<Longrightarrow>
    run rs max_conclusions interrupt e = Some (out, e') \<Longrightarrow> used co roots e'"
| demanded: "used co roots e \<Longrightarrow> is_expression co r \<Longrightarrow> demand r e = (out, e') \<Longrightarrow>
    used co (insert r roots) e'"
| queried: "used co roots e \<Longrightarrow> saturate_query_root key r e = Some (Inr fz, e') \<Longrightarrow>
    used co (insert r roots) e'"

lemma used_setting:
  assumes "usable_ontology co"
  obtains ps where "saturate_properties co = Some (Inr ps)" and "class_setting co ps"
proof -
  from assms have lim: "valid_ontology co" "property_limits co" "class_limits co" by (simp_all add: usable_ontology_def)
  from create_engine_at_rest [OF this] show ?thesis using that by metis
qed

lemma at_rest_query_roots: "at_rest co ps roots (e\<lparr>query_roots := q\<rparr>) = at_rest co ps roots e"
  by (simp add: at_rest_def engine_inv_def dispatched_def)

lemma query_accepted:
  assumes "saturate_query_root key r e = Some (Inr fz, e')"
  shows "key \<noteq> []" and "checked_root e r = Inr r"
    and "\<exists>snap. run [r] None never (e\<lparr>query_roots := dict_put key r (query_roots e)\<rparr>) = Some (Inr snap, e')"
    and "map_option freeze (dict_get (contexts e') r) = Some fz"
  using assms by (auto simp: saturate_query_root_def checked_root_def split: if_splits option.splits sum.splits)

lemma used_at_rest:
  assumes "usable_ontology co" and "saturate_properties co = Some (Inr ps)" and "used co roots e"
  shows "at_rest co ps roots e"
  using assms(3)
proof (induction rule: used.induct)
  case (created e)
  from assms(1) have lim: "valid_ontology co" "property_limits co" "class_limits co" by (simp_all add: usable_ontology_def)
  from create_engine_at_rest [OF lim] created assms(2) show ?case by (metis option.inject sum.inject(2))
next
  case (ran roots e rs max_conclusions interrupt out e')
  obtain out1 e1 where "run rs max_conclusions interrupt e = Some (out1, e1)" "at_rest co ps (roots \<union> set rs) e1"
    by (rule run_computes [OF ran.IH ran.hyps(2)])
  with ran.hyps(3) show ?case by simp
next
  case (refused roots e rs max_conclusions interrupt out e')
  with run_refused [OF refused.IH refused.hyps(2)] show ?case by simp
next
  case (demanded roots e r out e')
  have "\<forall>x \<in> set [r]. is_expression co x" using demanded.hyps(2) by simp
  from run_with_roots [OF demanded.IH this] obtain e1 where e1: "ensure_all [r] e = (Inr (), e1)"
    "at_rest co ps (insert r roots) e1" by auto
  have inv: "engine_inv co ps roots e" using demanded.IH by (simp add: at_rest_def)
  have "demand r e = ensure_context r e"
    using demanded.hyps(2) by (simp add: demand_def checked_root_ok [OF engine_invD(1,2) [OF inv]])
  with e1 demanded.hyps(3) show ?case by (auto split: prod.splits sum.splits)
next
  case (queried roots e key r fz e')
  note q = query_accepted [OF queried.hyps(2)]
  let ?e = "e\<lparr>query_roots := dict_put key r (query_roots e)\<rparr>"
  have rest: "at_rest co ps roots ?e" using queried.IH by (simp add: at_rest_query_roots)
  have inv: "engine_inv co ps roots e" using queried.IH by (simp add: at_rest_def)
  have r: "\<forall>x \<in> set [r]. is_expression co x"
    using q(2) by (simp add: checked_root_ok [OF engine_invD(1,2) [OF inv]] split: if_splits)
  obtain snap e1 where e1: "run [r] None never ?e = Some (Inr snap, e1)" "at_rest co ps (roots \<union> set [r]) e1"
    by (rule run_unlimited [OF rest r])
  with q(3) have "e1 = e'" by auto
  with e1(2) show ?case by simp
qed

section \<open>What a snapshot shows\<close>

definition snapshot_conclusions :: "saturation_snapshot \<Rightarrow> conclusion set" where
  "snapshot_conclusions snap = (\<Union>(r, fz) \<in> set (snap_contexts snap). set (fz_conclusions fz))"

lemma sorted_conclusions_set: "set (sorted_conclusions st) = stored st"
  by (simp add: sorted_conclusions_def stored_def)

lemma snapshot_conclusions_idle:
  assumes "at_rest co ps roots e" and "active e = []" and "snapshot b e = Inr snap"
  shows "snapshot_conclusions snap = derivable co ps roots"
    and "\<forall>(r, fz) \<in> set (snap_contexts snap). fz_root fz = r \<and> fz_saturated fz \<and> fz_todo fz = []"
proof -
  have inv: "engine_inv co ps roots e" using assms(1) by (simp add: at_rest_def)
  note i = engine_invD [OF inv]
  obtain snap' where "snapshot b e = Inr snap'"
    "snap_contexts snap' = map (\<lambda>(root, st). (root, freeze st)) (sort_key fst (contexts e))"
    by (rule snapshot_total [OF i(1) struct_invD(1) [OF i(2)]])
  then have rows: "snap_contexts snap = map (\<lambda>(root, st). (root, freeze st)) (sort_key fst (contexts e))"
    using assms(3) by simp
  have dict: "(r, st) \<in> set (contexts e) \<longleftrightarrow> dict_get (contexts e) r = Some st" for r st
    by (rule dict_get_mem [OF struct_invD(2) [OF i(2)]])
  have "snapshot_conclusions snap = (\<Union>(r, st) \<in> set (contexts e). stored st)"
    by (auto simp: snapshot_conclusions_def rows freeze_def sorted_conclusions_set)
  also have "\<dots> = all_stored e"
    by (force simp: all_stored_def stored_of_def dict split: option.splits)
  finally show "snapshot_conclusions snap = derivable co ps roots" using idle_complete [OF assms(1,2)] by simp
  show "\<forall>(r, fz) \<in> set (snap_contexts snap). fz_root fz = r \<and> fz_saturated fz \<and> fz_todo fz = []"
    using idle_context [OF assms(1,2)] by (auto simp: rows dict freeze_def)
qed

end
