(* ===== verification/Engine_Results.thy ===== *)
theory Engine_Results
  imports Engine_History Property_Results
begin

text \<open>The engine's promises to its callers, over every history of calls.\<close>

lemma sample_usable: "usable_ontology sample_ontology"
  unfolding usable_ontology_def class_limits_def using sample_valid sample_limits by code_simp

lemma sample_roots: "\<forall>r \<in> set [2]. is_expression sample_ontology r"
  by (simp add: is_expression_def sample_ontology_def sample_expressions_def)

lemma usable_engine:
  assumes "usable_ontology co"
  obtains ps e where "saturate_properties co = Some (Inr ps)" and "class_setting co ps"
    and "create_engine co = Some (Inr e)" and "used co {} e" and "at_rest co ps {} e"
proof -
  from assms have lim: "valid_ontology co" "property_limits co" "class_limits co" by (simp_all add: usable_ontology_def)
  from create_engine_at_rest [OF lim] used.created that show ?thesis by metis
qed

lemma sample_used: "\<exists>e. create_engine sample_ontology = Some (Inr e) \<and> used sample_ontology {} e"
  using usable_engine [OF sample_usable] by metis

lemma fresh_run:
  assumes "usable_ontology co" and "\<forall>r \<in> set rs. is_expression co r"
  obtains ps e snap e' where "saturate_properties co = Some (Inr ps)" and "create_engine co = Some (Inr e)"
    and "run rs None never e = Some (Inr snap, e')" and "at_rest co ps (set rs) e'" and "active e' = []"
    and "snapshot False e' = Inr snap"
proof -
  obtain ps e where e: "saturate_properties co = Some (Inr ps)" "create_engine co = Some (Inr e)"
    "at_rest co ps {} e"
    by (rule usable_engine [OF assms(1)])
  obtain snap e' where "run rs None never e = Some (Inr snap, e')" "at_rest co ps ({} \<union> set rs) e'"
    "snapshot False e' = Inr snap" "active e' = []"
    by (rule run_unlimited [OF e(3) assms(2)])
  with e show ?thesis by (intro that) simp_all
qed

section \<open>Runs\<close>

text \<open>C2: A new engine's run ends without an exception and its snapshot holds exactly the conclusions
  derivable from the demanded roots by the inference rules, every context saturated.\<close>

theorem run_computes_derivable:
  assumes "usable_ontology co" and "\<forall>r \<in> set rs. is_expression co r"
  shows "\<exists>ps e snap e'. saturate_properties co = Some (Inr ps) \<and> create_engine co = Some (Inr e) \<and>
    run rs None never e = Some (Inr snap, e') \<and> snapshot_conclusions snap = derivable co ps (set rs) \<and>
    (\<forall>(r, fz) \<in> set (snap_contexts snap). fz_root fz = r \<and> fz_saturated fz \<and> fz_todo fz = [])"
proof -
  obtain ps e snap e' where r: "saturate_properties co = Some (Inr ps)" "create_engine co = Some (Inr e)"
    "run rs None never e = Some (Inr snap, e')" "at_rest co ps (set rs) e'" "active e' = []"
    "snapshot False e' = Inr snap"
    by (rule fresh_run [OF assms])
  from r(1-3) snapshot_conclusions_idle [OF r(4-6)] show ?thesis by blast
qed

theorem run_computes_derivable_witness:
  "\<exists>ps e snap e'. saturate_properties sample_ontology = Some (Inr ps) \<and>
    create_engine sample_ontology = Some (Inr e) \<and>
    run [2] None never e = Some (Inr snap, e') \<and> snapshot_conclusions snap = derivable sample_ontology ps (set [2]) \<and>
    (\<forall>(r, fz) \<in> set (snap_contexts snap). fz_root fz = r \<and> fz_saturated fz \<and> fz_todo fz = [])"
  by (rule run_computes_derivable [OF sample_usable sample_roots])

text \<open>C3: Whatever was done to an engine before, runs that were stopped by a budget or the callback
  included, an unrestricted run returns the snapshot a new engine returns for all the roots asked for.\<close>

theorem history_does_not_matter:
  assumes "usable_ontology co" and "used co roots e" and "\<forall>r \<in> set rs. is_expression co r"
    and "set all = roots \<union> set rs"
  shows "\<exists>snap e' e0 e1. run rs None never e = Some (Inr snap, e') \<and>
    create_engine co = Some (Inr e0) \<and> run all None never e0 = Some (Inr snap, e1)"
proof -
  obtain ps where ps: "saturate_properties co = Some (Inr ps)" by (rule used_setting [OF assms(1)])
  have rest: "at_rest co ps roots e" by (rule used_at_rest [OF assms(1) ps assms(2)])
  obtain snap e' where r: "run rs None never e = Some (Inr snap, e')" "at_rest co ps (roots \<union> set rs) e'"
    "snapshot False e' = Inr snap" "active e' = []"
    by (rule run_unlimited [OF rest assms(3)])
  have "\<forall>r \<in> set all. is_expression co r"
    using engine_invD(5) assms(3,4) rest by (auto simp: at_rest_def)
  then obtain ps1 e0 snap1 e1 where f: "saturate_properties co = Some (Inr ps1)" "create_engine co = Some (Inr e0)"
    "run all None never e0 = Some (Inr snap1, e1)" "at_rest co ps1 (set all) e1" "active e1 = []"
    "snapshot False e1 = Inr snap1"
    by (rule fresh_run [OF assms(1)])
  from f(1) ps have "ps1 = ps" by simp
  with f(4) assms(4) have "at_rest co ps (roots \<union> set rs) e1" by simp
  from idle_snapshot_canonical [OF r(2,4) this f(5), of False] r(3) f(6) have "snap1 = snap" by simp
  with r(1) f(2,3) show ?thesis by blast
qed

theorem history_does_not_matter_witness:
  "\<exists>e snap e' e0 e1. create_engine sample_ontology = Some (Inr e) \<and> run [2] None never e = Some (Inr snap, e') \<and>
    create_engine sample_ontology = Some (Inr e0) \<and> run [2] None never e0 = Some (Inr snap, e1)"
proof -
  obtain e where e: "create_engine sample_ontology = Some (Inr e)" "used sample_ontology {} e"
    using sample_used by blast
  have "set [2] = {} \<union> set [2 :: nat]" by simp
  from history_does_not_matter [OF sample_usable e(2) sample_roots this] e(1) show ?thesis by blast
qed

text \<open>C5: A run always returns.  It is refused with the engine unchanged when a root is no expression;
  otherwise only an exhausted budget or the callback stops it, and no stored conclusion is lost.\<close>

theorem run_returns:
  assumes "usable_ontology co" and "used co roots e"
  shows "\<exists>out e'. run rs max_conclusions interrupt e = Some (out, e') \<and> all_stored e \<subseteq> all_stored e' \<and>
    (case out of
       Inl x \<Rightarrow> (x = ValueError \<and> (\<exists>r \<in> set rs. \<not> is_expression co r) \<and> e' = e) \<or>
         may_stop max_conclusions interrupt x \<and> (\<forall>r \<in> set rs. is_expression co r)
     | Inr snap \<Rightarrow> (\<forall>r \<in> set rs. is_expression co r) \<and> \<not> has_pending_work e')"
proof -
  obtain ps where ps: "saturate_properties co = Some (Inr ps)" by (rule used_setting [OF assms(1)])
  have rest: "at_rest co ps roots e" by (rule used_at_rest [OF assms(1) ps assms(2)])
  show ?thesis
  proof (cases "\<forall>r \<in> set rs. is_expression co r")
    case False
    with run_refused [OF rest] show ?thesis by (intro exI [of _ "Inl ValueError"] exI [of _ e]) auto
  next
    case True
    obtain out e' where r: "run rs max_conclusions interrupt e = Some (out, e')"
      "at_rest co ps (roots \<union> set rs) e'" "query_roots e' = query_roots e"
      "all_stored e \<subseteq> all_stored e'" "set rs \<union> allocated e \<subseteq> allocated e'"
      "case out of Inl x \<Rightarrow> may_stop max_conclusions interrupt x
        | Inr snap \<Rightarrow> snapshot False e' = Inr snap \<and> active e' = []"
      by (rule run_computes [OF rest True])
    from r(2,6) True have "case out of
       Inl x \<Rightarrow> (x = ValueError \<and> (\<exists>r \<in> set rs. \<not> is_expression co r) \<and> e' = e) \<or>
         may_stop max_conclusions interrupt x \<and> (\<forall>r \<in> set rs. is_expression co r)
     | Inr snap \<Rightarrow> (\<forall>r \<in> set rs. is_expression co r) \<and> \<not> has_pending_work e'"
      by (cases out) (simp_all add: has_pending_work_def at_rest_def)
    with r(1,4) show ?thesis by blast
  qed
qed

theorem run_returns_witness:
  "\<exists>e. create_engine sample_ontology = Some (Inr e) \<and> (\<exists>out e'. run [2] (Some 3) never e = Some (out, e') \<and>
    all_stored e \<subseteq> all_stored e' \<and>
    (case out of
       Inl x \<Rightarrow> (x = ValueError \<and> (\<exists>r \<in> set [2]. \<not> is_expression sample_ontology r) \<and> e' = e) \<or>
         may_stop (Some 3) never x \<and> (\<forall>r \<in> set [2]. is_expression sample_ontology r)
     | Inr snap \<Rightarrow> (\<forall>r \<in> set [2]. is_expression sample_ontology r) \<and> \<not> has_pending_work e'))"
proof -
  obtain e where e: "create_engine sample_ontology = Some (Inr e)" "used sample_ontology {} e"
    using sample_used by blast
  from run_returns [OF sample_usable e(2), of "[2]" "Some 3" never] e(1) show ?thesis by blast
qed

section \<open>Contexts and rules inside an engine\<close>

text \<open>C6: In every engine, each context indexes exactly its stored conclusions, every conclusion is
  routed to its own context and is waiting or stored but not both, and a context with work is queued.\<close>

theorem contexts_consistent:
  assumes "usable_ontology co" and "used co roots e" and "dict_get (contexts e) r = Some st"
  shows "ctx_root st = r \<and> (\<forall>c \<in> known st. conclusion_destination c = r) \<and> stored st \<inter> pending st = {} \<and>
    (initialized st \<longleftrightarrow> ContextInitialization r \<in> stored st) \<and>
    (inconsistent st \<longleftrightarrow> ClassInconsistency r \<in> stored st) \<and>
    composed_subsumers st = {s. SubClassInclusionComposed r s \<in> stored st} \<and>
    decomposed_subsumers st = {s. SubClassInclusionDecomposed r s \<in> stored st} \<and>
    (\<forall>c t. t \<in> multimap_get (forward_links st) c \<longleftrightarrow> ForwardLink r c t \<in> stored st) \<and>
    (\<forall>p s. s \<in> multimap_get (backward_links st) p \<longleftrightarrow> BackwardLink r p s \<in> stored st) \<and>
    (\<forall>p x. x \<in> multimap_get (propagations st) p \<longleftrightarrow> Propagation r p x \<in> stored st) \<and>
    (queued st \<longleftrightarrow> r \<in> set (active e)) \<and> (has_local_work r e \<longrightarrow> queued st)"
proof -
  obtain ps where ps: "saturate_properties co = Some (Inr ps)" by (rule used_setting [OF assms(1)])
  have rest: "at_rest co ps roots e" by (rule used_at_rest [OF assms(1) ps assms(2)])
  then have inv: "engine_inv co ps roots e" and idle: "claimed_root e = None" by (simp_all add: at_rest_def)
  have ok: "context_ok co ps {} e r st" by (rule struct_invD(8) [OF engine_invD(2) [OF inv] assms(3)])
  then have root: "ctx_root st = r" and ctx: "context_inv st" by (simp_all add: context_ok_def)
  then have k: "keys_inv st" and v: "views_inv st" by (simp_all add: context_inv_def)
  have "has_local_work r e \<longrightarrow> queued st"
    using ok idle assms(3) by (auto simp: context_ok_def has_local_work_def)
  moreover have "stored st \<inter> pending st = {}" using k by (auto simp: keys_inv_def pending_def)
  ultimately show ?thesis
    using root ok v keys_inv_destination [OF k]
    by (simp add: views_inv_def Let_def context_ok_def multimap_get_rel)
qed

theorem contexts_consistent_witness:
  "\<exists>e e' st. used sample_ontology {} e \<and> demand 2 e = (Inr (), e') \<and> dict_get (contexts e') 2 = Some st \<and>
    ctx_root st = 2 \<and> stored st \<inter> pending st = {} \<and> (has_local_work 2 e' \<longrightarrow> queued st)"
proof -
  obtain ps e where e: "at_rest sample_ontology ps {} e" "used sample_ontology {} e"
    using usable_engine [OF sample_usable] by metis
  obtain e' where e': "ensure_all [2] e = (Inr (), e')" "allocated e' = set [2] \<union> allocated e"
    using run_with_roots [OF e(1) sample_roots] by auto
  then obtain st where st: "dict_get (contexts e') 2 = Some st" by (auto simp: allocated_def)
  have inv: "engine_inv sample_ontology ps {} e" using e(1) by (simp add: at_rest_def)
  have "demand 2 e = (Inr (), e')"
    using e'(1) sample_roots checked_root_ok [OF engine_invD(1,2) [OF inv], of 2]
    by (auto simp: demand_def split: prod.splits sum.splits)
  moreover from this have "used sample_ontology {2} e'" using e(2) sample_roots used.demanded by simp
  ultimately show ?thesis using contexts_consistent [OF sample_usable _ st] e(2) st by blast
qed

text \<open>C4: Dispatching a stored premise returns, without an exception, exactly the conclusions that one
  inference rule draws from it alone or together with a conclusion stored in the same context.\<close>

theorem dispatch_exact:
  assumes "class_setting co ps" and "make_dispatcher co ps = Inr D" and "context_inv st"
    and "\<forall>c \<in> stored st. in_scope co ps c" and "p \<in> stored st"
  shows "\<exists>products. dispatch D st p = Inr products \<and>
    set products = {c. unary_rule co ps p c \<or> (\<exists>q \<in> stored st. binary_rule co ps p q c \<or> binary_rule co ps q p c)}"
proof -
  obtain D' where "make_dispatcher co ps = Inr D'" "dispatcher_for co ps D'"
    by (rule make_dispatcher_total [OF assms(1)])
  then have "dispatch_ready co ps D st" using assms by (simp add: dispatch_ready_def)
  from dispatch_refines [OF this assms(5)] show ?thesis by (simp add: yields_def follows_def)
qed

lemma sample_setting: "class_setting sample_ontology sample_view"
  using sample_usable sample_view_saturated by (simp add: class_setting_def usable_ontology_def)

fun filled :: "conclusion list \<Rightarrow> context_state" where
  "filled [] = new_context 2"
| "filled (c # cs) = (case insert_conclusion (filled cs) c of Inl _ \<Rightarrow> filled cs | Inr (_, st) \<Rightarrow> st)"

definition sample_context :: context_state where
  "sample_context = filled [SubClassInclusionComposed 2 2]"

lemma filled_inv:
  assumes "distinct cs" and "\<forall>c \<in> set cs. conclusion_destination c = 2"
  shows "context_inv (filled cs) \<and> stored (filled cs) = set cs \<and> pending (filled cs) = {} \<and> ctx_root (filled cs) = 2"
  using assms
proof (induction cs)
  case (Cons c cs)
  then have IH: "context_inv (filled cs)" "stored (filled cs) = set cs" "pending (filled cs) = {}"
    "ctx_root (filled cs) = 2" by simp_all
  obtain st where "insert_conclusion (filled cs) c = Inr (True, st)" "context_inv st"
    "stored st = insert c (stored (filled cs))" "todo st = todo (filled cs)" "ctx_root st = ctx_root (filled cs)"
    by (rule insert_conclusion_novel [OF IH(1), of c]) (use Cons.prems IH in simp_all)
  with IH show ?case by (simp add: pending_def)
qed simp

lemma sample_context_inv: "context_inv sample_context" "stored sample_context = {SubClassInclusionComposed 2 2}"
  "ctx_root sample_context = 2"
  using filled_inv [of "[SubClassInclusionComposed 2 2]"] by (simp_all add: sample_context_def)

theorem dispatch_exact_witness:
  "\<exists>D products. make_dispatcher sample_ontology sample_view = Inr D \<and>
    dispatch D sample_context (SubClassInclusionComposed 2 2) = Inr products \<and>
    set products = {c. unary_rule sample_ontology sample_view (SubClassInclusionComposed 2 2) c \<or>
      (\<exists>q \<in> stored sample_context. binary_rule sample_ontology sample_view (SubClassInclusionComposed 2 2) q c \<or>
         binary_rule sample_ontology sample_view q (SubClassInclusionComposed 2 2) c)}"
proof -
  obtain D where D: "make_dispatcher sample_ontology sample_view = Inr D"
    by (rule make_dispatcher_total [OF sample_setting])
  have "is_expression sample_ontology 2" using sample_roots by simp
  then have "\<forall>c \<in> stored sample_context. in_scope sample_ontology sample_view c"
    by (simp add: sample_context_inv(2))
  from dispatch_exact [OF sample_setting D sample_context_inv(1) this] D show ?thesis
    by (simp add: sample_context_inv(2))
qed

text \<open>C13: The dispatcher refuses a premise that is not stored in the context it is given.\<close>

theorem dispatch_refuses_alien:
  assumes "context_inv st" and "p \<notin> stored st"
  shows "dispatch D st p = Inl ValueError"
  by (rule dispatch_alien [OF assms])

theorem dispatch_refuses_alien_witness:
  "\<forall>D. dispatch D sample_context (SubClassInclusionComposed 3 3) = Inl ValueError"
  by (rule allI, rule dispatch_refuses_alien [OF sample_context_inv(1)]) (simp add: sample_context_inv(2))

text \<open>C12: A query root answers with the context's frozen saturated state, and its key stays bound: the
  same key with another root is refused and leaves the engine as it is.\<close>

theorem query_root_bound:
  assumes "usable_ontology co" and "used co roots e" and "key \<noteq> []" and "is_expression co r"
    and "dict_get (query_roots e) key = None" and "is_expression co r'" and "r' \<noteq> r"
  shows "\<exists>fz e'. saturate_query_root key r e = Some (Inr fz, e') \<and> fz_root fz = r \<and> fz_saturated fz \<and>
    fz_todo fz = [] \<and> saturate_query_root key r' e' = Some (Inl ValueError, e')"
proof -
  obtain ps where ps: "saturate_properties co = Some (Inr ps)" by (rule used_setting [OF assms(1)])
  have rest0: "at_rest co ps roots e" by (rule used_at_rest [OF assms(1) ps assms(2)])
  let ?e = "e\<lparr>query_roots := dict_put key r (query_roots e)\<rparr>"
  have rest: "at_rest co ps roots ?e" using rest0 by (simp add: at_rest_query_roots)
  have "\<forall>x \<in> set [r]. is_expression co x" using assms(4) by simp
  then obtain snap e' where run: "run [r] None never ?e = Some (Inr snap, e')" "at_rest co ps (roots \<union> set [r]) e'"
    "snapshot False e' = Inr snap" "active e' = []" "query_roots e' = query_roots ?e"
    "set [r] \<union> allocated ?e \<subseteq> allocated e'"
    by (rule run_unlimited [OF rest])
  have inv: "engine_inv co ps roots e" "engine_inv co ps (roots \<union> set [r]) e'"
    using rest0 run(2) by (simp_all add: at_rest_def)
  note check = checked_root_ok [OF engine_invD(1,2) [OF inv(1)]] checked_root_ok [OF engine_invD(1,2) [OF inv(2)]]
  from run(6) obtain st where st: "dict_get (contexts e') r = Some st" by (auto simp: allocated_def)
  have "saturate_query_root key r e = Some (Inr (freeze st), e')"
    using assms(3-5) run(1) st by (simp add: saturate_query_root_def check)
  moreover have "saturate_query_root key r' e' = Some (Inl ValueError, e')"
    using assms(3,6,7) run(5) by (simp add: saturate_query_root_def check)
  ultimately show ?thesis using idle_context [OF run(2,4) st] by (simp add: freeze_def)
qed

theorem query_root_bound_witness:
  "\<exists>e fz e'. create_engine sample_ontology = Some (Inr e) \<and>
    saturate_query_root [1] 2 e = Some (Inr fz, e') \<and> fz_root fz = 2 \<and> fz_saturated fz \<and>
    fz_todo fz = [] \<and> saturate_query_root [1] 3 e' = Some (Inl ValueError, e')"
proof -
  obtain e where e: "create_engine sample_ontology = Some (Inr e)" "used sample_ontology {} e"
    using sample_used by blast
  then have "dict_get (query_roots e) [1] = None"
    by (auto simp: create_engine_def new_engine_def split: sum.splits)
  moreover have "is_expression sample_ontology 2" "is_expression sample_ontology 3"
    by (simp_all add: is_expression_def sample_ontology_def sample_expressions_def)
  ultimately show ?thesis using query_root_bound [OF sample_usable e(2), of "[1]" 2 3] e(1) by auto
qed

text \<open>A candidate enters a context once: enqueuing it again is refused and changes nothing.\<close>

theorem enqueue_once:
  assumes "context_inv st" and "conclusion_destination c = ctx_root st"
  shows "\<exists>novel st'. enqueue st c = Inr (novel, st') \<and> context_inv st' \<and> (novel \<longleftrightarrow> c \<notin> stored st \<union> pending st) \<and>
    stored st' = stored st \<and> pending st' = insert c (pending st) - stored st \<and> enqueue st' c = Inr (False, st')"
proof -
  have owns: "owns_conclusion st c" using assms(2) by (simp add: owns_conclusion_def)
  obtain b st' where b: "enqueue st c = Inr (b, st')" "context_inv st'" "context_label st' = context_label st"
    "stored st' = stored st" "pending st' = (if b then insert c (pending st) else pending st)"
    "b \<longleftrightarrow> c \<notin> stored st \<union> pending st" "\<not> b \<longrightarrow> st' = st"
    by (rule ctx.enq_total [OF assms(1) owns])
  have "pending st \<inter> stored st = {}" using assms(1) by (auto simp: context_inv_defs pending_def)
  with b(5,6) have "pending st' = insert c (pending st) - stored st" by auto
  with b(1,2,4,6) ctx.enq_twice [OF assms(1) owns b(1)] show ?thesis by blast
qed

theorem enqueue_once_witness:
  "\<exists>novel st'. enqueue sample_context (ContextInitialization 2) = Inr (novel, st') \<and> context_inv st' \<and>
    (novel \<longleftrightarrow> ContextInitialization 2 \<notin> stored sample_context \<union> pending sample_context) \<and>
    stored st' = stored sample_context \<and>
    pending st' = insert (ContextInitialization 2) (pending sample_context) - stored sample_context \<and>
    enqueue st' (ContextInitialization 2) = Inr (False, st')"
proof (rule enqueue_once [OF sample_context_inv(1)])
  show "conclusion_destination (ContextInitialization 2) = ctx_root sample_context"
    by (simp add: sample_context_inv(3))
qed

text \<open>The frozen view of a context depends on what it holds, not on the order in which it came.\<close>

theorem freeze_order_independent:
  assumes "context_inv s" and "context_inv t" and "ctx_root s = ctx_root t" and "stored s = stored t"
    and "pending s = pending t" and "saturated s = saturated t" and "queued s = queued t"
  shows "freeze s = freeze t"
  by (rule freeze_canonical [OF assms])

theorem freeze_order_independent_witness:
  "freeze (filled [BackwardLink 2 7 3, BackwardLink 2 7 2]) = freeze (filled [BackwardLink 2 7 2, BackwardLink 2 7 3])"
proof -
  let ?s = "filled [BackwardLink 2 7 3, BackwardLink 2 7 2]" and ?t = "filled [BackwardLink 2 7 2, BackwardLink 2 7 3]"
  have "saturated ?s = saturated ?t" "queued ?s = queued ?t" by code_simp+
  with filled_inv [of "[BackwardLink 2 7 3, BackwardLink 2 7 2]"] filled_inv [of "[BackwardLink 2 7 2, BackwardLink 2 7 3]"]
  show ?thesis by (intro freeze_order_independent) auto
qed

end
