(* ===== verification/Soundness.thy ===== *)
theory Soundness
  imports Semantics Engine_Results
begin

text \<open>
  What the engine reports, against the semantics of the ontology: sound without property ranges, and
  not sound with them.
\<close>

declare run_local.simps [code] run_active.simps [code]

section \<open>The reported subsumers hold\<close>

text \<open>The frozen rows of an idle engine, in terms of the derivable conclusions.\<close>

lemma idle_rows:
  assumes "at_rest co ps roots e" and "active e = []" and "snapshot b e = Inr snap"
    and "(r, fz) \<in> set (snap_contexts snap)"
  shows "set (fz_composed_subsumers fz) = {s. SubClassInclusionComposed r s \<in> derivable co ps roots}"
    and "set (fz_decomposed_subsumers fz) = {s. SubClassInclusionDecomposed r s \<in> derivable co ps roots}"
    and "fz_inconsistent fz \<longleftrightarrow> ClassInconsistency r \<in> derivable co ps roots"
proof -
  have inv: "engine_inv co ps roots e" using assms(1) by (simp add: at_rest_def)
  note i = engine_invD [OF inv]
  obtain snap' where "snapshot b e = Inr snap'"
    "snap_contexts snap' = map (\<lambda>(root, st). (root, freeze st)) (sort_key fst (contexts e))"
    by (rule snapshot_total [OF i(1) struct_invD(1) [OF i(2)]])
  with assms(3,4) obtain st where st: "(r, st) \<in> set (contexts e)" "fz = freeze st" by auto
  then have get: "dict_get (contexts e) r = Some st"
    using dict_get_mem [OF struct_invD(2) [OF i(2)]] by blast
  have st_inv: "context_inv st" "ctx_root st = r" by (rule idle_context [OF assms(1,2) get])+
  have stored: "stored st = {c \<in> derivable co ps roots. conclusion_destination c = r}"
    by (rule idle_context_content(1) [OF assms(1,2) get])
  have v: "composed_subsumers st = {s. SubClassInclusionComposed r s \<in> stored st}"
    "decomposed_subsumers st = {s. SubClassInclusionDecomposed r s \<in> stored st}"
    "inconsistent st \<longleftrightarrow> ClassInconsistency r \<in> stored st"
    "finite (composed_subsumers st)" "finite (decomposed_subsumers st)"
    using st_inv by (auto simp: context_inv_def views_inv_def maps_inv_def Let_def)
  show "set (fz_composed_subsumers fz) = {s. SubClassInclusionComposed r s \<in> derivable co ps roots}"
    "set (fz_decomposed_subsumers fz) = {s. SubClassInclusionDecomposed r s \<in> derivable co ps roots}"
    "fz_inconsistent fz \<longleftrightarrow> ClassInconsistency r \<in> derivable co ps roots"
    using v by (auto simp: st(2) freeze_def stored)
qed

lemma snapshot_sound:
  assumes set: "class_setting co ps" and m: "is_model co I" and nr: "property_ranges co = []"
    and rest: "at_rest co ps roots e" and idle: "active e = []" and snap: "snapshot b e = Inr snap"
    and row: "(r, fz) \<in> set (snap_contexts snap)"
  shows "s \<in> set (fz_composed_subsumers fz) \<union> set (fz_decomposed_subsumers fz) \<Longrightarrow> ext I r \<subseteq> ext I s"
    and "fz_inconsistent fz \<Longrightarrow> ext I r = {}"
proof -
  have "\<forall>r \<in> roots. is_expression co r" using rest engine_invD(5) unfolding at_rest_def by blast
  note sound = derivable_sound [OF set m nr this]
  note rows = idle_rows [OF rest idle snap row]
  show "ext I r \<subseteq> ext I s" if "s \<in> set (fz_composed_subsumers fz) \<union> set (fz_decomposed_subsumers fz)"
    using that sound [of "SubClassInclusionComposed r s"] sound [of "SubClassInclusionDecomposed r s"]
    unfolding rows by auto
  show "ext I r = {}" if "fz_inconsistent fz"
    using that sound [of "ClassInconsistency r"] unfolding rows by simp
qed

text \<open>C1: Without declared property ranges, every subsumer a run reports for a context contains the
  context's root in every model of the ontology, and an inconsistent context is empty in every model.\<close>

theorem reported_subsumers_hold:
  fixes I :: "'d interp"
  assumes "usable_ontology co" and "property_ranges co = []" and "\<forall>r \<in> set rs. is_expression co r"
    and "is_model co I"
  shows "\<exists>e snap e'. create_engine co = Some (Inr e) \<and> run rs None never e = Some (Inr snap, e') \<and>
    (\<forall>(r, fz) \<in> set (snap_contexts snap).
       (\<forall>s \<in> set (fz_composed_subsumers fz) \<union> set (fz_decomposed_subsumers fz). ext I r \<subseteq> ext I s) \<and>
       (fz_inconsistent fz \<longrightarrow> ext I r = {}))"
proof -
  obtain ps e snap e' where r: "saturate_properties co = Some (Inr ps)" "create_engine co = Some (Inr e)"
    "run rs None never e = Some (Inr snap, e')" "at_rest co ps (set rs) e'" "active e' = []"
    "snapshot False e' = Inr snap"
    by (rule fresh_run [OF assms(1,3)])
  have "class_setting co ps"
    using assms(1) r(1) by (simp add: class_setting_def saturated_view_def usable_ontology_def)
  note sound = snapshot_sound [OF this assms(4,2) r(4-6)]
  have "\<forall>(r, fz) \<in> set (snap_contexts snap).
       (\<forall>s \<in> set (fz_composed_subsumers fz) \<union> set (fz_decomposed_subsumers fz). ext I r \<subseteq> ext I s) \<and>
       (fz_inconsistent fz \<longrightarrow> ext I r = {})"
    using sound by blast
  with r(2,3) show ?thesis by blast
qed

definition sample_model :: "nat interp" where
  "sample_model = \<lparr>domain = {0}, ext = (\<lambda>e. if e = 0 then {} else {0}),
     role = (\<lambda>p. if p = 5 then {} else {(0, 0)}), individual = (\<lambda>_. 0), data_ext = (\<lambda>_ _. {})\<rparr>"

lemma iri_distinct [simp]:
  "OWL_NOTHING_IRI \<noteq> OWL_THING_IRI" "OWL_THING_IRI \<noteq> OWL_NOTHING_IRI"
  "OWL_TOP_OBJECT_PROPERTY_IRI \<noteq> OWL_BOTTOM_OBJECT_PROPERTY_IRI"
  "OWL_BOTTOM_OBJECT_PROPERTY_IRI \<noteq> OWL_TOP_OBJECT_PROPERTY_IRI"
  by code_simp+

lemma nat_below: "(n :: nat) < Suc m \<longleftrightarrow> n < m \<or> n = m"
  by auto

lemma sample_names [simp]:
  "py_literal ''urn:r'' \<noteq> OWL_TOP_OBJECT_PROPERTY_IRI" "py_literal ''urn:s'' \<noteq> OWL_TOP_OBJECT_PROPERTY_IRI"
  "py_literal ''urn:B'' \<noteq> OWL_THING_IRI" "py_literal ''urn:C'' \<noteq> OWL_THING_IRI"
  "py_literal ''urn:A'' \<noteq> OWL_NOTHING_IRI" "py_literal ''urn:B'' \<noteq> OWL_NOTHING_IRI"
  "py_literal ''urn:C'' \<noteq> OWL_NOTHING_IRI" "py_literal ''urn:r'' \<noteq> OWL_BOTTOM_OBJECT_PROPERTY_IRI"
  "py_literal ''urn:s'' \<noteq> OWL_BOTTOM_OBJECT_PROPERTY_IRI"
  by code_simp+

lemma sample_is_model: "is_model sample_ontology sample_model"
proof -
  have "record_ext sample_ontology sample_model (expressions sample_ontology ! e) (ext sample_model e)"
    if "e < 8" for e
    using that by (auto simp: eval_nat_numeral nat_below record_ext_def sample_ontology_def sample_expressions_def
        sample_entities_def class_row_def some_row_def sample_model_def some_ext_def)
  moreover have "property_ext sample_ontology sample_model p" if "is_object_property sample_ontology p" for p
  proof -
    have "p < 9" "kind (sample_entities ! p) = OBJECT_PROPERTY"
      using that by (simp_all add: is_object_property_def sample_ontology_def sample_entities_def)
    then show ?thesis
      by (auto simp: eval_nat_numeral nat_below property_ext_def sample_ontology_def
          sample_entities_def sample_model_def)
  qed
  moreover have "satisfies sample_ontology sample_model"
    by (auto simp: satisfies_def sample_ontology_def sample_model_def)
  ultimately show ?thesis
    by (simp add: is_model_def interprets_def is_expression_def sample_model_def [THEN arg_cong, of domain]
        sample_ontology_def [THEN arg_cong, of expressions] sample_expressions_def)
qed

theorem reported_subsumers_hold_witness:
  "\<exists>e snap e'. create_engine sample_ontology = Some (Inr e) \<and> run [2] None never e = Some (Inr snap, e') \<and>
    (\<forall>(r, fz) \<in> set (snap_contexts snap).
       (\<forall>s \<in> set (fz_composed_subsumers fz) \<union> set (fz_decomposed_subsumers fz).
          ext sample_model r \<subseteq> ext sample_model s) \<and>
       (fz_inconsistent fz \<longrightarrow> ext sample_model r = {}))"
  by (rule reported_subsumers_hold [OF sample_usable _ sample_roots sample_is_model]) (simp add: sample_ontology_def)

section \<open>Ranges\<close>

text \<open>
  A backward link puts the ranges of its property on the filler's own context, so the filler class
  itself inherits them: from \<open>A\<close> below \<open>some r A\<close> and the range \<open>B\<close> of \<open>r\<close> the engine reports \<open>A\<close>
  below \<open>B\<close>, which fails in the model below.
\<close>

definition range_ontology :: compiled_ontology where
  "range_ontology = sample_ontology\<lparr>expressions := map class_row [0, 1, 2, 3, 4] @ [some_row 7 2],
     expression_occurrences := replicate 6 \<lparr>negative = 1, positive = 1\<rparr>,
     property_chains := [], subclass_axioms := [(2, 5)], subproperty_axioms := [],
     property_ranges := [(7, 3)]\<rparr>"

definition range_model :: "nat interp" where
  "range_model = \<lparr>domain = {0, 1},
     ext = (\<lambda>e. if e = 0 \<or> e = 4 then {} else if e = 3 then {1} else {0, 1}),
     role = (\<lambda>p. if p = 5 \<or> p = 8 then {} else if p = 6 then {0, 1} \<times> {0, 1} else {(0, 1), (1, 1)}),
     individual = (\<lambda>_. 0), data_ext = (\<lambda>_ _. {})\<rparr>"

definition decomposed_rows :: "compiled_ontology \<Rightarrow> nat list \<Rightarrow> (nat \<times> nat list) list" where
  "decomposed_rows co rs = (case create_engine co of
     Some (Inr e) \<Rightarrow> (case run rs None never e of
         Some (Inr snap, _) \<Rightarrow> map (\<lambda>(r, fz). (r, fz_decomposed_subsumers fz)) (snap_contexts snap)
       | _ \<Rightarrow> [])
   | _ \<Rightarrow> [])"

lemma range_usable: "usable_ontology range_ontology"
  unfolding usable_ontology_def valid_ontology_def property_limits_def class_limits_def by code_simp

lemma range_is_model: "is_model range_ontology range_model"
proof -
  have "record_ext range_ontology range_model (expressions range_ontology ! e) (ext range_model e)"
    if "e < 6" for e
    using that by (auto simp: eval_nat_numeral nat_below record_ext_def range_ontology_def sample_ontology_def
        sample_entities_def class_row_def some_row_def range_model_def some_ext_def)
  moreover have "property_ext range_ontology range_model p" if "is_object_property range_ontology p" for p
  proof -
    have "p < 9" "kind (sample_entities ! p) = OBJECT_PROPERTY"
      using that by (simp_all add: is_object_property_def range_ontology_def sample_ontology_def sample_entities_def)
    then show ?thesis
      by (auto simp: eval_nat_numeral nat_below property_ext_def range_ontology_def sample_ontology_def
          sample_entities_def range_model_def)
  qed
  moreover have "satisfies range_ontology range_model"
    by (auto simp: satisfies_def range_ontology_def sample_ontology_def range_model_def)
  ultimately show ?thesis
    by (simp add: is_model_def interprets_def is_expression_def range_model_def [THEN arg_cong, of domain]
        range_ontology_def [THEN arg_cong, of expressions])
qed

text \<open>C14: With a declared property range the engine reports a subsumer that does not hold in a model of
  the ontology: the range of a property is derived for the filler of an existential on it.\<close>

theorem range_subsumer_refuted:
  "usable_ontology range_ontology \<and> is_model range_ontology range_model \<and>
   decomposed_rows range_ontology [2] = [(2, [2, 3, 5])] \<and> \<not> ext range_model 2 \<subseteq> ext range_model 3"
proof -
  have "decomposed_rows range_ontology [2] = [(2, [2, 3, 5])]" by code_simp
  moreover have "\<not> ext range_model 2 \<subseteq> ext range_model 3" by (simp add: range_model_def)
  ultimately show ?thesis using range_usable range_is_model by blast
qed

end
