(* ===== verification/Consistency.thy ===== *)
theory Consistency
  imports Soundness
begin

text \<open>
  \<open>src/pyelk/reasoning/consistency.py\<close>: the ontology is inconsistent when the context of
  \<open>owl:Thing\<close> or of an occurring individual is, or when the top object property is below the bottom one.
\<close>

record consistency_state =
  cs_thing_root :: nat
  cs_individual_roots :: "nat list"
  cs_thing_inconsistent :: bool
  cs_inconsistent_individuals :: "nat list"
  cs_top_in_bottom :: bool

definition inconsistent_state :: "consistency_state \<Rightarrow> bool" where
  "inconsistent_state cs \<longleftrightarrow> cs_thing_inconsistent cs \<or> cs_inconsistent_individuals cs \<noteq> [] \<or> cs_top_in_bottom cs"

definition named_entity :: "compiled_ontology \<Rightarrow> entity_kind \<Rightarrow> py_str \<Rightarrow> nat result" where
  "named_entity co k name = (case find_index (\<lambda>r. kind r = k \<and> iri r = name) (entities co) of
     None \<Rightarrow> Inl StopIteration | Some e \<Rightarrow> Inr e)"

definition named_expression :: "compiled_ontology \<Rightarrow> entity_kind \<Rightarrow> py_str \<Rightarrow> nat result" where
  "named_expression co k name = rbind (named_entity co k name) (\<lambda>e.
     let expected = (if k = CLASS then TAG_CLASS else TAG_INDIVIDUAL) in
     case find_index (\<lambda>r. tag r = expected \<and> arguments r = [e]) (expressions co) of
       None \<Rightarrow> Inl StopIteration | Some x \<Rightarrow> Inr x)"

definition owl_thing_root :: "compiled_ontology \<Rightarrow> nat result" where
  "owl_thing_root co = named_expression co CLASS OWL_THING_IRI"

definition occurring_individual_roots :: "compiled_ontology \<Rightarrow> nat list" where
  "occurring_individual_roots co = map fst (filter (\<lambda>(i, r). tag r = TAG_INDIVIDUAL \<and>
     (0 < negative (expression_occurrences co ! i) \<or> 0 < positive (expression_occurrences co ! i)))
     (enumerate 0 (expressions co)))"

definition consistency_roots :: "compiled_ontology \<Rightarrow> nat list result" where
  "consistency_roots co = rmap (\<lambda>thing.
     sorted_list_of_set (insert thing (set (occurring_individual_roots co)))) (owl_thing_root co)"

definition context_inconsistent :: "context_state option \<Rightarrow> bool" where
  "context_inconsistent c = (case c of None \<Rightarrow> False | Some st \<Rightarrow> inconsistent st)"

definition evaluate_consistency ::
    "compiled_ontology \<Rightarrow> property_saturation \<Rightarrow> (nat, context_state) dict \<Rightarrow> consistency_state result" where
  "evaluate_consistency co ps ctxs = rbind (owl_thing_root co) (\<lambda>thing.
     let individuals = occurring_individual_roots co in
     rbind (named_entity co OBJECT_PROPERTY OWL_TOP_OBJECT_PROPERTY_IRI) (\<lambda>top_property.
     rbind (named_entity co OBJECT_PROPERTY OWL_BOTTOM_OBJECT_PROPERTY_IRI) (\<lambda>bottom_property.
     rbind (singleton_chain ps top_property) (\<lambda>top_chain.
     rbind (singleton_chain ps bottom_property) (\<lambda>bottom_chain.
     rbind (super_chains ps top_chain) (\<lambda>supers.
     Inr \<lparr>cs_thing_root = thing, cs_individual_roots = individuals,
       cs_thing_inconsistent = context_inconsistent (dict_get ctxs thing),
       cs_inconsistent_individuals = filter (\<lambda>r. context_inconsistent (dict_get ctxs r)) individuals,
       cs_top_in_bottom = (bottom_chain \<in> set supers)\<rparr>))))))"

section \<open>The tables of a valid ontology have what the check looks for\<close>

lemma find_index_exists: "x \<in> set xs \<Longrightarrow> p x \<Longrightarrow> \<exists>i. find_index p xs = Some i"
  using find_index_from_None [of 0 p xs] by (cases "find_index p xs") auto

lemma named_entity_total:
  assumes "valid_ontology co" and "(k, name) \<in> set predefined_entities"
  obtains e where "named_entity co k name = Inr e" and "e < length (entities co)"
    and "kind (entities co ! e) = k" and "iri (entities co ! e) = name"
proof -
  obtain e where "e < length (entities co)" "kind (entities co ! e) = k" "iri (entities co ! e) = name"
    using predefined_entity [OF assms] by blast
  then obtain i where i: "find_index (\<lambda>r. kind r = k \<and> iri r = name) (entities co) = Some i"
    using find_index_exists [of "entities co ! e" "entities co"] by fastforce
  from find_index_Some [OF i] i show ?thesis by (intro that [of i]) (simp_all add: named_entity_def)
qed

lemma predefined:
  "(CLASS, OWL_NOTHING_IRI) \<in> set predefined_entities" "(CLASS, OWL_THING_IRI) \<in> set predefined_entities"
  "(OBJECT_PROPERTY, OWL_BOTTOM_OBJECT_PROPERTY_IRI) \<in> set predefined_entities"
  "(OBJECT_PROPERTY, OWL_TOP_OBJECT_PROPERTY_IRI) \<in> set predefined_entities"
  by (simp_all add: predefined_entities_def)

lemma owl_thing_root_total:
  assumes "valid_ontology co"
  obtains t where "owl_thing_root co = Inr t" and "is_expression co t"
    and "tag (expressions co ! t) = TAG_CLASS"
    and "iri (entities co ! (arguments (expressions co ! t) ! 0)) = OWL_THING_IRI"
proof -
  obtain e where e: "named_entity co CLASS OWL_THING_IRI = Inr e" "e < length (entities co)"
    "kind (entities co ! e) = CLASS" "iri (entities co ! e) = OWL_THING_IRI"
    by (rule named_entity_total [OF assms predefined(2)])
  obtain x where x: "is_expression co x" "tag (expressions co ! x) = TAG_CLASS" "arguments (expressions co ! x) = [e]"
    using named_expression [OF assms e(2), of TAG_CLASS] e(3) by auto
  then obtain t where t: "find_index (\<lambda>r. tag r = TAG_CLASS \<and> arguments r = [e]) (expressions co) = Some t"
    using find_index_exists [of "expressions co ! x" "expressions co"] by (fastforce simp: is_expression_def)
  from find_index_Some [OF t] t e(1,4) show ?thesis
    by (intro that [of t]) (simp_all add: owl_thing_root_def named_expression_def is_expression_def)
qed

lemma occurring_individual_iff:
  "r \<in> set (occurring_individual_roots co) \<longleftrightarrow> is_expression co r \<and> tag (expressions co ! r) = TAG_INDIVIDUAL \<and>
     (occurs_negatively co r \<or> occurs_positively co r)"
  by (force simp: occurring_individual_roots_def is_expression_def occurs_negatively_def occurs_positively_def
      in_set_enumerate_eq image_iff)

lemma consistency_roots_total:
  assumes "valid_ontology co"
  obtains t rs where "owl_thing_root co = Inr t" and "consistency_roots co = Inr rs"
    and "set rs = insert t (set (occurring_individual_roots co))" and "\<forall>r \<in> set rs. is_expression co r"
proof -
  obtain t where "owl_thing_root co = Inr t" "is_expression co t"
    by (rule owl_thing_root_total [OF assms])
  moreover have "set (sorted_list_of_set (insert t (set (occurring_individual_roots co)))) =
      insert t (set (occurring_individual_roots co))"
    by (rule set_sorted_list_of_set) simp
  ultimately show ?thesis
    by (intro that [of t "sorted_list_of_set (insert t (set (occurring_individual_roots co)))"])
      (simp_all add: consistency_roots_def occurring_individual_iff del: set_sorted_list_of_set sorted_list_of_set_insert_remove)
qed

text \<open>The decision, in terms of what the contexts hold and the told property hierarchy.\<close>

lemma evaluate_consistency_total:
  assumes set: "class_setting co ps" and t: "owl_thing_root co = Inr t"
  obtains cs tp bp where "evaluate_consistency co ps ctxs = Inr cs"
    and "is_object_property co tp" and "iri (entities co ! tp) = OWL_TOP_OBJECT_PROPERTY_IRI"
    and "is_object_property co bp" and "iri (entities co ! bp) = OWL_BOTTOM_OBJECT_PROPERTY_IRI"
    and "inconsistent_state cs \<longleftrightarrow> ([tp], [bp]) \<in> (told_chains co)\<^sup>* \<or>
      (\<exists>r \<in> insert t (set (occurring_individual_roots co)). context_inconsistent (dict_get ctxs r))"
proof -
  obtain u where view: "view_of co u ps" and valid: "valid_ontology co" by (rule class_settingE [OF set])
  obtain tp where tp: "named_entity co OBJECT_PROPERTY OWL_TOP_OBJECT_PROPERTY_IRI = Inr tp"
    "tp < length (entities co)" "kind (entities co ! tp) = OBJECT_PROPERTY" "iri (entities co ! tp) = OWL_TOP_OBJECT_PROPERTY_IRI"
    by (rule named_entity_total [OF valid predefined(4)])
  obtain bp where bp: "named_entity co OBJECT_PROPERTY OWL_BOTTOM_OBJECT_PROPERTY_IRI = Inr bp"
    "bp < length (entities co)" "kind (entities co ! bp) = OBJECT_PROPERTY" "iri (entities co ! bp) = OWL_BOTTOM_OBJECT_PROPERTY_IRI"
    by (rule named_entity_total [OF valid predefined(3)])
  have p: "is_object_property co tp" "is_object_property co bp" using tp bp by (simp_all add: is_object_property_def)
  obtain a where a: "singleton_chain ps tp = Inr a" "dict_get (singleton_ids u) tp = Some a"
    "a < length (records u)" "records u ! a = PropertyChainRecord tp None"
    by (rule singleton_chain_view [OF view p(1)])
  obtain b where b: "singleton_chain ps bp = Inr b" "dict_get (singleton_ids u) bp = Some b"
    "b < length (records u)" "records u ! b = PropertyChainRecord bp None"
    by (rule singleton_chain_view [OF view p(2)])
  have "chain_below co u a b \<longleftrightarrow> ([tp], [bp]) \<in> (told_chains co)\<^sup>*"
    using named_below_told [OF view p(1) b(2)] a(2) by (simp add: named_below_def)
  moreover have "super_chains ps a = Inr (sorted_list_of_set {b. chain_below co u a b})"
    by (rule sub_chains_view(2) [OF view]) (simp add: view_facts(4) [OF view] a(3))
  ultimately have supers: "\<exists>ys. super_chains ps a = Inr ys \<and> (b \<in> set ys \<longleftrightarrow> ([tp], [bp]) \<in> (told_chains co)\<^sup>*)"
    by simp
  then obtain ys where ys: "super_chains ps a = Inr ys" "b \<in> set ys \<longleftrightarrow> ([tp], [bp]) \<in> (told_chains co)\<^sup>*" by blast
  let ?occ = "occurring_individual_roots co"
  let ?bad = "filter (\<lambda>r. context_inconsistent (dict_get ctxs r)) ?occ"
  let ?cs = "\<lparr>cs_thing_root = t, cs_individual_roots = ?occ,
    cs_thing_inconsistent = context_inconsistent (dict_get ctxs t),
    cs_inconsistent_individuals = ?bad, cs_top_in_bottom = (b \<in> set ys)\<rparr>"
  have "evaluate_consistency co ps ctxs = Inr ?cs"
    by (simp add: evaluate_consistency_def Let_def t tp(1) bp(1) a(1) b(1) ys(1))
  moreover have "?bad \<noteq> [] \<longleftrightarrow> (\<exists>r \<in> set ?occ. context_inconsistent (dict_get ctxs r))"
    by (simp add: filter_empty_conv)
  then have "inconsistent_state ?cs \<longleftrightarrow> ([tp], [bp]) \<in> (told_chains co)\<^sup>* \<or>
      (\<exists>r \<in> insert t (set ?occ). context_inconsistent (dict_get ctxs r))"
    using ys(2) by (auto simp: inconsistent_state_def)
  ultimately show ?thesis using that p tp(4) bp(4) by blast
qed

section \<open>A reported inconsistency is real\<close>

lemma inconsistent_no_model:
  fixes I :: "'d interp"
  assumes valid: "valid_ontology co" and t: "owl_thing_root co = Inr t"
    and tp: "is_object_property co tp" "iri (entities co ! tp) = OWL_TOP_OBJECT_PROPERTY_IRI"
    and bp: "is_object_property co bp" "iri (entities co ! bp) = OWL_BOTTOM_OBJECT_PROPERTY_IRI"
    and why: "([tp], [bp]) \<in> (told_chains co)\<^sup>* \<or>
      (\<exists>r \<in> insert t (set (occurring_individual_roots co)). ext I r = {})"
  shows "\<not> is_model co I"
proof
  assume m: "is_model co I"
  then have dom: "domain I \<noteq> {}" by (simp add: is_model_def interprets_def)
  from why show False
  proof (elim disjE bexE)
    assume "([tp], [bp]) \<in> (told_chains co)\<^sup>*"
    from told_chains_sound [OF valid m this] have "role I tp \<subseteq> role I bp"
      using chain_role_single [OF m tp(1)] chain_role_single [OF m bp(1)] by simp
    moreover have "role I tp = domain I \<times> domain I" "role I bp = {}"
      using modelD(2) [OF m tp(1)] modelD(2) [OF m bp(1)] tp(2) bp(2) by (simp_all add: property_ext_def)
    ultimately show False using dom by auto
  next
    fix r assume r: "r \<in> insert t (set (occurring_individual_roots co))" "ext I r = {}"
    obtain t' where t': "owl_thing_root co = Inr t'" "is_expression co t'" "tag (expressions co ! t') = TAG_CLASS"
      "iri (entities co ! (arguments (expressions co ! t') ! 0)) = OWL_THING_IRI"
      by (rule owl_thing_root_total [OF valid])
    show False
    proof (cases "r = t")
      case True
      with t t' modelD(1) [OF m, of t] r(2) dom show False by (auto simp: record_ext_def)
    next
      case False
      with r(1) have "is_expression co r" "tag (expressions co ! r) = TAG_INDIVIDUAL"
        by (simp_all add: occurring_individual_iff)
      with modelD(1) [OF m, of r] r(2) show False by (simp add: record_ext_def)
    qed
  qed
qed

end
