(* ===== verification/Session.thy ===== *)
theory Session
  imports Consistency
begin

text \<open>
  \<open>src/pyelk/reasoning/session.py\<close>: the lazy stages over one engine.  A method returns its value or
  exception with the session it leaves; \<open>None\<close> stands for a call that would not return.
\<close>

section \<open>State\<close>

datatype stage = COMPILED | PROPERTIES | CONSISTENCY | CLASSIFIED | REALIZED

fun stage_int :: "stage \<Rightarrow> nat" where
  "stage_int COMPILED = 0"
| "stage_int PROPERTIES = 1"
| "stage_int CONSISTENCY = 2"
| "stage_int CLASSIFIED = 3"
| "stage_int REALIZED = 4"

lemma stage_int_inject: "stage_int a = stage_int b \<Longrightarrow> a = b"
  by (cases a; cases b) simp_all

instantiation stage :: linorder
begin

definition less_eq_stage :: "stage \<Rightarrow> stage \<Rightarrow> bool" where
  "less_eq_stage a b \<longleftrightarrow> stage_int a \<le> stage_int b"

definition less_stage :: "stage \<Rightarrow> stage \<Rightarrow> bool" where
  "less_stage a b \<longleftrightarrow> stage_int a < stage_int b"

instance
  by standard (auto simp: less_eq_stage_def less_stage_def intro: stage_int_inject)

end

lemmas stage_order = less_eq_stage_def less_stage_def

record session =
  ss_compiled :: compiled_ontology
  ss_stage :: stage
  ss_properties :: "property_saturation option"
  ss_engine :: "engine option"
  ss_consistency :: "consistency_state option"

definition new_session :: "compiled_ontology \<Rightarrow> session" where
  "new_session co = \<lparr>ss_compiled = co, ss_stage = COMPILED, ss_properties = None, ss_engine = None,
     ss_consistency = None\<rparr>"

type_synonym 'a action = "session \<Rightarrow> ('a result \<times> session) option"

definition done_with :: "'a \<Rightarrow> 'a action" where
  "done_with a s = Some (Inr a, s)"

definition and_then :: "'a action \<Rightarrow> ('a \<Rightarrow> 'b action) \<Rightarrow> 'b action" where
  "and_then m k s = (case m s of
     None \<Rightarrow> None | Some (Inl x, s') \<Rightarrow> Some (Inl x, s') | Some (Inr a, s') \<Rightarrow> k a s')"

definition lift_result :: "'a result \<Rightarrow> 'a action" where
  "lift_result m s = Some (m, s)"

section \<open>Stages\<close>

definition ensure_properties :: "property_saturation action" where
  "ensure_properties s = (
     let reach = (\<lambda>s. s\<lparr>ss_stage := max (ss_stage s) PROPERTIES\<rparr>) in
     case ss_properties s of
       Some ps \<Rightarrow> Some (Inr ps, reach s)
     | None \<Rightarrow> (case saturate_properties (ss_compiled s) of
         None \<Rightarrow> None
       | Some (Inl x) \<Rightarrow> Some (Inl x, s)
       | Some (Inr ps) \<Rightarrow> Some (Inr ps, reach (s\<lparr>ss_properties := Some ps\<rparr>))))"

definition session_engine :: "engine action" where
  "session_engine = and_then ensure_properties (\<lambda>_ s. case ss_engine s of
     Some e \<Rightarrow> Some (Inr e, s)
   | None \<Rightarrow> (case ss_properties s of
       None \<Rightarrow> Some (Inl PyAssertionError, s)
     | Some ps \<Rightarrow> (case new_engine (ss_compiled s) ps of
         Inl x \<Rightarrow> Some (Inl x, s)
       | Inr e \<Rightarrow> Some (Inr e, s\<lparr>ss_engine := Some e\<rparr>))))"

text \<open>A call of an engine method: the session keeps the engine the call leaves.\<close>

definition with_engine :: "(engine \<Rightarrow> ('a outcome) option) \<Rightarrow> 'a action" where
  "with_engine f = and_then session_engine (\<lambda>e s. case f e of
     None \<Rightarrow> None | Some (out, e') \<Rightarrow> Some (out, s\<lparr>ss_engine := Some e'\<rparr>))"

definition live_contexts :: "engine \<Rightarrow> (nat, context_state) dict" where
  "live_contexts e = List.map_filter (\<lambda>root. map_option (Pair root) (dict_get (contexts e) root)) (engine_roots e)"

definition session_evaluate_consistency :: "consistency_state action" where
  "session_evaluate_consistency = and_then ensure_properties (\<lambda>ps. and_then session_engine (\<lambda>e s.
     Some (evaluate_consistency (ss_compiled s) ps (live_contexts e), s)))"

definition refresh_consistency :: "consistency_state action" where
  "refresh_consistency = and_then session_evaluate_consistency (\<lambda>cs s. Some (Inr cs, s\<lparr>ss_consistency := Some cs\<rparr>))"

definition set_stage :: "stage \<Rightarrow> unit action" where
  "set_stage g s = Some (Inr (), s\<lparr>ss_stage := g\<rparr>)"

definition session_roots :: "compiled_ontology \<Rightarrow> expression_tag \<Rightarrow> nat list" where
  "session_roots co t = map fst (filter (\<lambda>(i, r). tag r = t) (enumerate 0 (expressions co)))"

definition compute_consistency :: "consistency_state action" where
  "compute_consistency = and_then session_engine (\<lambda>_ s.
     and_then (lift_result (consistency_roots (ss_compiled s))) (\<lambda>rs.
     and_then (with_engine (run rs None never)) (\<lambda>_.
     and_then refresh_consistency (\<lambda>cs.
     and_then (set_stage CONSISTENCY) (\<lambda>_. done_with cs)))) s)"

definition ensure_consistency :: "consistency_state action" where
  "ensure_consistency s = (case ss_consistency s of
     Some cs \<Rightarrow> if CONSISTENCY \<le> ss_stage s then Some (Inr cs, s) else compute_consistency s
   | None \<Rightarrow> compute_consistency s)"

definition session_snapshot :: "saturation_snapshot action" where
  "session_snapshot s = with_engine (\<lambda>e. Some (snapshot (case ss_consistency s of
     None \<Rightarrow> False | Some cs \<Rightarrow> inconsistent_state cs) e, e)) s"

text \<open>Classification and realization saturate every root of one tag, once.\<close>

definition advance :: "expression_tag \<Rightarrow> stage \<Rightarrow> unit action" where
  "advance t g s = (if ss_stage s < g then
     and_then (with_engine (run (session_roots (ss_compiled s) t) None never)) (\<lambda>_.
     and_then refresh_consistency (\<lambda>_. set_stage g)) s
   else done_with () s)"

definition ensure_classified :: "saturation_snapshot action" where
  "ensure_classified = and_then ensure_consistency (\<lambda>_. and_then (advance TAG_CLASS CLASSIFIED) (\<lambda>_. session_snapshot))"

definition ensure_realized :: "saturation_snapshot action" where
  "ensure_realized = and_then ensure_classified (\<lambda>_. and_then (advance TAG_INDIVIDUAL REALIZED) (\<lambda>_. session_snapshot))"

definition saturate_roots :: "nat list \<Rightarrow> saturation_snapshot action" where
  "saturate_roots rs = and_then ensure_consistency (\<lambda>_. and_then (with_engine (run rs None never)) (\<lambda>_.
     and_then refresh_consistency (\<lambda>_. session_snapshot)))"

definition session_query_root :: "bytes \<Rightarrow> nat \<Rightarrow> frozen_context action" where
  "session_query_root key root = and_then ensure_consistency (\<lambda>_.
     and_then (with_engine (saturate_query_root key root)) (\<lambda>fz.
     and_then refresh_consistency (\<lambda>_. done_with fz)))"

text \<open>The keys bound to query roots.\<close>

definition session_queries :: "session \<Rightarrow> (bytes, nat) dict" where
  "session_queries s = (case ss_engine s of None \<Rightarrow> [] | Some e \<Rightarrow> query_roots e)"

lemma session_queries_simps [simp]: "ss_engine s = Some e \<Longrightarrow> session_queries s = query_roots e"
  by (simp add: session_queries_def)

section \<open>What every session keeps\<close>

definition session_inv :: "compiled_ontology \<Rightarrow> property_saturation \<Rightarrow> nat set \<Rightarrow> session \<Rightarrow> bool" where
  "session_inv co ps roots s \<longleftrightarrow> ss_compiled s = co \<and>
     (ss_properties s = None \<or> ss_properties s = Some ps) \<and>
     (case ss_engine s of
        None \<Rightarrow> roots = {} \<and> ss_consistency s = None
      | Some e \<Rightarrow> ss_properties s = Some ps \<and> at_rest co ps roots e \<and> active e = [] \<and>
          (\<forall>cs. ss_consistency s = Some cs \<longrightarrow> evaluate_consistency co ps (contexts e) = Inr cs)) \<and>
     (PROPERTIES \<le> ss_stage s \<longrightarrow> ss_properties s = Some ps) \<and>
     (CONSISTENCY \<le> ss_stage s \<longrightarrow> ss_consistency s \<noteq> None \<and>
        (\<forall>rs. consistency_roots co = Inr rs \<longrightarrow> set rs \<subseteq> roots)) \<and>
     (CLASSIFIED \<le> ss_stage s \<longrightarrow> set (session_roots co TAG_CLASS) \<subseteq> roots) \<and>
     (REALIZED \<le> ss_stage s \<longrightarrow> set (session_roots co TAG_INDIVIDUAL) \<subseteq> roots)"

lemma live_contexts_get:
  assumes "distinct (map fst (contexts e))"
  shows "dict_get (live_contexts e) r = dict_get (contexts e) r"
proof -
  have get: "map_of (List.map_filter (\<lambda>root. map_option (Pair root) (m root)) rs) r =
      (if r \<in> set rs then m r else None)" for m :: "nat \<Rightarrow> context_state option" and rs
    by (induction rs) (auto simp: List.map_filter_simps split: option.splits)
  have "r \<in> set (engine_roots e) \<longleftrightarrow> dict_get (contexts e) r \<noteq> None"
    by (auto simp: engine_roots_def map_of_eq_None_iff)
  then show ?thesis unfolding live_contexts_def get by auto
qed

lemma evaluate_consistency_cong:
  "(\<And>r. dict_get c r = dict_get d r) \<Longrightarrow> evaluate_consistency co ps c = evaluate_consistency co ps d"
  by (simp add: evaluate_consistency_def)

lemma session_roots_expressions: "set (session_roots co t) = {r. is_expression co r \<and> tag (expressions co ! r) = t}"
  by (force simp: session_roots_def is_expression_def in_set_enumerate_eq image_iff)

lemma class_setting_valid: "class_setting co ps \<Longrightarrow> valid_ontology co"
  by (simp add: class_setting_def saturated_view_def)

lemma properties_step:
  assumes "class_setting co ps" and "session_inv co ps roots s"
  obtains s' where "ensure_properties s = Some (Inr ps, s')" and "session_inv co ps roots s'"
    and "ss_properties s' = Some ps" and "ss_stage s' = max (ss_stage s) PROPERTIES"
    and "ss_engine s' = ss_engine s" and "ss_consistency s' = ss_consistency s"
proof -
  let ?s = "s\<lparr>ss_properties := Some ps, ss_stage := max (ss_stage s) PROPERTIES\<rparr>"
  have "ensure_properties s = Some (Inr ps, ?s)"
    using assms by (auto simp: ensure_properties_def session_inv_def class_setting_def saturated_view_def)
  moreover have "session_inv co ps roots ?s"
    using assms(2) by (auto simp: session_inv_def stage_order max_def split: option.splits)
  ultimately show ?thesis by (intro that [of ?s]) simp_all
qed

lemma engine_step:
  assumes "class_setting co ps" and "session_inv co ps roots s"
  obtains e s' where "session_engine s = Some (Inr e, s')" and "session_inv co ps roots s'"
    and "ss_properties s' = Some ps" and "ss_stage s' = max (ss_stage s) PROPERTIES"
    and "ss_engine s' = Some e" and "ss_consistency s' = ss_consistency s"
    and "at_rest co ps roots e" and "active e = []" and "ss_engine s \<noteq> None \<longrightarrow> ss_engine s = Some e"
    and "query_roots e = session_queries s"
proof -
  obtain s1 where s1: "ensure_properties s = Some (Inr ps, s1)" "session_inv co ps roots s1"
    "ss_properties s1 = Some ps" "ss_stage s1 = max (ss_stage s) PROPERTIES" "ss_engine s1 = ss_engine s"
    "ss_consistency s1 = ss_consistency s"
    by (rule properties_step [OF assms])
  show ?thesis
  proof (cases "ss_engine s1")
    case (Some e)
    have "session_engine s = Some (Inr e, s1)" by (simp add: session_engine_def and_then_def s1(1) Some)
    moreover have "at_rest co ps roots e" "active e = []" using s1(2) Some by (simp_all add: session_inv_def)
    moreover have "query_roots e = session_queries s" using s1(5) Some by (metis session_queries_simps)
    ultimately show ?thesis using that s1(2-4,6) Some s1(5) by metis
  next
    case None
    obtain e where e: "new_engine co ps = Inr e" "at_rest co ps {} e" "active e = []" "query_roots e = []"
      by (rule new_engine_at_rest [OF assms(1)])
    have roots: "roots = {}" "ss_consistency s1 = None" "ss_compiled s1 = co"
      using s1(2) None by (simp_all add: session_inv_def)
    have "session_inv co ps roots (s1\<lparr>ss_engine := Some e\<rparr>)"
      using s1(2,3) e None roots unfolding session_inv_def by simp
    moreover have "session_engine s = Some (Inr e, s1\<lparr>ss_engine := Some e\<rparr>)"
      by (simp add: session_engine_def and_then_def s1(1,3) None roots(3) e(1))
    moreover have "ss_engine s = None" using None s1(5) by simp
    moreover from this have "query_roots e = session_queries s" using e(4) by (simp add: session_queries_def)
    ultimately show ?thesis using s1(3,4,6) e roots(1)
      by (intro that [of e "s1\<lparr>ss_engine := Some e\<rparr>"]) simp_all
  qed
qed

lemma settled:
  assumes "ss_properties s = Some ps" and "max (ss_stage s) PROPERTIES = ss_stage s"
  shows "ensure_properties s = Some (Inr ps, s)"
    and "ss_engine s = Some e \<Longrightarrow> session_engine s = Some (Inr e, s)"
  using assms by (simp_all add: ensure_properties_def session_engine_def and_then_def)

text \<open>Every use of the engine is followed by a new evaluation of consistency.\<close>

lemma use_engine:
  assumes set: "class_setting co ps" and inv: "session_inv co ps roots s" and sub: "roots \<subseteq> roots'"
    and f: "\<And>e s'. session_engine s = Some (Inr e, s') \<Longrightarrow> at_rest co ps roots e \<Longrightarrow> active e = [] \<Longrightarrow>
      query_roots e = session_queries s \<Longrightarrow> \<exists>a e'. f e = Some (Inr a, e') \<and> at_rest co ps roots' e' \<and> active e' = [] \<and> Q a e'"
  obtains a cs e' s' where "and_then (with_engine f) (\<lambda>a. and_then refresh_consistency (k a)) s = k a cs s'"
    and "session_inv co ps roots' s'" and "ss_stage s' = max (ss_stage s) PROPERTIES"
    and "ss_engine s' = Some e'" and "ss_consistency s' = Some cs" and "Q a e'"
proof -
  obtain e s1 where s1: "session_engine s = Some (Inr e, s1)" "session_inv co ps roots s1"
    "ss_properties s1 = Some ps" "ss_stage s1 = max (ss_stage s) PROPERTIES" "ss_engine s1 = Some e"
    "ss_consistency s1 = ss_consistency s" "at_rest co ps roots e" "active e = []"
    "ss_engine s \<noteq> None \<longrightarrow> ss_engine s = Some e" "query_roots e = session_queries s"
    by (rule engine_step [OF set inv])
  obtain a e' where e': "f e = Some (Inr a, e')" "at_rest co ps roots' e'" "active e' = []" "Q a e'"
    using f [OF s1(1,7,8,10)] by blast
  let ?s = "s1\<lparr>ss_engine := Some e'\<rparr>"
  have co: "ss_compiled s1 = co" using s1(2) by (simp add: session_inv_def)
  have stage: "max (ss_stage s1) PROPERTIES = ss_stage s1" by (simp add: s1(4))
  have valid: "valid_ontology co" by (rule class_settingE [OF set])
  obtain t where "owl_thing_root co = Inr t" by (rule owl_thing_root_total [OF valid])
  then obtain cs where cs: "evaluate_consistency co ps (contexts e') = Inr cs"
    by (rule evaluate_consistency_total [OF set])
  have "distinct (map fst (contexts e'))"
    using e'(2) engine_invD(2) struct_invD(2) unfolding at_rest_def by blast
  then have live: "evaluate_consistency co ps (live_contexts e') = Inr cs"
    using cs evaluate_consistency_cong [of "live_contexts e'" "contexts e'"] live_contexts_get by metis
  have "and_then (with_engine f) (\<lambda>a. and_then refresh_consistency (k a)) s = k a cs (?s\<lparr>ss_consistency := Some cs\<rparr>)"
    using settled(1) [of ?s ps] settled(2) [of ?s ps e'] s1(1,3) co e'(1) live stage
    by (simp add: with_engine_def and_then_def refresh_consistency_def session_evaluate_consistency_def)
  moreover have "session_inv co ps roots' (?s\<lparr>ss_consistency := Some cs\<rparr>)"
    using s1(1-8) e' cs sub unfolding session_inv_def by (auto simp: Let_def)
  ultimately show ?thesis using s1(4) e'(4) by (intro that [of a cs "?s\<lparr>ss_consistency := Some cs\<rparr>" e']) simp_all
qed

section \<open>The operations on a session that keeps the invariant\<close>

lemma run_uses:
  assumes "\<forall>r \<in> set rs. is_expression co r" and "at_rest co ps roots e" and "active e = []"
  shows "\<exists>snap e'. run rs None never e = Some (Inr snap, e') \<and> at_rest co ps (roots \<union> set rs) e' \<and> active e' = [] \<and>
    snapshot False e' = Inr snap \<and> query_roots e' = query_roots e"
proof -
  obtain snap e' where "run rs None never e = Some (Inr snap, e')" "at_rest co ps (roots \<union> set rs) e'"
    "snapshot False e' = Inr snap" "active e' = []" "query_roots e' = query_roots e"
    by (rule run_unlimited [OF assms(2,1)])
  then show ?thesis by blast
qed

lemma roots_expressions:
  assumes "session_inv co ps roots s"
  shows "\<forall>r \<in> roots. is_expression co r"
  using assms engine_invD(5) unfolding session_inv_def at_rest_def by (auto split: option.splits)

lemma consistency_step:
  assumes set: "class_setting co ps" and inv: "session_inv co ps roots s" and rs: "consistency_roots co = Inr rs"
  obtains cs s' where "ensure_consistency s = Some (Inr cs, s')" and "session_inv co ps (roots \<union> set rs) s'"
    and "ss_stage s' = max (ss_stage s) CONSISTENCY" and "ss_consistency s' = Some cs"
    and "CONSISTENCY \<le> ss_stage s \<longrightarrow> s' = s" and "session_queries s' = session_queries s"
proof (cases "CONSISTENCY \<le> ss_stage s")
  case True
  then obtain cs where cs: "ss_consistency s = Some cs" and sub: "set rs \<subseteq> roots"
    using inv rs unfolding session_inv_def by blast
  have "ensure_consistency s = Some (Inr cs, s)" using cs True by (simp add: ensure_consistency_def)
  moreover have "session_inv co ps (roots \<union> set rs) s" using inv sub by (simp add: Un_absorb2)
  ultimately show ?thesis using cs True by (intro that [of cs s]) simp_all
next
  case False
  have exprs: "\<forall>r \<in> set rs. is_expression co r"
    using consistency_roots_total [OF class_setting_valid [OF set]] rs by (metis sum.inject(2))
  obtain e s1 where s1: "session_engine s = Some (Inr e, s1)" "session_inv co ps roots s1"
    "ss_properties s1 = Some ps" "ss_stage s1 = max (ss_stage s) PROPERTIES" "ss_engine s1 = Some e"
    "ss_consistency s1 = ss_consistency s" "at_rest co ps roots e" "active e = []"
    "ss_engine s \<noteq> None \<longrightarrow> ss_engine s = Some e" "query_roots e = session_queries s"
    by (rule engine_step [OF set inv])
  have co: "ss_compiled s1 = co" using s1(2) by (simp add: session_inv_def)
  obtain a cs e' s' where s': "and_then (with_engine (run rs None never))
      (\<lambda>_. and_then refresh_consistency (\<lambda>cs. and_then (set_stage CONSISTENCY) (\<lambda>_. done_with cs))) s1 =
      and_then (set_stage CONSISTENCY) (\<lambda>_. done_with cs) s'"
    "session_inv co ps (roots \<union> set rs) s'" "ss_stage s' = max (ss_stage s1) PROPERTIES"
    "ss_engine s' = Some e'" "ss_consistency s' = Some cs" "query_roots e' = session_queries s1"
    by (rule use_engine [OF set s1(2) Un_upper1, of "run rs None never" "set rs" "\<lambda>_ e'. query_roots e' = session_queries s1"
          "\<lambda>_ cs. and_then (set_stage CONSISTENCY) (\<lambda>_. done_with cs)"])
      (use run_uses [OF exprs] in metis)
  have "ensure_consistency s = compute_consistency s"
    using False by (simp add: ensure_consistency_def split: option.split)
  also have "\<dots> = Some (Inr cs, s'\<lparr>ss_stage := CONSISTENCY\<rparr>)"
    using s'(1) s1(1) co rs by (simp add: compute_consistency_def and_then_def lift_result_def set_stage_def done_with_def)
  finally have "ensure_consistency s = Some (Inr cs, s'\<lparr>ss_stage := CONSISTENCY\<rparr>)" .
  moreover have "ss_properties s' = Some ps"
    using s'(2,4) by (simp add: session_inv_def)
  then have "session_inv co ps (roots \<union> set rs) (s'\<lparr>ss_stage := CONSISTENCY\<rparr>)"
    using s'(2,5) rs unfolding session_inv_def by (auto simp: stage_order split: option.splits)
  moreover have "max (ss_stage s) CONSISTENCY = CONSISTENCY" using False by simp
  moreover have "session_queries (s'\<lparr>ss_stage := CONSISTENCY\<rparr>) = session_queries s"
    using s'(4,6) s1(5,10) by simp
  ultimately show ?thesis using s'(5) False by (intro that [of cs "s'\<lparr>ss_stage := CONSISTENCY\<rparr>"]) simp_all
qed

definition advances :: "expression_tag \<Rightarrow> stage \<Rightarrow> stage \<Rightarrow> bool" where
  "advances t now g \<longleftrightarrow> t = TAG_CLASS \<and> g = CLASSIFIED \<and> CONSISTENCY \<le> now \<or>
     t = TAG_INDIVIDUAL \<and> g = REALIZED \<and> CLASSIFIED \<le> now"

lemma advance_step:
  assumes set: "class_setting co ps" and inv: "session_inv co ps roots s" and adv: "advances t (ss_stage s) g"
  obtains s' where "advance t g s = Some (Inr (), s')" and "session_inv co ps (roots \<union> set (session_roots co t)) s'"
    and "ss_stage s' = max (ss_stage s) g" and "g \<le> ss_stage s \<longrightarrow> s' = s"
proof (cases "g \<le> ss_stage s")
  case True
  then have "set (session_roots co t) \<subseteq> roots"
    using inv adv unfolding session_inv_def advances_def by blast
  with True inv show ?thesis
    by (intro that [of s]) (simp_all add: advance_def done_with_def Un_absorb2 max_def leD)
next
  case False
  have exprs: "\<forall>r \<in> set (session_roots co t). is_expression co r" by (simp add: session_roots_expressions)
  have co: "ss_compiled s = co" using inv by (simp add: session_inv_def)
  obtain a cs e' s' where s': "and_then (with_engine (run (session_roots co t) None never))
      (\<lambda>_. and_then refresh_consistency (\<lambda>_. set_stage g)) s = set_stage g s'"
    "session_inv co ps (roots \<union> set (session_roots co t)) s'" "ss_stage s' = max (ss_stage s) PROPERTIES"
    "ss_engine s' = Some e'" "ss_consistency s' = Some cs" "True"
    by (rule use_engine [OF set inv Un_upper1, of "run (session_roots co t) None never" "set (session_roots co t)"
          "\<lambda>_ _. True" "\<lambda>_ _. set_stage g"])
      (use run_uses [OF exprs] in blast)
  have "max (ss_stage s) PROPERTIES = ss_stage s"
    using adv by (auto simp: advances_def stage_order max_def)
  with s'(3) have stage: "ss_stage s' = ss_stage s" by simp
  have "session_inv co ps (roots \<union> set (session_roots co t)) (s'\<lparr>ss_stage := g\<rparr>)"
    using s'(2,5) adv stage inv unfolding session_inv_def advances_def by (auto simp: stage_order split: option.splits)
  moreover have "advance t g s = Some (Inr (), s'\<lparr>ss_stage := g\<rparr>)"
    using False co s'(1) by (simp add: advance_def set_stage_def not_le)
  ultimately show ?thesis using False by (intro that [of "s'\<lparr>ss_stage := g\<rparr>"]) simp_all
qed

lemma snapshot_step:
  assumes set: "class_setting co ps" and inv: "session_inv co ps roots s" and stage: "CONSISTENCY \<le> ss_stage s"
  obtains snap cs e where "session_snapshot s = Some (Inr snap, s)" and "ss_consistency s = Some cs"
    and "ss_engine s = Some e" and "snapshot (inconsistent_state cs) e = Inr snap"
    and "at_rest co ps roots e" and "active e = []" and "evaluate_consistency co ps (contexts e) = Inr cs"
proof -
  obtain cs where cs: "ss_consistency s = Some cs" using inv stage unfolding session_inv_def by blast
  have props: "ss_properties s = Some ps" "max (ss_stage s) PROPERTIES = ss_stage s"
    using inv stage by (auto simp: session_inv_def stage_order max_def)
  obtain e where e: "ss_engine s = Some e" "at_rest co ps roots e" "active e = []"
    "evaluate_consistency co ps (contexts e) = Inr cs"
    using inv cs by (auto simp: session_inv_def split: option.splits)
  have inv_e: "engine_inv co ps roots e" using e(2) by (simp add: at_rest_def)
  obtain snap where snap: "snapshot (inconsistent_state cs) e = Inr snap"
    using snapshot_total [OF set struct_invD(1) [OF engine_invD(2) [OF inv_e]], of "inconsistent_state cs"] by metis
  have "session_snapshot s = Some (Inr snap, s)"
    using settled(2) [OF props e(1)] cs snap e(1) by (simp add: session_snapshot_def with_engine_def and_then_def)
  with cs e snap show ?thesis by (intro that)
qed

end
