(* ===== verification/Session_Results.thy ===== *)
theory Session_Results
  imports Session
begin

text \<open>What a session returns after any history of calls.\<close>

section \<open>The composed operations\<close>

lemma and_then_steps [simp]:
  "m s = Some (Inr a, s') \<Longrightarrow> and_then m k s = k a s'"
  "m s = Some (Inl x, s') \<Longrightarrow> and_then m k s = Some (Inl x, s')"
  by (simp_all add: and_then_def)

lemma classified_step:
  assumes set: "class_setting co ps" and inv: "session_inv co ps roots s" and rs: "consistency_roots co = Inr rs"
  obtains snap s' where "ensure_classified s = Some (Inr snap, s')" and "session_snapshot s' = Some (Inr snap, s')"
    and "session_inv co ps (roots \<union> set rs \<union> set (session_roots co TAG_CLASS)) s'"
    and "ss_stage s' = max (ss_stage s) CLASSIFIED" and "CLASSIFIED \<le> ss_stage s \<longrightarrow> s' = s"
proof -
  obtain cs s1 where s1: "ensure_consistency s = Some (Inr cs, s1)" "session_inv co ps (roots \<union> set rs) s1"
    "ss_stage s1 = max (ss_stage s) CONSISTENCY" "ss_consistency s1 = Some cs" "CONSISTENCY \<le> ss_stage s \<longrightarrow> s1 = s"
    by (rule consistency_step [OF set inv rs])
  have "advances TAG_CLASS (ss_stage s1) CLASSIFIED" using s1(3) by (simp add: advances_def)
  then obtain s2 where s2: "advance TAG_CLASS CLASSIFIED s1 = Some (Inr (), s2)"
    "session_inv co ps (roots \<union> set rs \<union> set (session_roots co TAG_CLASS)) s2"
    "ss_stage s2 = max (ss_stage s1) CLASSIFIED" "CLASSIFIED \<le> ss_stage s1 \<longrightarrow> s2 = s1"
    by (rule advance_step [OF set s1(2)])
  have stage: "ss_stage s2 = max (ss_stage s) CLASSIFIED" using s1(3) s2(3) by (simp add: stage_order max_def)
  then have "CONSISTENCY \<le> ss_stage s2" by (simp add: stage_order max_def)
  then obtain snap where snap: "session_snapshot s2 = Some (Inr snap, s2)"
    by (rule snapshot_step [OF set s2(2)])
  have "s2 = s" if "CLASSIFIED \<le> ss_stage s"
    using that s1(3,5) s2(4) by (simp add: stage_order max_def)
  with s1(1) s2(1,2) snap stage show ?thesis by (intro that [of snap s2]) (simp_all add: ensure_classified_def)
qed

lemma realized_step:
  assumes set: "class_setting co ps" and inv: "session_inv co ps roots s" and rs: "consistency_roots co = Inr rs"
  obtains snap s' where "ensure_realized s = Some (Inr snap, s')" and "session_snapshot s' = Some (Inr snap, s')"
    and "session_inv co ps (roots \<union> set rs \<union> set (session_roots co TAG_CLASS) \<union> set (session_roots co TAG_INDIVIDUAL)) s'"
    and "ss_stage s' = REALIZED" and "ss_stage s = REALIZED \<longrightarrow> s' = s"
proof -
  obtain snap1 s1 where s1: "ensure_classified s = Some (Inr snap1, s1)"
    "session_inv co ps (roots \<union> set rs \<union> set (session_roots co TAG_CLASS)) s1"
    "ss_stage s1 = max (ss_stage s) CLASSIFIED" "CLASSIFIED \<le> ss_stage s \<longrightarrow> s1 = s"
    by (rule classified_step [OF set inv rs])
  have "advances TAG_INDIVIDUAL (ss_stage s1) REALIZED" using s1(3) by (simp add: advances_def)
  then obtain s2 where s2: "advance TAG_INDIVIDUAL REALIZED s1 = Some (Inr (), s2)"
    "session_inv co ps (roots \<union> set rs \<union> set (session_roots co TAG_CLASS) \<union> set (session_roots co TAG_INDIVIDUAL)) s2"
    "ss_stage s2 = max (ss_stage s1) REALIZED" "REALIZED \<le> ss_stage s1 \<longrightarrow> s2 = s1"
    by (rule advance_step [OF set s1(2)])
  have stage: "ss_stage s2 = REALIZED"
    using s2(3) by (cases "ss_stage s1") (simp_all add: stage_order max_def)
  then have "CONSISTENCY \<le> ss_stage s2" by (simp add: stage_order)
  then obtain snap where snap: "session_snapshot s2 = Some (Inr snap, s2)"
    by (rule snapshot_step [OF set s2(2)])
  have "s2 = s" if "ss_stage s = REALIZED"
    using that s1(3,4) s2(4) by (simp add: stage_order max_def)
  with s1(1) s2(1,2) snap stage show ?thesis by (intro that [of snap s2]) (simp_all add: ensure_realized_def)
qed

text \<open>A refused engine call leaves the session as the consistency stage left it.\<close>

lemma refused_use:
  assumes "class_setting co ps" and "session_inv co ps roots s"
    and "\<And>e s'. session_engine s = Some (Inr e, s') \<Longrightarrow> at_rest co ps roots e \<Longrightarrow> active e = [] \<Longrightarrow>
      query_roots e = session_queries s \<Longrightarrow> f e = Some (Inl x, e)"
  obtains s' where "and_then (with_engine f) k s = Some (Inl x, s')" and "session_inv co ps roots s'"
    and "ss_stage s' = max (ss_stage s) PROPERTIES" and "session_queries s' = session_queries s"
proof -
  obtain e s' where s': "session_engine s = Some (Inr e, s')" "session_inv co ps roots s'"
    "ss_properties s' = Some ps" "ss_stage s' = max (ss_stage s) PROPERTIES" "ss_engine s' = Some e"
    "ss_consistency s' = ss_consistency s" "at_rest co ps roots e" "active e = []"
    "ss_engine s \<noteq> None \<longrightarrow> ss_engine s = Some e" "query_roots e = session_queries s"
    by (rule engine_step [OF assms(1,2)])
  have same: "s'\<lparr>ss_engine := Some e\<rparr> = s'" using s'(5) by simp
  have "with_engine f s = Some (Inl x, s')"
    using s'(1) assms(3) [OF s'(1,7,8,10)] same by (simp add: with_engine_def)
  then show ?thesis using s'(2,4,5,10) by (intro that [of s']) simp_all
qed

text \<open>A query is answered when its key is not empty and not bound to another root, and its root is an expression.\<close>

definition query_accepted :: "compiled_ontology \<Rightarrow> (bytes, nat) dict \<Rightarrow> bytes \<Rightarrow> nat \<Rightarrow> bool" where
  "query_accepted co bound key q \<longleftrightarrow> key \<noteq> [] \<and> is_expression co q \<and> (dict_get bound key = None \<or> dict_get bound key = Some q)"

lemma query_refused:
  assumes "at_rest co ps roots e" and "\<not> query_accepted co (query_roots e) key r"
  shows "saturate_query_root key r e = Some (Inl ValueError, e)"
proof -
  have inv: "engine_inv co ps roots e" using assms(1) by (simp add: at_rest_def)
  show ?thesis
    using assms(2) by (auto simp: query_accepted_def saturate_query_root_def checked_root_ok [OF engine_invD(1,2) [OF inv]])
qed

lemma query_answered:
  assumes rest: "at_rest co ps roots e" and ok: "query_accepted co (query_roots e) key r"
  shows "\<exists>fz e'. saturate_query_root key r e = Some (Inr fz, e') \<and> at_rest co ps (roots \<union> {r}) e' \<and> active e' = [] \<and>
    map_option freeze (dict_get (contexts e') r) = Some fz \<and> query_roots e' = dict_put key r (query_roots e)"
proof -
  note ok' = ok [unfolded query_accepted_def]
  let ?e = "e\<lparr>query_roots := dict_put key r (query_roots e)\<rparr>"
  have inv: "engine_inv co ps roots e" using rest by (simp add: at_rest_def)
  have rest': "at_rest co ps roots ?e" using rest by (simp add: at_rest_query_roots)
  have "\<forall>x \<in> set [r]. is_expression co x" using ok' by simp
  then obtain snap e' where e': "run [r] None never ?e = Some (Inr snap, e')" "at_rest co ps (roots \<union> set [r]) e'"
    "snapshot False e' = Inr snap" "active e' = []" "query_roots e' = query_roots ?e"
    "set [r] \<union> allocated ?e \<subseteq> allocated e'"
    by (rule run_unlimited [OF rest'])
  from e'(6) obtain st where "dict_get (contexts e') r = Some st" by (auto simp: allocated_def)
  with ok' e' show ?thesis
    by (auto simp: saturate_query_root_def checked_root_ok [OF engine_invD(1,2) [OF inv]])
qed

section \<open>Histories\<close>

text \<open>
  \<open>session_reached co roots s\<close>: \<open>s\<close> is a session for \<open>co\<close> after some calls of its methods, which asked for
  the contexts of \<open>roots\<close>.
\<close>

inductive session_reached :: "compiled_ontology \<Rightarrow> nat set \<Rightarrow> session \<Rightarrow> bool" for co where
  created: "session_reached co {} (new_session co)"
| told: "session_reached co R s \<Longrightarrow> ensure_properties s = Some (out, s') \<Longrightarrow> session_reached co R s'"
| checked: "session_reached co R s \<Longrightarrow> consistency_roots co = Inr rs \<Longrightarrow>
    ensure_consistency s = Some (out, s') \<Longrightarrow> session_reached co (R \<union> set rs) s'"
| classified: "session_reached co R s \<Longrightarrow> consistency_roots co = Inr rs \<Longrightarrow>
    ensure_classified s = Some (out, s') \<Longrightarrow> session_reached co (R \<union> set rs \<union> set (session_roots co TAG_CLASS)) s'"
| realized: "session_reached co R s \<Longrightarrow> consistency_roots co = Inr rs \<Longrightarrow>
    ensure_realized s = Some (out, s') \<Longrightarrow>
    session_reached co (R \<union> set rs \<union> set (session_roots co TAG_CLASS) \<union> set (session_roots co TAG_INDIVIDUAL)) s'"
| saturated: "session_reached co R s \<Longrightarrow> consistency_roots co = Inr rs \<Longrightarrow>
    saturate_roots qs s = Some (out, s') \<Longrightarrow>
    session_reached co (R \<union> set rs \<union> (case out of Inl _ \<Rightarrow> {} | Inr _ \<Rightarrow> set qs)) s'"
| asked: "session_reached co R s \<Longrightarrow> consistency_roots co = Inr rs \<Longrightarrow>
    session_query_root key q s = Some (out, s') \<Longrightarrow>
    session_reached co (R \<union> set rs \<union> (case out of Inl _ \<Rightarrow> {} | Inr _ \<Rightarrow> {q})) s'"

lemma new_session_inv: "session_inv co ps {} (new_session co)"
  by (simp add: session_inv_def new_session_def stage_order)

lemma saturated_step:
  assumes set: "class_setting co ps" and inv: "session_inv co ps roots s" and rs: "consistency_roots co = Inr rs"
  obtains snap s' where "saturate_roots qs s = Some (Inr snap, s')" and "\<forall>q \<in> set qs. is_expression co q"
    and "session_inv co ps (roots \<union> set rs \<union> set qs) s'" and "ss_stage s' = max (ss_stage s) CONSISTENCY"
  | s' where "saturate_roots qs s = Some (Inl ValueError, s')" and "\<exists>q \<in> set qs. \<not> is_expression co q"
    and "session_inv co ps (roots \<union> set rs) s'" and "ss_stage s' = max (ss_stage s) CONSISTENCY"
proof -
  obtain cs s1 where s1: "ensure_consistency s = Some (Inr cs, s1)" "session_inv co ps (roots \<union> set rs) s1"
    "ss_stage s1 = max (ss_stage s) CONSISTENCY"
    by (rule consistency_step [OF set inv rs])
  have stage: "max (ss_stage s1) PROPERTIES = ss_stage s1"
    using s1(3) by (cases "ss_stage s") (simp_all add: stage_order max_def)
  show ?thesis
  proof (cases "\<forall>q \<in> set qs. is_expression co q")
    case True
    obtain a cs' e' s2 where s2: "and_then (with_engine (run qs None never))
        (\<lambda>_. and_then refresh_consistency (\<lambda>_. session_snapshot)) s1 = session_snapshot s2"
      "session_inv co ps (roots \<union> set rs \<union> set qs) s2" "ss_stage s2 = max (ss_stage s1) PROPERTIES"
      "ss_engine s2 = Some e'" "ss_consistency s2 = Some cs'" "True"
      by (rule use_engine [OF set s1(2) Un_upper1, of "run qs None never" "set qs" "\<lambda>_ _. True" "\<lambda>_ _. session_snapshot"])
        (use run_uses [OF True] in blast)
    have "CONSISTENCY \<le> ss_stage s2" using s1(3) s2(3) stage by simp
    then obtain snap where "session_snapshot s2 = Some (Inr snap, s2)" by (rule snapshot_step [OF set s2(2)])
    with s1 s2 stage True show ?thesis by (intro that(1) [of snap s2]) (simp_all add: saturate_roots_def)
  next
    case False
    then have bad: "\<exists>q \<in> set qs. \<not> is_expression co q" by blast
    obtain s2 where "and_then (with_engine (run qs None never)) (\<lambda>_. and_then refresh_consistency (\<lambda>_. session_snapshot)) s1 =
        Some (Inl ValueError, s2)"
      "session_inv co ps (roots \<union> set rs) s2" "ss_stage s2 = max (ss_stage s1) PROPERTIES"
      by (rule refused_use [OF set s1(2), of "run qs None never"]) (use run_refused [OF _ bad] in blast)
    with s1 stage bad show ?thesis by (intro that(2) [of s2]) (simp_all add: saturate_roots_def)
  qed
qed

lemma asked_step:
  assumes set: "class_setting co ps" and inv: "session_inv co ps roots s" and rs: "consistency_roots co = Inr rs"
  obtains fz e' s' where "session_query_root key q s = Some (Inr fz, s')" and "query_accepted co (session_queries s) key q"
    and "session_inv co ps (roots \<union> set rs \<union> {q}) s'" and "ss_stage s' = max (ss_stage s) CONSISTENCY"
    and "ss_engine s' = Some e'" and "map_option freeze (dict_get (contexts e') q) = Some fz"
    and "query_roots e' = dict_put key q (session_queries s)"
  | s' where "session_query_root key q s = Some (Inl ValueError, s')" and "\<not> query_accepted co (session_queries s) key q"
    and "session_inv co ps (roots \<union> set rs) s'" and "ss_stage s' = max (ss_stage s) CONSISTENCY"
    and "session_queries s' = session_queries s"
proof -
  obtain cs s1 where s1: "ensure_consistency s = Some (Inr cs, s1)" "session_inv co ps (roots \<union> set rs) s1"
    "ss_stage s1 = max (ss_stage s) CONSISTENCY" "ss_consistency s1 = Some cs"
    "CONSISTENCY \<le> ss_stage s \<longrightarrow> s1 = s" "session_queries s1 = session_queries s"
    by (rule consistency_step [OF set inv rs])
  have stage: "max (ss_stage s1) PROPERTIES = ss_stage s1"
    using s1(3) by (cases "ss_stage s") (simp_all add: stage_order max_def)
  show ?thesis
  proof (cases "query_accepted co (session_queries s) key q")
    case True
    let ?Q = "\<lambda>fz e'. map_option freeze (dict_get (contexts e') q) = Some fz \<and> query_roots e' = dict_put key q (session_queries s)"
    have f: "\<exists>fz e'. saturate_query_root key q e = Some (Inr fz, e') \<and> at_rest co ps (roots \<union> set rs \<union> {q}) e' \<and> active e' = [] \<and> ?Q fz e'"
      if "at_rest co ps (roots \<union> set rs) e" "query_roots e = session_queries s1" for e
      using query_answered [OF that(1), of key q] True by (simp add: that(2) s1(6))
    obtain fz cs' e' s2 where s2: "and_then (with_engine (saturate_query_root key q))
        (\<lambda>fz. and_then refresh_consistency (\<lambda>_. done_with fz)) s1 = done_with fz s2"
      "session_inv co ps (roots \<union> set rs \<union> {q}) s2" "ss_stage s2 = max (ss_stage s1) PROPERTIES"
      "ss_engine s2 = Some e'" "ss_consistency s2 = Some cs'" "?Q fz e'"
      by (rule use_engine [OF set s1(2) Un_upper1, of "saturate_query_root key q" "{q}" ?Q "\<lambda>fz _. done_with fz"])
        (rule f)
    with s1 stage True show ?thesis
      by (intro that(1) [of fz s2 e']) (simp_all add: session_query_root_def done_with_def)
  next
    case False
    have f: "saturate_query_root key q e = Some (Inl ValueError, e)"
      if "at_rest co ps (roots \<union> set rs) e" "query_roots e = session_queries s1" for e
      by (rule query_refused [OF that(1)]) (simp add: that(2) s1(6) False)
    obtain s2 where "and_then (with_engine (saturate_query_root key q))
        (\<lambda>fz. and_then refresh_consistency (\<lambda>_. done_with fz)) s1 = Some (Inl ValueError, s2)"
      "session_inv co ps (roots \<union> set rs) s2" "ss_stage s2 = max (ss_stage s1) PROPERTIES" "session_queries s2 = session_queries s1"
      by (rule refused_use [OF set s1(2), of "saturate_query_root key q"]) (rule f)
    with s1 stage False show ?thesis by (intro that(2) [of s2]) (simp_all add: session_query_root_def)
  qed
qed

lemma reached_inv:
  assumes set: "class_setting co ps" and "session_reached co roots s"
  shows "session_inv co ps roots s"
  using assms(2)
proof (induction rule: session_reached.induct)
  case created
  show ?case by (rule new_session_inv)
next
  case (told R s out s')
  from properties_step [OF set told.IH] told.hyps(2) show ?case by (metis option.inject prod.inject)
next
  case (checked R s rs out s')
  from consistency_step [OF set checked.IH checked.hyps(2)] checked.hyps(3) show ?case
    by (metis option.inject prod.inject)
next
  case (classified R s rs out s')
  from classified_step [OF set classified.IH classified.hyps(2)] classified.hyps(3) show ?case
    by (metis option.inject prod.inject)
next
  case (realized R s rs out s')
  from realized_step [OF set realized.IH realized.hyps(2)] realized.hyps(3) show ?case
    by (metis option.inject prod.inject)
next
  case (saturated R s rs qs out s')
  from saturated_step [OF set saturated.IH saturated.hyps(2), of qs] saturated.hyps(3) show ?case
    by cases auto
next
  case (asked R s rs key q out s')
  from asked_step [OF set asked.IH asked.hyps(2), of key q] asked.hyps(3) show ?case
    by cases auto
qed

section \<open>Results\<close>

lemma usable_setting:
  assumes "usable_ontology co" and "session_reached co roots s"
  obtains ps t rs where "saturate_properties co = Some (Inr ps)" and "class_setting co ps"
    and "session_inv co ps roots s" and "owl_thing_root co = Inr t" and "consistency_roots co = Inr rs"
    and "set rs = insert t (set (occurring_individual_roots co))" and "\<forall>r \<in> set rs. is_expression co r"
proof -
  obtain ps where ps: "saturate_properties co = Some (Inr ps)" "class_setting co ps"
    by (rule used_setting [OF assms(1)])
  obtain t rs where "owl_thing_root co = Inr t" "consistency_roots co = Inr rs"
    "set rs = insert t (set (occurring_individual_roots co))" "\<forall>r \<in> set rs. is_expression co r"
    by (rule consistency_roots_total [OF class_setting_valid [OF ps(2)]])
  with ps reached_inv [OF ps(2) assms(2)] show ?thesis by (intro that)
qed

lemma snapshot_flag: "snapshot b e = rmap (\<lambda>snap. snap\<lparr>snap_inconsistent_ontology := b\<rparr>) (snapshot False e)"
  by (auto simp: snapshot_def Let_def rbind_def split: sum.splits)

text \<open>An idle engine's context is inconsistent exactly when that is derivable.\<close>

lemma idle_inconsistent:
  assumes "at_rest co ps roots e" and "active e = []"
  shows "context_inconsistent (dict_get (contexts e) r) \<longleftrightarrow> ClassInconsistency r \<in> derivable co ps roots"
proof (cases "dict_get (contexts e) r")
  case None
  have inv: "engine_inv co ps roots e" using assms(1) by (simp add: at_rest_def)
  have "ClassInconsistency r \<notin> derivable co ps roots"
  proof
    assume "ClassInconsistency r \<in> derivable co ps roots"
    then have "ClassInconsistency r \<in> all_known e" using all_stored_known idle_complete [OF assms] by blast
    then have "ClassInconsistency r \<in> known_of e r" using all_known_iff [OF engine_invD(2) [OF inv]] by auto
    then have "r \<in> allocated e" by (rule known_allocated)
    with None show False by (simp add: allocated_def)
  qed
  with None show ?thesis by (simp add: context_inconsistent_def)
next
  case (Some st)
  have "context_inv st" "ctx_root st = r" by (rule idle_context [OF assms Some])+
  then have "inconsistent st \<longleftrightarrow> ClassInconsistency r \<in> stored st"
    by (auto simp: context_inv_def views_inv_def Let_def)
  with Some idle_context_content(1) [OF assms Some] show ?thesis by (simp add: context_inconsistent_def)
qed

lemma decided:
  assumes set: "class_setting co ps" and inv: "session_inv co ps roots s" and rs: "consistency_roots co = Inr rs"
    and t: "owl_thing_root co = Inr t" "set rs = insert t (set (occurring_individual_roots co))"
  obtains cs s' tp bp where "ensure_consistency s = Some (Inr cs, s')" and "session_inv co ps (roots \<union> set rs) s'"
    and "is_object_property co tp" and "iri (entities co ! tp) = OWL_TOP_OBJECT_PROPERTY_IRI"
    and "is_object_property co bp" and "iri (entities co ! bp) = OWL_BOTTOM_OBJECT_PROPERTY_IRI"
    and "inconsistent_state cs \<longleftrightarrow> ([tp], [bp]) \<in> (told_chains co)\<^sup>* \<or>
      (\<exists>r \<in> set rs. ClassInconsistency r \<in> derivable co ps (roots \<union> set rs))"
proof -
  obtain cs s' where s': "ensure_consistency s = Some (Inr cs, s')" "session_inv co ps (roots \<union> set rs) s'"
    "ss_stage s' = max (ss_stage s) CONSISTENCY" "ss_consistency s' = Some cs"
    by (rule consistency_step [OF set inv rs])
  have "CONSISTENCY \<le> ss_stage s'" using s'(3) by simp
  then obtain snap cs' e where e: "session_snapshot s' = Some (Inr snap, s')" "ss_consistency s' = Some cs'"
    "ss_engine s' = Some e" "snapshot (inconsistent_state cs') e = Inr snap" "at_rest co ps (roots \<union> set rs) e"
    "active e = []" "evaluate_consistency co ps (contexts e) = Inr cs'"
    by (rule snapshot_step [OF set s'(2)])
  obtain cs2 tp bp where d: "evaluate_consistency co ps (contexts e) = Inr cs2"
    "is_object_property co tp" "iri (entities co ! tp) = OWL_TOP_OBJECT_PROPERTY_IRI"
    "is_object_property co bp" "iri (entities co ! bp) = OWL_BOTTOM_OBJECT_PROPERTY_IRI"
    "inconsistent_state cs2 \<longleftrightarrow> ([tp], [bp]) \<in> (told_chains co)\<^sup>* \<or>
      (\<exists>r \<in> insert t (set (occurring_individual_roots co)). context_inconsistent (dict_get (contexts e) r))"
    by (rule evaluate_consistency_total [OF set t(1)])
  have "cs2 = cs" using d(1) e(2,7) s'(4) by simp
  with d s'(1,2) show ?thesis
    by (intro that [of cs s' tp bp]) (simp_all add: t(2) idle_inconsistent [OF e(5,6)])
qed

text \<open>C15: After any history of calls, classification returns, and the snapshot is the one a new engine
  computes in a single run over all the roots asked for so far, the consistency roots and the class
  roots, up to the ontology-inconsistency flag.\<close>

theorem classified_as_if_fresh:
  assumes "usable_ontology co" and "session_reached co roots s" and "consistency_roots co = Inr rs"
    and "set all = roots \<union> set rs \<union> set (session_roots co TAG_CLASS)"
  shows "\<exists>snap s' e snap' e'. ensure_classified s = Some (Inr snap, s') \<and> CLASSIFIED \<le> ss_stage s' \<and>
    create_engine co = Some (Inr e) \<and> run all None never e = Some (Inr snap', e') \<and>
    snap = snap'\<lparr>snap_inconsistent_ontology := snap_inconsistent_ontology snap\<rparr>"
proof -
  obtain ps where ps: "saturate_properties co = Some (Inr ps)" "class_setting co ps" "session_inv co ps roots s"
    by (rule usable_setting [OF assms(1,2)])
  obtain snap s' where s': "ensure_classified s = Some (Inr snap, s')" "session_snapshot s' = Some (Inr snap, s')"
    "session_inv co ps (roots \<union> set rs \<union> set (session_roots co TAG_CLASS)) s'"
    "ss_stage s' = max (ss_stage s) CLASSIFIED"
    by (rule classified_step [OF ps(2,3) assms(3)])
  note inv = s'(3) [folded assms(4)]
  have stage: "CLASSIFIED \<le> ss_stage s'" "CONSISTENCY \<le> ss_stage s'"
    using s'(4) by (simp_all add: stage_order max_def)
  obtain snap2 cs e1 where e1: "session_snapshot s' = Some (Inr snap2, s')" "ss_consistency s' = Some cs"
    "ss_engine s' = Some e1" "snapshot (inconsistent_state cs) e1 = Inr snap2" "at_rest co ps (set all) e1" "active e1 = []"
    by (rule snapshot_step [OF ps(2) inv stage(2)])
  have "\<forall>r \<in> set all. is_expression co r" by (rule roots_expressions [OF inv])
  from fresh_run [OF assms(1) this] obtain e snap' e' where fresh: "create_engine co = Some (Inr e)"
    "run all None never e = Some (Inr snap', e')" "at_rest co ps (set all) e'" "active e' = []" "snapshot False e' = Inr snap'"
    using ps(1) by (metis option.inject sum.inject(2))
  have "snapshot (inconsistent_state cs) e1 = rmap (\<lambda>snap. snap\<lparr>snap_inconsistent_ontology := inconsistent_state cs\<rparr>) (Inr snap')"
    unfolding snapshot_flag [of "inconsistent_state cs"] fresh(5) [symmetric]
    by (simp add: idle_snapshot_canonical [OF e1(5,6) fresh(3,4)])
  then have "snap = snap'\<lparr>snap_inconsistent_ontology := inconsistent_state cs\<rparr>" using e1(1,4) s'(2) by simp
  with s'(1) stage(1) fresh(1,2) show ?thesis by (intro exI [of _ snap] exI [of _ s'] exI [of _ e] exI [of _ snap'] exI [of _ e']) simp
qed

text \<open>C16: A session's stages are reached once: realization ends in the last stage, and repeating it or
  asking for the classification afterwards returns the same snapshot and leaves the session as it is.\<close>

theorem realization_settles:
  assumes "usable_ontology co" and "session_reached co roots s"
  shows "\<exists>snap s'. ensure_realized s = Some (Inr snap, s') \<and> ss_stage s' = REALIZED \<and>
    ensure_realized s' = Some (Inr snap, s') \<and> ensure_classified s' = Some (Inr snap, s') \<and>
    session_snapshot s' = Some (Inr snap, s')"
proof -
  obtain ps t rs where ps: "saturate_properties co = Some (Inr ps)" "class_setting co ps" "session_inv co ps roots s"
    "owl_thing_root co = Inr t" "consistency_roots co = Inr rs"
    by (rule usable_setting [OF assms])
  obtain snap s' where s': "ensure_realized s = Some (Inr snap, s')" "session_snapshot s' = Some (Inr snap, s')"
    "session_inv co ps (roots \<union> set rs \<union> set (session_roots co TAG_CLASS) \<union> set (session_roots co TAG_INDIVIDUAL)) s'"
    "ss_stage s' = REALIZED"
    by (rule realized_step [OF ps(2,3,5)])
  from realized_step [OF ps(2) s'(3) ps(5)] s'(2,4) have "ensure_realized s' = Some (Inr snap, s')"
    by (metis option.inject prod.inject)
  moreover have "CLASSIFIED \<le> ss_stage s'" using s'(4) by (simp add: stage_order)
  with classified_step [OF ps(2) s'(3) ps(5)] s'(2) have "ensure_classified s' = Some (Inr snap, s')"
    by (metis option.inject prod.inject)
  ultimately show ?thesis using s'(1,2,4) by blast
qed

text \<open>C17: The ontology is reported inconsistent exactly when the top object property is told below the
  bottom one, through any number of axioms, or the inconsistency of \<open>owl:Thing\<close> or of an occurring
  individual follows by the inference rules.\<close>

theorem inconsistency_decided:
  assumes "usable_ontology co" and "session_reached co roots s" and "consistency_roots co = Inr rs"
  shows "\<exists>ps cs s' tp bp. saturate_properties co = Some (Inr ps) \<and> ensure_consistency s = Some (Inr cs, s') \<and>
    is_object_property co tp \<and> iri (entities co ! tp) = OWL_TOP_OBJECT_PROPERTY_IRI \<and>
    is_object_property co bp \<and> iri (entities co ! bp) = OWL_BOTTOM_OBJECT_PROPERTY_IRI \<and>
    (inconsistent_state cs \<longleftrightarrow> ([tp], [bp]) \<in> (told_chains co)\<^sup>* \<or>
      (\<exists>r \<in> set rs. ClassInconsistency r \<in> derivable co ps (roots \<union> set rs)))"
proof -
  obtain ps t rs' where ps: "saturate_properties co = Some (Inr ps)" "class_setting co ps" "session_inv co ps roots s"
    "owl_thing_root co = Inr t" "consistency_roots co = Inr rs'" "set rs' = insert t (set (occurring_individual_roots co))"
    by (rule usable_setting [OF assms(1,2)])
  with assms(3) have "set rs = insert t (set (occurring_individual_roots co))" by simp
  from decided [OF ps(2,3) assms(3) ps(4) this] ps(1) show ?thesis by metis
qed

lemma consistent_verdict:
  fixes I :: "'d interp"
  assumes "usable_ontology co" and "session_reached co roots s" and "property_ranges co = []" and "is_model co I"
  shows "\<exists>cs s'. ensure_consistency s = Some (Inr cs, s') \<and> \<not> inconsistent_state cs"
proof -
  obtain ps t rs where ps: "saturate_properties co = Some (Inr ps)" "class_setting co ps" "session_inv co ps roots s"
    "owl_thing_root co = Inr t" "consistency_roots co = Inr rs" "set rs = insert t (set (occurring_individual_roots co))"
    "\<forall>r \<in> set rs. is_expression co r"
    by (rule usable_setting [OF assms(1,2)])
  obtain cs s' tp bp where d: "ensure_consistency s = Some (Inr cs, s')" "session_inv co ps (roots \<union> set rs) s'"
    "is_object_property co tp" "iri (entities co ! tp) = OWL_TOP_OBJECT_PROPERTY_IRI"
    "is_object_property co bp" "iri (entities co ! bp) = OWL_BOTTOM_OBJECT_PROPERTY_IRI"
    "inconsistent_state cs \<longleftrightarrow> ([tp], [bp]) \<in> (told_chains co)\<^sup>* \<or>
      (\<exists>r \<in> set rs. ClassInconsistency r \<in> derivable co ps (roots \<union> set rs))"
    by (rule decided [OF ps(2,3,5,4,6)])
  have "ext I r = {}" if "ClassInconsistency r \<in> derivable co ps (roots \<union> set rs)" for r
    using derivable_sound [OF ps(2) assms(4,3) roots_expressions [OF d(2)] that] by simp
  with d(7) inconsistent_no_model [OF class_setting_valid [OF ps(2)] ps(4) d(3-6), of I] assms(4) ps(6)
  have "\<not> inconsistent_state cs" by auto
  with d(1) show ?thesis by blast
qed

text \<open>C18: Without declared property ranges, an ontology that has a model is never reported inconsistent.\<close>

theorem reported_inconsistency_sound:
  fixes I :: "'d interp"
  assumes "usable_ontology co" and "session_reached co roots s" and "property_ranges co = []" and "is_model co I"
  shows "\<exists>cs s'. ensure_consistency s = Some (Inr cs, s') \<and> \<not> inconsistent_state cs"
  by (rule consistent_verdict [OF assms])

text \<open>C19: After any history of calls, a query root is answered exactly when its key is not empty and not bound to
  another root and its root is an expression: the answer holds the derivable conclusions of the root's
  context, and the key is bound to the root from then on.  Any other query is refused with a \<open>ValueError\<close> and binds nothing.
  Either way the session has reached the consistency stage.\<close>

theorem query_root_answered:
  assumes "usable_ontology co" and "session_reached co roots s" and "consistency_roots co = Inr rs"
  shows "\<exists>ps s'. saturate_properties co = Some (Inr ps) \<and> ss_stage s' = max (ss_stage s) CONSISTENCY \<and>
    (if key \<noteq> [] \<and> is_expression co q \<and> (dict_get (session_queries s) key = None \<or> dict_get (session_queries s) key = Some q)
     then \<exists>fz. session_query_root key q s = Some (Inr fz, s') \<and> session_reached co (roots \<union> set rs \<union> {q}) s' \<and>
       set (fz_conclusions fz) = {c \<in> derivable co ps (roots \<union> set rs \<union> {q}). conclusion_destination c = q} \<and>
       session_queries s' = dict_put key q (session_queries s)
     else session_query_root key q s = Some (Inl ValueError, s') \<and> session_reached co (roots \<union> set rs) s' \<and>
       session_queries s' = session_queries s)"
  unfolding query_accepted_def [symmetric]
proof -
  obtain ps where ps: "saturate_properties co = Some (Inr ps)" "class_setting co ps" "session_inv co ps roots s"
    by (rule usable_setting [OF assms(1,2)])
  show "\<exists>ps s'. saturate_properties co = Some (Inr ps) \<and> ss_stage s' = max (ss_stage s) CONSISTENCY \<and>
    (if query_accepted co (session_queries s) key q
     then \<exists>fz. session_query_root key q s = Some (Inr fz, s') \<and> session_reached co (roots \<union> set rs \<union> {q}) s' \<and>
       set (fz_conclusions fz) = {c \<in> derivable co ps (roots \<union> set rs \<union> {q}). conclusion_destination c = q} \<and>
       session_queries s' = dict_put key q (session_queries s)
     else session_query_root key q s = Some (Inl ValueError, s') \<and> session_reached co (roots \<union> set rs) s' \<and>
       session_queries s' = session_queries s)"
  proof (rule asked_step [OF ps(2,3) assms(3), of key q], goal_cases)
    case (1 fz e' s')
    have "at_rest co ps (roots \<union> set rs \<union> {q}) e'" "active e' = []"
      using 1(3,5) by (simp_all add: session_inv_def)
    moreover from 1(6) obtain st where st: "dict_get (contexts e') q = Some st" "fz = freeze st" by auto
    ultimately have "set (fz_conclusions fz) = {c \<in> derivable co ps (roots \<union> set rs \<union> {q}). conclusion_destination c = q}"
      by (simp add: freeze_def sorted_conclusions_set idle_context_content(1))
    moreover have "session_reached co (roots \<union> set rs \<union> {q}) s'"
      using session_reached.asked [OF assms(2,3) 1(1)] by simp
    ultimately show ?case using ps(1) 1 by auto
  next
    case (2 s')
    with ps(1) session_reached.asked [OF assms(2,3) 2(1)] show ?case by auto
  qed
qed

section \<open>The example\<close>

lemma sample_consistency_roots: "consistency_roots sample_ontology = Inr [1]"
  by code_simp

lemma sample_class_roots: "set (session_roots sample_ontology TAG_CLASS) = {0, 1, 2, 3, 4}"
  by code_simp

theorem classified_as_if_fresh_witness:
  "\<exists>snap s' e snap' e'. ensure_classified (new_session sample_ontology) = Some (Inr snap, s') \<and>
    CLASSIFIED \<le> ss_stage s' \<and> create_engine sample_ontology = Some (Inr e) \<and>
    run [0, 1, 2, 3, 4] None never e = Some (Inr snap', e') \<and>
    snap = snap'\<lparr>snap_inconsistent_ontology := snap_inconsistent_ontology snap\<rparr>"
  by (rule classified_as_if_fresh [OF sample_usable session_reached.created sample_consistency_roots])
    (auto simp: sample_class_roots)

theorem realization_settles_witness:
  "\<exists>snap s'. ensure_realized (new_session sample_ontology) = Some (Inr snap, s') \<and> ss_stage s' = REALIZED \<and>
    ensure_realized s' = Some (Inr snap, s') \<and> ensure_classified s' = Some (Inr snap, s') \<and>
    session_snapshot s' = Some (Inr snap, s')"
  by (rule realization_settles [OF sample_usable session_reached.created])

theorem inconsistency_decided_witness:
  "\<exists>ps cs s' tp bp. saturate_properties sample_ontology = Some (Inr ps) \<and>
    ensure_consistency (new_session sample_ontology) = Some (Inr cs, s') \<and>
    is_object_property sample_ontology tp \<and> iri (entities sample_ontology ! tp) = OWL_TOP_OBJECT_PROPERTY_IRI \<and>
    is_object_property sample_ontology bp \<and> iri (entities sample_ontology ! bp) = OWL_BOTTOM_OBJECT_PROPERTY_IRI \<and>
    (inconsistent_state cs \<longleftrightarrow> ([tp], [bp]) \<in> (told_chains sample_ontology)\<^sup>* \<or>
      (\<exists>r \<in> set [1]. ClassInconsistency r \<in> derivable sample_ontology ps ({} \<union> set [1])))"
  by (rule inconsistency_decided [OF sample_usable session_reached.created sample_consistency_roots])

theorem reported_inconsistency_sound_witness:
  "\<exists>cs s'. ensure_consistency (new_session sample_ontology) = Some (Inr cs, s') \<and> \<not> inconsistent_state cs"
  by (rule reported_inconsistency_sound [OF sample_usable session_reached.created _ sample_is_model])
    (simp add: sample_ontology_def)

text \<open>The first query is answered; the same key with another root is then refused.\<close>

theorem query_root_answered_witness:
  "\<exists>ps fz s1 s2. saturate_properties sample_ontology = Some (Inr ps) \<and>
    session_query_root [7] 2 (new_session sample_ontology) = Some (Inr fz, s1) \<and>
    set (fz_conclusions fz) = {c \<in> derivable sample_ontology ps {1, 2}. conclusion_destination c = 2} \<and>
    session_query_root [7] 3 s1 = Some (Inl ValueError, s2) \<and> session_queries s2 = [([7], 2)]"
proof -
  have e: "is_expression sample_ontology 2" by (simp add: is_expression_def sample_ontology_def sample_expressions_def)
  have unbound: "session_queries (new_session sample_ontology) = []" by (simp add: session_queries_def new_session_def)
  obtain ps fz s1 where s1: "saturate_properties sample_ontology = Some (Inr ps)"
    "session_query_root [7] 2 (new_session sample_ontology) = Some (Inr fz, s1)" "session_reached sample_ontology ({} \<union> set [1] \<union> {2}) s1"
    "set (fz_conclusions fz) = {c \<in> derivable sample_ontology ps ({} \<union> set [1] \<union> {2}). conclusion_destination c = 2}"
    "session_queries s1 = [([7], 2)]"
    using query_root_answered [OF sample_usable session_reached.created sample_consistency_roots, of "[7]" 2] e by (auto simp: unbound)
  obtain s2 where "session_query_root [7] 3 s1 = Some (Inl ValueError, s2)" "session_queries s2 = [([7], 2)]"
    using query_root_answered [OF sample_usable s1(3) sample_consistency_roots, of "[7]" 3] by (auto simp: s1(5))
  with s1 show ?thesis by (auto simp: insert_commute)
qed

end
