(* ===== verification/Reduction.thy ===== *)
theory Reduction
  imports Prelude
begin

unbundle bit_operations_syntax

text \<open>
  \<open>src/pyelk/reasoning/reduction.py\<close>: the quotient of a relation by mutual reachability and the
  transitive reduction of the acyclic rest.  Byte arrays of flags are sets of flagged nodes; a worklist
  that is popped at its end is a list whose head is that end; a heap is the sorted list of its entries.
  The searches are loops that may not end, \<open>None\<close> then; the adjacency rows are indexed by the nodes
  \<open>0, ..., n - 1\<close> and hold such nodes, which the callers in this file ensure.
\<close>

section \<open>Reduced graphs\<close>

record reduced_graph =
  rg_nodes :: "nat list list"
  rg_direct_edges :: "(nat \<times> nat) list"

text \<open>The index pairs are checked one by one against the previous one.\<close>

fun validated_edges_from :: "nat \<Rightarrow> (nat \<times> nat) option \<Rightarrow> (nat \<times> nat) list \<Rightarrow> unit result" where
  "validated_edges_from n previous [] = Inr ()"
| "validated_edges_from n previous (edge # edges) = (case edge of (sub, super) \<Rightarrow>
     if \<not> (sub < n \<and> super < n) then Inl ValueError
     else if sub = super then Inl ValueError
     else if (case previous of None \<Rightarrow> False | Some p \<Rightarrow> edge \<le> p) then Inl ValueError
     else validated_edges_from n (Some edge) edges)"

definition validated_edges :: "nat \<Rightarrow> (nat \<times> nat) list \<Rightarrow> (nat \<times> nat) list result" where
  "validated_edges n edges = rmap (\<lambda>_. edges) (validated_edges_from n None edges)"

definition reduced_graph_check :: "reduced_graph \<Rightarrow> unit result" where
  "reduced_graph_check g = checks [
     rassert (\<forall>node \<in> set (rg_nodes g). node \<noteq> []) ValueError,
     rassert (\<forall>node \<in> set (rg_nodes g). strictly_sorted node) ValueError,
     rassert (strictly_sorted (rg_nodes g)) ValueError,
     rassert (distinct (concat (rg_nodes g))) ValueError,
     rmap (\<lambda>_. ()) (validated_edges (length (rg_nodes g)) (rg_direct_edges g))]"

definition new_reduced_graph :: "nat list list \<Rightarrow> (nat \<times> nat) list \<Rightarrow> reduced_graph result" where
  "new_reduced_graph nodes direct = (let g = \<lparr>rg_nodes = nodes, rg_direct_edges = direct\<rparr> in
     rmap (\<lambda>_. g) (reduced_graph_check g))"

definition node_for :: "reduced_graph \<Rightarrow> nat \<Rightarrow> nat option" where
  "node_for g member = find_index (\<lambda>node. member \<in> set node) (rg_nodes g)"

section \<open>Strong components\<close>

text \<open>A stack entry is a node with the position of its next successor.\<close>

definition top_successor :: "nat list list \<Rightarrow> (nat \<times> nat) list \<Rightarrow> nat" where
  "top_successor adjacency stack = (case hd stack of (node, position) \<Rightarrow> adjacency ! node ! position)"

definition advance_top :: "(nat \<times> nat) list \<Rightarrow> (nat \<times> nat) list" where
  "advance_top stack = (case hd stack of (node, position) \<Rightarrow> (node, position + 1) # tl stack)"

partial_function (option) explore ::
    "nat list list \<Rightarrow> nat set \<Rightarrow> nat list \<Rightarrow> (nat \<times> nat) list \<Rightarrow> (nat set \<times> nat list) option" where
  "explore adjacency visited finished stack =
     (if stack = [] then Some (visited, finished)
      else if snd (hd stack) = length (adjacency ! fst (hd stack))
      then explore adjacency visited (finished @ [fst (hd stack)]) (tl stack)
      else if top_successor adjacency stack \<in> visited
      then explore adjacency visited finished (advance_top stack)
      else explore adjacency (insert (top_successor adjacency stack) visited) finished
        ((top_successor adjacency stack, 0) # advance_top stack))"

fun explore_all :: "nat list list \<Rightarrow> nat list \<Rightarrow> nat set \<Rightarrow> nat list \<Rightarrow> nat list option" where
  "explore_all adjacency [] visited finished = Some finished"
| "explore_all adjacency (start # starts) visited finished =
     (if start \<in> visited then explore_all adjacency starts visited finished
      else (case explore adjacency (insert start visited) finished [(start, 0)] of
         None \<Rightarrow> None
       | Some (visited, finished) \<Rightarrow> explore_all adjacency starts visited finished))"

definition finishing_order :: "nat list list \<Rightarrow> nat list option" where
  "finishing_order adjacency = explore_all adjacency [0..<length adjacency] {} []"

fun assign_unassigned :: "nat list \<Rightarrow> nat set \<Rightarrow> nat list \<Rightarrow> nat set \<times> nat list" where
  "assign_unassigned [] assigned pending = (assigned, pending)"
| "assign_unassigned (p # ps) assigned pending =
     (if p \<in> assigned then assign_unassigned ps assigned pending
      else assign_unassigned ps (insert p assigned) (p # pending))"

partial_function (option) collect ::
    "nat list list \<Rightarrow> nat set \<Rightarrow> nat list \<Rightarrow> nat list \<Rightarrow> (nat set \<times> nat list) option" where
  "collect backward assigned component pending =
     (if pending = [] then Some (assigned, component)
      else (case assign_unassigned (rev (backward ! hd pending)) assigned (tl pending) of
        (assigned, rest) \<Rightarrow> collect backward assigned (component @ [hd pending]) rest))"

fun collect_all :: "nat list list \<Rightarrow> nat list \<Rightarrow> nat set \<Rightarrow> nat list list \<Rightarrow> nat list list option" where
  "collect_all backward [] assigned components = Some components"
| "collect_all backward (start # starts) assigned components =
     (if start \<in> assigned then collect_all backward starts assigned components
      else (case collect backward (insert start assigned) [] [start] of
         None \<Rightarrow> None
       | Some (assigned, component) \<Rightarrow> collect_all backward starts assigned (components @ [sort component])))"

definition strong_components :: "nat list list \<Rightarrow> nat list list \<Rightarrow> nat list list option" where
  "strong_components adjacency backward = (case finishing_order adjacency of
     None \<Rightarrow> None
   | Some finished \<Rightarrow> collect_all backward (rev finished) {} [])"

section \<open>Topological order\<close>

text \<open>
  Indegrees are Python integers.  The worklist of free nodes is a heap here and a deque where taxonomies are
  validated (\<open>contracts.py\<close>); \<open>push\<close> is what the two do with a new node.
\<close>

definition release_successor ::
    "(nat \<Rightarrow> nat list \<Rightarrow> nat list) \<Rightarrow> nat \<Rightarrow> int list \<times> nat list \<Rightarrow> int list \<times> nat list" where
  "release_successor push successor s = (case s of (indegrees, ready) \<Rightarrow>
     let indegrees = indegrees[successor := indegrees ! successor - 1] in
     (indegrees, if indegrees ! successor = 0 then push successor ready else ready))"

partial_function (option) kahn ::
    "(nat \<Rightarrow> nat list \<Rightarrow> nat list) \<Rightarrow> nat list list \<Rightarrow> int list \<Rightarrow> nat list \<Rightarrow> nat list \<Rightarrow> nat list option" where
  "kahn push adjacency indegrees ready ordered =
     (if ready = [] then Some ordered
      else (case fold (release_successor push) (adjacency ! hd ready) (indegrees, tl ready) of
        (indegrees, rest) \<Rightarrow> kahn push adjacency indegrees rest (ordered @ [hd ready])))"

definition free_nodes :: "int list \<Rightarrow> nat list" where
  "free_nodes indegrees = filter (\<lambda>node. indegrees ! node = 0) [0..<length indegrees]"

definition topological_order :: "nat list list \<Rightarrow> int list \<Rightarrow> nat list result option" where
  "topological_order adjacency indegrees =
     map_option (\<lambda>ordered. if length ordered \<noteq> length adjacency then Inl ValueError else Inr ordered)
       (kahn insort adjacency indegrees (free_nodes indegrees) [])"

section \<open>Transitive reduction\<close>

definition BITSET_NODE_LIMIT :: nat where
  "BITSET_NODE_LIMIT = 8192"

definition rank_of :: "nat \<Rightarrow> nat list \<Rightarrow> nat list" where
  "rank_of n topological = fold (\<lambda>(position, node) rank. rank[node := position]) (enumerate 0 topological)
     (replicate n 0)"

text \<open>Rows of reachable nodes as the bits of an integer.\<close>

definition reachable_row :: "nat list list \<Rightarrow> int list \<Rightarrow> nat \<Rightarrow> int" where
  "reachable_row adjacency reachable node =
     fold (\<lambda>successor row. row OR (push_bit successor 1 OR reachable ! successor)) (adjacency ! node) 0"

definition reachable_rows :: "nat list list \<Rightarrow> nat list \<Rightarrow> int list" where
  "reachable_rows adjacency topological =
     fold (\<lambda>node reachable. reachable[node := reachable_row adjacency reachable node]) (rev topological)
       (replicate (length adjacency) 0)"

fun bitset_cover :: "int list \<Rightarrow> nat \<Rightarrow> nat list \<Rightarrow> int \<Rightarrow> (nat \<times> nat) list" where
  "bitset_cover reachable sub [] covered = []"
| "bitset_cover reachable sub (super # supers) covered =
     (if covered AND push_bit super 1 \<noteq> 0 then bitset_cover reachable sub supers covered
      else (sub, super) # bitset_cover reachable sub supers (covered OR (push_bit super 1 OR reachable ! super)))"

definition bitset_reduction :: "nat list list \<Rightarrow> nat list \<Rightarrow> nat list \<Rightarrow> (nat \<times> nat) list" where
  "bitset_reduction adjacency topological rank = (let reachable = reachable_rows adjacency topological in
     sort (concat (map (\<lambda>(sub, successors). bitset_cover reachable sub (sort_key ((!) rank) successors) 0)
       (enumerate 0 adjacency))))"

partial_function (option) mark_reachable :: "nat list list \<Rightarrow> nat set \<Rightarrow> nat list \<Rightarrow> nat set option" where
  "mark_reachable adjacency covered pending =
     (if pending = [] then Some covered
      else if hd pending \<in> covered then mark_reachable adjacency covered (tl pending)
      else mark_reachable adjacency (insert (hd pending) covered) (rev (adjacency ! hd pending) @ tl pending))"

fun sparse_cover :: "nat list list \<Rightarrow> nat \<Rightarrow> nat list \<Rightarrow> nat set \<Rightarrow> (nat \<times> nat) list option" where
  "sparse_cover adjacency sub [] covered = Some []"
| "sparse_cover adjacency sub (super # supers) covered =
     (if super \<in> covered then sparse_cover adjacency sub supers covered
      else (case mark_reachable adjacency covered [super] of
         None \<Rightarrow> None
       | Some covered \<Rightarrow> map_option ((#) (sub, super)) (sparse_cover adjacency sub supers covered)))"

fun sparse_rows :: "nat list list \<Rightarrow> nat list \<Rightarrow> (nat \<times> nat list) list \<Rightarrow> (nat \<times> nat) list option" where
  "sparse_rows adjacency rank [] = Some []"
| "sparse_rows adjacency rank ((sub, successors) # rows) =
     (case (if length successors \<le> 1 then Some (map (Pair sub) successors)
            else sparse_cover adjacency sub (sort_key ((!) rank) successors) {}) of
        None \<Rightarrow> None
      | Some direct \<Rightarrow> map_option ((@) direct) (sparse_rows adjacency rank rows))"

text \<open>The rows are filled edge by edge.\<close>

definition add_indexed_edge :: "nat \<times> nat \<Rightarrow> nat set list \<times> int list \<Rightarrow> nat set list \<times> int list" where
  "add_indexed_edge edge s = (case (edge, s) of ((sub, super), (rows, indegrees)) \<Rightarrow>
     (rows[sub := insert super (rows ! sub)], indegrees[super := indegrees ! super + 1]))"

definition transitive_reduction :: "nat \<Rightarrow> (nat \<times> nat) list \<Rightarrow> (nat \<times> nat) list result option" where
  "transitive_reduction n edges = (case validated_edges n (sorted_list_of_set (set edges)) of
     Inl x \<Rightarrow> Some (Inl x)
   | Inr edge_values \<Rightarrow>
       (case fold add_indexed_edge edge_values (replicate n {}, replicate n 0) of (rows, indegrees) \<Rightarrow>
        let adjacency = map sorted_list_of_set rows in
        (case topological_order adjacency indegrees of
           None \<Rightarrow> None
         | Some (Inl x) \<Rightarrow> Some (Inl x)
         | Some (Inr topological) \<Rightarrow>
             let rank = rank_of n topological in
             if n \<le> BITSET_NODE_LIMIT \<and> n * 2 < length edge_values
             then Some (Inr (bitset_reduction adjacency topological rank))
             else map_option (\<lambda>direct. Inr (sort direct)) (sparse_rows adjacency rank (enumerate 0 adjacency)))))"

section \<open>The quotient\<close>

definition validated_members :: "nat list \<Rightarrow> nat set result" where
  "validated_members members = (if distinct members then Inr (set members) else Inl ValueError)"

definition validated_member_edge :: "nat list \<Rightarrow> nat \<times> nat \<Rightarrow> (nat \<times> nat) result" where
  "validated_member_edge ordered edge = (case edge of (sub, super) \<Rightarrow>
     case (find_index (\<lambda>m. m = sub) ordered, find_index (\<lambda>m. m = super) ordered) of
       (Some a, Some b) \<Rightarrow> Inr (a, b)
     | _ \<Rightarrow> Inl ValueError)"

definition add_edge :: "nat \<times> nat \<Rightarrow> nat set list \<times> nat set list \<Rightarrow> nat set list \<times> nat set list" where
  "add_edge edge s = (case (edge, s) of ((sub, super), (rows, backward)) \<Rightarrow>
     if sub = super then (rows, backward)
     else (rows[sub := insert super (rows ! sub)], backward[super := insert sub (backward ! super)]))"

text \<open>
  The canonical index of every node's component.  The components hold every node, so that the
  placeholders of the array (\<open>-1\<close> in the code) are all overwritten.
\<close>

definition dense_components :: "nat \<Rightarrow> nat list list \<Rightarrow> nat list list \<Rightarrow> nat list list \<Rightarrow> nat list" where
  "dense_components n components member_components canonical =
     fold (\<lambda>(component, members) owner.
         case find_index (\<lambda>node. node = members) canonical of
           None \<Rightarrow> owner
         | Some node \<Rightarrow> fold (\<lambda>dense owner. owner[dense := node]) component owner)
       (zip components member_components) (replicate n 0)"

definition component_edges :: "nat list list \<Rightarrow> nat list \<Rightarrow> (nat \<times> nat) list" where
  "component_edges adjacency owner = concat (map (\<lambda>(sub, successors).
     map (\<lambda>super. (owner ! sub, owner ! super)) (filter (\<lambda>super. owner ! sub \<noteq> owner ! super) successors))
     (enumerate 0 adjacency))"

definition quotient_and_reduce :: "nat list \<Rightarrow> (nat \<times> nat) list \<Rightarrow> reduced_graph result option" where
  "quotient_and_reduce members edges = (case validated_members members of
     Inl x \<Rightarrow> Some (Inl x)
   | Inr values \<Rightarrow> (let ordered = sorted_list_of_set values in
       if ordered = [] then
         Some (if edges \<noteq> [] then Inl ValueError else new_reduced_graph [] [])
       else (case rmap_list (validated_member_edge ordered) edges of
           Inl x \<Rightarrow> Some (Inl x)
         | Inr dense \<Rightarrow>
             (case fold add_edge dense (replicate (length ordered) {}, replicate (length ordered) {}) of
                (rows, backward_rows) \<Rightarrow>
              let adjacency = map sorted_list_of_set rows; backward = map sorted_list_of_set backward_rows in
              (case strong_components adjacency backward of
                 None \<Rightarrow> None
               | Some components \<Rightarrow>
                   let member_components = map (\<lambda>component. sort (map ((!) ordered) component)) components;
                     canonical = sort member_components;
                     owner = dense_components (length ordered) components member_components canonical in
                   (case transitive_reduction (length canonical) (component_edges adjacency owner) of
                      None \<Rightarrow> None
                    | Some (Inl x) \<Rightarrow> Some (Inl x)
                    | Some (Inr direct) \<Rightarrow> Some (new_reduced_graph canonical direct)))))))"

end
