(* ===== verification/Reduction_Components.thy ===== *)
theory Reduction_Components
  imports Reduction
begin

text \<open>The two searches of \<open>_strong_components\<close> return the classes of mutual reachability.\<close>

section \<open>Adjacency rows as relations\<close>

definition edges_of :: "nat list list \<Rightarrow> (nat \<times> nat) set" where
  "edges_of adj = {(x, y). x < length adj \<and> y \<in> set (adj ! x)}"

definition adjacency_ok :: "nat list list \<Rightarrow> bool" where
  "adjacency_ok adj \<longleftrightarrow> (\<forall>x < length adj. set (adj ! x) \<subseteq> {..<length adj})"

definition mutual :: "('a \<times> 'a) set \<Rightarrow> 'a \<Rightarrow> 'a set" where
  "mutual E x = {y. (x, y) \<in> E\<^sup>* \<and> (y, x) \<in> E\<^sup>*}"

lemma mutual_self [simp]: "x \<in> mutual E x"
  by (simp add: mutual_def)

lemma mutual_eq: "y \<in> mutual E x \<Longrightarrow> mutual E y = mutual E x"
  by (auto simp: mutual_def intro: rtrancl_trans)

lemma mutual_sym: "y \<in> mutual E x \<longleftrightarrow> x \<in> mutual E y"
  by (auto simp: mutual_def)

lemma edges_of_less: "adjacency_ok adj \<Longrightarrow> (x, y) \<in> edges_of adj \<Longrightarrow> x < length adj \<and> y < length adj"
  by (auto simp: edges_of_def adjacency_ok_def)

lemma reach_less:
  assumes ok: "adjacency_ok adj" and "(x, y) \<in> (edges_of adj)\<^sup>*"
  shows "x < length adj \<longleftrightarrow> y < length adj"
  using assms(2) by induction (auto dest: edges_of_less [OF ok])

text \<open>A path out of a set crosses an edge out of it.\<close>

lemma path_leaves:
  assumes "(x, w) \<in> E\<^sup>*" and "x \<in> A" and "w \<notin> A"
  obtains u v where "u \<in> A" and "v \<notin> A" and "(x, u) \<in> E\<^sup>*" and "(u, v) \<in> E" and "(v, w) \<in> E\<^sup>*"
proof -
  from assms(1,3) have "\<exists>u v. u \<in> A \<and> v \<notin> A \<and> (x, u) \<in> E\<^sup>* \<and> (u, v) \<in> E \<and> (v, w) \<in> E\<^sup>*"
  proof (induction rule: rtrancl_induct)
    case base
    with assms(2) show ?case by simp
  next
    case (step y z)
    show ?case
    proof (cases "y \<in> A")
      case True
      with step show ?thesis by blast
    next
      case False
      with step show ?thesis by (meson rtrancl.rtrancl_into_rtrancl)
    qed
  qed
  with that show ?thesis by blast
qed

section \<open>The first search\<close>

text \<open>A node of \<open>A\<close> that reaches a node outside has a node of its own class outside.\<close>

definition open_classes :: "(nat \<times> nat) set \<Rightarrow> nat set \<Rightarrow> bool" where
  "open_classes E A \<longleftrightarrow> (\<forall>x \<in> A. (\<exists>w. w \<notin> A \<and> (x, w) \<in> E\<^sup>*) \<longrightarrow> (\<exists>z. z \<notin> A \<and> z \<in> mutual E x))"

definition explore_inv :: "nat list list \<Rightarrow> nat set \<Rightarrow> nat list \<Rightarrow> (nat \<times> nat) list \<Rightarrow> bool" where
  "explore_inv adj visited finished stack \<longleftrightarrow>
     visited = set finished \<union> fst ` set stack \<and> distinct (finished @ map fst stack) \<and>
     visited \<subseteq> {..<length adj} \<and>
     sorted_wrt (\<lambda>a b. (fst b, fst a) \<in> (edges_of adj)\<^sup>*) stack \<and>
     (\<forall>(x, i) \<in> set stack. i \<le> length (adj ! x) \<and> set (take i (adj ! x)) \<subseteq> visited) \<and>
     (\<forall>x \<in> set finished. set (adj ! x) \<subseteq> visited) \<and>
     (\<forall>k \<le> length finished. open_classes (edges_of adj) (set (take k finished)))"

lemma explore_invD:
  assumes "explore_inv adj visited finished stack"
  shows "visited = set finished \<union> fst ` set stack" and "distinct (finished @ map fst stack)"
    and "visited \<subseteq> {..<length adj}" and "sorted_wrt (\<lambda>a b. (fst b, fst a) \<in> (edges_of adj)\<^sup>*) stack"
    and "\<And>x i. (x, i) \<in> set stack \<Longrightarrow> i \<le> length (adj ! x) \<and> set (take i (adj ! x)) \<subseteq> visited"
    and "\<And>x. x \<in> set finished \<Longrightarrow> set (adj ! x) \<subseteq> visited"
    and "\<And>k. k \<le> length finished \<Longrightarrow> open_classes (edges_of adj) (set (take k finished))"
  using assms unfolding explore_inv_def by blast+

lemma open_classes_finish:
  assumes old: "open_classes E A" and y: "\<And>v. (y, v) \<in> E \<Longrightarrow> v \<in> insert y A \<or> (v, y) \<in> E\<^sup>*"
    and A: "\<And>u v. u \<in> A \<Longrightarrow> (u, v) \<in> E \<Longrightarrow> v \<in> insert y A \<or> (v, y) \<in> E\<^sup>*"
  shows "open_classes E (insert y A)"
proof -
  have new: "\<exists>z. z \<notin> insert y A \<and> z \<in> mutual E y" if w: "w \<notin> insert y A" "(y, w) \<in> E\<^sup>*" for w
  proof -
    obtain u v where uv: "u \<in> insert y A" "v \<notin> insert y A" "(y, u) \<in> E\<^sup>*" "(u, v) \<in> E"
      by (rule path_leaves [OF w(2) _ w(1)]) blast
    have "(v, y) \<in> E\<^sup>*" using uv(1,2,4) y A by blast
    moreover have "(y, v) \<in> E\<^sup>*" using uv(3,4) by simp
    ultimately show ?thesis using uv(2) by (auto simp: mutual_def)
  qed
  show ?thesis unfolding open_classes_def
  proof (intro ballI impI)
    fix x assume x: "x \<in> insert y A" and "\<exists>w. w \<notin> insert y A \<and> (x, w) \<in> E\<^sup>*"
    then obtain w where w: "w \<notin> insert y A" "(x, w) \<in> E\<^sup>*" by blast
    show "\<exists>z. z \<notin> insert y A \<and> z \<in> mutual E x"
    proof (cases "x = y")
      case True
      with new w show ?thesis by blast
    next
      case False
      with x w old obtain z where z: "z \<notin> A" "z \<in> mutual E x" unfolding open_classes_def by blast
      show ?thesis
      proof (cases "z = y")
        case False
        with z show ?thesis by blast
      next
        case True
        with z w(2) have "(y, w) \<in> E\<^sup>*" by (auto simp: mutual_def intro: rtrancl_trans)
        from new [OF w(1) this] mutual_eq [OF z(2)] True show ?thesis by auto
      qed
    qed
  qed
qed

definition explore_work :: "nat list list \<Rightarrow> nat set \<Rightarrow> (nat \<times> nat) list \<Rightarrow> nat" where
  "explore_work adj visited stack = (\<Sum>x \<in> {..<length adj} - visited. length (adj ! x) + 2) +
     sum_list (map (\<lambda>(x, i). length (adj ! x) - i + 1) stack)"

lemma unvisited_sum:
  assumes "x < length adj" and "x \<notin> visited"
  shows "(\<Sum>y \<in> {..<length adj} - visited. length (adj ! y) + 2) =
    length (adj ! x) + 2 + (\<Sum>y \<in> {..<length adj} - insert x visited. length (adj ! y) + 2)"
proof -
  have eq: "{..<length adj} - visited = insert x ({..<length adj} - insert x visited)" using assms by auto
  show ?thesis unfolding eq by (rule sum.insert) auto
qed

lemma explore_finish:
  assumes inv: "explore_inv adj visited finished ((x, i) # rest)" and i: "i = length (adj ! x)"
  shows "explore_inv adj visited (finished @ [x]) rest"
proof -
  note d = explore_invD [OF inv]
  have op: "open_classes (edges_of adj) (set finished)" using d(7) [of "length finished"] by simp
  have v: "visited = set finished \<union> insert x (fst ` set rest)" "x < length adj" "set (adj ! x) \<subseteq> visited"
    "\<forall>b \<in> set rest. (fst b, x) \<in> (edges_of adj)\<^sup>*"
  proof -
    show "visited = set finished \<union> insert x (fst ` set rest)" using d(1) by simp
    then show "x < length adj" using d(3) by blast
    show "set (adj ! x) \<subseteq> visited" using d(5) [of x i] unfolding i by simp
    show "\<forall>b \<in> set rest. (fst b, x) \<in> (edges_of adj)\<^sup>*" using d(4) by simp
  qed
  have from_stack: "v \<in> insert x (set finished) \<or> (v, x) \<in> (edges_of adj)\<^sup>*" if "v \<in> visited" for v
    using that v(1,4) by auto
  have "open_classes (edges_of adj) (insert x (set finished))"
  proof (rule open_classes_finish [OF op])
    show "v \<in> insert x (set finished) \<or> (v, x) \<in> (edges_of adj)\<^sup>*" if "(x, v) \<in> edges_of adj" for v
      using that v(3) from_stack by (auto simp: edges_of_def)
    show "v \<in> insert x (set finished) \<or> (v, x) \<in> (edges_of adj)\<^sup>*"
      if "u \<in> set finished" "(u, v) \<in> edges_of adj" for u v
      using that d(6) from_stack by (auto simp: edges_of_def)
  qed
  then have "open_classes (edges_of adj) (set (take k (finished @ [x])))" if "k \<le> Suc (length finished)" for k
    using d(7) that by (cases "k = Suc (length finished)") auto
  then show ?thesis unfolding explore_inv_def using d v by auto
qed

lemma explore_advance:
  assumes inv: "explore_inv adj visited finished ((x, i) # rest)" and i: "i \<noteq> length (adj ! x)"
    and s: "adj ! x ! i \<in> visited"
  shows "explore_inv adj visited finished ((x, i + 1) # rest)"
proof -
  have "i < length (adj ! x)" using inv i unfolding explore_inv_def by auto
  then have "set (take (i + 1) (adj ! x)) = insert (adj ! x ! i) (set (take i (adj ! x)))"
    by (simp add: take_Suc_conv_app_nth)
  with inv s \<open>i < length (adj ! x)\<close> show ?thesis unfolding explore_inv_def by auto
qed

lemma explore_push:
  assumes ok: "adjacency_ok adj" and inv: "explore_inv adj visited finished ((x, i) # rest)"
    and i: "i \<noteq> length (adj ! x)" and s: "adj ! x ! i \<notin> visited"
  shows "explore_inv adj (insert (adj ! x ! i) visited) finished ((adj ! x ! i, 0) # (x, i + 1) # rest)"
    and "adj ! x ! i < length adj"
proof -
  have x: "i < length (adj ! x)" "x < length adj" using inv i unfolding explore_inv_def by auto
  then have e: "(x, adj ! x ! i) \<in> edges_of adj" by (simp add: edges_of_def)
  then show less: "adj ! x ! i < length adj" using ok edges_of_less by blast
  have "set (take (i + 1) (adj ! x)) = insert (adj ! x ! i) (set (take i (adj ! x)))"
    using x by (simp add: take_Suc_conv_app_nth)
  moreover have "(fst b, adj ! x ! i) \<in> (edges_of adj)\<^sup>*" if "b \<in> set ((x, i + 1) # rest)" for b
    using inv that e unfolding explore_inv_def by (auto intro: rtrancl_into_rtrancl)
  ultimately show "explore_inv adj (insert (adj ! x ! i) visited) finished ((adj ! x ! i, 0) # (x, i + 1) # rest)"
    using inv s less x(1) unfolding explore_inv_def by auto
qed

lemma explore_ok:
  assumes ok: "adjacency_ok adj" and "explore_inv adj visited finished stack"
  shows "\<exists>visited' finished'. explore adj visited finished stack = Some (visited', finished') \<and>
    explore_inv adj visited' finished' [] \<and> visited \<subseteq> visited'"
  using assms(2)
proof (induction "explore_work adj visited stack" arbitrary: visited finished stack rule: less_induct)
  case less
  show ?case
  proof (cases stack)
    case Nil
    with less.prems show ?thesis by (simp add: explore.simps)
  next
    case (Cons frame rest)
    then obtain x i where stack: "stack = (x, i) # rest" by (cases frame) auto
    note inv = less.prems [unfolded stack]
    have le: "i \<le> length (adj ! x)" using inv unfolding explore_inv_def by auto
    show ?thesis
    proof (cases "i = length (adj ! x)")
      case True
      have "explore adj visited finished stack = explore adj visited (finished @ [x]) rest"
        by (subst explore.simps) (simp add: stack True)
      moreover have "explore_work adj visited rest < explore_work adj visited stack"
        by (simp add: explore_work_def stack)
      ultimately show ?thesis using less.hyps explore_finish [OF inv True] by metis
    next
      case False
      show ?thesis
      proof (cases "adj ! x ! i \<in> visited")
        case True
        have "explore adj visited finished stack = explore adj visited finished ((x, i + 1) # rest)"
          by (subst explore.simps) (simp add: stack True False top_successor_def advance_top_def)
        moreover have "explore_work adj visited ((x, i + 1) # rest) < explore_work adj visited stack"
          using le False by (simp add: explore_work_def stack)
        ultimately show ?thesis using less.hyps explore_advance [OF inv False True] by metis
      next
        case new: False
        let ?s = "adj ! x ! i"
        have step: "explore adj visited finished stack =
            explore adj (insert ?s visited) finished ((?s, 0) # (x, i + 1) # rest)"
          by (subst explore.simps) (simp add: stack new False top_successor_def advance_top_def)
        note p = explore_push [OF ok inv False new]
        have "explore_work adj (insert ?s visited) ((?s, 0) # (x, i + 1) # rest) < explore_work adj visited stack"
          using le False unvisited_sum [OF p(2) new] by (simp add: explore_work_def stack)
        from less.hyps [OF this p(1)] step show ?thesis by auto
      qed
    qed
  qed
qed

lemma explore_inv_start:
  assumes "explore_inv adj visited finished []" and "start < length adj" and "start \<notin> visited"
  shows "explore_inv adj (insert start visited) finished [(start, 0)]"
  using assms unfolding explore_inv_def by auto

lemma explore_all_ok:
  assumes ok: "adjacency_ok adj" and "explore_inv adj visited finished []" and "set starts \<subseteq> {..<length adj}"
  shows "\<exists>finished'. explore_all adj starts visited finished = Some finished' \<and>
    explore_inv adj (set finished') finished' [] \<and> visited \<union> set starts \<subseteq> set finished'"
  using assms(2,3)
proof (induction starts arbitrary: visited finished)
  case Nil
  then show ?case by (auto simp: explore_inv_def)
next
  case (Cons start starts)
  show ?case
  proof (cases "start \<in> visited")
    case True
    with Cons.IH [OF Cons.prems(1)] Cons.prems(2) show ?thesis by fastforce
  next
    case False
    have "start < length adj" using Cons.prems(2) by simp
    from explore_ok [OF ok explore_inv_start [OF Cons.prems(1) this False]] obtain visited' finished' where
      s: "explore adj (insert start visited) finished [(start, 0)] = Some (visited', finished')"
      "explore_inv adj visited' finished' []" "insert start visited \<subseteq> visited'" by blast
    from Cons.IH [OF s(2)] Cons.prems(2) s(1,3) False show ?thesis by auto
  qed
qed

theorem finishing_order_ok:
  assumes "adjacency_ok adj"
  obtains order where "finishing_order adj = Some order" and "distinct order" and "set order = {..<length adj}"
    and "\<forall>k \<le> length order. open_classes (edges_of adj) (set (take k order))"
proof -
  have "explore_inv adj {} [] []" by (simp add: explore_inv_def open_classes_def)
  from explore_all_ok [OF assms this, of "[0..<length adj]"] obtain order where o:
    "finishing_order adj = Some order" "explore_inv adj (set order) order []" "{..<length adj} \<subseteq> set order"
    by (auto simp: finishing_order_def atLeast0LessThan)
  from o(2) have "distinct order" "set order \<subseteq> {..<length adj}"
    "\<forall>k \<le> length order. open_classes (edges_of adj) (set (take k order))"
    unfolding explore_inv_def by simp_all
  with o(1,3) show ?thesis by (intro that [of order]) auto
qed

section \<open>The second search\<close>

lemma assign_unassigned_ok:
  "\<exists>qs. assign_unassigned ps assigned pending = (assigned \<union> set ps, qs @ pending) \<and> distinct qs \<and> set qs = set ps - assigned"
proof (induction ps arbitrary: assigned pending)
  case Nil
  then show ?case by simp
next
  case (Cons p ps)
  show ?case
  proof (cases "p \<in> assigned")
    case True
    with Cons.IH [of assigned pending] show ?thesis by (auto simp: insert_absorb)
  next
    case False
    obtain qs where "assign_unassigned ps (insert p assigned) (p # pending) = (insert p assigned \<union> set ps, qs @ p # pending)"
      "distinct qs" "set qs = set ps - insert p assigned"
      using Cons.IH by blast
    with False show ?thesis by (intro exI [of _ "qs @ [p]"]) auto
  qed
qed

definition collect_inv :: "nat list list \<Rightarrow> nat set \<Rightarrow> nat \<Rightarrow> nat set \<Rightarrow> nat list \<Rightarrow> nat list \<Rightarrow> bool" where
  "collect_inv bw before start assigned component pending \<longleftrightarrow>
     assigned = before \<union> set component \<union> set pending \<and> distinct (component @ pending) \<and>
     (set component \<union> set pending) \<inter> before = {} \<and> start \<in> set component \<union> set pending \<and>
     (\<forall>x \<in> set component \<union> set pending. x < length bw \<and> (start, x) \<in> (edges_of bw)\<^sup>*) \<and>
     (\<forall>x \<in> set component. set (bw ! x) \<subseteq> assigned)"

lemma collect_step:
  assumes ok: "adjacency_ok bw" and inv: "collect_inv bw before start assigned component (node # rest)"
    and qs: "distinct qs" "set qs = set (bw ! node) - assigned"
  shows "collect_inv bw before start (assigned \<union> set (bw ! node)) (component @ [node]) (qs @ rest)"
    and "card ({..<length bw} - (assigned \<union> set (bw ! node))) + length (qs @ rest) <
      card ({..<length bw} - assigned) + length (node # rest)"
proof -
  note d = inv [unfolded collect_inv_def]
  have node: "node < length bw" "(start, node) \<in> (edges_of bw)\<^sup>*" using d by simp_all
  have e: "(node, q) \<in> edges_of bw" if "q \<in> set qs" for q using that qs(2) node by (simp add: edges_of_def)
  have reach: "q < length bw \<and> (start, q) \<in> (edges_of bw)\<^sup>*" if "q \<in> set qs" for q
    using edges_of_less [OF ok e [OF that]] rtrancl_into_rtrancl [OF node(2) e [OF that]] by simp
  have new: "set qs \<inter> assigned = {}" "assigned \<union> set (bw ! node) = assigned \<union> set qs" using qs(2) by auto
  show "collect_inv bw before start (assigned \<union> set (bw ! node)) (component @ [node]) (qs @ rest)"
    unfolding collect_inv_def
  proof (intro conjI)
    show "distinct ((component @ [node]) @ qs @ rest)" using d new(1) qs(1) by auto
    show "\<forall>x \<in> set (component @ [node]) \<union> set (qs @ rest). x < length bw \<and> (start, x) \<in> (edges_of bw)\<^sup>*"
      using d reach by auto
  qed (use d new in auto)
  have "{..<length bw} - assigned = ({..<length bw} - (assigned \<union> set (bw ! node))) \<union> set qs"
    using new reach by auto
  then have "card ({..<length bw} - assigned) = card ({..<length bw} - (assigned \<union> set (bw ! node))) + card (set qs)"
    using qs(2) by (simp add: card_Un_disjoint disjoint_iff)
  then show "card ({..<length bw} - (assigned \<union> set (bw ! node))) + length (qs @ rest) <
      card ({..<length bw} - assigned) + length (node # rest)"
    using distinct_card [OF qs(1)] by simp
qed

lemma collect_ok:
  assumes ok: "adjacency_ok bw" and "collect_inv bw before start assigned component pending"
  shows "\<exists>assigned' component'. collect bw assigned component pending = Some (assigned', component') \<and>
    collect_inv bw before start assigned' component' []"
  using assms(2)
proof (induction "card ({..<length bw} - assigned) + length pending" arbitrary: assigned component pending rule: less_induct)
  case less
  show ?case
  proof (cases pending)
    case Nil
    with less.prems show ?thesis by (simp add: collect.simps)
  next
    case (Cons node rest)
    obtain qs where qs: "assign_unassigned (rev (bw ! node)) assigned rest = (assigned \<union> set (bw ! node), qs @ rest)"
      "distinct qs" "set qs = set (bw ! node) - assigned"
      using assign_unassigned_ok [of "rev (bw ! node)" assigned rest] by auto
    have "collect bw assigned component pending = collect bw (assigned \<union> set (bw ! node)) (component @ [node]) (qs @ rest)"
      by (subst collect.simps) (simp add: Cons qs(1))
    then show ?thesis
      using less.hyps collect_step [OF ok less.prems [unfolded Cons] qs(2,3)] unfolding Cons by metis
  qed
qed

text \<open>What was assigned is closed under mutual reachability: the search from the latest node collects its class.\<close>

definition classes_of :: "nat list list \<Rightarrow> nat list list \<Rightarrow> bool" where
  "classes_of adj components \<longleftrightarrow> distinct components \<and> (\<forall>c \<in> set components. sorted c \<and> distinct c \<and>
     (\<exists>x < length adj. set c = mutual (edges_of adj) x))"

lemma classes_closed:
  assumes "classes_of adj components" and "x \<in> \<Union> (set ` set components)"
  shows "mutual (edges_of adj) x \<subseteq> \<Union> (set ` set components)"
proof -
  obtain c y where "c \<in> set components" "x \<in> set c" "set c = mutual (edges_of adj) y"
    using assms by (auto simp: classes_of_def)
  with mutual_eq [of x "edges_of adj" y] show ?thesis by auto
qed

lemma collect_class:
  assumes ok: "adjacency_ok bw" and rev: "edges_of bw = (edges_of adj)\<inverse>" "length bw = length adj"
    and closed: "\<And>x. x \<in> before \<Longrightarrow> mutual (edges_of adj) x \<subseteq> before"
    and start: "start < length adj" "start \<notin> before"
    and last: "\<And>x. x < length adj \<Longrightarrow> x \<notin> before \<Longrightarrow> (x, start) \<in> (edges_of adj)\<^sup>* \<Longrightarrow> (start, x) \<in> (edges_of adj)\<^sup>*"
  obtains component where "collect bw (insert start before) [] [start] = Some (before \<union> set component, component)"
    and "distinct component" and "set component = mutual (edges_of adj) start"
proof -
  have "collect_inv bw before start (insert start before) [] [start]"
    using start rev(2) by (simp add: collect_inv_def)
  from collect_ok [OF ok this] obtain assigned component where
    run: "collect bw (insert start before) [] [start] = Some (assigned, component)"
    and inv: "collect_inv bw before start assigned component []" by blast
  note d = inv [unfolded collect_inv_def rev rtrancl_converse, simplified]
  have "set component = mutual (edges_of adj) start"
  proof
    show "set component \<subseteq> mutual (edges_of adj) start"
      using d last by (auto simp: mutual_def)
    have "x \<in> set component" if "(x, start) \<in> (edges_of adj)\<^sup>*" "(start, x) \<in> (edges_of adj)\<^sup>*" for x
      using that
    proof (induction rule: converse_rtrancl_induct)
      case base
      from d show ?case by simp
    next
      case (step x y)
      have "(start, y) \<in> (edges_of adj)\<^sup>*" using step.prems step.hyps(1) by simp
      then have y: "y \<in> set component" by (rule step.IH)
      have "(y, x) \<in> edges_of bw" using step.hyps(1) rev(1) by simp
      then have "x \<in> set (bw ! y)" by (simp add: edges_of_def)
      with d y have "x \<in> before \<union> set component" by auto
      moreover have "start \<in> mutual (edges_of adj) x" using step by (auto simp: mutual_def)
      ultimately show ?case using closed start(2) by blast
    qed
    then show "mutual (edges_of adj) start \<subseteq> set component" by (auto simp: mutual_def)
  qed
  with run d show ?thesis by (intro that [of component]) simp_all
qed

lemma collect_all_ok:
  assumes ok: "adjacency_ok adj" "adjacency_ok bw" and rev: "edges_of bw = (edges_of adj)\<inverse>" "length bw = length adj"
    and order: "distinct order" "set order = {..<length adj}"
    and open_: "\<forall>k \<le> length order. open_classes (edges_of adj) (set (take k order))"
    and inv: "classes_of adj components" "set (drop k order) \<subseteq> \<Union> (set ` set components)" "k \<le> length order"
  shows "\<exists>components'. collect_all bw (List.rev (take k order)) (\<Union> (set ` set components)) components = Some components' \<and>
    classes_of adj components' \<and> set order \<subseteq> \<Union> (set ` set components')"
  using inv
proof (induction k arbitrary: components)
  case 0
  then show ?case by simp
next
  case (Suc k)
  let ?A = "\<Union> (set ` set components)"
  let ?start = "order ! k"
  have k: "k < length order" using Suc.prems(3) by simp
  then have starts: "List.rev (take (Suc k) order) = ?start # List.rev (take k order)"
    by (simp add: take_Suc_conv_app_nth)
  have drop: "set (drop k order) = insert ?start (set (drop (Suc k) order))"
    using k by (metis Cons_nth_drop_Suc list.simps(15))
  show ?case
  proof (cases "?start \<in> ?A")
    case True
    with Suc.IH [OF Suc.prems(1)] Suc.prems(2) k drop starts show ?thesis by simp
  next
    case False
    have start: "?start < length adj" using order(2) k nth_mem by blast
    have notin: "?start \<notin> set (take k order)"
    proof -
      have "distinct (take k order @ ?start # drop (Suc k) order)"
        by (simp only: id_take_nth_drop [OF k, symmetric] order(1))
      then show ?thesis by simp
    qed
    have last: "(?start, x) \<in> (edges_of adj)\<^sup>*"
      if x: "x < length adj" "x \<notin> ?A" "(x, ?start) \<in> (edges_of adj)\<^sup>*" for x
    proof (cases "x = ?start")
      case False
      have "x \<in> set order" using x(1) order(2) by simp
      then have "x \<in> set (take k order) \<union> set (drop k order)" by (metis append_take_drop_id set_append)
      with False x(2) Suc.prems(2) drop have "x \<in> set (take k order)" by auto
      with open_ k notin x(3) obtain z where z: "z \<notin> set (take k order)" "z \<in> mutual (edges_of adj) x"
        unfolding open_classes_def by (meson less_imp_le)
      have "z < length adj" using z(2) x(1) reach_less [OF ok(1)] by (auto simp: mutual_def)
      with z(1) order(2) have "z \<in> set (drop k order)" by (metis Un_iff append_take_drop_id lessThan_iff set_append)
      then have "z = ?start \<or> z \<in> ?A" using drop Suc.prems(2) by auto
      then show ?thesis
      proof
        assume "z = ?start"
        with z(2) show ?thesis by (simp add: mutual_def)
      next
        assume "z \<in> ?A"
        with classes_closed [OF Suc.prems(1)] z(2) x(2) show ?thesis by (meson mutual_sym subsetD)
      qed
    qed simp
    obtain component where c: "collect bw (insert ?start ?A) [] [?start] = Some (?A \<union> set component, component)"
      "distinct component" "set component = mutual (edges_of adj) ?start"
      by (rule collect_class [OF ok(2) rev classes_closed [OF Suc.prems(1)] start False last]) blast+
    let ?cs = "components @ [sort component]"
    have "sort component \<notin> set components"
    proof
      assume "sort component \<in> set components"
      then have "set (sort component) \<subseteq> ?A" by blast
      then have "set component \<subseteq> ?A" by simp
      moreover have "?start \<in> set component" unfolding c(3) by (rule mutual_self)
      ultimately show False using False by blast
    qed
    then have "classes_of adj ?cs" using Suc.prems(1) c(2,3) start by (auto simp: classes_of_def)
    moreover have "?A \<union> set component = \<Union> (set ` set ?cs)" by (simp add: Un_commute)
    moreover have "set (drop k order) \<subseteq> \<Union> (set ` set ?cs)" using drop Suc.prems(2) c(3) by auto
    ultimately have "\<exists>components'. collect_all bw (List.rev (take k order)) (?A \<union> set component) ?cs = Some components' \<and>
      classes_of adj components' \<and> set order \<subseteq> \<Union> (set ` set components')"
      using Suc.IH [of ?cs] k by simp
    then show ?thesis using c(1) False starts by simp
  qed
qed

theorem strong_components_ok:
  assumes ok: "adjacency_ok adj" "adjacency_ok bw" and rev: "edges_of bw = (edges_of adj)\<inverse>" "length bw = length adj"
  obtains components where "strong_components adj bw = Some components" and "classes_of adj components"
    and "\<Union> (set ` set components) = {..<length adj}"
proof -
  obtain order where o: "finishing_order adj = Some order" "distinct order" "set order = {..<length adj}"
    "\<forall>k \<le> length order. open_classes (edges_of adj) (set (take k order))"
    by (rule finishing_order_ok [OF ok(1)])
  have "classes_of adj []" by (simp add: classes_of_def)
  from collect_all_ok [OF ok rev o(2-4) this, of "length order"] obtain components where
    c: "strong_components adj bw = Some components" "classes_of adj components"
    "{..<length adj} \<subseteq> \<Union> (set ` set components)"
    by (auto simp: strong_components_def o(1,3))
  have "mutual (edges_of adj) x \<subseteq> {..<length adj}" if "x < length adj" for x
    using that reach_less [OF ok(1)] by (auto simp: mutual_def)
  then have "\<Union> (set ` set components) \<subseteq> {..<length adj}" using c(2) by (fastforce simp: classes_of_def)
  with c show ?thesis by (intro that [of components]) auto
qed

end
