(* ===== verification/Reduction_Order.thy ===== *)
theory Reduction_Order
  imports Reduction_Components
begin

text \<open>The topological order and the transitive reduction, against their definitions on relations.\<close>

unbundle bit_operations_syntax

section \<open>Kahn's algorithm\<close>

definition rows_distinct :: "nat list list \<Rightarrow> bool" where
  "rows_distinct adj \<longleftrightarrow> (\<forall>x < length adj. distinct (adj ! x))"

definition indegrees_of :: "nat list list \<Rightarrow> nat set \<Rightarrow> nat \<Rightarrow> int" where
  "indegrees_of adj done_nodes y = int (card {x. (x, y) \<in> edges_of adj \<and> x \<notin> done_nodes})"

lemma finite_edges_of: "finite (edges_of adj)"
proof -
  have "edges_of adj = (\<Union>x \<in> {..<length adj}. Pair x ` set (adj ! x))" by (auto simp: edges_of_def)
  then show ?thesis by simp
qed

lemma finite_preds: "finite {x. (x, y) \<in> edges_of adj \<and> P x}"
  by (rule finite_subset [of _ "fst ` edges_of adj"]) (force, simp add: finite_edges_of)

lemma indegrees_of_zero: "indegrees_of adj D y = 0 \<longleftrightarrow> (\<forall>x. (x, y) \<in> edges_of adj \<longrightarrow> x \<in> D)"
  using finite_preds [of y adj "\<lambda>x. x \<notin> D"] by (auto simp: indegrees_of_def)

lemma indegrees_of_insert:
  assumes "node \<notin> D"
  shows "indegrees_of adj (insert node D) y =
    (if (node, y) \<in> edges_of adj then indegrees_of adj D y - 1 else indegrees_of adj D y)"
proof (cases "(node, y) \<in> edges_of adj")
  case True
  have "{x. (x, y) \<in> edges_of adj \<and> x \<notin> D} = insert node {x. (x, y) \<in> edges_of adj \<and> x \<notin> insert node D}"
    using True assms by auto
  moreover have "card (insert node {x. (x, y) \<in> edges_of adj \<and> x \<notin> insert node D}) =
      Suc (card {x. (x, y) \<in> edges_of adj \<and> x \<notin> insert node D})"
    by (rule card_insert_disjoint [OF finite_preds]) simp
  ultimately show ?thesis using True by (simp add: indegrees_of_def)
next
  case False
  then have "{x. (x, y) \<in> edges_of adj \<and> x \<notin> insert node D} = {x. (x, y) \<in> edges_of adj \<and> x \<notin> D}" by auto
  with False show ?thesis by (simp add: indegrees_of_def)
qed

definition kahn_inv :: "nat list list \<Rightarrow> int list \<Rightarrow> nat list \<Rightarrow> nat list \<Rightarrow> bool" where
  "kahn_inv adj indegrees ready ordered \<longleftrightarrow> length indegrees = length adj \<and> distinct (ordered @ ready) \<and>
     set (ordered @ ready) \<subseteq> {..<length adj} \<and>
     (\<forall>y < length adj. indegrees ! y = indegrees_of adj (set ordered) y) \<and>
     (\<forall>y < length adj. y \<in> set (ordered @ ready) \<longleftrightarrow> indegrees_of adj (set ordered) y = 0) \<and>
     sorted_wrt (\<lambda>a b. (b, a) \<notin> edges_of adj) ordered \<and> (\<forall>a \<in> set ordered. (a, a) \<notin> edges_of adj)"

text \<open>What Kahn's algorithm needs of its worklist.\<close>

locale worklist =
  fixes push :: "nat \<Rightarrow> nat list \<Rightarrow> nat list"
  assumes push: "distinct xs \<Longrightarrow> x \<notin> set xs \<Longrightarrow> set (push x xs) = insert x (set xs) \<and> distinct (push x xs)"
begin

lemma release_all:
  assumes "distinct ss" and "\<forall>s \<in> set ss. s < length indegrees \<and> 1 \<le> indegrees ! s" and "distinct ready"
    and "\<forall>r \<in> set ready. indegrees ! r = 0"
  shows "\<exists>indegrees' ready'. fold (release_successor push) ss (indegrees, ready) = (indegrees', ready') \<and>
    length indegrees' = length indegrees \<and>
    (\<forall>y. indegrees' ! y = (if y \<in> set ss then indegrees ! y - 1 else indegrees ! y)) \<and>
    set ready' = set ready \<union> {s \<in> set ss. indegrees ! s = 1} \<and> distinct ready'"
  using assms
proof (induction ss arbitrary: indegrees ready)
  case Nil
  then show ?case by simp
next
  case (Cons s ss)
  let ?ind = "indegrees[s := indegrees ! s - 1]"
  let ?ready = "if indegrees ! s = 1 then push s ready else ready"
  have s: "s < length indegrees" "1 \<le> indegrees ! s" "s \<notin> set ss" "distinct ss" using Cons.prems by simp_all
  then have "s \<notin> set ready" using Cons.prems(4) by fastforce
  then have pushed: "set (push s ready) = insert s (set ready)" "distinct (push s ready)"
    using push Cons.prems(3) by blast+
  then have "distinct ?ready" using Cons.prems(3) by simp
  moreover have "\<forall>r \<in> set ?ready. ?ind ! r = 0"
    using Cons.prems(4) s(1) \<open>s \<notin> set ready\<close> by (auto simp: pushed nth_list_update)
  moreover have "\<forall>t \<in> set ss. t < length ?ind \<and> 1 \<le> ?ind ! t" using Cons.prems(2) s(3) by (auto simp: nth_list_update)
  ultimately obtain ind' ready' where f: "fold (release_successor push) ss (?ind, ?ready) = (ind', ready')"
    "length ind' = length ?ind" "\<forall>y. ind' ! y = (if y \<in> set ss then ?ind ! y - 1 else ?ind ! y)"
    "set ready' = set ?ready \<union> {t \<in> set ss. ?ind ! t = 1}" "distinct ready'"
    using Cons.IH [OF s(4), of ?ind ?ready] by blast
  have "fold (release_successor push) (s # ss) (indegrees, ready) = (ind', ready')"
    using f(1) s(1) by (simp add: release_successor_def)
  moreover have "\<forall>y. ind' ! y = (if y \<in> set (s # ss) then indegrees ! y - 1 else indegrees ! y)"
    using f(3) s(1,3) by (auto simp: nth_list_update)
  moreover have "set ready' = set ready \<union> {t \<in> set (s # ss). indegrees ! t = 1}"
  proof -
    have "?ind ! t = indegrees ! t" if "t \<in> set ss" for t using that s(3) by (metis nth_list_update_neq)
    then show ?thesis using f(4) by (auto simp: pushed)
  qed
  ultimately show ?case using f(2,5) by auto
qed

lemma kahn_inv_step:
  assumes ok: "adjacency_ok adj" "rows_distinct adj" and inv: "kahn_inv adj indegrees (node # rest) ordered"
  shows "\<exists>indegrees' ready'. fold (release_successor push) (adj ! node) (indegrees, rest) = (indegrees', ready') \<and>
    kahn_inv adj indegrees' ready' (ordered @ [node])"
proof -
  let ?O = "set ordered"
  note d = inv [unfolded kahn_inv_def]
  have len: "length indegrees = length adj" and node: "node < length adj" "node \<notin> ?O" "node \<notin> set rest"
    and dist: "distinct ordered" "distinct rest" "?O \<inter> set rest = {}" and sub: "?O \<subseteq> {..<length adj}" "set rest \<subseteq> {..<length adj}"
    using d by auto
  have ind: "indegrees ! y = indegrees_of adj ?O y" if "y < length adj" for y using d that by blast
  have zero: "y \<in> ?O \<or> y = node \<or> y \<in> set rest \<longleftrightarrow> indegrees_of adj ?O y = 0" if "y < length adj" for y
    using d that by auto
  have succ: "y \<in> set (adj ! node) \<longleftrightarrow> (node, y) \<in> edges_of adj" for y using node by (simp add: edges_of_def)
  have pos: "1 \<le> indegrees_of adj ?O y" if "(node, y) \<in> edges_of adj" for y
  proof -
    have "indegrees_of adj ?O y \<noteq> 0" using that node(2) by (auto simp: indegrees_of_zero)
    then show ?thesis by (simp add: indegrees_of_def)
  qed
  have less: "y < length adj" if "(node, y) \<in> edges_of adj" for y using edges_of_less [OF ok(1) that] by simp
  have "\<forall>s \<in> set (adj ! node). s < length indegrees \<and> 1 \<le> indegrees ! s"
    using pos less ind by (auto simp: succ len)
  moreover have "\<forall>r \<in> set rest. indegrees ! r = 0"
  proof
    fix r assume r: "r \<in> set rest"
    then have "r < length adj" using sub(2) by auto
    with r show "indegrees ! r = 0" using ind [of r] zero [of r] by simp
  qed
  moreover have "distinct (adj ! node)" using ok(2) node(1) by (simp add: rows_distinct_def)
  ultimately obtain ind' ready' where f: "fold (release_successor push) (adj ! node) (indegrees, rest) = (ind', ready')"
    "length ind' = length indegrees" "\<forall>y. ind' ! y = (if y \<in> set (adj ! node) then indegrees ! y - 1 else indegrees ! y)"
    "set ready' = set rest \<union> {s \<in> set (adj ! node). indegrees ! s = 1}" "distinct ready'"
    using release_all dist(2) by blast
  have ins: "indegrees_of adj (set (ordered @ [node])) y =
      (if (node, y) \<in> edges_of adj then indegrees_of adj ?O y - 1 else indegrees_of adj ?O y)" for y
    using indegrees_of_insert [OF node(2)] by simp
  have ready: "y \<in> set ready' \<longleftrightarrow> y \<in> set rest \<or> (node, y) \<in> edges_of adj \<and> indegrees_of adj ?O y = 1" for y
    unfolding f(4) using ind less by (auto simp: succ)
  have fresh: "y \<notin> ?O \<and> y \<noteq> node \<and> y \<notin> set rest" if "(node, y) \<in> edges_of adj" for y
    using zero [OF less [OF that]] pos [OF that] by linarith
  have "y \<in> set ((ordered @ [node]) @ ready') \<longleftrightarrow> indegrees_of adj (set (ordered @ [node])) y = 0"
    if "y < length adj" for y
    unfolding ins using zero [OF that] pos [of y] fresh [of y] by (cases "(node, y) \<in> edges_of adj") (auto simp: ready)
  moreover have "y \<notin> ?O \<and> y \<noteq> node" if "y \<in> set ready'" for y
    using that fresh [of y] dist(3) node(3) by (auto simp: ready)
  then have "distinct ((ordered @ [node]) @ ready')" using dist(1) node(2) f(5) by auto
  moreover have "set ready' \<subseteq> {..<length adj}" using sub(2) less by (auto simp: ready)
  moreover have "(node, a) \<notin> edges_of adj" if "a \<in> ?O" for a using fresh that by blast
  moreover have "(node, node) \<notin> edges_of adj" using fresh by blast
  moreover have "\<forall>y < length adj. ind' ! y = indegrees_of adj (set (ordered @ [node])) y"
    using f(3) ind unfolding ins by (simp add: succ)
  ultimately have "kahn_inv adj ind' ready' (ordered @ [node])"
    unfolding kahn_inv_def using f(2) len sub(1) node(1) d by (simp add: sorted_wrt_append)
  with f(1) show ?thesis by blast
qed

lemma kahn_ok:
  assumes ok: "adjacency_ok adj" "rows_distinct adj" and "kahn_inv adj indegrees ready ordered"
  shows "\<exists>indegrees' ordered'. kahn push adj indegrees ready ordered = Some ordered' \<and> kahn_inv adj indegrees' [] ordered'"
  using assms(3)
proof (induction "length adj - length ordered" arbitrary: indegrees ready ordered rule: less_induct)
  case less
  show ?case
  proof (cases ready)
    case Nil
    with less.prems show ?thesis by (auto simp: kahn.simps)
  next
    case (Cons node rest)
    obtain ind' ready' where s: "fold (release_successor push) (adj ! node) (indegrees, rest) = (ind', ready')"
      "kahn_inv adj ind' ready' (ordered @ [node])"
      using kahn_inv_step [OF ok less.prems [unfolded Cons]] by blast
    have "card (set (ordered @ [node])) \<le> card {..<length adj}"
      by (rule card_mono) (use s(2) in \<open>auto simp: kahn_inv_def\<close>)
    moreover have "distinct (ordered @ [node])" using s(2) by (simp add: kahn_inv_def)
    ultimately have "length (ordered @ [node]) \<le> length adj" using distinct_card by fastforce
    moreover have "kahn push adj indegrees ready ordered = kahn push adj ind' ready' (ordered @ [node])"
      by (subst kahn.simps) (simp add: Cons s(1))
    ultimately show ?thesis using less.hyps [OF _ s(2)] by simp
  qed
qed

end

interpretation heap: worklist insort
  by unfold_locales (simp add: set_insort_key distinct_insort)

interpretation deque: worklist "\<lambda>x xs. xs @ [x]"
  by unfold_locales simp

definition topological :: "nat list list \<Rightarrow> nat list \<Rightarrow> bool" where
  "topological adj ordered \<longleftrightarrow> distinct ordered \<and> set ordered = {..<length adj} \<and>
     (\<forall>x y. (x, y) \<in> edges_of adj \<longrightarrow> (\<exists>i j. i < j \<and> j < length ordered \<and> ordered ! i = x \<and> ordered ! j = y))"

lemma kahn_complete:
  assumes ok: "adjacency_ok adj" and inv: "kahn_inv adj indegrees [] ordered" and len: "length ordered = length adj"
  shows "topological adj ordered"
proof -
  have dist: "distinct ordered" "set ordered \<subseteq> {..<length adj}" "sorted_wrt (\<lambda>a b. (b, a) \<notin> edges_of adj) ordered"
    using inv by (auto simp: kahn_inv_def)
  have all: "set ordered = {..<length adj}"
    using dist len by (intro card_subset_eq) (simp_all add: distinct_card)
  have "\<exists>i j. i < j \<and> j < length ordered \<and> ordered ! i = x \<and> ordered ! j = y" if e: "(x, y) \<in> edges_of adj" for x y
  proof -
    obtain i j where ij: "i < length ordered" "ordered ! i = x" "j < length ordered" "ordered ! j = y"
      using edges_of_less [OF ok e] all by (metis in_set_conv_nth lessThan_iff)
    have "\<not> j < i" using sorted_wrt_nth_less [OF dist(3), of j i] ij e by auto
    moreover have "i \<noteq> j" using inv ij e by (auto simp: kahn_inv_def)
    ultimately show ?thesis using ij by (meson nat_neq_iff)
  qed
  with dist all show ?thesis by (simp add: topological_def)
qed

lemma topological_acyclic:
  assumes "topological adj ordered"
  shows "acyclic (edges_of adj)"
proof -
  have "edges_of adj \<subseteq> measure (\<lambda>x. THE i. i < length ordered \<and> ordered ! i = x)"
  proof
    fix e assume "e \<in> edges_of adj"
    then obtain x y i j where e: "e = (x, y)" "i < j" "j < length ordered" "ordered ! i = x" "ordered ! j = y"
      using assms unfolding topological_def by (metis surj_pair)
    have "(THE i. i < length ordered \<and> ordered ! i = ordered ! k) = k" if "k < length ordered" for k
      using assms that by (intro the_equality) (auto simp: topological_def nth_eq_iff_index_eq)
    from this [of i] this [of j] e show "e \<in> measure (\<lambda>x. THE i. i < length ordered \<and> ordered ! i = x)" by auto
  qed
  then show ?thesis by (meson acyclic_subset wf_acyclic wf_measure)
qed

lemma kahn_stuck:
  assumes ok: "adjacency_ok adj" and inv: "kahn_inv adj indegrees [] ordered" and len: "length ordered \<noteq> length adj"
  shows "\<not> acyclic (edges_of adj)"
proof
  assume "acyclic (edges_of adj)"
  then have wf: "wf (edges_of adj)" by (rule finite_acyclic_wf [OF finite_edges_of])
  let ?R = "{..<length adj} - set ordered"
  have dist: "distinct ordered" "set ordered \<subseteq> {..<length adj}" using inv by (auto simp: kahn_inv_def)
  have "card (set ordered) \<noteq> length adj" using distinct_card [OF dist(1)] len by simp
  then have "?R \<noteq> {}" using dist(2) by (metis Diff_eq_empty_iff card_lessThan subset_antisym)
  then obtain y where y: "y \<in> ?R" "\<And>x. (x, y) \<in> edges_of adj \<Longrightarrow> x \<notin> ?R"
    using wfE_min [OF wf] by (metis ex_in_conv)
  have "indegrees_of adj (set ordered) y \<noteq> 0" using inv y(1) by (auto simp: kahn_inv_def)
  then obtain x where "(x, y) \<in> edges_of adj" "x \<notin> set ordered" by (auto simp: indegrees_of_zero)
  with y(2) edges_of_less [OF ok] show False by blast
qed

lemma topological_order_ok:
  assumes ok: "adjacency_ok adj" "rows_distinct adj" and ind: "length indegrees = length adj"
    "\<And>y. y < length adj \<Longrightarrow> indegrees ! y = indegrees_of adj {} y"
  shows "acyclic (edges_of adj) \<Longrightarrow> \<exists>ordered. topological_order adj indegrees = Some (Inr ordered) \<and> topological adj ordered"
    and "\<not> acyclic (edges_of adj) \<Longrightarrow> topological_order adj indegrees = Some (Inl ValueError)"
proof -
  let ?ready = "free_nodes indegrees"
  have "kahn_inv adj indegrees ?ready []" using ind by (auto simp: kahn_inv_def free_nodes_def)
  from heap.kahn_ok [OF ok this] obtain ind' ordered where k: "kahn insort adj indegrees ?ready [] = Some ordered" "kahn_inv adj ind' [] ordered"
    by blast
  show "\<exists>ordered. topological_order adj indegrees = Some (Inr ordered) \<and> topological adj ordered"
    if "acyclic (edges_of adj)"
    using that kahn_stuck [OF ok(1) k(2)] kahn_complete [OF ok(1) k(2)] k(1) by (auto simp: topological_order_def)
  show "topological_order adj indegrees = Some (Inl ValueError)" if "\<not> acyclic (edges_of adj)"
    using that kahn_complete [OF ok(1) k(2)] topological_acyclic k(1) by (auto simp: topological_order_def)
qed

section \<open>Ranks\<close>

lemma rank_fold_other:
  assumes "set xs \<subseteq> {..<length r}"
  shows "length (fold (\<lambda>(position, node) rank. rank[node := position]) (enumerate k xs) r) = length r"
    and "y \<notin> set xs \<Longrightarrow> fold (\<lambda>(position, node) rank. rank[node := position]) (enumerate k xs) r ! y = r ! y"
  using assms by (induction xs arbitrary: k r) auto

lemma rank_fold:
  assumes "distinct xs" and "set xs \<subseteq> {..<length r}" and "i < length xs"
  shows "fold (\<lambda>(position, node) rank. rank[node := position]) (enumerate k xs) r ! (xs ! i) = k + i"
  using assms
proof (induction xs arbitrary: k r i)
  case Nil
  then show ?case by simp
next
  case (Cons x xs)
  show ?case
  proof (cases i)
    case 0
    with Cons.prems show ?thesis by (simp add: rank_fold_other(2))
  next
    case (Suc j)
    with Cons.prems Cons.IH [of "r[x := k]" j "Suc k"] show ?thesis by simp
  qed
qed

lemma rank_less:
  assumes t: "topological adj ordered" and e: "(x, y) \<in> (edges_of adj)\<^sup>+"
  shows "rank_of (length adj) ordered ! x < rank_of (length adj) ordered ! y"
proof -
  have pos: "rank_of (length adj) ordered ! (ordered ! i) = i" if "i < length ordered" for i
    using rank_fold [of ordered "replicate (length adj) 0" i 0] t that by (simp add: rank_of_def topological_def)
  have one: "rank_of (length adj) ordered ! x < rank_of (length adj) ordered ! y" if "(x, y) \<in> edges_of adj" for x y
    using that t pos unfolding topological_def by (metis less_trans)
  from e show ?thesis by (induction rule: trancl_induct) (auto dest: one)
qed

text \<open>Successors sorted by rank: no later one reaches an earlier one.\<close>

lemma sorted_by_rank:
  assumes "topological adj ordered"
  shows "sorted_wrt (\<lambda>a b. (b, a) \<notin> (edges_of adj)\<^sup>+) (sort_key ((!) (rank_of (length adj) ordered)) xs)"
proof -
  have "sorted (map ((!) (rank_of (length adj) ordered)) (sort_key ((!) (rank_of (length adj) ordered)) xs))" by simp
  then show ?thesis
    unfolding sorted_map by (rule sorted_wrt_mono_rel [rotated]) (use rank_less [OF assms] in \<open>force simp: not_less\<close>)
qed

end
