(* ===== verification/Reduction_Transitive.thy ===== *)
theory Reduction_Transitive
  imports Reduction_Order
begin

text \<open>Both branches of \<open>transitive_reduction\<close> return the least relation with the same closure.\<close>

unbundle bit_operations_syntax

section \<open>The reduction of a relation\<close>

definition reduced :: "('a \<times> 'a) set \<Rightarrow> ('a \<times> 'a) set" where
  "reduced E = {(a, c). (a, c) \<in> E \<and> (\<nexists>b. (a, b) \<in> E \<and> (b, c) \<in> E\<^sup>+)}"

lemma reduced_subset: "reduced E \<subseteq> E"
  by (auto simp: reduced_def)

lemma trancl_unfold_left: "(x, k) \<in> E\<^sup>+ \<longleftrightarrow> (\<exists>s. (x, s) \<in> E \<and> (k = s \<or> (s, k) \<in> E\<^sup>+))"
proof
  assume "(x, k) \<in> E\<^sup>+"
  then show "\<exists>s. (x, s) \<in> E \<and> (k = s \<or> (s, k) \<in> E\<^sup>+)" by (rule converse_tranclE) blast+
qed (auto intro: trancl_into_trancl2)

lemma reduced_trancl:
  assumes "finite E" and "acyclic E"
  shows "(reduced E)\<^sup>+ = E\<^sup>+"
proof
  show "(reduced E)\<^sup>+ \<subseteq> E\<^sup>+" by (rule trancl_mono_subset [OF reduced_subset])
  have wf: "wf (E\<inverse>)" using assms by (simp add: finite_acyclic_wf_converse)
  have path: "(a, c) \<in> (reduced E)\<^sup>+" if "(a, c) \<in> E\<^sup>+" for a c
    using wf that
  proof (induction a arbitrary: c rule: wf_induct_rule)
    case (less a)
    let ?S = "{b. (a, b) \<in> E \<and> (b, c) \<in> E\<^sup>*}"
    from less.prems obtain b0 where "b0 \<in> ?S" by (auto dest: tranclD)
    from wfE_min [OF wf_trancl [OF finite_acyclic_wf [OF assms]] this]
    obtain b where b: "(a, b) \<in> E" "(b, c) \<in> E\<^sup>*" and min: "\<And>d. (d, b) \<in> E\<^sup>+ \<Longrightarrow> d \<notin> ?S"
      by blast
    have "\<nexists>d. (a, d) \<in> E \<and> (d, b) \<in> E\<^sup>+"
      using min b(2) by (auto intro: trancl_into_rtrancl rtrancl_trans)
    with b(1) have "(a, b) \<in> reduced E" by (simp add: reduced_def)
    moreover have "b = c \<or> (b, c) \<in> (reduced E)\<^sup>+"
      using b less.IH [of b c] by (auto simp: rtrancl_eq_or_trancl)
    ultimately show ?case by (auto intro: trancl_into_trancl2)
  qed
  then show "E\<^sup>+ \<subseteq> (reduced E)\<^sup>+" by auto
qed

lemma reduced_least:
  assumes "acyclic E" and same: "F\<^sup>+ = E\<^sup>+"
  shows "reduced E \<subseteq> F"
proof
  fix e assume "e \<in> reduced E"
  then obtain a c where e: "e = (a, c)" "(a, c) \<in> E" "\<nexists>b. (a, b) \<in> E \<and> (b, c) \<in> E\<^sup>+"
    by (auto simp: reduced_def)
  then have "(a, c) \<in> F\<^sup>+" unfolding same by auto
  then consider (edge) "(a, c) \<in> F" | (path) b where "(a, b) \<in> F\<^sup>+" "(b, c) \<in> F\<^sup>+"
    unfolding trancl_unfold_left [of a c] by blast
  then show "e \<in> F"
  proof cases
    case edge
    with e(1) show ?thesis by simp
  next
    case path
    then have "(a, b) \<in> E\<^sup>+" and bc: "(b, c) \<in> E\<^sup>+" unfolding same by blast+
    then obtain d where "(a, d) \<in> E" "d = b \<or> (d, b) \<in> E\<^sup>+" unfolding trancl_unfold_left [of a b] by blast
    with bc e(3) show ?thesis by (meson trancl_trans)
  qed
qed

section \<open>Covering the successors of a node\<close>

text \<open>The selection both branches make, over the sets of reached nodes.\<close>

fun cover_with :: "('a \<Rightarrow> 'a set) \<Rightarrow> 'a list \<Rightarrow> 'a set \<Rightarrow> 'a list" where
  "cover_with R [] C = []"
| "cover_with R (s # ss) C = (if s \<in> C then cover_with R ss C else s # cover_with R ss (C \<union> R s))"

lemma cover_with_sub: "set (cover_with R ss C) \<subseteq> set ss" "distinct ss \<Longrightarrow> distinct (cover_with R ss C)"
proof -
  show sub: "set (cover_with R ss C) \<subseteq> set ss" for ss C by (induction ss arbitrary: C) auto
  show "distinct ss \<Longrightarrow> distinct (cover_with R ss C)"
    using sub by (induction ss arbitrary: C) (auto split: if_splits)
qed

lemma cover_with_set:
  assumes "sorted_wrt (\<lambda>a b. (b, a) \<notin> E\<^sup>+) ss" and "E `` C \<subseteq> C"
  shows "set (cover_with (\<lambda>s. E\<^sup>* `` {s}) ss C) = {s \<in> set ss. s \<notin> C \<and> (\<forall>t \<in> set ss. t \<noteq> s \<longrightarrow> (t, s) \<notin> E\<^sup>*)}"
  using assms
proof (induction ss arbitrary: C)
  case Nil
  then show ?case by simp
next
  case (Cons s ss)
  have closed: "E\<^sup>* `` C = C" by (rule Image_closed_trancl [OF Cons.prems(2)])
  have sorted: "sorted_wrt (\<lambda>a b. (b, a) \<notin> E\<^sup>+) ss" using Cons.prems(1) by simp
  show ?case
  proof (cases "s \<in> C")
    case True
    then have "x \<in> C" if "(s, x) \<in> E\<^sup>*" for x using that closed by blast
    with True Cons.IH [OF sorted Cons.prems(2)] show ?thesis by auto
  next
    case False
    have "(t, s) \<notin> E\<^sup>*" if "t \<in> set ss" "t \<noteq> s" for t
      using Cons.prems(1) that by (auto simp: rtrancl_eq_or_trancl)
    moreover have "E `` (C \<union> E\<^sup>* `` {s}) \<subseteq> C \<union> E\<^sup>* `` {s}"
      using Cons.prems(2) by (auto intro: rtrancl_into_rtrancl)
    ultimately show ?thesis using False Cons.IH [OF sorted, of "C \<union> E\<^sup>* `` {s}"] by auto
  qed
qed

lemma cover_row:
  assumes acyclic: "acyclic E" and succ: "set ss = {y. (x, y) \<in> E}" and sorted: "sorted_wrt (\<lambda>a b. (b, a) \<notin> E\<^sup>+) ss"
  shows "set (cover_with (\<lambda>s. E\<^sup>* `` {s}) ss {}) = {y. (x, y) \<in> reduced E}"
proof -
  have "(t, s) \<in> E\<^sup>+ \<longleftrightarrow> t \<noteq> s \<and> (t, s) \<in> E\<^sup>*" for t s
    using acyclic by (auto simp: acyclic_def rtrancl_eq_or_trancl)
  then show ?thesis
    using cover_with_set [OF sorted, of "{}"] by (auto simp: succ reduced_def)
qed

section \<open>Marking\<close>

lemma mark_reachable_ok:
  assumes ok: "adjacency_ok adj" and "set pending \<subseteq> {..<length adj}" and "finite covered"
    and "edges_of adj `` covered \<subseteq> covered \<union> set pending"
  shows "mark_reachable adj covered pending = Some (covered \<union> (edges_of adj)\<^sup>* `` set pending)"
  using assms(2-)
proof (induction "(\<Sum>x \<in> {..<length adj} - covered. length (adj ! x) + 1) + length pending"
    arbitrary: covered pending rule: less_induct)
  case less
  let ?E = "edges_of adj"
  show ?case
  proof (cases pending)
    case Nil
    then show ?thesis by (simp add: mark_reachable.simps)
  next
    case (Cons p rest)
    have p: "p < length adj" "set rest \<subseteq> {..<length adj}" using less.prems(1) Cons by simp_all
    show ?thesis
    proof (cases "p \<in> covered")
      case True
      have "mark_reachable adj covered pending = mark_reachable adj covered rest"
        by (subst mark_reachable.simps) (simp add: Cons True)
      also have "\<dots> = Some (covered \<union> ?E\<^sup>* `` set rest)"
        by (rule less.hyps) (use Cons True less.prems p in auto)
      also have "covered \<union> ?E\<^sup>* `` set rest = covered \<union> ?E\<^sup>* `` set pending"
      proof -
        have "w \<in> covered \<union> ?E\<^sup>* `` set rest" if w: "(p, w) \<in> ?E\<^sup>*" for w
        proof (rule ccontr)
          assume "w \<notin> covered \<union> ?E\<^sup>* `` set rest"
          then obtain u v where uv: "u \<in> covered" "v \<notin> covered" "(p, u) \<in> ?E\<^sup>*" "(u, v) \<in> ?E" "(v, w) \<in> ?E\<^sup>*"
            using path_leaves [OF w True] by blast
          then have "v \<in> set rest" using less.prems(3) Cons True by auto
          with uv(5) \<open>w \<notin> covered \<union> ?E\<^sup>* `` set rest\<close> show False by blast
        qed
        then show ?thesis using Cons by auto
      qed
      finally show ?thesis .
    next
      case False
      have succ: "set (adj ! p) = ?E `` {p}" using p(1) by (auto simp: edges_of_def)
      have split: "{..<length adj} - covered = insert p ({..<length adj} - insert p covered)" using p(1) False by auto
      have "(\<Sum>x \<in> {..<length adj} - covered. length (adj ! x) + 1) =
          length (adj ! p) + 1 + (\<Sum>x \<in> {..<length adj} - insert p covered. length (adj ! x) + 1)"
        unfolding split by (rule sum.insert) auto
      moreover have "mark_reachable adj covered pending = mark_reachable adj (insert p covered) (rev (adj ! p) @ rest)"
        by (subst mark_reachable.simps) (simp add: Cons False)
      moreover have "set (rev (adj ! p) @ rest) \<subseteq> {..<length adj}"
        using p ok by (auto simp: adjacency_ok_def)
      moreover have "?E `` insert p covered \<subseteq> insert p covered \<union> set (rev (adj ! p) @ rest)"
        using less.prems(3) Cons succ by auto
      ultimately have "mark_reachable adj covered pending =
          Some (insert p covered \<union> ?E\<^sup>* `` set (rev (adj ! p) @ rest))"
        using less.hyps [of "insert p covered" "rev (adj ! p) @ rest"] less.prems(2) Cons by simp
      also have "insert p covered \<union> ?E\<^sup>* `` set (rev (adj ! p) @ rest) = covered \<union> ?E\<^sup>* `` set pending"
        using succ Cons by (auto intro: converse_rtrancl_into_rtrancl elim: converse_rtranclE)
      finally show ?thesis .
    qed
  qed
qed

lemma sparse_cover_ok:
  assumes ok: "adjacency_ok adj" and "set supers \<subseteq> {..<length adj}" and "finite C" and "edges_of adj `` C \<subseteq> C"
    and fin: "\<And>s. finite ((edges_of adj)\<^sup>* `` {s})"
  shows "sparse_cover adj sub supers C = Some (map (Pair sub) (cover_with (\<lambda>s. (edges_of adj)\<^sup>* `` {s}) supers C))"
  using assms(2-4)
proof (induction supers arbitrary: C)
  case Nil
  then show ?case by simp
next
  case (Cons s supers)
  show ?case
  proof (cases "s \<in> C")
    case True
    with Cons show ?thesis by simp
  next
    case False
    let ?C = "C \<union> (edges_of adj)\<^sup>* `` {s}"
    have "mark_reachable adj C [s] = Some ?C"
      using mark_reachable_ok [OF ok, of "[s]" C] Cons.prems by auto
    moreover have "edges_of adj `` ?C \<subseteq> ?C" using Cons.prems(3) by (auto intro: rtrancl_into_rtrancl)
    ultimately show ?thesis using Cons.IH [of ?C] Cons.prems False fin by simp
  qed
qed

section \<open>Bit rows\<close>

lemma bit_single: "bit (2 ^ s :: int) k \<longleftrightarrow> k = s"
  by (auto simp: bit_exp_iff)

lemma masked: "(c :: int) AND 2 ^ s \<noteq> 0 \<longleftrightarrow> bit c s"
proof
  assume "c AND 2 ^ s \<noteq> 0"
  then obtain k where "bit (c AND 2 ^ s) k" by (metis bit_eqI bit_0_eq bot_apply bot_bool_def)
  then show "bit c s" by (auto simp: bit_and_iff bit_single)
next
  assume "bit c s"
  then have "bit (c AND 2 ^ s) s" by (simp add: bit_and_iff bit_single)
  then show "c AND 2 ^ s \<noteq> 0" by auto
qed

lemma reachable_row_bit:
  "bit (fold (\<lambda>s row. row OR (push_bit s 1 OR r ! s)) ss row) k \<longleftrightarrow> bit row k \<or> (\<exists>s \<in> set ss. k = s \<or> bit (r ! s) k)"
  for row :: int
  by (induction ss arbitrary: row) (auto simp: bit_or_iff bit_single)

lemma reachable_row_bits: "bit (reachable_row adj r x) k \<longleftrightarrow> (\<exists>s \<in> set (adj ! x). k = s \<or> bit (r ! s) k)"
  unfolding reachable_row_def reachable_row_bit by simp

lemma bitset_cover_ok:
  assumes "\<And>s k. s \<in> set supers \<Longrightarrow> bit (r ! s) k \<longleftrightarrow> (s, k) \<in> E\<^sup>+"
  shows "bitset_cover r sub supers c = map (Pair sub) (cover_with (\<lambda>s. E\<^sup>* `` {s}) supers {k. bit c k})"
  using assms
proof (induction supers arbitrary: c)
  case Nil
  then show ?case by simp
next
  case (Cons s supers)
  have "{k. bit (c OR (push_bit s 1 OR r ! s)) k} = {k. bit c k} \<union> E\<^sup>* `` {s}"
    using Cons.prems by (auto simp: bit_or_iff bit_single rtrancl_eq_or_trancl)
  with Cons show ?case by (simp add: masked)
qed

lemma reachable_rows_ok:
  assumes t: "topological adj ordered" and "i < length adj"
  shows "bit (reachable_rows adj ordered ! i) k \<longleftrightarrow> (i, k) \<in> (edges_of adj)\<^sup>+"
proof -
  let ?step = "\<lambda>node r. r[node := reachable_row adj r node]"
  have done_rows: "length (fold ?step xs (replicate (length adj) 0)) = length adj \<and>
      (\<forall>i \<in> set xs. \<forall>k. bit (fold ?step xs (replicate (length adj) 0) ! i) k \<longleftrightarrow> (i, k) \<in> (edges_of adj)\<^sup>+)"
    if "set xs \<subseteq> {..<length adj}" "distinct xs"
      "\<forall>x y. (x, y) \<in> edges_of adj \<longrightarrow> x \<in> set xs \<longrightarrow> (\<exists>i j. i < j \<and> j < length xs \<and> xs ! i = y \<and> xs ! j = x)" for xs
    using that
  proof (induction xs rule: rev_induct)
    case Nil
    then show ?case by simp
  next
    case (snoc x xs)
    have before: "\<exists>i j. i < j \<and> j < length xs \<and> xs ! i = z \<and> xs ! j = y" if "(y, z) \<in> edges_of adj" "y \<in> set xs" for y z
    proof -
      obtain i j where ij: "i < j" "j < length (xs @ [x])" "(xs @ [x]) ! i = z" "(xs @ [x]) ! j = y"
        using snoc.prems(3) \<open>(y, z) \<in> edges_of adj\<close> \<open>y \<in> set xs\<close> by (metis UnCI set_append)
      have "j \<noteq> length xs" using ij(4) snoc.prems(2) that(2) by auto
      with ij show ?thesis by (intro exI [of _ i] exI [of _ j]) (simp add: nth_append)
    qed
    let ?r = "fold ?step xs (replicate (length adj) 0)"
    have IH: "length ?r = length adj" "\<And>i k. i \<in> set xs \<Longrightarrow> bit (?r ! i) k \<longleftrightarrow> (i, k) \<in> (edges_of adj)\<^sup>+"
      using snoc.IH snoc.prems(1,2) before by simp_all
    have succ: "y \<in> set (adj ! x) \<longleftrightarrow> (x, y) \<in> edges_of adj" for y using snoc.prems(1) by (simp add: edges_of_def)
    have later: "y \<in> set xs" if "(x, y) \<in> edges_of adj" for y
    proof -
      have "x \<in> set (xs @ [x])" by simp
      with snoc.prems(3) that obtain i j where "i < j" "j < length (xs @ [x])" "(xs @ [x]) ! i = y" by blast
      then show ?thesis using nth_mem [of i xs] by (simp add: nth_append)
    qed
    have "bit (reachable_row adj ?r x) k \<longleftrightarrow> (x, k) \<in> (edges_of adj)\<^sup>+" for k
      unfolding reachable_row_bits trancl_unfold_left [of x k] using later IH(2) by (auto simp: succ)
    with IH snoc.prems(1,2) show ?case by (auto simp: nth_list_update)
  qed
  have d: "distinct ordered" "set ordered = {..<length adj}" using t by (simp_all add: topological_def)
  have "\<exists>i j. i < j \<and> j < length (rev ordered) \<and> rev ordered ! i = y \<and> rev ordered ! j = x" if "(x, y) \<in> edges_of adj" for x y
  proof -
    obtain i j where "i < j" "j < length ordered" "ordered ! i = x" "ordered ! j = y"
      using t \<open>(x, y) \<in> edges_of adj\<close> unfolding topological_def by blast
    moreover from this have "rev ordered ! (length ordered - Suc j) = y" "rev ordered ! (length ordered - Suc i) = x"
      "length ordered - Suc j < length ordered - Suc i" by (simp_all add: rev_nth)
    ultimately show ?thesis by (metis diff_Suc_less length_rev less_trans not_less_eq length_greater_0_conv list.size(3) not_less0)
  qed
  with done_rows [of "rev ordered"] d assms(2) show ?thesis by (simp add: reachable_rows_def)
qed

section \<open>The whole reduction\<close>

lemma sort_distinct: "distinct xs \<Longrightarrow> sort xs = sorted_list_of_set (set xs)" for xs :: "'a::linorder list"
  by (simp add: sorted_list_of_set_sort_remdups distinct_remdups_id)

definition index_edges :: "nat \<Rightarrow> (nat \<times> nat) set \<Rightarrow> bool" where
  "index_edges n E \<longleftrightarrow> (\<forall>(a, b) \<in> E. a < n \<and> b < n \<and> a \<noteq> b)"

lemma validated_edges_from_eq:
  "validated_edges_from n previous es =
     (if index_edges n (set es) \<and> strictly_sorted (case previous of None \<Rightarrow> es | Some p \<Rightarrow> p # es)
      then Inr () else Inl ValueError)"
proof (induction es arbitrary: previous)
  case Nil
  then show ?case by (simp add: index_edges_def split: option.split)
next
  case (Cons e es)
  then show ?case by (cases e) (auto simp: index_edges_def not_le split: option.splits)
qed

lemma validated_sorted_edges:
  "validated_edges n (sorted_list_of_set (set es)) =
     (if index_edges n (set es) then Inr (sorted_list_of_set (set es)) else Inl ValueError)"
  by (simp add: validated_edges_def validated_edges_from_eq strictly_sorted_list_of_set)

lemma indexed_edges:
  assumes "distinct es" and "index_edges n (set es)"
  shows "\<exists>rows indegrees. fold add_indexed_edge es (replicate n {}, replicate n 0) = (rows, indegrees) \<and>
    length rows = n \<and> length indegrees = n \<and> (\<forall>x < n. rows ! x = {y. (x, y) \<in> set es}) \<and>
    (\<forall>y < n. indegrees ! y = int (card {x. (x, y) \<in> set es}))"
  using assms
proof (induction es rule: rev_induct)
  case Nil
  then show ?case by simp
next
  case (snoc e es)
  obtain a b where e: "e = (a, b)" by (cases e)
  have ab: "a < n" "b < n" "(a, b) \<notin> set es" "index_edges n (set es)"
    using snoc.prems e by (auto simp: index_edges_def)
  obtain rows ind where IH: "fold add_indexed_edge es (replicate n {}, replicate n 0) = (rows, ind)"
    "length rows = n" "length ind = n" "\<forall>x < n. rows ! x = {y. (x, y) \<in> set es}"
    "\<forall>y < n. ind ! y = int (card {x. (x, y) \<in> set es})"
    using snoc.IH snoc.prems(1) ab(4) by auto
  have "card {x. (x, b) \<in> set (es @ [e])} = Suc (card {x. (x, b) \<in> set es})"
  proof -
    have "{x. (x, b) \<in> set (es @ [e])} = insert a {x. (x, b) \<in> set es}" using e by auto
    moreover have "finite {x. (x, b) \<in> set es}"
      by (rule finite_subset [of _ "fst ` set es"]) (force, simp)
    ultimately show ?thesis using ab(3) by simp
  qed
  moreover have "{x. (x, y) \<in> set (es @ [e])} = {x. (x, y) \<in> set es}" if "y \<noteq> b" for y using e that by auto
  moreover have "\<forall>x < n. rows[a := insert b (rows ! a)] ! x = {y. (x, y) \<in> set (es @ [e])}"
    using IH(2,4) e ab(1) by (auto simp: nth_list_update)
  moreover have "fold add_indexed_edge (es @ [e]) (replicate n {}, replicate n 0) =
      (rows[a := insert b (rows ! a)], ind[b := ind ! b + 1])"
    by (simp only: fold_append fold_simps comp_apply IH(1)) (simp add: add_indexed_edge_def e)
  moreover have "\<forall>y < n. ind[b := ind ! b + 1] ! y = int (card {x. (x, y) \<in> set (es @ [e])})"
    using calculation(1,2) IH(3,5) ab(2) by (simp add: nth_list_update)
  ultimately show ?case using IH(2,3) by fastforce
qed

lemma row_direct:
  assumes ok: "adjacency_ok adj" "rows_distinct adj" and t: "topological adj ordered" and x: "x < length adj"
  defines "row \<equiv> cover_with (\<lambda>s. (edges_of adj)\<^sup>* `` {s}) (sort_key ((!) (rank_of (length adj) ordered)) (adj ! x)) {}"
  shows "set row = {y. (x, y) \<in> reduced (edges_of adj)}" and "distinct row"
    and "length (adj ! x) \<le> 1 \<Longrightarrow> set (adj ! x) = {y. (x, y) \<in> reduced (edges_of adj)}"
proof -
  let ?ss = "sort_key ((!) (rank_of (length adj) ordered)) (adj ! x)"
  have succ: "set ?ss = {y. (x, y) \<in> edges_of adj}" using x by (auto simp: edges_of_def)
  note row = cover_row [OF topological_acyclic [OF t] succ sorted_by_rank [OF t]]
  then show "set row = {y. (x, y) \<in> reduced (edges_of adj)}" by (simp add: row_def)
  show "distinct row" using ok(2) x by (simp add: row_def cover_with_sub(2) rows_distinct_def)
  assume "length (adj ! x) \<le> 1"
  then consider "adj ! x = []" | y where "adj ! x = [y]" by (cases "adj ! x") auto
  then show "set (adj ! x) = {y. (x, y) \<in> reduced (edges_of adj)}"
    by cases (simp_all add: row [symmetric])
qed

lemma sparse_rows_ok:
  assumes ok: "adjacency_ok adj" "rows_distinct adj" and t: "topological adj ordered"
  shows "\<exists>direct. sparse_rows adj (rank_of (length adj) ordered) (enumerate 0 adj) = Some direct \<and>
    distinct direct \<and> set direct = reduced (edges_of adj)"
proof -
  let ?rank = "rank_of (length adj) ordered"
  have fin: "finite ((edges_of adj)\<^sup>* `` {s})" for s
  proof (rule finite_subset)
    have "y = s \<or> y \<in> snd ` edges_of adj" if "(s, y) \<in> (edges_of adj)\<^sup>*" for y
      using that by (cases rule: rtranclE) force+
    then show "(edges_of adj)\<^sup>* `` {s} \<subseteq> insert s (snd ` edges_of adj)" by blast
  qed (simp add: finite_edges_of)
  have rows: "\<exists>direct. sparse_rows adj ?rank (enumerate k ss) = Some direct \<and> distinct direct \<and>
      set direct = {(a, b) \<in> reduced (edges_of adj). k \<le> a}"
    if "k + length ss = length adj" "ss = drop k adj" for k ss
    using that
  proof (induction ss arbitrary: k)
    case Nil
    then have "a < k" if "(a, b) \<in> edges_of adj" for a b using edges_of_less [OF ok(1) that] by simp
    then show ?case using reduced_subset [of "edges_of adj"] by fastforce
  next
    case (Cons row ss)
    have k: "k < length adj" using Cons.prems(1) by simp
    have "drop k adj = adj ! k # drop (Suc k) adj" by (rule Cons_nth_drop_Suc [OF k, symmetric])
    with Cons.prems(2) have ss: "ss = drop (Suc k) adj" and row: "row = adj ! k" by (simp_all only: list.inject)
    have "Suc k + length ss = length adj" using Cons.prems(1) by simp
    from Cons.IH [OF this ss] obtain rest where
      rest: "sparse_rows adj ?rank (enumerate (Suc k) ss) = Some rest" "distinct rest"
        "set rest = {(a, b) \<in> reduced (edges_of adj). Suc k \<le> a}" by blast
    let ?row = "cover_with (\<lambda>s. (edges_of adj)\<^sup>* `` {s}) (sort_key ((!) ?rank) (adj ! k)) {}"
    have "sparse_cover adj k (sort_key ((!) ?rank) (adj ! k)) {} = Some (map (Pair k) ?row)"
      by (rule sparse_cover_ok [OF ok(1)]) (use ok(1) k row fin in \<open>auto simp: adjacency_ok_def\<close>)
    moreover obtain now where now: "(if length row \<le> 1 then row else ?row) = now" by blast
    moreover have "set now = {y. (k, y) \<in> reduced (edges_of adj)} \<and> distinct now"
      using row_direct [OF ok t k] now k row ok(2) by (auto simp: rows_distinct_def split: if_splits)
    ultimately have run: "sparse_rows adj ?rank (enumerate k (row # ss)) = Some (map (Pair k) now @ rest)"
      and now_set: "set now = {y. (k, y) \<in> reduced (edges_of adj)}" "distinct now"
      using rest(1) row by auto
    have "distinct (map (Pair k) now @ rest)"
      using rest(2,3) now_set(2) by (auto simp: distinct_map inj_on_def)
    moreover have "set (map (Pair k) now @ rest) = {(a, b) \<in> reduced (edges_of adj). k \<le> a}"
      unfolding set_append set_map now_set(1) rest(3) by (auto simp: Suc_le_eq le_less)
    ultimately show ?case using run by blast
  qed
  from rows [of 0 adj] show ?thesis by auto
qed

lemma bitset_reduction_ok:
  assumes ok: "adjacency_ok adj" "rows_distinct adj" and t: "topological adj ordered"
  shows "bitset_reduction adj ordered (rank_of (length adj) ordered) = sorted_list_of_set (reduced (edges_of adj))"
proof -
  let ?rank = "rank_of (length adj) ordered"
  let ?r = "reachable_rows adj ordered"
  let ?row = "\<lambda>x. cover_with (\<lambda>s. (edges_of adj)\<^sup>* `` {s}) (sort_key ((!) ?rank) (adj ! x)) {}"
  have "bitset_cover ?r x (sort_key ((!) ?rank) (adj ! x)) 0 = map (Pair x) (?row x)" if "x < length adj" for x
    using bitset_cover_ok [of "sort_key ((!) ?rank) (adj ! x)" ?r "edges_of adj" x 0] that ok(1)
      reachable_rows_ok [OF t] by (auto simp: adjacency_ok_def)
  then have rows: "map (\<lambda>(sub, ss). bitset_cover ?r sub (sort_key ((!) ?rank) ss) 0) (enumerate 0 adj) =
      map (\<lambda>x. map (Pair x) (?row x)) [0..<length adj]"
    by (intro nth_equalityI) (simp_all add: nth_enumerate_eq)
  note direct = row_direct(1,2) [OF ok t]
  have "distinct (concat (map (\<lambda>x. map (Pair x) (?row x)) xs))" if "set xs \<subseteq> {..<length adj}" "distinct xs" for xs
    using that by (induction xs) (auto simp: distinct_map inj_on_def direct(2))
  from this [of "[0..<length adj]"] have "distinct (concat (map (\<lambda>x. map (Pair x) (?row x)) [0..<length adj]))"
    by (simp add: atLeast0LessThan)
  note sorted = sort_distinct [OF this]
  have "set (concat (map (\<lambda>x. map (Pair x) (?row x)) [0..<length adj])) =
      (\<Union>x \<in> {..<length adj}. Pair x ` set (?row x))"
    unfolding set_concat set_map image_image set_upt atLeast0LessThan ..
  also have "\<dots> = (\<Union>x \<in> {..<length adj}. Pair x ` {y. (x, y) \<in> reduced (edges_of adj)})"
    by (rule SUP_cong) (simp_all only: direct(1) lessThan_iff)
  also have "\<dots> = reduced (edges_of adj)"
    using reduced_subset [of "edges_of adj"] edges_of_less [OF ok(1)] by fastforce
  finally have "set (concat (map (\<lambda>x. map (Pair x) (?row x)) [0..<length adj])) = reduced (edges_of adj)" .
  with sorted show ?thesis unfolding bitset_reduction_def Let_def rows by (simp only:)
qed

theorem transitive_reduction_eq:
  "transitive_reduction n edges =
     Some (if index_edges n (set edges) \<and> acyclic (set edges) then Inr (sorted_list_of_set (reduced (set edges)))
       else Inl ValueError)"
proof (cases "index_edges n (set edges)")
  case False
  then show ?thesis by (simp add: transitive_reduction_def validated_sorted_edges)
next
  case True
  let ?es = "sorted_list_of_set (set edges)"
  have es: "distinct ?es" "set ?es = set edges" by simp_all
  obtain rows ind where f: "fold add_indexed_edge ?es (replicate n {}, replicate n 0) = (rows, ind)"
    "length rows = n" "length ind = n" "\<forall>x < n. rows ! x = {y. (x, y) \<in> set edges}"
    "\<forall>y < n. ind ! y = int (card {x. (x, y) \<in> set edges})"
    using indexed_edges [OF es(1), of n] True unfolding es(2) by blast
  let ?adj = "map sorted_list_of_set rows"
  have row: "set (?adj ! x) = {y. (x, y) \<in> set edges}" if "x < n" for x
  proof -
    have "finite {y. (x, y) \<in> set edges}" by (rule finite_subset [of _ "snd ` set edges"]) (force, simp)
    with f(2,4) that show ?thesis by simp
  qed
  have E: "edges_of ?adj = set edges" using row True f(2) by (auto simp: edges_of_def index_edges_def)
  have ok: "adjacency_ok ?adj" "rows_distinct ?adj"
    using row True f(2) by (auto simp: adjacency_ok_def rows_distinct_def index_edges_def)
  have ind: "length ind = length ?adj" "\<And>y. y < length ?adj \<Longrightarrow> ind ! y = indegrees_of ?adj {} y"
    using f(2,3,5) by (simp_all add: indegrees_of_def E)
  note topo = topological_order_ok [OF ok ind, unfolded E]
  show ?thesis
  proof (cases "acyclic (set edges)")
    case False
    with topo(2) True f(1) show ?thesis by (simp add: transitive_reduction_def validated_sorted_edges)
  next
    case acyclic: True
    obtain ordered where o: "topological_order ?adj ind = Some (Inr ordered)" "topological ?adj ordered"
      using topo(1) acyclic by blast
    obtain direct where direct: "sparse_rows ?adj (rank_of n ordered) (enumerate 0 ?adj) = Some direct"
      "distinct direct" "set direct = reduced (set edges)"
      using sparse_rows_ok [OF ok o(2)] f(2) unfolding E by auto
    have "sort direct = sorted_list_of_set (reduced (set edges))"
      using direct(2,3) sort_distinct by metis
    moreover have "bitset_reduction ?adj ordered (rank_of n ordered) = sorted_list_of_set (reduced (set edges))"
      using bitset_reduction_ok [OF ok o(2)] f(2) unfolding E by simp
    ultimately show ?thesis using True acyclic f(1) o(1) direct(1)
      by (simp add: transitive_reduction_def validated_sorted_edges Let_def)
  qed
qed

end
