(* ===== verification/Reduction_Quotient.thy ===== *)
theory Reduction_Quotient
  imports Reduction_Transitive
begin

text \<open>What \<open>quotient_and_reduce\<close> returns, against the relation its caller passed.\<close>

section \<open>Quotients of relations\<close>

definition quotient_edges :: "('a \<Rightarrow> 'b) \<Rightarrow> ('a \<times> 'a) set \<Rightarrow> ('b \<times> 'b) set" where
  "quotient_edges f E = {(f a, f b) |a b. (a, b) \<in> E \<and> f a \<noteq> f b}"

lemma quotient_reach:
  assumes "(a, b) \<in> E\<^sup>*"
  shows "(f a, f b) \<in> (quotient_edges f E)\<^sup>*"
  using assms
proof induction
  case (step b c)
  then show ?case by (cases "f b = f c") (auto simp: quotient_edges_def intro: rtrancl_into_rtrancl)
qed simp

lemma quotient_reach_back:
  assumes f: "\<And>a b. a \<in> D \<Longrightarrow> b \<in> D \<Longrightarrow> f a = f b \<Longrightarrow> b \<in> mutual E a" and E: "E \<subseteq> D \<times> D"
    and "(f a, j) \<in> (quotient_edges f E)\<^sup>*" and "a \<in> D"
  shows "\<exists>b \<in> D. f b = j \<and> (a, b) \<in> E\<^sup>*"
  using assms(3)
proof induction
  case base
  with assms(4) show ?case by blast
next
  case (step j k)
  then obtain b c d where b: "b \<in> D" "f b = j" "(a, b) \<in> E\<^sup>*" and cd: "(c, d) \<in> E" "j = f c" "k = f d"
    by (auto simp: quotient_edges_def)
  have "c \<in> mutual E b" using f [OF b(1)] cd E b(2) by auto
  then have "(a, d) \<in> E\<^sup>*" using b(3) cd(1) by (auto simp: mutual_def)
  with cd E show ?case by blast
qed

lemma quotient_acyclic:
  assumes f: "\<And>a b. a \<in> D \<Longrightarrow> b \<in> D \<Longrightarrow> f a = f b \<longleftrightarrow> b \<in> mutual E a" and E: "E \<subseteq> D \<times> D"
  shows "acyclic (quotient_edges f E)"
  unfolding acyclic_def
proof (intro allI notI)
  fix i assume "(i, i) \<in> (quotient_edges f E)\<^sup>+"
  then obtain j where j: "(i, j) \<in> quotient_edges f E" "(j, i) \<in> (quotient_edges f E)\<^sup>*" by (meson tranclD)
  then obtain a b where ab: "(a, b) \<in> E" "i = f a" "j = f b" "f a \<noteq> f b" by (auto simp: quotient_edges_def)
  obtain c where c: "c \<in> D" "f c = f a" "(b, c) \<in> E\<^sup>*"
    using quotient_reach_back [of D f E b i, OF _ E] f j(2) ab E by blast
  have "a \<in> mutual E c" using f [OF c(1)] c(2) ab(1) E by blast
  then have "b \<in> mutual E a" using ab(1) c(3) by (auto simp: mutual_def intro: rtrancl_trans)
  with f ab E show False by blast
qed

section \<open>Dense nodes\<close>

lemma find_position_eq:
  assumes "distinct xs"
  shows "find_index (\<lambda>m. m = x) xs = Some i \<longleftrightarrow> i < length xs \<and> xs ! i = x"
proof
  assume "find_index (\<lambda>m. m = x) xs = Some i"
  then show "i < length xs \<and> xs ! i = x" using find_index_Some by fastforce
next
  assume i: "i < length xs \<and> xs ! i = x"
  then obtain j where j: "find_index (\<lambda>m. m = x) xs = Some j"
    using find_index_from_None [of 0 "\<lambda>m. m = x" xs] nth_mem by (cases "find_index (\<lambda>m. m = x) xs") force+
  from find_index_Some [OF this] i assms have "j = i" by (auto simp: nth_eq_iff_index_eq)
  with j show "find_index (\<lambda>m. m = x) xs = Some i" by simp
qed

lemma dense_edge:
  assumes "distinct ordered"
  shows "validated_member_edge ordered e = Inr (a, b) \<longleftrightarrow>
      a < length ordered \<and> b < length ordered \<and> e = (ordered ! a, ordered ! b)"
    and "validated_member_edge ordered e = Inl x \<Longrightarrow> x = ValueError \<and> \<not> (fst e \<in> set ordered \<and> snd e \<in> set ordered)"
proof -
  have nth: "find_index (\<lambda>m. m = ordered ! i) ordered = Some i" if "i < length ordered" for i
    using that find_position_eq [OF assms] by blast
  show "validated_member_edge ordered e = Inr (a, b) \<longleftrightarrow>
      a < length ordered \<and> b < length ordered \<and> e = (ordered ! a, ordered ! b)"
  proof
    assume "validated_member_edge ordered e = Inr (a, b)"
    then show "a < length ordered \<and> b < length ordered \<and> e = (ordered ! a, ordered ! b)"
      by (cases e) (auto simp: validated_member_edge_def find_position_eq [OF assms] split: option.splits)
  qed (simp add: validated_member_edge_def nth)
  show "validated_member_edge ordered e = Inl x \<Longrightarrow> x = ValueError \<and> \<not> (fst e \<in> set ordered \<and> snd e \<in> set ordered)"
    by (cases e) (auto simp: validated_member_edge_def find_index_from_None split: option.splits)
qed

lemma dense_edges:
  assumes "distinct ordered"
  shows "set edges \<subseteq> set ordered \<times> set ordered \<Longrightarrow> \<exists>dense. rmap_list (validated_member_edge ordered) edges = Inr dense \<and>
      set dense = {(a, b). a < length ordered \<and> b < length ordered \<and> (ordered ! a, ordered ! b) \<in> set edges}"
    and "\<not> set edges \<subseteq> set ordered \<times> set ordered \<Longrightarrow> rmap_list (validated_member_edge ordered) edges = Inl ValueError"
proof -
  note one = dense_edge [OF assms]
  show "\<exists>dense. rmap_list (validated_member_edge ordered) edges = Inr dense \<and>
      set dense = {(a, b). a < length ordered \<and> b < length ordered \<and> (ordered ! a, ordered ! b) \<in> set edges}"
    if "set edges \<subseteq> set ordered \<times> set ordered"
    using that
  proof (induction edges)
    case Nil
    then show ?case by simp
  next
    case (Cons e edges)
    have "fst e \<in> set ordered \<and> snd e \<in> set ordered" using Cons.prems by (cases e) auto
    then obtain a b where ab: "validated_member_edge ordered e = Inr (a, b)"
      using one(2) by (cases "validated_member_edge ordered e") auto
    obtain dense where d: "rmap_list (validated_member_edge ordered) edges = Inr dense"
      "set dense = {(a, b). a < length ordered \<and> b < length ordered \<and> (ordered ! a, ordered ! b) \<in> set edges}"
      using Cons.IH Cons.prems by auto
    have less: "a < length ordered" "b < length ordered" using one(1) ab by blast+
    have "(ordered ! c, ordered ! d) = e \<longleftrightarrow> c = a \<and> d = b" if "c < length ordered" "d < length ordered" for c d
      using one(1) [of e a b] ab that assms by (auto simp: nth_eq_iff_index_eq)
    then have "{(c, d). c < length ordered \<and> d < length ordered \<and> (ordered ! c, ordered ! d) \<in> set (e # edges)} =
        insert (a, b) (set dense)"
      unfolding d(2) using less by auto
    with ab d(1) show ?case by simp
  qed
  show "rmap_list (validated_member_edge ordered) edges = Inl ValueError" if "\<not> set edges \<subseteq> set ordered \<times> set ordered"
    using that
  proof (induction edges)
    case Nil
    then show ?case by simp
  next
    case (Cons e edges)
    show ?case
    proof (cases "validated_member_edge ordered e")
      case (Inl x)
      with one(2) show ?thesis by simp
    next
      case (Inr ab)
      then obtain a b where "validated_member_edge ordered e = Inr (a, b)" by (cases ab) auto
      with one(1) [of e a b] have "e \<in> set ordered \<times> set ordered" by auto
      with Cons Inr show ?thesis by simp
    qed
  qed
qed

lemma add_edges:
  assumes "set es \<subseteq> {..<n} \<times> {..<n}"
  shows "\<exists>rows bw. fold add_edge es (replicate n {}, replicate n {}) = (rows, bw) \<and> length rows = n \<and> length bw = n \<and>
    (\<forall>x < n. rows ! x = {y. (x, y) \<in> set es \<and> x \<noteq> y}) \<and> (\<forall>y < n. bw ! y = {x. (x, y) \<in> set es \<and> x \<noteq> y})"
  using assms
proof (induction es rule: rev_induct)
  case Nil
  then show ?case by simp
next
  case (snoc e es)
  obtain a b where e: "e = (a, b)" by (cases e)
  obtain rows bw where IH: "fold add_edge es (replicate n {}, replicate n {}) = (rows, bw)" "length rows = n" "length bw = n"
    "\<forall>x < n. rows ! x = {y. (x, y) \<in> set es \<and> x \<noteq> y}" "\<forall>y < n. bw ! y = {x. (x, y) \<in> set es \<and> x \<noteq> y}"
    using snoc by auto
  have ab: "a < n" "b < n" using snoc.prems e by auto
  show ?case
  proof (cases "a = b")
    case True
    have "fold add_edge (es @ [e]) (replicate n {}, replicate n {}) = (rows, bw)"
      by (simp only: fold_append fold_simps comp_apply IH(1)) (simp add: add_edge_def e True)
    with IH e True show ?thesis by auto
  next
    case False
    have "fold add_edge (es @ [e]) (replicate n {}, replicate n {}) = (rows[a := insert b (rows ! a)], bw[b := insert a (bw ! b)])"
      by (simp only: fold_append fold_simps comp_apply IH(1)) (simp add: add_edge_def e False)
    moreover have "\<forall>x < n. rows[a := insert b (rows ! a)] ! x = {y. (x, y) \<in> set (es @ [e]) \<and> x \<noteq> y}"
      using IH(2,4) ab e False by (auto simp: nth_list_update)
    moreover have "\<forall>y < n. bw[b := insert a (bw ! b)] ! y = {x. (x, y) \<in> set (es @ [e]) \<and> x \<noteq> y}"
      using IH(3,5) ab e False by (auto simp: nth_list_update)
    ultimately show ?thesis using IH(2,3) by auto
  qed
qed

section \<open>The owner of a node\<close>

lemma fold_assign:
  assumes "set c \<subseteq> {..<length owner}"
  shows "length (fold (\<lambda>dense owner. owner[dense := node]) c owner) = length owner"
    and "d < length owner \<Longrightarrow> fold (\<lambda>dense owner. owner[dense := node]) c owner ! d = (if d \<in> set c then node else owner ! d)"
  using assms by (induction c arbitrary: owner) (auto simp: nth_list_update)

lemma dense_components_ok:
  assumes "distinct canonical" and "\<And>c ms. (c, ms) \<in> set zs \<Longrightarrow> ms \<in> set canonical \<and> set c \<subseteq> {..<n}"
    and "\<And>c ms c' ms' d. (c, ms) \<in> set zs \<Longrightarrow> (c', ms') \<in> set zs \<Longrightarrow> d \<in> set c \<Longrightarrow> d \<in> set c' \<Longrightarrow> ms = ms'"
  defines "owner \<equiv> fold (\<lambda>(component, members) owner.
         case find_index (\<lambda>node. node = members) canonical of
           None \<Rightarrow> owner
         | Some node \<Rightarrow> fold (\<lambda>dense owner. owner[dense := node]) component owner) zs (replicate n 0)"
  shows "length owner = n \<and> (\<forall>c ms d. (c, ms) \<in> set zs \<longrightarrow> d \<in> set c \<longrightarrow> owner ! d < length canonical \<and> canonical ! (owner ! d) = ms)"
  using assms(2,3) unfolding owner_def
proof (induction zs rule: rev_induct)
  case Nil
  then show ?case by simp
next
  case (snoc z zs)
  obtain c ms where z: "z = (c, ms)" by (cases z)
  let ?f = "\<lambda>(component, members) owner.
         case find_index (\<lambda>node. node = members) canonical of
           None \<Rightarrow> owner
         | Some node \<Rightarrow> fold (\<lambda>dense owner. owner[dense := node]) component owner"
  let ?o = "fold ?f zs (replicate n 0)"
  have IH: "length ?o = n" "\<And>c ms d. (c, ms) \<in> set zs \<Longrightarrow> d \<in> set c \<Longrightarrow> ?o ! d < length canonical \<and> canonical ! (?o ! d) = ms"
  proof -
    have old: "e \<in> set (zs @ [z])" if "e \<in> set zs" for e using that by simp
    have prems: "\<And>c ms. (c, ms) \<in> set zs \<Longrightarrow> ms \<in> set canonical \<and> set c \<subseteq> {..<n}"
      by (rule snoc.prems(1) [OF old])
    have same: "\<And>c ms c' ms' d. (c, ms) \<in> set zs \<Longrightarrow> (c', ms') \<in> set zs \<Longrightarrow> d \<in> set c \<Longrightarrow> d \<in> set c' \<Longrightarrow> ms = ms'"
      by (rule snoc.prems(2) [OF old old])
    have IH: "length ?o = n \<and> (\<forall>c ms d. (c, ms) \<in> set zs \<longrightarrow> d \<in> set c \<longrightarrow>
        ?o ! d < length canonical \<and> canonical ! (?o ! d) = ms)"
      by (rule snoc.IH) (erule prems, erule (3) same)
    from IH show "length ?o = n" by blast
    from IH show "?o ! d < length canonical \<and> canonical ! (?o ! d) = ms" if "(c, ms) \<in> set zs" "d \<in> set c" for c ms d
      using that by blast
  qed
  have ms: "ms \<in> set canonical" "set c \<subseteq> {..<n}" using snoc.prems(1) [of c ms] z by simp_all
  then obtain i where i: "i < length canonical" "canonical ! i = ms" by (auto simp: in_set_conv_nth)
  then have "find_index (\<lambda>node. node = ms) canonical = Some i" using find_position_eq [OF assms(1)] by blast
  then have new: "fold ?f (zs @ [z]) (replicate n 0) = fold (\<lambda>dense owner. owner[dense := i]) c ?o" by (simp add: z)
  have val: "fold (\<lambda>dense owner. owner[dense := i]) c ?o ! d = (if d \<in> set c then i else ?o ! d)" if "d < n" for d
    using fold_assign(2) [of c ?o d i] ms(2) IH(1) that by simp
  have "fold (\<lambda>dense owner. owner[dense := i]) c ?o ! d < length canonical \<and>
      canonical ! (fold (\<lambda>dense owner. owner[dense := i]) c ?o ! d) = ms'"
    if c': "(c', ms') \<in> set (zs @ [z])" "d \<in> set c'" for c' ms' d
  proof -
    have d: "d < n" using snoc.prems(1) [OF c'(1)] c'(2) by blast
    show ?thesis
    proof (cases "d \<in> set c")
      case True
      moreover have "(c, ms) \<in> set (zs @ [z])" using z by simp
      ultimately have "ms' = ms" using snoc.prems(2) c' by blast
      with True i val [OF d] show ?thesis by simp
    next
      case False
      with c' z have "(c', ms') \<in> set zs" by auto
      with IH(2) c'(2) val [OF d] False show ?thesis by simp
    qed
  qed
  with new fold_assign(1) [of c ?o i] ms(2) IH(1) show ?case by auto
qed

lemma component_edges_set:
  assumes "adjacency_ok adj"
  shows "set (component_edges adj owner) = quotient_edges ((!) owner) (edges_of adj)"
proof -
  let ?new = "\<lambda>x. map (\<lambda>y. (owner ! x, owner ! y)) (filter (\<lambda>y. owner ! x \<noteq> owner ! y) (adj ! x))"
  have "map (\<lambda>(sub, successors). map (\<lambda>super. (owner ! sub, owner ! super))
      (filter (\<lambda>super. owner ! sub \<noteq> owner ! super) successors)) (enumerate 0 adj) = map ?new [0..<length adj]"
    by (intro nth_equalityI) (simp_all add: nth_enumerate_eq)
  then have "set (component_edges adj owner) = (\<Union>x \<in> {..<length adj}. set (?new x))"
    by (simp add: component_edges_def atLeast0LessThan)
  then show ?thesis by (auto simp: quotient_edges_def edges_of_def)
qed

section \<open>Canonical nodes\<close>

lemma class_unique:
  assumes "classes_of adj comps" and "c \<in> set comps" and "a \<in> set c"
  shows "set c = mutual (edges_of adj) a"
proof -
  obtain x where "set c = mutual (edges_of adj) x" using assms(1,2) by (auto simp: classes_of_def)
  with mutual_eq [of a "edges_of adj" x] assms(3) show ?thesis by simp
qed

lemma class_nonempty:
  assumes "classes_of adj comps" and "c \<in> set comps"
  obtains a where "a \<in> set c"
proof -
  obtain x where "set c = mutual (edges_of adj) x" using assms by (auto simp: classes_of_def)
  with that [of x] show ?thesis by simp
qed

lemma canonical_ok:
  assumes ord: "distinct ord" "length ord = length adj" and classes: "classes_of adj comps"
    and all: "\<Union> (set ` set comps) = {..<length adj}"
  defines "F \<equiv> \<lambda>c. sort (map ((!) ord) c)"
  defines "canonical \<equiv> sort (map F comps)"
  defines "owner \<equiv> dense_components (length ord) comps (map F comps) canonical"
  shows "strictly_sorted canonical" and "node \<in> set canonical \<Longrightarrow> strictly_sorted node \<and> node \<noteq> []"
    and "a < length adj \<Longrightarrow> owner ! a < length canonical \<and> set (canonical ! (owner ! a)) = (!) ord ` mutual (edges_of adj) a"
    and "a < length adj \<Longrightarrow> b < length adj \<Longrightarrow> owner ! a = owner ! b \<longleftrightarrow> b \<in> mutual (edges_of adj) a"
    and "i < length canonical \<Longrightarrow> \<exists>a < length adj. owner ! a = i"
proof -
  have sub: "set c \<subseteq> {..<length adj}" if "c \<in> set comps" for c using all that by blast
  have inj: "inj_on ((!) ord) {..<length adj}" using ord by (auto simp: inj_on_def nth_eq_iff_index_eq)
  have comp: "sorted c \<and> distinct c" if "c \<in> set comps" for c using classes that by (auto simp: classes_of_def)
  have F_set: "set (F c) = (!) ord ` set c" for c by (simp add: F_def)
  have F_inj: "inj_on F (set comps)"
  proof (rule inj_onI)
    fix c d assume cd: "c \<in> set comps" "d \<in> set comps" "F c = F d"
    then have "(!) ord ` set c = (!) ord ` set d" using F_set by metis
    then have "set c = set d" using inj_on_image_eq_iff [OF inj sub [OF cd(1)] sub [OF cd(2)]] by blast
    then show "c = d" using comp [OF cd(1)] comp [OF cd(2)] sorted_distinct_set_unique by blast
  qed
  have "distinct comps" using classes by (simp add: classes_of_def)
  then have dist: "distinct canonical" using F_inj by (simp add: canonical_def distinct_map)
  then show "strictly_sorted canonical" by (simp add: strictly_sorted_wrt strict_sorted_iff canonical_def)
  have set_canonical: "set canonical = F ` set comps" by (simp add: canonical_def)
  show "strictly_sorted node \<and> node \<noteq> []" if "node \<in> set canonical"
  proof -
    obtain c where c: "c \<in> set comps" "node = F c" using \<open>node \<in> set canonical\<close> set_canonical by auto
    have "distinct (F c)" using comp [OF c(1)] inj_on_subset [OF inj sub [OF c(1)]] by (simp add: F_def distinct_map)
    then have "strictly_sorted (F c)" by (simp add: strictly_sorted_wrt strict_sorted_iff F_def)
    moreover have "F c \<noteq> []" using class_nonempty [OF classes c(1)] F_set [of c] by (metis empty_iff image_is_empty list.set(1))
    ultimately show ?thesis using c(2) by simp
  qed
  have zip: "zip comps (map F comps) = map (\<lambda>c. (c, F c)) comps" by (simp add: zip_map2 zip_same_conv_map)
  have own: "owner ! d < length canonical \<and> canonical ! (owner ! d) = F c" if "c \<in> set comps" "d \<in> set c" for c d
  proof -
    have one: "ms = ms'" if "(c, ms) \<in> set (zip comps (map F comps))" "(c', ms') \<in> set (zip comps (map F comps))"
      "d \<in> set c" "d \<in> set c'" for c ms c' ms' d
    proof -
      have "c \<in> set comps" "c' \<in> set comps" "ms = F c" "ms' = F c'" using that(1,2) unfolding zip by auto
      moreover from this have "set c = set c'" using class_unique [OF classes] that(3,4) by metis
      ultimately show ?thesis using comp sorted_distinct_set_unique by metis
    qed
    have two: "ms \<in> set canonical \<and> set c \<subseteq> {..<length ord}" if "(c, ms) \<in> set (zip comps (map F comps))" for c ms
      using that sub set_canonical ord(2) unfolding zip by auto
    have "length owner = length ord \<and> (\<forall>c ms d. (c, ms) \<in> set (zip comps (map F comps)) \<longrightarrow> d \<in> set c \<longrightarrow>
        owner ! d < length canonical \<and> canonical ! (owner ! d) = ms)"
      unfolding owner_def dense_components_def
      by (rule dense_components_ok [OF dist]) (erule two, erule (3) one)
    moreover have "(c, F c) \<in> set (zip comps (map F comps))" using that(1) unfolding zip by simp
    ultimately show ?thesis using that(2) by blast
  qed
  have in_comp: "\<exists>c \<in> set comps. a \<in> set c" if "a < length adj" for a using all that by blast
  show "owner ! a < length canonical \<and> set (canonical ! (owner ! a)) = (!) ord ` mutual (edges_of adj) a" if "a < length adj" for a
    using in_comp [OF that] own class_unique [OF classes] F_set by metis
  show "owner ! a = owner ! b \<longleftrightarrow> b \<in> mutual (edges_of adj) a" if ab: "a < length adj" "b < length adj" for a b
  proof -
    obtain c d where cd: "c \<in> set comps" "a \<in> set c" "d \<in> set comps" "b \<in> set d" using in_comp ab by blast
    have "owner ! a = owner ! b \<longleftrightarrow> F c = F d"
      using own [OF cd(1,2)] own [OF cd(3,4)] dist by (metis nth_eq_iff_index_eq)
    also have "\<dots> \<longleftrightarrow> c = d" using F_inj cd(1,3) by (auto simp: inj_on_def)
    also have "\<dots> \<longleftrightarrow> b \<in> mutual (edges_of adj) a"
    proof
      assume "c = d"
      with cd(4) class_unique [OF classes cd(1,2)] show "b \<in> mutual (edges_of adj) a" by simp
    next
      assume "b \<in> mutual (edges_of adj) a"
      from mutual_eq [OF this] have "set c = set d"
        using class_unique [OF classes cd(1,2)] class_unique [OF classes cd(3,4)] by simp
      then show "c = d" using comp [OF cd(1)] comp [OF cd(3)] sorted_distinct_set_unique by blast
    qed
    finally show ?thesis .
  qed
  show "\<exists>a < length adj. owner ! a = i" if "i < length canonical"
  proof -
    have "canonical ! i \<in> F ` set comps" using nth_mem [OF \<open>i < length canonical\<close>] set_canonical by simp
    then obtain c where c: "c \<in> set comps" "canonical ! i = F c" by blast
    obtain a where a: "a \<in> set c" by (rule class_nonempty [OF classes c(1)])
    from own [OF c(1) a] c(2) dist that have "owner ! a = i" by (metis nth_eq_iff_index_eq)
    with a sub [OF c(1)] show ?thesis by blast
  qed
qed

section \<open>The result\<close>

text \<open>
  \<open>g\<close> is the quotient of \<open>R\<close> on \<open>members\<close>: its nodes are the classes of mutual reachability in canonical
  order, its direct edges are transitively reduced, and they reach a node from another exactly when
  \<open>R\<close> does for their members.
\<close>

definition quotient_of :: "nat set \<Rightarrow> (nat \<times> nat) set \<Rightarrow> reduced_graph \<Rightarrow> bool" where
  "quotient_of members R g \<longleftrightarrow>
     strictly_sorted (rg_nodes g) \<and> (\<forall>node \<in> set (rg_nodes g). strictly_sorted node) \<and>
     set ` set (rg_nodes g) = mutual R ` members \<and>
     strictly_sorted (rg_direct_edges g) \<and> acyclic (set (rg_direct_edges g)) \<and>
     reduced (set (rg_direct_edges g)) = set (rg_direct_edges g) \<and>
     index_edges (length (rg_nodes g)) (set (rg_direct_edges g)) \<and>
     (\<forall>i < length (rg_nodes g). \<forall>j < length (rg_nodes g). \<forall>x \<in> set (rg_nodes g ! i). \<forall>y \<in> set (rg_nodes g ! j).
        (i, j) \<in> (set (rg_direct_edges g))\<^sup>* \<longleftrightarrow> (x, y) \<in> R\<^sup>*)"

lemma new_reduced_graph_ok:
  assumes "strictly_sorted nodes" and "\<forall>node \<in> set nodes. strictly_sorted node \<and> node \<noteq> []"
    and "distinct (concat nodes)" and "strictly_sorted direct" and "index_edges (length nodes) (set direct)"
  shows "new_reduced_graph nodes direct = Inr \<lparr>rg_nodes = nodes, rg_direct_edges = direct\<rparr>"
  using assms by (simp add: new_reduced_graph_def reduced_graph_check_def checks_Inr_iff validated_edges_def
      validated_edges_from_eq Let_def)

lemma dense_reach:
  assumes dist: "distinct ord" and R: "R \<subseteq> set ord \<times> set ord"
    and D: "D = {(a, b). a < length ord \<and> b < length ord \<and> (ord ! a, ord ! b) \<in> R}"
    and ab: "a < length ord" "b < length ord"
  shows "(a, b) \<in> D\<^sup>* \<longleftrightarrow> (ord ! a, ord ! b) \<in> R\<^sup>*"
proof
  show "(a, b) \<in> D\<^sup>* \<Longrightarrow> (ord ! a, ord ! b) \<in> R\<^sup>*"
    by (induction rule: rtrancl_induct) (auto simp: D intro: rtrancl_into_rtrancl)
  have "\<exists>b < length ord. y = ord ! b \<and> (a, b) \<in> D\<^sup>*" if "(ord ! a, y) \<in> R\<^sup>*" for y
    using that
  proof induction
    case base
    with ab(1) show ?case by blast
  next
    case (step y z)
    then obtain b where b: "b < length ord" "y = ord ! b" "(a, b) \<in> D\<^sup>*" by blast
    have "z \<in> set ord" using step.hyps(2) R by blast
    then obtain c where c: "c < length ord" "z = ord ! c" by (metis in_set_conv_nth)
    have "(b, c) \<in> D" using b(1,2) c step.hyps(2) by (simp add: D)
    with b(3) have "(a, c) \<in> D\<^sup>*" by (rule rtrancl_into_rtrancl)
    with c show ?case by blast
  qed
  then show "(ord ! a, ord ! b) \<in> R\<^sup>* \<Longrightarrow> (a, b) \<in> D\<^sup>*"
    using dist ab by (metis nth_eq_iff_index_eq)
qed

lemma dense_mutual:
  assumes dist: "distinct ord" and R: "R \<subseteq> set ord \<times> set ord"
    and D: "D = {(a, b). a < length ord \<and> b < length ord \<and> (ord ! a, ord ! b) \<in> R}" and a: "a < length ord"
  shows "(!) ord ` mutual (D - Id) a = mutual R (ord ! a)"
proof (intro set_eqI iffI)
  fix y assume "y \<in> (!) ord ` mutual (D - Id) a"
  then obtain b where b: "y = ord ! b" "(a, b) \<in> D\<^sup>*" "(b, a) \<in> D\<^sup>*" by (auto simp: mutual_def rtrancl_r_diff_Id)
  have "b < length ord" using b(2) a by (cases rule: rtranclE) (auto simp: D)
  with b show "y \<in> mutual R (ord ! a)" using dense_reach [OF dist R D] a by (simp add: mutual_def)
next
  fix y assume y: "y \<in> mutual R (ord ! a)"
  then have "(ord ! a, y) \<in> R\<^sup>*" by (simp add: mutual_def)
  then have "y \<in> set ord" using R a by (cases rule: rtranclE) auto
  then obtain b where "b < length ord" "y = ord ! b" by (metis in_set_conv_nth)
  with y show "y \<in> (!) ord ` mutual (D - Id) a"
    using dense_reach [OF dist R D] a by (auto simp: mutual_def rtrancl_r_diff_Id)
qed

lemma quotient_of_intro:
  assumes nodes: "strictly_sorted nodes" "\<And>node. node \<in> set nodes \<Longrightarrow> strictly_sorted node \<and> node \<noteq> []"
    and cls: "\<And>a. a < n \<Longrightarrow> owner a < length nodes \<and> set (nodes ! owner a) = mutual R (ord ! a)"
    and surj: "\<And>i. i < length nodes \<Longrightarrow> \<exists>a < n. owner a = i"
    and reach: "\<And>a b. a < n \<Longrightarrow> b < n \<Longrightarrow> (owner a, owner b) \<in> C\<^sup>* \<longleftrightarrow> (ord ! a, ord ! b) \<in> R\<^sup>*"
    and C: "index_edges (length nodes) C" "acyclic C" "finite C" and n: "n = length ord"
  defines "direct \<equiv> sorted_list_of_set (reduced C)"
  shows "new_reduced_graph nodes direct = Inr \<lparr>rg_nodes = nodes, rg_direct_edges = direct\<rparr>"
    and "quotient_of (set ord) R \<lparr>rg_nodes = nodes, rg_direct_edges = direct\<rparr>"
proof -
  have set_direct: "set direct = reduced C" using finite_subset [OF reduced_subset C(3)] by (simp add: direct_def)
  have sorted_direct: "strictly_sorted direct" by (simp add: direct_def strictly_sorted_list_of_set)
  have closure: "(reduced C)\<^sup>+ = C\<^sup>+" by (rule reduced_trancl [OF C(3,2)])
  then have closure': "(reduced C)\<^sup>* = C\<^sup>*" by (metis rtrancl_trancl_reflcl)
  have index: "index_edges (length nodes) (reduced C)" using C(1) reduced_subset unfolding index_edges_def by blast
  have acyc: "acyclic (reduced C)" using acyclic_subset [OF C(2) reduced_subset] .
  have same: "i = j" if ij: "i < length nodes" "j < length nodes" "z \<in> set (nodes ! i)" "z \<in> set (nodes ! j)" for i j z
  proof -
    obtain a b where ab: "a < n" "owner a = i" "b < n" "owner b = j" using surj ij(1,2) by blast
    have "mutual R (ord ! b) = mutual R (ord ! a)" using ij(3,4) cls ab mutual_eq by metis
    then have "ord ! b \<in> mutual R (ord ! a)" by (metis mutual_self)
    then have "(i, j) \<in> C\<^sup>*" "(j, i) \<in> C\<^sup>*" using reach ab by (auto simp: mutual_def)
    with C(2) show ?thesis by (metis acyclic_def rtrancl_eq_or_trancl trancl_trans)
  qed
  have "distinct nodes" by (rule strictly_sorted_distinct [OF nodes(1)])
  moreover have "distinct node" if "node \<in> set nodes" for node using nodes(2) [OF that] strictly_sorted_distinct by blast
  moreover have "set x \<inter> set y = {}" if "x \<in> set nodes" "y \<in> set nodes" "x \<noteq> y" for x y
    using that same by (metis disjoint_iff in_set_conv_nth)
  ultimately have "distinct (concat nodes)" by (rule distinct_concat)
  with nodes sorted_direct index show "new_reduced_graph nodes direct = Inr \<lparr>rg_nodes = nodes, rg_direct_edges = direct\<rparr>"
    by (intro new_reduced_graph_ok) (simp_all add: set_direct)
  have classes: "set ` set nodes = mutual R ` set ord"
  proof (intro set_eqI iffI)
    fix A assume "A \<in> set ` set nodes"
    then obtain i where i: "i < length nodes" "A = set (nodes ! i)" by (metis image_iff in_set_conv_nth)
    with surj obtain a where "a < n" "owner a = i" by blast
    with i(2) cls [of a] n show "A \<in> mutual R ` set ord" by auto
  next
    fix A assume "A \<in> mutual R ` set ord"
    then obtain a where "a < n" "A = mutual R (ord ! a)" using n by (metis image_iff in_set_conv_nth)
    with cls [of a] show "A \<in> set ` set nodes" by (metis imageI nth_mem)
  qed
  have "(i, j) \<in> (reduced C)\<^sup>* \<longleftrightarrow> (x, y) \<in> R\<^sup>*"
    if ij: "i < length nodes" "j < length nodes" "x \<in> set (nodes ! i)" "y \<in> set (nodes ! j)" for i j x y
  proof -
    obtain a b where ab: "a < n" "owner a = i" "b < n" "owner b = j" using surj ij(1,2) by blast
    then have "x \<in> mutual R (ord ! a)" "y \<in> mutual R (ord ! b)" using ij(3,4) cls by blast+
    then have "(x, y) \<in> R\<^sup>* \<longleftrightarrow> (ord ! a, ord ! b) \<in> R\<^sup>*" by (auto simp: mutual_def intro: rtrancl_trans)
    with reach [OF ab(1,3)] ab(2,4) closure' show ?thesis by simp
  qed
  moreover have "reduced (reduced C) = reduced C"
  proof -
    have "(a, c) \<in> reduced (reduced C)" if "(a, c) \<in> reduced C" for a c
      using that reduced_subset [of C] closure by (auto simp: reduced_def)
    then show ?thesis using reduced_subset by auto
  qed
  ultimately show "quotient_of (set ord) R \<lparr>rg_nodes = nodes, rg_direct_edges = direct\<rparr>"
    using nodes sorted_direct acyc index classes by (simp add: quotient_of_def set_direct)
qed

lemma quotient_and_reduce_ok:
  assumes dist: "distinct members" and edges: "set edges \<subseteq> set members \<times> set members"
  shows "\<exists>g. quotient_and_reduce members edges = Some (Inr g) \<and> quotient_of (set members) (set edges) g"
proof (cases "members = []")
  case True
  have "quotient_and_reduce members edges = Some (Inr \<lparr>rg_nodes = [], rg_direct_edges = []\<rparr>)"
    using edges True new_reduced_graph_ok [of "[]" "[]"]
    by (simp add: quotient_and_reduce_def validated_members_def index_edges_def)
  moreover have "quotient_of (set members) (set edges) \<lparr>rg_nodes = [], rg_direct_edges = []\<rparr>"
    using edges True by (simp add: quotient_of_def index_edges_def acyclic_def reduced_def)
  ultimately show ?thesis by blast
next
  case False
  obtain ord where ord_eq: "ord = sorted_list_of_set (set members)" by simp
  then have ord: "distinct ord" "set ord = set members" "ord \<noteq> []" using False by simp_all
  let ?n = "length ord"
  have edges_ord: "set edges \<subseteq> set ord \<times> set ord" using edges ord(2) by simp
  from dense_edges(1) [OF ord(1) this] obtain dense where
    dense: "rmap_list (validated_member_edge ord) edges = Inr dense"
    "set dense = {(a, b). a < ?n \<and> b < ?n \<and> (ord ! a, ord ! b) \<in> set edges}"
    by blast
  have dense_less: "set dense \<subseteq> {..<?n} \<times> {..<?n}" using dense(2) by auto
  obtain rows bw where rows: "fold add_edge dense (replicate ?n {}, replicate ?n {}) = (rows, bw)" "length rows = ?n"
    "length bw = ?n" "\<forall>x < ?n. rows ! x = {y. (x, y) \<in> set dense \<and> x \<noteq> y}"
    "\<forall>y < ?n. bw ! y = {x. (x, y) \<in> set dense \<and> x \<noteq> y}"
    using add_edges [OF dense_less] by blast
  let ?adj = "map sorted_list_of_set rows"
  let ?bw = "map sorted_list_of_set bw"
  have fin: "finite {y. (x, y) \<in> set dense \<and> x \<noteq> y}" "finite {x. (x, y) \<in> set dense \<and> x \<noteq> y}" for x y
    using dense_less by (auto intro: finite_subset [of _ "{..<?n}"])
  have set_row: "set (?adj ! x) = {y. (x, y) \<in> set dense \<and> x \<noteq> y}" "set (?bw ! x) = {y. (y, x) \<in> set dense \<and> y \<noteq> x}"
    if "x < ?n" for x
    using that rows(2-5) fin by simp_all
  let ?E = "set dense - Id"
  have E: "edges_of ?adj = ?E" "edges_of ?bw = ?E\<inverse>"
    using set_row dense_less rows(2,3) by (auto simp: edges_of_def)
  have ok: "adjacency_ok ?adj" "adjacency_ok ?bw"
    using set_row dense_less rows(2,3) by (auto simp: adjacency_ok_def)
  have conv: "edges_of ?bw = (edges_of ?adj)\<inverse>" "length ?bw = length ?adj" using E rows(2,3) by simp_all
  obtain comps where comps: "strong_components ?adj ?bw = Some comps" "classes_of ?adj comps"
    "\<Union> (set ` set comps) = {..<length ?adj}"
    by (rule strong_components_ok [OF ok conv])
  let ?F = "\<lambda>c. sort (map ((!) ord) c)"
  let ?nodes = "sort (map ?F comps)"
  let ?owner = "dense_components ?n comps (map ?F comps) ?nodes"
  have len: "length ord = length ?adj" using rows(2) by simp
  note nodes = canonical_ok [OF ord(1) len comps(2,3)]
  let ?C = "quotient_edges ((!) ?owner) ?E"
  have E_less: "?E \<subseteq> {..<?n} \<times> {..<?n}" using dense_less by blast
  have owner: "?owner ! a < length ?nodes" "set (?nodes ! (?owner ! a)) = (!) ord ` mutual ?E a" if "a < ?n" for a
    using nodes(3) [of a] that len E(1) by simp_all
  have owner_eq: "?owner ! a = ?owner ! b \<longleftrightarrow> b \<in> mutual ?E a" if "a < ?n" "b < ?n" for a b
    using nodes(4) [of a b] that len E(1) by simp
  have owner_all: "\<exists>a < ?n. ?owner ! a = i" if "i < length ?nodes" for i using nodes(5) [OF that] len by simp
  have D_reach: "(a, b) \<in> ?E\<^sup>* \<longleftrightarrow> (ord ! a, ord ! b) \<in> (set edges)\<^sup>*" if "a < ?n" "b < ?n" for a b
    using dense_reach [OF ord(1) edges_ord dense(2) that] by (simp add: rtrancl_r_diff_Id)
  have reach: "(?owner ! a, ?owner ! b) \<in> ?C\<^sup>* \<longleftrightarrow> (ord ! a, ord ! b) \<in> (set edges)\<^sup>*" if ab: "a < ?n" "b < ?n" for a b
  proof
    assume "(?owner ! a, ?owner ! b) \<in> ?C\<^sup>*"
    then obtain c where c: "c < ?n" "?owner ! c = ?owner ! b" "(a, c) \<in> ?E\<^sup>*"
      using quotient_reach_back [of "{..<?n}" "(!) ?owner" ?E a "?owner ! b", OF _ E_less] owner_eq ab(1) by auto
    then have "b \<in> mutual ?E c" using owner_eq ab(2) by blast
    with c(3) have "(a, b) \<in> ?E\<^sup>*" by (auto simp: mutual_def)
    then show "(ord ! a, ord ! b) \<in> (set edges)\<^sup>*" using D_reach ab by blast
  next
    assume "(ord ! a, ord ! b) \<in> (set edges)\<^sup>*"
    then have "(a, b) \<in> ?E\<^sup>*" using D_reach ab by blast
    then show "(?owner ! a, ?owner ! b) \<in> ?C\<^sup>*" by (rule quotient_reach)
  qed
  have node: "set (?nodes ! (?owner ! a)) = mutual (set edges) (ord ! a)" if a: "a < ?n" for a
    using owner(2) [OF a] dense_mutual [OF ord(1) edges_ord dense(2) a] by simp
  have C: "index_edges (length ?nodes) ?C" "acyclic ?C"
    using E_less owner(1) quotient_acyclic [of "{..<?n}" "(!) ?owner" ?E, OF _ E_less] owner_eq
    by (auto simp: index_edges_def quotient_edges_def)
  have set_C: "set (component_edges ?adj ?owner) = ?C" using component_edges_set [OF ok(1)] E(1) by simp
  let ?direct = "sorted_list_of_set (reduced ?C)"
  have fin_C: "finite ?C" unfolding set_C [symmetric] by simp
  note result = quotient_of_intro [where n = ?n and ord = ord and owner = "(!) ?owner", OF nodes(1,2) _ _ reach C fin_C]
  have graph: "new_reduced_graph ?nodes ?direct = Inr \<lparr>rg_nodes = ?nodes, rg_direct_edges = ?direct\<rparr>"
    and quot: "quotient_of (set ord) (set edges) \<lparr>rg_nodes = ?nodes, rg_direct_edges = ?direct\<rparr>"
    by (rule result; use owner(1) node owner_all in blast)+
  have "transitive_reduction (length ?nodes) (component_edges ?adj ?owner) = Some (Inr ?direct)"
    unfolding transitive_reduction_eq set_C using C by simp
  then have "quotient_and_reduce members edges = Some (Inr \<lparr>rg_nodes = ?nodes, rg_direct_edges = ?direct\<rparr>)"
    using dist ord(3) dense(1) rows(1) comps(1) graph
    by (simp add: quotient_and_reduce_def validated_members_def ord_eq [symmetric] Let_def)
  with quot ord(2) show ?thesis by auto
qed

end
