(* ===== verification/Reduction_Results.thy ===== *)
theory Reduction_Results
  imports Reduction_Quotient
begin

text \<open>What the two entry points of the reduction promise.\<close>

declare explore.simps [code] collect.simps [code] kahn.simps [code] mark_reachable.simps [code]

section \<open>Canonical results\<close>

lemma strictly_sorted_unique: "strictly_sorted xs \<Longrightarrow> strictly_sorted ys \<Longrightarrow> set xs = set ys \<Longrightarrow> xs = ys"
  for xs :: "'a::linorder list"
  by (metis strictly_sorted_wrt strict_sorted_iff sorted_distinct_set_unique)

lemma quotient_ofD:
  assumes "quotient_of M R g"
  shows "strictly_sorted (rg_nodes g)" and "\<And>node. node \<in> set (rg_nodes g) \<Longrightarrow> strictly_sorted node"
    and "set ` set (rg_nodes g) = mutual R ` M" and "strictly_sorted (rg_direct_edges g)"
    and "acyclic (set (rg_direct_edges g))" and "reduced (set (rg_direct_edges g)) = set (rg_direct_edges g)"
    and "index_edges (length (rg_nodes g)) (set (rg_direct_edges g))"
    and "\<And>i j x y. i < length (rg_nodes g) \<Longrightarrow> j < length (rg_nodes g) \<Longrightarrow> x \<in> set (rg_nodes g ! i) \<Longrightarrow>
      y \<in> set (rg_nodes g ! j) \<Longrightarrow> (i, j) \<in> (set (rg_direct_edges g))\<^sup>* \<longleftrightarrow> (x, y) \<in> R\<^sup>*"
  using assms unfolding quotient_of_def by blast+

lemma quotient_nonempty:
  assumes "quotient_of M R g" and "i < length (rg_nodes g)"
  obtains x where "x \<in> M" and "set (rg_nodes g ! i) = mutual R x"
proof -
  have "set (rg_nodes g ! i) \<in> mutual R ` M"
    using imageI [OF nth_mem [OF assms(2)], of set] quotient_ofD(3) [OF assms(1)] by (rule back_subst)
  then obtain x where x: "set (rg_nodes g ! i) = mutual R x" "x \<in> M" by (rule imageE)
  show ?thesis by (rule that [OF x(2,1)])
qed

lemma quotient_node:
  assumes "quotient_of M R g" and "node \<in> set (rg_nodes g)"
  obtains x where "x \<in> M" and "set node = mutual R x"
proof -
  obtain i where "i < length (rg_nodes g)" "node = rg_nodes g ! i" using assms(2) by (metis in_set_conv_nth)
  with quotient_nonempty [OF assms(1)] that show ?thesis by metis
qed

lemma quotient_disjoint:
  assumes "quotient_of M R g"
  shows "distinct (concat (rg_nodes g))"
proof (rule distinct_concat)
  show "distinct (rg_nodes g)" by (rule strictly_sorted_distinct [OF quotient_ofD(1) [OF assms]])
  show "distinct node" if "node \<in> set (rg_nodes g)" for node
    by (rule strictly_sorted_distinct [OF quotient_ofD(2) [OF assms that]])
  show "set node \<inter> set node' = {}" if n: "node \<in> set (rg_nodes g)" "node' \<in> set (rg_nodes g)" "node \<noteq> node'" for node node'
  proof (rule ccontr)
    assume "set node \<inter> set node' \<noteq> {}"
    then obtain z where z: "z \<in> set node" "z \<in> set node'" by blast
    obtain x where x: "set node = mutual R x" by (rule quotient_node [OF assms n(1)])
    obtain y where y: "set node' = mutual R y" by (rule quotient_node [OF assms n(2)])
    have "set node = set node'" using z mutual_eq [of z R x] mutual_eq [of z R y] unfolding x y by simp
    from strictly_sorted_unique [OF quotient_ofD(2) [OF assms n(1)] quotient_ofD(2) [OF assms n(2)] this] n(3)
    show False by simp
  qed
qed

lemma index_trancl: "(i, j) \<in> E\<^sup>+ \<Longrightarrow> index_edges n E \<Longrightarrow> i < n \<and> j < n"
  by (induction rule: trancl_induct) (auto simp: index_edges_def)

lemma same_nodes:
  assumes g: "quotient_of M R g" and h: "quotient_of M R h"
  shows "rg_nodes g = rg_nodes h"
proof -
  have sub: "set (rg_nodes a) \<subseteq> set (rg_nodes b)" if a: "quotient_of M R a" and b: "quotient_of M R b" for a b
  proof
    fix node assume node: "node \<in> set (rg_nodes a)"
    have "set node \<in> set ` set (rg_nodes a)" by (rule imageI [OF node])
    then have "set node \<in> set ` set (rg_nodes b)" by (simp only: quotient_ofD(3) [OF a] quotient_ofD(3) [OF b])
    then obtain node' where n: "set node = set node'" "node' \<in> set (rg_nodes b)" by (rule imageE)
    from strictly_sorted_unique [OF quotient_ofD(2) [OF a node] quotient_ofD(2) [OF b n(2)] n(1)] n(2)
    show "node \<in> set (rg_nodes b)" by simp
  qed
  show ?thesis
    by (rule strictly_sorted_unique [OF quotient_ofD(1) [OF g] quotient_ofD(1) [OF h]])
      (rule subset_antisym [OF sub [OF g h] sub [OF h g]])
qed

lemma same_closure:
  assumes g: "quotient_of M R g" and h: "quotient_of M R h"
  shows "(set (rg_direct_edges g))\<^sup>+ \<subseteq> (set (rg_direct_edges h))\<^sup>+"
proof clarify
  fix i j assume ij: "(i, j) \<in> (set (rg_direct_edges g))\<^sup>+"
  have less: "i < length (rg_nodes g)" "j < length (rg_nodes g)"
    using index_trancl [OF ij quotient_ofD(7) [OF g]] by simp_all
  obtain x where "set (rg_nodes g ! i) = mutual R x" by (rule quotient_nonempty [OF g less(1)])
  then have x: "x \<in> set (rg_nodes g ! i)" by simp
  obtain y where "set (rg_nodes g ! j) = mutual R y" by (rule quotient_nonempty [OF g less(2)])
  then have y: "y \<in> set (rg_nodes g ! j)" by simp
  have "(i, j) \<in> (set (rg_direct_edges g))\<^sup>*" using ij by (rule trancl_into_rtrancl)
  then have "(x, y) \<in> R\<^sup>*" using quotient_ofD(8) [OF g less x y] by simp
  then have "(i, j) \<in> (set (rg_direct_edges h))\<^sup>*"
    using quotient_ofD(8) [OF h, of i j x y] less x y unfolding same_nodes [OF g h] by simp
  moreover have "i \<noteq> j" using ij quotient_ofD(5) [OF g] by (auto simp: acyclic_def)
  ultimately show "(i, j) \<in> (set (rg_direct_edges h))\<^sup>+" by (simp add: rtrancl_eq_or_trancl)
qed

lemma quotient_of_unique:
  assumes g: "quotient_of M R g" and h: "quotient_of M R h"
  shows "g = h"
proof -
  have same: "(set (rg_direct_edges g))\<^sup>+ = (set (rg_direct_edges h))\<^sup>+"
    by (rule subset_antisym [OF same_closure [OF g h] same_closure [OF h g]])
  have "set (rg_direct_edges g) = set (rg_direct_edges h)"
    using reduced_least [OF quotient_ofD(5) [OF g] same [symmetric]] reduced_least [OF quotient_ofD(5) [OF h] same]
    unfolding quotient_ofD(6) [OF g] quotient_ofD(6) [OF h] by blast
  then have "rg_direct_edges g = rg_direct_edges h"
    by (rule strictly_sorted_unique [OF quotient_ofD(4) [OF g] quotient_ofD(4) [OF h]])
  with same_nodes [OF g h] show ?thesis by simp
qed

lemma quotient_and_reduce_refused:
  assumes "\<not> (distinct members \<and> set edges \<subseteq> set members \<times> set members)"
  shows "quotient_and_reduce members edges = Some (Inl ValueError)"
proof (cases "distinct members")
  case False
  then show ?thesis by (simp add: quotient_and_reduce_def validated_members_def)
next
  case True
  with assms have bad: "\<not> set edges \<subseteq> set members \<times> set members" by simp
  show ?thesis
  proof (cases "members = []")
    case True
    with bad show ?thesis by (auto simp: quotient_and_reduce_def validated_members_def)
  next
    case False
    obtain ord where ord: "ord = sorted_list_of_set (set members)" by simp
    then have "distinct ord" "ord \<noteq> []" "\<not> set edges \<subseteq> set ord \<times> set ord" using bad False by simp_all
    with dense_edges(2) [of ord edges] True show ?thesis
      by (simp add: quotient_and_reduce_def validated_members_def ord [symmetric])
  qed
qed

section \<open>Properties\<close>

text \<open>C20: The transitive reduction always returns.  It refuses an edge that is no pair of distinct nodes and
  a cyclic graph; otherwise both the sparse and the bitset branch return, strictly sorted, the least
  relation with the same transitive closure.\<close>

theorem transitive_reduction_least:
  "\<exists>out. transitive_reduction n edges = Some out \<and>
    (case out of
       Inl x \<Rightarrow> x = ValueError \<and> \<not> (index_edges n (set edges) \<and> acyclic (set edges))
     | Inr direct \<Rightarrow> strictly_sorted direct \<and> (set direct)\<^sup>+ = (set edges)\<^sup>+ \<and>
         (\<forall>F. F\<^sup>+ = (set edges)\<^sup>+ \<longrightarrow> set direct \<subseteq> F))"
proof (cases "index_edges n (set edges) \<and> acyclic (set edges)")
  case False
  then show ?thesis by (auto simp: transitive_reduction_eq)
next
  case True
  have "finite (reduced (set edges))" by (rule finite_subset [OF reduced_subset]) simp
  with True show ?thesis
    using reduced_trancl [of "set edges"] reduced_least [of "set edges"]
    by (simp add: transitive_reduction_eq strictly_sorted_list_of_set)
qed

theorem transitive_reduction_least_witness:
  "\<exists>out. transitive_reduction 3 [(0, 1), (1, 2), (0, 2 :: nat)] = Some out \<and>
    (case out of
       Inl x \<Rightarrow> x = ValueError \<and> \<not> (index_edges 3 (set [(0, 1), (1, 2), (0, 2 :: nat)]) \<and> acyclic (set [(0, 1), (1, 2), (0, 2 :: nat)]))
     | Inr direct \<Rightarrow> strictly_sorted direct \<and> (set direct)\<^sup>+ = (set [(0, 1), (1, 2), (0, 2 :: nat)])\<^sup>+ \<and>
         (\<forall>F. F\<^sup>+ = (set [(0, 1), (1, 2), (0, 2 :: nat)])\<^sup>+ \<longrightarrow> set direct \<subseteq> F))"
  by (rule transitive_reduction_least)

text \<open>C21: Collapsing and reducing a relation over distinct members always returns the quotient by mutual
  reachability: canonical nodes, a minimal acyclic set of direct edges, and between any two nodes the
  same reachability as between their members.  Any other input is refused.\<close>

theorem quotient_exact:
  "if distinct members \<and> set edges \<subseteq> set members \<times> set members
   then \<exists>g. quotient_and_reduce members edges = Some (Inr g) \<and> quotient_of (set members) (set edges) g
   else quotient_and_reduce members edges = Some (Inl ValueError)"
proof (cases "distinct members \<and> set edges \<subseteq> set members \<times> set members")
  case True
  with quotient_and_reduce_ok show ?thesis by simp
next
  case False
  with quotient_and_reduce_refused [OF False] show ?thesis by (simp only: if_False)
qed

text \<open>C22: The reduced graph is canonical: it depends on the sets of members and edges only, not on their
  order or repetition.\<close>

theorem quotient_canonical:
  assumes "distinct members" and "distinct members'" and "set members' = set members" and "set edges' = set edges"
  shows "quotient_and_reduce members' edges' = quotient_and_reduce members edges"
proof (cases "set edges \<subseteq> set members \<times> set members")
  case True
  from quotient_and_reduce_ok [OF assms(1) True] obtain g where
    g: "quotient_and_reduce members edges = Some (Inr g)" "quotient_of (set members) (set edges) g" by blast
  from quotient_and_reduce_ok [OF assms(2), of edges'] True assms(3,4) obtain h where
    h: "quotient_and_reduce members' edges' = Some (Inr h)" "quotient_of (set members) (set edges) h" by auto
  from g h quotient_of_unique show ?thesis by metis
next
  case False
  with assms quotient_and_reduce_refused [of members edges] quotient_and_reduce_refused [of members' edges']
  show ?thesis by simp
qed

theorem quotient_canonical_witness:
  "quotient_and_reduce [7, 2, 5] [(2, 7), (5, 2), (2, 5), (2, 7)] = quotient_and_reduce [2, 5, 7] [(2, 5), (2, 7), (5, 2)]"
  by (rule quotient_canonical) auto

end
