(* ===== verification/Raw_Taxonomy.thy ===== *)
theory Raw_Taxonomy
  imports Reduction_Results IR
begin

text \<open>
  The taxonomy value of \<open>src/pyelk/reasoning/contracts.py\<close> with the checks of its constructor, and what
  they accept: the quotient of a relation with a least and a greatest element.
\<close>

section \<open>Definitions\<close>

fun validate_nodes_from :: "nat list option \<Rightarrow> nat set \<Rightarrow> nat list list \<Rightarrow> unit result" where
  "validate_nodes_from previous seen [] = Inr ()"
| "validate_nodes_from previous seen (node # nodes) =
     (if node = [] then Inl ValueError
      else if \<exists>member \<in> set node. \<not> member \<le> U32_MAX then Inl ValueError
      else if \<not> strictly_sorted node then Inl ValueError
      else if (case previous of None \<Rightarrow> False | Some p \<Rightarrow> node \<le> p) then Inl ValueError
      else if \<exists>member \<in> set node. member \<in> seen then Inl ValueError
      else validate_nodes_from (Some node) (seen \<union> set node) nodes)"

definition validate_nodes :: "nat list list \<Rightarrow> unit result" where
  "validate_nodes = validate_nodes_from None {}"

fun validate_index_pairs_from ::
    "(nat \<times> nat) option \<Rightarrow> nat \<Rightarrow> nat \<Rightarrow> bool \<Rightarrow> (nat \<times> nat) list \<Rightarrow> unit result" where
  "validate_index_pairs_from previous first_limit second_limit distinct_ends [] = Inr ()"
| "validate_index_pairs_from previous first_limit second_limit distinct_ends (value # values) =
     (case value of (a, b) \<Rightarrow>
        if \<not> (a < first_limit \<and> b < second_limit) then Inl ValueError
        else if distinct_ends \<and> a = b then Inl ValueError
        else if (case previous of None \<Rightarrow> False | Some p \<Rightarrow> value \<le> p) then Inl ValueError
        else validate_index_pairs_from (Some value) first_limit second_limit distinct_ends values)"

definition validate_index_pairs :: "(nat \<times> nat) list \<Rightarrow> nat \<Rightarrow> nat \<Rightarrow> bool \<Rightarrow> unit result" where
  "validate_index_pairs values first_limit second_limit distinct_ends =
     validate_index_pairs_from None first_limit second_limit distinct_ends values"

definition add_link :: "nat \<times> nat \<Rightarrow> nat list list \<times> nat list list \<Rightarrow> nat list list \<times> nat list list" where
  "add_link edge s = (case (edge, s) of ((sub, super), (outgoing, incoming)) \<Rightarrow>
     (outgoing[sub := outgoing ! sub @ [super]], incoming[super := incoming ! super @ [sub]]))"

text \<open>\<open>None\<close>: the search would not end.  The worklist is popped at its end, the head here.\<close>

partial_function (option) reach_from :: "nat list list \<Rightarrow> nat set \<Rightarrow> nat list \<Rightarrow> nat set option" where
  "reach_from edges reached pending =
     (if pending = [] then Some reached
      else (case assign_unassigned (edges ! hd pending) reached (tl pending) of
        (reached, rest) \<Rightarrow> reach_from edges reached rest))"

definition reachable_nodes :: "nat \<Rightarrow> nat list list \<Rightarrow> nat set option" where
  "reachable_nodes start edges = reach_from edges {start} [start]"

text \<open>The order in which nodes are freed only matters for the queue; the code counts them.\<close>

definition validate_taxonomy_graph :: "nat \<Rightarrow> (nat \<times> nat) list \<Rightarrow> nat \<Rightarrow> nat \<Rightarrow> unit result option" where
  "validate_taxonomy_graph n direct_edges tp bp =
     (case fold add_link direct_edges (replicate n [], replicate n []) of (outgoing, incoming) \<Rightarrow>
        if outgoing ! tp \<noteq> [] then Some (Inl ValueError)
        else if incoming ! bp \<noteq> [] then Some (Inl ValueError)
        else (let indegrees = map (int \<circ> length) incoming in
          case kahn (\<lambda>x xs. xs @ [x]) outgoing indegrees (free_nodes indegrees) [] of
            None \<Rightarrow> None
          | Some visited \<Rightarrow>
              if length visited \<noteq> n then Some (Inl ValueError)
              else (case (reachable_nodes bp outgoing, reachable_nodes tp incoming) of
                 (Some up, Some down) \<Rightarrow>
                   if up \<noteq> {..<n} then Some (Inl ValueError)
                   else if down \<noteq> {..<n} then Some (Inl ValueError)
                   else Some (Inr ())
               | _ \<Rightarrow> None)))"

record raw_taxonomy =
  rt_nodes :: "nat list list"
  rt_direct_edges :: "(nat \<times> nat) list"
  rt_top :: nat
  rt_bottom :: nat

definition raw_taxonomy_check :: "raw_taxonomy \<Rightarrow> unit result option" where
  "raw_taxonomy_check t = (let n = length (rt_nodes t) in
     case checks [
       validate_nodes (rt_nodes t),
       rassert (rt_nodes t \<noteq> []) ValueError,
       rassert (rt_top t < n \<and> rt_bottom t < n) ValueError,
       validate_index_pairs (rt_direct_edges t) n n True] of
       Inl x \<Rightarrow> Some (Inl x)
     | Inr _ \<Rightarrow> validate_taxonomy_graph n (rt_direct_edges t) (rt_top t) (rt_bottom t))"

definition new_raw_taxonomy :: "nat list list \<Rightarrow> (nat \<times> nat) list \<Rightarrow> nat \<Rightarrow> nat \<Rightarrow> raw_taxonomy result option" where
  "new_raw_taxonomy nodes direct_edges tp bp =
     (let t = \<lparr>rt_nodes = nodes, rt_direct_edges = direct_edges, rt_top = tp, rt_bottom = bp\<rparr> in
      map_option (rmap (\<lambda>_. t)) (raw_taxonomy_check t))"

section \<open>Searches over direct edges\<close>

lemma reach_from_ok:
  assumes ok: "adjacency_ok adj" and "reached \<subseteq> {..<length adj}" and "set pending \<subseteq> reached" and "distinct pending"
    and "edges_of adj `` (reached - set pending) \<subseteq> reached"
  shows "reach_from adj reached pending = Some ((edges_of adj)\<^sup>* `` reached)"
  using assms(2-)
proof (induction "card ({..<length adj} - reached) + length pending" arbitrary: reached pending rule: less_induct)
  case less
  show ?case
  proof (cases pending)
    case Nil
    with less.prems have "edges_of adj `` reached \<subseteq> reached" by simp
    then have "(edges_of adj)\<^sup>* `` reached = reached" by (rule Image_closed_trancl)
    with Nil show ?thesis by (simp add: reach_from.simps)
  next
    case (Cons p rest)
    obtain qs where qs: "assign_unassigned (adj ! p) reached rest = (reached \<union> set (adj ! p), qs @ rest)"
      "distinct qs" "set qs = set (adj ! p) - reached"
      using assign_unassigned_ok by blast
    have p: "p < length adj" "p \<in> reached" using less.prems(1,2) Cons by auto
    have succ: "set (adj ! p) = edges_of adj `` {p}" using p(1) by (auto simp: edges_of_def)
    have less_adj: "set (adj ! p) \<subseteq> {..<length adj}" using ok p(1) by (auto simp: adjacency_ok_def)
    have "{..<length adj} - reached = ({..<length adj} - (reached \<union> set (adj ! p))) \<union> set qs"
      using qs(3) less_adj by auto
    moreover have "card (({..<length adj} - (reached \<union> set (adj ! p))) \<union> set qs) =
        card ({..<length adj} - (reached \<union> set (adj ! p))) + card (set qs)"
      by (rule card_Un_disjoint) (use qs(3) in auto)
    ultimately have "card ({..<length adj} - reached) = card ({..<length adj} - (reached \<union> set (adj ! p))) + length qs"
      using distinct_card [OF qs(2)] by simp
    then have smaller: "card ({..<length adj} - (reached \<union> set (adj ! p))) + length (qs @ rest) <
        card ({..<length adj} - reached) + length pending" by (simp add: Cons)
    have "reach_from adj reached pending = reach_from adj (reached \<union> set (adj ! p)) (qs @ rest)"
      by (subst reach_from.simps) (simp add: Cons qs(1))
    also have "\<dots> = Some ((edges_of adj)\<^sup>* `` (reached \<union> set (adj ! p)))"
    proof (rule less.hyps [OF smaller])
      show "edges_of adj `` (reached \<union> set (adj ! p) - set (qs @ rest)) \<subseteq> reached \<union> set (adj ! p)"
        using less.prems(4) qs(3) succ Cons by auto
    qed (use less.prems less_adj qs Cons in auto)
    also have "(edges_of adj)\<^sup>* `` (reached \<union> set (adj ! p)) = (edges_of adj)\<^sup>* `` reached"
      using succ p(2) by (auto intro: converse_rtrancl_into_rtrancl)
    finally show ?thesis .
  qed
qed

lemma reachable_nodes_ok:
  assumes "adjacency_ok adj" and "start < length adj"
  shows "reachable_nodes start adj = Some ((edges_of adj)\<^sup>* `` {start})"
  unfolding reachable_nodes_def by (rule reach_from_ok [OF assms(1)]) (use assms(2) in auto)

lemma add_links:
  assumes "distinct es" and "set es \<subseteq> {..<n} \<times> {..<n}"
  shows "\<exists>outgoing incoming. fold add_link es (replicate n [], replicate n []) = (outgoing, incoming) \<and>
    length outgoing = n \<and> length incoming = n \<and>
    (\<forall>x < n. set (outgoing ! x) = {y. (x, y) \<in> set es} \<and> distinct (outgoing ! x)) \<and>
    (\<forall>y < n. set (incoming ! y) = {x. (x, y) \<in> set es} \<and> distinct (incoming ! y))"
  using assms
proof (induction es rule: rev_induct)
  case Nil
  then show ?case by simp
next
  case (snoc e es)
  obtain a b where e: "e = (a, b)" by (cases e)
  have ab: "a < n" "b < n" "(a, b) \<notin> set es" using snoc.prems e by auto
  obtain out inc where IH: "fold add_link es (replicate n [], replicate n []) = (out, inc)" "length out = n" "length inc = n"
    "\<forall>x < n. set (out ! x) = {y. (x, y) \<in> set es} \<and> distinct (out ! x)"
    "\<forall>y < n. set (inc ! y) = {x. (x, y) \<in> set es} \<and> distinct (inc ! y)"
    using snoc by auto
  have "fold add_link (es @ [e]) (replicate n [], replicate n []) = (out[a := out ! a @ [b]], inc[b := inc ! b @ [a]])"
    by (simp only: fold_append fold_simps comp_apply IH(1)) (simp add: add_link_def e)
  moreover have "\<forall>x < n. set (out[a := out ! a @ [b]] ! x) = {y. (x, y) \<in> set (es @ [e])} \<and> distinct (out[a := out ! a @ [b]] ! x)"
    using IH(2,4) ab e by (auto simp: nth_list_update)
  moreover have "\<forall>y < n. set (inc[b := inc ! b @ [a]] ! y) = {x. (x, y) \<in> set (es @ [e])} \<and> distinct (inc[b := inc ! b @ [a]] ! y)"
    using IH(3,5) ab e by (auto simp: nth_list_update)
  ultimately show ?case using IH(2,3) by fastforce
qed

section \<open>What the checks accept\<close>

lemma validate_nodes_from_ok:
  assumes "\<forall>node \<in> set nodes. node \<noteq> [] \<and> strictly_sorted node \<and> set node \<subseteq> {..U32_MAX} \<and> set node \<inter> seen = {}"
    and "distinct (concat nodes)" and "strictly_sorted (case previous of None \<Rightarrow> nodes | Some p \<Rightarrow> p # nodes)"
  shows "validate_nodes_from previous seen nodes = Inr ()"
  using assms
proof (induction nodes arbitrary: previous seen)
  case Nil
  then show ?case by simp
next
  case (Cons node nodes)
  have "validate_nodes_from (Some node) (seen \<union> set node) nodes = Inr ()"
  proof (rule Cons.IH)
    show "\<forall>node' \<in> set nodes. node' \<noteq> [] \<and> strictly_sorted node' \<and> set node' \<subseteq> {..U32_MAX} \<and> set node' \<inter> (seen \<union> set node) = {}"
      using Cons.prems(1,2) by auto
  qed (use Cons.prems(2,3) in \<open>auto split: option.splits\<close>)
  moreover have "\<not> node \<le> p" if "previous = Some p" for p using Cons.prems(3) that by (simp add: not_le)
  ultimately show ?case using Cons.prems(1) by (auto split: option.splits)
qed

lemma validate_index_pairs_from_ok:
  assumes "index_edges n (set es)" and "strictly_sorted (case previous of None \<Rightarrow> es | Some p \<Rightarrow> p # es)"
  shows "validate_index_pairs_from previous n n True es = Inr ()"
  using assms
proof (induction es arbitrary: previous)
  case Nil
  then show ?case by simp
next
  case (Cons e es)
  then show ?case by (cases e) (auto simp: index_edges_def not_le split: option.splits)
qed

lemma validate_taxonomy_graph_ok:
  assumes E: "index_edges n (set es)" "distinct es" "acyclic (set es)" and ends: "tp < n" "bp < n"
    and top: "\<And>i. i < n \<Longrightarrow> (i, tp) \<in> (set es)\<^sup>*" and bottom: "\<And>i. i < n \<Longrightarrow> (bp, i) \<in> (set es)\<^sup>*"
  shows "validate_taxonomy_graph n es tp bp = Some (Inr ())"
proof -
  have less: "set es \<subseteq> {..<n} \<times> {..<n}" using E(1) by (auto simp: index_edges_def)
  obtain out inc where l: "fold add_link es (replicate n [], replicate n []) = (out, inc)" "length out = n" "length inc = n"
    "\<forall>x < n. set (out ! x) = {y. (x, y) \<in> set es} \<and> distinct (out ! x)"
    "\<forall>y < n. set (inc ! y) = {x. (x, y) \<in> set es} \<and> distinct (inc ! y)"
    using add_links [OF E(2) less] by blast
  have rel: "edges_of out = set es" "edges_of inc = (set es)\<inverse>" using l(2-5) less by (auto simp: edges_of_def)
  have ok: "adjacency_ok out" "adjacency_ok inc" "rows_distinct out"
    using l(2-5) less by (auto simp: adjacency_ok_def rows_distinct_def)
  have no_up: "out ! tp = []"
  proof (rule ccontr)
    assume "out ! tp \<noteq> []"
    then obtain y where "y \<in> set (out ! tp)" by (cases "out ! tp") auto
    with l(4) ends(1) have "(tp, y) \<in> set es" by simp
    moreover from this less top have "(y, tp) \<in> (set es)\<^sup>*" by blast
    ultimately show False using E(3) unfolding acyclic_def by (meson rtrancl_into_trancl2)
  qed
  have no_down: "inc ! bp = []"
  proof (rule ccontr)
    assume "inc ! bp \<noteq> []"
    then obtain x where "x \<in> set (inc ! bp)" by (cases "inc ! bp") auto
    with l(5) ends(2) have "(x, bp) \<in> set es" by simp
    moreover from this less bottom have "(bp, x) \<in> (set es)\<^sup>*" by blast
    ultimately show False using E(3) unfolding acyclic_def by (meson rtrancl_into_trancl2)
  qed
  let ?ind = "map (int \<circ> length) inc"
  have "?ind ! y = indegrees_of out {} y" if "y < n" for y
    using that l(3,5) distinct_card [of "inc ! y"] by (simp add: indegrees_of_def rel(1))
  then have "kahn_inv out ?ind (free_nodes ?ind) []"
    using l(2,3) by (auto simp: kahn_inv_def free_nodes_def)
  from deque.kahn_ok [OF ok(1,3) this] obtain ind' visited where k:
    "kahn (\<lambda>x xs. xs @ [x]) out ?ind (free_nodes ?ind) [] = Some visited" "kahn_inv out ind' [] visited" by blast
  have len: "length visited = n" using kahn_stuck [OF ok(1) k(2)] E(3) l(2) rel(1) by auto
  have "reachable_nodes bp out = Some {..<n}"
    using reachable_nodes_ok [OF ok(1)] ends(2) l(2) bottom reach_less [OF ok(1), of bp] unfolding rel(1) by auto
  moreover have "reachable_nodes tp inc = Some {..<n}"
    using reachable_nodes_ok [OF ok(2)] ends(1) l(3) top reach_less [OF ok(1)] l(2)
    unfolding rel by (auto simp: rtrancl_converse)
  ultimately show ?thesis using l(1) no_up no_down k(1) len
    by (simp add: validate_taxonomy_graph_def Let_def)
qed

text \<open>A quotient with a greatest and a least node is a taxonomy.\<close>

lemma new_raw_taxonomy_ok:
  assumes q: "quotient_of M R g" and M: "M \<subseteq> {..U32_MAX}" "R \<subseteq> M \<times> M"
    and nodes: "tp < length (rg_nodes g)" "t \<in> set (rg_nodes g ! tp)" "bp < length (rg_nodes g)" "b \<in> set (rg_nodes g ! bp)"
    and top: "\<And>x. x \<in> M \<Longrightarrow> (x, t) \<in> R\<^sup>*" and bottom: "\<And>x. x \<in> M \<Longrightarrow> (b, x) \<in> R\<^sup>*"
  shows "new_raw_taxonomy (rg_nodes g) (rg_direct_edges g) tp bp =
    Some (Inr \<lparr>rt_nodes = rg_nodes g, rt_direct_edges = rg_direct_edges g, rt_top = tp, rt_bottom = bp\<rparr>)"
proof -
  let ?n = "length (rg_nodes g)"
  let ?E = "set (rg_direct_edges g)"
  note d = quotient_ofD [OF q]
  have in_M: "y \<in> M" if "x \<in> M" "y \<in> mutual R x" for x y
    using that M(2) by (auto simp: mutual_def elim: rtranclE)
  have node: "node \<noteq> [] \<and> strictly_sorted node \<and> set node \<subseteq> {..U32_MAX} \<and> set node \<inter> {} = {}"
    if n: "node \<in> set (rg_nodes g)" for node
  proof -
    obtain x where x: "x \<in> M" "set node = mutual R x" by (rule quotient_node [OF q n])
    then have "node \<noteq> []" by (metis empty_iff list.set(1) mutual_self)
    with x in_M M(1) d(2) [OF n] show ?thesis by auto
  qed
  have nodes_ok: "validate_nodes (rg_nodes g) = Inr ()"
    unfolding validate_nodes_def
    by (rule validate_nodes_from_ok) (use node quotient_disjoint [OF q] d(1) in simp_all)
  have pairs_ok: "validate_index_pairs (rg_direct_edges g) ?n ?n True = Inr ()"
    unfolding validate_index_pairs_def by (rule validate_index_pairs_from_ok) (use d(4,7) in simp_all)
  have graph_ok: "validate_taxonomy_graph ?n (rg_direct_edges g) tp bp = Some (Inr ())"
  proof (rule validate_taxonomy_graph_ok [OF d(7) strictly_sorted_distinct [OF d(4)] d(5) nodes(1,3)])
    fix i assume i: "i < ?n"
    obtain x where x: "x \<in> M" "set (rg_nodes g ! i) = mutual R x" by (rule quotient_nonempty [OF q i])
    then have "x \<in> set (rg_nodes g ! i)" by simp
    with d(8) [OF i nodes(1) _ nodes(2)] d(8) [OF nodes(3) i nodes(4)] top [OF x(1)] bottom [OF x(1)]
    show "(i, tp) \<in> ?E\<^sup>*" "(bp, i) \<in> ?E\<^sup>*" by blast+
  qed
  have "rg_nodes g \<noteq> []" using nodes(1) by auto
  have c: "checks [Inr (), Inr (), Inr (), Inr ()] = Inr ()" by (simp add: checks_Inr_iff)
  with \<open>rg_nodes g \<noteq> []\<close> nodes_ok pairs_ok graph_ok nodes(1,3) show ?thesis
    by (simp add: new_raw_taxonomy_def raw_taxonomy_check_def Let_def c)
qed

end
