(* ===== verification/Taxonomy.thy ===== *)
theory Taxonomy
  imports Session_Results Raw_Taxonomy
begin

text \<open>
  \<open>src/pyelk/reasoning/taxonomy.py\<close>: class and object property taxonomies from a saturation.  Sets of
  edges are lists here; neither order nor repetition matters to \<open>quotient_and_reduce\<close>.
\<close>

section \<open>Validation\<close>

definition entity_ids :: "entity_record list \<Rightarrow> entity_kind \<Rightarrow> nat list" where
  "entity_ids es k = map fst (filter (\<lambda>(i, r). kind r = k) (enumerate 0 es))"

definition metadata_entity :: "entity_record list \<Rightarrow> entity_kind \<Rightarrow> py_str \<Rightarrow> nat result" where
  "metadata_entity es k name = (case find_index (\<lambda>r. kind r = k \<and> iri r = name) es of
     None \<Rightarrow> Inl ValueError | Some e \<Rightarrow> Inr e)"

definition validate_taxonomy_entities :: "entity_record list \<Rightarrow> raw_taxonomy \<Rightarrow> entity_kind \<Rightarrow> raw_taxonomy result option" where
  "validate_taxonomy_entities es t k = (
     if k \<noteq> CLASS \<and> k \<noteq> OBJECT_PROPERTY then Some (Inl ValueError)
     else if sort (concat (rt_nodes t)) \<noteq> entity_ids es k then Some (Inl ValueError)
     else if \<exists>member \<in> set (concat (rt_nodes t)). kind (es ! member) \<noteq> k then Some (Inl ValueError)
     else
       let top_iri = (if k = CLASS then OWL_THING_IRI else OWL_TOP_OBJECT_PROPERTY_IRI);
         bottom_iri = (if k = CLASS then OWL_NOTHING_IRI else OWL_BOTTOM_OBJECT_PROPERTY_IRI) in
       case rbind (metadata_entity es k top_iri) (\<lambda>tp. rbind (metadata_entity es k bottom_iri) (\<lambda>bp.
           checks [rassert (tp \<in> set (rt_nodes t ! rt_top t)) ValueError,
             rassert (bp \<in> set (rt_nodes t ! rt_bottom t)) ValueError])) of
         Inl x \<Rightarrow> Some (Inl x)
       | Inr _ \<Rightarrow> map_option (\<lambda>m. rbind m (\<lambda>direct. if direct \<noteq> rt_direct_edges t then Inl ValueError else Inr t))
           (transitive_reduction (length (rt_nodes t)) (rt_direct_edges t)))"

definition validate_taxonomy :: "compiled_ontology \<Rightarrow> raw_taxonomy \<Rightarrow> entity_kind \<Rightarrow> raw_taxonomy result option" where
  "validate_taxonomy co t k = validate_taxonomy_entities (entities co) t k"

section \<open>Construction\<close>

text \<open>A step that may raise, inside a computation that may not return.\<close>

definition obind :: "'a result option \<Rightarrow> ('a \<Rightarrow> 'b result option) \<Rightarrow> 'b result option" where
  "obind m f = (case m of None \<Rightarrow> None | Some (Inl x) \<Rightarrow> Some (Inl x) | Some (Inr a) \<Rightarrow> f a)"

definition from_relation ::
    "compiled_ontology \<Rightarrow> nat list \<Rightarrow> (nat \<times> nat) list \<Rightarrow> entity_kind \<Rightarrow> nat \<Rightarrow> nat \<Rightarrow> raw_taxonomy result option" where
  "from_relation co members edges k tp bp = obind (quotient_and_reduce members edges) (\<lambda>g.
     case (node_for g tp, node_for g bp) of
       (Some top_node, Some bottom_node) \<Rightarrow>
         obind (new_raw_taxonomy (rg_nodes g) (rg_direct_edges g) top_node bottom_node) (\<lambda>t. validate_taxonomy co t k)
     | _ \<Rightarrow> Some (Inl PyAssertionError))"

definition collapsed_taxonomy ::
    "compiled_ontology \<Rightarrow> nat list \<Rightarrow> entity_kind \<Rightarrow> nat \<Rightarrow> nat \<Rightarrow> raw_taxonomy result option" where
  "collapsed_taxonomy co members k tp bp = obind (new_raw_taxonomy [members] [] 0 0) (\<lambda>t.
     if tp \<notin> set members \<or> bp \<notin> set members then Some (Inl PyAssertionError) else validate_taxonomy co t k)"

text \<open>A class without argument does not pass the constructor of the expression table.\<close>

definition named_expressions :: "compiled_ontology \<Rightarrow> expression_tag \<Rightarrow> (nat, nat) dict" where
  "named_expressions co t = fold (\<lambda>(i, r). dict_put (hd (arguments r)) i)
     (filter (\<lambda>(i, r). tag r = t) (enumerate 0 (expressions co))) []"

definition isolated_context :: "compiled_ontology \<Rightarrow> property_saturation \<Rightarrow> nat \<Rightarrow> (nat \<times> frozen_context) result option" where
  "isolated_context co ps root = (case new_engine co ps of
     Inl x \<Rightarrow> Some (Inl x)
   | Inr e \<Rightarrow> map_option (\<lambda>(out, _). rbind out (\<lambda>snap. case dict_get (snap_contexts snap) root of
         None \<Rightarrow> Inl KeyError | Some fz \<Rightarrow> Inr (root, fz))) (run [root] None never e))"

fun isolated_contexts ::
    "compiled_ontology \<Rightarrow> property_saturation \<Rightarrow> nat list \<Rightarrow> (nat, frozen_context) dict result option" where
  "isolated_contexts co ps [] = Some (Inr [])"
| "isolated_contexts co ps (root # roots) = obind (isolated_context co ps root) (\<lambda>row.
     obind (isolated_contexts co ps roots) (\<lambda>rows. Some (Inr (row # rows))))"

definition class_edges_of ::
    "(nat, nat) dict \<Rightarrow> (nat, nat) dict \<Rightarrow> (nat, frozen_context) dict \<Rightarrow> nat \<Rightarrow> nat \<Rightarrow> nat \<Rightarrow> (nat \<times> nat) list result" where
  "class_edges_of named expression_entities ctxs tp bp member = (case dict_get named member of
     None \<Rightarrow> Inl KeyError
   | Some root \<Rightarrow> (case dict_get ctxs root of
       None \<Rightarrow> Inl ValueError
     | Some fz \<Rightarrow> Inr ((member, tp) #
         List.map_filter (\<lambda>subsumer. map_option (Pair member) (dict_get expression_entities subsumer))
           (sorted_list_of_set (set (fz_composed_subsumers fz) \<union> set (fz_decomposed_subsumers fz))) @
         (if fz_inconsistent fz \<or> member = bp then [(member, bp)] else []))))"

definition build_class_taxonomy ::
    "compiled_ontology \<Rightarrow> saturation_snapshot \<Rightarrow> property_saturation option \<Rightarrow> raw_taxonomy result option" where
  "build_class_taxonomy co snap known_view = (
     let members = entity_ids (entities co) CLASS in
     obind (Some (named_entity co CLASS OWL_THING_IRI)) (\<lambda>tp.
     obind (Some (named_entity co CLASS OWL_NOTHING_IRI)) (\<lambda>bp.
     if snap_inconsistent_ontology snap then collapsed_taxonomy co members CLASS tp bp
     else
       let named = named_expressions co TAG_CLASS;
         expression_entities = map (\<lambda>(entity, expression). (expression, entity)) named in
       obind (if property_ranges co = [] then Some (Inr (snap_contexts snap))
         else obind (case known_view of None \<Rightarrow> saturate_properties co | Some ps \<Rightarrow> Some (Inr ps)) (\<lambda>view.
           isolated_contexts co view (map snd named))) (\<lambda>ctxs.
       obind (Some (rconcat_map (class_edges_of named expression_entities ctxs tp bp) members)) (\<lambda>edges.
       from_relation co members (map (Pair bp) members @ edges) CLASS tp bp)))))"

definition property_edges_of :: "property_saturation \<Rightarrow> (nat, nat) dict \<Rightarrow> nat \<Rightarrow> nat \<Rightarrow> (nat \<times> nat) list result" where
  "property_edges_of ps singleton_entities tp member =
     rbind (singleton_chain ps member) (\<lambda>chain. rmap (\<lambda>supers. (member, tp) #
       List.map_filter (\<lambda>super. map_option (Pair member) (dict_get singleton_entities super)) supers) (super_chains ps chain))"

definition build_object_property_taxonomy ::
    "compiled_ontology \<Rightarrow> property_saturation \<Rightarrow> bool \<Rightarrow> raw_taxonomy result option" where
  "build_object_property_taxonomy co ps inconsistent_ontology = (
     let members = entity_ids (entities co) OBJECT_PROPERTY in
     obind (Some (named_entity co OBJECT_PROPERTY OWL_TOP_OBJECT_PROPERTY_IRI)) (\<lambda>tp.
     obind (Some (named_entity co OBJECT_PROPERTY OWL_BOTTOM_OBJECT_PROPERTY_IRI)) (\<lambda>bp.
     if inconsistent_ontology then collapsed_taxonomy co members OBJECT_PROPERTY tp bp
     else
       let singleton_entities = map (\<lambda>(chain, record). (chain, first_property record))
           (filter (\<lambda>(chain, record). is_singleton record) (enumerate 0 (chain_records ps))) in
       obind (Some (rconcat_map (property_edges_of ps singleton_entities tp) members)) (\<lambda>edges.
       from_relation co members (map (Pair bp) members @ edges) OBJECT_PROPERTY tp bp))))"

section \<open>The session's entry points\<close>

definition class_taxonomy :: "raw_taxonomy action" where
  "class_taxonomy s = and_then ensure_classified (\<lambda>snap. and_then ensure_properties (\<lambda>ps s.
     map_option (\<lambda>out. (out, s)) (build_class_taxonomy (ss_compiled s) snap (Some ps)))) s"

definition object_property_taxonomy :: "raw_taxonomy action" where
  "object_property_taxonomy s = and_then ensure_consistency (\<lambda>cs. and_then ensure_properties (\<lambda>ps s.
     map_option (\<lambda>out. (out, s)) (build_object_property_taxonomy (ss_compiled s) ps (inconsistent_state cs)))) s"

end
