(* ===== verification/Taxonomy_Results.thy ===== *)
theory Taxonomy_Results
  imports Taxonomy
begin

text \<open>The taxonomies a session returns, against the order the inference rules or the told axioms give.\<close>

section \<open>Tables of entities and named expressions\<close>

lemma enumerate_filter: "map fst (filter (\<lambda>(i, r). P i r) (enumerate 0 xs)) = filter (\<lambda>i. P i (xs ! i)) [0..<length xs]"
proof -
  have "enumerate 0 xs = map (\<lambda>i. (i, xs ! i)) [0..<length xs]"
    by (intro nth_equalityI) (simp_all add: nth_enumerate_eq)
  then show ?thesis by (simp add: filter_map comp_def)
qed

lemma entity_ids_eq: "entity_ids es k = filter (\<lambda>i. kind (es ! i) = k) [0..<length es]"
  unfolding entity_ids_def by (rule enumerate_filter)

lemma entity_ids_set [simp]: "set (entity_ids es k) = {e. e < length es \<and> kind (es ! e) = k}"
  by (auto simp: entity_ids_eq)

lemma entity_ids_sorted: "strictly_sorted (entity_ids es k)" "distinct (entity_ids es k)"
proof -
  show "strictly_sorted (entity_ids es k)"
    by (simp add: entity_ids_eq strictly_sorted_wrt sorted_wrt_filter)
  then show "distinct (entity_ids es k)" by (rule strictly_sorted_distinct)
qed

lemma metadata_named: "named_entity co k name = Inr e \<longleftrightarrow> metadata_entity (entities co) k name = Inr e"
  by (simp add: named_entity_def metadata_entity_def split: option.split)

definition class_name :: "compiled_ontology \<Rightarrow> nat \<Rightarrow> nat \<Rightarrow> bool" where
  "class_name co e x \<longleftrightarrow> is_expression co x \<and> tag (expressions co ! x) = TAG_CLASS \<and> arguments (expressions co ! x) = [e]"

abbreviation class_ids :: "compiled_ontology \<Rightarrow> nat list" where
  "class_ids co \<equiv> entity_ids (entities co) CLASS"

lemma class_name_exists:
  assumes "valid_ontology co" and "e \<in> set (class_ids co)"
  obtains x where "class_name co e x"
  using named_expression [OF assms(1), of e TAG_CLASS] assms(2) by (auto simp: class_name_def)

lemma valid_class:
  assumes "valid_ontology co" and "is_expression co x" and "tag (expressions co ! x) = TAG_CLASS"
  shows "payload (expressions co ! x) = []" and "class_name co (hd (arguments (expressions co ! x))) x"
    and "hd (arguments (expressions co ! x)) \<in> set (class_ids co)"
  using valid_expression_unfolded [OF assms(1,2)] assms(2,3)
  by (auto simp: class_name_def length_Suc_conv require_empty_payload_def)

lemma class_name_unique:
  assumes "valid_ontology co" and "class_name co e x" and "class_name co e y"
  shows "x = y"
proof -
  have "expression_key (expressions co ! x) = expression_key (expressions co ! y)"
    using assms valid_class(1) [OF assms(1)] by (simp add: class_name_def expression_key_def)
  moreover have "distinct (map expression_key (expressions co))"
    using valid_ontology_parts(2) [OF assms(1)]
    by (auto simp: validate_expressions_def checks_Inr_iff validate_expression_order_def Let_def split: if_splits)
  moreover have "x < length (expressions co)" "y < length (expressions co)"
    using assms(2,3) by (simp_all add: class_name_def is_expression_def)
  ultimately show ?thesis by (metis length_map nth_eq_iff_index_eq nth_map)
qed

lemma named_expressions_eq:
  assumes "valid_ontology co"
  shows "named_expressions co TAG_CLASS =
    map (\<lambda>x. (hd (arguments (expressions co ! x)), x)) (session_roots co TAG_CLASS)"
proof -
  let ?f = "\<lambda>x. hd (arguments (expressions co ! x))"
  have "fold (\<lambda>x. dict_put (?f x) x) xs d = d @ map (\<lambda>x. (?f x, x)) xs"
    if "distinct (map ?f xs)" "set (map ?f xs) \<inter> dict_keys d = {}" for xs and d :: "(nat, nat) dict"
    using that by (induction xs arbitrary: d) (auto simp: dict_put_fresh dict_keys_def)
  moreover have "distinct (map ?f (session_roots co TAG_CLASS))"
  proof -
    have "inj_on ?f (set (session_roots co TAG_CLASS))"
      using valid_class(2) [OF assms] class_name_unique [OF assms]
      by (intro inj_onI) (metis (mono_tags, lifting) mem_Collect_eq session_roots_expressions)
    then show ?thesis by (simp add: distinct_map session_roots_def enumerate_filter)
  qed
  moreover have "named_expressions co TAG_CLASS = fold (\<lambda>x. dict_put (?f x) x) (session_roots co TAG_CLASS) []"
  proof -
    have "enumerate 0 (expressions co) = map (\<lambda>i. (i, expressions co ! i)) [0..<length (expressions co)]"
      by (intro nth_equalityI) (simp_all add: nth_enumerate_eq)
    then show ?thesis
      by (simp add: named_expressions_def session_roots_def filter_map comp_def fold_map split_def)
  qed
  ultimately show ?thesis by (simp add: dict_keys_def)
qed

lemma named_expressions_get:
  assumes "valid_ontology co"
  shows "dict_get (named_expressions co TAG_CLASS) e = Some x \<longleftrightarrow> class_name co e x"
    and "dict_get (map (\<lambda>(entity, expression). (expression, entity)) (named_expressions co TAG_CLASS)) x = Some e \<longleftrightarrow> class_name co e x"
proof -
  let ?f = "\<lambda>x. hd (arguments (expressions co ! x))"
  have mem: "(e, x) \<in> set (named_expressions co TAG_CLASS) \<longleftrightarrow> class_name co e x" for e x
    using valid_class(2) [OF assms, of x]
    by (auto simp: named_expressions_eq [OF assms] session_roots_expressions class_name_def image_iff)
  have "distinct (map fst (named_expressions co TAG_CLASS))"
  proof -
    have "inj_on ?f (set (session_roots co TAG_CLASS))"
      using valid_class(2) [OF assms] class_name_unique [OF assms]
      by (intro inj_onI) (metis (mono_tags, lifting) mem_Collect_eq session_roots_expressions)
    then show ?thesis
      unfolding named_expressions_eq [OF assms]
      by (simp add: distinct_map comp_def session_roots_def enumerate_filter)
  qed
  with mem show "dict_get (named_expressions co TAG_CLASS) e = Some x \<longleftrightarrow> class_name co e x" by simp
  have "distinct (map fst (map (\<lambda>(entity, expression). (expression, entity)) (named_expressions co TAG_CLASS)))"
    unfolding named_expressions_eq [OF assms] by (simp add: comp_def session_roots_def enumerate_filter)
  then have "dict_get (map (\<lambda>(entity, expression). (expression, entity)) (named_expressions co TAG_CLASS)) x = Some e \<longleftrightarrow>
      (x, e) \<in> set (map (\<lambda>(entity, expression). (expression, entity)) (named_expressions co TAG_CLASS))"
    by (rule map_of_eq_Some_iff)
  also have "\<dots> \<longleftrightarrow> (e, x) \<in> set (named_expressions co TAG_CLASS)" by force
  finally show "dict_get (map (\<lambda>(entity, expression). (expression, entity)) (named_expressions co TAG_CLASS)) x = Some e \<longleftrightarrow> class_name co e x"
    by (simp only: mem)
qed

section \<open>From a relation to a taxonomy\<close>

definition taxonomy_of :: "nat set \<Rightarrow> (nat \<times> nat) set \<Rightarrow> nat \<Rightarrow> nat \<Rightarrow> raw_taxonomy \<Rightarrow> bool" where
  "taxonomy_of M R tp bp t \<longleftrightarrow> quotient_of M R \<lparr>rg_nodes = rt_nodes t, rg_direct_edges = rt_direct_edges t\<rparr> \<and>
     rt_top t < length (rt_nodes t) \<and> tp \<in> set (rt_nodes t ! rt_top t) \<and>
     rt_bottom t < length (rt_nodes t) \<and> bp \<in> set (rt_nodes t ! rt_bottom t)"

definition predefined_ends :: "compiled_ontology \<Rightarrow> entity_kind \<Rightarrow> nat \<Rightarrow> nat \<Rightarrow> bool" where
  "predefined_ends co k tp bp \<longleftrightarrow> (k = CLASS \<and> named_entity co k OWL_THING_IRI = Inr tp \<and> named_entity co k OWL_NOTHING_IRI = Inr bp) \<or>
     (k = OBJECT_PROPERTY \<and> named_entity co k OWL_TOP_OBJECT_PROPERTY_IRI = Inr tp \<and>
       named_entity co k OWL_BOTTOM_OBJECT_PROPERTY_IRI = Inr bp)"

lemma predefined_ends_exist:
  assumes "valid_ontology co" and "k = CLASS \<or> k = OBJECT_PROPERTY"
  obtains tp bp where "predefined_ends co k tp bp" and "tp \<in> set (entity_ids (entities co) k)" and "bp \<in> set (entity_ids (entities co) k)"
proof (cases "k = CLASS")
  case True
  obtain tp where t: "named_entity co k OWL_THING_IRI = Inr tp" "tp < length (entities co)" "kind (entities co ! tp) = k"
    using named_entity_total [OF assms(1) predefined(2)] True by metis
  obtain bp where b: "named_entity co k OWL_NOTHING_IRI = Inr bp" "bp < length (entities co)" "kind (entities co ! bp) = k"
    using named_entity_total [OF assms(1) predefined(1)] True by metis
  from t b True show ?thesis by (intro that [of tp bp]) (simp_all add: predefined_ends_def)
next
  case False
  then have k: "k = OBJECT_PROPERTY" using assms(2) by simp
  obtain tp where t: "named_entity co k OWL_TOP_OBJECT_PROPERTY_IRI = Inr tp" "tp < length (entities co)" "kind (entities co ! tp) = k"
    using named_entity_total [OF assms(1) predefined(4)] k by metis
  obtain bp where b: "named_entity co k OWL_BOTTOM_OBJECT_PROPERTY_IRI = Inr bp" "bp < length (entities co)" "kind (entities co ! bp) = k"
    using named_entity_total [OF assms(1) predefined(3)] k by metis
  from t b k show ?thesis by (intro that [of tp bp]) (simp_all add: predefined_ends_def)
qed

lemma quotient_members:
  assumes q: "quotient_of M R g" and R: "R \<subseteq> M \<times> M"
  shows "set (concat (rg_nodes g)) = M"
proof -
  have "set (concat (rg_nodes g)) = \<Union> (set ` set (rg_nodes g))" by simp
  also have "\<dots> = (\<Union>x \<in> M. mutual R x)" by (simp only: quotient_ofD(3) [OF q] image_image)
  also have "\<dots> = M" using R by (auto simp: mutual_def elim: rtranclE)
  finally show ?thesis .
qed

lemma entity_u32:
  assumes "valid_ontology co"
  shows "set (entity_ids (entities co) k) \<subseteq> {..U32_MAX}"
  using valid_entity_count [OF assms] by (auto simp: U32_MAX_def U32_RESERVED_def)

lemma validate_taxonomy_ok:
  assumes valid: "valid_ontology co" and ends: "predefined_ends co k tp bp"
    and R: "R \<subseteq> set (entity_ids (entities co) k) \<times> set (entity_ids (entities co) k)"
    and t: "taxonomy_of (set (entity_ids (entities co) k)) R tp bp t"
  shows "validate_taxonomy co t k = Some (Inr t)"
proof -
  let ?M = "set (entity_ids (entities co) k)"
  let ?g = "\<lparr>rg_nodes = rt_nodes t, rg_direct_edges = rt_direct_edges t\<rparr>"
  have q: "quotient_of ?M R ?g" and nodes: "tp \<in> set (rt_nodes t ! rt_top t)" "bp \<in> set (rt_nodes t ! rt_bottom t)"
    using t unfolding taxonomy_of_def by blast+
  have members: "set (concat (rt_nodes t)) = ?M" using quotient_members [OF q R] by simp
  have "distinct (concat (rt_nodes t))" using quotient_disjoint [OF q] by simp
  then have "strictly_sorted (sort (concat (rt_nodes t)))" by (simp add: strictly_sorted_wrt strict_sorted_iff)
  then have sorted: "sort (concat (rt_nodes t)) = entity_ids (entities co) k"
    by (rule strictly_sorted_unique [OF _ entity_ids_sorted(1)]) (simp only: set_sort members)
  note d = quotient_ofD [OF q, simplified]
  have "sorted_list_of_set (set (rt_direct_edges t)) = rt_direct_edges t"
    by (rule strictly_sorted_unique [OF strictly_sorted_list_of_set d(4)]) simp
  then have red: "transitive_reduction (length (rt_nodes t)) (rt_direct_edges t) = Some (Inr (rt_direct_edges t))"
    using d(5-7) by (simp add: transitive_reduction_eq)
  have kinds: "\<forall>member \<in> set (concat (rt_nodes t)). kind (entities co ! member) = k" unfolding members by simp
  from ends show ?thesis
    unfolding predefined_ends_def metadata_named
    by (elim disjE conjE) (use sorted red kinds nodes in \<open>auto simp: validate_taxonomy_def validate_taxonomy_entities_def checks_def\<close>)
qed

lemma from_relation_ok:
  assumes valid: "valid_ontology co" and ends: "predefined_ends co k tp bp"
    and M: "tp \<in> set (entity_ids (entities co) k)" "bp \<in> set (entity_ids (entities co) k)"
    and R: "set edges \<subseteq> set (entity_ids (entities co) k) \<times> set (entity_ids (entities co) k)"
    and top: "\<And>x. x \<in> set (entity_ids (entities co) k) \<Longrightarrow> (x, tp) \<in> set edges"
    and bottom: "\<And>x. x \<in> set (entity_ids (entities co) k) \<Longrightarrow> (bp, x) \<in> set edges"
  obtains t where "from_relation co (entity_ids (entities co) k) edges k tp bp = Some (Inr t)"
    and "taxonomy_of (set (entity_ids (entities co) k)) (set edges) tp bp t"
proof -
  let ?members = "entity_ids (entities co) k"
  obtain g where g: "quotient_and_reduce ?members edges = Some (Inr g)" "quotient_of (set ?members) (set edges) g"
    using quotient_and_reduce_ok [OF entity_ids_sorted(2) R] by blast
  have node: "\<exists>i. node_for g m = Some i \<and> i < length (rg_nodes g) \<and> m \<in> set (rg_nodes g ! i)" if m: "m \<in> set ?members" for m
  proof -
    have "m \<in> set (concat (rg_nodes g))" using quotient_members [OF g(2) R] m by simp
    then obtain i where "node_for g m = Some i"
      using find_index_from_None [of 0 "\<lambda>node. m \<in> set node" "rg_nodes g"] by (cases "node_for g m") (auto simp: node_for_def)
    with find_index_Some [of "\<lambda>node. m \<in> set node" "rg_nodes g" i] show ?thesis by (auto simp: node_for_def)
  qed
  obtain i where i: "node_for g tp = Some i" "i < length (rg_nodes g)" "tp \<in> set (rg_nodes g ! i)" using node M(1) by blast
  obtain j where j: "node_for g bp = Some j" "j < length (rg_nodes g)" "bp \<in> set (rg_nodes g ! j)" using node M(2) by blast
  let ?t = "\<lparr>rt_nodes = rg_nodes g, rt_direct_edges = rg_direct_edges g, rt_top = i, rt_bottom = j\<rparr>"
  have new: "new_raw_taxonomy (rg_nodes g) (rg_direct_edges g) i j = Some (Inr ?t)"
    by (rule new_raw_taxonomy_ok [OF g(2) entity_u32 [OF valid] R i(2,3) j(2,3)]) (use top bottom in auto)
  have t: "taxonomy_of (set ?members) (set edges) tp bp ?t"
    using g(2) i j unfolding taxonomy_of_def by (cases g) simp
  have "validate_taxonomy co ?t k = Some (Inr ?t)" by (rule validate_taxonomy_ok [OF valid ends R t])
  with g(1) i(1) j(1) new t show ?thesis by (intro that [of ?t]) (simp_all add: from_relation_def obind_def)
qed

lemma collapsed_ok:
  assumes valid: "valid_ontology co" and ends: "predefined_ends co k tp bp"
    and M: "tp \<in> set (entity_ids (entities co) k)" "bp \<in> set (entity_ids (entities co) k)"
  defines "members \<equiv> entity_ids (entities co) k"
  defines "t \<equiv> \<lparr>rt_nodes = [members], rt_direct_edges = [], rt_top = 0, rt_bottom = 0\<rparr>"
  shows "collapsed_taxonomy co members k tp bp = Some (Inr t)"
    and "taxonomy_of (set members) (set members \<times> set members) tp bp t"
proof -
  let ?R = "set members \<times> set members"
  let ?g = "\<lparr>rg_nodes = [members], rg_direct_edges = []\<rparr>"
  have all: "mutual ?R x = set members" if "x \<in> set members" for x
    using that by (auto simp: mutual_def elim: rtranclE)
  have ne: "set members \<noteq> {}" using M(1) by (auto simp: members_def)
  have img: "mutual ?R ` set members = {set members}"
    by (simp only: image_cong [OF refl all] image_constant_conv ne if_False)
  have q: "quotient_of (set members) ?R ?g"
    using entity_ids_sorted(1) [of "entities co" k] img
    by (auto simp: quotient_of_def index_edges_def reduced_def acyclic_def members_def)
  then show t: "taxonomy_of (set members) ?R tp bp t" using M by (simp add: taxonomy_of_def t_def members_def)
  have "new_raw_taxonomy [members] [] 0 0 = Some (Inr t)"
    using new_raw_taxonomy_ok [OF q, of 0 tp 0 bp] entity_u32 [OF valid] M by (simp add: t_def members_def r_into_rtrancl)
  moreover have "validate_taxonomy co t k = Some (Inr t)"
    by (rule validate_taxonomy_ok [OF valid ends _ t [unfolded members_def]]) simp
  ultimately show "collapsed_taxonomy co members k tp bp = Some (Inr t)"
    using M by (simp add: collapsed_taxonomy_def obind_def members_def)
qed

end
