(* ===== verification/Locality.thy ===== *)
theory Locality
  imports Session_Results
begin

text \<open>
  Without property ranges a context holds what follows from demanding it alone: nothing another
  demanded context does reaches it.  Hence the verdict on consistency is the same after any history.
\<close>

section \<open>What follows for a context follows from its own root\<close>

text \<open>
  \<open>at_home D c\<close>: \<open>c\<close> follows from the root it speaks about.  A backward link is stored at its target and
  speaks about its source; a subcontext or a propagation serves every source linked to the context.
\<close>

fun at_home :: "(nat \<Rightarrow> conclusion set) \<Rightarrow> conclusion \<Rightarrow> bool" where
  "at_home D (BackwardLink d p s) = (BackwardLink d p s \<in> D s)"
| "at_home D (SubContextInitialization d p) = (\<forall>s. BackwardLink d p s \<in> D s \<longrightarrow> SubContextInitialization d p \<in> D s)"
| "at_home D (Propagation d p e) = (\<forall>s. BackwardLink d p s \<in> D s \<longrightarrow> Propagation d p e \<in> D s)"
| "at_home D c = (c \<in> D (conclusion_destination c))"

definition spoken :: "conclusion \<Rightarrow> bool" where
  "spoken c \<longleftrightarrow> (case c of BackwardLink _ _ _ \<Rightarrow> False | SubContextInitialization _ _ \<Rightarrow> False
     | Propagation _ _ _ \<Rightarrow> False | _ \<Rightarrow> True)"

lemma at_home_spoken: "spoken c \<Longrightarrow> at_home D c \<longleftrightarrow> c \<in> D (conclusion_destination c)"
  by (cases c) (simp_all add: spoken_def)

lemma derivable_linked:
  assumes "c \<in> derivable co ps roots"
  shows "derivable co ps {conclusion_destination c} \<subseteq> derivable co ps roots"
proof
  fix x assume "x \<in> derivable co ps {conclusion_destination c}"
  then show "x \<in> derivable co ps roots"
    by (induction rule: derivable.induct) (use assms in \<open>auto intro: derivable.intros\<close>)
qed

lemma derivable_at_home:
  assumes ranges: "\<And>p x. \<not> has_range ps p x" and "c \<in> derivable co ps roots"
  shows "at_home (\<lambda>x. derivable co ps {x}) c"
  using assms(2)
proof (induction rule: derivable.induct)
  case (root r)
  then show ?case by (simp add: derivable.root)
next
  case (created c)
  then show ?case by (simp add: derivable.root)
next
  case (unary p c)
  from unary(2,1,3) show ?case
  proof (induction rule: unary_rule.induct)
    case (link_range p x d s)
    then show ?case by (simp add: ranges)
  qed (auto intro: derivable.unary unary_rule.intros simp: ranges)
next
  case (binary p q c)
  from binary(3,1,2,4,5) show ?case
  proof (induction rule: binary_rule.induct)
    case (propagation e p f c q d)
    show ?case
    proof (simp, intro allI impI)
      fix s assume s: "BackwardLink d q s \<in> derivable co ps {s}"
      from derivable_linked [OF s] propagation.prems(4)
      have "SubClassInclusionComposed d f \<in> derivable co ps {s}" by auto
      moreover have "SubContextInitialization d q \<in> derivable co ps {s}"
        using s unary_rule.subcontext by (rule derivable.unary)
      ultimately show "Propagation d q e \<in> derivable co ps {s}"
        using binary_rule.propagation [OF propagation.hyps] derivable.binary by metis
    qed
  next
    case (existential d q s e)
    then show ?case by (auto intro: derivable.binary binary_rule.existential)
  next
    case (inconsistency d q s)
    then have s: "BackwardLink d q s \<in> derivable co ps {s}" by simp
    from derivable_linked [OF s] inconsistency.prems(4) have "ClassInconsistency d \<in> derivable co ps {s}" by auto
    with s binary_rule.inconsistency show ?case by (auto intro: derivable.binary)
  next
    case (link_chain q c res d s t)
    then have s: "BackwardLink d q s \<in> derivable co ps {s}" by simp
    from derivable_linked [OF s] link_chain.prems(4) have "ForwardLink d c t \<in> derivable co ps {s}" by auto
    with s binary_rule.link_chain [OF link_chain.hyps] show ?case by (auto intro: derivable.binary)
  next
    case (link_super q c res p d s t)
    then have s: "BackwardLink d q s \<in> derivable co ps {s}" by simp
    from derivable_linked [OF s] link_super.prems(4) have "ForwardLink d c t \<in> derivable co ps {s}" by auto
    with s binary_rule.link_super [OF link_super.hyps] show ?case by (auto intro: derivable.binary)
  qed (auto intro: derivable.binary binary_rule.intros)
qed

text \<open>What is known about a root that was demanded, or linked to, is what its own demand derives.\<close>

lemma derivable_local:
  assumes set: "class_setting co ps" and nr: "property_ranges co = []" and "spoken c"
    and "conclusion_destination c \<in> roots"
  shows "c \<in> derivable co ps roots \<longleftrightarrow> c \<in> derivable co ps {conclusion_destination c}"
proof
  obtain u where view: "view_of co u ps" by (rule class_settingE [OF set])
  show "c \<in> derivable co ps {conclusion_destination c}" if "c \<in> derivable co ps roots"
    using derivable_at_home [OF no_ranges [OF view nr] that] by (simp only: at_home_spoken [OF assms(3)])
  have "{conclusion_destination c} \<subseteq> roots" using assms(4) by simp
  from derivable_mono [OF this] show "c \<in> derivable co ps roots" if "c \<in> derivable co ps {conclusion_destination c}"
    using that by blast
qed

lemma spoken_simps [simp]:
  "spoken (SubClassInclusionComposed d s)" "spoken (SubClassInclusionDecomposed d s)" "spoken (ClassInconsistency d)"
  by (simp_all add: spoken_def)

lemmas subsumer_local = derivable_local [where c = "SubClassInclusionComposed d s" for d s, simplified]
  derivable_local [where c = "SubClassInclusionDecomposed d s" for d s, simplified]
  derivable_local [where c = "ClassInconsistency d" for d, simplified]

lemma entity_iri_unique:
  assumes "valid_ontology co" and "p < length (entities co)" and "q < length (entities co)"
    and "kind (entities co ! p) = kind (entities co ! q)" and "iri (entities co ! p) = iri (entities co ! q)"
  shows "p = q"
proof -
  obtain keys where keys: "rmap_list entity_key (entities co) = Inr keys" "strictly_sorted keys"
    using valid_ontology_parts(1) [OF assms(1)]
    by (auto simp: validate_entities_def checks_Inr_iff check_sorted_unique_def rbind_def split: sum.splits)
  note nth = rmap_list_nth [OF keys(1)]
  have "entity_key (entities co ! p) = entity_key (entities co ! q)" using assms(4,5) by (simp add: entity_key_def)
  then have "keys ! p = keys ! q" using nth assms(2,3) by simp
  then show ?thesis
    using strictly_sorted_distinct [OF keys(2)] nth assms(2,3) by (simp add: nth_eq_iff_index_eq)
qed

lemma property_iri_unique:
  assumes "valid_ontology co" and "is_object_property co p" and "iri (entities co ! p) = i"
    and "is_object_property co q" and "iri (entities co ! q) = i"
  shows "p = q"
  using entity_iri_unique [OF assms(1)] assms(2-) by (simp add: is_object_property_def)

section \<open>Consistency does not depend on what was asked\<close>

lemma decided_alone:
  assumes "usable_ontology co" and "session_reached co roots s" and "property_ranges co = []"
    and ps: "saturate_properties co = Some (Inr ps)" and rs: "consistency_roots co = Inr rs"
    and tp: "is_object_property co tp" "iri (entities co ! tp) = OWL_TOP_OBJECT_PROPERTY_IRI"
    and bp: "is_object_property co bp" "iri (entities co ! bp) = OWL_BOTTOM_OBJECT_PROPERTY_IRI"
  obtains cs s' where "ensure_consistency s = Some (Inr cs, s')"
    and "inconsistent_state cs \<longleftrightarrow> ([tp], [bp]) \<in> (told_chains co)\<^sup>* \<or>
      (\<exists>r \<in> set rs. ClassInconsistency r \<in> derivable co ps {r})"
proof -
  obtain ps' t rs' where p: "saturate_properties co = Some (Inr ps')" "class_setting co ps'" "session_inv co ps' roots s"
    "owl_thing_root co = Inr t" "consistency_roots co = Inr rs'" "set rs' = insert t (set (occurring_individual_roots co))"
    by (rule usable_setting [OF assms(1,2)])
  with ps rs have eq: "ps' = ps" "rs' = rs" by simp_all
  note p = p(2-6) [unfolded eq]
  obtain cs s' tp' bp' where d: "ensure_consistency s = Some (Inr cs, s')" "session_inv co ps (roots \<union> set rs) s'"
    "is_object_property co tp'" "iri (entities co ! tp') = OWL_TOP_OBJECT_PROPERTY_IRI"
    "is_object_property co bp'" "iri (entities co ! bp') = OWL_BOTTOM_OBJECT_PROPERTY_IRI"
    "inconsistent_state cs \<longleftrightarrow> ([tp'], [bp']) \<in> (told_chains co)\<^sup>* \<or>
      (\<exists>r \<in> set rs. ClassInconsistency r \<in> derivable co ps (roots \<union> set rs))"
    by (rule decided [OF p(1,2,4,3,5)])
  note valid = class_setting_valid [OF p(1)]
  have "tp' = tp" by (rule property_iri_unique [OF valid d(3,4) tp])
  moreover have "bp' = bp" by (rule property_iri_unique [OF valid d(5,6) bp])
  moreover have "ClassInconsistency r \<in> derivable co ps (roots \<union> set rs) \<longleftrightarrow>
      ClassInconsistency r \<in> derivable co ps {r}" if r: "r \<in> set rs" for r
    by (rule subsumer_local(3) [OF p(1) assms(3)]) (use r in simp)
  ultimately have "inconsistent_state cs \<longleftrightarrow> ([tp], [bp]) \<in> (told_chains co)\<^sup>* \<or>
      (\<exists>r \<in> set rs. ClassInconsistency r \<in> derivable co ps {r})"
    unfolding d(7) by blast
  with d(1) show ?thesis by (rule that)
qed

lemma same_verdict:
  assumes "usable_ontology co" and "session_reached co roots s" and "session_reached co roots' u" and "property_ranges co = []"
  obtains cs s' cs' u' where "ensure_consistency s = Some (Inr cs, s')" and "ensure_consistency u = Some (Inr cs', u')"
    and "inconsistent_state cs = inconsistent_state cs'"
proof -
  obtain ps rs where ps: "saturate_properties co = Some (Inr ps)" "class_setting co ps" "consistency_roots co = Inr rs"
    by (rule usable_setting [OF assms(1,2)])
  note valid = class_setting_valid [OF ps(2)]
  obtain tp where tp: "named_entity co OBJECT_PROPERTY OWL_TOP_OBJECT_PROPERTY_IRI = Inr tp" "tp < length (entities co)"
    "kind (entities co ! tp) = OBJECT_PROPERTY" "iri (entities co ! tp) = OWL_TOP_OBJECT_PROPERTY_IRI"
    by (rule named_entity_total [OF valid predefined(4)])
  obtain bp where bp: "named_entity co OBJECT_PROPERTY OWL_BOTTOM_OBJECT_PROPERTY_IRI = Inr bp" "bp < length (entities co)"
    "kind (entities co ! bp) = OBJECT_PROPERTY" "iri (entities co ! bp) = OWL_BOTTOM_OBJECT_PROPERTY_IRI"
    by (rule named_entity_total [OF valid predefined(3)])
  have p: "is_object_property co tp" "is_object_property co bp" using tp bp by (simp_all add: is_object_property_def)
  obtain cs s' where a: "ensure_consistency s = Some (Inr cs, s')"
    "inconsistent_state cs \<longleftrightarrow> ([tp], [bp]) \<in> (told_chains co)\<^sup>* \<or> (\<exists>r \<in> set rs. ClassInconsistency r \<in> derivable co ps {r})"
    by (rule decided_alone [OF assms(1,2,4) ps(1,3) p(1) tp(4) p(2) bp(4)])
  obtain cs' u' where b: "ensure_consistency u = Some (Inr cs', u')"
    "inconsistent_state cs' \<longleftrightarrow> ([tp], [bp]) \<in> (told_chains co)\<^sup>* \<or> (\<exists>r \<in> set rs. ClassInconsistency r \<in> derivable co ps {r})"
    by (rule decided_alone [OF assms(1,3,4) ps(1,3) p(1) tp(4) p(2) bp(4)])
  have "inconsistent_state cs = inconsistent_state cs'" unfolding a(2) b(2) by (rule refl)
  from a(1) b(1) this show ?thesis by (rule that)
qed

text \<open>C23: Without declared property ranges the verdict on consistency is the same at any time in the life
  of a session as for a new one.\<close>

theorem verdict_stable:
  assumes "usable_ontology co" and "session_reached co roots s" and "property_ranges co = []"
  shows "\<exists>cs s' cs0 s0. ensure_consistency s = Some (Inr cs, s') \<and>
    ensure_consistency (new_session co) = Some (Inr cs0, s0) \<and> inconsistent_state cs = inconsistent_state cs0"
  using same_verdict [OF assms(1,2) session_reached.created assms(3)] by metis

theorem verdict_stable_witness:
  "\<exists>cs s' cs0 s0. ensure_consistency (new_session sample_ontology) = Some (Inr cs, s') \<and>
    ensure_consistency (new_session sample_ontology) = Some (Inr cs0, s0) \<and> inconsistent_state cs = inconsistent_state cs0"
  by (rule verdict_stable [OF sample_usable session_reached.created]) (simp add: sample_ontology_def)

section \<open>With ranges it does\<close>

text \<open>
  \<open>A\<close> below \<open>some r {a}\<close>, \<open>{a}\<close> below \<open>C\<close>, \<open>B\<close> and \<open>C\<close> disjoint, and the range \<open>B\<close> of \<open>r\<close>: in the model below
  \<open>A\<close> is empty.  Demanding the context of \<open>A\<close> puts the range on the context of \<open>{a}\<close>.
\<close>

definition shift_ontology :: compiled_ontology where
  "shift_ontology = \<lparr>entities =
       [\<lparr>kind = CLASS, iri = OWL_NOTHING_IRI\<rparr>, \<lparr>kind = CLASS, iri = OWL_THING_IRI\<rparr>,
        \<lparr>kind = CLASS, iri = py_literal ''urn:A''\<rparr>, \<lparr>kind = CLASS, iri = py_literal ''urn:B''\<rparr>,
        \<lparr>kind = CLASS, iri = py_literal ''urn:C''\<rparr>,
        \<lparr>kind = NAMED_INDIVIDUAL, iri = py_literal ''urn:a''\<rparr>,
        \<lparr>kind = OBJECT_PROPERTY, iri = OWL_BOTTOM_OBJECT_PROPERTY_IRI\<rparr>,
        \<lparr>kind = OBJECT_PROPERTY, iri = OWL_TOP_OBJECT_PROPERTY_IRI\<rparr>,
        \<lparr>kind = OBJECT_PROPERTY, iri = py_literal ''urn:r''\<rparr>],
     expressions = map class_row [0, 1, 2, 3, 4] @
       [\<lparr>tag = TAG_INDIVIDUAL, arguments = [5], payload = []\<rparr>, some_row 8 5],
     expression_occurrences = replicate 7 \<lparr>negative = 1, positive = 1\<rparr>,
     property_occurrences = replicate 3 \<lparr>negative = 1, positive = 1\<rparr>,
     property_chains = [], subclass_axioms = [(2, 6), (5, 4)], equivalent_class_axioms = [],
     disjoint_groups = [[3, 4]], subproperty_axioms = [], property_ranges = [(8, 3)],
     feature_counts = replicate 79 0, source_fingerprint = replicate 32 0\<rparr>"

definition shift_model :: "nat interp" where
  "shift_model = \<lparr>domain = {0}, ext = (\<lambda>e. if e \<in> {1, 4, 5} then {0} else {}),
     role = (\<lambda>p. if p = 7 then {(0, 0)} else {}), individual = (\<lambda>_. 0), data_ext = (\<lambda>_ _. {})\<rparr>"

definition verdicts :: "compiled_ontology \<Rightarrow> (bool \<times> bool) option" where
  "verdicts co = (case ensure_consistency (new_session co) of
     Some (Inr before, s) \<Rightarrow> (case ensure_classified s of
         Some (Inr _, s') \<Rightarrow> (case ensure_consistency s' of
             Some (Inr afterwards, _) \<Rightarrow> Some (inconsistent_state before, inconsistent_state afterwards)
           | _ \<Rightarrow> None)
       | _ \<Rightarrow> None)
   | _ \<Rightarrow> None)"

lemma shift_usable: "usable_ontology shift_ontology"
  unfolding usable_ontology_def valid_ontology_def property_limits_def class_limits_def by code_simp

lemma shift_verdicts: "verdicts shift_ontology = Some (False, True)"
  by code_simp

lemma shift_names [simp]: "py_literal ''urn:A'' \<noteq> OWL_THING_IRI"
  by code_simp

lemma shift_is_model: "is_model shift_ontology shift_model"
proof -
  have "record_ext shift_ontology shift_model (expressions shift_ontology ! e) (ext shift_model e)" if "e < 7" for e
    using that by (auto simp: eval_nat_numeral nat_below record_ext_def shift_ontology_def class_row_def some_row_def
        shift_model_def some_ext_def)
  moreover have "property_ext shift_ontology shift_model p" if "is_object_property shift_ontology p" for p
  proof -
    have "p < 9" "kind (entities shift_ontology ! p) = OBJECT_PROPERTY"
      using that by (simp_all add: is_object_property_def shift_ontology_def)
    then show ?thesis
      by (auto simp: eval_nat_numeral nat_below property_ext_def shift_ontology_def shift_model_def)
  qed
  moreover have "satisfies shift_ontology shift_model"
    by (auto simp: satisfies_def shift_ontology_def shift_model_def nat_below eval_nat_numeral)
  ultimately show ?thesis
    by (simp add: is_model_def interprets_def is_expression_def shift_model_def [THEN arg_cong, of domain]
        shift_ontology_def [THEN arg_cong, of expressions])
qed

text \<open>C24: With a declared range the verdict depends on what was asked: a new session reports an ontology
  that has a model as consistent, and as inconsistent once its classes have been classified.\<close>

theorem verdict_shifts:
  "usable_ontology shift_ontology \<and> is_model shift_ontology shift_model \<and> verdicts shift_ontology = Some (False, True)"
  using shift_usable shift_is_model shift_verdicts by blast

end
