(* ===== verification/Class_Taxonomy.thy ===== *)
theory Class_Taxonomy
  imports Taxonomy_Results Locality
begin

text \<open>The class taxonomy a session returns: the order the inference rules derive on the class names.\<close>

section \<open>Contexts of the named classes\<close>

definition frozen_row :: "conclusion set \<Rightarrow> nat \<Rightarrow> frozen_context \<Rightarrow> bool" where
  "frozen_row D x fz \<longleftrightarrow>
     set (fz_composed_subsumers fz) \<union> set (fz_decomposed_subsumers fz) =
       {s. SubClassInclusionComposed x s \<in> D \<or> SubClassInclusionDecomposed x s \<in> D} \<and>
     (fz_inconsistent fz \<longleftrightarrow> ClassInconsistency x \<in> D)"

lemma idle_row:
  assumes set: "class_setting co ps" and rest: "at_rest co ps roots e" and idle: "active e = []"
    and snap: "snapshot b e = Inr snap" and x: "x \<in> allocated e"
  obtains fz where "dict_get (snap_contexts snap) x = Some fz" and "frozen_row (derivable co ps roots) x fz"
proof -
  have inv: "engine_inv co ps roots e" using rest by (simp add: at_rest_def)
  note i = engine_invD [OF inv]
  obtain snap' where "snapshot b e = Inr snap'"
    and rows: "snap_contexts snap' = map (\<lambda>(root, st). (root, freeze st)) (sort_key fst (contexts e))"
    by (rule snapshot_total [OF set struct_invD(1) [OF i(2)]])
  with snap have rows: "snap_contexts snap = map (\<lambda>(root, st). (root, freeze st)) (sort_key fst (contexts e))" by simp
  obtain st where "dict_get (contexts e) x = Some st" using x by (auto simp: allocated_def)
  then have "(x, st) \<in> set (contexts e)" by (rule map_of_SomeD)
  then have mem: "(x, freeze st) \<in> set (snap_contexts snap)" unfolding rows by force
  have "distinct (map fst (sort_key fst (contexts e)))"
    using struct_invD(2) [OF i(2)] by (simp add: distinct_map)
  then have "distinct (map fst (snap_contexts snap))" by (simp add: rows comp_def split_def)
  with mem have "dict_get (snap_contexts snap) x = Some (freeze st)" by simp
  moreover have "frozen_row (derivable co ps roots) x (freeze st)"
    using idle_rows [OF rest idle snap mem] by (auto simp: frozen_row_def)
  ultimately show ?thesis by (rule that)
qed

lemma isolated_ok:
  assumes set: "class_setting co ps" and x: "is_expression co x"
  obtains fz where "isolated_context co ps x = Some (Inr (x, fz))" and "frozen_row (derivable co ps {x}) x fz"
proof -
  obtain e where e: "new_engine co ps = Inr e" "at_rest co ps {} e" by (rule new_engine_at_rest [OF set])
  have "\<forall>r \<in> set [x]. is_expression co r" using x by simp
  then obtain snap e' where r: "run [x] None never e = Some (Inr snap, e')" "at_rest co ps ({} \<union> set [x]) e'"
    "snapshot False e' = Inr snap" "active e' = []" "query_roots e' = query_roots e"
    "set [x] \<union> allocated e \<subseteq> allocated e'"
    by (rule run_unlimited [OF e(2)])
  from r(6) have "x \<in> allocated e'" by simp
  then obtain fz where fz: "dict_get (snap_contexts snap) x = Some fz" "frozen_row (derivable co ps ({} \<union> set [x])) x fz"
    by (rule idle_row [OF set r(2,4,3)])
  with e(1) r(1) show ?thesis by (intro that [of fz]) (simp_all add: isolated_context_def)
qed

lemma isolated_contexts_ok:
  assumes set: "class_setting co ps" and "\<forall>x \<in> set xs. is_expression co x"
  shows "\<exists>d. isolated_contexts co ps xs = Some (Inr d) \<and>
    (\<forall>x \<in> set xs. \<exists>fz. dict_get d x = Some fz \<and> frozen_row (derivable co ps {x}) x fz)"
  using assms(2)
proof (induction xs)
  case (Cons x xs)
  then obtain d where d: "isolated_contexts co ps xs = Some (Inr d)"
    "\<forall>x \<in> set xs. \<exists>fz. dict_get d x = Some fz \<and> frozen_row (derivable co ps {x}) x fz" by auto
  have "is_expression co x" using Cons.prems by simp
  then obtain fz where "isolated_context co ps x = Some (Inr (x, fz))" "frozen_row (derivable co ps {x}) x fz"
    by (rule isolated_ok [OF set])
  with d show ?case by (simp add: obind_def)
qed simp

section \<open>The edges\<close>

lemma map_filter_pairs:
  "set (List.map_filter (\<lambda>s. map_option (Pair m) (g s)) xs) = {(a, b). a = m \<and> (\<exists>y \<in> set xs. g y = Some b)}"
  by (induction xs) (auto simp: List.map_filter_simps split: option.splits)

text \<open>
  \<open>class_order co ps tp bp\<close>: \<open>b\<close> is a told end, or a class whose expression is derived as a subsumer when
  only the expression of \<open>a\<close> is demanded; an unsatisfiable class is below the bottom class.
\<close>

definition class_below :: "compiled_ontology \<Rightarrow> property_saturation \<Rightarrow> nat \<Rightarrow> nat \<Rightarrow> bool" where
  "class_below co ps a b \<longleftrightarrow> (\<exists>x y. class_name co a x \<and> class_name co b y \<and>
     (SubClassInclusionComposed x y \<in> derivable co ps {x} \<or> SubClassInclusionDecomposed x y \<in> derivable co ps {x}))"

definition class_empty :: "compiled_ontology \<Rightarrow> property_saturation \<Rightarrow> nat \<Rightarrow> bool" where
  "class_empty co ps a \<longleftrightarrow> (\<exists>x. class_name co a x \<and> ClassInconsistency x \<in> derivable co ps {x})"

definition class_order :: "compiled_ontology \<Rightarrow> property_saturation \<Rightarrow> nat \<Rightarrow> nat \<Rightarrow> (nat \<times> nat) set" where
  "class_order co ps tp bp = {(a, b). a \<in> set (class_ids co) \<and> b \<in> set (class_ids co) \<and>
     (a = bp \<or> b = tp \<or> class_below co ps a b \<or> (b = bp \<and> class_empty co ps a))}"

definition rows_for :: "compiled_ontology \<Rightarrow> property_saturation \<Rightarrow> (nat, frozen_context) dict \<Rightarrow> bool" where
  "rows_for co ps d \<longleftrightarrow> (\<forall>e x. class_name co e x \<longrightarrow> (\<exists>fz. dict_get d x = Some fz \<and> frozen_row (derivable co ps {x}) x fz))"

lemma class_edges_ok:
  assumes valid: "valid_ontology co" and rows: "rows_for co ps d" and m: "m \<in> set (class_ids co)"
    and ends: "tp \<in> set (class_ids co)" "bp \<in> set (class_ids co)"
  shows "yields (class_edges_of (named_expressions co TAG_CLASS)
      (map (\<lambda>(entity, expression). (expression, entity)) (named_expressions co TAG_CLASS)) d tp bp m)
    {(a, b). a = m \<and> b \<in> set (class_ids co) \<and> (b = tp \<or> class_below co ps a b \<or> (b = bp \<and> (a = bp \<or> class_empty co ps a)))}"
proof -
  obtain x where x: "class_name co m x" by (rule class_name_exists [OF valid m])
  then obtain fz where fz: "dict_get d x = Some fz" "frozen_row (derivable co ps {x}) x fz"
    using rows by (auto simp: rows_for_def)
  have only: "class_name co m x' \<longleftrightarrow> x' = x" for x' using class_name_unique [OF valid _ x] x by blast
  let ?named = "named_expressions co TAG_CLASS"
  let ?names = "map (\<lambda>(entity, expression). (expression, entity)) ?named"
  let ?subs = "set (fz_composed_subsumers fz) \<union> set (fz_decomposed_subsumers fz)"
  have below: "class_below co ps m b \<longleftrightarrow> (\<exists>y \<in> ?subs. class_name co b y)" for b
    using fz(2) by (auto simp: class_below_def only frozen_row_def)
  have empty: "class_empty co ps m \<longleftrightarrow> fz_inconsistent fz"
    using fz(2) by (auto simp: class_empty_def only frozen_row_def)
  have "set (List.map_filter (\<lambda>subsumer. map_option (Pair m) (dict_get ?names subsumer)) (sorted_list_of_set ?subs)) =
      {(a, b). a = m \<and> class_below co ps m b}"
    unfolding map_filter_pairs named_expressions_get(2) [OF valid] below by simp
  moreover have "b \<in> set (class_ids co)" if n: "class_below co ps m b" for b
  proof -
    obtain y where "class_name co b y" using n unfolding class_below_def by blast
    with valid_class(3) [OF valid, of y] show ?thesis by (simp add: class_name_def)
  qed
  moreover have "dict_get ?named m = Some x" using named_expressions_get(1) [OF valid] x by simp
  ultimately show ?thesis
    using ends m fz(1) empty unfolding class_edges_of_def yields_def
    by (auto simp del: entity_ids_set)
qed

lemma class_edges_total:
  assumes valid: "valid_ontology co" and rows: "rows_for co ps d"
    and ends: "tp \<in> set (class_ids co)" "bp \<in> set (class_ids co)"
  obtains edges where "rconcat_map (class_edges_of (named_expressions co TAG_CLASS)
      (map (\<lambda>(entity, expression). (expression, entity)) (named_expressions co TAG_CLASS)) d tp bp) (class_ids co) = Inr edges"
    and "set (map (Pair bp) (class_ids co) @ edges) = class_order co ps tp bp"
proof -
  have "yields (rconcat_map (class_edges_of (named_expressions co TAG_CLASS)
      (map (\<lambda>(entity, expression). (expression, entity)) (named_expressions co TAG_CLASS)) d tp bp) (class_ids co))
    (\<Union>m \<in> set (class_ids co). {(a, b). a = m \<and> b \<in> set (class_ids co) \<and>
       (b = tp \<or> class_below co ps a b \<or> (b = bp \<and> (a = bp \<or> class_empty co ps a)))})"
    by (rule yields_rconcat_map) (rule class_edges_ok [OF valid rows _ ends])
  then obtain edges where edges: "rconcat_map (class_edges_of (named_expressions co TAG_CLASS)
      (map (\<lambda>(entity, expression). (expression, entity)) (named_expressions co TAG_CLASS)) d tp bp) (class_ids co) = Inr edges"
    "set edges = (\<Union>m \<in> set (class_ids co). {(a, b). a = m \<and> b \<in> set (class_ids co) \<and>
       (b = tp \<or> class_below co ps a b \<or> (b = bp \<and> (a = bp \<or> class_empty co ps a)))})"
    by (rule yieldsE)
  have "set (map (Pair bp) (class_ids co) @ edges) = class_order co ps tp bp"
    unfolding set_append set_map edges(2) using ends(2) by (auto simp: class_order_def simp del: entity_ids_set)
  with edges(1) show ?thesis by (rule that)
qed

section \<open>The taxonomy\<close>

lemma named_roots: "valid_ontology co \<Longrightarrow> map snd (named_expressions co TAG_CLASS) = session_roots co TAG_CLASS"
  by (simp add: named_expressions_eq comp_def)

lemma class_name_root: "class_name co e x \<Longrightarrow> x \<in> set (session_roots co TAG_CLASS)"
  by (simp add: class_name_def session_roots_expressions)

lemma frozen_row_local:
  assumes "class_setting co ps" and "property_ranges co = []" and "x \<in> roots"
  shows "frozen_row (derivable co ps roots) x fz \<longleftrightarrow> frozen_row (derivable co ps {x}) x fz"
  unfolding frozen_row_def using subsumer_local [OF assms] by simp

lemma contexts_for_classes:
  assumes set: "class_setting co ps" and rest: "at_rest co ps roots e" and idle: "active e = []"
    and snap: "snapshot b e = Inr snap" and roots: "set (session_roots co TAG_CLASS) \<subseteq> roots"
  obtains d where "(if property_ranges co = [] then Some (Inr (snap_contexts snap))
      else isolated_contexts co ps (map snd (named_expressions co TAG_CLASS))) = Some (Inr d)"
    and "rows_for co ps d"
proof (cases "property_ranges co = []")
  case True
  have inv: "engine_inv co ps roots e" using rest by (simp add: at_rest_def)
  have "\<exists>fz. dict_get (snap_contexts snap) x = Some fz \<and> frozen_row (derivable co ps {x}) x fz" if n: "class_name co a x" for a x
  proof -
    have x: "x \<in> roots" using class_name_root [OF n] roots by blast
    then have "x \<in> allocated e" using engine_invD(4) [OF inv] by blast
    then obtain fz where "dict_get (snap_contexts snap) x = Some fz" "frozen_row (derivable co ps roots) x fz"
      by (rule idle_row [OF set rest idle snap])
    with frozen_row_local [OF set True x] show ?thesis by blast
  qed
  with True show ?thesis by (intro that [of "snap_contexts snap"]) (simp_all add: rows_for_def)
next
  case False
  note valid = class_setting_valid [OF set]
  have "\<forall>x \<in> set (session_roots co TAG_CLASS). is_expression co x" by (simp add: session_roots_expressions)
  then obtain d where "isolated_contexts co ps (session_roots co TAG_CLASS) = Some (Inr d)"
    "\<forall>x \<in> set (session_roots co TAG_CLASS). \<exists>fz. dict_get d x = Some fz \<and> frozen_row (derivable co ps {x}) x fz"
    using isolated_contexts_ok [OF set] by blast
  with False show ?thesis
    by (intro that [of d]) (auto simp: rows_for_def named_roots [OF valid] dest: class_name_root)
qed

lemma snapshot_inconsistent: "snapshot b e = Inr snap \<Longrightarrow> snap_inconsistent_ontology snap = b"
  by (auto simp: snapshot_def Let_def rbind_def split: sum.splits)

lemma build_class_taxonomy_ok:
  assumes set: "class_setting co ps" and rest: "at_rest co ps roots e" and idle: "active e = []"
    and snap: "snapshot b e = Inr snap" and roots: "set (session_roots co TAG_CLASS) \<subseteq> roots"
    and ends: "predefined_ends co CLASS tp bp" and M: "tp \<in> set (class_ids co)" "bp \<in> set (class_ids co)"
  obtains t where "build_class_taxonomy co snap (Some ps) = Some (Inr t)"
    and "taxonomy_of (set (class_ids co))
      (if b then set (class_ids co) \<times> set (class_ids co) else class_order co ps tp bp) tp bp t"
proof -
  note valid = class_setting_valid [OF set]
  have n: "named_entity co CLASS OWL_THING_IRI = Inr tp" "named_entity co CLASS OWL_NOTHING_IRI = Inr bp"
    using ends by (simp_all add: predefined_ends_def)
  note flag = snapshot_inconsistent [OF snap]
  show ?thesis
  proof (cases b)
    case True
    with collapsed_ok [OF valid ends M] flag n show ?thesis
      by (intro that) (simp_all add: build_class_taxonomy_def Let_def obind_def)
  next
    case False
    obtain d where d: "(if property_ranges co = [] then Some (Inr (snap_contexts snap))
        else isolated_contexts co ps (map snd (named_expressions co TAG_CLASS))) = Some (Inr d)" "rows_for co ps d"
      by (rule contexts_for_classes [OF set rest idle snap roots])
    obtain edges where edges: "rconcat_map (class_edges_of (named_expressions co TAG_CLASS)
        (map (\<lambda>(entity, expression). (expression, entity)) (named_expressions co TAG_CLASS)) d tp bp) (class_ids co) = Inr edges"
      "set (map (Pair bp) (class_ids co) @ edges) = class_order co ps tp bp"
      by (rule class_edges_total [OF valid d(2) M])
    have sub: "set (map (Pair bp) (class_ids co) @ edges) \<subseteq> set (class_ids co) \<times> set (class_ids co)"
      unfolding edges(2) by (auto simp: class_order_def)
    obtain t where t: "from_relation co (class_ids co) (map (Pair bp) (class_ids co) @ edges) CLASS tp bp = Some (Inr t)"
      "taxonomy_of (set (class_ids co)) (set (map (Pair bp) (class_ids co) @ edges)) tp bp t"
      by (rule from_relation_ok [OF valid ends M sub]) (use M in \<open>simp_all only: edges(2), auto simp: class_order_def\<close>)
    have "build_class_taxonomy co snap (Some ps) = Some (Inr t)"
      using d(1) edges(1) t(1) n flag False
      by (cases "property_ranges co = []") (simp_all add: build_class_taxonomy_def Let_def obind_def del: map_append)
    with t(2) False show ?thesis by (intro that) (simp_all only: edges(2) if_False)
  qed
qed

lemma class_taxonomy_step:
  assumes set: "class_setting co ps" and inv: "session_inv co ps roots s" and rs: "consistency_roots co = Inr rs"
    and ends: "predefined_ends co CLASS tp bp" and M: "tp \<in> set (class_ids co)" "bp \<in> set (class_ids co)"
  obtains t s' snap cs where "class_taxonomy s = Some (Inr t, s')" and "ensure_classified s = Some (Inr snap, s')"
    and "ensure_consistency s' = Some (Inr cs, s')"
    and "taxonomy_of (set (class_ids co))
      (if inconsistent_state cs then set (class_ids co) \<times> set (class_ids co) else class_order co ps tp bp) tp bp t"
proof -
  obtain snap s' where s': "ensure_classified s = Some (Inr snap, s')" "session_snapshot s' = Some (Inr snap, s')"
    "session_inv co ps (roots \<union> set rs \<union> set (session_roots co TAG_CLASS)) s'"
    "ss_stage s' = max (ss_stage s) CLASSIFIED"
    by (rule classified_step [OF set inv rs])
  have stage: "CONSISTENCY \<le> ss_stage s'" "max (ss_stage s') PROPERTIES = ss_stage s'"
    using s'(4) by (simp_all add: stage_order max_def)
  obtain snap' cs e where e: "session_snapshot s' = Some (Inr snap', s')" "ss_consistency s' = Some cs"
    "ss_engine s' = Some e" "snapshot (inconsistent_state cs) e = Inr snap'"
    "at_rest co ps (roots \<union> set rs \<union> set (session_roots co TAG_CLASS)) e" "active e = []"
    by (rule snapshot_step [OF set s'(3) stage(1)])
  with s'(2) have same: "snap' = snap" by simp
  have "ss_properties s' = Some ps" using s'(3) stage by (auto simp: session_inv_def stage_order)
  then have props: "ensure_properties s' = Some (Inr ps, s')" using stage(2) by (simp add: ensure_properties_def)
  obtain t where t: "build_class_taxonomy co snap (Some ps) = Some (Inr t)"
    "taxonomy_of (set (class_ids co))
      (if inconsistent_state cs then set (class_ids co) \<times> set (class_ids co) else class_order co ps tp bp) tp bp t"
    by (rule build_class_taxonomy_ok [OF set e(5,6,4) _ ends M]) (auto simp: same)
  have "ss_compiled s' = co" using s'(3) by (simp add: session_inv_def)
  with s'(1) props t(1) have "class_taxonomy s = Some (Inr t, s')" by (simp add: class_taxonomy_def)
  moreover have "ensure_consistency s' = Some (Inr cs, s')" using e(2) stage(1) by (simp add: ensure_consistency_def)
  ultimately show ?thesis using s'(1) t(2) by (intro that)
qed

lemma class_taxonomy_facts:
  assumes "usable_ontology co" and "session_reached co roots s" and "consistency_roots co = Inr rs"
  obtains ps cs t s' tp bp where "saturate_properties co = Some (Inr ps)" and "class_taxonomy s = Some (Inr t, s')"
    and "session_reached co (roots \<union> set rs \<union> set (session_roots co TAG_CLASS)) s'"
    and "ensure_consistency s' = Some (Inr cs, s')" and "predefined_ends co CLASS tp bp"
    and "taxonomy_of (set (class_ids co))
      (if inconsistent_state cs then set (class_ids co) \<times> set (class_ids co) else class_order co ps tp bp) tp bp t"
proof -
  obtain ps where ps: "saturate_properties co = Some (Inr ps)" "class_setting co ps" "session_inv co ps roots s"
    by (rule usable_setting [OF assms(1,2)])
  obtain tp bp where ends: "predefined_ends co CLASS tp bp" "tp \<in> set (class_ids co)" "bp \<in> set (class_ids co)"
    using predefined_ends_exist [OF class_setting_valid [OF ps(2)], of CLASS] by blast
  obtain t s' snap cs where t: "class_taxonomy s = Some (Inr t, s')" "ensure_classified s = Some (Inr snap, s')"
    "ensure_consistency s' = Some (Inr cs, s')"
    "taxonomy_of (set (class_ids co))
      (if inconsistent_state cs then set (class_ids co) \<times> set (class_ids co) else class_order co ps tp bp) tp bp t"
    by (rule class_taxonomy_step [OF ps(2,3) assms(3) ends])
  from ps(1) t(1) session_reached.classified [OF assms(2,3) t(2)] t(3) ends(1) t(4) show ?thesis by (rule that)
qed

text \<open>C25: The class taxonomy of a session is the quotient of the derived order of the class names, each
  class demanded alone, with its transitive reduction; a reported inconsistency collapses it.\<close>

theorem class_taxonomy_exact:
  assumes "usable_ontology co" and "session_reached co roots s" and "consistency_roots co = Inr rs"
  shows "\<exists>ps cs t s' tp bp. saturate_properties co = Some (Inr ps) \<and> class_taxonomy s = Some (Inr t, s') \<and>
    session_reached co (roots \<union> set rs \<union> set (session_roots co TAG_CLASS)) s' \<and>
    ensure_consistency s' = Some (Inr cs, s') \<and> predefined_ends co CLASS tp bp \<and>
    taxonomy_of (set (class_ids co))
      (if inconsistent_state cs then set (class_ids co) \<times> set (class_ids co) else class_order co ps tp bp) tp bp t"
  using class_taxonomy_facts [OF assms] by metis

theorem class_taxonomy_exact_witness:
  "\<exists>ps cs t s' tp bp. saturate_properties sample_ontology = Some (Inr ps) \<and>
    class_taxonomy (new_session sample_ontology) = Some (Inr t, s') \<and>
    session_reached sample_ontology ({} \<union> set [1] \<union> set (session_roots sample_ontology TAG_CLASS)) s' \<and>
    ensure_consistency s' = Some (Inr cs, s') \<and> predefined_ends sample_ontology CLASS tp bp \<and>
    taxonomy_of (set (class_ids sample_ontology))
      (if inconsistent_state cs then set (class_ids sample_ontology) \<times> set (class_ids sample_ontology)
       else class_order sample_ontology ps tp bp) tp bp t"
  by (rule class_taxonomy_exact [OF sample_usable session_reached.created sample_consistency_roots])

section \<open>One taxonomy\<close>

lemma taxonomy_of_unique:
  assumes t: "taxonomy_of M R tp bp t" and u: "taxonomy_of M R tp bp u"
  shows "t = u"
proof -
  let ?g = "\<lambda>t. \<lparr>rg_nodes = rt_nodes t, rg_direct_edges = rt_direct_edges t\<rparr>"
  have q: "quotient_of M R (?g t)" "quotient_of M R (?g u)" using t u by (simp_all add: taxonomy_of_def)
  have g: "?g t = ?g u" by (rule quotient_of_unique [OF q])
  have "distinct (rt_nodes t)" using strictly_sorted_distinct [OF quotient_ofD(1) [OF q(1)]] by simp
  moreover have "distinct (concat (rt_nodes t))" using quotient_disjoint [OF q(1)] by simp
  ultimately have index: "i = j" if "i < length (rt_nodes t)" "j < length (rt_nodes t)"
    "x \<in> set (rt_nodes t ! i)" "x \<in> set (rt_nodes t ! j)" for i j x
    using that unfolding distinct_concat_iff by (metis disjoint_iff nth_eq_iff_index_eq nth_mem)
  have "rt_top t = rt_top u" "rt_bottom t = rt_bottom u"
    using t u g index unfolding taxonomy_of_def by auto
  with g show ?thesis by (cases t, cases u) simp
qed

text \<open>C26: Without declared property ranges the class taxonomy is the one a new session returns, whatever
  the session did before.\<close>

theorem class_taxonomy_stable:
  assumes "usable_ontology co" and "session_reached co roots s" and "property_ranges co = []"
  shows "\<exists>t s' s0. class_taxonomy s = Some (Inr t, s') \<and> class_taxonomy (new_session co) = Some (Inr t, s0)"
proof -
  obtain rs where rs: "consistency_roots co = Inr rs" by (rule usable_setting [OF assms(1,2)])
  obtain ps cs t s' tp bp where a: "saturate_properties co = Some (Inr ps)" "class_taxonomy s = Some (Inr t, s')"
    "session_reached co (roots \<union> set rs \<union> set (session_roots co TAG_CLASS)) s'"
    "ensure_consistency s' = Some (Inr cs, s')" "predefined_ends co CLASS tp bp"
    "taxonomy_of (set (class_ids co))
      (if inconsistent_state cs then set (class_ids co) \<times> set (class_ids co) else class_order co ps tp bp) tp bp t"
    by (rule class_taxonomy_facts [OF assms(1,2) rs])
  obtain ps0 cs0 t0 s0 tp0 bp0 where b: "saturate_properties co = Some (Inr ps0)" "class_taxonomy (new_session co) = Some (Inr t0, s0)"
    "session_reached co ({} \<union> set rs \<union> set (session_roots co TAG_CLASS)) s0"
    "ensure_consistency s0 = Some (Inr cs0, s0)" "predefined_ends co CLASS tp0 bp0"
    "taxonomy_of (set (class_ids co))
      (if inconsistent_state cs0 then set (class_ids co) \<times> set (class_ids co) else class_order co ps0 tp0 bp0) tp0 bp0 t0"
    by (rule class_taxonomy_facts [OF assms(1) session_reached.created rs])
  have same: "ps0 = ps" "tp0 = tp" "bp0 = bp" using a(1,5) b(1,5) by (auto simp: predefined_ends_def)
  have verdict: "inconsistent_state cs0 = inconsistent_state cs"
    using same_verdict [OF assms(1) a(3) b(3) assms(3)] a(4) b(4) by (metis option.inject prod.inject sum.inject(2))
  have "t0 = t" by (rule taxonomy_of_unique [OF b(6) [unfolded same verdict] a(6)])
  with a(2) b(2) show ?thesis by blast
qed

theorem class_taxonomy_stable_witness:
  "\<exists>t s' s0. class_taxonomy (new_session sample_ontology) = Some (Inr t, s') \<and>
    class_taxonomy (new_session sample_ontology) = Some (Inr t, s0)"
  by (rule class_taxonomy_stable [OF sample_usable session_reached.created]) (simp add: sample_ontology_def)

section \<open>Subclasses in every model\<close>

lemma class_record:
  assumes "is_model co I" and "class_name co a x"
  shows "iri (entities co ! a) = OWL_THING_IRI \<longrightarrow> ext I x = domain I"
    and "iri (entities co ! a) = OWL_NOTHING_IRI \<longrightarrow> ext I x = {}" and "ext I x \<subseteq> domain I"
  using modelD(1) [OF assms(1), of x] assms(2) by (auto simp: class_name_def record_ext_def)

lemma predefined_iri:
  assumes "predefined_ends co CLASS tp bp"
  shows "iri (entities co ! tp) = OWL_THING_IRI" and "iri (entities co ! bp) = OWL_NOTHING_IRI"
  using assms by (auto simp: predefined_ends_def named_entity_def dest!: find_index_Some split: option.splits)

lemma class_order_sound:
  assumes set: "class_setting co ps" and m: "is_model co I" and nr: "property_ranges co = []"
    and ends: "predefined_ends co CLASS tp bp" and ab: "(a, b) \<in> class_order co ps tp bp"
    and x: "class_name co a x" and y: "class_name co b y"
  shows "ext I x \<subseteq> ext I y"
proof -
  note valid = class_setting_valid [OF set]
  have "\<forall>r \<in> {x}. is_expression co r" using x by (simp add: class_name_def)
  note sound = derivable_sound [OF set m nr this]
  have only: "x' = x" if "class_name co a x'" for x' using class_name_unique [OF valid that x] .
  have only_y: "y' = y" if "class_name co b y'" for y' using class_name_unique [OF valid that y] .
  note ends = predefined_iri [OF ends]
  consider "a = bp" | "b = tp" | "class_below co ps a b" | "b = bp" "class_empty co ps a"
    using ab unfolding class_order_def by blast
  then show ?thesis
  proof cases
    case 1
    with class_record(2) [OF m x] ends show ?thesis by simp
  next
    case 2
    with class_record(1) [OF m y] class_record(3) [OF m x] ends show ?thesis by simp
  next
    case 3
    then have "SubClassInclusionComposed x y \<in> derivable co ps {x} \<or> SubClassInclusionDecomposed x y \<in> derivable co ps {x}"
      unfolding class_below_def using only only_y by metis
    with sound [of "SubClassInclusionComposed x y"] sound [of "SubClassInclusionDecomposed x y"] show ?thesis by auto
  next
    case 4
    then have "ClassInconsistency x \<in> derivable co ps {x}" unfolding class_empty_def using only by metis
    with sound [of "ClassInconsistency x"] show ?thesis by simp
  qed
qed

lemma class_order_rtrancl_sound:
  assumes set: "class_setting co ps" and m: "is_model co I" and nr: "property_ranges co = []"
    and ends: "predefined_ends co CLASS tp bp" and "(a, b) \<in> (class_order co ps tp bp)\<^sup>*"
    and x: "class_name co a x" and y: "class_name co b y"
  shows "ext I x \<subseteq> ext I y"
  using assms(5) y
proof (induction arbitrary: y rule: rtrancl_induct)
  case base
  then show ?case using class_name_unique [OF class_setting_valid [OF set] x] by simp
next
  case (step b c)
  from step.hyps(2) have "b \<in> set (class_ids co)" unfolding class_order_def by blast
  then obtain z where z: "class_name co b z" by (rule class_name_exists [OF class_setting_valid [OF set]])
  from step.IH [OF z] class_order_sound [OF set m nr ends step.hyps(2) z step.prems] show ?case by simp
qed

text \<open>C27: Without declared property ranges, along the edges of the class taxonomy every class of the lower
  node is a subclass of every class of the upper node in each model, and classes of one node are equal.\<close>

theorem class_taxonomy_sound:
  fixes I :: "'d interp"
  assumes "usable_ontology co" and "session_reached co roots s" and "property_ranges co = []" and "is_model co I"
  shows "\<exists>t s'. class_taxonomy s = Some (Inr t, s') \<and>
    (\<forall>i < length (rt_nodes t). \<forall>j < length (rt_nodes t). (i, j) \<in> (set (rt_direct_edges t))\<^sup>* \<longrightarrow>
      (\<forall>a \<in> set (rt_nodes t ! i). \<forall>b \<in> set (rt_nodes t ! j). \<forall>x y.
         class_name co a x \<and> class_name co b y \<longrightarrow> ext I x \<subseteq> ext I y))"
proof -
  obtain rs where rs: "consistency_roots co = Inr rs" by (rule usable_setting [OF assms(1,2)])
  obtain ps cs t s' tp bp where a: "saturate_properties co = Some (Inr ps)" "class_taxonomy s = Some (Inr t, s')"
    "session_reached co (roots \<union> set rs \<union> set (session_roots co TAG_CLASS)) s'"
    "ensure_consistency s' = Some (Inr cs, s')" "predefined_ends co CLASS tp bp"
    "taxonomy_of (set (class_ids co))
      (if inconsistent_state cs then set (class_ids co) \<times> set (class_ids co) else class_order co ps tp bp) tp bp t"
    by (rule class_taxonomy_facts [OF assms(1,2) rs])
  obtain ps' where "saturate_properties co = Some (Inr ps')" "class_setting co ps'" by (rule usable_setting [OF assms(1,2)])
  with a(1) have set: "class_setting co ps" by simp
  have "\<not> inconsistent_state cs" using consistent_verdict [OF assms(1) a(3) assms(3,4)] a(4) by auto
  with a(6) have "quotient_of (set (class_ids co)) (class_order co ps tp bp) \<lparr>rg_nodes = rt_nodes t, rg_direct_edges = rt_direct_edges t\<rparr>"
    by (simp add: taxonomy_of_def)
  note q = quotient_ofD(8) [OF this, simplified]
  note sound = class_order_rtrancl_sound [OF set assms(4,3) a(5)]
  have "ext I x \<subseteq> ext I y" if "i < length (rt_nodes t)" "j < length (rt_nodes t)" "(i, j) \<in> (set (rt_direct_edges t))\<^sup>*"
    "a \<in> set (rt_nodes t ! i)" "b \<in> set (rt_nodes t ! j)" "class_name co a x" "class_name co b y" for i j a b x y
    using sound q [OF that(1,2,4,5)] that(3,6,7) by blast
  with a(2) show ?thesis by blast
qed

theorem class_taxonomy_sound_witness:
  "\<exists>t s'. class_taxonomy (new_session sample_ontology) = Some (Inr t, s') \<and>
    (\<forall>i < length (rt_nodes t). \<forall>j < length (rt_nodes t). (i, j) \<in> (set (rt_direct_edges t))\<^sup>* \<longrightarrow>
      (\<forall>a \<in> set (rt_nodes t ! i). \<forall>b \<in> set (rt_nodes t ! j). \<forall>x y.
         class_name sample_ontology a x \<and> class_name sample_ontology b y \<longrightarrow> ext sample_model x \<subseteq> ext sample_model y))"
  by (rule class_taxonomy_sound [OF sample_usable session_reached.created _ sample_is_model]) (simp add: sample_ontology_def)

end
