(* ===== verification/Property_Taxonomy.thy ===== *)
theory Property_Taxonomy
  imports Class_Taxonomy
begin

text \<open>The object property taxonomy a session returns: the told hierarchy of the property names.\<close>

abbreviation property_ids :: "compiled_ontology \<Rightarrow> nat list" where
  "property_ids co \<equiv> entity_ids (entities co) OBJECT_PROPERTY"

definition property_order :: "compiled_ontology \<Rightarrow> nat \<Rightarrow> nat \<Rightarrow> (nat \<times> nat) set" where
  "property_order co tp bp = {(a, b). a \<in> set (property_ids co) \<and> b \<in> set (property_ids co) \<and>
     (a = bp \<or> b = tp \<or> ([a], [b]) \<in> (told_chains co)\<^sup>*)}"

lemma property_ids: "p \<in> set (property_ids co) \<longleftrightarrow> is_object_property co p"
  by (auto simp: is_object_property_def)

lemma singleton_entities_get:
  "dict_get (map (\<lambda>(chain, record). (chain, first_property record))
      (filter (\<lambda>(chain, record). is_singleton record) (enumerate 0 rs))) c = Some p \<longleftrightarrow>
    c < length rs \<and> rs ! c = PropertyChainRecord p None"
proof -
  let ?d = "map (\<lambda>(chain, record). (chain, first_property record))
      (filter (\<lambda>(chain, record). is_singleton record) (enumerate 0 rs))"
  have keys: "map fst ?d = map fst (filter (\<lambda>(chain, record). is_singleton record) (enumerate 0 rs))"
    by (simp add: comp_def split_def)
  have "distinct (map fst ?d)" unfolding keys enumerate_filter by simp
  then have "dict_get ?d c = Some p \<longleftrightarrow> (c, p) \<in> set ?d" by (rule map_of_eq_Some_iff)
  also have "\<dots> \<longleftrightarrow> (\<exists>r. (c, r) \<in> set (enumerate 0 rs) \<and> is_singleton r \<and> first_property r = p)" by force
  also have "\<dots> \<longleftrightarrow> c < length rs \<and> rs ! c = PropertyChainRecord p None"
    by (cases "rs ! c") (auto simp: in_set_enumerate_eq is_singleton_def)
  finally show ?thesis .
qed

lemma property_edges_ok:
  assumes view: "view_of co u ps" and m: "is_object_property co m" and tp: "is_object_property co tp"
  shows "yields (property_edges_of ps (map (\<lambda>(chain, record). (chain, first_property record))
      (filter (\<lambda>(chain, record). is_singleton record) (enumerate 0 (chain_records ps)))) tp m)
    {(a, b). a = m \<and> is_object_property co b \<and> (b = tp \<or> ([a], [b]) \<in> (told_chains co)\<^sup>*)}"
proof -
  note v = view_facts [OF view]
  obtain a where a: "singleton_chain ps m = Inr a" "dict_get (singleton_ids u) m = Some a" "a < length (records u)"
    by (rule singleton_chain_view [OF view m])
  have supers: "super_chains ps a = Inr (sorted_list_of_set {b. chain_below co u a b})"
    by (rule sub_chains_view(2) [OF view]) (simp add: v(4) a(3))
  have "finite {b. chain_below co u a b}"
    by (rule finite_subset [of _ "{..<length (records u)}"]) (use chain_below_bounds in auto)
  then have mem: "set (sorted_list_of_set {b. chain_below co u a b}) = {b. chain_below co u a b}" by simp
  have named: "(\<exists>y. chain_below co u a y \<and> y < length (records u) \<and> records u ! y = PropertyChainRecord b None) \<longleftrightarrow>
      is_object_property co b \<and> ([m], [b]) \<in> (told_chains co)\<^sup>*" for b
  proof -
    have y: "dict_get (singleton_ids u) b = Some y \<Longrightarrow> chain_below co u a y \<longleftrightarrow> ([m], [b]) \<in> (told_chains co)\<^sup>*" for y
      using named_below_told [OF view m] a(2) by (simp add: named_below_def)
    have i: "dict_get (singleton_ids u) b = Some y \<longleftrightarrow> y < length (records u) \<and> records u ! y = PropertyChainRecord b None" for y
      using singleton_id_iff [OF v(1), of y b] singleton_record [OF v(1), of b y] by (cases "records u ! y") (auto simp: is_singleton_def)
    show ?thesis
      using y i singleton_chain_view [OF view, of b] record_property(1) [OF v(1)] by (metis property_chain_record.sel(1))
  qed
  show ?thesis
    using a(1) supers named tp unfolding property_edges_of_def
    by (auto simp: yields_def map_filter_pairs singleton_entities_get mem v(5) simp del: set_sorted_list_of_set)
qed

lemma property_edges_total:
  assumes view: "view_of co u ps" and ends: "is_object_property co tp" "is_object_property co bp"
  obtains edges where "rconcat_map (property_edges_of ps (map (\<lambda>(chain, record). (chain, first_property record))
      (filter (\<lambda>(chain, record). is_singleton record) (enumerate 0 (chain_records ps)))) tp) (property_ids co) = Inr edges"
    and "set (map (Pair bp) (property_ids co) @ edges) = property_order co tp bp"
proof -
  have "yields (rconcat_map (property_edges_of ps (map (\<lambda>(chain, record). (chain, first_property record))
      (filter (\<lambda>(chain, record). is_singleton record) (enumerate 0 (chain_records ps)))) tp) (property_ids co))
    (\<Union>m \<in> set (property_ids co). {(a, b). a = m \<and> is_object_property co b \<and> (b = tp \<or> ([a], [b]) \<in> (told_chains co)\<^sup>*)})"
    by (rule yields_rconcat_map) (rule property_edges_ok [OF view _ ends(1)], simp only: property_ids)
  then obtain edges where edges: "rconcat_map (property_edges_of ps (map (\<lambda>(chain, record). (chain, first_property record))
      (filter (\<lambda>(chain, record). is_singleton record) (enumerate 0 (chain_records ps)))) tp) (property_ids co) = Inr edges"
    "set edges = (\<Union>m \<in> set (property_ids co). {(a, b). a = m \<and> is_object_property co b \<and>
       (b = tp \<or> ([a], [b]) \<in> (told_chains co)\<^sup>*)})"
    by (rule yieldsE)
  have "set (map (Pair bp) (property_ids co) @ edges) = property_order co tp bp"
    unfolding set_append set_map edges(2) property_order_def using ends(2)
    by (auto simp: property_ids simp del: entity_ids_set)
  with edges(1) show ?thesis by (rule that)
qed

lemma build_object_property_taxonomy_ok:
  assumes set: "class_setting co ps" and ends: "predefined_ends co OBJECT_PROPERTY tp bp"
    and M: "tp \<in> set (property_ids co)" "bp \<in> set (property_ids co)"
  obtains t where "build_object_property_taxonomy co ps b = Some (Inr t)"
    and "taxonomy_of (set (property_ids co))
      (if b then set (property_ids co) \<times> set (property_ids co) else property_order co tp bp) tp bp t"
proof -
  obtain u where view: "view_of co u ps" and valid: "valid_ontology co" by (rule class_settingE [OF set])
  have n: "named_entity co OBJECT_PROPERTY OWL_TOP_OBJECT_PROPERTY_IRI = Inr tp"
    "named_entity co OBJECT_PROPERTY OWL_BOTTOM_OBJECT_PROPERTY_IRI = Inr bp"
    using ends by (simp_all add: predefined_ends_def)
  show ?thesis
  proof (cases b)
    case True
    with collapsed_ok [OF valid ends M] n show ?thesis
      by (intro that) (simp_all add: build_object_property_taxonomy_def Let_def obind_def)
  next
    case False
    obtain edges where edges: "rconcat_map (property_edges_of ps (map (\<lambda>(chain, record). (chain, first_property record))
        (filter (\<lambda>(chain, record). is_singleton record) (enumerate 0 (chain_records ps)))) tp) (property_ids co) = Inr edges"
      "set (map (Pair bp) (property_ids co) @ edges) = property_order co tp bp"
      by (rule property_edges_total [OF view M [unfolded property_ids]])
    have sub: "set (map (Pair bp) (property_ids co) @ edges) \<subseteq> set (property_ids co) \<times> set (property_ids co)"
      unfolding edges(2) by (auto simp: property_order_def)
    obtain t where t: "from_relation co (property_ids co) (map (Pair bp) (property_ids co) @ edges) OBJECT_PROPERTY tp bp = Some (Inr t)"
      "taxonomy_of (set (property_ids co)) (set (map (Pair bp) (property_ids co) @ edges)) tp bp t"
      by (rule from_relation_ok [OF valid ends M sub]) (use M in \<open>simp_all only: edges(2), auto simp: property_order_def\<close>)
    have "build_object_property_taxonomy co ps b = Some (Inr t)"
      using edges(1) t(1) n False
      by (simp add: build_object_property_taxonomy_def Let_def obind_def del: map_append)
    with t(2) False show ?thesis by (intro that) (simp_all only: edges(2) if_False)
  qed
qed

text \<open>C28: The object property taxonomy of a session is the quotient of the told hierarchy of the property
  names, through any number of axioms, with its transitive reduction; a reported inconsistency collapses it.\<close>

theorem object_property_taxonomy_exact:
  assumes "usable_ontology co" and "session_reached co roots s" and "consistency_roots co = Inr rs"
  shows "\<exists>cs t s' tp bp. object_property_taxonomy s = Some (Inr t, s') \<and>
    session_reached co (roots \<union> set rs) s' \<and> ensure_consistency s' = Some (Inr cs, s') \<and>
    predefined_ends co OBJECT_PROPERTY tp bp \<and>
    taxonomy_of (set (property_ids co))
      (if inconsistent_state cs then set (property_ids co) \<times> set (property_ids co) else property_order co tp bp) tp bp t"
proof -
  obtain ps where ps: "saturate_properties co = Some (Inr ps)" "class_setting co ps" "session_inv co ps roots s"
    by (rule usable_setting [OF assms(1,2)])
  obtain tp bp where ends: "predefined_ends co OBJECT_PROPERTY tp bp" "tp \<in> set (property_ids co)" "bp \<in> set (property_ids co)"
    using predefined_ends_exist [OF class_setting_valid [OF ps(2)], of OBJECT_PROPERTY] by blast
  obtain cs s' where s': "ensure_consistency s = Some (Inr cs, s')" "session_inv co ps (roots \<union> set rs) s'"
    "ss_stage s' = max (ss_stage s) CONSISTENCY" "ss_consistency s' = Some cs"
    by (rule consistency_step [OF ps(2,3) assms(3)])
  have stage: "CONSISTENCY \<le> ss_stage s'" "max (ss_stage s') PROPERTIES = ss_stage s'"
    using s'(3) by (simp_all add: stage_order max_def)
  have "ss_properties s' = Some ps" using s'(2) stage by (auto simp: session_inv_def stage_order)
  then have props: "ensure_properties s' = Some (Inr ps, s')" using stage(2) by (simp add: ensure_properties_def)
  obtain t where t: "build_object_property_taxonomy co ps (inconsistent_state cs) = Some (Inr t)"
    "taxonomy_of (set (property_ids co))
      (if inconsistent_state cs then set (property_ids co) \<times> set (property_ids co) else property_order co tp bp) tp bp t"
    by (rule build_object_property_taxonomy_ok [OF ps(2) ends])
  have "ss_compiled s' = co" using s'(2) by (simp add: session_inv_def)
  with s'(1) props t(1) have "object_property_taxonomy s = Some (Inr t, s')" by (simp add: object_property_taxonomy_def)
  moreover have "ensure_consistency s' = Some (Inr cs, s')" using s'(4) stage(1) by (simp add: ensure_consistency_def)
  ultimately show ?thesis using session_reached.checked [OF assms(2,3) s'(1)] ends(1) t(2) by blast
qed

theorem object_property_taxonomy_exact_witness:
  "\<exists>cs t s' tp bp. object_property_taxonomy (new_session sample_ontology) = Some (Inr t, s') \<and>
    session_reached sample_ontology ({} \<union> set [1]) s' \<and> ensure_consistency s' = Some (Inr cs, s') \<and>
    predefined_ends sample_ontology OBJECT_PROPERTY tp bp \<and>
    taxonomy_of (set (property_ids sample_ontology))
      (if inconsistent_state cs then set (property_ids sample_ontology) \<times> set (property_ids sample_ontology)
       else property_order sample_ontology tp bp) tp bp t"
  by (rule object_property_taxonomy_exact [OF sample_usable session_reached.created sample_consistency_roots])

end
