(* ===== verification/Blake2b.thy ===== *)
theory Blake2b
  imports IR
begin

text \<open>
  \<open>hashlib.blake2b\<close> of the Python standard library (RFC 7693), unkeyed, as the container checksum uses
  it: twelve rounds over 128-byte blocks of sixteen little-endian 64-bit words.
\<close>

section \<open>Little-endian integers\<close>

text \<open>The integer fields of \<open>struct\<close>: \<open>w\<close> bytes, least significant first.\<close>

definition le_bytes :: "nat \<Rightarrow> nat \<Rightarrow> bytes" where
  "le_bytes w n = map (\<lambda>i. of_nat (n div 256 ^ i)) [0..<w]"

fun le_value :: "bytes \<Rightarrow> nat" where
  "le_value [] = 0"
| "le_value (b # bs) = unat b + 256 * le_value bs"

lemma length_le_bytes [simp]: "length (le_bytes w n) = w"
  by (simp add: le_bytes_def)

lemma le_bytes_Suc: "le_bytes (Suc w) n = of_nat n # le_bytes w (n div 256)"
  unfolding le_bytes_def upt_rec [of 0 "Suc w"] by (simp add: map_Suc_upt [symmetric] div_mult2_eq del: upt_Suc)

lemma le_value_bytes: "le_value (le_bytes w n) = n mod 256 ^ w"
proof (induction w arbitrary: n)
  case (Suc w)
  have "le_value (le_bytes (Suc w) n) = n mod 256 + 256 * (n div 256 mod 256 ^ w)"
    by (simp add: le_bytes_Suc Suc unat_of_nat)
  also have "\<dots> = n mod 256 ^ Suc w" by (simp add: mod_mult2_eq)
  finally show ?case .
qed (simp add: le_bytes_def)

lemma le_value_bound: "le_value bs < 256 ^ length bs"
proof (induction bs)
  case (Cons b bs)
  have "unat b < 256" using unsigned_less [of b] by simp
  moreover have "256 * (le_value bs + 1) \<le> 256 * 256 ^ length bs" using Cons by (intro mult_le_mono) simp_all
  ultimately show ?case by simp
qed simp

lemma le_bytes_value: "le_bytes (length bs) (le_value bs) = bs"
proof (induction bs)
  case (Cons b bs)
  have b: "unat b < 256" using unsigned_less [of b] by simp
  have "(of_nat (unat b + 256 * le_value bs) :: byte) = b"
  proof -
    have "(of_nat (256 * le_value bs) :: byte) = of_nat 256 * of_nat (le_value bs)" by (rule of_nat_mult)
    also have "(of_nat 256 :: byte) = 0" by simp
    finally show ?thesis by simp
  qed
  with Cons b show ?case by (simp add: le_bytes_Suc)
qed (simp add: le_bytes_def)

section \<open>The compression function\<close>

type_synonym word64 = "64 word"

definition blake2b_iv :: "word64 list" where
  "blake2b_iv = [0x6a09e667f3bcc908, 0xbb67ae8584caa73b, 0x3c6ef372fe94f82b, 0xa54ff53a5f1d36f1,
     0x510e527fade682d1, 0x9b05688c2b3e6c1f, 0x1f83d9abfb41bd6b, 0x5be0cd19137e2179]"

definition blake2b_sigma :: "nat list list" where
  "blake2b_sigma =
     [[0, 1, 2, 3, 4, 5, 6, 7, 8, 9, 10, 11, 12, 13, 14, 15],
      [14, 10, 4, 8, 9, 15, 13, 6, 1, 12, 0, 2, 11, 7, 5, 3],
      [11, 8, 12, 0, 5, 2, 15, 13, 10, 14, 3, 6, 7, 1, 9, 4],
      [7, 9, 3, 1, 13, 12, 11, 14, 2, 6, 5, 10, 4, 0, 15, 8],
      [9, 0, 5, 7, 2, 4, 10, 15, 14, 1, 11, 12, 6, 8, 3, 13],
      [2, 12, 6, 10, 0, 11, 8, 3, 4, 13, 7, 5, 15, 14, 1, 9],
      [12, 5, 1, 15, 14, 13, 4, 10, 0, 7, 6, 3, 9, 2, 8, 11],
      [13, 11, 7, 14, 12, 1, 3, 9, 5, 0, 15, 4, 8, 6, 2, 10],
      [6, 15, 14, 9, 11, 3, 0, 8, 12, 2, 13, 7, 1, 4, 10, 5],
      [10, 2, 8, 4, 7, 6, 1, 5, 15, 11, 9, 14, 3, 12, 13, 0]]"

definition blake2b_mix :: "nat \<times> nat \<times> nat \<times> nat \<Rightarrow> word64 \<Rightarrow> word64 \<Rightarrow> word64 list \<Rightarrow> word64 list" where
  "blake2b_mix idx x y v = (case idx of (a, b, c, d) \<Rightarrow>
     let va = v ! a + v ! b + x;
         vd = word_rotr 32 (v ! d XOR va);
         vc = v ! c + vd;
         vb = word_rotr 24 (v ! b XOR vc);
         va = va + vb + y;
         vd = word_rotr 16 (vd XOR va);
         vc = vc + vd;
         vb = word_rotr 63 (vb XOR vc)
     in v[a := va, b := vb, c := vc, d := vd])"

definition blake2b_columns :: "(nat \<times> nat \<times> nat \<times> nat) list" where
  "blake2b_columns = [(0, 4, 8, 12), (1, 5, 9, 13), (2, 6, 10, 14), (3, 7, 11, 15),
     (0, 5, 10, 15), (1, 6, 11, 12), (2, 7, 8, 13), (3, 4, 9, 14)]"

definition blake2b_round :: "word64 list \<Rightarrow> nat \<Rightarrow> word64 list \<Rightarrow> word64 list" where
  "blake2b_round m i v = (let s = blake2b_sigma ! (i mod 10) in
     fold (\<lambda>(k, idx). blake2b_mix idx (m ! (s ! (2 * k))) (m ! (s ! (2 * k + 1)))) (enumerate 0 blake2b_columns) v)"

definition blake2b_words :: "bytes \<Rightarrow> word64 list" where
  "blake2b_words bs = map (\<lambda>i. of_nat (le_value (take 8 (drop (8 * i) bs)))) [0..<16]"

definition blake2b_compress :: "word64 list \<Rightarrow> bytes \<Rightarrow> nat \<Rightarrow> bool \<Rightarrow> word64 list" where
  "blake2b_compress h block t final = (
     let v = h @ blake2b_iv;
         v = v[12 := v ! 12 XOR of_nat t, 13 := v ! 13 XOR of_nat (t div 2 ^ 64)];
         v = (if final then v[14 := NOT (v ! 14)] else v);
         v = fold (blake2b_round (blake2b_words block)) [0..<12] v
     in map (\<lambda>i. h ! i XOR v ! i XOR v ! (i + 8)) [0..<8])"

function blake2b_blocks :: "word64 list \<Rightarrow> nat \<Rightarrow> bytes \<Rightarrow> word64 list" where
  "blake2b_blocks h t bs = (
     if length bs \<le> 128 then blake2b_compress h (bs @ replicate (128 - length bs) 0) (t + length bs) True
     else blake2b_blocks (blake2b_compress h (take 128 bs) (t + 128) False) (t + 128) (drop 128 bs))"
  by pat_completeness auto

termination
  by (relation "measure (\<lambda>(_, _, bs). length bs)") auto

declare blake2b_blocks.simps [simp del]

definition blake2b :: "nat \<Rightarrow> bytes \<Rightarrow> bytes" where
  "blake2b n bs = take n (concat (map (\<lambda>w. le_bytes 8 (unat w))
     (blake2b_blocks (blake2b_iv[0 := blake2b_iv ! 0 XOR 0x01010000 XOR of_nat n]) 0 bs)))"

lemma length_blake2b:
  assumes "n \<le> 64"
  shows "length (blake2b n bs) = n"
proof -
  have "length (blake2b_blocks h t bs) = 8" for h t bs
    by (induction h t bs rule: blake2b_blocks.induct) (subst blake2b_blocks.simps, simp add: blake2b_compress_def Let_def)
  moreover have "length (concat (map (\<lambda>w. le_bytes 8 (unat w)) ws)) = 8 * length ws" for ws :: "word64 list"
    by (induction ws) simp_all
  ultimately show ?thesis using assms by (simp add: blake2b_def)
qed

end
