(* ===== verification/Utf8.thy ===== *)
theory Utf8
  imports IR
begin

text \<open>\<open>bytes.decode("utf-8")\<close>, the strict decoder, and that it inverts \<open>str.encode("utf-8")\<close>.\<close>

definition continuation_bits :: "byte \<Rightarrow> nat option" where
  "continuation_bits b = (if 0x80 \<le> unat b \<and> unat b < 0xC0 then Some (unat b - 0x80) else None)"

text \<open>One code point and the bytes after it: no overlong form, no surrogate, nothing above \<open>0x10FFFF\<close>.\<close>

definition utf8_next :: "byte \<Rightarrow> bytes \<Rightarrow> (nat \<times> bytes) option" where
  "utf8_next a bs = (let x = unat a in
     if x < 0x80 then Some (x, bs)
     else if x < 0xC0 then None
     else if x < 0xE0 then (case bs of
         b # rest \<Rightarrow> (case continuation_bits b of
           Some y \<Rightarrow> let v = (x - 0xC0) * 0x40 + y in if 0x80 \<le> v then Some (v, rest) else None
         | None \<Rightarrow> None)
       | _ \<Rightarrow> None)
     else if x < 0xF0 then (case bs of
         b # c # rest \<Rightarrow> (case (continuation_bits b, continuation_bits c) of
           (Some y, Some z) \<Rightarrow> let v = ((x - 0xE0) * 0x40 + y) * 0x40 + z in
             if 0x800 \<le> v \<and> \<not> (0xD800 \<le> v \<and> v < 0xE000) then Some (v, rest) else None
         | _ \<Rightarrow> None)
       | _ \<Rightarrow> None)
     else (case bs of
         b # c # d # rest \<Rightarrow> (case (continuation_bits b, continuation_bits c, continuation_bits d) of
           (Some y, Some z, Some w) \<Rightarrow> let v = (((x - 0xF0) * 0x40 + y) * 0x40 + z) * 0x40 + w in
             if 0x10000 \<le> v \<and> v < 0x110000 then Some (v, rest) else None
         | _ \<Rightarrow> None)
       | _ \<Rightarrow> None))"

lemma utf8_next_shorter: "utf8_next a bs = Some (v, rest) \<Longrightarrow> length rest \<le> length bs"
  by (auto simp: utf8_next_def Let_def split: if_splits list.splits option.splits)

function utf8_decode :: "bytes \<Rightarrow> py_str result" where
  "utf8_decode [] = Inr []"
| "utf8_decode (a # bs) = (case utf8_next a bs of
     None \<Rightarrow> Inl UnicodeDecodeError
   | Some (v, rest) \<Rightarrow> rmap (Cons v) (utf8_decode rest))"
  by pat_completeness auto

termination
  by (relation "measure length") (auto dest: utf8_next_shorter simp: less_Suc_eq_le)

section \<open>Round trip\<close>

lemma byte_of_nat: "n < 256 \<Longrightarrow> unat (of_nat n :: byte) = n"
  by (simp add: unat_of_nat)

lemma continuation_of_nat: "n < 0x40 \<Longrightarrow> continuation_bits (of_nat (0x80 + n)) = Some n"
  using byte_of_nat [of "0x80 + n"] by (simp add: continuation_bits_def)

lemma utf8_next_forms:
  "unat a < 0x80 \<Longrightarrow> utf8_next a bs = Some (unat a, bs)"
  "unat a = 0xC0 + x \<Longrightarrow> x < 0x20 \<Longrightarrow> continuation_bits b = Some y \<Longrightarrow> 0x80 \<le> x * 0x40 + y \<Longrightarrow>
    utf8_next a (b # bs) = Some (x * 0x40 + y, bs)"
  "unat a = 0xE0 + x \<Longrightarrow> x < 0x10 \<Longrightarrow> continuation_bits b = Some y \<Longrightarrow> continuation_bits c = Some z \<Longrightarrow>
    0x800 \<le> (x * 0x40 + y) * 0x40 + z \<Longrightarrow> \<not> (0xD800 \<le> (x * 0x40 + y) * 0x40 + z \<and> (x * 0x40 + y) * 0x40 + z < 0xE000) \<Longrightarrow>
    utf8_next a (b # c # bs) = Some ((x * 0x40 + y) * 0x40 + z, bs)"
  "unat a = 0xF0 + x \<Longrightarrow> continuation_bits b = Some y \<Longrightarrow> continuation_bits c = Some z \<Longrightarrow> continuation_bits d = Some w \<Longrightarrow>
    0x10000 \<le> ((x * 0x40 + y) * 0x40 + z) * 0x40 + w \<Longrightarrow> ((x * 0x40 + y) * 0x40 + z) * 0x40 + w < 0x110000 \<Longrightarrow>
    utf8_next a (b # c # d # bs) = Some (((x * 0x40 + y) * 0x40 + z) * 0x40 + w, bs)"
  by (simp_all add: utf8_next_def Let_def)

lemma utf8_next_intro: "cs = a # bs \<Longrightarrow> utf8_next a (bs @ rest) = r \<Longrightarrow> \<exists>a bs. cs = a # bs \<and> utf8_next a (bs @ rest) = r"
  by blast

lemma utf8_next_code_point:
  assumes "utf8_code_point c = Inr cs"
  shows "\<exists>a bs. cs = a # bs \<and> utf8_next a (bs @ rest) = Some (c, rest)"
proof -
  have m: "continuation_bits (of_nat (0x80 + k mod 0x40)) = Some (k mod 0x40)" for k
    by (rule continuation_of_nat) simp
  consider "c < 0x80" | "0x80 \<le> c" "c < 0x800" | "0x800 \<le> c" "c < 0x10000" "\<not> (0xD800 \<le> c \<and> c < 0xE000)"
    | "0x10000 \<le> c" "c < 0x110000"
    using assms unfolding utf8_code_point_def by (metis Inl_Inr_False not_le)
  then show ?thesis
  proof cases
    case 1
    then have "cs = [of_nat c]" using assms by (simp add: utf8_code_point_def)
    with utf8_next_forms(1) [of "of_nat c" rest] byte_of_nat [of c] 1 show ?thesis by simp
  next
    case 2
    have "c div 0x40 * 0x40 + c mod 0x40 = c" by (rule div_mult_mod_eq)
    moreover have "unat (of_nat (0xC0 + c div 0x40) :: byte) = 0xC0 + c div 0x40" by (rule byte_of_nat) (use 2 in simp)
    moreover have "c div 0x40 < 0x20" using 2 by simp
    ultimately have n: "utf8_next (of_nat (0xC0 + c div 0x40)) (of_nat (0x80 + c mod 0x40) # rest) = Some (c, rest)"
      using utf8_next_forms(2) [OF _ _ m, of "of_nat (0xC0 + c div 0x40)" "c div 0x40" c rest] 2 by (simp only: simp_thms)
    have c: "cs = [of_nat (0xC0 + c div 0x40), of_nat (0x80 + c mod 0x40)]"
      using assms 2 by (simp add: utf8_code_point_def)
    show ?thesis by (rule utf8_next_intro [OF c]) (simp only: append_Cons append_Nil n)
  next
    case 3
    have d: "c div 0x1000 = c div 0x40 div 0x40" by (simp add: div_mult2_eq [symmetric])
    have "(c div 0x1000 * 0x40 + c div 0x40 mod 0x40) * 0x40 + c mod 0x40 = c" by (simp only: d div_mult_mod_eq)
    moreover have "unat (of_nat (0xE0 + c div 0x1000) :: byte) = 0xE0 + c div 0x1000" by (rule byte_of_nat) (use 3 in simp)
    moreover have "c div 0x1000 < 0x10" using 3 by simp
    ultimately have n: "utf8_next (of_nat (0xE0 + c div 0x1000)) (of_nat (0x80 + c div 0x40 mod 0x40) # of_nat (0x80 + c mod 0x40) # rest) =
        Some (c, rest)"
      using utf8_next_forms(3) [OF _ _ m m, of "of_nat (0xE0 + c div 0x1000)" "c div 0x1000" "c div 0x40" c rest] 3 by (simp only: simp_thms)
    have c: "cs = [of_nat (0xE0 + c div 0x1000), of_nat (0x80 + c div 0x40 mod 0x40), of_nat (0x80 + c mod 0x40)]"
      using assms 3 by (simp add: utf8_code_point_def)
    show ?thesis by (rule utf8_next_intro [OF c]) (simp only: append_Cons append_Nil n)
  next
    case 4
    have d: "c div 0x40000 = c div 0x1000 div 0x40" "c div 0x1000 = c div 0x40 div 0x40"
      by (simp_all add: div_mult2_eq [symmetric])
    have "((c div 0x40000 * 0x40 + c div 0x1000 mod 0x40) * 0x40 + c div 0x40 mod 0x40) * 0x40 + c mod 0x40 = c"
      by (simp only: d div_mult_mod_eq)
    moreover have "unat (of_nat (0xF0 + c div 0x40000) :: byte) = 0xF0 + c div 0x40000" by (rule byte_of_nat) (use 4 in simp)
    ultimately have n: "utf8_next (of_nat (0xF0 + c div 0x40000))
        (of_nat (0x80 + c div 0x1000 mod 0x40) # of_nat (0x80 + c div 0x40 mod 0x40) # of_nat (0x80 + c mod 0x40) # rest) = Some (c, rest)"
      using utf8_next_forms(4) [OF _ m m m, of "of_nat (0xF0 + c div 0x40000)" "c div 0x40000" "c div 0x1000" "c div 0x40" c rest] 4
      by (simp only: simp_thms)
    have c: "cs = [of_nat (0xF0 + c div 0x40000), of_nat (0x80 + c div 0x1000 mod 0x40),
        of_nat (0x80 + c div 0x40 mod 0x40), of_nat (0x80 + c mod 0x40)]"
      using assms 4 by (simp add: utf8_code_point_def)
    show ?thesis by (rule utf8_next_intro [OF c]) (simp only: append_Cons append_Nil n)
  qed
qed

lemma utf8_encode_Cons: "utf8_encode (c # s) = rappend (utf8_code_point c) (utf8_encode s)"
  by (simp add: utf8_encode_def)

lemma utf8_decode_encode: "utf8_encode s = Inr bs \<Longrightarrow> utf8_decode bs = Inr s"
proof (induction s arbitrary: bs)
  case (Cons c s)
  obtain cs rest where cs: "utf8_code_point c = Inr cs" "utf8_encode s = Inr rest" "bs = cs @ rest"
    using Cons.prems by (auto simp: utf8_encode_Cons rappend_def)
  obtain a bs' where "cs = a # bs'" "utf8_next a (bs' @ rest) = Some (c, rest)"
    using utf8_next_code_point [OF cs(1)] by blast
  with cs(3) Cons.IH [OF cs(2)] show ?case by simp
qed (simp add: utf8_encode_def)

end
