(* ===== verification/Query_IR.thy ===== *)
theory Query_IR
  imports IR
begin

text \<open>\<open>QueryIR\<close> of \<open>src/pyelk/indexing/ir.py\<close>: the tables of one query, and the checks of its constructor.\<close>

datatype query_ir_kind = CLASS_EXPRESSION | ENTAILMENT

fun query_ir_kind_int :: "query_ir_kind \<Rightarrow> nat" where
  "query_ir_kind_int CLASS_EXPRESSION = 0"
| "query_ir_kind_int ENTAILMENT = 1"

record query_ir =
  qi_kind :: query_ir_kind
  qi_entities :: "query_entity_record list"
  qi_expressions :: "expression_record list"
  qi_expression_occurrences :: "occurrence list"
  qi_property_occurrences :: "occurrence list"
  qi_root_expression :: "nat option"
  qi_subsumption_obligations :: "(nat \<times> nat) list"

definition query_entity_record_check :: "query_entity_record \<Rightarrow> unit result" where
  "query_entity_record_check r = (case ontology_id r of None \<Rightarrow> Inr () | Some i \<Rightarrow> check_u32 i)"

definition validate_query_root :: "query_ir \<Rightarrow> unit result" where
  "validate_query_root q = (case qi_kind q of
     CLASS_EXPRESSION \<Rightarrow> (case qi_root_expression q of
         None \<Rightarrow> Inl ValueError
       | Some root \<Rightarrow> checks [check_u32 root, rassert (root < length (qi_expressions q)) ValueError,
           rassert (qi_subsumption_obligations q = []) ValueError])
   | ENTAILMENT \<Rightarrow> rassert (qi_root_expression q = None) ValueError)"

definition validate_query_entity_expressions :: "query_ir \<Rightarrow> entity_record list \<Rightarrow> unit result" where
  "validate_query_entity_expressions q es = validate_named_entity_expressions es (qi_expressions q)"

text \<open>\<open>QueryIR.__post_init__\<close>, after the record constructors of its members.\<close>

definition query_ir_check :: "query_ir \<Rightarrow> unit result" where
  "query_ir_check q = (let es = map entity (qi_entities q) in checks
     [rall entity_record_check es,
      rall query_entity_record_check (qi_entities q),
      rall expression_record_check (qi_expressions q),
      rall occurrence_check (qi_expression_occurrences q),
      rall occurrence_check (qi_property_occurrences q),
      validate_entities False es,
      rassert (distinct (List.map_filter ontology_id (qi_entities q))) ValueError,
      validate_expressions (qi_expressions q) es,
      validate_query_entity_expressions q es,
      validate_occurrences (qi_expression_occurrences q) (qi_property_occurrences q)
        (length (qi_expressions q)) (object_property_count es),
      validate_sorted_pairs (qi_subsumption_obligations q) (length (qi_expressions q)) (length (qi_expressions q)),
      validate_query_root q])"

definition valid_query :: "query_ir \<Rightarrow> bool" where
  "valid_query q \<longleftrightarrow> query_ir_check q = Inr ()"

end
