(* ===== verification/Codec.thy ===== *)
theory Codec
  imports Blake2b Utf8 Query_IR
begin

text \<open>
  \<open>src/pyelk/indexing/codec.py\<close>: the binary container of compiled ontologies and queries.  A \<open>struct\<close>
  format is the list of the widths of its integer fields; packing a value too wide raises.
\<close>

section \<open>\<open>struct\<close>\<close>

definition pack_int :: "nat \<Rightarrow> nat \<Rightarrow> bytes result" where
  "pack_int w v = (if v < 256 ^ w then Inr (le_bytes w v) else Inl StructError)"

fun pack :: "nat list \<Rightarrow> nat list \<Rightarrow> bytes result" where
  "pack [] [] = Inr []"
| "pack (w # ws) (v # vs) = rappend (pack_int w v) (pack ws vs)"
| "pack _ _ = Inl StructError"

fun unpack :: "nat list \<Rightarrow> bytes \<Rightarrow> nat list" where
  "unpack [] _ = []"
| "unpack (w # ws) bs = le_value (take w bs) # unpack ws (drop w bs)"

definition unpack_from :: "nat list \<Rightarrow> bytes \<Rightarrow> nat \<Rightarrow> nat list result" where
  "unpack_from ws bs offset = (if offset + sum_list ws \<le> length bs then Inr (unpack ws (drop offset bs)) else Inl StructError)"

definition slice :: "'a list \<Rightarrow> nat \<Rightarrow> nat \<Rightarrow> 'a list" where
  "slice xs a b = take (b - a) (drop a xs)"

section \<open>Constants\<close>

definition IR_MAGIC :: bytes where
  "IR_MAGIC = map of_nat (py_literal ''PYELKIR'') @ [0]"

definition QUERY_MAGIC :: bytes where
  "QUERY_MAGIC = map of_nat (py_literal ''PYELKQ'') @ [0, 0]"

definition SCHEMA_MAJOR :: nat where
  "SCHEMA_MAJOR = 1"

definition SCHEMA_MINOR :: nat where
  "SCHEMA_MINOR = 0"

definition OPTIONAL_TAG_START :: nat where
  "OPTIONAL_TAG_START = 0x8000"

definition CHECKSUM_SIZE :: nat where
  "CHECKSUM_SIZE = 32"

definition MAX_SECTIONS :: nat where
  "MAX_SECTIONS = 256"

text \<open>The header's magic is its first eight bytes; the formats below hold the integer fields.\<close>

definition MAGIC_SIZE :: nat where
  "MAGIC_SIZE = 8"

definition HEADER_FIELDS :: "nat list" where
  "HEADER_FIELDS = [2, 2, 4]"

definition HEADER_SIZE :: nat where
  "HEADER_SIZE = MAGIC_SIZE + sum_list HEADER_FIELDS"

definition DIRECTORY_ENTRY :: "nat list" where
  "DIRECTORY_ENTRY = [2, 8, 8, 8]"

definition ENTRY_SIZE :: nat where
  "ENTRY_SIZE = sum_list DIRECTORY_ENTRY"

datatype ontology_section =
    ENTITY_KINDS | ENTITY_IRI_OFFSETS | ENTITY_IRI_BYTES | EXPRESSION_TAGS | EXPRESSION_ARGUMENT_OFFSETS
  | EXPRESSION_ARGUMENTS | EXPRESSION_PAYLOAD_OFFSETS | EXPRESSION_PAYLOAD_BYTES | EXPRESSION_OCCURRENCES
  | PROPERTY_OCCURRENCES | PROPERTY_CHAIN_OFFSETS | PROPERTY_CHAIN_VALUES | SUBCLASS_AXIOMS | EQUIVALENT_CLASS_AXIOMS
  | DISJOINT_GROUP_OFFSETS | DISJOINT_GROUP_VALUES | SUBPROPERTY_AXIOMS | PROPERTY_RANGES | FEATURE_COUNTS
  | SOURCE_FINGERPRINT

fun ontology_section_int :: "ontology_section \<Rightarrow> nat" where
  "ontology_section_int ENTITY_KINDS = 1"
| "ontology_section_int ENTITY_IRI_OFFSETS = 2"
| "ontology_section_int ENTITY_IRI_BYTES = 3"
| "ontology_section_int EXPRESSION_TAGS = 4"
| "ontology_section_int EXPRESSION_ARGUMENT_OFFSETS = 5"
| "ontology_section_int EXPRESSION_ARGUMENTS = 6"
| "ontology_section_int EXPRESSION_PAYLOAD_OFFSETS = 7"
| "ontology_section_int EXPRESSION_PAYLOAD_BYTES = 8"
| "ontology_section_int EXPRESSION_OCCURRENCES = 9"
| "ontology_section_int PROPERTY_OCCURRENCES = 10"
| "ontology_section_int PROPERTY_CHAIN_OFFSETS = 11"
| "ontology_section_int PROPERTY_CHAIN_VALUES = 12"
| "ontology_section_int SUBCLASS_AXIOMS = 13"
| "ontology_section_int EQUIVALENT_CLASS_AXIOMS = 14"
| "ontology_section_int DISJOINT_GROUP_OFFSETS = 15"
| "ontology_section_int DISJOINT_GROUP_VALUES = 16"
| "ontology_section_int SUBPROPERTY_AXIOMS = 17"
| "ontology_section_int PROPERTY_RANGES = 18"
| "ontology_section_int FEATURE_COUNTS = 19"
| "ontology_section_int SOURCE_FINGERPRINT = 20"

datatype query_section =
    QUERY_KIND | QUERY_ENTITY_KINDS | QUERY_ENTITY_IRI_OFFSETS | QUERY_ENTITY_IRI_BYTES | QUERY_ENTITY_ONTOLOGY_IDS
  | QUERY_EXPRESSION_TAGS | QUERY_EXPRESSION_ARGUMENT_OFFSETS | QUERY_EXPRESSION_ARGUMENTS
  | QUERY_EXPRESSION_PAYLOAD_OFFSETS | QUERY_EXPRESSION_PAYLOAD_BYTES | QUERY_EXPRESSION_OCCURRENCES
  | QUERY_PROPERTY_OCCURRENCES | QUERY_ROOT_EXPRESSION | QUERY_SUBSUMPTION_OBLIGATIONS

fun query_section_int :: "query_section \<Rightarrow> nat" where
  "query_section_int QUERY_KIND = 1"
| "query_section_int QUERY_ENTITY_KINDS = 2"
| "query_section_int QUERY_ENTITY_IRI_OFFSETS = 3"
| "query_section_int QUERY_ENTITY_IRI_BYTES = 4"
| "query_section_int QUERY_ENTITY_ONTOLOGY_IDS = 5"
| "query_section_int QUERY_EXPRESSION_TAGS = 6"
| "query_section_int QUERY_EXPRESSION_ARGUMENT_OFFSETS = 7"
| "query_section_int QUERY_EXPRESSION_ARGUMENTS = 8"
| "query_section_int QUERY_EXPRESSION_PAYLOAD_OFFSETS = 9"
| "query_section_int QUERY_EXPRESSION_PAYLOAD_BYTES = 10"
| "query_section_int QUERY_EXPRESSION_OCCURRENCES = 11"
| "query_section_int QUERY_PROPERTY_OCCURRENCES = 12"
| "query_section_int QUERY_ROOT_EXPRESSION = 13"
| "query_section_int QUERY_SUBSUMPTION_OBLIGATIONS = 14"

record encoded_section =
  es_tag :: nat
  es_count :: nat
  es_payload :: bytes

record decoded_section =
  ds_count :: nat
  ds_payload :: bytes

section \<open>Encoding rows\<close>

definition pack_values :: "nat \<Rightarrow> nat list \<Rightarrow> bytes result" where
  "pack_values w values = rconcat_map (\<lambda>v. pack [w] [v]) values"

definition pack_pairs :: "(nat \<times> nat) list \<Rightarrow> bytes result" where
  "pack_pairs values = rconcat_map (\<lambda>(first, second). pack [4, 4] [first, second]) values"

fun running_offsets :: "nat \<Rightarrow> 'a list list \<Rightarrow> nat list" where
  "running_offsets n [] = [n]"
| "running_offsets n (row # rows) = n # running_offsets (n + length row) rows"

definition encode_csr :: "nat list list \<Rightarrow> (bytes \<times> bytes \<times> nat) result" where
  "encode_csr rows = rbind (pack_values 8 (running_offsets 0 rows)) (\<lambda>offsets.
     rbind (pack_values 4 (concat rows)) (\<lambda>values. Inr (offsets, values, length (concat rows))))"

definition encode_byte_csr :: "bytes list \<Rightarrow> (bytes \<times> bytes) result" where
  "encode_byte_csr rows = rmap (\<lambda>offsets. (offsets, concat rows)) (pack_values 8 (running_offsets 0 rows))"

definition encode_occurrences :: "occurrence list \<Rightarrow> bytes result" where
  "encode_occurrences values = rconcat_map (\<lambda>v. pack [8, 8] [negative v, positive v]) values"

section \<open>The container\<close>

fun directory_from :: "nat \<Rightarrow> encoded_section list \<Rightarrow> bytes result" where
  "directory_from offset [] = Inr []"
| "directory_from offset (s # ss) = rappend (pack DIRECTORY_ENTRY [es_tag s, offset, length (es_payload s), es_count s])
     (directory_from (offset + length (es_payload s)) ss)"

definition encode_container :: "bytes \<Rightarrow> encoded_section list \<Rightarrow> bytes result" where
  "encode_container magic ss = (
     let ordered = sort_key es_tag ss in
     if \<not> distinct (map es_tag ordered) then Inl ValueError
     else if MAX_SECTIONS < length ordered then Inl ValueError
     else rbind (directory_from (HEADER_SIZE + length ordered * ENTRY_SIZE) ordered) (\<lambda>directory.
       let payloads = concat (map es_payload ordered); checksum = blake2b CHECKSUM_SIZE payloads in
       rmap (\<lambda>fields. magic @ fields @ directory @ payloads @ checksum)
         (pack HEADER_FIELDS [SCHEMA_MAJOR, SCHEMA_MINOR, length ordered])))"

fun decode_entries ::
    "bytes \<Rightarrow> nat \<Rightarrow> nat set \<Rightarrow> nat list \<Rightarrow> int \<Rightarrow> nat \<Rightarrow> (nat, decoded_section) dict \<Rightarrow> ((nat, decoded_section) dict \<times> nat) result" where
  "decode_entries raw checksum_start recognized [] previous_tag expected_offset sections = Inr (sections, expected_offset)"
| "decode_entries raw checksum_start recognized (index # indices) previous_tag expected_offset sections =
     rbind (unpack_from DIRECTORY_ENTRY raw (HEADER_SIZE + index * ENTRY_SIZE)) (\<lambda>fields. case fields of
       [t, offset, len, count] \<Rightarrow>
         rbind (checks [rassert (previous_tag < int t) BackendProtocolError,
             rassert (offset = expected_offset) BackendProtocolError,
             rassert (int len \<le> int checksum_start - int offset) BackendProtocolError,
             rassert (offset + len \<le> checksum_start) BackendProtocolError,
             rassert (t \<in> recognized \<or> OPTIONAL_TAG_START \<le> t) BackendProtocolError])
           (\<lambda>_. decode_entries raw checksum_start recognized indices (int t) (offset + len)
             (if t \<in> recognized
              then dict_put t \<lparr>ds_count = count, ds_payload = slice raw offset (offset + len)\<rparr> sections
              else sections))
     | _ \<Rightarrow> Inl StructError)"

definition decode_container :: "bytes \<Rightarrow> bytes \<Rightarrow> nat set \<Rightarrow> nat set option \<Rightarrow> (nat, decoded_section) dict result" where
  "decode_container raw magic required_tags known_tags = (
     if length raw < HEADER_SIZE + CHECKSUM_SIZE then Inl BackendProtocolError
     else rbind (unpack_from HEADER_FIELDS raw MAGIC_SIZE) (\<lambda>fields. case fields of
       [major, minor, section_count] \<Rightarrow>
         let directory_end = HEADER_SIZE + section_count * ENTRY_SIZE;
           checksum_start = length raw - CHECKSUM_SIZE;
           recognized = (case known_tags of None \<Rightarrow> required_tags | Some tags \<Rightarrow> tags) in
         rbind (checks [rassert (take MAGIC_SIZE raw = magic) BackendProtocolError,
             rassert (major = SCHEMA_MAJOR) BackendProtocolError,
             rassert (section_count \<le> MAX_SECTIONS) BackendProtocolError,
             rassert (directory_end \<le> checksum_start) BackendProtocolError,
             rassert (drop checksum_start raw = blake2b CHECKSUM_SIZE (slice raw directory_end checksum_start)) BackendProtocolError,
             rassert (required_tags \<subseteq> recognized) ValueError])
           (\<lambda>_. rbind (decode_entries raw checksum_start recognized [0..<section_count] (- 1) directory_end [])
             (\<lambda>(sections, expected_offset).
               rmap (\<lambda>_. sections) (checks [rassert (expected_offset = checksum_start) BackendProtocolError,
                 rassert (required_tags \<subseteq> dict_keys sections) BackendProtocolError])))
     | _ \<Rightarrow> Inl StructError))"

section \<open>Decoding rows\<close>

definition unpack_fixed :: "decoded_section \<Rightarrow> nat \<Rightarrow> nat list result" where
  "unpack_fixed s w = (if ds_count s * w \<noteq> length (ds_payload s) then Inl BackendProtocolError
     else rmap_list (\<lambda>i. rmap hd (unpack_from [w] (ds_payload s) (i * w))) [0..<ds_count s])"

definition unpack_pairs :: "decoded_section \<Rightarrow> (nat \<times> nat) list result" where
  "unpack_pairs s = (if ds_count s * 8 \<noteq> length (ds_payload s) then Inl BackendProtocolError
     else rmap_list (\<lambda>i. rmap (\<lambda>xs. (xs ! 0, xs ! 1)) (unpack_from [4, 4] (ds_payload s) (i * 8))) [0..<ds_count s])"

definition unpack_offsets :: "decoded_section \<Rightarrow> nat list result" where
  "unpack_offsets s = (if (ds_count s + 1) * 8 \<noteq> length (ds_payload s) then Inl BackendProtocolError
     else rbind (rmap_list (\<lambda>i. rmap hd (unpack_from [8] (ds_payload s) (i * 8))) [0..<ds_count s + 1]) (\<lambda>offsets.
       if offsets = [] \<or> offsets ! 0 \<noteq> 0 then Inl BackendProtocolError
       else rmap (\<lambda>_. offsets)
         (rall (\<lambda>i. rassert (offsets ! (i - 1) \<le> offsets ! i) BackendProtocolError) [1..<length offsets])))"

definition decode_csr :: "decoded_section \<Rightarrow> decoded_section \<Rightarrow> nat list list result" where
  "decode_csr offsets_section values_section =
     rbind (unpack_offsets offsets_section) (\<lambda>offsets. rbind (unpack_fixed values_section 4) (\<lambda>values.
       if last offsets \<noteq> length values then Inl BackendProtocolError
       else Inr (map (\<lambda>i. slice values (offsets ! i) (offsets ! (i + 1))) [0..<length offsets - 1])))"

definition decode_byte_csr :: "decoded_section \<Rightarrow> decoded_section \<Rightarrow> bytes list result" where
  "decode_byte_csr offsets_section payload_section =
     rbind (unpack_offsets offsets_section) (\<lambda>offsets.
       if ds_count payload_section \<noteq> length (ds_payload payload_section) then Inl BackendProtocolError
       else if last offsets \<noteq> length (ds_payload payload_section) then Inl BackendProtocolError
       else Inr (map (\<lambda>i. slice (ds_payload payload_section) (offsets ! i) (offsets ! (i + 1))) [0..<length offsets - 1]))"

definition new_occurrence :: "nat \<Rightarrow> nat \<Rightarrow> occurrence result" where
  "new_occurrence n p = (let occ = \<lparr>negative = n, positive = p\<rparr> in rmap (\<lambda>_. occ) (occurrence_check occ))"

definition decode_occurrences :: "decoded_section \<Rightarrow> occurrence list result" where
  "decode_occurrences s = (if ds_count s * 16 \<noteq> length (ds_payload s) then Inl BackendProtocolError
     else rmap_list (\<lambda>i. rbind (unpack_from [8, 8] (ds_payload s) (i * 16)) (\<lambda>xs. new_occurrence (xs ! 0) (xs ! 1)))
       [0..<ds_count s])"

text \<open>\<open>except ValueError\<close>: the Unicode errors are its subclasses.\<close>

definition as_protocol :: "'a result \<Rightarrow> 'a result" where
  "as_protocol m = (case m of
     Inl x \<Rightarrow> Inl (if x \<in> {ValueError, UnicodeEncodeError, UnicodeDecodeError} then BackendProtocolError else x)
   | Inr a \<Rightarrow> Inr a)"

definition entity_kind_of :: "nat \<Rightarrow> entity_kind result" where
  "entity_kind_of n = (case find (\<lambda>k. entity_kind_int k = n)
       [CLASS, NAMED_INDIVIDUAL, OBJECT_PROPERTY, DATA_PROPERTY, DATATYPE, ANNOTATION_PROPERTY] of
     None \<Rightarrow> Inl ValueError | Some k \<Rightarrow> Inr k)"

definition expression_tag_of :: "nat \<Rightarrow> expression_tag result" where
  "expression_tag_of n = (case find (\<lambda>t. expression_tag_int t = n)
       [TAG_CLASS, TAG_INDIVIDUAL, OBJECT_INTERSECTION_OF, OBJECT_SOME_VALUES_FROM, OBJECT_HAS_SELF, DATA_HAS_VALUE,
        OBJECT_COMPLEMENT_OF, OBJECT_UNION_OF] of
     None \<Rightarrow> Inl ValueError | Some t \<Rightarrow> Inr t)"

definition query_ir_kind_of :: "nat \<Rightarrow> query_ir_kind result" where
  "query_ir_kind_of n = (case find (\<lambda>k. query_ir_kind_int k = n) [CLASS_EXPRESSION, ENTAILMENT] of
     None \<Rightarrow> Inl ValueError | Some k \<Rightarrow> Inr k)"

definition decode_entity :: "nat \<Rightarrow> bytes \<Rightarrow> entity_record result" where
  "decode_entity kind_value encoded_iri =
     rbind (as_protocol (entity_kind_of kind_value)) (\<lambda>k.
     rbind (as_protocol (utf8_decode encoded_iri)) (\<lambda>i.
     let r = \<lparr>kind = k, iri = i\<rparr> in as_protocol (rmap (\<lambda>_. r) (entity_record_check r))))"

definition decode_entity_records :: "decoded_section \<Rightarrow> decoded_section \<Rightarrow> decoded_section \<Rightarrow> entity_record list result" where
  "decode_entity_records kinds_section offsets_section bytes_section =
     rbind (unpack_fixed kinds_section 1) (\<lambda>kinds.
     rbind (decode_byte_csr offsets_section bytes_section) (\<lambda>iri_bytes.
     if length kinds \<noteq> length iri_bytes then Inl BackendProtocolError
     else rmap_list (\<lambda>(kind_value, encoded_iri). decode_entity kind_value encoded_iri) (zip kinds iri_bytes)))"

definition decode_expression :: "nat \<Rightarrow> nat list \<Rightarrow> bytes \<Rightarrow> expression_record result" where
  "decode_expression tag_value row bs =
     rbind (as_protocol (expression_tag_of tag_value)) (\<lambda>t.
     let r = \<lparr>tag = t, arguments = row, payload = bs\<rparr> in as_protocol (rmap (\<lambda>_. r) (expression_record_check r)))"

definition decode_expression_records ::
    "decoded_section \<Rightarrow> decoded_section \<Rightarrow> decoded_section \<Rightarrow> decoded_section \<Rightarrow> decoded_section \<Rightarrow> expression_record list result" where
  "decode_expression_records tags_section argument_offsets args payload_offsets payload_bytes =
     rbind (unpack_fixed tags_section 1) (\<lambda>tags.
     rbind (decode_csr argument_offsets args) (\<lambda>argument_rows.
     rbind (decode_byte_csr payload_offsets payload_bytes) (\<lambda>payload_rows.
     if \<not> (length tags = length argument_rows \<and> length argument_rows = length payload_rows) then Inl BackendProtocolError
     else rmap_list (\<lambda>(tag_value, row, bs). decode_expression tag_value row bs)
       (zip tags (zip argument_rows payload_rows)))))"

end
