(* ===== verification/Codec_Tables.thy ===== *)
theory Codec_Tables
  imports Codec
begin

text \<open>\<open>src/pyelk/indexing/codec.py\<close>: the sections of an ontology and of a query.\<close>

definition section_of :: "nat \<Rightarrow> nat \<Rightarrow> bytes result \<Rightarrow> encoded_section result" where
  "section_of t count m = rmap (\<lambda>p. \<lparr>es_tag = t, es_count = count, es_payload = p\<rparr>) m"

definition the_section :: "(nat, decoded_section) dict \<Rightarrow> nat \<Rightarrow> decoded_section result" where
  "the_section sections t = (case dict_get sections t of None \<Rightarrow> Inl KeyError | Some s \<Rightarrow> Inr s)"

section \<open>Ontologies\<close>

definition ontology_sections :: "compiled_ontology \<Rightarrow> encoded_section list result" where
  "ontology_sections co =
     rbind (rmap_list (\<lambda>r. utf8_encode (iri r)) (entities co)) (\<lambda>iris.
     rbind (encode_byte_csr iris) (\<lambda>(iri_offsets, iri_bytes).
     rbind (encode_csr (map arguments (expressions co))) (\<lambda>(argument_offsets, args, argument_count).
     rbind (encode_byte_csr (map payload (expressions co))) (\<lambda>(payload_offsets, payload_bytes).
     rbind (encode_csr (property_chains co)) (\<lambda>(chain_offsets, chain_values, chain_value_count).
     rbind (encode_csr (disjoint_groups co)) (\<lambda>(disjoint_offsets, disjoint_values, disjoint_value_count).
     let tg = ontology_section_int in
     rmap_list (\<lambda>s. s)
       [section_of (tg ENTITY_KINDS) (length (entities co)) (pack_values 1 (map (entity_kind_int \<circ> kind) (entities co))),
        section_of (tg ENTITY_IRI_OFFSETS) (length (entities co)) (Inr iri_offsets),
        section_of (tg ENTITY_IRI_BYTES) (length iri_bytes) (Inr iri_bytes),
        section_of (tg EXPRESSION_TAGS) (length (expressions co))
          (pack_values 1 (map (expression_tag_int \<circ> tag) (expressions co))),
        section_of (tg EXPRESSION_ARGUMENT_OFFSETS) (length (expressions co)) (Inr argument_offsets),
        section_of (tg EXPRESSION_ARGUMENTS) argument_count (Inr args),
        section_of (tg EXPRESSION_PAYLOAD_OFFSETS) (length (expressions co)) (Inr payload_offsets),
        section_of (tg EXPRESSION_PAYLOAD_BYTES) (length payload_bytes) (Inr payload_bytes),
        section_of (tg EXPRESSION_OCCURRENCES) (length (expression_occurrences co))
          (encode_occurrences (expression_occurrences co)),
        section_of (tg PROPERTY_OCCURRENCES) (length (property_occurrences co))
          (encode_occurrences (property_occurrences co)),
        section_of (tg PROPERTY_CHAIN_OFFSETS) (length (property_chains co)) (Inr chain_offsets),
        section_of (tg PROPERTY_CHAIN_VALUES) chain_value_count (Inr chain_values),
        section_of (tg SUBCLASS_AXIOMS) (length (subclass_axioms co)) (pack_pairs (subclass_axioms co)),
        section_of (tg EQUIVALENT_CLASS_AXIOMS) (length (equivalent_class_axioms co)) (pack_pairs (equivalent_class_axioms co)),
        section_of (tg DISJOINT_GROUP_OFFSETS) (length (disjoint_groups co)) (Inr disjoint_offsets),
        section_of (tg DISJOINT_GROUP_VALUES) disjoint_value_count (Inr disjoint_values),
        section_of (tg SUBPROPERTY_AXIOMS) (length (subproperty_axioms co)) (pack_pairs (subproperty_axioms co)),
        section_of (tg PROPERTY_RANGES) (length (property_ranges co)) (pack_pairs (property_ranges co)),
        section_of (tg FEATURE_COUNTS) (length (feature_counts co)) (pack_values 8 (feature_counts co)),
        section_of (tg SOURCE_FINGERPRINT) 1 (Inr (source_fingerprint co))]))))))"

definition encode_ontology :: "compiled_ontology \<Rightarrow> bytes result" where
  "encode_ontology co = rbind (ontology_sections co) (encode_container IR_MAGIC)"

definition new_compiled_ontology :: "compiled_ontology \<Rightarrow> compiled_ontology result" where
  "new_compiled_ontology co = rmap (\<lambda>_. co) (compiled_ontology_check co)"

definition decode_ontology_sections :: "(nat, decoded_section) dict \<Rightarrow> compiled_ontology result" where
  "decode_ontology_sections sections = (let s = (\<lambda>t. the_section sections (ontology_section_int t)) in
     rbind (s ENTITY_KINDS) (\<lambda>kinds. rbind (s ENTITY_IRI_OFFSETS) (\<lambda>iri_offsets. rbind (s ENTITY_IRI_BYTES) (\<lambda>iri_bytes.
     rbind (decode_entity_records kinds iri_offsets iri_bytes) (\<lambda>es.
     rbind (s EXPRESSION_TAGS) (\<lambda>tags. rbind (s EXPRESSION_ARGUMENT_OFFSETS) (\<lambda>argument_offsets.
     rbind (s EXPRESSION_ARGUMENTS) (\<lambda>args. rbind (s EXPRESSION_PAYLOAD_OFFSETS) (\<lambda>payload_offsets.
     rbind (s EXPRESSION_PAYLOAD_BYTES) (\<lambda>payload_bytes.
     rbind (decode_expression_records tags argument_offsets args payload_offsets payload_bytes) (\<lambda>exprs.
     rbind (s SOURCE_FINGERPRINT) (\<lambda>fingerprint_section.
     if ds_count fingerprint_section \<noteq> 1 then Inl BackendProtocolError
     else as_protocol (
       rbind (rbind (s EXPRESSION_OCCURRENCES) decode_occurrences) (\<lambda>expression_occs.
       rbind (rbind (s PROPERTY_OCCURRENCES) decode_occurrences) (\<lambda>property_occs.
       rbind (s PROPERTY_CHAIN_OFFSETS) (\<lambda>chain_offsets. rbind (s PROPERTY_CHAIN_VALUES) (\<lambda>chain_values.
       rbind (decode_csr chain_offsets chain_values) (\<lambda>chains.
       rbind (rbind (s SUBCLASS_AXIOMS) unpack_pairs) (\<lambda>subclass.
       rbind (rbind (s EQUIVALENT_CLASS_AXIOMS) unpack_pairs) (\<lambda>equivalent.
       rbind (s DISJOINT_GROUP_OFFSETS) (\<lambda>disjoint_offsets. rbind (s DISJOINT_GROUP_VALUES) (\<lambda>disjoint_values.
       rbind (decode_csr disjoint_offsets disjoint_values) (\<lambda>groups.
       rbind (rbind (s SUBPROPERTY_AXIOMS) unpack_pairs) (\<lambda>subproperty.
       rbind (rbind (s PROPERTY_RANGES) unpack_pairs) (\<lambda>rngs.
       rbind (rbind (s FEATURE_COUNTS) (\<lambda>sec. unpack_fixed sec 8)) (\<lambda>counts.
       new_compiled_ontology \<lparr>entities = es, expressions = exprs, expression_occurrences = expression_occs,
         property_occurrences = property_occs, property_chains = chains, subclass_axioms = subclass,
         equivalent_class_axioms = equivalent, disjoint_groups = groups, subproperty_axioms = subproperty,
         property_ranges = rngs, feature_counts = counts, source_fingerprint = ds_payload fingerprint_section\<rparr>
       ))))))))))))))))))))))))))"

definition ontology_tags :: "nat set" where
  "ontology_tags = set (map ontology_section_int
     [ENTITY_KINDS, ENTITY_IRI_OFFSETS, ENTITY_IRI_BYTES, EXPRESSION_TAGS, EXPRESSION_ARGUMENT_OFFSETS,
      EXPRESSION_ARGUMENTS, EXPRESSION_PAYLOAD_OFFSETS, EXPRESSION_PAYLOAD_BYTES, EXPRESSION_OCCURRENCES,
      PROPERTY_OCCURRENCES, PROPERTY_CHAIN_OFFSETS, PROPERTY_CHAIN_VALUES, SUBCLASS_AXIOMS, EQUIVALENT_CLASS_AXIOMS,
      DISJOINT_GROUP_OFFSETS, DISJOINT_GROUP_VALUES, SUBPROPERTY_AXIOMS, PROPERTY_RANGES, FEATURE_COUNTS,
      SOURCE_FINGERPRINT])"

definition decode_ontology :: "bytes \<Rightarrow> compiled_ontology result" where
  "decode_ontology data = rbind (decode_container data IR_MAGIC ontology_tags None) decode_ontology_sections"

section \<open>Queries\<close>

definition query_sections :: "query_ir \<Rightarrow> encoded_section list result" where
  "query_sections q = (let es = map entity (qi_entities q);
       ontology_ids = map (\<lambda>r. case ontology_id r of None \<Rightarrow> U32_RESERVED | Some i \<Rightarrow> i) (qi_entities q);
       root = (case qi_root_expression q of None \<Rightarrow> U32_RESERVED | Some r \<Rightarrow> r);
       tg = query_section_int in
     rbind (rmap_list (\<lambda>r. utf8_encode (iri r)) es) (\<lambda>iris.
     rbind (encode_byte_csr iris) (\<lambda>(iri_offsets, iri_bytes).
     rbind (encode_csr (map arguments (qi_expressions q))) (\<lambda>(argument_offsets, args, argument_count).
     rbind (encode_byte_csr (map payload (qi_expressions q))) (\<lambda>(payload_offsets, payload_bytes).
     rmap_list (\<lambda>s. s)
       [section_of (tg QUERY_KIND) 1 (pack [1] [query_ir_kind_int (qi_kind q)]),
        section_of (tg QUERY_ENTITY_KINDS) (length es) (pack_values 1 (map (entity_kind_int \<circ> kind) es)),
        section_of (tg QUERY_ENTITY_IRI_OFFSETS) (length es) (Inr iri_offsets),
        section_of (tg QUERY_ENTITY_IRI_BYTES) (length iri_bytes) (Inr iri_bytes),
        section_of (tg QUERY_ENTITY_ONTOLOGY_IDS) (length ontology_ids) (pack_values 4 ontology_ids),
        section_of (tg QUERY_EXPRESSION_TAGS) (length (qi_expressions q))
          (pack_values 1 (map (expression_tag_int \<circ> tag) (qi_expressions q))),
        section_of (tg QUERY_EXPRESSION_ARGUMENT_OFFSETS) (length (qi_expressions q)) (Inr argument_offsets),
        section_of (tg QUERY_EXPRESSION_ARGUMENTS) argument_count (Inr args),
        section_of (tg QUERY_EXPRESSION_PAYLOAD_OFFSETS) (length (qi_expressions q)) (Inr payload_offsets),
        section_of (tg QUERY_EXPRESSION_PAYLOAD_BYTES) (length payload_bytes) (Inr payload_bytes),
        section_of (tg QUERY_EXPRESSION_OCCURRENCES) (length (qi_expression_occurrences q))
          (encode_occurrences (qi_expression_occurrences q)),
        section_of (tg QUERY_PROPERTY_OCCURRENCES) (length (qi_property_occurrences q))
          (encode_occurrences (qi_property_occurrences q)),
        section_of (tg QUERY_ROOT_EXPRESSION) 1 (pack [4] [root]),
        section_of (tg QUERY_SUBSUMPTION_OBLIGATIONS) (length (qi_subsumption_obligations q))
          (pack_pairs (qi_subsumption_obligations q))])))))"

definition encode_query_ir :: "query_ir \<Rightarrow> bytes result" where
  "encode_query_ir q = rbind (query_sections q) (encode_container QUERY_MAGIC)"

definition new_query_ir :: "query_ir \<Rightarrow> query_ir result" where
  "new_query_ir q = rmap (\<lambda>_. q) (query_ir_check q)"

definition new_query_entity :: "entity_record \<Rightarrow> nat \<Rightarrow> query_entity_record result" where
  "new_query_entity r i = (let q = \<lparr>entity = r, ontology_id = (if i = U32_RESERVED then None else Some i)\<rparr> in
     rmap (\<lambda>_. q) (query_entity_record_check q))"

definition decode_query_sections :: "(nat, decoded_section) dict \<Rightarrow> query_ir result" where
  "decode_query_sections sections = (let s = (\<lambda>t. the_section sections (query_section_int t)) in
     rbind (rbind (s QUERY_KIND) (\<lambda>sec. unpack_fixed sec 1)) (\<lambda>kind_values.
     if length kind_values \<noteq> 1 then Inl BackendProtocolError
     else rbind (as_protocol (query_ir_kind_of (kind_values ! 0))) (\<lambda>k.
     rbind (s QUERY_ENTITY_KINDS) (\<lambda>kinds. rbind (s QUERY_ENTITY_IRI_OFFSETS) (\<lambda>iri_offsets.
     rbind (s QUERY_ENTITY_IRI_BYTES) (\<lambda>iri_bytes.
     rbind (decode_entity_records kinds iri_offsets iri_bytes) (\<lambda>es.
     rbind (rbind (s QUERY_ENTITY_ONTOLOGY_IDS) (\<lambda>sec. unpack_fixed sec 4)) (\<lambda>ontology_ids.
     if length es \<noteq> length ontology_ids then Inl BackendProtocolError
     else rbind (rmap_list (\<lambda>(r, i). new_query_entity r i) (zip es ontology_ids)) (\<lambda>query_entities.
     rbind (s QUERY_EXPRESSION_TAGS) (\<lambda>tags. rbind (s QUERY_EXPRESSION_ARGUMENT_OFFSETS) (\<lambda>argument_offsets.
     rbind (s QUERY_EXPRESSION_ARGUMENTS) (\<lambda>args. rbind (s QUERY_EXPRESSION_PAYLOAD_OFFSETS) (\<lambda>payload_offsets.
     rbind (s QUERY_EXPRESSION_PAYLOAD_BYTES) (\<lambda>payload_bytes.
     rbind (decode_expression_records tags argument_offsets args payload_offsets payload_bytes) (\<lambda>exprs.
     rbind (rbind (s QUERY_ROOT_EXPRESSION) (\<lambda>sec. unpack_fixed sec 4)) (\<lambda>root_values.
     if length root_values \<noteq> 1 then Inl BackendProtocolError
     else let root = (if root_values ! 0 = U32_RESERVED then None else Some (root_values ! 0)) in
     as_protocol (
       rbind (rbind (s QUERY_EXPRESSION_OCCURRENCES) decode_occurrences) (\<lambda>expression_occs.
       rbind (rbind (s QUERY_PROPERTY_OCCURRENCES) decode_occurrences) (\<lambda>property_occs.
       rbind (rbind (s QUERY_SUBSUMPTION_OBLIGATIONS) unpack_pairs) (\<lambda>obligations.
       new_query_ir \<lparr>qi_kind = k, qi_entities = query_entities, qi_expressions = exprs,
         qi_expression_occurrences = expression_occs, qi_property_occurrences = property_occs,
         qi_root_expression = root, qi_subsumption_obligations = obligations\<rparr>))))))))))))))))))))"

definition query_tags :: "nat set" where
  "query_tags = set (map query_section_int
     [QUERY_KIND, QUERY_ENTITY_KINDS, QUERY_ENTITY_IRI_OFFSETS, QUERY_ENTITY_IRI_BYTES, QUERY_ENTITY_ONTOLOGY_IDS,
      QUERY_EXPRESSION_TAGS, QUERY_EXPRESSION_ARGUMENT_OFFSETS, QUERY_EXPRESSION_ARGUMENTS,
      QUERY_EXPRESSION_PAYLOAD_OFFSETS, QUERY_EXPRESSION_PAYLOAD_BYTES, QUERY_EXPRESSION_OCCURRENCES,
      QUERY_PROPERTY_OCCURRENCES, QUERY_ROOT_EXPRESSION, QUERY_SUBSUMPTION_OBLIGATIONS])"

definition decode_query_ir :: "bytes \<Rightarrow> query_ir result" where
  "decode_query_ir data = rbind (decode_container data QUERY_MAGIC query_tags None) decode_query_sections"

section \<open>Compiled queries\<close>

record compiled_query =
  cq_encoded :: "bytes option"
  cq_feature_counts :: "nat list"
  cq_fresh_entities :: "entity_record list"

definition compiled_query_check :: "compiled_query \<Rightarrow> unit result" where
  "compiled_query_check c = checks
     [rall entity_record_check (cq_fresh_entities c),
      validate_feature_counts (cq_feature_counts c),
      validate_entities False (cq_fresh_entities c),
      (case cq_encoded c of
         None \<Rightarrow> Inr ()
       | Some data \<Rightarrow> rbind (decode_query_ir data) (\<lambda>q.
           rassert (map entity (filter (\<lambda>r. ontology_id r = None) (qi_entities q)) = cq_fresh_entities c) ValueError))]"

end
