(* ===== verification/Codec_Layout.thy ===== *)
theory Codec_Layout
  imports Codec_Tables
begin

text \<open>What the decoder reads at the offsets where the encoder wrote.\<close>

section \<open>Fields\<close>

lemma pack_int_Inr: "pack_int w v = Inr bs \<Longrightarrow> length bs = w \<and> le_value bs = v"
  by (auto simp: pack_int_def le_value_bytes split: if_splits)

lemma unpack_pack: "pack ws vs = Inr bs \<Longrightarrow> length bs = sum_list ws \<and> unpack ws (bs @ rest) = vs"
proof (induction ws vs arbitrary: bs rule: pack.induct)
  case (2 w ws v vs)
  then obtain a b where "pack_int w v = Inr a" "pack ws vs = Inr b" "bs = a @ b" by (auto simp: rappend_def)
  with "2.IH" [OF \<open>pack ws vs = Inr b\<close>] pack_int_Inr [of w v a] show ?case by auto
qed simp_all

lemma unpack_from_append:
  "unpack_from ws bs n = Inr vs \<Longrightarrow> unpack_from ws (pre @ bs @ rest) (length pre + n) = Inr vs"
proof -
  have "unpack ws (bs @ rest) = unpack ws bs" if "sum_list ws \<le> length bs" for bs
    using that by (induction ws arbitrary: bs) auto
  then show "unpack_from ws bs n = Inr vs \<Longrightarrow> unpack_from ws (pre @ bs @ rest) (length pre + n) = Inr vs"
    by (auto simp: unpack_from_def split: if_splits)
qed

lemma unpack_from_pack: "pack ws vs = Inr bs \<Longrightarrow> unpack_from ws (bs @ rest) 0 = Inr vs"
  using unpack_pack [of ws vs bs rest] by (simp add: unpack_from_def)

text \<open>A table of records of one format.\<close>

lemma unpack_rows:
  assumes "rconcat_map (\<lambda>x. pack ws (h x)) xs = Inr bs"
  shows "length bs = length xs * sum_list ws"
    and "i < length xs \<Longrightarrow> unpack_from ws bs (i * sum_list ws) = Inr (h (xs ! i))"
proof -
  have "length bs = length xs * sum_list ws \<and>
      (\<forall>i < length xs. unpack_from ws bs (i * sum_list ws) = Inr (h (xs ! i)))"
    using assms
  proof (induction xs arbitrary: bs)
    case (Cons x xs)
    then obtain a b where ab: "pack ws (h x) = Inr a" "rconcat_map (\<lambda>x. pack ws (h x)) xs = Inr b" "bs = a @ b"
      by (auto simp: rappend_def)
    note IH = Cons.IH [OF ab(2)]
    have a: "length a = sum_list ws" using unpack_pack [OF ab(1)] by simp
    have "unpack_from ws bs (i * sum_list ws) = Inr (h ((x # xs) ! i))" if "i < length (x # xs)" for i
    proof (cases i)
      case 0
      with unpack_from_pack [OF ab(1), of b] ab(3) show ?thesis by simp
    next
      case (Suc j)
      with IH that have "unpack_from ws b (j * sum_list ws) = Inr (h (xs ! j))" by simp
      from unpack_from_append [OF this, of a "[]"] Suc a ab(3) show ?thesis by simp
    qed
    with IH ab(3) a show ?case by simp
  qed simp
  then show "length bs = length xs * sum_list ws"
    "i < length xs \<Longrightarrow> unpack_from ws bs (i * sum_list ws) = Inr (h (xs ! i))" by blast+
qed

lemma rmap_list_upt: "(\<And>i. i < length xs \<Longrightarrow> f i = Inr (xs ! i)) \<Longrightarrow> rmap_list f [0..<length xs] = Inr xs"
  using rmap_list_Inr [of "[0..<length xs]" f "\<lambda>i. xs ! i"] by (simp add: map_nth)

lemma unpack_fixed_pack:
  assumes "pack_values w xs = Inr bs"
  shows "unpack_fixed \<lparr>ds_count = length xs, ds_payload = bs\<rparr> w = Inr xs"
proof -
  note r = unpack_rows [OF assms [unfolded pack_values_def], simplified]
  show ?thesis using r by (auto simp: unpack_fixed_def intro!: rmap_list_upt)
qed

lemma unpack_pairs_pack:
  assumes "pack_pairs xs = Inr bs"
  shows "unpack_pairs \<lparr>ds_count = length xs, ds_payload = bs\<rparr> = Inr xs"
proof -
  have "rconcat_map (\<lambda>x. pack [4, 4] [fst x, snd x]) xs = Inr bs"
    using assms by (simp add: pack_pairs_def split_def)
  note r = unpack_rows [OF this, simplified]
  show ?thesis using r by (auto simp: unpack_pairs_def intro!: rmap_list_upt)
qed

lemma decode_occurrences_pack:
  assumes "encode_occurrences xs = Inr bs" and "rall occurrence_check xs = Inr ()"
  shows "decode_occurrences \<lparr>ds_count = length xs, ds_payload = bs\<rparr> = Inr xs"
proof -
  note r = unpack_rows [OF assms(1) [unfolded encode_occurrences_def], simplified]
  have "new_occurrence (negative (xs ! i)) (positive (xs ! i)) = Inr (xs ! i)" if "i < length xs" for i
    using assms(2) that by (cases "xs ! i") (auto simp: new_occurrence_def rall_Inr_iff Let_def dest: nth_mem)
  with r show ?thesis by (auto simp: decode_occurrences_def intro!: rmap_list_upt)
qed

section \<open>Rows of varying length\<close>

lemma running_offsets_length [simp]: "length (running_offsets n rows) = Suc (length rows)"
  by (induction rows arbitrary: n) simp_all

lemma running_offsets_nth:
  "i \<le> length rows \<Longrightarrow> running_offsets n rows ! i = n + length (concat (take i rows))"
proof (induction rows arbitrary: n i)
  case (Cons row rows)
  then show ?case by (cases i) simp_all
qed simp

lemma running_offsets_last: "last (running_offsets n rows) = n + length (concat rows)"
proof -
  have "running_offsets n rows \<noteq> []" by (cases rows) simp_all
  then show ?thesis by (simp add: last_conv_nth running_offsets_nth)
qed

lemma running_offsets_step:
  assumes "i < length rows"
  shows "running_offsets n rows ! Suc i = running_offsets n rows ! i + length (rows ! i)"
  using assms by (simp add: running_offsets_nth take_Suc_conv_app_nth)

lemma slice_concat:
  assumes "i < length rows"
  shows "slice (concat rows @ rest) (running_offsets 0 rows ! i) (running_offsets 0 rows ! Suc i) = rows ! i"
proof -
  have "concat rows @ rest = concat (take i rows) @ rows ! i @ concat (drop (Suc i) rows) @ rest"
    using assms by (metis append.assoc concat.simps(2) concat_append id_take_nth_drop)
  moreover have "running_offsets 0 rows ! i = length (concat (take i rows))"
    using assms by (simp only: running_offsets_nth less_imp_le add_0)
  ultimately show ?thesis by (simp add: slice_def running_offsets_step [OF assms])
qed

lemma unpack_offsets_pack:
  assumes "pack_values 8 (running_offsets 0 rows) = Inr bs"
  shows "unpack_offsets \<lparr>ds_count = length rows, ds_payload = bs\<rparr> = Inr (running_offsets 0 rows)"
proof -
  let ?o = "running_offsets 0 rows"
  note r = unpack_rows [OF assms [unfolded pack_values_def], simplified]
  have "rmap_list (\<lambda>i. rmap hd (unpack_from [8] bs (i * 8))) [0..<Suc (length rows)] = Inr ?o"
    using rmap_list_upt [of ?o "\<lambda>i. rmap hd (unpack_from [8] bs (i * 8))"] r(2) by simp
  moreover have "?o ! 0 = 0" by (simp add: running_offsets_nth)
  moreover have "?o ! (i - 1) \<le> ?o ! i" if "i \<in> set [1..<Suc (length rows)]" for i
  proof -
    have "1 \<le> i" "i < Suc (length rows)" using that by (simp_all only: set_upt atLeastLessThan_iff)
    then obtain j where "i = Suc j" "j < length rows" by (cases i) auto
    then show ?thesis by (simp add: running_offsets_step)
  qed
  moreover have "?o \<noteq> []" by (cases rows) simp_all
  ultimately show ?thesis using r(1) by (simp add: unpack_offsets_def rall_Inr_iff del: upt_Suc)
qed

lemma decode_csr_encode:
  assumes "encode_csr rows = Inr (offsets, values, k)"
  shows "decode_csr \<lparr>ds_count = length rows, ds_payload = offsets\<rparr> \<lparr>ds_count = k, ds_payload = values\<rparr> = Inr rows"
proof -
  have p: "pack_values 8 (running_offsets 0 rows) = Inr offsets" "pack_values 4 (concat rows) = Inr values"
    "k = length (concat rows)"
    using assms by (auto simp: encode_csr_def)
  have "map (\<lambda>i. slice (concat rows) (running_offsets 0 rows ! i) (running_offsets 0 rows ! (i + 1))) [0..<length rows] = rows"
    using slice_concat [of _ rows "[]"] by (intro nth_equalityI) simp_all
  with unpack_offsets_pack [OF p(1)] unpack_fixed_pack [OF p(2)] p(3) show ?thesis
    by (simp add: decode_csr_def running_offsets_last)
qed

lemma decode_byte_csr_encode:
  assumes "encode_byte_csr rows = Inr (offsets, bs)"
  shows "decode_byte_csr \<lparr>ds_count = length rows, ds_payload = offsets\<rparr> \<lparr>ds_count = length bs, ds_payload = bs\<rparr> = Inr rows"
proof -
  have p: "pack_values 8 (running_offsets 0 rows) = Inr offsets" "bs = concat rows"
    using assms by (auto simp: encode_byte_csr_def)
  have "map (\<lambda>i. slice (concat rows) (running_offsets 0 rows ! i) (running_offsets 0 rows ! (i + 1))) [0..<length rows] = rows"
    using slice_concat [of _ rows "[]"] by (intro nth_equalityI) simp_all
  with unpack_offsets_pack [OF p(1)] p(2) show ?thesis
    by (simp add: decode_byte_csr_def running_offsets_last)
qed

section \<open>The container\<close>

definition entry_fields :: "encoded_section \<times> nat \<Rightarrow> nat list" where
  "entry_fields x = (case x of (s, offset) \<Rightarrow> [es_tag s, offset, length (es_payload s), es_count s])"

lemma directory_rows:
  "directory_from n ss = rconcat_map (\<lambda>x. pack DIRECTORY_ENTRY (entry_fields x)) (zip ss (running_offsets n (map es_payload ss)))"
  by (induction ss arbitrary: n) (simp_all add: entry_fields_def)

text \<open>\<open>laid_out raw n ss\<close>: the directory of \<open>ss\<close> is in \<open>raw\<close> and the payloads are where it says.\<close>

definition laid_out :: "bytes \<Rightarrow> nat \<Rightarrow> encoded_section list \<Rightarrow> bool" where
  "laid_out raw n ss \<longleftrightarrow> (\<forall>i < length ss.
     unpack_from DIRECTORY_ENTRY raw (HEADER_SIZE + i * ENTRY_SIZE) =
       Inr (entry_fields (ss ! i, running_offsets n (map es_payload ss) ! i)) \<and>
     slice raw (running_offsets n (map es_payload ss) ! i) (running_offsets n (map es_payload ss) ! Suc i) = es_payload (ss ! i))"

definition table_of :: "nat set \<Rightarrow> encoded_section list \<Rightarrow> (nat, decoded_section) dict" where
  "table_of known ss = map (\<lambda>s. (es_tag s, \<lparr>ds_count = es_count s, ds_payload = es_payload s\<rparr>)) (filter (\<lambda>s. es_tag s \<in> known) ss)"

lemma table_of_keys: "dict_keys (table_of known ss) = {t \<in> known. t \<in> es_tag ` set ss}"
  by (auto simp: table_of_def dict_keys_def image_iff)

lemma table_of_snoc: "table_of known (ss @ [s]) = table_of known ss @
    (if es_tag s \<in> known then [(es_tag s, \<lparr>ds_count = es_count s, ds_payload = es_payload s\<rparr>)] else [])"
  by (simp add: table_of_def)

lemma decode_entries_laid_out:
  assumes laid: "laid_out raw n ss" and tags: "strictly_sorted (map es_tag ss)"
    and total: "n + length (concat (map es_payload ss)) = stop"
    and known: "\<forall>s \<in> set ss. es_tag s \<in> known \<or> OPTIONAL_TAG_START \<le> es_tag s"
  shows "k \<le> length ss \<Longrightarrow> (\<forall>s \<in> set (drop k ss). previous < int (es_tag s)) \<Longrightarrow>
    decode_entries raw stop known [k..<length ss] previous (running_offsets n (map es_payload ss) ! k) (table_of known (take k ss)) =
      Inr (table_of known ss, stop)"
proof (induction "length ss - k" arbitrary: k previous)
  case 0
  then have k: "k = length ss" by simp
  have "running_offsets n (map es_payload ss) ! length ss = stop"
    using total running_offsets_nth [of "length ss" "map es_payload ss" n] by simp
  with k show ?case by simp
next
  case (Suc m)
  then have k: "k < length ss" by simp
  let ?o = "running_offsets n (map es_payload ss)"
  let ?s = "ss ! k"
  have upt: "[k..<length ss] = k # [Suc k..<length ss]" using k by (rule upt_conv_Cons)
  have drop: "drop k ss = ?s # drop (Suc k) ss" using k by (simp add: Cons_nth_drop_Suc)
  have entry: "unpack_from DIRECTORY_ENTRY raw (HEADER_SIZE + k * ENTRY_SIZE) =
      Inr [es_tag ?s, ?o ! k, length (es_payload ?s), es_count ?s]"
    and slice: "slice raw (?o ! k) (?o ! Suc k) = es_payload ?s"
    using laid k by (simp_all add: laid_out_def entry_fields_def)
  have step: "?o ! Suc k = ?o ! k + length (es_payload ?s)" using k running_offsets_step [of k "map es_payload ss" n] by simp
  have "?o ! Suc k \<le> stop"
  proof -
    have "concat (map es_payload ss) = concat (take (Suc k) (map es_payload ss)) @ concat (drop (Suc k) (map es_payload ss))"
      by (simp only: concat_append [symmetric] append_take_drop_id)
    then have "length (concat (take (Suc k) (map es_payload ss))) \<le> length (concat (map es_payload ss))" by simp
    with total k running_offsets_nth [of "Suc k" "map es_payload ss" n] show ?thesis by simp
  qed
  then have bound: "?o ! k + length (es_payload ?s) \<le> stop" by (simp add: step)
  have prev: "previous < int (es_tag ?s)" using Suc.prems(2) by (simp add: drop)
  have next_tags: "\<forall>s \<in> set (drop (Suc k) ss). int (es_tag ?s) < int (es_tag s)"
  proof -
    have "sorted_wrt (<) (map es_tag (drop k ss))" using tags by (simp add: strictly_sorted_wrt drop_map [symmetric] sorted_wrt_drop)
    then show ?thesis by (simp add: drop)
  qed
  have optional: "es_tag ?s \<in> known \<or> OPTIONAL_TAG_START \<le> es_tag ?s" using known k by simp
  have fresh: "es_tag ?s \<notin> dict_keys (table_of known (take k ss))"
  proof
    assume "es_tag ?s \<in> dict_keys (table_of known (take k ss))"
    then obtain i where i: "i < k" "es_tag (ss ! i) = es_tag ?s"
      using k by (auto simp: table_of_keys in_set_conv_nth)
    have "distinct (map es_tag ss)" using tags by (rule strictly_sorted_distinct)
    then have "map es_tag ss ! i \<noteq> map es_tag ss ! k" using i k by (simp only: nth_eq_iff_index_eq length_map)
    with i k show False by simp
  qed
  have put: "es_tag ?s \<in> known \<Longrightarrow> dict_put (es_tag ?s) \<lparr>ds_count = es_count ?s, ds_payload = es_payload ?s\<rparr>
      (table_of known (take k ss)) = table_of known (take (Suc k) ss)"
    "es_tag ?s \<notin> known \<Longrightarrow> table_of known (take k ss) = table_of known (take (Suc k) ss)"
    using fresh k by (simp_all add: take_Suc_conv_app_nth table_of_snoc dict_put_fresh dict_keys_def)
  have room: "int (length (es_payload ?s)) \<le> int stop - int (?o ! k)" using bound by linarith
  have "decode_entries raw stop known [Suc k..<length ss] (int (es_tag ?s)) (?o ! Suc k) (table_of known (take (Suc k) ss)) =
      Inr (table_of known ss, stop)"
    by (rule Suc.hyps(1)) (use Suc.hyps(2) k next_tags in auto)
  with entry slice bound room prev optional put show ?case unfolding upt step [symmetric]
    by (simp add: step [symmetric] del: upt_Suc)
qed

lemma encode_container_parts:
  assumes "encode_container magic ss = Inr data"
  obtains ordered header directory where "ordered = sort_key es_tag ss" and "distinct (map es_tag ordered)"
    and "length ordered \<le> MAX_SECTIONS" and "pack HEADER_FIELDS [SCHEMA_MAJOR, SCHEMA_MINOR, length ordered] = Inr header"
    and "directory_from (HEADER_SIZE + length ordered * ENTRY_SIZE) ordered = Inr directory"
    and "data = magic @ header @ directory @ concat (map es_payload ordered) @ blake2b CHECKSUM_SIZE (concat (map es_payload ordered))"
  using assms by (auto simp: encode_container_def Let_def split: if_splits)

lemma sizes: "MAGIC_SIZE = 8" "HEADER_SIZE = 16" "sum_list HEADER_FIELDS = 8" "ENTRY_SIZE = 26" "sum_list DIRECTORY_ENTRY = 26"
  by (simp_all add: MAGIC_SIZE_def HEADER_SIZE_def HEADER_FIELDS_def ENTRY_SIZE_def DIRECTORY_ENTRY_def)

lemma slice_shift: "slice (pre @ xs) (length pre + a) (length pre + b) = slice xs a b"
  by (simp add: slice_def)

lemma running_offsets_shift: "running_offsets (m + n) rows = map ((+) m) (running_offsets n rows)"
  by (induction rows arbitrary: n) (simp_all add: add.assoc)

lemma container_laid_out:
  assumes directory: "directory_from n ss = Inr directory" and pre: "length pre = HEADER_SIZE"
    and n: "n = HEADER_SIZE + length ss * ENTRY_SIZE"
  shows "laid_out (pre @ directory @ concat (map es_payload ss) @ rest) n ss" and "length directory = length ss * ENTRY_SIZE"
proof -
  note r = unpack_rows [OF directory [unfolded directory_rows], folded ENTRY_SIZE_def]
  show len: "length directory = length ss * ENTRY_SIZE" using r(1) by simp
  let ?raw = "pre @ directory @ concat (map es_payload ss) @ rest"
  have "unpack_from DIRECTORY_ENTRY ?raw (HEADER_SIZE + i * ENTRY_SIZE) =
      Inr (entry_fields (ss ! i, running_offsets n (map es_payload ss) ! i))" if "i < length ss" for i
    using unpack_from_append [OF r(2) [of i], of pre "concat (map es_payload ss) @ rest"] that pre by simp
  moreover have "slice ?raw (running_offsets n (map es_payload ss) ! i) (running_offsets n (map es_payload ss) ! Suc i) = es_payload (ss ! i)"
    if "i < length ss" for i
  proof -
    have "n = length (pre @ directory)" using n pre len by simp
    then have shift: "running_offsets n (map es_payload ss) ! j = length (pre @ directory) + running_offsets 0 (map es_payload ss) ! j"
      if "j \<le> length ss" for j
      using running_offsets_shift [of n 0 "map es_payload ss"] that by simp
    have "slice ((pre @ directory) @ concat (map es_payload ss) @ rest)
        (running_offsets n (map es_payload ss) ! i) (running_offsets n (map es_payload ss) ! Suc i) = es_payload (ss ! i)"
      unfolding shift [OF less_imp_le [OF that]] shift [OF Suc_leI [OF that]] slice_shift
      using slice_concat [of i "map es_payload ss" rest] that by simp
    then show ?thesis by simp
  qed
  ultimately show "laid_out ?raw n ss" by (simp add: laid_out_def)
qed

lemma decode_container_encode:
  assumes enc: "encode_container magic ss = Inr data" and magic: "length magic = MAGIC_SIZE"
    and known: "\<forall>s \<in> set ss. es_tag s \<in> required \<or> OPTIONAL_TAG_START \<le> es_tag s" and all: "required \<subseteq> es_tag ` set ss"
  shows "decode_container data magic required None = Inr (table_of required (sort_key es_tag ss))"
proof -
  obtain ordered header directory where o: "ordered = sort_key es_tag ss" "distinct (map es_tag ordered)"
    "length ordered \<le> MAX_SECTIONS" "pack HEADER_FIELDS [SCHEMA_MAJOR, SCHEMA_MINOR, length ordered] = Inr header"
    "directory_from (HEADER_SIZE + length ordered * ENTRY_SIZE) ordered = Inr directory"
    "data = magic @ header @ directory @ concat (map es_payload ordered) @ blake2b CHECKSUM_SIZE (concat (map es_payload ordered))"
    by (rule encode_container_parts [OF enc])
  let ?payloads = "concat (map es_payload ordered)" and ?sum = "blake2b CHECKSUM_SIZE (concat (map es_payload ordered))"
  let ?start = "HEADER_SIZE + length ordered * ENTRY_SIZE"
  have header: "length header = 8" using unpack_pack [OF o(4)] by (simp add: sizes)
  have pre: "length (magic @ header) = HEADER_SIZE" using magic header by (simp add: sizes)
  note l = container_laid_out(1) [OF o(5) pre refl, of ?sum] container_laid_out(2) [OF o(5) pre refl]
  have sum: "length ?sum = CHECKSUM_SIZE" by (rule length_blake2b) (simp add: CHECKSUM_SIZE_def)
  have data: "data = (magic @ header) @ directory @ ?payloads @ ?sum" using o(6) by simp
  have len: "length data = ?start + length ?payloads + CHECKSUM_SIZE" using magic header l(2) sum by (simp add: data sizes)
  have fields: "unpack_from HEADER_FIELDS data MAGIC_SIZE = Inr [SCHEMA_MAJOR, SCHEMA_MINOR, length ordered]"
    using unpack_from_append [OF unpack_from_pack [OF o(4), of "[]"], of magic "directory @ ?payloads @ ?sum"] magic
    by (simp add: data)
  have "strictly_sorted (map es_tag ordered)"
    using o(2) by (simp add: strictly_sorted_wrt strict_sorted_iff o(1))
  moreover have "\<forall>s \<in> set ordered. es_tag s \<in> required \<or> OPTIONAL_TAG_START \<le> es_tag s" using known by (simp add: o(1))
  ultimately have "decode_entries data (?start + length ?payloads) required [0..<length ordered] (- 1)
      (running_offsets ?start (map es_payload ordered) ! 0) (table_of required (take 0 ordered)) =
      Inr (table_of required ordered, ?start + length ?payloads)"
    using l(1) by (intro decode_entries_laid_out) (simp_all add: data)
  then have entries: "decode_entries data (?start + length ?payloads) required [0..<length ordered] (- 1) ?start [] =
      Inr (table_of required ordered, ?start + length ?payloads)"
    by (simp add: running_offsets_nth table_of_def)
  have keys: "required \<subseteq> dict_keys (table_of required ordered)" using all by (auto simp: table_of_keys o(1))
  have stop: "length data - CHECKSUM_SIZE = ?start + length ?payloads" using len by simp
  have "slice data ?start (?start + length ?payloads) = ?payloads"
  proof -
    have "data = (magic @ header @ directory) @ ?payloads @ ?sum" "length (magic @ header @ directory) = ?start"
      using data magic header l(2) by (simp_all add: sizes)
    then show ?thesis using slice_shift [of "magic @ header @ directory" "?payloads @ ?sum" 0 "length ?payloads"] by (simp add: slice_def)
  qed
  moreover have "drop (?start + length ?payloads) data = ?sum" using magic header l(2) by (simp add: data sizes)
  moreover have "take MAGIC_SIZE data = magic" using magic by (simp add: data)
  moreover have "\<not> length data < HEADER_SIZE + CHECKSUM_SIZE" using len by simp
  ultimately show ?thesis
    using fields entries keys o(3) unfolding decode_container_def o(1) [symmetric] stop
    by (simp add: stop Let_def)
qed

end
