(* ===== verification/Codec_Results.thy ===== *)
theory Codec_Results
  imports Codec_Layout
begin

text \<open>The encoding of a valid ontology or query decodes to what was encoded.\<close>

section \<open>Records\<close>

lemma record_eta [simp]:
  "\<lparr>kind = kind r, iri = iri r\<rparr> = r" "\<lparr>tag = tag x, arguments = arguments x, payload = payload x\<rparr> = x"
  "\<lparr>entity = entity q, ontology_id = ontology_id q\<rparr> = q"
  by (cases r; cases x; cases q; simp)+

lemma entity_kind_of_int [simp]: "entity_kind_of (entity_kind_int k) = Inr k"
  by (cases k) (simp_all add: entity_kind_of_def)

lemma expression_tag_of_int [simp]: "expression_tag_of (expression_tag_int t) = Inr t"
  by (cases t) (simp_all add: expression_tag_of_def)

lemma query_ir_kind_of_int [simp]: "query_ir_kind_of (query_ir_kind_int k) = Inr k"
  by (cases k) (simp_all add: query_ir_kind_of_def)

lemma as_protocol_Inr [simp]: "as_protocol (Inr a) = Inr a" "as_protocol m = Inr a \<longleftrightarrow> m = Inr a"
  by (simp_all add: as_protocol_def split: sum.splits)

lemma decode_entities_encode:
  assumes "rmap_list (\<lambda>r. utf8_encode (iri r)) es = Inr iris" and "rall entity_record_check es = Inr ()"
  shows "rmap_list (\<lambda>(k, i). decode_entity k i) (zip (map (entity_kind_int \<circ> kind) es) iris) = Inr es" and "length iris = length es"
proof -
  have "rmap_list (\<lambda>(k, i). decode_entity k i) (zip (map (entity_kind_int \<circ> kind) es) iris) = Inr es \<and> length iris = length es"
    using assms
  proof (induction es arbitrary: iris)
    case (Cons r es)
    then obtain b bs where b: "utf8_encode (iri r) = Inr b" "rmap_list (\<lambda>r. utf8_encode (iri r)) es = Inr bs" "iris = b # bs"
      by auto
    with Cons show ?case by (simp add: decode_entity_def utf8_decode_encode [OF b(1)] Let_def)
  qed simp
  then show "rmap_list (\<lambda>(k, i). decode_entity k i) (zip (map (entity_kind_int \<circ> kind) es) iris) = Inr es" "length iris = length es"
    by blast+
qed

lemma decode_entity_records_encode:
  assumes iris: "rmap_list (\<lambda>r. utf8_encode (iri r)) es = Inr iris" and es: "rall entity_record_check es = Inr ()"
    and kinds: "pack_values 1 (map (entity_kind_int \<circ> kind) es) = Inr ks" and csr: "encode_byte_csr iris = Inr (offsets, bs)"
  shows "decode_entity_records \<lparr>ds_count = length es, ds_payload = ks\<rparr> \<lparr>ds_count = length es, ds_payload = offsets\<rparr>
    \<lparr>ds_count = length bs, ds_payload = bs\<rparr> = Inr es"
  using unpack_fixed_pack [OF kinds] decode_byte_csr_encode [OF csr] decode_entities_encode [OF iris es]
  by (simp add: decode_entity_records_def)

lemma decode_expressions_encode:
  "rall expression_record_check es = Inr () \<Longrightarrow>
    rmap_list (\<lambda>(t, row, bs). decode_expression t row bs)
      (zip (map (expression_tag_int \<circ> tag) es) (zip (map arguments es) (map payload es))) = Inr es"
  by (induction es) (simp_all add: decode_expression_def Let_def)

lemma decode_expression_records_encode:
  assumes es: "rall expression_record_check es = Inr ()"
    and tags: "pack_values 1 (map (expression_tag_int \<circ> tag) es) = Inr ts"
    and csr: "encode_csr (map arguments es) = Inr (argument_offsets, args, k)"
    and byte_csr: "encode_byte_csr (map payload es) = Inr (payload_offsets, bs)"
  shows "decode_expression_records \<lparr>ds_count = length es, ds_payload = ts\<rparr>
    \<lparr>ds_count = length es, ds_payload = argument_offsets\<rparr> \<lparr>ds_count = k, ds_payload = args\<rparr>
    \<lparr>ds_count = length es, ds_payload = payload_offsets\<rparr> \<lparr>ds_count = length bs, ds_payload = bs\<rparr> = Inr es"
  using unpack_fixed_pack [OF tags] decode_csr_encode [OF csr] decode_byte_csr_encode [OF byte_csr] decode_expressions_encode [OF es]
  by (simp add: decode_expression_records_def)

section \<open>Sections\<close>

lemma the_section_table:
  assumes "distinct (map es_tag ss)" and "s \<in> set ss" and "es_tag s \<in> known"
  shows "the_section (table_of known ss) (es_tag s) = Inr \<lparr>ds_count = es_count s, ds_payload = es_payload s\<rparr>"
proof -
  have "distinct (map fst (table_of known ss))"
    using distinct_map_filter [OF assms(1)] by (simp add: table_of_def comp_def)
  moreover have "(es_tag s, \<lparr>ds_count = es_count s, ds_payload = es_payload s\<rparr>) \<in> set (table_of known ss)"
    using assms(2,3) by (auto simp: table_of_def)
  ultimately show ?thesis by (simp add: the_section_def)
qed

lemma section_of_Inr: "section_of t k m = Inr s \<longleftrightarrow> (\<exists>p. m = Inr p \<and> s = \<lparr>es_tag = t, es_count = k, es_payload = p\<rparr>)"
  by (auto simp: section_of_def)

lemma ontology_sections_parts:
  assumes "ontology_sections co = Inr ss"
  obtains iris iri_offsets iri_bytes argument_offsets args argument_count payload_offsets payload_bytes
    chain_offsets chain_values chain_count disjoint_offsets disjoint_values disjoint_count kinds tags eo po sub eq sp rg fc
  where "rmap_list (\<lambda>r. utf8_encode (iri r)) (entities co) = Inr iris"
    and "encode_byte_csr iris = Inr (iri_offsets, iri_bytes)"
    and "encode_csr (map arguments (expressions co)) = Inr (argument_offsets, args, argument_count)"
    and "encode_byte_csr (map payload (expressions co)) = Inr (payload_offsets, payload_bytes)"
    and "encode_csr (property_chains co) = Inr (chain_offsets, chain_values, chain_count)"
    and "encode_csr (disjoint_groups co) = Inr (disjoint_offsets, disjoint_values, disjoint_count)"
    and "pack_values 1 (map (entity_kind_int \<circ> kind) (entities co)) = Inr kinds"
    and "pack_values 1 (map (expression_tag_int \<circ> tag) (expressions co)) = Inr tags"
    and "encode_occurrences (expression_occurrences co) = Inr eo" and "encode_occurrences (property_occurrences co) = Inr po"
    and "pack_pairs (subclass_axioms co) = Inr sub" and "pack_pairs (equivalent_class_axioms co) = Inr eq"
    and "pack_pairs (subproperty_axioms co) = Inr sp" and "pack_pairs (property_ranges co) = Inr rg"
    and "pack_values 8 (feature_counts co) = Inr fc"
    and "ss = [\<lparr>es_tag = 1, es_count = length (entities co), es_payload = kinds\<rparr>,
      \<lparr>es_tag = 2, es_count = length (entities co), es_payload = iri_offsets\<rparr>,
      \<lparr>es_tag = 3, es_count = length iri_bytes, es_payload = iri_bytes\<rparr>,
      \<lparr>es_tag = 4, es_count = length (expressions co), es_payload = tags\<rparr>,
      \<lparr>es_tag = 5, es_count = length (expressions co), es_payload = argument_offsets\<rparr>,
      \<lparr>es_tag = 6, es_count = argument_count, es_payload = args\<rparr>,
      \<lparr>es_tag = 7, es_count = length (expressions co), es_payload = payload_offsets\<rparr>,
      \<lparr>es_tag = 8, es_count = length payload_bytes, es_payload = payload_bytes\<rparr>,
      \<lparr>es_tag = 9, es_count = length (expression_occurrences co), es_payload = eo\<rparr>,
      \<lparr>es_tag = 10, es_count = length (property_occurrences co), es_payload = po\<rparr>,
      \<lparr>es_tag = 11, es_count = length (property_chains co), es_payload = chain_offsets\<rparr>,
      \<lparr>es_tag = 12, es_count = chain_count, es_payload = chain_values\<rparr>,
      \<lparr>es_tag = 13, es_count = length (subclass_axioms co), es_payload = sub\<rparr>,
      \<lparr>es_tag = 14, es_count = length (equivalent_class_axioms co), es_payload = eq\<rparr>,
      \<lparr>es_tag = 15, es_count = length (disjoint_groups co), es_payload = disjoint_offsets\<rparr>,
      \<lparr>es_tag = 16, es_count = disjoint_count, es_payload = disjoint_values\<rparr>,
      \<lparr>es_tag = 17, es_count = length (subproperty_axioms co), es_payload = sp\<rparr>,
      \<lparr>es_tag = 18, es_count = length (property_ranges co), es_payload = rg\<rparr>,
      \<lparr>es_tag = 19, es_count = length (feature_counts co), es_payload = fc\<rparr>,
      \<lparr>es_tag = 20, es_count = 1, es_payload = source_fingerprint co\<rparr>]"
  using assms unfolding ontology_sections_def Let_def rbind_Inr_iff split_paired_Ex prod.case
  by (elim exE conjE) (simp add: section_of_Inr, elim exE conjE, blast)

lemma valid_ontology_records:
  assumes "valid_ontology co"
  shows "rall entity_record_check (entities co) = Inr ()" and "rall expression_record_check (expressions co) = Inr ()"
    and "rall occurrence_check (expression_occurrences co) = Inr ()" and "rall occurrence_check (property_occurrences co) = Inr ()"
  using assms unfolding valid_ontology_def compiled_ontology_check_def by simp_all

lemma ontology_tags_eq: "ontology_tags = {1..20}"
  unfolding ontology_tags_def by code_simp

lemma decode_sections_encode:
  assumes valid: "valid_ontology co" and enc: "ontology_sections co = Inr ss"
  shows "decode_ontology_sections (table_of ontology_tags ss) = Inr co"
  using enc
proof (rule ontology_sections_parts, goal_cases)
  case (1 iris iri_offsets iri_bytes argument_offsets args argument_count payload_offsets payload_bytes
      chain_offsets chain_values chain_count disjoint_offsets disjoint_values disjoint_count kinds tags eo po sub eq sp rg fc)
  note p = 1(1-15) and ss = 1(16)
  have tags: "distinct (map es_tag ss)" by (simp add: ss)
  have known: "\<forall>s \<in> set ss. es_tag s \<in> ontology_tags" by (simp add: ss ontology_tags_eq)
  obtain d where d: "d = table_of ontology_tags ss" by blast
  have get: "\<forall>s \<in> set ss. the_section d (es_tag s) = Inr \<lparr>ds_count = es_count s, ds_payload = es_payload s\<rparr>"
    using the_section_table [OF tags] known unfolding d by blast
  note v = valid_ontology_records [OF valid]
  have check: "new_compiled_ontology co = Inr co" using valid by (simp add: new_compiled_ontology_def valid_ontology_def)
  have eta: "\<lparr>entities = entities co, expressions = expressions co, expression_occurrences = expression_occurrences co,
      property_occurrences = property_occurrences co, property_chains = property_chains co,
      subclass_axioms = subclass_axioms co, equivalent_class_axioms = equivalent_class_axioms co,
      disjoint_groups = disjoint_groups co, subproperty_axioms = subproperty_axioms co,
      property_ranges = property_ranges co, feature_counts = feature_counts co,
      source_fingerprint = source_fingerprint co\<rparr> = co" by (cases co) simp
  note parts = decode_entity_records_encode [OF p(1) v(1) p(7,2)] decode_expression_records_encode [OF v(2) p(8,3,4)]
    decode_occurrences_pack [OF p(9) v(3)] decode_occurrences_pack [OF p(10) v(4)] decode_csr_encode [OF p(5)] decode_csr_encode [OF p(6)]
    unpack_pairs_pack [OF p(11)] unpack_pairs_pack [OF p(12)] unpack_pairs_pack [OF p(13)] unpack_pairs_pack [OF p(14)]
    unpack_fixed_pack [OF p(15)]
  have "decode_ontology_sections d = Inr co"
    using get unfolding decode_ontology_sections_def Let_def by (simp add: ss parts check eta)
  then show ?case by (simp only: d)
qed

lemma magic_length: "length IR_MAGIC = MAGIC_SIZE" "length QUERY_MAGIC = MAGIC_SIZE"
  by (simp_all add: IR_MAGIC_def QUERY_MAGIC_def MAGIC_SIZE_def py_literal_def)

lemma ontology_container:
  assumes sections: "ontology_sections co = Inr ss" and enc: "encode_container IR_MAGIC ss = Inr data"
  shows "decode_container data IR_MAGIC ontology_tags None = Inr (table_of ontology_tags ss)"
  using sections
proof (rule ontology_sections_parts, goal_cases)
  case (1 iris iri_offsets iri_bytes argument_offsets args argument_count payload_offsets payload_bytes
      chain_offsets chain_values chain_count disjoint_offsets disjoint_values disjoint_count kinds tags eo po sub eq sp rg fc)
  note ss = 1(16)
  have tags: "map es_tag ss = [1..<21]" unfolding ss by (simp add: upt_rec)
  then have "es_tag ` set ss = {1..<21}" by (metis set_map set_upt)
  then have image: "es_tag ` set ss = ontology_tags" unfolding ontology_tags_eq by auto
  have "sort_key es_tag ss = ss" by (rule sort_key_id_if_sorted) (simp only: tags sorted_upt)
  moreover have "decode_container data IR_MAGIC ontology_tags None = Inr (table_of ontology_tags (sort_key es_tag ss))"
    by (rule decode_container_encode [OF enc magic_length(1)]) (use image in blast)+
  ultimately show ?case by simp
qed

section \<open>Queries\<close>

lemma query_sections_parts:
  assumes "query_sections q = Inr ss"
  obtains iris iri_offsets iri_bytes argument_offsets args argument_count payload_offsets payload_bytes
    kd kinds ids tags eo po root sub
  where "rmap_list (\<lambda>r. utf8_encode (iri r)) (map entity (qi_entities q)) = Inr iris"
    and "encode_byte_csr iris = Inr (iri_offsets, iri_bytes)"
    and "encode_csr (map arguments (qi_expressions q)) = Inr (argument_offsets, args, argument_count)"
    and "encode_byte_csr (map payload (qi_expressions q)) = Inr (payload_offsets, payload_bytes)"
    and "pack [1] [query_ir_kind_int (qi_kind q)] = Inr kd"
    and "pack_values 1 (map (entity_kind_int \<circ> kind) (map entity (qi_entities q))) = Inr kinds"
    and "pack_values 4 (map (\<lambda>r. case ontology_id r of None \<Rightarrow> U32_RESERVED | Some i \<Rightarrow> i) (qi_entities q)) = Inr ids"
    and "pack_values 1 (map (expression_tag_int \<circ> tag) (qi_expressions q)) = Inr tags"
    and "encode_occurrences (qi_expression_occurrences q) = Inr eo" and "encode_occurrences (qi_property_occurrences q) = Inr po"
    and "pack [4] [case qi_root_expression q of None \<Rightarrow> U32_RESERVED | Some r \<Rightarrow> r] = Inr root"
    and "pack_pairs (qi_subsumption_obligations q) = Inr sub"
    and "ss = [\<lparr>es_tag = 1, es_count = 1, es_payload = kd\<rparr>,
      \<lparr>es_tag = 2, es_count = length (qi_entities q), es_payload = kinds\<rparr>,
      \<lparr>es_tag = 3, es_count = length (qi_entities q), es_payload = iri_offsets\<rparr>,
      \<lparr>es_tag = 4, es_count = length iri_bytes, es_payload = iri_bytes\<rparr>,
      \<lparr>es_tag = 5, es_count = length (qi_entities q), es_payload = ids\<rparr>,
      \<lparr>es_tag = 6, es_count = length (qi_expressions q), es_payload = tags\<rparr>,
      \<lparr>es_tag = 7, es_count = length (qi_expressions q), es_payload = argument_offsets\<rparr>,
      \<lparr>es_tag = 8, es_count = argument_count, es_payload = args\<rparr>,
      \<lparr>es_tag = 9, es_count = length (qi_expressions q), es_payload = payload_offsets\<rparr>,
      \<lparr>es_tag = 10, es_count = length payload_bytes, es_payload = payload_bytes\<rparr>,
      \<lparr>es_tag = 11, es_count = length (qi_expression_occurrences q), es_payload = eo\<rparr>,
      \<lparr>es_tag = 12, es_count = length (qi_property_occurrences q), es_payload = po\<rparr>,
      \<lparr>es_tag = 13, es_count = 1, es_payload = root\<rparr>,
      \<lparr>es_tag = 14, es_count = length (qi_subsumption_obligations q), es_payload = sub\<rparr>]"
  using assms unfolding query_sections_def Let_def rbind_Inr_iff split_paired_Ex prod.case length_map
  by (elim exE conjE) (simp add: section_of_Inr del: pack.simps, elim exE conjE, blast)

lemma valid_query_records:
  assumes "valid_query q"
  shows "rall entity_record_check (map entity (qi_entities q)) = Inr ()" and "rall query_entity_record_check (qi_entities q) = Inr ()"
    and "rall expression_record_check (qi_expressions q) = Inr ()"
    and "rall occurrence_check (qi_expression_occurrences q) = Inr ()" and "rall occurrence_check (qi_property_occurrences q) = Inr ()"
    and "validate_query_root q = Inr ()"
  using assms unfolding valid_query_def query_ir_check_def by (simp_all add: Let_def)

lemma query_tags_eq: "query_tags = {1..14}"
  unfolding query_tags_def by code_simp

lemma decode_query_entities_encode:
  "rall query_entity_record_check es = Inr () \<Longrightarrow>
    rmap_list (\<lambda>(r, i). new_query_entity r i)
      (zip (map entity es) (map (\<lambda>r. case ontology_id r of None \<Rightarrow> U32_RESERVED | Some i \<Rightarrow> i) es)) = Inr es"
proof (induction es)
  case (Cons q es)
  have "(if (case ontology_id q of None \<Rightarrow> U32_RESERVED | Some i \<Rightarrow> i) = U32_RESERVED then None
      else Some (case ontology_id q of None \<Rightarrow> U32_RESERVED | Some i \<Rightarrow> i)) = ontology_id q"
    using Cons.prems by (auto simp: query_entity_record_check_def check_u32_def U32_MAX_def U32_RESERVED_def split: option.splits)
  then have "new_query_entity (entity q) (case ontology_id q of None \<Rightarrow> U32_RESERVED | Some i \<Rightarrow> i) = Inr q"
    using Cons.prems by (simp add: new_query_entity_def Let_def)
  with Cons show ?case by simp
qed simp

lemma unpack_one: "pack [w] [v] = Inr bs \<Longrightarrow> unpack_fixed \<lparr>ds_count = 1, ds_payload = bs\<rparr> w = Inr [v]"
  using unpack_fixed_pack [of w "[v]" bs] by (simp add: pack_values_def rappend_def del: pack.simps)

lemma decode_query_encode:
  assumes valid: "valid_query q" and enc: "query_sections q = Inr ss"
  shows "decode_query_sections (table_of query_tags ss) = Inr q"
  using enc
proof (rule query_sections_parts, goal_cases)
  case (1 iris iri_offsets iri_bytes argument_offsets args argument_count payload_offsets payload_bytes
      kd kinds ids tags eo po root sub)
  note p = 1(1-12) and ss = 1(13)
  have tags: "distinct (map es_tag ss)" by (simp add: ss)
  have known: "\<forall>s \<in> set ss. es_tag s \<in> query_tags" by (simp add: ss query_tags_eq)
  obtain d where d: "d = table_of query_tags ss" by blast
  have get: "\<forall>s \<in> set ss. the_section d (es_tag s) = Inr \<lparr>ds_count = es_count s, ds_payload = es_payload s\<rparr>"
    using the_section_table [OF tags] known unfolding d by blast
  note v = valid_query_records [OF valid]
  have check: "new_query_ir q = Inr q" using valid by (simp add: new_query_ir_def valid_query_def)
  have eta: "\<lparr>qi_kind = qi_kind q, qi_entities = qi_entities q, qi_expressions = qi_expressions q,
      qi_expression_occurrences = qi_expression_occurrences q, qi_property_occurrences = qi_property_occurrences q,
      qi_root_expression = qi_root_expression q, qi_subsumption_obligations = qi_subsumption_obligations q\<rparr> = q"
    by (cases q) simp
  have root: "(if (case qi_root_expression q of None \<Rightarrow> U32_RESERVED | Some r \<Rightarrow> r) = U32_RESERVED then None
      else Some (case qi_root_expression q of None \<Rightarrow> U32_RESERVED | Some r \<Rightarrow> r)) = qi_root_expression q"
    using v(6) by (auto simp: validate_query_root_def check_u32_def U32_MAX_def U32_RESERVED_def
        split: option.splits query_ir_kind.splits)
  note parts = decode_entity_records_encode [OF p(1) v(1) p(6,2), unfolded length_map]
    decode_expression_records_encode [OF v(3) p(8,3,4)] decode_occurrences_pack [OF p(9) v(4)] decode_occurrences_pack [OF p(10) v(5)]
    unpack_pairs_pack [OF p(12)] unpack_one [OF p(5)] unpack_one [OF p(11)] unpack_fixed_pack [OF p(7), unfolded length_map]
    decode_query_entities_encode [OF v(2)]
  have "decode_query_sections d = Inr q"
    using get unfolding decode_query_sections_def Let_def by (simp add: ss parts [simplified] root check eta cong: if_cong split del: if_split)
  then show ?case by (simp only: d)
qed

lemma query_container:
  assumes sections: "query_sections q = Inr ss" and enc: "encode_container QUERY_MAGIC ss = Inr data"
  shows "decode_container data QUERY_MAGIC query_tags None = Inr (table_of query_tags ss)"
  using sections
proof (rule query_sections_parts, goal_cases)
  case (1 iris iri_offsets iri_bytes argument_offsets args argument_count payload_offsets payload_bytes
      kd kinds ids tags eo po root sub)
  note ss = 1(13)
  have tags: "map es_tag ss = [1..<15]" unfolding ss by (simp add: upt_rec)
  then have "es_tag ` set ss = {1..<15}" by (metis set_map set_upt)
  then have image: "es_tag ` set ss = query_tags" unfolding query_tags_eq by auto
  have "sort_key es_tag ss = ss" by (rule sort_key_id_if_sorted) (simp only: tags sorted_upt)
  moreover have "decode_container data QUERY_MAGIC query_tags None = Inr (table_of query_tags (sort_key es_tag ss))"
    by (rule decode_container_encode [OF enc magic_length(2)]) (use image in blast)+
  ultimately show ?case by simp
qed

end
