(* ===== verification/Codec_Safety.thy ===== *)
theory Codec_Safety
  imports Codec_Results
begin

text \<open>Which exceptions decoding can raise, and what a decoded value satisfies.\<close>

section \<open>Exceptions of a computation\<close>

definition raises :: "py_error set \<Rightarrow> 'a result \<Rightarrow> bool" where
  "raises E m \<longleftrightarrow> (\<forall>x. m = Inl x \<longrightarrow> x \<in> E)"

named_theorems raises_intros

lemma raises_Inr [raises_intros]: "raises E (Inr a)"
  by (simp add: raises_def)

lemma raises_Inl [raises_intros]: "x \<in> E \<Longrightarrow> raises E (Inl x)"
  by (simp add: raises_def)

lemma raises_rbind [raises_intros]: "raises E m \<Longrightarrow> (\<And>a. m = Inr a \<Longrightarrow> raises E (f a)) \<Longrightarrow> raises E (rbind m f)"
  by (cases m) (simp_all add: raises_def)

lemma raises_rmap [raises_intros]: "raises E m \<Longrightarrow> raises E (rmap f m)"
  by (cases m) (simp_all add: raises_def)

lemma raises_rassert [raises_intros]: "x \<in> E \<Longrightarrow> raises E (rassert b x)"
  by (simp add: raises_def rassert_def)

lemma raises_rall [raises_intros]: "(\<And>x. x \<in> set xs \<Longrightarrow> raises E (f x)) \<Longrightarrow> raises E (rall f xs)"
  by (induction xs) (auto intro: raises_intros)

lemma raises_checks [raises_intros]: "(\<And>c. c \<in> set cs \<Longrightarrow> raises E c) \<Longrightarrow> raises E (checks cs)"
  unfolding checks_def by (rule raises_rall)

lemma raises_rmap_list [raises_intros]: "(\<And>x. x \<in> set xs \<Longrightarrow> raises E (f x)) \<Longrightarrow> raises E (rmap_list f xs)"
  by (induction xs) (auto intro!: raises_intros)

lemma raises_rfold [raises_intros]: "(\<And>x s. x \<in> set xs \<Longrightarrow> raises E (f x s)) \<Longrightarrow> raises E (rfold f xs s)"
  by (induction xs arbitrary: s) (auto intro!: raises_intros)

lemma raises_rconcat_map [raises_intros]: "(\<And>x. x \<in> set xs \<Longrightarrow> raises E (f x)) \<Longrightarrow> raises E (rconcat_map f xs)"
  by (induction xs) (auto simp: rappend_def intro!: raises_intros)

lemma raises_if [raises_intros]: "(b \<Longrightarrow> raises E m) \<Longrightarrow> (\<not> b \<Longrightarrow> raises E n) \<Longrightarrow> raises E (if b then m else n)"
  by simp

lemma raises_as_protocol [raises_intros]:
  "raises {ValueError, UnicodeEncodeError, UnicodeDecodeError, BackendProtocolError} m \<Longrightarrow> raises {BackendProtocolError} (as_protocol m)"
  by (auto simp: raises_def as_protocol_def split: sum.splits if_splits)

lemma raises_mono: "raises E m \<Longrightarrow> E \<subseteq> F \<Longrightarrow> raises F m"
  by (auto simp: raises_def)

section \<open>The constructors raise value errors\<close>

abbreviation value_errors :: "py_error set" where
  "value_errors \<equiv> {ValueError, UnicodeEncodeError, UnicodeDecodeError, BackendProtocolError}"

lemma utf8_encode_raises [raises_intros]: "raises value_errors (utf8_encode s)"
  unfolding utf8_encode_def by (rule raises_rconcat_map) (simp add: utf8_code_point_def raises_def)

lemma utf8_decode_raises [raises_intros]: "raises value_errors (utf8_decode bs)"
  by (induction bs rule: utf8_decode.induct) (auto split: option.split intro!: raises_intros)

lemma check_raises [raises_intros]:
  "raises value_errors (check_u32 n)" "raises value_errors (check_u64 n)" "raises value_errors (check_sorted_unique xs)"
  by (simp_all add: check_u32_def check_u64_def check_sorted_unique_def raises_intros)

lemma record_check_raises [raises_intros]:
  "raises value_errors (entity_record_check r)" "raises value_errors (expression_record_check x)"
  "raises value_errors (occurrence_check c)" "raises value_errors (query_entity_record_check q)"
  by (auto simp: entity_record_check_def expression_record_check_def occurrence_check_def query_entity_record_check_def
      intro!: raises_intros split: sum.split option.split)

lemma validate_raises [raises_intros]:
  "raises value_errors (validate_entities b es)" "raises value_errors (validate_occurrences x y m n)"
  "raises value_errors (validate_named_entity_expressions es xs)" "raises value_errors (validate_sorted_pairs rows m n)"
  "raises value_errors (validate_feature_counts counts)" "raises value_errors (validate_entity_index i es k)"
  by (auto simp: validate_entities_def entity_key_def validate_occurrences_def validate_named_entity_expressions_def Let_def
      validate_sorted_pairs_def validate_feature_counts_def validate_entity_index_def intro!: raises_intros)

lemma validate_order_raises [raises_intros]: "raises value_errors (validate_expression_order xs)"
  by (auto simp: validate_expression_order_def kahn_step_def Let_def intro!: raises_intros split: list.split)

lemma validate_expression_raises [raises_intros]: "raises value_errors (validate_expression es i x)"
  by (auto simp: validate_expression_def validate_entity_arguments_def validate_expression_arguments_def
      require_empty_payload_def intro!: raises_intros split: expression_tag.split)

lemma validate_expressions_raises [raises_intros]: "raises value_errors (validate_expressions xs es)"
  by (auto simp: validate_expressions_def intro!: raises_intros)

lemma ontology_check_raises [raises_intros]: "raises value_errors (compiled_ontology_check co)"
  by (auto simp: compiled_ontology_check_def validate_property_chains_def validate_disjoint_groups_def intro!: raises_intros)

lemma query_check_raises [raises_intros]: "raises value_errors (query_ir_check q)"
  by (auto simp: query_ir_check_def Let_def validate_query_root_def validate_query_entity_expressions_def
      intro!: raises_intros split: option.split query_ir_kind.split)

section \<open>Decoding raises protocol errors\<close>

lemma unpack_from_ok:
  assumes "n + sum_list ws \<le> length bs"
  obtains vs where "unpack_from ws bs n = Inr vs" and "length vs = length ws"
proof -
  have "length (unpack ws cs) = length ws" for cs by (induction ws arbitrary: cs) simp_all
  with assms show ?thesis by (intro that [of "unpack ws (drop n bs)"]) (simp_all add: unpack_from_def)
qed

lemma unpack_from_raises: "n + sum_list ws \<le> length bs \<Longrightarrow> raises E (unpack_from ws bs n)"
  by (simp add: unpack_from_def raises_def)

lemma row_fits: "i < k \<Longrightarrow> k * w = n \<Longrightarrow> i * w + w \<le> n" for i :: nat
  using mult_le_mono1 [of "Suc i" k w] by simp

lemma unpack_raises [raises_intros]:
  "raises {BackendProtocolError} (unpack_fixed s w)" "raises {BackendProtocolError} (unpack_pairs s)"
  "raises {BackendProtocolError} (unpack_offsets s)"
proof -
  show "raises {BackendProtocolError} (unpack_fixed s w)"
    unfolding unpack_fixed_def by (auto intro!: raises_intros unpack_from_raises row_fits)
  show "raises {BackendProtocolError} (unpack_pairs s)"
    unfolding unpack_pairs_def by (auto intro!: raises_intros unpack_from_raises row_fits)
  show "raises {BackendProtocolError} (unpack_offsets s)"
    unfolding unpack_offsets_def by (auto intro!: raises_intros unpack_from_raises row_fits simp del: upt_Suc)
qed

lemma unpack_fixed_small:
  assumes "unpack_fixed s w = Inr vs"
  shows "\<forall>v \<in> set vs. v < 256 ^ w"
proof -
  have "length (take w cs) \<le> w" for cs :: bytes by simp
  then have small: "le_value (take w cs) < 256 ^ w" for cs
    using le_value_bound [of "take w cs"] power_increasing [of "length (take w cs)" w "256 :: nat"] by (meson le_trans less_le_trans one_le_numeral)
  have "rmap_list (\<lambda>i. rmap hd (unpack_from [w] (ds_payload s) (i * w))) xs = Inr vs \<Longrightarrow> \<forall>v \<in> set vs. v < 256 ^ w" for xs vs
    by (induction xs arbitrary: vs) (auto simp: unpack_from_def small split: if_splits)
  with assms show ?thesis by (auto simp: unpack_fixed_def split: if_splits)
qed

lemma decode_rows_raises [raises_intros]:
  "raises {BackendProtocolError} (decode_csr s u)" "raises {BackendProtocolError} (decode_byte_csr s u)"
  by (auto simp: decode_csr_def decode_byte_csr_def intro!: raises_intros)

lemma decode_records_raises [raises_intros]:
  "raises {BackendProtocolError} (decode_entity_records s u v)" "raises {BackendProtocolError} (decode_expression_records s u v w x)"
  by (auto simp: decode_entity_records_def decode_expression_records_def decode_entity_def decode_expression_def Let_def
      entity_kind_of_def expression_tag_of_def intro!: raises_intros split: option.split)

lemma decode_occurrences_raises [raises_intros]: "raises value_errors (decode_occurrences s)"
  by (auto simp: decode_occurrences_def new_occurrence_def Let_def intro!: raises_intros unpack_from_raises row_fits)

lemma decode_entries_raises:
  assumes "HEADER_SIZE + k * ENTRY_SIZE \<le> length raw" and "\<forall>i \<in> set indices. i < k"
  shows "raises {BackendProtocolError} (decode_entries raw stop known indices previous expected sections)"
  using assms(2)
proof (induction indices arbitrary: previous expected sections)
  case (Cons i indices)
  have "Suc i * ENTRY_SIZE \<le> k * ENTRY_SIZE" using Cons.prems by (intro mult_le_mono1) simp
  then have "HEADER_SIZE + i * ENTRY_SIZE + sum_list DIRECTORY_ENTRY \<le> length raw" using assms(1) by (simp add: sizes)
  then obtain vs where vs: "unpack_from DIRECTORY_ENTRY raw (HEADER_SIZE + i * ENTRY_SIZE) = Inr vs" "length vs = length DIRECTORY_ENTRY"
    by (rule unpack_from_ok)
  then obtain a b c d where "vs = [a, b, c, d]" by (auto simp: DIRECTORY_ENTRY_def length_Suc_conv)
  with vs(1) Cons show ?case by (auto intro!: raises_intros)
qed (simp add: raises_intros)

lemma header_fields:
  assumes "\<not> length raw < HEADER_SIZE + CHECKSUM_SIZE"
  obtains a b c where "unpack_from HEADER_FIELDS raw MAGIC_SIZE = Inr [a, b, c]"
proof -
  have "MAGIC_SIZE + sum_list HEADER_FIELDS \<le> length raw" using assms by (simp add: sizes)
  then obtain vs where vs: "unpack_from HEADER_FIELDS raw MAGIC_SIZE = Inr vs" "length vs = length HEADER_FIELDS"
    by (rule unpack_from_ok)
  then show ?thesis using that by (auto simp: HEADER_FIELDS_def length_Suc_conv)
qed

lemma decode_container_raises [raises_intros]: "raises {BackendProtocolError} (decode_container raw magic required None)"
proof (cases "length raw < HEADER_SIZE + CHECKSUM_SIZE")
  case True
  then show ?thesis by (simp add: decode_container_def raises_intros)
next
  case False
  then obtain a b c where "unpack_from HEADER_FIELDS raw MAGIC_SIZE = Inr [a, b, c]" by (rule header_fields)
  with False show ?thesis
    unfolding decode_container_def
    by (auto simp: Let_def intro!: raises_intros decode_entries_raises [of c])
qed

lemma decode_container_keys:
  assumes "decode_container raw magic required None = Inr sections" and "t \<in> required"
  obtains s where "the_section sections t = Inr s"
proof -
  have long: "\<not> length raw < HEADER_SIZE + CHECKSUM_SIZE" using assms(1) by (auto simp: decode_container_def)
  then obtain a b c where "unpack_from HEADER_FIELDS raw MAGIC_SIZE = Inr [a, b, c]" by (rule header_fields)
  with long have "required \<subseteq> dict_keys sections" using assms(1) by (auto simp: decode_container_def Let_def)
  with assms(2) obtain s where "dict_get sections t = Some s" by (auto simp: dict_keys_dom)
  then show ?thesis by (intro that) (simp add: the_section_def)
qed

lemma decode_ontology_raises: "raises {BackendProtocolError} (decode_ontology data)"
proof -
  have "raises {BackendProtocolError} (decode_ontology_sections sections)"
    if c: "decode_container data IR_MAGIC ontology_tags None = Inr sections" for sections
  proof -
    have get: "raises E (the_section sections (ontology_section_int t))" for t and E
    proof -
      have "ontology_section_int t \<in> ontology_tags" by (cases t) (simp_all add: ontology_tags_eq)
      with c obtain s where "the_section sections (ontology_section_int t) = Inr s" by (rule decode_container_keys)
      then show ?thesis by (simp add: raises_intros)
    qed
    show ?thesis
      unfolding decode_ontology_sections_def new_compiled_ontology_def Let_def
      by (intro raises_intros get raises_mono [OF unpack_raises(1)] raises_mono [OF unpack_raises(2)]
          raises_mono [OF decode_rows_raises(1)]) auto
  qed
  then show ?thesis unfolding decode_ontology_def by (intro raises_intros)
qed

lemma decode_query_raises: "raises {BackendProtocolError} (decode_query_ir data)"
proof -
  have "raises {BackendProtocolError} (decode_query_sections sections)"
    if c: "decode_container data QUERY_MAGIC query_tags None = Inr sections" for sections
  proof -
    have get: "raises E (the_section sections (query_section_int t))" for t and E
    proof -
      have "query_section_int t \<in> query_tags" by (cases t) (simp_all add: query_tags_eq)
      with c obtain s where "the_section sections (query_section_int t) = Inr s" by (rule decode_container_keys)
      then show ?thesis by (simp add: raises_intros)
    qed
    have id: "new_query_entity r i \<noteq> Inl x" if "unpack_fixed sec 4 = Inr ids" "(r, i) \<in> set (zip es ids)" for r i x es ids sec
      using unpack_fixed_small [OF that(1)] set_zip_rightD [OF that(2)]
      by (auto simp: new_query_entity_def Let_def query_entity_record_check_def check_u32_def U32_MAX_def U32_RESERVED_def
          rassert_def)
    show ?thesis
      unfolding decode_query_sections_def new_query_ir_def Let_def
      by (intro raises_intros get raises_mono [OF unpack_raises(2)])
        (auto simp: query_ir_kind_of_def raises_def id split: option.splits)
  qed
  then show ?thesis unfolding decode_query_ir_def by (intro raises_intros)
qed

end
