(* ===== verification/Codec_Theorems.thy ===== *)
theory Codec_Theorems
  imports Codec_Safety Sample
begin

text \<open>What the binary protocol promises: sizes, round trips, and refusal of everything else.\<close>

section \<open>Everything a valid ontology holds fits its field\<close>

lemma pack_int_ok: "v < 256 ^ w \<Longrightarrow> pack_int w v = Inr (le_bytes w v)"
  by (simp add: pack_int_def)

lemma pack_ok: "list_all2 (\<lambda>w v. v < 256 ^ w) ws vs \<Longrightarrow> \<exists>bs. pack ws vs = Inr bs \<and> length bs = sum_list ws"
  by (induction ws vs rule: list_all2_induct) (auto simp: pack_int_ok rappend_def)

lemma pack_one_ok: "v < 256 ^ w \<Longrightarrow> \<exists>bs. pack [w] [v] = Inr bs \<and> length bs = w"
  using pack_ok [of "[w]" "[v]"] by (simp del: pack.simps)

lemma rows_ok:
  assumes "\<forall>x \<in> set xs. list_all2 (\<lambda>w v. v < 256 ^ w) ws (h x)"
  shows "\<exists>bs. rconcat_map (\<lambda>x. pack ws (h x)) xs = Inr bs \<and> length bs = length xs * sum_list ws"
proof -
  have "\<exists>bs. rconcat_map (\<lambda>x. pack ws (h x)) xs = Inr bs"
    using assms by (induction xs) (auto simp: rappend_def dest!: pack_ok)
  then show ?thesis using unpack_rows(1) by blast
qed

lemma pack_values_ok: "\<forall>v \<in> set vs. v < 256 ^ w \<Longrightarrow> \<exists>bs. pack_values w vs = Inr bs \<and> length bs = length vs * w"
  using rows_ok [of vs "[w]" "\<lambda>v. [v]"] by (simp add: pack_values_def)

lemma pack_pairs_ok:
  assumes "\<forall>(a, b) \<in> set ps. a < 256 ^ 4 \<and> b < 256 ^ 4"
  shows "\<exists>bs. pack_pairs ps = Inr bs \<and> length bs = length ps * 8"
  using rows_ok [of ps "[4, 4]" "\<lambda>x. [fst x, snd x]"] assms by (auto simp: pack_pairs_def split_def)

lemma check_fits: "check_u32 v = Inr () \<Longrightarrow> v < 256 ^ 4" "check_u64 v = Inr () \<Longrightarrow> v < 256 ^ 8"
  by (simp_all add: check_u32_def check_u64_def U32_MAX_def U32_RESERVED_def U64_MAX_def)

lemma encode_occurrences_ok:
  assumes "rall occurrence_check os = Inr ()"
  shows "\<exists>bs. encode_occurrences os = Inr bs \<and> length bs = length os * 16"
proof -
  have "\<forall>c \<in> set os. list_all2 (\<lambda>w v. v < 256 ^ w) [8, 8] [negative c, positive c]"
    using assms check_fits(2) unfolding rall_Inr_iff occurrence_check_def checks_simps list_all2_Cons list.rel_inject by blast
  from rows_ok [OF this] show ?thesis by (simp add: encode_occurrences_def)
qed

lemma running_offsets_bound: "o' \<in> set (running_offsets n rows) \<Longrightarrow> o' \<le> n + length (concat rows)"
  by (induction rows arbitrary: n) fastforce+

lemma encode_byte_csr_ok:
  assumes "length (concat rows) < 2 ^ 64"
  shows "\<exists>offsets. encode_byte_csr rows = Inr (offsets, concat rows) \<and> length offsets = Suc (length rows) * 8"
proof -
  have "\<forall>v \<in> set (running_offsets 0 rows). v < 256 ^ 8" using running_offsets_bound [of _ 0 rows] assms by fastforce
  from pack_values_ok [OF this] show ?thesis by (auto simp: encode_byte_csr_def)
qed

lemma encode_csr_ok:
  assumes "length (concat rows) < 2 ^ 64" and "\<forall>row \<in> set rows. \<forall>v \<in> set row. v < 256 ^ 4"
  shows "\<exists>offsets values. encode_csr rows = Inr (offsets, values, length (concat rows)) \<and>
    length offsets = Suc (length rows) * 8 \<and> length values = length (concat rows) * 4"
proof -
  have "\<forall>v \<in> set (running_offsets 0 rows). v < 256 ^ 8" using running_offsets_bound [of _ 0 rows] assms(1) by fastforce
  moreover have "\<forall>v \<in> set (concat rows). v < 256 ^ 4" using assms(2) by simp
  ultimately show ?thesis using pack_values_ok [of "running_offsets 0 rows" 8] pack_values_ok [of "concat rows" 4]
    by (auto simp: encode_csr_def)
qed

lemma encode_container_ok:
  assumes distinct: "distinct (map es_tag ss)" and small: "length ss \<le> MAX_SECTIONS" and magic: "length magic = MAGIC_SIZE"
    and fields: "\<forall>s \<in> set ss. es_tag s < 2 ^ 16 \<and> es_count s < 2 ^ 64"
    and total: "HEADER_SIZE + length ss * ENTRY_SIZE + length (concat (map es_payload ss)) < 2 ^ 64"
    and sorted: "sort_key es_tag ss = ss"
  shows "\<exists>data. encode_container magic ss = Inr data \<and>
    length data = HEADER_SIZE + length ss * ENTRY_SIZE + length (concat (map es_payload ss)) + CHECKSUM_SIZE"
proof -
  let ?n = "HEADER_SIZE + length ss * ENTRY_SIZE"
  have "list_all2 (\<lambda>w v. v < 256 ^ w) DIRECTORY_ENTRY (entry_fields x)"
    if x: "x \<in> set (zip ss (running_offsets ?n (map es_payload ss)))" for x
  proof -
    obtain s off where so: "x = (s, off)" by (cases x)
    with x have "s \<in> set ss" "off \<in> set (running_offsets ?n (map es_payload ss))"
      by (auto dest: set_zip_leftD set_zip_rightD)
    moreover from this(1) have "length (es_payload s) \<le> length (concat (map es_payload ss))"
      by (auto simp: length_concat comp_def intro: member_le_sum_list)
    ultimately show ?thesis
      using fields total running_offsets_bound [of off ?n "map es_payload ss"] so
      by (auto simp: DIRECTORY_ENTRY_def entry_fields_def)
  qed
  then obtain directory where directory: "directory_from ?n ss = Inr directory" "length directory = length ss * ENTRY_SIZE"
    using rows_ok [of "zip ss (running_offsets ?n (map es_payload ss))" DIRECTORY_ENTRY entry_fields]
    by (auto simp: directory_rows ENTRY_SIZE_def)
  have "list_all2 (\<lambda>w v. v < 256 ^ w) HEADER_FIELDS [SCHEMA_MAJOR, SCHEMA_MINOR, length ss]"
    using small by (simp add: HEADER_FIELDS_def SCHEMA_MAJOR_def SCHEMA_MINOR_def MAX_SECTIONS_def)
  then obtain header where "pack HEADER_FIELDS [SCHEMA_MAJOR, SCHEMA_MINOR, length ss] = Inr header" "length header = 8"
    using pack_ok [of HEADER_FIELDS] by (auto simp: sizes)
  moreover have "length (blake2b CHECKSUM_SIZE bs) = CHECKSUM_SIZE" for bs by (rule length_blake2b) (simp add: CHECKSUM_SIZE_def)
  ultimately show ?thesis
    using directory distinct small magic by (simp add: encode_container_def sorted Let_def sizes)
qed

section \<open>Ontologies\<close>

definition iri_bytes :: "compiled_ontology \<Rightarrow> nat" where
  "iri_bytes co = (\<Sum>r\<leftarrow>entities co. case utf8_encode (iri r) of Inl _ \<Rightarrow> 0 | Inr bs \<Rightarrow> length bs)"

definition wire_size :: "compiled_ontology \<Rightarrow> nat" where
  "wire_size co = 568 + 9 * length (entities co) + 8 + iri_bytes co +
     17 * length (expressions co) + 16 + 4 * length (concat (map arguments (expressions co))) +
     length (concat (map payload (expressions co))) +
     16 * length (expression_occurrences co) + 16 * length (property_occurrences co) +
     8 * length (property_chains co) + 8 + 4 * length (concat (property_chains co)) +
     8 * length (subclass_axioms co) + 8 * length (equivalent_class_axioms co) +
     8 * length (disjoint_groups co) + 8 + 4 * length (concat (disjoint_groups co)) +
     8 * length (subproperty_axioms co) + 8 * length (property_ranges co) + 8 * length (feature_counts co) +
     length (source_fingerprint co)"

lemma encoded_iris:
  assumes "rall entity_record_check es = Inr ()"
  obtains iris where "rmap_list (\<lambda>r. utf8_encode (iri r)) es = Inr iris" and "length iris = length es"
    and "length (concat iris) = (\<Sum>r\<leftarrow>es. case utf8_encode (iri r) of Inl _ \<Rightarrow> 0 | Inr bs \<Rightarrow> length bs)"
proof -
  have "\<exists>iris. rmap_list (\<lambda>r. utf8_encode (iri r)) es = Inr iris \<and> length iris = length es \<and>
      length (concat iris) = (\<Sum>r\<leftarrow>es. case utf8_encode (iri r) of Inl _ \<Rightarrow> 0 | Inr bs \<Rightarrow> length bs)"
    using assms by (induction es) (auto simp: entity_record_check_def split: sum.splits)
  with that show ?thesis by blast
qed

lemma kind_small: "entity_kind_int k < 6"
  by (cases k) simp_all

lemma tag_small: "expression_tag_int t < 8"
  by (cases t) simp_all

lemma sorted_pairs_fit: "validate_sorted_pairs ps m n = Inr () \<Longrightarrow> \<forall>(a, b) \<in> set ps. a < 256 ^ 4 \<and> b < 256 ^ 4"
  using check_fits(1) by (auto simp: validate_sorted_pairs_def rall_Inr_iff simp del: power_numeral)

lemma valid_ontology_fits:
  assumes "valid_ontology co"
  shows "\<forall>row \<in> set (map arguments (expressions co)). \<forall>v \<in> set row. v < 256 ^ 4"
    and "\<forall>row \<in> set (property_chains co). \<forall>v \<in> set row. v < 256 ^ 4"
    and "\<forall>row \<in> set (disjoint_groups co). \<forall>v \<in> set row. v < 256 ^ 4"
    and "\<forall>(a, b) \<in> set (subclass_axioms co). a < 256 ^ 4 \<and> b < 256 ^ 4"
    and "\<forall>(a, b) \<in> set (equivalent_class_axioms co). a < 256 ^ 4 \<and> b < 256 ^ 4"
    and "\<forall>(a, b) \<in> set (subproperty_axioms co). a < 256 ^ 4 \<and> b < 256 ^ 4"
    and "\<forall>(a, b) \<in> set (property_ranges co). a < 256 ^ 4 \<and> b < 256 ^ 4"
    and "\<forall>n \<in> set (feature_counts co). n < 256 ^ 8"
proof -
  have c: "\<forall>c \<in> set [rall entity_record_check (entities co), rall expression_record_check (expressions co),
      rall occurrence_check (expression_occurrences co), rall occurrence_check (property_occurrences co),
      validate_property_chains co, validate_disjoint_groups co, validate_feature_counts (feature_counts co),
      validate_sorted_pairs (subclass_axioms co) (length (expressions co)) (length (expressions co)),
      validate_sorted_pairs (equivalent_class_axioms co) (length (expressions co)) (length (expressions co)),
      validate_sorted_pairs (subproperty_axioms co) (length (property_chains co)) (length (entities co)),
      validate_sorted_pairs (property_ranges co) (length (entities co)) (length (expressions co))]. c = Inr ()"
    using assms by (simp add: valid_ontology_def compiled_ontology_check_def)
  note v = c [simplified]
  show "\<forall>row \<in> set (map arguments (expressions co)). \<forall>v \<in> set row. v < 256 ^ 4"
    using v check_fits(1) by (auto simp: rall_Inr_iff expression_record_check_def simp del: power_numeral)
  show "\<forall>row \<in> set (property_chains co). \<forall>v \<in> set row. v < 256 ^ 4"
    using v check_fits(1) by (auto simp: validate_property_chains_def rall_Inr_iff simp del: power_numeral)
  show "\<forall>row \<in> set (disjoint_groups co). \<forall>v \<in> set row. v < 256 ^ 4"
    using v check_fits(1) by (auto simp: validate_disjoint_groups_def rall_Inr_iff simp del: power_numeral)
  show "\<forall>(a, b) \<in> set (subclass_axioms co). a < 256 ^ 4 \<and> b < 256 ^ 4"
    "\<forall>(a, b) \<in> set (equivalent_class_axioms co). a < 256 ^ 4 \<and> b < 256 ^ 4"
    "\<forall>(a, b) \<in> set (subproperty_axioms co). a < 256 ^ 4 \<and> b < 256 ^ 4"
    "\<forall>(a, b) \<in> set (property_ranges co). a < 256 ^ 4 \<and> b < 256 ^ 4"
    using v sorted_pairs_fit by blast+
  show "\<forall>n \<in> set (feature_counts co). n < 256 ^ 8"
    using v check_fits(2) by (auto simp: validate_feature_counts_def rall_Inr_iff simp del: power_numeral)
qed

lemma ontology_sections_ok:
  assumes valid: "valid_ontology co" and small: "wire_size co < 2 ^ 64"
  obtains ss where "ontology_sections co = Inr ss"
    and "HEADER_SIZE + length ss * ENTRY_SIZE + length (concat (map es_payload ss)) + CHECKSUM_SIZE = wire_size co"
    and "\<forall>s \<in> set ss. es_count s < 2 ^ 64" and "map es_tag ss = [1..<21]"
proof -
  note v = valid_ontology_records [OF valid] and fits = valid_ontology_fits [OF valid]
  obtain iris where iris: "rmap_list (\<lambda>r. utf8_encode (iri r)) (entities co) = Inr iris"
    "length iris = length (entities co)" "length (concat iris) = iri_bytes co"
    unfolding iri_bytes_def by (rule encoded_iris [OF v(1)])
  have "length (concat iris) < 2 ^ 64" using small iris(3) by (simp add: wire_size_def)
  then obtain iri_offsets where i: "encode_byte_csr iris = Inr (iri_offsets, concat iris)" "length iri_offsets = Suc (length iris) * 8"
    using encode_byte_csr_ok by blast
  have "length (concat (map arguments (expressions co))) < 2 ^ 64" using small by (simp add: wire_size_def)
  then obtain ao av where a: "encode_csr (map arguments (expressions co)) = Inr (ao, av, length (concat (map arguments (expressions co))))"
    "length ao = Suc (length (map arguments (expressions co))) * 8" "length av = length (concat (map arguments (expressions co))) * 4"
    using encode_csr_ok [OF _ fits(1)] by blast
  have "length (concat (map payload (expressions co))) < 2 ^ 64" using small by (simp add: wire_size_def)
  then obtain po where p: "encode_byte_csr (map payload (expressions co)) = Inr (po, concat (map payload (expressions co)))"
    "length po = Suc (length (map payload (expressions co))) * 8"
    using encode_byte_csr_ok by blast
  have "length (concat (property_chains co)) < 2 ^ 64" using small by (simp add: wire_size_def)
  then obtain c1 c2 where c: "encode_csr (property_chains co) = Inr (c1, c2, length (concat (property_chains co)))"
    "length c1 = Suc (length (property_chains co)) * 8" "length c2 = length (concat (property_chains co)) * 4"
    using encode_csr_ok [OF _ fits(2)] by blast
  have "length (concat (disjoint_groups co)) < 2 ^ 64" using small by (simp add: wire_size_def)
  then obtain d1 d2 where d: "encode_csr (disjoint_groups co) = Inr (d1, d2, length (concat (disjoint_groups co)))"
    "length d1 = Suc (length (disjoint_groups co)) * 8" "length d2 = length (concat (disjoint_groups co)) * 4"
    using encode_csr_ok [OF _ fits(3)] by blast
  have "\<forall>v \<in> set (map (entity_kind_int \<circ> kind) (entities co)). v < 256 ^ 1"
    by (auto intro: less_le_trans [OF kind_small])
  then obtain ks where k: "pack_values 1 (map (entity_kind_int \<circ> kind) (entities co)) = Inr ks" "length ks = length (entities co)"
    using pack_values_ok by fastforce
  have "\<forall>v \<in> set (map (expression_tag_int \<circ> tag) (expressions co)). v < 256 ^ 1"
    by (auto intro: less_le_trans [OF tag_small])
  then obtain ts where t: "pack_values 1 (map (expression_tag_int \<circ> tag) (expressions co)) = Inr ts" "length ts = length (expressions co)"
    using pack_values_ok by fastforce
  obtain e1 where e1: "encode_occurrences (expression_occurrences co) = Inr e1" "length e1 = length (expression_occurrences co) * 16"
    using encode_occurrences_ok [OF v(3)] by blast
  obtain e2 where e2: "encode_occurrences (property_occurrences co) = Inr e2" "length e2 = length (property_occurrences co) * 16"
    using encode_occurrences_ok [OF v(4)] by blast
  obtain p1 where p1: "pack_pairs (subclass_axioms co) = Inr p1" "length p1 = length (subclass_axioms co) * 8"
    using pack_pairs_ok [OF fits(4)] by blast
  obtain p2 where p2: "pack_pairs (equivalent_class_axioms co) = Inr p2" "length p2 = length (equivalent_class_axioms co) * 8"
    using pack_pairs_ok [OF fits(5)] by blast
  obtain p3 where p3: "pack_pairs (subproperty_axioms co) = Inr p3" "length p3 = length (subproperty_axioms co) * 8"
    using pack_pairs_ok [OF fits(6)] by blast
  obtain p4 where p4: "pack_pairs (property_ranges co) = Inr p4" "length p4 = length (property_ranges co) * 8"
    using pack_pairs_ok [OF fits(7)] by blast
  obtain fc where fc: "pack_values 8 (feature_counts co) = Inr fc" "length fc = length (feature_counts co) * 8"
    using pack_values_ok [OF fits(8)] by blast
  note packed = iris(1) i(1) a(1) p(1) c(1) d(1) k(1) t(1) e1(1) e2(1) p1(1) p2(1) p3(1) p4(1) fc(1)
  have "\<exists>ss. ontology_sections co = Inr ss"
    unfolding ontology_sections_def Let_def by (simp add: packed section_of_def del: One_nat_def)
  then obtain ss where ss: "ontology_sections co = Inr ss" by blast
  show ?thesis
    using ss
  proof (rule ontology_sections_parts, goal_cases)
    case (1 iris' io ib ao' av' ac po' pb co' cv cc do dv dc kinds tags eo pp sub eq sp rg fc')
    note eqs = 1(1-15) [unfolded packed sum.inject prod.inject]
    have iri: "ib = concat iris" "io = iri_offsets" using 1(1,2) iris(1) i(1) by auto
    have tags: "map es_tag ss = [1..<21]" unfolding 1(16) by (simp add: upt_rec)
    have "\<forall>s \<in> set ss. es_count s < 2 ^ 64"
      unfolding 1(16) using small iris(3) eqs iri by (auto simp: wire_size_def)
    moreover have "HEADER_SIZE + length ss * ENTRY_SIZE + length (concat (map es_payload ss)) + CHECKSUM_SIZE = wire_size co"
      unfolding 1(16) using eqs iri iris(2,3) i(2) a(2,3) p(2) c(2,3) d(2,3) k(2) t(2) e1(2) e2(2) p1(2) p2(2) p3(2) p4(2) fc(2)
      by (auto simp: wire_size_def sizes CHECKSUM_SIZE_def)
    ultimately show ?case using that ss tags by blast
  qed
qed

lemma encode_ontology_ok:
  assumes "valid_ontology co" and "wire_size co < 2 ^ 64"
  obtains data where "encode_ontology co = Inr data" and "length data = wire_size co" and "decode_ontology data = Inr co"
proof -
  obtain ss where ss: "ontology_sections co = Inr ss"
    "HEADER_SIZE + length ss * ENTRY_SIZE + length (concat (map es_payload ss)) + CHECKSUM_SIZE = wire_size co"
    "\<forall>s \<in> set ss. es_count s < 2 ^ 64" "map es_tag ss = [1..<21]"
    by (rule ontology_sections_ok [OF assms])
  have "length (map es_tag ss) = 20" unfolding ss(4) by simp
  then have len: "length ss = 20" by simp
  have sorted: "sort_key es_tag ss = ss" by (rule sort_key_id_if_sorted) (simp only: ss(4) sorted_upt)
  have "es_tag ` set ss = {1..<21}" using ss(4) by (metis set_map set_upt)
  then have "es_tag s < 21" if "s \<in> set ss" for s using imageI [OF that, of es_tag] by simp
  then have tags: "\<forall>s \<in> set ss. es_tag s < 2 ^ 16" by fastforce
  obtain data where data: "encode_container IR_MAGIC ss = Inr data" "length data = wire_size co"
    using encode_container_ok [OF _ _ magic_length(1) _ _ sorted] ss assms(2) tags len by (auto simp: MAX_SECTIONS_def)
  have "decode_ontology data = Inr co"
    by (simp add: decode_ontology_def ontology_container [OF ss(1) data(1)] decode_sections_encode [OF assms(1) ss(1)])
  with ss(1) data show ?thesis by (intro that) (simp_all add: encode_ontology_def)
qed

lemma sample_wire_size: "wire_size sample_ontology < 2 ^ 64"
  by code_simp

text \<open>C29: A valid ontology whose encoding fits 64-bit offsets encodes, and the encoding decodes to it.\<close>

theorem ontology_codec_roundtrip:
  assumes "valid_ontology co" and "wire_size co < 2 ^ 64"
  shows "\<exists>data. encode_ontology co = Inr data \<and> decode_ontology data = Inr co"
  using encode_ontology_ok [OF assms] by blast

theorem ontology_codec_roundtrip_witness:
  "\<exists>data. encode_ontology sample_ontology = Inr data \<and> decode_ontology data = Inr sample_ontology"
  by (rule ontology_codec_roundtrip [OF sample_valid sample_wire_size])

text \<open>C32: The encoding of a valid ontology has exactly the size of its tables: a 568-byte frame, the fixed
  width of every record and the bytes of the IRIs and payloads.\<close>

theorem ontology_encoding_size:
  assumes "valid_ontology co" and "wire_size co < 2 ^ 64"
  shows "rmap length (encode_ontology co) = Inr (wire_size co)"
  using encode_ontology_ok [OF assms] by (metis rmap_simps(2))

theorem ontology_encoding_size_witness:
  "rmap length (encode_ontology sample_ontology) = Inr (wire_size sample_ontology)"
  by (rule ontology_encoding_size [OF sample_valid sample_wire_size])

section \<open>Refusals\<close>

lemma decoded_ontology_valid: "decode_ontology data = Inr co \<Longrightarrow> valid_ontology co"
  unfolding decode_ontology_def decode_ontology_sections_def new_compiled_ontology_def Let_def valid_ontology_def
  by (auto split: if_splits)

lemma decoded_query_valid: "decode_query_ir data = Inr q \<Longrightarrow> valid_query q"
  unfolding decode_query_ir_def decode_query_sections_def new_query_ir_def Let_def valid_query_def
  by (auto split: if_splits)

text \<open>C31: Decoding any byte string gives tables that pass the checks of their constructor, or raises a
  protocol error and nothing else; the same for queries.\<close>

theorem decoding_checked:
  "(case decode_ontology data of Inl x \<Rightarrow> x = BackendProtocolError | Inr co \<Rightarrow> valid_ontology co) \<and>
   (case decode_query_ir data of Inl x \<Rightarrow> x = BackendProtocolError | Inr q \<Rightarrow> valid_query q)"
  using decode_ontology_raises [of data] decode_query_raises [of data] decoded_ontology_valid [of data] decoded_query_valid [of data]
  by (auto simp: raises_def split: sum.split)

section \<open>Queries\<close>

lemma pack_raises [raises_intros]: "length ws = length vs \<Longrightarrow> raises {StructError} (pack ws vs)"
  by (induction ws vs rule: list_induct2) (auto simp: pack_int_def rappend_def intro!: raises_intros)

lemma encode_rows_raises [raises_intros]:
  "raises {StructError} (pack_values w vs)" "raises {StructError} (pack_pairs ps)" "raises {StructError} (encode_occurrences os)"
  "raises {StructError} (encode_csr rows)" "raises {StructError} (encode_byte_csr brows)"
  by (auto simp: pack_values_def pack_pairs_def encode_occurrences_def encode_csr_def encode_byte_csr_def
      simp del: pack.simps intro!: raises_intros)

lemma section_of_raises [raises_intros]: "raises E m \<Longrightarrow> raises E (section_of t k m)"
  by (auto simp: section_of_def intro: raises_intros)

lemma query_sections_raises:
  assumes "rall entity_record_check (map entity (qi_entities q)) = Inr ()"
  shows "raises {StructError} (query_sections q)"
proof -
  have "raises {StructError} (rmap_list (\<lambda>r. utf8_encode (iri r)) (map entity (qi_entities q)))"
    using assms by (intro raises_rmap_list)
      (auto simp: rall_Inr_iff entity_record_check_def raises_def split: sum.splits)
  then show ?thesis
    unfolding query_sections_def Let_def
    by (rule raises_rbind) (auto intro!: raises_intros simp del: pack.simps)
qed

lemma query_tags_sorted:
  assumes "query_sections q = Inr ss"
  shows "map es_tag ss = [1..<15]"
  using assms by (rule query_sections_parts) (simp add: upt_rec)

lemma query_container_raises:
  assumes "query_sections q = Inr ss"
  shows "raises {StructError} (encode_container QUERY_MAGIC ss)"
proof -
  note tags = query_tags_sorted [OF assms]
  have "length (map es_tag ss) = 14" unfolding tags by simp
  then have "length ss = 14" by simp
  moreover have "sort_key es_tag ss = ss" by (rule sort_key_id_if_sorted) (simp only: tags sorted_upt)
  moreover have "distinct (map es_tag ss)" unfolding tags by simp
  moreover have "raises {StructError} (directory_from n ss)" for n
    by (induction ss arbitrary: n) (auto simp: rappend_def DIRECTORY_ENTRY_def simp del: pack.simps intro!: raises_intros)
  ultimately show ?thesis
    by (auto simp: encode_container_def Let_def MAX_SECTIONS_def HEADER_FIELDS_def simp del: pack.simps intro!: raises_intros)
qed

text \<open>The size of an encoded query: a 412-byte frame, the fixed width of every record and the variable parts.\<close>

definition query_wire_size :: "query_ir \<Rightarrow> nat" where
  "query_wire_size q = 412 + 1 + 4 + 13 * length (qi_entities q) + 8 +
     (\<Sum>r\<leftarrow>map entity (qi_entities q). case utf8_encode (iri r) of Inl _ \<Rightarrow> 0 | Inr bs \<Rightarrow> length bs) +
     17 * length (qi_expressions q) + 16 + 4 * length (concat (map arguments (qi_expressions q))) +
     length (concat (map payload (qi_expressions q))) +
     16 * length (qi_expression_occurrences q) + 16 * length (qi_property_occurrences q) +
     8 * length (qi_subsumption_obligations q)"

lemma valid_query_fits:
  assumes "valid_query q"
  shows "\<forall>row \<in> set (map arguments (qi_expressions q)). \<forall>v \<in> set row. v < 256 ^ 4"
    and "\<forall>v \<in> set (map (\<lambda>r. case ontology_id r of None \<Rightarrow> U32_RESERVED | Some i \<Rightarrow> i) (qi_entities q)). v < 256 ^ 4"
    and "(case qi_root_expression q of None \<Rightarrow> U32_RESERVED | Some r \<Rightarrow> r) < 256 ^ 4"
    and "\<forall>(a, b) \<in> set (qi_subsumption_obligations q). a < 256 ^ 4 \<and> b < 256 ^ 4"
proof -
  note v = valid_query_records [OF assms]
  have reserved: "U32_RESERVED < 256 ^ 4" by (simp add: U32_RESERVED_def)
  show "\<forall>row \<in> set (map arguments (qi_expressions q)). \<forall>v \<in> set row. v < 256 ^ 4"
    using v(3) check_fits(1) by (auto simp: rall_Inr_iff expression_record_check_def simp del: power_numeral)
  show "\<forall>v \<in> set (map (\<lambda>r. case ontology_id r of None \<Rightarrow> U32_RESERVED | Some i \<Rightarrow> i) (qi_entities q)). v < 256 ^ 4"
    using v(2) check_fits(1) reserved
    by (auto simp: rall_Inr_iff query_entity_record_check_def simp del: power_numeral split: option.splits)
  show "(case qi_root_expression q of None \<Rightarrow> U32_RESERVED | Some r \<Rightarrow> r) < 256 ^ 4"
    using v(6) check_fits(1) reserved
    by (auto simp: validate_query_root_def simp del: power_numeral split: option.splits query_ir_kind.splits)
  have "validate_sorted_pairs (qi_subsumption_obligations q) (length (qi_expressions q)) (length (qi_expressions q)) = Inr ()"
    using assms by (simp add: valid_query_def query_ir_check_def Let_def)
  then show "\<forall>(a, b) \<in> set (qi_subsumption_obligations q). a < 256 ^ 4 \<and> b < 256 ^ 4" by (rule sorted_pairs_fit)
qed

lemma query_sections_ok:
  assumes valid: "valid_query q" and small: "query_wire_size q < 2 ^ 64"
  obtains ss where "query_sections q = Inr ss"
    and "HEADER_SIZE + length ss * ENTRY_SIZE + length (concat (map es_payload ss)) + CHECKSUM_SIZE = query_wire_size q"
    and "\<forall>s \<in> set ss. es_count s < 2 ^ 64"
proof -
  note v = valid_query_records [OF valid] and fits = valid_query_fits [OF valid]
  let ?bytes = "\<Sum>r\<leftarrow>map entity (qi_entities q). case utf8_encode (iri r) of Inl _ \<Rightarrow> 0 | Inr bs \<Rightarrow> length bs"
  obtain iris where iris: "rmap_list (\<lambda>r. utf8_encode (iri r)) (map entity (qi_entities q)) = Inr iris"
    "length iris = length (map entity (qi_entities q))" "length (concat iris) = ?bytes" by (rule encoded_iris [OF v(1)])
  have "length (concat iris) < 2 ^ 64" using small iris(3) by (simp add: query_wire_size_def)
  then obtain iri_offsets where i: "encode_byte_csr iris = Inr (iri_offsets, concat iris)" "length iri_offsets = Suc (length iris) * 8"
    using encode_byte_csr_ok by blast
  have "length (concat (map arguments (qi_expressions q))) < 2 ^ 64" using small by (simp add: query_wire_size_def)
  then obtain ao av where a: "encode_csr (map arguments (qi_expressions q)) = Inr (ao, av, length (concat (map arguments (qi_expressions q))))"
    "length ao = Suc (length (map arguments (qi_expressions q))) * 8" "length av = length (concat (map arguments (qi_expressions q))) * 4"
    using encode_csr_ok [OF _ fits(1)] by blast
  have "length (concat (map payload (qi_expressions q))) < 2 ^ 64" using small by (simp add: query_wire_size_def)
  then obtain po where p: "encode_byte_csr (map payload (qi_expressions q)) = Inr (po, concat (map payload (qi_expressions q)))"
    "length po = Suc (length (map payload (qi_expressions q))) * 8"
    using encode_byte_csr_ok by blast
  have "\<forall>v \<in> set (map (entity_kind_int \<circ> kind) (map entity (qi_entities q))). v < 256 ^ 1"
    by (auto intro: less_le_trans [OF kind_small])
  then obtain ks where k: "pack_values 1 (map (entity_kind_int \<circ> kind) (map entity (qi_entities q))) = Inr ks" "length ks = length (qi_entities q)"
    using pack_values_ok by fastforce
  have "\<forall>v \<in> set (map (expression_tag_int \<circ> tag) (qi_expressions q)). v < 256 ^ 1"
    by (auto intro: less_le_trans [OF tag_small])
  then obtain ts where t: "pack_values 1 (map (expression_tag_int \<circ> tag) (qi_expressions q)) = Inr ts" "length ts = length (qi_expressions q)"
    using pack_values_ok by fastforce
  obtain ids where ids: "pack_values 4 (map (\<lambda>r. case ontology_id r of None \<Rightarrow> U32_RESERVED | Some i \<Rightarrow> i) (qi_entities q)) = Inr ids"
    "length ids = length (qi_entities q) * 4"
    using pack_values_ok [OF fits(2)] by auto
  have "query_ir_kind_int (qi_kind q) < 256 ^ 1" by (cases "qi_kind q") simp_all
  then obtain kd where kd: "pack [1] [query_ir_kind_int (qi_kind q)] = Inr kd" "length kd = 1" using pack_one_ok by blast
  obtain root where root: "pack [4] [case qi_root_expression q of None \<Rightarrow> U32_RESERVED | Some r \<Rightarrow> r] = Inr root" "length root = 4"
    using pack_one_ok [OF fits(3)] by blast
  obtain e1 where e1: "encode_occurrences (qi_expression_occurrences q) = Inr e1" "length e1 = length (qi_expression_occurrences q) * 16"
    using encode_occurrences_ok [OF v(4)] by blast
  obtain e2 where e2: "encode_occurrences (qi_property_occurrences q) = Inr e2" "length e2 = length (qi_property_occurrences q) * 16"
    using encode_occurrences_ok [OF v(5)] by blast
  obtain p1 where p1: "pack_pairs (qi_subsumption_obligations q) = Inr p1" "length p1 = length (qi_subsumption_obligations q) * 8"
    using pack_pairs_ok [OF fits(4)] by blast
  note packed = iris(1) i(1) a(1) p(1) k(1) t(1) ids(1) kd(1) root(1) e1(1) e2(1) p1(1)
  have "\<exists>ss. query_sections q = Inr ss"
    unfolding query_sections_def Let_def by (simp add: packed section_of_def del: One_nat_def pack.simps map_map)
  then obtain ss where ss: "query_sections q = Inr ss" by blast
  show ?thesis
    using ss
  proof (rule query_sections_parts, goal_cases)
    case (1 iris' io ib ao' av' ac po' pb kd' kinds' ids' tags' eo pp root' sub)
    note eqs = 1(1-12) [unfolded packed sum.inject prod.inject]
    have iri: "ib = concat iris" "io = iri_offsets" using 1(1,2) iris(1) i(1) by auto
    have "\<forall>s \<in> set ss. es_count s < 2 ^ 64"
      unfolding 1(13) using small iris(3) eqs iri by (auto simp: query_wire_size_def)
    moreover have "HEADER_SIZE + length ss * ENTRY_SIZE + length (concat (map es_payload ss)) + CHECKSUM_SIZE = query_wire_size q"
      unfolding 1(13) using eqs iri iris(2,3) i(2) a(2,3) p(2) k(2) t(2) ids(2) kd(2) root(2) e1(2) e2(2) p1(2)
      by (auto simp: query_wire_size_def sizes CHECKSUM_SIZE_def)
    ultimately show ?case using that ss by blast
  qed
qed

lemma encode_query_ok:
  assumes "valid_query q" and "query_wire_size q < 2 ^ 64"
  shows "\<exists>data. encode_query_ir q = Inr data \<and> length data = query_wire_size q \<and> decode_query_ir data = Inr q"
proof -
  obtain ss where ss: "query_sections q = Inr ss"
    "HEADER_SIZE + length ss * ENTRY_SIZE + length (concat (map es_payload ss)) + CHECKSUM_SIZE = query_wire_size q"
    "\<forall>s \<in> set ss. es_count s < 2 ^ 64"
    by (rule query_sections_ok [OF assms])
  note tags = query_tags_sorted [OF ss(1)]
  have "length (map es_tag ss) = 14" unfolding tags by simp
  then have len: "length ss = 14" by simp
  have sorted: "sort_key es_tag ss = ss" by (rule sort_key_id_if_sorted) (simp only: tags sorted_upt)
  have "es_tag ` set ss = {1..<15}" using tags by (metis set_map set_upt)
  then have "es_tag s < 15" if "s \<in> set ss" for s using imageI [OF that, of es_tag] by simp
  then have small: "\<forall>s \<in> set ss. es_tag s < 2 ^ 16" by fastforce
  obtain data where data: "encode_container QUERY_MAGIC ss = Inr data" "length data = query_wire_size q"
    using encode_container_ok [OF _ _ magic_length(2) _ _ sorted] ss tags assms(2) small len by (auto simp: MAX_SECTIONS_def)
  have "decode_query_ir data = Inr q"
    by (simp add: decode_query_ir_def query_container [OF ss(1) data(1)] decode_query_encode [OF assms(1) ss(1)])
  moreover have "encode_query_ir q = Inr data" using valid_query_records(1) [OF assms(1)] ss(1) data(1) by (simp add: encode_query_ir_def)
  ultimately show ?thesis using data(2) by blast
qed

definition sample_query :: query_ir where
  "sample_query = \<lparr>qi_kind = CLASS_EXPRESSION,
     qi_entities = [\<lparr>entity = \<lparr>kind = CLASS, iri = py_literal ''urn:A''\<rparr>, ontology_id = Some 2\<rparr>,
       \<lparr>entity = \<lparr>kind = OBJECT_PROPERTY, iri = py_literal ''urn:q''\<rparr>, ontology_id = None\<rparr>],
     qi_expressions = [class_row 0, some_row 1 0], qi_expression_occurrences = replicate 2 \<lparr>negative = 1, positive = 0\<rparr>,
     qi_property_occurrences = [\<lparr>negative = 1, positive = 0\<rparr>], qi_root_expression = Some 1,
     qi_subsumption_obligations = []\<rparr>"

lemma sample_query_valid: "valid_query sample_query"
  unfolding valid_query_def by code_simp

lemma sample_query_size: "query_wire_size sample_query < 2 ^ 64"
  by code_simp

text \<open>C30: A valid query whose encoding fits 64-bit offsets encodes to exactly the bytes of its tables, and the
  encoding decodes to it.  Beyond that size the encoder raises only \<open>struct.error\<close>, and what it returns still decodes
  to the query.\<close>

theorem query_codec_roundtrip:
  assumes "valid_query q"
  shows "if query_wire_size q < 2 ^ 64
    then \<exists>data. encode_query_ir q = Inr data \<and> length data = query_wire_size q \<and> decode_query_ir data = Inr q
    else (case encode_query_ir q of Inl x \<Rightarrow> x = StructError | Inr data \<Rightarrow> decode_query_ir data = Inr q)"
proof (cases "encode_query_ir q")
  case (Inl x)
  have "raises {StructError} (encode_query_ir q)"
    unfolding encode_query_ir_def
    by (intro raises_rbind query_sections_raises query_container_raises valid_query_records(1) [OF assms])
  with Inl have "x = StructError" by (simp add: raises_def)
  moreover have "\<not> query_wire_size q < 2 ^ 64" using encode_query_ok [OF assms] Inl by auto
  ultimately show ?thesis using Inl by (simp only: if_False sum.case)
next
  case (Inr data)
  then obtain ss where ss: "query_sections q = Inr ss" "encode_container QUERY_MAGIC ss = Inr data"
    by (auto simp: encode_query_ir_def)
  have "decode_query_ir data = Inr q"
    by (simp add: decode_query_ir_def query_container [OF ss] decode_query_encode [OF assms ss(1)])
  with Inr show ?thesis using encode_query_ok [OF assms] by auto
qed

theorem query_codec_roundtrip_witness:
  "\<exists>data. encode_query_ir sample_query = Inr data \<and> length data = 571 \<and> decode_query_ir data = Inr sample_query"
proof -
  have "query_wire_size sample_query = 571" by code_simp
  with query_codec_roundtrip [OF sample_query_valid] sample_query_size show ?thesis by auto
qed

end
