(* ===== verification/Engine_Progress.thy ===== *)
theory Engine_Progress
  imports Engine_Results
begin

text \<open>
  A run that is stopped has still done some of the work, so a client that starts it again as long as it is
  stopped gets the whole answer in the end.
\<close>

section \<open>A stopped run has done something\<close>

lemma run_local_moves:
  assumes inv: "engine_inv co ps roots e" and claimed: "claimed_root e = Some root"
    and go: "\<not> budget_exhausted max_conclusions (fst ctr)" "\<not> interrupt (snd ctr)"
    and r: "run_local max_conclusions interrupt root ctr e = Some (out, e')"
  shows "has_local_work root e \<Longrightarrow> work co ps e' < work co ps e"
    and "\<not> has_local_work root e \<Longrightarrow> out = Inr ctr \<and> e' = e"
proof -
  show "work co ps e' < work co ps e" if work: "has_local_work root e"
  proof -
    obtain p inserted e1 e2 where s: "next_premise root e = (Inr (p, inserted), e1)"
      "dispatch_premise root p e1 = (Inr (), e2)" "engine_inv co ps roots e2"
      "claimed_root e2 = Some root" "work co ps e2 < work co ps e" "query_roots e2 = query_roots e"
      "all_stored e \<subseteq> all_stored e2" "allocated e \<subseteq> allocated e2"
      by (rule local_step [OF inv claimed work])
    let ?ctr = "(if inserted then fst ctr + 1 else fst ctr, snd ctr + 1)"
    have "run_local max_conclusions interrupt root ctr e = run_local max_conclusions interrupt root ?ctr e2"
      using work go s(1,2) by (subst run_local.simps) simp
    with r run_local_total [OF s(3,4), of max_conclusions interrupt ?ctr]
    have "work co ps e' < work co ps e2 \<or> e' = e2" by auto
    with s(5) show ?thesis by auto
  qed
  show "out = Inr ctr \<and> e' = e" if "\<not> has_local_work root e"
    using r that by (subst (asm) run_local.simps) simp
qed

lemma run_active_moves:
  assumes "at_rest co ps roots e" and "\<not> budget_exhausted max_conclusions (fst ctr)" and "\<not> interrupt (snd ctr)"
    and "run_active max_conclusions interrupt ctr e = Some (Inl x, e')"
  shows "work co ps e' < work co ps e"
  using assms
proof (induction "length (active e)" arbitrary: e rule: less_induct)
  case less
  have inv: "engine_inv co ps roots e" and idle: "claimed_root e = None" using less.prems(1) by (simp_all add: at_rest_def)
  show ?case
  proof (cases "active e")
    case Nil
    with less.prems(4) show ?thesis by (subst (asm) run_active.simps) simp
  next
    case (Cons root rest)
    obtain e1 where e1: "claim_root root rest e = e1" "engine_inv co ps roots e1" "claimed_root e1 = Some root"
      "active e1 = rest" "query_roots e1 = query_roots e" "all_stored e1 = all_stored e"
      "allocated e1 = allocated e" "work co ps e1 = work co ps e"
      by (rule claim_root_ok [OF inv Cons idle])
    obtain out e2 where e2: "run_local max_conclusions interrupt root ctr e1 = Some (out, e2)"
      "engine_inv co ps roots e2" "claimed_root e2 = Some root"
      "case out of Inl x \<Rightarrow> may_stop max_conclusions interrupt x \<and> has_local_work root e2
         | Inr _ \<Rightarrow> \<not> has_local_work root e2"
      using run_local_total [OF e1(2,3), of max_conclusions interrupt ctr] by blast
    note moves = run_local_moves [OF e1(2,3) less.prems(2,3) e2(1)]
    show ?thesis
    proof (cases out)
      case (Inl y)
      then have work: "has_local_work root e2" using e2(4) by simp
      have "e' = release_root root e2"
        using less.prems(4) Cons e1(1) e2(1) Inl by (subst (asm) run_active.simps) simp
      moreover have "work co ps e2 < work co ps e1" using moves Inl by auto
      ultimately show ?thesis using release_root_ok(6) [OF e2(2,3) work] e1(8) by simp
    next
      case (Inr ctr')
      then have finished: "\<not> has_local_work root e2" using e2(4) by simp
      obtain e3 where e3: "(case saturate_root root e2 of (out, e1) \<Rightarrow> (out, release_root root e1)) = (Inr (), e3)"
        "engine_inv co ps roots e3" "claimed_root e3 = None" "active e3 = active e2" "work co ps e3 = work co ps e2"
        by (rule saturate_root_ok [OF e2(2,3) finished])
      obtain e3' where sat: "saturate_root root e2 = (Inr (), e3')" "release_root root e3' = e3"
        using e3(1) by (cases "saturate_root root e2") auto
      have step: "run_active max_conclusions interrupt ctr' e3 = Some (Inl x, e')"
        using less.prems(4) Cons e1(1) e2(1) Inr sat by (subst (asm) run_active.simps) simp
      have rest3: "at_rest co ps roots e3" using e3(2,3) by (simp add: at_rest_def)
      show ?thesis
      proof (cases "has_local_work root e1")
        case True
        have "work co ps e' \<le> work co ps e3"
          using run_active_total [OF rest3, of max_conclusions interrupt ctr'] step by auto
        with moves(1) [OF True] e3(5) e1(8) show ?thesis by simp
      next
        case False
        with moves(2) Inr have same: "ctr' = ctr" "e2 = e1" by auto
        have "work co ps e' < work co ps e3"
          by (rule less.hyps [OF _ rest3 less.prems(2,3)]) (use step same e1(4) e3(4) Cons in simp_all)
        with e3(5) same e1(8) show ?thesis by simp
      qed
    qed
  qed
qed

lemma run_moves:
  assumes rest: "at_rest co ps roots e" and rs: "\<forall>r \<in> set rs. is_expression co r"
    and go: "max_conclusions \<noteq> Some 0" "\<not> interrupt 0"
    and r: "run rs max_conclusions interrupt e = Some (Inl x, e')"
  shows "work co ps e' < work co ps e"
proof -
  have inv: "engine_inv co ps roots e" using rest by (simp add: at_rest_def)
  note i = engine_invD(1,2) [OF inv]
  let ?rs = "sorted_list_of_set (set rs)"
  have checked: "rmap_list (checked_root e) rs = Inr rs" using checked_roots [OF i, of rs] rs by simp
  obtain e1 where e1: "ensure_all ?rs e = (Inr (), e1)" "at_rest co ps (roots \<union> set rs) e1"
    using run_with_roots [OF rest rs] by blast
  obtain e0 N where "ensure_all ?rs e = (Inr (), e0)" "grows N e e0"
    using ensure_all_ok [OF i, of ?rs] rs by auto
  then have same: "work co ps e1 = work co ps e" using e1(1) grows_work by fastforce
  obtain out e2 where e2: "run_active max_conclusions interrupt (0, 0) e1 = Some (out, e2)"
    "case out of Inl x \<Rightarrow> may_stop max_conclusions interrupt x | Inr _ \<Rightarrow> active e2 = []" "at_rest co ps (roots \<union> set rs) e2"
    using run_active_total [OF e1(2), of max_conclusions interrupt "(0, 0)"] by blast
  have "\<exists>snap. snapshot False e2 = Inr snap" if "out = Inr u" for u
  proof -
    have "engine_inv co ps (roots \<union> set rs) e2" using e2(3) by (simp add: at_rest_def)
    note i2 = engine_invD(1,2) [OF this]
    show ?thesis using snapshot_total [OF i2(1) struct_invD(1) [OF i2(2)]] by blast
  qed
  with r e1(1) e2(1) checked obtain y where y: "out = Inl y" "e' = count (\<lambda>d. d\<lparr>interrupted_runs := interrupted_runs d + 1\<rparr>) e2"
    by (cases out) (auto simp: run_def)
  have "\<not> budget_exhausted max_conclusions (fst (0, 0))" using go(1) by (auto simp: budget_exhausted_def split: option.splits)
  from run_active_moves [OF e1(2) this] go(2) e2(1) y same show ?thesis by (simp add: work_def all_stored_def stored_of_def retries_def)
qed

section \<open>Starting again until it ends\<close>

text \<open>A client that starts a stopped run again, up to \<open>n\<close> more times.\<close>

primrec attempts :: "nat \<Rightarrow> nat list \<Rightarrow> nat option \<Rightarrow> (nat \<Rightarrow> bool) \<Rightarrow> engine \<Rightarrow> saturation_snapshot outcome option" where
  "attempts 0 rs max_conclusions interrupt e = run rs max_conclusions interrupt e"
| "attempts (Suc n) rs max_conclusions interrupt e = (case run rs max_conclusions interrupt e of
     Some (Inl x, e') \<Rightarrow> attempts n rs max_conclusions interrupt e'
   | out \<Rightarrow> out)"

lemma attempts_end:
  assumes "at_rest co ps roots e" and "\<forall>r \<in> set rs. is_expression co r" and "max_conclusions \<noteq> Some 0" and "\<not> interrupt 0"
  obtains n snap e' where "attempts n rs max_conclusions interrupt e = Some (Inr snap, e')"
    and "at_rest co ps (roots \<union> set rs) e'" and "active e' = []" and "snapshot False e' = Inr snap"
proof -
  have "\<exists>n snap e'. attempts n rs max_conclusions interrupt e = Some (Inr snap, e') \<and>
      at_rest co ps (roots \<union> set rs) e' \<and> active e' = [] \<and> snapshot False e' = Inr snap"
    using assms(1,2)
  proof (induction "work co ps e" arbitrary: e roots rule: less_induct)
    case less
    obtain out e' where r: "run rs max_conclusions interrupt e = Some (out, e')"
      "at_rest co ps (roots \<union> set rs) e'" "query_roots e' = query_roots e"
      "all_stored e \<subseteq> all_stored e'" "set rs \<union> allocated e \<subseteq> allocated e'"
      "case out of Inl x \<Rightarrow> may_stop max_conclusions interrupt x
        | Inr snap \<Rightarrow> snapshot False e' = Inr snap \<and> active e' = []"
      by (rule run_computes [OF less.prems])
    show ?case
    proof (cases out)
      case (Inl x)
      have "work co ps e' < work co ps e"
        by (rule run_moves [where interrupt = interrupt, OF less.prems assms(3,4)]) (use r(1) Inl in simp)
      from less.hyps [OF this r(2) less.prems(2)] obtain n snap e'' where
        "attempts n rs max_conclusions interrupt e' = Some (Inr snap, e'')"
        "at_rest co ps (roots \<union> set rs) e''" "active e'' = []" "snapshot False e'' = Inr snap" by (auto simp: Un_assoc)
      with r(1) Inl show ?thesis by (intro exI [of _ "Suc n"] exI [of _ snap] exI [of _ e'']) simp
    next
      case (Inr snap)
      with r show ?thesis by (intro exI [of _ 0] exI [of _ snap] exI [of _ e']) simp
    qed
  qed
  with that show ?thesis by blast
qed

text \<open>C40: Whatever was done to an engine before, a client that starts a run again each time its budget or its callback
  stopped it gets the whole snapshot after finitely many attempts, the one an unrestricted run returns, provided
  the budget allows one conclusion and the callback does not stop the run at its first call.\<close>

theorem stopped_runs_finish:
  assumes "usable_ontology co" and "used co roots e" and "\<forall>r \<in> set rs. is_expression co r"
    and "max_conclusions \<noteq> Some 0" and "\<not> interrupt 0"
  shows "\<exists>n snap e' e''. attempts n rs max_conclusions interrupt e = Some (Inr snap, e') \<and> \<not> has_pending_work e' \<and>
    run rs None never e = Some (Inr snap, e'')"
proof -
  obtain ps where ps: "saturate_properties co = Some (Inr ps)" by (rule used_setting [OF assms(1)])
  have rest: "at_rest co ps roots e" by (rule used_at_rest [OF assms(1) ps assms(2)])
  obtain n snap e' where a: "attempts n rs max_conclusions interrupt e = Some (Inr snap, e')"
    "at_rest co ps (roots \<union> set rs) e'" "active e' = []" "snapshot False e' = Inr snap"
    by (rule attempts_end [where interrupt = interrupt, OF rest assms(3-5)])
  obtain snap2 e'' where u: "run rs None never e = Some (Inr snap2, e'')" "at_rest co ps (roots \<union> set rs) e''"
    "snapshot False e'' = Inr snap2" "active e'' = []"
    by (rule run_unlimited [OF rest assms(3)])
  from idle_snapshot_canonical [OF a(2,3) u(2,4), of False] a(4) u(3) have "snap2 = snap" by simp
  moreover have "\<not> has_pending_work e'" using a(2,3) by (simp add: has_pending_work_def at_rest_def)
  ultimately show ?thesis using a(1) u(1) by blast
qed

theorem stopped_runs_finish_witness:
  "\<exists>e. create_engine sample_ontology = Some (Inr e) \<and> (\<exists>n snap e' e''. attempts n [2] (Some 1) (\<lambda>n. 2 \<le> n) e = Some (Inr snap, e') \<and>
    \<not> has_pending_work e' \<and> run [2] None never e = Some (Inr snap, e''))"
proof -
  obtain e where e: "create_engine sample_ontology = Some (Inr e)" "used sample_ontology {} e"
    using sample_used by blast
  from stopped_runs_finish [OF sample_usable e(2) sample_roots, of "Some 1" "\<lambda>n. 2 \<le> n"] e(1) show ?thesis by auto
qed

end
