(* ===== verification/Builder.thy ===== *)
theory Builder
  imports Query_IR Utf8
begin

text \<open>
  \<open>src/pyelk/indexing/polarity.py\<close> and \<open>src/pyelk/indexing/builder.py\<close>: the mutable index one axiom or
  query is converted into, the transaction around it, and the deterministic freezing into tables.  A
  Python \<open>set\<close> is a list without repetition in the order of insertion; what leaves the builder is sorted.
  The state a raising operation leaves is dropped, as its caller drops it.
\<close>

section \<open>Polarity\<close>

datatype index_polarity = NEUTRAL | NEGATIVE | POSITIVE | DUAL

fun polarity_negative :: "index_polarity \<Rightarrow> nat" where
  "polarity_negative NEGATIVE = 1"
| "polarity_negative DUAL = 1"
| "polarity_negative _ = 0"

fun polarity_positive :: "index_polarity \<Rightarrow> nat" where
  "polarity_positive POSITIVE = 1"
| "polarity_positive DUAL = 1"
| "polarity_positive _ = 0"

fun complementary :: "index_polarity \<Rightarrow> index_polarity" where
  "complementary NEGATIVE = POSITIVE"
| "complementary POSITIVE = NEGATIVE"
| "complementary p = p"

section \<open>The mutable index\<close>

definition dict_at :: "('k, 'v) dict \<Rightarrow> 'k \<Rightarrow> 'v result" where
  "dict_at d k = (case dict_get d k of None \<Rightarrow> Inl KeyError | Some v \<Rightarrow> Inr v)"

definition list_at :: "'a list \<Rightarrow> nat \<Rightarrow> 'a result" where
  "list_at xs i = (if i < length xs then Inr (xs ! i) else Inl IndexError)"

definition add_new :: "'a \<Rightarrow> 'a list \<Rightarrow> 'a list" where
  "add_new x xs = (if x \<in> set xs then xs else xs @ [x])"

definition add_all :: "'a list \<Rightarrow> 'a list \<Rightarrow> 'a list" where
  "add_all new xs = fold add_new new xs"

text \<open>\<open>{value: index for index, value in enumerate(values)}\<close>\<close>

definition enumeration :: "'a list \<Rightarrow> ('a, nat) dict" where
  "enumeration values = fold (\<lambda>(i, v). dict_put v i) (enumerate 0 values) []"

record index_key =
  key_tag :: expression_tag
  key_entities :: "entity_record list"
  key_expressions :: "nat list"
  key_payload :: bytes

definition key_dependencies :: "index_key \<Rightarrow> nat list" where
  "key_dependencies key = remdups (key_expressions key)"

definition rewritten_arguments ::
    "(entity_record, nat) dict \<Rightarrow> (nat, nat) dict \<Rightarrow> index_key \<Rightarrow> nat list result" where
  "rewritten_arguments entity_ids expression_ids key =
     (if key_tag key = OBJECT_SOME_VALUES_FROM then
        rbind (rbind (list_at (key_entities key) 0) (dict_at entity_ids)) (\<lambda>p.
        rbind (rbind (list_at (key_expressions key) 0) (dict_at expression_ids)) (\<lambda>f. Inr [p, f]))
      else if key_entities key \<noteq> [] then rmap_list (dict_at entity_ids) (key_entities key)
      else rmap_list (dict_at expression_ids) (key_expressions key))"

definition checked_add :: "nat \<Rightarrow> nat \<Rightarrow> nat result" where
  "checked_add current increment =
     (let total = current + increment in if U64_MAX < total then Inl OverflowError else Inr total)"

definition add_occurrences :: "occurrence \<Rightarrow> nat \<Rightarrow> nat \<Rightarrow> occurrence result" where
  "add_occurrences occ neg pos = rbind (checked_add (negative occ) neg) (\<lambda>n.
     rbind (checked_add (positive occ) pos) (\<lambda>p. Inr \<lparr>negative = n, positive = p\<rparr>))"

definition no_occurrence :: occurrence where
  "no_occurrence = \<lparr>negative = 0, positive = 0\<rparr>"

record mutable_index =
  mi_entities :: "entity_record list"
  mi_expressions :: "index_key list"
  mi_expression_ids :: "(index_key, nat) dict"
  mi_expression_occurrences :: "occurrence list"
  mi_property_occurrences :: "(entity_record, occurrence) dict"
  mi_property_chains :: "entity_record list list"
  mi_subclass_axioms :: "(nat \<times> nat) list"
  mi_equivalent_class_axioms :: "(nat \<times> nat) list"
  mi_disjoint_groups :: "nat list list"
  mi_subproperty_axioms :: "(entity_record list \<times> entity_record) list"
  mi_property_ranges :: "(entity_record \<times> nat) list"
  mi_feature_counts :: "nat list"
  mi_compatibility_observations :: "bytes list"

definition empty_index :: mutable_index where
  "empty_index = \<lparr>mi_entities = [], mi_expressions = [], mi_expression_ids = [], mi_expression_occurrences = [],
     mi_property_occurrences = [], mi_property_chains = [], mi_subclass_axioms = [],
     mi_equivalent_class_axioms = [], mi_disjoint_groups = [], mi_subproperty_axioms = [],
     mi_property_ranges = [], mi_feature_counts = replicate FEATURE_VECTOR_LENGTH 0,
     mi_compatibility_observations = []\<rparr>"

definition add_entity :: "entity_record \<Rightarrow> mutable_index \<Rightarrow> mutable_index" where
  "add_entity e m = m\<lparr>mi_entities := add_new e (mi_entities m)\<rparr>"

definition intern_expression ::
    "expression_tag \<Rightarrow> entity_record list \<Rightarrow> nat list \<Rightarrow> bytes \<Rightarrow> index_polarity \<Rightarrow> mutable_index \<Rightarrow> (nat \<times> mutable_index) result" where
  "intern_expression t es xs bs pol m = (
     let m = fold add_entity es m;
       key = \<lparr>key_tag = t, key_entities = es, key_expressions = xs, key_payload = bs\<rparr>;
       (handle, m) = (case dict_get (mi_expression_ids m) key of
           Some handle \<Rightarrow> (handle, m)
         | None \<Rightarrow> (length (mi_expressions m),
             m\<lparr>mi_expression_ids := dict_put key (length (mi_expressions m)) (mi_expression_ids m),
               mi_expressions := mi_expressions m @ [key],
               mi_expression_occurrences := mi_expression_occurrences m @ [no_occurrence]\<rparr>)) in
     rbind (add_occurrences (mi_expression_occurrences m ! handle) (polarity_negative pol) (polarity_positive pol)) (\<lambda>occ.
     Inr (handle, m\<lparr>mi_expression_occurrences := (mi_expression_occurrences m)[handle := occ]\<rparr>)))"

definition index_expression_tag :: "mutable_index \<Rightarrow> nat \<Rightarrow> expression_tag result" where
  "index_expression_tag m handle = rmap key_tag (list_at (mi_expressions m) handle)"

definition add_property_occurrence :: "entity_record \<Rightarrow> nat \<Rightarrow> nat \<Rightarrow> mutable_index \<Rightarrow> mutable_index result" where
  "add_property_occurrence e neg pos m =
     (let occ = (case dict_get (mi_property_occurrences m) e of None \<Rightarrow> no_occurrence | Some occ \<Rightarrow> occ) in
      rmap (\<lambda>occ. m\<lparr>mi_property_occurrences := dict_put e occ (mi_property_occurrences m)\<rparr>) (add_occurrences occ neg pos))"

definition record_object_property :: "entity_record \<Rightarrow> index_polarity \<Rightarrow> mutable_index \<Rightarrow> mutable_index result" where
  "record_object_property e pol m =
     (if kind e \<noteq> OBJECT_PROPERTY then Inl PyTypeError
      else add_property_occurrence e (polarity_negative pol) (polarity_positive pol) (add_entity e m))"

definition add_feature :: "nat \<Rightarrow> nat \<Rightarrow> mutable_index \<Rightarrow> mutable_index result" where
  "add_feature i n m =
     (if \<not> i < FEATURE_VECTOR_LENGTH then Inl IndexError
      else rmap (\<lambda>v. m\<lparr>mi_feature_counts := (mi_feature_counts m)[i := v]\<rparr>) (checked_add (mi_feature_counts m ! i) n))"

definition observe_compatibility_spelling :: "bytes \<Rightarrow> mutable_index \<Rightarrow> mutable_index result" where
  "observe_compatibility_spelling observation m =
     (if observation = [] then Inl PyTypeError
      else Inr (m\<lparr>mi_compatibility_observations := add_new observation (mi_compatibility_observations m)\<rparr>))"

definition add_property_chain :: "entity_record list \<Rightarrow> mutable_index \<Rightarrow> mutable_index result" where
  "add_property_chain ps m =
     (if ps = [] then Inl ValueError
      else if \<exists>p \<in> set ps. kind p \<noteq> OBJECT_PROPERTY then Inl PyTypeError
      else Inr (m\<lparr>mi_entities := add_all ps (mi_entities m), mi_property_chains := add_new ps (mi_property_chains m)\<rparr>))"

definition add_subclass :: "nat \<Rightarrow> nat \<Rightarrow> mutable_index \<Rightarrow> mutable_index" where
  "add_subclass sub super m = m\<lparr>mi_subclass_axioms := add_new (sub, super) (mi_subclass_axioms m)\<rparr>"

definition add_equivalent_class :: "nat \<Rightarrow> nat \<Rightarrow> mutable_index \<Rightarrow> mutable_index" where
  "add_equivalent_class defined other m =
     m\<lparr>mi_equivalent_class_axioms := add_new (defined, other) (mi_equivalent_class_axioms m)\<rparr>"

definition add_disjoint_group :: "nat list \<Rightarrow> mutable_index \<Rightarrow> mutable_index result" where
  "add_disjoint_group members m =
     (if length members < 2 then Inl ValueError
      else Inr (m\<lparr>mi_disjoint_groups := add_new members (mi_disjoint_groups m)\<rparr>))"

definition add_subproperty :: "entity_record list \<Rightarrow> entity_record \<Rightarrow> mutable_index \<Rightarrow> mutable_index result" where
  "add_subproperty sub_chain super m = rbind (add_property_chain sub_chain m) (\<lambda>m.
     if kind super \<noteq> OBJECT_PROPERTY then Inl PyTypeError
     else Inr ((add_entity super m)\<lparr>mi_subproperty_axioms := add_new (sub_chain, super) (mi_subproperty_axioms m)\<rparr>))"

definition add_property_range :: "entity_record \<Rightarrow> nat \<Rightarrow> mutable_index \<Rightarrow> mutable_index result" where
  "add_property_range p range_expr m =
     (if kind p \<noteq> OBJECT_PROPERTY then Inl PyTypeError
      else Inr ((add_entity p m)\<lparr>mi_property_ranges := add_new (p, range_expr) (mi_property_ranges m)\<rparr>))"

section \<open>Transactions\<close>

text \<open>A builder starts with the predefined entities; a query builder starts empty.\<close>

definition predefined_records :: "entity_record list" where
  "predefined_records =
     [\<lparr>kind = CLASS, iri = OWL_THING_IRI\<rparr>, \<lparr>kind = CLASS, iri = OWL_NOTHING_IRI\<rparr>,
      \<lparr>kind = OBJECT_PROPERTY, iri = OWL_TOP_OBJECT_PROPERTY_IRI\<rparr>,
      \<lparr>kind = OBJECT_PROPERTY, iri = OWL_BOTTOM_OBJECT_PROPERTY_IRI\<rparr>]"

definition ontology_builder :: mutable_index where
  "ontology_builder = empty_index\<lparr>mi_entities := add_all predefined_records []\<rparr>"

definition merge_expression ::
    "mutable_index \<Rightarrow> nat \<times> index_key \<Rightarrow> (nat, nat) dict \<times> mutable_index \<Rightarrow> ((nat, nat) dict \<times> mutable_index) result" where
  "merge_expression tx row s = (case (row, s) of ((local_handle, key), (mapping, m)) \<Rightarrow>
     rbind (rmap_list (dict_at mapping) (key_expressions key)) (\<lambda>xs.
     rbind (intern_expression (key_tag key) (key_entities key) xs (key_payload key) NEUTRAL m) (\<lambda>(translated, m).
     let local_occ = mi_expression_occurrences tx ! local_handle in
     rbind (add_occurrences (mi_expression_occurrences m ! translated) (negative local_occ) (positive local_occ)) (\<lambda>occ.
     Inr (dict_put local_handle translated mapping,
       m\<lparr>mi_expression_occurrences := (mi_expression_occurrences m)[translated := occ]\<rparr>)))))"

definition map_pair_by :: "(nat, nat) dict \<Rightarrow> nat \<times> nat \<Rightarrow> (nat \<times> nat) result" where
  "map_pair_by mapping pair = (case pair of (a, b) \<Rightarrow>
     rbind (dict_at mapping a) (\<lambda>a. rbind (dict_at mapping b) (\<lambda>b. Inr (a, b))))"

definition merge_features :: "nat list \<Rightarrow> mutable_index \<Rightarrow> mutable_index result" where
  "merge_features counts m = rfold (\<lambda>(i, n) m. rmap (\<lambda>v. m\<lparr>mi_feature_counts := (mi_feature_counts m)[i := v]\<rparr>)
     (checked_add (mi_feature_counts m ! i) n)) (enumerate 0 counts) m"

definition merge_index :: "mutable_index \<Rightarrow> mutable_index \<Rightarrow> ((nat, nat) dict \<times> mutable_index) result" where
  "merge_index tx m =
     rbind (rfold (merge_expression tx) (enumerate 0 (mi_expressions tx))
       ([], m\<lparr>mi_entities := add_all (mi_entities tx) (mi_entities m)\<rparr>)) (\<lambda>(mapping, m).
     rbind (rfold (\<lambda>(e, occ). add_property_occurrence e (negative occ) (positive occ)) (mi_property_occurrences tx) m) (\<lambda>m.
     rbind (rmap_list (map_pair_by mapping) (mi_subclass_axioms tx)) (\<lambda>subclasses.
     rbind (rmap_list (map_pair_by mapping) (mi_equivalent_class_axioms tx)) (\<lambda>equivalents.
     rbind (rmap_list (rmap_list (dict_at mapping)) (mi_disjoint_groups tx)) (\<lambda>groups.
     rbind (rmap_list (\<lambda>(p, x). rmap (Pair p) (dict_at mapping x)) (mi_property_ranges tx)) (\<lambda>property_range_rows.
     rbind (merge_features (mi_feature_counts tx)
       (m\<lparr>mi_property_chains := add_all (mi_property_chains tx) (mi_property_chains m),
         mi_subclass_axioms := add_all subclasses (mi_subclass_axioms m),
         mi_equivalent_class_axioms := add_all equivalents (mi_equivalent_class_axioms m),
         mi_disjoint_groups := add_all groups (mi_disjoint_groups m),
         mi_subproperty_axioms := add_all (mi_subproperty_axioms tx) (mi_subproperty_axioms m),
         mi_property_ranges := add_all property_range_rows (mi_property_ranges m)\<rparr>)) (\<lambda>m.
     Inr (mapping, m\<lparr>mi_compatibility_observations :=
       add_all (mi_compatibility_observations tx) (mi_compatibility_observations m)\<rparr>))))))))"

record index_transaction =
  tx_index :: mutable_index
  tx_closed :: bool

definition new_transaction :: index_transaction where
  "new_transaction = \<lparr>tx_index = empty_index, tx_closed = False\<rparr>"

definition commit_into ::
    "index_transaction \<Rightarrow> mutable_index \<Rightarrow> ((nat, nat) dict \<times> index_transaction \<times> mutable_index) result" where
  "commit_into tx m = (if tx_closed tx then Inl RuntimeError
     else rmap (\<lambda>(mapping, m). (mapping, tx\<lparr>tx_closed := True\<rparr>, m)) (merge_index (tx_index tx) m))"

definition rollback :: "index_transaction \<Rightarrow> index_transaction result" where
  "rollback tx = (if tx_closed tx then Inl RuntimeError
     else Inr \<lparr>tx_index = empty_index, tx_closed = True\<rparr>)"

section \<open>Freezing\<close>

definition ensure_named_expression :: "entity_record \<Rightarrow> mutable_index \<Rightarrow> mutable_index result" where
  "ensure_named_expression e m = (case kind e of
     CLASS \<Rightarrow> rmap snd (intern_expression TAG_CLASS [e] [] [] NEUTRAL m)
   | NAMED_INDIVIDUAL \<Rightarrow> rmap snd (intern_expression TAG_INDIVIDUAL [e] [] [] NEUTRAL m)
   | _ \<Rightarrow> Inr m)"

definition ensure_named_expressions :: "mutable_index \<Rightarrow> mutable_index result" where
  "ensure_named_expressions m = rfold ensure_named_expression (mi_entities m) m"

definition sorted_entities :: "entity_record list \<Rightarrow> entity_record list result" where
  "sorted_entities values = rmap (\<lambda>rows. map snd (sort_key fst rows))
     (rmap_list (\<lambda>r. rmap (\<lambda>key. (key, r)) (entity_key r)) values)"

text \<open>The heap of available handles is a sorted list: only its least element is observed.\<close>

type_synonym freezing_entry = "(nat \<times> bytes \<times> nat list) \<times> nat"

record freezing =
  fr_remaining :: "int list"
  fr_final_ids :: "(nat, nat) dict"
  fr_available :: "freezing_entry list"
  fr_records :: "expression_record list"

definition push_available ::
    "(entity_record, nat) dict \<Rightarrow> index_key list \<Rightarrow> nat \<Rightarrow> freezing \<Rightarrow> freezing result" where
  "push_available entity_ids keys handle s =
     rbind (rewritten_arguments entity_ids (fr_final_ids s) (keys ! handle)) (\<lambda>args.
     Inr (s\<lparr>fr_available := insort ((expression_tag_int (key_tag (keys ! handle)), key_payload (keys ! handle), args), handle)
       (fr_available s)\<rparr>))"

definition register_handle ::
    "(entity_record, nat) dict \<Rightarrow> index_key list \<Rightarrow> nat \<Rightarrow> nat list list \<times> freezing \<Rightarrow> (nat list list \<times> freezing) result" where
  "register_handle entity_ids keys handle state = (case state of (dependents, s) \<Rightarrow>
     let deps = key_dependencies (keys ! handle);
       dependents = fold (\<lambda>d rows. rows[d := rows ! d @ [handle]]) deps dependents;
       s = s\<lparr>fr_remaining := fr_remaining s @ [int (length deps)]\<rparr> in
     if deps = [] then rmap (Pair dependents) (push_available entity_ids keys handle s)
     else Inr (dependents, s))"

definition release_handle ::
    "(entity_record, nat) dict \<Rightarrow> index_key list \<Rightarrow> nat \<Rightarrow> freezing \<Rightarrow> freezing result" where
  "release_handle entity_ids keys dependent s = (
     let s = s\<lparr>fr_remaining := (fr_remaining s)[dependent := fr_remaining s ! dependent - 1]\<rparr> in
     if fr_remaining s ! dependent = 0 then push_available entity_ids keys dependent s else Inr s)"

definition new_expression_record :: "expression_tag \<Rightarrow> nat list \<Rightarrow> bytes \<Rightarrow> expression_record result" where
  "new_expression_record t args bs = (let r = \<lparr>tag = t, arguments = args, payload = bs\<rparr> in
     rmap (\<lambda>_. r) (expression_record_check r))"

partial_function (option) freeze_loop ::
    "(entity_record, nat) dict \<Rightarrow> index_key list \<Rightarrow> nat list list \<Rightarrow> freezing \<Rightarrow> freezing result option" where
  "freeze_loop entity_ids keys dependents s = (case fr_available s of
     [] \<Rightarrow> Some (Inr s)
   | (_, handle) # rest \<Rightarrow>
       let s = s\<lparr>fr_available := rest\<rparr> in
       if dict_contains (fr_final_ids s) handle then freeze_loop entity_ids keys dependents s
       else (case rbind (rewritten_arguments entity_ids (fr_final_ids s) (keys ! handle)) (\<lambda>args.
             let n = length (fr_records s) in
             rbind (new_expression_record (key_tag (keys ! handle)) args (key_payload (keys ! handle))) (\<lambda>r.
             rfold (release_handle entity_ids keys) (dependents ! handle)
               (s\<lparr>fr_final_ids := dict_put handle n (fr_final_ids s), fr_records := fr_records s @ [r]\<rparr>))) of
           Inl x \<Rightarrow> Some (Inl x)
         | Inr s \<Rightarrow> freeze_loop entity_ids keys dependents s))"

definition freeze_expressions ::
    "(entity_record, nat) dict \<Rightarrow> index_key list \<Rightarrow> (expression_record list \<times> (nat, nat) dict) result option" where
  "freeze_expressions entity_ids keys =
     (case rfold (register_handle entity_ids keys) [0..<length keys]
         (replicate (length keys) [], \<lparr>fr_remaining = [], fr_final_ids = [], fr_available = [], fr_records = []\<rparr>) of
        Inl x \<Rightarrow> Some (Inl x)
      | Inr (dependents, s) \<Rightarrow> (case freeze_loop entity_ids keys dependents s of
          None \<Rightarrow> None
        | Some out \<Rightarrow> Some (rbind out (\<lambda>s.
            if length (fr_records s) \<noteq> length keys then Inl ValueError else Inr (fr_records s, fr_final_ids s)))))"

definition frozen_occurrences :: "(nat, nat) dict \<Rightarrow> mutable_index \<Rightarrow> occurrence list" where
  "frozen_occurrences final_ids m = map (\<lambda>(temporary, _). mi_expression_occurrences m ! temporary) (sort_key snd final_ids)"

definition frozen_property_occurrences :: "entity_record list \<Rightarrow> mutable_index \<Rightarrow> occurrence list" where
  "frozen_property_occurrences ps m = map (\<lambda>p. case dict_get (mi_property_occurrences m) p of
     None \<Rightarrow> no_occurrence | Some occ \<Rightarrow> occ) ps"

definition object_property_records :: "entity_record list \<Rightarrow> entity_record list" where
  "object_property_records es = filter (\<lambda>r. kind r = OBJECT_PROPERTY) es"

definition freeze_ontology_tables ::
    "bytes \<Rightarrow> entity_record list \<Rightarrow> expression_record list \<Rightarrow> (nat, nat) dict \<Rightarrow> mutable_index \<Rightarrow> (compiled_ontology \<times> mutable_index) result" where
  "freeze_ontology_tables fingerprint es records final_ids m = (
     let entity_ids = enumeration es; ps = object_property_records es;
       m = m\<lparr>mi_property_chains := add_all (map (\<lambda>p. [p]) ps) (mi_property_chains m)\<rparr> in
     rbind (rmap sort (rmap_list (rmap_list (dict_at entity_ids)) (mi_property_chains m))) (\<lambda>chains.
     let chain_ids = enumeration chains in
     rbind (rmap_list (map_pair_by final_ids) (mi_subclass_axioms m)) (\<lambda>subclasses.
     rbind (rmap_list (map_pair_by final_ids) (mi_equivalent_class_axioms m)) (\<lambda>equivalents.
     rbind (rmap_list (rmap_list (dict_at final_ids)) (mi_disjoint_groups m)) (\<lambda>groups.
     rbind (rmap_list (\<lambda>(chain, super). rbind (rbind (rmap_list (dict_at entity_ids) chain) (dict_at chain_ids)) (\<lambda>c.
         rmap (Pair c) (dict_at entity_ids super))) (mi_subproperty_axioms m)) (\<lambda>subproperties.
     rbind (rmap_list (\<lambda>(p, x). rbind (dict_at entity_ids p) (\<lambda>p. rmap (Pair p) (dict_at final_ids x)))
         (mi_property_ranges m)) (\<lambda>range_rows.
     let co = \<lparr>entities = es, expressions = records, expression_occurrences = frozen_occurrences final_ids m,
         property_occurrences = frozen_property_occurrences ps m, property_chains = chains,
         subclass_axioms = sort subclasses, equivalent_class_axioms = sort equivalents,
         disjoint_groups = sort groups, subproperty_axioms = sort subproperties,
         property_ranges = sort range_rows, feature_counts = mi_feature_counts m, source_fingerprint = fingerprint\<rparr> in
     rmap (\<lambda>_. (co, m)) (compiled_ontology_check co))))))))"

text \<open>What both kinds of freezing do first: named expressions, the entity table, the expression table.\<close>

definition freeze_tables :: "mutable_index \<Rightarrow>
    (mutable_index \<times> entity_record list \<times> expression_record list \<times> (nat, nat) dict) result option" where
  "freeze_tables m = (case rbind (ensure_named_expressions m) (\<lambda>m. rmap (Pair m) (sorted_entities (mi_entities m))) of
     Inl x \<Rightarrow> Some (Inl x)
   | Inr (m, es) \<Rightarrow> map_option (rmap (\<lambda>(records, final_ids). (m, es, records, final_ids)))
       (freeze_expressions (enumeration es) (mi_expressions m)))"

definition freeze_ontology :: "bytes \<Rightarrow> mutable_index \<Rightarrow> (compiled_ontology \<times> mutable_index) result option" where
  "freeze_ontology fingerprint m = map_option (\<lambda>out. rbind out (\<lambda>(m, es, records, final_ids).
     freeze_ontology_tables fingerprint es records final_ids m)) (freeze_tables m)"

definition freeze_query_tables ::
    "query_ir_kind \<Rightarrow> (entity_record, nat) dict \<Rightarrow> nat option \<Rightarrow> (nat \<times> nat) list \<Rightarrow>
     entity_record list \<Rightarrow> expression_record list \<Rightarrow> (nat, nat) dict \<Rightarrow> mutable_index \<Rightarrow> query_ir result" where
  "freeze_query_tables k ontology_ids root obligations es records final_ids m =
     rbind (case root of None \<Rightarrow> Inr None | Some r \<Rightarrow> rmap Some (dict_at final_ids r)) (\<lambda>root.
     rbind (rmap_list (map_pair_by final_ids) obligations) (\<lambda>rows.
     let q = \<lparr>qi_kind = k, qi_entities = map (\<lambda>r. \<lparr>entity = r, ontology_id = dict_get ontology_ids r\<rparr>) es,
         qi_expressions = records, qi_expression_occurrences = frozen_occurrences final_ids m,
         qi_property_occurrences = frozen_property_occurrences (object_property_records es) m,
         qi_root_expression = root, qi_subsumption_obligations = sort rows\<rparr> in
     rmap (\<lambda>_. q) (query_ir_check q)))"

definition freeze_query_ir ::
    "query_ir_kind \<Rightarrow> (entity_record, nat) dict \<Rightarrow> nat option \<Rightarrow> (nat \<times> nat) list \<Rightarrow> mutable_index \<Rightarrow>
     (query_ir \<times> mutable_index) result option" where
  "freeze_query_ir k ontology_ids root obligations m = map_option (\<lambda>out. rbind out (\<lambda>(m, es, records, final_ids).
     rmap (\<lambda>q. (q, m)) (freeze_query_tables k ontology_ids root obligations es records final_ids m))) (freeze_tables m)"

end
