(* ===== verification/Expression_Order.thy ===== *)
theory Expression_Order
  imports IR
begin

text \<open>
  When the expression tables pass the test of their deterministic order: the test of
  \<open>src/pyelk/indexing/ir.py\<close> against a declarative order, shared by the builder that writes the tables.
\<close>

definition keys_of :: "'k list \<Rightarrow> nat set \<Rightarrow> ('k \<times> nat) set" where
  "keys_of keys S = (\<lambda>i. (keys ! i, i)) ` S"

lemma finite_keys_of [simp]: "finite S \<Longrightarrow> finite (keys_of keys S)"
  by (simp add: keys_of_def)

lemma insort_sorted_set:
  "finite A \<Longrightarrow> x \<notin> A \<Longrightarrow> insort x (sorted_list_of_set A) = sorted_list_of_set (insert x A)"
  by (simp add: sorted_list_of_set_insert_remove)

lemma insort_keys_of:
  "finite S \<Longrightarrow> d \<notin> S \<Longrightarrow> insort (keys ! d, d) (sorted_list_of_set (keys_of keys S)) = sorted_list_of_set (keys_of keys (insert d S))"
  by (subst insort_sorted_set) (auto simp: keys_of_def)

lemma least_of_sorted_set:
  assumes "finite A" and "x \<in> A" and "\<And>y. y \<in> A \<Longrightarrow> y \<noteq> x \<Longrightarrow> x \<le> y"
  shows "sorted_list_of_set A = x # sorted_list_of_set (A - {x})"
proof -
  have "Min A = x" by (rule Min_eqI) (use assms in force)+
  with sorted_list_of_set_nonempty [of A] assms show ?thesis by force
qed

text \<open>What removing one element from every set of a table does to the counters.\<close>

definition released :: "nat list \<Rightarrow> nat list \<Rightarrow> nat set" where
  "released remaining ds = {d \<in> set ds. remaining ! d = 1}"

lemma fold_release_dependent:
  assumes "distinct ds" and "\<forall>d \<in> set ds. d < length remaining \<and> 0 < remaining ! d" and "finite S" and "S \<inter> set ds = {}"
  shows "fold (release_dependent keys) ds (sorted_list_of_set (keys_of keys S), remaining) =
    (sorted_list_of_set (keys_of keys (S \<union> released remaining ds)),
     map (\<lambda>i. if i \<in> set ds then remaining ! i - 1 else remaining ! i) [0..<length remaining])"
  using assms
proof (induction ds arbitrary: S remaining)
  case Nil
  then show ?case by (simp add: released_def map_nth)
next
  case (Cons d ds)
  let ?rem = "remaining[d := remaining ! d - 1]" and ?S = "if remaining ! d = 1 then insert d S else S"
  have "fold (release_dependent keys) (d # ds) (sorted_list_of_set (keys_of keys S), remaining) =
      fold (release_dependent keys) ds (sorted_list_of_set (keys_of keys ?S), ?rem)"
    using Cons.prems by (auto simp: release_dependent_def Let_def insort_keys_of)
  also have "\<dots> = (sorted_list_of_set (keys_of keys (?S \<union> released ?rem ds)),
      map (\<lambda>i. if i \<in> set ds then ?rem ! i - 1 else ?rem ! i) [0..<length ?rem])"
    using Cons.prems by (intro Cons.IH) (auto simp: nth_list_update)
  also have "?S \<union> released ?rem ds = S \<union> released remaining (d # ds)"
    using Cons.prems by (auto simp: released_def nth_list_update)
  also have "map (\<lambda>i. if i \<in> set ds then ?rem ! i - 1 else ?rem ! i) [0..<length ?rem] =
      map (\<lambda>i. if i \<in> set (d # ds) then remaining ! i - 1 else remaining ! i) [0..<length remaining]"
    using Cons.prems by (auto simp: nth_list_update)
  finally show ?case .
qed

text \<open>
  The declarative order: dependencies first, and every row least among those whose dependencies are
  there before it.
\<close>

definition greedy_order :: "'k::linorder list \<Rightarrow> nat set list \<Rightarrow> bool" where
  "greedy_order keys deps \<longleftrightarrow> (\<forall>k < length keys. deps ! k \<subseteq> {..<k} \<and>
     (\<forall>j < length keys. k < j \<and> deps ! j \<subseteq> {..<k} \<longrightarrow> keys ! k < keys ! j))"

definition waiting :: "nat set list \<Rightarrow> nat \<Rightarrow> nat set" where
  "waiting deps k = {i. k \<le> i \<and> i < length deps \<and> deps ! i \<subseteq> {..<k}}"

lemma finite_waiting [simp]: "finite (waiting deps k)"
  by (simp add: waiting_def)

lemma greedy_least:
  assumes "greedy_order keys deps" and "length deps = length keys" and "k < length keys"
  shows "sorted_list_of_set (keys_of keys (waiting deps k)) =
    (keys ! k, k) # sorted_list_of_set (keys_of keys (waiting deps k - {k}))"
proof -
  have d: "deps ! k \<subseteq> {..<k}" and least: "\<And>j. j < length keys \<Longrightarrow> k < j \<Longrightarrow> deps ! j \<subseteq> {..<k} \<Longrightarrow> keys ! k < keys ! j"
    using assms(1,3) by (auto simp: greedy_order_def)
  have "k \<in> waiting deps k" using assms(2,3) d by (simp add: waiting_def)
  moreover have "(keys ! k, k) \<le> y" if "y \<in> keys_of keys (waiting deps k)" "y \<noteq> (keys ! k, k)" for y
  proof -
    from that obtain j where "y = (keys ! j, j)" "j \<in> waiting deps k" "j \<noteq> k" by (auto simp: keys_of_def)
    with least [of j] assms(2) show ?thesis by (force simp: waiting_def less_eq_prod_def)
  qed
  ultimately have "sorted_list_of_set (keys_of keys (waiting deps k)) =
      (keys ! k, k) # sorted_list_of_set (keys_of keys (waiting deps k) - {(keys ! k, k)})"
    by (intro least_of_sorted_set) (auto simp: keys_of_def)
  also have "keys_of keys (waiting deps k) - {(keys ! k, k)} = keys_of keys (waiting deps k - {k})"
    by (auto simp: keys_of_def)
  finally show ?thesis .
qed

lemma card_diff_Suc:
  fixes D :: "nat set"
  assumes "finite D"
  shows "card (D - {..<Suc k}) = (if k \<in> D then card (D - {..<k}) - 1 else card (D - {..<k}))"
proof -
  have "D - {..<Suc k} = (D - {..<k}) - {k}" by auto
  with assms show ?thesis by (simp add: card_Diff_singleton_if)
qed

lemma released_waiting:
  assumes "\<forall>i < length deps. finite (deps ! i)" and "k < length deps" and "\<forall>i < length deps. deps ! i \<subseteq> {..<i}"
  shows "(waiting deps k - {k}) \<union> released (map (\<lambda>i. card (deps ! i - {..<k})) [0..<length deps])
      (filter (\<lambda>i. k \<in> deps ! i) [0..<length deps]) = waiting deps (Suc k)"
proof -
  have one: "card (deps ! i - {..<k}) = 1 \<longleftrightarrow> deps ! i \<subseteq> {..<Suc k}" if "i < length deps" "k \<in> deps ! i" for i
  proof -
    have fin: "finite (deps ! i - {..<k})" using assms(1) that by simp
    have mem: "k \<in> deps ! i - {..<k}" using that by simp
    have "card (deps ! i - {..<k}) = 1 \<longleftrightarrow> deps ! i - {..<k} = {k}"
      using mem by (metis card_1_singletonE is_singletonI is_singleton_altdef singletonD)
    also have "\<dots> \<longleftrightarrow> deps ! i \<subseteq> {..<Suc k}" using mem by (fastforce simp: less_Suc_eq)
    finally show ?thesis .
  qed
  have gt: "k < i" if "i < length deps" "k \<in> deps ! i" for i using assms(3) that by blast
  show ?thesis
  proof (intro equalityI subsetI)
    fix i assume "i \<in> (waiting deps k - {k}) \<union> released (map (\<lambda>i. card (deps ! i - {..<k})) [0..<length deps])
      (filter (\<lambda>i. k \<in> deps ! i) [0..<length deps])"
    then show "i \<in> waiting deps (Suc k)"
      using one [of i] gt [of i] by (fastforce simp: waiting_def released_def)
  next
    fix i assume i: "i \<in> waiting deps (Suc k)"
    show "i \<in> (waiting deps k - {k}) \<union> released (map (\<lambda>i. card (deps ! i - {..<k})) [0..<length deps])
      (filter (\<lambda>i. k \<in> deps ! i) [0..<length deps])"
    proof (cases "k \<in> deps ! i")
      case True
      with i one [of i] show ?thesis by (auto simp: waiting_def released_def)
    next
      case False
      with i show ?thesis by (auto simp: waiting_def less_Suc_eq)
    qed
  qed
qed

lemma kahn_step_ok:
  assumes greedy: "greedy_order keys deps" and len: "length deps = length keys" and fin: "\<forall>i < length deps. finite (deps ! i)"
    and k: "k < length keys"
  shows "kahn_step keys (map (\<lambda>d. filter (\<lambda>i. d \<in> deps ! i) [0..<length keys]) [0..<length keys]) k
      (sorted_list_of_set (keys_of keys (waiting deps k)), map (\<lambda>i. card (deps ! i - {..<k})) [0..<length keys]) =
    Inr (sorted_list_of_set (keys_of keys (waiting deps (Suc k))), map (\<lambda>i. card (deps ! i - {..<Suc k})) [0..<length keys])"
proof -
  let ?ds = "filter (\<lambda>i. k \<in> deps ! i) [0..<length keys]"
  let ?rem = "map (\<lambda>i. card (deps ! i - {..<k})) [0..<length keys]"
  have below: "\<forall>i < length deps. deps ! i \<subseteq> {..<i}" using greedy len by (simp add: greedy_order_def)
  have pos: "0 < ?rem ! d" if "d \<in> set ?ds" for d
  proof -
    have "k \<in> deps ! d - {..<k}" "finite (deps ! d - {..<k})" using that fin len by auto
    then have "0 < card (deps ! d - {..<k})" using card_gt_0_iff by blast
    with that show ?thesis by simp
  qed
  have "fold (release_dependent keys) ?ds (sorted_list_of_set (keys_of keys (waiting deps k - {k})), ?rem) =
    (sorted_list_of_set (keys_of keys ((waiting deps k - {k}) \<union> released ?rem ?ds)),
     map (\<lambda>i. if i \<in> set ?ds then ?rem ! i - 1 else ?rem ! i) [0..<length ?rem])"
    using pos len by (intro fold_release_dependent) (auto simp: waiting_def)
  also have "(waiting deps k - {k}) \<union> released ?rem ?ds = waiting deps (Suc k)"
    using released_waiting [OF fin _ below, of k] k len by simp
  also have "map (\<lambda>i. if i \<in> set ?ds then ?rem ! i - 1 else ?rem ! i) [0..<length ?rem] =
      map (\<lambda>i. card (deps ! i - {..<Suc k})) [0..<length keys]"
    using card_diff_Suc fin len by simp
  finally show ?thesis
    using k by (simp add: kahn_step_def greedy_least [OF greedy len k])
qed

lemma kahn_steps_ok:
  assumes "greedy_order keys deps" and "length deps = length keys" and "\<forall>i < length deps. finite (deps ! i)"
    and "k \<le> length keys"
  shows "rfold (kahn_step keys (map (\<lambda>d. filter (\<lambda>i. d \<in> deps ! i) [0..<length keys]) [0..<length keys])) [k..<length keys]
      (sorted_list_of_set (keys_of keys (waiting deps k)), map (\<lambda>i. card (deps ! i - {..<k})) [0..<length keys]) =
    Inr (sorted_list_of_set (keys_of keys (waiting deps (length keys))), map (\<lambda>i. card (deps ! i - {..<length keys})) [0..<length keys])"
  using assms(4)
proof (induction "length keys - k" arbitrary: k)
  case (Suc n)
  then have "[k..<length keys] = k # [Suc k..<length keys]" by (simp add: upt_conv_Cons)
  with Suc kahn_step_ok [OF assms(1-3), of k] show ?case by simp
qed simp

lemma foldr_insort:
  assumes "distinct xs"
  shows "foldr (\<lambda>i h. if P i then insort (keys ! i, i) h else h) xs [] = sorted_list_of_set (keys_of keys {i \<in> set xs. P i})"
  using assms
proof (induction xs)
  case (Cons x xs)
  moreover have "{i \<in> set (x # xs). P i} = (if P x then insert x {i \<in> set xs. P i} else {i \<in> set xs. P i})" by auto
  ultimately show ?case using insort_keys_of [of "{i \<in> set xs. P i}" x keys] by simp
qed (simp add: keys_of_def)

lemma finite_dependencies [simp]: "finite (expression_dependencies r)"
  by (auto split: expression_tag.splits)

lemma validate_expression_order_ok:
  assumes distinct: "distinct (map expression_key es)"
    and greedy: "greedy_order (map expression_key es) (map expression_dependencies es)"
  shows "validate_expression_order es = Inr ()"
proof -
  let ?keys = "map expression_key es" and ?deps = "map expression_dependencies es" and ?n = "length es"
  have w: "{i \<in> set [0..<?n]. ?deps ! i = {}} = waiting ?deps 0" by (auto simp: waiting_def)
  have "foldr (\<lambda>i h. if ?deps ! i = {} then insort (?keys ! i, i) h else h) [0..<?n] [] =
      sorted_list_of_set (keys_of ?keys (waiting ?deps 0))"
    unfolding w [symmetric] by (rule foldr_insort) simp
  moreover have "map card ?deps = map (\<lambda>i. card (?deps ! i - {..<0})) [0..<length ?keys]"
    by (rule nth_equalityI) simp_all
  moreover have "\<forall>i < length ?deps. finite (?deps ! i)" by (simp del: expression_dependencies.simps)
  ultimately show ?thesis
    using kahn_steps_ok [OF greedy, of 0] distinct
    unfolding validate_expression_order_def Let_def by (simp del: expression_dependencies.simps)
qed

end
