(* ===== verification/Builder_Freeze.thy ===== *)
theory Builder_Freeze
  imports Builder Expression_Order
begin

text \<open>
  The freezing loop of \<open>src/pyelk/indexing/builder.py\<close>: it ends, it places every handle once, and the
  table it writes is in the order the constructor of the tables demands.
\<close>

section \<open>Places\<close>

lemma enumeration_zip: "distinct xs \<Longrightarrow> enumeration xs = zip xs [0..<length xs]"
proof (induction xs rule: rev_induct)
  case Nil
  then show ?case by (simp add: enumeration_def)
next
  case (snoc x xs)
  moreover have "enumeration (xs @ [x]) = dict_put x (length xs) (enumeration xs)"
    by (simp add: enumeration_def enumerate_append_eq)
  moreover have "x \<notin> dict_keys (zip xs [0..<length xs])"
    using snoc.prems by (auto simp: dict_keys_def dest: set_zip_leftD)
  ultimately show ?case by (simp add: dict_put_fresh)
qed

lemma enumeration_get: "distinct xs \<Longrightarrow> dict_get (enumeration xs) x = Some i \<longleftrightarrow> i < length xs \<and> xs ! i = x"
  by (subst enumeration_zip, assumption, subst map_of_eq_Some_iff) (auto simp: in_set_zip)

definition place :: "'a list \<Rightarrow> 'a \<Rightarrow> nat" where
  "place xs x = the (dict_get (enumeration xs) x)"

lemma enumeration_place:
  assumes "distinct xs" and "x \<in> set xs"
  shows "dict_get (enumeration xs) x = Some (place xs x)"
proof -
  obtain i where "i < length xs" "xs ! i = x" using assms(2) by (auto simp: in_set_conv_nth)
  with enumeration_get [OF assms(1)] have "dict_get (enumeration xs) x = Some i" by blast
  then show ?thesis by (simp add: place_def)
qed

lemma place_less [simp]: "distinct xs \<Longrightarrow> x \<in> set xs \<Longrightarrow> place xs x < length xs"
  and nth_place [simp]: "distinct xs \<Longrightarrow> x \<in> set xs \<Longrightarrow> xs ! place xs x = x"
  using enumeration_place enumeration_get by fastforce+

lemma place_nth [simp]: "distinct xs \<Longrightarrow> i < length xs \<Longrightarrow> place xs (xs ! i) = i"
  using enumeration_get [of xs "xs ! i" i] by (simp add: place_def)

lemma place_eq_iff: "distinct xs \<Longrightarrow> x \<in> set xs \<Longrightarrow> y \<in> set xs \<Longrightarrow> place xs x = place xs y \<longleftrightarrow> x = y"
  by (metis nth_place)

lemma inj_on_place: "distinct xs \<Longrightarrow> inj_on (place xs) (set xs)"
  by (simp add: inj_on_def place_eq_iff)

lemma place_append:
  assumes "distinct (xs @ ys)" and "x \<in> set xs"
  shows "place (xs @ ys) x = place xs x"
proof -
  have "distinct xs" using assms(1) by simp
  with assms(2) obtain i where "i < length xs" "xs ! i = x" by (auto simp: in_set_conv_nth)
  with assms(1) \<open>distinct xs\<close> place_nth [of "xs @ ys" i] place_nth [of xs i] show ?thesis by (simp add: nth_append)
qed

lemma dict_at_place [simp]: "distinct xs \<Longrightarrow> x \<in> set xs \<Longrightarrow> dict_at (enumeration xs) x = Inr (place xs x)"
  by (simp add: dict_at_def enumeration_place)

lemma dict_at_places: "distinct xs \<Longrightarrow> set ys \<subseteq> set xs \<Longrightarrow> rmap_list (dict_at (enumeration xs)) ys = Inr (map (place xs) ys)"
  by (rule rmap_list_Inr) auto

section \<open>Keys\<close>

definition shape_ok :: "index_key \<Rightarrow> bool" where
  "shape_ok key = (case key_tag key of
     TAG_CLASS \<Rightarrow> map kind (key_entities key) = [CLASS] \<and> key_expressions key = [] \<and> key_payload key = []
   | TAG_INDIVIDUAL \<Rightarrow> map kind (key_entities key) = [NAMED_INDIVIDUAL] \<and> key_expressions key = [] \<and> key_payload key = []
   | OBJECT_INTERSECTION_OF \<Rightarrow> key_entities key = [] \<and> length (key_expressions key) = 2 \<and> key_payload key = []
   | OBJECT_SOME_VALUES_FROM \<Rightarrow> map kind (key_entities key) = [OBJECT_PROPERTY] \<and> length (key_expressions key) = 1 \<and> key_payload key = []
   | OBJECT_HAS_SELF \<Rightarrow> map kind (key_entities key) = [OBJECT_PROPERTY] \<and> key_expressions key = [] \<and> key_payload key = []
   | DATA_HAS_VALUE \<Rightarrow> map kind (key_entities key) = [DATA_PROPERTY] \<and> key_expressions key = [] \<and> key_payload key \<noteq> []
   | OBJECT_COMPLEMENT_OF \<Rightarrow> key_entities key = [] \<and> length (key_expressions key) = 1 \<and> key_payload key = []
   | OBJECT_UNION_OF \<Rightarrow> key_entities key = [] \<and> 2 \<le> length (key_expressions key) \<and> key_payload key = [])"

definition key_arguments :: "entity_record list \<Rightarrow> nat list \<Rightarrow> index_key \<Rightarrow> nat list" where
  "key_arguments es hs key =
     (if key_tag key = OBJECT_SOME_VALUES_FROM then [place es (hd (key_entities key)), place hs (hd (key_expressions key))]
      else if key_entities key \<noteq> [] then map (place es) (key_entities key)
      else map (place hs) (key_expressions key))"

definition key_record :: "entity_record list \<Rightarrow> nat list \<Rightarrow> index_key \<Rightarrow> expression_record" where
  "key_record es hs key = \<lparr>tag = key_tag key, arguments = key_arguments es hs key, payload = key_payload key\<rparr>"

lemma map_eq_single: "map f xs = [y] \<longleftrightarrow> (\<exists>x. xs = [x] \<and> f x = y)"
  by (cases xs) auto

lemma length_two: "length xs = 2 \<longleftrightarrow> (\<exists>a b. xs = [a, b])"
  by (auto simp: numeral_2_eq_2 length_Suc_conv)

lemma length_one: "length xs = Suc 0 \<longleftrightarrow> (\<exists>a. xs = [a])"
  by (auto simp: length_Suc_conv)

lemmas shape_simps = shape_ok_def map_eq_single length_two length_one

lemma rewritten_arguments_ok:
  assumes "shape_ok key" and "distinct es" and "distinct hs" and "set (key_entities key) \<subseteq> set es"
    and "set (key_expressions key) \<subseteq> set hs"
  shows "rewritten_arguments (enumeration es) (enumeration hs) key = Inr (key_arguments es hs key)"
proof (cases "key_tag key = OBJECT_SOME_VALUES_FROM")
  case True
  with assms(1) obtain p f where "key_entities key = [p]" "key_expressions key = [f]" by (auto simp: shape_simps)
  with True assms show ?thesis by (simp add: rewritten_arguments_def key_arguments_def list_at_def)
next
  case False
  with assms show ?thesis by (simp add: rewritten_arguments_def key_arguments_def dict_at_places)
qed

lemma key_arguments_cong:
  "shape_ok key \<Longrightarrow> (\<And>x. x \<in> set (key_expressions key) \<Longrightarrow> place hs x = place hs' x) \<Longrightarrow> key_arguments es hs key = key_arguments es hs' key"
  by (auto simp: key_arguments_def shape_simps)

section \<open>The state of the loop after some handles\<close>

definition needs :: "index_key list \<Rightarrow> nat \<Rightarrow> nat set" where
  "needs keys h = set (key_expressions (keys ! h))"

definition keys_wf :: "entity_record list \<Rightarrow> index_key list \<Rightarrow> bool" where
  "keys_wf es keys \<longleftrightarrow> distinct es \<and> distinct keys \<and> (\<forall>h < length keys. shape_ok (keys ! h) \<and> set (key_entities (keys ! h)) \<subseteq> set es \<and>
     needs keys h \<subseteq> {..<h})"

definition ready :: "index_key list \<Rightarrow> nat list \<Rightarrow> nat set" where
  "ready keys hs = {h. h < length keys \<and> h \<notin> set hs \<and> needs keys h \<subseteq> set hs}"

definition entry :: "entity_record list \<Rightarrow> index_key list \<Rightarrow> nat list \<Rightarrow> nat \<Rightarrow> freezing_entry" where
  "entry es keys hs h = ((expression_tag_int (key_tag (keys ! h)), key_payload (keys ! h), key_arguments es hs (keys ! h)), h)"

definition frozen_after :: "entity_record list \<Rightarrow> index_key list \<Rightarrow> nat list \<Rightarrow> freezing" where
  "frozen_after es keys hs = \<lparr>fr_remaining = map (\<lambda>h. int (card (needs keys h - set hs))) [0..<length keys],
     fr_final_ids = enumeration hs, fr_available = sorted_list_of_set (entry es keys hs ` ready keys hs),
     fr_records = map (\<lambda>h. key_record es hs (keys ! h)) hs\<rparr>"

definition dependents_of :: "index_key list \<Rightarrow> nat \<Rightarrow> nat list list" where
  "dependents_of keys k = map (\<lambda>d. filter (\<lambda>h. d \<in> needs keys h) [0..<k]) [0..<length keys]"

lemma finite_ready [simp]: "finite (ready keys hs)"
  by (simp add: ready_def)

lemma finite_needs [simp]: "finite (needs keys h)"
  by (simp add: needs_def)

lemma entry_handle [simp]: "snd (entry es keys hs h) = h"
  by (simp add: entry_def)

lemma inj_entry: "inj_on (entry es keys hs) S"
  by (rule inj_on_inverseI [where g = snd]) simp

lemma push_available_ok:
  assumes "keys_wf es keys" and "h < length keys" and "distinct hs" and "needs keys h \<subseteq> set hs"
    and "fr_final_ids s = enumeration hs" and "fr_available s = sorted_list_of_set (entry es keys hs ` S)" and "finite S" and "h \<notin> S"
  shows "push_available (enumeration es) keys h s = Inr (s\<lparr>fr_available := sorted_list_of_set (entry es keys hs ` insert h S)\<rparr>)"
proof -
  have "rewritten_arguments (enumeration es) (enumeration hs) (keys ! h) = Inr (key_arguments es hs (keys ! h))"
    using assms by (intro rewritten_arguments_ok) (auto simp: keys_wf_def needs_def)
  moreover have "entry es keys hs h \<notin> entry es keys hs ` S"
    using assms(8) inj_entry [of es keys hs "insert h S"] by (auto simp: inj_on_def)
  ultimately show ?thesis
    using assms insort_sorted_set [of "entry es keys hs ` S" "entry es keys hs h"] by (simp add: push_available_def entry_def)
qed

section \<open>Registration\<close>

lemma fold_append_rows:
  assumes "distinct ds" and "set ds \<subseteq> {..<length rows}"
  shows "fold (\<lambda>d rows. rows[d := rows ! d @ [h]]) ds rows = map (\<lambda>d. if d \<in> set ds then rows ! d @ [h] else rows ! d) [0..<length rows]"
  using assms
proof (induction ds arbitrary: rows)
  case Nil
  then show ?case by (simp add: map_nth)
next
  case (Cons d ds)
  then show ?case by (auto simp: nth_list_update)
qed

definition registered :: "entity_record list \<Rightarrow> index_key list \<Rightarrow> nat \<Rightarrow> freezing" where
  "registered es keys k = \<lparr>fr_remaining = map (\<lambda>h. int (card (needs keys h))) [0..<k], fr_final_ids = [],
     fr_available = sorted_list_of_set (entry es keys [] ` {h. h < k \<and> needs keys h = {}}), fr_records = []\<rparr>"

lemma enumeration_Nil [simp]: "enumeration [] = []"
  by (simp add: enumeration_def)

lemma register_handle_ok:
  assumes wf: "keys_wf es keys" and k: "k < length keys"
  shows "register_handle (enumeration es) keys k (dependents_of keys k, registered es keys k) =
    Inr (dependents_of keys (Suc k), registered es keys (Suc k))"
proof -
  let ?deps = "key_dependencies (keys ! k)"
  have deps: "set ?deps = needs keys k" "distinct ?deps" by (simp_all add: key_dependencies_def needs_def)
  have below: "needs keys k \<subseteq> {..<k}" using wf k by (simp add: keys_wf_def)
  have rows: "fold (\<lambda>d rows. rows[d := rows ! d @ [k]]) ?deps (dependents_of keys k) = dependents_of keys (Suc k)"
    using deps below k by (subst fold_append_rows) (auto simp: dependents_of_def)
  have card: "int (length ?deps) = int (card (needs keys k))" using deps distinct_card by metis
  show ?thesis
  proof (cases "needs keys k = {}")
    case True
    then have empty: "?deps = []" using deps(1) by (metis set_empty)
    have set: "{h. h < Suc k \<and> needs keys h = {}} = insert k {h. h < k \<and> needs keys h = {}}"
      using True by (auto simp: less_Suc_eq)
    have "push_available (enumeration es) keys k ((registered es keys k)\<lparr>fr_remaining := map (\<lambda>h. int (card (needs keys h))) [0..<Suc k]\<rparr>) =
        Inr (((registered es keys k)\<lparr>fr_remaining := map (\<lambda>h. int (card (needs keys h))) [0..<Suc k]\<rparr>)
          \<lparr>fr_available := sorted_list_of_set (entry es keys [] ` insert k {h. h < k \<and> needs keys h = {}})\<rparr>)"
      by (rule push_available_ok [OF wf k]) (use True in \<open>simp_all add: registered_def\<close>)
    with True empty rows show ?thesis
      unfolding register_handle_def Let_def by (simp add: registered_def set)
  next
    case False
    then have ne: "?deps \<noteq> []" using deps(1) by auto
    have set: "{h. h < Suc k \<and> needs keys h = {}} = {h. h < k \<and> needs keys h = {}}"
      using False by (auto simp: less_Suc_eq)
    show ?thesis using False ne rows card unfolding register_handle_def Let_def by (simp add: registered_def set)
  qed
qed

lemma register_all_ok:
  assumes "keys_wf es keys" and "k \<le> length keys"
  shows "rfold (register_handle (enumeration es) keys) [0..<k]
      (replicate (length keys) [], \<lparr>fr_remaining = [], fr_final_ids = [], fr_available = [], fr_records = []\<rparr>) =
    Inr (dependents_of keys k, registered es keys k)"
  using assms(2)
proof (induction k)
  case 0
  have "replicate (length keys) [] = dependents_of keys 0"
    by (rule nth_equalityI) (simp_all add: dependents_of_def)
  then show ?case by (simp add: registered_def)
next
  case (Suc k)
  have snoc: "rfold f (xs @ [x]) s = rbind (rfold f xs s) (f x)" for f :: "nat \<Rightarrow> 's \<Rightarrow> 's result" and xs x s
    by (induction xs arbitrary: s) (auto simp: rbind_def split: sum.splits)
  from Suc register_handle_ok [OF assms(1), of k] show ?case by (simp add: snoc)
qed

lemma registered_all: "registered es keys (length keys) = frozen_after es keys []"
  by (simp add: registered_def frozen_after_def ready_def)

section \<open>One handle\<close>

lemma release_handles_ok:
  assumes wf: "keys_wf es keys" and hs: "distinct hs" and ds: "distinct ds" "set ds \<subseteq> {..<length keys}" "set ds \<inter> S = {}" and fin: "finite S"
    and len: "length (fr_remaining s) = length keys" and final: "fr_final_ids s = enumeration hs"
    and available: "fr_available s = sorted_list_of_set (entry es keys hs ` S)"
    and enabled: "\<And>d. d \<in> set ds \<Longrightarrow> fr_remaining s ! d = 1 \<Longrightarrow> needs keys d \<subseteq> set hs"
  shows "rfold (release_handle (enumeration es) keys) ds s =
    Inr (s\<lparr>fr_remaining := map (\<lambda>h. if h \<in> set ds then fr_remaining s ! h - 1 else fr_remaining s ! h) [0..<length keys],
      fr_available := sorted_list_of_set (entry es keys hs ` (S \<union> {d \<in> set ds. fr_remaining s ! d = 1}))\<rparr>)"
  using ds fin len final available enabled
proof (induction ds arbitrary: S s)
  case Nil
  have "map ((!) (fr_remaining s)) [0..<length keys] = fr_remaining s"
    by (rule nth_equalityI) (simp_all add: Nil)
  with Nil show ?case by simp
next
  case (Cons d ds)
  let ?s = "s\<lparr>fr_remaining := (fr_remaining s)[d := fr_remaining s ! d - 1]\<rparr>"
  let ?S = "if fr_remaining s ! d = 1 then insert d S else S"
  let ?s' = "?s\<lparr>fr_available := sorted_list_of_set (entry es keys hs ` ?S)\<rparr>"
  have step: "release_handle (enumeration es) keys d s = Inr ?s'"
  proof (cases "fr_remaining s ! d = 1")
    case True
    have "push_available (enumeration es) keys d ?s = Inr (?s\<lparr>fr_available := sorted_list_of_set (entry es keys hs ` insert d S)\<rparr>)"
      by (rule push_available_ok [OF wf _ hs]) (use Cons.prems True in auto)
    with True Cons.prems show ?thesis by (simp add: release_handle_def Let_def)
  next
    case False
    with Cons.prems show ?thesis by (simp add: release_handle_def Let_def)
  qed
  have "rfold (release_handle (enumeration es) keys) ds ?s' =
    Inr (?s'\<lparr>fr_remaining := map (\<lambda>h. if h \<in> set ds then fr_remaining ?s' ! h - 1 else fr_remaining ?s' ! h) [0..<length keys],
      fr_available := sorted_list_of_set (entry es keys hs ` (?S \<union> {d \<in> set ds. fr_remaining ?s' ! d = 1}))\<rparr>)"
  proof (rule Cons.IH)
    show "needs keys d' \<subseteq> set hs" if "d' \<in> set ds" "fr_remaining ?s' ! d' = 1" for d'
      using that Cons.prems(8) [of d'] Cons.prems(1) by (cases "d' = d") simp_all
  qed (use Cons.prems in auto)
  moreover have "?S \<union> {d \<in> set ds. fr_remaining ?s' ! d = 1} = S \<union> {d' \<in> set (d # ds). fr_remaining s ! d' = 1}"
    using Cons.prems by (auto simp: nth_list_update)
  moreover have "map (\<lambda>h. if h \<in> set ds then fr_remaining ?s' ! h - 1 else fr_remaining ?s' ! h) [0..<length keys] =
      map (\<lambda>h. if h \<in> set (d # ds) then fr_remaining s ! h - 1 else fr_remaining s ! h) [0..<length keys]"
    using Cons.prems by (auto simp: nth_list_update)
  ultimately show ?case using step by simp
qed

lemma enumeration_snoc: "enumeration (xs @ [x]) = dict_put x (length xs) (enumeration xs)"
  by (simp add: enumeration_def enumerate_append_eq)

definition places_closed :: "index_key list \<Rightarrow> nat list \<Rightarrow> bool" where
  "places_closed keys hs \<longleftrightarrow> distinct hs \<and> set hs \<subseteq> {..<length keys} \<and> (\<forall>h \<in> set hs. needs keys h \<subseteq> set hs)"

lemma key_arguments_append:
  assumes "keys_wf es keys" and "h < length keys" and "needs keys h \<subseteq> set hs" and "distinct (hs @ xs)"
  shows "key_arguments es (hs @ xs) (keys ! h) = key_arguments es hs (keys ! h)"
  using assms by (intro key_arguments_cong place_append) (auto simp: keys_wf_def needs_def)

lemma ready_after:
  assumes wf: "keys_wf es keys" and closed: "places_closed keys hs" and h: "h \<in> ready keys hs"
  shows "ready keys (hs @ [h]) = (ready keys hs - {h}) \<union> {d. d < length keys \<and> h \<in> needs keys d \<and> card (needs keys d - set hs) = 1}"
proof -
  have one: "card (needs keys d - set hs) = 1 \<longleftrightarrow> needs keys d \<subseteq> set (hs @ [h])" if "h \<in> needs keys d" for d
  proof -
    have mem: "h \<in> needs keys d - set hs" using that h by (auto simp: ready_def)
    have "card (needs keys d - set hs) = 1 \<longleftrightarrow> needs keys d - set hs = {h}"
      using mem by (metis card_1_singletonE is_singletonI is_singleton_altdef singletonD)
    also have "\<dots> \<longleftrightarrow> needs keys d \<subseteq> set (hs @ [h])" using mem by auto
    finally show ?thesis .
  qed
  have gone: "d \<notin> set hs" "d \<noteq> h" if "d < length keys" "h \<in> needs keys d" for d
    using that h closed wf by (auto simp: places_closed_def ready_def keys_wf_def)
  show ?thesis using one gone by (auto simp: ready_def)
qed

lemma card_needs_after:
  "card (needs keys d - set (hs @ [h])) = (if h \<in> needs keys d \<and> h \<notin> set hs then card (needs keys d - set hs) - 1 else card (needs keys d - set hs))"
proof -
  have "needs keys d - set (hs @ [h]) = (needs keys d - set hs) - {h}" by auto
  then show ?thesis by (simp add: card_Diff_singleton_if)
qed

definition least_ready :: "entity_record list \<Rightarrow> index_key list \<Rightarrow> nat list \<Rightarrow> nat \<Rightarrow> bool" where
  "least_ready es keys hs h \<longleftrightarrow> h \<in> ready keys hs \<and> (\<forall>h' \<in> ready keys hs. entry es keys hs h \<le> entry es keys hs h')"

definition tables_fit :: "entity_record list \<Rightarrow> index_key list \<Rightarrow> bool" where
  "tables_fit es keys \<longleftrightarrow> length es \<le> U32_RESERVED \<and> length keys \<le> U32_RESERVED"

lemma key_arguments_less:
  assumes wf: "keys_wf es keys" and fit: "tables_fit es keys" and closed: "places_closed keys hs" and h: "h < length keys" "needs keys h \<subseteq> set hs"
    and a: "a \<in> set (key_arguments es hs (keys ! h))"
  shows "a < U32_RESERVED"
proof -
  have sub: "length hs \<le> length keys"
    using closed by (metis places_closed_def card_mono distinct_card finite_lessThan card_lessThan)
  from a consider e where "e \<in> set (key_entities (keys ! h))" "a = place es e" | x where "x \<in> needs keys h" "a = place hs x"
    using wf h(1) unfolding key_arguments_def needs_def keys_wf_def
    by (fastforce simp: shape_simps split: if_splits)
  then show ?thesis
  proof cases
    case 1
    then have "e \<in> set es" "distinct es" using wf h(1) by (auto simp: keys_wf_def)
    then have "place es e < length es" by simp
    with 1 fit show ?thesis by (simp add: tables_fit_def)
  next
    case 2
    then have "x \<in> set hs" "distinct hs" using h(2) closed by (auto simp: places_closed_def)
    then have "place hs x < length hs" by simp
    with 2 fit sub show ?thesis by (simp add: tables_fit_def)
  qed
qed

lemma freeze_step:
  assumes wf: "keys_wf es keys" and fit: "tables_fit es keys" and closed: "places_closed keys hs" and least: "least_ready es keys hs h"
  shows "freeze_loop (enumeration es) keys (dependents_of keys (length keys)) (frozen_after es keys hs) =
    freeze_loop (enumeration es) keys (dependents_of keys (length keys)) (frozen_after es keys (hs @ [h]))"
proof -
  let ?eids = "enumeration es" and ?ds = "dependents_of keys (length keys) ! h"
  have h: "h < length keys" "h \<notin> set hs" "needs keys h \<subseteq> set hs" using least by (auto simp: least_ready_def ready_def)
  have hs: "distinct hs" "distinct (hs @ [h])" using closed h by (auto simp: places_closed_def)
  have es: "distinct es" "shape_ok (keys ! h)" "set (key_entities (keys ! h)) \<subseteq> set es" using wf h(1) by (auto simp: keys_wf_def)
  have S: "sorted_list_of_set (entry es keys hs ` ready keys hs) =
      entry es keys hs h # sorted_list_of_set (entry es keys hs ` (ready keys hs - {h}))"
  proof -
    have "sorted_list_of_set (entry es keys hs ` ready keys hs) =
        entry es keys hs h # sorted_list_of_set (entry es keys hs ` ready keys hs - {entry es keys hs h})"
      by (rule least_of_sorted_set) (use least in \<open>auto simp: least_ready_def\<close>)
    moreover have "entry es keys hs ` ready keys hs - {entry es keys hs h} = entry es keys hs ` (ready keys hs - {h})"
      using inj_entry [of es keys hs UNIV] by (auto simp: inj_on_def)
    ultimately show ?thesis by simp
  qed
  have absent: "\<not> dict_contains (enumeration hs) h"
    using enumeration_get [OF hs(1), of h] h(2) by (auto simp: dict_contains_def in_set_conv_nth)
  have args: "rewritten_arguments ?eids (enumeration hs) (keys ! h) = Inr (key_arguments es hs (keys ! h))"
    using es hs(1) h(3) by (intro rewritten_arguments_ok) (auto simp: needs_def)
  have stable: "key_arguments es (hs @ [h]) (keys ! d) = key_arguments es hs (keys ! d)" if "d < length keys" "needs keys d \<subseteq> set hs" for d
    by (rule key_arguments_append [OF wf that hs(2)])
  have new: "new_expression_record (key_tag (keys ! h)) (key_arguments es hs (keys ! h)) (key_payload (keys ! h)) = Inr (key_record es (hs @ [h]) (keys ! h))"
  proof -
    have "a \<le> U32_MAX" if "a \<in> set (key_arguments es hs (keys ! h))" for a
      using key_arguments_less [OF wf fit closed h(1,3) that] by (simp add: U32_MAX_def)
    then show ?thesis using stable [OF h(1,3)]
      by (simp add: new_expression_record_def key_record_def expression_record_check_def rall_Inr_iff check_u32_def)
  qed
  have recs: "map (\<lambda>d. key_record es (hs @ [h]) (keys ! d)) hs = map (\<lambda>d. key_record es hs (keys ! d)) hs"
    using closed stable by (auto simp: key_record_def places_closed_def subset_iff)
  have entries: "entry es keys hs ` (ready keys hs - {h}) = entry es keys (hs @ [h]) ` (ready keys hs - {h})"
    by (intro image_cong) (auto simp: entry_def stable ready_def)
  have ds: "?ds = filter (\<lambda>d. h \<in> needs keys d) [0..<length keys]" using h(1) by (simp add: dependents_of_def)
  let ?s = "\<lparr>fr_remaining = map (\<lambda>d. int (card (needs keys d - set hs))) [0..<length keys], fr_final_ids = enumeration (hs @ [h]),
     fr_available = sorted_list_of_set (entry es keys (hs @ [h]) ` (ready keys hs - {h})),
     fr_records = map (\<lambda>d. key_record es (hs @ [h]) (keys ! d)) (hs @ [h])\<rparr>"
  have rel: "rfold (release_handle ?eids keys) ?ds ?s =
    Inr (?s\<lparr>fr_remaining := map (\<lambda>d. if d \<in> set ?ds then fr_remaining ?s ! d - 1 else fr_remaining ?s ! d) [0..<length keys],
      fr_available := sorted_list_of_set (entry es keys (hs @ [h]) ` ((ready keys hs - {h}) \<union> {d \<in> set ?ds. fr_remaining ?s ! d = 1}))\<rparr>)"
  proof (rule release_handles_ok [OF wf hs(2)])
    show "needs keys d \<subseteq> set (hs @ [h])" if "d \<in> set ?ds" "fr_remaining ?s ! d = 1" for d
      using ready_after [OF wf closed, of h] that least by (auto simp: ds ready_def least_ready_def)
    show "set ?ds \<inter> (ready keys hs - {h}) = {}" using h(2) by (auto simp: ds ready_def)
  qed (auto simp: ds)
  have rem: "map (\<lambda>d. if d \<in> set ?ds then fr_remaining ?s ! d - 1 else fr_remaining ?s ! d) [0..<length keys] =
      map (\<lambda>d. int (card (needs keys d - set (hs @ [h])))) [0..<length keys]"
  proof (rule map_cong)
    fix d assume "d \<in> set [0..<length keys]"
    moreover have "0 < card (needs keys d - set hs)" if "h \<in> needs keys d" using that h(2) by (auto simp: card_gt_0_iff)
    ultimately show "(if d \<in> set ?ds then fr_remaining ?s ! d - 1 else fr_remaining ?s ! d) = int (card (needs keys d - set (hs @ [h])))"
      using card_needs_after [of keys d hs h] h(2) by (auto simp: ds)
  qed simp
  have av: "(ready keys hs - {h}) \<union> {d \<in> set ?ds. fr_remaining ?s ! d = 1} = ready keys (hs @ [h])"
    using ready_after [OF wf closed, of h] least by (auto simp: ds least_ready_def)
  have "rfold (release_handle ?eids keys) ?ds ?s = Inr (frozen_after es keys (hs @ [h]))"
    unfolding rel rem av by (simp add: frozen_after_def)
  then show ?thesis
    by (subst freeze_loop.simps)
      (simp add: frozen_after_def S entry_def [of es keys hs h] absent args new enumeration_snoc recs entries Let_def)
qed

section \<open>The whole loop\<close>

definition greedy_run :: "entity_record list \<Rightarrow> index_key list \<Rightarrow> nat list \<Rightarrow> bool" where
  "greedy_run es keys hs \<longleftrightarrow> (\<forall>i < length hs. least_ready es keys (take i hs) (hs ! i))"

lemma places_closed_snoc: "places_closed keys hs \<Longrightarrow> least_ready es keys hs h \<Longrightarrow> places_closed keys (hs @ [h])"
  by (auto simp: places_closed_def least_ready_def ready_def)

lemma greedy_run_snoc: "greedy_run es keys hs \<Longrightarrow> least_ready es keys hs h \<Longrightarrow> greedy_run es keys (hs @ [h])"
  by (auto simp: greedy_run_def nth_append less_Suc_eq)

lemma least_ready_exists:
  assumes wf: "keys_wf es keys" and closed: "places_closed keys hs" and more: "set hs \<noteq> {..<length keys}"
  obtains h where "least_ready es keys hs h"
proof -
  have "{h. h < length keys \<and> h \<notin> set hs} \<noteq> {}" using closed more by (auto simp: places_closed_def)
  then obtain h where h: "h < length keys" "h \<notin> set hs" "\<forall>k < h. k < length keys \<longrightarrow> k \<in> set hs"
    using exists_least_iff [of "\<lambda>h. h < length keys \<and> h \<notin> set hs"] by auto
  then have "h \<in> ready keys hs" using wf by (fastforce simp: ready_def keys_wf_def)
  then have "Min (entry es keys hs ` ready keys hs) \<in> entry es keys hs ` ready keys hs" by (intro Min_in) auto
  then obtain k where "k \<in> ready keys hs" "Min (entry es keys hs ` ready keys hs) = entry es keys hs k" by auto
  then have "least_ready es keys hs k" unfolding least_ready_def by (metis Min_le finite_imageI finite_ready imageI)
  then show ?thesis by (rule that)
qed

lemma places_closed_length: "places_closed keys hs \<Longrightarrow> length hs \<le> length keys"
  by (metis places_closed_def card_mono distinct_card finite_lessThan card_lessThan)

lemma freeze_loop_ends:
  assumes wf: "keys_wf es keys" and fit: "tables_fit es keys" and "places_closed keys hs" and "greedy_run es keys hs"
  shows "\<exists>hs'. places_closed keys hs' \<and> greedy_run es keys hs' \<and> set hs' = {..<length keys} \<and>
    freeze_loop (enumeration es) keys (dependents_of keys (length keys)) (frozen_after es keys hs) = Some (Inr (frozen_after es keys hs'))"
  using assms(3,4)
proof (induction "length keys - length hs" arbitrary: hs rule: less_induct)
  case less
  show ?case
  proof (cases "set hs = {..<length keys}")
    case True
    then have "ready keys hs = {}" by (auto simp: ready_def)
    then have "fr_available (frozen_after es keys hs) = []" by (simp add: frozen_after_def)
    then show ?thesis using less.prems True by (intro exI [of _ hs]) (simp add: freeze_loop.simps)
  next
    case False
    then obtain h where h: "least_ready es keys hs h" using least_ready_exists [OF wf less.prems(1)] by blast
    note snoc = places_closed_snoc [OF less.prems(1) h] greedy_run_snoc [OF less.prems(2) h]
    have "length keys - length (hs @ [h]) < length keys - length hs"
      using places_closed_length [OF snoc(1)] by simp
    from less.hyps [OF this snoc] show ?thesis unfolding freeze_step [OF wf fit less.prems(1) h] .
  qed
qed

text \<open>What the loop writes: the order in which the handles were placed, and the record of each.\<close>

definition placed :: "entity_record list \<Rightarrow> index_key list \<Rightarrow> nat list \<Rightarrow> bool" where
  "placed es keys hs \<longleftrightarrow> distinct hs \<and> set hs = {..<length keys} \<and> greedy_run es keys hs"

definition placed_records :: "entity_record list \<Rightarrow> index_key list \<Rightarrow> nat list \<Rightarrow> expression_record list" where
  "placed_records es keys hs = map (\<lambda>h. key_record es hs (keys ! h)) hs"

lemma placed_length: "placed es keys hs \<Longrightarrow> length hs = length keys"
  by (metis placed_def distinct_card card_lessThan)

lemma freeze_expressions_ok:
  assumes wf: "keys_wf es keys" and fit: "tables_fit es keys"
  obtains hs where "placed es keys hs"
    and "freeze_expressions (enumeration es) keys = Some (Inr (placed_records es keys hs, enumeration hs))"
proof -
  have "places_closed keys []" "greedy_run es keys []" by (simp_all add: places_closed_def greedy_run_def)
  from freeze_loop_ends [OF wf fit this] obtain hs where hs: "places_closed keys hs" "greedy_run es keys hs" "set hs = {..<length keys}"
    "freeze_loop (enumeration es) keys (dependents_of keys (length keys)) (frozen_after es keys []) = Some (Inr (frozen_after es keys hs))"
    by blast
  then have placed: "placed es keys hs" by (simp add: placed_def places_closed_def)
  have "freeze_expressions (enumeration es) keys = Some (Inr (placed_records es keys hs, enumeration hs))"
    unfolding freeze_expressions_def register_all_ok [OF wf order_refl] registered_all
    using hs(4) placed_length [OF placed] by (simp add: frozen_after_def placed_records_def)
  with placed show ?thesis by (rule that)
qed

section \<open>The order of the table\<close>

lemma key_record_inj:
  assumes "keys_wf es keys" and "distinct hs" and "h < length keys" "k < length keys" and "needs keys h \<subseteq> set hs" "needs keys k \<subseteq> set hs"
    and "key_record es hs (keys ! h) = key_record es hs (keys ! k)"
  shows "h = k"
proof -
  have shape: "shape_ok (keys ! h)" "shape_ok (keys ! k)" and es: "distinct es" "set (key_entities (keys ! h)) \<subseteq> set es"
    "set (key_entities (keys ! k)) \<subseteq> set es" using assms by (auto simp: keys_wf_def)
  have same: "key_tag (keys ! h) = key_tag (keys ! k)" "key_payload (keys ! h) = key_payload (keys ! k)"
    "key_arguments es hs (keys ! h) = key_arguments es hs (keys ! k)" using assms(7) by (simp_all add: key_record_def)
  have map: "xs = ys" if "map (place zs) xs = map (place zs) ys" "distinct zs" "set xs \<subseteq> set zs" "set ys \<subseteq> set zs" for xs ys zs :: "'z list"
    using that by (intro map_inj_on [OF that(1)]) (auto intro: inj_on_subset [OF inj_on_place])
  have ents: "key_entities (keys ! h) = key_entities (keys ! k)"
    using shape same es map [of es "key_entities (keys ! h)" "key_entities (keys ! k)"]
    by (cases "key_tag (keys ! h)") (auto simp: shape_simps key_arguments_def place_eq_iff)
  have exprs: "key_expressions (keys ! h) = key_expressions (keys ! k)"
    using shape same assms(2,5,6) ents map [of hs "key_expressions (keys ! h)" "key_expressions (keys ! k)"]
    by (cases "key_tag (keys ! h)") (auto simp: shape_simps key_arguments_def place_eq_iff needs_def)
  have "keys ! h = keys ! k" using same ents exprs by simp
  with assms(1,3,4) show ?thesis by (simp add: keys_wf_def nth_eq_iff_index_eq)
qed

lemma record_dependencies:
  "shape_ok (keys ! h) \<Longrightarrow> expression_dependencies (key_record es hs (keys ! h)) = place hs ` needs keys h"
  by (cases "key_tag (keys ! h)") (auto simp: key_record_def key_arguments_def shape_simps needs_def)

lemma place_take:
  assumes "distinct hs" and "x \<in> set hs" and "k \<le> length hs"
  shows "place hs x < k \<longleftrightarrow> x \<in> set (take k hs)"
proof
  assume "place hs x < k"
  then show "x \<in> set (take k hs)"
    using assms nth_mem [of "place hs x" "take k hs"] by simp
next
  assume "x \<in> set (take k hs)"
  then obtain i where "i < k" "i < length hs" "hs ! i = x" by (auto simp: in_set_conv_nth)
  with assms(1) show "place hs x < k" by auto
qed

lemma placed_order:
  assumes wf: "keys_wf es keys" and placed: "placed es keys hs"
  shows "validate_expression_order (placed_records es keys hs) = Inr ()"
proof -
  have hs: "distinct hs" "set hs = {..<length keys}" "greedy_run es keys hs" using placed by (simp_all add: placed_def)
  have n: "length hs = length keys" by (rule placed_length [OF placed])
  have mem: "hs ! i < length keys" if "i < length hs" for i using nth_mem [OF that] hs(2) by simp
  have shape: "shape_ok (keys ! h)" and below: "needs keys h \<subseteq> {..<h}" if "h < length keys" for h using wf that by (auto simp: keys_wf_def)
  have needs: "needs keys h \<subseteq> set hs" if "h < length keys" for h using below [OF that] that hs(2) by auto
  let ?es = "placed_records es keys hs"
  have inj: "expression_key (key_record es hs (keys ! h)) = expression_key (key_record es hs (keys ! k)) \<Longrightarrow> h = k"
    if "h < length keys" "k < length keys" for h k
    by (rule key_record_inj [OF wf hs(1) that needs [OF that(1)] needs [OF that(2)]])
      (auto simp: expression_key_def key_record_def elim!: expression_tag_int.elims)
  have "distinct (map expression_key ?es)"
    unfolding placed_records_def using hs(1,2) inj by (auto simp: distinct_map inj_on_def)
  moreover have "greedy_order (map expression_key ?es) (map expression_dependencies ?es)"
    unfolding greedy_order_def
  proof (intro allI impI conjI; (elim conjE)?)
    fix k assume "k < length (map expression_key ?es)"
    then have k: "k < length hs" by (simp add: placed_records_def)
    have least: "least_ready es keys (take k hs) (hs ! k)" using hs(3) k by (simp add: greedy_run_def)
    have deps: "map expression_dependencies ?es ! j = place hs ` needs keys (hs ! j)" if "j < length hs" for j
      unfolding placed_records_def using that record_dependencies [OF shape [OF mem [OF that]]]
      by (simp del: expression_dependencies.simps)
    have sub: "place hs ` needs keys h \<subseteq> {..<k} \<longleftrightarrow> needs keys h \<subseteq> set (take k hs)" if "h < length keys" for h
      using place_take [OF hs(1)] needs [OF that] k by (fastforce simp: image_subset_iff)
    show "map expression_dependencies ?es ! k \<subseteq> {..<k}"
      using least sub [OF mem [OF k]] by (simp add: deps k least_ready_def ready_def)
    fix j assume j: "j < length (map expression_key ?es)" "k < j" "map expression_dependencies ?es ! j \<subseteq> {..<k}"
    then have jn: "j < length hs" by (simp add: placed_records_def)
    have "needs keys (hs ! j) \<subseteq> set (take k hs)" using j(3) sub [OF mem [OF jn]] by (simp add: deps jn)
    moreover have "hs ! j \<notin> set (take k hs)"
      using place_take [OF hs(1), of "hs ! j" k] jn j(2) hs(1) k by simp
    ultimately have "hs ! j \<in> ready keys (take k hs)" using mem [OF jn] by (simp add: ready_def)
    with least have le: "entry es keys (take k hs) (hs ! k) \<le> entry es keys (take k hs) (hs ! j)"
      and k_ready: "hs ! k \<in> ready keys (take k hs)" by (auto simp: least_ready_def)
    have args: "key_arguments es (take k hs) (keys ! h) = key_arguments es hs (keys ! h)" if "h \<in> ready keys (take k hs)" for h
      using key_arguments_append [OF wf, of h "take k hs" "drop k hs"] that hs(1) by (simp add: ready_def)
    have ks: "map expression_key ?es ! i = expression_key (key_record es hs (keys ! (hs ! i)))" if "i < length hs" for i
      using that by (simp add: placed_records_def)
    have "map expression_key ?es ! k \<le> map expression_key ?es ! j"
      using le unfolding ks [OF k] ks [OF jn] entry_def args [OF k_ready] args [OF \<open>hs ! j \<in> ready keys (take k hs)\<close>]
      by (auto simp: expression_key_def key_record_def less_eq_prod_def)
    moreover have "map expression_key ?es ! k \<noteq> map expression_key ?es ! j"
      using inj [OF mem [OF k] mem [OF jn]] j(2) hs(1) jn k unfolding ks [OF k] ks [OF jn] by (auto simp: nth_eq_iff_index_eq)
    ultimately show "map expression_key ?es ! k < map expression_key ?es ! j" by simp
  qed
  ultimately show ?thesis by (rule validate_expression_order_ok)
qed

end
