(* ===== verification/Builder_Trees.thy ===== *)
theory Builder_Trees
  imports Builder_Freeze
begin

text \<open>
  What the shared expression tables stand for: a handle of the mutable index and an identifier of the
  frozen tables both stand for an expression tree, and freezing keeps the trees.
\<close>

section \<open>Trees\<close>

datatype expr_tree = Tree (tree_tag: expression_tag) (tree_entities: "entity_record list")
  (tree_children: "expr_tree list") (tree_payload: bytes)

definition key_tree :: "expr_tree list \<Rightarrow> index_key \<Rightarrow> expr_tree" where
  "key_tree ts key = Tree (key_tag key) (key_entities key) (map ((!) ts) (key_expressions key)) (key_payload key)"

definition record_tree :: "entity_record list \<Rightarrow> expr_tree list \<Rightarrow> expression_record \<Rightarrow> expr_tree" where
  "record_tree es ts r = (case tag r of
     OBJECT_SOME_VALUES_FROM \<Rightarrow> Tree (tag r) [es ! (arguments r ! 0)] [ts ! (arguments r ! 1)] (payload r)
   | OBJECT_INTERSECTION_OF \<Rightarrow> Tree (tag r) [] (map ((!) ts) (arguments r)) (payload r)
   | OBJECT_COMPLEMENT_OF \<Rightarrow> Tree (tag r) [] (map ((!) ts) (arguments r)) (payload r)
   | OBJECT_UNION_OF \<Rightarrow> Tree (tag r) [] (map ((!) ts) (arguments r)) (payload r)
   | _ \<Rightarrow> Tree (tag r) (map ((!) es) (arguments r)) [] (payload r))"

text \<open>Rows refer to rows before them: the trees of a table, built from its start.\<close>

definition unfold_rows :: "(expr_tree list \<Rightarrow> 'r \<Rightarrow> expr_tree) \<Rightarrow> 'r list \<Rightarrow> expr_tree list" where
  "unfold_rows f rows = fold (\<lambda>r ts. ts @ [f ts r]) rows []"

definition trees :: "index_key list \<Rightarrow> expr_tree list" where
  "trees = unfold_rows key_tree"

definition record_trees :: "entity_record list \<Rightarrow> expression_record list \<Rightarrow> expr_tree list" where
  "record_trees es = unfold_rows (record_tree es)"

lemma unfold_rows_snoc: "unfold_rows f (rows @ [r]) = unfold_rows f rows @ [f (unfold_rows f rows) r]"
  by (simp add: unfold_rows_def)

lemma length_unfold_rows [simp]: "length (unfold_rows f rows) = length rows"
  by (induction rows rule: rev_induct) (simp_all add: unfold_rows_snoc, simp add: unfold_rows_def)

lemma take_unfold_rows: "take k (unfold_rows f rows) = unfold_rows f (take k rows)"
proof (induction rows rule: rev_induct)
  case Nil
  then show ?case by (simp add: unfold_rows_def)
next
  case (snoc r rows)
  then show ?case by (cases "k \<le> length rows") (simp_all add: unfold_rows_snoc)
qed

lemma unfold_rows_nth: "k < length rows \<Longrightarrow> unfold_rows f rows ! k = f (take k (unfold_rows f rows)) (rows ! k)"
proof (induction rows rule: rev_induct)
  case (snoc r rows)
  then show ?case by (cases "k < length rows") (auto simp: unfold_rows_snoc nth_append less_Suc_eq take_unfold_rows)
qed simp

lemma length_trees [simp]: "length (trees keys) = length keys" "length (record_trees es rs) = length rs"
  by (simp_all add: trees_def record_trees_def)

lemma trees_append: "trees (keys @ [key]) = trees keys @ [key_tree (trees keys) key]"
  by (simp add: trees_def unfold_rows_snoc)

lemma trees_take: "take k (trees keys) = trees (take k keys)"
  by (simp add: trees_def take_unfold_rows)

lemma key_tree_cong: "(\<And>x. x \<in> set (key_expressions key) \<Longrightarrow> ts ! x = ts' ! x) \<Longrightarrow> key_tree ts key = key_tree ts' key"
  by (simp add: key_tree_def)

lemma trees_nth:
  assumes "h < length keys" and "needs keys h \<subseteq> {..<h}"
  shows "trees keys ! h = key_tree (trees keys) (keys ! h)"
proof -
  have "trees keys ! h = key_tree (take h (trees keys)) (keys ! h)"
    using unfold_rows_nth [OF assms(1), of key_tree] by (simp add: trees_def)
  also have "\<dots> = key_tree (trees keys) (keys ! h)"
    using assms by (intro key_tree_cong) (auto simp: needs_def)
  finally show ?thesis .
qed

lemma record_tree_cong:
  assumes "\<And>x. x \<in> expression_dependencies r \<Longrightarrow> ts ! x = ts' ! x"
  shows "record_tree es ts r = record_tree es ts' r"
  using assms by (cases "tag r") (simp_all add: record_tree_def)

lemma record_trees_nth:
  assumes "k < length rs" and "expression_dependencies (rs ! k) \<subseteq> {..<k}"
  shows "record_trees es rs ! k = record_tree es (record_trees es rs) (rs ! k)"
proof -
  have "record_trees es rs ! k = record_tree es (take k (record_trees es rs)) (rs ! k)"
    using unfold_rows_nth [OF assms(1), of "record_tree es"] by (simp add: record_trees_def)
  also have "\<dots> = record_tree es (record_trees es rs) (rs ! k)"
  proof (rule record_tree_cong)
    fix x assume "x \<in> expression_dependencies (rs ! k)"
    then have "x < k" using assms(2) by blast
    then show "take k (record_trees es rs) ! x = record_trees es rs ! x" by simp
  qed
  finally show ?thesis .
qed

section \<open>Equal trees, equal handles\<close>

lemma trees_inj:
  assumes "keys_wf es keys"
  shows "h < length keys \<Longrightarrow> k < length keys \<Longrightarrow> trees keys ! h = trees keys ! k \<Longrightarrow> h = k"
proof (induction h arbitrary: k rule: less_induct)
  case (less h)
  have below: "needs keys h \<subseteq> {..<h}" "needs keys k \<subseteq> {..<k}" using assms less.prems by (auto simp: keys_wf_def)
  have eq: "key_tree (trees keys) (keys ! h) = key_tree (trees keys) (keys ! k)"
    using less.prems trees_nth below by simp
  have "key_expressions (keys ! h) = key_expressions (keys ! k)"
  proof (rule nth_equalityI)
    show len: "length (key_expressions (keys ! h)) = length (key_expressions (keys ! k))"
      using eq by (auto simp: key_tree_def dest: map_eq_imp_length_eq)
    fix i assume i: "i < length (key_expressions (keys ! h))"
    have "key_expressions (keys ! h) ! i \<in> needs keys h" "key_expressions (keys ! k) ! i \<in> needs keys k"
      using i len by (simp_all add: needs_def)
    then have xh: "key_expressions (keys ! h) ! i < h" and xk: "key_expressions (keys ! k) ! i < length keys"
      using below less.prems(2) by auto
    have "map ((!) (trees keys)) (key_expressions (keys ! h)) = map ((!) (trees keys)) (key_expressions (keys ! k))"
      using eq by (simp add: key_tree_def)
    from arg_cong [OF this, of "\<lambda>xs. xs ! i"] i len
    have "trees keys ! (key_expressions (keys ! h) ! i) = trees keys ! (key_expressions (keys ! k) ! i)" by simp
    then show "key_expressions (keys ! h) ! i = key_expressions (keys ! k) ! i"
      using less.IH [OF xh _ xk] xh less.prems(1) by simp
  qed
  then have "keys ! h = keys ! k" using eq by (simp add: key_tree_def)
  with assms less.prems show ?case by (simp add: keys_wf_def nth_eq_iff_index_eq)
qed

section \<open>Freezing keeps the trees\<close>

lemma placed_trees:
  assumes wf: "keys_wf es keys" and placed: "placed es keys hs"
  shows "h < length keys \<Longrightarrow> record_trees es (placed_records es keys hs) ! place hs h = trees keys ! h"
proof (induction h rule: less_induct)
  case (less h)
  let ?rs = "placed_records es keys hs"
  have hs: "distinct hs" "h \<in> set hs" using placed less.prems by (simp_all add: placed_def)
  have shape: "shape_ok (keys ! h)" and es: "distinct es" "set (key_entities (keys ! h)) \<subseteq> set es" and below: "needs keys h \<subseteq> {..<h}"
    using wf less.prems by (auto simp: keys_wf_def)
  have row: "?rs ! place hs h = key_record es hs (keys ! h)" "place hs h < length ?rs"
    using hs by (simp_all add: placed_records_def)
  have n: "length hs = length keys" by (rule placed_length [OF placed])
  have "least_ready es keys (take (place hs h) hs) (hs ! place hs h)"
    using placed place_less [OF hs] unfolding placed_def greedy_run_def by blast
  then have "needs keys h \<subseteq> set (take (place hs h) hs)" using hs by (simp add: least_ready_def ready_def)
  then have "place hs ` needs keys h \<subseteq> {..<place hs h}"
    using place_take [OF hs(1), of _ "place hs h"] place_less [OF hs] set_take_subset [of "place hs h" hs] by fastforce
  then have deps: "expression_dependencies (?rs ! place hs h) \<subseteq> {..<place hs h}"
    unfolding row(1) record_dependencies [OF shape] .
  have child: "record_trees es ?rs ! place hs x = trees keys ! x" if "x \<in> set (key_expressions (keys ! h))" for x
    using below that less.prems by (intro less.IH) (auto simp: needs_def)
  have ents: "map ((!) es \<circ> place es) (key_entities (keys ! h)) = key_entities (keys ! h)"
    using es by (intro map_idI) auto
  have "record_tree es (record_trees es ?rs) (key_record es hs (keys ! h)) = key_tree (trees keys) (keys ! h)"
    using shape child ents es
    by (cases "key_tag (keys ! h)") (auto simp: record_tree_def key_record_def key_arguments_def key_tree_def shape_simps)
  then show ?case
    using record_trees_nth [OF row(2) deps] trees_nth [OF less.prems below] by (simp add: row)
qed

end
