(* ===== verification/Builder_Tables.thy ===== *)
theory Builder_Tables
  imports Builder_Trees
begin

text \<open>
  The invariant of the mutable index of \<open>src/pyelk/indexing/builder.py\<close> and what its operations keep.
\<close>

section \<open>The invariant\<close>

definition keys_ok :: "mutable_index \<Rightarrow> bool" where
  "keys_ok m \<longleftrightarrow> keys_wf (mi_entities m) (mi_expressions m) \<and>
     (\<forall>e \<in> set (mi_entities m). entity_record_check e = Inr ()) \<and>
     (\<forall>key h. dict_get (mi_expression_ids m) key = Some h \<longleftrightarrow> h < length (mi_expressions m) \<and> mi_expressions m ! h = key) \<and>
     length (mi_expression_occurrences m) = length (mi_expressions m) \<and>
     (\<forall>occ \<in> set (mi_expression_occurrences m). occurrence_check occ = Inr ())"

definition is_property_of :: "mutable_index \<Rightarrow> entity_record \<Rightarrow> bool" where
  "is_property_of m p \<longleftrightarrow> p \<in> set (mi_entities m) \<and> kind p = OBJECT_PROPERTY"

definition is_handle :: "mutable_index \<Rightarrow> nat \<Rightarrow> bool" where
  "is_handle m h \<longleftrightarrow> h < length (mi_expressions m)"

definition rows_distinct :: "mutable_index \<Rightarrow> bool" where
  "rows_distinct m \<longleftrightarrow> distinct (mi_property_chains m) \<and> distinct (mi_subclass_axioms m) \<and> distinct (mi_equivalent_class_axioms m) \<and>
     distinct (mi_disjoint_groups m) \<and> distinct (mi_subproperty_axioms m) \<and> distinct (mi_property_ranges m)"

definition counters_ok :: "mutable_index \<Rightarrow> bool" where
  "counters_ok m \<longleftrightarrow> length (mi_feature_counts m) = FEATURE_VECTOR_LENGTH \<and> (\<forall>n \<in> set (mi_feature_counts m). n \<le> U64_MAX) \<and>
     (\<forall>(e, occ) \<in> set (mi_property_occurrences m). occurrence_check occ = Inr ())"

definition rows_ok :: "mutable_index \<Rightarrow> bool" where
  "rows_ok m \<longleftrightarrow>
     (\<forall>(a, b) \<in> set (mi_subclass_axioms m). is_handle m a \<and> is_handle m b) \<and>
     (\<forall>(a, b) \<in> set (mi_equivalent_class_axioms m). is_handle m a \<and> is_handle m b) \<and>
     (\<forall>g \<in> set (mi_disjoint_groups m). 2 \<le> length g \<and> (\<forall>a \<in> set g. is_handle m a)) \<and>
     (\<forall>ch \<in> set (mi_property_chains m). ch \<noteq> [] \<and> (\<forall>p \<in> set ch. is_property_of m p)) \<and>
     (\<forall>(ch, p) \<in> set (mi_subproperty_axioms m). ch \<in> set (mi_property_chains m) \<and> is_property_of m p) \<and>
     (\<forall>(p, a) \<in> set (mi_property_ranges m). is_property_of m p \<and> is_handle m a)"

definition index_ok :: "mutable_index \<Rightarrow> bool" where
  "index_ok m \<longleftrightarrow> keys_ok m \<and> rows_distinct m \<and> counters_ok m \<and> rows_ok m"

section \<open>Growth\<close>

text \<open>No handle is ever moved or reused, so its tree stays.\<close>

definition index_grows :: "mutable_index \<Rightarrow> mutable_index \<Rightarrow> bool" where
  "index_grows m m' \<longleftrightarrow> (\<exists>keys. mi_expressions m' = mi_expressions m @ keys) \<and> set (mi_entities m) \<subseteq> set (mi_entities m')"

definition index_tree :: "mutable_index \<Rightarrow> nat \<Rightarrow> expr_tree" where
  "index_tree m h = trees (mi_expressions m) ! h"

lemma index_grows_refl [simp]: "index_grows m m"
  by (simp add: index_grows_def)

lemma index_grows_trans [trans]: "index_grows m m' \<Longrightarrow> index_grows m' m'' \<Longrightarrow> index_grows m m''"
  by (auto simp: index_grows_def)

lemma index_grows_handle: "index_grows m m' \<Longrightarrow> is_handle m h \<Longrightarrow> is_handle m' h"
  by (auto simp: index_grows_def is_handle_def)

lemma index_grows_property: "index_grows m m' \<Longrightarrow> is_property_of m p \<Longrightarrow> is_property_of m' p"
  by (auto simp: index_grows_def is_property_of_def)

lemma trees_prefix: "k \<le> length keys \<Longrightarrow> take k (trees (keys @ rest)) = take k (trees keys)"
  by (simp add: trees_take)

lemma index_grows_tree:
  assumes "index_grows m m'" and "is_handle m h"
  shows "index_tree m' h = index_tree m h"
proof -
  obtain keys where keys: "mi_expressions m' = mi_expressions m @ keys" using assms(1) by (auto simp: index_grows_def)
  let ?n = "length (mi_expressions m)"
  have "take ?n (trees (mi_expressions m')) ! h = take ?n (trees (mi_expressions m)) ! h"
    unfolding keys by (simp add: trees_prefix)
  with assms(2) show ?thesis by (simp add: index_tree_def is_handle_def)
qed

definition same_rows :: "mutable_index \<Rightarrow> mutable_index \<Rightarrow> bool" where
  "same_rows m m' \<longleftrightarrow> mi_property_chains m' = mi_property_chains m \<and> mi_subclass_axioms m' = mi_subclass_axioms m \<and>
     mi_equivalent_class_axioms m' = mi_equivalent_class_axioms m \<and> mi_disjoint_groups m' = mi_disjoint_groups m \<and>
     mi_subproperty_axioms m' = mi_subproperty_axioms m \<and> mi_property_ranges m' = mi_property_ranges m"

definition same_counters :: "mutable_index \<Rightarrow> mutable_index \<Rightarrow> bool" where
  "same_counters m m' \<longleftrightarrow> mi_feature_counts m' = mi_feature_counts m \<and> mi_property_occurrences m' = mi_property_occurrences m"

lemma same_rows_refl [simp]: "same_rows m m" and same_counters_refl [simp]: "same_counters m m"
  by (simp_all add: same_rows_def same_counters_def)

lemma same_rows_trans [trans]: "same_rows m m' \<Longrightarrow> same_rows m' m'' \<Longrightarrow> same_rows m m''"
  by (simp add: same_rows_def)

lemma same_counters_trans [trans]: "same_counters m m' \<Longrightarrow> same_counters m' m'' \<Longrightarrow> same_counters m m''"
  by (simp add: same_counters_def)

lemma rows_ok_grows: "index_grows m m' \<Longrightarrow> same_rows m m' \<Longrightarrow> rows_ok m \<Longrightarrow> rows_ok m'"
  using index_grows_handle [of m m'] index_grows_property [of m m'] unfolding rows_ok_def same_rows_def by (auto split: prod.splits)

lemma rows_distinct_same: "same_rows m m' \<Longrightarrow> rows_distinct m \<Longrightarrow> rows_distinct m'"
  by (simp add: same_rows_def rows_distinct_def)

lemma counters_ok_same: "same_counters m m' \<Longrightarrow> counters_ok m \<Longrightarrow> counters_ok m'"
  by (simp add: same_counters_def counters_ok_def)

lemma index_ok_grows:
  "index_ok m \<Longrightarrow> keys_ok m' \<Longrightarrow> index_grows m m' \<Longrightarrow> same_rows m m' \<Longrightarrow> same_counters m m' \<Longrightarrow> index_ok m'"
  using rows_ok_grows rows_distinct_same counters_ok_same unfolding index_ok_def by blast

section \<open>Lists as sets\<close>

lemma set_add_new [simp]: "set (add_new x xs) = insert x (set xs)"
  by (auto simp: add_new_def)

lemma distinct_add_new [simp]: "distinct (add_new x xs) = distinct xs"
  by (simp add: add_new_def)

lemma add_new_present: "x \<in> set xs \<Longrightarrow> add_new x xs = xs"
  by (simp add: add_new_def)

lemma set_add_all [simp]: "set (add_all xs ys) = set xs \<union> set ys"
  and distinct_add_all [simp]: "distinct (add_all xs ys) = distinct ys"
  unfolding add_all_def by (induction xs arbitrary: ys) auto

lemma fold_add_entity: "fold add_entity es m = m\<lparr>mi_entities := add_all es (mi_entities m)\<rparr>"
  unfolding add_all_def by (induction es arbitrary: m) (simp_all add: add_entity_def)

section \<open>Interning\<close>

lemma occurrence_check_iff [simp]: "occurrence_check occ = Inr () \<longleftrightarrow> negative occ \<le> U64_MAX \<and> positive occ \<le> U64_MAX"
  by (simp add: occurrence_check_def check_u64_def)

lemma checked_add_cases: "checked_add a b = (if U64_MAX < a + b then Inl OverflowError else Inr (a + b))"
  by (simp add: checked_add_def Let_def)

lemma add_occurrences_Inr:
  "add_occurrences occ n p = Inr occ' \<longleftrightarrow> negative occ + n \<le> U64_MAX \<and> positive occ + p \<le> U64_MAX \<and>
     occ' = \<lparr>negative = negative occ + n, positive = positive occ + p\<rparr>"
  by (auto simp: add_occurrences_def checked_add_cases rbind_def)

lemma add_occurrences_Inl: "add_occurrences occ n p = Inl x \<Longrightarrow> x = OverflowError"
  by (auto simp: add_occurrences_def checked_add_cases split: if_splits)

definition the_key :: "expression_tag \<Rightarrow> entity_record list \<Rightarrow> nat list \<Rightarrow> bytes \<Rightarrow> index_key" where
  "the_key t es xs bs = \<lparr>key_tag = t, key_entities = es, key_expressions = xs, key_payload = bs\<rparr>"

text \<open>The new row, when there is one, keeps the invariant.\<close>

lemma keys_wf_append:
  assumes "keys_wf es keys" and "shape_ok key" and "set (key_entities key) \<subseteq> set es" and "set (key_expressions key) \<subseteq> {..<length keys}"
    and "key \<notin> set keys"
  shows "keys_wf es (keys @ [key])"
  using assms by (auto simp: keys_wf_def needs_def nth_append less_Suc_eq)

lemma keys_wf_entities: "keys_wf es keys \<Longrightarrow> set es \<subseteq> set es' \<Longrightarrow> distinct es' \<Longrightarrow> keys_wf es' keys"
  by (auto simp: keys_wf_def)

lemma set_list_update: "x \<in> set (xs[i := y]) \<Longrightarrow> x \<in> set xs \<or> x = y"
  using set_update_subset_insert [of xs i y] by blast

lemma intern_ok:
  assumes ok: "keys_ok m" and es: "\<forall>e \<in> set es. entity_record_check e = Inr ()" and shape: "shape_ok (the_key t es xs bs)"
    and xs: "\<forall>x \<in> set xs. is_handle m x" and run: "intern_expression t es xs bs pol m = Inr (h, m')"
  shows "keys_ok m'" and "index_grows m m'" and "same_rows m m'" and "same_counters m m'" and "is_handle m' h"
    and "mi_expressions m' ! h = the_key t es xs bs" and "set (mi_entities m') = set es \<union> set (mi_entities m)"
    and "set (mi_expressions m') = insert (the_key t es xs bs) (set (mi_expressions m))"
    and "set es \<subseteq> set (mi_entities m) \<Longrightarrow> mi_entities m' = mi_entities m"
proof -
  let ?key = "the_key t es xs bs" and ?es = "add_all es (mi_entities m)" and ?n = "length (mi_expressions m)"
  note wf = ok [unfolded keys_ok_def]
  have wf_es: "keys_wf ?es (mi_expressions m)" by (rule keys_wf_entities [of "mi_entities m"]) (use wf in \<open>auto simp: keys_wf_def\<close>)
  have no: "no_occurrence = \<lparr>negative = 0, positive = 0\<rparr>" by (simp add: no_occurrence_def)
  have props: "keys_ok m' \<and> index_grows m m' \<and> same_rows m m' \<and> same_counters m m' \<and> is_handle m' h \<and> mi_expressions m' ! h = ?key \<and>
    mi_entities m' = ?es \<and> set (mi_expressions m') = insert ?key (set (mi_expressions m))"
  proof (cases "dict_get (mi_expression_ids m) ?key")
    case (Some k)
    then have k: "k < ?n" "mi_expressions m ! k = ?key" using wf by auto
    with Some run obtain occ where occ: "h = k" "add_occurrences (mi_expression_occurrences m ! k) (polarity_negative pol) (polarity_positive pol) = Inr occ"
      "m' = m\<lparr>mi_entities := ?es, mi_expression_occurrences := (mi_expression_occurrences m)[k := occ]\<rparr>"
      by (auto simp: intern_expression_def Let_def fold_add_entity the_key_def)
    have "?key \<in> set (mi_expressions m)" using k nth_mem by metis
    moreover have "\<forall>o' \<in> set ((mi_expression_occurrences m)[k := occ]). occurrence_check o' = Inr ()"
      using occ(2) wf by (auto simp: add_occurrences_Inr dest!: set_list_update)
    ultimately show ?thesis
      using occ(1,3) k wf wf_es es
      by (auto simp: keys_ok_def index_grows_def same_rows_def same_counters_def is_handle_def)
  next
    case None
    have fresh: "?key \<notin> set (mi_expressions m)"
    proof
      assume "?key \<in> set (mi_expressions m)"
      then obtain i where "i < ?n" "mi_expressions m ! i = ?key" by (auto simp: in_set_conv_nth)
      then have "dict_get (mi_expression_ids m) ?key = Some i" using wf by blast
      with None show False by simp
    qed
    have fresh_at: "mi_expressions m ! k \<noteq> ?key" if "k < ?n" for k using fresh that nth_mem by metis
    have last: "(mi_expression_occurrences m @ [no_occurrence]) ! ?n = no_occurrence"
      using wf by (metis nth_append_length)
    have "keys_wf ?es (mi_expressions m @ [?key])"
      using wf_es shape fresh xs by (intro keys_wf_append) (auto simp: is_handle_def the_key_def)
    moreover obtain occ where occ: "h = ?n" "add_occurrences no_occurrence (polarity_negative pol) (polarity_positive pol) = Inr occ"
      "m' = m\<lparr>mi_entities := ?es, mi_expression_ids := dict_put ?key ?n (mi_expression_ids m), mi_expressions := mi_expressions m @ [?key],
        mi_expression_occurrences := mi_expression_occurrences m @ [occ]\<rparr>"
      using None run wf last by (auto simp: intern_expression_def Let_def fold_add_entity the_key_def list_update_append)
    moreover have "\<forall>key k. dict_get (dict_put ?key ?n (mi_expression_ids m)) key = Some k \<longleftrightarrow>
        k < length (mi_expressions m @ [?key]) \<and> (mi_expressions m @ [?key]) ! k = key"
      using wf fresh_at by (auto simp: nth_append less_Suc_eq)
    ultimately show ?thesis
      using wf es by (auto simp: keys_ok_def index_grows_def same_rows_def same_counters_def is_handle_def add_occurrences_Inr nth_append)
  qed
  then show "keys_ok m'" "index_grows m m'" "same_rows m m'" "same_counters m m'" "is_handle m' h" "mi_expressions m' ! h = ?key"
    "set (mi_entities m') = set es \<union> set (mi_entities m)" "set (mi_expressions m') = insert ?key (set (mi_expressions m))"
    by auto
  assume "set es \<subseteq> set (mi_entities m)"
  then have "?es = mi_entities m" unfolding add_all_def by (induction es) (auto simp: add_new_present)
  with props show "mi_entities m' = mi_entities m" by simp
qed

lemma intern_total:
  assumes "keys_ok m"
  shows "(\<exists>r. intern_expression t es xs bs pol m = Inr r) \<or> intern_expression t es xs bs pol m = Inl OverflowError"
  by (cases "dict_get (mi_expression_ids m) (the_key t es xs bs)")
    (auto simp: intern_expression_def Let_def fold_add_entity the_key_def rbind_def dest: add_occurrences_Inl split: sum.splits)

lemma intern_neutral:
  assumes ok: "keys_ok m"
  obtains r where "intern_expression t es xs bs NEUTRAL m = Inr r"
proof (cases "dict_get (mi_expression_ids m) (the_key t es xs bs)")
  case (Some k)
  then have "k < length (mi_expressions m)" using ok by (auto simp: keys_ok_def)
  then have "occurrence_check (mi_expression_occurrences m ! k) = Inr ()" using ok by (auto simp: keys_ok_def)
  then have "add_occurrences (mi_expression_occurrences m ! k) 0 0 = Inr (mi_expression_occurrences m ! k)"
    by (simp add: add_occurrences_Inr)
  with Some that show ?thesis by (auto simp: intern_expression_def Let_def fold_add_entity the_key_def)
next
  case None
  have "add_occurrences no_occurrence 0 0 = Inr no_occurrence" by (simp add: add_occurrences_Inr no_occurrence_def)
  with None that ok show ?thesis by (auto simp: intern_expression_def Let_def fold_add_entity the_key_def keys_ok_def nth_append)
qed

lemma index_tree_key:
  assumes "keys_ok m" and "is_handle m h"
  shows "index_tree m h = key_tree (trees (mi_expressions m)) (mi_expressions m ! h)"
  using assms unfolding index_tree_def keys_ok_def keys_wf_def is_handle_def by (intro trees_nth) auto

text \<open>The handle that interning returns stands for the tree over the trees of its arguments.\<close>

lemma intern_tree:
  assumes "keys_ok m" and "\<forall>e \<in> set es. entity_record_check e = Inr ()" and "shape_ok (the_key t es xs bs)"
    and "\<forall>x \<in> set xs. is_handle m x" and "intern_expression t es xs bs pol m = Inr (h, m')"
  shows "index_tree m' h = Tree t es (map (index_tree m) xs) bs"
proof -
  note i = intern_ok [OF assms]
  have "index_tree m' h = Tree t es (map (index_tree m') xs) bs"
    unfolding index_tree_key [OF i(1,5)] i(6) by (simp add: key_tree_def the_key_def index_tree_def)
  also have "map (index_tree m') xs = map (index_tree m) xs" using index_grows_tree [OF i(2)] assms(4) by auto
  finally show ?thesis .
qed

end
