(* ===== verification/Builder_Frozen.thy ===== *)
theory Builder_Frozen
  imports Builder_Tables
begin

text \<open>Freezing a well-formed index of \<open>src/pyelk/indexing/builder.py\<close>: the tables pass validation and keep the trees.\<close>

section \<open>The entity table\<close>

lemma utf8_encode_inj: "utf8_encode a = Inr s \<Longrightarrow> utf8_encode b = Inr s \<Longrightarrow> a = b"
  by (drule utf8_decode_encode)+ simp

lemma entity_kind_int_inj: "entity_kind_int k = entity_kind_int k' \<Longrightarrow> k = k'"
  by (cases k; cases k') simp_all

lemma entity_key_inj: "entity_key r = Inr key \<Longrightarrow> entity_key r' = Inr key \<Longrightarrow> r = r'"
  using utf8_encode_inj entity_kind_int_inj by (cases r; cases r') (fastforce simp: entity_key_def)

lemma entity_ok_key: "entity_record_check e = Inr () \<Longrightarrow> \<exists>key. entity_key e = Inr key"
  by (auto simp: entity_record_check_def entity_key_def split: sum.splits)

definition the_entity_key :: "entity_record \<Rightarrow> nat \<times> bytes" where
  "the_entity_key r = (case entity_key r of Inr key \<Rightarrow> key | Inl _ \<Rightarrow> (0, []))"

lemma sorted_entities_ok:
  assumes distinct: "distinct values" and ok: "\<forall>e \<in> set values. entity_record_check e = Inr ()"
  obtains es where "sorted_entities values = Inr es" and "set es = set values" and "distinct es"
    and "rmap_list entity_key es = Inr (map the_entity_key es)" and "strictly_sorted (map the_entity_key es)"
proof -
  have key: "entity_key e = Inr (the_entity_key e)" if "e \<in> set values" for e
    using entity_ok_key ok that by (fastforce simp: the_entity_key_def)
  have inj: "inj_on the_entity_key (set values)"
  proof (rule inj_onI)
    fix a b assume "a \<in> set values" "b \<in> set values" "the_entity_key a = the_entity_key b"
    then show "a = b" using key [of a] key [of b] entity_key_inj [of a _ b] by simp
  qed
  let ?rows = "map (\<lambda>r. (the_entity_key r, r)) values"
  let ?es = "map snd (sort_key fst ?rows)"
  have rows: "rmap_list (\<lambda>r. rmap (\<lambda>key. (key, r)) (entity_key r)) values = Inr ?rows"
    by (rule rmap_list_Inr) (simp add: key)
  have set: "set ?es = set values" by force
  have fst: "map the_entity_key ?es = map fst (sort_key fst ?rows)"
    unfolding map_map by (rule map_cong) auto
  show ?thesis
  proof (rule that [OF _ set])
    show "sorted_entities values = Inr ?es" by (simp add: sorted_entities_def rows)
    have "distinct (map the_entity_key ?es)"
      unfolding fst using inj distinct by (simp add: distinct_map comp_def inj_on_def)
    then show "distinct ?es" by (rule distinct_map [THEN iffD1, THEN conjunct1])
    show "rmap_list entity_key ?es = Inr (map the_entity_key ?es)"
      by (rule rmap_list_Inr) (use key set in auto)
    show "strictly_sorted (map the_entity_key ?es)"
      using \<open>distinct (map the_entity_key ?es)\<close> unfolding strictly_sorted_wrt strict_sorted_iff fst by simp
  qed
qed

section \<open>Named expressions\<close>

definition named_keys :: "entity_record set \<Rightarrow> index_key set" where
  "named_keys E = (\<lambda>e. the_key TAG_CLASS [e] [] []) ` {e \<in> E. kind e = CLASS} \<union>
     (\<lambda>e. the_key TAG_INDIVIDUAL [e] [] []) ` {e \<in> E. kind e = NAMED_INDIVIDUAL}"

definition extended_by :: "index_key set \<Rightarrow> mutable_index \<Rightarrow> mutable_index \<Rightarrow> bool" where
  "extended_by K m m' \<longleftrightarrow> keys_ok m' \<and> index_grows m m' \<and> same_rows m m' \<and> same_counters m m' \<and> mi_entities m' = mi_entities m \<and>
     set (mi_expressions m') = set (mi_expressions m) \<union> K"

lemma ensure_named_expression_ok:
  assumes ok: "keys_ok m" and e: "e \<in> set (mi_entities m)"
  obtains m' where "ensure_named_expression e m = Inr m'" and "extended_by (named_keys {e}) m m'"
proof (cases "kind e = CLASS \<or> kind e = NAMED_INDIVIDUAL")
  case True
  let ?t = "if kind e = CLASS then TAG_CLASS else TAG_INDIVIDUAL"
  obtain r where "intern_expression ?t [e] [] [] NEUTRAL m = Inr r" by (rule intern_neutral [OF ok])
  then obtain h m' where run: "intern_expression ?t [e] [] [] NEUTRAL m = Inr (h, m')" by (cases r) simp
  have "\<forall>x \<in> set [e]. entity_record_check x = Inr ()" "shape_ok (the_key ?t [e] [] [])" "\<forall>x \<in> set []. is_handle m x"
    using ok e True by (auto simp: keys_ok_def shape_ok_def the_key_def)
  note i = intern_ok [OF ok this run]
  have "named_keys {e} = {the_key ?t [e] [] []}" using True by (auto simp: named_keys_def)
  then have "extended_by (named_keys {e}) m m'" using i e by (auto simp: extended_by_def)
  moreover have "ensure_named_expression e m = Inr m'" using True run by (auto simp: ensure_named_expression_def)
  ultimately show ?thesis by (rule that [rotated])
next
  case False
  then have "named_keys {e} = {}" by (simp add: named_keys_def)
  then have "extended_by (named_keys {e}) m m" using ok by (simp add: extended_by_def)
  moreover have "ensure_named_expression e m = Inr m" using False by (cases "kind e") (auto simp: ensure_named_expression_def)
  ultimately show ?thesis by (rule that [rotated])
qed

lemma extended_by_trans: "extended_by K m m' \<Longrightarrow> extended_by K' m' m'' \<Longrightarrow> extended_by (K \<union> K') m m''"
  unfolding extended_by_def using index_grows_trans same_rows_trans same_counters_trans by (auto simp: Un_assoc)

lemma ensure_named_expressions_ok:
  assumes "keys_ok m"
  obtains m' where "ensure_named_expressions m = Inr m'" and "extended_by (named_keys (set (mi_entities m))) m m'"
proof -
  have "\<exists>m''. rfold ensure_named_expression es m' = Inr m'' \<and> extended_by (named_keys (set es)) m' m''"
    if "keys_ok m'" "set es \<subseteq> set (mi_entities m')" for es m'
    using that
  proof (induction es arbitrary: m')
    case Nil
    then show ?case by (simp add: extended_by_def named_keys_def)
  next
    case (Cons e es)
    then obtain m1 where m1: "ensure_named_expression e m' = Inr m1" "extended_by (named_keys {e}) m' m1"
      using ensure_named_expression_ok [of m' e] by auto
    then have "keys_ok m1" "set es \<subseteq> set (mi_entities m1)" using Cons.prems by (auto simp: extended_by_def)
    then obtain m2 where m2: "rfold ensure_named_expression es m1 = Inr m2" "extended_by (named_keys (set es)) m1 m2"
      using Cons.IH by blast
    have "named_keys {e} \<union> named_keys (set es) = named_keys (set (e # es))" by (auto simp: named_keys_def)
    then have "extended_by (named_keys (set (e # es))) m' m2" using extended_by_trans [OF m1(2) m2(2)] by simp
    with m1(1) m2(1) show ?case by simp
  qed
  from this [OF assms subset_refl] that show ?thesis by (auto simp: ensure_named_expressions_def)
qed

lemma extended_by_index_ok: "extended_by K m m' \<Longrightarrow> index_ok m \<Longrightarrow> index_ok m'"
  using index_ok_grows unfolding extended_by_def by blast

section \<open>The expression table\<close>

definition index_fits :: "mutable_index \<Rightarrow> bool" where
  "index_fits m \<longleftrightarrow> length (mi_entities m) \<le> U32_RESERVED \<and>
     card (set (mi_expressions m) \<union> named_keys (set (mi_entities m))) \<le> U32_RESERVED"

text \<open>What \<open>freeze_tables\<close> leaves.\<close>

definition frozen_tables :: "mutable_index \<Rightarrow> mutable_index \<Rightarrow> entity_record list \<Rightarrow> nat list \<Rightarrow> bool" where
  "frozen_tables m m' es hs \<longleftrightarrow> extended_by (named_keys (set (mi_entities m))) m m' \<and> set es = set (mi_entities m) \<and> distinct es \<and>
     rmap_list entity_key es = Inr (map the_entity_key es) \<and> strictly_sorted (map the_entity_key es) \<and>
     keys_wf es (mi_expressions m') \<and> tables_fit es (mi_expressions m') \<and> placed es (mi_expressions m') hs"

lemma freeze_tables_ok:
  assumes ok: "keys_ok m" and fits: "index_fits m"
  obtains m' es hs where "freeze_tables m = Some (Inr (m', es, placed_records es (mi_expressions m') hs, enumeration hs))"
    and "frozen_tables m m' es hs"
proof -
  obtain m' where m': "ensure_named_expressions m = Inr m'" "extended_by (named_keys (set (mi_entities m))) m m'"
    using ensure_named_expressions_ok [OF ok] by blast
  then have ok': "keys_ok m'" and ents: "mi_entities m' = mi_entities m" by (simp_all add: extended_by_def)
  have "distinct (mi_entities m')" "\<forall>e \<in> set (mi_entities m'). entity_record_check e = Inr ()"
    using ok' by (auto simp: keys_ok_def keys_wf_def)
  then obtain es where es: "sorted_entities (mi_entities m') = Inr es" "set es = set (mi_entities m')"
    "distinct es" "rmap_list entity_key es = Inr (map the_entity_key es)" "strictly_sorted (map the_entity_key es)" by (rule sorted_entities_ok)
  have "keys_wf (mi_entities m') (mi_expressions m')" using ok' by (simp add: keys_ok_def)
  then have wf: "keys_wf es (mi_expressions m')" by (rule keys_wf_entities) (simp_all add: es)
  have "distinct (mi_entities m)" using ok by (simp add: keys_ok_def keys_wf_def)
  then have "length es = length (mi_entities m)"
    using distinct_card [OF es(3)] distinct_card [of "mi_entities m"] es(2) ents by simp
  moreover have "distinct (mi_expressions m')" "set (mi_expressions m') = set (mi_expressions m) \<union> named_keys (set (mi_entities m))"
    using wf m'(2) by (simp_all add: keys_wf_def extended_by_def)
  then have "length (mi_expressions m') = card (set (mi_expressions m) \<union> named_keys (set (mi_entities m)))"
    using distinct_card by force
  ultimately have fit: "tables_fit es (mi_expressions m')" using fits by (simp add: tables_fit_def index_fits_def)
  from freeze_expressions_ok [OF wf fit] obtain hs where hs: "placed es (mi_expressions m') hs"
    "freeze_expressions (enumeration es) (mi_expressions m') = Some (Inr (placed_records es (mi_expressions m') hs, enumeration hs))" by blast
  show ?thesis
  proof (rule that)
    show "freeze_tables m = Some (Inr (m', es, placed_records es (mi_expressions m') hs, enumeration hs))"
      by (simp add: freeze_tables_def m'(1) es(1) hs(2))
    show "frozen_tables m m' es hs" using m'(2) es ents wf fit hs(1) by (simp add: frozen_tables_def)
  qed
qed

lemma placed_mem: "placed es keys hs \<Longrightarrow> i < length hs \<Longrightarrow> hs ! i < length keys"
  using nth_mem [of i hs] by (auto simp: placed_def)

lemma placed_row_valid:
  assumes wf: "keys_wf es keys" and fit: "tables_fit es keys" and placed: "placed es keys hs" and i: "i < length hs"
  shows "validate_expression es i (key_record es hs (keys ! (hs ! i))) = Inr ()"
    and "expression_record_check (key_record es hs (keys ! (hs ! i))) = Inr ()"
proof -
  have hs: "distinct hs" "set hs = {..<length keys}" and h: "hs ! i < length keys"
    using placed placed_mem [OF placed i] by (auto simp: placed_def)
  let ?key = "keys ! (hs ! i)"
  have shape: "shape_ok ?key" and es: "distinct es" "set (key_entities ?key) \<subseteq> set es" and "needs keys (hs ! i) \<subseteq> {..<hs ! i}"
    using wf h by (auto simp: keys_wf_def)
  then have needs: "needs keys (hs ! i) \<subseteq> set hs" using hs(2) h by auto
  have "least_ready es keys (take i hs) (hs ! i)" using placed i by (simp add: placed_def greedy_run_def)
  then have "needs keys (hs ! i) \<subseteq> set (take i hs)" by (simp add: least_ready_def ready_def)
  then have below: "place hs x < i" if "x \<in> set (key_expressions ?key)" for x
    using that place_take [OF hs(1), of x i] needs i by (auto simp: needs_def)
  have "distinct hs \<and> set hs \<subseteq> {..<length keys} \<and> (\<forall>h \<in> set hs. needs keys h \<subseteq> set hs)"
    using hs wf by (fastforce simp: keys_wf_def)
  then have "places_closed keys hs" by (simp add: places_closed_def)
  then have "a \<le> U32_MAX" if "a \<in> set (key_arguments es hs ?key)" for a
    using key_arguments_less [OF wf fit _ h needs that] by (simp add: U32_MAX_def)
  then show "expression_record_check (key_record es hs ?key) = Inr ()"
    by (auto simp: expression_record_check_def key_record_def rall_Inr_iff check_u32_def)
  show "validate_expression es i (key_record es hs ?key) = Inr ()"
    using shape below es
    by (cases "key_tag ?key") (auto simp: validate_expression_def key_record_def key_arguments_def shape_simps checks_Inr_iff require_empty_payload_def)
qed

lemma placed_expressions_valid:
  assumes wf: "keys_wf es keys" and fit: "tables_fit es keys" and placed: "placed es keys hs"
  shows "validate_expressions (placed_records es keys hs) es = Inr ()" and "rall expression_record_check (placed_records es keys hs) = Inr ()"
proof -
  have len: "length (placed_records es keys hs) = length keys" by (simp add: placed_records_def placed_length [OF placed])
  have row: "(case x of (i, r) \<Rightarrow> validate_expression es i r) = Inr ()" if "x \<in> set (enumerate 0 (placed_records es keys hs))" for x
  proof -
    obtain i r where x: "x = (i, r)" by fastforce
    with that have "i < length hs" "r = key_record es hs (keys ! (hs ! i))" by (auto simp: in_set_enumerate_eq placed_records_def)
    with x placed_row_valid(1) [OF wf fit placed] show ?thesis by simp
  qed
  show "validate_expressions (placed_records es keys hs) es = Inr ()"
    using row placed_order [OF wf placed] fit len by (simp add: validate_expressions_def rall_Inr_iff tables_fit_def)
  show "rall expression_record_check (placed_records es keys hs) = Inr ()"
    using placed_row_valid(2) [OF wf fit placed] by (auto simp: rall_Inr_iff placed_records_def in_set_conv_nth)
qed

text \<open>Every class and individual has its row, and no other row names one.\<close>

lemma mem_placed: "placed es keys hs \<Longrightarrow> set (placed_records es keys hs) = key_record es hs ` set keys"
proof -
  assume "placed es keys hs"
  then have "set (placed_records es keys hs) = (\<lambda>h. key_record es hs (keys ! h)) ` {..<length keys}"
    by (simp add: placed_records_def placed_def)
  also have "\<dots> = key_record es hs ` set keys" by (auto simp: set_conv_nth)
  finally show ?thesis .
qed

lemma placed_named_valid:
  assumes wf: "keys_wf es keys" and placed: "placed es keys hs" and named: "named_keys (set es) \<subseteq> set keys"
  shows "validate_named_entity_expressions es (placed_records es keys hs) = Inr ()"
proof -
  let ?rs = "placed_records es keys hs"
  let ?actual = "(\<lambda>r. (tag r, arguments r ! 0)) ` {r \<in> set ?rs. tag r = TAG_CLASS \<or> tag r = TAG_INDIVIDUAL}"
  let ?expected = "{(TAG_CLASS, i) | i. i < length es \<and> kind (es ! i) = CLASS} \<union> {(TAG_INDIVIDUAL, i) | i. i < length es \<and> kind (es ! i) = NAMED_INDIVIDUAL}"
  have es: "distinct es" using wf by (simp add: keys_wf_def)
  have "?actual \<subseteq> ?expected"
  proof
    fix x assume "x \<in> ?actual"
    then obtain h where h: "h < length keys" "x = (tag (key_record es hs (keys ! h)), arguments (key_record es hs (keys ! h)) ! 0)"
      "key_tag (keys ! h) = TAG_CLASS \<or> key_tag (keys ! h) = TAG_INDIVIDUAL"
      unfolding mem_placed [OF placed] by (auto simp: in_set_conv_nth key_record_def)
    have "shape_ok (keys ! h)" "set (key_entities (keys ! h)) \<subseteq> set es" using wf h(1) by (auto simp: keys_wf_def)
    with h es show "x \<in> ?expected" by (auto simp: shape_simps key_record_def key_arguments_def)
  qed
  moreover have "?expected \<subseteq> ?actual"
  proof
    fix x assume "x \<in> ?expected"
    then obtain t i where x: "x = (t, i)" "i < length es" "t = TAG_CLASS \<and> kind (es ! i) = CLASS \<or> t = TAG_INDIVIDUAL \<and> kind (es ! i) = NAMED_INDIVIDUAL"
      by auto
    then have "the_key t [es ! i] [] [] \<in> set keys" using named by (auto simp: named_keys_def)
    moreover have "key_record es hs (the_key t [es ! i] [] []) = \<lparr>tag = t, arguments = [i], payload = []\<rparr>"
      using x es by (auto simp: key_record_def the_key_def key_arguments_def)
    ultimately have "\<lparr>tag = t, arguments = [i], payload = []\<rparr> \<in> set ?rs" unfolding mem_placed [OF placed] by force
    with x show "x \<in> ?actual" by force
  qed
  ultimately have "?actual = ?expected" by (rule equalityI)
  then show ?thesis
    unfolding validate_named_entity_expressions_def Let_def rassert_Inr_iff by (auto simp: in_set_enumerate_eq image_iff)
qed

end
