(* ===== verification/Builder_Ontology.thy ===== *)
theory Builder_Ontology
  imports Builder_Frozen
begin

text \<open>
  Freezing an index of \<open>src/pyelk/indexing/builder.py\<close> into ontology tables: the constructor accepts them,
  and they hold the axioms of the index, read over expression trees and entities.
\<close>

section \<open>Axioms over trees\<close>

datatype normal_axiom =
    SubClassAxiom expr_tree expr_tree
  | EquivalentAxiom expr_tree expr_tree
  | DisjointAxiom "expr_tree list"
  | SubPropertyAxiom "entity_record list" entity_record
  | RangeAxiom entity_record expr_tree

definition index_axioms :: "mutable_index \<Rightarrow> normal_axiom set" where
  "index_axioms m =
     (\<lambda>(a, b). SubClassAxiom (index_tree m a) (index_tree m b)) ` set (mi_subclass_axioms m) \<union>
     (\<lambda>(a, b). EquivalentAxiom (index_tree m a) (index_tree m b)) ` set (mi_equivalent_class_axioms m) \<union>
     (\<lambda>g. DisjointAxiom (map (index_tree m) g)) ` set (mi_disjoint_groups m) \<union>
     (\<lambda>(c, p). SubPropertyAxiom c p) ` set (mi_subproperty_axioms m) \<union>
     (\<lambda>(p, a). RangeAxiom p (index_tree m a)) ` set (mi_property_ranges m)"

definition table_tree :: "compiled_ontology \<Rightarrow> nat \<Rightarrow> expr_tree" where
  "table_tree co e = record_trees (entities co) (expressions co) ! e"

definition table_axioms :: "compiled_ontology \<Rightarrow> normal_axiom set" where
  "table_axioms co =
     (\<lambda>(a, b). SubClassAxiom (table_tree co a) (table_tree co b)) ` set (subclass_axioms co) \<union>
     (\<lambda>(a, b). EquivalentAxiom (table_tree co a) (table_tree co b)) ` set (equivalent_class_axioms co) \<union>
     (\<lambda>g. DisjointAxiom (map (table_tree co) g)) ` set (disjoint_groups co) \<union>
     (\<lambda>(c, p). SubPropertyAxiom (map ((!) (entities co)) (property_chains co ! c)) (entities co ! p)) ` set (subproperty_axioms co) \<union>
     (\<lambda>(p, a). RangeAxiom (entities co ! p) (table_tree co a)) ` set (property_ranges co)"

section \<open>Sorted rows\<close>

lemma sorted_rows_ok:
  fixes f :: "'a \<Rightarrow> 'b::linorder"
  assumes "distinct xs" and "inj_on f (set xs)"
  shows "check_sorted_unique (sort (map f xs)) = Inr ()"
  using assms by (simp add: check_sorted_unique_def strictly_sorted_wrt strict_sorted_iff distinct_map)

lemma map_pairs_by_places:
  assumes "distinct hs" and "\<forall>(a, b) \<in> set rows. a \<in> set hs \<and> b \<in> set hs"
  shows "rmap_list (map_pair_by (enumeration hs)) rows = Inr (map (\<lambda>(a, b). (place hs a, place hs b)) rows)"
  by (rule rmap_list_Inr) (use assms in \<open>auto simp: map_pair_by_def\<close>)

lemma u32_of_index: "i < n \<Longrightarrow> n \<le> U32_RESERVED \<Longrightarrow> check_u32 i = Inr ()"
  by (simp add: check_u32_def U32_MAX_def)

lemma mapped_pairs_ok:
  assumes "distinct rows" and "inj_on g (fst ` set rows)" and "inj_on h (snd ` set rows)"
    and "\<And>a b. (a, b) \<in> set rows \<Longrightarrow> g a < k \<and> h b < n" and "k \<le> U32_RESERVED" and "n \<le> U32_RESERVED"
  shows "validate_sorted_pairs (sort (map (\<lambda>(a, b). (g a, h b)) rows)) k n = Inr ()"
proof -
  have "inj_on (\<lambda>(a, b). (g a, h b)) (set rows)"
    using assms(2,3) by (force simp: inj_on_def)
  from sorted_rows_ok [OF assms(1) this]
  have sorted: "check_sorted_unique (sort (map (\<lambda>(a, b). (g a, h b)) rows)) = Inr ()" .
  have "(case x of (first, second) \<Rightarrow> checks [check_u32 first, check_u32 second, rassert (first < k \<and> second < n) ValueError]) = Inr ()"
    if "x \<in> set (sort (map (\<lambda>(a, b). (g a, h b)) rows))" for x
    using that assms(4) u32_of_index [OF _ assms(5)] u32_of_index [OF _ assms(6)] by auto
  with sorted show ?thesis by (simp add: validate_sorted_pairs_def checks_Inr_iff rall_Inr_iff)
qed

lemma placed_pairs_ok:
  assumes hs: "distinct hs" and rows: "distinct rows" "\<forall>(a, b) \<in> set rows. a \<in> set hs \<and> b \<in> set hs" and n: "length hs \<le> U32_RESERVED"
  shows "validate_sorted_pairs (sort (map (\<lambda>(a, b). (place hs a, place hs b)) rows)) (length hs) (length hs) = Inr ()"
  by (rule mapped_pairs_ok) (use assms in \<open>auto intro!: inj_on_subset [OF inj_on_place [OF hs]]\<close>)

lemma frozen_occurrences_placed:
  assumes "distinct hs"
  shows "frozen_occurrences (enumeration hs) m = map (\<lambda>h. mi_expression_occurrences m ! h) hs"
proof -
  have "sorted (map snd (zip hs [0..<length hs]))" by simp
  then have "sort_key snd (enumeration hs) = zip hs [0..<length hs]"
    by (simp add: enumeration_zip [OF assms] sorted_sort_id sort_key_id_if_sorted)
  then show ?thesis by (simp add: frozen_occurrences_def) (rule nth_equalityI, simp_all)
qed

section \<open>The tables\<close>

definition with_single_chains :: "entity_record list \<Rightarrow> mutable_index \<Rightarrow> mutable_index" where
  "with_single_chains es m = m\<lparr>mi_property_chains := add_all (map (\<lambda>p. [p]) (object_property_records es)) (mi_property_chains m)\<rparr>"

definition placed_chains :: "entity_record list \<Rightarrow> mutable_index \<Rightarrow> nat list list" where
  "placed_chains es m = sort (map (map (place es)) (mi_property_chains m))"

definition placed_ontology :: "bytes \<Rightarrow> entity_record list \<Rightarrow> nat list \<Rightarrow> mutable_index \<Rightarrow> compiled_ontology" where
  "placed_ontology fingerprint es hs m = \<lparr>entities = es, expressions = placed_records es (mi_expressions m) hs,
     expression_occurrences = map ((!) (mi_expression_occurrences m)) hs,
     property_occurrences = frozen_property_occurrences (object_property_records es) m,
     property_chains = placed_chains es m,
     subclass_axioms = sort (map (\<lambda>(a, b). (place hs a, place hs b)) (mi_subclass_axioms m)),
     equivalent_class_axioms = sort (map (\<lambda>(a, b). (place hs a, place hs b)) (mi_equivalent_class_axioms m)),
     disjoint_groups = sort (map (map (place hs)) (mi_disjoint_groups m)),
     subproperty_axioms = sort (map (\<lambda>(c, p). (place (placed_chains es m) (map (place es) c), place es p)) (mi_subproperty_axioms m)),
     property_ranges = sort (map (\<lambda>(p, a). (place es p, place hs a)) (mi_property_ranges m)),
     feature_counts = mi_feature_counts m, source_fingerprint = fingerprint\<rparr>"

lemma with_single_chains_ok:
  assumes "index_ok m" and "set es = set (mi_entities m)"
  shows "index_ok (with_single_chains es m)"
  using assms unfolding index_ok_def keys_ok_def rows_distinct_def counters_ok_def rows_ok_def with_single_chains_def
  by (auto simp: is_property_of_def is_handle_def object_property_records_def split: prod.splits)

lemma with_single_chains_same [simp]:
  "mi_entities (with_single_chains es m) = mi_entities m" "mi_expressions (with_single_chains es m) = mi_expressions m"
  "mi_expression_occurrences (with_single_chains es m) = mi_expression_occurrences m"
  "mi_property_occurrences (with_single_chains es m) = mi_property_occurrences m"
  "mi_subclass_axioms (with_single_chains es m) = mi_subclass_axioms m"
  "mi_equivalent_class_axioms (with_single_chains es m) = mi_equivalent_class_axioms m"
  "mi_disjoint_groups (with_single_chains es m) = mi_disjoint_groups m"
  "mi_subproperty_axioms (with_single_chains es m) = mi_subproperty_axioms m"
  "mi_property_ranges (with_single_chains es m) = mi_property_ranges m"
  "mi_feature_counts (with_single_chains es m) = mi_feature_counts m"
  "set (mi_property_chains (with_single_chains es m)) = set (mi_property_chains m) \<union> {[p] | p. p \<in> set es \<and> kind p = OBJECT_PROPERTY}"
  by (auto simp: with_single_chains_def object_property_records_def)

text \<open>What the lemmas below share: an index, its sorted entities and the order of its handles.\<close>

definition placed_index :: "entity_record list \<Rightarrow> nat list \<Rightarrow> mutable_index \<Rightarrow> bool" where
  "placed_index es hs m \<longleftrightarrow> index_ok m \<and> set es = set (mi_entities m) \<and> distinct es \<and> keys_wf es (mi_expressions m) \<and>
     tables_fit es (mi_expressions m) \<and> placed es (mi_expressions m) hs"

lemma placed_index_facts:
  assumes "placed_index es hs m"
  shows "distinct es" and "distinct hs" and "length hs = length (mi_expressions m)" and "length es \<le> U32_RESERVED" and "length hs \<le> U32_RESERVED"
    and "\<And>h. h \<in> set hs \<longleftrightarrow> is_handle m h" and "\<And>p. is_property_of m p \<longleftrightarrow> p \<in> set es \<and> kind p = OBJECT_PROPERTY"
  using assms placed_length [of es "mi_expressions m" hs]
  by (auto simp: placed_index_def placed_def tables_fit_def is_handle_def is_property_of_def)

lemma placed_index_rows:
  assumes "placed_index es hs m"
  shows "\<forall>(a, b) \<in> set (mi_subclass_axioms m). a \<in> set hs \<and> b \<in> set hs"
    and "\<forall>(a, b) \<in> set (mi_equivalent_class_axioms m). a \<in> set hs \<and> b \<in> set hs"
    and "\<forall>g \<in> set (mi_disjoint_groups m). 2 \<le> length g \<and> set g \<subseteq> set hs"
    and "\<forall>ch \<in> set (mi_property_chains m). ch \<noteq> [] \<and> set ch \<subseteq> set es \<and> (\<forall>p \<in> set ch. kind p = OBJECT_PROPERTY)"
    and "\<forall>(ch, p) \<in> set (mi_subproperty_axioms m). ch \<in> set (mi_property_chains m) \<and> p \<in> set es \<and> kind p = OBJECT_PROPERTY"
    and "\<forall>(p, a) \<in> set (mi_property_ranges m). p \<in> set es \<and> kind p = OBJECT_PROPERTY \<and> a \<in> set hs"
proof -
  note f = placed_index_facts [OF assms]
  have "rows_ok m" using assms by (simp add: placed_index_def index_ok_def)
  note r = this [unfolded rows_ok_def f(7)]
  show "\<forall>(a, b) \<in> set (mi_subclass_axioms m). a \<in> set hs \<and> b \<in> set hs"
    "\<forall>(a, b) \<in> set (mi_equivalent_class_axioms m). a \<in> set hs \<and> b \<in> set hs"
    using r by (auto simp: f(6))
  show "\<forall>g \<in> set (mi_disjoint_groups m). 2 \<le> length g \<and> set g \<subseteq> set hs" using r by (auto simp: f(6))
  show "\<forall>ch \<in> set (mi_property_chains m). ch \<noteq> [] \<and> set ch \<subseteq> set es \<and> (\<forall>p \<in> set ch. kind p = OBJECT_PROPERTY)" using r by auto
  show "\<forall>(ch, p) \<in> set (mi_subproperty_axioms m). ch \<in> set (mi_property_chains m) \<and> p \<in> set es \<and> kind p = OBJECT_PROPERTY" using r by auto
  show "\<forall>(p, a) \<in> set (mi_property_ranges m). p \<in> set es \<and> kind p = OBJECT_PROPERTY \<and> a \<in> set hs" using r by (auto simp: f(6))
qed

lemma inj_map_place:
  assumes "distinct zs" and "\<forall>xs \<in> S. set xs \<subseteq> set zs"
  shows "inj_on (map (place zs)) S"
proof (rule inj_onI)
  fix a b assume ab: "a \<in> S" "b \<in> S" "map (place zs) a = map (place zs) b"
  have "inj_on (place zs) (set a \<union> set b)" by (rule inj_on_subset [OF inj_on_place [OF assms(1)]]) (use ab assms(2) in auto)
  then show "a = b" using map_inj_on [OF ab(3)] by blast
qed

lemma placed_chains_facts:
  assumes p: "placed_index es hs m"
  shows "distinct (placed_chains es m)" and "set (placed_chains es m) = map (place es) ` set (mi_property_chains m)"
    and "check_sorted_unique (placed_chains es m) = Inr ()"
    and "\<And>c. c \<in> set (mi_property_chains m) \<Longrightarrow> map ((!) es) (placed_chains es m ! place (placed_chains es m) (map (place es) c)) = c"
proof -
  have inj: "inj_on (map (place es)) (set (mi_property_chains m))"
    using placed_index_rows(4) [OF p] placed_index_facts(1) [OF p] by (intro inj_map_place) auto
  have distinct: "distinct (mi_property_chains m)" using p by (simp add: placed_index_def index_ok_def rows_distinct_def)
  show d: "distinct (placed_chains es m)" and set: "set (placed_chains es m) = map (place es) ` set (mi_property_chains m)"
    using inj distinct by (simp_all add: placed_chains_def distinct_map)
  show "check_sorted_unique (placed_chains es m) = Inr ()"
    unfolding placed_chains_def by (rule sorted_rows_ok [OF distinct inj])
  fix c assume c: "c \<in> set (mi_property_chains m)"
  then have "placed_chains es m ! place (placed_chains es m) (map (place es) c) = map (place es) c"
    using d set by (intro nth_place) auto
  moreover have "map ((!) es \<circ> place es) c = c"
  proof (rule map_idI)
    fix x assume "x \<in> set c"
    then have "x \<in> set es" using c placed_index_rows(4) [OF p] by blast
    with placed_index_facts(1) [OF p] show "((!) es \<circ> place es) x = x" by simp
  qed
  ultimately show "map ((!) es) (placed_chains es m ! place (placed_chains es m) (map (place es) c)) = c" by simp
qed

lemma freeze_rows:
  assumes p: "placed_index es hs m"
  shows "rmap_list (map_pair_by (enumeration hs)) (mi_subclass_axioms m) = Inr (map (\<lambda>(a, b). (place hs a, place hs b)) (mi_subclass_axioms m))"
    and "rmap_list (map_pair_by (enumeration hs)) (mi_equivalent_class_axioms m) = Inr (map (\<lambda>(a, b). (place hs a, place hs b)) (mi_equivalent_class_axioms m))"
    and "rmap_list (rmap_list (dict_at (enumeration hs))) (mi_disjoint_groups m) = Inr (map (map (place hs)) (mi_disjoint_groups m))"
    and "rmap_list (rmap_list (dict_at (enumeration es))) (mi_property_chains m) = Inr (map (map (place es)) (mi_property_chains m))"
    and "rmap_list (\<lambda>(chain, super). rbind (rbind (rmap_list (dict_at (enumeration es)) chain) (dict_at (enumeration (placed_chains es m)))) (\<lambda>c.
         rmap (Pair c) (dict_at (enumeration es) super))) (mi_subproperty_axioms m) =
      Inr (map (\<lambda>(c, p). (place (placed_chains es m) (map (place es) c), place es p)) (mi_subproperty_axioms m))"
    and "rmap_list (\<lambda>(p, x). rbind (dict_at (enumeration es) p) (\<lambda>p. rmap (Pair p) (dict_at (enumeration hs) x))) (mi_property_ranges m) =
      Inr (map (\<lambda>(p, a). (place es p, place hs a)) (mi_property_ranges m))"
proof -
  note f = placed_index_facts [OF p] and r = placed_index_rows [OF p] and c = placed_chains_facts [OF p]
  show "rmap_list (map_pair_by (enumeration hs)) (mi_subclass_axioms m) = Inr (map (\<lambda>(a, b). (place hs a, place hs b)) (mi_subclass_axioms m))"
    "rmap_list (map_pair_by (enumeration hs)) (mi_equivalent_class_axioms m) = Inr (map (\<lambda>(a, b). (place hs a, place hs b)) (mi_equivalent_class_axioms m))"
    using map_pairs_by_places [OF f(2)] r(1,2) by blast+
  show "rmap_list (rmap_list (dict_at (enumeration hs))) (mi_disjoint_groups m) = Inr (map (map (place hs)) (mi_disjoint_groups m))"
    by (rule rmap_list_Inr) (use r(3) dict_at_places [OF f(2)] in auto)
  show "rmap_list (rmap_list (dict_at (enumeration es))) (mi_property_chains m) = Inr (map (map (place es)) (mi_property_chains m))"
    by (rule rmap_list_Inr) (use r(4) dict_at_places [OF f(1)] in auto)
  show "rmap_list (\<lambda>(p, x). rbind (dict_at (enumeration es) p) (\<lambda>p. rmap (Pair p) (dict_at (enumeration hs) x))) (mi_property_ranges m) =
      Inr (map (\<lambda>(p, a). (place es p, place hs a)) (mi_property_ranges m))"
    by (rule rmap_list_Inr) (use r(6) f(1,2) in auto)
  show "rmap_list (\<lambda>(chain, super). rbind (rbind (rmap_list (dict_at (enumeration es)) chain) (dict_at (enumeration (placed_chains es m)))) (\<lambda>c.
         rmap (Pair c) (dict_at (enumeration es) super))) (mi_subproperty_axioms m) =
      Inr (map (\<lambda>(c, p). (place (placed_chains es m) (map (place es) c), place es p)) (mi_subproperty_axioms m))"
  proof (rule rmap_list_Inr, clarify)
    fix ch q assume "(ch, q) \<in> set (mi_subproperty_axioms m)"
    then have ch: "ch \<in> set (mi_property_chains m)" "q \<in> set es" using r(5) by auto
    then have "rmap_list (dict_at (enumeration es)) ch = Inr (map (place es) ch)" using r(4) by (intro dict_at_places [OF f(1)]) auto
    moreover have "dict_at (enumeration (placed_chains es m)) (map (place es) ch) = Inr (place (placed_chains es m) (map (place es) ch))"
      using ch(1) c(1,2) by (intro dict_at_place) auto
    ultimately show "rbind (rbind (rmap_list (dict_at (enumeration es)) ch) (dict_at (enumeration (placed_chains es m)))) (\<lambda>c.
         rmap (Pair c) (dict_at (enumeration es) q)) = Inr (place (placed_chains es m) (map (place es) ch), place es q)"
      using ch(2) f(1) by simp
  qed
qed

lemma freeze_ontology_tables_placed:
  assumes p: "placed_index es hs (with_single_chains es m)"
  shows "freeze_ontology_tables fingerprint es (placed_records es (mi_expressions m) hs) (enumeration hs) m =
    rmap (\<lambda>_. (placed_ontology fingerprint es hs (with_single_chains es m), with_single_chains es m))
      (compiled_ontology_check (placed_ontology fingerprint es hs (with_single_chains es m)))"
  using freeze_rows [OF p] frozen_occurrences_placed [OF placed_index_facts(2) [OF p], of "with_single_chains es m"]
  unfolding freeze_ontology_tables_def with_single_chains_def [symmetric] Let_def
  by (simp add: placed_ontology_def placed_chains_def frozen_property_occurrences_def)

section \<open>Validity\<close>

lemma property_occurrences_ok:
  assumes "counters_ok m"
  shows "rall occurrence_check (frozen_property_occurrences ps m) = Inr ()"
proof -
  have "occurrence_check occ = Inr ()" if "dict_get (mi_property_occurrences m) p = Some occ" for p occ
    using assms map_of_SomeD [OF that] by (auto simp: counters_ok_def)
  then show ?thesis
    by (auto simp: rall_Inr_iff frozen_property_occurrences_def no_occurrence_def split: option.split)
qed

lemma validate_entity_place: "distinct es \<Longrightarrow> e \<in> set es \<Longrightarrow> kind e = k \<Longrightarrow> validate_entity_index (place es e) es k = Inr ()"
  by simp

lemma placed_ontology_valid:
  assumes p: "placed_index es hs m" and entity_order: "rmap_list entity_key es = Inr (map the_entity_key es)" "strictly_sorted (map the_entity_key es)"
    and predefined: "set predefined_records \<subseteq> set es" and named: "named_keys (set es) \<subseteq> set (mi_expressions m)"
    and chain_count: "length (mi_property_chains m) \<le> U32_RESERVED" and fingerprint: "length fingerprint = FINGERPRINT_SIZE"
  shows "valid_ontology (placed_ontology fingerprint es hs m)"
proof -
  note f = placed_index_facts [OF p] and r = placed_index_rows [OF p] and c = placed_chains_facts [OF p]
  let ?co = "placed_ontology fingerprint es hs m" and ?rs = "placed_records es (mi_expressions m) hs"
  have wf: "keys_wf es (mi_expressions m)" and fit: "tables_fit es (mi_expressions m)" and placed: "placed es (mi_expressions m) hs"
    and ok: "keys_ok m" "rows_distinct m" "counters_ok m" using p by (simp_all add: placed_index_def index_ok_def)
  have len: "length ?rs = length hs" by (simp add: placed_records_def)
  have entities_ok: "rall entity_record_check es = Inr ()"
    using ok(1) p by (simp add: rall_Inr_iff keys_ok_def placed_index_def)
  have entities: "validate_entities True es = Inr ()"
    using entity_order predefined f(4)
    by (force simp: validate_entities_def checks_Inr_iff check_sorted_unique_def predefined_entities_def predefined_records_def list_ex_iff)
  have occs: "rall occurrence_check (map ((!) (mi_expression_occurrences m)) hs) = Inr ()"
    using ok(1) f(6) by (auto simp: rall_Inr_iff keys_ok_def is_handle_def)
  have counts: "validate_occurrences (map ((!) (mi_expression_occurrences m)) hs) (frozen_property_occurrences (object_property_records es) m)
      (length ?rs) (object_property_count es) = Inr ()"
    by (simp add: validate_occurrences_def checks_Inr_iff len frozen_property_occurrences_def object_property_records_def object_property_count_def)
  have chains: "validate_property_chains ?co = Inr ()"
  proof -
    have "checks [rassert (ch \<noteq> []) ValueError, rall (\<lambda>p. checks [check_u32 p, validate_entity_index p es OBJECT_PROPERTY]) ch] = Inr ()"
      if ch: "ch \<in> set (placed_chains es m)" for ch
    proof -
      obtain ps where ps: "ch = map (place es) ps" "ps \<in> set (mi_property_chains m)" using ch c(2) by auto
      have "x \<in> set es \<and> kind x = OBJECT_PROPERTY" if "x \<in> set ps" for x using ps(2) r(4) that by blast
      then have "check_u32 (place es x) = Inr () \<and> validate_entity_index (place es x) es OBJECT_PROPERTY = Inr ()" if "x \<in> set ps" for x
        using that f(1) u32_of_index [OF _ f(4)] by simp
      moreover have "ps \<noteq> []" using ps(2) r(4) by blast
      ultimately show ?thesis using ps(1) by (simp add: rall_Inr_iff)
    qed
    then show ?thesis using c(3) by (simp add: validate_property_chains_def checks_Inr_iff rall_Inr_iff placed_ontology_def)
  qed
  have pairs: "validate_sorted_pairs (sort (map (\<lambda>(a, b). (place hs a, place hs b)) rows)) (length ?rs) (length ?rs) = Inr ()"
    if "distinct rows" "\<forall>(a, b) \<in> set rows. a \<in> set hs \<and> b \<in> set hs" for rows
    unfolding len by (rule placed_pairs_ok [OF f(2) that f(5)])
  have groups: "validate_disjoint_groups ?co = Inr ()"
  proof -
    have "check_sorted_unique (disjoint_groups ?co) = Inr ()"
      unfolding placed_ontology_def using ok(2) r(3) f(2) by (simp, intro sorted_rows_ok inj_map_place) (auto simp: rows_distinct_def)
    moreover have "checks [rassert (2 \<le> length g) ValueError, rall (\<lambda>e. checks [check_u32 e, rassert (e < length hs) ValueError]) g] = Inr ()"
      if g: "g \<in> set (disjoint_groups ?co)" for g
    proof -
      obtain hg where hg: "g = map (place hs) hg" "hg \<in> set (mi_disjoint_groups m)" using g by (auto simp: placed_ontology_def)
      then have "2 \<le> length hg" "set hg \<subseteq> set hs" using r(3) by blast+
      then have "check_u32 (place hs x) = Inr () \<and> place hs x < length hs" if "x \<in> set hg" for x
        using that f(2) u32_of_index [OF _ f(5)] by (auto simp: subset_iff)
      with \<open>2 \<le> length hg\<close> show ?thesis using hg(1) by (simp add: rall_Inr_iff)
    qed
    ultimately show ?thesis by (simp add: validate_disjoint_groups_def checks_Inr_iff rall_Inr_iff len placed_ontology_def)
  qed
  have entity_index: "validate_entity_index (place es q) es OBJECT_PROPERTY = Inr ()" if "q \<in> set es" "kind q = OBJECT_PROPERTY" for q
    using that f(1) by simp
  have chain_length: "length (placed_chains es m) \<le> U32_RESERVED" using chain_count by (simp add: placed_chains_def)
  have subproperties: "validate_sorted_pairs (subproperty_axioms ?co) (length (property_chains ?co)) (length es) = Inr ()"
  proof -
    have "inj_on (place (placed_chains es m) \<circ> map (place es)) (fst ` set (mi_subproperty_axioms m))"
    proof (rule comp_inj_on)
      show "inj_on (map (place es)) (fst ` set (mi_subproperty_axioms m))"
        by (rule inj_map_place [OF f(1)]) (use r(4,5) in fastforce)
      show "inj_on (place (placed_chains es m)) (map (place es) ` fst ` set (mi_subproperty_axioms m))"
        by (rule inj_on_subset [OF inj_on_place [OF c(1)]]) (use r(5) c(2) in fastforce)
    qed
    moreover have "inj_on (place es) (snd ` set (mi_subproperty_axioms m))"
      by (rule inj_on_subset [OF inj_on_place [OF f(1)]]) (use r(5) in auto)
    moreover have "(place (placed_chains es m) \<circ> map (place es)) a < length (placed_chains es m) \<and> place es b < length es"
      if "(a, b) \<in> set (mi_subproperty_axioms m)" for a b
      using that r(5) c(1,2) f(1) by (auto intro!: place_less)
    ultimately have "validate_sorted_pairs (sort (map (\<lambda>(a, b). ((place (placed_chains es m) \<circ> map (place es)) a, place es b)) (mi_subproperty_axioms m)))
        (length (placed_chains es m)) (length es) = Inr ()"
      using ok(2) by (intro mapped_pairs_ok [OF _ _ _ _ chain_length f(4)]) (simp_all add: rows_distinct_def comp_def)
    then show ?thesis by (simp add: placed_ontology_def)
  qed
  have super_kinds: "rall (\<lambda>(_, p). validate_entity_index p es OBJECT_PROPERTY) (subproperty_axioms ?co) = Inr ()"
    using r(5) entity_index by (fastforce simp: rall_Inr_iff placed_ontology_def simp del: validate_entity_index_iff)
  have range_rows: "validate_sorted_pairs (property_ranges ?co) (length es) (length ?rs) = Inr ()"
  proof -
    have "validate_sorted_pairs (sort (map (\<lambda>(p, a). (place es p, place hs a)) (mi_property_ranges m))) (length es) (length hs) = Inr ()"
    proof (rule mapped_pairs_ok [OF _ _ _ _ f(4) f(5)])
      show "inj_on (place es) (fst ` set (mi_property_ranges m))"
        by (rule inj_on_subset [OF inj_on_place [OF f(1)]]) (use r(6) in auto)
      show "inj_on (place hs) (snd ` set (mi_property_ranges m))"
        by (rule inj_on_subset [OF inj_on_place [OF f(2)]]) (use r(6) in auto)
    qed (use ok(2) r(6) f(1,2) in \<open>auto simp: rows_distinct_def\<close>)
    then show ?thesis by (simp add: placed_ontology_def len)
  qed
  have range_kinds: "rall (\<lambda>(p, _). validate_entity_index p es OBJECT_PROPERTY) (property_ranges ?co) = Inr ()"
    using r(6) entity_index by (fastforce simp: rall_Inr_iff placed_ontology_def simp del: validate_entity_index_iff)
  have features: "validate_feature_counts (mi_feature_counts m) = Inr ()"
    using ok(3) by (simp add: validate_feature_counts_def checks_Inr_iff rall_Inr_iff counters_ok_def check_u64_def)
  have subs: "validate_sorted_pairs (subclass_axioms ?co) (length ?rs) (length ?rs) = Inr ()"
    and equivs: "validate_sorted_pairs (equivalent_class_axioms ?co) (length ?rs) (length ?rs) = Inr ()"
    using pairs r(1,2) ok(2) by (simp_all add: placed_ontology_def rows_distinct_def)
  note table = placed_expressions_valid [OF wf fit placed] placed_named_valid [OF wf placed named]
  note all = entities_ok entities occs counts chains groups property_occurrences_ok [OF ok(3)] subproperties super_kinds range_rows range_kinds
    features subs equivs table
  show ?thesis
    unfolding valid_ontology_def compiled_ontology_check_def
    using all [unfolded placed_ontology_def] fingerprint by (simp add: placed_ontology_def)
qed

section \<open>The axioms\<close>

lemma index_axioms_grows:
  assumes index_grows: "index_grows m m'" and rows: "same_rows m m'" and ok: "rows_ok m"
  shows "index_axioms m' = index_axioms m"
proof -
  have tree: "index_tree m' h = index_tree m h" if "is_handle m h" for h by (rule index_grows_tree [OF index_grows that])
  note r = ok [unfolded rows_ok_def]
  have "(\<lambda>(a, b). SubClassAxiom (index_tree m' a) (index_tree m' b)) ` set (mi_subclass_axioms m) =
      (\<lambda>(a, b). SubClassAxiom (index_tree m a) (index_tree m b)) ` set (mi_subclass_axioms m)"
    using r tree by (intro image_cong) auto
  moreover have "(\<lambda>(a, b). EquivalentAxiom (index_tree m' a) (index_tree m' b)) ` set (mi_equivalent_class_axioms m) =
      (\<lambda>(a, b). EquivalentAxiom (index_tree m a) (index_tree m b)) ` set (mi_equivalent_class_axioms m)"
    using r tree by (intro image_cong) auto
  moreover have "(\<lambda>g. DisjointAxiom (map (index_tree m') g)) ` set (mi_disjoint_groups m) =
      (\<lambda>g. DisjointAxiom (map (index_tree m) g)) ` set (mi_disjoint_groups m)"
    using r tree by (intro image_cong) auto
  moreover have "(\<lambda>(p, a). RangeAxiom p (index_tree m' a)) ` set (mi_property_ranges m) =
      (\<lambda>(p, a). RangeAxiom p (index_tree m a)) ` set (mi_property_ranges m)"
    using r tree by (intro image_cong) auto
  ultimately show ?thesis using rows by (simp add: index_axioms_def same_rows_def)
qed

lemma placed_tree:
  assumes "placed_index es hs m" and "h \<in> set hs"
  shows "table_tree (placed_ontology fingerprint es hs m) (place hs h) = index_tree m h"
  using placed_trees [of es "mi_expressions m" hs h] assms placed_index_facts(6) [OF assms(1)]
  by (simp add: placed_index_def placed_ontology_def table_tree_def index_tree_def is_handle_def)

lemma placed_ontology_axioms:
  assumes p: "placed_index es hs m"
  shows "table_axioms (placed_ontology fingerprint es hs m) = index_axioms m"
proof -
  let ?co = "placed_ontology fingerprint es hs m"
  note f = placed_index_facts [OF p] and r = placed_index_rows [OF p] and c = placed_chains_facts [OF p]
  have tree: "table_tree ?co (place hs h) = index_tree m h" if "h \<in> set hs" for h by (rule placed_tree [OF p that])
  have pairs: "(\<lambda>(a, b). C (table_tree ?co a) (table_tree ?co b)) ` set (sort (map (\<lambda>(a, b). (place hs a, place hs b)) rows)) =
      (\<lambda>(a, b). C (index_tree m a) (index_tree m b)) ` set rows"
    if "\<forall>(a, b) \<in> set rows. a \<in> set hs \<and> b \<in> set hs" for C :: "expr_tree \<Rightarrow> expr_tree \<Rightarrow> normal_axiom" and rows
    unfolding set_sort set_map image_image using that tree by (intro image_cong) auto
  have rows: "subclass_axioms ?co = sort (map (\<lambda>(a, b). (place hs a, place hs b)) (mi_subclass_axioms m))"
    "equivalent_class_axioms ?co = sort (map (\<lambda>(a, b). (place hs a, place hs b)) (mi_equivalent_class_axioms m))"
    by (simp_all add: placed_ontology_def)
  have "(\<lambda>g. DisjointAxiom (map (table_tree ?co) g)) ` set (disjoint_groups ?co) = (\<lambda>g. DisjointAxiom (map (index_tree m) g)) ` set (mi_disjoint_groups m)"
    unfolding placed_ontology_def compiled_ontology.simps set_sort set_map image_image
    using r(3) tree by (intro image_cong) (auto simp: placed_ontology_def)
  moreover have "(\<lambda>(c, p). SubPropertyAxiom (map ((!) (entities ?co)) (property_chains ?co ! c)) (entities ?co ! p)) ` set (subproperty_axioms ?co) =
      (\<lambda>(c, p). SubPropertyAxiom c p) ` set (mi_subproperty_axioms m)"
    unfolding placed_ontology_def compiled_ontology.simps set_sort set_map image_image
    using r(5) c(4) f(1) by (intro image_cong) auto
  moreover have "(\<lambda>(p, a). RangeAxiom (entities ?co ! p) (table_tree ?co a)) ` set (property_ranges ?co) =
      (\<lambda>(p, a). RangeAxiom p (index_tree m a)) ` set (mi_property_ranges m)"
    unfolding placed_ontology_def compiled_ontology.simps set_sort set_map image_image
    using r(6) tree f(1) by (intro image_cong) (auto simp: placed_ontology_def)
  moreover have "(\<lambda>(a, b). SubClassAxiom (table_tree ?co a) (table_tree ?co b)) ` set (subclass_axioms ?co) =
      (\<lambda>(a, b). SubClassAxiom (index_tree m a) (index_tree m b)) ` set (mi_subclass_axioms m)"
    unfolding rows by (rule pairs [OF r(1)])
  moreover have "(\<lambda>(a, b). EquivalentAxiom (table_tree ?co a) (table_tree ?co b)) ` set (equivalent_class_axioms ?co) =
      (\<lambda>(a, b). EquivalentAxiom (index_tree m a) (index_tree m b)) ` set (mi_equivalent_class_axioms m)"
    unfolding rows by (rule pairs [OF r(2)])
  ultimately show ?thesis
    unfolding table_axioms_def index_axioms_def by (intro arg_cong2 [where f = "(\<union>)"])
qed

section \<open>Freezing\<close>

definition ontology_fits :: "mutable_index \<Rightarrow> bool" where
  "ontology_fits m \<longleftrightarrow> index_fits m \<and>
     card (set (mi_property_chains m) \<union> {[p] | p. p \<in> set (mi_entities m) \<and> kind p = OBJECT_PROPERTY}) \<le> U32_RESERVED"

lemma freeze_ontology_placed:
  assumes ok: "index_ok m" and fits: "ontology_fits m" and predefined: "set predefined_records \<subseteq> set (mi_entities m)"
    and fingerprint: "length fingerprint = FINGERPRINT_SIZE"
  obtains m1 es hs where "freeze_ontology fingerprint m =
      Some (Inr (placed_ontology fingerprint es hs (with_single_chains es m1), with_single_chains es m1))"
    and "frozen_tables m m1 es hs" and "placed_index es hs (with_single_chains es m1)" and "index_ok m1"
    and "valid_ontology (placed_ontology fingerprint es hs (with_single_chains es m1))"
proof -
  obtain m1 es hs where run: "freeze_tables m = Some (Inr (m1, es, placed_records es (mi_expressions m1) hs, enumeration hs))"
    and tables: "frozen_tables m m1 es hs"
    using freeze_tables_ok [of m] ok fits by (auto simp: index_ok_def ontology_fits_def)
  note t = tables [unfolded frozen_tables_def]
  let ?m = "with_single_chains es m1"
  have grown: "extended_by (named_keys (set (mi_entities m))) m m1" using t by simp
  then have ents: "mi_entities m1 = mi_entities m" by (simp add: extended_by_def)
  have ok1: "index_ok m1" by (rule extended_by_index_ok [OF grown ok])
  have ok2: "index_ok ?m" by (rule with_single_chains_ok [OF ok1]) (use t ents in simp)
  have p: "placed_index es hs ?m" using ok2 t ents by (simp add: placed_index_def)
  have chain_set: "set (mi_property_chains ?m) = set (mi_property_chains m) \<union> {[p] | p. p \<in> set (mi_entities m) \<and> kind p = OBJECT_PROPERTY}"
    using t grown by (auto simp: extended_by_def same_rows_def)
  have chain_distinct: "distinct (mi_property_chains ?m)" using ok2 by (simp add: index_ok_def rows_distinct_def)
  have chain_count: "length (mi_property_chains ?m) \<le> U32_RESERVED"
    unfolding distinct_card [OF chain_distinct, symmetric] chain_set using fits by (simp only: ontology_fits_def)
  let ?co = "placed_ontology fingerprint es hs ?m"
  have named: "named_keys (set es) \<subseteq> set (mi_expressions ?m)" using t by (auto simp: extended_by_def)
  have valid: "valid_ontology ?co"
    by (rule placed_ontology_valid [OF p _ _ _ named chain_count fingerprint]) (use t predefined in auto)
  show ?thesis
  proof (rule that [of es hs m1])
    show "freeze_ontology fingerprint m = Some (Inr (?co, ?m))"
      using freeze_ontology_tables_placed [OF p, of fingerprint] valid by (simp add: freeze_ontology_def run valid_ontology_def)
  qed (use tables p ok1 valid in auto)
qed

lemma freeze_ontology_ok:
  assumes ok: "index_ok m" and fits: "ontology_fits m" and predefined: "set predefined_records \<subseteq> set (mi_entities m)"
    and fingerprint: "length fingerprint = FINGERPRINT_SIZE"
  obtains co m' where "freeze_ontology fingerprint m = Some (Inr (co, m'))" and "valid_ontology co"
    and "set (entities co) = set (mi_entities m)" and "table_axioms co = index_axioms m"
    and "\<And>h. is_handle m h \<Longrightarrow> \<exists>e. is_expression co e \<and> table_tree co e = index_tree m h"
    and "feature_counts co = mi_feature_counts m" and "source_fingerprint co = fingerprint"
proof -
  obtain m1 es hs where run: "freeze_ontology fingerprint m =
      Some (Inr (placed_ontology fingerprint es hs (with_single_chains es m1), with_single_chains es m1))"
    and tables: "frozen_tables m m1 es hs" and p: "placed_index es hs (with_single_chains es m1)" and ok1: "index_ok m1"
    and valid: "valid_ontology (placed_ontology fingerprint es hs (with_single_chains es m1))"
    by (rule freeze_ontology_placed [OF assms])
  note t = tables [unfolded frozen_tables_def]
  let ?m = "with_single_chains es m1"
  let ?co = "placed_ontology fingerprint es hs ?m"
  have grown: "extended_by (named_keys (set (mi_entities m))) m m1" using t by simp
  have rows: "rows_ok m" "rows_ok m1" using ok ok1 by (simp_all add: index_ok_def)
  have "index_tree ?m = index_tree m1" by (rule ext) (simp add: index_tree_def)
  from this have "index_axioms ?m = index_axioms m1" by (simp add: index_axioms_def)
  also have "\<dots> = index_axioms m" by (rule index_axioms_grows [OF _ _ rows(1)]) (use grown in \<open>simp_all add: extended_by_def\<close>)
  finally have axioms: "table_axioms ?co = index_axioms m" using placed_ontology_axioms [OF p] by simp
  show ?thesis
  proof (rule that [of ?co ?m])
    show "freeze_ontology fingerprint m = Some (Inr (?co, ?m))" by (rule run)
    fix h assume h: "is_handle m h"
    then have h1: "is_handle m1 h" using grown index_grows_handle by (auto simp: extended_by_def)
    then have hs: "h \<in> set hs" using placed_index_facts(6) [OF p] by (simp add: is_handle_def)
    have "index_tree m1 h = index_tree m h" by (rule index_grows_tree [OF _ h]) (use grown in \<open>simp add: extended_by_def\<close>)
    then have "table_tree ?co (place hs h) = index_tree m h"
      unfolding placed_tree [OF p hs] using \<open>index_tree ?m = index_tree m1\<close> by simp
    moreover have "is_expression ?co (place hs h)"
      using hs placed_index_facts(2) [OF p] by (simp add: is_expression_def placed_ontology_def placed_records_def)
    ultimately show "\<exists>e. is_expression ?co e \<and> table_tree ?co e = index_tree m h" by blast
  qed (use valid axioms t grown in \<open>auto simp: placed_ontology_def extended_by_def same_counters_def\<close>)
qed

end
