(* ===== verification/Builder_Merge.thy ===== *)
theory Builder_Merge
  imports Builder_Ontology
begin

text \<open>
  What the operations of the index of \<open>src/pyelk/indexing/builder.py\<close> add, and what committing a
  transaction adds to the builder.  The only exception a well-formed call can raise is an overflow.
\<close>

section \<open>Ending with a property or an overflow\<close>

definition ends :: "('a \<Rightarrow> bool) \<Rightarrow> 'a result \<Rightarrow> bool" where
  "ends P r = (case r of Inl x \<Rightarrow> x = OverflowError | Inr v \<Rightarrow> P v)"

lemma ends_simps [simp]: "ends P (Inr v) = P v" "ends P (Inl x) = (x = OverflowError)"
  by (simp_all add: ends_def)

lemma ends_bind: "ends P r \<Longrightarrow> (\<And>v. P v \<Longrightarrow> ends Q (f v)) \<Longrightarrow> ends Q (rbind r f)"
  by (cases r) simp_all

lemma ends_map: "ends P r \<Longrightarrow> (\<And>v. P v \<Longrightarrow> Q (f v)) \<Longrightarrow> ends Q (rmap f r)"
  by (cases r) simp_all

lemma ends_mono: "ends P r \<Longrightarrow> (\<And>v. P v \<Longrightarrow> Q v) \<Longrightarrow> ends Q r"
  by (cases r) simp_all

lemma ends_rfold:
  assumes "I s" and "\<And>x s. x \<in> set xs \<Longrightarrow> I s \<Longrightarrow> ends I (f x s)"
  shows "ends I (rfold f xs s)"
  using assms
proof (induction xs arbitrary: s)
  case (Cons x xs)
  then show ?case by (auto intro!: ends_bind [of I])
qed simp

lemma ends_InrD: "ends P r \<Longrightarrow> r = Inr v \<Longrightarrow> P v"
  by simp

lemma add_occurrences_ends:
  "ends (\<lambda>occ. occurrence_check occ = Inr ()) (add_occurrences occ n p)"
proof (cases "add_occurrences occ n p")
  case (Inl x)
  with add_occurrences_Inl [OF Inl] show ?thesis by simp
next
  case (Inr occ')
  have "negative occ' \<le> U64_MAX \<and> positive occ' \<le> U64_MAX" using Inr by (auto simp: add_occurrences_Inr)
  then show ?thesis by (simp add: Inr)
qed

lemma index_tree_eq: "index_tree m = (!) (trees (mi_expressions m))"
  by (rule ext) (simp add: index_tree_def)

section \<open>Interning\<close>

definition interned :: "mutable_index \<Rightarrow> expr_tree \<Rightarrow> nat \<times> mutable_index \<Rightarrow> bool" where
  "interned m t r \<longleftrightarrow> keys_ok (snd r) \<and> index_grows m (snd r) \<and> same_rows m (snd r) \<and> same_counters m (snd r) \<and>
     is_handle (snd r) (fst r) \<and> index_tree (snd r) (fst r) = t \<and>
     set (mi_entities (snd r)) = set (tree_entities t) \<union> set (mi_entities m)"

lemma intern_ends:
  assumes "keys_ok m" and "\<forall>e \<in> set es. entity_record_check e = Inr ()" and "shape_ok (the_key t es xs bs)"
    and "\<forall>x \<in> set xs. is_handle m x"
  shows "ends (interned m (Tree t es (map (index_tree m) xs) bs)) (intern_expression t es xs bs pol m)"
proof (cases "intern_expression t es xs bs pol m")
  case (Inr r)
  obtain h m' where r: "r = (h, m')" by (cases r)
  note i = intern_ok [OF assms Inr [unfolded r]] intern_tree [OF assms Inr [unfolded r]]
  show ?thesis unfolding Inr r using i by (simp add: interned_def)
next
  case (Inl x)
  with intern_total [OF assms(1), of t es xs bs pol] show ?thesis by auto
qed

section \<open>Counters\<close>

definition same_keys :: "mutable_index \<Rightarrow> mutable_index \<Rightarrow> bool" where
  "same_keys m m' \<longleftrightarrow> mi_expressions m' = mi_expressions m \<and> mi_expression_ids m' = mi_expression_ids m \<and>
     mi_expression_occurrences m' = mi_expression_occurrences m \<and> mi_entities m' = mi_entities m"

lemma same_keys_ok: "same_keys m m' \<Longrightarrow> keys_ok m \<Longrightarrow> keys_ok m'"
  by (simp add: same_keys_def keys_ok_def)

lemma same_keys_grows: "same_keys m m' \<Longrightarrow> index_grows m m'"
  by (simp add: same_keys_def index_grows_def)

lemma same_keys_refl [simp]: "same_keys m m"
  by (simp add: same_keys_def)

lemma same_keys_trans: "same_keys m m' \<Longrightarrow> same_keys m' m'' \<Longrightarrow> same_keys m m''"
  by (simp add: same_keys_def)

text \<open>Only a counter moved.\<close>

definition counted :: "mutable_index \<Rightarrow> mutable_index \<Rightarrow> bool" where
  "counted m m' \<longleftrightarrow> same_keys m m' \<and> same_rows m m' \<and> (counters_ok m \<longrightarrow> counters_ok m')"

lemma counted_refl [simp]: "counted m m"
  by (simp add: counted_def)

lemma counted_trans: "counted m m' \<Longrightarrow> counted m' m'' \<Longrightarrow> counted m m''"
  using same_keys_trans same_rows_trans unfolding counted_def by blast

lemma counted_axioms: "counted m m' \<Longrightarrow> index_axioms m' = index_axioms m"
  by (simp add: counted_def same_keys_def same_rows_def index_axioms_def index_tree_eq)

lemma counted_index_ok: "counted m m' \<Longrightarrow> index_ok m \<Longrightarrow> index_ok m'"
  using same_keys_ok same_keys_grows rows_ok_grows rows_distinct_same unfolding counted_def index_ok_def by blast

lemma add_property_occurrence_ends: "ends (counted m) (add_property_occurrence e n p m)"
proof -
  have "counted m (m\<lparr>mi_property_occurrences := dict_put e occ (mi_property_occurrences m)\<rparr>)" if "occurrence_check occ = Inr ()" for occ
    using that set_dict_put [of e occ "mi_property_occurrences m"]
    by (fastforce simp: counted_def same_keys_def same_rows_def counters_ok_def)
  then show ?thesis
    unfolding add_property_occurrence_def Let_def by (rule ends_map [OF add_occurrences_ends])
qed

lemma checked_add_ends: "ends (\<lambda>v. v \<le> U64_MAX) (checked_add a b)"
  by (simp add: checked_add_cases)

lemma set_feature_counted:
  assumes "v \<le> U64_MAX"
  shows "counted m (m\<lparr>mi_feature_counts := (mi_feature_counts m)[i := v]\<rparr>)"
  using assms by (auto simp: counted_def same_keys_def same_rows_def counters_ok_def dest!: set_list_update)

lemma add_feature_ends:
  assumes "i < FEATURE_VECTOR_LENGTH"
  shows "ends (counted m) (add_feature i n m)"
  unfolding add_feature_def using assms by (auto intro: ends_map [OF checked_add_ends] set_feature_counted)

lemma observe_ends: "observation \<noteq> [] \<Longrightarrow> ends (counted m) (observe_compatibility_spelling observation m)"
  by (simp add: observe_compatibility_spelling_def counted_def same_keys_def same_rows_def counters_ok_def)

lemma merge_features_ends: "ends (counted m) (merge_features counts m)"
  unfolding merge_features_def
proof (rule ends_rfold)
  fix x s assume s: "counted m s"
  show "ends (counted m) ((case x of (i, n) \<Rightarrow> \<lambda>m. rmap (\<lambda>v. m\<lparr>mi_feature_counts := (mi_feature_counts m)[i := v]\<rparr>)
     (checked_add (mi_feature_counts m ! i) n)) s)"
    by (cases x) (auto intro!: ends_map [OF checked_add_ends] counted_trans [OF s] set_feature_counted)
qed simp

section \<open>Rows\<close>

lemma add_entity_ok:
  assumes "index_ok m" and "entity_record_check e = Inr ()"
  shows "index_ok (add_entity e m)" and "index_grows m (add_entity e m)" and "index_axioms (add_entity e m) = index_axioms m"
    and "set (mi_entities (add_entity e m)) = insert e (set (mi_entities m))"
proof -
  show index_grows: "index_grows m (add_entity e m)" by (auto simp: index_grows_def add_entity_def)
  have rows: "same_rows m (add_entity e m)" by (simp add: same_rows_def add_entity_def)
  show "index_axioms (add_entity e m) = index_axioms m"
    by (rule index_axioms_grows [OF index_grows rows]) (use assms in \<open>simp add: index_ok_def\<close>)
  show "set (mi_entities (add_entity e m)) = insert e (set (mi_entities m))" by (simp add: add_entity_def)
  have "keys_wf (add_new e (mi_entities m)) (mi_expressions m)"
    by (rule keys_wf_entities [of "mi_entities m"]) (use assms in \<open>auto simp: index_ok_def keys_ok_def keys_wf_def\<close>)
  then have "keys_ok (add_entity e m)" using assms by (auto simp: index_ok_def keys_ok_def add_entity_def)
  then show "index_ok (add_entity e m)"
    by (rule index_ok_grows [OF assms(1) _ index_grows rows]) (simp add: same_counters_def add_entity_def)
qed

lemma add_subclass_ok:
  assumes "index_ok m" and "is_handle m a" and "is_handle m b"
  shows "index_ok (add_subclass a b m)" and "index_grows m (add_subclass a b m)"
    and "index_axioms (add_subclass a b m) = insert (SubClassAxiom (index_tree m a) (index_tree m b)) (index_axioms m)"
    and "set (mi_entities (add_subclass a b m)) = set (mi_entities m)"
  using assms
  by (auto simp: add_subclass_def index_ok_def keys_ok_def rows_distinct_def counters_ok_def rows_ok_def index_grows_def index_axioms_def
    index_tree_eq is_handle_def is_property_of_def)

lemma add_equivalent_class_ok:
  assumes "index_ok m" and "is_handle m a" and "is_handle m b"
  shows "index_ok (add_equivalent_class a b m)" and "index_grows m (add_equivalent_class a b m)"
    and "index_axioms (add_equivalent_class a b m) = insert (EquivalentAxiom (index_tree m a) (index_tree m b)) (index_axioms m)"
    and "set (mi_entities (add_equivalent_class a b m)) = set (mi_entities m)"
  using assms
  by (auto simp: add_equivalent_class_def index_ok_def keys_ok_def rows_distinct_def counters_ok_def rows_ok_def index_grows_def index_axioms_def
    index_tree_eq is_handle_def is_property_of_def)

text \<open>A step that adds one axiom and some entities.\<close>

definition adds :: "normal_axiom set \<Rightarrow> entity_record set \<Rightarrow> mutable_index \<Rightarrow> mutable_index \<Rightarrow> bool" where
  "adds A E m m' \<longleftrightarrow> index_ok m' \<and> index_grows m m' \<and> index_axioms m' = A \<union> index_axioms m \<and> set (mi_entities m') = E \<union> set (mi_entities m)"

lemma adds_trans: "adds A E m m' \<Longrightarrow> adds A' E' m' m'' \<Longrightarrow> adds (A \<union> A') (E \<union> E') m m''"
  unfolding adds_def using index_grows_trans by blast

lemma adds_grows: "adds A E m m' \<Longrightarrow> index_grows m m'" and adds_ok: "adds A E m m' \<Longrightarrow> index_ok m'"
  by (simp_all add: adds_def)

lemma counted_adds: "index_ok m \<Longrightarrow> counted m m' \<Longrightarrow> adds {} {} m m'"
  using counted_index_ok counted_axioms same_keys_grows unfolding adds_def counted_def same_keys_def by auto

lemma interned_adds:
  assumes "index_ok m" and "interned m t r"
  shows "adds {} (set (tree_entities t)) m (snd r)"
  using assms index_ok_grows [of m "snd r"] index_axioms_grows [of m "snd r"] by (simp add: interned_def adds_def index_ok_def)

lemma add_property_chain_ends:
  assumes ok: "index_ok m" and ps: "ps \<noteq> []" "\<forall>p \<in> set ps. kind p = OBJECT_PROPERTY \<and> entity_record_check p = Inr ()"
  shows "ends (\<lambda>m'. adds {} (set ps) m m' \<and> ps \<in> set (mi_property_chains m')) (add_property_chain ps m)"
proof -
  let ?m = "m\<lparr>mi_entities := add_all ps (mi_entities m), mi_property_chains := add_new ps (mi_property_chains m)\<rparr>"
  have "keys_wf (add_all ps (mi_entities m)) (mi_expressions m)"
    by (rule keys_wf_entities [of "mi_entities m"]) (use ok in \<open>auto simp: index_ok_def keys_ok_def keys_wf_def\<close>)
  then have "keys_ok ?m" using ok ps by (auto simp: index_ok_def keys_ok_def)
  moreover have index_grows: "index_grows m ?m" by (auto simp: index_grows_def)
  then have "rows_ok ?m"
    using ok ps by (auto simp: index_ok_def rows_ok_def is_property_of_def is_handle_def)
  ultimately have "adds {} (set ps) m ?m"
    using ok by (simp add: adds_def index_ok_def rows_distinct_def counters_ok_def index_axioms_def index_tree_eq index_grows_def)
  with ps show ?thesis by (auto simp: add_property_chain_def)
qed

lemma add_subproperty_ends:
  assumes ok: "index_ok m" and ps: "ps \<noteq> []" "\<forall>p \<in> set ps. kind p = OBJECT_PROPERTY \<and> entity_record_check p = Inr ()"
    and super: "kind super = OBJECT_PROPERTY" "entity_record_check super = Inr ()"
  shows "ends (adds {SubPropertyAxiom ps super} (insert super (set ps)) m) (add_subproperty ps super m)"
  unfolding add_subproperty_def
proof (rule ends_bind [OF add_property_chain_ends [OF ok ps]])
  fix m1 assume m1: "adds {} (set ps) m m1 \<and> ps \<in> set (mi_property_chains m1)"
  then have ok1: "index_ok m1" by (simp add: adds_def)
  note e = add_entity_ok [OF ok1 super(2)]
  let ?m = "(add_entity super m1)\<lparr>mi_subproperty_axioms := add_new (ps, super) (mi_subproperty_axioms m1)\<rparr>"
  have same: "mi_subproperty_axioms (add_entity super m1) = mi_subproperty_axioms m1" "mi_property_chains (add_entity super m1) = mi_property_chains m1"
    by (simp_all add: add_entity_def)
  have "index_ok ?m"
    using e(1,4) m1 super same
    by (auto simp: index_ok_def keys_ok_def rows_distinct_def counters_ok_def rows_ok_def is_handle_def is_property_of_def)
  moreover have "index_axioms ?m = {SubPropertyAxiom ps super} \<union> index_axioms (add_entity super m1)"
    by (auto simp: index_axioms_def index_tree_eq same)
  ultimately have "adds {SubPropertyAxiom ps super} {super} m1 ?m" using e by (auto simp: adds_def index_grows_def)
  with m1 have "adds ({} \<union> {SubPropertyAxiom ps super}) (set ps \<union> {super}) m ?m" using adds_trans by blast
  with super show "ends (adds {SubPropertyAxiom ps super} (insert super (set ps)) m)
      (if kind super \<noteq> OBJECT_PROPERTY then Inl PyTypeError
       else Inr ((add_entity super m1)\<lparr>mi_subproperty_axioms := add_new (ps, super) (mi_subproperty_axioms m1)\<rparr>))"
    by simp
qed

lemma add_property_range_ends:
  assumes ok: "index_ok m" and p: "kind p = OBJECT_PROPERTY" "entity_record_check p = Inr ()" and a: "is_handle m a"
  shows "ends (adds {RangeAxiom p (index_tree m a)} {p} m) (add_property_range p a m)"
proof -
  note e = add_entity_ok [OF ok p(2)]
  let ?m = "(add_entity p m)\<lparr>mi_property_ranges := add_new (p, a) (mi_property_ranges m)\<rparr>"
  have same: "mi_property_ranges (add_entity p m) = mi_property_ranges m" "index_tree (add_entity p m) = index_tree m"
    by (simp_all add: add_entity_def index_tree_eq)
  have "index_ok ?m"
    using e(1,4) p index_grows_handle [OF e(2) a] same
    by (auto simp: index_ok_def keys_ok_def rows_distinct_def counters_ok_def rows_ok_def is_handle_def is_property_of_def)
  moreover have "index_axioms ?m = {RangeAxiom p (index_tree m a)} \<union> index_axioms (add_entity p m)"
    unfolding same(2) [symmetric] by (auto simp: index_axioms_def index_tree_eq same(1))
  ultimately have "adds {RangeAxiom p (index_tree m a)} {p} m ?m" using e by (auto simp: adds_def index_grows_def)
  with p show ?thesis by (simp add: add_property_range_def)
qed

lemma add_disjoint_group_ends:
  assumes "index_ok m" and "2 \<le> length g" and "\<forall>a \<in> set g. is_handle m a"
  shows "ends (adds {DisjointAxiom (map (index_tree m) g)} {} m) (add_disjoint_group g m)"
  using assms
  by (auto simp: add_disjoint_group_def adds_def index_ok_def keys_ok_def rows_distinct_def counters_ok_def rows_ok_def index_grows_def index_axioms_def
    index_tree_eq is_handle_def is_property_of_def)

section \<open>Committing a transaction\<close>

definition merged_to :: "mutable_index \<Rightarrow> nat \<Rightarrow> mutable_index \<Rightarrow> (nat, nat) dict \<times> mutable_index \<Rightarrow> bool" where
  "merged_to tx k m s \<longleftrightarrow> keys_ok (snd s) \<and> index_grows m (snd s) \<and> same_rows m (snd s) \<and> same_counters m (snd s) \<and>
     set (mi_entities (snd s)) = set (mi_entities m) \<and>
     (\<forall>h < k. \<exists>h'. dict_get (fst s) h = Some h' \<and> is_handle (snd s) h' \<and> index_tree (snd s) h' = index_tree tx h)"

definition translation :: "(nat, nat) dict \<Rightarrow> nat \<Rightarrow> nat" where
  "translation mapping h = the (dict_get mapping h)"

lemma merged_translation:
  assumes "merged_to tx k m s" and "h < k"
  shows "dict_at (fst s) h = Inr (translation (fst s) h)" and "is_handle (snd s) (translation (fst s) h)"
    and "index_tree (snd s) (translation (fst s) h) = index_tree tx h"
  using assms by (auto simp: merged_to_def translation_def dict_at_def)

lemma keys_ok_occurrence:
  assumes "keys_ok m" and "occurrence_check occ = Inr ()"
  shows "keys_ok (m\<lparr>mi_expression_occurrences := (mi_expression_occurrences m)[h := occ]\<rparr>)"
  using assms by (auto simp: keys_ok_def dest!: set_list_update)

lemma merge_expression_ends:
  assumes tx: "keys_ok tx" and k: "is_handle tx k" and s: "merged_to tx k m s" and ents: "set (mi_entities tx) \<subseteq> set (mi_entities m)"
  shows "ends (merged_to tx (Suc k) m) (merge_expression tx (k, mi_expressions tx ! k) s)"
proof -
  obtain mapping m1 where s_eq: "s = (mapping, m1)" by (cases s)
  let ?key = "mi_expressions tx ! k"
  have key: "shape_ok ?key" "set (key_entities ?key) \<subseteq> set (mi_entities tx)" "set (key_expressions ?key) \<subseteq> {..<k}"
    using tx k by (auto simp: keys_ok_def keys_wf_def is_handle_def needs_def)
  note tr = merged_translation [OF s, unfolded s_eq fst_conv snd_conv]
  let ?xs = "map (translation mapping) (key_expressions ?key)"
  have xs: "rmap_list (dict_at mapping) (key_expressions ?key) = Inr ?xs"
    by (rule rmap_list_Inr) (use key(3) tr(1) in auto)
  have shape: "shape_ok (the_key (key_tag ?key) (key_entities ?key) ?xs (key_payload ?key))"
    using key(1) by (cases "key_tag ?key") (auto simp: shape_ok_def the_key_def)
  have ok1: "keys_ok m1" using s by (simp add: merged_to_def s_eq)
  have "\<forall>e \<in> set (key_entities ?key). entity_record_check e = Inr ()" using key(2) tx by (auto simp: keys_ok_def)
  moreover have "\<forall>x \<in> set ?xs. is_handle m1 x" using key(3) tr(2) by auto
  ultimately have "ends (interned m1 (Tree (key_tag ?key) (key_entities ?key) (map (index_tree m1) ?xs) (key_payload ?key)))
      (intern_expression (key_tag ?key) (key_entities ?key) ?xs (key_payload ?key) NEUTRAL m1)"
    by (intro intern_ends [OF ok1 _ shape])
  moreover have "Tree (key_tag ?key) (key_entities ?key) (map (index_tree m1) ?xs) (key_payload ?key) = index_tree tx k"
    unfolding index_tree_key [OF tx k] using key(3) tr(3) by (auto simp: key_tree_def index_tree_def)
  ultimately have "ends (interned m1 (index_tree tx k)) (intern_expression (key_tag ?key) (key_entities ?key) ?xs (key_payload ?key) NEUTRAL m1)"
    by simp
  then show ?thesis
    unfolding merge_expression_def s_eq case_prod_conv xs rbind_simps
  proof (rule ends_bind)
    fix r assume r: "interned m1 (index_tree tx k) r"
    obtain h' m2 where r_eq: "r = (h', m2)" by (cases r)
    have i: "keys_ok m2" "index_grows m1 m2" "same_rows m1 m2" "same_counters m1 m2" "is_handle m2 h'" "index_tree m2 h' = index_tree tx k"
      "set (mi_entities m2) = set (tree_entities (index_tree tx k)) \<union> set (mi_entities m1)"
      using r by (simp_all add: interned_def r_eq)
    have "set (tree_entities (index_tree tx k)) \<subseteq> set (mi_entities m1)"
      using key(2) ents s unfolding index_tree_key [OF tx k] by (auto simp: key_tree_def merged_to_def s_eq)
    then have ents2: "set (mi_entities m2) = set (mi_entities m)" using i(7) s by (auto simp: merged_to_def s_eq)
    show "ends (merged_to tx (Suc k) m) ((\<lambda>(translated, m). let local_occ = mi_expression_occurrences tx ! k in
       rbind (add_occurrences (mi_expression_occurrences m ! translated) (negative local_occ) (positive local_occ)) (\<lambda>occ.
       Inr (dict_put k translated mapping, m\<lparr>mi_expression_occurrences := (mi_expression_occurrences m)[translated := occ]\<rparr>))) r)"
      unfolding r_eq case_prod_conv Let_def
    proof (rule ends_bind [OF add_occurrences_ends])
      fix occ assume occ: "occurrence_check occ = Inr ()"
      let ?m = "m2\<lparr>mi_expression_occurrences := (mi_expression_occurrences m2)[h' := occ]\<rparr>"
      have "index_grows m2 ?m" "same_rows m2 ?m" "same_counters m2 ?m" by (simp_all add: index_grows_def same_rows_def same_counters_def)
      then have g: "index_grows m1 ?m" "same_rows m1 ?m" "same_counters m1 ?m"
        using i(2-4) index_grows_trans same_rows_trans same_counters_trans by blast+
      have same: "index_tree ?m = index_tree m2" "is_handle ?m = is_handle m2" by (auto simp: index_tree_eq is_handle_def)
      have "\<exists>x'. dict_get (dict_put k h' mapping) x = Some x' \<and> is_handle ?m x' \<and> index_tree ?m x' = index_tree tx x" if "x < Suc k" for x
      proof (cases "x = k")
        case True
        with i(5,6) show ?thesis by (simp add: same)
      next
        case False
        with that have "x < k" by simp
        then obtain x' where x': "dict_get mapping x = Some x'" "is_handle m1 x'" "index_tree m1 x' = index_tree tx x"
          using s by (auto simp: merged_to_def s_eq)
        with index_grows_handle [OF i(2) x'(2)] index_grows_tree [OF i(2) x'(2)] False show ?thesis by (simp add: same)
      qed
      moreover have "keys_ok ?m" by (rule keys_ok_occurrence [OF i(1) occ])
      moreover have "index_grows m m1" "same_rows m m1" "same_counters m m1" using s by (simp_all add: merged_to_def s_eq)
      then have "index_grows m ?m" "same_rows m ?m" "same_counters m ?m"
        using g index_grows_trans same_rows_trans same_counters_trans by blast+
      ultimately show "ends (merged_to tx (Suc k) m) (Inr (dict_put k h' mapping, ?m))" using ents2 by (simp add: merged_to_def)
    qed
  qed
qed

lemma merge_expressions_end:
  assumes tx: "keys_ok tx" and m: "keys_ok m" and ents: "set (mi_entities tx) \<subseteq> set (mi_entities m)" and k: "k \<le> length (mi_expressions tx)"
  shows "ends (merged_to tx k m) (rfold (merge_expression tx) (take k (enumerate 0 (mi_expressions tx))) ([], m))"
  using k
proof (induction k)
  case 0
  then show ?case using m by (simp add: merged_to_def)
next
  case (Suc k)
  have snoc: "rfold f (xs @ [x]) s = rbind (rfold f xs s) (f x)" for f :: "'z \<Rightarrow> 's \<Rightarrow> 's result" and xs x s
    by (induction xs arbitrary: s) (auto simp: rbind_def split: sum.splits)
  have row: "take (Suc k) (enumerate 0 (mi_expressions tx)) = take k (enumerate 0 (mi_expressions tx)) @ [(k, mi_expressions tx ! k)]"
    using Suc.prems by (simp add: take_Suc_conv_app_nth nth_enumerate_eq)
  have "ends (merged_to tx k m) (rfold (merge_expression tx) (take k (enumerate 0 (mi_expressions tx))) ([], m))" using Suc by simp
  then show ?case
    unfolding row snoc using merge_expression_ends [OF tx _ _ ents] Suc.prems by (auto intro: ends_bind simp: is_handle_def)
qed

lemma map_pairs_translated:
  assumes "\<forall>(a, b) \<in> set rows. dict_at mapping a = Inr (f a) \<and> dict_at mapping b = Inr (f b)"
  shows "rmap_list (map_pair_by mapping) rows = Inr (map (\<lambda>(a, b). (f a, f b)) rows)"
  by (rule rmap_list_Inr) (use assms in \<open>auto simp: map_pair_by_def\<close>)

lemma property_occurrences_end:
  "ends (counted m) (rfold (\<lambda>(e, occ). add_property_occurrence e (negative occ) (positive occ)) rows m)"
proof (rule ends_rfold)
  fix x s assume s: "counted m s"
  show "ends (counted m) ((case x of (e, occ) \<Rightarrow> add_property_occurrence e (negative occ) (positive occ)) s)"
    by (cases x) (auto intro!: ends_mono [OF add_property_occurrence_ends] counted_trans [OF s])
qed simp

text \<open>The rows of a transaction, translated and joined to those of the builder.\<close>

definition join_rows :: "(nat \<Rightarrow> nat) \<Rightarrow> mutable_index \<Rightarrow> mutable_index \<Rightarrow> mutable_index" where
  "join_rows f tx m = m\<lparr>mi_property_chains := add_all (mi_property_chains tx) (mi_property_chains m),
     mi_subclass_axioms := add_all (map (\<lambda>(a, b). (f a, f b)) (mi_subclass_axioms tx)) (mi_subclass_axioms m),
     mi_equivalent_class_axioms := add_all (map (\<lambda>(a, b). (f a, f b)) (mi_equivalent_class_axioms tx)) (mi_equivalent_class_axioms m),
     mi_disjoint_groups := add_all (map (map f) (mi_disjoint_groups tx)) (mi_disjoint_groups m),
     mi_subproperty_axioms := add_all (mi_subproperty_axioms tx) (mi_subproperty_axioms m),
     mi_property_ranges := add_all (map (\<lambda>(p, a). (p, f a)) (mi_property_ranges tx)) (mi_property_ranges m)\<rparr>"

lemma join_rows_ok:
  assumes tx: "rows_ok tx" and m: "index_ok m" and ents: "set (mi_entities tx) \<subseteq> set (mi_entities m)"
    and f: "\<And>h. is_handle tx h \<Longrightarrow> is_handle m (f h) \<and> index_tree m (f h) = index_tree tx h"
  shows "index_ok (join_rows f tx m)" and "index_axioms (join_rows f tx m) = index_axioms tx \<union> index_axioms m"
    and "index_grows m (join_rows f tx m)" and "set (mi_entities (join_rows f tx m)) = set (mi_entities m)"
proof -
  let ?m = "join_rows f tx m"
  have handle: "is_handle ?m = is_handle m" and kinds: "is_property_of ?m = is_property_of m" and tree: "index_tree ?m = index_tree m"
    by (auto simp: join_rows_def is_handle_def is_property_of_def index_tree_eq)
  have kinds_tx: "is_property_of m p" if "is_property_of tx p" for p using that ents by (auto simp: is_property_of_def)
  have rows: "rows_ok m" and others: "keys_ok m" "rows_distinct m" "counters_ok m" using m by (simp_all add: index_ok_def)
  have "rows_ok ?m"
    unfolding rows_ok_def handle kinds
    using tx [unfolded rows_ok_def] rows [unfolded rows_ok_def] f kinds_tx by (auto simp: join_rows_def split: prod.splits)
  moreover have "keys_ok ?m" "rows_distinct ?m" "counters_ok ?m"
    using others by (simp_all add: join_rows_def keys_ok_def rows_distinct_def counters_ok_def)
  ultimately show "index_ok ?m" by (simp add: index_ok_def)
  show "index_grows m ?m" "set (mi_entities ?m) = set (mi_entities m)" by (simp_all add: index_grows_def join_rows_def)
  note r = tx [unfolded rows_ok_def]
  have "(\<lambda>(a, b). SubClassAxiom (index_tree m a) (index_tree m b)) ` (\<lambda>(a, b). (f a, f b)) ` set (mi_subclass_axioms tx) =
      (\<lambda>(a, b). SubClassAxiom (index_tree tx a) (index_tree tx b)) ` set (mi_subclass_axioms tx)"
    unfolding image_image using r f by (intro image_cong) auto
  moreover have "(\<lambda>(a, b). EquivalentAxiom (index_tree m a) (index_tree m b)) ` (\<lambda>(a, b). (f a, f b)) ` set (mi_equivalent_class_axioms tx) =
      (\<lambda>(a, b). EquivalentAxiom (index_tree tx a) (index_tree tx b)) ` set (mi_equivalent_class_axioms tx)"
    unfolding image_image using r f by (intro image_cong) auto
  moreover have "(\<lambda>g. DisjointAxiom (map (index_tree m) g)) ` map f ` set (mi_disjoint_groups tx) =
      (\<lambda>g. DisjointAxiom (map (index_tree tx) g)) ` set (mi_disjoint_groups tx)"
    unfolding image_image using r f by (intro image_cong) auto
  moreover have "(\<lambda>(p, a). RangeAxiom p (index_tree m a)) ` (\<lambda>(p, a). (p, f a)) ` set (mi_property_ranges tx) =
      (\<lambda>(p, a). RangeAxiom p (index_tree tx a)) ` set (mi_property_ranges tx)"
    unfolding image_image using r f by (intro image_cong) auto
  ultimately show "index_axioms ?m = index_axioms tx \<union> index_axioms m"
    unfolding index_axioms_def tree by (simp add: join_rows_def image_Un Un_ac)
qed

lemma merge_index_ends:
  assumes tx: "index_ok tx" and m: "index_ok m"
  shows "ends (\<lambda>(mapping, m'). adds (index_axioms tx) (set (mi_entities tx)) m m' \<and>
      (\<forall>h. is_handle tx h \<longrightarrow> is_handle m' (translation mapping h) \<and> index_tree m' (translation mapping h) = index_tree tx h \<and>
        dict_at mapping h = Inr (translation mapping h))) (merge_index tx m)"
proof -
  let ?n = "length (mi_expressions tx)" and ?m0 = "m\<lparr>mi_entities := add_all (mi_entities tx) (mi_entities m)\<rparr>"
  have g0: "index_grows m ?m0" "same_rows m ?m0" "same_counters m ?m0" by (auto simp: index_grows_def same_rows_def same_counters_def)
  have "keys_wf (add_all (mi_entities tx) (mi_entities m)) (mi_expressions m)"
    by (rule keys_wf_entities [of "mi_entities m"]) (use m in \<open>auto simp: index_ok_def keys_ok_def keys_wf_def\<close>)
  then have k0: "keys_ok ?m0" using m tx by (auto simp: index_ok_def keys_ok_def)
  then have ok0: "index_ok ?m0" by (rule index_ok_grows [OF m _ g0])
  have ax0: "index_axioms ?m0 = index_axioms m" by (simp add: index_axioms_def index_tree_eq)
  have tx_keys: "keys_ok tx" and tx_rows: "rows_ok tx" using tx by (simp_all add: index_ok_def)
  have "ends (merged_to tx ?n ?m0) (rfold (merge_expression tx) (enumerate 0 (mi_expressions tx)) ([], ?m0))"
    using merge_expressions_end [OF tx_keys k0 _ order_refl] by simp
  then show ?thesis
    unfolding merge_index_def
  proof (rule ends_bind)
    fix s assume s: "merged_to tx ?n ?m0 s"
    obtain mapping m1 where s_eq: "s = (mapping, m1)" by (cases s)
    let ?f = "translation mapping"
    have f: "dict_at mapping h = Inr (?f h)" "is_handle m1 (?f h)" "index_tree m1 (?f h) = index_tree tx h" if "is_handle tx h" for h
      using merged_translation [OF s, of h] that by (simp_all add: s_eq is_handle_def)
    have ok1: "index_ok m1" using index_ok_grows [OF ok0] s by (simp add: merged_to_def s_eq)
    have ax1: "index_axioms m1 = index_axioms m"
      unfolding ax0 [symmetric] by (rule index_axioms_grows) (use s ok0 in \<open>simp_all add: merged_to_def s_eq index_ok_def\<close>)
    have ents1: "set (mi_entities m1) = set (mi_entities tx) \<union> set (mi_entities m)" using s by (simp add: merged_to_def s_eq)
    have "index_grows ?m0 m1" using s by (simp add: merged_to_def s_eq)
    then have g1: "index_grows m m1" using g0(1) index_grows_trans by blast
    have r: "\<forall>(a, b) \<in> set (mi_subclass_axioms tx). is_handle tx a \<and> is_handle tx b" "\<forall>(a, b) \<in> set (mi_equivalent_class_axioms tx). is_handle tx a \<and> is_handle tx b"
      "\<forall>g \<in> set (mi_disjoint_groups tx). \<forall>a \<in> set g. is_handle tx a" "\<forall>(p, a) \<in> set (mi_property_ranges tx). is_handle tx a"
      using tx_rows by (auto simp: rows_ok_def)
    have subs: "rmap_list (map_pair_by mapping) (mi_subclass_axioms tx) = Inr (map (\<lambda>(a, b). (?f a, ?f b)) (mi_subclass_axioms tx))"
      and equivs: "rmap_list (map_pair_by mapping) (mi_equivalent_class_axioms tx) = Inr (map (\<lambda>(a, b). (?f a, ?f b)) (mi_equivalent_class_axioms tx))"
      using r(1,2) f(1) by (auto intro!: map_pairs_translated)
    have groups: "rmap_list (rmap_list (dict_at mapping)) (mi_disjoint_groups tx) = Inr (map (map ?f) (mi_disjoint_groups tx))"
      by (intro rmap_list_Inr) (use r(3) f(1) in auto)
    have range_rows: "rmap_list (\<lambda>(p, x). rmap (Pair p) (dict_at mapping x)) (mi_property_ranges tx) = Inr (map (\<lambda>(p, a). (p, ?f a)) (mi_property_ranges tx))"
      by (rule rmap_list_Inr) (use r(4) f(1) in auto)
    show "ends (\<lambda>(mapping, m'). adds (index_axioms tx) (set (mi_entities tx)) m m' \<and>
        (\<forall>h. is_handle tx h \<longrightarrow> is_handle m' (translation mapping h) \<and> index_tree m' (translation mapping h) = index_tree tx h \<and>
          dict_at mapping h = Inr (translation mapping h)))
      ((\<lambda>(mapping, m).
       rbind (rfold (\<lambda>(e, occ). add_property_occurrence e (negative occ) (positive occ)) (mi_property_occurrences tx) m) (\<lambda>m.
       rbind (rmap_list (map_pair_by mapping) (mi_subclass_axioms tx)) (\<lambda>subclasses.
       rbind (rmap_list (map_pair_by mapping) (mi_equivalent_class_axioms tx)) (\<lambda>equivalents.
       rbind (rmap_list (rmap_list (dict_at mapping)) (mi_disjoint_groups tx)) (\<lambda>groups.
       rbind (rmap_list (\<lambda>(p, x). rmap (Pair p) (dict_at mapping x)) (mi_property_ranges tx)) (\<lambda>property_range_rows.
       rbind (merge_features (mi_feature_counts tx)
         (m\<lparr>mi_property_chains := add_all (mi_property_chains tx) (mi_property_chains m),
           mi_subclass_axioms := add_all subclasses (mi_subclass_axioms m),
           mi_equivalent_class_axioms := add_all equivalents (mi_equivalent_class_axioms m),
           mi_disjoint_groups := add_all groups (mi_disjoint_groups m),
           mi_subproperty_axioms := add_all (mi_subproperty_axioms tx) (mi_subproperty_axioms m),
           mi_property_ranges := add_all property_range_rows (mi_property_ranges m)\<rparr>)) (\<lambda>m.
       Inr (mapping, m\<lparr>mi_compatibility_observations :=
         add_all (mi_compatibility_observations tx) (mi_compatibility_observations m)\<rparr>)))))))) s)"
      unfolding s_eq case_prod_conv subs equivs groups range_rows rbind_simps join_rows_def [symmetric]
    proof (rule ends_bind [OF property_occurrences_end], rule ends_bind [OF merge_features_ends])
      fix m2 m3 assume c2: "counted m1 m2" and c3: "counted (join_rows ?f tx m2) m3"
      have same2: "is_handle m2 = is_handle m1" "index_tree m2 = index_tree m1" "mi_entities m2 = mi_entities m1"
        using c2 by (auto simp: counted_def same_keys_def is_handle_def index_tree_eq)
      note j = join_rows_ok [OF tx_rows counted_index_ok [OF c2 ok1], of ?f, unfolded same2]
      have j: "index_ok (join_rows ?f tx m2)" "index_axioms (join_rows ?f tx m2) = index_axioms tx \<union> index_axioms m"
        "index_grows m2 (join_rows ?f tx m2)" "set (mi_entities (join_rows ?f tx m2)) = set (mi_entities m1)"
        using j f(2,3) ents1 counted_axioms [OF c2] ax1 by auto
      let ?m = "m3\<lparr>mi_compatibility_observations := add_all (mi_compatibility_observations tx) (mi_compatibility_observations m3)\<rparr>"
      have c4: "counted m3 ?m" by (simp add: counted_def same_keys_def same_rows_def counters_ok_def)
      have c: "counted (join_rows ?f tx m2) ?m" by (rule counted_trans [OF c3 c4])
      have "index_grows m1 m2" using c2 by (auto simp: counted_def intro: same_keys_grows)
      moreover have "index_grows (join_rows ?f tx m2) ?m" using c by (auto simp: counted_def intro: same_keys_grows)
      ultimately have g: "index_grows m1 ?m" using j(3) index_grows_trans by blast
      have "adds (index_axioms tx) (set (mi_entities tx)) m ?m"
        using counted_index_ok [OF c j(1)] index_grows_trans [OF g1 g] counted_axioms [OF c] j(2,4) ents1 c
        by (simp add: adds_def counted_def same_keys_def)
      moreover have "is_handle ?m (?f h) \<and> index_tree ?m (?f h) = index_tree tx h \<and> dict_at mapping h = Inr (?f h)" if "is_handle tx h" for h
        using f [OF that] index_grows_handle [OF g] index_grows_tree [OF g] by metis
      ultimately show "ends (\<lambda>(mapping, m'). adds (index_axioms tx) (set (mi_entities tx)) m m' \<and>
          (\<forall>h. is_handle tx h \<longrightarrow> is_handle m' (translation mapping h) \<and> index_tree m' (translation mapping h) = index_tree tx h \<and>
            dict_at mapping h = Inr (translation mapping h))) (Inr (mapping, ?m))" by simp
    qed
  qed
qed

lemma empty_index_ok: "index_ok empty_index" and empty_index_axioms: "index_axioms empty_index = {}" and empty_index_entities: "mi_entities empty_index = []"
  by (simp_all add: index_ok_def keys_ok_def keys_wf_def rows_distinct_def counters_ok_def rows_ok_def empty_index_def index_axioms_def U64_MAX_def)

end
