(* ===== verification/Builder_Counters.thy ===== *)
theory Builder_Counters
  imports Builder_Merge
begin

text \<open>
  The occurrence and feature counters of \<open>src/pyelk/indexing/builder.py\<close>: committing a transaction adds them up,
  and overflows exactly when a sum does not fit 64 bits.
\<close>

section \<open>Counters by tree and by property\<close>

definition count_of :: "('k, occurrence) dict \<Rightarrow> 'k \<Rightarrow> occurrence" where
  "count_of d k = (case dict_get d k of None \<Rightarrow> no_occurrence | Some occ \<Rightarrow> occ)"

definition add_counts :: "occurrence \<Rightarrow> occurrence \<Rightarrow> occurrence" where
  "add_counts a b = \<lparr>negative = negative a + negative b, positive = positive a + positive b\<rparr>"

definition sum_fits :: "occurrence \<Rightarrow> occurrence \<Rightarrow> bool" where
  "sum_fits a b \<longleftrightarrow> negative a + negative b \<le> U64_MAX \<and> positive a + positive b \<le> U64_MAX"

text \<open>The occurrences of the expressions, by what the handles stand for.\<close>

definition expression_counts :: "mutable_index \<Rightarrow> (expr_tree, occurrence) dict" where
  "expression_counts m = zip (trees (mi_expressions m)) (mi_expression_occurrences m)"

definition counters_fit :: "mutable_index \<Rightarrow> mutable_index \<Rightarrow> bool" where
  "counters_fit tx m \<longleftrightarrow>
     (\<forall>(t, occ) \<in> set (expression_counts tx). sum_fits (count_of (expression_counts m) t) occ) \<and>
     (\<forall>(e, occ) \<in> set (mi_property_occurrences tx). sum_fits (count_of (mi_property_occurrences m) e) occ) \<and>
     (\<forall>(a, n) \<in> set (zip (mi_feature_counts m) (mi_feature_counts tx)). a + n \<le> U64_MAX)"

lemma add_occurrences_cases: "add_occurrences a (negative b) (positive b) = (if sum_fits a b then Inr (add_counts a b) else Inl OverflowError)"
  by (auto simp: add_occurrences_def checked_add_cases sum_fits_def add_counts_def)

lemma add_counts_none [simp]: "add_counts occ no_occurrence = occ" "add_counts no_occurrence occ = occ"
  by (simp_all add: add_counts_def no_occurrence_def)

lemma count_of_put [simp]: "count_of (dict_put k occ d) k' = (if k' = k then occ else count_of d k')"
  by (simp add: count_of_def)

lemma count_of_Nil [simp]: "count_of [] k = no_occurrence"
  by (simp add: count_of_def)

lemma count_of_Cons [simp]: "count_of ((k, occ) # d) k' = (if k' = k then occ else count_of d k')"
  by (simp add: count_of_def)

lemma count_of_absent: "k \<notin> fst ` set d \<Longrightarrow> count_of d k = no_occurrence"
  by (simp add: count_of_def dom_map_of_conv_image_fst [symmetric] domIff)

lemma count_of_snoc: "k \<notin> fst ` set d \<Longrightarrow> count_of (d @ [(k, occ)]) k' = (if k' = k then occ else count_of d k')"
  by (auto simp: count_of_def map_add_def dom_map_of_conv_image_fst [symmetric] domIff split: option.splits)

lemma count_of_nth:
  assumes "distinct ks" and "length os = length ks" and "i < length ks"
  shows "count_of (zip ks os) (ks ! i) = os ! i"
  using map_of_zip_nth [OF assms(2) [symmetric] assms(1)] assms(2,3) by (simp add: count_of_def)

lemma count_of_update:
  assumes "distinct ks" and "length os = length ks" and "i < length ks"
  shows "count_of (zip ks (os[i := occ])) k = (if k = ks ! i then occ else count_of (zip ks os) k)"
proof (cases "k \<in> set ks")
  case True
  then obtain j where j: "j < length ks" "k = ks ! j" by (auto simp: in_set_conv_nth)
  then show ?thesis
    using assms count_of_nth [OF assms(1), of "os[i := occ]" j] count_of_nth [OF assms(1,2) j(1)]
    by (auto simp: nth_list_update nth_eq_iff_index_eq)
next
  case False
  have "fst ` set (zip ks xs) \<subseteq> set ks" for xs :: "occurrence list" by (auto dest: set_zip_leftD)
  with False have "k \<notin> fst ` set (zip ks xs)" for xs :: "occurrence list" by blast
  then show ?thesis using False assms(3) by (auto simp: count_of_absent)
qed

section \<open>Expressions\<close>

lemma keys_ok_trees:
  assumes "keys_ok m"
  shows "distinct (trees (mi_expressions m))" and "length (mi_expression_occurrences m) = length (trees (mi_expressions m))"
  using trees_inj [of "mi_entities m" "mi_expressions m"] assms by (auto simp: keys_ok_def distinct_conv_nth)

lemma expression_count_at:
  assumes "keys_ok m" and "is_handle m h"
  shows "count_of (expression_counts m) (index_tree m h) = mi_expression_occurrences m ! h"
  using count_of_nth [OF keys_ok_trees [OF assms(1)], of h] assms(2) by (simp add: expression_counts_def index_tree_def is_handle_def)

lemma expression_count_update:
  assumes "keys_ok m" and "is_handle m h"
  shows "count_of (expression_counts (m\<lparr>mi_expression_occurrences := (mi_expression_occurrences m)[h := occ]\<rparr>)) t =
    (if t = index_tree m h then occ else count_of (expression_counts m) t)"
  using count_of_update [OF keys_ok_trees [OF assms(1)], of h] assms(2) by (simp add: expression_counts_def index_tree_def is_handle_def)

text \<open>Interning with neutral polarity moves no counter.\<close>

lemma intern_neutral_counts:
  assumes ok: "keys_ok m" and wf: "keys_ok m'" and run: "intern_expression t es xs bs NEUTRAL m = Inr (h, m')"
  shows "count_of (expression_counts m') = count_of (expression_counts m)"
proof (cases "dict_get (mi_expression_ids m) (the_key t es xs bs)")
  case (Some k)
  have same: "add_occurrences occ 0 0 = Inr occ' \<Longrightarrow> occ' = occ" for occ occ' by (simp add: add_occurrences_Inr)
  from Some run show ?thesis
    by (auto simp: intern_expression_def Let_def fold_add_entity the_key_def expression_counts_def dest!: same)
next
  case None
  have len: "length (mi_expression_occurrences m) = length (mi_expressions m)" using ok by (simp add: keys_ok_def)
  have none: "add_occurrences no_occurrence 0 0 = Inr no_occurrence" by (simp add: add_occurrences_Inr no_occurrence_def)
  have m': "mi_expressions m' = mi_expressions m @ [the_key t es xs bs]"
    "mi_expression_occurrences m' = mi_expression_occurrences m @ [no_occurrence]"
    using None run len none by (auto simp: intern_expression_def Let_def fold_add_entity the_key_def nth_append list_update_append)
  have counts: "expression_counts m' = expression_counts m @ [(key_tree (trees (mi_expressions m)) (the_key t es xs bs), no_occurrence)]"
    using len by (simp add: expression_counts_def m' trees_append)
  have "distinct (trees (mi_expressions m'))" by (rule keys_ok_trees [OF wf])
  then have fresh: "key_tree (trees (mi_expressions m)) (the_key t es xs bs) \<notin> fst ` set (expression_counts m)"
    by (auto simp: m' trees_append expression_counts_def dest: set_zip_leftD)
  show ?thesis
    using count_of_snoc [OF fresh] count_of_absent [OF fresh] by (auto simp: counts)
qed

text \<open>One expression of a transaction.\<close>

lemma merge_expression_counts:
  assumes tx: "keys_ok tx" and k: "is_handle tx k" and s: "merged_to tx k m s" and ents: "set (mi_entities tx) \<subseteq> set (mi_entities m)"
  defines "t \<equiv> index_tree tx k" and "occ \<equiv> mi_expression_occurrences tx ! k"
  shows "if sum_fits (count_of (expression_counts (snd s)) t) occ
    then \<exists>s'. merge_expression tx (k, mi_expressions tx ! k) s = Inr s' \<and> merged_to tx (Suc k) m s' \<and>
      (\<forall>u. count_of (expression_counts (snd s')) u =
        (if u = t then add_counts (count_of (expression_counts (snd s)) t) occ else count_of (expression_counts (snd s)) u))
    else merge_expression tx (k, mi_expressions tx ! k) s = Inl OverflowError"
proof -
  obtain mapping m1 where s_eq: "s = (mapping, m1)" by (cases s)
  let ?key = "mi_expressions tx ! k"
  have key: "shape_ok ?key" "set (key_entities ?key) \<subseteq> set (mi_entities tx)" "set (key_expressions ?key) \<subseteq> {..<k}"
    using tx k by (auto simp: keys_ok_def keys_wf_def is_handle_def needs_def)
  note tr = merged_translation [OF s, unfolded s_eq fst_conv snd_conv]
  let ?xs = "map (translation mapping) (key_expressions ?key)"
  have xs: "rmap_list (dict_at mapping) (key_expressions ?key) = Inr ?xs"
    by (rule rmap_list_Inr) (use key(3) tr(1) in auto)
  have shape: "shape_ok (the_key (key_tag ?key) (key_entities ?key) ?xs (key_payload ?key))"
    using key(1) by (cases "key_tag ?key") (auto simp: shape_ok_def the_key_def)
  have ok1: "keys_ok m1" using s by (simp add: merged_to_def s_eq)
  obtain h' m2 where run: "intern_expression (key_tag ?key) (key_entities ?key) ?xs (key_payload ?key) NEUTRAL m1 = Inr (h', m2)"
    by (rule intern_neutral [OF ok1]) auto
  have checked: "\<forall>e \<in> set (key_entities ?key). entity_record_check e = Inr ()" using key(2) tx by (auto simp: keys_ok_def)
  have handles: "\<forall>x \<in> set ?xs. is_handle m1 x" using key(3) tr(2) by auto
  note i = intern_ok [OF ok1 checked shape handles run] intern_tree [OF ok1 checked shape handles run]
  have tree: "index_tree m2 h' = t"
    unfolding i(10) t_def index_tree_key [OF tx k] using key(3) tr(3) by (auto simp: key_tree_def index_tree_def)
  have counts: "count_of (expression_counts m2) = count_of (expression_counts m1)" by (rule intern_neutral_counts [OF ok1 i(1) run])
  have at: "mi_expression_occurrences m2 ! h' = count_of (expression_counts m1) t"
    using expression_count_at [OF i(1,5)] by (simp add: tree counts)
  let ?m = "m2\<lparr>mi_expression_occurrences := (mi_expression_occurrences m2)[h' := add_counts (count_of (expression_counts m1) t) occ]\<rparr>"
  have step: "merge_expression tx (k, ?key) s =
      (if sum_fits (count_of (expression_counts m1) t) occ then Inr (dict_put k h' mapping, ?m) else Inl OverflowError)"
    by (simp add: merge_expression_def s_eq xs run add_occurrences_cases at occ_def [symmetric])
  have "merged_to tx (Suc k) m (dict_put k h' mapping, ?m)" if "sum_fits (count_of (expression_counts m1) t) occ"
    using merge_expression_ends [OF tx k s ents] that by (simp add: step)
  moreover have "count_of (expression_counts ?m) u =
      (if u = t then add_counts (count_of (expression_counts m1) t) occ else count_of (expression_counts m1) u)" for u
    by (simp add: expression_count_update [OF i(1,5)] tree counts)
  ultimately show ?thesis using step [unfolded s_eq] by (auto simp: s_eq)
qed

lemma rfold_snoc: "rfold f (xs @ [x]) s = rbind (rfold f xs s) (f x)"
  by (induction xs arbitrary: s) (auto simp: rbind_def split: sum.splits)

lemma merge_expressions_counts:
  assumes tx: "keys_ok tx" and m: "keys_ok m" and ents: "set (mi_entities tx) \<subseteq> set (mi_entities m)" and k: "k \<le> length (mi_expressions tx)"
  defines "rows \<equiv> \<lambda>k. take k (expression_counts tx)"
  shows "if \<forall>(t, occ) \<in> set (rows k). sum_fits (count_of (expression_counts m) t) occ
    then \<exists>s. rfold (merge_expression tx) (take k (enumerate 0 (mi_expressions tx))) ([], m) = Inr s \<and> merged_to tx k m s \<and>
      (\<forall>t. count_of (expression_counts (snd s)) t = add_counts (count_of (expression_counts m) t) (count_of (rows k) t))
    else rfold (merge_expression tx) (take k (enumerate 0 (mi_expressions tx))) ([], m) = Inl OverflowError"
  using k
proof (induction k)
  case 0
  then show ?case using m by (simp add: merged_to_def rows_def)
next
  case (Suc k)
  let ?t = "index_tree tx k" and ?occ = "mi_expression_occurrences tx ! k"
  have handle: "is_handle tx k" using Suc.prems by (simp add: is_handle_def)
  note keys = keys_ok_trees [OF tx]
  have len: "k < length (expression_counts tx)" using Suc.prems keys(2) by (simp add: expression_counts_def)
  have nth: "expression_counts tx ! k = (?t, ?occ)"
    using Suc.prems keys(2) by (simp add: expression_counts_def index_tree_def)
  have snoc: "rows (Suc k) = rows k @ [(?t, ?occ)]" using take_Suc_conv_app_nth [OF len] by (simp add: rows_def nth)
  have "distinct (map fst (expression_counts tx))" using keys by (simp add: expression_counts_def)
  then have "distinct (map fst (rows (Suc k)))" by (simp add: rows_def take_map [symmetric])
  then have fresh: "?t \<notin> fst ` set (rows k)" by (simp add: snoc)
  have row: "take (Suc k) (enumerate 0 (mi_expressions tx)) = take k (enumerate 0 (mi_expressions tx)) @ [(k, mi_expressions tx ! k)]"
    using Suc.prems by (simp add: take_Suc_conv_app_nth nth_enumerate_eq)
  show ?case
  proof (cases "\<forall>(t, occ) \<in> set (rows k). sum_fits (count_of (expression_counts m) t) occ")
    case False
    with Suc show ?thesis unfolding row rfold_snoc snoc by auto
  next
    case True
    with Suc obtain s where s: "rfold (merge_expression tx) (take k (enumerate 0 (mi_expressions tx))) ([], m) = Inr s" "merged_to tx k m s"
      "\<And>t. count_of (expression_counts (snd s)) t = add_counts (count_of (expression_counts m) t) (count_of (rows k) t)"
      by auto
    have at: "count_of (expression_counts (snd s)) ?t = count_of (expression_counts m) ?t"
      by (simp add: s(3) count_of_absent [OF fresh])
    have split: "(\<forall>(t, occ) \<in> set (rows (Suc k)). sum_fits (count_of (expression_counts m) t) occ) =
        sum_fits (count_of (expression_counts m) ?t) ?occ"
      using True by (auto simp: snoc)
    show ?thesis
      unfolding row rfold_snoc s(1) rbind_simps split using merge_expression_counts [OF tx handle s(2) ents, unfolded at]
      by (auto simp: s(3) snoc count_of_snoc [OF fresh] count_of_absent [OF fresh])
  qed
qed

section \<open>Properties\<close>

lemma add_property_occurrence_counts:
  "add_property_occurrence e (negative occ) (positive occ) m =
    (if sum_fits (count_of (mi_property_occurrences m) e) occ
     then Inr (m\<lparr>mi_property_occurrences := dict_put e (add_counts (count_of (mi_property_occurrences m) e) occ) (mi_property_occurrences m)\<rparr>)
     else Inl OverflowError)"
  by (simp add: add_property_occurrence_def count_of_def [symmetric] add_occurrences_cases)

abbreviation merge_properties :: "(entity_record, occurrence) dict \<Rightarrow> mutable_index \<Rightarrow> mutable_index result" where
  "merge_properties \<equiv> rfold (\<lambda>(e, occ). add_property_occurrence e (negative occ) (positive occ))"

lemma merge_properties_counts:
  assumes "distinct (map fst rows)"
  shows "if \<forall>(e, occ) \<in> set rows. sum_fits (count_of (mi_property_occurrences m) e) occ
    then \<exists>d. merge_properties rows m = Inr (m\<lparr>mi_property_occurrences := d\<rparr>) \<and>
      (\<forall>e. count_of d e = add_counts (count_of (mi_property_occurrences m) e) (count_of rows e))
    else merge_properties rows m = Inl OverflowError"
  using assms
proof (induction rows arbitrary: m)
  case Nil
  show ?case by (auto intro!: exI [of _ "mi_property_occurrences m"])
next
  case (Cons row rows)
  obtain e occ where row: "row = (e, occ)" by (cases row)
  let ?d = "dict_put e (add_counts (count_of (mi_property_occurrences m) e) occ) (mi_property_occurrences m)"
  let ?m = "m\<lparr>mi_property_occurrences := ?d\<rparr>"
  have fresh: "e \<notin> fst ` set rows" using Cons.prems by (simp add: row)
  then have others: "(\<forall>(e', occ') \<in> set rows. sum_fits (count_of ?d e') occ') =
      (\<forall>(e', occ') \<in> set rows. sum_fits (count_of (mi_property_occurrences m) e') occ')"
    by (intro ball_cong refl) (auto simp: image_iff)
  have step: "merge_properties (row # rows) m =
      (if sum_fits (count_of (mi_property_occurrences m) e) occ then merge_properties rows ?m else Inl OverflowError)"
    by (simp add: row add_property_occurrence_counts)
  have "if \<forall>(e', occ') \<in> set rows. sum_fits (count_of ?d e') occ'
    then \<exists>d. merge_properties rows ?m = Inr (m\<lparr>mi_property_occurrences := d\<rparr>) \<and>
      (\<forall>e'. count_of d e' = add_counts (count_of ?d e') (count_of rows e'))
    else merge_properties rows ?m = Inl OverflowError"
    using Cons.IH [of ?m] Cons.prems by (simp cong: if_cong)
  note IH = this [unfolded others]
  have counts: "add_counts (count_of ?d e') (count_of rows e') = add_counts (count_of (mi_property_occurrences m) e') (count_of (row # rows) e')" for e'
    by (simp add: row count_of_absent [OF fresh])
  have split: "(\<forall>(e', occ') \<in> set (row # rows). sum_fits (count_of (mi_property_occurrences m) e') occ') =
      (sum_fits (count_of (mi_property_occurrences m) e) occ \<and> (\<forall>(e', occ') \<in> set rows. sum_fits (count_of (mi_property_occurrences m) e') occ'))"
    by (simp add: row)
  show ?case
    unfolding step split using IH unfolding counts
    by (cases "sum_fits (count_of (mi_property_occurrences m) e) occ") simp_all
qed

section \<open>Feature counters\<close>

abbreviation feature_sum :: "nat \<times> nat \<Rightarrow> mutable_index \<Rightarrow> mutable_index result" where
  "feature_sum \<equiv> \<lambda>(i, n) m. rmap (\<lambda>v. m\<lparr>mi_feature_counts := (mi_feature_counts m)[i := v]\<rparr>) (checked_add (mi_feature_counts m ! i) n)"

text \<open>The loop over the counters, as one pass.\<close>

lemma merge_features_from:
  assumes "k + length counts \<le> length (mi_feature_counts m)"
  shows "rfold feature_sum (enumerate k counts) m =
    rmap (\<lambda>vs. m\<lparr>mi_feature_counts := take k (mi_feature_counts m) @ vs @ drop (k + length counts) (mi_feature_counts m)\<rparr>)
      (rmap_list (\<lambda>(a, n). checked_add a n) (zip (drop k (mi_feature_counts m)) counts))"
  using assms
proof (induction counts arbitrary: k m)
  case Nil
  then show ?case by simp
next
  case (Cons n counts)
  let ?fc = "mi_feature_counts m"
  from Cons.prems have d: "drop k ?fc = ?fc ! k # drop (Suc k) ?fc" by (simp add: Cons_nth_drop_Suc)
  show ?case
  proof (cases "checked_add (?fc ! k) n")
    case (Inl x)
    then show ?thesis by (simp add: d)
  next
    case (Inr v)
    have "take (Suc k) (?fc[k := v]) = take k ?fc @ [v]" using Cons.prems by (simp add: take_Suc_conv_app_nth)
    moreover have "drop (Suc (k + length counts)) (?fc[k := v]) = drop (Suc (k + length counts)) ?fc" "drop (Suc k) (?fc[k := v]) = drop (Suc k) ?fc"
      by simp_all
    ultimately show ?thesis
      using Cons.IH [of "Suc k" "m\<lparr>mi_feature_counts := ?fc[k := v]\<rparr>"] Cons.prems
      by (cases "rmap_list (\<lambda>(a, n). checked_add a n) (zip (drop (Suc k) ?fc) counts)") (simp_all add: d Inr)
  qed
qed

lemma merge_features_code [code]:
  "merge_features counts m = (if length counts = length (mi_feature_counts m)
     then rmap (\<lambda>vs. m\<lparr>mi_feature_counts := vs\<rparr>) (rmap_list (\<lambda>(a, n). checked_add a n) (zip (mi_feature_counts m) counts))
     else rfold feature_sum (enumerate 0 counts) m)"
  using merge_features_from [of 0 counts m] by (simp add: merge_features_def)

lemma merge_features_counts:
  assumes "length counts = length (mi_feature_counts m)"
  shows "merge_features counts m = (if \<forall>(a, n) \<in> set (zip (mi_feature_counts m) counts). a + n \<le> U64_MAX
    then Inr (m\<lparr>mi_feature_counts := map2 (+) (mi_feature_counts m) counts\<rparr>) else Inl OverflowError)"
proof -
  have "rmap_list (\<lambda>(a, n). checked_add a n) rows =
      (if \<forall>(a, n) \<in> set rows. a + n \<le> U64_MAX then Inr (map (\<lambda>(a, n). a + n) rows) else Inl OverflowError)" for rows
    by (induction rows) (auto simp: checked_add_cases)
  with assms show ?thesis by (simp add: merge_features_code)
qed

section \<open>A commit adds the counters up\<close>

definition counters_added :: "mutable_index \<Rightarrow> mutable_index \<Rightarrow> mutable_index \<Rightarrow> bool" where
  "counters_added tx m m' \<longleftrightarrow>
     (\<forall>t. count_of (expression_counts m') t = add_counts (count_of (expression_counts m) t) (count_of (expression_counts tx) t)) \<and>
     (\<forall>e. count_of (mi_property_occurrences m') e = add_counts (count_of (mi_property_occurrences m) e) (count_of (mi_property_occurrences tx) e)) \<and>
     mi_feature_counts m' = map2 (+) (mi_feature_counts m) (mi_feature_counts tx)"

text \<open>After its expressions, the rows of a transaction are translated without an exception.\<close>

lemma merge_index_rows:
  assumes tx: "rows_ok tx" and s: "merged_to tx (length (mi_expressions tx)) m0 (mapping, m1)"
    and run: "rfold (merge_expression tx) (enumerate 0 (mi_expressions tx)) ([], m\<lparr>mi_entities := add_all (mi_entities tx) (mi_entities m)\<rparr>) =
      Inr (mapping, m1)"
  shows "merge_index tx m = rbind (merge_properties (mi_property_occurrences tx) m1) (\<lambda>m.
    rbind (merge_features (mi_feature_counts tx) (join_rows (translation mapping) tx m)) (\<lambda>m.
    Inr (mapping, m\<lparr>mi_compatibility_observations := add_all (mi_compatibility_observations tx) (mi_compatibility_observations m)\<rparr>)))"
proof -
  let ?f = "translation mapping"
  have f: "dict_at mapping h = Inr (?f h)" if "is_handle tx h" for h
    using merged_translation(1) [OF s, of h] that by (simp add: is_handle_def)
  have r: "\<forall>(a, b) \<in> set (mi_subclass_axioms tx). is_handle tx a \<and> is_handle tx b" "\<forall>(a, b) \<in> set (mi_equivalent_class_axioms tx). is_handle tx a \<and> is_handle tx b"
    "\<forall>g \<in> set (mi_disjoint_groups tx). \<forall>a \<in> set g. is_handle tx a" "\<forall>(p, a) \<in> set (mi_property_ranges tx). is_handle tx a"
    using tx by (auto simp: rows_ok_def)
  have "rmap_list (map_pair_by mapping) (mi_subclass_axioms tx) = Inr (map (\<lambda>(a, b). (?f a, ?f b)) (mi_subclass_axioms tx))"
    and "rmap_list (map_pair_by mapping) (mi_equivalent_class_axioms tx) = Inr (map (\<lambda>(a, b). (?f a, ?f b)) (mi_equivalent_class_axioms tx))"
    using r(1,2) f by (auto intro!: map_pairs_translated)
  moreover have "rmap_list (rmap_list (dict_at mapping)) (mi_disjoint_groups tx) = Inr (map (map ?f) (mi_disjoint_groups tx))"
    by (intro rmap_list_Inr) (use r(3) f in auto)
  moreover have "rmap_list (\<lambda>(p, x). rmap (Pair p) (dict_at mapping x)) (mi_property_ranges tx) = Inr (map (\<lambda>(p, a). (p, ?f a)) (mi_property_ranges tx))"
    by (rule rmap_list_Inr) (use r(4) f in auto)
  ultimately show ?thesis by (simp add: merge_index_def run join_rows_def)
qed

lemma merge_index_counts:
  assumes tx: "index_ok tx" and m: "index_ok m" and keys: "distinct (map fst (mi_property_occurrences tx))"
  shows "if counters_fit tx m then \<exists>mapping m'. merge_index tx m = Inr (mapping, m') \<and> counters_added tx m m'
    else merge_index tx m = Inl OverflowError"
proof -
  let ?n = "length (mi_expressions tx)" and ?m0 = "m\<lparr>mi_entities := add_all (mi_entities tx) (mi_entities m)\<rparr>"
  have "keys_wf (add_all (mi_entities tx) (mi_entities m)) (mi_expressions m)"
    by (rule keys_wf_entities [of "mi_entities m"]) (use m in \<open>auto simp: index_ok_def keys_ok_def keys_wf_def\<close>)
  then have k0: "keys_ok ?m0" using m tx by (auto simp: index_ok_def keys_ok_def)
  have tx_keys: "keys_ok tx" and tx_rows: "rows_ok tx" using tx by (simp_all add: index_ok_def)
  have len: "length (expression_counts tx) = ?n" using keys_ok_trees(2) [OF tx_keys] by (simp add: expression_counts_def)
  have counts0: "expression_counts ?m0 = expression_counts m" by (simp add: expression_counts_def)
  have "set (mi_entities tx) \<subseteq> set (mi_entities ?m0)" by simp
  from merge_expressions_counts [OF tx_keys k0 this order_refl]
  have exprs: "if \<forall>(t, occ) \<in> set (expression_counts tx). sum_fits (count_of (expression_counts m) t) occ
    then \<exists>s. rfold (merge_expression tx) (enumerate 0 (mi_expressions tx)) ([], ?m0) = Inr s \<and> merged_to tx ?n ?m0 s \<and>
      (\<forall>t. count_of (expression_counts (snd s)) t = add_counts (count_of (expression_counts m) t) (count_of (expression_counts tx) t))
    else rfold (merge_expression tx) (enumerate 0 (mi_expressions tx)) ([], ?m0) = Inl OverflowError"
    by (simp add: counts0 len cong: if_cong)
  show ?thesis
  proof (cases "\<forall>(t, occ) \<in> set (expression_counts tx). sum_fits (count_of (expression_counts m) t) occ")
    case False
    with exprs have "merge_index tx m = Inl OverflowError" by (simp add: merge_index_def)
    with False show ?thesis by (auto simp: counters_fit_def)
  next
    case True
    with exprs obtain mapping m1 where s: "rfold (merge_expression tx) (enumerate 0 (mi_expressions tx)) ([], ?m0) = Inr (mapping, m1)"
      "merged_to tx ?n ?m0 (mapping, m1)"
      "\<And>t. count_of (expression_counts m1) t = add_counts (count_of (expression_counts m) t) (count_of (expression_counts tx) t)"
      by auto
    have same: "mi_property_occurrences m1 = mi_property_occurrences m" "mi_feature_counts m1 = mi_feature_counts m"
      using s(2) by (simp_all add: merged_to_def same_counters_def)
    have features: "length (mi_feature_counts tx) = length (mi_feature_counts (join_rows f tx (m1\<lparr>mi_property_occurrences := d\<rparr>)))" for f d
      using tx m same by (simp add: index_ok_def counters_ok_def join_rows_def)
    note props = merge_properties_counts [OF keys, of m1, unfolded same]
    note rows = merge_index_rows [OF tx_rows s(2,1)]
    show ?thesis
    proof (cases "\<forall>(e, occ) \<in> set (mi_property_occurrences tx). sum_fits (count_of (mi_property_occurrences m) e) occ")
      case False
      with props have "merge_index tx m = Inl OverflowError" by (simp add: rows)
      with False show ?thesis by (auto simp: counters_fit_def)
    next
      case ok: True
      with props obtain d where d: "merge_properties (mi_property_occurrences tx) m1 = Inr (m1\<lparr>mi_property_occurrences := d\<rparr>)"
        "\<And>e. count_of d e = add_counts (count_of (mi_property_occurrences m) e) (count_of (mi_property_occurrences tx) e)"
        by auto
      let ?j = "join_rows (translation mapping) tx (m1\<lparr>mi_property_occurrences := d\<rparr>)"
      have j: "mi_feature_counts ?j = mi_feature_counts m" "mi_property_occurrences ?j = d" "expression_counts ?j = expression_counts m1"
        "expression_counts (?j\<lparr>mi_feature_counts := v, mi_compatibility_observations := w\<rparr>) = expression_counts m1" for v w
        by (simp_all add: join_rows_def same expression_counts_def)
      show ?thesis
        using True ok s(3) d(2)
        by (auto simp: rows d(1) merge_features_counts [OF features] j counters_fit_def counters_added_def)
    qed
  qed
qed

end
