(* ===== verification/Builder_Results.thy ===== *)
theory Builder_Results
  imports Builder_Counters
begin

text \<open>
  Theorems about the builder of \<open>src/pyelk/indexing/builder.py\<close>: what a committed transaction leaves in
  the builder, and what the frozen tables hold.
\<close>

section \<open>A small index\<close>

definition sample_class :: "py_str \<Rightarrow> entity_record" where
  "sample_class i = \<lparr>kind = CLASS, iri = i\<rparr>"

text \<open>A transaction for one subclass axiom between two class names.\<close>

definition sample_index :: mutable_index where
  "sample_index = \<lparr>mi_entities = predefined_records @ [sample_class [65], sample_class [66]],
     mi_expressions = [the_key TAG_CLASS [sample_class [65]] [] [], the_key TAG_CLASS [sample_class [66]] [] []],
     mi_expression_ids = [(the_key TAG_CLASS [sample_class [65]] [] [], 0), (the_key TAG_CLASS [sample_class [66]] [] [], 1)],
     mi_expression_occurrences = [\<lparr>negative = 1, positive = 0\<rparr>, \<lparr>negative = 0, positive = 1\<rparr>],
     mi_property_occurrences = [], mi_property_chains = [], mi_subclass_axioms = [(0, 1)],
     mi_equivalent_class_axioms = [], mi_disjoint_groups = [], mi_subproperty_axioms = [],
     mi_property_ranges = [], mi_feature_counts = replicate FEATURE_VECTOR_LENGTH 0, mi_compatibility_observations = []\<rparr>"

lemma predefined_distinct: "distinct predefined_records"
  and predefined_checked: "\<forall>e \<in> set predefined_records. entity_record_check e = Inr ()"
  and predefined_new: "sample_class [65] \<notin> set predefined_records" "sample_class [66] \<notin> set predefined_records"
  by code_simp+

lemma sample_checked: "entity_record_check (sample_class [65]) = Inr ()" "entity_record_check (sample_class [66]) = Inr ()"
  by code_simp+

lemma sample_index_ok: "index_ok sample_index"
proof -
  have "dict_get (mi_expression_ids sample_index) key = Some h \<longleftrightarrow> h < length (mi_expressions sample_index) \<and> mi_expressions sample_index ! h = key" for key h
    by (cases h) (auto simp: sample_index_def the_key_def sample_class_def less_Suc_eq)
  moreover have "keys_wf (mi_entities sample_index) (mi_expressions sample_index)"
    using predefined_distinct predefined_new
    by (auto simp: keys_wf_def sample_index_def the_key_def shape_ok_def needs_def less_Suc_eq sample_class_def)
  ultimately show ?thesis
    using predefined_checked sample_checked
    by (auto simp: index_ok_def keys_ok_def rows_distinct_def counters_ok_def rows_ok_def is_handle_def U64_MAX_def sample_index_def)
qed

lemma builder_ok: "index_ok ontology_builder" and builder_axioms: "index_axioms ontology_builder = {}"
  and builder_entities: "mi_entities ontology_builder = predefined_records"
proof -
  show e: "mi_entities ontology_builder = predefined_records"
    by code_simp
  show "index_axioms ontology_builder = {}" by (simp add: ontology_builder_def index_axioms_def empty_index_def)
  show "index_ok ontology_builder"
    using predefined_distinct predefined_checked e
    by (auto simp: ontology_builder_def index_ok_def keys_ok_def keys_wf_def rows_distinct_def counters_ok_def rows_ok_def empty_index_def U64_MAX_def)
qed

lemma sample_index_fits: "ontology_fits sample_index"
proof -
  have "set (mi_expressions sample_index) \<union> named_keys (set (mi_entities sample_index)) \<subseteq>
      (\<lambda>e. the_key TAG_CLASS [e] [] []) ` set (mi_entities sample_index) \<union> (\<lambda>e. the_key TAG_INDIVIDUAL [e] [] []) ` set (mi_entities sample_index)"
    by (auto simp: named_keys_def sample_index_def)
  from card_mono [OF _ this] card_Un_le [of "(\<lambda>e. the_key TAG_CLASS [e] [] []) ` set (mi_entities sample_index)"
      "(\<lambda>e. the_key TAG_INDIVIDUAL [e] [] []) ` set (mi_entities sample_index)"]
    card_image_le [of "set (mi_entities sample_index)" "\<lambda>e. the_key TAG_CLASS [e] [] []"]
    card_image_le [of "set (mi_entities sample_index)" "\<lambda>e. the_key TAG_INDIVIDUAL [e] [] []"] card_length [of "mi_entities sample_index"]
  have "card (set (mi_expressions sample_index) \<union> named_keys (set (mi_entities sample_index))) \<le> 12"
    by (simp add: sample_index_def predefined_records_def)
  moreover have "card {[p] | p. p \<in> set (mi_entities sample_index) \<and> kind p = OBJECT_PROPERTY} \<le> card ((\<lambda>p. [p]) ` set (mi_entities sample_index))"
    by (rule card_mono) auto
  then have "card {[p] | p. p \<in> set (mi_entities sample_index) \<and> kind p = OBJECT_PROPERTY} \<le> 6"
    using card_image_le [of "set (mi_entities sample_index)" "\<lambda>p. [p]"] card_length [of "mi_entities sample_index"]
    by (simp add: sample_index_def predefined_records_def)
  ultimately show ?thesis
    by (simp add: ontology_fits_def index_fits_def U32_RESERVED_def sample_index_def predefined_records_def)
qed

section \<open>Theorems\<close>

lemma commit_ok:
  assumes "index_ok (tx_index tx)" and "index_ok m" and "\<not> tx_closed tx" and "commit_into tx m = Inr (mapping, tx', m')"
  shows "tx_closed tx'" and "index_ok m'" and "index_axioms m' = index_axioms (tx_index tx) \<union> index_axioms m"
    and "set (mi_entities m') = set (mi_entities (tx_index tx)) \<union> set (mi_entities m)"
    and "\<forall>h < length (mi_expressions (tx_index tx)). \<exists>k < length (mi_expressions m'). dict_get mapping h = Some k \<and> index_tree m' k = index_tree (tx_index tx) h"
    and "\<forall>h < length (mi_expressions m). index_tree m' h = index_tree m h"
proof -
  have r: "merge_index (tx_index tx) m = Inr (mapping, m')" and closed: "tx' = tx\<lparr>tx_closed := True\<rparr>"
    using assms(3,4) by (auto simp: commit_into_def)
  have e: "adds (index_axioms (tx_index tx)) (set (mi_entities (tx_index tx))) m m'"
    "\<And>h. is_handle (tx_index tx) h \<Longrightarrow> is_handle m' (translation mapping h) \<and> index_tree m' (translation mapping h) = index_tree (tx_index tx) h \<and>
        dict_at mapping h = Inr (translation mapping h)"
    using merge_index_ends [OF assms(1,2)] by (simp_all add: r)
  show "tx_closed tx'" by (simp add: closed)
  show "index_ok m'" "index_axioms m' = index_axioms (tx_index tx) \<union> index_axioms m"
    "set (mi_entities m') = set (mi_entities (tx_index tx)) \<union> set (mi_entities m)"
    using e(1) by (simp_all add: adds_def)
  show "\<forall>h < length (mi_expressions (tx_index tx)). \<exists>k < length (mi_expressions m'). dict_get mapping h = Some k \<and> index_tree m' k = index_tree (tx_index tx) h"
  proof (intro allI impI)
    fix h assume "h < length (mi_expressions (tx_index tx))"
    with e(2) [of h] show "\<exists>k < length (mi_expressions m'). dict_get mapping h = Some k \<and> index_tree m' k = index_tree (tx_index tx) h"
      by (auto simp: is_handle_def dict_at_def split: option.splits)
  qed
  show "\<forall>h < length (mi_expressions m). index_tree m' h = index_tree m h"
    using index_grows_tree [OF adds_grows [OF e(1)]] by (simp add: is_handle_def)
qed

text \<open>C34: Committing an open transaction into the builder overflows exactly when some counter of the builder and
  that of the transaction (the occurrences of an expression or of a property, or a feature counter) do not fit 64
  bits together.  Otherwise it closes the transaction, adds to the builder exactly the axioms and the entities of the
  transaction and adds every counter to the builder's; every handle of the transaction is translated to a handle of the builder that
  stands for the same expression tree, and what the builder already held keeps its handles.  A closed transaction
  cannot be committed again.\<close>

theorem commit_exact:
  assumes "index_ok (tx_index tx)" and "index_ok m" and "distinct (map fst (mi_property_occurrences (tx_index tx)))"
  shows "if tx_closed tx then commit_into tx m = Inl RuntimeError
    else if \<not> counters_fit (tx_index tx) m then commit_into tx m = Inl OverflowError
    else \<exists>mapping tx' m'. commit_into tx m = Inr (mapping, tx', m') \<and> tx_closed tx' \<and> index_ok m' \<and>
      index_axioms m' = index_axioms (tx_index tx) \<union> index_axioms m \<and>
      set (mi_entities m') = set (mi_entities (tx_index tx)) \<union> set (mi_entities m) \<and>
      counters_added (tx_index tx) m m' \<and>
      (\<forall>h < length (mi_expressions (tx_index tx)). \<exists>k < length (mi_expressions m'). dict_get mapping h = Some k \<and> index_tree m' k = index_tree (tx_index tx) h) \<and>
      (\<forall>h < length (mi_expressions m). index_tree m' h = index_tree m h)"
proof (cases "tx_closed tx")
  case True
  then show ?thesis by (simp add: commit_into_def)
next
  case open_tx: False
  note counts = merge_index_counts [OF assms]
  show ?thesis
  proof (cases "counters_fit (tx_index tx) m")
    case False
    with counts open_tx show ?thesis by (simp add: commit_into_def)
  next
    case True
    with counts obtain mapping m' where m': "merge_index (tx_index tx) m = Inr (mapping, m')" "counters_added (tx_index tx) m m'" by auto
    then have run: "commit_into tx m = Inr (mapping, tx\<lparr>tx_closed := True\<rparr>, m')" using open_tx by (simp add: commit_into_def)
    show ?thesis using commit_ok [OF assms(1,2) open_tx run] run m'(2) open_tx True by simp
  qed
qed

text \<open>Committing the small index succeeds once; with a full counter in the builder it overflows.\<close>

definition full_builder :: mutable_index where
  "full_builder = ontology_builder\<lparr>mi_feature_counts := replicate FEATURE_VECTOR_LENGTH U64_MAX\<rparr>"

lemma sample_counters_fit: "counters_fit sample_index ontology_builder"
  and full_counters: "\<not> counters_fit (sample_index\<lparr>mi_feature_counts := replicate FEATURE_VECTOR_LENGTH 1\<rparr>) full_builder"
proof -
  have "sum_fits no_occurrence occ" if "(t, occ) \<in> set (expression_counts sample_index)" for t occ
    using that by (auto simp: expression_counts_def sample_index_def sum_fits_def no_occurrence_def U64_MAX_def dest!: set_zip_rightD)
  moreover have "expression_counts ontology_builder = []"
    by (simp add: expression_counts_def ontology_builder_def empty_index_def trees_def unfold_rows_def)
  moreover have "mi_property_occurrences sample_index = []" "mi_feature_counts sample_index = replicate FEATURE_VECTOR_LENGTH 0"
    "mi_feature_counts ontology_builder = replicate FEATURE_VECTOR_LENGTH 0"
    by (simp_all add: sample_index_def ontology_builder_def empty_index_def)
  ultimately show "counters_fit sample_index ontology_builder"
    by (auto simp: counters_fit_def zip_replicate U64_MAX_def)
  have "(U64_MAX, 1) \<in> set (zip (replicate FEATURE_VECTOR_LENGTH U64_MAX) (replicate FEATURE_VECTOR_LENGTH (1 :: nat)))"
    by (simp add: zip_replicate FEATURE_VECTOR_LENGTH_def)
  then show "\<not> counters_fit (sample_index\<lparr>mi_feature_counts := replicate FEATURE_VECTOR_LENGTH 1\<rparr>) full_builder"
    by (fastforce simp: counters_fit_def full_builder_def)
qed

lemma commit_exact_witness:
  "(\<exists>mapping tx' m'. commit_into \<lparr>tx_index = sample_index, tx_closed = False\<rparr> ontology_builder = Inr (mapping, tx', m') \<and>
     index_axioms m' = index_axioms sample_index \<and> index_axioms sample_index \<noteq> {} \<and> counters_added sample_index ontology_builder m' \<and>
     commit_into tx' m' = Inl RuntimeError) \<and>
   commit_into \<lparr>tx_index = sample_index\<lparr>mi_feature_counts := replicate FEATURE_VECTOR_LENGTH 1\<rparr>, tx_closed = False\<rparr> full_builder = Inl OverflowError"
proof
  have keys: "distinct (map fst (mi_property_occurrences (sample_index\<lparr>mi_feature_counts := v\<rparr>)))" "distinct (map fst (mi_property_occurrences sample_index))" for v
    by (simp_all add: sample_index_def)
  have "index_axioms sample_index \<noteq> {}" by (simp add: index_axioms_def sample_index_def)
  moreover have "commit_into tx' m' = Inl RuntimeError" if "tx_closed tx'" for tx' m' using that by (simp add: commit_into_def)
  ultimately show "\<exists>mapping tx' m'. commit_into \<lparr>tx_index = sample_index, tx_closed = False\<rparr> ontology_builder = Inr (mapping, tx', m') \<and>
     index_axioms m' = index_axioms sample_index \<and> index_axioms sample_index \<noteq> {} \<and> counters_added sample_index ontology_builder m' \<and>
     commit_into tx' m' = Inl RuntimeError"
    using commit_exact [of "\<lparr>tx_index = sample_index, tx_closed = False\<rparr>" ontology_builder] sample_index_ok builder_ok keys sample_counters_fit
    by (fastforce simp: builder_axioms)
  have "index_ok (sample_index\<lparr>mi_feature_counts := replicate FEATURE_VECTOR_LENGTH 1\<rparr>)" "index_ok full_builder"
    using sample_index_ok builder_ok
    by (auto simp: full_builder_def index_ok_def keys_ok_def rows_distinct_def counters_ok_def rows_ok_def is_handle_def is_property_of_def U64_MAX_def)
  with commit_exact [of "\<lparr>tx_index = sample_index\<lparr>mi_feature_counts := replicate FEATURE_VECTOR_LENGTH 1\<rparr>, tx_closed = False\<rparr>" full_builder]
    keys full_counters
  show "commit_into \<lparr>tx_index = sample_index\<lparr>mi_feature_counts := replicate FEATURE_VECTOR_LENGTH 1\<rparr>, tx_closed = False\<rparr> full_builder = Inl OverflowError"
    by simp
qed

text \<open>C33: Freezing a consistent index that fits the 32-bit identifiers returns validated tables: their entities are those
  of the index, their axioms, read over expression trees and entities, are exactly the axioms of the index, every
  handle of the index has an expression with the same tree, and the feature counters and the fingerprint are kept.\<close>

theorem freezing_exact:
  assumes "index_ok m" and "ontology_fits m" and "set predefined_records \<subseteq> set (mi_entities m)" and "length fingerprint = FINGERPRINT_SIZE"
  shows "\<exists>co m'. freeze_ontology fingerprint m = Some (Inr (co, m')) \<and> compiled_ontology_check co = Inr () \<and>
    set (entities co) = set (mi_entities m) \<and> table_axioms co = index_axioms m \<and>
    (\<forall>h < length (mi_expressions m). \<exists>e < length (expressions co). table_tree co e = index_tree m h) \<and>
    feature_counts co = mi_feature_counts m \<and> source_fingerprint co = fingerprint"
proof (rule freeze_ontology_ok [OF assms])
  fix co m'
  assume "freeze_ontology fingerprint m = Some (Inr (co, m'))" and "valid_ontology co"
    and "set (entities co) = set (mi_entities m)" and "table_axioms co = index_axioms m"
    and "\<And>h. is_handle m h \<Longrightarrow> \<exists>e. is_expression co e \<and> table_tree co e = index_tree m h"
    and "feature_counts co = mi_feature_counts m" and "source_fingerprint co = fingerprint"
  then show ?thesis by (simp add: valid_ontology_def is_handle_def is_expression_def)
qed

lemma freezing_exact_witness:
  "\<exists>co m'. freeze_ontology (replicate 32 0) sample_index = Some (Inr (co, m')) \<and> compiled_ontology_check co = Inr () \<and>
    SubClassAxiom (Tree TAG_CLASS [sample_class [65]] [] []) (Tree TAG_CLASS [sample_class [66]] [] []) \<in> table_axioms co"
proof -
  have "SubClassAxiom (Tree TAG_CLASS [sample_class [65]] [] []) (Tree TAG_CLASS [sample_class [66]] [] []) \<in> index_axioms sample_index"
    by (simp add: index_axioms_def sample_index_def index_tree_eq trees_def unfold_rows_def key_tree_def the_key_def)
  moreover have "set predefined_records \<subseteq> set (mi_entities sample_index)" by (auto simp: sample_index_def)
  moreover have "length (replicate 32 0) = FINGERPRINT_SIZE" by (simp add: FINGERPRINT_SIZE_def)
  ultimately show ?thesis using freezing_exact [OF sample_index_ok sample_index_fits, of "replicate 32 0"] by fastforce
qed

end
