(* ===== verification/Conversion.thy ===== *)
theory Conversion
  imports Builder_Results Blake2b
begin

text \<open>
  \<open>src/pyelk/indexing/conversion.py\<close>: the conversion of OWL class expressions and axioms into the mutable
  index.  The OWL values are those of the package \<open>pyowl_core\<close>; a datatype keeps what the converter reads of
  them, the class of a value and its fields.  A value of a class whose fields are never read is known by the
  name of its class.  The transaction is the state of the converter.
\<close>

section \<open>Features\<close>

definition ONTOLOGY_FEATURE_NAMES :: "string list" where
  "ONTOLOGY_FEATURE_NAMES =
    [''ANONYMOUS_INDIVIDUAL'', ''ASYMMETRIC_OBJECT_PROPERTY'', ''BOTTOM_OBJECT_PROPERTY_POSITIVE'', ''DATA_ALL_VALUES_FROM'',
     ''DATA_EXACT_CARDINALITY'', ''DATA_HAS_VALUE'', ''DATA_MAX_CARDINALITY'', ''DATA_MIN_CARDINALITY'', ''DATA_PROPERTY'',
     ''DATA_PROPERTY_ASSERTION'', ''DATA_PROPERTY_DOMAIN'', ''DATA_PROPERTY_RANGE'', ''DATA_SOME_VALUES_FROM'', ''DATATYPE'',
     ''DATATYPE_DEFINITION'', ''DIFFERENT_INDIVIDUALS'', ''DISJOINT_CLASSES'', ''DISJOINT_DATA_PROPERTIES'',
     ''DISJOINT_OBJECT_PROPERTIES'', ''DISJOINT_UNION'', ''EQUIVALENT_DATA_PROPERTIES'', ''FUNCTIONAL_DATA_PROPERTY'',
     ''FUNCTIONAL_OBJECT_PROPERTY'', ''HAS_KEY'', ''INVERSE_FUNCTIONAL_OBJECT_PROPERTY'', ''INVERSE_OBJECT_PROPERTIES'',
     ''IRREFLEXIVE_OBJECT_PROPERTY'', ''NEGATIVE_DATA_PROPERTY_ASSERTION'', ''NEGATIVE_OBJECT_PROPERTY_ASSERTION'',
     ''OBJECT_ALL_VALUES_FROM'', ''OBJECT_COMPLEMENT_OF_NEGATIVE'', ''OBJECT_COMPLEMENT_OF_POSITIVE'',
     ''OBJECT_EXACT_CARDINALITY'', ''OBJECT_HAS_SELF_NEGATIVE'', ''OBJECT_HAS_VALUE_POSITIVE'', ''OBJECT_INVERSE_OF'',
     ''OBJECT_MAX_CARDINALITY'', ''OBJECT_MIN_CARDINALITY'', ''OBJECT_ONE_OF'', ''OBJECT_PROPERTY_ASSERTION'',
     ''OBJECT_PROPERTY_CHAIN'', ''OBJECT_PROPERTY_RANGE'', ''OBJECT_UNION_OF_POSITIVE'', ''OWL_NOTHING_POSITIVE'',
     ''REFLEXIVE_OBJECT_PROPERTY'', ''SUB_DATA_PROPERTY_OF'', ''SWRL_RULE'', ''SYMMETRIC_OBJECT_PROPERTY'',
     ''TOP_OBJECT_PROPERTY_NEGATIVE'']"

definition QUERY_FEATURE_NAMES :: "string list" where
  "QUERY_FEATURE_NAMES =
    [''QUERY_ANNOTATION_ASSERTION_AXIOM'', ''QUERY_ANNOTATION_PROPERTY_DOMAIN_AXIOM'', ''QUERY_ANNOTATION_PROPERTY_RANGE_AXIOM'',
     ''QUERY_SUB_ANNOTATION_PROPERTY_OF_AXIOM'', ''QUERY_DATA_PROPERTY_ASSERTION_AXIOM'',
     ''QUERY_NEGATIVE_DATA_PROPERTY_ASSERTION_AXIOM'', ''QUERY_NEGATIVE_OBJECT_PROPERTY_ASSERTION_AXIOM'',
     ''QUERY_DISJOINT_UNION_AXIOM'', ''QUERY_DATA_PROPERTY_DOMAIN_AXIOM'', ''QUERY_DATA_PROPERTY_RANGE_AXIOM'',
     ''QUERY_DISJOINT_DATA_PROPERTIES_AXIOM'', ''QUERY_EQUIVALENT_DATA_PROPERTIES_AXIOM'',
     ''QUERY_FUNCTIONAL_DATA_PROPERTY_AXIOM'', ''QUERY_SUB_DATA_PROPERTY_OF_AXIOM'', ''QUERY_DATATYPE_DEFINITION_AXIOM'',
     ''QUERY_DECLARATION_AXIOM'', ''QUERY_HAS_KEY_AXIOM'', ''QUERY_ASYMMETRIC_OBJECT_PROPERTY_AXIOM'',
     ''QUERY_DISJOINT_OBJECT_PROPERTIES_AXIOM'', ''QUERY_EQUIVALENT_OBJECT_PROPERTIES_AXIOM'',
     ''QUERY_FUNCTIONAL_OBJECT_PROPERTY_AXIOM'', ''QUERY_INVERSE_FUNCTIONAL_OBJECT_PROPERTY_AXIOM'',
     ''QUERY_INVERSE_OBJECT_PROPERTIES_AXIOM'', ''QUERY_IRREFLEXIVE_OBJECT_PROPERTY_AXIOM'',
     ''QUERY_OBJECT_PROPERTY_RANGE_AXIOM'', ''QUERY_REFLEXIVE_OBJECT_PROPERTY_AXIOM'', ''QUERY_SUB_OBJECT_PROPERTY_OF_AXIOM'',
     ''QUERY_SYMMETRIC_OBJECT_PROPERTY_AXIOM'', ''QUERY_TRANSITIVE_OBJECT_PROPERTY_AXIOM'', ''QUERY_SWRL_RULE'']"

definition UNSUPPORTED_EXPRESSION_FEATURE :: "(string, string) dict" where
  "UNSUPPORTED_EXPRESSION_FEATURE =
    [(''ObjectAllValuesFrom'', ''OBJECT_ALL_VALUES_FROM''), (''ObjectExactCardinality'', ''OBJECT_EXACT_CARDINALITY''),
     (''ObjectMaxCardinality'', ''OBJECT_MAX_CARDINALITY''), (''ObjectMinCardinality'', ''OBJECT_MIN_CARDINALITY''),
     (''DataAllValuesFrom'', ''DATA_ALL_VALUES_FROM''), (''DataExactCardinality'', ''DATA_EXACT_CARDINALITY''),
     (''DataMaxCardinality'', ''DATA_MAX_CARDINALITY''), (''DataMinCardinality'', ''DATA_MIN_CARDINALITY''),
     (''DataSomeValuesFrom'', ''DATA_SOME_VALUES_FROM'')]"

definition UNSUPPORTED_AXIOM_FEATURE :: "(string, string) dict" where
  "UNSUPPORTED_AXIOM_FEATURE =
    [(''AsymmetricObjectProperty'', ''ASYMMETRIC_OBJECT_PROPERTY''), (''DataPropertyAssertion'', ''DATA_PROPERTY_ASSERTION''),
     (''DataPropertyDomain'', ''DATA_PROPERTY_DOMAIN''), (''DataPropertyRange'', ''DATA_PROPERTY_RANGE''),
     (''DatatypeDefinition'', ''DATATYPE_DEFINITION''), (''DisjointDataProperties'', ''DISJOINT_DATA_PROPERTIES''),
     (''DisjointObjectProperties'', ''DISJOINT_OBJECT_PROPERTIES''),
     (''EquivalentDataProperties'', ''EQUIVALENT_DATA_PROPERTIES''), (''FunctionalDataProperty'', ''FUNCTIONAL_DATA_PROPERTY''),
     (''FunctionalObjectProperty'', ''FUNCTIONAL_OBJECT_PROPERTY''), (''HasKey'', ''HAS_KEY''),
     (''InverseFunctionalObjectProperty'', ''INVERSE_FUNCTIONAL_OBJECT_PROPERTY''),
     (''InverseObjectProperties'', ''INVERSE_OBJECT_PROPERTIES''),
     (''IrreflexiveObjectProperty'', ''IRREFLEXIVE_OBJECT_PROPERTY''),
     (''NegativeDataPropertyAssertion'', ''NEGATIVE_DATA_PROPERTY_ASSERTION''),
     (''NegativeObjectPropertyAssertion'', ''NEGATIVE_OBJECT_PROPERTY_ASSERTION''),
     (''SubDataPropertyOf'', ''SUB_DATA_PROPERTY_OF''), (''SymmetricObjectProperty'', ''SYMMETRIC_OBJECT_PROPERTY'')]"

definition UNSUPPORTED_QUERY_FEATURE :: "(string, string) dict" where
  "UNSUPPORTED_QUERY_FEATURE =
    [(''AnnotationAssertion'', ''QUERY_ANNOTATION_ASSERTION_AXIOM''),
     (''AnnotationPropertyDomain'', ''QUERY_ANNOTATION_PROPERTY_DOMAIN_AXIOM''),
     (''AnnotationPropertyRange'', ''QUERY_ANNOTATION_PROPERTY_RANGE_AXIOM''),
     (''SubAnnotationPropertyOf'', ''QUERY_SUB_ANNOTATION_PROPERTY_OF_AXIOM''),
     (''DataPropertyAssertion'', ''QUERY_DATA_PROPERTY_ASSERTION_AXIOM''),
     (''NegativeDataPropertyAssertion'', ''QUERY_NEGATIVE_DATA_PROPERTY_ASSERTION_AXIOM''),
     (''NegativeObjectPropertyAssertion'', ''QUERY_NEGATIVE_OBJECT_PROPERTY_ASSERTION_AXIOM''),
     (''DisjointUnion'', ''QUERY_DISJOINT_UNION_AXIOM''), (''DataPropertyDomain'', ''QUERY_DATA_PROPERTY_DOMAIN_AXIOM''),
     (''DataPropertyRange'', ''QUERY_DATA_PROPERTY_RANGE_AXIOM''),
     (''DisjointDataProperties'', ''QUERY_DISJOINT_DATA_PROPERTIES_AXIOM''),
     (''EquivalentDataProperties'', ''QUERY_EQUIVALENT_DATA_PROPERTIES_AXIOM''),
     (''FunctionalDataProperty'', ''QUERY_FUNCTIONAL_DATA_PROPERTY_AXIOM''),
     (''SubDataPropertyOf'', ''QUERY_SUB_DATA_PROPERTY_OF_AXIOM''),
     (''DatatypeDefinition'', ''QUERY_DATATYPE_DEFINITION_AXIOM''), (''Declaration'', ''QUERY_DECLARATION_AXIOM''),
     (''HasKey'', ''QUERY_HAS_KEY_AXIOM''), (''AsymmetricObjectProperty'', ''QUERY_ASYMMETRIC_OBJECT_PROPERTY_AXIOM''),
     (''DisjointObjectProperties'', ''QUERY_DISJOINT_OBJECT_PROPERTIES_AXIOM''),
     (''EquivalentObjectProperties'', ''QUERY_EQUIVALENT_OBJECT_PROPERTIES_AXIOM''),
     (''FunctionalObjectProperty'', ''QUERY_FUNCTIONAL_OBJECT_PROPERTY_AXIOM''),
     (''InverseFunctionalObjectProperty'', ''QUERY_INVERSE_FUNCTIONAL_OBJECT_PROPERTY_AXIOM''),
     (''InverseObjectProperties'', ''QUERY_INVERSE_OBJECT_PROPERTIES_AXIOM''),
     (''IrreflexiveObjectProperty'', ''QUERY_IRREFLEXIVE_OBJECT_PROPERTY_AXIOM''),
     (''ObjectPropertyRange'', ''QUERY_OBJECT_PROPERTY_RANGE_AXIOM''),
     (''ReflexiveObjectProperty'', ''QUERY_REFLEXIVE_OBJECT_PROPERTY_AXIOM''),
     (''SubObjectPropertyOf'', ''QUERY_SUB_OBJECT_PROPERTY_OF_AXIOM''),
     (''SymmetricObjectProperty'', ''QUERY_SYMMETRIC_OBJECT_PROPERTY_AXIOM''),
     (''TransitiveObjectProperty'', ''QUERY_TRANSITIVE_OBJECT_PROPERTY_AXIOM'')]"

definition FEATURE_INDEX :: "string \<Rightarrow> nat result" where
  "FEATURE_INDEX name = (case find_index ((=) name) (ONTOLOGY_FEATURE_NAMES @ QUERY_FEATURE_NAMES) of
     None \<Rightarrow> Inl KeyError | Some i \<Rightarrow> Inr i)"

datatype conversion_error = Unsupported string | Raised py_error

type_synonym 'a conversion = "conversion_error + 'a"

definition cbind :: "'a conversion \<Rightarrow> ('a \<Rightarrow> 'b conversion) \<Rightarrow> 'b conversion" where
  "cbind c f = (case c of Inl x \<Rightarrow> Inl x | Inr a \<Rightarrow> f a)"

definition lift :: "'a result \<Rightarrow> 'a conversion" where
  "lift r = (case r of Inl x \<Rightarrow> Inl (Raised x) | Inr a \<Rightarrow> Inr a)"

text \<open>A step of the converter works on the transaction.\<close>

type_synonym 'a step = "mutable_index \<Rightarrow> ('a \<times> mutable_index) conversion"

definition sbind :: "'a step \<Rightarrow> ('a \<Rightarrow> 'b step) \<Rightarrow> 'b step" where
  "sbind c f m = cbind (c m) (\<lambda>(a, m). f a m)"

definition give :: "'a \<Rightarrow> 'a step" where
  "give a m = Inr (a, m)"

definition fail :: "conversion_error \<Rightarrow> 'a step" where
  "fail x m = Inl x"

definition compute :: "'a result \<Rightarrow> 'a step" where
  "compute r m = cbind (lift r) (\<lambda>a. Inr (a, m))"

definition update_index :: "(mutable_index \<Rightarrow> mutable_index result) \<Rightarrow> unit step" where
  "update_index f m = cbind (lift (f m)) (\<lambda>m. Inr ((), m))"

definition query_index :: "(mutable_index \<Rightarrow> ('a \<times> mutable_index) result) \<Rightarrow> 'a step" where
  "query_index f m = lift (f m)"

definition count_feature :: "string \<Rightarrow> nat \<Rightarrow> unit step" where
  "count_feature name n = sbind (compute (FEATURE_INDEX name)) (\<lambda>i. update_index (add_feature i n))"

definition only_when :: "bool \<Rightarrow> unit step \<Rightarrow> unit step" where
  "only_when b c = (if b then c else give ())"

fun smap :: "('a \<Rightarrow> 'b step) \<Rightarrow> 'a list \<Rightarrow> 'b list step" where
  "smap f [] = give []"
| "smap f (x # xs) = sbind (f x) (\<lambda>y. sbind (smap f xs) (\<lambda>ys. give (y # ys)))"

fun sfor :: "('a \<Rightarrow> unit step) \<Rightarrow> 'a list \<Rightarrow> unit step" where
  "sfor f [] = give ()"
| "sfor f (x # xs) = sbind (f x) (\<lambda>_. sfor f xs)"

section \<open>OWL values\<close>

record owl_literal =
  lexical_form :: py_str
  language :: "py_str option"
  literal_datatype :: py_str

datatype owl_property =
    OwlObjectProperty py_str
  | OwlObjectInverseOf owl_property
  | OwlObjectPropertyChain "owl_property list"

datatype owl_value =
    OwlClass py_str
  | OwlNamedIndividual py_str
  | OwlAnonymousIndividual
  | OwlObjectIntersectionOf "owl_value list"
  | OwlObjectUnionOf "owl_value list"
  | OwlObjectComplementOf owl_value
  | OwlObjectOneOf "owl_value list"
  | OwlObjectSomeValuesFrom owl_property owl_value
  | OwlObjectHasValue owl_property owl_value
  | OwlObjectHasSelf owl_property
  | OwlDataHasValue py_str owl_literal
  | OwlOtherExpression string

datatype owl_entity = OwlEntity entity_kind py_str

datatype owl_axiom =
    OwlDeclaration owl_entity
  | OwlSubClassOf owl_value owl_value
  | OwlEquivalentClasses "owl_value list"
  | OwlDisjointClasses "owl_value list"
  | OwlDisjointUnion owl_value "owl_value list"
  | OwlClassAssertion owl_value owl_value
  | OwlSameIndividual "owl_value list"
  | OwlDifferentIndividuals "owl_value list"
  | OwlObjectPropertyAssertion owl_property owl_value owl_value
  | OwlEquivalentObjectProperties "owl_property list"
  | OwlSubObjectPropertyOf owl_property owl_property
  | OwlObjectPropertyDomain owl_property owl_value
  | OwlObjectPropertyRange owl_property owl_value
  | OwlReflexiveObjectProperty owl_property
  | OwlTransitiveObjectProperty owl_property
  | OwlAnnotationAxiom string
  | OwlOtherAxiom string

text \<open>\<open>type(axiom)\<close>, by its name.\<close>

fun axiom_type :: "owl_axiom \<Rightarrow> string" where
  "axiom_type (OwlDeclaration _) = ''Declaration''"
| "axiom_type (OwlSubClassOf _ _) = ''SubClassOf''"
| "axiom_type (OwlEquivalentClasses _) = ''EquivalentClasses''"
| "axiom_type (OwlDisjointClasses _) = ''DisjointClasses''"
| "axiom_type (OwlDisjointUnion _ _) = ''DisjointUnion''"
| "axiom_type (OwlClassAssertion _ _) = ''ClassAssertion''"
| "axiom_type (OwlSameIndividual _) = ''SameIndividual''"
| "axiom_type (OwlDifferentIndividuals _) = ''DifferentIndividuals''"
| "axiom_type (OwlObjectPropertyAssertion _ _ _) = ''ObjectPropertyAssertion''"
| "axiom_type (OwlEquivalentObjectProperties _) = ''EquivalentObjectProperties''"
| "axiom_type (OwlSubObjectPropertyOf _ _) = ''SubObjectPropertyOf''"
| "axiom_type (OwlObjectPropertyDomain _ _) = ''ObjectPropertyDomain''"
| "axiom_type (OwlObjectPropertyRange _ _) = ''ObjectPropertyRange''"
| "axiom_type (OwlReflexiveObjectProperty _) = ''ReflexiveObjectProperty''"
| "axiom_type (OwlTransitiveObjectProperty _) = ''TransitiveObjectProperty''"
| "axiom_type (OwlAnnotationAxiom name) = name"
| "axiom_type (OwlOtherAxiom name) = name"

section \<open>Literals\<close>

datatype literal_compatibility_mode = CANONICAL_FALLBACK | SOURCE_MAP

fun mode_value :: "literal_compatibility_mode \<Rightarrow> string" where
  "mode_value CANONICAL_FALLBACK = ''canonical-fallback''"
| "mode_value SOURCE_MAP = ''source-map''"

record elk_compatibility_key =
  ck_payload :: bytes
  ck_observation :: bytes
  ck_mode :: literal_compatibility_mode

definition new_compatibility_key :: "bytes \<Rightarrow> bytes \<Rightarrow> literal_compatibility_mode \<Rightarrow> elk_compatibility_key result" where
  "new_compatibility_key p obs mode = (if p = [] \<or> obs = [] then Inl ValueError
     else Inr \<lparr>ck_payload = p, ck_observation = obs, ck_mode = mode\<rparr>)"

definition ascii :: "string \<Rightarrow> bytes" where
  "ascii s = map of_char s"

text \<open>\<open>n.to_bytes(8, "big")\<close>\<close>

definition big_endian :: "nat \<Rightarrow> bytes result" where
  "big_endian n = (if U64_MAX < n then Inl OverflowError else Inr (rev (le_bytes 8 n)))"

definition sized :: "bytes \<Rightarrow> bytes result" where
  "sized bs = rappend (big_endian (length bs)) (Inr bs)"

text \<open>\<open>str.lower\<close> and the IRI of \<open>rdf:PlainLiteral\<close> are arguments.\<close>

definition literal_compatibility_key ::
    "(py_str \<Rightarrow> py_str) \<Rightarrow> py_str \<Rightarrow> owl_literal \<Rightarrow> py_str option \<Rightarrow> elk_compatibility_key result" where
  "literal_compatibility_key lower plain_literal l source_language =
     rbind (case source_language of
         Some source \<Rightarrow> (case language l of
             None \<Rightarrow> Inl ValueError
           | Some lang \<Rightarrow> if lower source \<noteq> lang then Inl ValueError else Inr (Some source, SOURCE_MAP))
       | None \<Rightarrow> Inr (language l, CANONICAL_FALLBACK)) (\<lambda>(selected, mode).
     let lexical = (if literal_datatype l = plain_literal
         then lexical_form l @ py_literal ''@'' @ (case selected of None \<Rightarrow> [] | Some s \<Rightarrow> s) else lexical_form l) in
     rbind (utf8_encode lexical) (\<lambda>lexical_bytes.
     rbind (utf8_encode (literal_datatype l)) (\<lambda>datatype_bytes.
     rbind (rappend (Inr (ascii ''pyelk:elk-literal-key:v1'' @ [0])) (rappend (sized lexical_bytes) (sized datatype_bytes))) (\<lambda>key_bytes.
     rbind (rappend (Inr (ascii ''pyelk:elk-literal-spelling:v1'' @ [0])) (rappend (sized (ascii (mode_value mode))) (sized key_bytes)))
       (\<lambda>observation. new_compatibility_key key_bytes observation mode)))))"

section \<open>The expression converter\<close>

record expression_converter =
  ec_literal_key :: "owl_literal \<Rightarrow> elk_compatibility_key result"
  ec_node_limit :: nat

definition new_expression_converter ::
    "(owl_literal \<Rightarrow> elk_compatibility_key result) \<Rightarrow> nat \<Rightarrow> expression_converter result" where
  "new_expression_converter key limit =
     (if limit < 1 then Inl ValueError else Inr \<lparr>ec_literal_key = key, ec_node_limit = limit\<rparr>)"

definition new_entity :: "entity_kind \<Rightarrow> py_str \<Rightarrow> entity_record result" where
  "new_entity k i = (let r = \<lparr>kind = k, iri = i\<rparr> in rmap (\<lambda>_. r) (entity_record_check r))"

definition intern_step :: "expression_tag \<Rightarrow> entity_record list \<Rightarrow> nat list \<Rightarrow> bytes \<Rightarrow> index_polarity \<Rightarrow> nat step" where
  "intern_step t es xs bs pol = query_index (intern_expression t es xs bs pol)"

definition convert_class :: "py_str \<Rightarrow> index_polarity \<Rightarrow> nat step" where
  "convert_class i pol = sbind (compute (new_entity CLASS i)) (\<lambda>r.
     sbind (intern_step TAG_CLASS [r] [] [] pol) (\<lambda>handle.
     sbind (only_when (i = OWL_NOTHING_IRI \<and> polarity_positive pol \<noteq> 0) (count_feature ''OWL_NOTHING_POSITIVE'' 1)) (\<lambda>_. give handle)))"

definition convert_individual :: "py_str \<Rightarrow> index_polarity \<Rightarrow> nat step" where
  "convert_individual i pol = sbind (compute (new_entity NAMED_INDIVIDUAL i)) (\<lambda>r. intern_step TAG_INDIVIDUAL [r] [] [] pol)"

definition convert_object_property :: "owl_property \<Rightarrow> index_polarity \<Rightarrow> entity_record step" where
  "convert_object_property p pol = (case p of
     OwlObjectInverseOf _ \<Rightarrow> fail (Unsupported ''OBJECT_INVERSE_OF'')
   | OwlObjectPropertyChain _ \<Rightarrow> fail (Raised PyTypeError)
   | OwlObjectProperty i \<Rightarrow> sbind (compute (new_entity OBJECT_PROPERTY i)) (\<lambda>r.
       sbind (update_index (record_object_property r pol)) (\<lambda>_.
       sbind (only_when (i = OWL_BOTTOM_OBJECT_PROPERTY_IRI \<and> polarity_positive pol \<noteq> 0)
         (count_feature ''BOTTOM_OBJECT_PROPERTY_POSITIVE'' 1)) (\<lambda>_.
       sbind (only_when (i = OWL_TOP_OBJECT_PROPERTY_IRI \<and> polarity_negative pol \<noteq> 0)
         (count_feature ''TOP_OBJECT_PROPERTY_NEGATIVE'' 1)) (\<lambda>_. give r)))))"

datatype operation = INTERSECTION | UNION | ONE_OF | COMPLEMENT | SOME_VALUES

datatype task = Visit owl_value index_polarity | Finish operation index_polarity nat "entity_record option"

fun intersect_rest :: "index_polarity \<Rightarrow> nat \<Rightarrow> nat list \<Rightarrow> nat step" where
  "intersect_rest pol handle [] = give handle"
| "intersect_rest pol handle (child # children) =
     sbind (intern_step OBJECT_INTERSECTION_OF [] [handle, child] [] pol) (\<lambda>handle. intersect_rest pol handle children)"

definition finish_union :: "index_polarity \<Rightarrow> nat list \<Rightarrow> nat step" where
  "finish_union pol children = (case children of
     [] \<Rightarrow> convert_class OWL_NOTHING_IRI pol
   | [child] \<Rightarrow> give child
   | _ \<Rightarrow> sbind (intern_step OBJECT_UNION_OF [] children [] pol) (\<lambda>handle.
       sbind (only_when (polarity_positive pol \<noteq> 0) (count_feature ''OBJECT_UNION_OF_POSITIVE'' 1)) (\<lambda>_. give handle)))"

definition child_at :: "nat list \<Rightarrow> nat step" where
  "child_at children = compute (list_at children 0)"

definition finish_operation :: "operation \<Rightarrow> index_polarity \<Rightarrow> entity_record option \<Rightarrow> nat list \<Rightarrow> nat step" where
  "finish_operation op pol p children = (case op of
     INTERSECTION \<Rightarrow> (case children of
         [] \<Rightarrow> convert_class OWL_THING_IRI pol
       | child # rest \<Rightarrow> intersect_rest pol child rest)
   | UNION \<Rightarrow> finish_union pol children
   | ONE_OF \<Rightarrow> finish_union pol children
   | COMPLEMENT \<Rightarrow> sbind (child_at children) (\<lambda>child.
       sbind (intern_step OBJECT_COMPLEMENT_OF [] [child] [] pol) (\<lambda>handle.
       sbind (only_when (polarity_negative pol \<noteq> 0) (count_feature ''OBJECT_COMPLEMENT_OF_NEGATIVE'' 1)) (\<lambda>_.
       sbind (only_when (polarity_positive pol \<noteq> 0) (count_feature ''OBJECT_COMPLEMENT_OF_POSITIVE'' 1)) (\<lambda>_. give handle))))
   | SOME_VALUES \<Rightarrow> (case p of
         None \<Rightarrow> fail (Raised PyAssertionError)
       | Some q \<Rightarrow> sbind (child_at children) (\<lambda>child.
           sbind (intern_step OBJECT_SOME_VALUES_FROM [q] [child] [] pol) (\<lambda>handle.
           sbind (if polarity_positive pol \<noteq> 0
             then query_index (\<lambda>m. rmap (\<lambda>t. (t = TAG_INDIVIDUAL, m)) (index_expression_tag m child)) else give False) (\<lambda>has_value.
           sbind (only_when has_value (count_feature ''OBJECT_HAS_VALUE_POSITIVE'' 1)) (\<lambda>_. give handle))))))"

definition convert_has_self :: "owl_property \<Rightarrow> index_polarity \<Rightarrow> nat step" where
  "convert_has_self p pol = sbind (convert_object_property p pol) (\<lambda>r.
     sbind (intern_step OBJECT_HAS_SELF [r] [] [] pol) (\<lambda>handle.
     sbind (only_when (polarity_negative pol \<noteq> 0) (count_feature ''OBJECT_HAS_SELF_NEGATIVE'' 1)) (\<lambda>_. give handle)))"

definition convert_data_has_value :: "expression_converter \<Rightarrow> py_str \<Rightarrow> owl_literal \<Rightarrow> index_polarity \<Rightarrow> nat step" where
  "convert_data_has_value C p l pol = sbind (compute (new_entity DATA_PROPERTY p)) (\<lambda>r.
     sbind (compute (ec_literal_key C l)) (\<lambda>key.
     sbind (update_index (\<lambda>m. Inr (add_entity r m))) (\<lambda>_.
     sbind (count_feature ''DATA_HAS_VALUE'' 1) (\<lambda>_.
     sbind (update_index (observe_compatibility_spelling (ck_observation key))) (\<lambda>_.
     intern_step DATA_HAS_VALUE [r] [] (ck_payload key) pol)))))"

text \<open>One visited node: its handle, or the tasks to push, the next one first.\<close>

definition visit :: "expression_converter \<Rightarrow> owl_value \<Rightarrow> index_polarity \<Rightarrow> (nat + task list) step" where
  "visit C v pol = (case v of
     OwlClass i \<Rightarrow> sbind (convert_class i pol) (\<lambda>handle. give (Inl handle))
   | OwlNamedIndividual i \<Rightarrow> sbind (convert_individual i pol) (\<lambda>handle. give (Inl handle))
   | OwlAnonymousIndividual \<Rightarrow> fail (Unsupported ''ANONYMOUS_INDIVIDUAL'')
   | OwlObjectIntersectionOf vs \<Rightarrow> give (Inr (map (\<lambda>v. Visit v pol) vs @ [Finish INTERSECTION pol (length vs) None]))
   | OwlObjectUnionOf vs \<Rightarrow> give (Inr (map (\<lambda>v. Visit v pol) vs @ [Finish UNION pol (length vs) None]))
   | OwlObjectComplementOf v \<Rightarrow> give (Inr [Visit v (complementary pol), Finish COMPLEMENT pol 1 None])
   | OwlObjectOneOf vs \<Rightarrow> sbind (only_when (vs \<noteq> []) (count_feature ''OBJECT_ONE_OF'' 1)) (\<lambda>_.
       give (Inr (map (\<lambda>v. Visit v pol) vs @ [Finish ONE_OF pol (length vs) None])))
   | OwlObjectSomeValuesFrom p v \<Rightarrow> sbind (convert_object_property p pol) (\<lambda>r.
       give (Inr [Visit v pol, Finish SOME_VALUES pol 1 (Some r)]))
   | OwlObjectHasValue p v \<Rightarrow> sbind (convert_object_property p pol) (\<lambda>r.
       give (Inr [Visit v pol, Finish SOME_VALUES pol 1 (Some r)]))
   | OwlObjectHasSelf p \<Rightarrow> sbind (convert_has_self p pol) (\<lambda>handle. give (Inl handle))
   | OwlDataHasValue p l \<Rightarrow> sbind (convert_data_has_value C p l pol) (\<lambda>handle. give (Inl handle))
   | OwlOtherExpression name \<Rightarrow> (case dict_get UNSUPPORTED_EXPRESSION_FEATURE name of
         Some feature \<Rightarrow> fail (Unsupported feature)
       | None \<Rightarrow> fail (Raised PyTypeError)))"

fun task_weight :: "task \<Rightarrow> nat" where
  "task_weight (Visit v pol) = Suc (2 * size v)"
| "task_weight (Finish op pol n p) = 1"

lemma sbind_Inr: "sbind c f m = Inr r \<longleftrightarrow> (\<exists>a m'. c m = Inr (a, m') \<and> f a m' = Inr r)"
  by (auto simp: sbind_def cbind_def split: sum.splits)

lemma give_Inr [simp]: "give a m = Inr r \<longleftrightarrow> r = (a, m)"
  by (auto simp: give_def)

lemma fail_Inr [simp]: "\<not> fail x m = Inr r"
  by (simp add: fail_def)

lemma visits_weight: "sum_list (map (task_weight \<circ> (\<lambda>v. Visit v pol)) vs) + length vs = 2 * size_list size vs"
  by (induction vs) simp_all

lemma pushed_weight: "sum_list (map (task_weight \<circ> (\<lambda>v. Visit v pol)) vs) \<le> 2 * size_list size vs"
  using visits_weight [of pol vs] by simp

lemma visit_smaller:
  assumes "visit C v pol m = Inr (Inr tasks, m')"
  shows "sum_list (map task_weight tasks) < task_weight (Visit v pol)"
proof -
  have "sum_list (map (task_weight \<circ> (\<lambda>v. Visit v pol)) vs) < Suc (Suc (2 * size_list size vs))" for vs
    using pushed_weight [of pol vs] by simp
  with assms show ?thesis by (cases v) (auto simp: visit_def sbind_Inr split: option.splits)
qed

text \<open>The loop of \<open>convert\<close>: the tasks with the next one first, the results with the last one first, and the
  number of visited nodes.\<close>

function convert_tasks :: "expression_converter \<Rightarrow> task list \<Rightarrow> nat list \<Rightarrow> nat \<Rightarrow> nat list step" where
  "convert_tasks C [] results observed m = Inr (results, m)"
| "convert_tasks C (Finish op pol n p # tasks) results observed m =
     (case finish_operation op pol p (rev (take n results)) m of
        Inl x \<Rightarrow> Inl x
      | Inr (handle, m) \<Rightarrow> convert_tasks C tasks (handle # drop n results) observed m)"
| "convert_tasks C (Visit v pol # tasks) results observed m =
     (if ec_node_limit C < Suc observed then Inl (Raised ValueError)
      else (case visit C v pol m of
         Inl x \<Rightarrow> Inl x
       | Inr (Inl handle, m) \<Rightarrow> convert_tasks C tasks (handle # results) (Suc observed) m
       | Inr (Inr new, m) \<Rightarrow> convert_tasks C (new @ tasks) results (Suc observed) m))"
  by pat_completeness auto
termination
  by (relation "measure (\<lambda>(C, tasks, results, observed, m). sum_list (map task_weight tasks))") (auto dest: visit_smaller)

definition convert_expression :: "expression_converter \<Rightarrow> owl_value \<Rightarrow> index_polarity \<Rightarrow> nat step" where
  "convert_expression C v pol = sbind (convert_tasks C [Visit v pol] [] 0) (\<lambda>results.
     if length results \<noteq> 1 then fail (Raised PyAssertionError) else compute (list_at results 0))"

end
