(* ===== verification/Axiom_Conversion.thy ===== *)
theory Axiom_Conversion
  imports Conversion
begin

text \<open>
  \<open>src/pyelk/indexing/conversion.py\<close>, second half: the conversion of axioms into rows of the index, and of
  entailment queries into subsumption obligations.
\<close>

section \<open>Axioms\<close>

definition converter_tag :: "nat \<Rightarrow> expression_tag step" where
  "converter_tag handle = query_index (\<lambda>m. rmap (\<lambda>t. (t, m)) (index_expression_tag m handle))"

definition subclass_row :: "nat \<Rightarrow> nat \<Rightarrow> unit step" where
  "subclass_row a b = update_index (\<lambda>m. Inr (add_subclass a b m))"

definition equivalent_row :: "nat \<Rightarrow> nat \<Rightarrow> unit step" where
  "equivalent_row a b = update_index (\<lambda>m. Inr (add_equivalent_class a b m))"

definition convert_thing :: "expression_converter \<Rightarrow> index_polarity \<Rightarrow> nat step" where
  "convert_thing C pol = convert_expression C (OwlClass OWL_THING_IRI) pol"

definition convert_nothing :: "expression_converter \<Rightarrow> index_polarity \<Rightarrow> nat step" where
  "convert_nothing C pol = convert_expression C (OwlClass OWL_NOTHING_IRI) pol"

definition convert_subclass :: "expression_converter \<Rightarrow> owl_value \<Rightarrow> owl_value \<Rightarrow> unit step" where
  "convert_subclass C sub super =
     sbind (convert_expression C sub NEGATIVE) (\<lambda>a.
     sbind (convert_expression C super POSITIVE) (\<lambda>b. subclass_row a b))"

definition convert_declaration :: "owl_entity \<Rightarrow> unit step" where
  "convert_declaration e = (case e of OwlEntity k i \<Rightarrow>
     if k = CLASS \<or> k = NAMED_INDIVIDUAL \<or> k = OBJECT_PROPERTY then
       sbind (compute (new_entity k i)) (\<lambda>r.
       sbind (update_index (\<lambda>m. Inr (add_entity r m))) (\<lambda>_.
       if k = OBJECT_PROPERTY then update_index (add_property_chain [r]) else give ()))
     else if k = ANNOTATION_PROPERTY then give ()
     else if k = DATA_PROPERTY then fail (Unsupported ''DATA_PROPERTY'')
     else fail (Unsupported ''DATATYPE''))"

fun equivalent_to :: "expression_converter \<Rightarrow> nat \<Rightarrow> bool \<Rightarrow> owl_value list \<Rightarrow> unit step" where
  "equivalent_to C first first_is_class [] = give ()"
| "equivalent_to C first first_is_class (member # members) =
     sbind (convert_expression C member DUAL) (\<lambda>converted.
     sbind (converter_tag converted) (\<lambda>t.
     sbind (if \<not> first_is_class \<and> t = TAG_CLASS then equivalent_row converted first else equivalent_row first converted) (\<lambda>_.
     equivalent_to C first first_is_class members)))"

fun convert_equivalent_classes :: "expression_converter \<Rightarrow> owl_value list \<Rightarrow> unit step" where
  "convert_equivalent_classes C [] = give ()"
| "convert_equivalent_classes C (member # members) =
     sbind (convert_expression C member DUAL) (\<lambda>first.
     sbind (converter_tag first) (\<lambda>t. equivalent_to C first (t = TAG_CLASS) members))"

definition disjoint_pair :: "expression_converter \<Rightarrow> nat \<Rightarrow> nat \<Rightarrow> owl_value \<Rightarrow> unit step" where
  "disjoint_pair C bottom first second =
     sbind (convert_expression C second NEGATIVE) (\<lambda>b.
     sbind (intern_step OBJECT_INTERSECTION_OF [] [first, b] [] NEGATIVE) (\<lambda>conjunction.
     subclass_row conjunction bottom))"

fun disjoint_pairs_of :: "expression_converter \<Rightarrow> nat \<Rightarrow> owl_value list \<Rightarrow> unit step" where
  "disjoint_pairs_of C bottom [] = give ()"
| "disjoint_pairs_of C bottom (first # rest) =
     sbind (convert_expression C first NEGATIVE) (\<lambda>a.
     sbind (sfor (disjoint_pair C bottom a) rest) (\<lambda>_. disjoint_pairs_of C bottom rest))"

definition convert_disjoint :: "expression_converter \<Rightarrow> owl_value list \<Rightarrow> unit step" where
  "convert_disjoint C members =
     (if 2 < length members then
        sbind (smap (\<lambda>member. convert_expression C member NEGATIVE) members) (\<lambda>converted. update_index (add_disjoint_group converted))
      else sbind (convert_nothing C POSITIVE) (\<lambda>bottom. disjoint_pairs_of C bottom members))"

definition convert_disjoint_union :: "expression_converter \<Rightarrow> owl_value \<Rightarrow> owl_value list \<Rightarrow> unit step" where
  "convert_disjoint_union C defined members = sbind (convert_disjoint C members) (\<lambda>_.
     case members of
       [] \<Rightarrow> sbind (convert_expression C defined POSITIVE) (\<lambda>d.
         sbind (convert_nothing C POSITIVE) (\<lambda>bottom. equivalent_row d bottom))
     | [member] \<Rightarrow> sbind (convert_expression C defined DUAL) (\<lambda>d.
         sbind (convert_expression C member DUAL) (\<lambda>singleton. equivalent_row d singleton))
     | _ \<Rightarrow> sbind (count_feature ''DISJOINT_UNION'' 1) (\<lambda>_.
         sbind (convert_expression C defined POSITIVE) (\<lambda>d.
         sfor (\<lambda>member. sbind (convert_expression C member NEGATIVE) (\<lambda>converted. subclass_row converted d)) members)))"

fun convert_same_individual :: "expression_converter \<Rightarrow> owl_value list \<Rightarrow> unit step" where
  "convert_same_individual C [] = give ()"
| "convert_same_individual C (member # members) =
     sbind (convert_expression C member DUAL) (\<lambda>first.
     sfor (\<lambda>member. sbind (convert_expression C member DUAL) (\<lambda>converted.
       sbind (subclass_row first converted) (\<lambda>_. subclass_row converted first))) members)"

definition convert_object_property_assertion ::
    "expression_converter \<Rightarrow> owl_property \<Rightarrow> owl_value \<Rightarrow> owl_value \<Rightarrow> unit step" where
  "convert_object_property_assertion C p source target =
     sbind (count_feature ''OBJECT_PROPERTY_ASSERTION'' 1) (\<lambda>_.
     sbind (convert_expression C source NEGATIVE) (\<lambda>a.
     sbind (convert_object_property p POSITIVE) (\<lambda>r.
     sbind (convert_expression C target POSITIVE) (\<lambda>b.
     sbind (intern_step OBJECT_SOME_VALUES_FROM [r] [b] [] POSITIVE) (\<lambda>existential.
     sbind (count_feature ''OBJECT_HAS_VALUE_POSITIVE'' 1) (\<lambda>_. subclass_row a existential))))))"

fun convert_equivalent_object_properties :: "owl_property list \<Rightarrow> unit step" where
  "convert_equivalent_object_properties [] = give ()"
| "convert_equivalent_object_properties (member # members) =
     sbind (convert_object_property member DUAL) (\<lambda>first.
     sfor (\<lambda>member. sbind (convert_object_property member DUAL) (\<lambda>converted.
       sbind (update_index (add_subproperty [first] converted)) (\<lambda>_. update_index (add_subproperty [converted] first)))) members)"

definition convert_property_chain :: "owl_property \<Rightarrow> entity_record list step" where
  "convert_property_chain p = (case p of
     OwlObjectProperty i \<Rightarrow> sbind (convert_object_property p NEGATIVE) (\<lambda>r. give [r])
   | OwlObjectInverseOf _ \<Rightarrow> fail (Unsupported ''OBJECT_INVERSE_OF'')
   | OwlObjectPropertyChain ps \<Rightarrow>
       sbind (smap (\<lambda>q. convert_object_property q NEGATIVE) (rev ps)) (\<lambda>reversed.
       if length reversed < 2 then fail (Raised ValueError)
       else sbind (count_feature ''OBJECT_PROPERTY_CHAIN'' (length reversed - 1)) (\<lambda>_. give (rev reversed))))"

definition convert_domain :: "expression_converter \<Rightarrow> owl_property \<Rightarrow> owl_value \<Rightarrow> unit step" where
  "convert_domain C p v =
     sbind (convert_object_property p NEGATIVE) (\<lambda>r.
     sbind (convert_thing C NEGATIVE) (\<lambda>thing.
     sbind (intern_step OBJECT_SOME_VALUES_FROM [r] [thing] [] NEGATIVE) (\<lambda>existential.
     sbind (convert_expression C v POSITIVE) (\<lambda>d. subclass_row existential d))))"

definition convert_range :: "expression_converter \<Rightarrow> owl_property \<Rightarrow> owl_value \<Rightarrow> unit step" where
  "convert_range C p v =
     sbind (convert_object_property p NEGATIVE) (\<lambda>r.
     sbind (convert_expression C v POSITIVE) (\<lambda>x.
     sbind (update_index (add_property_range r x)) (\<lambda>_. count_feature ''OBJECT_PROPERTY_RANGE'' 1)))"

definition convert_reflexive :: "expression_converter \<Rightarrow> owl_property \<Rightarrow> unit step" where
  "convert_reflexive C p =
     sbind (count_feature ''REFLEXIVE_OBJECT_PROPERTY'' 1) (\<lambda>_.
     sbind (convert_thing C NEGATIVE) (\<lambda>thing.
     sbind (convert_object_property p POSITIVE) (\<lambda>r.
     sbind (intern_step OBJECT_HAS_SELF [r] [] [] POSITIVE) (\<lambda>has_self. subclass_row thing has_self))))"

definition convert_transitive :: "owl_property \<Rightarrow> unit step" where
  "convert_transitive p =
     sbind (convert_object_property p DUAL) (\<lambda>r.
     sbind (count_feature ''OBJECT_PROPERTY_CHAIN'' 1) (\<lambda>_. update_index (add_subproperty [r, r] r)))"

definition convert_axiom :: "expression_converter \<Rightarrow> owl_axiom \<Rightarrow> unit step" where
  "convert_axiom C ax = (case dict_get UNSUPPORTED_AXIOM_FEATURE (axiom_type ax) of
     Some feature \<Rightarrow> fail (Unsupported feature)
   | None \<Rightarrow> (case ax of
       OwlDeclaration e \<Rightarrow> convert_declaration e
     | OwlSubClassOf sub super \<Rightarrow> convert_subclass C sub super
     | OwlEquivalentClasses members \<Rightarrow> convert_equivalent_classes C members
     | OwlDisjointClasses members \<Rightarrow> sbind (convert_disjoint C members) (\<lambda>_. count_feature ''DISJOINT_CLASSES'' 1)
     | OwlDisjointUnion defined members \<Rightarrow> convert_disjoint_union C defined members
     | OwlClassAssertion i v \<Rightarrow> convert_subclass C i v
     | OwlSameIndividual members \<Rightarrow> convert_same_individual C members
     | OwlDifferentIndividuals members \<Rightarrow> sbind (convert_disjoint C members) (\<lambda>_. count_feature ''DIFFERENT_INDIVIDUALS'' 1)
     | OwlObjectPropertyAssertion p source target \<Rightarrow> convert_object_property_assertion C p source target
     | OwlEquivalentObjectProperties members \<Rightarrow> convert_equivalent_object_properties members
     | OwlSubObjectPropertyOf sub super \<Rightarrow> sbind (convert_property_chain sub) (\<lambda>chain.
         sbind (convert_object_property super POSITIVE) (\<lambda>r. update_index (add_subproperty chain r)))
     | OwlObjectPropertyDomain p v \<Rightarrow> convert_domain C p v
     | OwlObjectPropertyRange p v \<Rightarrow> convert_range C p v
     | OwlReflexiveObjectProperty p \<Rightarrow> convert_reflexive C p
     | OwlTransitiveObjectProperty p \<Rightarrow> convert_transitive p
     | OwlAnnotationAxiom name \<Rightarrow> give ()
     | OwlOtherAxiom name \<Rightarrow> fail (Raised PyTypeError)))"

section \<open>Entailment queries\<close>

text \<open>The obligations, a set, in the order in which they are added.\<close>

type_synonym obligations = "(nat \<times> nat) list"

definition subsumption_obligation :: "expression_converter \<Rightarrow> owl_value \<Rightarrow> owl_value \<Rightarrow> obligations \<Rightarrow> obligations step" where
  "subsumption_obligation C sub super os =
     sbind (convert_expression C sub POSITIVE) (\<lambda>a.
     sbind (convert_expression C super NEGATIVE) (\<lambda>b. give (add_new (a, b) os)))"

definition convert_nominal :: "expression_converter \<Rightarrow> owl_value \<Rightarrow> index_polarity \<Rightarrow> nat step" where
  "convert_nominal C i pol = sbind (count_feature ''OBJECT_ONE_OF'' 1) (\<lambda>_. convert_expression C i pol)"

fun sfold :: "('a \<Rightarrow> 's \<Rightarrow> 's step) \<Rightarrow> 'a list \<Rightarrow> 's \<Rightarrow> 's step" where
  "sfold f [] s = give s"
| "sfold f (x # xs) s = sbind (f x s) (sfold f xs)"

definition conjunction_obligation ::
    "expression_converter \<Rightarrow> (owl_value \<Rightarrow> index_polarity \<Rightarrow> nat step) \<Rightarrow> owl_value \<Rightarrow> owl_value \<Rightarrow> obligations \<Rightarrow> obligations step" where
  "conjunction_obligation C conv first second os =
     sbind (conv first POSITIVE) (\<lambda>a.
     sbind (conv second POSITIVE) (\<lambda>b.
     sbind (intern_step OBJECT_INTERSECTION_OF [] [a, b] [] POSITIVE) (\<lambda>conjunction.
     sbind (convert_nothing C NEGATIVE) (\<lambda>bottom. give (add_new (conjunction, bottom) os)))))"

fun disjointness_obligations ::
    "expression_converter \<Rightarrow> (owl_value \<Rightarrow> index_polarity \<Rightarrow> nat step) \<Rightarrow> owl_value list \<Rightarrow> obligations \<Rightarrow> obligations step" where
  "disjointness_obligations C conv [] os = give os"
| "disjointness_obligations C conv (first # rest) os =
     sbind (sfold (conjunction_obligation C conv first) rest os) (disjointness_obligations C conv rest)"

text \<open>Around a cycle of members, beginning with the last one.\<close>

fun cyclic_obligations :: "('a \<Rightarrow> 'a \<Rightarrow> obligations \<Rightarrow> obligations step) \<Rightarrow> 'a \<Rightarrow> 'a list \<Rightarrow> obligations \<Rightarrow> obligations step" where
  "cyclic_obligations f previous [] os = give os"
| "cyclic_obligations f previous (current # members) os =
     sbind (f previous current os) (cyclic_obligations f current members)"

definition nominal_obligation :: "expression_converter \<Rightarrow> owl_value \<Rightarrow> owl_value \<Rightarrow> obligations \<Rightarrow> obligations step" where
  "nominal_obligation C previous current os =
     sbind (convert_nominal C previous POSITIVE) (\<lambda>a.
     sbind (convert_nominal C current NEGATIVE) (\<lambda>b. give (add_new (a, b) os)))"

definition convert_entailment_obligations :: "expression_converter \<Rightarrow> owl_axiom \<Rightarrow> obligations step" where
  "convert_entailment_obligations C ax = (case dict_get UNSUPPORTED_QUERY_FEATURE (axiom_type ax) of
     Some feature \<Rightarrow> fail (Unsupported feature)
   | None \<Rightarrow> if axiom_type ax = ''SWRLRule'' then fail (Unsupported ''QUERY_SWRL_RULE'') else (case ax of
       OwlSubClassOf sub super \<Rightarrow> subsumption_obligation C sub super []
     | OwlClassAssertion i v \<Rightarrow> subsumption_obligation C i v []
     | OwlObjectPropertyAssertion p source target \<Rightarrow>
         sbind (convert_expression C source POSITIVE) (\<lambda>a.
         sbind (convert_object_property p NEGATIVE) (\<lambda>r.
         sbind (convert_nominal C target NEGATIVE) (\<lambda>b.
         sbind (intern_step OBJECT_SOME_VALUES_FROM [r] [b] [] NEGATIVE) (\<lambda>existential. give [(a, existential)]))))
     | OwlObjectPropertyDomain p v \<Rightarrow>
         sbind (convert_object_property p POSITIVE) (\<lambda>r.
         sbind (convert_thing C POSITIVE) (\<lambda>thing.
         sbind (intern_step OBJECT_SOME_VALUES_FROM [r] [thing] [] POSITIVE) (\<lambda>existential.
         sbind (convert_expression C v NEGATIVE) (\<lambda>d. give [(existential, d)]))))
     | OwlDisjointClasses members \<Rightarrow> disjointness_obligations C (convert_expression C) members []
     | OwlDifferentIndividuals members \<Rightarrow> disjointness_obligations C (convert_nominal C) members []
     | OwlEquivalentClasses members \<Rightarrow>
         (if members = [] then fail (Raised ValueError)
          else cyclic_obligations (subsumption_obligation C) (last members) members [])
     | OwlSameIndividual members \<Rightarrow>
         (if members = [] then fail (Raised ValueError)
          else cyclic_obligations (nominal_obligation C) (last members) members [])
     | _ \<Rightarrow> fail (Raised PyTypeError)))"

definition unsupported_query_feature :: "owl_axiom \<Rightarrow> string option" where
  "unsupported_query_feature ax =
     (if axiom_type ax = ''SWRLRule'' then Some ''QUERY_SWRL_RULE'' else dict_get UNSUPPORTED_QUERY_FEATURE (axiom_type ax))"

end
