(* ===== verification/Conversion_Loop.thy ===== *)
theory Conversion_Loop
  imports Conversion
begin

text \<open>
  The loop of \<open>ExpressionConverter.convert\<close> over its explicit stacks does what a recursion over the
  expression does.
\<close>

section \<open>The recursion\<close>

fun convert_value :: "expression_converter \<Rightarrow> owl_value \<Rightarrow> index_polarity \<Rightarrow> nat step"
  and convert_values :: "expression_converter \<Rightarrow> owl_value list \<Rightarrow> index_polarity \<Rightarrow> nat list step" where
  "convert_value C (OwlClass i) pol = convert_class i pol"
| "convert_value C (OwlNamedIndividual i) pol = convert_individual i pol"
| "convert_value C OwlAnonymousIndividual pol = fail (Unsupported ''ANONYMOUS_INDIVIDUAL'')"
| "convert_value C (OwlObjectIntersectionOf vs) pol = sbind (convert_values C vs pol) (finish_operation INTERSECTION pol None)"
| "convert_value C (OwlObjectUnionOf vs) pol = sbind (convert_values C vs pol) (finish_operation UNION pol None)"
| "convert_value C (OwlObjectComplementOf v) pol = sbind (convert_value C v (complementary pol)) (\<lambda>h. finish_operation COMPLEMENT pol None [h])"
| "convert_value C (OwlObjectOneOf vs) pol = sbind (only_when (vs \<noteq> []) (count_feature ''OBJECT_ONE_OF'' 1)) (\<lambda>_.
     sbind (convert_values C vs pol) (finish_operation ONE_OF pol None))"
| "convert_value C (OwlObjectSomeValuesFrom p v) pol = sbind (convert_object_property p pol) (\<lambda>r.
     sbind (convert_value C v pol) (\<lambda>h. finish_operation SOME_VALUES pol (Some r) [h]))"
| "convert_value C (OwlObjectHasValue p v) pol = sbind (convert_object_property p pol) (\<lambda>r.
     sbind (convert_value C v pol) (\<lambda>h. finish_operation SOME_VALUES pol (Some r) [h]))"
| "convert_value C (OwlObjectHasSelf p) pol = convert_has_self p pol"
| "convert_value C (OwlDataHasValue p l) pol = convert_data_has_value C p l pol"
| "convert_value C (OwlOtherExpression name) pol = (case dict_get UNSUPPORTED_EXPRESSION_FEATURE name of
     Some feature \<Rightarrow> fail (Unsupported feature) | None \<Rightarrow> fail (Raised PyTypeError))"
| "convert_values C [] pol = give []"
| "convert_values C (v # vs) pol = sbind (convert_value C v pol) (\<lambda>h. sbind (convert_values C vs pol) (\<lambda>hs. give (h # hs)))"

fun nodes :: "owl_value \<Rightarrow> nat" where
  "nodes (OwlObjectIntersectionOf vs) = Suc (sum_list (map nodes vs))"
| "nodes (OwlObjectUnionOf vs) = Suc (sum_list (map nodes vs))"
| "nodes (OwlObjectComplementOf v) = Suc (nodes v)"
| "nodes (OwlObjectOneOf vs) = Suc (sum_list (map nodes vs))"
| "nodes (OwlObjectSomeValuesFrom p v) = Suc (nodes v)"
| "nodes (OwlObjectHasValue p v) = Suc (nodes v)"
| "nodes _ = 1"

section \<open>The loop\<close>

lemma sbind_Inl: "c m = Inl x \<Longrightarrow> sbind c f m = Inl x"
  and sbind_step: "c m = Inr (a, m') \<Longrightarrow> sbind c f m = f a m'"
  by (simp_all add: sbind_def cbind_def)

lemma give_apply [simp]: "give a m = Inr (a, m)" and fail_apply [simp]: "fail x m = Inl x"
  by (simp_all add: give_def fail_def)

text \<open>Continuing the loop after a reference step: the loop agrees within the node limit and fails beyond it.\<close>

definition loop_agrees :: "expression_converter \<Rightarrow> nat \<Rightarrow> ('a \<times> mutable_index) conversion \<Rightarrow>
    ('a \<Rightarrow> mutable_index \<Rightarrow> (nat list \<times> mutable_index) conversion) \<Rightarrow> (nat list \<times> mutable_index) conversion \<Rightarrow> bool" where
  "loop_agrees C n r rest out \<longleftrightarrow>
     (if n \<le> ec_node_limit C then out = cbind r (\<lambda>(a, m). rest a m)
      else (\<exists>x. out = Inl x \<and> (x = Raised ValueError \<or> r = Inl x)))"

lemma loop_agrees_limit: "ec_node_limit C < n \<Longrightarrow> loop_agrees C n r rest (Inl (Raised ValueError))"
  by (simp add: loop_agrees_def)

lemma loop_agrees_exact: "n \<le> ec_node_limit C \<Longrightarrow> out = cbind r (\<lambda>(a, m). rest a m) \<Longrightarrow> loop_agrees C n r rest out"
  by (simp add: loop_agrees_def)

lemma loop_agrees_seq:
  assumes "loop_agrees C n (c m) rest out" and "n \<le> n'"
    and "\<And>a m'. n \<le> ec_node_limit C \<Longrightarrow> c m = Inr (a, m') \<Longrightarrow> loop_agrees C n' (f a m') rest' (rest a m')"
  shows "loop_agrees C n' (sbind c f m) rest' out"
proof (cases "c m")
  case (Inl x)
  with assms(1,2) show ?thesis by (auto simp: loop_agrees_def sbind_def cbind_def split: if_splits)
next
  case (Inr r)
  obtain a m' where r: "r = (a, m')" by (cases r)
  show ?thesis
  proof (cases "n \<le> ec_node_limit C")
    case True
    with assms(1) have "out = rest a m'" by (simp add: loop_agrees_def Inr r cbind_def)
    with assms(3) [OF True Inr [unfolded r]] show ?thesis by (simp add: sbind_def Inr r cbind_def)
  next
    case False
    with assms(1,2) show ?thesis by (auto simp: loop_agrees_def Inr)
  qed
qed

lemma convert_visit_step:
  "convert_tasks C (Visit v pol # tasks) results observed m =
    (if ec_node_limit C < Suc observed then Inl (Raised ValueError)
     else cbind (visit C v pol m) (\<lambda>(r, m). case r of
        Inl handle \<Rightarrow> convert_tasks C tasks (handle # results) (Suc observed) m
      | Inr new \<Rightarrow> convert_tasks C (new @ tasks) results (Suc observed) m))"
  by (auto simp: cbind_def split: sum.splits)

lemma convert_finish_step:
  "length hs = n \<Longrightarrow> convert_tasks C (Finish op pol n p # tasks) (rev hs @ results) observed m =
    cbind (finish_operation op pol p hs m) (\<lambda>(h, m). convert_tasks C tasks (h # results) observed m)"
  by (auto simp: cbind_def split: sum.splits)

declare convert_tasks.simps(2,3) [simp del]

lemma convert_values_length: "convert_values C vs pol m = Inr (hs, m') \<Longrightarrow> length hs = length vs"
  by (induction vs arbitrary: m hs m') (auto simp: sbind_Inr)

text \<open>A visit is within the limit, or the loop has failed.\<close>

lemma loop_agrees_visit:
  assumes "Suc observed \<le> n"
    and "Suc observed \<le> ec_node_limit C \<Longrightarrow> loop_agrees C n r rest (cbind (visit C v pol m) (\<lambda>(r, m). case r of
        Inl handle \<Rightarrow> convert_tasks C tasks (handle # results) (Suc observed) m
      | Inr new \<Rightarrow> convert_tasks C (new @ tasks) results (Suc observed) m))"
  shows "loop_agrees C n r rest (convert_tasks C (Visit v pol # tasks) results observed m)"
  unfolding convert_visit_step using assms by (auto intro: loop_agrees_limit)

lemma cbind_assoc: "cbind (cbind c f) g = cbind c (\<lambda>a. cbind (f a) g)"
  by (simp add: cbind_def split: sum.splits)

lemma cbind_Inr [simp]: "cbind (Inr a) f = f a" and cbind_Inl [simp]: "cbind (Inl x) f = Inl x"
  by (simp_all add: cbind_def)

lemma sbind_cbind: "cbind (sbind c f m) g = cbind (c m) (\<lambda>(a, m). cbind (f a m) g)"
  by (cases "c m") (auto simp: sbind_def)

lemma loop_leaf:
  assumes "visit C v pol = sbind c (\<lambda>h. give (Inl h))"
  shows "loop_agrees C (Suc observed) (c m) (\<lambda>h m. convert_tasks C tasks (h # results) (Suc observed) m)
      (convert_tasks C (Visit v pol # tasks) results observed m)"
  by (rule loop_agrees_visit, simp, rule loop_agrees_exact) (simp_all add: assms sbind_cbind)

lemma loop_finish:
  assumes "loop_agrees C n (convert_values C vs pol' m) (\<lambda>hs m. convert_tasks C (Finish op pol (length vs) p # tasks) (rev hs @ results) n m) out"
  shows "loop_agrees C n (sbind (convert_values C vs pol') (finish_operation op pol p) m) (\<lambda>h m. convert_tasks C tasks (h # results) n m) out"
  by (rule loop_agrees_seq [where c = "convert_values C vs pol'" and f = "finish_operation op pol p", OF assms order_refl])
    (auto intro!: loop_agrees_exact convert_finish_step dest: convert_values_length)

lemma loop_finish_one:
  assumes "loop_agrees C n (convert_value C v pol' m) (\<lambda>h m. convert_tasks C (Finish op pol 1 p # tasks) (h # results) n m) out"
  shows "loop_agrees C n (sbind (convert_value C v pol') (\<lambda>h. finish_operation op pol p [h]) m) (\<lambda>h m. convert_tasks C tasks (h # results) n m) out"
  by (rule loop_agrees_seq [where c = "convert_value C v pol'" and f = "\<lambda>h. finish_operation op pol p [h]", OF assms order_refl])
    (use convert_finish_step [of "[_]" 1] in \<open>auto intro!: loop_agrees_exact\<close>)

lemma loop_before:
  assumes visit: "visit C v pol = sbind c (\<lambda>a. give (Inr (g a)))" and "Suc observed \<le> n"
    and after: "\<And>a m'. Suc observed \<le> ec_node_limit C \<Longrightarrow> c m = Inr (a, m') \<Longrightarrow> loop_agrees C n (f a m') rest (convert_tasks C (g a @ tasks) results (Suc observed) m')"
  shows "loop_agrees C n (sbind c f m) rest (convert_tasks C (Visit v pol # tasks) results observed m)"
proof (rule loop_agrees_visit)
  assume limit: "Suc observed \<le> ec_node_limit C"
  let ?rest = "\<lambda>a m. convert_tasks C (g a @ tasks) results (Suc observed) m"
  have "loop_agrees C (Suc observed) (c m) ?rest (cbind (c m) (\<lambda>(a, m). ?rest a m))"
    by (rule loop_agrees_exact [OF limit refl])
  from loop_agrees_seq [where c = c and f = f, OF this assms(2) after [OF limit]]
  have "loop_agrees C n (sbind c f m) rest (cbind (c m) (\<lambda>(a, m). ?rest a m))" by simp
  then show "loop_agrees C n (sbind c f m) rest (cbind (visit C v pol m) (\<lambda>(r, m). case r of
        Inl handle \<Rightarrow> convert_tasks C tasks (handle # results) (Suc observed) m
      | Inr new \<Rightarrow> convert_tasks C (new @ tasks) results (Suc observed) m))"
    by (simp add: visit sbind_cbind)
qed (rule assms(2))

lemma loop_reference:
  shows "loop_agrees C (observed + nodes v) (convert_value C v pol m)
      (\<lambda>h m. convert_tasks C tasks (h # results) (observed + nodes v) m)
      (convert_tasks C (Visit v pol # tasks) results observed m)"
    and "observed \<le> ec_node_limit C \<Longrightarrow> loop_agrees C (observed + sum_list (map nodes vs)) (convert_values C vs pol m)
      (\<lambda>hs m. convert_tasks C tasks (rev hs @ results) (observed + sum_list (map nodes vs)) m)
      (convert_tasks C (map (\<lambda>v. Visit v pol) vs @ tasks) results observed m)"
proof (induction C v pol and C vs pol arbitrary: observed m tasks results and observed m tasks results rule: convert_value_convert_values.induct)
  case (1 C i pol)
  show ?case using loop_leaf [of C "OwlClass i" pol "convert_class i pol"] by (simp add: visit_def)
next
  case (2 C i pol)
  show ?case using loop_leaf [of C "OwlNamedIndividual i" pol "convert_individual i pol"] by (simp add: visit_def)
next
  case (3 C pol)
  show ?case by (rule loop_agrees_visit) (auto simp: visit_def loop_agrees_def)
next
  case (4 C vs pol)
  show ?case
  proof (rule loop_agrees_visit)
    assume "Suc observed \<le> ec_node_limit C"
    from loop_finish [OF 4 [OF this, of m "Finish INTERSECTION pol (length vs) None # tasks" results]]
    show "loop_agrees C (observed + nodes (OwlObjectIntersectionOf vs)) (convert_value C (OwlObjectIntersectionOf vs) pol m)
        (\<lambda>h m. convert_tasks C tasks (h # results) (observed + nodes (OwlObjectIntersectionOf vs)) m)
        (cbind (visit C (OwlObjectIntersectionOf vs) pol m) (\<lambda>(r, m). case r of
          Inl handle \<Rightarrow> convert_tasks C tasks (handle # results) (Suc observed) m
        | Inr new \<Rightarrow> convert_tasks C (new @ tasks) results (Suc observed) m))"
      by (simp add: visit_def)
  qed simp
next
  case (5 C vs pol)
  show ?case
  proof (rule loop_agrees_visit)
    assume "Suc observed \<le> ec_node_limit C"
    from loop_finish [OF 5 [OF this, of m "Finish UNION pol (length vs) None # tasks" results]]
    show "loop_agrees C (observed + nodes (OwlObjectUnionOf vs)) (convert_value C (OwlObjectUnionOf vs) pol m)
        (\<lambda>h m. convert_tasks C tasks (h # results) (observed + nodes (OwlObjectUnionOf vs)) m)
        (cbind (visit C (OwlObjectUnionOf vs) pol m) (\<lambda>(r, m). case r of
          Inl handle \<Rightarrow> convert_tasks C tasks (handle # results) (Suc observed) m
        | Inr new \<Rightarrow> convert_tasks C (new @ tasks) results (Suc observed) m))"
      by (simp add: visit_def)
  qed simp
next
  case (6 C v pol)
  show ?case
    by (rule loop_agrees_visit) (use loop_finish_one [OF 6 [of "Suc observed" m "Finish COMPLEMENT pol 1 None # tasks" results, unfolded One_nat_def [symmetric]]] in \<open>simp_all add: visit_def\<close>)
next
  case (7 C vs pol)
  let ?c = "only_when (vs \<noteq> []) (count_feature ''OBJECT_ONE_OF'' 1)"
  have start: "visit C (OwlObjectOneOf vs) pol = sbind ?c (\<lambda>_. give (Inr (map (\<lambda>v. Visit v pol) vs @ [Finish ONE_OF pol (length vs) None])))"
    by (simp add: visit_def)
  show ?case unfolding convert_value.simps
    by (rule loop_before [where f = "\<lambda>_. sbind (convert_values C vs pol) (finish_operation ONE_OF pol None)", OF start]) (use loop_finish [OF 7 [of "Suc observed"]] in simp_all)
next
  case (8 C p v pol)
  have start: "visit C (OwlObjectSomeValuesFrom p v) pol = sbind (convert_object_property p pol) (\<lambda>r. give (Inr [Visit v pol, Finish SOME_VALUES pol 1 (Some r)]))"
    by (simp add: visit_def)
  show ?case unfolding convert_value.simps
    by (rule loop_before [where f = "\<lambda>r. sbind (convert_value C v pol) (\<lambda>h. finish_operation SOME_VALUES pol (Some r) [h])", OF start]) (use loop_finish_one [OF 8 [of "Suc observed"]] in simp_all)
next
  case (9 C p v pol)
  have start: "visit C (OwlObjectHasValue p v) pol = sbind (convert_object_property p pol) (\<lambda>r. give (Inr [Visit v pol, Finish SOME_VALUES pol 1 (Some r)]))"
    by (simp add: visit_def)
  show ?case unfolding convert_value.simps
    by (rule loop_before [where f = "\<lambda>r. sbind (convert_value C v pol) (\<lambda>h. finish_operation SOME_VALUES pol (Some r) [h])", OF start]) (use loop_finish_one [OF 9 [of "Suc observed"]] in simp_all)
next
  case (10 C p pol)
  show ?case using loop_leaf [of C "OwlObjectHasSelf p" pol "convert_has_self p pol"] by (simp add: visit_def)
next
  case (11 C p l pol)
  show ?case using loop_leaf [of C "OwlDataHasValue p l" pol "convert_data_has_value C p l pol"] by (simp add: visit_def)
next
  case (12 C name pol)
  show ?case by (rule loop_agrees_visit) (auto simp: visit_def loop_agrees_def split: option.splits)
next
  case (13 C pol)
  then show ?case by (simp add: loop_agrees_def)
next
  case (14 C v vs pol)
  have "loop_agrees C (observed + sum_list (map nodes (v # vs))) (sbind (convert_values C vs pol) (\<lambda>hs. give (h # hs)) m')
      (\<lambda>hs m. convert_tasks C tasks (rev hs @ results) (observed + sum_list (map nodes (v # vs))) m)
      (convert_tasks C (map (\<lambda>v. Visit v pol) vs @ tasks) (h # results) (observed + nodes v) m')"
    if "observed + nodes v \<le> ec_node_limit C" for h m'
    by (rule loop_agrees_seq [where c = "convert_values C vs pol" and f = "\<lambda>hs. give (h # hs)", OF 14(2) [OF that, of m' tasks "h # results"]])
      (auto intro: loop_agrees_exact simp: add.assoc)
  from loop_agrees_seq [where c = "convert_value C v pol", OF 14(1) [of observed m "map (\<lambda>v. Visit v pol) vs @ tasks" results] _ this]
  show ?case by simp
qed

text \<open>Within the limit the loop is the recursion; beyond it the loop fails.\<close>

lemma convert_expression_recursion:
  "if nodes v \<le> ec_node_limit C then convert_expression C v pol m = convert_value C v pol m
   else (\<exists>x. convert_expression C v pol m = Inl x \<and> (x = Raised ValueError \<or> convert_value C v pol m = Inl x))"
proof -
  have "loop_agrees C (nodes v) (convert_value C v pol m) (\<lambda>h m. Inr ([h], m)) (convert_tasks C [Visit v pol] [] 0 m)"
    using loop_reference(1) [of C 0 v pol m "[]" "[]"] by simp
  moreover have "cbind (cbind r (\<lambda>(a, m). Inr ([a], m))) (\<lambda>(results, m). (if length results \<noteq> 1 then fail (Raised PyAssertionError) else compute (list_at results 0)) m) = r"
    for r :: "(nat \<times> mutable_index) conversion"
    by (cases r) (auto simp: compute_def lift_def list_at_def)
  ultimately show ?thesis
    by (auto simp: loop_agrees_def convert_expression_def sbind_def split: if_splits)
qed

end
