(* ===== verification/Conversion_Trees.thy ===== *)
theory Conversion_Trees
  imports Conversion_Loop
begin

text \<open>
  What the converter of \<open>src/pyelk/indexing/conversion.py\<close> leaves in the index for a class expression: a
  handle of the expression tree the OWL value stands for, and no axiom.
\<close>

section \<open>How a conversion ends\<close>

definition feature_name :: "string \<Rightarrow> bool" where
  "feature_name f \<longleftrightarrow> f \<in> set (ONTOLOGY_FEATURE_NAMES @ QUERY_FEATURE_NAMES)"

lemma table_feature_names:
  "dict_get UNSUPPORTED_EXPRESSION_FEATURE name = Some f \<Longrightarrow> feature_name f"
  "dict_get UNSUPPORTED_AXIOM_FEATURE name = Some f \<Longrightarrow> feature_name f"
  "dict_get UNSUPPORTED_QUERY_FEATURE name = Some f \<Longrightarrow> feature_name f"
proof -
  have "list_all (\<lambda>(k, f). f \<in> set (ONTOLOGY_FEATURE_NAMES @ QUERY_FEATURE_NAMES)) UNSUPPORTED_EXPRESSION_FEATURE"
    "list_all (\<lambda>(k, f). f \<in> set (ONTOLOGY_FEATURE_NAMES @ QUERY_FEATURE_NAMES)) UNSUPPORTED_AXIOM_FEATURE"
    "list_all (\<lambda>(k, f). f \<in> set (ONTOLOGY_FEATURE_NAMES @ QUERY_FEATURE_NAMES)) UNSUPPORTED_QUERY_FEATURE"
    by code_simp+
  then show "dict_get UNSUPPORTED_EXPRESSION_FEATURE name = Some f \<Longrightarrow> feature_name f"
    "dict_get UNSUPPORTED_AXIOM_FEATURE name = Some f \<Longrightarrow> feature_name f"
    "dict_get UNSUPPORTED_QUERY_FEATURE name = Some f \<Longrightarrow> feature_name f"
    by (auto simp: feature_name_def list_all_iff dest!: map_of_SomeD)
qed

lemma named_features [simp]:
  "feature_name ''ANONYMOUS_INDIVIDUAL''" "feature_name ''OBJECT_INVERSE_OF''" "feature_name ''DATA_PROPERTY''"
  "feature_name ''DATATYPE''" "feature_name ''QUERY_SWRL_RULE''"
  by (simp_all add: feature_name_def ONTOLOGY_FEATURE_NAMES_def QUERY_FEATURE_NAMES_def)

text \<open>An unsupported construct, with a feature of the table, is met only when something is unsupported, and any exception other than an
  overflow only when something is malformed.\<close>

definition conv_ends :: "bool \<Rightarrow> bool \<Rightarrow> ('a \<Rightarrow> bool) \<Rightarrow> 'a conversion \<Rightarrow> bool" where
  "conv_ends s k P r = (case r of
     Inl (Unsupported f) \<Rightarrow> \<not> s \<and> feature_name f | Inl (Raised x) \<Rightarrow> k \<longrightarrow> x = OverflowError | Inr a \<Rightarrow> P a)"

lemma conv_ends_simps [simp]:
  "conv_ends s k P (Inr a) = P a" "conv_ends s k P (Inl (Unsupported f)) = (\<not> s \<and> feature_name f)"
  "conv_ends s k P (Inl (Raised x)) = (k \<longrightarrow> x = OverflowError)"
  by (simp_all add: conv_ends_def)

lemma conv_ends_bind:
  "conv_ends s k P r \<Longrightarrow> (\<And>a. P a \<Longrightarrow> conv_ends s k Q (f a)) \<Longrightarrow> conv_ends s k Q (cbind r f)"
  by (cases r) (auto simp: conv_ends_def cbind_def)

lemma conv_ends_mono:
  "conv_ends s k P r \<Longrightarrow> (s' \<Longrightarrow> s) \<Longrightarrow> (k' \<Longrightarrow> k) \<Longrightarrow> (\<And>a. P a \<Longrightarrow> Q a) \<Longrightarrow> conv_ends s' k' Q r"
  by (auto simp: conv_ends_def split: sum.splits conversion_error.splits)

lemma conv_ends_lift: "ends P r \<Longrightarrow> conv_ends s k P (lift r)"
  by (cases r) (simp_all add: lift_def)

text \<open>Steps, with a property of the value and the index they leave.\<close>

definition step_ends :: "bool \<Rightarrow> bool \<Rightarrow> ('a \<Rightarrow> mutable_index \<Rightarrow> bool) \<Rightarrow> 'a step \<Rightarrow> mutable_index \<Rightarrow> bool" where
  "step_ends s k P c m = conv_ends s k (\<lambda>(a, m'). P a m') (c m)"

lemma step_ends_bind:
  assumes "step_ends s k P c m" and "\<And>a m'. P a m' \<Longrightarrow> step_ends s k Q (f a) m'"
  shows "step_ends s k Q (sbind c f) m"
  unfolding step_ends_def sbind_def
  by (rule conv_ends_bind [OF assms(1) [unfolded step_ends_def]]) (use assms(2) in \<open>auto simp: step_ends_def\<close>)

lemma step_ends_mono:
  assumes "step_ends s k P c m" and "s' \<Longrightarrow> s" and "k' \<Longrightarrow> k" and "\<And>a m'. P a m' \<Longrightarrow> Q a m'"
  shows "step_ends s' k' Q c m"
  using assms conv_ends_mono [of s k "\<lambda>(a, m'). P a m'" "c m"] unfolding step_ends_def by fastforce

lemma step_ends_give [simp]: "step_ends s k P (give a) m = P a m"
  by (simp add: step_ends_def)

lemma step_ends_pair [simp]: "step_ends s k P (\<lambda>m. Inr (a, m)) m = P a m"
  by (simp add: step_ends_def)

lemma step_ends_fail [simp]: "step_ends s k P (fail (Unsupported f)) m = (\<not> s \<and> feature_name f)" "step_ends s k P (fail (Raised x)) m = (k \<longrightarrow> x = OverflowError)"
  by (simp_all add: step_ends_def)

lemma step_ends_query: "ends (\<lambda>(a, m'). P a m') (f m) \<Longrightarrow> step_ends s k P (query_index f) m"
  unfolding step_ends_def query_index_def by (rule conv_ends_lift)

lemma step_ends_update: "ends (P ()) (f m) \<Longrightarrow> step_ends s k P (update_index f) m"
  by (cases "f m") (simp_all add: step_ends_def update_index_def lift_def)

lemma step_ends_compute:
  "step_ends s k P (compute r) m \<longleftrightarrow> (case r of Inl x \<Rightarrow> k \<longrightarrow> x = OverflowError | Inr a \<Rightarrow> P a m)"
  by (cases r) (simp_all add: step_ends_def compute_def lift_def)

lemma step_ends_only_when: "(b \<Longrightarrow> step_ends s k (\<lambda>_. P) c m) \<Longrightarrow> (\<not> b \<Longrightarrow> P m) \<Longrightarrow> step_ends s k (\<lambda>_. P) (only_when b c) m"
  by (simp add: only_when_def)

section \<open>What a step adds\<close>

definition gains :: "normal_axiom set \<Rightarrow> mutable_index \<Rightarrow> mutable_index \<Rightarrow> bool" where
  "gains A m m' \<longleftrightarrow> (\<exists>E. adds A E m m')"

lemma gains_ok: "gains A m m' \<Longrightarrow> index_ok m'" and gains_grows: "gains A m m' \<Longrightarrow> index_grows m m'"
  and gains_axioms: "gains A m m' \<Longrightarrow> index_axioms m' = A \<union> index_axioms m"
  by (auto simp: gains_def adds_def)

lemma gains_refl: "index_ok m \<Longrightarrow> gains {} m m"
  using counted_adds [OF _ counted_refl] by (auto simp: gains_def)

lemma gains_trans: "gains A m m' \<Longrightarrow> gains A' m' m'' \<Longrightarrow> gains (A \<union> A') m m''"
  unfolding gains_def using adds_trans by blast

lemma gains_nothing: "gains {} m m' \<Longrightarrow> gains A m' m'' \<Longrightarrow> gains A m m''" "gains A m m' \<Longrightarrow> gains {} m' m'' \<Longrightarrow> gains A m m''"
  using gains_trans [of "{}" m m' A m''] gains_trans [of A m m' "{}" m''] by simp_all

lemma gains_counted: "index_ok m \<Longrightarrow> counted m m' \<Longrightarrow> gains {} m m'"
  using counted_adds unfolding gains_def by blast

text \<open>A handle that stands for a tree.\<close>

definition stands :: "mutable_index \<Rightarrow> nat \<Rightarrow> expr_tree \<Rightarrow> bool" where
  "stands m h t \<longleftrightarrow> is_handle m h \<and> index_tree m h = t"

lemma stands_grows: "stands m h t \<Longrightarrow> index_grows m m' \<Longrightarrow> stands m' h t"
  using index_grows_handle index_grows_tree by (auto simp: stands_def)

lemma stands_gains: "stands m h t \<Longrightarrow> gains A m m' \<Longrightarrow> stands m' h t"
  using stands_grows gains_grows by blast

definition leaves :: "mutable_index \<Rightarrow> expr_tree \<Rightarrow> nat \<Rightarrow> mutable_index \<Rightarrow> bool" where
  "leaves m t h m' \<longleftrightarrow> gains {} m m' \<and> stands m' h t"

lemma feature_names: "length (ONTOLOGY_FEATURE_NAMES @ QUERY_FEATURE_NAMES) = FEATURE_VECTOR_LENGTH"
  by (simp add: ONTOLOGY_FEATURE_NAMES_def QUERY_FEATURE_NAMES_def FEATURE_VECTOR_LENGTH_def)

lemma feature_index_ok:
  assumes "name \<in> set (ONTOLOGY_FEATURE_NAMES @ QUERY_FEATURE_NAMES)"
  obtains i where "FEATURE_INDEX name = Inr i" and "i < FEATURE_VECTOR_LENGTH"
  using assms unfolding FEATURE_INDEX_def
  by (cases "find_index ((=) name) (ONTOLOGY_FEATURE_NAMES @ QUERY_FEATURE_NAMES)")
    (auto dest: find_index_Some simp: find_index_from_None feature_names simp del: length_append)

lemma count_feature_ends:
  assumes "index_ok m" and "name \<in> set (ONTOLOGY_FEATURE_NAMES @ QUERY_FEATURE_NAMES)"
  shows "step_ends s k (\<lambda>_. gains {} m) (count_feature name n) m"
proof -
  obtain i where i: "FEATURE_INDEX name = Inr i" "i < FEATURE_VECTOR_LENGTH" by (rule feature_index_ok [OF assms(2)])
  have "ends (gains {} m) (add_feature i n m)"
    by (rule ends_mono [OF add_feature_ends [OF i(2)]]) (rule gains_counted [OF assms(1)])
  then show ?thesis
    unfolding count_feature_def by (intro step_ends_bind [of s k "\<lambda>j m'. j = i \<and> m' = m"]) (auto simp: step_ends_compute i intro: step_ends_update)
qed

lemmas feature_name_defs = ONTOLOGY_FEATURE_NAMES_def QUERY_FEATURE_NAMES_def

text \<open>A counter is moved under a condition, and the value is returned.\<close>

lemma then_feature_ends:
  assumes "leaves m0 t h m" and "name \<in> set (ONTOLOGY_FEATURE_NAMES @ QUERY_FEATURE_NAMES)"
  shows "step_ends s k (leaves m0 t) (sbind (only_when b (count_feature name n)) (\<lambda>_. give h)) m"
proof (rule step_ends_bind [of s k "\<lambda>_. gains {} m"])
  have "index_ok m" using assms(1) by (auto simp: leaves_def dest: gains_ok)
  then show "step_ends s k (\<lambda>_. gains {} m) (only_when b (count_feature name n)) m"
    by (intro step_ends_only_when) (auto intro: count_feature_ends assms(2) gains_refl)
  fix u :: unit and m' assume "gains {} m m'"
  with assms(1) show "step_ends s k (leaves m0 t) (give h) m'"
    by (auto simp: leaves_def intro: gains_nothing stands_gains)
qed

section \<open>The trees of OWL values\<close>

definition named_tree :: "expression_tag \<Rightarrow> entity_kind \<Rightarrow> py_str \<Rightarrow> expr_tree" where
  "named_tree t k i = Tree t [\<lparr>kind = k, iri = i\<rparr>] [] []"

definition and_tree :: "expr_tree \<Rightarrow> expr_tree \<Rightarrow> expr_tree" where
  "and_tree a b = Tree OBJECT_INTERSECTION_OF [] [a, b] []"

definition thing_tree :: expr_tree where
  "thing_tree = named_tree TAG_CLASS CLASS OWL_THING_IRI"

definition nothing_tree :: expr_tree where
  "nothing_tree = named_tree TAG_CLASS CLASS OWL_NOTHING_IRI"

fun conjunction_tree :: "expr_tree list \<Rightarrow> expr_tree" where
  "conjunction_tree [] = thing_tree"
| "conjunction_tree (t # ts) = foldl and_tree t ts"

definition union_tree :: "expr_tree list \<Rightarrow> expr_tree" where
  "union_tree ts = (case ts of [] \<Rightarrow> nothing_tree | [t] \<Rightarrow> t | _ \<Rightarrow> Tree OBJECT_UNION_OF [] ts [])"

definition some_tree :: "entity_record \<Rightarrow> expr_tree \<Rightarrow> expr_tree" where
  "some_tree p t = Tree OBJECT_SOME_VALUES_FROM [p] [t] []"

definition property_entity :: "owl_property \<Rightarrow> entity_record" where
  "property_entity p = \<lparr>kind = OBJECT_PROPERTY, iri = (case p of OwlObjectProperty i \<Rightarrow> i | _ \<Rightarrow> [])\<rparr>"

definition self_tree :: "entity_record \<Rightarrow> expr_tree" where
  "self_tree p = Tree OBJECT_HAS_SELF [p] [] []"

definition data_tree :: "expression_converter \<Rightarrow> py_str \<Rightarrow> owl_literal \<Rightarrow> expr_tree" where
  "data_tree C p l = Tree DATA_HAS_VALUE [\<lparr>kind = DATA_PROPERTY, iri = p\<rparr>] []
     (case ec_literal_key C l of Inl _ \<Rightarrow> [] | Inr key \<Rightarrow> ck_payload key)"

fun value_tree :: "expression_converter \<Rightarrow> owl_value \<Rightarrow> expr_tree" where
  "value_tree C (OwlClass i) = named_tree TAG_CLASS CLASS i"
| "value_tree C (OwlNamedIndividual i) = named_tree TAG_INDIVIDUAL NAMED_INDIVIDUAL i"
| "value_tree C (OwlObjectIntersectionOf vs) = conjunction_tree (map (value_tree C) vs)"
| "value_tree C (OwlObjectUnionOf vs) = union_tree (map (value_tree C) vs)"
| "value_tree C (OwlObjectComplementOf v) = Tree OBJECT_COMPLEMENT_OF [] [value_tree C v] []"
| "value_tree C (OwlObjectOneOf vs) = union_tree (map (value_tree C) vs)"
| "value_tree C (OwlObjectSomeValuesFrom p v) = some_tree (property_entity p) (value_tree C v)"
| "value_tree C (OwlObjectHasValue p v) = some_tree (property_entity p) (value_tree C v)"
| "value_tree C (OwlObjectHasSelf p) = self_tree (property_entity p)"
| "value_tree C (OwlDataHasValue p l) = data_tree C p l"
| "value_tree C OwlAnonymousIndividual = nothing_tree"
| "value_tree C (OwlOtherExpression name) = nothing_tree"

definition name_ok :: "entity_kind \<Rightarrow> py_str \<Rightarrow> bool" where
  "name_ok k i \<longleftrightarrow> entity_record_check \<lparr>kind = k, iri = i\<rparr> = Inr ()"

fun property_supported :: "owl_property \<Rightarrow> bool" where
  "property_supported (OwlObjectInverseOf _) = False"
| "property_supported _ = True"

fun property_ok :: "owl_property \<Rightarrow> bool" where
  "property_ok (OwlObjectProperty i) = name_ok OBJECT_PROPERTY i"
| "property_ok (OwlObjectInverseOf _) = True"
| "property_ok (OwlObjectPropertyChain _) = False"

fun value_supported :: "owl_value \<Rightarrow> bool" where
  "value_supported OwlAnonymousIndividual = False"
| "value_supported (OwlObjectIntersectionOf vs) = list_all value_supported vs"
| "value_supported (OwlObjectUnionOf vs) = list_all value_supported vs"
| "value_supported (OwlObjectComplementOf v) = value_supported v"
| "value_supported (OwlObjectOneOf vs) = list_all value_supported vs"
| "value_supported (OwlObjectSomeValuesFrom p v) = (property_supported p \<and> value_supported v)"
| "value_supported (OwlObjectHasValue p v) = (property_supported p \<and> value_supported v)"
| "value_supported (OwlObjectHasSelf p) = property_supported p"
| "value_supported (OwlOtherExpression name) = (dict_get UNSUPPORTED_EXPRESSION_FEATURE name = None)"
| "value_supported _ = True"

fun value_ok :: "expression_converter \<Rightarrow> owl_value \<Rightarrow> bool" where
  "value_ok C (OwlClass i) = name_ok CLASS i"
| "value_ok C (OwlNamedIndividual i) = name_ok NAMED_INDIVIDUAL i"
| "value_ok C OwlAnonymousIndividual = True"
| "value_ok C (OwlObjectIntersectionOf vs) = list_all (value_ok C) vs"
| "value_ok C (OwlObjectUnionOf vs) = list_all (value_ok C) vs"
| "value_ok C (OwlObjectComplementOf v) = value_ok C v"
| "value_ok C (OwlObjectOneOf vs) = list_all (value_ok C) vs"
| "value_ok C (OwlObjectSomeValuesFrom p v) = (property_ok p \<and> value_ok C v)"
| "value_ok C (OwlObjectHasValue p v) = (property_ok p \<and> value_ok C v)"
| "value_ok C (OwlObjectHasSelf p) = property_ok p"
| "value_ok C (OwlDataHasValue p l) = (name_ok DATA_PROPERTY p \<and> (\<exists>key. ec_literal_key C l = Inr key))"
| "value_ok C (OwlOtherExpression name) = (dict_get UNSUPPORTED_EXPRESSION_FEATURE name \<noteq> None)"

text \<open>What the literal keys guarantee: \<open>ElkCompatibilityKey\<close> refuses empty fields.\<close>

definition keys_nonempty :: "expression_converter \<Rightarrow> bool" where
  "keys_nonempty C \<longleftrightarrow> (\<forall>l key. ec_literal_key C l = Inr key \<longrightarrow> ck_payload key \<noteq> [] \<and> ck_observation key \<noteq> [])"

section \<open>The steps of the converter\<close>

lemma leaves_ok: "leaves m t h m' \<Longrightarrow> index_ok m'" and leaves_stands: "leaves m t h m' \<Longrightarrow> stands m' h t"
  and leaves_gains: "leaves m t h m' \<Longrightarrow> gains {} m m'"
  by (auto simp: leaves_def dest: gains_ok)

lemma leaves_after: "gains {} m m' \<Longrightarrow> leaves m' t h m'' \<Longrightarrow> leaves m t h m''"
  by (auto simp: leaves_def intro: gains_nothing)

lemma step_leaves_after:
  "gains {} m m' \<Longrightarrow> step_ends s k (leaves m' t) c m' \<Longrightarrow> step_ends s k (leaves m t) c m'"
  by (erule step_ends_mono) (auto intro: leaves_after)

lemma stands_list_gains: "list_all2 (stands m) hs ts \<Longrightarrow> gains A m m' \<Longrightarrow> list_all2 (stands m') hs ts"
  by (erule list_all2_mono) (auto intro: stands_gains)

lemma intern_step_ends:
  assumes ok: "index_ok m" and es: "\<forall>e \<in> set es. entity_record_check e = Inr ()" and shape: "shape_ok (the_key t es hs bs)"
    and hs: "list_all2 (stands m) hs ts"
  shows "step_ends s k (leaves m (Tree t es ts bs)) (intern_step t es hs bs pol) m"
proof -
  have keys: "keys_ok m" using ok by (simp add: index_ok_def)
  have handles: "\<forall>h \<in> set hs. is_handle m h" using hs by (auto simp: list_all2_conv_all_nth stands_def in_set_conv_nth)
  have ts: "map (index_tree m) hs = ts" using hs by (auto simp: list_all2_conv_all_nth stands_def intro: nth_equalityI)
  have "ends (\<lambda>(h, m'). leaves m (Tree t es ts bs) h m') (intern_expression t es hs bs pol m)"
  proof (rule ends_mono [OF intern_ends [OF keys es shape handles]])
    fix r assume r: "interned m (Tree t es (map (index_tree m) hs) bs) r"
    then show "case r of (h, m') \<Rightarrow> leaves m (Tree t es ts bs) h m'"
      using interned_adds [OF ok r] unfolding ts by (auto simp: leaves_def gains_def stands_def interned_def)
  qed
  then show ?thesis unfolding intern_step_def by (rule step_ends_query)
qed

lemma new_entity_ends:
  assumes "k \<Longrightarrow> name_ok kd i"
  shows "step_ends s k (\<lambda>r m'. r = \<lparr>kind = kd, iri = i\<rparr> \<and> m' = m \<and> name_ok kd i) (compute (new_entity kd i)) m"
  using assms by (cases "entity_record_check \<lparr>kind = kd, iri = i\<rparr>") (auto simp: step_ends_compute new_entity_def name_ok_def Let_def)

lemma convert_class_ends:
  assumes ok: "index_ok m" and name: "k \<Longrightarrow> name_ok CLASS i"
  shows "step_ends s k (leaves m (named_tree TAG_CLASS CLASS i)) (convert_class i pol) m"
  unfolding convert_class_def
proof (rule step_ends_bind [OF new_entity_ends [OF name]])
  fix r m' assume "r = \<lparr>kind = CLASS, iri = i\<rparr> \<and> m' = m \<and> name_ok CLASS i"
  then show "step_ends s k (leaves m (named_tree TAG_CLASS CLASS i)) (sbind (intern_step TAG_CLASS [r] [] [] pol) (\<lambda>handle.
      sbind (only_when (i = OWL_NOTHING_IRI \<and> polarity_positive pol \<noteq> 0) (count_feature ''OWL_NOTHING_POSITIVE'' 1)) (\<lambda>_. give handle))) m'"
    by (intro step_ends_bind [of s k "leaves m (named_tree TAG_CLASS CLASS i)"])
      (auto intro!: then_feature_ends simp: feature_name_defs named_tree_def name_ok_def the_key_def shape_ok_def intro: intern_step_ends [OF ok])
qed

lemma convert_individual_ends:
  assumes ok: "index_ok m" and name: "k \<Longrightarrow> name_ok NAMED_INDIVIDUAL i"
  shows "step_ends s k (leaves m (named_tree TAG_INDIVIDUAL NAMED_INDIVIDUAL i)) (convert_individual i pol) m"
  unfolding convert_individual_def
  by (rule step_ends_bind [OF new_entity_ends [OF name]])
    (auto simp: named_tree_def name_ok_def the_key_def shape_ok_def intro: intern_step_ends [OF ok])

lemma record_object_property_ends:
  assumes "index_ok m" and "kind e = OBJECT_PROPERTY" and "entity_record_check e = Inr ()"
  shows "ends (gains {} m) (record_object_property e pol m)"
proof -
  have added: "gains {} m (add_entity e m)"
    using add_entity_ok [OF assms(1,3)] by (auto simp: gains_def adds_def intro!: exI [of _ "{e}"])
  have "ends (gains {} m) (add_property_occurrence e (polarity_negative pol) (polarity_positive pol) (add_entity e m))"
    by (rule ends_mono [OF add_property_occurrence_ends]) (rule gains_nothing(1) [OF added gains_counted [OF gains_ok [OF added]]])
  then show ?thesis using assms(2) by (simp add: record_object_property_def)
qed

definition property_left :: "owl_property \<Rightarrow> mutable_index \<Rightarrow> entity_record \<Rightarrow> mutable_index \<Rightarrow> bool" where
  "property_left p m r m' \<longleftrightarrow> r = property_entity p \<and> kind r = OBJECT_PROPERTY \<and> entity_record_check r = Inr () \<and> gains {} m m'"

lemma optional_feature_ends:
  "index_ok m \<Longrightarrow> f \<in> set (ONTOLOGY_FEATURE_NAMES @ QUERY_FEATURE_NAMES) \<Longrightarrow>
   step_ends s k (\<lambda>_. gains {} m) (only_when b (count_feature f n)) m"
  by (intro step_ends_only_when count_feature_ends gains_refl)

lemma convert_object_property_ends:
  assumes ok: "index_ok m" and p: "k \<Longrightarrow> property_ok p" and sup: "s \<Longrightarrow> property_supported p"
  shows "step_ends s k (property_left p m) (convert_object_property p pol) m"
proof (cases p)
  case (OwlObjectProperty i)
  let ?f = "''BOTTOM_OBJECT_PROPERTY_POSITIVE''" and ?g = "''TOP_OBJECT_PROPERTY_NEGATIVE''"
  have features: "step_ends s k (property_left p m) (sbind (only_when b (count_feature ?f 1)) (\<lambda>_. sbind (only_when b' (count_feature ?g 1)) (\<lambda>_. give r))) m'"
    if "property_left p m r m'" for b b' r m'
    using that by (intro step_ends_bind [OF optional_feature_ends])
      (auto simp: property_left_def feature_name_defs intro: gains_nothing dest: gains_ok)
  have recorded: "step_ends s k (\<lambda>_. property_left p m r) (update_index (record_object_property r pol)) m"
    if "r = \<lparr>kind = OBJECT_PROPERTY, iri = i\<rparr>" "name_ok OBJECT_PROPERTY i" for r
    by (rule step_ends_update, rule ends_mono [OF record_object_property_ends [OF ok]])
      (use that in \<open>auto simp: name_ok_def property_left_def property_entity_def OwlObjectProperty\<close>)
  have name: "k \<Longrightarrow> name_ok OBJECT_PROPERTY i" using p by (simp add: OwlObjectProperty)
  show ?thesis
    unfolding convert_object_property_def OwlObjectProperty owl_property.case
    by (rule step_ends_bind [OF new_entity_ends [OF name]], assumption, elim conjE, hypsubst)
      (rule step_ends_bind [OF recorded [OF refl]], assumption, unfold OwlObjectProperty [symmetric], rule features)
next
  case (OwlObjectInverseOf q)
  with sup show ?thesis by (auto simp: convert_object_property_def)
next
  case (OwlObjectPropertyChain ps)
  with p show ?thesis by (auto simp: convert_object_property_def)
qed


section \<open>Finishing an expression\<close>

lemma intersect_rest_ends:
  assumes "leaves m0 t h m" and "list_all2 (stands m) hs ts"
  shows "step_ends s k (leaves m0 (foldl and_tree t ts)) (intersect_rest pol h hs) m"
  using assms
proof (induction hs arbitrary: t h m ts)
  case Nil
  then show ?case by simp
next
  case (Cons c hs)
  then obtain u us where ts: "ts = u # us" "stands m c u" "list_all2 (stands m) hs us" by (cases ts) auto
  have "step_ends s k (leaves m (and_tree t u)) (intern_step OBJECT_INTERSECTION_OF [] [h, c] [] pol) m"
    unfolding and_tree_def by (rule intern_step_ends) (use Cons.prems ts in \<open>auto simp: leaves_ok leaves_stands the_key_def shape_ok_def\<close>)
  moreover have "step_ends s k (leaves m0 (foldl and_tree (and_tree t u) us)) (intersect_rest pol d hs) m'" if d: "leaves m (and_tree t u) d m'" for d m'
    by (rule Cons.IH [OF leaves_after [OF leaves_gains [OF Cons.prems(1)] d] stands_list_gains [OF ts(3) leaves_gains [OF d]]])
  ultimately show ?case by (auto simp: ts(1) intro: step_ends_bind)
qed

lemma finish_union_ends:
  assumes ok: "index_ok m" and hs: "list_all2 (stands m) hs ts"
  shows "step_ends s k (leaves m (union_tree ts)) (finish_union pol hs) m"
proof (cases hs)
  case Nil
  have "name_ok CLASS OWL_NOTHING_IRI" by code_simp
  with convert_class_ends [OF ok] hs show ?thesis by (simp add: finish_union_def union_tree_def nothing_tree_def Nil)
next
  case (Cons a as)
  show ?thesis
  proof (cases as)
    case Nil
    with hs Cons ok show ?thesis by (auto simp: finish_union_def union_tree_def list_all2_Cons1 leaves_def gains_refl)
  next
    case (Cons b bs)
    obtain t u us where ts: "ts = t # u # us" using hs \<open>hs = a # as\<close> Cons by (auto simp: list_all2_Cons1)
    have "step_ends s k (leaves m (union_tree ts)) (intern_step OBJECT_UNION_OF [] hs [] pol) m"
      unfolding union_tree_def ts list.case
      by (rule intern_step_ends [OF ok]) (use hs \<open>hs = a # as\<close> Cons ts in \<open>auto simp: the_key_def shape_ok_def\<close>)
    then show ?thesis
      unfolding finish_union_def \<open>hs = a # as\<close> Cons list.case
      by (rule step_ends_bind) (auto intro!: then_feature_ends simp: feature_name_defs)
  qed
qed

definition operation_tree :: "operation \<Rightarrow> entity_record option \<Rightarrow> expr_tree list \<Rightarrow> expr_tree" where
  "operation_tree op p ts = (case op of
     INTERSECTION \<Rightarrow> conjunction_tree ts
   | UNION \<Rightarrow> union_tree ts
   | ONE_OF \<Rightarrow> union_tree ts
   | COMPLEMENT \<Rightarrow> Tree OBJECT_COMPLEMENT_OF [] [hd ts] []
   | SOME_VALUES \<Rightarrow> some_tree (the p) (hd ts))"

lemma finish_operation_ends:
  assumes ok: "index_ok m" and hs: "list_all2 (stands m) hs ts"
    and single: "op = COMPLEMENT \<or> op = SOME_VALUES \<Longrightarrow> length hs = 1"
    and p: "op = SOME_VALUES \<Longrightarrow> \<exists>r. p = Some r \<and> kind r = OBJECT_PROPERTY \<and> entity_record_check r = Inr ()"
  shows "step_ends s k (leaves m (operation_tree op p ts)) (finish_operation op pol p hs) m"
proof (cases op)
  case INTERSECTION
  show ?thesis
  proof (cases hs)
    case Nil
    have "name_ok CLASS OWL_THING_IRI" by code_simp
    with convert_class_ends [OF ok] hs show ?thesis by (simp add: finish_operation_def operation_tree_def thing_tree_def Nil INTERSECTION)
  next
    case (Cons a as)
    with hs obtain t us where "ts = t # us" "stands m a t" "list_all2 (stands m) as us" by (auto simp: list_all2_Cons1)
    with intersect_rest_ends [of m t a m] show ?thesis
      by (simp add: finish_operation_def operation_tree_def INTERSECTION Cons leaves_def gains_refl ok)
  qed
next
  case COMPLEMENT
  then obtain h t where one: "hs = [h]" "ts = [t]" using single hs by (auto simp: length_Suc_conv list_all2_Cons1)
  have "step_ends s k (leaves m (operation_tree op p ts)) (intern_step OBJECT_COMPLEMENT_OF [] [h] [] pol) m"
    unfolding operation_tree_def COMPLEMENT operation.case one list.sel
    by (rule intern_step_ends [OF ok]) (use hs one in \<open>auto simp: the_key_def shape_ok_def\<close>)
  moreover have "step_ends s k (leaves m t') (sbind (only_when b (count_feature ''OBJECT_COMPLEMENT_OF_NEGATIVE'' 1)) (\<lambda>_.
      sbind (only_when b' (count_feature ''OBJECT_COMPLEMENT_OF_POSITIVE'' 1)) (\<lambda>_. give h'))) m'" if h': "leaves m t' h' m'" for b b' t' h' m'
  proof (rule step_ends_bind [OF optional_feature_ends [OF leaves_ok [OF h']]])
    fix u m'' assume "gains {} m' m''"
    with h' have "leaves m t' h' m''" by (auto simp: leaves_def intro: gains_nothing stands_gains)
    then show "step_ends s k (leaves m t') (sbind (only_when b' (count_feature ''OBJECT_COMPLEMENT_OF_POSITIVE'' 1)) (\<lambda>_. give h')) m''"
      by (rule then_feature_ends) (simp add: feature_name_defs)
  qed (simp add: feature_name_defs)
  ultimately show ?thesis
    unfolding finish_operation_def COMPLEMENT operation.case one child_at_def
    by (intro step_ends_bind [of s k "\<lambda>c m'. c = h \<and> m' = m" "compute (list_at [h] 0)"]) (auto simp: step_ends_compute list_at_def intro: step_ends_bind)
next
  case SOME_VALUES
  then obtain h t r where one: "hs = [h]" "ts = [t]" and r: "p = Some r" "kind r = OBJECT_PROPERTY" "entity_record_check r = Inr ()"
    using single p hs by (auto simp: length_Suc_conv list_all2_Cons1)
  have first: "step_ends s k (leaves m (some_tree r t)) (intern_step OBJECT_SOME_VALUES_FROM [r] [h] [] pol) m"
    unfolding some_tree_def by (rule intern_step_ends [OF ok]) (use hs one r in \<open>auto simp: the_key_def shape_ok_def\<close>)
  have checked: "step_ends s k (\<lambda>_ m''. m'' = m') (if b then query_index (\<lambda>m. rmap (\<lambda>t. (t = TAG_INDIVIDUAL, m)) (index_expression_tag m h)) else give False) m'"
    if "is_handle m' h" for b m'
    using that by (auto simp: step_ends_def query_index_def lift_def index_expression_tag_def list_at_def is_handle_def)
  have rest: "step_ends s k (leaves m (some_tree r t)) (sbind (if b then query_index (\<lambda>m. rmap (\<lambda>t. (t = TAG_INDIVIDUAL, m)) (index_expression_tag m h)) else give False) (\<lambda>has_value.
      sbind (only_when has_value (count_feature ''OBJECT_HAS_VALUE_POSITIVE'' 1)) (\<lambda>_. give h'))) m'" if h': "leaves m (some_tree r t) h' m'" for b h' m'
  proof (rule step_ends_bind [OF checked])
    show "is_handle m' h" using stands_gains [OF _ leaves_gains [OF h'], of h t] hs one by (simp add: stands_def)
  qed (use h' in \<open>auto intro!: then_feature_ends simp: feature_name_defs\<close>)
  show ?thesis
    unfolding finish_operation_def SOME_VALUES operation.case one child_at_def r(1) option.case operation_tree_def option.sel list.sel
    by (intro step_ends_bind [of s k "\<lambda>c m'. c = h \<and> m' = m" "compute (list_at [h] 0)"])
      (simp add: step_ends_compute list_at_def, elim conjE, hypsubst, rule step_ends_bind [OF first rest])
qed (use finish_union_ends [OF ok hs] in \<open>simp_all add: finish_operation_def operation_tree_def\<close>)

section \<open>Expressions\<close>

lemma convert_has_self_ends:
  assumes ok: "index_ok m" and p: "k \<Longrightarrow> property_ok p" and sup: "s \<Longrightarrow> property_supported p"
  shows "step_ends s k (leaves m (self_tree (property_entity p))) (convert_has_self p pol) m"
  unfolding convert_has_self_def
proof (rule step_ends_bind [OF convert_object_property_ends [OF assms]], assumption, assumption)
  fix r m' assume r: "property_left p m r m'"
  then have "step_ends s k (leaves m' (self_tree r)) (intern_step OBJECT_HAS_SELF [r] [] [] pol) m'"
    unfolding self_tree_def by (intro intern_step_ends) (auto simp: property_left_def the_key_def shape_ok_def dest: gains_ok)
  from step_leaves_after [OF _ this] r
  have "step_ends s k (leaves m (self_tree (property_entity p))) (intern_step OBJECT_HAS_SELF [r] [] [] pol) m'"
    by (simp add: property_left_def)
  then show "step_ends s k (leaves m (self_tree (property_entity p))) (sbind (intern_step OBJECT_HAS_SELF [r] [] [] pol) (\<lambda>handle.
      sbind (only_when (polarity_negative pol \<noteq> 0) (count_feature ''OBJECT_HAS_SELF_NEGATIVE'' 1)) (\<lambda>_. give handle))) m'"
    by (rule step_ends_bind) (auto intro!: then_feature_ends simp: feature_name_defs)
qed

lemma convert_data_has_value_ends:
  assumes ok: "index_ok m" and keys: "keys_nonempty C" and name: "k \<Longrightarrow> name_ok DATA_PROPERTY p"
    and key: "k \<Longrightarrow> \<exists>key. ec_literal_key C l = Inr key"
  shows "step_ends s k (leaves m (data_tree C p l)) (convert_data_has_value C p l pol) m"
  unfolding convert_data_has_value_def
proof (rule step_ends_bind [OF new_entity_ends [OF name]], assumption, elim conjE, hypsubst)
  let ?r = "\<lparr>kind = DATA_PROPERTY, iri = p\<rparr>"
  assume r: "name_ok DATA_PROPERTY p"
  have added: "gains {} m (add_entity ?r m)"
    using add_entity_ok [OF ok, of ?r] r by (auto simp: gains_def adds_def name_ok_def intro!: exI [of _ "{?r}"])
  let ?rest = "\<lambda>key. sbind (update_index (\<lambda>m. Inr (add_entity ?r m))) (\<lambda>_. sbind (count_feature ''DATA_HAS_VALUE'' 1) (\<lambda>_.
      sbind (update_index (observe_compatibility_spelling (ck_observation key))) (\<lambda>_. intern_step DATA_HAS_VALUE [?r] [] (ck_payload key) pol)))"
  have rest: "step_ends s k (leaves m (data_tree C p l)) (?rest key) m" if k: "ec_literal_key C l = Inr key" for key
  proof (rule step_ends_bind [of s k "\<lambda>_. gains {} m"], rule step_ends_update)
    show "ends (gains {} m) (Inr (add_entity ?r m))" using added by simp
    fix u m1 assume m1: "gains {} m m1"
    show "step_ends s k (leaves m (data_tree C p l)) (sbind (count_feature ''DATA_HAS_VALUE'' 1) (\<lambda>_.
        sbind (update_index (observe_compatibility_spelling (ck_observation key))) (\<lambda>_. intern_step DATA_HAS_VALUE [?r] [] (ck_payload key) pol))) m1"
    proof (rule step_ends_bind [OF count_feature_ends [OF gains_ok [OF m1]]])
      fix u m2 assume m2: "gains {} m1 m2"
      have bytes: "ck_payload key \<noteq> []" "ck_observation key \<noteq> []" using keys k by (auto simp: keys_nonempty_def)
      show "step_ends s k (leaves m (data_tree C p l)) (sbind (update_index (observe_compatibility_spelling (ck_observation key)))
          (\<lambda>_. intern_step DATA_HAS_VALUE [?r] [] (ck_payload key) pol)) m2"
      proof (rule step_ends_bind [of s k "\<lambda>_. gains {} m2"], rule step_ends_update)
        show "ends (gains {} m2) (observe_compatibility_spelling (ck_observation key) m2)"
          by (rule ends_mono [OF observe_ends [OF bytes(2)]]) (rule gains_counted [OF gains_ok [OF m2]])
        fix u m3 assume m3: "gains {} m2 m3"
        have "step_ends s k (leaves m3 (data_tree C p l)) (intern_step DATA_HAS_VALUE [?r] [] (ck_payload key) pol) m3"
          unfolding data_tree_def k sum.case
          by (rule intern_step_ends [OF gains_ok [OF m3]]) (use r bytes in \<open>auto simp: name_ok_def the_key_def shape_ok_def\<close>)
        then show "step_ends s k (leaves m (data_tree C p l)) (intern_step DATA_HAS_VALUE [?r] [] (ck_payload key) pol) m3"
          by (rule step_leaves_after [OF gains_nothing(1) [OF m1 gains_nothing(1) [OF m2 m3]]])
      qed
    qed (simp add: feature_name_defs)
  qed
  show "step_ends s k (leaves m (data_tree C p l)) (sbind (compute (ec_literal_key C l)) ?rest) m"
    by (rule step_ends_bind [of s k "\<lambda>key m'. ec_literal_key C l = Inr key \<and> m' = m"])
      (use key rest in \<open>auto simp: step_ends_compute split: sum.splits\<close>)
qed

definition all_left :: "mutable_index \<Rightarrow> expr_tree list \<Rightarrow> nat list \<Rightarrow> mutable_index \<Rightarrow> bool" where
  "all_left m ts hs m' \<longleftrightarrow> gains {} m m' \<and> list_all2 (stands m') hs ts"

lemma finish_all_ends:
  assumes "step_ends s k (all_left m' ts) c m'" and "gains {} m m'" and "op \<noteq> COMPLEMENT" "op \<noteq> SOME_VALUES"
  shows "step_ends s k (leaves m (operation_tree op p ts)) (sbind c (finish_operation op pol p)) m'"
proof (rule step_ends_bind [OF assms(1)])
  fix hs m'' assume hs: "all_left m' ts hs m''"
  then have after: "gains {} m m''" using gains_nothing(1) [OF assms(2)] by (simp add: all_left_def)
  from hs have "step_ends s k (leaves m'' (operation_tree op p ts)) (finish_operation op pol p hs) m''"
    by (intro finish_operation_ends) (use assms in \<open>auto simp: all_left_def dest: gains_ok\<close>)
  then show "step_ends s k (leaves m (operation_tree op p ts)) (finish_operation op pol p hs) m''"
    by (rule step_leaves_after [OF after])
qed

lemma finish_one_ends:
  assumes "step_ends s k (leaves m' t) c m'" and "gains {} m m'"
    and "op = SOME_VALUES \<Longrightarrow> \<exists>r. p = Some r \<and> kind r = OBJECT_PROPERTY \<and> entity_record_check r = Inr ()"
  shows "step_ends s k (leaves m (operation_tree op p [t])) (sbind c (\<lambda>h. finish_operation op pol p [h])) m'"
proof (rule step_ends_bind [OF assms(1)])
  fix h m'' assume h: "leaves m' t h m''"
  then have after: "gains {} m m''" using gains_nothing(1) [OF assms(2)] by (simp add: leaves_def)
  from h have "step_ends s k (leaves m'' (operation_tree op p [t])) (finish_operation op pol p [h]) m''"
    by (intro finish_operation_ends) (use assms in \<open>auto simp: leaves_stands dest: leaves_ok\<close>)
  then show "step_ends s k (leaves m (operation_tree op p [t])) (finish_operation op pol p [h]) m''"
    by (rule step_leaves_after [OF after])
qed

lemma convert_existential_ends:
  assumes ok: "index_ok m" and p: "k \<Longrightarrow> property_ok p" "s \<Longrightarrow> property_supported p"
    and v: "\<And>m. index_ok m \<Longrightarrow> step_ends s k (leaves m t) c m"
  shows "step_ends s k (leaves m (some_tree (property_entity p) t)) (sbind (convert_object_property p pol) (\<lambda>r. sbind c (\<lambda>h. finish_operation SOME_VALUES pol (Some r) [h]))) m"
proof (rule step_ends_bind [OF convert_object_property_ends [OF ok p]], assumption, assumption)
  fix r m' assume r: "property_left p m r m'"
  then have "step_ends s k (leaves m (operation_tree SOME_VALUES (Some r) [t])) (sbind c (\<lambda>h. finish_operation SOME_VALUES pol (Some r) [h])) m'"
    by (intro finish_one_ends v) (auto simp: property_left_def dest: gains_ok)
  with r show "step_ends s k (leaves m (some_tree (property_entity p) t)) (sbind c (\<lambda>h. finish_operation SOME_VALUES pol (Some r) [h])) m'"
    by (simp add: operation_tree_def property_left_def)
qed

lemma convert_value_ends:
  shows "keys_nonempty C \<Longrightarrow> index_ok m \<Longrightarrow> (k \<Longrightarrow> value_ok C v) \<Longrightarrow> (s \<Longrightarrow> value_supported v) \<Longrightarrow>
      step_ends s k (leaves m (value_tree C v)) (convert_value C v pol) m"
    and "keys_nonempty C \<Longrightarrow> index_ok m \<Longrightarrow> (k \<Longrightarrow> list_all (value_ok C) vs) \<Longrightarrow> (s \<Longrightarrow> list_all value_supported vs) \<Longrightarrow>
      step_ends s k (all_left m (map (value_tree C) vs)) (convert_values C vs pol) m"
proof (induction C v pol and C vs pol arbitrary: m and m rule: convert_value_convert_values.induct)
  case (1 C i pol)
  then show ?case by (auto intro: convert_class_ends)
next
  case (2 C i pol)
  then show ?case by (auto intro: convert_individual_ends)
next
  case (4 C vs pol)
  then show ?case using finish_all_ends [of s k m _ _ m INTERSECTION None] gains_refl by (simp add: operation_tree_def)
next
  case (5 C vs pol)
  then show ?case using finish_all_ends [of s k m _ _ m UNION None] gains_refl by (simp add: operation_tree_def)
next
  case (6 C v pol)
  then show ?case using finish_one_ends [of s k m _ _ m COMPLEMENT None] gains_refl by (simp add: operation_tree_def)
next
  case (7 C vs pol)
  show ?case
    unfolding convert_value.simps
  proof (rule step_ends_bind [OF optional_feature_ends [OF 7(3)]])
    fix u m' assume m': "gains {} m m'"
    have "step_ends s k (all_left m' (map (value_tree C) vs)) (convert_values C vs pol) m'"
      by (rule 7(1) [OF 7(2) gains_ok [OF m']]) (use 7(4,5) in simp_all)
    from finish_all_ends [OF this m', of ONE_OF None]
    show "step_ends s k (leaves m (value_tree C (OwlObjectOneOf vs))) (sbind (convert_values C vs pol) (finish_operation ONE_OF pol None)) m'"
      by (simp add: operation_tree_def)
  qed (simp add: feature_name_defs)
next
  case (8 C p v pol)
  show ?case unfolding convert_value.simps value_tree.simps
    by (rule convert_existential_ends [OF 8(3)]) (use 8 in simp_all)
next
  case (9 C p v pol)
  show ?case unfolding convert_value.simps value_tree.simps
    by (rule convert_existential_ends [OF 9(3)]) (use 9 in simp_all)
next
  case (10 C p pol)
  then show ?case by (auto intro: convert_has_self_ends)
next
  case (11 C p l pol)
  then show ?case by (auto intro: convert_data_has_value_ends)
next
  case (14 C v vs pol)
  show ?case
    unfolding convert_values.simps
  proof (rule step_ends_bind [OF 14(1) [OF 14(3,4)]])
    fix h m1 assume h: "leaves m (value_tree C v) h m1"
    show "step_ends s k (all_left m (map (value_tree C) (v # vs))) (sbind (convert_values C vs pol) (\<lambda>hs. give (h # hs))) m1"
    proof (rule step_ends_bind [OF 14(2) [OF 14(3) leaves_ok [OF h]]])
      fix hs m2 assume hs: "all_left m1 (map (value_tree C) vs) hs m2"
      have "gains {} m m2" by (rule gains_nothing(1) [OF leaves_gains [OF h]]) (use hs in \<open>simp add: all_left_def\<close>)
      moreover have "stands m2 h (value_tree C v)" by (rule stands_gains [OF leaves_stands [OF h], of "{}"]) (use hs in \<open>simp add: all_left_def\<close>)
      ultimately show "step_ends s k (all_left m (map (value_tree C) (v # vs))) (give (h # hs)) m2"
        using hs by (simp add: all_left_def)
    qed (use 14(5,6) in simp_all)
  qed (use 14(5,6) in simp_all)
next
  case (3 C pol)
  then show ?case by (auto simp: step_ends_def)
next
  case (12 C name pol)
  then show ?case by (auto simp: step_ends_def table_feature_names(1) split: option.splits)
qed (simp add: all_left_def gains_refl)

text \<open>The loop, with its limit.\<close>

definition expression_ok :: "expression_converter \<Rightarrow> owl_value \<Rightarrow> bool" where
  "expression_ok C v \<longleftrightarrow> value_ok C v \<and> nodes v \<le> ec_node_limit C"

lemma convert_expression_ends:
  assumes "keys_nonempty C" and "index_ok m" and "k \<Longrightarrow> expression_ok C v" and "s \<Longrightarrow> value_supported v"
  shows "step_ends s k (leaves m (value_tree C v)) (convert_expression C v pol) m"
proof -
  have "k \<Longrightarrow> value_ok C v" using assms(3) by (simp add: expression_ok_def)
  from convert_value_ends(1) [OF assms(1,2) this assms(4)]
  have "step_ends s k (leaves m (value_tree C v)) (convert_value C v pol) m" by simp
  moreover have "\<not> k" if "\<not> nodes v \<le> ec_node_limit C" using that assms(3) by (auto simp: expression_ok_def)
  ultimately show ?thesis
    using convert_expression_recursion [of v C pol m] unfolding step_ends_def by (auto split: if_splits)
qed

end
