(* ===== verification/Axiom_Trees.thy ===== *)
theory Axiom_Trees
  imports Axiom_Conversion Conversion_Trees
begin

text \<open>
  What the axiom converter of \<open>src/pyelk/indexing/conversion.py\<close> adds to the index: exactly the normal
  axioms of the OWL axiom, over the trees of its expressions.
\<close>

section \<open>The normal axioms of an OWL axiom\<close>

definition equivalence_axiom :: "expr_tree \<Rightarrow> expr_tree \<Rightarrow> normal_axiom" where
  "equivalence_axiom a b =
     (if tree_tag a \<noteq> TAG_CLASS \<and> tree_tag b = TAG_CLASS then EquivalentAxiom b a else EquivalentAxiom a b)"

fun exclusion_axioms :: "expr_tree list \<Rightarrow> normal_axiom set" where
  "exclusion_axioms [] = {}"
| "exclusion_axioms (t # ts) = (\<lambda>u. SubClassAxiom (and_tree t u) nothing_tree) ` set ts \<union> exclusion_axioms ts"

definition disjointness_axioms :: "expr_tree list \<Rightarrow> normal_axiom set" where
  "disjointness_axioms ts = (if 2 < length ts then {DisjointAxiom ts} else exclusion_axioms ts)"

definition chain_entities :: "owl_property \<Rightarrow> entity_record list" where
  "chain_entities p = (case p of OwlObjectPropertyChain ps \<Rightarrow> map property_entity ps | _ \<Rightarrow> [property_entity p])"

fun equivalence_axioms :: "expr_tree list \<Rightarrow> normal_axiom set" where
  "equivalence_axioms [] = {}"
| "equivalence_axioms (t # ts) = equivalence_axiom t ` set ts"

fun mutual_axioms :: "('a \<Rightarrow> 'a \<Rightarrow> normal_axiom) \<Rightarrow> 'a list \<Rightarrow> normal_axiom set" where
  "mutual_axioms f [] = {}"
| "mutual_axioms f (t # ts) = (\<Union>u \<in> set ts. {f t u, f u t})"

definition union_axioms :: "expr_tree \<Rightarrow> expr_tree list \<Rightarrow> normal_axiom set" where
  "union_axioms d ts = (case ts of
     [] \<Rightarrow> {EquivalentAxiom d nothing_tree}
   | [t] \<Rightarrow> {EquivalentAxiom d t}
   | _ \<Rightarrow> (\<lambda>t. SubClassAxiom t d) ` set ts)"

fun axiom_rows :: "expression_converter \<Rightarrow> owl_axiom \<Rightarrow> normal_axiom set" where
  "axiom_rows C (OwlSubClassOf v w) = {SubClassAxiom (value_tree C v) (value_tree C w)}"
| "axiom_rows C (OwlEquivalentClasses vs) = equivalence_axioms (map (value_tree C) vs)"
| "axiom_rows C (OwlDisjointClasses vs) = disjointness_axioms (map (value_tree C) vs)"
| "axiom_rows C (OwlDisjointUnion d vs) = disjointness_axioms (map (value_tree C) vs) \<union> union_axioms (value_tree C d) (map (value_tree C) vs)"
| "axiom_rows C (OwlClassAssertion i v) = {SubClassAxiom (value_tree C i) (value_tree C v)}"
| "axiom_rows C (OwlSameIndividual vs) = mutual_axioms SubClassAxiom (map (value_tree C) vs)"
| "axiom_rows C (OwlDifferentIndividuals vs) = disjointness_axioms (map (value_tree C) vs)"
| "axiom_rows C (OwlObjectPropertyAssertion p a b) = {SubClassAxiom (value_tree C a) (some_tree (property_entity p) (value_tree C b))}"
| "axiom_rows C (OwlEquivalentObjectProperties ps) = mutual_axioms (\<lambda>p q. SubPropertyAxiom [p] q) (map property_entity ps)"
| "axiom_rows C (OwlSubObjectPropertyOf sub super) = {SubPropertyAxiom (chain_entities sub) (property_entity super)}"
| "axiom_rows C (OwlObjectPropertyDomain p v) = {SubClassAxiom (some_tree (property_entity p) thing_tree) (value_tree C v)}"
| "axiom_rows C (OwlObjectPropertyRange p v) = {RangeAxiom (property_entity p) (value_tree C v)}"
| "axiom_rows C (OwlReflexiveObjectProperty p) = {SubClassAxiom thing_tree (self_tree (property_entity p))}"
| "axiom_rows C (OwlTransitiveObjectProperty p) = {SubPropertyAxiom [property_entity p, property_entity p] (property_entity p)}"
| "axiom_rows C _ = {}"

section \<open>Supported and well-formed axioms\<close>

fun chain_supported :: "owl_property \<Rightarrow> bool" where
  "chain_supported (OwlObjectPropertyChain ps) = list_all property_supported ps"
| "chain_supported p = property_supported p"

fun chain_ok :: "owl_property \<Rightarrow> bool" where
  "chain_ok (OwlObjectPropertyChain ps) = (list_all property_ok ps \<and> 2 \<le> length ps)"
| "chain_ok p = property_ok p"

fun parts_supported :: "owl_axiom \<Rightarrow> bool" where
  "parts_supported (OwlDeclaration (OwlEntity k i)) = (k \<noteq> DATA_PROPERTY \<and> k \<noteq> DATATYPE)"
| "parts_supported (OwlSubClassOf v w) = (value_supported v \<and> value_supported w)"
| "parts_supported (OwlEquivalentClasses vs) = list_all value_supported vs"
| "parts_supported (OwlDisjointClasses vs) = list_all value_supported vs"
| "parts_supported (OwlDisjointUnion d vs) = (value_supported d \<and> list_all value_supported vs)"
| "parts_supported (OwlClassAssertion i v) = (value_supported i \<and> value_supported v)"
| "parts_supported (OwlSameIndividual vs) = list_all value_supported vs"
| "parts_supported (OwlDifferentIndividuals vs) = list_all value_supported vs"
| "parts_supported (OwlObjectPropertyAssertion p a b) = (property_supported p \<and> value_supported a \<and> value_supported b)"
| "parts_supported (OwlEquivalentObjectProperties ps) = list_all property_supported ps"
| "parts_supported (OwlSubObjectPropertyOf sub super) = (chain_supported sub \<and> property_supported super)"
| "parts_supported (OwlObjectPropertyDomain p v) = (property_supported p \<and> value_supported v)"
| "parts_supported (OwlObjectPropertyRange p v) = (property_supported p \<and> value_supported v)"
| "parts_supported (OwlReflexiveObjectProperty p) = property_supported p"
| "parts_supported (OwlTransitiveObjectProperty p) = property_supported p"
| "parts_supported _ = True"

definition axiom_supported :: "owl_axiom \<Rightarrow> bool" where
  "axiom_supported ax \<longleftrightarrow> dict_get UNSUPPORTED_AXIOM_FEATURE (axiom_type ax) = None \<and> parts_supported ax"

fun axiom_ok :: "expression_converter \<Rightarrow> owl_axiom \<Rightarrow> bool" where
  "axiom_ok C (OwlDeclaration (OwlEntity k i)) = name_ok k i"
| "axiom_ok C (OwlSubClassOf v w) = (expression_ok C v \<and> expression_ok C w)"
| "axiom_ok C (OwlEquivalentClasses vs) = list_all (expression_ok C) vs"
| "axiom_ok C (OwlDisjointClasses vs) = list_all (expression_ok C) vs"
| "axiom_ok C (OwlDisjointUnion d vs) = (expression_ok C d \<and> list_all (expression_ok C) vs)"
| "axiom_ok C (OwlClassAssertion i v) = (expression_ok C i \<and> expression_ok C v)"
| "axiom_ok C (OwlSameIndividual vs) = list_all (expression_ok C) vs"
| "axiom_ok C (OwlDifferentIndividuals vs) = list_all (expression_ok C) vs"
| "axiom_ok C (OwlObjectPropertyAssertion p a b) = (property_ok p \<and> expression_ok C a \<and> expression_ok C b)"
| "axiom_ok C (OwlEquivalentObjectProperties ps) = list_all property_ok ps"
| "axiom_ok C (OwlSubObjectPropertyOf sub super) = (chain_ok sub \<and> property_ok super)"
| "axiom_ok C (OwlObjectPropertyDomain p v) = (property_ok p \<and> expression_ok C v)"
| "axiom_ok C (OwlObjectPropertyRange p v) = (property_ok p \<and> expression_ok C v)"
| "axiom_ok C (OwlReflexiveObjectProperty p) = property_ok p"
| "axiom_ok C (OwlTransitiveObjectProperty p) = property_ok p"
| "axiom_ok C (OwlAnnotationAxiom name) = True"
| "axiom_ok C (OwlOtherAxiom name) = (dict_get UNSUPPORTED_AXIOM_FEATURE name \<noteq> None)"

section \<open>Rows\<close>

text \<open>A step that adds some axioms to whatever index it starts from.\<close>

lemma subclass_row_ends:
  assumes "index_ok m" and "stands m a t" and "stands m b u"
  shows "step_ends s k (\<lambda>_. gains {SubClassAxiom t u} m) (subclass_row a b) m"
  unfolding subclass_row_def
  by (rule step_ends_update)
    (use add_subclass_ok [of m a b] assms in \<open>auto simp: gains_def adds_def stands_def intro!: exI [of _ "{}"]\<close>)

lemma equivalent_row_ends:
  assumes "index_ok m" and "stands m a t" and "stands m b u"
  shows "step_ends s k (\<lambda>_. gains {EquivalentAxiom t u} m) (equivalent_row a b) m"
  unfolding equivalent_row_def
  by (rule step_ends_update)
    (use add_equivalent_class_ok [of m a b] assms in \<open>auto simp: gains_def adds_def stands_def intro!: exI [of _ "{}"]\<close>)

lemma converter_tag_ends:
  assumes "keys_ok m" and "stands m h t"
  shows "step_ends s k (\<lambda>r m'. r = tree_tag t \<and> m' = m) (converter_tag h) m"
proof -
  have "index_tree m h = key_tree (trees (mi_expressions m)) (mi_expressions m ! h)"
    unfolding index_tree_def by (rule trees_nth) (use assms in \<open>auto simp: stands_def is_handle_def keys_ok_def keys_wf_def\<close>)
  then have "tree_tag (index_tree m h) = key_tag (mi_expressions m ! h)" by (simp add: key_tree_def)
  with assms show ?thesis
    by (auto simp: converter_tag_def step_ends_def query_index_def lift_def index_expression_tag_def list_at_def stands_def is_handle_def)
qed

lemma subproperty_ends:
  assumes "index_ok m" and "ps \<noteq> []" and "\<forall>p \<in> set (super # ps). kind p = OBJECT_PROPERTY \<and> entity_record_check p = Inr ()"
  shows "step_ends s k (\<lambda>_. gains {SubPropertyAxiom ps super} m) (update_index (add_subproperty ps super)) m"
  by (rule step_ends_update, rule ends_mono [OF add_subproperty_ends]) (use assms in \<open>auto simp: gains_def\<close>)

lemma step_gains_after:
  assumes "gains A m m'" and "step_ends s k (\<lambda>_. gains B m') c m'"
  shows "step_ends s k (\<lambda>_. gains (A \<union> B) m) c m'"
  by (rule step_ends_mono [OF assms(2)]) (auto intro: gains_trans [OF assms(1)])

lemma step_gains_bind:
  assumes "step_ends s k (\<lambda>_. gains A m) c m" and "\<And>a m'. gains A m m' \<Longrightarrow> step_ends s k (\<lambda>_. gains B m') (f a) m'"
  shows "step_ends s k (\<lambda>_. gains (A \<union> B) m) (sbind c f) m"
  by (rule step_ends_bind [OF assms(1)]) (rule step_gains_after [OF _ assms(2)])

text \<open>A step that leaves a handle, and then adds axioms.\<close>

lemma leaves_bind:
  assumes "step_ends s k (leaves m t) c m" and "\<And>h m'. leaves m t h m' \<Longrightarrow> step_ends s k (\<lambda>_. gains A m') (f h) m'"
  shows "step_ends s k (\<lambda>_. gains A m) (sbind c f) m"
  by (rule step_ends_bind [OF assms(1)]) (use step_gains_after [OF leaves_gains assms(2)] in auto)

lemma property_bind:
  assumes "index_ok m" and "k \<Longrightarrow> property_ok p" and "s \<Longrightarrow> property_supported p"
    and "\<And>m'. property_left p m (property_entity p) m' \<Longrightarrow> step_ends s k (\<lambda>_. gains A m') (f (property_entity p)) m'"
  shows "step_ends s k (\<lambda>_. gains A m) (sbind (convert_object_property p pol) f) m"
proof (rule step_ends_bind [OF convert_object_property_ends [OF assms(1-3)]], assumption, assumption)
  fix r m' assume r: "property_left p m r m'"
  then have eq: "r = property_entity p" and g: "gains {} m m'" by (simp_all add: property_left_def)
  show "step_ends s k (\<lambda>_. gains A m) (f r) m'"
    using step_gains_after [OF g assms(4)] r by (simp add: eq)
qed

lemma feature_bind:
  assumes "index_ok m" and "name \<in> set (ONTOLOGY_FEATURE_NAMES @ QUERY_FEATURE_NAMES)"
    and "\<And>m'. gains {} m m' \<Longrightarrow> step_ends s k (\<lambda>_. gains A m') c m'"
  shows "step_ends s k (\<lambda>_. gains A m) (sbind (count_feature name n) (\<lambda>_. c)) m"
  using step_gains_bind [OF count_feature_ends [OF assms(1,2)] assms(3)] by simp

lemma sfor_ends:
  assumes "index_ok m"
    and "\<And>x m' A. x \<in> set xs \<Longrightarrow> gains A m m' \<Longrightarrow> step_ends s k (\<lambda>_. gains (R x) m') (f x) m'"
  shows "step_ends s k (\<lambda>_. gains (\<Union>x \<in> set xs. R x) m) (sfor f xs) m"
  using assms
proof (induction xs arbitrary: m)
  case Nil
  then show ?case by (simp add: gains_refl)
next
  case (Cons x xs)
  have "step_ends s k (\<lambda>_. gains (R x \<union> (\<Union>x \<in> set xs. R x)) m) (sbind (f x) (\<lambda>_. sfor f xs)) m"
  proof (rule step_gains_bind [OF Cons.prems(2) [OF _ gains_refl [OF Cons.prems(1)]]])
    fix u m' assume m': "gains (R x) m m'"
    show "step_ends s k (\<lambda>_. gains (\<Union>x \<in> set xs. R x) m') (sfor f xs) m'"
    proof (rule Cons.IH [OF gains_ok [OF m']])
      fix y A m'' assume "y \<in> set xs" and "gains A m' m''"
      then show "step_ends s k (\<lambda>_. gains (R y) m'') (f y) m''" using Cons.prems(2) [OF _ gains_trans [OF m']] by simp
    qed
  qed simp
  then show ?case by simp
qed

section \<open>Axioms\<close>

lemma convert_declaration_ends:
  assumes ok: "index_ok m" and name: "k \<Longrightarrow> axiom_ok C (OwlDeclaration e)" and sup: "s \<Longrightarrow> parts_supported (OwlDeclaration e)"
  shows "step_ends s k (\<lambda>_. gains {} m) (convert_declaration e) m"
proof (cases e)
  case (OwlEntity kd i)
  have declared: "step_ends s k (\<lambda>_. gains {} m) (sbind (compute (new_entity kd i)) (\<lambda>r. sbind (update_index (\<lambda>m. Inr (add_entity r m))) (\<lambda>_.
      if kd = OBJECT_PROPERTY then update_index (add_property_chain [r]) else give ()))) m"
  proof (rule step_ends_bind [OF new_entity_ends], use name OwlEntity in simp, elim conjE, hypsubst)
    let ?r = "\<lparr>kind = kd, iri = i\<rparr>"
    assume n: "name_ok kd i"
    have added: "gains {} m (add_entity ?r m)"
      using add_entity_ok [OF ok, of ?r] n by (auto simp: gains_def adds_def name_ok_def intro!: exI [of _ "{?r}"])
    show "step_ends s k (\<lambda>_. gains {} m) (sbind (update_index (\<lambda>m. Inr (add_entity ?r m))) (\<lambda>_.
        if kd = OBJECT_PROPERTY then update_index (add_property_chain [?r]) else give ())) m"
    proof (rule step_ends_bind [of s k "\<lambda>_. gains {} m"], rule step_ends_update)
      fix u m' assume m': "gains {} m m'"
      have "step_ends s k (\<lambda>_. gains {} m) (update_index (add_property_chain [?r])) m'" if "kd = OBJECT_PROPERTY"
        by (rule step_ends_update, rule ends_mono [OF add_property_chain_ends [OF gains_ok [OF m']]])
          (use that n gains_nothing(1) [OF m'] in \<open>auto simp: name_ok_def gains_def\<close>)
      with m' show "step_ends s k (\<lambda>_. gains {} m) (if kd = OBJECT_PROPERTY then update_index (add_property_chain [?r]) else give ()) m'" by simp
    qed (simp add: added)
  qed
  then show ?thesis
    using sup ok by (cases kd) (auto simp: convert_declaration_def OwlEntity gains_refl)
qed

text \<open>A converted expression, and a step that uses its handle.\<close>

lemma expression_bind:
  assumes "keys_nonempty C" and "index_ok m" and "k \<Longrightarrow> expression_ok C v" and "s \<Longrightarrow> value_supported v"
    and "\<And>h m'. leaves m (value_tree C v) h m' \<Longrightarrow> index_ok m' \<Longrightarrow> stands m' h (value_tree C v) \<Longrightarrow> step_ends s k (\<lambda>_. gains A m') (f h) m'"
  shows "step_ends s k (\<lambda>_. gains A m) (sbind (convert_expression C v pol) f) m"
  by (rule leaves_bind [OF convert_expression_ends [OF assms(1-4)]]) (auto intro: assms(5) leaves_ok leaves_stands)

lemma leaves_keeps: "stands m h t \<Longrightarrow> leaves m u h' m' \<Longrightarrow> stands m' h t"
  by (rule stands_gains [OF _ leaves_gains])

lemma name_thing: "expression_ok C (OwlClass OWL_THING_IRI) \<longleftrightarrow> 1 \<le> ec_node_limit C"
  and name_nothing: "expression_ok C (OwlClass OWL_NOTHING_IRI) \<longleftrightarrow> 1 \<le> ec_node_limit C"
proof -
  have "name_ok CLASS OWL_THING_IRI" "name_ok CLASS OWL_NOTHING_IRI" by code_simp+
  then show "expression_ok C (OwlClass OWL_THING_IRI) \<longleftrightarrow> 1 \<le> ec_node_limit C"
    "expression_ok C (OwlClass OWL_NOTHING_IRI) \<longleftrightarrow> 1 \<le> ec_node_limit C"
    by (simp_all add: expression_ok_def)
qed

text \<open>What the constructors of the converter and its literal keys guarantee.\<close>

definition converter_ok :: "expression_converter \<Rightarrow> bool" where
  "converter_ok C \<longleftrightarrow> keys_nonempty C \<and> 1 \<le> ec_node_limit C"

lemma converter_okD: "converter_ok C \<Longrightarrow> keys_nonempty C" "converter_ok C \<Longrightarrow> 1 \<le> ec_node_limit C"
  by (simp_all add: converter_ok_def)

lemma thing_bind:
  assumes C: "converter_ok C" and ok: "index_ok m"
    and rest: "\<And>h m'. leaves m thing_tree h m' \<Longrightarrow> index_ok m' \<Longrightarrow> stands m' h thing_tree \<Longrightarrow> step_ends s k (\<lambda>_. gains A m') (f h) m'"
  shows "step_ends s k (\<lambda>_. gains A m) (sbind (convert_thing C pol) f) m"
  unfolding convert_thing_def
  by (rule expression_bind [OF converter_okD(1) [OF C] ok]) (use C rest in \<open>auto simp: name_thing converter_ok_def thing_tree_def\<close>)

lemma nothing_bind:
  assumes C: "converter_ok C" and ok: "index_ok m"
    and rest: "\<And>h m'. leaves m nothing_tree h m' \<Longrightarrow> index_ok m' \<Longrightarrow> stands m' h nothing_tree \<Longrightarrow> step_ends s k (\<lambda>_. gains A m') (f h) m'"
  shows "step_ends s k (\<lambda>_. gains A m) (sbind (convert_nothing C pol) f) m"
  unfolding convert_nothing_def
  by (rule expression_bind [OF converter_okD(1) [OF C] ok]) (use C rest in \<open>auto simp: name_nothing converter_ok_def nothing_tree_def\<close>)

lemma convert_subclass_ends:
  assumes C: "converter_ok C" and ok: "index_ok m" and "k \<Longrightarrow> expression_ok C v \<and> expression_ok C w" and "s \<Longrightarrow> value_supported v \<and> value_supported w"
  shows "step_ends s k (\<lambda>_. gains {SubClassAxiom (value_tree C v) (value_tree C w)} m) (convert_subclass C v w) m"
  unfolding convert_subclass_def
  by (intro expression_bind converter_okD(1) C ok) (use assms in \<open>auto intro: subclass_row_ends leaves_keeps\<close>)

lemma equivalent_to_ends:
  assumes C: "converter_ok C" and "index_ok m" and "k \<Longrightarrow> list_all (expression_ok C) vs" and "s \<Longrightarrow> list_all value_supported vs"
    and "stands m h t"
  shows "step_ends s k (\<lambda>_. gains (equivalence_axiom t ` set (map (value_tree C) vs)) m) (equivalent_to C h (tree_tag t = TAG_CLASS) vs) m"
  using assms(2-5)
proof (induction vs arbitrary: m)
  case Nil
  then show ?case by (simp add: gains_refl)
next
  case (Cons v vs)
  let ?u = "value_tree C v"
  have row: "step_ends s k (\<lambda>_. gains {equivalence_axiom t ?u} m')
      (if \<not> tree_tag t = TAG_CLASS \<and> tree_tag ?u = TAG_CLASS then equivalent_row b h else equivalent_row h b) m'"
    if "index_ok m'" "stands m' b ?u" "stands m' h t" for b m'
    using that by (auto simp: equivalence_axiom_def intro: equivalent_row_ends)
  have rest: "step_ends s k (\<lambda>_. gains (equivalence_axiom t ` set (map (value_tree C) vs)) m') (equivalent_to C h (tree_tag t = TAG_CLASS) vs) m'"
    if "index_ok m'" "stands m' h t" for m'
    using Cons.IH [OF that(1) _ _ that(2)] Cons.prems(2,3) by simp
  have "step_ends s k (\<lambda>_. gains ({equivalence_axiom t ?u} \<union> equivalence_axiom t ` set (map (value_tree C) vs)) m)
      (equivalent_to C h (tree_tag t = TAG_CLASS) (v # vs)) m"
    unfolding equivalent_to.simps
  proof (rule expression_bind [OF converter_okD(1) [OF C] Cons.prems(1)])
    fix b m1 assume b: "leaves m ?u b m1" "index_ok m1" "stands m1 b ?u"
    then have h: "stands m1 h t" using leaves_keeps Cons.prems(4) by blast
    have keys: "keys_ok m1" using b(2) by (simp add: index_ok_def)
    show "step_ends s k (\<lambda>_. gains ({equivalence_axiom t ?u} \<union> equivalence_axiom t ` set (map (value_tree C) vs)) m1)
      (sbind (converter_tag b) (\<lambda>tg. sbind (if \<not> tree_tag t = TAG_CLASS \<and> tg = TAG_CLASS then equivalent_row b h else equivalent_row h b)
        (\<lambda>_. equivalent_to C h (tree_tag t = TAG_CLASS) vs))) m1"
      by (rule step_ends_bind [OF converter_tag_ends [OF keys b(3)]], elim conjE, hypsubst, rule step_gains_bind [OF row [OF b(2,3) h]])
        (rule rest, erule gains_ok, erule stands_gains [OF h])
  qed (use Cons.prems in simp_all)
  then show ?case by simp
qed

lemma convert_equivalent_classes_ends:
  assumes C: "converter_ok C" and ok: "index_ok m" and vs: "k \<Longrightarrow> list_all (expression_ok C) vs" "s \<Longrightarrow> list_all value_supported vs"
  shows "step_ends s k (\<lambda>_. gains (equivalence_axioms (map (value_tree C) vs)) m) (convert_equivalent_classes C vs) m"
proof (cases vs)
  case Nil
  then show ?thesis by (simp add: gains_refl ok)
next
  case (Cons v ws)
  show ?thesis
    unfolding Cons convert_equivalent_classes.simps list.map equivalence_axioms.simps
  proof (rule expression_bind [OF converter_okD(1) [OF C] ok])
    fix h m' assume h: "index_ok m'" "stands m' h (value_tree C v)"
    have "keys_ok m'" using h(1) by (simp add: index_ok_def)
    then show "step_ends s k (\<lambda>_. gains (equivalence_axiom (value_tree C v) ` set (map (value_tree C) ws)) m')
        (sbind (converter_tag h) (\<lambda>t. equivalent_to C h (t = TAG_CLASS) ws)) m'"
      by (rule step_ends_bind [OF converter_tag_ends [OF _ h(2)]], elim conjE, hypsubst)
        (rule equivalent_to_ends [OF C h(1) _ _ h(2)], use vs Cons in simp_all)
  qed (use vs Cons in simp_all)
qed

lemma disjoint_pair_ends:
  assumes C: "converter_ok C" and ok: "index_ok m" and v: "k \<Longrightarrow> expression_ok C v" "s \<Longrightarrow> value_supported v"
    and "stands m bottom nothing_tree" and "stands m h t"
  shows "step_ends s k (\<lambda>_. gains {SubClassAxiom (and_tree t (value_tree C v)) nothing_tree} m) (disjoint_pair C bottom h v) m"
  unfolding disjoint_pair_def
proof (rule expression_bind [OF converter_okD(1) [OF C] ok v])
  fix b m1 assume b: "leaves m (value_tree C v) b m1" "index_ok m1" "stands m1 b (value_tree C v)"
  have h: "stands m1 h t" "stands m1 bottom nothing_tree" using leaves_keeps [OF _ b(1)] assms(5,6) by auto
  show "step_ends s k (\<lambda>_. gains {SubClassAxiom (and_tree t (value_tree C v)) nothing_tree} m1)
      (sbind (intern_step OBJECT_INTERSECTION_OF [] [h, b] [] NEGATIVE) (\<lambda>conjunction. subclass_row conjunction bottom)) m1"
  proof (rule leaves_bind [of s k m1 "and_tree t (value_tree C v)"])
    show "step_ends s k (leaves m1 (and_tree t (value_tree C v))) (intern_step OBJECT_INTERSECTION_OF [] [h, b] [] NEGATIVE) m1"
      unfolding and_tree_def by (rule intern_step_ends [OF b(2)]) (use b h in \<open>auto simp: the_key_def shape_ok_def\<close>)
    fix c m2 assume c: "leaves m1 (and_tree t (value_tree C v)) c m2"
    then show "step_ends s k (\<lambda>_. gains {SubClassAxiom (and_tree t (value_tree C v)) nothing_tree} m2) (subclass_row c bottom) m2"
      by (intro subclass_row_ends leaves_ok [OF c] leaves_stands [OF c] leaves_keeps [OF h(2) c])
  qed
qed

lemma disjoint_pairs_of_ends:
  assumes C: "converter_ok C" and "index_ok m" and "k \<Longrightarrow> list_all (expression_ok C) vs" and "s \<Longrightarrow> list_all value_supported vs"
    and "stands m bottom nothing_tree"
  shows "step_ends s k (\<lambda>_. gains (exclusion_axioms (map (value_tree C) vs)) m) (disjoint_pairs_of C bottom vs) m"
  using assms(2-5)
proof (induction vs arbitrary: m)
  case Nil
  then show ?case by (simp add: gains_refl)
next
  case (Cons v vs)
  show ?case
    unfolding disjoint_pairs_of.simps list.map exclusion_axioms.simps
  proof (rule expression_bind [OF converter_okD(1) [OF C] Cons.prems(1)])
    let ?row = "\<lambda>w. {SubClassAxiom (and_tree (value_tree C v) (value_tree C w)) nothing_tree}"
    fix h m1 assume h: "leaves m (value_tree C v) h m1" "index_ok m1" "stands m1 h (value_tree C v)"
    have b: "stands m1 bottom nothing_tree" by (rule leaves_keeps [OF Cons.prems(4) h(1)])
    have pairs: "step_ends s k (\<lambda>_. gains (\<Union>w \<in> set vs. ?row w) m1) (sfor (disjoint_pair C bottom h) vs) m1"
    proof (rule sfor_ends [OF h(2)])
      fix w m' A assume w: "w \<in> set vs" and m': "gains A m1 m'"
      show "step_ends s k (\<lambda>_. gains (?row w) m') (disjoint_pair C bottom h w) m'"
        by (rule disjoint_pair_ends [OF C gains_ok [OF m'] _ _ stands_gains [OF b m'] stands_gains [OF h(3) m']])
          (use w Cons.prems in \<open>auto simp: list_all_iff\<close>)
    qed
    have "(\<Union>w \<in> set vs. ?row w) = (\<lambda>u. SubClassAxiom (and_tree (value_tree C v) u) nothing_tree) ` set (map (value_tree C) vs)" by auto
    with step_gains_bind [OF pairs, of "exclusion_axioms (map (value_tree C) vs)" "\<lambda>_. disjoint_pairs_of C bottom vs"]
    show "step_ends s k (\<lambda>_. gains ((\<lambda>u. SubClassAxiom (and_tree (value_tree C v) u) nothing_tree) ` set (map (value_tree C) vs) \<union>
        exclusion_axioms (map (value_tree C) vs)) m1) (sbind (sfor (disjoint_pair C bottom h) vs) (\<lambda>_. disjoint_pairs_of C bottom vs)) m1"
      using Cons.IH [OF gains_ok _ _ stands_gains [OF b]] Cons.prems by simp
  qed (use Cons.prems in simp_all)
qed

lemma smap_expressions_ends:
  assumes C: "converter_ok C" and "index_ok m" and "k \<Longrightarrow> list_all (expression_ok C) vs" and "s \<Longrightarrow> list_all value_supported vs"
  shows "step_ends s k (all_left m (map (value_tree C) vs)) (smap (\<lambda>v. convert_expression C v pol) vs) m"
  using assms(2-4)
proof (induction vs arbitrary: m)
  case Nil
  then show ?case by (simp add: all_left_def gains_refl)
next
  case (Cons v vs)
  show ?case
    unfolding smap.simps
  proof (rule step_ends_bind [OF convert_expression_ends [OF converter_okD(1) [OF C] Cons.prems(1)]])
    fix h m1 assume h: "leaves m (value_tree C v) h m1"
    show "step_ends s k (all_left m (map (value_tree C) (v # vs))) (sbind (smap (\<lambda>v. convert_expression C v pol) vs) (\<lambda>ys. give (h # ys))) m1"
    proof (rule step_ends_bind [OF Cons.IH [OF leaves_ok [OF h]]])
      fix hs m2 assume hs: "all_left m1 (map (value_tree C) vs) hs m2"
      have g: "gains {} m1 m2" using hs by (simp add: all_left_def)
      show "step_ends s k (all_left m (map (value_tree C) (v # vs))) (give (h # hs)) m2"
        using hs gains_nothing(1) [OF leaves_gains [OF h] g] stands_gains [OF leaves_stands [OF h] g] by (simp add: all_left_def)
    qed (use Cons.prems in simp_all)
  qed (use Cons.prems in simp_all)
qed

lemma convert_disjoint_ends:
  assumes C: "converter_ok C" and ok: "index_ok m" and vs: "k \<Longrightarrow> list_all (expression_ok C) vs" "s \<Longrightarrow> list_all value_supported vs"
  shows "step_ends s k (\<lambda>_. gains (disjointness_axioms (map (value_tree C) vs)) m) (convert_disjoint C vs) m"
proof (cases "2 < length vs")
  case True
  have "step_ends s k (\<lambda>_. gains {DisjointAxiom (map (value_tree C) vs)} m)
      (sbind (smap (\<lambda>v. convert_expression C v NEGATIVE) vs) (\<lambda>hs. update_index (add_disjoint_group hs))) m"
  proof (rule step_ends_bind [OF smap_expressions_ends [OF C ok vs]])
    fix hs m' assume hs: "all_left m (map (value_tree C) vs) hs m'"
    have g: "gains {} m m'" and st: "list_all2 (stands m') hs (map (value_tree C) vs)" using hs by (simp_all add: all_left_def)
    have len: "length hs = length vs" using list_all2_lengthD [OF st] by simp
    have "map (index_tree m') hs = map (value_tree C) vs"
      using st by (auto simp: list_all2_conv_all_nth stands_def intro: nth_equalityI)
    moreover have "\<forall>a \<in> set hs. is_handle m' a" using st by (auto simp: list_all2_conv_all_nth stands_def in_set_conv_nth)
    ultimately have "ends (gains {DisjointAxiom (map (value_tree C) vs)} m') (add_disjoint_group hs m')"
      using True len by (intro ends_mono [OF add_disjoint_group_ends [OF gains_ok [OF g]]]) (auto simp: gains_def)
    from step_gains_after [OF g step_ends_update [where P = "\<lambda>_. gains {DisjointAxiom (map (value_tree C) vs)} m'" and f = "add_disjoint_group hs", OF this]]
    show "step_ends s k (\<lambda>_. gains {DisjointAxiom (map (value_tree C) vs)} m) (update_index (add_disjoint_group hs)) m'" by simp
  qed
  with True show ?thesis by (simp add: convert_disjoint_def disjointness_axioms_def)
next
  case False
  have "step_ends s k (\<lambda>_. gains (exclusion_axioms (map (value_tree C) vs)) m)
      (sbind (convert_nothing C POSITIVE) (\<lambda>bottom. disjoint_pairs_of C bottom vs)) m"
    by (rule nothing_bind [OF C ok], rule disjoint_pairs_of_ends [OF C]) (use vs in auto)
  with False show ?thesis by (simp add: convert_disjoint_def disjointness_axioms_def)
qed

lemma union_members_ends:
  assumes C: "converter_ok C" and ok: "index_ok m" and vs: "k \<Longrightarrow> list_all (expression_ok C) vs" "s \<Longrightarrow> list_all value_supported vs"
    and d: "stands m d t"
  shows "step_ends s k (\<lambda>_. gains ((\<lambda>u. SubClassAxiom u t) ` set (map (value_tree C) vs)) m)
    (sfor (\<lambda>v. sbind (convert_expression C v NEGATIVE) (\<lambda>h. subclass_row h d)) vs) m"
proof -
  have "step_ends s k (\<lambda>_. gains (\<Union>v \<in> set vs. {SubClassAxiom (value_tree C v) t}) m)
      (sfor (\<lambda>v. sbind (convert_expression C v NEGATIVE) (\<lambda>h. subclass_row h d)) vs) m"
  proof (rule sfor_ends [OF ok])
    fix v m' A assume v: "v \<in> set vs" and m': "gains A m m'"
    show "step_ends s k (\<lambda>_. gains {SubClassAxiom (value_tree C v) t} m') (sbind (convert_expression C v NEGATIVE) (\<lambda>h. subclass_row h d)) m'"
      by (rule expression_bind [OF converter_okD(1) [OF C] gains_ok [OF m']])
        (use v vs in \<open>auto simp: list_all_iff intro!: subclass_row_ends leaves_keeps [OF stands_gains [OF d m']]\<close>)
  qed
  moreover have "(\<Union>v \<in> set vs. {SubClassAxiom (value_tree C v) t}) = (\<lambda>u. SubClassAxiom u t) ` set (map (value_tree C) vs)" by auto
  ultimately show ?thesis by simp
qed

lemma convert_disjoint_union_ends:
  assumes C: "converter_ok C" and ok: "index_ok m" and vs: "k \<Longrightarrow> list_all (expression_ok C) vs" "s \<Longrightarrow> list_all value_supported vs"
    and d: "k \<Longrightarrow> expression_ok C d" "s \<Longrightarrow> value_supported d"
  shows "step_ends s k (\<lambda>_. gains (disjointness_axioms (map (value_tree C) vs) \<union> union_axioms (value_tree C d) (map (value_tree C) vs)) m)
    (convert_disjoint_union C d vs) m"
  unfolding convert_disjoint_union_def
proof (rule step_gains_bind [OF convert_disjoint_ends [OF C ok vs]], assumption, assumption)
  fix u m' assume "gains (disjointness_axioms (map (value_tree C) vs)) m m'"
  then have ok': "index_ok m'" by (rule gains_ok)
  note bind = expression_bind [OF converter_okD(1) [OF C] ok' d]
  show "step_ends s k (\<lambda>_. gains (union_axioms (value_tree C d) (map (value_tree C) vs)) m') (case vs of
       [] \<Rightarrow> sbind (convert_expression C d POSITIVE) (\<lambda>d. sbind (convert_nothing C POSITIVE) (\<lambda>bottom. equivalent_row d bottom))
     | [member] \<Rightarrow> sbind (convert_expression C d DUAL) (\<lambda>d. sbind (convert_expression C member DUAL) (\<lambda>singleton. equivalent_row d singleton))
     | _ \<Rightarrow> sbind (count_feature ''DISJOINT_UNION'' 1) (\<lambda>_. sbind (convert_expression C d POSITIVE) (\<lambda>d.
         sfor (\<lambda>member. sbind (convert_expression C member NEGATIVE) (\<lambda>converted. subclass_row converted d)) vs))) m'"
  proof (cases vs rule: remdups_adj.cases)
    case 1
    show ?thesis unfolding 1 union_axioms_def list.case list.map
      by (rule bind, assumption, assumption) (rule nothing_bind [OF C], auto intro: equivalent_row_ends leaves_keeps)
  next
    case (2 v)
    have v: "k \<Longrightarrow> expression_ok C v" "s \<Longrightarrow> value_supported v" using vs 2 by simp_all
    show ?thesis unfolding 2 union_axioms_def list.case list.map
      by (rule bind, assumption, assumption)
        (rule expression_bind [OF converter_okD(1) [OF C] _ v], auto intro: equivalent_row_ends leaves_keeps)
  next
    case (3 v w ws)
    have "step_ends s k (\<lambda>_. gains ((\<lambda>t. SubClassAxiom t (value_tree C d)) ` set (map (value_tree C) vs)) m')
        (sbind (count_feature ''DISJOINT_UNION'' 1) (\<lambda>_. sbind (convert_expression C d POSITIVE) (\<lambda>d.
          sfor (\<lambda>member. sbind (convert_expression C member NEGATIVE) (\<lambda>converted. subclass_row converted d)) vs))) m'"
    proof (rule feature_bind [OF ok'])
      fix m1 assume "gains {} m' m1"
      then show "step_ends s k (\<lambda>_. gains ((\<lambda>t. SubClassAxiom t (value_tree C d)) ` set (map (value_tree C) vs)) m1)
          (sbind (convert_expression C d POSITIVE) (\<lambda>d. sfor (\<lambda>member. sbind (convert_expression C member NEGATIVE) (\<lambda>converted. subclass_row converted d)) vs)) m1"
        by (intro expression_bind [OF converter_okD(1) [OF C] _ d] union_members_ends [OF C _ vs]) (auto dest: gains_ok)
    qed (simp add: feature_name_defs)
    with 3 show ?thesis by (simp add: union_axioms_def)
  qed
qed

lemma convert_same_individual_ends:
  assumes C: "converter_ok C" and ok: "index_ok m" and vs: "k \<Longrightarrow> list_all (expression_ok C) vs" "s \<Longrightarrow> list_all value_supported vs"
  shows "step_ends s k (\<lambda>_. gains (mutual_axioms SubClassAxiom (map (value_tree C) vs)) m) (convert_same_individual C vs) m"
proof (cases vs)
  case Nil
  then show ?thesis by (simp add: gains_refl ok)
next
  case (Cons v ws)
  let ?t = "value_tree C v" and ?R = "\<lambda>w. {SubClassAxiom (value_tree C v) (value_tree C w), SubClassAxiom (value_tree C w) (value_tree C v)}"
  have both: "step_ends s k (\<lambda>_. gains {SubClassAxiom t u, SubClassAxiom u t} m') (sbind (subclass_row a b) (\<lambda>_. subclass_row b a)) m'"
    if "index_ok m'" "stands m' a t" "stands m' b u" for a b t u m'
  proof -
    from that(1) have "step_ends s k (\<lambda>_. gains ({SubClassAxiom t u} \<union> {SubClassAxiom u t}) m') (sbind (subclass_row a b) (\<lambda>_. subclass_row b a)) m'"
      by (rule step_gains_bind [OF subclass_row_ends [OF _ that(2,3)]])
        (rule subclass_row_ends, erule gains_ok, erule stands_gains [OF that(3)], erule stands_gains [OF that(2)])
    then show ?thesis by (simp add: insert_commute)
  qed
  have "step_ends s k (\<lambda>_. gains (\<Union>w \<in> set ws. ?R w) m) (convert_same_individual C (v # ws)) m"
    unfolding convert_same_individual.simps
  proof (rule expression_bind [OF converter_okD(1) [OF C] ok])
    fix h m1 assume h: "index_ok m1" "stands m1 h ?t"
    show "step_ends s k (\<lambda>_. gains (\<Union>w \<in> set ws. ?R w) m1) (sfor (\<lambda>w. sbind (convert_expression C w DUAL) (\<lambda>c. sbind (subclass_row h c) (\<lambda>_. subclass_row c h))) ws) m1"
    proof (rule sfor_ends [OF h(1)])
      fix w m2 A assume w: "w \<in> set ws" and m2: "gains A m1 m2"
      show "step_ends s k (\<lambda>_. gains (?R w) m2) (sbind (convert_expression C w DUAL) (\<lambda>c. sbind (subclass_row h c) (\<lambda>_. subclass_row c h))) m2"
        by (rule expression_bind [OF converter_okD(1) [OF C] gains_ok [OF m2]])
          (use w vs Cons in \<open>auto simp: list_all_iff intro!: both leaves_keeps [OF stands_gains [OF h(2) m2]]\<close>)
    qed
  qed (use vs Cons in simp_all)
  then show ?thesis by (simp add: Cons)
qed

section \<open>Property axioms\<close>

lemma property_entity_checked: "property_left p m r m' \<Longrightarrow> kind (property_entity p) = OBJECT_PROPERTY \<and> entity_record_check (property_entity p) = Inr ()"
  by (auto simp: property_left_def)

lemma convert_object_property_assertion_ends:
  assumes C: "converter_ok C" and ok: "index_ok m" and "k \<Longrightarrow> property_ok p \<and> expression_ok C a \<and> expression_ok C b"
    and "s \<Longrightarrow> property_supported p \<and> value_supported a \<and> value_supported b"
  shows "step_ends s k (\<lambda>_. gains {SubClassAxiom (value_tree C a) (some_tree (property_entity p) (value_tree C b))} m)
    (convert_object_property_assertion C p a b) m"
  unfolding convert_object_property_assertion_def
proof (rule feature_bind [OF ok])
  let ?A = "{SubClassAxiom (value_tree C a) (some_tree (property_entity p) (value_tree C b))}"
  fix m1 assume "gains {} m m1"
  then have ok1: "index_ok m1" by (rule gains_ok)
  have finish: "step_ends s k (\<lambda>_. gains ?A m4) (sbind (intern_step OBJECT_SOME_VALUES_FROM [property_entity p] [y] [] POSITIVE)
        (\<lambda>e. sbind (count_feature ''OBJECT_HAS_VALUE_POSITIVE'' 1) (\<lambda>_. subclass_row x e))) m4"
    if "index_ok m4" "stands m4 x (value_tree C a)" "stands m4 y (value_tree C b)" "kind (property_entity p) = OBJECT_PROPERTY \<and> entity_record_check (property_entity p) = Inr ()"
    for x y m4
  proof (rule leaves_bind [of s k m4 "some_tree (property_entity p) (value_tree C b)"])
    show "step_ends s k (leaves m4 (some_tree (property_entity p) (value_tree C b))) (intern_step OBJECT_SOME_VALUES_FROM [property_entity p] [y] [] POSITIVE) m4"
      unfolding some_tree_def by (rule intern_step_ends) (use that in \<open>auto simp: the_key_def shape_ok_def\<close>)
    fix e m5 assume e: "leaves m4 (some_tree (property_entity p) (value_tree C b)) e m5"
    show "step_ends s k (\<lambda>_. gains ?A m5) (sbind (count_feature ''OBJECT_HAS_VALUE_POSITIVE'' 1) (\<lambda>_. subclass_row x e)) m5"
      by (rule feature_bind [OF leaves_ok [OF e]])
        (auto simp: feature_name_defs intro!: subclass_row_ends stands_gains [OF leaves_keeps [OF that(2) e]] stands_gains [OF leaves_stands [OF e]] dest: gains_ok)
  qed
  show "step_ends s k (\<lambda>_. gains ?A m1) (sbind (convert_expression C a NEGATIVE) (\<lambda>a. sbind (convert_object_property p POSITIVE) (\<lambda>r.
      sbind (convert_expression C b POSITIVE) (\<lambda>b. sbind (intern_step OBJECT_SOME_VALUES_FROM [r] [b] [] POSITIVE)
        (\<lambda>e. sbind (count_feature ''OBJECT_HAS_VALUE_POSITIVE'' 1) (\<lambda>_. subclass_row a e)))))) m1"
  proof (rule expression_bind [OF converter_okD(1) [OF C] ok1])
    fix x m2 assume x: "index_ok m2" "stands m2 x (value_tree C a)"
    show "step_ends s k (\<lambda>_. gains ?A m2) (sbind (convert_object_property p POSITIVE) (\<lambda>r.
      sbind (convert_expression C b POSITIVE) (\<lambda>b. sbind (intern_step OBJECT_SOME_VALUES_FROM [r] [b] [] POSITIVE)
        (\<lambda>e. sbind (count_feature ''OBJECT_HAS_VALUE_POSITIVE'' 1) (\<lambda>_. subclass_row x e))))) m2"
    proof (rule property_bind [OF x(1)])
      fix m3 assume p: "property_left p m2 (property_entity p) m3"
      then have g: "gains {} m2 m3" by (simp add: property_left_def)
      show "step_ends s k (\<lambda>_. gains ?A m3) (sbind (convert_expression C b POSITIVE) (\<lambda>b. sbind (intern_step OBJECT_SOME_VALUES_FROM [property_entity p] [b] [] POSITIVE)
        (\<lambda>e. sbind (count_feature ''OBJECT_HAS_VALUE_POSITIVE'' 1) (\<lambda>_. subclass_row x e)))) m3"
        by (rule expression_bind [OF converter_okD(1) [OF C] gains_ok [OF g]], use assms(3) in simp, use assms(4) in simp)
          (rule finish [OF _ leaves_keeps [OF stands_gains [OF x(2) g]] _ property_entity_checked [OF p]])
    qed (use assms(3,4) in auto)
  qed (use assms(3,4) in auto)
qed (simp add: feature_name_defs)

lemma convert_equivalent_object_properties_ends:
  assumes ok: "index_ok m" and ps: "k \<Longrightarrow> list_all property_ok ps" "s \<Longrightarrow> list_all property_supported ps"
  shows "step_ends s k (\<lambda>_. gains (mutual_axioms (\<lambda>p q. SubPropertyAxiom [p] q) (map property_entity ps)) m) (convert_equivalent_object_properties ps) m"
proof (cases ps)
  case Nil
  then show ?thesis by (simp add: gains_refl ok)
next
  case (Cons p qs)
  let ?R = "\<lambda>q. {SubPropertyAxiom [property_entity p] (property_entity q), SubPropertyAxiom [property_entity q] (property_entity p)}"
  have "step_ends s k (\<lambda>_. gains (\<Union>q \<in> set qs. ?R q) m) (convert_equivalent_object_properties (p # qs)) m"
    unfolding convert_equivalent_object_properties.simps
  proof (rule property_bind [OF ok])
    fix m1 assume p: "property_left p m (property_entity p) m1"
    then have ok1: "index_ok m1" by (auto simp: property_left_def dest: gains_ok)
    show "step_ends s k (\<lambda>_. gains (\<Union>q \<in> set qs. ?R q) m1) (sfor (\<lambda>q. sbind (convert_object_property q DUAL) (\<lambda>c.
       sbind (update_index (add_subproperty [property_entity p] c)) (\<lambda>_. update_index (add_subproperty [c] (property_entity p))))) qs) m1"
    proof (rule sfor_ends [OF ok1])
      fix q m2 A assume q: "q \<in> set qs" and m2: "gains A m1 m2"
      show "step_ends s k (\<lambda>_. gains (?R q) m2) (sbind (convert_object_property q DUAL) (\<lambda>c.
         sbind (update_index (add_subproperty [property_entity p] c)) (\<lambda>_. update_index (add_subproperty [c] (property_entity p))))) m2"
      proof (rule property_bind [OF gains_ok [OF m2]])
        fix m3 assume m3: "property_left q m2 (property_entity q) m3"
        then have ok3: "index_ok m3" by (auto simp: property_left_def dest: gains_ok)
        have "step_ends s k (\<lambda>_. gains ({SubPropertyAxiom [property_entity p] (property_entity q)} \<union> {SubPropertyAxiom [property_entity q] (property_entity p)}) m3)
          (sbind (update_index (add_subproperty [property_entity p] (property_entity q))) (\<lambda>_. update_index (add_subproperty [property_entity q] (property_entity p)))) m3"
          by (rule step_gains_bind, rule subproperty_ends [OF ok3])
            (use property_entity_checked [OF p] property_entity_checked [OF m3] in \<open>auto intro!: subproperty_ends dest: gains_ok\<close>)
        then show "step_ends s k (\<lambda>_. gains (?R q) m3)
          (sbind (update_index (add_subproperty [property_entity p] (property_entity q))) (\<lambda>_. update_index (add_subproperty [property_entity q] (property_entity p)))) m3"
          by (simp add: insert_commute)
      qed (use q ps Cons in \<open>auto simp: list_all_iff\<close>)
    qed
  qed (use ps Cons in simp_all)
  then show ?thesis by (simp add: Cons)
qed

definition properties_checked :: "entity_record list \<Rightarrow> bool" where
  "properties_checked rs \<longleftrightarrow> list_all (\<lambda>r. kind r = OBJECT_PROPERTY \<and> entity_record_check r = Inr ()) rs"

lemma properties_checked_simps [simp]:
  "properties_checked []" "properties_checked (r # rs) \<longleftrightarrow> kind r = OBJECT_PROPERTY \<and> entity_record_check r = Inr () \<and> properties_checked rs"
  by (auto simp: properties_checked_def)

lemma properties_checked_rev: "properties_checked rs \<Longrightarrow> properties_checked (rev rs)"
  by (simp add: properties_checked_def)

lemma chain_properties_ends:
  assumes "index_ok m" and "k \<Longrightarrow> list_all property_ok ps" and "s \<Longrightarrow> list_all property_supported ps"
  shows "step_ends s k (\<lambda>rs m'. gains {} m m' \<and> rs = map property_entity ps \<and> properties_checked rs)
    (smap (\<lambda>q. convert_object_property q pol) ps) m"
  using assms
proof (induction ps arbitrary: m)
  case Nil
  then show ?case by (simp add: gains_refl)
next
  case (Cons p ps)
  show ?case
    unfolding smap.simps
  proof (rule step_ends_bind [OF convert_object_property_ends [OF Cons.prems(1)]])
    fix r m1 assume r: "property_left p m r m1"
    then have g: "gains {} m m1" and ok1: "index_ok m1" by (auto simp: property_left_def dest: gains_ok)
    show "step_ends s k (\<lambda>rs m'. gains {} m m' \<and> rs = map property_entity (p # ps) \<and> properties_checked rs)
        (sbind (smap (\<lambda>q. convert_object_property q pol) ps) (\<lambda>ys. give (r # ys))) m1"
    proof (rule step_ends_bind [OF Cons.IH [OF ok1]])
      fix rs m2 assume rs: "gains {} m1 m2 \<and> rs = map property_entity ps \<and> properties_checked rs"
      then have "gains {} m m2" using gains_nothing(1) [OF g] by blast
      with rs r show "step_ends s k (\<lambda>rs m'. gains {} m m' \<and> rs = map property_entity (p # ps) \<and> properties_checked rs) (give (r # rs)) m2"
        by (auto simp: property_left_def)
    qed (use Cons.prems in simp_all)
  qed (use Cons.prems in simp_all)
qed

lemma convert_property_chain_ends:
  assumes ok: "index_ok m" and p: "k \<Longrightarrow> chain_ok p" "s \<Longrightarrow> chain_supported p"
  shows "step_ends s k (\<lambda>rs m'. gains {} m m' \<and> rs = chain_entities p \<and> rs \<noteq> [] \<and> properties_checked rs)
    (convert_property_chain p) m"
proof (cases p)
  case (OwlObjectProperty i)
  with p convert_object_property_ends [OF ok, of k p s NEGATIVE] show ?thesis
    by (auto simp: convert_property_chain_def chain_entities_def property_left_def intro!: step_ends_bind)
next
  case (OwlObjectInverseOf q)
  with p show ?thesis by (auto simp: convert_property_chain_def)
next
  case (OwlObjectPropertyChain ps)
  have ps: "k \<Longrightarrow> list_all property_ok (rev ps)" "s \<Longrightarrow> list_all property_supported (rev ps)"
    using p by (simp_all add: OwlObjectPropertyChain)
  show ?thesis
    unfolding convert_property_chain_def OwlObjectPropertyChain owl_property.case
  proof (rule step_ends_bind [OF chain_properties_ends [OF ok ps]], assumption, assumption)
    fix rs m1 assume rs: "gains {} m m1 \<and> rs = map property_entity (rev ps) \<and> properties_checked rs"
    show "step_ends s k (\<lambda>rs m'. gains {} m m' \<and> rs = chain_entities (OwlObjectPropertyChain ps) \<and> rs \<noteq> [] \<and> properties_checked rs)
        (if length rs < 2 then fail (Raised ValueError) else sbind (count_feature ''OBJECT_PROPERTY_CHAIN'' (length rs - 1)) (\<lambda>_. give (rev rs))) m1"
    proof (cases "length rs < 2")
      case True
      with rs p show ?thesis by (auto simp: OwlObjectPropertyChain)
    next
      case False
      have "step_ends s k (\<lambda>_. gains {} m1) (count_feature ''OBJECT_PROPERTY_CHAIN'' (length rs - 1)) m1"
        by (rule count_feature_ends) (use rs in \<open>auto simp: feature_name_defs dest: gains_ok\<close>)
      then show ?thesis
        unfolding if_not_P [OF False]
      proof (rule step_ends_bind)
        fix u m2 assume "gains {} m1 m2"
        with rs have "gains {} m m2" using gains_nothing(1) by blast
        with rs False show "step_ends s k (\<lambda>rs m'. gains {} m m' \<and> rs = chain_entities (OwlObjectPropertyChain ps) \<and> rs \<noteq> [] \<and> properties_checked rs) (give (rev rs)) m2"
          by (auto simp: chain_entities_def rev_map dest: properties_checked_rev)
      qed
    qed
  qed
qed

lemma convert_domain_ends:
  assumes C: "converter_ok C" and ok: "index_ok m" and "k \<Longrightarrow> property_ok p \<and> expression_ok C v" and "s \<Longrightarrow> property_supported p \<and> value_supported v"
  shows "step_ends s k (\<lambda>_. gains {SubClassAxiom (some_tree (property_entity p) thing_tree) (value_tree C v)} m) (convert_domain C p v) m"
  unfolding convert_domain_def
proof (rule property_bind [OF ok])
  let ?t = "some_tree (property_entity p) thing_tree" let ?A = "{SubClassAxiom ?t (value_tree C v)}"
  fix m1 assume p: "property_left p m (property_entity p) m1"
  then have ok1: "index_ok m1" by (auto simp: property_left_def dest: gains_ok)
  show "step_ends s k (\<lambda>_. gains ?A m1) (sbind (convert_thing C NEGATIVE) (\<lambda>thing. sbind (intern_step OBJECT_SOME_VALUES_FROM [property_entity p] [thing] [] NEGATIVE) (\<lambda>existential.
     sbind (convert_expression C v POSITIVE) (\<lambda>d. subclass_row existential d)))) m1"
  proof (rule thing_bind [OF C ok1])
    fix h m2 assume h: "index_ok m2" "stands m2 h thing_tree"
    show "step_ends s k (\<lambda>_. gains ?A m2) (sbind (intern_step OBJECT_SOME_VALUES_FROM [property_entity p] [h] [] NEGATIVE) (\<lambda>existential.
       sbind (convert_expression C v POSITIVE) (\<lambda>d. subclass_row existential d))) m2"
    proof (rule leaves_bind [of s k m2 ?t])
      show "step_ends s k (leaves m2 ?t) (intern_step OBJECT_SOME_VALUES_FROM [property_entity p] [h] [] NEGATIVE) m2"
        unfolding some_tree_def by (rule intern_step_ends [OF h(1)]) (use h property_entity_checked [OF p] in \<open>auto simp: the_key_def shape_ok_def\<close>)
      fix e m3 assume e: "leaves m2 ?t e m3"
      show "step_ends s k (\<lambda>_. gains ?A m3) (sbind (convert_expression C v POSITIVE) (\<lambda>d. subclass_row e d)) m3"
        by (rule expression_bind [OF converter_okD(1) [OF C] leaves_ok [OF e]])
          (use assms(3,4) in \<open>auto intro!: subclass_row_ends leaves_keeps [OF leaves_stands [OF e]]\<close>)
    qed
  qed
qed (use assms(3,4) in auto)

lemma convert_range_ends:
  assumes C: "converter_ok C" and ok: "index_ok m" and "k \<Longrightarrow> property_ok p \<and> expression_ok C v" and "s \<Longrightarrow> property_supported p \<and> value_supported v"
  shows "step_ends s k (\<lambda>_. gains {RangeAxiom (property_entity p) (value_tree C v)} m) (convert_range C p v) m"
  unfolding convert_range_def
proof (rule property_bind [OF ok])
  let ?A = "{RangeAxiom (property_entity p) (value_tree C v)}"
  fix m1 assume p: "property_left p m (property_entity p) m1"
  then have ok1: "index_ok m1" by (auto simp: property_left_def dest: gains_ok)
  show "step_ends s k (\<lambda>_. gains ?A m1) (sbind (convert_expression C v POSITIVE) (\<lambda>x.
     sbind (update_index (add_property_range (property_entity p) x)) (\<lambda>_. count_feature ''OBJECT_PROPERTY_RANGE'' 1))) m1"
  proof (rule expression_bind [OF converter_okD(1) [OF C] ok1])
    fix h m2 assume h: "index_ok m2" "stands m2 h (value_tree C v)"
    have "ends (gains ?A m2) (add_property_range (property_entity p) h m2)"
      by (rule ends_mono [OF add_property_range_ends [OF h(1)]])
        (use h property_entity_checked [OF p] in \<open>auto simp: gains_def stands_def\<close>)
    then have row: "step_ends s k (\<lambda>_. gains ?A m2) (update_index (add_property_range (property_entity p) h)) m2"
      by (rule step_ends_update)
    have "step_ends s k (\<lambda>_. gains (?A \<union> {}) m2) (sbind (update_index (add_property_range (property_entity p) h)) (\<lambda>_. count_feature ''OBJECT_PROPERTY_RANGE'' 1)) m2"
      by (rule step_gains_bind [OF row count_feature_ends]) (auto simp: feature_name_defs dest: gains_ok)
    then show "step_ends s k (\<lambda>_. gains ?A m2) (sbind (update_index (add_property_range (property_entity p) h)) (\<lambda>_. count_feature ''OBJECT_PROPERTY_RANGE'' 1)) m2"
      by simp
  qed (use assms(3,4) in auto)
qed (use assms(3,4) in auto)

lemma convert_reflexive_ends:
  assumes C: "converter_ok C" and ok: "index_ok m" and "k \<Longrightarrow> property_ok p" and "s \<Longrightarrow> property_supported p"
  shows "step_ends s k (\<lambda>_. gains {SubClassAxiom thing_tree (self_tree (property_entity p))} m) (convert_reflexive C p) m"
  unfolding convert_reflexive_def
proof (rule feature_bind [OF ok])
  let ?A = "{SubClassAxiom thing_tree (self_tree (property_entity p))}"
  fix m1 assume "gains {} m m1"
  then have ok1: "index_ok m1" by (rule gains_ok)
  show "step_ends s k (\<lambda>_. gains ?A m1) (sbind (convert_thing C NEGATIVE) (\<lambda>thing. sbind (convert_object_property p POSITIVE) (\<lambda>r.
     sbind (intern_step OBJECT_HAS_SELF [r] [] [] POSITIVE) (\<lambda>has_self. subclass_row thing has_self)))) m1"
  proof (rule thing_bind [OF C ok1])
    fix h m2 assume h: "index_ok m2" "stands m2 h thing_tree"
    show "step_ends s k (\<lambda>_. gains ?A m2) (sbind (convert_object_property p POSITIVE) (\<lambda>r.
       sbind (intern_step OBJECT_HAS_SELF [r] [] [] POSITIVE) (\<lambda>has_self. subclass_row h has_self))) m2"
    proof (rule property_bind [OF h(1) assms(3,4)], assumption, assumption)
      fix m3 assume p: "property_left p m2 (property_entity p) m3"
      then have g: "gains {} m2 m3" by (simp add: property_left_def)
      show "step_ends s k (\<lambda>_. gains ?A m3) (sbind (intern_step OBJECT_HAS_SELF [property_entity p] [] [] POSITIVE) (\<lambda>has_self. subclass_row h has_self)) m3"
      proof (rule leaves_bind [of s k m3 "self_tree (property_entity p)"])
        show "step_ends s k (leaves m3 (self_tree (property_entity p))) (intern_step OBJECT_HAS_SELF [property_entity p] [] [] POSITIVE) m3"
          unfolding self_tree_def by (rule intern_step_ends [OF gains_ok [OF g]]) (use property_entity_checked [OF p] in \<open>auto simp: the_key_def shape_ok_def\<close>)
        fix e m4 assume e: "leaves m3 (self_tree (property_entity p)) e m4"
        show "step_ends s k (\<lambda>_. gains ?A m4) (subclass_row h e) m4"
          by (rule subclass_row_ends [OF leaves_ok [OF e] leaves_keeps [OF stands_gains [OF h(2) g] e] leaves_stands [OF e]])
      qed
    qed
  qed
qed (simp add: feature_name_defs)

lemma convert_transitive_ends:
  assumes ok: "index_ok m" and "k \<Longrightarrow> property_ok p" and "s \<Longrightarrow> property_supported p"
  shows "step_ends s k (\<lambda>_. gains {SubPropertyAxiom [property_entity p, property_entity p] (property_entity p)} m) (convert_transitive p) m"
  unfolding convert_transitive_def
proof (rule property_bind [OF assms], assumption, assumption)
  fix m1 assume p: "property_left p m (property_entity p) m1"
  then have "index_ok m1" by (auto simp: property_left_def dest: gains_ok)
  then show "step_ends s k (\<lambda>_. gains {SubPropertyAxiom [property_entity p, property_entity p] (property_entity p)} m1)
     (sbind (count_feature ''OBJECT_PROPERTY_CHAIN'' 1) (\<lambda>_. update_index (add_subproperty [property_entity p, property_entity p] (property_entity p)))) m1"
    by (rule feature_bind) (use property_entity_checked [OF p] in \<open>auto simp: feature_name_defs intro!: subproperty_ends dest: gains_ok\<close>)
qed

section \<open>Every axiom\<close>

text \<open>A counter is moved last.\<close>

lemma counted_last:
  assumes "step_ends s k (\<lambda>_. gains A m) c m" and "name \<in> set (ONTOLOGY_FEATURE_NAMES @ QUERY_FEATURE_NAMES)"
  shows "step_ends s k (\<lambda>_. gains A m) (sbind c (\<lambda>_. count_feature name n)) m"
  using step_gains_bind [OF assms(1), of "{}" "\<lambda>_. count_feature name n"] count_feature_ends [OF _ assms(2)] gains_ok by simp

lemma subproperty_axiom_ends:
  assumes ok: "index_ok m" and "k \<Longrightarrow> chain_ok sub \<and> property_ok super" and "s \<Longrightarrow> chain_supported sub \<and> property_supported super"
  shows "step_ends s k (\<lambda>_. gains {SubPropertyAxiom (chain_entities sub) (property_entity super)} m)
    (sbind (convert_property_chain sub) (\<lambda>chain. sbind (convert_object_property super POSITIVE) (\<lambda>r. update_index (add_subproperty chain r)))) m"
proof (rule step_ends_bind [OF convert_property_chain_ends [OF ok]])
  let ?A = "{SubPropertyAxiom (chain_entities sub) (property_entity super)}"
  fix rs m1 assume rs: "gains {} m m1 \<and> rs = chain_entities sub \<and> rs \<noteq> [] \<and> properties_checked rs"
  then have g: "gains {} m m1" by simp
  have "step_ends s k (\<lambda>_. gains ?A m1) (sbind (convert_object_property super POSITIVE) (\<lambda>r. update_index (add_subproperty rs r))) m1"
  proof (rule property_bind [OF gains_ok [OF g]])
    fix m2 assume p: "property_left super m1 (property_entity super) m2"
    then have "index_ok m2" by (auto simp: property_left_def dest: gains_ok)
    then show "step_ends s k (\<lambda>_. gains ?A m2) (update_index (add_subproperty rs (property_entity super))) m2"
      using subproperty_ends [of m2 rs "property_entity super"] rs property_entity_checked [OF p] by (auto simp: properties_checked_def list_all_iff)
  qed (use assms(2,3) in auto)
  from step_gains_after [OF g this]
  show "step_ends s k (\<lambda>_. gains ?A m) (sbind (convert_object_property super POSITIVE) (\<lambda>r. update_index (add_subproperty rs r))) m1" by simp
qed (use assms(2,3) in auto)

lemma convert_axiom_ends:
  assumes C: "converter_ok C" and ok: "index_ok m" and k: "k \<Longrightarrow> axiom_ok C ax" and s: "s \<Longrightarrow> axiom_supported ax"
  shows "step_ends s k (\<lambda>_. gains (axiom_rows C ax) m) (convert_axiom C ax) m"
proof (cases "dict_get UNSUPPORTED_AXIOM_FEATURE (axiom_type ax)")
  case (Some feature)
  with s show ?thesis by (auto simp: convert_axiom_def axiom_supported_def table_feature_names(2))
next
  case None
  have parts: "s \<Longrightarrow> parts_supported ax" using s by (simp add: axiom_supported_def)
  have dispatch: "convert_axiom C ax = (case ax of
       OwlDeclaration e \<Rightarrow> convert_declaration e
     | OwlSubClassOf sub super \<Rightarrow> convert_subclass C sub super
     | OwlEquivalentClasses members \<Rightarrow> convert_equivalent_classes C members
     | OwlDisjointClasses members \<Rightarrow> sbind (convert_disjoint C members) (\<lambda>_. count_feature ''DISJOINT_CLASSES'' 1)
     | OwlDisjointUnion defined members \<Rightarrow> convert_disjoint_union C defined members
     | OwlClassAssertion i v \<Rightarrow> convert_subclass C i v
     | OwlSameIndividual members \<Rightarrow> convert_same_individual C members
     | OwlDifferentIndividuals members \<Rightarrow> sbind (convert_disjoint C members) (\<lambda>_. count_feature ''DIFFERENT_INDIVIDUALS'' 1)
     | OwlObjectPropertyAssertion p source target \<Rightarrow> convert_object_property_assertion C p source target
     | OwlEquivalentObjectProperties members \<Rightarrow> convert_equivalent_object_properties members
     | OwlSubObjectPropertyOf sub super \<Rightarrow> sbind (convert_property_chain sub) (\<lambda>chain.
         sbind (convert_object_property super POSITIVE) (\<lambda>r. update_index (add_subproperty chain r)))
     | OwlObjectPropertyDomain p v \<Rightarrow> convert_domain C p v
     | OwlObjectPropertyRange p v \<Rightarrow> convert_range C p v
     | OwlReflexiveObjectProperty p \<Rightarrow> convert_reflexive C p
     | OwlTransitiveObjectProperty p \<Rightarrow> convert_transitive p
     | OwlAnnotationAxiom name \<Rightarrow> give ()
     | OwlOtherAxiom name \<Rightarrow> fail (Raised PyTypeError))"
    by (simp add: convert_axiom_def None)
  have names: "''DISJOINT_CLASSES'' \<in> set (ONTOLOGY_FEATURE_NAMES @ QUERY_FEATURE_NAMES)" "''DIFFERENT_INDIVIDUALS'' \<in> set (ONTOLOGY_FEATURE_NAMES @ QUERY_FEATURE_NAMES)"
    by (simp_all add: feature_name_defs)
  show ?thesis
  proof (cases ax)
    case (OwlDeclaration e)
    with convert_declaration_ends [OF ok, of k C e s] k parts dispatch show ?thesis by simp
  next
    case (OwlSubClassOf v w)
    with convert_subclass_ends [OF C ok, of k v w s] k parts dispatch show ?thesis by simp
  next
    case (OwlEquivalentClasses vs)
    with convert_equivalent_classes_ends [OF C ok, of k vs s] k parts dispatch show ?thesis by simp
  next
    case (OwlDisjointClasses vs)
    with counted_last [OF convert_disjoint_ends [OF C ok, of k vs s] names(1)] k parts dispatch show ?thesis by simp
  next
    case (OwlDisjointUnion d vs)
    with convert_disjoint_union_ends [OF C ok, of k vs s d] k parts dispatch show ?thesis by simp
  next
    case (OwlClassAssertion v w)
    with convert_subclass_ends [OF C ok, of k v w s] k parts dispatch show ?thesis by simp
  next
    case (OwlSameIndividual vs)
    with convert_same_individual_ends [OF C ok, of k vs s] k parts dispatch show ?thesis by simp
  next
    case (OwlDifferentIndividuals vs)
    with counted_last [OF convert_disjoint_ends [OF C ok, of k vs s] names(2)] k parts dispatch show ?thesis by simp
  next
    case (OwlObjectPropertyAssertion p a b)
    with convert_object_property_assertion_ends [OF C ok, of k p a b s] k parts dispatch show ?thesis by simp
  next
    case (OwlEquivalentObjectProperties ps)
    with convert_equivalent_object_properties_ends [OF ok, of k ps s] k parts dispatch show ?thesis by simp
  next
    case (OwlSubObjectPropertyOf sub super)
    with subproperty_axiom_ends [OF ok, of k sub super s] k parts dispatch show ?thesis by simp
  next
    case (OwlObjectPropertyDomain p v)
    with convert_domain_ends [OF C ok, of k p v s] k parts dispatch show ?thesis by simp
  next
    case (OwlObjectPropertyRange p v)
    with convert_range_ends [OF C ok, of k p v s] k parts dispatch show ?thesis by simp
  next
    case (OwlReflexiveObjectProperty p)
    with convert_reflexive_ends [OF C ok, of k p s] k parts dispatch show ?thesis by simp
  next
    case (OwlTransitiveObjectProperty p)
    with convert_transitive_ends [OF ok, of k p s] k parts dispatch show ?thesis by simp
  next
    case (OwlAnnotationAxiom name)
    with dispatch show ?thesis by (simp add: gains_refl ok)
  next
    case (OwlOtherAxiom name)
    with dispatch None k show ?thesis by auto
  qed
qed

end
