(* ===== verification/Compiler.thy ===== *)
theory Compiler
  imports Axiom_Trees Codec_Tables
begin

text \<open>
  \<open>src/pyelk/indexing/compiler.py\<close>: the compilation of the axioms of an ontology view, of a class
  expression and of an entailment query.  What the code takes from the package \<open>pyowl_core\<close> is an argument:
  the rows of the view, \<open>contains\<close>, the structural digest, the signature of a query and the fingerprint of the
  source.  SHA-256 is an argument as well.
\<close>

section \<open>Symbol tables\<close>

record symbol_table =
  st_entity_count :: nat
  st_lookup :: "entity_record \<Rightarrow> nat option"

definition compiled_symbol_table :: "compiled_ontology \<Rightarrow> symbol_table" where
  "compiled_symbol_table co = \<lparr>st_entity_count = length (entities co), st_lookup = dict_get (enumeration (entities co))\<rparr>"

definition coerce_symbol_table :: "symbol_table \<Rightarrow> symbol_table result" where
  "coerce_symbol_table symbols = (if st_entity_count symbols \<le> U32_RESERVED then Inr symbols else Inl ValueError)"

definition lookup_entity :: "symbol_table \<Rightarrow> entity_record \<Rightarrow> nat option result" where
  "lookup_entity symbols r = (case st_lookup symbols r of
     None \<Rightarrow> Inr None
   | Some i \<Rightarrow> if i < st_entity_count symbols then Inr (Some i) else Inl ValueError)"

section \<open>Compiling an ontology\<close>

text \<open>A row of the view: the axiom without its annotations, and whether it has annotations.\<close>

record owl_row =
  row_axiom :: owl_axiom
  row_annotated :: bool

record ontology_view =
  view_rows :: "owl_row list"
  view_contains :: "owl_axiom \<Rightarrow> bool"
  view_extensions :: "bool list"
  structural_digest :: "owl_axiom \<Rightarrow> bytes"

datatype unsupported_mode = UNSUPPORTED_IGNORE | UNSUPPORTED_ERROR

definition validate_unsupported :: "string \<Rightarrow> unsupported_mode result" where
  "validate_unsupported value = (if value = ''ignore'' then Inr UNSUPPORTED_IGNORE
     else if value = ''error'' then Inr UNSUPPORTED_ERROR else Inl ValueError)"

definition validate_node_limit :: "nat \<Rightarrow> unit result" where
  "validate_node_limit value = rassert (1 \<le> value) ValueError"

fun is_annotation_axiom :: "owl_axiom \<Rightarrow> bool" where
  "is_annotation_axiom (OwlAnnotationAxiom _) = True"
| "is_annotation_axiom _ = False"

text \<open>Whether a row is a duplicate, and the digests observed from then on.\<close>

definition duplicate_annotated_axiom :: "ontology_view \<Rightarrow> owl_row \<Rightarrow> bytes list \<Rightarrow> bool \<times> bytes list" where
  "duplicate_annotated_axiom view row observed =
     (if \<not> row_annotated row then (False, observed)
      else if view_contains view (row_axiom row) then (True, observed)
      else let key = structural_digest view (row_axiom row) in
        if key \<in> set observed then (True, observed) else (False, add_new key observed))"

definition compile_axiom :: "expression_converter \<Rightarrow> unsupported_mode \<Rightarrow> owl_axiom \<Rightarrow> mutable_index \<Rightarrow> mutable_index conversion" where
  "compile_axiom C mode ax builder =
     (let tx = new_transaction in
      case convert_axiom C ax (tx_index tx) of
        Inl (Unsupported feature) \<Rightarrow>
          cbind (lift (rollback tx)) (\<lambda>_.
          cbind (lift (rbind (FEATURE_INDEX feature) (\<lambda>i. add_feature i 1 builder))) (\<lambda>builder.
          if mode = UNSUPPORTED_ERROR then Inl (Unsupported feature) else Inr builder))
      | Inl (Raised x) \<Rightarrow> Inl (Raised x)
      | Inr (_, m) \<Rightarrow> lift (rmap (\<lambda>(mapping, tx, builder). builder) (commit_into (tx\<lparr>tx_index := m\<rparr>) builder)))"

fun compile_rows ::
    "expression_converter \<Rightarrow> unsupported_mode \<Rightarrow> ontology_view \<Rightarrow> owl_row list \<Rightarrow> bytes list \<Rightarrow> mutable_index \<Rightarrow> mutable_index conversion" where
  "compile_rows C mode view [] observed builder = Inr builder"
| "compile_rows C mode view (row # rows) observed builder =
     (if is_annotation_axiom (row_axiom row) then compile_rows C mode view rows observed builder
      else (case duplicate_annotated_axiom view row observed of (duplicate, observed) \<Rightarrow>
        if duplicate then compile_rows C mode view rows observed builder
        else cbind (compile_axiom C mode (row_axiom row) builder) (compile_rows C mode view rows observed)))"

text \<open>The extensions of the view: whether each is a SWRL rule.\<close>

fun compile_extensions :: "unsupported_mode \<Rightarrow> bool list \<Rightarrow> mutable_index \<Rightarrow> mutable_index conversion" where
  "compile_extensions mode [] builder = Inr builder"
| "compile_extensions mode (swrl # rest) builder =
     (if swrl then
        cbind (lift (rbind (FEATURE_INDEX ''SWRL_RULE'') (\<lambda>i. add_feature i 1 builder))) (\<lambda>builder.
        if mode = UNSUPPORTED_ERROR then Inl (Unsupported ''SWRL_RULE'') else compile_extensions mode rest builder)
      else compile_extensions mode rest builder)"

definition compatibility_digest :: "(bytes \<Rightarrow> bytes) \<Rightarrow> mutable_index \<Rightarrow> bytes result" where
  "compatibility_digest sha256 m = rmap (\<lambda>rows. sha256 (ascii ''pyelk:elk-literal-compatibility-inputs:v1'' @ [0] @ concat rows))
     (rmap_list sized (sort (mi_compatibility_observations m)))"

definition lift_option :: "'a result option \<Rightarrow> 'a conversion option" where
  "lift_option out = map_option lift out"

definition compile_ontology ::
    "(bytes \<Rightarrow> bytes) \<Rightarrow> (unsupported_mode \<Rightarrow> bytes \<Rightarrow> bytes) \<Rightarrow> (owl_literal \<Rightarrow> elk_compatibility_key result) \<Rightarrow>
     ontology_view \<Rightarrow> string \<Rightarrow> nat \<Rightarrow> (compiled_ontology \<times> nat) conversion option" where
  "compile_ontology sha256 fingerprint_of literal_key view unsupported max_nodes =
     (case cbind (lift (validate_unsupported unsupported)) (\<lambda>mode.
         cbind (lift (validate_node_limit max_nodes)) (\<lambda>_.
         cbind (lift (new_expression_converter literal_key max_nodes)) (\<lambda>C.
         cbind (compile_rows C mode view (view_rows view) [] ontology_builder) (\<lambda>builder.
         cbind (compile_extensions mode (view_extensions view) builder) (\<lambda>builder.
         cbind (lift (compatibility_digest sha256 builder)) (\<lambda>digest.
         Inr (builder, fingerprint_of mode digest))))))) of
        Inl x \<Rightarrow> Some (Inl x)
      | Inr (builder, fingerprint) \<Rightarrow> lift_option (map_option (rmap (\<lambda>(co, m).
          (co, length (view_rows view) + length (view_extensions view)))) (freeze_ontology fingerprint builder)))"

section \<open>Compiling queries\<close>

definition sorted_records :: "entity_record list \<Rightarrow> entity_record list result" where
  "sorted_records = sorted_entities"

fun known_entities ::
    "symbol_table \<Rightarrow> entity_record list \<Rightarrow> (entity_record, nat) dict \<Rightarrow> entity_record list \<Rightarrow> ((entity_record, nat) dict \<times> entity_record list) result" where
  "known_entities symbols [] ids fresh = Inr (ids, fresh)"
| "known_entities symbols (r # rs) ids fresh = rbind (lookup_entity symbols r) (\<lambda>found. case found of
     None \<Rightarrow> known_entities symbols rs ids (fresh @ [r])
   | Some i \<Rightarrow> if i \<in> snd ` set ids then Inl ValueError else known_entities symbols rs (dict_put r i ids) fresh)"

definition query_entities ::
    "entity_record list \<Rightarrow> symbol_table \<Rightarrow> (entity_record list \<times> (entity_record, nat) dict \<times> entity_record list) result" where
  "query_entities signature symbols = rbind (sorted_records signature) (\<lambda>records.
     rmap (Pair records) (known_entities symbols records [] []))"

fun complete_mapping ::
    "symbol_table \<Rightarrow> entity_record list \<Rightarrow> (entity_record, nat) dict \<Rightarrow> entity_record list \<Rightarrow> ((entity_record, nat) dict \<times> entity_record list) result" where
  "complete_mapping symbols [] ids fresh = Inr (ids, fresh)"
| "complete_mapping symbols (r # rs) ids fresh =
     (if dict_contains ids r \<or> r \<in> set fresh then complete_mapping symbols rs ids fresh
      else rbind (lookup_entity symbols r) (\<lambda>found. case found of
        None \<Rightarrow> complete_mapping symbols rs ids (add_new r fresh)
      | Some i \<Rightarrow> if i \<in> snd ` set ids then Inl ValueError else complete_mapping symbols rs (dict_put r i ids) fresh))"

definition complete_query_entity_mapping ::
    "mutable_index \<Rightarrow> symbol_table \<Rightarrow> (entity_record, nat) dict \<Rightarrow> entity_record list \<Rightarrow> ((entity_record, nat) dict \<times> entity_record list) result" where
  "complete_query_entity_mapping tx symbols ids fresh = rbind (complete_mapping symbols (mi_entities tx) ids fresh) (\<lambda>(ids, fresh).
     rmap (Pair ids) (sorted_entities fresh))"

definition single_feature_vector :: "nat \<Rightarrow> nat list" where
  "single_feature_vector i = (replicate FEATURE_VECTOR_LENGTH 0)[i := 1]"

definition new_compiled_query :: "bytes option \<Rightarrow> nat list \<Rightarrow> entity_record list \<Rightarrow> compiled_query result" where
  "new_compiled_query encoded counts fresh = (let c = \<lparr>cq_encoded = encoded, cq_feature_counts = counts, cq_fresh_entities = fresh\<rparr> in
     rmap (\<lambda>_. c) (compiled_query_check c))"

definition unsupported_query :: "unsupported_mode \<Rightarrow> string \<Rightarrow> entity_record list \<Rightarrow> compiled_query conversion" where
  "unsupported_query mode feature fresh =
     (if mode = UNSUPPORTED_ERROR then Inl (Unsupported feature)
      else lift (rbind (FEATURE_INDEX feature) (\<lambda>i. new_compiled_query None (single_feature_vector i) fresh)))"

text \<open>What both queries do with a converted transaction: commit it into an empty query builder and freeze that.\<close>

definition finish_query ::
    "query_ir_kind \<Rightarrow> symbol_table \<Rightarrow> (entity_record, nat) dict \<Rightarrow> entity_record list \<Rightarrow> nat option \<Rightarrow> obligations \<Rightarrow> mutable_index \<Rightarrow>
     compiled_query conversion option" where
  "finish_query kd symbols ids fresh root os m =
     (case rbind (complete_query_entity_mapping m symbols ids fresh) (\<lambda>(ids, fresh).
         rbind (commit_into (new_transaction\<lparr>tx_index := m\<rparr>) empty_index) (\<lambda>(mapping, tx, builder).
         rbind (case root of None \<Rightarrow> Inr None | Some r \<Rightarrow> rmap Some (dict_at mapping r)) (\<lambda>root.
         rbind (rmap_list (map_pair_by mapping) os) (\<lambda>os.
         Inr (ids, fresh, root, remdups os, builder))))) of
        Inl x \<Rightarrow> Some (Inl (Raised x))
      | Inr (ids, fresh, root, os, builder) \<Rightarrow> lift_option (map_option (\<lambda>out. rbind out (\<lambda>(q, m).
          rbind (encode_query_ir q) (\<lambda>data. new_compiled_query (Some data) (mi_feature_counts builder) fresh)))
          (freeze_query_ir kd ids root os builder)))"

definition compile_query_expression ::
    "(owl_literal \<Rightarrow> elk_compatibility_key result) \<Rightarrow> owl_value \<Rightarrow> entity_record list \<Rightarrow> symbol_table \<Rightarrow> string \<Rightarrow> nat \<Rightarrow>
     compiled_query conversion option" where
  "compile_query_expression literal_key v signature symbols unsupported max_nodes =
     (case rbind (validate_unsupported unsupported) (\<lambda>mode. rbind (validate_node_limit max_nodes) (\<lambda>_.
         rbind (coerce_symbol_table symbols) (\<lambda>symbols. rbind (query_entities signature symbols) (\<lambda>(records, ids, fresh).
         rbind (new_expression_converter literal_key max_nodes) (\<lambda>C. Inr (mode, records, ids, fresh, C)))))) of
        Inl x \<Rightarrow> Some (Inl (Raised x))
      | Inr (mode, records, ids, fresh, C) \<Rightarrow>
          (case convert_expression C v DUAL (empty_index\<lparr>mi_entities := add_all records []\<rparr>) of
             Inl (Unsupported feature) \<Rightarrow> Some (unsupported_query mode feature fresh)
           | Inl (Raised x) \<Rightarrow> Some (Inl (Raised x))
           | Inr (root, m) \<Rightarrow> finish_query CLASS_EXPRESSION symbols ids fresh (Some root) [] m))"

definition compile_entailment_query ::
    "(owl_literal \<Rightarrow> elk_compatibility_key result) \<Rightarrow> owl_axiom \<Rightarrow> entity_record list \<Rightarrow> symbol_table \<Rightarrow> string \<Rightarrow> nat \<Rightarrow>
     compiled_query conversion option" where
  "compile_entailment_query literal_key ax signature symbols unsupported max_nodes =
     (case rbind (validate_unsupported unsupported) (\<lambda>mode. rbind (validate_node_limit max_nodes) (\<lambda>_.
         rbind (coerce_symbol_table symbols) (\<lambda>symbols. rbind (query_entities signature symbols) (\<lambda>(records, ids, fresh).
         rbind (new_expression_converter literal_key max_nodes) (\<lambda>C. Inr (mode, records, ids, fresh, C)))))) of
        Inl x \<Rightarrow> Some (Inl (Raised x))
      | Inr (mode, records, ids, fresh, C) \<Rightarrow>
          (case unsupported_query_feature ax of
             Some feature \<Rightarrow> Some (unsupported_query mode feature fresh)
           | None \<Rightarrow>
               (case convert_entailment_obligations C ax (empty_index\<lparr>mi_entities := add_all records []\<rparr>) of
                  Inl (Unsupported feature) \<Rightarrow> Some (unsupported_query mode feature fresh)
                | Inl (Raised x) \<Rightarrow> Some (Inl (Raised x))
                | Inr (os, m) \<Rightarrow> finish_query ENTAILMENT symbols ids fresh None os m)))"

end
