(* ===== verification/Compiler_Results.thy ===== *)
theory Compiler_Results
  imports Compiler
begin

text \<open>
  What the compilation loop of \<open>src/pyelk/indexing/compiler.py\<close> leaves in the builder, and what the
  compiled tables hold.
\<close>

section \<open>One axiom\<close>

text \<open>The conversion of an axiom in a transaction of its own.\<close>

definition converted :: "expression_converter \<Rightarrow> owl_axiom \<Rightarrow> bool" where
  "converted C ax = (case convert_axiom C ax empty_index of Inl _ \<Rightarrow> False | Inr _ \<Rightarrow> True)"

lemma converted_supported:
  assumes "converter_ok C" and "axiom_ok C ax" and "axiom_supported ax"
  shows "converted C ax \<or> convert_axiom C ax empty_index = Inl (Raised OverflowError)"
  using convert_axiom_ends [OF assms(1) empty_index_ok, of True ax True] assms(2,3)
  by (auto simp: converted_def step_ends_def conv_ends_def split: sum.splits conversion_error.splits)

lemma feature_added:
  assumes "index_ok b" and "feature_name f"
  shows "ends (gains {} b) (rbind (FEATURE_INDEX f) (\<lambda>i. add_feature i n b))"
proof -
  obtain i where i: "FEATURE_INDEX f = Inr i" "i < FEATURE_VECTOR_LENGTH"
    using feature_index_ok assms(2) by (auto simp: feature_name_def)
  have "ends (gains {} b) (add_feature i n b)"
    by (rule ends_mono [OF add_feature_ends [OF i(2)]]) (rule gains_counted [OF assms(1)])
  then show ?thesis by (simp add: i)
qed

definition rows_of :: "expression_converter \<Rightarrow> owl_axiom list \<Rightarrow> normal_axiom set" where
  "rows_of C axs = (\<Union>ax \<in> {ax \<in> set axs. converted C ax}. axiom_rows C ax)"

lemma rows_of_simps [simp]: "rows_of C [] = {}" "rows_of C (ax # axs) = (if converted C ax then axiom_rows C ax else {}) \<union> rows_of C axs"
  by (auto simp: rows_of_def)

lemma compile_axiom_ends:
  assumes C: "converter_ok C" and b: "index_ok b" and k: "k \<Longrightarrow> axiom_ok C ax" and s: "s \<Longrightarrow> mode = UNSUPPORTED_IGNORE \<or> axiom_supported ax"
  shows "conv_ends s k (gains (rows_of C [ax]) b) (compile_axiom C mode ax b)"
proof -
  have index: "tx_index new_transaction = empty_index" by (simp add: new_transaction_def)
  let ?s = "axiom_supported ax"
  have e: "step_ends ?s k (\<lambda>_. gains (axiom_rows C ax) empty_index) (convert_axiom C ax) empty_index"
    by (rule convert_axiom_ends [OF C empty_index_ok k]) simp
  show ?thesis
  proof (cases "convert_axiom C ax empty_index")
    case (Inl x)
    then have none: "rows_of C [ax] = {}" by (simp add: converted_def)
    show ?thesis
    proof (cases x)
      case (Unsupported f)
      with e Inl have f: "\<not> axiom_supported ax" "feature_name f" by (simp_all add: step_ends_def)
      have "conv_ends s k (gains {} b) (cbind (lift (rbind (FEATURE_INDEX f) (\<lambda>i. add_feature i 1 b)))
          (\<lambda>b. if mode = UNSUPPORTED_ERROR then Inl (Unsupported f) else Inr b))"
        by (rule conv_ends_bind [OF conv_ends_lift [OF feature_added [OF b f(2)]]]) (use s f in auto)
      then show ?thesis
        unfolding compile_axiom_def Let_def index Inl Unsupported none
        by (simp add: rollback_def new_transaction_def lift_def)
    next
      case (Raised y)
      with e Inl show ?thesis by (simp add: compile_axiom_def index step_ends_def)
    qed
  next
    case (Inr r)
    then obtain m where r: "r = ((), m)" by (cases r) simp
    have rows: "rows_of C [ax] = axiom_rows C ax" using Inr by (simp add: converted_def)
    have m: "gains (axiom_rows C ax) empty_index m" using e by (simp add: step_ends_def Inr r)
    then have axs: "index_axioms m = axiom_rows C ax" using gains_axioms [OF m] by (simp add: empty_index_axioms)
    have "ends (gains (axiom_rows C ax) b) (rmap (\<lambda>(mapping, tx, builder). builder) (commit_into (new_transaction\<lparr>tx_index := m\<rparr>) b))"
      unfolding commit_into_def
      by (simp add: new_transaction_def, intro ends_map [OF ends_map [OF merge_index_ends [OF gains_ok [OF m] b]]])
        (auto simp: gains_def axs)
    then show ?thesis
      unfolding compile_axiom_def Let_def index Inr r rows by (simp add: conv_ends_lift)
  qed
qed

section \<open>The loop\<close>

fun considered :: "ontology_view \<Rightarrow> owl_row list \<Rightarrow> bytes list \<Rightarrow> owl_axiom list" where
  "considered view [] observed = []"
| "considered view (row # rows) observed =
     (if is_annotation_axiom (row_axiom row) then considered view rows observed
      else (case duplicate_annotated_axiom view row observed of (duplicate, observed) \<Rightarrow>
        if duplicate then considered view rows observed else row_axiom row # considered view rows observed))"

lemma considered_rows: "set (considered view rows observed) \<subseteq> row_axiom ` set rows"
  by (induction rows arbitrary: observed) (auto split: prod.splits if_splits)

lemma compile_rows_ends:
  assumes C: "converter_ok C" and "index_ok b" and "k \<Longrightarrow> \<forall>ax \<in> set (considered view rows observed). axiom_ok C ax"
    and "s \<Longrightarrow> mode = UNSUPPORTED_IGNORE \<or> (\<forall>ax \<in> set (considered view rows observed). axiom_supported ax)"
  shows "conv_ends s k (gains (rows_of C (considered view rows observed)) b) (compile_rows C mode view rows observed b)"
  using assms(2-)
proof (induction rows arbitrary: observed b)
  case Nil
  then show ?case by (simp add: gains_refl)
next
  case (Cons row rows)
  obtain dup obs where dup: "duplicate_annotated_axiom view row observed = (dup, obs)" by fastforce
  show ?case
  proof (cases "is_annotation_axiom (row_axiom row) \<or> dup")
    case True
    with Cons dup show ?thesis by (auto split: if_splits)
  next
    case False
    then have rows: "considered view (row # rows) observed = row_axiom row # considered view rows obs" using dup by simp
    have "conv_ends s k (gains (rows_of C [row_axiom row] \<union> rows_of C (considered view rows obs)) b)
        (cbind (compile_axiom C mode (row_axiom row) b) (compile_rows C mode view rows obs))"
    proof (rule conv_ends_bind [OF compile_axiom_ends [OF C Cons.prems(1)]])
      fix b' assume b': "gains (rows_of C [row_axiom row]) b b'"
      have "conv_ends s k (gains (rows_of C (considered view rows obs)) b') (compile_rows C mode view rows obs b')"
        by (rule Cons.IH [OF gains_ok [OF b']]) (use Cons.prems rows in auto)
      from conv_ends_mono [OF this, of s k, OF _ _ gains_trans [OF b']]
      show "conv_ends s k (gains (rows_of C [row_axiom row] \<union> rows_of C (considered view rows obs)) b) (compile_rows C mode view rows obs b')"
        by simp
    qed (use Cons.prems rows in auto)
    with False dup rows show ?thesis by (simp add: Un_assoc)
  qed
qed

lemma compile_extensions_ends:
  assumes "index_ok b" and "s \<Longrightarrow> mode = UNSUPPORTED_IGNORE \<or> True \<notin> set exts"
  shows "conv_ends s k (gains {} b) (compile_extensions mode exts b)"
  using assms
proof (induction exts arbitrary: b)
  case Nil
  then show ?case by (simp add: gains_refl)
next
  case (Cons swrl exts)
  have name: "feature_name ''SWRL_RULE''" by (simp add: feature_name_def feature_name_defs)
  have "conv_ends s k (gains {} b) (cbind (lift (rbind (FEATURE_INDEX ''SWRL_RULE'') (\<lambda>i. add_feature i 1 b)))
      (\<lambda>b. if mode = UNSUPPORTED_ERROR then Inl (Unsupported ''SWRL_RULE'') else compile_extensions mode exts b))" if swrl
  proof (rule conv_ends_bind [OF conv_ends_lift [OF feature_added [OF Cons.prems(1) name]]])
    fix b' assume b': "gains {} b b'"
    have "conv_ends s k (gains {} b) (compile_extensions mode exts b')" if "mode \<noteq> UNSUPPORTED_ERROR"
      by (rule conv_ends_mono [OF Cons.IH [OF gains_ok [OF b']]]) (use that Cons.prems b' in \<open>auto intro: gains_nothing\<close>)
    then show "conv_ends s k (gains {} b) (if mode = UNSUPPORTED_ERROR then Inl (Unsupported ''SWRL_RULE'') else compile_extensions mode exts b')"
      using Cons.prems(2) that name by (auto split: if_splits)
  qed
  with Cons show ?case by (cases swrl) simp_all
qed

section \<open>The compiled tables\<close>

definition reading :: "(owl_literal \<Rightarrow> elk_compatibility_key result) \<Rightarrow> nat \<Rightarrow> expression_converter" where
  "reading literal_key max_nodes = \<lparr>ec_literal_key = literal_key, ec_node_limit = max_nodes\<rparr>"

text \<open>The literal keys of \<open>literal_compatibility_key\<close> are nonempty.\<close>

lemma literal_keys_nonempty: "keys_nonempty (reading (\<lambda>l. literal_compatibility_key lower plain l source) n)"
proof -
  have "\<exists>p obs mode. new_compatibility_key p obs mode = Inr key" if "literal_compatibility_key lower plain l source = Inr key" for l key
    using that by (simp only: literal_compatibility_key_def Let_def rbind_Inr_iff split_paired_Ex prod.case) blast
  then show ?thesis
    by (fastforce simp: keys_nonempty_def reading_def new_compatibility_key_def split: if_splits)
qed

lemma digest_ends: "ends (\<lambda>_. True) (compatibility_digest sha256 m)"
proof -
  have "ends (\<lambda>_. True) (rmap_list sized rows)" for rows
  proof (induction rows)
    case (Cons row rows)
    have "ends (\<lambda>_. True) (sized row)" by (simp add: sized_def rappend_def big_endian_def)
    with Cons show ?case by (auto simp: ends_def rbind_def rmap_def split: sum.splits)
  qed simp
  then show ?thesis unfolding compatibility_digest_def by (rule ends_map) simp
qed

text \<open>The builder before it is frozen.\<close>

definition filled_builder :: "expression_converter \<Rightarrow> unsupported_mode \<Rightarrow> ontology_view \<Rightarrow> mutable_index conversion" where
  "filled_builder C mode view =
     cbind (compile_rows C mode view (view_rows view) [] ontology_builder) (compile_extensions mode (view_extensions view))"

definition view_axioms :: "ontology_view \<Rightarrow> owl_axiom list" where
  "view_axioms view = considered view (view_rows view) []"

lemma filled_builder_ends:
  assumes C: "converter_ok C" and k: "k \<Longrightarrow> \<forall>ax \<in> set (view_axioms view). axiom_ok C ax"
    and s: "s \<Longrightarrow> mode = UNSUPPORTED_IGNORE \<or> (\<forall>ax \<in> set (view_axioms view). axiom_supported ax) \<and> True \<notin> set (view_extensions view)"
  shows "conv_ends s k (\<lambda>b. gains (rows_of C (view_axioms view)) ontology_builder b) (filled_builder C mode view)"
  unfolding filled_builder_def
proof (rule conv_ends_bind)
  show "conv_ends s k (gains (rows_of C (view_axioms view)) ontology_builder) (compile_rows C mode view (view_rows view) [] ontology_builder)"
    unfolding view_axioms_def by (rule compile_rows_ends [OF C builder_ok]) (use k s in \<open>auto simp: view_axioms_def\<close>)
  fix b assume b: "gains (rows_of C (view_axioms view)) ontology_builder b"
  have "conv_ends s k (gains {} b) (compile_extensions mode (view_extensions view) b)"
    by (rule compile_extensions_ends [OF gains_ok [OF b]]) (use s in auto)
  from conv_ends_mono [OF this, of s k, OF _ _ gains_nothing(2) [OF b]]
  show "conv_ends s k (gains (rows_of C (view_axioms view)) ontology_builder) (compile_extensions mode (view_extensions view) b)" by simp
qed

text \<open>Past its checks of the two options, compilation fills the builder, fingerprints it and freezes it.\<close>

lemma compile_ontology_steps:
  assumes limit: "1 \<le> max_nodes" and mode: "validate_unsupported unsupported = Inr mode"
  shows "compile_ontology sha256 fingerprint_of literal_key view unsupported max_nodes =
     (case cbind (filled_builder (reading literal_key max_nodes) mode view)
             (\<lambda>builder. cbind (lift (compatibility_digest sha256 builder)) (\<lambda>digest. Inr (builder, fingerprint_of mode digest))) of
        Inl x \<Rightarrow> Some (Inl x)
      | Inr (builder, fingerprint) \<Rightarrow> lift_option (map_option (rmap (\<lambda>(co, m). (co, length (view_rows view) + length (view_extensions view)))) (freeze_ontology fingerprint builder)))"
proof -
  let ?C = "reading literal_key max_nodes"
  have new: "new_expression_converter literal_key max_nodes = Inr ?C" using limit by (simp add: new_expression_converter_def reading_def)
  show ?thesis
    unfolding compile_ontology_def mode new filled_builder_def
    using limit by (simp add: lift_def validate_node_limit_def cbind_assoc rassert_def)
qed

text \<open>Whatever was left out as unsupported, the tables hold the rows of the axioms that were converted.\<close>

lemma compiled_tables:
  assumes C: "converter_ok (reading literal_key max_nodes)" and fingerprint: "\<And>mode digest. length (fingerprint_of mode digest) = FINGERPRINT_SIZE"
    and mode: "validate_unsupported unsupported = Inr mode"
    and fits: "\<And>b. filled_builder (reading literal_key max_nodes) mode view = Inr b \<Longrightarrow> ontology_fits b"
    and compiled: "compile_ontology sha256 fingerprint_of literal_key view unsupported max_nodes = Some (Inr (co, n))"
  shows "valid_ontology co" and "table_axioms co = rows_of (reading literal_key max_nodes) (view_axioms view)"
    and "n = length (view_rows view) + length (view_extensions view)"
proof -
  let ?C = "reading literal_key max_nodes"
  have limit: "1 \<le> max_nodes" using converter_okD(2) [OF C] by (simp add: reading_def)
  obtain b digest where b: "filled_builder ?C mode view = Inr b" "compatibility_digest sha256 b = Inr digest"
    using compiled unfolding compile_ontology_steps [OF limit mode] by (auto simp: cbind_def lift_def split: sum.splits)
  have "conv_ends False False (gains (rows_of ?C (view_axioms view)) ontology_builder) (filled_builder ?C mode view)"
    by (rule filled_builder_ends [OF C]) auto
  then have g: "gains (rows_of ?C (view_axioms view)) ontology_builder b" by (simp add: b)
  have pre: "set predefined_records \<subseteq> set (mi_entities b)"
    using gains_grows [OF g] by (simp add: index_grows_def builder_entities)
  obtain co' m' where f: "freeze_ontology (fingerprint_of mode digest) b = Some (Inr (co', m'))" "valid_ontology co'" "table_axioms co' = index_axioms b"
    by (rule freeze_ontology_ok [OF gains_ok [OF g] fits [OF b(1)] pre fingerprint [of mode digest]])
  have "co' = co \<and> n = length (view_rows view) + length (view_extensions view)"
    using compiled unfolding compile_ontology_steps [OF limit mode] by (simp add: b f(1) lift_def lift_option_def)
  with f(2,3) gains_axioms [OF g] show "valid_ontology co" "table_axioms co = rows_of ?C (view_axioms view)"
    "n = length (view_rows view) + length (view_extensions view)" by (simp_all add: builder_axioms)
qed

lemma compile_ontology_ends:
  assumes keys: "keys_nonempty (reading literal_key max_nodes)" and limit: "1 \<le> max_nodes"
    and fingerprint: "\<And>mode digest. length (fingerprint_of mode digest) = FINGERPRINT_SIZE"
    and mode: "validate_unsupported unsupported = Inr mode"
    and ok: "\<forall>ax \<in> set (view_axioms view). axiom_ok (reading literal_key max_nodes) ax"
    and strict: "mode = UNSUPPORTED_ERROR \<Longrightarrow> (\<forall>ax \<in> set (view_axioms view). axiom_supported ax) \<and> True \<notin> set (view_extensions view)"
    and fits: "\<And>b. filled_builder (reading literal_key max_nodes) mode view = Inr b \<Longrightarrow> ontology_fits b"
  shows "compile_ontology sha256 fingerprint_of literal_key view unsupported max_nodes = Some (Inl (Raised OverflowError)) \<or>
    (\<exists>b co. filled_builder (reading literal_key max_nodes) mode view = Inr b \<and>
      compile_ontology sha256 fingerprint_of literal_key view unsupported max_nodes = Some (Inr (co, length (view_rows view) + length (view_extensions view))) \<and>
      valid_ontology co \<and> table_axioms co = rows_of (reading literal_key max_nodes) (view_axioms view) \<and>
      set (entities co) = set (mi_entities b) \<and> feature_counts co = mi_feature_counts b)"
proof -
  let ?C = "reading literal_key max_nodes"
  have C: "converter_ok ?C" using keys limit by (simp add: converter_ok_def reading_def)
  note start = compile_ontology_steps [OF limit mode, of sha256 fingerprint_of literal_key view]
  have "conv_ends True True (gains (rows_of ?C (view_axioms view)) ontology_builder) (filled_builder ?C mode view)"
    by (rule filled_builder_ends [OF C]) (use ok strict in \<open>auto intro: unsupported_mode.exhaust\<close>)
  then consider "filled_builder ?C mode view = Inl (Raised OverflowError)" |
    b where "filled_builder ?C mode view = Inr b" "gains (rows_of ?C (view_axioms view)) ontology_builder b"
    by (auto simp: conv_ends_def split: sum.splits conversion_error.splits)
  then show ?thesis
  proof cases
    case 1
    then show ?thesis by (simp add: start)
  next
    case b: 2
    show ?thesis
    proof (cases "compatibility_digest sha256 b")
      case (Inl x)
      then have "x = OverflowError" using digest_ends [of sha256 b] by simp
      with Inl b(1) show ?thesis by (simp add: start lift_def)
    next
      case (Inr digest)
      have pre: "set predefined_records \<subseteq> set (mi_entities b)"
        using gains_grows [OF b(2)] by (simp add: index_grows_def builder_entities)
      show ?thesis
      proof (rule freeze_ontology_ok [OF gains_ok [OF b(2)] fits [OF b(1)] pre fingerprint [of mode digest]])
        fix co m'
        assume co: "freeze_ontology (fingerprint_of mode digest) b = Some (Inr (co, m'))" "valid_ontology co"
          "set (entities co) = set (mi_entities b)" "table_axioms co = index_axioms b" "feature_counts co = mi_feature_counts b"
        have "table_axioms co = rows_of ?C (view_axioms view)"
          using co(4) gains_axioms [OF b(2)] by (simp add: builder_axioms)
        with co b(1) Inr show ?thesis by (simp add: start lift_def lift_option_def)
      qed
    qed
  qed
qed

end
