(* ===== verification/Owl_Semantics.thy ===== *)
theory Owl_Semantics
  imports Compiler_Results Soundness
begin

text \<open>
  The direct semantics of the OWL values and axioms, and of expression trees and normal axioms: what the
  converter of \<open>src/pyelk/indexing/conversion.py\<close> accepts keeps its meaning.
\<close>

section \<open>Interpretations\<close>

text \<open>
  A literal is read through its compatibility key.  Only plain values have a meaning here: anonymous
  individuals and the expressions the converter does not support are sent to the empty set, and every statement below
  is about plain values and plain axioms.
\<close>

record 'd owl_interp =
  oi_domain :: "'d set"
  oi_class :: "py_str \<Rightarrow> 'd set"
  oi_property :: "py_str \<Rightarrow> ('d \<times> 'd) set"
  oi_individual :: "py_str \<Rightarrow> 'd"
  oi_data :: "py_str \<Rightarrow> bytes \<Rightarrow> 'd set"

definition owl_interpretation :: "'d owl_interp \<Rightarrow> bool" where
  "owl_interpretation J \<longleftrightarrow> oi_domain J \<noteq> {} \<and> (\<forall>i. oi_class J i \<subseteq> oi_domain J) \<and>
     oi_class J OWL_THING_IRI = oi_domain J \<and> oi_class J OWL_NOTHING_IRI = {} \<and>
     (\<forall>p. oi_property J p \<subseteq> oi_domain J \<times> oi_domain J) \<and>
     oi_property J OWL_TOP_OBJECT_PROPERTY_IRI = oi_domain J \<times> oi_domain J \<and>
     oi_property J OWL_BOTTOM_OBJECT_PROPERTY_IRI = {} \<and> (\<forall>a. oi_individual J a \<in> oi_domain J)"

fun owl_role :: "'d owl_interp \<Rightarrow> owl_property \<Rightarrow> ('d \<times> 'd) set" where
  "owl_role J (OwlObjectProperty i) = oi_property J i"
| "owl_role J (OwlObjectInverseOf p) = converse (owl_role J p)"
| "owl_role J (OwlObjectPropertyChain ps) = foldr (\<lambda>p R. owl_role J p O R) ps (Id_on (oi_domain J))"

fun owl_ext :: "expression_converter \<Rightarrow> 'd owl_interp \<Rightarrow> owl_value \<Rightarrow> 'd set" where
  "owl_ext C J (OwlClass i) = oi_class J i"
| "owl_ext C J (OwlNamedIndividual i) = {oi_individual J i}"
| "owl_ext C J OwlAnonymousIndividual = {}"
| "owl_ext C J (OwlObjectIntersectionOf vs) = oi_domain J \<inter> (\<Inter>v \<in> set vs. owl_ext C J v)"
| "owl_ext C J (OwlObjectUnionOf vs) = (\<Union>v \<in> set vs. owl_ext C J v)"
| "owl_ext C J (OwlObjectComplementOf v) = oi_domain J - owl_ext C J v"
| "owl_ext C J (OwlObjectOneOf vs) = (\<Union>v \<in> set vs. owl_ext C J v)"
| "owl_ext C J (OwlObjectSomeValuesFrom p v) = some_ext (owl_role J p) (owl_ext C J v)"
| "owl_ext C J (OwlObjectHasValue p v) = some_ext (owl_role J p) (owl_ext C J v)"
| "owl_ext C J (OwlObjectHasSelf p) = {x. (x, x) \<in> owl_role J p}"
| "owl_ext C J (OwlDataHasValue p l) =
     oi_data J p (case ec_literal_key C l of Inl _ \<Rightarrow> [] | Inr key \<Rightarrow> ck_payload key) \<inter> oi_domain J"
| "owl_ext C J (OwlOtherExpression name) = {}"

definition disjoint_exts :: "'d set list \<Rightarrow> bool" where
  "disjoint_exts Xs \<longleftrightarrow> (\<forall>i < length Xs. \<forall>j < length Xs. i \<noteq> j \<longrightarrow> Xs ! i \<inter> Xs ! j = {})"

fun owl_satisfies :: "expression_converter \<Rightarrow> 'd owl_interp \<Rightarrow> owl_axiom \<Rightarrow> bool" where
  "owl_satisfies C J (OwlSubClassOf v w) = (owl_ext C J v \<subseteq> owl_ext C J w)"
| "owl_satisfies C J (OwlEquivalentClasses vs) = (\<forall>v \<in> set vs. \<forall>w \<in> set vs. owl_ext C J v = owl_ext C J w)"
| "owl_satisfies C J (OwlDisjointClasses vs) = disjoint_exts (map (owl_ext C J) vs)"
| "owl_satisfies C J (OwlDisjointUnion d vs) =
     (disjoint_exts (map (owl_ext C J) vs) \<and> owl_ext C J d = (\<Union>v \<in> set vs. owl_ext C J v))"
| "owl_satisfies C J (OwlClassAssertion i v) = (owl_ext C J i \<subseteq> owl_ext C J v)"
| "owl_satisfies C J (OwlSameIndividual vs) = (\<forall>v \<in> set vs. \<forall>w \<in> set vs. owl_ext C J v = owl_ext C J w)"
| "owl_satisfies C J (OwlDifferentIndividuals vs) = disjoint_exts (map (owl_ext C J) vs)"
| "owl_satisfies C J (OwlObjectPropertyAssertion p a b) = (owl_ext C J a \<subseteq> some_ext (owl_role J p) (owl_ext C J b))"
| "owl_satisfies C J (OwlEquivalentObjectProperties ps) = (\<forall>p \<in> set ps. \<forall>q \<in> set ps. owl_role J p = owl_role J q)"
| "owl_satisfies C J (OwlSubObjectPropertyOf sub super) = (owl_role J sub \<subseteq> owl_role J super)"
| "owl_satisfies C J (OwlObjectPropertyDomain p v) = (some_ext (owl_role J p) (oi_domain J) \<subseteq> owl_ext C J v)"
| "owl_satisfies C J (OwlObjectPropertyRange p v) = (owl_role J p \<subseteq> UNIV \<times> owl_ext C J v)"
| "owl_satisfies C J (OwlReflexiveObjectProperty p) = (Id_on (oi_domain J) \<subseteq> owl_role J p)"
| "owl_satisfies C J (OwlTransitiveObjectProperty p) = (owl_role J p O owl_role J p \<subseteq> owl_role J p)"
| "owl_satisfies C J _ = True"

section \<open>Trees and normal axioms\<close>

fun tree_ext :: "'d owl_interp \<Rightarrow> expr_tree \<Rightarrow> 'd set" where
  "tree_ext J (Tree t es ts bs) = (case t of
     TAG_CLASS \<Rightarrow> oi_class J (iri (hd es))
   | TAG_INDIVIDUAL \<Rightarrow> {oi_individual J (iri (hd es))}
   | OBJECT_INTERSECTION_OF \<Rightarrow> (\<Inter>u \<in> set ts. tree_ext J u)
   | OBJECT_SOME_VALUES_FROM \<Rightarrow> some_ext (oi_property J (iri (hd es))) (\<Union>u \<in> set ts. tree_ext J u)
   | OBJECT_HAS_SELF \<Rightarrow> {x. (x, x) \<in> oi_property J (iri (hd es))}
   | DATA_HAS_VALUE \<Rightarrow> oi_data J (iri (hd es)) bs \<inter> oi_domain J
   | OBJECT_COMPLEMENT_OF \<Rightarrow> oi_domain J - (\<Union>u \<in> set ts. tree_ext J u)
   | OBJECT_UNION_OF \<Rightarrow> (\<Union>u \<in> set ts. tree_ext J u))"

fun entity_chain_role :: "'d owl_interp \<Rightarrow> entity_record list \<Rightarrow> ('d \<times> 'd) set" where
  "entity_chain_role J [] = Id_on (oi_domain J)"
| "entity_chain_role J (p # ps) = oi_property J (iri p) O entity_chain_role J ps"

fun satisfies_normal :: "'d owl_interp \<Rightarrow> normal_axiom \<Rightarrow> bool" where
  "satisfies_normal J (SubClassAxiom a b) = (tree_ext J a \<subseteq> tree_ext J b)"
| "satisfies_normal J (EquivalentAxiom a b) = (tree_ext J a = tree_ext J b)"
| "satisfies_normal J (DisjointAxiom ts) = disjoint_exts (map (tree_ext J) ts)"
| "satisfies_normal J (SubPropertyAxiom ps p) = (entity_chain_role J ps \<subseteq> oi_property J (iri p))"
| "satisfies_normal J (RangeAxiom p a) = (oi_property J (iri p) \<subseteq> UNIV \<times> tree_ext J a)"

section \<open>What is converted is plain\<close>

fun named_property :: "owl_property \<Rightarrow> bool" where
  "named_property (OwlObjectProperty i) = True"
| "named_property _ = False"

fun plain :: "owl_value \<Rightarrow> bool" where
  "plain OwlAnonymousIndividual = False"
| "plain (OwlObjectIntersectionOf vs) = list_all plain vs"
| "plain (OwlObjectUnionOf vs) = list_all plain vs"
| "plain (OwlObjectComplementOf v) = plain v"
| "plain (OwlObjectOneOf vs) = list_all plain vs"
| "plain (OwlObjectSomeValuesFrom p v) = (named_property p \<and> plain v)"
| "plain (OwlObjectHasValue p v) = (named_property p \<and> plain v)"
| "plain (OwlObjectHasSelf p) = named_property p"
| "plain (OwlOtherExpression name) = False"
| "plain _ = True"

fun plain_chain :: "owl_property \<Rightarrow> bool" where
  "plain_chain (OwlObjectPropertyChain ps) = (list_all named_property ps \<and> ps \<noteq> [])"
| "plain_chain p = named_property p"

fun plain_axiom :: "owl_axiom \<Rightarrow> bool" where
  "plain_axiom (OwlSubClassOf v w) = (plain v \<and> plain w)"
| "plain_axiom (OwlEquivalentClasses vs) = list_all plain vs"
| "plain_axiom (OwlDisjointClasses vs) = list_all plain vs"
| "plain_axiom (OwlDisjointUnion d vs) = (plain d \<and> list_all plain vs)"
| "plain_axiom (OwlClassAssertion i v) = (plain i \<and> plain v)"
| "plain_axiom (OwlSameIndividual vs) = list_all plain vs"
| "plain_axiom (OwlDifferentIndividuals vs) = list_all plain vs"
| "plain_axiom (OwlObjectPropertyAssertion p a b) = (named_property p \<and> plain a \<and> plain b)"
| "plain_axiom (OwlEquivalentObjectProperties ps) = list_all named_property ps"
| "plain_axiom (OwlSubObjectPropertyOf sub super) = (plain_chain sub \<and> named_property super)"
| "plain_axiom (OwlObjectPropertyDomain p v) = (named_property p \<and> plain v)"
| "plain_axiom (OwlObjectPropertyRange p v) = (named_property p \<and> plain v)"
| "plain_axiom (OwlReflexiveObjectProperty p) = named_property p"
| "plain_axiom (OwlTransitiveObjectProperty p) = named_property p"
| "plain_axiom _ = True"

lemma converted_property: "convert_object_property p pol m = Inr r \<Longrightarrow> named_property p"
  by (cases p) (auto simp: convert_object_property_def)

lemma converted_value:
  shows "convert_value C v pol m = Inr (h, m') \<Longrightarrow> plain v"
    and "convert_values C vs pol m = Inr (hs, m') \<Longrightarrow> list_all plain vs"
  by (induction C v pol and C vs pol arbitrary: m h m' and m hs m' rule: convert_value_convert_values.induct)
    (auto simp: sbind_Inr convert_has_self_def dest: converted_property split: option.splits)

lemma converted_expression: "convert_expression C v pol m = Inr (h, m') \<Longrightarrow> plain v"
  using convert_expression_recursion [of v C pol m] converted_value(1) by (auto split: if_splits)

lemma converted_list: "smap (\<lambda>v. convert_expression C v pol) vs m = Inr (hs, m') \<Longrightarrow> list_all plain vs"
  by (induction vs arbitrary: m hs m') (auto simp: sbind_Inr dest: converted_expression)

lemma converted_properties: "smap (\<lambda>p. convert_object_property p pol) ps m = Inr (rs, m') \<Longrightarrow> list_all named_property ps \<and> length rs = length ps"
  by (induction ps arbitrary: m rs m') (auto simp: sbind_Inr dest: converted_property)

lemma converted_for: "sfor f xs m = Inr (u, m') \<Longrightarrow> (\<And>x m m'. f x m = Inr ((), m') \<Longrightarrow> Q x) \<Longrightarrow> list_all Q xs"
  by (induction xs arbitrary: m) (auto simp: sbind_Inr)

lemma converted_equivalents: "equivalent_to C h b vs m = Inr (u, m') \<Longrightarrow> list_all plain vs"
  by (induction vs arbitrary: m) (auto simp: sbind_Inr dest: converted_expression)

lemma converted_pairs: "disjoint_pairs_of C b vs m = Inr (u, m') \<Longrightarrow> list_all plain vs"
  by (induction vs arbitrary: m) (auto simp: sbind_Inr dest: converted_expression)

lemma converted_disjoint: "convert_disjoint C vs m = Inr (u, m') \<Longrightarrow> list_all plain vs"
  by (auto simp: convert_disjoint_def sbind_Inr dest: converted_list converted_pairs split: if_splits)

lemma converted_chain: "convert_property_chain p m = Inr (rs, m') \<Longrightarrow> plain_chain p"
  by (cases p) (auto simp: convert_property_chain_def sbind_Inr dest: converted_properties split: if_splits)

lemma converted_union: "convert_disjoint_union C d vs m = Inr (u, m') \<Longrightarrow> plain d \<and> list_all plain vs"
  by (auto simp: convert_disjoint_union_def sbind_Inr dest: converted_disjoint converted_expression split: list.splits)

lemma converted_same: "convert_same_individual C vs m = Inr (u, m') \<Longrightarrow> list_all plain vs"
  by (cases vs) (auto simp: sbind_Inr dest: converted_expression elim!: converted_for)

lemma converted_equal_properties: "convert_equivalent_object_properties ps m = Inr (u, m') \<Longrightarrow> list_all named_property ps"
  by (cases ps) (auto simp: sbind_Inr dest: converted_property elim!: converted_for)

lemma converted_equivalent_classes: "convert_equivalent_classes C vs m = Inr (u, m') \<Longrightarrow> list_all plain vs"
  by (cases vs) (auto simp: sbind_Inr dest: converted_expression converted_equivalents)

lemmas converted_parts = converted_expression converted_property converted_disjoint converted_chain converted_union converted_same
  converted_equal_properties converted_equivalent_classes

lemma converted_plain: "converted C ax \<Longrightarrow> plain_axiom ax"
proof -
  assume "converted C ax"
  then obtain u m' where r: "convert_axiom C ax empty_index = Inr (u, m')" by (auto simp: converted_def split: sum.splits)
  then have "dict_get UNSUPPORTED_AXIOM_FEATURE (axiom_type ax) = None" by (auto simp: convert_axiom_def split: option.splits)
  with r show ?thesis
    by (cases ax) (auto simp: convert_axiom_def sbind_Inr convert_subclass_def convert_object_property_assertion_def convert_domain_def
      convert_range_def convert_reflexive_def convert_transitive_def simp del: convert_same_individual.simps convert_equivalent_classes.simps
      convert_equivalent_object_properties.simps dest: converted_parts)
qed

section \<open>Expressions keep their meaning\<close>

lemma named_role: "named_property p \<Longrightarrow> oi_property J (iri (property_entity p)) = owl_role J p"
  by (cases p) (simp_all add: property_entity_def)

lemma tree_ext_some: "tree_ext J (some_tree p t) = some_ext (oi_property J (iri p)) (tree_ext J t)"
  by (simp add: some_tree_def)

lemma tree_ext_and: "tree_ext J (and_tree a b) = tree_ext J a \<inter> tree_ext J b"
  by (simp add: and_tree_def)

lemma tree_ext_foldl: "tree_ext J (foldl and_tree t ts) = tree_ext J t \<inter> (\<Inter>u \<in> set ts. tree_ext J u)"
  by (induction ts arbitrary: t) (auto simp: tree_ext_and)

lemma tree_ext_names: "owl_interpretation J \<Longrightarrow> tree_ext J thing_tree = oi_domain J" "owl_interpretation J \<Longrightarrow> tree_ext J nothing_tree = {}"
  by (simp_all add: thing_tree_def nothing_tree_def named_tree_def owl_interpretation_def)

lemma tree_ext_conjunction:
  assumes "owl_interpretation J" and "\<forall>t \<in> set ts. tree_ext J t \<subseteq> oi_domain J"
  shows "tree_ext J (conjunction_tree ts) = oi_domain J \<inter> (\<Inter>t \<in> set ts. tree_ext J t)"
  using assms by (cases ts) (auto simp: tree_ext_names tree_ext_foldl)

lemma tree_ext_union: "owl_interpretation J \<Longrightarrow> tree_ext J (union_tree ts) = (\<Union>t \<in> set ts. tree_ext J t)"
  by (auto simp: union_tree_def tree_ext_names split: list.splits)

lemma owl_role_domain: "owl_interpretation J \<Longrightarrow> named_property p \<Longrightarrow> owl_role J p \<subseteq> oi_domain J \<times> oi_domain J"
  by (cases p) (simp_all add: owl_interpretation_def)

lemma owl_ext_domain: "owl_interpretation J \<Longrightarrow> plain v \<Longrightarrow> owl_ext C J v \<subseteq> oi_domain J"
proof (induction v)
  case (OwlObjectSomeValuesFrom p v)
  then show ?case using owl_role_domain [of J p] by (auto simp: some_ext_def)
next
  case (OwlObjectHasValue p v)
  then show ?case using owl_role_domain [of J p] by (auto simp: some_ext_def)
next
  case (OwlObjectHasSelf p)
  then show ?case using owl_role_domain [of J p] by auto
qed (auto simp: owl_interpretation_def list_all_iff)

lemma value_tree_ext: "owl_interpretation J \<Longrightarrow> plain v \<Longrightarrow> tree_ext J (value_tree C v) = owl_ext C J v"
proof (induction v)
  case (OwlObjectIntersectionOf vs)
  then have "\<forall>v \<in> set vs. tree_ext J (value_tree C v) = owl_ext C J v \<and> owl_ext C J v \<subseteq> oi_domain J"
    using owl_ext_domain [OF OwlObjectIntersectionOf.prems(1), of _ C] by (simp add: list_all_iff)
  with OwlObjectIntersectionOf.prems(1) show ?case by (simp add: tree_ext_conjunction)
next
  case (OwlObjectUnionOf vs)
  then show ?case by (simp add: tree_ext_union list_all_iff)
next
  case (OwlObjectOneOf vs)
  then show ?case by (simp add: tree_ext_union list_all_iff)
qed (simp_all add: named_tree_def tree_ext_some named_role self_tree_def data_tree_def)

section \<open>Axioms keep their meaning\<close>

lemma disjoint_exts_Cons: "disjoint_exts (X # Xs) \<longleftrightarrow> (\<forall>Y \<in> set Xs. X \<inter> Y = {}) \<and> disjoint_exts Xs"
proof (intro iffI conjI ballI)
  assume d: "disjoint_exts (X # Xs)"
  show "X \<inter> Y = {}" if "Y \<in> set Xs" for Y
  proof -
    from that obtain j where "j < length Xs" "Xs ! j = Y" by (auto simp: in_set_conv_nth)
    with d [unfolded disjoint_exts_def, rule_format, of 0 "Suc j"] show ?thesis by simp
  qed
  show "disjoint_exts Xs"
    unfolding disjoint_exts_def
  proof (intro allI impI)
    fix i j assume "i < length Xs" "j < length Xs" "i \<noteq> j"
    with d [unfolded disjoint_exts_def, rule_format, of "Suc i" "Suc j"] show "Xs ! i \<inter> Xs ! j = {}" by simp
  qed
next
  assume d: "(\<forall>Y \<in> set Xs. X \<inter> Y = {}) \<and> disjoint_exts Xs"
  show "disjoint_exts (X # Xs)"
    unfolding disjoint_exts_def
  proof (intro allI impI)
    fix i j assume "i < length (X # Xs)" "j < length (X # Xs)" "i \<noteq> j"
    with d show "(X # Xs) ! i \<inter> (X # Xs) ! j = {}"
      by (cases i; cases j) (auto simp: disjoint_exts_def Int_commute)
  qed
qed

lemma exclusion_axioms_hold:
  assumes "owl_interpretation J"
  shows "(\<forall>n \<in> exclusion_axioms ts. satisfies_normal J n) \<longleftrightarrow> disjoint_exts (map (tree_ext J) ts)"
proof (induction ts)
  case Nil
  then show ?case by (simp add: disjoint_exts_def)
next
  case (Cons t ts)
  then show ?case using tree_ext_names [OF assms] by (simp add: disjoint_exts_Cons tree_ext_and ball_Un)
qed

lemma disjointness_axioms_hold:
  "owl_interpretation J \<Longrightarrow> (\<forall>n \<in> disjointness_axioms ts. satisfies_normal J n) \<longleftrightarrow> disjoint_exts (map (tree_ext J) ts)"
  using exclusion_axioms_hold by (auto simp: disjointness_axioms_def)

lemma equivalence_axioms_hold: "(\<forall>n \<in> equivalence_axioms ts. satisfies_normal J n) \<longleftrightarrow> (\<forall>t \<in> set ts. \<forall>u \<in> set ts. tree_ext J t = tree_ext J u)"
proof (cases ts)
  case (Cons t us)
  have "(\<forall>n \<in> equivalence_axioms ts. satisfies_normal J n) \<longleftrightarrow> (\<forall>u \<in> set us. tree_ext J t = tree_ext J u)"
  proof -
    have "satisfies_normal J (equivalence_axiom t u) \<longleftrightarrow> tree_ext J t = tree_ext J u" for u by (auto simp: equivalence_axiom_def)
    then show ?thesis by (simp add: Cons)
  qed
  also have "\<dots> \<longleftrightarrow> (\<forall>t \<in> set ts. \<forall>u \<in> set ts. tree_ext J t = tree_ext J u)"
    unfolding Cons list.set by (metis insert_iff)
  finally show ?thesis .
qed simp

lemma mutual_axioms_hold:
  assumes "\<And>a b. satisfies_normal J (f a b) \<longleftrightarrow> g a \<subseteq> g b"
  shows "(\<forall>n \<in> mutual_axioms f ts. satisfies_normal J n) \<longleftrightarrow> (\<forall>t \<in> set ts. \<forall>u \<in> set ts. g t = g u)"
proof (cases ts)
  case (Cons t us)
  have "(\<forall>n \<in> mutual_axioms f ts. satisfies_normal J n) \<longleftrightarrow> (\<forall>u \<in> set us. g t = g u)"
    by (auto simp: Cons assms)
  also have "\<dots> \<longleftrightarrow> (\<forall>t \<in> set ts. \<forall>u \<in> set ts. g t = g u)"
    unfolding Cons list.set by (metis insert_iff)
  finally show ?thesis .
qed simp

lemma plain_values: "owl_interpretation J \<Longrightarrow> list_all plain vs \<Longrightarrow> map (tree_ext J \<circ> value_tree C) vs = map (owl_ext C J) vs"
  by (auto simp: list_all_iff value_tree_ext)

lemma chain_entities_role:
  assumes J: "owl_interpretation J" and p: "plain_chain p"
  shows "entity_chain_role J (chain_entities p) = owl_role J p"
proof (cases p)
  case (OwlObjectProperty i)
  have "oi_property J i \<subseteq> oi_domain J \<times> oi_domain J" using J by (simp add: owl_interpretation_def)
  then show ?thesis by (auto simp: OwlObjectProperty chain_entities_def property_entity_def)
next
  case (OwlObjectPropertyChain ps)
  have "entity_chain_role J (map property_entity ps) = foldr (\<lambda>p R. owl_role J p O R) ps (Id_on (oi_domain J))"
    if "list_all named_property ps" for ps using that by (induction ps) (simp_all add: named_role)
  with p show ?thesis by (simp add: OwlObjectPropertyChain chain_entities_def)
qed (use p in simp)

lemma single_chain_role: "owl_interpretation J \<Longrightarrow> entity_chain_role J [p] = oi_property J (iri p)"
proof -
  assume "owl_interpretation J"
  then have "oi_property J (iri p) \<subseteq> oi_domain J \<times> oi_domain J" by (simp add: owl_interpretation_def)
  then show ?thesis by auto
qed

text \<open>Only a disjoint union of several classes keeps less than its meaning: that the union covers the class is
  dropped, and counted as a feature.\<close>

fun fully_kept :: "owl_axiom \<Rightarrow> bool" where
  "fully_kept (OwlDisjointUnion d vs) = (length vs < 2)"
| "fully_kept _ = True"

lemma union_axioms_hold:
  assumes "owl_interpretation J"
  shows "tree_ext J d = (\<Union>t \<in> set ts. tree_ext J t) \<Longrightarrow> \<forall>n \<in> union_axioms d ts. satisfies_normal J n"
    and "length ts < 2 \<Longrightarrow> \<forall>n \<in> union_axioms d ts. satisfies_normal J n \<Longrightarrow> tree_ext J d = (\<Union>t \<in> set ts. tree_ext J t)"
  using tree_ext_names(2) [OF assms] by (auto simp: union_axioms_def split: list.splits)

lemma axiom_rows_meaning:
  assumes J: "owl_interpretation J" and "plain_axiom ax"
  shows "owl_satisfies C J ax \<Longrightarrow> \<forall>n \<in> axiom_rows C ax. satisfies_normal J n"
    and "fully_kept ax \<Longrightarrow> \<forall>n \<in> axiom_rows C ax. satisfies_normal J n \<Longrightarrow> owl_satisfies C J ax"
proof -
  have tree: "plain v \<Longrightarrow> tree_ext J (value_tree C v) = owl_ext C J v" for v by (rule value_tree_ext [OF J])
  note lists = plain_values [OF J]
  have union: "(\<Union>v \<in> set vs. tree_ext J (value_tree C v)) = (\<Union>v \<in> set vs. owl_ext C J v)" if "list_all plain vs" for vs
    using that tree by (auto simp: list_all_iff)
  note [simp del] = entity_chain_role.simps
  note simps = tree tree_ext_some tree_ext_names [OF J] named_role single_chain_role [OF J] chain_entities_role [OF J]
  have both: "(\<forall>n \<in> axiom_rows C ax. satisfies_normal J n) \<longleftrightarrow> owl_satisfies C J ax" if "\<And>d vs. ax \<noteq> OwlDisjointUnion d vs"
  proof (cases ax)
    case (OwlEquivalentClasses vs)
    with assms(2) tree show ?thesis by (simp add: equivalence_axioms_hold list_all_iff)
  next
    case (OwlDisjointClasses vs)
    with assms(2) show ?thesis by (simp add: disjointness_axioms_hold [OF J] lists)
  next
    case (OwlDifferentIndividuals vs)
    with assms(2) show ?thesis by (simp add: disjointness_axioms_hold [OF J] lists)
  next
    case (OwlSameIndividual vs)
    have "satisfies_normal J (SubClassAxiom a b) \<longleftrightarrow> tree_ext J a \<subseteq> tree_ext J b" for a b by simp
    from mutual_axioms_hold [of J SubClassAxiom, OF this] OwlSameIndividual assms(2) tree show ?thesis by (simp add: list_all_iff)
  next
    case (OwlEquivalentObjectProperties ps)
    have "satisfies_normal J (SubPropertyAxiom [a] b) \<longleftrightarrow> oi_property J (iri a) \<subseteq> oi_property J (iri b)" for a b
      by (simp add: single_chain_role [OF J])
    from mutual_axioms_hold [of J "\<lambda>p q. SubPropertyAxiom [p] q", OF this] OwlEquivalentObjectProperties assms(2)
    show ?thesis by (simp add: list_all_iff named_role)
  next
    case (OwlReflexiveObjectProperty p)
    with assms(2) show ?thesis by (auto simp: simps self_tree_def)
  next
    case (OwlTransitiveObjectProperty p)
    have "oi_property J (iri (property_entity p)) O entity_chain_role J [property_entity p] = owl_role J p O owl_role J p"
      using OwlTransitiveObjectProperty assms(2) by (simp add: simps)
    with OwlTransitiveObjectProperty assms(2) show ?thesis by (simp add: entity_chain_role.simps(2) [of J _ "[_]"] named_role)
  next
    case (OwlDisjointUnion d vs)
    with that [of d vs] show ?thesis by simp
  qed (use assms(2) in \<open>simp_all add: simps\<close>)
  show "\<forall>n \<in> axiom_rows C ax. satisfies_normal J n" if "owl_satisfies C J ax"
  proof (cases "\<exists>d vs. ax = OwlDisjointUnion d vs")
    case True
    then obtain d vs where "ax = OwlDisjointUnion d vs" by blast
    with that assms(2) disjointness_axioms_hold [OF J, of "map (value_tree C) vs"] union_axioms_hold(1) [OF J, of "value_tree C d" "map (value_tree C) vs"]
    show ?thesis by (simp add: ball_Un lists union tree)
  next
    case False
    then have "(\<forall>n \<in> axiom_rows C ax. satisfies_normal J n) \<longleftrightarrow> owl_satisfies C J ax" by (intro both) blast
    with that show ?thesis by simp
  qed
  show "owl_satisfies C J ax" if "fully_kept ax" "\<forall>n \<in> axiom_rows C ax. satisfies_normal J n"
  proof (cases "\<exists>d vs. ax = OwlDisjointUnion d vs")
    case True
    then obtain d vs where "ax = OwlDisjointUnion d vs" by blast
    with that assms(2) disjointness_axioms_hold [OF J, of "map (value_tree C) vs"] union_axioms_hold(2) [OF J, of "map (value_tree C) vs" "value_tree C d"]
    show ?thesis by (simp add: ball_Un lists union tree)
  next
    case False
    then have "(\<forall>n \<in> axiom_rows C ax. satisfies_normal J n) \<longleftrightarrow> owl_satisfies C J ax" by (intro both) blast
    with that show ?thesis by simp
  qed
qed

section \<open>Tables\<close>

text \<open>The interpretation of compiled tables that reads every expression through its tree.\<close>

definition table_interp :: "compiled_ontology \<Rightarrow> 'd owl_interp \<Rightarrow> 'd interp" where
  "table_interp co J = \<lparr>domain = oi_domain J, ext = (\<lambda>e. tree_ext J (table_tree co e)),
     role = (\<lambda>p. oi_property J (iri (entities co ! p))), individual = (\<lambda>a. oi_individual J (iri (entities co ! a))),
     data_ext = (\<lambda>p bs. oi_data J (iri (entities co ! p)) bs)\<rparr>"

lemma table_interp_simps [simp]:
  "domain (table_interp co J) = oi_domain J" "ext (table_interp co J) e = tree_ext J (table_tree co e)"
  "role (table_interp co J) p = oi_property J (iri (entities co ! p))"
  "individual (table_interp co J) a = oi_individual J (iri (entities co ! a))"
  "data_ext (table_interp co J) p bs = oi_data J (iri (entities co ! p)) bs"
  by (simp_all add: table_interp_def)

lemma dependencies_below:
  assumes "valid_ontology co" and "is_expression co e"
  shows "expression_dependencies (expressions co ! e) \<subseteq> {..<e}"
proof (cases "tag (expressions co ! e)")
  case OBJECT_INTERSECTION_OF
  obtain a b where "arguments (expressions co ! e) = [a, b]" "a < e" "b < e" by (rule intersection_arguments [OF assms OBJECT_INTERSECTION_OF])
  with OBJECT_INTERSECTION_OF show ?thesis by simp
next
  case OBJECT_SOME_VALUES_FROM
  obtain p f where "arguments (expressions co ! e) = [p, f]" "f < e" by (rule existential_arguments [OF assms OBJECT_SOME_VALUES_FROM])
  with OBJECT_SOME_VALUES_FROM show ?thesis by simp
next
  case OBJECT_COMPLEMENT_OF
  obtain a where "arguments (expressions co ! e) = [a]" "a < e" by (rule complement_arguments [OF assms OBJECT_COMPLEMENT_OF])
  with OBJECT_COMPLEMENT_OF show ?thesis by simp
next
  case OBJECT_UNION_OF
  show ?thesis
  proof
    fix a assume "a \<in> expression_dependencies (expressions co ! e)"
    then show "a \<in> {..<e}" using union_arguments(1) [OF assms OBJECT_UNION_OF] by (simp add: OBJECT_UNION_OF)
  qed
qed simp_all

lemma table_tree_record:
  assumes "valid_ontology co" and "is_expression co e"
  shows "table_tree co e = record_tree (entities co) (record_trees (entities co) (expressions co)) (expressions co ! e)"
  unfolding table_tree_def
  by (rule record_trees_nth [OF assms(2) [unfolded is_expression_def] dependencies_below [OF assms]])

lemma table_record_ext:
  assumes J: "owl_interpretation J" and v: "valid_ontology co" and e: "is_expression co e"
  shows "record_ext co (table_interp co J) (expressions co ! e) (tree_ext J (table_tree co e))"
proof -
  note tree = table_tree_record [OF v e] and args = valid_expression_unfolded [OF v e]
  have child: "record_trees (entities co) (expressions co) ! x = table_tree co x" for x by (simp add: table_tree_def)
  have names: "oi_class J i \<subseteq> oi_domain J" "oi_individual J i \<in> oi_domain J"
    "oi_class J OWL_THING_IRI = oi_domain J" "oi_class J OWL_NOTHING_IRI = {}" for i
    using J by (auto simp: owl_interpretation_def)
  show ?thesis
  proof (cases "tag (expressions co ! e)")
    case OBJECT_INTERSECTION_OF
    obtain a b where "arguments (expressions co ! e) = [a, b]" by (rule intersection_arguments [OF v e OBJECT_INTERSECTION_OF])
    with OBJECT_INTERSECTION_OF show ?thesis by (simp add: record_ext_def tree record_tree_def child)
  next
    case OBJECT_SOME_VALUES_FROM
    obtain a b where "arguments (expressions co ! e) = [a, b]" by (rule existential_arguments [OF v e OBJECT_SOME_VALUES_FROM])
    with OBJECT_SOME_VALUES_FROM show ?thesis by (simp add: record_ext_def tree record_tree_def child)
  next
    case OBJECT_COMPLEMENT_OF
    obtain a where "arguments (expressions co ! e) = [a]" by (rule complement_arguments [OF v e OBJECT_COMPLEMENT_OF])
    with OBJECT_COMPLEMENT_OF show ?thesis by (simp add: record_ext_def tree record_tree_def child)
  next
    case OBJECT_UNION_OF
    then show ?thesis by (simp add: record_ext_def tree record_tree_def child)
  qed (use args names in \<open>auto simp: record_ext_def tree record_tree_def\<close>)
qed

lemma table_chain_role: "chain_role (table_interp co J) ps = entity_chain_role J (map ((!) (entities co)) ps)"
  by (induction ps) simp_all

lemma disjoint_exts_nth:
  "disjoint_exts (map f g) \<longleftrightarrow> (\<forall>i < length g. \<forall>j < length g. i \<noteq> j \<longrightarrow> f (g ! i) \<inter> f (g ! j) = {})"
  by (simp add: disjoint_exts_def)

lemma table_satisfies:
  assumes "\<forall>n \<in> table_axioms co. satisfies_normal J n"
  shows "satisfies co (table_interp co J)"
proof -
  have mem: "(a, b) \<in> set (subclass_axioms co) \<Longrightarrow> SubClassAxiom (table_tree co a) (table_tree co b) \<in> table_axioms co"
    "(a, b) \<in> set (equivalent_class_axioms co) \<Longrightarrow> EquivalentAxiom (table_tree co a) (table_tree co b) \<in> table_axioms co"
    "g \<in> set (disjoint_groups co) \<Longrightarrow> DisjointAxiom (map (table_tree co) g) \<in> table_axioms co"
    "(c, p) \<in> set (subproperty_axioms co) \<Longrightarrow> SubPropertyAxiom (map ((!) (entities co)) (property_chains co ! c)) (entities co ! p) \<in> table_axioms co"
    "(p, a) \<in> set (property_ranges co) \<Longrightarrow> RangeAxiom (entities co ! p) (table_tree co a) \<in> table_axioms co" for a b c p g
    unfolding table_axioms_def by force+
  have "\<forall>g \<in> set (disjoint_groups co). disjoint_exts (map (tree_ext J) (map (table_tree co) g))"
    using assms mem(3) by fastforce
  then have "\<forall>g \<in> set (disjoint_groups co). \<forall>i < length g. \<forall>j < length g. i \<noteq> j \<longrightarrow> tree_ext J (table_tree co (g ! i)) \<inter> tree_ext J (table_tree co (g ! j)) = {}"
    by (simp add: disjoint_exts_nth)
  moreover have "\<forall>(a, b) \<in> set (subclass_axioms co). tree_ext J (table_tree co a) \<subseteq> tree_ext J (table_tree co b)"
    using assms mem(1) by fastforce
  moreover have "\<forall>(a, b) \<in> set (equivalent_class_axioms co). tree_ext J (table_tree co a) = tree_ext J (table_tree co b)"
    using assms mem(2) by fastforce
  moreover have "\<forall>(c, p) \<in> set (subproperty_axioms co). chain_role (table_interp co J) (property_chains co ! c) \<subseteq> oi_property J (iri (entities co ! p))"
    using assms mem(4) unfolding table_chain_role by fastforce
  moreover have "\<forall>(p, a) \<in> set (property_ranges co). oi_property J (iri (entities co ! p)) \<subseteq> UNIV \<times> tree_ext J (table_tree co a)"
    using assms mem(5) by fastforce
  ultimately show ?thesis unfolding satisfies_def table_interp_simps by blast
qed

lemma table_model:
  assumes J: "owl_interpretation J" and v: "valid_ontology co" and ax: "\<forall>n \<in> table_axioms co. satisfies_normal J n"
  shows "is_model co (table_interp co J)"
proof -
  have "property_ext co (table_interp co J) p" for p
    using J by (auto simp: property_ext_def owl_interpretation_def)
  moreover have "oi_domain J \<noteq> {}" using J by (simp add: owl_interpretation_def)
  ultimately show ?thesis
    using table_record_ext [OF J v] table_satisfies [OF ax] by (simp add: is_model_def interprets_def)
qed

lemma table_ranges: "(\<And>p a. RangeAxiom p a \<notin> table_axioms co) \<Longrightarrow> property_ranges co = []"
  unfolding table_axioms_def by (cases "property_ranges co") force+

end
