(* ===== verification/Builder_Limits.thy ===== *)
theory Builder_Limits
  imports Builder_Results Engine_Results
begin

text \<open>
  Bounds on a builder of \<open>src/pyelk/indexing/builder.py\<close> under which the frozen tables are within the limits of the
  property stage and of the engine.
\<close>

section \<open>Limits of a builder\<close>

definition builder_limits :: "mutable_index \<Rightarrow> bool" where
  "builder_limits m \<longleftrightarrow> 2 * length (mi_entities m) + length (mi_expressions m) < U32_RESERVED \<and>
     2 * length (mi_entities m) + sum_list (map length (mi_property_chains m)) < U32_RESERVED \<and>
     length (mi_disjoint_groups m) \<le> U32_RESERVED \<and> (\<forall>g \<in> set (mi_disjoint_groups m). length g \<le> U32_RESERVED) \<and>
     (\<forall>key \<in> set (mi_expressions m). length (key_expressions key) \<le> U32_RESERVED)"

lemma card_named_keys: "card (named_keys (set es)) \<le> length es"
proof -
  have "named_keys (set es) \<subseteq> (\<lambda>e. the_key (if kind e = CLASS then TAG_CLASS else TAG_INDIVIDUAL) [e] [] []) ` set es"
    by (auto simp: named_keys_def intro: rev_image_eqI)
  from surj_card_le [OF _ this] card_length [of es] show ?thesis by simp
qed

lemma nonempty_rows_length: "[] \<notin> set xss \<Longrightarrow> length xss \<le> sum_list (map length xss)"
proof (induction xss)
  case (Cons xs xss)
  then show ?case by (cases xs) auto
qed simp

lemma builder_limits_fit:
  assumes "index_ok m" and "builder_limits m"
  shows "ontology_fits m"
proof -
  note b = assms(2) [unfolded builder_limits_def]
  have "card (set (mi_expressions m) \<union> named_keys (set (mi_entities m))) \<le> length (mi_expressions m) + length (mi_entities m)"
    using card_Un_le [of "set (mi_expressions m)" "named_keys (set (mi_entities m))"] card_length [of "mi_expressions m"]
      card_named_keys [of "mi_entities m"] by linarith
  moreover have "{[p] | p. p \<in> set (mi_entities m) \<and> kind p = OBJECT_PROPERTY} \<subseteq> (\<lambda>p. [p]) ` set (mi_entities m)" by blast
  from surj_card_le [OF _ this] card_length [of "mi_entities m"]
  have singles: "card {[p] | p. p \<in> set (mi_entities m) \<and> kind p = OBJECT_PROPERTY} \<le> length (mi_entities m)" by simp
  have "[] \<notin> set (mi_property_chains m)" using assms(1) by (auto simp: index_ok_def rows_ok_def)
  then have "card (set (mi_property_chains m)) \<le> sum_list (map length (mi_property_chains m))"
    using nonempty_rows_length card_length le_trans by blast
  with singles card_Un_le [of "set (mi_property_chains m)" "{[p] | p. p \<in> set (mi_entities m) \<and> kind p = OBJECT_PROPERTY}"]
  have "card (set (mi_property_chains m) \<union> {[p] | p. p \<in> set (mi_entities m) \<and> kind p = OBJECT_PROPERTY}) \<le>
      sum_list (map length (mi_property_chains m)) + length (mi_entities m)" by linarith
  ultimately show ?thesis using b unfolding ontology_fits_def index_fits_def by linarith
qed

lemma sum_add_all: "sum_list (map length (add_all new xs)) \<le> sum_list (map length new) + sum_list (map length xs)"
proof (induction new arbitrary: xs)
  case (Cons y ys)
  have "sum_list (map length (add_new y xs)) \<le> length y + sum_list (map length xs)" by (simp add: add_new_def)
  with Cons [of "add_new y xs"] show ?case by (simp add: add_all_def)
qed (simp add: add_all_def)

lemma sum_insort: "sum_list (map length (insort xs xss)) = length xs + sum_list (map length xss)"
  by (induction xss) simp_all

lemma sum_sort: "sum_list (map length (sort xss)) = sum_list (map length (xss :: 'a::linorder list list))"
  by (induction xss) (simp_all add: sum_insort)

lemma frozen_limits:
  assumes ok: "index_ok m" and limits: "builder_limits m" and predefined: "set predefined_records \<subseteq> set (mi_entities m)"
    and fingerprint: "length fingerprint = FINGERPRINT_SIZE" and frozen: "freeze_ontology fingerprint m = Some (Inr (co, m'))"
  shows "usable_ontology co"
proof (rule freeze_ontology_placed [OF ok builder_limits_fit [OF ok limits] predefined fingerprint])
  fix m1 es hs
  let ?m = "with_single_chains es m1"
  let ?co = "placed_ontology fingerprint es hs ?m"
  assume run: "freeze_ontology fingerprint m = Some (Inr (?co, ?m))" and tables: "frozen_tables m m1 es hs"
    and p: "placed_index es hs ?m" and ok1: "index_ok m1" and valid: "valid_ontology ?co"
  from run frozen have co: "co = ?co" by simp
  note b = limits [unfolded builder_limits_def] and t = tables [unfolded frozen_tables_def]
  have ext: "extended_by (named_keys (set (mi_entities m))) m m1" using t by blast
  have rows: "mi_property_chains m1 = mi_property_chains m" "mi_disjoint_groups m1 = mi_disjoint_groups m"
    using ext by (simp_all add: extended_by_def same_rows_def)
  have es: "length es \<le> length (mi_entities m)"
    using t card_length [of "mi_entities m"] by (metis distinct_card)
  have keys: "set (mi_expressions m1) = set (mi_expressions m) \<union> named_keys (set (mi_entities m))" using ext by (simp add: extended_by_def)
  have "distinct (mi_expressions m1)" using ok1 by (simp add: index_ok_def keys_ok_def keys_wf_def)
  then have "length (mi_expressions m1) = card (set (mi_expressions m1))" by (simp add: distinct_card)
  also have "\<dots> \<le> length (mi_expressions m) + length (mi_entities m)"
    unfolding keys using card_Un_le [of "set (mi_expressions m)" "named_keys (set (mi_entities m))"]
      card_length [of "mi_expressions m"] card_named_keys [of "mi_entities m"] by linarith
  finally have expressions: "length (expressions co) \<le> length (mi_expressions m) + length (mi_entities m)"
    using placed_index_facts(3) [OF p] by (simp add: co placed_ontology_def placed_records_def)
  have "length (object_properties (entities co)) \<le> length es"
    using length_filter_le [of "\<lambda>(_, r). kind r = OBJECT_PROPERTY" "enumerate 0 es"] by (simp add: co placed_ontology_def object_properties_def)
  moreover have "sum_list (map length (property_chains co)) = sum_list (map length (mi_property_chains ?m))"
    by (simp add: co placed_ontology_def placed_chains_def sum_sort comp_def)
  moreover have "sum_list (map length (map (\<lambda>p. [p]) (object_property_records es))) \<le> length es"
    by (simp add: object_property_records_def sum_list_triv comp_def)
  then have "sum_list (map length (mi_property_chains ?m)) \<le> length es + sum_list (map length (mi_property_chains m))"
    using sum_add_all [of "map (\<lambda>p. [p]) (object_property_records es)" "mi_property_chains m"] by (simp add: with_single_chains_def rows)
  ultimately have "small_chains co" using b es unfolding small_chains_def by linarith
  moreover have "length (entities co) < U32_RESERVED" using b es by (simp add: co placed_ontology_def)
  ultimately have property: "property_limits co" using b expressions unfolding property_limits_def by linarith
  have groups: "length (disjoint_groups co) \<le> U32_RESERVED" "\<forall>g \<in> set (disjoint_groups co). length g \<le> U32_RESERVED"
    using b by (simp_all add: co placed_ontology_def rows with_single_chains_def)
  have "length (arguments r) \<le> U32_RESERVED" if r: "r \<in> set (expressions co)" for r
  proof -
    obtain h where h: "h \<in> set hs" "r = key_record es hs (mi_expressions m1 ! h)"
      using r by (auto simp: co placed_ontology_def placed_records_def)
    let ?key = "mi_expressions m1 ! h"
    have mem: "h < length (mi_expressions m1)" using h(1) placed_index_facts(6) [OF p] by (simp add: is_handle_def)
    then have "?key \<in> set (mi_expressions m) \<or> ?key \<in> named_keys (set (mi_entities m))" using keys nth_mem by blast
    then have few: "length (key_expressions ?key) \<le> U32_RESERVED" using b by (auto simp: named_keys_def the_key_def)
    have "keys_wf (mi_entities m1) (mi_expressions m1)" using ok1 by (simp add: index_ok_def keys_ok_def)
    with mem have "shape_ok ?key" by (simp add: keys_wf_def)
    then have "length (arguments r) \<le> 2 \<or> length (arguments r) = length (key_expressions ?key)"
      by (cases "key_tag ?key") (auto simp: h(2) key_record_def key_arguments_def shape_simps)
    with few show ?thesis by (auto simp: U32_RESERVED_def)
  qed
  with groups have "class_limits co" by (simp add: class_limits_def)
  with property valid show ?thesis by (simp add: usable_ontology_def co)
qed

end
