(* ===== verification/Owl_Results.thy ===== *)
theory Owl_Results
  imports Owl_Semantics Builder_Limits
begin

text \<open>
  Theorems about the conversion and the compilation of OWL: which axioms the compiled tables hold, that
  conversion keeps the meaning of expressions and axioms, and what the reports of the reasoner say about
  the ontology that was compiled.
\<close>

section \<open>No axiom is lost\<close>

text \<open>What the code relies on in \<open>pyowl_core\<close>: a view contains an axiom when one of its rows is that axiom without
  annotations, and two different annotated axioms do not share their structural digest.\<close>

definition view_contract :: "ontology_view \<Rightarrow> bool" where
  "view_contract view \<longleftrightarrow>
     (\<forall>row \<in> set (view_rows view). view_contains view (row_axiom row) \<longrightarrow>
        (\<exists>plain \<in> set (view_rows view). row_axiom plain = row_axiom row \<and> \<not> row_annotated plain)) \<and>
     (\<forall>row \<in> set (view_rows view). \<forall>other \<in> set (view_rows view). row_annotated row \<longrightarrow> row_annotated other \<longrightarrow>
        structural_digest view (row_axiom row) = structural_digest view (row_axiom other) \<longrightarrow> row_axiom row = row_axiom other)"

lemma duplicate_cases:
  obtains (bare) "\<not> row_annotated row" "duplicate_annotated_axiom view row observed = (False, observed)"
  | (contained) "row_annotated row" "view_contains view (row_axiom row)" "duplicate_annotated_axiom view row observed = (True, observed)"
  | (seen) "row_annotated row" "structural_digest view (row_axiom row) \<in> set observed" "duplicate_annotated_axiom view row observed = (True, observed)"
  | (new) obs where "row_annotated row" "duplicate_annotated_axiom view row observed = (False, obs)"
      "set obs = insert (structural_digest view (row_axiom row)) (set observed)"
  by (cases "row_annotated row"; cases "view_contains view (row_axiom row)"; cases "structural_digest view (row_axiom row) \<in> set observed")
    (auto simp: duplicate_annotated_axiom_def add_new_def)

lemma bare_considered:
  assumes "row \<in> set rows" and "\<not> is_annotation_axiom (row_axiom row)" and "\<not> row_annotated row"
  shows "row_axiom row \<in> set (considered view rows observed)"
  using assms(1)
proof (induction rows arbitrary: observed)
  case (Cons first rows)
  show ?case
    by (rule duplicate_cases [of first view observed]) (use Cons assms(2,3) in auto)
qed simp

lemma annotated_considered:
  assumes "row \<in> set rows" and "\<not> is_annotation_axiom (row_axiom row)" and "\<not> view_contains view (row_axiom row)" and "row_annotated row"
  shows "structural_digest view (row_axiom row) \<in> set observed \<or>
    (\<exists>other \<in> set rows. row_annotated other \<and> row_axiom other \<in> set (considered view rows observed) \<and>
       structural_digest view (row_axiom other) = structural_digest view (row_axiom row))"
  using assms(1)
proof (induction rows arbitrary: observed)
  case (Cons first rows)
  show ?case
  proof (cases "row = first")
    case True
    show ?thesis
      by (rule duplicate_cases [of first view observed]) (use True assms(2-4) in auto)
  next
    case False
    then have "row \<in> set rows" using Cons.prems by simp
    note IH = Cons.IH [OF this]
    show ?thesis
    proof (cases "is_annotation_axiom (row_axiom first)")
      case True
      with IH [of observed] show ?thesis by auto
    next
      case False
      show ?thesis
      proof (rule duplicate_cases [of first view observed])
        fix obs assume o: "row_annotated first" "duplicate_annotated_axiom view first observed = (False, obs)"
          "set obs = insert (structural_digest view (row_axiom first)) (set observed)"
        then have "considered view (first # rows) observed = row_axiom first # considered view rows obs" using False by simp
        with IH [of obs] o show ?thesis by auto
      qed (use False IH [of observed] in auto)
    qed
  qed
qed simp

lemma view_axioms_complete:
  assumes "view_contract view"
  shows "set (view_axioms view) = {row_axiom row | row. row \<in> set (view_rows view) \<and> \<not> is_annotation_axiom (row_axiom row)}"
proof
  have "ax \<in> set (considered view rows observed) \<Longrightarrow> \<exists>row \<in> set rows. ax = row_axiom row \<and> \<not> is_annotation_axiom (row_axiom row)" for ax rows observed
    by (induction rows arbitrary: observed) (auto split: prod.splits if_splits)
  then show "set (view_axioms view) \<subseteq> {row_axiom row | row. row \<in> set (view_rows view) \<and> \<not> is_annotation_axiom (row_axiom row)}"
    unfolding view_axioms_def by blast
next
  note c = assms [unfolded view_contract_def]
  have direct: "row_axiom row \<in> set (view_axioms view)"
    if "row \<in> set (view_rows view)" "\<not> is_annotation_axiom (row_axiom row)" "\<not> row_annotated row \<or> \<not> view_contains view (row_axiom row)" for row
  proof (cases "row_annotated row")
    case False
    with bare_considered that show ?thesis by (simp add: view_axioms_def)
  next
    case True
    with annotated_considered [OF that(1,2), of view "[]"] that(3) obtain other where
      "other \<in> set (view_rows view)" "row_annotated other" "row_axiom other \<in> set (view_axioms view)"
      "structural_digest view (row_axiom other) = structural_digest view (row_axiom row)"
      by (auto simp: view_axioms_def)
    with conjunct2 [OF c] True that(1) show ?thesis by metis
  qed
  show "{row_axiom row | row. row \<in> set (view_rows view) \<and> \<not> is_annotation_axiom (row_axiom row)} \<subseteq> set (view_axioms view)"
  proof safe
    fix row assume row: "row \<in> set (view_rows view)" "\<not> is_annotation_axiom (row_axiom row)"
    show "row_axiom row \<in> set (view_axioms view)"
    proof (cases "view_contains view (row_axiom row)")
      case True
      with conjunct1 [OF c] row(1) obtain bare where "bare \<in> set (view_rows view)" "row_axiom bare = row_axiom row" "\<not> row_annotated bare" by blast
      with direct [of bare] row(2) show ?thesis by simp
    next
      case False
      with direct [of row] row show ?thesis by simp
    qed
  qed
qed

section \<open>What is converted is what is supported\<close>

lemma named_property_supported: "named_property p \<Longrightarrow> property_supported p"
  by (cases p) simp_all

lemma plain_supported: "plain v \<Longrightarrow> value_supported v"
  by (induction v) (auto simp: list_all_iff named_property_supported)

lemma plain_list_supported: "list_all plain vs \<Longrightarrow> list_all value_supported vs"
  and named_list_supported: "list_all named_property ps \<Longrightarrow> list_all property_supported ps"
  by (simp_all add: list_all_iff plain_supported named_property_supported)

lemma plain_chain_supported: "plain_chain p \<Longrightarrow> chain_supported p"
  by (cases p) (simp_all add: named_list_supported)

lemma converted_only_supported:
  assumes "converted C ax"
  shows "axiom_supported ax"
proof -
  obtain u m' where r: "convert_axiom C ax empty_index = Inr (u, m')" using assms by (auto simp: converted_def split: sum.splits)
  then have none: "dict_get UNSUPPORTED_AXIOM_FEATURE (axiom_type ax) = None" by (auto simp: convert_axiom_def split: option.splits)
  have "parts_supported ax"
  proof (cases ax)
    case (OwlDeclaration e)
    obtain k i where "e = OwlEntity k i" by (cases e)
    with OwlDeclaration r none show ?thesis by (cases k) (auto simp: convert_axiom_def convert_declaration_def)
  qed (use converted_plain [OF assms] in \<open>auto simp: plain_supported plain_list_supported named_list_supported named_property_supported plain_chain_supported\<close>)
  with none show ?thesis by (simp add: axiom_supported_def)
qed

text \<open>A builder is filled only if no axiom raised an exception of its own.\<close>

lemma compiled_not_raised:
  "compile_rows C mode view rows observed b = Inr b' \<Longrightarrow> ax \<in> set (considered view rows observed) \<Longrightarrow> convert_axiom C ax empty_index \<noteq> Inl (Raised x)"
proof (induction rows arbitrary: observed b)
  case (Cons row rows)
  obtain dup obs where dup: "duplicate_annotated_axiom view row observed = (dup, obs)" by fastforce
  show ?case
  proof (cases "is_annotation_axiom (row_axiom row) \<or> dup")
    case True
    with Cons dup show ?thesis by (auto split: if_splits)
  next
    case False
    with Cons.prems(1) dup obtain b1 where b1: "compile_axiom C mode (row_axiom row) b = Inr b1" "compile_rows C mode view rows obs b1 = Inr b'"
      by (auto simp: cbind_def split: sum.splits)
    have "convert_axiom C (row_axiom row) empty_index \<noteq> Inl (Raised x)"
      using b1(1) by (auto simp: compile_axiom_def new_transaction_def)
    with False dup Cons.prems(2) Cons.IH [OF b1(2)] show ?thesis by auto
  qed
qed simp

lemma supported_rows:
  assumes C: "converter_ok C" and ok: "\<forall>ax \<in> set (view_axioms view). axiom_ok C ax" and filled: "filled_builder C mode view = Inr b"
  shows "rows_of C (view_axioms view) = (\<Union>ax \<in> {ax \<in> set (view_axioms view). axiom_supported ax}. axiom_rows C ax)"
proof -
  obtain b0 where b0: "compile_rows C mode view (view_rows view) [] ontology_builder = Inr b0"
    using filled by (auto simp: filled_builder_def cbind_def split: sum.splits)
  have "converted C ax \<longleftrightarrow> axiom_supported ax" if ax: "ax \<in> set (view_axioms view)" for ax
  proof
    show "axiom_supported ax" if "converted C ax" using that by (rule converted_only_supported)
    assume "axiom_supported ax"
    with converted_supported [OF C _ this] ok ax compiled_not_raised [OF b0, of ax]
    show "converted C ax" by (auto simp: view_axioms_def)
  qed
  then have "{ax \<in> set (view_axioms view). converted C ax} = {ax \<in> set (view_axioms view). axiom_supported ax}" by blast
  then show ?thesis by (simp add: rows_of_def)
qed

text \<open>A compilation that returned tables froze its builder.\<close>

lemma compiled_builder:
  assumes C: "converter_ok (reading literal_key max_nodes)" and mode: "validate_unsupported unsupported = Inr mode"
    and compiled: "compile_ontology sha256 fingerprint_of literal_key view unsupported max_nodes = Some (Inr (co, n))"
  obtains b digest m' where "filled_builder (reading literal_key max_nodes) mode view = Inr b" and "index_ok b"
    and "set predefined_records \<subseteq> set (mi_entities b)" and "freeze_ontology (fingerprint_of mode digest) b = Some (Inr (co, m'))"
proof -
  let ?C = "reading literal_key max_nodes"
  have limit: "1 \<le> max_nodes" using converter_okD(2) [OF C] by (simp add: reading_def)
  obtain b digest where b: "filled_builder ?C mode view = Inr b" "compatibility_digest sha256 b = Inr digest"
    using compiled unfolding compile_ontology_steps [OF limit mode] by (auto simp: cbind_def lift_def split: sum.splits)
  have "conv_ends False False (gains (rows_of ?C (view_axioms view)) ontology_builder) (filled_builder ?C mode view)"
    by (rule filled_builder_ends [OF C]) auto
  then have g: "gains (rows_of ?C (view_axioms view)) ontology_builder b" by (simp add: b)
  have pre: "set predefined_records \<subseteq> set (mi_entities b)"
    using gains_grows [OF g] by (simp add: index_grows_def builder_entities)
  obtain out where out: "freeze_ontology (fingerprint_of mode digest) b = Some out"
    using compiled unfolding compile_ontology_steps [OF limit mode]
    by (cases "freeze_ontology (fingerprint_of mode digest) b") (simp_all add: b lift_def lift_option_def)
  with compiled have "\<exists>m'. out = Inr (co, m')"
    unfolding compile_ontology_steps [OF limit mode] by (cases out) (auto simp: b lift_def lift_option_def)
  with out that b(1) gains_ok [OF g] pre show ?thesis by blast
qed

section \<open>A small ontology view\<close>

text \<open>The second row is there twice, with annotations; the last row is not supported.\<close>

definition sample_view :: ontology_view where
  "sample_view = \<lparr>view_rows =
      [\<lparr>row_axiom = OwlSubClassOf (OwlClass [65]) (OwlObjectSomeValuesFrom (OwlObjectProperty [82]) (OwlClass [66])), row_annotated = False\<rparr>,
       \<lparr>row_axiom = OwlSubClassOf (OwlObjectSomeValuesFrom (OwlObjectProperty [82]) (OwlClass [66])) (OwlClass [67]), row_annotated = True\<rparr>,
       \<lparr>row_axiom = OwlSubClassOf (OwlObjectSomeValuesFrom (OwlObjectProperty [82]) (OwlClass [66])) (OwlClass [67]), row_annotated = True\<rparr>,
       \<lparr>row_axiom = OwlClassAssertion (OwlNamedIndividual [97]) (OwlOtherExpression ''ObjectAllValuesFrom''), row_annotated = False\<rparr>],
     view_contains = (\<lambda>_. False), view_extensions = [], structural_digest = (\<lambda>ax. [])\<rparr>"

abbreviation no_literals :: "owl_literal \<Rightarrow> elk_compatibility_key result" where
  "no_literals \<equiv> \<lambda>l. Inl ValueError"

abbreviation zero_fingerprint :: "unsupported_mode \<Rightarrow> bytes \<Rightarrow> bytes" where
  "zero_fingerprint \<equiv> \<lambda>mode digest. replicate 32 0"

lemma sample_reading_ok: "converter_ok (reading no_literals 10)"
  by (simp add: converter_ok_def keys_nonempty_def reading_def)

lemma sample_contract: "view_contract sample_view"
  by (simp add: view_contract_def sample_view_def)

lemma sample_filled:
  "case filled_builder (reading no_literals 10) UNSUPPORTED_IGNORE sample_view of Inl _ \<Rightarrow> False
    | Inr b \<Rightarrow> builder_limits b \<and> mi_compatibility_observations b = []"
  by code_simp

lemma sample_rows_ok: "\<forall>row \<in> set (view_rows sample_view). axiom_ok (reading no_literals 10) (row_axiom row)"
proof -
  have "name_ok CLASS [65]" "name_ok CLASS [66]" "name_ok CLASS [67]" "name_ok OBJECT_PROPERTY [82]" "name_ok NAMED_INDIVIDUAL [97]"
    by (simp_all add: name_ok_def) code_simp+
  moreover have "dict_get UNSUPPORTED_EXPRESSION_FEATURE ''ObjectAllValuesFrom'' \<noteq> None" by code_simp
  ultimately show ?thesis by (simp add: sample_view_def expression_ok_def reading_def)
qed

lemma sample_builder_limits: "filled_builder (reading no_literals 10) UNSUPPORTED_IGNORE sample_view = Inr b \<Longrightarrow> builder_limits b"
  using sample_filled by simp

text \<open>Compilation of the sample view returns.\<close>

lemma sample_compiles:
  "\<exists>co n. compile_ontology (\<lambda>_. []) zero_fingerprint no_literals sample_view ''ignore'' 10 = Some (Inr (co, n))"
proof -
  obtain b where b: "filled_builder (reading no_literals 10) UNSUPPORTED_IGNORE sample_view = Inr b" "builder_limits b" "mi_compatibility_observations b = []"
    using sample_filled by (auto split: sum.splits)
  have ends: "conv_ends False False (gains (rows_of (reading no_literals 10) (view_axioms sample_view)) ontology_builder)
      (filled_builder (reading no_literals 10) UNSUPPORTED_IGNORE sample_view)"
    by (rule filled_builder_ends [OF sample_reading_ok]) auto
  then have g: "gains (rows_of (reading no_literals 10) (view_axioms sample_view)) ontology_builder b" by (simp add: b(1))
  have pre: "set predefined_records \<subseteq> set (mi_entities b)"
    using gains_grows [OF g] by (simp add: index_grows_def builder_entities)
  have digest: "compatibility_digest (\<lambda>_. []) b = Inr []" by (simp add: compatibility_digest_def b(3))
  have mode: "validate_unsupported ''ignore'' = Inr UNSUPPORTED_IGNORE" by (simp add: validate_unsupported_def)
  have size: "length (zero_fingerprint UNSUPPORTED_IGNORE []) = FINGERPRINT_SIZE" by (simp add: FINGERPRINT_SIZE_def)
  obtain co m' where f: "freeze_ontology (zero_fingerprint UNSUPPORTED_IGNORE []) b = Some (Inr (co, m'))"
    by (rule freeze_ontology_ok [OF gains_ok [OF g] builder_limits_fit [OF gains_ok [OF g] b(2)] pre size])
  show ?thesis
    by (intro exI [of _ co] exI) (simp add: compile_ontology_steps [of 10, OF _ mode] b(1) digest f lift_def lift_option_def)
qed

lemma sample_view_size: "length (view_rows sample_view) + length (view_extensions sample_view) = 4"
  by (simp add: sample_view_def)

text \<open>Its tables have an expression for the class of the first row.\<close>

lemma sample_class_expression:
  assumes compiled: "compile_ontology (\<lambda>_. []) zero_fingerprint no_literals sample_view ''ignore'' 10 = Some (Inr (co, n))"
  obtains r where "is_expression co r" and "table_tree co r = named_tree TAG_CLASS CLASS [65]"
proof -
  let ?C = "reading no_literals 10" and ?ax = "OwlSubClassOf (OwlClass [65]) (OwlObjectSomeValuesFrom (OwlObjectProperty [82]) (OwlClass [66]))"
  have mode: "validate_unsupported ''ignore'' = Inr UNSUPPORTED_IGNORE" by (simp add: validate_unsupported_def)
  have size: "length (zero_fingerprint mode digest) = FINGERPRINT_SIZE" for mode digest by (simp add: FINGERPRINT_SIZE_def)
  obtain b digest m' where b: "filled_builder ?C UNSUPPORTED_IGNORE sample_view = Inr b" "index_ok b"
    by (rule compiled_builder [OF sample_reading_ok mode compiled])
  have fits: "ontology_fits c" if "filled_builder ?C UNSUPPORTED_IGNORE sample_view = Inr c" for c
    using that b builder_limits_fit [OF b(2)] sample_builder_limits by simp
  have tables: "valid_ontology co" "table_axioms co = rows_of ?C (view_axioms sample_view)"
    using compiled_tables [where fingerprint_of = zero_fingerprint, OF sample_reading_ok size mode fits compiled] by blast+
  have axioms: "set (view_axioms sample_view) = {row_axiom row | row. row \<in> set (view_rows sample_view) \<and> \<not> is_annotation_axiom (row_axiom row)}"
    by (rule view_axioms_complete [OF sample_contract])
  have ok: "\<forall>ax \<in> set (view_axioms sample_view). axiom_ok ?C ax" using sample_rows_ok by (auto simp: axioms)
  have "axiom_supported ?ax" by code_simp
  moreover have "?ax \<in> set (view_axioms sample_view)" unfolding axioms by (force simp: sample_view_def)
  ultimately have "axiom_rows ?C ?ax \<subseteq> table_axioms co"
    unfolding tables(2) supported_rows [OF sample_reading_ok ok b(1)] by blast
  then obtain t where "SubClassAxiom (named_tree TAG_CLASS CLASS [65]) t \<in> table_axioms co" by auto
  then obtain a c where "(a, c) \<in> set (subclass_axioms co)" "table_tree co a = named_tree TAG_CLASS CLASS [65]"
    by (auto simp: table_axioms_def)
  moreover from tables(1) this(1) have "a < length (expressions co)"
    by (auto simp: valid_ontology_def compiled_ontology_check_def Let_def validate_sorted_pairs_def rall_Inr_iff)
  ultimately show ?thesis using that by (auto simp: is_expression_def)
qed

section \<open>Compilation\<close>

text \<open>C36: Compiling an ontology view, the digests of whose annotated axioms differ, either raises an overflow of a
  counter or returns validated tables whose axioms are exactly the normal axioms of every supported axiom of the
  view: no row is lost as a duplicate, an unsupported axiom leaves nothing behind, and nothing else is added.
  In the strict mode this holds when every axiom is supported and no extension is a SWRL rule.\<close>

theorem compilation_exact:
  assumes contract: "view_contract view" and C: "converter_ok (reading literal_key max_nodes)"
    and ok: "\<forall>row \<in> set (view_rows view). axiom_ok (reading literal_key max_nodes) (row_axiom row)"
    and mode: "validate_unsupported unsupported = Inr mode"
    and strict: "mode = UNSUPPORTED_ERROR \<longrightarrow> (\<forall>row \<in> set (view_rows view). axiom_supported (row_axiom row)) \<and> True \<notin> set (view_extensions view)"
    and limits: "\<forall>b. filled_builder (reading literal_key max_nodes) mode view = Inr b \<longrightarrow> builder_limits b"
    and fingerprint: "\<forall>mode digest. length (fingerprint_of mode digest) = FINGERPRINT_SIZE"
  shows "compile_ontology sha256 fingerprint_of literal_key view unsupported max_nodes = Some (Inl (Raised OverflowError)) \<or>
    (\<exists>co. compile_ontology sha256 fingerprint_of literal_key view unsupported max_nodes =
         Some (Inr (co, length (view_rows view) + length (view_extensions view))) \<and>
       compiled_ontology_check co = Inr () \<and> usable_ontology co \<and>
       table_axioms co = (\<Union>row \<in> {row \<in> set (view_rows view). axiom_supported (row_axiom row)}. axiom_rows (reading literal_key max_nodes) (row_axiom row)))"
proof -
  let ?C = "reading literal_key max_nodes"
  let ?run = "compile_ontology sha256 fingerprint_of literal_key view unsupported max_nodes"
  let ?n = "length (view_rows view) + length (view_extensions view)"
  have size: "length (fingerprint_of mode digest) = FINGERPRINT_SIZE" for mode digest using fingerprint by blast
  have parts: "keys_nonempty ?C" "1 \<le> max_nodes" using converter_okD [OF C] by (simp_all add: reading_def)
  have axioms: "set (view_axioms view) = {row_axiom row | row. row \<in> set (view_rows view) \<and> \<not> is_annotation_axiom (row_axiom row)}"
    by (rule view_axioms_complete [OF contract])
  have ok': "\<forall>ax \<in> set (view_axioms view). axiom_ok ?C ax" using ok by (auto simp: axioms)
  have strict': "mode = UNSUPPORTED_ERROR \<Longrightarrow> (\<forall>ax \<in> set (view_axioms view). axiom_supported ax) \<and> True \<notin> set (view_extensions view)"
    using strict by (auto simp: axioms)
  have fits: "ontology_fits b" if b: "filled_builder ?C mode view = Inr b" for b
  proof -
    have "conv_ends False False (gains (rows_of ?C (view_axioms view)) ontology_builder) (filled_builder ?C mode view)"
      by (rule filled_builder_ends [OF C]) auto
    with b have "gains (rows_of ?C (view_axioms view)) ontology_builder b" by simp
    from builder_limits_fit [OF gains_ok [OF this]] limits b show ?thesis by simp
  qed
  consider "?run = Some (Inl (Raised OverflowError))" | b co where "filled_builder ?C mode view = Inr b" "?run = Some (Inr (co, ?n))"
      "valid_ontology co" "table_axioms co = rows_of ?C (view_axioms view)"
    using compile_ontology_ends [where fingerprint_of = fingerprint_of, OF parts size mode ok' strict' fits, of sha256] by blast
  then show ?thesis
  proof cases
    case 2
    have "axiom_rows ?C ax = {}" if "is_annotation_axiom ax" for ax using that by (cases ax) simp_all
    then have "table_axioms co = (\<Union>row \<in> {row \<in> set (view_rows view). axiom_supported (row_axiom row)}. axiom_rows ?C (row_axiom row))"
      unfolding 2(4) supported_rows [OF C ok' 2(1)] by (auto simp: axioms)
    moreover obtain b' digest m' where "filled_builder ?C mode view = Inr b'" "index_ok b'" "set predefined_records \<subseteq> set (mi_entities b')"
      "freeze_ontology (fingerprint_of mode digest) b' = Some (Inr (co, m'))"
      by (rule compiled_builder [OF C mode 2(2)])
    then have "usable_ontology co" using frozen_limits limits fingerprint by blast
    ultimately show ?thesis using 2(2,3) by (simp add: valid_ontology_def)
  qed simp
qed

lemma compilation_exact_witness:
  "\<exists>co. compile_ontology (\<lambda>_. []) zero_fingerprint no_literals sample_view ''ignore'' 10 = Some (Inr (co, 4)) \<and> usable_ontology co \<and>
    SubClassAxiom (named_tree TAG_CLASS CLASS [65]) (some_tree \<lparr>kind = OBJECT_PROPERTY, iri = [82]\<rparr> (named_tree TAG_CLASS CLASS [66])) \<in> table_axioms co"
proof -
  have mode: "validate_unsupported ''ignore'' = Inr UNSUPPORTED_IGNORE" by (simp add: validate_unsupported_def)
  have limits: "\<forall>b. filled_builder (reading no_literals 10) UNSUPPORTED_IGNORE sample_view = Inr b \<longrightarrow> builder_limits b"
    using sample_builder_limits by blast
  have size: "\<forall>mode digest. length (zero_fingerprint mode digest) = FINGERPRINT_SIZE" by (simp add: FINGERPRINT_SIZE_def)
  have "UNSUPPORTED_IGNORE = UNSUPPORTED_ERROR \<longrightarrow> (\<forall>row \<in> set (view_rows sample_view). axiom_supported (row_axiom row)) \<and> True \<notin> set (view_extensions sample_view)"
    by simp
  note exact = compilation_exact [OF sample_contract sample_reading_ok sample_rows_ok mode this limits size, of "\<lambda>_. []"]
  let ?ax = "OwlSubClassOf (OwlClass [65]) (OwlObjectSomeValuesFrom (OwlObjectProperty [82]) (OwlClass [66]))"
  have supported: "axiom_supported ?ax" by code_simp
  have row: "\<lparr>row_axiom = ?ax, row_annotated = False\<rparr> \<in> set (view_rows sample_view)" by (simp add: sample_view_def)
  obtain co where co: "compile_ontology (\<lambda>_. []) zero_fingerprint no_literals sample_view ''ignore'' 10 = Some (Inr (co, 4))" "usable_ontology co"
    "table_axioms co = (\<Union>row \<in> {row \<in> set (view_rows sample_view). axiom_supported (row_axiom row)}. axiom_rows (reading no_literals 10) (row_axiom row))"
    using exact sample_compiles by (auto simp: sample_view_size)
  have "axiom_rows (reading no_literals 10) ?ax \<subseteq> table_axioms co" unfolding co(3) using supported row by fastforce
  with co(1,2) show ?thesis by (auto simp: property_entity_def)
qed

end
