(* ===== verification/Owl_Entailment.thy ===== *)
theory Owl_Entailment
  imports Owl_Results
begin

text \<open>
  Theorems about meaning: conversion keeps the meaning of expressions and axioms, and what the reasoner reports
  about a compiled ontology view holds in every interpretation of OWL that satisfies the view.
\<close>

section \<open>An interpretation with one element\<close>

definition one_point :: "nat owl_interp" where
  "one_point = \<lparr>oi_domain = {0}, oi_class = (\<lambda>i. if i = OWL_NOTHING_IRI then {} else {0}),
     oi_property = (\<lambda>p. if p = OWL_BOTTOM_OBJECT_PROPERTY_IRI then {} else {(0, 0)}), oi_individual = (\<lambda>_. 0), oi_data = (\<lambda>_ _. {})\<rparr>"

lemma one_point_interprets: "owl_interpretation one_point"
  by (auto simp: owl_interpretation_def one_point_def)

lemma sample_iris: "[65] \<noteq> OWL_NOTHING_IRI" "[66] \<noteq> OWL_NOTHING_IRI" "[67] \<noteq> OWL_NOTHING_IRI" "[82] \<noteq> OWL_BOTTOM_OBJECT_PROPERTY_IRI"
  by code_simp+

text \<open>It satisfies the rows of the sample view that are inside the fragment; the row outside does not matter.\<close>

lemma one_point_satisfies: "\<forall>row \<in> set (view_rows sample_view). plain_axiom (row_axiom row) \<longrightarrow> owl_satisfies C one_point (row_axiom row)"
  using sample_iris by (simp add: sample_view_def one_point_def some_ext_def)

section \<open>Expressions and axioms\<close>

text \<open>C39: The explicit-stack conversion of a class expression is the recursive conversion of its parts as long as
  the expression has at most as many nodes as the limit allows.  Beyond the limit it fails, with the exception the
  recursion would raise or with a \<open>ValueError\<close>.\<close>

theorem conversion_loop_is_recursion:
  "if nodes v \<le> ec_node_limit C then convert_expression C v pol m = convert_value C v pol m
   else (\<exists>x. convert_expression C v pol m = Inl x \<and> (x = Raised ValueError \<or> convert_value C v pol m = Inl x))"
  by (rule convert_expression_recursion)

text \<open>C38: A converted class expression has a handle whose expression tree means, in every interpretation, what the
  OWL expression means; no axiom is added on the way and the handles there were keep their trees.\<close>

theorem expression_meaning_kept:
  assumes "owl_interpretation J" and "keys_nonempty C" and "index_ok m" and "convert_expression C v pol m = Inr (h, m')"
  shows "h < length (mi_expressions m') \<and> tree_ext J (index_tree m' h) = owl_ext C J v \<and> index_axioms m' = index_axioms m \<and>
    (\<forall>k < length (mi_expressions m). index_tree m' k = index_tree m k)"
proof -
  have "step_ends False False (leaves m (value_tree C v)) (convert_expression C v pol) m"
    by (rule convert_expression_ends [OF assms(2,3)]) simp_all
  then have l: "gains {} m m'" "stands m' h (value_tree C v)" using assms(4) by (simp_all add: step_ends_def leaves_def)
  moreover have "index_tree m' k = index_tree m k" if "k < length (mi_expressions m)" for k
    using index_grows_tree [OF gains_grows [OF l(1)], of k] that by (simp add: is_handle_def)
  ultimately show ?thesis
    using value_tree_ext [OF assms(1) converted_expression [OF assms(4)]] gains_axioms [OF l(1)] by (simp add: stands_def is_handle_def)
qed

lemma sample_expression_converts:
  "\<exists>h m'. convert_expression (reading no_literals 10) (OwlObjectSomeValuesFrom (OwlObjectProperty [82]) (OwlClass [66])) POSITIVE empty_index = Inr (h, m')"
proof -
  have "case convert_expression (reading no_literals 10) (OwlObjectSomeValuesFrom (OwlObjectProperty [82]) (OwlClass [66])) POSITIVE empty_index of
      Inl _ \<Rightarrow> False | Inr _ \<Rightarrow> True"
    by code_simp
  then show ?thesis by (auto split: sum.splits)
qed

lemma expression_meaning_kept_witness:
  "\<exists>h m'. convert_expression (reading no_literals 10) (OwlObjectSomeValuesFrom (OwlObjectProperty [82]) (OwlClass [66])) POSITIVE empty_index = Inr (h, m') \<and>
    tree_ext one_point (index_tree m' h) = some_ext {(0, 0)} {0}"
proof -
  obtain h m' where c: "convert_expression (reading no_literals 10) (OwlObjectSomeValuesFrom (OwlObjectProperty [82]) (OwlClass [66])) POSITIVE empty_index = Inr (h, m')"
    using sample_expression_converts by blast
  from expression_meaning_kept [OF one_point_interprets converter_okD(1) [OF sample_reading_ok] empty_index_ok c] c sample_iris
  show ?thesis by (auto simp: one_point_def)
qed

text \<open>C37: What the converter leaves of an axiom is implied by it, and implies it unless the axiom is a disjoint union of
  at least two classes, of which only the disjointness and the inclusions of the members are kept.\<close>

theorem axiom_meaning_kept:
  assumes "owl_interpretation J" and "converter_ok C" and "convert_axiom C ax empty_index = Inr (u, m)"
  shows "(owl_satisfies C J ax \<longrightarrow> (\<forall>n \<in> index_axioms m. satisfies_normal J n)) \<and>
    (fully_kept ax \<longrightarrow> (\<forall>n \<in> index_axioms m. satisfies_normal J n) \<longrightarrow> owl_satisfies C J ax)"
proof -
  have "step_ends False False (\<lambda>_. gains (axiom_rows C ax) empty_index) (convert_axiom C ax) empty_index"
    by (rule convert_axiom_ends [OF assms(2) empty_index_ok]) simp_all
  then have "gains (axiom_rows C ax) empty_index m" using assms(3) by (simp add: step_ends_def)
  from gains_axioms [OF this] have rows: "index_axioms m = axiom_rows C ax" by (simp add: empty_index_axioms)
  have "converted C ax" using assms(3) by (simp add: converted_def)
  then have "plain_axiom ax" by (rule converted_plain)
  from axiom_rows_meaning [OF assms(1) this, of C] show ?thesis unfolding rows by blast
qed

lemma sample_axiom_converts:
  "\<exists>u m. convert_axiom (reading no_literals 10) (OwlTransitiveObjectProperty (OwlObjectProperty [82])) empty_index = Inr (u, m)"
proof -
  have "case convert_axiom (reading no_literals 10) (OwlTransitiveObjectProperty (OwlObjectProperty [82])) empty_index of Inl _ \<Rightarrow> False | Inr _ \<Rightarrow> True"
    by code_simp
  then show ?thesis by (auto split: sum.splits)
qed

lemma axiom_meaning_kept_witness:
  "\<exists>u m. convert_axiom (reading no_literals 10) (OwlTransitiveObjectProperty (OwlObjectProperty [82])) empty_index = Inr (u, m) \<and>
    (\<forall>n \<in> index_axioms m. satisfies_normal one_point n)"
proof -
  obtain u m where c: "convert_axiom (reading no_literals 10) (OwlTransitiveObjectProperty (OwlObjectProperty [82])) empty_index = Inr (u, m)"
    using sample_axiom_converts by blast
  have "owl_satisfies (reading no_literals 10) one_point (OwlTransitiveObjectProperty (OwlObjectProperty [82]))"
    by (auto simp: one_point_def)
  with axiom_meaning_kept [OF one_point_interprets sample_reading_ok c] c show ?thesis by blast
qed

section \<open>Entailment\<close>

lemma axiom_rows_range: "RangeAxiom p t \<in> axiom_rows C ax \<Longrightarrow> \<exists>q v. ax = OwlObjectPropertyRange q v"
proof (cases ax)
  case (OwlEquivalentClasses vs)
  then show "RangeAxiom p t \<in> axiom_rows C ax \<Longrightarrow> ?thesis" by (cases "map (value_tree C) vs") (auto simp: equivalence_axiom_def split: if_splits)
next
  case (OwlDisjointClasses vs)
  have "RangeAxiom p t \<notin> exclusion_axioms ts" for ts by (induction ts) auto
  with OwlDisjointClasses show "RangeAxiom p t \<in> axiom_rows C ax \<Longrightarrow> ?thesis" by (auto simp: disjointness_axioms_def split: if_splits)
next
  case (OwlDisjointUnion d vs)
  have "RangeAxiom p t \<notin> exclusion_axioms ts" for ts by (induction ts) auto
  with OwlDisjointUnion show "RangeAxiom p t \<in> axiom_rows C ax \<Longrightarrow> ?thesis"
    by (auto simp: disjointness_axioms_def union_axioms_def equivalence_axiom_def split: if_splits list.splits)
next
  case (OwlDifferentIndividuals vs)
  have "RangeAxiom p t \<notin> exclusion_axioms ts" for ts by (induction ts) auto
  with OwlDifferentIndividuals show "RangeAxiom p t \<in> axiom_rows C ax \<Longrightarrow> ?thesis" by (auto simp: disjointness_axioms_def split: if_splits)
next
  case (OwlSameIndividual vs)
  then show "RangeAxiom p t \<in> axiom_rows C ax \<Longrightarrow> ?thesis" by (cases vs) auto
next
  case (OwlEquivalentObjectProperties ps)
  then show "RangeAxiom p t \<in> axiom_rows C ax \<Longrightarrow> ?thesis" by (cases ps) auto
qed simp_all

text \<open>The interpretation of the compiled tables is a model of them.\<close>

lemma compiled_model:
  assumes C: "converter_ok (reading literal_key max_nodes)" and mode: "validate_unsupported unsupported = Inr mode"
    and limits: "\<forall>b. filled_builder (reading literal_key max_nodes) mode view = Inr b \<longrightarrow> builder_limits b"
    and fingerprint: "\<forall>mode digest. length (fingerprint_of mode digest) = FINGERPRINT_SIZE"
    and compiled: "compile_ontology sha256 fingerprint_of literal_key view unsupported max_nodes = Some (Inr (co, n))"
    and J: "owl_interpretation J"
    and holds: "\<forall>row \<in> set (view_rows view). plain_axiom (row_axiom row) \<longrightarrow> owl_satisfies (reading literal_key max_nodes) J (row_axiom row)"
  shows "usable_ontology co" and "is_model co (table_interp co J)"
    and "(\<And>row p v. row \<in> set (view_rows view) \<Longrightarrow> plain_axiom (row_axiom row) \<Longrightarrow> row_axiom row \<noteq> OwlObjectPropertyRange p v) \<Longrightarrow> property_ranges co = []"
proof -
  let ?C = "reading literal_key max_nodes"
  obtain b digest m' where b: "filled_builder ?C mode view = Inr b" "index_ok b" "set predefined_records \<subseteq> set (mi_entities b)"
    "freeze_ontology (fingerprint_of mode digest) b = Some (Inr (co, m'))"
    by (rule compiled_builder [OF C mode compiled])
  show "usable_ontology co" using frozen_limits b limits fingerprint by blast
  have size: "length (fingerprint_of mode digest) = FINGERPRINT_SIZE" for mode digest using fingerprint by blast
  have fits: "ontology_fits c" if "filled_builder ?C mode view = Inr c" for c
    using that b builder_limits_fit limits by simp
  have tables: "valid_ontology co" "table_axioms co = rows_of ?C (view_axioms view)"
    using compiled_tables [where fingerprint_of = fingerprint_of, OF C size mode fits compiled] by blast+
  have view: "\<exists>row \<in> set (view_rows view). ax = row_axiom row" if "ax \<in> set (view_axioms view)" for ax
    using that considered_rows [of view "view_rows view" "[]"] by (auto simp: view_axioms_def)
  have "satisfies_normal J n" if n: "n \<in> table_axioms co" for n
  proof -
    from n obtain ax where ax: "ax \<in> set (view_axioms view)" "converted ?C ax" "n \<in> axiom_rows ?C ax"
      unfolding tables(2) rows_of_def by blast
    then have "owl_satisfies ?C J ax" using view holds converted_plain by blast
    from axiom_rows_meaning(1) [OF J converted_plain [OF ax(2)] this] ax(3) show ?thesis by blast
  qed
  with table_model [OF J tables(1)] show "is_model co (table_interp co J)" by blast
  assume none: "\<And>row p v. row \<in> set (view_rows view) \<Longrightarrow> plain_axiom (row_axiom row) \<Longrightarrow> row_axiom row \<noteq> OwlObjectPropertyRange p v"
  have "RangeAxiom p t \<notin> table_axioms co" for p t
    unfolding tables(2) rows_of_def using axiom_rows_range view none converted_plain by blast
  then show "property_ranges co = []" by (rule table_ranges)
qed

text \<open>C35: An ontology view is compiled, no axiom of which inside the supported fragment is a property range, and a set of its
  expressions is saturated: then every subsumer that the engine reports for a context is entailed by the axioms of the view.  In
  every OWL interpretation that satisfies the rows inside the fragment, the meaning of the context's class
  expression is inside the meaning of the subsumer, and an expression reported inconsistent is empty.  Rows outside the
  fragment (an anonymous individual, an inverse property, an expression of another kind) put no condition on the interpretation:
  skipping them adds nothing.\<close>

theorem compiled_subsumers_entailed:
  fixes J :: "'d owl_interp"
  assumes C: "converter_ok (reading literal_key max_nodes)" and mode: "validate_unsupported unsupported = Inr mode"
    and limits: "\<forall>b. filled_builder (reading literal_key max_nodes) mode view = Inr b \<longrightarrow> builder_limits b"
    and fingerprint: "\<forall>mode digest. length (fingerprint_of mode digest) = FINGERPRINT_SIZE"
    and compiled: "compile_ontology sha256 fingerprint_of literal_key view unsupported max_nodes = Some (Inr (co, n))"
    and ranges: "\<forall>row \<in> set (view_rows view). plain_axiom (row_axiom row) \<longrightarrow> (\<forall>p v. row_axiom row \<noteq> OwlObjectPropertyRange p v)"
    and J: "owl_interpretation J"
    and holds: "\<forall>row \<in> set (view_rows view). plain_axiom (row_axiom row) \<longrightarrow> owl_satisfies (reading literal_key max_nodes) J (row_axiom row)"
    and rs: "\<forall>r \<in> set rs. is_expression co r"
  shows "\<exists>e snap e'. create_engine co = Some (Inr e) \<and> run rs None never e = Some (Inr snap, e') \<and>
    (\<forall>(r, fz) \<in> set (snap_contexts snap). \<forall>v. plain v \<longrightarrow> table_tree co r = value_tree (reading literal_key max_nodes) v \<longrightarrow>
       (fz_inconsistent fz \<longrightarrow> owl_ext (reading literal_key max_nodes) J v = {}) \<and>
       (\<forall>s \<in> set (fz_composed_subsumers fz) \<union> set (fz_decomposed_subsumers fz). \<forall>w. plain w \<longrightarrow>
          table_tree co s = value_tree (reading literal_key max_nodes) w \<longrightarrow>
          owl_ext (reading literal_key max_nodes) J v \<subseteq> owl_ext (reading literal_key max_nodes) J w))"
proof -
  note m = compiled_model [OF C mode limits fingerprint compiled J holds]
  obtain ps e snap e' where r: "saturate_properties co = Some (Inr ps)" "create_engine co = Some (Inr e)"
    "run rs None never e = Some (Inr snap, e')" "at_rest co ps (set rs) e'" "active e' = []"
    "snapshot False e' = Inr snap"
    by (rule fresh_run [OF m(1) rs])
  have set: "class_setting co ps" using m(1) r(1) by (simp add: class_setting_def saturated_view_def usable_ontology_def)
  have none: "property_ranges co = []" using m(3) ranges by blast
  note sound = snapshot_sound [OF set m(2) none r(4-6), unfolded table_interp_simps]
  note trees = value_tree_ext [OF J, of _ "reading literal_key max_nodes"]
  have "(fz_inconsistent fz \<longrightarrow> owl_ext (reading literal_key max_nodes) J v = {}) \<and>
      (s \<in> set (fz_composed_subsumers fz) \<union> set (fz_decomposed_subsumers fz) \<longrightarrow> plain w \<longrightarrow>
        table_tree co s = value_tree (reading literal_key max_nodes) w \<longrightarrow>
        owl_ext (reading literal_key max_nodes) J v \<subseteq> owl_ext (reading literal_key max_nodes) J w)"
    if "(r, fz) \<in> set (snap_contexts snap)" "plain v" "table_tree co r = value_tree (reading literal_key max_nodes) v" for r fz s v w
    using sound [OF that(1)] trees [OF that(2)] trees [of w] that(3) by metis
  with r(2,3) show ?thesis by blast
qed

text \<open>The class of the first row is not reported inconsistent, although the view has a row outside the fragment.\<close>

lemma compiled_subsumers_entailed_witness:
  "\<exists>co n r e snap e'. compile_ontology (\<lambda>_. []) zero_fingerprint no_literals sample_view ''ignore'' 10 = Some (Inr (co, n)) \<and>
    table_tree co r = named_tree TAG_CLASS CLASS [65] \<and> create_engine co = Some (Inr e) \<and> run [r] None never e = Some (Inr snap, e') \<and>
    (\<forall>(r', fz) \<in> set (snap_contexts snap). r' = r \<longrightarrow> \<not> fz_inconsistent fz)"
proof -
  let ?C = "reading no_literals 10"
  have mode: "validate_unsupported ''ignore'' = Inr UNSUPPORTED_IGNORE" by (simp add: validate_unsupported_def)
  have limits: "\<forall>b. filled_builder ?C UNSUPPORTED_IGNORE sample_view = Inr b \<longrightarrow> builder_limits b"
    using sample_builder_limits by blast
  have size: "\<forall>mode digest. length (zero_fingerprint mode digest) = FINGERPRINT_SIZE" by (simp add: FINGERPRINT_SIZE_def)
  obtain co n where co: "compile_ontology (\<lambda>_. []) zero_fingerprint no_literals sample_view ''ignore'' 10 = Some (Inr (co, n))"
    using sample_compiles by blast
  obtain r where r: "is_expression co r" "table_tree co r = named_tree TAG_CLASS CLASS [65]" by (rule sample_class_expression [OF co])
  have ranges: "\<forall>row \<in> set (view_rows sample_view). plain_axiom (row_axiom row) \<longrightarrow> (\<forall>p v. row_axiom row \<noteq> OwlObjectPropertyRange p v)"
    by (simp add: sample_view_def)
  have "\<forall>r \<in> set [r]. is_expression co r" using r by simp
  from compiled_subsumers_entailed [OF sample_reading_ok mode limits size co ranges one_point_interprets one_point_satisfies this]
  obtain e snap e' where e: "create_engine co = Some (Inr e)" "run [r] None never e = Some (Inr snap, e')"
    "\<And>r fz v. (r, fz) \<in> set (snap_contexts snap) \<Longrightarrow> plain v \<Longrightarrow> table_tree co r = value_tree ?C v \<Longrightarrow>
       fz_inconsistent fz \<Longrightarrow> owl_ext ?C one_point v = {}"
    by fast
  have "\<not> fz_inconsistent fz" if "(r, fz) \<in> set (snap_contexts snap)" for fz
    using e(3) [OF that, of "OwlClass [65]"] r(2) sample_iris by (auto simp: one_point_def)
  with co r(2) e(1,2) show ?thesis by blast
qed

end
