(* ===== verification/Spec2Isabelle.thy ===== *)
theory Spec2Isabelle
  imports Property_Taxonomy Codec_Theorems Engine_Progress Owl_Entailment
begin

text \<open>
  A development about pyELK (\<open>src/pyelk\<close>), a consequence-based reasoner for the EL fragment of OWL.

  \<^bold>\<open>The program.\<close>  The compiler reads the axioms of an ontology view, converts each into a transaction of an index
  of expressions and normal axioms, and freezes the index into validated tables, which have a binary encoding.  The
  property stage closes the sub-property hierarchy over a table of property chains and derives the ranges and the chain
  compositions.  The class stage keeps one context for each demanded expression and applies inference rules to
  conclusions, routed between contexts by an engine, until nothing new follows.  A session runs the stages in order,
  decides consistency and builds taxonomies by quotient and transitive reduction.

  \<^bold>\<open>Conventions\<close> (\<open>Prelude\<close>, \<open>IR\<close>).  A Python exception is a value of \<open>py_error\<close>, a call that may raise has the
  type \<open>'a result\<close>, and a call whose loop need not end returns an option in which \<open>None\<close> stands for not returning.
  Identifiers are natural numbers with the 32-bit and 64-bit limits of the source tested where it tests them; \<open>str\<close>
  is a list of code points and \<open>bytes\<close> a list of 8-bit words; dictionaries are lists of pairs in insertion order.
  Python sets are sets, or lists without repetition when they are iterated.

  \<^bold>\<open>Theories and sources.\<close>

  \<^item> \<open>indexing/ir.py\<close>: \<open>IR\<close>, \<open>Query_IR\<close> (records and the checks of the constructors), \<open>Expression_Order\<close> (the
    deterministic order of the expression tables).
  \<^item> \<open>indexing/codec.py\<close>: \<open>Codec\<close>, \<open>Codec_Tables\<close> over \<open>Utf8\<close> and \<open>Blake2b\<close> (the strict decoder and the
    checksum of the standard library, written out); \<open>Codec_Layout\<close>, \<open>Codec_Results\<close>, \<open>Codec_Safety\<close> and
    \<open>Codec_Theorems\<close> show the sizes, the round trips and that decoding refuses everything else.
  \<^item> \<open>indexing/polarity.py\<close>, \<open>indexing/builder.py\<close>: \<open>Builder\<close>; \<open>Builder_Freeze\<close> to \<open>Builder_Ontology\<close> show that freezing ends,
    that the tables pass validation and hold the axioms of the index, read over expression trees; \<open>Builder_Merge\<close> and
    \<open>Builder_Counters\<close> what a committed transaction adds and when a counter overflows.  Results in
    \<open>Builder_Results\<close> and \<open>Builder_Limits\<close>.
  \<^item> \<open>indexing/conversion.py\<close>: \<open>Conversion\<close>, \<open>Axiom_Conversion\<close>; \<open>Conversion_Loop\<close> relates the explicit stack to the
    recursion, \<open>Conversion_Trees\<close> and \<open>Axiom_Trees\<close> give the trees and rows each OWL value and axiom leaves.
  \<^item> \<open>indexing/compiler.py\<close>: \<open>Compiler\<close>, with its results in \<open>Compiler_Results\<close>, \<open>Owl_Results\<close> and \<open>Owl_Entailment\<close>, over
    the direct semantics of OWL in \<open>Owl_Semantics\<close>.
  \<^item> \<open>reasoning/properties.py\<close>: \<open>Chains\<close>, \<open>Properties\<close>; \<open>Property_Closure\<close>, \<open>Property_Stage\<close> and \<open>Property_Results\<close> show the
    closure, ranges and compositions exact; \<open>Property_View\<close> is the interface the rules read, the locale
    \<open>property_view\<close>.
  \<^item> \<open>reasoning/conclusions.py\<close>, \<open>contexts.py\<close>, \<open>rules.py\<close>: \<open>Conclusions\<close>, \<open>Contexts\<close> (with the locale \<open>agenda\<close> the
    engine relies on), \<open>Rules\<close>, \<open>Dispatcher\<close>.  \<open>Calculus\<close> states the inference rules declaratively;
    \<open>Dispatch_Tables\<close> to \<open>Dispatch_Subsumers\<close> show that dispatch refines them (the locale \<open>rule_source\<close>).
  \<^item> \<open>reasoning/saturation.py\<close>: \<open>Saturation\<close>; \<open>Saturation_Invariant\<close> to \<open>Saturation_Results\<close> show that a run ends and
    computes the derivable conclusions, \<open>Engine_History\<close>, \<open>Engine_Results\<close> and \<open>Engine_Progress\<close> what holds after any
    history of calls, stopped runs included.
  \<^item> \<open>reasoning/consistency.py\<close>, \<open>session.py\<close>: \<open>Consistency\<close>, \<open>Session\<close>, \<open>Session_Results\<close>; \<open>Locality\<close> shows that without
    ranges a verdict does not depend on the history, and that with ranges it does.
  \<^item> \<open>reasoning/reduction.py\<close>: \<open>Reduction\<close>; \<open>Reduction_Components\<close> to \<open>Reduction_Results\<close> (strong components, the order
    of Kahn's algorithm over the locale \<open>worklist\<close>, the least transitive reduction).
  \<^item> \<open>reasoning/taxonomy.py\<close> and the taxonomy of \<open>contracts.py\<close>: \<open>Taxonomy\<close>, \<open>Raw_Taxonomy\<close>; \<open>Taxonomy_Results\<close>,
    \<open>Class_Taxonomy\<close>, \<open>Property_Taxonomy\<close>.
  \<^item> \<open>Semantics\<close> and \<open>Soundness\<close> give the frozen tables a meaning of their own and show the rules sound for it when no
    property range is declared, with a counterexample otherwise.  \<open>Sample\<close> is the concrete ontology of the witnesses.

  \<^bold>\<open>The chain of results.\<close>  Conversion keeps the meaning of what it accepts, compilation keeps exactly the normal axioms of
  the accepted rows, freezing keeps the axioms of the index, the engine computes exactly what the rules derive, and the
  rules are sound: so a reported subsumer is entailed by the OWL axioms that were compiled.

  \<^bold>\<open>Bounds.\<close>  \<open>valid_ontology\<close> is acceptance by the constructor of the tables; \<open>usable_ontology\<close> adds what the later stages
  need to stay inside 32-bit identifiers: fewer than \<open>U32_RESERVED\<close> entities, expressions and chain suffixes (\<open>property_limits\<close>) and
  rows no longer than that (\<open>class_limits\<close>).  \<open>builder_limits\<close> states the same of an index before it is frozen, and
  \<open>wire_size\<close> below two to the power of 64 is what the offsets of the codec need.  No loop runs on fuel: the loops that need a termination argument are
  partial functions, and their results are stated as an equation with \<open>Some\<close>.

  \<^bold>\<open>What is taken from outside.\<close>  The values of \<open>pyowl_core\<close> are datatypes with the fields the code reads; the rows of a view, its
  \<open>contains\<close> and structural digests, the signature of a query, SHA-256, \<open>str.lower\<close> and the fingerprint of the source (\<open>_source_fingerprint\<close>,
  a digest of fingerprints that core computes) are arguments; of the fingerprint only its length of 32 bytes matters.
  \<open>view_contract\<close> states what is relied on: no two different annotated axioms share a digest.

  \<^bold>\<open>Not modelled.\<close>  What reads finished saturations: \<open>entailment.py\<close> and \<open>queries.py\<close> with the overlay that installs a query
  beside the ontology, \<open>realization.py\<close>, the packing of raw results in \<open>wire.py\<close>, and the feature report \<open>completeness.py\<close>.  Further
  \<open>encoded.py\<close>, which hands opaque buffers to the native compiler; registration, summary and metadata; the choice of a backend and the Rust
  bridge; the public interface and its inputs; the release tools.
\<close>

end
